(* ===== verification/Prelude.thy ===== *)
theory Prelude
  imports Main "HOL-Library.Word"
begin

text \<open>
  Shared vocabulary of the development: the machine types of the C++ source, failure as a value,
  raw memory (buffers, \<open>memcpy\<close>, uninitialised storage), the little-endian layout of
  \<open>unsigned\<close> words in memory, C strings, and the two division helpers of
  \<open>lib/utility.hh\<close>. Every component theory imports this one.
\<close>

unbundle bit_operations_syntax

section \<open>Machine types and failure\<close>

type_synonym byte = "8 word"
type_synonym u32 = "32 word"

text \<open>
  How an operation of the system can fail to return: an \<open>ASSERT\<close> that does not hold
  (\<open>lib/assert.cc\<close> aborts), an access outside an array, a null pointer, a wait that never
  ends when no other thread runs, a loop that never ends, a trap of the host processor, and the end
  of the simulation.
\<close>

datatype error =
    AssertFailed
  | OutOfBounds
  | NullDeref
  | WouldBlock
  | Diverges
  | HostTrap
  | Halted

type_synonym 'a res = "error + 'a"

fun rbind :: "'a res \<Rightarrow> ('a \<Rightarrow> 'b res) \<Rightarrow> 'b res" where
  "rbind (Inl e) f = Inl e"
| "rbind (Inr x) f = f x"

definition rassert :: "bool \<Rightarrow> unit res" where
  "rassert b = (if b then Inr () else Inl AssertFailed)"

definition rcheck :: "error \<Rightarrow> bool \<Rightarrow> unit res" where
  "rcheck e b = (if b then Inr () else Inl e)"

text \<open>Sequencing a list of fallible actions, left to right.\<close>

fun rmap :: "('a \<Rightarrow> 'b res) \<Rightarrow> 'a list \<Rightarrow> 'b list res" where
  "rmap f [] = Inr []"
| "rmap f (x # xs) = rbind (f x) (\<lambda>y. rbind (rmap f xs) (\<lambda>ys. Inr (y # ys)))"

named_theorems res_simps \<open>the result monad\<close>
named_theorems codec_simps \<open>memory layout round trips\<close>

lemma rbind_Inr_iff [res_simps]: "rbind m f = Inr y \<longleftrightarrow> (\<exists>x. m = Inr x \<and> f x = Inr y)"
  by (cases m) auto

lemma rbind_Inl_iff [res_simps]: "rbind m f = Inl e \<longleftrightarrow> m = Inl e \<or> (\<exists>x. m = Inr x \<and> f x = Inl e)"
  by (cases m) auto

lemma rassert_Inr [simp]: "rassert b = Inr u \<longleftrightarrow> b"
  by (simp add: rassert_def)

lemma rassert_Inl [simp]: "rassert b = Inl e \<longleftrightarrow> \<not> b \<and> e = AssertFailed"
  by (auto simp: rassert_def)

lemma rassert_True [simp]: "rassert True = Inr ()"
  by (simp add: rassert_def)

lemma rassert_False [simp]: "rassert False = Inl AssertFailed"
  by (simp add: rassert_def)

lemma rcheck_Inr [simp]: "rcheck e b = Inr u \<longleftrightarrow> b"
  by (simp add: rcheck_def)

lemma rcheck_Inl [simp]: "rcheck e b = Inl e' \<longleftrightarrow> \<not> b \<and> e' = e"
  by (auto simp: rcheck_def)

lemma rcheck_True [simp]: "rcheck e True = Inr ()"
  by (simp add: rcheck_def)

lemma rcheck_False [simp]: "rcheck e False = Inl e"
  by (simp add: rcheck_def)

lemma rbind_cong [fundef_cong]:
  "m = m' \<Longrightarrow> (\<And>x. m' = Inr x \<Longrightarrow> f x = f' x) \<Longrightarrow> rbind m f = rbind m' f'"
  by (cases m') auto

lemma rmap_Inr_length: "rmap f xs = Inr ys \<Longrightarrow> length ys = length xs"
  by (induction xs arbitrary: ys) (auto simp: res_simps)

lemma rmap_Inr_map: "(\<And>x. x \<in> set xs \<Longrightarrow> f x = Inr (g x)) \<Longrightarrow> rmap f xs = Inr (map g xs)"
  by (induction xs) auto

section \<open>Buffers\<close>

text \<open>\<open>memcpy (buf + pos, data, length data)\<close>: the bytes from \<open>pos\<close> on are replaced.\<close>

definition overlay :: "'a list \<Rightarrow> nat \<Rightarrow> 'a list \<Rightarrow> 'a list" where
  "overlay buf pos data = take pos buf @ data @ drop (pos + length data) buf"

text \<open>The part of a buffer that starts at \<open>pos\<close> and is \<open>n\<close> bytes long.\<close>

definition slice :: "nat \<Rightarrow> nat \<Rightarrow> 'a list \<Rightarrow> 'a list" where
  "slice pos n buf = take n (drop pos buf)"

text \<open>
  Storage that \<open>new\<close> hands out is not initialised. Its contents are a parameter of the
  model: \<open>junk i\<close> is byte \<open>i\<close> of the block, whatever it is.
\<close>

definition fresh_bytes :: "(nat \<Rightarrow> byte) \<Rightarrow> nat \<Rightarrow> byte list" where
  "fresh_bytes junk n = map junk [0..<n]"

lemma length_overlay [simp]:
  "pos + length data \<le> length buf \<Longrightarrow> length (overlay buf pos data) = length buf"
  by (simp add: overlay_def)

lemma overlay_all [simp]: "length data = length buf \<Longrightarrow> overlay buf 0 data = data"
  by (simp add: overlay_def)

lemma overlay_Nil [simp]: "overlay buf pos [] = buf"
  by (simp add: overlay_def)

lemma nth_overlay:
  assumes "pos + length data \<le> length buf" and "i < length buf"
  shows "overlay buf pos data ! i =
    (if pos \<le> i \<and> i < pos + length data then data ! (i - pos) else buf ! i)"
  using assms by (auto simp: overlay_def nth_append)

lemma length_slice [simp]: "length (slice pos n buf) = min n (length buf - pos)"
  by (simp add: slice_def)

lemma nth_slice [simp]: "i < n \<Longrightarrow> pos + i < length buf \<Longrightarrow> slice pos n buf ! i = buf ! (pos + i)"
  by (simp add: slice_def)

lemma slice_overlay_same [simp]:
  "pos + length data \<le> length buf \<Longrightarrow> slice pos (length data) (overlay buf pos data) = data"
  by (simp add: slice_def overlay_def)

lemma slice_all [simp]: "length buf = n \<Longrightarrow> slice 0 n buf = buf"
  by (simp add: slice_def)

lemma length_fresh_bytes [simp]: "length (fresh_bytes junk n) = n"
  by (simp add: fresh_bytes_def)

section \<open>Words in memory\<close>

text \<open>
  The host is little-endian (\<open>CheckEndian\<close> of \<open>machine/machine.cc\<close> insists on it), so
  an \<open>unsigned\<close> occupies four bytes, the low one first.
\<close>

definition u32_bytes :: "u32 \<Rightarrow> byte list" where
  "u32_bytes w = [ucast w, ucast (drop_bit 8 w), ucast (drop_bit 16 w), ucast (drop_bit 24 w)]"

definition bytes_u32 :: "byte list \<Rightarrow> u32" where
  "bytes_u32 bs =
     ucast (bs ! 0) OR push_bit 8 (ucast (bs ! 1))
       OR push_bit 16 (ucast (bs ! 2)) OR push_bit 24 (ucast (bs ! 3))"

text \<open>Arrays of words.\<close>

definition words_bytes :: "u32 list \<Rightarrow> byte list" where
  "words_bytes ws = concat (map u32_bytes ws)"

fun bytes_words :: "nat \<Rightarrow> byte list \<Rightarrow> u32 list" where
  "bytes_words 0 bs = []"
| "bytes_words (Suc n) bs = bytes_u32 (take 4 bs) # bytes_words n (drop 4 bs)"

lemma length_u32_bytes [simp]: "length (u32_bytes w) = 4"
  by (simp add: u32_bytes_def)

lemma length_words_bytes [simp]: "length (words_bytes ws) = 4 * length ws"
  by (induction ws) (simp_all add: words_bytes_def)

lemma length_bytes_words [simp]: "length (bytes_words n bs) = n"
  by (induction n arbitrary: bs) simp_all

lemma bytes_u32_bytes [simp, codec_simps]: "bytes_u32 (u32_bytes w) = w"
proof (rule bit_word_eqI)
  fix n assume "n < LENGTH(32)"
  then consider "n < 8" | "8 \<le> n" "n < 16" | "16 \<le> n" "n < 24" | "24 \<le> n" "n < 32"
    by fastforce
  then show "bit (bytes_u32 (u32_bytes w)) n \<longleftrightarrow> bit w n"
    by cases (simp_all add: bytes_u32_def u32_bytes_def bit_simps, auto)
qed

lemma words_bytes_Nil [simp]: "words_bytes [] = []"
  by (simp add: words_bytes_def)

lemma words_bytes_Cons [simp]: "words_bytes (w # ws) = u32_bytes w @ words_bytes ws"
  by (simp add: words_bytes_def)

lemma bytes_words_append [codec_simps]:
  "n = length ws \<Longrightarrow> bytes_words n (words_bytes ws @ rest) = ws"
  by (induction ws arbitrary: n) (simp_all add: codec_simps)

lemma bytes_words_bytes [codec_simps]: "n = length ws \<Longrightarrow> bytes_words n (words_bytes ws) = ws"
  using bytes_words_append [of n ws "[]"] by simp

lemma u32_bytes_u32:
  assumes "length bs = 4"
  shows "u32_bytes (bytes_u32 bs) = bs"
proof -
  from assms obtain a b c d where bs: "bs = [a, b, c, d]"
    by (auto simp: length_Suc_conv numeral_eq_Suc)
  have "ucast (bytes_u32 bs) = a"
    by (rule bit_word_eqI) (simp add: bytes_u32_def bs bit_simps)
  moreover have "ucast (drop_bit 8 (bytes_u32 bs)) = b"
    by (rule bit_word_eqI) (simp add: bytes_u32_def bs bit_simps, auto dest: bit_imp_le_length)
  moreover have "ucast (drop_bit 16 (bytes_u32 bs)) = c"
    by (rule bit_word_eqI) (simp add: bytes_u32_def bs bit_simps, auto dest: bit_imp_le_length)
  moreover have "ucast (drop_bit 24 (bytes_u32 bs)) = d"
    by (rule bit_word_eqI) (simp add: bytes_u32_def bs bit_simps, auto dest: bit_imp_le_length)
  ultimately show ?thesis by (simp add: u32_bytes_def bs)
qed

lemma words_bytes_words: "length bs = 4 * n \<Longrightarrow> words_bytes (bytes_words n bs) = bs"
  by (induction n arbitrary: bs) (simp_all add: u32_bytes_u32)

section \<open>C strings\<close>

text \<open>
  A \<open>char *\<close> argument is the list of its bytes without the terminating zero. A
  fixed-size \<open>char\<close> array is a byte list; \<open>cstr n buf\<close> is what a string function
  that looks at no more than \<open>n\<close> bytes sees of it.
\<close>

definition cstr :: "nat \<Rightarrow> byte list \<Rightarrow> byte list" where
  "cstr n buf = takeWhile (\<lambda>b. b \<noteq> 0) (take n buf)"

text \<open>\<open>!strncmp (buf, s, n)\<close>\<close>

definition strncmp_eq :: "byte list \<Rightarrow> byte list \<Rightarrow> nat \<Rightarrow> bool" where
  "strncmp_eq buf s n = (cstr n buf = cstr n s)"

text \<open>
  \<open>strncpy (buf, s, n)\<close> writes exactly \<open>n\<close> bytes: the string cut to \<open>n\<close> bytes,
  padded with zeros when it is shorter. It writes no zero when the string has \<open>n\<close> bytes
  or more.
\<close>

definition strncpy :: "byte list \<Rightarrow> byte list \<Rightarrow> nat \<Rightarrow> byte list" where
  "strncpy buf s n = overlay buf 0 (take n s @ replicate (n - length s) 0)"

definition is_cstring :: "byte list \<Rightarrow> bool" where
  "is_cstring s = (0 \<notin> set s)"

lemma cstr_is_cstring [simp]: "is_cstring s \<Longrightarrow> cstr n s = take n s"
  by (auto simp: cstr_def is_cstring_def takeWhile_eq_all_conv dest: in_set_takeD)

lemma length_cstr: "length (cstr n buf) \<le> n"
  unfolding cstr_def using length_takeWhile_le [of "\<lambda>b. b \<noteq> 0" "take n buf"] by simp

lemma length_strncpy [simp]: "n \<le> length buf \<Longrightarrow> length (strncpy buf s n) = length buf"
  by (simp add: strncpy_def min_def)

lemma cstr_append_zeros: "is_cstring s \<Longrightarrow> cstr n (take n s @ replicate (n - length s) 0 @ rest) = take n s"
proof -
  assume s: "is_cstring s"
  have "takeWhile (\<lambda>b. b \<noteq> 0) (take n s @ replicate (n - length s) 0) = take n s"
    using s by (subst takeWhile_append2)
      (auto simp: is_cstring_def takeWhile_eq_Nil_iff dest: in_set_takeD split: nat_diff_split)
  moreover have "take n (take n s @ replicate (n - length s) 0 @ rest) = take n s @ replicate (n - length s) 0"
    by simp
  ultimately show ?thesis
    by (simp only: cstr_def)
qed

lemma cstr_strncpy [simp]: "is_cstring s \<Longrightarrow> cstr n (strncpy buf s n) = take n s"
  by (simp add: strncpy_def overlay_def cstr_append_zeros)

section \<open>Division helpers of the source\<close>

text \<open>
  \<open>DivRoundDown\<close> and \<open>DivRoundUp\<close> are templates; the file system uses them at
  \<open>unsigned\<close>. The quotient and the carried one cannot overflow.
\<close>

definition DivRoundDown :: "u32 \<Rightarrow> u32 \<Rightarrow> u32" where
  "DivRoundDown n s = n div s"

definition DivRoundUp :: "u32 \<Rightarrow> u32 \<Rightarrow> u32" where
  "DivRoundUp n s = n div s + (if n mod s > 0 then 1 else 0)"

lemma unat_DivRoundDown: "unat (DivRoundDown n s) = unat n div unat s"
  by (simp add: DivRoundDown_def unat_div)

lemma nat_div_round_up:
  assumes "0 < (s::nat)"
  shows "n div s + (if n mod s > 0 then 1 else 0) = (n + (s - 1)) div s"
proof (cases "n mod s = 0")
  case True
  then obtain k where k: "n = s * k" by auto
  have "(s * k + (s - 1)) div s = k + (s - 1) div s"
    using assms by (intro div_mult_self4) simp
  with assms k show ?thesis by simp
next
  case False
  have "n + (s - 1) = s * (n div s + 1) + (n mod s - 1)"
  proof -
    have "n + (s - 1) = s * (n div s) + n mod s + (s - 1)" by simp
    also have "\<dots> = s * (n div s) + s + (n mod s - 1)"
      using False assms by linarith
    also have "s * (n div s) + s = s * (n div s + 1)" by simp
    finally show ?thesis .
  qed
  moreover have "n mod s - 1 < s"
    using assms mod_less_divisor [of s n] by linarith
  moreover have "(s * (n div s + 1) + (n mod s - 1)) div s = n div s + 1 + (n mod s - 1) div s"
    using assms by (intro div_mult_self4) simp
  ultimately have "(n + (s - 1)) div s = n div s + 1"
    by (simp only: div_less)
  with False show ?thesis by simp
qed

lemma unat_DivRoundUp:
  assumes "1 < unat s"
  shows "unat (DivRoundUp n s) = (unat n + (unat s - 1)) div unat s"
proof -
  have q: "unat n div unat s \<le> unat n div 2"
    using assms by (intro div_le_mono2) auto
  have "unat n < 2 ^ 32" using unsigned_less [of n] by simp
  with q have "unat n div unat s + 1 < 2 ^ 32" by simp
  moreover have "unat (n mod s) = unat n mod unat s" by (rule unat_mod)
  ultimately have "unat (DivRoundUp n s) = unat n div unat s + (if unat n mod unat s > 0 then 1 else 0)"
    by (auto simp: DivRoundUp_def unat_word_ariths unat_div word_less_nat_alt simp del: unat_mod)
  then show ?thesis using assms nat_div_round_up [of "unat s" "unat n"] by simp
qed

end
