(* ===== verification/Linked_List.thy ===== *)
theory Linked_List
  imports Prelude "HOL-Library.Multiset"
begin

text \<open>
  \<open>lib/list.hh\<close>: the singly linked list with keys that the scheduler, the interrupt queue, the
  synchronisation primitives and \<open>Table\<close> are built on. The first section is the class on an
  explicit heap of nodes, with the \<open>first\<close> and \<open>last\<close> pointers; the second gives the same
  operations on plain lists of (item, key) pairs, which is what the clients use; the third shows
  that the pointer operations implement them, and that a list filled with \<open>SortedInsert\<close> is
  drained in the order of its keys.
\<close>

section \<open>The class on a heap of nodes\<close>

type_synonym addr = nat

record 'a ListElement =
  nxt :: "addr option"
  key :: int
  item :: 'a

text \<open>
  \<open>brk\<close> is the next address the allocator hands out; a deleted node is absent from the heap.
\<close>

record 'a clist =
  heap :: "addr \<Rightarrow> 'a ListElement option"
  brk :: addr
  first_ptr :: "addr option"
  last_ptr :: "addr option"

definition deref :: "'a clist \<Rightarrow> addr option \<Rightarrow> (addr \<times> 'a ListElement) res" where
  "deref l p = (case p of None \<Rightarrow> Inl NullDeref
     | Some a \<Rightarrow> (case heap l a of None \<Rightarrow> Inl NullDeref | Some n \<Rightarrow> Inr (a, n)))"

text \<open>\<open>p->next = q\<close>\<close>

definition set_next :: "'a clist \<Rightarrow> addr option \<Rightarrow> addr option \<Rightarrow> 'a clist res" where
  "set_next l p q = rbind (deref l p) (\<lambda>(a, n).
     Inr (l\<lparr>heap := (heap l)(a \<mapsto> n\<lparr>nxt := q\<rparr>)\<rparr>))"

definition ListElement_new :: "'a clist \<Rightarrow> 'a \<Rightarrow> int \<Rightarrow> addr \<times> 'a clist" where
  "ListElement_new l x sortKey =
     (brk l, l\<lparr>heap := (heap l)(brk l \<mapsto> \<lparr>nxt = None, key = sortKey, item = x\<rparr>),
               brk := Suc (brk l)\<rparr>)"

definition List_new :: "'a clist" where
  "List_new = \<lparr>heap = Map.empty, brk = 0, first_ptr = None, last_ptr = None\<rparr>"

definition List_IsEmpty :: "'a clist \<Rightarrow> bool" where
  "List_IsEmpty l \<longleftrightarrow> first_ptr l = None"

definition List_Append :: "'a clist \<Rightarrow> 'a \<Rightarrow> 'a clist res" where
  "List_Append l x = (let (e, l1) = ListElement_new l x 0 in
     if List_IsEmpty l1 then Inr (l1\<lparr>first_ptr := Some e, last_ptr := Some e\<rparr>)
     else rbind (set_next l1 (last_ptr l1) (Some e)) (\<lambda>l2. Inr (l2\<lparr>last_ptr := Some e\<rparr>)))"

definition List_Prepend :: "'a clist \<Rightarrow> 'a \<Rightarrow> 'a clist res" where
  "List_Prepend l x = (let (e, l1) = ListElement_new l x 0 in
     if List_IsEmpty l1 then Inr (l1\<lparr>first_ptr := Some e, last_ptr := Some e\<rparr>)
     else rbind (set_next l1 (Some e) (first_ptr l1)) (\<lambda>l2. Inr (l2\<lparr>first_ptr := Some e\<rparr>)))"

definition List_Head :: "'a clist \<Rightarrow> 'a res" where
  "List_Head l = rbind (rassert (\<not> List_IsEmpty l)) (\<lambda>_.
     rbind (deref l (first_ptr l)) (\<lambda>(a, n). Inr (item n)))"

text \<open>
  \<open>SortedPop\<close> returns the item with its key; \<open>None\<close> stands for the default \<open>Item()\<close> of an
  empty list, for which \<open>*keyPtr\<close> is left alone.
\<close>

definition List_SortedPop :: "'a clist \<Rightarrow> (('a \<times> int) option \<times> 'a clist) res" where
  "List_SortedPop l =
     (if List_IsEmpty l then Inr (None, l)
      else rbind (deref l (first_ptr l)) (\<lambda>(a, n).
        let l1 = (if first_ptr l = last_ptr l then l\<lparr>first_ptr := None, last_ptr := None\<rparr>
                  else l\<lparr>first_ptr := nxt n\<rparr>)
        in Inr (Some (item n, key n), l1\<lparr>heap := (heap l1)(a := None)\<rparr>)))"

definition List_Pop :: "'a clist \<Rightarrow> ('a option \<times> 'a clist) res" where
  "List_Pop l = rbind (List_SortedPop l) (\<lambda>(r, l'). Inr (map_option fst r, l'))"

text \<open>
  The loops walk the \<open>next\<close> pointers. Their fuel is the number of nodes ever allocated, more than
  a list without a cycle can have.
\<close>

fun List_Remove_loop :: "nat \<Rightarrow> 'a clist \<Rightarrow> 'a \<Rightarrow> addr option \<Rightarrow> addr option \<Rightarrow> 'a clist res" where
  "List_Remove_loop fuel l x prev None = Inr l"
| "List_Remove_loop 0 l x prev (Some p) = Inl Diverges"
| "List_Remove_loop (Suc fuel) l x prev (Some p) =
     rbind (deref l (Some p)) (\<lambda>(a, n).
       if x = item n then
         rbind (if prev \<noteq> None then set_next l prev (nxt n) else Inr l) (\<lambda>l1.
           let l2 = (if first_ptr l1 = Some p then l1\<lparr>first_ptr := nxt n\<rparr> else l1);
               l3 = (if last_ptr l2 = Some p then l2\<lparr>last_ptr := prev\<rparr> else l2)
           in Inr (l3\<lparr>heap := (heap l3)(p := None)\<rparr>))
       else List_Remove_loop fuel l x (Some p) (nxt n))"

definition List_Remove :: "'a clist \<Rightarrow> 'a \<Rightarrow> 'a clist res" where
  "List_Remove l x = List_Remove_loop (brk l) l x None (first_ptr l)"

fun List_Has_loop :: "nat \<Rightarrow> 'a clist \<Rightarrow> 'a \<Rightarrow> addr option \<Rightarrow> bool res" where
  "List_Has_loop fuel l x None = Inr False"
| "List_Has_loop 0 l x (Some p) = Inl Diverges"
| "List_Has_loop (Suc fuel) l x (Some p) =
     rbind (deref l (Some p)) (\<lambda>(a, n).
       if x = item n then Inr True else List_Has_loop fuel l x (nxt n))"

definition List_Has :: "'a clist \<Rightarrow> 'a \<Rightarrow> bool res" where
  "List_Has l x = List_Has_loop (brk l) l x (first_ptr l)"

text \<open>\<open>Apply\<close> calls \<open>func\<close> on every item; the model threads the state \<open>func\<close> changes.\<close>

fun List_Apply_loop :: "nat \<Rightarrow> 'a clist \<Rightarrow> ('a \<Rightarrow> 's \<Rightarrow> 's) \<Rightarrow> addr option \<Rightarrow> 's \<Rightarrow> 's res" where
  "List_Apply_loop fuel l f None s = Inr s"
| "List_Apply_loop 0 l f (Some p) s = Inl Diverges"
| "List_Apply_loop (Suc fuel) l f (Some p) s =
     rbind (deref l (Some p)) (\<lambda>(a, n). List_Apply_loop fuel l f (nxt n) (f (item n) s))"

definition List_Apply :: "'a clist \<Rightarrow> ('a \<Rightarrow> 's \<Rightarrow> 's) \<Rightarrow> 's \<Rightarrow> 's res" where
  "List_Apply l f s = List_Apply_loop (brk l) l f (first_ptr l) s"

text \<open>
  \<open>SortedInsert\<close> and \<open>SortedInsertInverted\<close> have the same text but for the comparison
  \<open>before\<close> of the new key with a key of the list.
\<close>

fun List_insert_loop :: "(int \<Rightarrow> int \<Rightarrow> bool) \<Rightarrow> nat \<Rightarrow> 'a clist \<Rightarrow> addr \<Rightarrow> int \<Rightarrow> addr \<Rightarrow> 'a clist res" where
  "List_insert_loop before 0 l e sortKey p = Inl Diverges"
| "List_insert_loop before (Suc fuel) l e sortKey p =
     rbind (deref l (Some p)) (\<lambda>(a, n).
       case nxt n of
         None \<Rightarrow> rbind (set_next l (last_ptr l) (Some e)) (\<lambda>l1. Inr (l1\<lparr>last_ptr := Some e\<rparr>))
       | Some q \<Rightarrow> rbind (deref l (Some q)) (\<lambda>(b, m).
           if before sortKey (key m) then
             rbind (set_next l (Some e) (Some q)) (\<lambda>l1. set_next l1 (Some p) (Some e))
           else List_insert_loop before fuel l e sortKey q))"

definition List_insert_by :: "(int \<Rightarrow> int \<Rightarrow> bool) \<Rightarrow> 'a clist \<Rightarrow> 'a \<Rightarrow> int \<Rightarrow> 'a clist res" where
  "List_insert_by before l x sortKey = (let (e, l1) = ListElement_new l x sortKey in
     case first_ptr l1 of
       None \<Rightarrow> Inr (l1\<lparr>first_ptr := Some e, last_ptr := Some e\<rparr>)
     | Some f \<Rightarrow> rbind (deref l1 (Some f)) (\<lambda>(a, n).
         if before sortKey (key n) then
           rbind (set_next l1 (Some e) (Some f)) (\<lambda>l2. Inr (l2\<lparr>first_ptr := Some e\<rparr>))
         else List_insert_loop before (brk l1) l1 e sortKey f))"

definition List_SortedInsert :: "'a clist \<Rightarrow> 'a \<Rightarrow> int \<Rightarrow> 'a clist res" where
  "List_SortedInsert = List_insert_by (\<lambda>k j. k < j)"

definition List_SortedInsertInverted :: "'a clist \<Rightarrow> 'a \<Rightarrow> int \<Rightarrow> 'a clist res" where
  "List_SortedInsertInverted = List_insert_by (\<lambda>k j. k > j)"

text \<open>The destructor: pop until empty; its loop ends because every pop shortens the list.\<close>

fun List_delete_loop :: "nat \<Rightarrow> 'a clist \<Rightarrow> 'a clist res" where
  "List_delete_loop 0 l = (if List_IsEmpty l then Inr l else Inl Diverges)"
| "List_delete_loop (Suc fuel) l =
     (if List_IsEmpty l then Inr l else rbind (List_Pop l) (\<lambda>(x, l'). List_delete_loop fuel l'))"

definition List_delete :: "'a clist \<Rightarrow> 'a clist res" where
  "List_delete l = List_delete_loop (brk l) l"

section \<open>The operations on lists of pairs\<close>

type_synonym 'a klist = "('a \<times> int) list"

fun kl_insert :: "(int \<Rightarrow> int \<Rightarrow> bool) \<Rightarrow> 'a \<Rightarrow> int \<Rightarrow> 'a klist \<Rightarrow> 'a klist" where
  "kl_insert before x k [] = [(x, k)]"
| "kl_insert before x k ((y, j) # ys) =
     (if before k j then (x, k) # (y, j) # ys else (y, j) # kl_insert before x k ys)"

definition kl_SortedInsert :: "'a \<Rightarrow> int \<Rightarrow> 'a klist \<Rightarrow> 'a klist" where
  "kl_SortedInsert = kl_insert (\<lambda>k j. k < j)"

definition kl_SortedInsertInverted :: "'a \<Rightarrow> int \<Rightarrow> 'a klist \<Rightarrow> 'a klist" where
  "kl_SortedInsertInverted = kl_insert (\<lambda>k j. k > j)"

fun kl_Remove :: "'a \<Rightarrow> 'a klist \<Rightarrow> 'a klist" where
  "kl_Remove x [] = []"
| "kl_Remove x ((y, j) # ys) = (if x = y then ys else (y, j) # kl_Remove x ys)"

definition kl_Append :: "'a \<Rightarrow> 'a klist \<Rightarrow> 'a klist" where
  "kl_Append x xs = xs @ [(x, 0)]"

definition kl_Has :: "'a \<Rightarrow> 'a klist \<Rightarrow> bool" where
  "kl_Has x xs = (x \<in> fst ` set xs)"

section \<open>The pointers implement the lists\<close>

text \<open>\<open>seg h p as q\<close>: following \<open>next\<close> from \<open>p\<close> visits the nodes \<open>as\<close> and arrives at \<open>q\<close>.\<close>

fun seg :: "(addr \<Rightarrow> 'a ListElement option) \<Rightarrow> addr option \<Rightarrow> addr list \<Rightarrow> addr option \<Rightarrow> bool" where
  "seg h p [] q \<longleftrightarrow> p = q"
| "seg h p (a # as) q \<longleftrightarrow> p = Some a \<and> (\<exists>n. h a = Some n \<and> seg h (nxt n) as q)"

definition node_pair :: "(addr \<Rightarrow> 'a ListElement option) \<Rightarrow> addr \<Rightarrow> 'a \<times> int" where
  "node_pair h a = (item (the (h a)), key (the (h a)))"

definition clist_nodes :: "'a clist \<Rightarrow> addr list \<Rightarrow> bool" where
  "clist_nodes l as \<longleftrightarrow> seg (heap l) (first_ptr l) as None \<and> distinct as
     \<and> last_ptr l = (if as = [] then None else Some (last as)) \<and> dom (heap l) \<subseteq> {..<brk l}"

definition clist_rep :: "'a clist \<Rightarrow> 'a klist \<Rightarrow> bool" where
  "clist_rep l xs \<longleftrightarrow> (\<exists>as. clist_nodes l as \<and> xs = map (node_pair (heap l)) as)"

lemma seg_append: "seg h p (as @ bs) q \<longleftrightarrow> (\<exists>m. seg h p as m \<and> seg h m bs q)"
  by (induction as arbitrary: p) auto

lemma seg_update [simp]: "a \<notin> set as \<Longrightarrow> seg (h(a := n)) p as q = seg h p as q"
  by (induction as arbitrary: p) auto

lemma seg_dom: "seg h p as q \<Longrightarrow> set as \<subseteq> dom h"
  by (induction as arbitrary: p) auto

lemma map_node_pair_update [simp]:
  "a \<notin> set as \<Longrightarrow> map (node_pair (h(a := n))) as = map (node_pair h) as"
  by (auto simp: node_pair_def)

lemma map_node_pair_same:
  "(\<And>a. a \<in> set as \<Longrightarrow> node_pair h a = node_pair h' a) \<Longrightarrow> map (node_pair h) as = map (node_pair h') as"
  by simp

lemma clist_nodes_bound:
  assumes "clist_nodes l as"
  shows "length as \<le> brk l"
proof -
  have "set as \<subseteq> {..<brk l}" "distinct as"
    using assms seg_dom unfolding clist_nodes_def by (blast, simp)
  then show ?thesis
    by (metis card_lessThan card_mono distinct_card finite_lessThan)
qed

lemma clist_rep_new: "clist_rep List_new []"
  by (simp add: clist_rep_def clist_nodes_def List_new_def)

lemma clist_rep_IsEmpty: "clist_rep l xs \<Longrightarrow> List_IsEmpty l = (xs = [])"
  by (auto simp: clist_rep_def clist_nodes_def List_IsEmpty_def neq_Nil_conv split: if_splits)

lemma clist_rep_fields:
  "clist_rep l xs \<Longrightarrow> heap l' = heap l \<Longrightarrow> brk l' = brk l \<Longrightarrow> first_ptr l' = first_ptr l \<Longrightarrow>
    last_ptr l' = last_ptr l \<Longrightarrow> clist_rep l' xs"
  by (simp add: clist_rep_def clist_nodes_def)

lemma clist_rep_Append:
  assumes "clist_rep l xs"
  shows "\<exists>l'. List_Append l x = Inr l' \<and> clist_rep l' (kl_Append x xs)"
proof -
  from assms obtain as where as: "clist_nodes l as" "xs = map (node_pair (heap l)) as"
    by (auto simp: clist_rep_def)
  have b: "brk l \<notin> set as" using as(1) seg_dom unfolding clist_nodes_def by fastforce
  show ?thesis
  proof (cases as rule: rev_cases)
    case Nil
    then show ?thesis using as
      by (auto simp: List_Append_def ListElement_new_def List_IsEmpty_def clist_rep_def
          clist_nodes_def kl_Append_def node_pair_def intro!: exI [of _ "[brk l]"])
  next
    case (snoc bs z)
    from as(1) snoc obtain n where z: "seg (heap l) (first_ptr l) bs (Some z)" "heap l z = Some n"
      "nxt n = None" "distinct (bs @ [z])" "last_ptr l = Some z" "dom (heap l) \<subseteq> {..<brk l}"
      by (auto simp: clist_nodes_def seg_append)
    let ?h = "(heap l)(brk l \<mapsto> \<lparr>nxt = None, key = 0, item = x\<rparr>, z \<mapsto> n\<lparr>nxt := Some (brk l)\<rparr>)"
    let ?l = "l\<lparr>brk := Suc (brk l), heap := ?h, last_ptr := Some (brk l)\<rparr>"
    have ne: "z \<noteq> brk l" "brk l \<notin> set bs" using b snoc by auto
    have "List_IsEmpty l \<longleftrightarrow> False"
      using as clist_rep_IsEmpty [OF assms] snoc by simp
    then have "List_Append l x = Inr ?l" using z ne
      by (auto simp: List_Append_def ListElement_new_def List_IsEmpty_def set_next_def deref_def)
    moreover have "clist_nodes ?l (bs @ [z, brk l])"
      using z ne by (auto simp: clist_nodes_def seg_append)
    moreover have "map (node_pair ?h) (bs @ [z, brk l]) = kl_Append x xs"
      using as(2) snoc z ne by (simp add: node_pair_def kl_Append_def)
    ultimately show ?thesis unfolding clist_rep_def
      by (intro exI [of _ ?l] conjI exI [of _ "bs @ [z, brk l]"]) simp_all
  qed
qed

lemma clist_rep_push:
  assumes "clist_rep l xs"
  shows "clist_rep \<lparr>heap = (heap l)(brk l \<mapsto> \<lparr>nxt = first_ptr l, key = k, item = x\<rparr>),
    brk = Suc (brk l), first_ptr = Some (brk l),
    last_ptr = (if xs = [] then Some (brk l) else last_ptr l)\<rparr> ((x, k) # xs)"
proof -
  from assms obtain as where as: "clist_nodes l as" "xs = map (node_pair (heap l)) as"
    by (auto simp: clist_rep_def)
  have b: "brk l \<notin> set as" using as(1) seg_dom unfolding clist_nodes_def by fastforce
  with as show ?thesis unfolding clist_rep_def
    by (intro exI [of _ "brk l # as"]) (auto simp: clist_nodes_def node_pair_def)
qed

lemma clist_rep_Prepend:
  assumes "clist_rep l xs"
  shows "\<exists>l'. List_Prepend l x = Inr l' \<and> clist_rep l' ((x, 0) # xs)"
  using clist_rep_push [OF assms, of 0 x] clist_rep_IsEmpty [OF assms]
  by (auto simp: List_Prepend_def ListElement_new_def List_IsEmpty_def set_next_def deref_def
      elim!: clist_rep_fields)

lemma clist_rep_Head:
  assumes "clist_rep l xs"
  shows "List_Head l = (if xs = [] then Inl AssertFailed else Inr (fst (hd xs)))"
proof (cases xs)
  case Nil
  then show ?thesis using clist_rep_IsEmpty [OF assms] by (simp add: List_Head_def)
next
  case (Cons y ys)
  then show ?thesis using clist_rep_IsEmpty [OF assms] assms
    by (auto simp: List_Head_def deref_def clist_rep_def clist_nodes_def node_pair_def Cons_eq_map_conv)
qed

lemma clist_rep_SortedPop:
  assumes "clist_rep l xs"
  shows "\<exists>l'. List_SortedPop l = Inr (if xs = [] then None else Some (hd xs), l') \<and> clist_rep l' (tl xs)"
proof (cases xs)
  case Nil
  then show ?thesis using clist_rep_IsEmpty [OF assms] assms by (simp add: List_SortedPop_def)
next
  case (Cons y ys)
  with assms obtain a as n where a: "clist_nodes l (a # as)" "heap l a = Some n" "first_ptr l = Some a"
    "xs = map (node_pair (heap l)) (a # as)" "seg (heap l) (nxt n) as None"
    by (auto simp: clist_rep_def clist_nodes_def Cons_eq_map_conv)
  have "first_ptr l = last_ptr l \<longleftrightarrow> as = []"
    using a(1,3) by (auto simp: clist_nodes_def dest: last_in_set)
  with a clist_rep_IsEmpty [OF assms] show ?thesis unfolding clist_rep_def
    by (auto simp: List_SortedPop_def deref_def clist_nodes_def node_pair_def intro!: exI [of _ as])
qed

lemma clist_rep_Pop:
  assumes "clist_rep l xs"
  shows "\<exists>l'. List_Pop l = Inr (if xs = [] then None else Some (fst (hd xs)), l') \<and> clist_rep l' (tl xs)"
  using clist_rep_SortedPop [OF assms] by (auto simp: List_Pop_def)

lemma Has_loop:
  assumes "seg (heap l) p as None" "length as \<le> fuel"
  shows "List_Has_loop fuel l x p = Inr (kl_Has x (map (node_pair (heap l)) as))"
  using assms
proof (induction as arbitrary: p fuel)
  case (Cons a as)
  then show ?case by (cases fuel) (auto simp: deref_def kl_Has_def node_pair_def)
qed (simp add: kl_Has_def)

lemma clist_rep_Has: "clist_rep l xs \<Longrightarrow> List_Has l x = Inr (kl_Has x xs)"
  using clist_nodes_bound [of l]
  by (auto simp: clist_rep_def List_Has_def clist_nodes_def intro!: Has_loop)

lemma Apply_loop:
  assumes "seg (heap l) p as None" "length as \<le> fuel"
  shows "List_Apply_loop fuel l f p s = Inr (fold f (map fst (map (node_pair (heap l)) as)) s)"
  using assms
proof (induction as arbitrary: p fuel s)
  case (Cons a as)
  then show ?case by (cases fuel) (auto simp: deref_def node_pair_def)
qed simp

lemma clist_rep_Apply: "clist_rep l xs \<Longrightarrow> List_Apply l f s = Inr (fold f (map fst xs) s)"
  using clist_nodes_bound [of l]
  by (auto simp: clist_rep_def List_Apply_def clist_nodes_def simp del: map_map intro!: Apply_loop)

lemma clist_rep_delete_loop:
  "clist_rep l xs \<Longrightarrow> length xs \<le> fuel \<Longrightarrow> \<exists>l'. List_delete_loop fuel l = Inr l' \<and> clist_rep l' []"
proof (induction fuel arbitrary: l xs)
  case 0
  then show ?case using clist_rep_IsEmpty [OF 0(1)] by auto
next
  case (Suc fuel)
  show ?case
  proof (cases "xs = []")
    case True
    then show ?thesis using Suc.prems clist_rep_IsEmpty [OF Suc.prems(1)] by auto
  next
    case False
    from clist_rep_Pop [OF Suc.prems(1)] False obtain l' where
      "List_Pop l = Inr (Some (fst (hd xs)), l')" "clist_rep l' (tl xs)" by auto
    with Suc.IH [of l' "tl xs"] Suc.prems False clist_rep_IsEmpty [OF Suc.prems(1)]
    show ?thesis by auto
  qed
qed

lemma clist_rep_length: "clist_rep l xs \<Longrightarrow> length xs \<le> brk l"
  using clist_nodes_bound by (auto simp: clist_rep_def)

lemma clist_rep_delete: "clist_rep l xs \<Longrightarrow> \<exists>l'. List_delete l = Inr l' \<and> clist_rep l' []"
  using clist_rep_delete_loop clist_rep_length unfolding List_delete_def by blast

text \<open>Walking to the place of a new element: the nodes before \<open>p\<close> stay as they are.\<close>

lemma insert_loop:
  assumes "seg (heap l) (first_ptr l) bs (Some p)" "seg (heap l) (Some p) (p # cs) None"
    and "distinct (e # bs @ p # cs)" "heap l e = Some ne" "nxt ne = None" "key ne = k"
    and "last_ptr l = Some (last (p # cs))" "length cs < fuel"
  shows "\<exists>h' ds. List_insert_loop before fuel l e k p =
      Inr (l\<lparr>heap := h', last_ptr := Some (last ds)\<rparr>)
    \<and> seg h' (first_ptr l) ds None \<and> distinct ds \<and> set ds = insert e (set (bs @ p # cs))
    \<and> dom h' = dom (heap l) \<and> node_pair h' = node_pair (heap l)
    \<and> map (node_pair (heap l)) ds = map (node_pair (heap l)) (bs @ [p])
        @ kl_insert before (item ne) k (map (node_pair (heap l)) cs)"
  using assms
proof (induction cs arbitrary: bs p fuel)
  case Nil
  then obtain n f where n: "heap l p = Some n" "nxt n = None" "fuel = Suc f"
    by (cases fuel) auto
  define h where "h = (heap l)(p \<mapsto> n\<lparr>nxt := Some e\<rparr>)"
  have "node_pair h = node_pair (heap l)" using n by (auto simp: node_pair_def h_def)
  moreover have "List_insert_loop before fuel l e k p = Inr (l\<lparr>heap := h, last_ptr := Some e\<rparr>)"
    using n Nil by (simp add: deref_def set_next_def h_def)
  moreover have "seg h (first_ptr l) (bs @ [p, e]) None"
    using n Nil by (auto simp: seg_append h_def)
  moreover have "dom h = dom (heap l)" using n by (auto simp: h_def)
  moreover have "node_pair (heap l) e = (item ne, k)" using Nil by (simp add: node_pair_def)
  ultimately show ?case using Nil(3)
    by (intro exI [of _ h] exI [of _ "bs @ [p, e]"]) auto
next
  case (Cons q cs)
  then obtain n m f where n: "heap l p = Some n" "nxt n = Some q" "heap l q = Some m"
    "seg (heap l) (nxt m) cs None" "fuel = Suc f" by (cases fuel) auto
  show ?case
  proof (cases "before k (key m)")
    case True
    define h where "h = (heap l)(e \<mapsto> ne\<lparr>nxt := Some q\<rparr>, p \<mapsto> n\<lparr>nxt := Some e\<rparr>)"
    have "node_pair h = node_pair (heap l)" using n Cons by (auto simp: node_pair_def h_def)
    moreover have "List_insert_loop before fuel l e k p = Inr (l\<lparr>heap := h\<rparr>)"
      using n Cons True by (simp add: deref_def set_next_def h_def)
    moreover have "seg h (first_ptr l) (bs @ [p, e, q] @ cs) None"
      using n Cons by (auto simp: seg_append h_def)
    moreover have "l\<lparr>heap := h\<rparr> = l\<lparr>heap := h, last_ptr := Some (last (bs @ [p, e, q] @ cs))\<rparr>"
      using Cons by simp
    moreover have "dom h = dom (heap l)" using n Cons by (auto simp: h_def)
    moreover have "node_pair (heap l) e = (item ne, k)" "node_pair (heap l) q = (item m, key m)"
      using Cons n by (simp_all add: node_pair_def)
    ultimately show ?thesis using Cons.prems(3) True
      by (intro exI [of _ h] exI [of _ "bs @ [p, e, q] @ cs"]) auto
  next
    case False
    have "seg (heap l) (first_ptr l) (bs @ [p]) (Some q)" using Cons n by (auto simp: seg_append)
    from Cons.IH [OF this, of f] Cons.prems n obtain h' ds where
      ih: "List_insert_loop before f l e k q = Inr (l\<lparr>heap := h', last_ptr := Some (last ds)\<rparr>)"
      "seg h' (first_ptr l) ds None" "distinct ds" "set ds = insert e (set ((bs @ [p]) @ q # cs))"
      "dom h' = dom (heap l)" "node_pair h' = node_pair (heap l)"
      "map (node_pair (heap l)) ds = map (node_pair (heap l)) ((bs @ [p]) @ [q])
        @ kl_insert before (item ne) k (map (node_pair (heap l)) cs)" by auto
    moreover have "List_insert_loop before fuel l e k p = List_insert_loop before f l e k q"
      using n False by (simp add: deref_def)
    moreover have "node_pair (heap l) q = (item m, key m)" using n by (simp add: node_pair_def)
    ultimately show ?thesis using False
      by (intro exI [of _ h'] exI [of _ ds]) auto
  qed
qed

lemma clist_rep_insert_by:
  assumes "clist_rep l xs"
  shows "\<exists>l'. List_insert_by before l x k = Inr l' \<and> clist_rep l' (kl_insert before x k xs)"
proof (cases xs)
  case Nil
  then show ?thesis
    using clist_rep_push [OF assms, of k x] clist_rep_IsEmpty [OF assms]
    by (auto simp: List_insert_by_def ListElement_new_def List_IsEmpty_def elim!: clist_rep_fields)
next
  case (Cons y ys)
  with assms obtain a as n where a: "clist_nodes l (a # as)" "heap l a = Some n" "first_ptr l = Some a"
    "xs = map (node_pair (heap l)) (a # as)"
    by (auto simp: clist_rep_def clist_nodes_def Cons_eq_map_conv)
  have b: "brk l \<notin> set (a # as)" using a(1) seg_dom [of "heap l" "Some a" "a # as" None] a(3)
    unfolding clist_nodes_def by fastforce
  define l1 where "l1 = snd (ListElement_new l x k)"
  have l1: "heap l1 = (heap l)(brk l \<mapsto> \<lparr>nxt = None, key = k, item = x\<rparr>)" "brk l1 = Suc (brk l)"
    "first_ptr l1 = Some a" "last_ptr l1 = last_ptr l" "heap l1 a = Some n"
    using a b by (auto simp: l1_def ListElement_new_def)
  have pairs: "map (node_pair (heap l1)) (a # as) = xs" using a b l1 by (simp add: node_pair_def)
  have na: "node_pair (heap l) a = (item n, key n)" using a by (simp add: node_pair_def)
  show ?thesis
  proof (cases "before k (key n)")
    case True
    then show ?thesis using clist_rep_push [OF assms, of k x] a na b
      by (auto simp: List_insert_by_def ListElement_new_def deref_def set_next_def
          elim!: clist_rep_fields)
  next
    case False
    have pre: "seg (heap l1) (first_ptr l1) [] (Some a)" "seg (heap l1) (Some a) (a # as) None"
      "distinct (brk l # [] @ a # as)" "heap l1 (brk l) = Some \<lparr>nxt = None, key = k, item = x\<rparr>"
      "last_ptr l1 = Some (last (a # as))" "length as < brk l1"
      using a b l1 clist_nodes_bound [OF a(1)] by (auto simp: clist_nodes_def)
    note il = insert_loop [OF pre(1-4) ListElement.select_convs(1,2) pre(5,6), of before]
    obtain h' ds where
      ds: "List_insert_loop before (brk l1) l1 (brk l) k a =
        Inr (l1\<lparr>heap := h', last_ptr := Some (last ds)\<rparr>)" "seg h' (first_ptr l1) ds None" "distinct ds"
      "set ds = insert (brk l) (set ([] @ a # as))" "dom h' = dom (heap l1)"
      "node_pair h' = node_pair (heap l1)"
      "map (node_pair (heap l1)) ds = map (node_pair (heap l1)) ([] @ [a])
        @ kl_insert before x k (map (node_pair (heap l1)) as)"
      using il unfolding ListElement.select_convs by blast
    let ?l = "l1\<lparr>heap := h', last_ptr := Some (last ds)\<rparr>"
    have "List_insert_by before l x k = Inr ?l"
      using False ds(1) l1 unfolding List_insert_by_def l1_def
      by (simp add: ListElement_new_def deref_def)
    moreover have "clist_nodes ?l ds"
      using ds l1 a(1) by (auto simp: clist_nodes_def)
    moreover have "map (node_pair h') ds = kl_insert before x k xs"
      using ds(6,7) pairs na a(4) False l1 b by auto
    ultimately show ?thesis unfolding clist_rep_def
      by (intro exI [of _ ?l] conjI exI [of _ ds]) simp_all
  qed
qed

lemma clist_rep_SortedInsert:
  "clist_rep l xs \<Longrightarrow> \<exists>l'. List_SortedInsert l x k = Inr l' \<and> clist_rep l' (kl_SortedInsert x k xs)"
  unfolding List_SortedInsert_def kl_SortedInsert_def by (rule clist_rep_insert_by)

lemma clist_rep_SortedInsertInverted:
  "clist_rep l xs \<Longrightarrow> \<exists>l'. List_SortedInsertInverted l x k = Inr l'
    \<and> clist_rep l' (kl_SortedInsertInverted x k xs)"
  unfolding List_SortedInsertInverted_def kl_SortedInsertInverted_def by (rule clist_rep_insert_by)

text \<open>Removing the first node with a given item, wherever it stands.\<close>

lemma Remove_loop:
  assumes "seg (heap l) (first_ptr l) bs p" "seg (heap l) p cs None" "distinct (bs @ cs)"
    and "prev = (if bs = [] then None else Some (last bs))"
    and "last_ptr l = (if bs @ cs = [] then None else Some (last (bs @ cs)))"
    and "dom (heap l) \<subseteq> {..<brk l}" "length cs \<le> fuel"
  shows "\<exists>l'. List_Remove_loop fuel l x prev p = Inr l'
    \<and> clist_rep l' (map (node_pair (heap l)) bs @ kl_Remove x (map (node_pair (heap l)) cs))"
  using assms
proof (induction cs arbitrary: bs p prev fuel)
  case Nil
  then have "clist_nodes l bs" by (simp add: clist_nodes_def)
  with Nil show ?case by (auto simp: clist_rep_def)
next
  case (Cons c cs)
  then obtain n f where n: "heap l c = Some n" "p = Some c" "seg (heap l) (nxt n) cs None" "fuel = Suc f"
    by (cases fuel) auto
  have nc: "node_pair (heap l) c = (item n, key n)" using n by (simp add: node_pair_def)
  show ?case
  proof (cases "x = item n")
    case False
    have "seg (heap l) (first_ptr l) (bs @ [c]) (nxt n)" using Cons n by (auto simp: seg_append)
    with Cons.IH [of "bs @ [c]" "nxt n" "Some c" f] Cons.prems n False nc show ?thesis
      by (auto simp: deref_def)
  next
    case True
    show ?thesis
    proof (cases bs rule: rev_cases)
      case Nil
      let ?l = "l\<lparr>first_ptr := nxt n, last_ptr := (if cs = [] then None else last_ptr l),
        heap := (heap l)(c := None)\<rparr>"
      have "clist_nodes ?l cs" using n Nil Cons.prems
        by (auto simp: clist_nodes_def)
      then have "clist_rep ?l (map (node_pair (heap l)) cs)"
        using Cons.prems by (auto simp: clist_rep_def intro!: exI [of _ cs])
      moreover have "last_ptr l = Some c \<longleftrightarrow> cs = []" using Cons.prems Nil
        by (auto dest: last_in_set)
      ultimately show ?thesis using n nc True Nil Cons.prems
        by (auto simp: deref_def elim!: clist_rep_fields)
    next
      case (snoc as b)
      obtain m where m: "heap l b = Some m" "nxt m = Some c" "seg (heap l) (first_ptr l) as (Some b)"
        using Cons.prems(1) n snoc by (auto simp: seg_append)
      let ?h = "(heap l)(b \<mapsto> m\<lparr>nxt := nxt n\<rparr>, c := None)"
      let ?l = "l\<lparr>heap := ?h, last_ptr := (if cs = [] then Some b else last_ptr l)\<rparr>"
      have "clist_nodes ?l (bs @ cs)" using n m snoc Cons.prems
        by (auto simp: clist_nodes_def seg_append)
      moreover have "map (node_pair ?h) (bs @ cs) = map (node_pair (heap l)) (bs @ cs)"
        using snoc m n Cons.prems(3) by (auto simp: node_pair_def)
      ultimately have r: "clist_rep ?l (map (node_pair (heap l)) (bs @ cs))"
        unfolding clist_rep_def by (intro exI [of _ "bs @ cs"] conjI) simp_all
      have "first_ptr l \<noteq> Some c"
        using Cons.prems(1,3) snoc by (cases as) auto
      moreover have "last_ptr l = Some c \<longleftrightarrow> cs = []" using Cons.prems snoc
        by (auto dest: last_in_set)
      moreover have "b \<noteq> c" using Cons.prems(3) snoc by auto
      ultimately show ?thesis using n m nc True snoc Cons.prems(4) r
        by (auto simp: deref_def set_next_def Let_def elim!: clist_rep_fields)
    qed
  qed
qed

lemma clist_rep_Remove:
  assumes "clist_rep l xs"
  shows "\<exists>l'. List_Remove l x = Inr l' \<and> clist_rep l' (kl_Remove x xs)"
proof -
  from assms obtain as where as: "clist_nodes l as" "xs = map (node_pair (heap l)) as"
    by (auto simp: clist_rep_def)
  from as Remove_loop [of l "[]" "first_ptr l" as None "brk l" x] clist_nodes_bound [OF as(1)]
  show ?thesis by (auto simp: List_Remove_def clist_nodes_def)
qed

section \<open>The contract of a queue ordered by keys\<close>

fun insert_all :: "('l \<Rightarrow> 'a \<Rightarrow> int \<Rightarrow> 'l res) \<Rightarrow> 'l \<Rightarrow> 'a klist \<Rightarrow> 'l res" where
  "insert_all ins l [] = Inr l"
| "insert_all ins l ((x, k) # ps) = rbind (ins l x k) (\<lambda>l'. insert_all ins l' ps)"

fun pop_all :: "('l \<Rightarrow> (('a \<times> int) option \<times> 'l) res) \<Rightarrow> nat \<Rightarrow> 'l \<Rightarrow> 'a klist res" where
  "pop_all pop 0 l = Inr []"
| "pop_all pop (Suc n) l = rbind (pop l) (\<lambda>(r, l').
     case r of None \<Rightarrow> Inr [] | Some p \<Rightarrow> rbind (pop_all pop n l') (\<lambda>ps. Inr (p # ps)))"

lemma mset_kl_insert [simp]: "mset (kl_insert before x k xs) = add_mset (x, k) (mset xs)"
  by (induction before x k xs rule: kl_insert.induct) auto

lemma set_kl_insert [simp]: "set (kl_insert before x k xs) = insert (x, k) (set xs)"
  by (induction before x k xs rule: kl_insert.induct) auto

locale keyed_queue =
  fixes rank :: "int \<Rightarrow> int"
    and rep :: "'l \<Rightarrow> 'a klist \<Rightarrow> bool"
    and ins :: "'l \<Rightarrow> 'a \<Rightarrow> int \<Rightarrow> 'l res"
    and pop :: "'l \<Rightarrow> (('a \<times> int) option \<times> 'l) res"
  assumes ins_law: "rep l xs \<Longrightarrow>
      \<exists>l'. ins l x k = Inr l' \<and> rep l' (kl_insert (\<lambda>i j. rank i < rank j) x k xs)"
    and pop_law: "rep l xs \<Longrightarrow>
      \<exists>l'. pop l = Inr (if xs = [] then None else Some (hd xs), l') \<and> rep l' (tl xs)"
begin

abbreviation rank_of :: "'a \<times> int \<Rightarrow> int" where
  "rank_of p \<equiv> rank (snd p)"

abbreviation place :: "'a \<times> int \<Rightarrow> 'a klist \<Rightarrow> 'a klist" where
  "place p xs \<equiv> kl_insert (\<lambda>i j. rank i < rank j) (fst p) (snd p) xs"

lemma place_sorted: "sorted (map rank_of xs) \<Longrightarrow> sorted (map rank_of (place p xs))"
proof (induction xs)
  case (Cons y ys)
  obtain z j where y: "y = (z, j)" by (cases y)
  show ?case
  proof (cases "rank (snd p) < rank j")
    case True
    have "\<forall>q \<in> set ys. rank j \<le> rank_of q" using Cons.prems y by auto
    with True have "\<forall>q \<in> set ys. rank (snd p) \<le> rank_of q" by fastforce
    with True Cons.prems y show ?thesis by auto
  next
    case False
    with Cons y show ?thesis by auto
  qed
qed simp

lemma place_stable:
  "sorted (map rank_of xs) \<Longrightarrow>
    filter (\<lambda>q. r = rank_of q) (place p xs) = filter (\<lambda>q. r = rank_of q) (xs @ [p])"
proof (induction xs)
  case (Cons y ys)
  obtain z j where y: "y = (z, j)" by (cases y)
  show ?case
  proof (cases "rank (snd p) < rank j")
    case True
    have "\<forall>q \<in> set (y # ys). rank (snd p) < rank_of q" using Cons.prems y True by fastforce
    then have "r = rank (snd p) \<Longrightarrow> filter (\<lambda>q. r = rank_of q) (y # ys) = []"
      by (fastforce simp: filter_empty_conv)
    with True y show ?thesis by (cases "r = rank (snd p)") (auto split: if_splits)
  next
    case False
    with Cons y show ?thesis by auto
  qed
qed simp

lemma fold_place:
  assumes "sorted (map rank_of xs)"
  shows "sorted (map rank_of (fold place ps xs)) \<and> mset (fold place ps xs) = mset (xs @ ps)
    \<and> filter (\<lambda>q. r = rank_of q) (fold place ps xs) = filter (\<lambda>q. r = rank_of q) (xs @ ps)"
  using assms
proof (induction ps arbitrary: xs)
  case (Cons p ps)
  from Cons.IH [OF place_sorted [OF Cons.prems, of p]] place_stable [OF Cons.prems, of r p]
  show ?case by (cases p) auto
qed simp

lemma fold_place_sort: "fold place ps [] = sort_key rank_of ps"
proof (rule sym, rule properties_for_sort_key)
  have "mset (fold place ps []) = mset ps" "sorted (map rank_of (fold place ps []))"
    using fold_place [of "[]" ps] by auto
  then show "mset (fold place ps []) = mset ps" "sorted (map rank_of (fold place ps []))" .
  show "filter (\<lambda>q. rank_of k = rank_of q) (fold place ps []) = filter (\<lambda>q. rank_of k = rank_of q) ps"
    for k using fold_place [of "[]" ps "rank_of k"] by auto
qed

lemma insert_all_rep:
  "rep l xs \<Longrightarrow> \<exists>l'. insert_all ins l ps = Inr l' \<and> rep l' (fold place ps xs)"
proof (induction ps arbitrary: l xs)
  case (Cons p ps)
  obtain x k where p: "p = (x, k)" by (cases p)
  from ins_law [OF Cons.prems, of x k] obtain l1 where
    "ins l x k = Inr l1" "rep l1 (place p xs)" using p by auto
  with Cons.IH [of l1 "place p xs"] p show ?case by auto
qed simp

lemma pop_all_rep: "rep l xs \<Longrightarrow> pop_all pop (length xs) l = Inr xs"
proof (induction xs arbitrary: l)
  case (Cons x xs)
  from pop_law [OF Cons.prems] obtain l' where "pop l = Inr (Some x, l')" "rep l' xs" by auto
  with Cons.IH [of l'] show ?case by simp
qed simp

text \<open>Inserting any pairs into an empty queue and draining it sorts them, equal ranks in the
  order of their insertion.\<close>

lemma insert_then_drain:
  assumes "rep l []"
  shows "\<exists>l'. insert_all ins l ps = Inr l' \<and> pop_all pop (length ps) l' = Inr (sort_key rank_of ps)"
proof -
  from insert_all_rep [OF assms, of ps] obtain l' where
    "insert_all ins l ps = Inr l'" "rep l' (sort_key rank_of ps)"
    unfolding fold_place_sort by auto
  with pop_all_rep [of l' "sort_key rank_of ps"] show ?thesis by simp
qed

end

interpretation up: keyed_queue "\<lambda>k. k" clist_rep List_SortedInsert List_SortedPop
  by unfold_locales
    (erule clist_rep_SortedInsert [unfolded kl_SortedInsert_def], erule clist_rep_SortedPop)

interpretation down: keyed_queue uminus clist_rep List_SortedInsertInverted List_SortedPop
  by unfold_locales
    (unfold neg_less_iff_less,
     erule clist_rep_SortedInsertInverted [unfolded kl_SortedInsertInverted_def],
     erule clist_rep_SortedPop)

section \<open>Properties\<close>

text \<open>
  C23. On a heap that holds a list, every operation of the class succeeds, leaves a well-formed
  list behind and does what the operation on lists of pairs does: append and prepend with key 0,
  both sorted insertions, removal of the first occurrence of an item, pop, head, membership, and
  the destructor, which ends with the empty list.
\<close>

theorem list_refinement:
  assumes "clist_rep l xs"
  shows "(\<exists>l'. List_Append l x = Inr l' \<and> clist_rep l' (kl_Append x xs))
    \<and> (\<exists>l'. List_Prepend l x = Inr l' \<and> clist_rep l' ((x, 0) # xs))
    \<and> (\<exists>l'. List_SortedInsert l x k = Inr l' \<and> clist_rep l' (kl_SortedInsert x k xs))
    \<and> (\<exists>l'. List_SortedInsertInverted l x k = Inr l' \<and> clist_rep l' (kl_SortedInsertInverted x k xs))
    \<and> (\<exists>l'. List_Remove l x = Inr l' \<and> clist_rep l' (kl_Remove x xs))
    \<and> (\<exists>l'. List_Pop l = Inr (if xs = [] then None else Some (fst (hd xs)), l') \<and> clist_rep l' (tl xs))
    \<and> List_Head l = (if xs = [] then Inl AssertFailed else Inr (fst (hd xs)))
    \<and> List_Has l x = Inr (kl_Has x xs) \<and> List_IsEmpty l = (xs = [])
    \<and> (\<exists>l'. List_delete l = Inr l' \<and> clist_rep l' [])"
  by (intro conjI assms clist_rep_Append [OF assms] clist_rep_Prepend [OF assms]
      clist_rep_SortedInsert [OF assms] clist_rep_SortedInsertInverted [OF assms]
      clist_rep_Remove [OF assms] clist_rep_Pop [OF assms] clist_rep_Head [OF assms]
      clist_rep_Has [OF assms] clist_rep_IsEmpty [OF assms] clist_rep_delete [OF assms])

theorem list_refinement_witness:
  "clist_rep List_new [] \<and> (\<exists>l'. List_Append List_new True = Inr l' \<and> clist_rep l' [(True, 0)])"
  using list_refinement [OF clist_rep_new, of True] clist_rep_new by (simp add: kl_Append_def)

text \<open>
  Pairs put into a new list with \<open>SortedInsert\<close> come out of \<open>SortedPop\<close> in increasing
  order of their keys, and with \<open>SortedInsertInverted\<close> in decreasing order; in both cases items
  with the same key leave in the order in which they were put in.
\<close>

theorem sorted_insert_pop_order:
  "\<exists>l m. insert_all List_SortedInsert List_new ps = Inr l
      \<and> pop_all List_SortedPop (length ps) l = Inr (sort_key snd ps)
      \<and> insert_all List_SortedInsertInverted List_new ps = Inr m
      \<and> pop_all List_SortedPop (length ps) m = Inr (sort_key (\<lambda>p. - snd p) ps)"
  using up.insert_then_drain [OF clist_rep_new, of ps] down.insert_then_drain [OF clist_rep_new, of ps]
  by auto

end
