(* ===== verification/Mips_Decode.thy ===== *)
theory Mips_Decode
  imports Prelude
begin

text \<open>
  \<open>machine/encoding.hh\<close>, \<open>machine/encoding.cc\<close> and \<open>machine/instruction.cc\<close>: the operations of the
  simulated processor, the tables that decode an instruction word, and \<open>Instruction::Decode\<close>.
\<close>

unbundle bit_operations_syntax

section \<open>Operations and tables\<close>

datatype (plugins only: code size) OpCode =
    OP_ADD | OP_ADDI | OP_ADDIU | OP_ADDU | OP_AND | OP_ANDI | OP_BEQ | OP_BGEZ |
    OP_BGEZAL | OP_BGTZ | OP_BLEZ | OP_BLTZ | OP_BLTZAL | OP_BNE | OP_DIV | OP_DIVU |
    OP_J | OP_JAL | OP_JALR | OP_JR | OP_LB | OP_LBU | OP_LH | OP_LHU |
    OP_LUI | OP_LW | OP_LWL | OP_LWR | OP_MFHI | OP_MFLO | OP_MTHI | OP_MTLO |
    OP_MULT | OP_MULTU | OP_NOR | OP_OR | OP_ORI | OP_RFE | OP_SB | OP_SH |
    OP_SLL | OP_SLLV | OP_SLT | OP_SLTI | OP_SLTIU | OP_SLTU | OP_SRA | OP_SRAV |
    OP_SRL | OP_SRLV | OP_SUB | OP_SUBU | OP_SW | OP_SWL | OP_SWR | OP_XOR |
    OP_XORI | OP_SYSCALL | OP_UNIMP | OP_RES |
    SPECIAL | BCOND

datatype op_format = IFMT | JFMT | RFMT

datatype RegType = NONE | RS | RT | RD | EXTRA

record OpInfo =
  info_opCode :: OpCode
  info_format :: op_format

abbreviation op_info :: "OpCode \<Rightarrow> op_format \<Rightarrow> OpInfo" where
  "op_info oc f \<equiv> \<lparr>info_opCode = oc, info_format = f\<rparr>"

text \<open>The value of an operation in the enumeration, which is its index in \<open>OP_STRINGS\<close>.\<close>

primrec op_number :: "OpCode \<Rightarrow> nat" where
  "op_number OP_ADD = 1"
| "op_number OP_ADDI = 2"
| "op_number OP_ADDIU = 3"
| "op_number OP_ADDU = 4"
| "op_number OP_AND = 5"
| "op_number OP_ANDI = 6"
| "op_number OP_BEQ = 7"
| "op_number OP_BGEZ = 8"
| "op_number OP_BGEZAL = 9"
| "op_number OP_BGTZ = 10"
| "op_number OP_BLEZ = 11"
| "op_number OP_BLTZ = 12"
| "op_number OP_BLTZAL = 13"
| "op_number OP_BNE = 14"
| "op_number OP_DIV = 16"
| "op_number OP_DIVU = 17"
| "op_number OP_J = 18"
| "op_number OP_JAL = 19"
| "op_number OP_JALR = 20"
| "op_number OP_JR = 21"
| "op_number OP_LB = 22"
| "op_number OP_LBU = 23"
| "op_number OP_LH = 24"
| "op_number OP_LHU = 25"
| "op_number OP_LUI = 26"
| "op_number OP_LW = 27"
| "op_number OP_LWL = 28"
| "op_number OP_LWR = 29"
| "op_number OP_MFHI = 31"
| "op_number OP_MFLO = 32"
| "op_number OP_MTHI = 34"
| "op_number OP_MTLO = 35"
| "op_number OP_MULT = 36"
| "op_number OP_MULTU = 37"
| "op_number OP_NOR = 38"
| "op_number OP_OR = 39"
| "op_number OP_ORI = 40"
| "op_number OP_RFE = 41"
| "op_number OP_SB = 42"
| "op_number OP_SH = 43"
| "op_number OP_SLL = 44"
| "op_number OP_SLLV = 45"
| "op_number OP_SLT = 46"
| "op_number OP_SLTI = 47"
| "op_number OP_SLTIU = 48"
| "op_number OP_SLTU = 49"
| "op_number OP_SRA = 50"
| "op_number OP_SRAV = 51"
| "op_number OP_SRL = 52"
| "op_number OP_SRLV = 53"
| "op_number OP_SUB = 54"
| "op_number OP_SUBU = 55"
| "op_number OP_SW = 56"
| "op_number OP_SWL = 57"
| "op_number OP_SWR = 58"
| "op_number OP_XOR = 59"
| "op_number OP_XORI = 60"
| "op_number OP_SYSCALL = 61"
| "op_number OP_UNIMP = 62"
| "op_number OP_RES = 63"
| "op_number SPECIAL = 100"
| "op_number BCOND = 101"

definition OP_TABLE :: "OpInfo list" where
  "OP_TABLE = [
     op_info SPECIAL RFMT, op_info BCOND IFMT, op_info OP_J JFMT, op_info OP_JAL JFMT,
     op_info OP_BEQ IFMT, op_info OP_BNE IFMT, op_info OP_BLEZ IFMT, op_info OP_BGTZ IFMT,
     op_info OP_ADDI IFMT, op_info OP_ADDIU IFMT, op_info OP_SLTI IFMT, op_info OP_SLTIU IFMT,
     op_info OP_ANDI IFMT, op_info OP_ORI IFMT, op_info OP_XORI IFMT, op_info OP_LUI IFMT,
     op_info OP_UNIMP IFMT, op_info OP_UNIMP IFMT, op_info OP_UNIMP IFMT, op_info OP_UNIMP IFMT,
     op_info OP_RES IFMT, op_info OP_RES IFMT, op_info OP_RES IFMT, op_info OP_RES IFMT,
     op_info OP_RES IFMT, op_info OP_RES IFMT, op_info OP_RES IFMT, op_info OP_RES IFMT,
     op_info OP_RES IFMT, op_info OP_RES IFMT, op_info OP_RES IFMT, op_info OP_RES IFMT,
     op_info OP_LB IFMT, op_info OP_LH IFMT, op_info OP_LWL IFMT, op_info OP_LW IFMT,
     op_info OP_LBU IFMT, op_info OP_LHU IFMT, op_info OP_LWR IFMT, op_info OP_RES IFMT,
     op_info OP_SB IFMT, op_info OP_SH IFMT, op_info OP_SWL IFMT, op_info OP_SW IFMT,
     op_info OP_RES IFMT, op_info OP_RES IFMT, op_info OP_SWR IFMT, op_info OP_RES IFMT,
     op_info OP_UNIMP IFMT, op_info OP_UNIMP IFMT, op_info OP_UNIMP IFMT, op_info OP_UNIMP IFMT,
     op_info OP_RES IFMT, op_info OP_RES IFMT, op_info OP_RES IFMT, op_info OP_RES IFMT,
     op_info OP_UNIMP IFMT, op_info OP_UNIMP IFMT, op_info OP_UNIMP IFMT, op_info OP_UNIMP IFMT,
     op_info OP_RES IFMT, op_info OP_RES IFMT, op_info OP_RES IFMT, op_info OP_RES IFMT]"

definition SPECIAL_TABLE :: "OpCode list" where
  "SPECIAL_TABLE = [
     OP_SLL, OP_RES, OP_SRL, OP_SRA, OP_SLLV, OP_RES, OP_SRLV, OP_SRAV,
     OP_JR, OP_JALR, OP_RES, OP_RES, OP_SYSCALL, OP_UNIMP, OP_RES, OP_RES,
     OP_MFHI, OP_MTHI, OP_MFLO, OP_MTLO, OP_RES, OP_RES, OP_RES, OP_RES,
     OP_MULT, OP_MULTU, OP_DIV, OP_DIVU, OP_RES, OP_RES, OP_RES, OP_RES,
     OP_ADD, OP_ADDU, OP_SUB, OP_SUBU, OP_AND, OP_OR, OP_XOR, OP_NOR,
     OP_RES, OP_RES, OP_SLT, OP_SLTU, OP_RES, OP_RES, OP_RES, OP_RES,
     OP_RES, OP_RES, OP_RES, OP_RES, OP_RES, OP_RES, OP_RES, OP_RES,
     OP_RES, OP_RES, OP_RES, OP_RES, OP_RES, OP_RES, OP_RES, OP_RES]"

text \<open>The printed form of each operation and its arguments.\<close>

definition OP_STRINGS :: "(string \<times> RegType list) list" where
  "OP_STRINGS = [
     (''Should not happen'', [NONE, NONE, NONE]), (''ADD r%d,r%d,r%d'', [RD, RS, RT]),
     (''ADDI r%d,r%d,%d'', [RT, RS, EXTRA]), (''ADDIU r%d,r%d,%d'', [RT, RS, EXTRA]),
     (''ADDU r%d,r%d,r%d'', [RD, RS, RT]), (''AND r%d,r%d,r%d'', [RD, RS, RT]),
     (''ANDI r%d,r%d,%d'', [RT, RS, EXTRA]), (''BEQ r%d,r%d,%d'', [RS, RT, EXTRA]),
     (''BGEZ r%d,%d'', [RS, EXTRA, NONE]), (''BGEZAL r%d,%d'', [RS, EXTRA, NONE]),
     (''BGTZ r%d,%d'', [RS, EXTRA, NONE]), (''BLEZ r%d,%d'', [RS, EXTRA, NONE]),
     (''BLTZ r%d,%d'', [RS, EXTRA, NONE]), (''BLTZAL r%d,%d'', [RS, EXTRA, NONE]),
     (''BNE r%d,r%d,%d'', [RS, RT, EXTRA]), (''Should not happen'', [NONE, NONE, NONE]),
     (''DIV r%d,r%d'', [RS, RT, NONE]), (''DIVU r%d,r%d'', [RS, RT, NONE]),
     (''J %d'', [EXTRA, NONE, NONE]), (''JAL %d'', [EXTRA, NONE, NONE]),
     (''JALR r%d,r%d'', [RD, RS, NONE]), (''JR r%d,r%d'', [RD, RS, NONE]),
     (''LB r%d,%d(r%d)'', [RT, EXTRA, RS]), (''LBU r%d,%d(r%d)'', [RT, EXTRA, RS]),
     (''LH r%d,%d(r%d)'', [RT, EXTRA, RS]), (''LHU r%d,%d(r%d)'', [RT, EXTRA, RS]),
     (''LUI r%d,%d'', [RT, EXTRA, NONE]), (''LW r%d,%d(r%d)'', [RT, EXTRA, RS]),
     (''LWL r%d,%d(r%d)'', [RT, EXTRA, RS]), (''LWR r%d,%d(r%d)'', [RT, EXTRA, RS]),
     (''Should not happen'', [NONE, NONE, NONE]), (''MFHI r%d'', [RD, NONE, NONE]),
     (''MFLO r%d'', [RD, NONE, NONE]), (''Should not happen'', [NONE, NONE, NONE]),
     (''MTHI r%d'', [RS, NONE, NONE]), (''MTLO r%d'', [RS, NONE, NONE]),
     (''MULT r%d,r%d'', [RS, RT, NONE]), (''MULTU r%d,r%d'', [RS, RT, NONE]),
     (''NOR r%d,r%d,r%d'', [RD, RS, RT]), (''OR r%d,r%d,r%d'', [RD, RS, RT]),
     (''ORI r%d,r%d,%d'', [RT, RS, EXTRA]), (''RFE'', [NONE, NONE, NONE]),
     (''SB r%d,%d(r%d)'', [RT, EXTRA, RS]), (''SH r%d,%d(r%d)'', [RT, EXTRA, RS]),
     (''SLL r%d,r%d,%d'', [RD, RT, EXTRA]), (''SLLV r%d,r%d,r%d'', [RD, RT, RS]),
     (''SLT r%d,r%d,r%d'', [RD, RS, RT]), (''SLTI r%d,r%d,%d'', [RT, RS, EXTRA]),
     (''SLTIU r%d,r%d,%d'', [RT, RS, EXTRA]), (''SLTU r%d,r%d,r%d'', [RD, RS, RT]),
     (''SRA r%d,r%d,%d'', [RD, RT, EXTRA]), (''SRAV r%d,r%d,r%d'', [RD, RT, RS]),
     (''SRL r%d,r%d,%d'', [RD, RT, EXTRA]), (''SRLV r%d,r%d,r%d'', [RD, RT, RS]),
     (''SUB r%d,r%d,r%d'', [RD, RS, RT]), (''SUBU r%d,r%d,r%d'', [RD, RS, RT]),
     (''SW r%d,%d(r%d)'', [RT, EXTRA, RS]), (''SWL r%d,%d(r%d)'', [RT, EXTRA, RS]),
     (''SWR r%d,%d(r%d)'', [RT, EXTRA, RS]), (''XOR r%d,r%d,r%d'', [RD, RS, RT]),
     (''XORI r%d,r%d,%d'', [RT, RS, EXTRA]), (''SYSCALL'', [NONE, NONE, NONE]),
     (''Unimplemented'', [NONE, NONE, NONE]), (''Reserved'', [NONE, NONE, NONE])]"

definition SIGN_BIT :: u32 where "SIGN_BIT = 0x80000000"

definition IndexToAddr :: "u32 \<Rightarrow> u32" where
  "IndexToAddr x = push_bit 2 x"

section \<open>Decoding\<close>

text \<open>An instruction: the word and its fields. \<open>extra\<close> is a C \<open>int\<close>, kept as its 32 bits.\<close>

record Instruction =
  instr_value :: u32
  opCode :: OpCode
  rs :: nat
  rt :: nat
  rd :: nat
  extra :: u32

definition Decode :: "u32 \<Rightarrow> Instruction" where
  "Decode v =
     (let opPtr = OP_TABLE ! unat (drop_bit 26 v AND 0x3F);
          ex = (case info_format opPtr of
              IFMT \<Rightarrow> (let e = v AND 0xFFFF in if e AND 0x8000 \<noteq> 0 then e OR 0xFFFF0000 else e)
            | RFMT \<Rightarrow> drop_bit 6 v AND 0x1F
            | JFMT \<Rightarrow> v AND 0x3FFFFFF);
          oc = (if info_opCode opPtr = SPECIAL then SPECIAL_TABLE ! unat (v AND 0x3F)
            else if info_opCode opPtr = BCOND then
              (let i = v AND 0x1F0000 in
               if i = 0 then OP_BLTZ else if i = 0x10000 then OP_BGEZ
               else if i = 0x100000 then OP_BLTZAL else if i = 0x110000 then OP_BGEZAL else OP_UNIMP)
            else info_opCode opPtr)
      in \<lparr>instr_value = v, opCode = oc, rs = unat (drop_bit 21 v AND 0x1F), rt = unat (drop_bit 16 v AND 0x1F),
          rd = unat (drop_bit 11 v AND 0x1F), extra = ex\<rparr>)"

fun RegFromType :: "Instruction \<Rightarrow> RegType \<Rightarrow> u32" where
  "RegFromType i RS = of_nat (rs i)"
| "RegFromType i RT = of_nat (rt i)"
| "RegFromType i RD = of_nat (rd i)"
| "RegFromType i EXTRA = extra i"
| "RegFromType i NONE = 0"

text \<open>What \<open>FetchInstruction\<close> prints of an instruction when debugging.\<close>

definition debug_string :: "Instruction \<Rightarrow> (string \<times> u32 list) res" where
  "debug_string i =
     rbind (rassert (op_number (opCode i) \<le> op_number OP_RES)) (\<lambda>_.
       let (str, args) = OP_STRINGS ! op_number (opCode i) in Inr (str, map (RegFromType i) args))"

section \<open>What decoding gives\<close>

lemma table_lengths: "length OP_TABLE = 64" "length SPECIAL_TABLE = 64" "length OP_STRINGS = 64"
  by (simp_all add: OP_TABLE_def SPECIAL_TABLE_def OP_STRINGS_def)

lemma unat_and_less: "m < n \<Longrightarrow> unat (x AND of_nat m :: u32) < n"
proof -
  assume "m < n"
  have "x AND of_nat m \<le> (of_nat m :: u32)" by (rule word_and_le1)
  then have "unat (x AND of_nat m :: u32) \<le> unat (of_nat m :: u32)" by (simp add: word_le_nat_alt)
  also have "\<dots> \<le> m" by (simp add: unsigned_of_nat)
  finally show ?thesis using \<open>m < n\<close> by simp
qed

lemma field_bounds: "unat (x AND 0x1F :: u32) < 32" "unat (x AND 0x3F :: u32) < 64"
  using unat_and_less [of 31 32 x] unat_and_less [of 63 64 x] by simp_all

text \<open>The operations that \<open>ExecInstruction\<close> has a case for.\<close>

definition executable_op :: "OpCode \<Rightarrow> bool" where
  "executable_op oc \<longleftrightarrow> oc \<noteq> SPECIAL \<and> oc \<noteq> BCOND \<and> oc \<noteq> OP_RFE"

lemma table_ops:
  "x \<in> set SPECIAL_TABLE \<Longrightarrow> executable_op x"
  "y \<in> set OP_TABLE \<Longrightarrow> info_opCode y \<noteq> OP_RFE"
proof -
  have "list_all executable_op SPECIAL_TABLE" by (simp add: SPECIAL_TABLE_def executable_op_def)
  then show "x \<in> set SPECIAL_TABLE \<Longrightarrow> executable_op x" by (simp add: list_all_iff)
  have "list_all (\<lambda>y. info_opCode y \<noteq> OP_RFE) OP_TABLE" by (simp add: OP_TABLE_def)
  then show "y \<in> set OP_TABLE \<Longrightarrow> info_opCode y \<noteq> OP_RFE" by (simp add: list_all_iff)
qed

lemma Decode_ok:
  "rs (Decode v) < 32" "rt (Decode v) < 32" "rd (Decode v) < 32" "executable_op (opCode (Decode v))"
proof -
  let ?p = "OP_TABLE ! unat (drop_bit 26 v AND 0x3F)"
  have "?p \<in> set OP_TABLE" using field_bounds(2) [of "drop_bit 26 v"] table_lengths(1) by (metis nth_mem)
  then have p: "info_opCode ?p \<noteq> OP_RFE" by (rule table_ops(2))
  have "SPECIAL_TABLE ! unat (v AND 0x3F) \<in> set SPECIAL_TABLE"
    using field_bounds(2) [of v] table_lengths(2) by (metis nth_mem)
  then have "executable_op (SPECIAL_TABLE ! unat (v AND 0x3F))" by (rule table_ops(1))
  with p show "executable_op (opCode (Decode v))"
    by (auto simp: Decode_def Let_def executable_op_def)
qed (simp_all add: Decode_def Let_def field_bounds)

text \<open>The three formats of instruction words.\<close>

definition encode_R :: "5 word \<Rightarrow> 5 word \<Rightarrow> 5 word \<Rightarrow> 5 word \<Rightarrow> 6 word \<Rightarrow> u32" where
  "encode_R s t d sh fn = push_bit 21 (ucast s) OR push_bit 16 (ucast t) OR push_bit 11 (ucast d)
     OR push_bit 6 (ucast sh) OR ucast fn"

definition encode_I :: "6 word \<Rightarrow> 5 word \<Rightarrow> 5 word \<Rightarrow> 16 word \<Rightarrow> u32" where
  "encode_I oc s t imm = push_bit 26 (ucast oc) OR push_bit 21 (ucast s) OR push_bit 16 (ucast t) OR ucast imm"

definition encode_J :: "6 word \<Rightarrow> 26 word \<Rightarrow> u32" where
  "encode_J oc target = push_bit 26 (ucast oc) OR ucast target"

lemma masks: "(0x1F :: u32) = mask 5" "(0x3F :: u32) = mask 6" "(0xFFFF :: u32) = mask 16" "(0x3FFFFFF :: u32) = mask 26"
  by (simp_all add: mask_eq_exp_minus_1)

lemma fields_R:
  "drop_bit 26 (encode_R s t d sh fn) AND 0x3F = 0" "drop_bit 21 (encode_R s t d sh fn) AND 0x1F = ucast s"
  "drop_bit 16 (encode_R s t d sh fn) AND 0x1F = ucast t" "drop_bit 11 (encode_R s t d sh fn) AND 0x1F = ucast d"
  "drop_bit 6 (encode_R s t d sh fn) AND 0x1F = ucast sh" "encode_R s t d sh fn AND 0x3F = ucast fn"
  by (rule bit_word_eqI; auto simp: encode_R_def masks bit_simps dest: bit_imp_le_length)+

lemma fields_I:
  "drop_bit 26 (encode_I oc s t imm) AND 0x3F = ucast oc" "drop_bit 21 (encode_I oc s t imm) AND 0x1F = ucast s"
  "drop_bit 16 (encode_I oc s t imm) AND 0x1F = ucast t" "encode_I oc s t imm AND 0xFFFF = ucast imm"
  by (rule bit_word_eqI; auto simp: encode_I_def masks bit_simps dest: bit_imp_le_length)+

lemma fields_J:
  "drop_bit 26 (encode_J oc target) AND 0x3F = ucast oc" "encode_J oc target AND 0x3FFFFFF = ucast target"
  by (rule bit_word_eqI; auto simp: encode_J_def masks bit_simps dest: bit_imp_le_length)+

lemma unat_ucast_up:
  assumes "LENGTH('a) \<le> 32"
  shows "unat (ucast (x :: 'a::len word) :: u32) = unat x"
proof -
  have "unat x < 2 ^ LENGTH('a)" by (rule unsigned_less)
  also have "\<dots> \<le> 2 ^ 32" by (rule power_increasing [OF assms]) simp
  finally show ?thesis by (simp add: unsigned_ucast_eq take_bit_nat_eq_self)
qed

lemma extend16: "(if ucast imm AND 0x8000 \<noteq> (0 :: u32) then ucast imm OR 0xFFFF0000 else ucast (imm :: 16 word)) = (scast imm :: u32)"
proof -
  have a: "ucast imm AND (0x8000 :: u32) \<noteq> 0 \<longleftrightarrow> bit imm 15"
    using and_exp_eq_0_iff_not_bit [of "ucast imm :: u32" 15] by (simp add: bit_simps)
  have b: "(0xFFFF0000 :: u32) = NOT (mask 16)" by (simp add: mask_eq_exp_minus_1)
  show ?thesis unfolding a b
  proof (rule bit_word_eqI)
    fix n :: nat
    consider "n < 15" | "n = 15" | "16 \<le> n" by linarith
    then show "bit (if bit imm 15 then ucast imm OR NOT (mask 16) else ucast imm :: u32) n = bit (scast imm :: u32) n"
      if "n < LENGTH(32)"
      using that bit_imp_le_length [of imm n] by cases (auto simp: bit_simps)
  qed
qed

text \<open>
  C30. Every 32-bit word decodes to register fields below 32 and to an operation that
  \<open>ExecInstruction\<close> has a case for, which also has an entry in \<open>OP_STRINGS\<close>.
\<close>

theorem decode_total:
  "rs (Decode v) < 32 \<and> rt (Decode v) < 32 \<and> rd (Decode v) < 32 \<and> executable_op (opCode (Decode v))
    \<and> (\<exists>out. debug_string (Decode v) = Inr out)"
proof -
  have "executable_op oc \<Longrightarrow> op_number oc \<le> op_number OP_RES" for oc by (cases oc) (simp_all add: executable_op_def)
  then have "op_number (opCode (Decode v)) \<le> op_number OP_RES" using Decode_ok(4) .
  then show ?thesis using Decode_ok by (simp add: debug_string_def split_beta Let_def)
qed

text \<open>
  C31. Decoding gives back the fields an instruction was assembled from: the two or three registers,
  the shift amount, the sign-extended immediate, the jump target, and the operation of the tables.
\<close>

theorem decode_encode:
  "rs (Decode (encode_R s t d sh fn)) = unat s \<and> rt (Decode (encode_R s t d sh fn)) = unat t
     \<and> rd (Decode (encode_R s t d sh fn)) = unat d \<and> extra (Decode (encode_R s t d sh fn)) = ucast sh
     \<and> opCode (Decode (encode_R s t d sh fn)) = SPECIAL_TABLE ! unat fn
   \<and> (info_format (OP_TABLE ! unat oc) = IFMT \<and> info_opCode (OP_TABLE ! unat oc) \<notin> {SPECIAL, BCOND} \<longrightarrow>
       rs (Decode (encode_I oc s t imm)) = unat s \<and> rt (Decode (encode_I oc s t imm)) = unat t
       \<and> extra (Decode (encode_I oc s t imm)) = scast imm
       \<and> opCode (Decode (encode_I oc s t imm)) = info_opCode (OP_TABLE ! unat oc))
   \<and> extra (Decode (encode_J 2 target)) = ucast target \<and> opCode (Decode (encode_J 2 target)) = OP_J
   \<and> extra (Decode (encode_J 3 target)) = ucast target \<and> opCode (Decode (encode_J 3 target)) = OP_JAL"
proof -
  have tab: "OP_TABLE ! 0 = op_info SPECIAL RFMT" "OP_TABLE ! 2 = op_info OP_J JFMT" "OP_TABLE ! 3 = op_info OP_JAL JFMT"
    by (simp_all add: OP_TABLE_def)
  have j: "unat (ucast (2 :: 6 word) :: u32) = 2" "unat (ucast (3 :: 6 word) :: u32) = 3" by simp_all
  show ?thesis
    using tab extend16 [of imm]
    by (simp add: Decode_def Let_def fields_R fields_I fields_J unat_ucast_up j)
qed

theorem decode_encode_witness:
  "opCode (Decode (encode_I 8 1 2 0xFFFF)) = OP_ADDI \<and> extra (Decode (encode_I 8 1 2 0xFFFF)) = - 1"
  using decode_encode [of 1 2 0 0 0 8 "0xFFFF"] by (simp add: OP_TABLE_def)

end
