(* ===== verification/Disk.thy ===== *)
theory Disk
  imports Prelude
begin

text \<open>
  \<open>machine/disk.{hh,cc}\<close>, the simulated disk with its seek, rotation and track-buffer timing, and
  \<open>filesys/synch_disk.cc\<close>, the synchronous interface over it. The file system above sees a plain
  array of sectors; the last section shows that the request, interrupt and wake-up protocol of
  \<open>SynchDisk\<close> provides it.
\<close>

section \<open>The disk\<close>

definition SECTOR_SIZE :: nat where "SECTOR_SIZE = 128"
definition SECTORS_PER_TRACK :: u32 where "SECTORS_PER_TRACK = 32"
definition NUM_TRACKS :: nat where "NUM_TRACKS = 32"
definition NUM_SECTORS :: nat where "NUM_SECTORS = 1024"
definition MAGIC_NUMBER :: u32 where "MAGIC_NUMBER = 0x456789AB"
definition MAGIC_SIZE :: nat where "MAGIC_SIZE = 4"
definition DISK_SIZE :: nat where "DISK_SIZE = MAGIC_SIZE + NUM_SECTORS * SECTOR_SIZE"

text \<open>\<open>unsigned long\<close> counts ticks; the two times are constants of \<open>machine/statistics.hh\<close>.\<close>

type_synonym ticks = "64 word"

definition ROTATION_TIME :: ticks where "ROTATION_TIME = 500"
definition SEEK_TIME :: ticks where "SEEK_TIME = 500"

text \<open>
  The contents of the host file that stores the disk, sector by sector; sector \<open>s\<close> lies at
  offset \<open>SECTOR_SIZE * s + MAGIC_SIZE\<close> of the file.
\<close>

type_synonym sectors = "nat \<Rightarrow> byte list"

record disk =
  content :: sectors
  active :: bool
  lastSector :: u32
  bufferInit :: u32
  numDiskReads :: nat
  numDiskWrites :: nat

text \<open>
  The constructor: a host file that exists must begin with the magic number; otherwise a new
  file is made, whose unwritten bytes read as zero.
\<close>

definition Disk_new :: "(u32 \<times> sectors) option \<Rightarrow> disk res" where
  "Disk_new file = (case file of
     Some (magicNum, c) \<Rightarrow> rbind (rassert (magicNum = MAGIC_NUMBER)) (\<lambda>_.
       Inr \<lparr>content = c, active = False, lastSector = 0, bufferInit = 0,
            numDiskReads = 0, numDiskWrites = 0\<rparr>)
   | None \<Rightarrow> Inr \<lparr>content = (\<lambda>s. replicate SECTOR_SIZE 0), active = False, lastSector = 0,
       bufferInit = 0, numDiskReads = 0, numDiskWrites = 0\<rparr>)"

definition Diff :: "u32 \<Rightarrow> u32 \<Rightarrow> u32" where
  "Diff a b = (if a > b then a - b else b - a)"

text \<open>Returns the seek time and the rotation to the next sector boundary.\<close>

definition TimeToSeek :: "ticks \<Rightarrow> u32 \<Rightarrow> u32 \<Rightarrow> u32 \<times> u32" where
  "TimeToSeek totalTicks lastS newSector =
     (let newTrack = newSector div SECTORS_PER_TRACK;
          oldTrack = lastS div SECTORS_PER_TRACK;
          seek = ucast (ucast (Diff newTrack oldTrack) * SEEK_TIME) :: u32;
          over = ucast ((totalTicks + ucast seek) mod ROTATION_TIME) :: u32;
          rotation = (if over > 0 then ucast (ROTATION_TIME - ucast over) else 0)
      in (seek, rotation))"

definition ModuloDiff :: "u32 \<Rightarrow> u32 \<Rightarrow> u32" where
  "ModuloDiff to from =
     (let toOffset = to mod SECTORS_PER_TRACK;
          fromOffset = from mod SECTORS_PER_TRACK
      in (toOffset - fromOffset + SECTORS_PER_TRACK) mod SECTORS_PER_TRACK)"

text \<open>
  \<open>bufferInit\<close> is a signed \<open>int\<close>, so it is sign-extended when it meets \<open>ROTATION_TIME\<close>.
\<close>

definition ComputeLatency :: "ticks \<Rightarrow> disk \<Rightarrow> u32 \<Rightarrow> bool \<Rightarrow> u32" where
  "ComputeLatency totalTicks d newSector writing =
     (let (seek, rotation) = TimeToSeek totalTicks (lastSector d) newSector;
          timeAfter = ucast (totalTicks + ucast seek + ucast rotation) :: u32
      in if \<not> writing \<and> seek = 0
            \<and> (ucast (timeAfter - bufferInit d) :: ticks) div ROTATION_TIME
               > ucast (ModuloDiff newSector (ucast ((scast (bufferInit d) :: ticks) div ROTATION_TIME)))
         then ucast ROTATION_TIME
         else let rotation' = ucast (ucast rotation
                  + ucast (ModuloDiff newSector (ucast ((ucast timeAfter :: ticks) div ROTATION_TIME)))
                    * ROTATION_TIME) :: u32
              in ucast ((ucast (seek + rotation') :: ticks) + ROTATION_TIME))"

definition UpdateLast :: "ticks \<Rightarrow> disk \<Rightarrow> u32 \<Rightarrow> disk" where
  "UpdateLast totalTicks d newSector =
     (let (seek, rotate) = TimeToSeek totalTicks (lastSector d) newSector;
          d1 = (if seek \<noteq> 0
                then d\<lparr>bufferInit := ucast (totalTicks + ucast seek + ucast rotate)\<rparr> else d)
      in d1\<lparr>lastSector := newSector\<rparr>)"

text \<open>
  A request transfers the sector at once and schedules the interrupt \<open>ticks\<close> later; the result
  is what \<open>interrupt->Schedule\<close> is called with.
\<close>

definition Disk_ReadRequest :: "ticks \<Rightarrow> disk \<Rightarrow> u32 \<Rightarrow> (byte list \<times> u32 \<times> disk) res" where
  "Disk_ReadRequest totalTicks d sectorNumber =
     (let t = ComputeLatency totalTicks d sectorNumber False in
      rbind (rassert (\<not> active d)) (\<lambda>_.
      rbind (rassert (unat sectorNumber < NUM_SECTORS)) (\<lambda>_.
        let d1 = UpdateLast totalTicks (d\<lparr>active := True\<rparr>) sectorNumber
        in Inr (content d (unat sectorNumber), t, d1\<lparr>numDiskReads := numDiskReads d1 + 1\<rparr>))))"

definition Disk_WriteRequest :: "ticks \<Rightarrow> disk \<Rightarrow> u32 \<Rightarrow> byte list \<Rightarrow> (u32 \<times> disk) res" where
  "Disk_WriteRequest totalTicks d sectorNumber bytes =
     (let t = ComputeLatency totalTicks d sectorNumber True in
      rbind (rassert (\<not> active d)) (\<lambda>_.
      rbind (rassert (unat sectorNumber < NUM_SECTORS)) (\<lambda>_.
        let d1 = UpdateLast totalTicks
                   (d\<lparr>content := (content d)(unat sectorNumber := take SECTOR_SIZE bytes),
                      active := True\<rparr>) sectorNumber
        in Inr (t, d1\<lparr>numDiskWrites := numDiskWrites d1 + 1\<rparr>))))"

definition Disk_HandleInterrupt :: "disk \<Rightarrow> disk" where
  "Disk_HandleInterrupt d = d\<lparr>active := False\<rparr>"

section \<open>The synchronous disk\<close>

text \<open>
  The semaphore counts finished requests; the lock is held by the thread whose request is under
  way. \<open>totalTicks\<close> is the clock of the machine.
\<close>

record synch_disk =
  device :: disk
  doneCount :: nat
  diskLock :: "nat option"
  totalTicks :: ticks

definition SynchDisk_new :: "(u32 \<times> sectors) option \<Rightarrow> ticks \<Rightarrow> synch_disk res" where
  "SynchDisk_new file now = rbind (Disk_new file) (\<lambda>d.
     Inr \<lparr>device = d, doneCount = 0, diskLock = None, totalTicks = now\<rparr>)"

definition SynchDisk_Acquire :: "nat \<Rightarrow> synch_disk \<Rightarrow> synch_disk res" where
  "SynchDisk_Acquire me sd = (case diskLock sd of
     None \<Rightarrow> Inr (sd\<lparr>diskLock := Some me\<rparr>)
   | Some t \<Rightarrow> (if t = me then Inl AssertFailed else Inl WouldBlock))"

definition SynchDisk_Release :: "nat \<Rightarrow> synch_disk \<Rightarrow> synch_disk res" where
  "SynchDisk_Release me sd = rbind (rassert (diskLock sd = Some me)) (\<lambda>_.
     Inr (sd\<lparr>diskLock := None\<rparr>))"

definition SynchDisk_P :: "synch_disk \<Rightarrow> synch_disk res" where
  "SynchDisk_P sd = (if doneCount sd = 0 then Inl WouldBlock
     else Inr (sd\<lparr>doneCount := doneCount sd - 1\<rparr>))"

definition SynchDisk_RequestDone :: "synch_disk \<Rightarrow> synch_disk" where
  "SynchDisk_RequestDone sd = sd\<lparr>doneCount := doneCount sd + 1\<rparr>"

text \<open>
  The interrupt of a request, delivered when the clock has reached the time it was scheduled
  for: \<open>DiskDone\<close> calls \<open>HandleInterrupt\<close>, which calls \<open>DiskRequestDone\<close>.
\<close>

definition SynchDisk_interrupt :: "u32 \<Rightarrow> synch_disk \<Rightarrow> synch_disk" where
  "SynchDisk_interrupt t sd = SynchDisk_RequestDone
     (sd\<lparr>device := Disk_HandleInterrupt (device sd), totalTicks := totalTicks sd + ucast t\<rparr>)"

definition SynchDisk_ReadSector :: "nat \<Rightarrow> synch_disk \<Rightarrow> u32 \<Rightarrow> (byte list \<times> synch_disk) res" where
  "SynchDisk_ReadSector me sd sectorNumber =
     rbind (SynchDisk_Acquire me sd) (\<lambda>sd1.
     rbind (Disk_ReadRequest (totalTicks sd1) (device sd1) sectorNumber) (\<lambda>(bytes, t, d).
     rbind (SynchDisk_P (SynchDisk_interrupt t (sd1\<lparr>device := d\<rparr>))) (\<lambda>sd2.
     rbind (SynchDisk_Release me sd2) (\<lambda>sd3. Inr (bytes, sd3)))))"

definition SynchDisk_WriteSector :: "nat \<Rightarrow> synch_disk \<Rightarrow> u32 \<Rightarrow> byte list \<Rightarrow> synch_disk res" where
  "SynchDisk_WriteSector me sd sectorNumber bytes =
     rbind (SynchDisk_Acquire me sd) (\<lambda>sd1.
     rbind (Disk_WriteRequest (totalTicks sd1) (device sd1) sectorNumber bytes) (\<lambda>(t, d).
     rbind (SynchDisk_P (SynchDisk_interrupt t (sd1\<lparr>device := d\<rparr>))) (\<lambda>sd2.
       SynchDisk_Release me sd2)))"

section \<open>The array of sectors the file system sees\<close>

definition ReadSector :: "sectors \<Rightarrow> nat \<Rightarrow> byte list res" where
  "ReadSector c s = rbind (rassert (s < NUM_SECTORS)) (\<lambda>_. Inr (c s))"

definition WriteSector :: "sectors \<Rightarrow> nat \<Rightarrow> byte list \<Rightarrow> sectors res" where
  "WriteSector c s bytes = rbind (rassert (s < NUM_SECTORS)) (\<lambda>_.
     Inr (c(s := take SECTOR_SIZE bytes)))"

definition sectors_ok :: "sectors \<Rightarrow> bool" where
  "sectors_ok c \<longleftrightarrow> (\<forall>s. length (c s) = SECTOR_SIZE)"

definition synch_idle :: "synch_disk \<Rightarrow> bool" where
  "synch_idle sd \<longleftrightarrow> \<not> active (device sd) \<and> doneCount sd = 0 \<and> diskLock sd = None"

lemma UpdateLast_content [simp]: "content (UpdateLast t d s) = content d"
  by (simp add: UpdateLast_def Let_def split: prod.split)

section \<open>Timing\<close>

lemma unat_ucast_small:
  "unat (x :: 'a::len word) < 2 ^ LENGTH('b) \<Longrightarrow> unat (ucast x :: 'b::len word) = unat x"
  by (simp add: unsigned_ucast_eq take_bit_nat_eq_self)

lemma unat_add_small: "unat (a :: 'a::len word) + unat b < 2 ^ LENGTH('a) \<Longrightarrow> unat (a + b) = unat a + unat b"
  by (simp add: unat_word_ariths)

lemma unat_mult_small: "unat (a :: 'a::len word) * unat b < 2 ^ LENGTH('a) \<Longrightarrow> unat (a * b) = unat a * unat b"
  by (simp add: unat_word_ariths)

lemma unat_sub_small: "b \<le> (a :: 'a::len word) \<Longrightarrow> unat (a - b) = unat a - unat b"
  by (rule unat_sub)

definition track :: "u32 \<Rightarrow> nat" where
  "track s = unat s div 32"

definition seek_dist :: "u32 \<Rightarrow> u32 \<Rightarrow> nat" where
  "seek_dist a b = (if track a > track b then track a - track b else track b - track a)"

lemma unat_track: "unat (s div SECTORS_PER_TRACK) = track s"
  by (simp add: unat_div SECTORS_PER_TRACK_def track_def)

lemma unat_Diff_track: "unat (Diff (a div SECTORS_PER_TRACK) (b div SECTORS_PER_TRACK)) = seek_dist a b"
  by (auto simp: Diff_def seek_dist_def unat_track word_less_nat_alt word_le_nat_alt unat_sub_small not_less)

lemma unat_ModuloDiff: "unat (ModuloDiff to from) = (unat to mod 32 + 32 - unat from mod 32) mod 32"
proof -
  have e: "(to mod 32) - (from mod 32) + 32 = (to mod 32 + 32) - from mod 32" by simp
  have m: "unat (to mod 32) = unat to mod 32" "unat (from mod 32) = unat from mod 32"
    by (simp_all add: unat_mod)
  have lt: "unat to mod 32 < 32" "unat from mod 32 < 32" by simp_all
  then have a: "unat (to mod 32 + 32) = unat to mod 32 + 32"
    using m by (subst unat_add_small) simp_all
  have "unat (to mod 32 + 32 - from mod 32) = unat to mod 32 + 32 - unat from mod 32"
    using a m lt by (subst unat_sub_small) (auto simp: word_le_nat_alt)
  then show ?thesis
    by (simp only: ModuloDiff_def Let_def SECTORS_PER_TRACK_def e unat_mod) simp
qed

text \<open>With the clock below \<open>2 ^ 31\<close>, nothing in the latency computation wraps.\<close>

lemma unat_TimeToSeek:
  assumes "unat now < 2 ^ 31" "unat lastS < NUM_SECTORS" "unat new < NUM_SECTORS"
  shows "unat (fst (TimeToSeek now lastS new)) = 500 * seek_dist new lastS"
    and "unat (snd (TimeToSeek now lastS new)) = (500 - (unat now + 500 * seek_dist new lastS) mod 500) mod 500"
proof -
  have b: "seek_dist new lastS < 32"
    using assms(2,3) by (auto simp: seek_dist_def track_def NUM_SECTORS_def)
  let ?sk = "ucast (ucast (Diff (new div SECTORS_PER_TRACK) (lastS div SECTORS_PER_TRACK)) * SEEK_TIME) :: u32"
  have sk: "unat ?sk = 500 * seek_dist new lastS"
    using b by (simp add: unat_ucast_small unat_mult_small unat_Diff_track SEEK_TIME_def)
  then show "unat (fst (TimeToSeek now lastS new)) = 500 * seek_dist new lastS"
    by (simp add: TimeToSeek_def Let_def)
  let ?ov = "ucast ((now + ucast ?sk) mod ROTATION_TIME) :: u32"
  have ov: "unat ?ov = (unat now + 500 * seek_dist new lastS) mod 500"
    using b sk assms(1)
    by (simp add: unat_ucast_small unat_mod unat_add_small ROTATION_TIME_def)
  have lt: "(unat now + 500 * seek_dist new lastS) mod 500 < 500" by simp
  have r: "unat (ucast (ROTATION_TIME - ucast ?ov) :: u32) = 500 - unat ?ov"
    using ov lt by (simp add: unat_ucast_small unat_sub_small word_le_nat_alt ROTATION_TIME_def)
  have "unat (snd (TimeToSeek now lastS new)) = (if unat ?ov > 0 then 500 - unat ?ov else 0)"
    using r by (simp add: TimeToSeek_def Let_def word_less_nat_alt)
  then show "unat (snd (TimeToSeek now lastS new)) = (500 - (unat now + 500 * seek_dist new lastS) mod 500) mod 500"
    using ov lt by auto
qed

lemma mod_le_round: "(a + (500 - a mod 500) mod 500) mod 500 = (0::nat)"
proof (cases "a mod 500 = 0")
  case False
  then have "(a + (500 - a mod 500) mod 500) mod 500 = (a mod 500 + (500 - a mod 500)) mod 500"
    by presburger
  then show ?thesis by simp
qed simp

lemma modulo_diff_reaches:
  "(q + (s mod 32 + 32 - q mod 32) mod 32) mod 32 = s mod (32::nat)"
proof -
  have "(q + (s mod 32 + 32 - q mod 32) mod 32) mod 32 = (q + (s mod 32 + 32 - q mod 32)) mod 32"
    by (rule mod_add_right_eq)
  also have "q + (s mod 32 + 32 - q mod 32) = s mod 32 + 32 * (q div 32 + 1)"
  proof -
    define a b where "a = q div 32" and "b = q mod 32"
    have "b < 32" "q = 32 * a + b" by (simp_all add: a_def b_def)
    then have "q + (s mod 32 + 32 - b) = s mod 32 + 32 * (a + 1)" by simp
    then show ?thesis by (simp only: a_def b_def)
  qed
  also have "\<dots> mod 32 = s mod 32" by (simp only: mod_mult_self2 mod_mod_trivial)
  finally show ?thesis .
qed

lemma unat_write_latency:
  assumes "unat now < 2 ^ 31" "unat (lastSector d) < NUM_SECTORS" "unat new < NUM_SECTORS"
  defines "start \<equiv> unat now + 500 * seek_dist new (lastSector d)"
  defines "after \<equiv> start + (500 - start mod 500) mod 500"
  shows "unat (ComputeLatency now d new True) =
    after - unat now + 500 * ((unat new mod 32 + 32 - after div 500 mod 32) mod 32) + 500"
proof -
  obtain sk rot where st: "TimeToSeek now (lastSector d) new = (sk, rot)" by fastforce
  have k: "unat sk = 500 * seek_dist new (lastSector d)" "unat rot = (500 - start mod 500) mod 500"
    using unat_TimeToSeek [OF assms(1-3)] st unfolding start_def by simp_all
  have b: "seek_dist new (lastSector d) < 32" "(500 - start mod 500) mod 500 < 500"
    using assms(2,3) by (auto simp: seek_dist_def track_def NUM_SECTORS_def)
  let ?ta = "ucast (now + ucast sk + ucast rot) :: u32"
  have ta: "unat ?ta = after"
    using k b assms(1) by (simp add: unat_ucast_small unat_add_small after_def start_def)
  have af: "after < 2 ^ 31 + 16000" using b assms(1) by (simp add: after_def start_def)
  let ?m = "ModuloDiff new (ucast ((ucast ?ta :: ticks) div ROTATION_TIME))"
  have q: "unat (ucast ((ucast ?ta :: ticks) div ROTATION_TIME) :: u32) = after div 500"
    using ta af by (simp add: unat_ucast_small unat_div ROTATION_TIME_def)
  have m: "unat ?m = (unat new mod 32 + 32 - after div 500 mod 32) mod 32"
    unfolding unat_ModuloDiff q ..
  then have ml: "unat ?m < 32" by simp
  let ?r = "ucast (ucast rot + ucast ?m * ROTATION_TIME) :: u32"
  have r: "unat ?r = unat rot + unat ?m * 500"
    using ml k b by (simp add: unat_ucast_small unat_add_small unat_mult_small ROTATION_TIME_def)
  have "unat (ucast ((ucast (sk + ?r) :: ticks) + ROTATION_TIME) :: u32) = unat sk + (unat rot + unat ?m * 500) + 500"
    using r ml k b by (simp add: unat_ucast_small unat_add_small ROTATION_TIME_def)
  moreover have "ComputeLatency now d new True = ucast ((ucast (sk + ?r) :: ticks) + ROTATION_TIME)"
    by (simp add: ComputeLatency_def st Let_def)
  ultimately have "unat (ComputeLatency now d new True) = unat sk + (unat rot + unat ?m * 500) + 500"
    by simp
  moreover have "after - unat now = unat sk + unat rot"
    unfolding after_def k by (simp add: start_def)
  ultimately show ?thesis unfolding m by linarith
qed

section \<open>The contract of a sector device\<close>

locale sector_device =
  fixes idle :: "'d \<Rightarrow> bool"
    and view :: "'d \<Rightarrow> sectors"
    and rd :: "'d \<Rightarrow> u32 \<Rightarrow> (byte list \<times> 'd) res"
    and wr :: "'d \<Rightarrow> u32 \<Rightarrow> byte list \<Rightarrow> 'd res"
  assumes rd_law: "idle d \<Longrightarrow> unat s < NUM_SECTORS \<Longrightarrow>
      \<exists>d'. rd d s = Inr (view d (unat s), d') \<and> idle d' \<and> view d' = view d"
    and wr_law: "idle d \<Longrightarrow> unat s < NUM_SECTORS \<Longrightarrow>
      \<exists>d'. wr d s bytes = Inr d' \<and> idle d' \<and> view d' = (view d)(unat s := take SECTOR_SIZE bytes)"
    and rd_out: "idle d \<Longrightarrow> \<not> unat s < NUM_SECTORS \<Longrightarrow> rd d s = Inl AssertFailed"
    and wr_out: "idle d \<Longrightarrow> \<not> unat s < NUM_SECTORS \<Longrightarrow> wr d s bytes = Inl AssertFailed"
begin

lemma rd_refines: "idle d \<Longrightarrow> (case rd d s of Inl e \<Rightarrow> ReadSector (view d) (unat s) = Inl e
    | Inr (bytes, d') \<Rightarrow> ReadSector (view d) (unat s) = Inr bytes \<and> idle d' \<and> view d' = view d)"
  using rd_law [of d s] rd_out [of d s] by (cases "unat s < NUM_SECTORS") (auto simp: ReadSector_def)

lemma wr_refines: "idle d \<Longrightarrow> (case wr d s bytes of Inl e \<Rightarrow> WriteSector (view d) (unat s) bytes = Inl e
    | Inr d' \<Rightarrow> WriteSector (view d) (unat s) bytes = Inr (view d') \<and> idle d')"
  using wr_law [of d s bytes] wr_out [of d s bytes] by (cases "unat s < NUM_SECTORS") (auto simp: WriteSector_def)

lemma rd_after_wr:
  assumes "idle d" "length bytes = SECTOR_SIZE" "unat s < NUM_SECTORS" "unat r < NUM_SECTORS"
    and "wr d s bytes = Inr d'"
  shows "\<exists>d''. rd d' r = Inr (if r = s then bytes else view d (unat r), d'')"
proof -
  have d': "idle d'" "view d' = (view d)(unat s := bytes)"
    using wr_law [OF assms(1,3), of bytes] assms(2,5) by auto
  from rd_law [OF d'(1) assms(4)] show ?thesis
    by (auto simp: d'(2) unsigned_word_eqI)
qed

end

lemma SynchDisk_read_ok:
  assumes "synch_idle sd" "unat s < NUM_SECTORS"
  shows "\<exists>sd'. SynchDisk_ReadSector me sd s = Inr (content (device sd) (unat s), sd')
    \<and> synch_idle sd' \<and> content (device sd') = content (device sd)"
  using assms
  by (auto simp: SynchDisk_ReadSector_def SynchDisk_Acquire_def Disk_ReadRequest_def Let_def
      SynchDisk_P_def SynchDisk_interrupt_def SynchDisk_RequestDone_def Disk_HandleInterrupt_def
      SynchDisk_Release_def synch_idle_def)

lemma SynchDisk_write_ok:
  assumes "synch_idle sd" "unat s < NUM_SECTORS"
  shows "\<exists>sd'. SynchDisk_WriteSector me sd s bytes = Inr sd' \<and> synch_idle sd'
    \<and> content (device sd') = (content (device sd))(unat s := take SECTOR_SIZE bytes)"
  using assms
  by (auto simp: SynchDisk_WriteSector_def SynchDisk_Acquire_def Disk_WriteRequest_def Let_def
      SynchDisk_P_def SynchDisk_interrupt_def SynchDisk_RequestDone_def Disk_HandleInterrupt_def
      SynchDisk_Release_def synch_idle_def)

interpretation sd: sector_device synch_idle "\<lambda>d. content (device d)"
  "SynchDisk_ReadSector me" "SynchDisk_WriteSector me" for me
proof unfold_locales
  show "\<exists>d'. SynchDisk_ReadSector me d s = Inr (content (device d) (unat s), d') \<and> synch_idle d'
      \<and> content (device d') = content (device d)" if "synch_idle d" "unat s < NUM_SECTORS" for d s
    using SynchDisk_read_ok [OF that] .
  show "\<exists>d'. SynchDisk_WriteSector me d s bytes = Inr d' \<and> synch_idle d'
      \<and> content (device d') = (content (device d))(unat s := take SECTOR_SIZE bytes)"
    if "synch_idle d" "unat s < NUM_SECTORS" for d s bytes
    using SynchDisk_write_ok [OF that] .
  show "SynchDisk_ReadSector me d s = Inl AssertFailed"
    if "synch_idle d" "\<not> unat s < NUM_SECTORS" for d s
    using that by (simp add: SynchDisk_ReadSector_def SynchDisk_Acquire_def Disk_ReadRequest_def
        Let_def synch_idle_def)
  show "SynchDisk_WriteSector me d s bytes = Inl AssertFailed"
    if "synch_idle d" "\<not> unat s < NUM_SECTORS" for d s bytes
    using that by (simp add: SynchDisk_WriteSector_def SynchDisk_Acquire_def Disk_WriteRequest_def
        Let_def synch_idle_def)
qed

section \<open>Properties\<close>

text \<open>
  C26. Seen by one thread, the synchronous disk is an array of sectors: when no request is under
  way, a read returns the sector and a write replaces it, each ends with the device idle, the
  semaphore at zero and the lock free, and a sector number past the end stops at the
  \<open>ASSERT\<close>, exactly as \<open>ReadSector\<close> and \<open>WriteSector\<close> on the array.
\<close>

theorem synch_disk_refines_sectors:
  assumes "synch_idle sd"
  shows "(case SynchDisk_ReadSector me sd s of
        Inl e \<Rightarrow> ReadSector (content (device sd)) (unat s) = Inl e
      | Inr (bytes, sd') \<Rightarrow> ReadSector (content (device sd)) (unat s) = Inr bytes
          \<and> synch_idle sd' \<and> content (device sd') = content (device sd))
    \<and> (case SynchDisk_WriteSector me sd s bytes of
        Inl e \<Rightarrow> WriteSector (content (device sd)) (unat s) bytes = Inl e
      | Inr sd' \<Rightarrow> WriteSector (content (device sd)) (unat s) bytes = Inr (content (device sd'))
          \<and> synch_idle sd')"
  using sd.rd_refines [OF assms] sd.wr_refines [OF assms] by (intro conjI)

theorem synch_disk_refines_sectors_witness:
  "\<exists>sd. SynchDisk_new None 0 = Inr sd \<and> synch_idle sd
     \<and> (\<exists>sd'. SynchDisk_ReadSector 1 sd 7 = Inr (replicate 128 0, sd'))"
proof -
  obtain sd where sd: "SynchDisk_new None 0 = Inr sd" "synch_idle sd"
    "content (device sd) = (\<lambda>s. replicate SECTOR_SIZE 0)"
    by (auto simp: SynchDisk_new_def Disk_new_def synch_idle_def)
  have r: "ReadSector (content (device sd)) (unat (7 :: u32)) = Inr (replicate 128 0)"
    unfolding sd(3) ReadSector_def NUM_SECTORS_def SECTOR_SIZE_def by simp
  have "\<exists>sd'. SynchDisk_ReadSector 1 sd 7 = Inr (replicate 128 0, sd')"
    using conjunct1 [OF synch_disk_refines_sectors [OF sd(2), where me = 1 and s = 7 and bytes = "[]"]]
    unfolding r by (cases "SynchDisk_ReadSector 1 sd 7") auto
  with sd(1,2) show ?thesis by blast
qed

text \<open>
  While the clock is below \<open>2 ^ 31\<close>, no step of the latency computation wraps, and a write
  is timed as the head moves: the transfer takes one rotation time and begins at a sector
  boundary, when the sector under the head is the requested one, and the whole request takes at
  least 500 and fewer than 32000 ticks.
\<close>

theorem disk_write_latency:
  assumes "unat now < 2 ^ 31" "unat (lastSector d) < NUM_SECTORS" "unat new < NUM_SECTORS"
  defines "L \<equiv> unat (ComputeLatency now d new True)"
  shows "500 \<le> L \<and> L < 32000 \<and> (unat now + (L - 500)) mod 500 = 0
    \<and> (unat now + (L - 500)) div 500 mod 32 = unat new mod 32"
proof -
  define start where "start = unat now + 500 * seek_dist new (lastSector d)"
  define after where "after = start + (500 - start mod 500) mod 500"
  define m where "m = (unat new mod 32 + 32 - after div 500 mod 32) mod 32"
  have L: "L = after - unat now + 500 * m + 500"
    unfolding L_def m_def after_def start_def by (rule unat_write_latency [OF assms(1-3)])
  have sk: "seek_dist new (lastSector d) < 32"
    using assms(2,3) by (auto simp: seek_dist_def track_def NUM_SECTORS_def)
  have b: "m < 32" "(500 - start mod 500) mod 500 < 500" by (simp_all add: m_def)
  have e: "unat now + (L - 500) = after + 500 * m"
    unfolding L by (simp add: after_def start_def)
  have a0: "after mod 500 = 0" unfolding after_def by (rule mod_le_round)
  have "(unat now + (L - 500)) mod 500 = 0" unfolding e using a0 by presburger
  moreover have "(unat now + (L - 500)) div 500 mod 32 = unat new mod 32"
    unfolding e m_def using modulo_diff_reaches [of "after div 500" "unat new"]
    by (simp add: add.commute)
  moreover have "after - unat now < 32 * 500" using sk b(2) unfolding after_def start_def by linarith
  with b(1) have "L < 32000" unfolding L by linarith
  ultimately show ?thesis unfolding L by simp
qed

theorem disk_write_latency_witness:
  "500 \<le> unat (ComputeLatency 1234 \<lparr>content = (\<lambda>s. []), active = False, lastSector = 3,
      bufferInit = 0, numDiskReads = 0, numDiskWrites = 0\<rparr> 700 True)"
  by (rule conjunct1 [OF disk_write_latency]) (simp_all add: NUM_SECTORS_def)

end
