(* ===== verification/Mmu.thy ===== *)
theory Mmu
  imports Disk
begin

text \<open>
  \<open>machine/mmu.cc\<close>, \<open>machine/translation_entry.hh\<close>, \<open>machine/exception_type.cc\<close> and
  \<open>machine/endianness.cc\<close>: main memory and the translation of virtual addresses by a page table or
  by the TLB, with the counters of the LRU page replacement policy.
\<close>

unbundle bit_operations_syntax

section \<open>State\<close>

datatype ExceptionType =
    NO_EXCEPTION
  | SYSCALL_EXCEPTION
  | PAGE_FAULT_EXCEPTION
  | READ_ONLY_EXCEPTION
  | BUS_ERROR_EXCEPTION
  | ADDRESS_ERROR_EXCEPTION
  | OVERFLOW_EXCEPTION
  | ILLEGAL_INSTR_EXCEPTION

fun ExceptionTypeToString :: "ExceptionType \<Rightarrow> string" where
  "ExceptionTypeToString NO_EXCEPTION = ''no exception''"
| "ExceptionTypeToString SYSCALL_EXCEPTION = ''system call''"
| "ExceptionTypeToString PAGE_FAULT_EXCEPTION = ''page/TLB entry fault''"
| "ExceptionTypeToString READ_ONLY_EXCEPTION = ''read-only page''"
| "ExceptionTypeToString BUS_ERROR_EXCEPTION = ''memory bus error''"
| "ExceptionTypeToString ADDRESS_ERROR_EXCEPTION = ''address error''"
| "ExceptionTypeToString OVERFLOW_EXCEPTION = ''overflow''"
| "ExceptionTypeToString ILLEGAL_INSTR_EXCEPTION = ''illegal instruction''"

definition PAGE_SIZE :: nat where "PAGE_SIZE = SECTOR_SIZE"
definition NUM_PHYS_PAGES :: nat where "NUM_PHYS_PAGES = 16"
definition MEMORY_SIZE :: nat where "MEMORY_SIZE = NUM_PHYS_PAGES * PAGE_SIZE"
definition TLB_SIZE :: nat where "TLB_SIZE = 8"

record TranslationEntry =
  virtualPage :: u32
  physicalPage :: u32
  valid :: bool
  readOnly :: bool
  useBit :: bool
  dirty :: bool

record CoreMapEntry =
  coreSpaceId :: int
  coreVirtualPage :: u32
  last_use_counter :: u32

text \<open>
  The MMU with the globals its code updates: the TLB counters of \<open>mmu.cc\<close> and the reference counter
  and core map of \<open>threads/system.cc\<close>. A null pointer is \<open>None\<close>.
\<close>

record MMU =
  mainMemory :: "byte list"
  tlb :: "TranslationEntry list option"
  pageTable :: "TranslationEntry list option"
  pageTableSize :: u32
  coreMap :: "CoreMapEntry list"
  references_done :: u32
  tlbTotal :: u32
  tlbHitCount :: u32

text \<open>
  The constructor, with a TLB; \<open>raw\<close> gives the entries and \<open>size0\<close> the \<open>pageTableSize\<close> as the
  allocator leaves them. The core map is that of \<open>Initialize\<close>.
\<close>

definition MMU_new :: "(nat \<Rightarrow> TranslationEntry) \<Rightarrow> u32 \<Rightarrow> MMU" where
  "MMU_new raw size0 = \<lparr>mainMemory = replicate MEMORY_SIZE 0,
     tlb = Some (map (\<lambda>i. (raw i)\<lparr>valid := False\<rparr>) [0..<TLB_SIZE]), pageTable = None, pageTableSize = size0,
     coreMap = replicate NUM_PHYS_PAGES \<lparr>coreSpaceId = 0, coreVirtualPage = 0, last_use_counter = 0\<rparr>,
     references_done = 0, tlbTotal = 0, tlbHitCount = 0\<rparr>"

section \<open>Finding a translation\<close>

text \<open>Where the entry was found; the C++ code returns a pointer to it.\<close>

datatype entry_ref = TlbEntry nat | TableEntry nat

fun get_entry :: "MMU \<Rightarrow> entry_ref \<Rightarrow> TranslationEntry" where
  "get_entry m (TlbEntry i) = the (tlb m) ! i"
| "get_entry m (TableEntry i) = the (pageTable m) ! i"

fun put_entry :: "MMU \<Rightarrow> entry_ref \<Rightarrow> TranslationEntry \<Rightarrow> MMU" where
  "put_entry m (TlbEntry i) e = m\<lparr>tlb := map_option (\<lambda>es. es[i := e]) (tlb m)\<rparr>"
| "put_entry m (TableEntry i) e = m\<lparr>pageTable := map_option (\<lambda>es. es[i := e]) (pageTable m)\<rparr>"

fun find_tlb :: "u32 \<Rightarrow> nat \<Rightarrow> TranslationEntry list \<Rightarrow> nat option" where
  "find_tlb vpn i [] = None"
| "find_tlb vpn i (e # es) = (if valid e \<and> virtualPage e = vpn then Some i else find_tlb vpn (Suc i) es)"

definition RetrievePageEntry :: "MMU \<Rightarrow> u32 \<Rightarrow> ((ExceptionType + entry_ref) \<times> MMU) res" where
  "RetrievePageEntry m vpn =
     (case tlb m of
        None \<Rightarrow>
          if vpn \<ge> pageTableSize m then Inr (Inl ADDRESS_ERROR_EXCEPTION, m)
          else (case pageTable m of
              None \<Rightarrow> Inl NullDeref
            | Some es \<Rightarrow>
                rbind (rcheck OutOfBounds (unat vpn < length es)) (\<lambda>_.
                  if \<not> valid (es ! unat vpn) then Inr (Inl PAGE_FAULT_EXCEPTION, m)
                  else Inr (Inr (TableEntry (unat vpn)), m)))
      | Some es \<Rightarrow>
          let m1 = m\<lparr>references_done := references_done m + 1, tlbTotal := tlbTotal m + 1\<rparr> in
          (case find_tlb vpn 0 es of
              None \<Rightarrow> Inr (Inl PAGE_FAULT_EXCEPTION, m1)
            | Some i \<Rightarrow>
                let frame = unat (physicalPage (es ! i)) in
                rbind (rcheck OutOfBounds (frame < length (coreMap m))) (\<lambda>_.
                  Inr (Inr (TlbEntry i), m1\<lparr>tlbHitCount := tlbHitCount m1 + 1,
                    coreMap := (coreMap m1)[frame := (coreMap m1 ! frame)\<lparr>last_use_counter := references_done m1\<rparr>]\<rparr>))))"

definition Translate :: "MMU \<Rightarrow> u32 \<Rightarrow> u32 \<Rightarrow> bool \<Rightarrow> ((ExceptionType + u32) \<times> MMU) res" where
  "Translate m virtAddr size' writing =
     rbind (rassert ((tlb m = None) \<noteq> (pageTable m = None))) (\<lambda>_.
       if (size' = 4 \<and> virtAddr AND 0x3 \<noteq> 0) \<or> (size' = 2 \<and> virtAddr AND 0x1 \<noteq> 0)
       then Inr (Inl ADDRESS_ERROR_EXCEPTION, m)
       else
         let vpn = virtAddr div of_nat PAGE_SIZE; offset = virtAddr mod of_nat PAGE_SIZE in
         rbind (RetrievePageEntry m vpn) (\<lambda>(r, m1).
           case r of
             Inl e \<Rightarrow> Inr (Inl e, m1)
           | Inr entry \<Rightarrow>
               if readOnly (get_entry m1 entry) \<and> writing then Inr (Inl READ_ONLY_EXCEPTION, m1)
               else
                 let pageFrame = physicalPage (get_entry m1 entry) in
                 if pageFrame \<ge> of_nat NUM_PHYS_PAGES then Inr (Inl BUS_ERROR_EXCEPTION, m1)
                 else
                   let m2 = put_entry m1 entry ((get_entry m1 entry)\<lparr>useBit := True,
                              dirty := (dirty (get_entry m1 entry) \<or> writing)\<rparr>);
                       physAddr = pageFrame * of_nat PAGE_SIZE + offset
                   in rbind (rassert (physAddr + size' \<le> of_nat MEMORY_SIZE)) (\<lambda>_. Inr (Inr physAddr, m2))))"

section \<open>Memory\<close>

text \<open>A little-endian host, the configuration of the build: the conversions are the identity.\<close>

definition WordToHost :: "u32 \<Rightarrow> u32" where "WordToHost word = word"
definition ShortToHost :: "16 word \<Rightarrow> 16 word" where "ShortToHost shortword = shortword"
definition WordToMachine :: "u32 \<Rightarrow> u32" where "WordToMachine word = WordToHost word"
definition ShortToMachine :: "16 word \<Rightarrow> 16 word" where "ShortToMachine shortword = ShortToHost shortword"

definition short_bytes :: "16 word \<Rightarrow> byte list" where
  "short_bytes h = [ucast h, ucast (drop_bit 8 h)]"

definition bytes_short :: "byte list \<Rightarrow> 16 word" where
  "bytes_short bs = ucast (bs ! 0) OR push_bit 8 (ucast (bs ! 1))"

text \<open>
  A read of one byte extends its sign, since \<open>mainMemory\<close> is an array of \<open>char\<close>.
\<close>

definition load :: "byte list \<Rightarrow> nat \<Rightarrow> u32 \<Rightarrow> u32 res" where
  "load mem p size' =
     (if size' = 1 then Inr (scast (mem ! p))
      else if size' = 2 then Inr (ucast (ShortToHost (bytes_short (slice p 2 mem))))
      else if size' = 4 then Inr (WordToHost (bytes_u32 (slice p 4 mem)))
      else Inl AssertFailed)"

definition put :: "byte list \<Rightarrow> nat \<Rightarrow> u32 \<Rightarrow> u32 \<Rightarrow> byte list res" where
  "put mem p size' v =
     (if size' = 1 then Inr (overlay mem p [ucast (v AND 0xFF)])
      else if size' = 2 then Inr (overlay mem p (short_bytes (ShortToMachine (ucast (v AND 0xFFFF)))))
      else if size' = 4 then Inr (overlay mem p (u32_bytes (WordToMachine v)))
      else Inl AssertFailed)"

definition MMU_ReadMem :: "MMU \<Rightarrow> u32 \<Rightarrow> u32 \<Rightarrow> ((ExceptionType + u32) \<times> MMU) res" where
  "MMU_ReadMem m addr size' =
     rbind (Translate m addr size' False) (\<lambda>(r, m1).
       case r of
         Inl e \<Rightarrow> Inr (Inl e, m1)
       | Inr pa \<Rightarrow> rbind (load (mainMemory m1) (unat pa) size') (\<lambda>v. Inr (Inr v, m1)))"

definition MMU_WriteMem :: "MMU \<Rightarrow> u32 \<Rightarrow> u32 \<Rightarrow> u32 \<Rightarrow> (ExceptionType \<times> MMU) res" where
  "MMU_WriteMem m addr size' v =
     rbind (Translate m addr size' True) (\<lambda>(r, m1).
       case r of
         Inl e \<Rightarrow> Inr (e, m1)
       | Inr pa \<Rightarrow> rbind (put (mainMemory m1) (unat pa) size' v) (\<lambda>mem. Inr (NO_EXCEPTION, m1\<lparr>mainMemory := mem\<rparr>)))"

text \<open>\<open>PrintTLB\<close>: the lines it prints, one per entry.\<close>

definition PrintTLB :: "MMU \<Rightarrow> (nat \<times> bool \<times> u32 \<times> u32 \<times> bool \<times> bool \<times> bool) list res" where
  "PrintTLB m = (case tlb m of None \<Rightarrow> Inl NullDeref
     | Some es \<Rightarrow> Inr (map (\<lambda>(i, e). (i, valid e, virtualPage e, physicalPage e, readOnly e, useBit e, dirty e))
         (enumerate 0 es)))"

section \<open>What a translation is\<close>

text \<open>
  The MMU as the kernel keeps it: a TLB or a page table, whose valid TLB entries name frames that
  exist.
\<close>

definition mmu_ok :: "MMU \<Rightarrow> bool" where
  "mmu_ok m \<longleftrightarrow> length (mainMemory m) = MEMORY_SIZE \<and> length (coreMap m) = NUM_PHYS_PAGES
     \<and> ((tlb m = None) \<noteq> (pageTable m = None))
     \<and> (\<forall>es. tlb m = Some es \<longrightarrow> (\<forall>e \<in> set es. valid e \<longrightarrow> unat (physicalPage e) < NUM_PHYS_PAGES))
     \<and> (\<forall>es. pageTable m = Some es \<longrightarrow> unat (pageTableSize m) \<le> length es)"

text \<open>The frame and the protection of a virtual page.\<close>

abbreviation mapping_of :: "TranslationEntry \<Rightarrow> u32 \<times> u32 \<times> bool \<times> bool" where
  "mapping_of e \<equiv> (virtualPage e, physicalPage e, valid e, readOnly e)"

definition page_of :: "MMU \<Rightarrow> u32 \<Rightarrow> (u32 \<times> bool) option" where
  "page_of m vpn = (case tlb m of
       Some es \<Rightarrow> map_option (\<lambda>i. (physicalPage (es ! i), readOnly (es ! i))) (find_tlb vpn 0 es)
     | None \<Rightarrow> (case pageTable m of None \<Rightarrow> None
         | Some es \<Rightarrow> if vpn < pageTableSize m \<and> valid (es ! unat vpn)
             then Some (physicalPage (es ! unat vpn), readOnly (es ! unat vpn)) else None))"

definition misaligned :: "u32 \<Rightarrow> u32 \<Rightarrow> bool" where
  "misaligned a n \<longleftrightarrow> (n = 4 \<and> a AND 0x3 \<noteq> 0) \<or> (n = 2 \<and> a AND 0x1 \<noteq> 0)"

text \<open>The physical address of an access, or none.\<close>

definition phys :: "MMU \<Rightarrow> u32 \<Rightarrow> u32 \<Rightarrow> bool \<Rightarrow> nat option" where
  "phys m a n writing =
     (if misaligned a n then None
      else case page_of m (a div of_nat PAGE_SIZE) of
        None \<Rightarrow> None
      | Some (frame, ro) \<Rightarrow>
          if ro \<and> writing \<or> NUM_PHYS_PAGES \<le> unat frame then None
          else Some (unat frame * PAGE_SIZE + unat a mod PAGE_SIZE))"

text \<open>
  The exception of an access that has no physical address, by its cause: a misaligned address, a
  page beyond the page table, a page that is not in memory or not in the TLB, a write to a
  read-only page, a frame that does not exist.
\<close>

definition fault_of :: "MMU \<Rightarrow> u32 \<Rightarrow> u32 \<Rightarrow> bool \<Rightarrow> ExceptionType" where
  "fault_of m a n writing =
     (if misaligned a n then ADDRESS_ERROR_EXCEPTION
      else case page_of m (a div of_nat PAGE_SIZE) of
        None \<Rightarrow> if tlb m = None \<and> pageTableSize m \<le> a div of_nat PAGE_SIZE then ADDRESS_ERROR_EXCEPTION else PAGE_FAULT_EXCEPTION
      | Some (frame, ro) \<Rightarrow> if ro \<and> writing then READ_ONLY_EXCEPTION else BUS_ERROR_EXCEPTION)"

text \<open>Two MMUs with the same mappings.\<close>

definition same_map :: "MMU \<Rightarrow> MMU \<Rightarrow> bool" where
  "same_map m m' \<longleftrightarrow> map_option (map mapping_of) (tlb m') = map_option (map mapping_of) (tlb m)
     \<and> map_option (map mapping_of) (pageTable m') = map_option (map mapping_of) (pageTable m)
     \<and> pageTableSize m' = pageTableSize m \<and> length (coreMap m') = length (coreMap m)"

lemma find_tlb_cases:
  "(find_tlb vpn k es = None \<and> (\<forall>e \<in> set es. \<not> (valid e \<and> virtualPage e = vpn)))
    \<or> (\<exists>i < length es. find_tlb vpn k es = Some (k + i) \<and> valid (es ! i) \<and> virtualPage (es ! i) = vpn)"
proof (induction es arbitrary: k)
  case (Cons e es)
  show ?case
  proof (cases "valid e \<and> virtualPage e = vpn")
    case True
    then show ?thesis by (intro disjI2 exI [of _ 0]) simp
  next
    case False
    from Cons.IH [of "Suc k"] show ?thesis
    proof
      assume "find_tlb vpn (Suc k) es = None \<and> (\<forall>e \<in> set es. \<not> (valid e \<and> virtualPage e = vpn))"
      with False show ?thesis by (intro disjI1) auto
    next
      assume "\<exists>i < length es. find_tlb vpn (Suc k) es = Some (Suc k + i) \<and> valid (es ! i) \<and> virtualPage (es ! i) = vpn"
      then obtain i where "i < length es" "find_tlb vpn (Suc k) es = Some (Suc k + i)" "valid (es ! i)"
        "virtualPage (es ! i) = vpn" by auto
      with False show ?thesis by (intro disjI2 exI [of _ "Suc i"]) simp
    qed
  qed
qed simp

lemma find_tlb_cong: "map mapping_of es = map mapping_of es' \<Longrightarrow> find_tlb vpn k es = find_tlb vpn k es'"
proof (induction es arbitrary: es' k)
  case (Cons e es)
  then show ?case by (cases es') auto
qed simp

lemma same_nth:
  assumes "map mapping_of es = map mapping_of es'" "i < length es"
  shows "mapping_of (es ! i) = mapping_of (es' ! i)"
proof -
  have "length es = length es'" using assms(1) by (rule map_eq_imp_length_eq)
  then show ?thesis using arg_cong [OF assms(1), of "\<lambda>xs. xs ! i"] assms(2) by simp
qed

lemma same_map_page:
  assumes "same_map m m'" "mmu_ok m"
  shows "page_of m' vpn = page_of m vpn"
proof (cases "tlb m")
  case (Some es)
  then obtain es' where es': "tlb m' = Some es'" "map mapping_of es' = map mapping_of es"
    using assms(1) by (auto simp: same_map_def map_option_case split: option.splits)
  from find_tlb_cong [OF es'(2)] have f: "find_tlb vpn 0 es' = find_tlb vpn 0 es" .
  have "i < length es'" if "find_tlb vpn 0 es' = Some i" for i
    using find_tlb_cases [of vpn 0 es'] that by auto
  then have "i < length es'" if "find_tlb vpn 0 es = Some i" for i using that f by simp
  then show ?thesis
    using Some es' f same_nth [OF es'(2)] by (cases "find_tlb vpn 0 es") (simp_all add: page_of_def)
next
  case None
  then obtain es where es: "pageTable m = Some es" using assms(2) by (auto simp: mmu_ok_def)
  then obtain es' where es': "pageTable m' = Some es'" "map mapping_of es' = map mapping_of es"
    using assms(1) by (auto simp: same_map_def map_option_case split: option.splits)
  have "length es' = length es" using es'(2) by (rule map_eq_imp_length_eq)
  then have "unat vpn < length es'" if "vpn < pageTableSize m"
    using that assms(2) es by (simp add: mmu_ok_def word_less_nat_alt)
  moreover have "tlb m' = None" "pageTableSize m' = pageTableSize m"
    using assms(1) None by (simp_all add: same_map_def)
  ultimately show ?thesis
    using None es es'(1) same_nth [OF es'(2), of "unat vpn"] by (auto simp: page_of_def)
qed

lemma same_map_phys: "same_map m m' \<Longrightarrow> mmu_ok m \<Longrightarrow> phys m' a n w = phys m a n w"
  by (simp add: phys_def same_map_page)

lemma same_map_ok:
  assumes "same_map m m'" "mmu_ok m" "length (mainMemory m') = MEMORY_SIZE"
  shows "mmu_ok m'"
proof -
  have "\<forall>e \<in> set es'. valid e \<longrightarrow> unat (physicalPage e) < NUM_PHYS_PAGES" if t: "tlb m' = Some es'" for es'
  proof
    fix e
    assume e: "e \<in> set es'"
    from t assms(1) obtain es where es: "tlb m = Some es" "map mapping_of es' = map mapping_of es"
      by (auto simp: same_map_def map_option_case split: option.splits)
    from e obtain i where i: "i < length es'" "e = es' ! i" by (metis in_set_conv_nth)
    have "length es' = length es" using es(2) by (rule map_eq_imp_length_eq)
    then have "es ! i \<in> set es" using i(1) by simp
    moreover have "mapping_of e = mapping_of (es ! i)" using same_nth [OF es(2) i(1)] i(2) by simp
    ultimately show "valid e \<longrightarrow> unat (physicalPage e) < NUM_PHYS_PAGES" using assms(2) es(1) by (auto simp: mmu_ok_def)
  qed
  moreover have "unat (pageTableSize m') \<le> length es'" if t: "pageTable m' = Some es'" for es'
  proof -
    from t assms(1) obtain es where es: "pageTable m = Some es" "map mapping_of es' = map mapping_of es"
      by (auto simp: same_map_def map_option_case split: option.splits)
    have "length es' = length es" using es(2) by (rule map_eq_imp_length_eq)
    then show ?thesis using assms(1,2) es(1) by (auto simp: mmu_ok_def same_map_def)
  qed
  moreover have "(tlb m' = None) = (tlb m = None)" "(pageTable m' = None) = (pageTable m = None)"
    using assms(1) by (auto simp: same_map_def)
  ultimately show ?thesis using assms by (simp add: mmu_ok_def same_map_def)
qed

lemma map_update_same: "f x = f (xs ! i) \<Longrightarrow> map f (xs[i := x]) = map f xs"
  by (cases "i < length xs") (auto intro!: nth_equalityI simp: nth_list_update)

lemma put_entry_same:
  assumes "mapping_of e = mapping_of (get_entry m r)"
  shows "same_map m (put_entry m r e)" "mainMemory (put_entry m r e) = mainMemory m"
  using assms by (cases r; auto simp: same_map_def option.map_comp o_def map_update_same intro!: option.map_cong)+

lemma Retrieve_ok:
  assumes "mmu_ok m"
  shows "\<exists>r m'. RetrievePageEntry m vpn = Inr (r, m') \<and> same_map m m' \<and> mainMemory m' = mainMemory m
    \<and> (case page_of m vpn of
          None \<Rightarrow> r = Inl (if tlb m = None \<and> pageTableSize m \<le> vpn then ADDRESS_ERROR_EXCEPTION else PAGE_FAULT_EXCEPTION)
        | Some (frame, ro) \<Rightarrow> \<exists>en. r = Inr en \<and> physicalPage (get_entry m' en) = frame \<and> readOnly (get_entry m' en) = ro)"
proof (cases "tlb m")
  case None
  then obtain es where es: "pageTable m = Some es" "unat (pageTableSize m) \<le> length es"
    using assms by (auto simp: mmu_ok_def)
  then have "unat vpn < length es" if "vpn < pageTableSize m" using that by (simp add: word_less_nat_alt)
  then show ?thesis
    using None es(1) by (cases "vpn < pageTableSize m"; cases "valid (es ! unat vpn)")
      (auto simp: RetrievePageEntry_def page_of_def same_map_def not_less leD)
next
  case (Some es)
  then have fr: "\<forall>e \<in> set es. valid e \<longrightarrow> unat (physicalPage e) < NUM_PHYS_PAGES" and
    cm: "length (coreMap m) = NUM_PHYS_PAGES" using assms by (auto simp: mmu_ok_def)
  consider "find_tlb vpn 0 es = None" | i where "i < length es" "find_tlb vpn 0 es = Some i" "valid (es ! i)"
    using find_tlb_cases [of vpn 0 es] by auto
  then show ?thesis
  proof cases
    case 1
    with Some show ?thesis by (simp add: RetrievePageEntry_def page_of_def same_map_def Let_def)
  next
    case 2
    then have "unat (physicalPage (es ! i)) < length (coreMap m)" using fr cm by simp
    with 2 Some show ?thesis by (simp add: RetrievePageEntry_def page_of_def same_map_def Let_def)
  qed
qed

text \<open>The offset of an aligned access leaves room for it in its page.\<close>

lemma aligned_offset:
  assumes "\<not> misaligned a n" "n \<in> {1, 2, 4}"
  shows "unat a mod PAGE_SIZE + unat n \<le> PAGE_SIZE" "(unat a mod PAGE_SIZE) mod unat n = 0"
proof -
  have and3: "a AND 3 = a mod 4" "a AND 1 = a mod 2"
    using take_bit_eq_mask [of 2 a] take_bit_eq_mask [of 1 a] take_bit_eq_mod [of 2 a] take_bit_eq_mod [of 1 a]
    by (simp_all add: mask_eq_exp_minus_1)
  define k where "k = unat a mod 128"
  have k: "k < 128" by (simp add: k_def)
  have m: "unat a mod 4 = k mod 4" "unat a mod 2 = k mod 2" by (simp_all add: k_def mod_mod_cancel)
  have al: "n = 4 \<Longrightarrow> k mod 4 = 0" "n = 2 \<Longrightarrow> k mod 2 = 0"
    using assms(1) and3 m by (auto simp: misaligned_def word_unat_eq_iff unat_mod_distrib)
  have "k mod 4 = 0 \<Longrightarrow> k + 4 \<le> 128" "k mod 2 = 0 \<Longrightarrow> k + 2 \<le> 128" using k by presburger+
  then show "unat a mod PAGE_SIZE + unat n \<le> PAGE_SIZE" "(unat a mod PAGE_SIZE) mod unat n = 0"
    using assms(2) al k unfolding PAGE_SIZE_def SECTOR_SIZE_def k_def [symmetric] by auto
qed

lemma same_map_trans: "same_map m m' \<Longrightarrow> same_map m' m'' \<Longrightarrow> same_map m m''"
  by (simp add: same_map_def)

lemma physAddr_small:
  assumes "unat (fr :: u32) < NUM_PHYS_PAGES" "\<not> misaligned a n" "n \<in> {1, 2, 4}"
  defines "p \<equiv> unat fr * PAGE_SIZE + unat a mod PAGE_SIZE"
  shows "fr * of_nat PAGE_SIZE + a mod of_nat PAGE_SIZE = of_nat p" "p + unat n \<le> MEMORY_SIZE"
    "unat (of_nat p :: u32) = p" "of_nat p + n \<le> (of_nat MEMORY_SIZE :: u32)"
proof -
  have "unat fr * 128 \<le> 15 * 128" using assms(1) by (simp add: NUM_PHYS_PAGES_def)
  then show le: "p + unat n \<le> MEMORY_SIZE"
    using aligned_offset [OF assms(2,3)]
    by (simp add: p_def MEMORY_SIZE_def NUM_PHYS_PAGES_def PAGE_SIZE_def SECTOR_SIZE_def)
  then have p: "p + unat n \<le> 2048" by (simp add: MEMORY_SIZE_def NUM_PHYS_PAGES_def PAGE_SIZE_def SECTOR_SIZE_def)
  then show up: "unat (of_nat p :: u32) = p" by (simp add: unsigned_of_nat take_bit_nat_eq_self)
  have "unat (a mod 128) = unat a mod 128" by (simp add: unat_mod_distrib)
  then have "of_nat (unat a mod 128) = a mod 128" by (metis of_nat_unat ucast_id)
  then have "of_nat (unat fr * 128 + unat a mod 128) = fr * 128 + a mod 128" by simp
  then show "fr * of_nat PAGE_SIZE + a mod of_nat PAGE_SIZE = of_nat p" by (simp add: p_def PAGE_SIZE_def SECTOR_SIZE_def)
  have "unat (of_nat p + n :: u32) = p + unat n" using up p by (subst unat_add_small) simp_all
  then show "of_nat p + n \<le> (of_nat MEMORY_SIZE :: u32)"
    using p by (simp add: word_le_nat_alt MEMORY_SIZE_def NUM_PHYS_PAGES_def PAGE_SIZE_def SECTOR_SIZE_def)
qed

lemma Translate_ok:
  assumes "mmu_ok m" "n \<in> {1, 2, 4}"
  shows "\<exists>r m'. Translate m a n w = Inr (r, m') \<and> same_map m m' \<and> mainMemory m' = mainMemory m
    \<and> (case phys m a n w of
         None \<Rightarrow> r = Inl (fault_of m a n w)
       | Some p \<Rightarrow> r = Inr (of_nat p) \<and> unat (of_nat p :: u32) = p \<and> p + unat n \<le> MEMORY_SIZE)"
proof (cases "misaligned a n")
  case True
  with assms show ?thesis by (auto simp: Translate_def misaligned_def phys_def fault_of_def mmu_ok_def same_map_def)
next
  case False
  let ?vpn = "a div of_nat PAGE_SIZE"
  have al: "\<not> ((n = 4 \<and> a AND 3 \<noteq> 0) \<or> (n = 2 \<and> a AND 1 \<noteq> 0))" using False by (simp add: misaligned_def)
  have tp: "(tlb m = None) \<noteq> (pageTable m = None)" using assms(1) by (simp add: mmu_ok_def)
  from Retrieve_ok [OF assms(1), of ?vpn] obtain r1 m1 where
    m1: "RetrievePageEntry m ?vpn = Inr (r1, m1)" "same_map m m1" "mainMemory m1 = mainMemory m"
      "case page_of m ?vpn of
          None \<Rightarrow> r1 = Inl (if tlb m = None \<and> pageTableSize m \<le> ?vpn then ADDRESS_ERROR_EXCEPTION else PAGE_FAULT_EXCEPTION)
        | Some (frame, ro) \<Rightarrow> \<exists>en. r1 = Inr en \<and> physicalPage (get_entry m1 en) = frame \<and> readOnly (get_entry m1 en) = ro"
    by blast
  show ?thesis
  proof (cases "page_of m ?vpn")
    case None
    with m1 al tp False show ?thesis by (auto simp: Translate_def phys_def fault_of_def Let_def)
  next
    case (Some fr)
    then obtain en where en: "r1 = Inr en" "fr = (physicalPage (get_entry m1 en), readOnly (get_entry m1 en))"
      using m1(4) by (cases fr) auto
    let ?e = "get_entry m1 en"
    let ?m2 = "put_entry m1 en (?e\<lparr>useBit := True, dirty := (dirty ?e \<or> w)\<rparr>)"
    have pe: "same_map m ?m2" "mainMemory ?m2 = mainMemory m"
      using put_entry_same [of "?e\<lparr>useBit := True, dirty := (dirty ?e \<or> w)\<rparr>" m1 en] m1(2,3) same_map_trans by auto
    have N: "physicalPage ?e \<ge> of_nat NUM_PHYS_PAGES \<longleftrightarrow> \<not> unat (physicalPage ?e) < NUM_PHYS_PAGES"
      by (simp add: word_le_nat_alt NUM_PHYS_PAGES_def not_less)
    show ?thesis
      using m1(1-3) al tp False Some en pe N physAddr_small [of "physicalPage ?e", OF _ False assms(2)]
      by (auto simp: Translate_def phys_def fault_of_def Let_def)
  qed
qed

section \<open>Memory contents\<close>

text \<open>What of a value survives in memory: a byte with its sign, a short without, a word.\<close>

definition stored_value :: "u32 \<Rightarrow> u32 \<Rightarrow> u32" where
  "stored_value n v = (if n = 1 then scast (ucast v :: byte) else if n = 2 then ucast (ucast v :: 16 word) else v)"

definition peek :: "MMU \<Rightarrow> nat \<Rightarrow> u32 \<Rightarrow> u32" where
  "peek m p n = (case load (mainMemory m) p n of Inr v \<Rightarrow> v | Inl _ \<Rightarrow> 0)"

lemma load_peek: "n \<in> {1, 2, 4} \<Longrightarrow> load (mainMemory m) p n = Inr (peek m p n)"
  by (auto simp: peek_def load_def)

lemma bytes_short_bytes: "bytes_short (short_bytes h) = h"
  by (rule bit_word_eqI) (auto simp: bytes_short_def short_bytes_def bit_simps)

lemma length_short_bytes [simp]: "length (short_bytes h) = 2"
  by (simp add: short_bytes_def)

lemma slice_overlay_other:
  assumes "p + length bs \<le> length mem" "q + k \<le> p \<or> p + length bs \<le> q"
  shows "slice q k (overlay mem p bs) = slice q k mem"
  using assms by (auto simp: slice_def overlay_def drop_take)

lemma ucast_masks: "ucast (v AND 0xFF :: u32) = (ucast v :: byte)" "ucast (v AND 0xFFFF :: u32) = (ucast v :: 16 word)"
proof -
  have m: "(0xFF :: u32) = mask 8" "(0xFFFF :: u32) = mask 16" by (simp_all add: mask_eq_exp_minus_1)
  show "ucast (v AND 0xFF :: u32) = (ucast v :: byte)" "ucast (v AND 0xFFFF :: u32) = (ucast v :: 16 word)"
    unfolding m by (rule bit_word_eqI; auto simp: bit_simps)+
qed

lemma put_ok:
  assumes "n \<in> {1, 2, 4}" "p + unat n \<le> length mem"
  shows "\<exists>bs. put mem p n v = Inr (overlay mem p bs) \<and> length bs = unat n
    \<and> load (overlay mem p bs) p n = Inr (stored_value n v)"
proof -
  consider "n = 1" | "n = 2" | "n = 4" using assms(1) by blast
  then show ?thesis
  proof cases
    case 1
    have "overlay mem p [ucast v :: byte] ! p = ucast v" using assms(2) 1 by (simp add: overlay_def nth_append)
    with 1 show ?thesis by (intro exI [of _ "[ucast v]"]) (simp add: put_def load_def stored_value_def ucast_masks)
  next
    case 2
    with assms(2) slice_overlay_same [of p "short_bytes (ucast v)" mem] show ?thesis
      by (intro exI [of _ "short_bytes (ucast v)"]) (simp add: put_def load_def stored_value_def ucast_masks ShortToMachine_def ShortToHost_def bytes_short_bytes)
  next
    case 3
    with assms(2) slice_overlay_same [of p "u32_bytes v" mem] show ?thesis
      by (intro exI [of _ "u32_bytes v"]) (simp add: put_def load_def stored_value_def WordToMachine_def WordToHost_def)
  qed
qed

lemma load_cong:
  assumes "k \<in> {1, 2, 4}" "q + unat k \<le> length mem" "length mem' = length mem"
    "slice q (unat k) mem' = slice q (unat k) mem"
  shows "load mem' q k = load mem q k"
proof -
  have "mem' ! q = mem ! q" if "k = 1"
  proof -
    have "slice q 1 mem' ! 0 = slice q 1 mem ! 0" using assms(4) that by simp
    then show ?thesis using assms(2,3) that by (simp add: slice_def)
  qed
  with assms show ?thesis by (auto simp: load_def)
qed

section \<open>Virtual memory\<close>

text \<open>
  What a program relies on: an access that translates goes through, keeps the translation, and
  changes no other bytes.
\<close>

locale virtual_memory =
  fixes ok :: "'m \<Rightarrow> bool"
    and ph :: "'m \<Rightarrow> u32 \<Rightarrow> u32 \<Rightarrow> bool \<Rightarrow> nat option"
    and pk :: "'m \<Rightarrow> nat \<Rightarrow> u32 \<Rightarrow> u32"
    and sv :: "u32 \<Rightarrow> u32 \<Rightarrow> u32"
    and rd :: "'m \<Rightarrow> u32 \<Rightarrow> u32 \<Rightarrow> ((ExceptionType + u32) \<times> 'm) res"
    and wr :: "'m \<Rightarrow> u32 \<Rightarrow> u32 \<Rightarrow> u32 \<Rightarrow> (ExceptionType \<times> 'm) res"
  assumes ph_read: "ph m a n True = Some p \<Longrightarrow> ph m a n False = Some p"
    and rd_law: "ok m \<Longrightarrow> n \<in> {1, 2, 4} \<Longrightarrow> ph m a n False = Some p \<Longrightarrow>
      \<exists>m'. rd m a n = Inr (Inr (pk m p n), m') \<and> ok m' \<and> (\<forall>b k w. ph m' b k w = ph m b k w)
        \<and> (\<forall>q k. pk m' q k = pk m q k)"
    and wr_law: "ok m \<Longrightarrow> n \<in> {1, 2, 4} \<Longrightarrow> ph m a n True = Some p \<Longrightarrow>
      \<exists>m'. wr m a n v = Inr (NO_EXCEPTION, m') \<and> ok m' \<and> (\<forall>b k w. ph m' b k w = ph m b k w)
        \<and> pk m' p n = sv n v
        \<and> (\<forall>b k w q. k \<in> {1, 2, 4} \<and> ph m b k w = Some q \<and> (q + unat k \<le> p \<or> p + unat n \<le> q) \<longrightarrow> pk m' q k = pk m q k)"
begin

lemma read_after_write:
  assumes "ok m" "n \<in> {1, 2, 4}" "k \<in> {1, 2, 4}" "ph m a n True = Some p" "ph m b k False = Some q"
    and "b = a \<and> k = n \<or> q + unat k \<le> p \<or> p + unat n \<le> q"
  shows "\<exists>m' m''. wr m a n v = Inr (NO_EXCEPTION, m')
    \<and> rd m' b k = Inr (Inr (if b = a \<and> k = n then sv n v else pk m q k), m'')"
proof -
  from wr_law [OF assms(1,2,4), of v] obtain m' where
    m': "wr m a n v = Inr (NO_EXCEPTION, m')" "ok m'" "\<forall>b k w. ph m' b k w = ph m b k w" "pk m' p n = sv n v"
      "\<forall>b k w q. k \<in> {1, 2, 4} \<and> ph m b k w = Some q \<and> (q + unat k \<le> p \<or> p + unat n \<le> q) \<longrightarrow> pk m' q k = pk m q k"
    by blast
  have "ph m' b k False = Some q" using m'(3) assms(5) by simp
  from rd_law [OF m'(2) assms(3) this] obtain m'' where r: "rd m' b k = Inr (Inr (pk m' q k), m'')" by blast
  have "pk m' q k = (if b = a \<and> k = n then sv n v else pk m q k)"
  proof (cases "b = a \<and> k = n")
    case True
    then have "q = p" using ph_read [OF assms(4)] assms(5) by simp
    with True m'(4) show ?thesis by simp
  next
    case False
    then have "q + unat k \<le> p \<or> p + unat n \<le> q" using assms(6) by blast
    then have "pk m' q k = pk m q k" using m'(5) assms(3,5) by blast
    with False show ?thesis by auto
  qed
  with m'(1) r show ?thesis by auto
qed

end

lemma ReadMem_ok:
  assumes "mmu_ok m" "n \<in> {1, 2, 4}" "phys m a n False = Some p"
  shows "\<exists>m'. MMU_ReadMem m a n = Inr (Inr (peek m p n), m') \<and> same_map m m' \<and> mainMemory m' = mainMemory m \<and> mmu_ok m'"
proof -
  from Translate_ok [OF assms(1,2), of a False] assms(3) obtain m' where
    "Translate m a n False = Inr (Inr (of_nat p), m')" "same_map m m'" "mainMemory m' = mainMemory m"
    "unat (of_nat p :: u32) = p" by auto
  moreover from this(2,3) have "mmu_ok m'" using same_map_ok assms(1) by (simp add: mmu_ok_def)
  ultimately show ?thesis using load_peek [OF assms(2), of m p] by (simp add: MMU_ReadMem_def)
qed

lemma WriteMem_ok:
  assumes "mmu_ok m" "n \<in> {1, 2, 4}" "phys m a n True = Some p"
  shows "\<exists>m' bs. MMU_WriteMem m a n v = Inr (NO_EXCEPTION, m') \<and> same_map m m' \<and> mmu_ok m'
    \<and> mainMemory m' = overlay (mainMemory m) p bs \<and> length bs = unat n \<and> p + unat n \<le> MEMORY_SIZE
    \<and> peek m' p n = stored_value n v"
proof -
  from Translate_ok [OF assms(1,2), of a True] assms(3) obtain m1 where
    t: "Translate m a n True = Inr (Inr (of_nat p), m1)" "same_map m m1" "mainMemory m1 = mainMemory m"
      "unat (of_nat p :: u32) = p" "p + unat n \<le> MEMORY_SIZE" by auto
  have len: "length (mainMemory m) = MEMORY_SIZE" using assms(1) by (simp add: mmu_ok_def)
  with put_ok [OF assms(2), of p "mainMemory m" v] t(5) obtain bs where
    bs: "put (mainMemory m) p n v = Inr (overlay (mainMemory m) p bs)" "length bs = unat n"
      "load (overlay (mainMemory m) p bs) p n = Inr (stored_value n v)" by auto
  let ?m' = "m1\<lparr>mainMemory := overlay (mainMemory m) p bs\<rparr>"
  have sm: "same_map m ?m'" using t(2) by (simp add: same_map_def)
  then have "mmu_ok ?m'" using same_map_ok [OF sm assms(1)] len bs(2) t(5) by simp
  moreover have "MMU_WriteMem m a n v = Inr (NO_EXCEPTION, ?m')" using t bs(1) by (simp add: MMU_WriteMem_def)
  moreover have "peek ?m' p n = stored_value n v" using bs(3) by (simp add: peek_def)
  ultimately show ?thesis using sm bs(2) t(5) by (intro exI [of _ ?m'] exI [of _ bs]) simp
qed

lemma peek_other:
  assumes "mmu_ok m" "k \<in> {1, 2, 4}" "phys m b k w = Some q" "mainMemory m' = overlay (mainMemory m) p bs"
    and "p + length bs \<le> MEMORY_SIZE" "q + unat k \<le> p \<or> p + length bs \<le> q"
  shows "peek m' q k = peek m q k"
proof -
  have "length (mainMemory m) = MEMORY_SIZE" using assms(1) by (simp add: mmu_ok_def)
  moreover have "q + unat k \<le> MEMORY_SIZE" using Translate_ok [OF assms(1,2), of b w] assms(3) by auto
  ultimately have "load (mainMemory m') q k = load (mainMemory m) q k"
    using load_cong [OF assms(2)] slice_overlay_other [of p bs "mainMemory m" q "unat k"] assms(4-6) by simp
  then show ?thesis by (simp add: peek_def)
qed

interpretation vm: virtual_memory mmu_ok phys peek stored_value MMU_ReadMem MMU_WriteMem
proof unfold_locales
  show "phys m a n True = Some p \<Longrightarrow> phys m a n False = Some p" for m a n p
    by (auto simp: phys_def split: option.splits if_splits)
  show "\<exists>m'. MMU_ReadMem m a n = Inr (Inr (peek m p n), m') \<and> mmu_ok m' \<and> (\<forall>b k w. phys m' b k w = phys m b k w)
      \<and> (\<forall>q k. peek m' q k = peek m q k)"
    if "mmu_ok m" "n \<in> {1, 2, 4}" "phys m a n False = Some p" for m n a p
    using ReadMem_ok [OF that] same_map_phys that(1) by (fastforce simp: peek_def)
  show "\<exists>m'. MMU_WriteMem m a n v = Inr (NO_EXCEPTION, m') \<and> mmu_ok m' \<and> (\<forall>b k w. phys m' b k w = phys m b k w)
      \<and> peek m' p n = stored_value n v
      \<and> (\<forall>b k w q. k \<in> {1, 2, 4} \<and> phys m b k w = Some q \<and> (q + unat k \<le> p \<or> p + unat n \<le> q) \<longrightarrow> peek m' q k = peek m q k)"
    if a: "mmu_ok m" "n \<in> {1, 2, 4}" "phys m a n True = Some p" for m n a p v
  proof -
    from WriteMem_ok [OF a, of v] obtain m' bs where
      w: "MMU_WriteMem m a n v = Inr (NO_EXCEPTION, m')" "same_map m m'" "mmu_ok m'"
        "mainMemory m' = overlay (mainMemory m) p bs" "length bs = unat n" "p + unat n \<le> MEMORY_SIZE"
        "peek m' p n = stored_value n v" by blast
    have "\<forall>b k w q. k \<in> {1, 2, 4} \<and> phys m b k w = Some q \<and> (q + unat k \<le> p \<or> p + unat n \<le> q) \<longrightarrow> peek m' q k = peek m q k"
      using peek_other [OF a(1) _ _ w(4)] w(5,6) by auto
    with w a(1) same_map_phys show ?thesis by blast
  qed
qed

section \<open>Properties\<close>


definition sample_mmu :: MMU where
  "sample_mmu = (MMU_new (\<lambda>_. \<lparr>virtualPage = 0, physicalPage = 0, valid = False, readOnly = False, useBit = False,
     dirty = False\<rparr>) 0)\<lparr>tlb := Some [\<lparr>virtualPage = 3, physicalPage = 5, valid = True, readOnly = False,
       useBit = False, dirty = False\<rparr>]\<rparr>"

lemma sample_mmu_facts: "mmu_ok sample_mmu" "page_of sample_mmu 3 = Some (5, False)"
  by (simp_all add: sample_mmu_def mmu_ok_def MMU_new_def NUM_PHYS_PAGES_def page_of_def)

lemma sample_mmu_phys: "phys sample_mmu 388 4 w = Some 644"
  using sample_mmu_facts(2) by (simp add: phys_def misaligned_def PAGE_SIZE_def SECTOR_SIZE_def NUM_PHYS_PAGES_def)


text \<open>
  C33. Memory is memory: after a write that translates, a read of the same address and size gives
  the value written, cut to the size, and a read of any address whose bytes do not overlap gives
  what it gave before.
\<close>

theorem memory_read_after_write:
  assumes "mmu_ok m" "n \<in> {1, 2, 4}" "k \<in> {1, 2, 4}" "phys m a n True = Some p" "phys m b k False = Some q"
    and "b = a \<and> k = n \<or> q + unat k \<le> p \<or> p + unat n \<le> q"
  shows "\<exists>m' m''. MMU_WriteMem m a n v = Inr (NO_EXCEPTION, m')
    \<and> MMU_ReadMem m' b k = Inr (Inr (if b = a \<and> k = n then stored_value n v else peek m q k), m'')"
  using assms by (rule vm.read_after_write)

theorem memory_read_after_write_witness:
  "\<exists>m' m''. MMU_WriteMem sample_mmu 388 4 0xCAFE = Inr (NO_EXCEPTION, m')
    \<and> MMU_ReadMem m' 388 4 = Inr (Inr 0xCAFE, m'')"
  using memory_read_after_write [OF sample_mmu_facts(1) _ _ sample_mmu_phys sample_mmu_phys, of "0xCAFE"]
  by (simp add: stored_value_def)

end
