(* ===== verification/Mips_Exec.thy ===== *)
theory Mips_Exec
  imports Mips_Decode Mmu "HOL-Library.Signed_Division"
begin

text \<open>
  \<open>machine/machine.cc\<close> and \<open>machine/mips_sim.cc\<close>: the registers, exceptions, delayed loads, and the
  execution of one instruction of a user program.
\<close>

unbundle bit_operations_syntax

section \<open>The machine\<close>

definition STACK_REG :: nat where "STACK_REG = 29"
definition RET_ADDR_REG :: nat where "RET_ADDR_REG = 31"
definition HI_REG :: nat where "HI_REG = 32"
definition LO_REG :: nat where "LO_REG = 33"
definition PC_REG :: nat where "PC_REG = 34"
definition NEXT_PC_REG :: nat where "NEXT_PC_REG = 35"
definition PREV_PC_REG :: nat where "PREV_PC_REG = 36"
definition LOAD_REG :: nat where "LOAD_REG = 37"
definition LOAD_VALUE_REG :: nat where "LOAD_VALUE_REG = 38"
definition BAD_VADDR_REG :: nat where "BAD_VADDR_REG = 39"
definition NUM_GP_REGS :: nat where "NUM_GP_REGS = 32"
definition NUM_TOTAL_REGS :: nat where "NUM_TOTAL_REGS = 40"

lemmas reg_defs = RET_ADDR_REG_def HI_REG_def LO_REG_def PC_REG_def NEXT_PC_REG_def PREV_PC_REG_def
  LOAD_REG_def LOAD_VALUE_REG_def BAD_VADDR_REG_def NUM_GP_REGS_def NUM_TOTAL_REGS_def

datatype MachineStatus = IDLE_MODE | SYSTEM_MODE | USER_MODE

text \<open>
  The machine with the status that \<open>interrupt\<close> keeps. A handler is a kernel function; the table holds
  its address, and \<open>krn\<close> below says what the function at an address does. The operations are on
  every extension of the record, in whose further fields the kernel keeps its own state.
\<close>

record Machine =
  registers :: "u32 list"
  mmu :: MMU
  handlers :: "ExceptionType \<Rightarrow> nat option"
  status :: MachineStatus

type_synonym 'z kernel_code = "nat \<Rightarrow> ExceptionType \<Rightarrow> 'z Machine_scheme \<Rightarrow> 'z Machine_scheme res"

definition Machine_new :: "MMU \<Rightarrow> MachineStatus \<Rightarrow> Machine" where
  "Machine_new mm st = \<lparr>registers = replicate NUM_TOTAL_REGS 0, mmu = mm, handlers = (\<lambda>_. None), status = st\<rparr>"

definition ReadRegister :: "'z Machine_scheme \<Rightarrow> nat \<Rightarrow> u32 res" where
  "ReadRegister m num = rbind (rassert (num < NUM_TOTAL_REGS)) (\<lambda>_. Inr (registers m ! num))"

definition WriteRegister :: "'z Machine_scheme \<Rightarrow> nat \<Rightarrow> u32 \<Rightarrow> 'z Machine_scheme res" where
  "WriteRegister m num v = rbind (rassert (num < NUM_TOTAL_REGS)) (\<lambda>_.
     Inr (if num \<noteq> 0 then m\<lparr>registers := (registers m)[num := v]\<rparr> else m))"

definition SetHandler :: "'z Machine_scheme \<Rightarrow> ExceptionType \<Rightarrow> nat option \<Rightarrow> 'z Machine_scheme res" where
  "SetHandler m et handler = rbind (rassert (handler \<noteq> None)) (\<lambda>_.
     Inr (m\<lparr>handlers := (handlers m)(et := handler)\<rparr>))"

text \<open>\<open>registers[registers[LOAD_REG]]\<close> is an access outside the array for a large \<open>LOAD_REG\<close>.\<close>

definition DelayedLoad :: "'z Machine_scheme \<Rightarrow> u32 \<Rightarrow> u32 \<Rightarrow> 'z Machine_scheme res" where
  "DelayedLoad m nextReg nextValue =
     (let r = registers m; target = unat (r ! LOAD_REG) in
      rbind (rcheck OutOfBounds (target < NUM_TOTAL_REGS)) (\<lambda>_.
        Inr (m\<lparr>registers := r[target := r ! LOAD_VALUE_REG, LOAD_REG := nextReg, LOAD_VALUE_REG := nextValue, 0 := 0]\<rparr>)))"

definition RaiseException :: "'z kernel_code \<Rightarrow> 'z Machine_scheme \<Rightarrow> ExceptionType \<Rightarrow> u32 \<Rightarrow> 'z Machine_scheme res" where
  "RaiseException krn m et badVAddr =
     (case handlers m et of
        None \<Rightarrow> Inl AssertFailed
      | Some h \<Rightarrow>
          rbind (DelayedLoad (m\<lparr>registers := (registers m)[BAD_VADDR_REG := badVAddr]\<rparr>) 0 0) (\<lambda>m1.
          rbind (krn h et (m1\<lparr>status := SYSTEM_MODE\<rparr>)) (\<lambda>m2. Inr (m2\<lparr>status := USER_MODE\<rparr>))))"

text \<open>The wrappers of the MMU's operations: \<open>None\<close>, or false, when an exception was raised.\<close>

definition Machine_ReadMem :: "'z kernel_code \<Rightarrow> 'z Machine_scheme \<Rightarrow> u32 \<Rightarrow> u32 \<Rightarrow> (u32 option \<times> 'z Machine_scheme) res" where
  "Machine_ReadMem krn m addr size' =
     rbind (MMU_ReadMem (mmu m) addr size') (\<lambda>(r, mm).
       case r of
         Inl e \<Rightarrow> rbind (RaiseException krn (m\<lparr>mmu := mm\<rparr>) e addr) (\<lambda>m'. Inr (None, m'))
       | Inr v \<Rightarrow> Inr (Some v, m\<lparr>mmu := mm\<rparr>))"

definition Machine_WriteMem :: "'z kernel_code \<Rightarrow> 'z Machine_scheme \<Rightarrow> u32 \<Rightarrow> u32 \<Rightarrow> u32 \<Rightarrow> (bool \<times> 'z Machine_scheme) res" where
  "Machine_WriteMem krn m addr size' v =
     rbind (MMU_WriteMem (mmu m) addr size' v) (\<lambda>(e, mm).
       if e \<noteq> NO_EXCEPTION
       then rbind (RaiseException krn (m\<lparr>mmu := mm\<rparr>) e addr) (\<lambda>m'. Inr (False, m'))
       else Inr (True, m\<lparr>mmu := mm\<rparr>))"

definition FetchInstruction :: "'z kernel_code \<Rightarrow> 'z Machine_scheme \<Rightarrow> (Instruction option \<times> 'z Machine_scheme) res" where
  "FetchInstruction krn m =
     rbind (Machine_ReadMem krn m (registers m ! PC_REG) 4) (\<lambda>(raw, m1). Inr (map_option Decode raw, m1))"

section \<open>Multiplication\<close>

text \<open>
  The loop of \<open>Mult\<close> with \<open>k\<close> iterations to go; \<open>a\<close> is a C \<open>int\<close>, so \<open>a >>= 1\<close> keeps its sign. The
  result is the pair of \<open>hi\<close> and \<open>lo\<close>.
\<close>

fun Mult_loop :: "nat \<Rightarrow> u32 \<Rightarrow> u32 \<Rightarrow> u32 \<Rightarrow> u32 \<Rightarrow> u32 \<Rightarrow> u32 \<times> u32" where
  "Mult_loop 0 a bHi bLo hi lo = (hi, lo)"
| "Mult_loop (Suc k) a bHi bLo hi lo =
     (let lo1 = (if a AND 1 \<noteq> 0 then lo + bLo else lo);
          hi1 = (if a AND 1 \<noteq> 0 then (if lo1 < bLo then hi + 1 else hi) + bHi else hi)
      in if a AND 1 \<noteq> 0 \<and> a AND 0xFFFFFFFE = 0 then (hi1, lo1)
         else Mult_loop k (signed_drop_bit 1 a)
                (if bLo AND 0x80000000 \<noteq> 0 then push_bit 1 bHi OR 1 else push_bit 1 bHi)
                (push_bit 1 bLo) hi1 lo1)"

definition Mult :: "u32 \<Rightarrow> u32 \<Rightarrow> bool \<Rightarrow> u32 \<times> u32" where
  "Mult a b signedArith =
     (if a = 0 \<or> b = 0 then (0, 0)
      else
        let negA = signedArith \<and> sint a < 0; negB = signedArith \<and> sint b < 0;
            negative = (negA \<noteq> negB);
            (hi, lo) = Mult_loop 32 (if negA then - a else a) 0 (if negB then - b else b) 0 0
        in if negative
           then (let lo' = NOT lo + 1 in (if lo' = 0 then NOT hi + 1 else NOT hi, lo'))
           else (hi, lo))"

section \<open>Execution\<close>

text \<open>
  How an instruction ends: with the next program counter and the delayed load it starts, or early,
  after an exception.
\<close>

datatype outcome = Done u32 u32 u32 | Trapped

text \<open>The usual endings: write a register, branch on a condition, start a load.\<close>

definition next_pc :: "'z Machine_scheme \<Rightarrow> u32" where
  "next_pc m = registers m ! NEXT_PC_REG + 4"

definition write_reg :: "'z Machine_scheme \<Rightarrow> nat \<Rightarrow> u32 \<Rightarrow> (outcome \<times> 'z Machine_scheme) res" where
  "write_reg m k v = Inr (Done (next_pc m) 0 0, m\<lparr>registers := (registers m)[k := v]\<rparr>)"

definition branch_if :: "'z Machine_scheme \<Rightarrow> bool \<Rightarrow> u32 \<Rightarrow> (outcome \<times> 'z Machine_scheme) res" where
  "branch_if m c ex =
     Inr (Done (if c then registers m ! NEXT_PC_REG + IndexToAddr ex else next_pc m) 0 0, m)"

definition link :: "'z Machine_scheme \<Rightarrow> nat \<Rightarrow> 'z Machine_scheme" where
  "link m k = m\<lparr>registers := (registers m)[k := registers m ! NEXT_PC_REG + 4]\<rparr>"

definition raise_exc :: "'z kernel_code \<Rightarrow> 'z Machine_scheme \<Rightarrow> ExceptionType \<Rightarrow> u32 \<Rightarrow> (outcome \<times> 'z Machine_scheme) res" where
  "raise_exc krn m et a = rbind (RaiseException krn m et a) (\<lambda>m'. Inr (Trapped, m'))"

definition load_op :: "'z kernel_code \<Rightarrow> 'z Machine_scheme \<Rightarrow> u32 \<Rightarrow> u32 \<Rightarrow> nat \<Rightarrow> (u32 \<Rightarrow> u32) \<Rightarrow> (outcome \<times> 'z Machine_scheme) res" where
  "load_op krn m tmp size' reg f =
     rbind (Machine_ReadMem krn m tmp size') (\<lambda>(r, m1).
       case r of None \<Rightarrow> Inr (Trapped, m1) | Some v \<Rightarrow> Inr (Done (next_pc m1) (of_nat reg) (f v), m1))"

definition store_op :: "'z kernel_code \<Rightarrow> 'z Machine_scheme \<Rightarrow> u32 \<Rightarrow> u32 \<Rightarrow> u32 \<Rightarrow> (outcome \<times> 'z Machine_scheme) res" where
  "store_op krn m a size' v =
     rbind (Machine_WriteMem krn m a size' v) (\<lambda>(ok, m1). if ok then Inr (Done (next_pc m1) 0 0, m1) else Inr (Trapped, m1))"

text \<open>The merges of the unaligned loads and stores, for the four alignments of the source.\<close>

definition merge_LWL :: "u32 \<Rightarrow> u32 \<Rightarrow> u32 \<Rightarrow> u32" where
  "merge_LWL tmp old v = (let k = tmp AND 0x3 in
     if k = 0 then v else if k = 1 then (old AND 0xFF) OR push_bit 8 v
     else if k = 2 then (old AND 0xFFFF) OR push_bit 16 v else (old AND 0xFFFFFF) OR push_bit 24 v)"

definition merge_LWR :: "u32 \<Rightarrow> u32 \<Rightarrow> u32 \<Rightarrow> u32" where
  "merge_LWR tmp old v = (let k = tmp AND 0x3 in
     if k = 0 then (old AND 0xFFFFFF00) OR (signed_drop_bit 24 v AND 0xFF)
     else if k = 1 then (old AND 0xFFFF0000) OR (signed_drop_bit 16 v AND 0xFFFF)
     else if k = 2 then (old AND 0xFF000000) OR (signed_drop_bit 8 v AND 0xFFFFFF) else v)"

definition merge_SWL :: "u32 \<Rightarrow> u32 \<Rightarrow> u32 \<Rightarrow> u32" where
  "merge_SWL tmp r v = (let k = tmp AND 0x3 in
     if k = 0 then r else if k = 1 then (v AND 0xFF000000) OR (signed_drop_bit 8 r AND 0xFFFFFF)
     else if k = 2 then (v AND 0xFFFF0000) OR (signed_drop_bit 16 r AND 0xFFFF)
     else (v AND 0xFFFFFF00) OR (signed_drop_bit 24 r AND 0xFF))"

definition merge_SWR :: "u32 \<Rightarrow> u32 \<Rightarrow> u32 \<Rightarrow> u32" where
  "merge_SWR tmp r v = (let k = tmp AND 0x3 in
     if k = 0 then (v AND 0xFFFFFF) OR push_bit 24 r else if k = 1 then (v AND 0xFFFF) OR push_bit 16 r
     else if k = 2 then (v AND 0xFF) OR push_bit 8 r else r)"

definition load_merge :: "'z kernel_code \<Rightarrow> 'z Machine_scheme \<Rightarrow> u32 \<Rightarrow> nat \<Rightarrow> (u32 \<Rightarrow> u32 \<Rightarrow> u32 \<Rightarrow> u32) \<Rightarrow> (outcome \<times> 'z Machine_scheme) res" where
  "load_merge krn m tmp reg f =
     rbind (rassert (tmp AND 0x3 = 0)) (\<lambda>_.
     rbind (Machine_ReadMem krn m tmp 4) (\<lambda>(r, m1).
       case r of None \<Rightarrow> Inr (Trapped, m1)
       | Some v \<Rightarrow>
           let old = (if registers m1 ! LOAD_REG = of_nat reg then registers m1 ! LOAD_VALUE_REG else registers m1 ! reg)
           in Inr (Done (next_pc m1) (of_nat reg) (f tmp old v), m1)))"

definition store_merge :: "'z kernel_code \<Rightarrow> 'z Machine_scheme \<Rightarrow> u32 \<Rightarrow> nat \<Rightarrow> (u32 \<Rightarrow> u32 \<Rightarrow> u32 \<Rightarrow> u32) \<Rightarrow> (outcome \<times> 'z Machine_scheme) res" where
  "store_merge krn m tmp reg f =
     rbind (rassert (tmp AND 0x3 = 0)) (\<lambda>_.
     rbind (Machine_ReadMem krn m (tmp AND NOT 0x3) 4) (\<lambda>(r, m1).
       case r of None \<Rightarrow> Inr (Trapped, m1)
       | Some v \<Rightarrow> store_op krn m1 (tmp AND NOT 0x3) 4 (f tmp (registers m1 ! reg) v)))"

text \<open>C division: towards zero; the host traps on the one quotient that does not fit.\<close>

definition div_regs :: "'z Machine_scheme \<Rightarrow> u32 \<Rightarrow> u32 \<Rightarrow> (outcome \<times> 'z Machine_scheme) res" where
  "div_regs m lo hi = Inr (Done (next_pc m) 0 0, m\<lparr>registers := (registers m)[LO_REG := lo, HI_REG := hi]\<rparr>)"

text \<open>
  The switch of \<open>ExecInstruction\<close>, a group of its cases per definition, from the last to the first:
  what a group has no case for falls to the next. C \<open>int\<close> values are their 32 bits: signed
  comparisons, divisions and right shifts use the signed reading, sums wrap around.
\<close>

abbreviation rS :: "'z Machine_scheme \<Rightarrow> Instruction \<Rightarrow> u32" where "rS m i \<equiv> registers m ! rs i"
abbreviation rT :: "'z Machine_scheme \<Rightarrow> Instruction \<Rightarrow> u32" where "rT m i \<equiv> registers m ! rt i"
abbreviation neg :: "u32 \<Rightarrow> bool" where "neg x \<equiv> x AND SIGN_BIT \<noteq> 0"

definition exec_system :: "'z kernel_code \<Rightarrow> 'z Machine_scheme \<Rightarrow> Instruction \<Rightarrow> (outcome \<times> 'z Machine_scheme) res" where
  "exec_system krn m i = (case opCode i of
        OP_SYSCALL \<Rightarrow> raise_exc krn m SYSCALL_EXCEPTION 0
      | OP_XOR \<Rightarrow> write_reg m (rd i) (rS m i XOR rT m i)
      | OP_XORI \<Rightarrow> write_reg m (rt i) (rS m i XOR (extra i AND 0xFFFF))
      | OP_RES \<Rightarrow> raise_exc krn m ILLEGAL_INSTR_EXCEPTION 0
      | OP_UNIMP \<Rightarrow> raise_exc krn m ILLEGAL_INSTR_EXCEPTION 0
      | _ \<Rightarrow> Inl AssertFailed)"

definition exec_store :: "'z kernel_code \<Rightarrow> 'z Machine_scheme \<Rightarrow> Instruction \<Rightarrow> (outcome \<times> 'z Machine_scheme) res" where
  "exec_store krn m i = (case opCode i of
        OP_SB \<Rightarrow> store_op krn m (rS m i + extra i) 1 (rT m i)
      | OP_SH \<Rightarrow> store_op krn m (rS m i + extra i) 2 (rT m i)
      | OP_SW \<Rightarrow> store_op krn m (rS m i + extra i) 4 (rT m i)
      | OP_SWL \<Rightarrow> store_merge krn m (rS m i + extra i) (rt i) merge_SWL
      | OP_SWR \<Rightarrow> store_merge krn m (rS m i + extra i) (rt i) merge_SWR
      | _ \<Rightarrow> exec_system krn m i)"

definition exec_shift :: "'z kernel_code \<Rightarrow> 'z Machine_scheme \<Rightarrow> Instruction \<Rightarrow> (outcome \<times> 'z Machine_scheme) res" where
  "exec_shift krn m i = (let sh = unat (rS m i AND 0x1F) in case opCode i of
        OP_SLL \<Rightarrow> write_reg m (rd i) (push_bit (unat (extra i)) (rT m i))
      | OP_SLLV \<Rightarrow> write_reg m (rd i) (push_bit sh (rT m i))
      | OP_SRA \<Rightarrow> write_reg m (rd i) (signed_drop_bit (unat (extra i)) (rT m i))
      | OP_SRAV \<Rightarrow> write_reg m (rd i) (signed_drop_bit sh (rT m i))
      | OP_SRL \<Rightarrow> write_reg m (rd i) (signed_drop_bit (unat (extra i)) (rT m i))
      | OP_SRLV \<Rightarrow> write_reg m (rd i) (signed_drop_bit sh (rT m i))
      | OP_SUB \<Rightarrow> (let diff = rS m i - rT m i in
            if neg (rS m i XOR rT m i) \<and> neg (rS m i XOR diff) then raise_exc krn m OVERFLOW_EXCEPTION 0
            else write_reg m (rd i) diff)
      | OP_SUBU \<Rightarrow> write_reg m (rd i) (rS m i - rT m i)
      | _ \<Rightarrow> exec_store krn m i)"

definition exec_logic :: "'z kernel_code \<Rightarrow> 'z Machine_scheme \<Rightarrow> Instruction \<Rightarrow> (outcome \<times> 'z Machine_scheme) res" where
  "exec_logic krn m i = (case opCode i of
        OP_MFHI \<Rightarrow> write_reg m (rd i) (registers m ! HI_REG)
      | OP_MFLO \<Rightarrow> write_reg m (rd i) (registers m ! LO_REG)
      | OP_MTHI \<Rightarrow> write_reg m HI_REG (rS m i)
      | OP_MTLO \<Rightarrow> write_reg m LO_REG (rS m i)
      | OP_MULT \<Rightarrow> (let (hi, lo) = Mult (rS m i) (rT m i) True in div_regs m lo hi)
      | OP_MULTU \<Rightarrow> (let (hi, lo) = Mult (rS m i) (rT m i) False in div_regs m lo hi)
      | OP_NOR \<Rightarrow> write_reg m (rd i) (NOT (rS m i OR rT m i))
      | OP_OR \<Rightarrow> write_reg m (rd i) (rS m i OR rT m i)
      | OP_ORI \<Rightarrow> write_reg m (rt i) (rS m i OR (extra i AND 0xFFFF))
      | OP_SLT \<Rightarrow> write_reg m (rd i) (if sint (rS m i) < sint (rT m i) then 1 else 0)
      | OP_SLTI \<Rightarrow> write_reg m (rt i) (if sint (rS m i) < sint (extra i) then 1 else 0)
      | OP_SLTIU \<Rightarrow> write_reg m (rt i) (if rS m i < extra i then 1 else 0)
      | OP_SLTU \<Rightarrow> write_reg m (rd i) (if rS m i < rT m i then 1 else 0)
      | _ \<Rightarrow> exec_shift krn m i)"

definition exec_load :: "'z kernel_code \<Rightarrow> 'z Machine_scheme \<Rightarrow> Instruction \<Rightarrow> (outcome \<times> 'z Machine_scheme) res" where
  "exec_load krn m i = (let tmp = rS m i + extra i in case opCode i of
        OP_LB \<Rightarrow> load_op krn m tmp 1 (rt i) (\<lambda>v. if v AND 0x80 \<noteq> 0 then v OR 0xFFFFFF00 else v AND 0xFF)
      | OP_LBU \<Rightarrow> load_op krn m tmp 1 (rt i) (\<lambda>v. v AND 0xFF)
      | OP_LH \<Rightarrow> if tmp AND 1 \<noteq> 0 then raise_exc krn m ADDRESS_ERROR_EXCEPTION tmp
          else load_op krn m tmp 2 (rt i) (\<lambda>v. if v AND 0x8000 \<noteq> 0 then v OR 0xFFFF0000 else v AND 0xFFFF)
      | OP_LHU \<Rightarrow> if tmp AND 1 \<noteq> 0 then raise_exc krn m ADDRESS_ERROR_EXCEPTION tmp
          else load_op krn m tmp 2 (rt i) (\<lambda>v. v AND 0xFFFF)
      | OP_LUI \<Rightarrow> write_reg m (rt i) (push_bit 16 (extra i))
      | OP_LW \<Rightarrow> if tmp AND 3 \<noteq> 0 then raise_exc krn m ADDRESS_ERROR_EXCEPTION tmp else load_op krn m tmp 4 (rt i) (\<lambda>v. v)
      | OP_LWL \<Rightarrow> load_merge krn m tmp (rt i) merge_LWL
      | OP_LWR \<Rightarrow> load_merge krn m tmp (rt i) merge_LWR
      | _ \<Rightarrow> exec_logic krn m i)"

definition exec_jump :: "'z kernel_code \<Rightarrow> 'z Machine_scheme \<Rightarrow> Instruction \<Rightarrow> (outcome \<times> 'z Machine_scheme) res" where
  "exec_jump krn m i = (case opCode i of
        OP_DIV \<Rightarrow>
          if rT m i = 0 then div_regs m 0 0
          else if sint (rS m i) = - (2 ^ 31) \<and> sint (rT m i) = -1 then Inl HostTrap
          else div_regs m (of_int (sint (rS m i) sdiv sint (rT m i))) (of_int (sint (rS m i) smod sint (rT m i)))
      | OP_DIVU \<Rightarrow> if rT m i = 0 then div_regs m 0 0 else div_regs m (rS m i div rT m i) (rS m i mod rT m i)
      | OP_JAL \<Rightarrow> Inr (Done ((next_pc m AND 0xF0000000) OR IndexToAddr (extra i)) 0 0, link m RET_ADDR_REG)
      | OP_J \<Rightarrow> Inr (Done ((next_pc m AND 0xF0000000) OR IndexToAddr (extra i)) 0 0, m)
      | OP_JALR \<Rightarrow> (let m1 = link m (rd i) in Inr (Done (rS m1 i) 0 0, m1))
      | OP_JR \<Rightarrow> Inr (Done (rS m i) 0 0, m)
      | _ \<Rightarrow> exec_load krn m i)"

definition exec_branch :: "'z kernel_code \<Rightarrow> 'z Machine_scheme \<Rightarrow> Instruction \<Rightarrow> (outcome \<times> 'z Machine_scheme) res" where
  "exec_branch krn m i = (case opCode i of
        OP_BEQ \<Rightarrow> branch_if m (rS m i = rT m i) (extra i)
      | OP_BGEZAL \<Rightarrow> (let m1 = link m RET_ADDR_REG in branch_if m1 (\<not> neg (rS m1 i)) (extra i))
      | OP_BGEZ \<Rightarrow> branch_if m (\<not> neg (rS m i)) (extra i)
      | OP_BGTZ \<Rightarrow> branch_if m (sint (rS m i) > 0) (extra i)
      | OP_BLEZ \<Rightarrow> branch_if m (sint (rS m i) \<le> 0) (extra i)
      | OP_BLTZAL \<Rightarrow> (let m1 = link m RET_ADDR_REG in branch_if m1 (neg (rS m1 i)) (extra i))
      | OP_BLTZ \<Rightarrow> branch_if m (neg (rS m i)) (extra i)
      | OP_BNE \<Rightarrow> branch_if m (rS m i \<noteq> rT m i) (extra i)
      | _ \<Rightarrow> exec_jump krn m i)"

definition exec_op :: "'z kernel_code \<Rightarrow> 'z Machine_scheme \<Rightarrow> Instruction \<Rightarrow> (outcome \<times> 'z Machine_scheme) res" where
  "exec_op krn m i = (case opCode i of
        OP_ADD \<Rightarrow> (let sum = rS m i + rT m i in
            if \<not> neg (rS m i XOR rT m i) \<and> neg (rS m i XOR sum) then raise_exc krn m OVERFLOW_EXCEPTION 0
            else write_reg m (rd i) sum)
      | OP_ADDI \<Rightarrow> (let sum = rS m i + extra i in
            if \<not> neg (rS m i XOR extra i) \<and> neg (extra i XOR sum) then raise_exc krn m OVERFLOW_EXCEPTION 0
            else write_reg m (rt i) sum)
      | OP_ADDIU \<Rightarrow> write_reg m (rt i) (rS m i + extra i)
      | OP_ADDU \<Rightarrow> write_reg m (rd i) (rS m i + rT m i)
      | OP_AND \<Rightarrow> write_reg m (rd i) (rS m i AND rT m i)
      | OP_ANDI \<Rightarrow> write_reg m (rt i) (rS m i AND (extra i AND 0xFFFF))
      | _ \<Rightarrow> exec_branch krn m i)"

lemmas exec_defs = exec_op_def exec_branch_def exec_jump_def exec_load_def exec_logic_def exec_shift_def
  exec_store_def exec_system_def

text \<open>
  \<open>ExecInstruction\<close>: the switch, then the delayed load and the program counters. The register
  fields index the array of registers.
\<close>

definition ExecInstruction :: "'z kernel_code \<Rightarrow> 'z Machine_scheme \<Rightarrow> Instruction \<Rightarrow> 'z Machine_scheme res" where
  "ExecInstruction krn m i =
     rbind (rcheck OutOfBounds (rs i < NUM_TOTAL_REGS \<and> rt i < NUM_TOTAL_REGS \<and> rd i < NUM_TOTAL_REGS)) (\<lambda>_.
     rbind (exec_op krn m i) (\<lambda>(out, m1).
       case out of
         Trapped \<Rightarrow> Inr m1
       | Done pcAfter nextLoadReg nextLoadValue \<Rightarrow>
           rbind (DelayedLoad m1 nextLoadReg nextLoadValue) (\<lambda>m2.
             let r = registers m2 in
             Inr (m2\<lparr>registers := r[PREV_PC_REG := r ! PC_REG, PC_REG := r ! NEXT_PC_REG, NEXT_PC_REG := pcAfter]\<rparr>))))"

text \<open>
  One iteration of \<open>Run\<close>, without the debugger; \<open>OneTick\<close> is the interrupt hardware's, and \<open>Run\<close>
  itself never returns: its first \<open>k\<close> iterations.
\<close>

definition Run_step :: "'z kernel_code \<Rightarrow> ('z Machine_scheme \<Rightarrow> 'z Machine_scheme res) \<Rightarrow> 'z Machine_scheme \<Rightarrow> 'z Machine_scheme res" where
  "Run_step krn oneTick m =
     rbind (FetchInstruction krn m) (\<lambda>(instr, m1).
     rbind (case instr of None \<Rightarrow> Inr m1 | Some i \<Rightarrow> ExecInstruction krn m1 i) oneTick)"

fun Run_iterate :: "'z kernel_code \<Rightarrow> ('z Machine_scheme \<Rightarrow> 'z Machine_scheme res) \<Rightarrow> nat \<Rightarrow> 'z Machine_scheme \<Rightarrow> 'z Machine_scheme res" where
  "Run_iterate krn oneTick 0 m = Inr m"
| "Run_iterate krn oneTick (Suc k) m = rbind (Run_step krn oneTick m) (Run_iterate krn oneTick k)"

definition Run :: "'z kernel_code \<Rightarrow> ('z Machine_scheme \<Rightarrow> 'z Machine_scheme res) \<Rightarrow> nat \<Rightarrow> 'z Machine_scheme \<Rightarrow> 'z Machine_scheme res" where
  "Run krn oneTick k m = Run_iterate krn oneTick k (m\<lparr>status := USER_MODE\<rparr>)"

section \<open>The product in two registers\<close>

text \<open>The 64-bit value of a pair of registers.\<close>

definition hilo :: "u32 \<Rightarrow> u32 \<Rightarrow> 64 word" where
  "hilo hi lo = ucast hi * 4294967296 + ucast lo"

lemma uint_plus_cases:
  "uint (x + y :: u32) = (if uint x + uint y < 4294967296 then uint x + uint y else uint x + uint y - 4294967296)"
  using uint_plus_if' [of x y] by simp

lemma ucast_plus_cases:
  "(ucast (x + y :: u32) :: 64 word) =
     (if uint x + uint y < 4294967296 then ucast x + ucast y else ucast x + ucast y - 4294967296)"
  using arg_cong [OF uint_plus_cases [of x y], of "of_int :: int \<Rightarrow> 64 word"] by (simp split: if_splits)

lemma high_add: "(ucast (x + y :: u32) :: 64 word) * 4294967296 = (ucast x + ucast y) * 4294967296"
  unfolding ucast_plus_cases by (simp add: left_diff_distrib)

lemma hilo_add:
  "hilo ((if lo + bLo < bLo then hi + 1 else hi) + bHi) (lo + bLo) = hilo hi lo + hilo bHi bLo"
proof (cases "uint lo + uint bLo < 4294967296")
  case True
  then have "\<not> lo + bLo < bLo" using uint_ge_0 [of lo] by (simp add: word_less_def uint_plus_cases)
  moreover have "(ucast (lo + bLo) :: 64 word) = ucast lo + ucast bLo" using True by (simp add: ucast_plus_cases)
  ultimately show ?thesis by (simp add: hilo_def high_add distrib_right)
next
  case False
  then have "lo + bLo < bLo" using uint_lt2p [of lo] by (simp add: word_less_def uint_plus_cases)
  moreover have "(ucast (lo + bLo) :: 64 word) = ucast lo + ucast bLo - 4294967296" using False by (simp add: ucast_plus_cases)
  ultimately show ?thesis by (simp add: hilo_def high_add distrib_right)
qed

lemma bit31_uint: "bit (x :: u32) 31 \<longleftrightarrow> 2147483648 \<le> uint x"
proof -
  have u: "0 \<le> uint x" "uint x < 4294967296" using uint_lt2p [of x] by simp_all
  have "bit x 31 \<longleftrightarrow> bit (uint x) 31" by (simp add: bit_uint_iff)
  also have "\<dots> \<longleftrightarrow> odd (uint x div 2147483648)" by (simp add: bit_iff_odd)
  also have "uint x div 2147483648 = (if 2147483648 \<le> uint x then 1 else 0)"
    using u by (simp add: div_pos_geq)
  finally show ?thesis by simp
qed

lemma hilo_double:
  "hilo (if bLo AND 0x80000000 \<noteq> 0 then push_bit 1 bHi OR 1 else push_bit 1 bHi) (push_bit 1 bLo) = hilo bHi bLo + hilo bHi bLo"
proof -
  have p: "push_bit 1 x = x + x" for x :: u32 by (simp add: push_bit_double)
  have o: "(x + x) OR 1 = x + x + 1" for x :: u32
    by (simp add: or_one_eq flip: mult_2)
  have b: "bLo AND 0x80000000 \<noteq> 0 \<longleftrightarrow> \<not> uint bLo + uint bLo < 4294967296"
  proof -
    have "bLo AND 0x80000000 \<noteq> 0 \<longleftrightarrow> bit bLo 31"
      using and_exp_eq_0_iff_not_bit [of bLo 31] by simp
    also have "\<dots> \<longleftrightarrow> 2147483648 \<le> uint bLo" by (rule bit31_uint)
    finally show ?thesis by linarith
  qed
  have hi: "(ucast (bHi + bHi) :: 64 word) * 4294967296 = (ucast bHi + ucast bHi) * 4294967296" by (rule high_add)
  have hi1: "(ucast (bHi + bHi + 1) :: 64 word) * 4294967296 = (ucast bHi + ucast bHi) * 4294967296 + 4294967296"
    unfolding high_add distrib_right hi by simp
  show ?thesis
  proof (cases "uint bLo + uint bLo < 4294967296")
    case True
    then have "(ucast (bLo + bLo) :: 64 word) = ucast bLo + ucast bLo" by (simp only: ucast_plus_cases if_True)
    with True show ?thesis unfolding b p o hilo_def by (simp only: if_False not_True_eq_False hi) (simp add: algebra_simps)
  next
    case False
    then have "(ucast (bLo + bLo) :: 64 word) = ucast bLo + ucast bLo - 4294967296" by (simp only: ucast_plus_cases if_False)
    with False show ?thesis unfolding b p o hilo_def by (simp only: if_True if_False not_False_eq_True hi hi1) (simp add: algebra_simps)
  qed
qed

text \<open>One bit of \<open>a\<close> less, whatever the sign bit that the shift brings in.\<close>

lemma shift_value:
  assumes "k \<le> 31"
  shows "take_bit (Suc k) (uint a) = of_bool (a AND 1 \<noteq> 0) + 2 * take_bit k (uint (signed_drop_bit 1 a :: u32))"
proof -
  have "take_bit k (uint (signed_drop_bit 1 a)) = take_bit k (uint a div 2)"
    using assms by (intro bit_eqI) (auto simp: bit_simps bit_signed_drop_bit_iff bit_Suc [symmetric])
  moreover have "uint a mod 2 = of_bool (a AND 1 \<noteq> 0)"
    using and_exp_eq_0_iff_not_bit [of a 0] bit_uint_iff [of a 0] by (simp add: mod_2_eq_odd bit_0)
  ultimately show ?thesis by (simp add: take_bit_Suc mult.commute)
qed

lemma Mult_loop_hilo:
  assumes "k \<le> 32" "Mult_loop k a bHi bLo hi lo = (hi', lo')"
  shows "hilo hi' lo' = hilo hi lo + of_int (take_bit k (uint a)) * hilo bHi bLo"
  using assms
proof (induction k arbitrary: a bHi bLo hi lo)
  case 0
  then show ?case by simp
next
  case (Suc k)
  let ?odd = "a AND 1 \<noteq> 0"
  define lo1 where "lo1 = (if ?odd then lo + bLo else lo)"
  define hi1 where "hi1 = (if ?odd then (if lo1 < bLo then hi + 1 else hi) + bHi else hi)"
  have add: "hilo hi1 lo1 = hilo hi lo + of_bool ?odd * hilo bHi bLo"
    using hilo_add [of lo bLo hi bHi] by (simp add: lo1_def hi1_def)
  note tb = shift_value [of k a]
  show ?case
  proof (cases "?odd \<and> a AND 0xFFFFFFFE = 0")
    case True
    have "a = (a AND 1) OR (a AND NOT 1)" by (rule bit_word_eqI) (auto simp: bit_simps)
    moreover have "(0xFFFFFFFE :: u32) = NOT 1" by simp
    then have "a AND NOT 1 = 0" using True by metis
    moreover have "a AND 1 = 1" using True by (simp add: and_one_eq mod_2_eq_odd)
    ultimately have "a = 1" by simp
    then have "take_bit (Suc k) (uint a) = 1" by simp
    moreover have "(hi', lo') = (hi1, lo1)" using Suc.prems(2) True by (auto simp: Let_def lo1_def hi1_def)
    ultimately show ?thesis using add True by simp
  next
    case False
    let ?bHi = "if bLo AND 0x80000000 \<noteq> 0 then push_bit 1 bHi OR 1 else push_bit 1 bHi"
    have "Mult_loop k (signed_drop_bit 1 a) ?bHi (push_bit 1 bLo) hi1 lo1 = (hi', lo')"
      using Suc.prems(2) False unfolding Mult_loop.simps Let_def lo1_def hi1_def by (simp only: if_False if_not_P)
    from Suc.IH [OF _ this] Suc.prems(1) have
      "hilo hi' lo' = hilo hi1 lo1 + of_int (take_bit k (uint (signed_drop_bit 1 a))) * (hilo bHi bLo + hilo bHi bLo)"
      unfolding hilo_double by simp
    also have "\<dots> = hilo hi lo + of_int (take_bit (Suc k) (uint a)) * hilo bHi bLo"
      unfolding add using tb Suc.prems(1) by (simp add: algebra_simps)
    finally show ?thesis .
  qed
qed

lemma uint_neg: "(x :: u32) \<noteq> 0 \<Longrightarrow> uint (- x) = 4294967296 - uint x"
proof -
  assume "x \<noteq> 0"
  then have "0 < uint x" using uint_0_iff [of x] uint_ge_0 [of x] by (simp only: order.strict_iff_order) simp
  moreover have "0 = uint x + uint (- x) \<or> 0 = uint x + uint (- x) - 4294967296"
    using uint_plus_cases [of x "- x"] by (simp split: if_splits)
  ultimately show ?thesis using uint_ge_0 [of "- x"] by linarith
qed

lemma ucast_neg: "(x :: u32) \<noteq> 0 \<Longrightarrow> (ucast (- x) :: 64 word) = 4294967296 - ucast x"
  using arg_cong [OF uint_neg [of x], of "of_int :: int \<Rightarrow> 64 word"] by simp

lemma sint_cases: "sint (x :: u32) = (if 2147483648 \<le> uint x then uint x - 4294967296 else uint x)"
proof -
  have "sint x = signed_take_bit 31 (uint x)" by (simp add: sint_uint)
  also have "\<dots> = take_bit 32 (uint x) + NOT (mask 32) * of_bool (bit (uint x) 31)"
    using signed_take_bit_eq_take_bit_add [of 31 "uint x"] by simp
  also have "\<dots> = uint x - 4294967296 * of_bool (2147483648 \<le> uint x)"
    using bit31_uint [of x] uint_lt2p [of x] by (simp add: bit_uint_iff take_bit_int_eq_self not_eq_complement mask_eq_exp_minus_1)
  finally show ?thesis by simp
qed

lemma uint_abs: "sint (x :: u32) < 0 \<Longrightarrow> uint (- x) = - sint x" "\<not> sint (x :: u32) < 0 \<Longrightarrow> uint x = sint x"
proof -
  show "uint (- x) = - sint x" if "sint x < 0"
  proof -
    have "x \<noteq> 0" "2147483648 \<le> uint x" using that uint_ge_0 [of x] by (auto simp: sint_cases split: if_splits)
    then show ?thesis using uint_neg [of x] by (simp add: sint_cases)
  qed
  show "uint x = sint x" if "\<not> sint x < 0"
    using that uint_lt2p [of x] by (simp add: sint_cases split: if_splits)
qed

lemma sum_eq: "x + y = - c \<Longrightarrow> y = - x - c" for x y c :: "64 word"
proof -
  assume "x + y = - c"
  then have "- x + (x + y) = - x + - c" by simp
  then show ?thesis by simp
qed

lemma hilo_neg:
  "hilo (if NOT lo + 1 = 0 then NOT hi + 1 else NOT hi) (NOT lo + 1) = - hilo hi lo"
proof -
  have n: "NOT x + 1 = - x" for x :: u32 by (simp add: minus_eq_not_plus_1)
  have h: "(ucast (- hi) :: 64 word) * 4294967296 = - (ucast hi * 4294967296)"
    using high_add [of hi "- hi"] by (simp add: distrib_right eq_neg_iff_add_eq_0 add.commute)
  have "hi + NOT hi = - 1" using n [of hi] by (simp add: eq_neg_iff_add_eq_0 add.assoc)
  moreover have "(ucast (- 1 :: u32) :: 64 word) = 4294967295"
    by (simp add: unsigned_minus_1_eq_mask mask_eq_exp_minus_1)
  ultimately have "ucast hi * 4294967296 + ucast (NOT hi) * 4294967296 = (- 4294967296 :: 64 word)"
    using high_add [of hi "NOT hi"] by (simp add: distrib_right)
  then have h1: "(ucast (NOT hi) :: 64 word) * 4294967296 = - (ucast hi * 4294967296) - 4294967296"
    by (rule sum_eq)
  show ?thesis
  proof (cases "lo = 0")
    case True
    then show ?thesis unfolding n by (simp add: hilo_def h)
  next
    case False
    then show ?thesis unfolding n by (simp add: hilo_def h1 ucast_neg)
  qed
qed

text \<open>The loop on all 32 bits, from zero.\<close>

lemma Mult_loop_product:
  "Mult_loop 32 a 0 b 0 0 = (hi, lo) \<Longrightarrow> hilo hi lo = of_int (uint a * uint b)"
  using Mult_loop_hilo [of 32 a 0 b 0 0 hi lo] uint_lt2p [of a] by (simp add: hilo_def take_bit_int_eq_self)

lemma Mult_unsigned: "Mult a b False = (hi, lo) \<Longrightarrow> hilo hi lo = of_int (uint a * uint b)"
  using Mult_loop_product [of a b hi lo] by (auto simp: Mult_def hilo_def split: if_splits)

lemma Mult_signed:
  assumes "Mult a b True = (hi, lo)"
  shows "hilo hi lo = of_int (sint a * sint b)"
proof (cases "a = 0 \<or> b = 0")
  case True
  with assms show ?thesis by (auto simp: Mult_def hilo_def)
next
  case False
  let ?a = "if sint a < 0 then - a else a" and ?b = "if sint b < 0 then - b else b"
  obtain h l where hl: "Mult_loop 32 ?a 0 ?b 0 0 = (h, l)" by (cases "Mult_loop 32 ?a 0 ?b 0 0")
  have "uint ?a = \<bar>sint a\<bar>" "uint ?b = \<bar>sint b\<bar>" using uint_abs [of a] uint_abs [of b] by (simp_all add: abs_if)
  then have p: "hilo h l = of_int (\<bar>sint a\<bar> * \<bar>sint b\<bar>)" using Mult_loop_product [OF hl] by (simp only:)
  show ?thesis
  proof (cases "(sint a < 0) \<noteq> (sint b < 0)")
    case True
    then have "hilo hi lo = - hilo h l"
      using assms False hl hilo_neg [of l h] by (simp add: Mult_def Let_def split: if_splits)
    moreover have "\<bar>sint a\<bar> * \<bar>sint b\<bar> = - (sint a * sint b)" using True by (auto simp: abs_if not_less)
    ultimately show ?thesis using p by simp
  next
    case same: False
    then have "hilo hi lo = hilo h l" using assms False hl by (simp add: Mult_def Let_def)
    moreover have "\<bar>sint a\<bar> * \<bar>sint b\<bar> = sint a * sint b" using same by (auto simp: abs_if)
    ultimately show ?thesis using p by simp
  qed
qed

lemma sint_bounds: "\<bar>sint (x :: u32)\<bar> \<le> 2147483648"
  using uint_lt2p [of x] uint_ge_0 [of x] by (simp add: sint_cases abs_if)

lemma product_bounds: "\<bar>sint (a :: u32) * sint (b :: u32)\<bar> \<le> 2147483648 * 2147483648"
  unfolding abs_mult by (rule mult_mono) (simp_all add: sint_bounds)

lemma sint_of_int_small: "\<bar>p\<bar> \<le> 2147483648 * 2147483648 \<Longrightarrow> sint (of_int p :: 64 word) = p"
  by (simp add: signed_of_int signed_take_bit_int_eq_self_iff abs_le_iff)

lemma uint_of_int_small: "0 \<le> p \<Longrightarrow> p \<le> 4294967295 * 4294967295 \<Longrightarrow> uint (of_int p :: 64 word) = p"
  by (simp add: unsigned_of_int take_bit_int_eq_self)

text \<open>
  C34. \<open>Mult\<close> leaves in the two registers the exact 64-bit product, of the signed or of the unsigned
  values, although it works with 32-bit additions and an arithmetic shift of its first operand,
  and for every operand, the most negative number included.
\<close>

theorem mult_product:
  "(case Mult a b True of (hi, lo) \<Rightarrow> sint (hilo hi lo) = sint a * sint b)
    \<and> (case Mult a b False of (hi, lo) \<Rightarrow> uint (hilo hi lo) = uint a * uint b)"
proof -
  have "sint (of_int (sint a * sint b) :: 64 word) = sint a * sint b"
    by (rule sint_of_int_small [OF product_bounds])
  moreover have "uint a * uint b \<le> 4294967295 * 4294967295"
    using uint_lt2p [of a] uint_lt2p [of b] by (intro mult_mono) simp_all
  then have "uint (of_int (uint a * uint b) :: 64 word) = uint a * uint b"
    by (intro uint_of_int_small) simp_all
  ultimately show ?thesis using Mult_signed [of a b] Mult_unsigned [of a b] by (auto split: prod.splits)
qed

section \<open>Signed overflow\<close>

lemma neg_bit: "neg x \<longleftrightarrow> bit x 31"
  using and_exp_eq_0_iff_not_bit [of x 31] by (simp add: SIGN_BIT_def)

lemma neg_uint: "neg x \<longleftrightarrow> 2147483648 \<le> uint x"
  unfolding neg_bit by (rule bit31_uint)

lemma neg_xor: "neg (x XOR y) \<longleftrightarrow> (2147483648 \<le> uint x) \<noteq> (2147483648 \<le> uint y)"
  unfolding neg_bit bit31_uint [symmetric] by (simp add: bit_xor_iff)

definition fits32 :: "int \<Rightarrow> bool" where
  "fits32 k \<longleftrightarrow> - 2147483648 \<le> k \<and> k < 2147483648"

lemma uint_bounds: "0 \<le> uint (x :: u32)" "uint (x :: u32) < 4294967296"
  using uint_lt2p [of x] by simp_all

definition signed_of :: "int \<Rightarrow> int" where
  "signed_of x = (if 2147483648 \<le> x then x - 4294967296 else x)"

lemma add_overflow_int:
  assumes "0 \<le> x" "x < 4294967296" "0 \<le> y" "y < 4294967296"
    "z = (if x + y < 4294967296 then x + y else x + y - 4294967296)"
  shows "((2147483648 \<le> x) = (2147483648 \<le> y) \<and> (2147483648 \<le> x) \<noteq> (2147483648 \<le> z)) \<longleftrightarrow> \<not> fits32 (signed_of x + signed_of y)"
  using assms unfolding fits32_def signed_of_def by (cases "2147483648 \<le> x"; cases "2147483648 \<le> y"; auto)

lemma sub_overflow_int:
  assumes "0 \<le> x" "x < 4294967296" "0 \<le> y" "y < 4294967296"
    "z = (if y \<le> x then x - y else x - y + 4294967296)"
  shows "((2147483648 \<le> x) \<noteq> (2147483648 \<le> y) \<and> (2147483648 \<le> x) \<noteq> (2147483648 \<le> z)) \<longleftrightarrow> \<not> fits32 (signed_of x - signed_of y)"
  using assms unfolding fits32_def signed_of_def by (cases "2147483648 \<le> x"; cases "2147483648 \<le> y"; auto)

lemma add_overflow: "\<not> neg (a XOR b) \<and> neg (a XOR (a + b)) \<longleftrightarrow> \<not> fits32 (sint a + sint b)"
  using add_overflow_int [OF uint_bounds [of a] uint_bounds [of b] uint_plus_cases]
  unfolding neg_xor sint_cases signed_of_def by blast

lemma sub_overflow: "neg (a XOR b) \<and> neg (a XOR (a - b)) \<longleftrightarrow> \<not> fits32 (sint a - sint b)"
proof -
  have "uint (a - b) = (if uint b \<le> uint a then uint a - uint b else uint a - uint b + 4294967296)"
    using uint_sub_if' [of a b] by simp
  from sub_overflow_int [OF uint_bounds [of a] uint_bounds [of b] this] show ?thesis
    unfolding neg_xor sint_cases signed_of_def by blast
qed

lemma of_int_signed: "of_int (sint a + sint b) = a + b" "of_int (sint a - sint b) = a - b" for a b :: u32
  by simp_all

text \<open>
  \<open>ADD\<close>, \<open>ADDI\<close> and \<open>SUB\<close>: the tests on the sign bits are exact. The instruction writes the signed
  sum or difference to its target when that fits 32 bits, and otherwise raises the overflow
  exception.
\<close>

theorem add_sub_overflow:
  "(opCode i = OP_ADD \<longrightarrow> exec_op krn m i =
      (let k = sint (rS m i) + sint (rT m i) in
       if fits32 k then write_reg m (rd i) (of_int k) else raise_exc krn m OVERFLOW_EXCEPTION 0))
   \<and> (opCode i = OP_ADDI \<longrightarrow> exec_op krn m i =
      (let k = sint (rS m i) + sint (extra i) in
       if fits32 k then write_reg m (rt i) (of_int k) else raise_exc krn m OVERFLOW_EXCEPTION 0))
   \<and> (opCode i = OP_SUB \<longrightarrow> exec_op krn m i =
      (let k = sint (rS m i) - sint (rT m i) in
       if fits32 k then write_reg m (rd i) (of_int k) else raise_exc krn m OVERFLOW_EXCEPTION 0))"
proof -
  have addi: "\<not> neg (a XOR b) \<and> neg (b XOR (a + b)) \<longleftrightarrow> \<not> fits32 (sint a + sint b)" for a b :: u32
    using add_overflow [of b a] by (simp add: add.commute xor.commute)
  have "opCode i = OP_ADD \<Longrightarrow> exec_op krn m i = (if \<not> neg (rS m i XOR rT m i) \<and> neg (rS m i XOR (rS m i + rT m i))
      then raise_exc krn m OVERFLOW_EXCEPTION 0 else write_reg m (rd i) (rS m i + rT m i))"
    by (simp add: exec_op_def Let_def)
  moreover have "opCode i = OP_ADDI \<Longrightarrow> exec_op krn m i = (if \<not> neg (rS m i XOR extra i) \<and> neg (extra i XOR (rS m i + extra i))
      then raise_exc krn m OVERFLOW_EXCEPTION 0 else write_reg m (rt i) (rS m i + extra i))"
    by (simp add: exec_op_def Let_def)
  moreover have "opCode i = OP_SUB \<Longrightarrow> exec_op krn m i = (if neg (rS m i XOR rT m i) \<and> neg (rS m i XOR (rS m i - rT m i))
      then raise_exc krn m OVERFLOW_EXCEPTION 0 else write_reg m (rd i) (rS m i - rT m i))"
    by (simp add: exec_op_def exec_branch_def exec_jump_def exec_load_def exec_logic_def exec_shift_def Let_def)
  ultimately show ?thesis
    unfolding Let_def of_int_signed add_overflow addi sub_overflow by simp
qed

theorem add_sub_overflow_witness:
  "exec_op (\<lambda>_ _. Inr) \<lparr>registers = [0, 0x7FFFFFFF, 1], mmu = sample_mmu, handlers = (\<lambda>_. Some 0), status = USER_MODE\<rparr>
       \<lparr>instr_value = 0, opCode = OP_ADD, rs = 1, rt = 2, rd = 1, extra = 0\<rparr>
     = raise_exc (\<lambda>_ _. Inr) \<lparr>registers = [0, 0x7FFFFFFF, 1], mmu = sample_mmu, handlers = (\<lambda>_. Some 0), status = USER_MODE\<rparr>
         OVERFLOW_EXCEPTION 0"
  using add_sub_overflow [of "\<lparr>instr_value = 0, opCode = OP_ADD, rs = 1, rt = 2, rd = 1, extra = 0\<rparr>" "\<lambda>_ _. Inr"
      "\<lparr>registers = [0, 0x7FFFFFFF, 1], mmu = sample_mmu, handlers = (\<lambda>_. Some 0), status = USER_MODE\<rparr>"]
  by (simp add: fits32_def sint_cases)

end
