(* ===== verification/Mips_Run.thy ===== *)
theory Mips_Run
  imports Mips_Exec
begin

text \<open>
  The user-mode loop of \<open>machine/mips_sim.cc\<close>: whatever the program in memory, the simulator stays
  inside its arrays of registers, translation entries and memory, register 0 stays zero and the
  pending load names a general register; an exception leaves the instruction that raised it undone.
\<close>

unbundle bit_operations_syntax

section \<open>The invariant\<close>

text \<open>Between the write of a result and the delayed load that follows, register 0 may hold it.\<close>

definition machine_mid :: "'z Machine_scheme \<Rightarrow> bool" where
  "machine_mid m \<longleftrightarrow> length (registers m) = NUM_TOTAL_REGS \<and> unat (registers m ! LOAD_REG) < NUM_GP_REGS
     \<and> mmu_ok (mmu m)"

definition machine_ok :: "'z Machine_scheme \<Rightarrow> bool" where
  "machine_ok m \<longleftrightarrow> machine_mid m \<and> registers m ! 0 = 0"

lemma ok_mid: "machine_ok m \<Longrightarrow> machine_mid m"
  by (simp add: machine_ok_def)

lemma ok_status [simp]: "machine_ok (m\<lparr>status := st\<rparr>) = machine_ok m"
  by (simp add: machine_ok_def machine_mid_def)

lemma mid_mmu: "machine_mid m \<Longrightarrow> mmu_ok mm \<Longrightarrow> machine_mid (m\<lparr>mmu := mm\<rparr>)"
  by (simp add: machine_mid_def)

lemma mid_write: "machine_mid m \<Longrightarrow> k \<noteq> LOAD_REG \<Longrightarrow> machine_mid (m\<lparr>registers := (registers m)[k := v]\<rparr>)"
  by (simp add: machine_mid_def)

lemma DelayedLoad_ok:
  assumes "machine_mid m" "unat lreg < NUM_GP_REGS"
  shows "\<exists>m'. DelayedLoad m lreg v = Inr m' \<and> machine_ok m' \<and> mmu m' = mmu m \<and> handlers m' = handlers m
    \<and> registers m' ! PC_REG = registers m ! PC_REG \<and> registers m' ! NEXT_PC_REG = registers m ! NEXT_PC_REG"
  using assms by (auto simp: DelayedLoad_def Let_def machine_ok_def machine_mid_def reg_defs)

lemma rbind_assoc: "rbind (rbind r f) g = rbind r (\<lambda>x. rbind (f x) g)"
  by (cases r) simp_all

section \<open>Memory\<close>

text \<open>Translation keeps what is in memory and what the pages are mapped to.\<close>

definition same_main_memory :: "MMU \<Rightarrow> MMU \<Rightarrow> bool" where
  "same_main_memory m m' \<longleftrightarrow> mmu_ok m' \<and> mainMemory m' = mainMemory m \<and> (\<forall>v. page_of m' v = page_of m v)"

lemma same_main_memory_refl: "mmu_ok m \<Longrightarrow> same_main_memory m m"
  by (simp add: same_main_memory_def)

lemma same_main_memory_trans: "same_main_memory m m' \<Longrightarrow> same_main_memory m' m'' \<Longrightarrow> same_main_memory m m''"
  by (simp add: same_main_memory_def)

text \<open>The exceptions of an access to memory.\<close>

definition memory_faults :: "ExceptionType set" where
  "memory_faults = {PAGE_FAULT_EXCEPTION, ADDRESS_ERROR_EXCEPTION, READ_ONLY_EXCEPTION, BUS_ERROR_EXCEPTION}"

lemma fault_of_memory: "fault_of m a n w \<in> memory_faults"
  by (simp add: fault_of_def memory_faults_def split: option.split prod.split)

lemma Translate_same:
  assumes "mmu_ok m" "n \<in> {1, 2, 4}"
  shows "\<exists>r m'. Translate m a n w = Inr (r, m') \<and> same_main_memory m m' \<and> (case r of Inl e \<Rightarrow> e \<in> memory_faults
    | Inr pa \<Rightarrow> unat pa + unat n \<le> MEMORY_SIZE)"
proof -
  from Translate_ok [OF assms, of a w] obtain r m' where
    t: "Translate m a n w = Inr (r, m')" "same_map m m'" "mainMemory m' = mainMemory m"
      "case phys m a n w of None \<Rightarrow> r = Inl (fault_of m a n w)
       | Some p \<Rightarrow> r = Inr (of_nat p) \<and> unat (of_nat p :: u32) = p \<and> p + unat n \<le> MEMORY_SIZE" by blast
  have "same_main_memory m m'"
    using same_map_ok [OF t(2) assms(1)] same_map_page [OF t(2) assms(1)] t(3) assms(1) by (simp add: same_main_memory_def mmu_ok_def)
  with t fault_of_memory [of m a n w] show ?thesis by (cases "phys m a n w") auto
qed

lemma MMU_ReadMem_cases:
  assumes "mmu_ok m" "n \<in> {1, 2, 4}"
  shows "\<exists>r m'. MMU_ReadMem m a n = Inr (r, m') \<and> same_main_memory m m' \<and> (\<forall>e. r = Inl e \<longrightarrow> e \<in> memory_faults)"
proof -
  from Translate_same [OF assms, of a False] obtain r m' where
    t: "Translate m a n False = Inr (r, m')" "same_main_memory m m'"
      "case r of Inl e \<Rightarrow> e \<in> memory_faults | Inr pa \<Rightarrow> unat pa + unat n \<le> MEMORY_SIZE" by blast
  then show ?thesis using load_peek [OF assms(2), of m'] by (cases r) (auto simp: MMU_ReadMem_def)
qed

lemma MMU_WriteMem_cases:
  assumes "mmu_ok m" "n \<in> {1, 2, 4}"
  shows "\<exists>e m'. MMU_WriteMem m a n v = Inr (e, m') \<and> mmu_ok m' \<and> (e \<noteq> NO_EXCEPTION \<longrightarrow> same_main_memory m m' \<and> e \<in> memory_faults)"
proof (cases "phys m a n True")
  case (Some p)
  from WriteMem_ok [OF assms Some, of v] show ?thesis by blast
next
  case None
  from Translate_same [OF assms, of a True] Translate_ok [OF assms, of a True] None obtain m' where
    "Translate m a n True = Inr (Inl (fault_of m a n True), m')" "same_main_memory m m'" by auto
  then show ?thesis using fault_of_memory [of m a n True] by (simp add: MMU_WriteMem_def same_main_memory_def)
qed

section \<open>How an instruction ends\<close>

text \<open>
  The exceptions an operation can raise; the operations that are not listed raise none. Two groups can
  stop the simulator itself: the unaligned loads and stores assert an aligned address, and
  the host's division traps on the one quotient that does not fit.
\<close>

definition load_ops :: "OpCode set" where
  "load_ops = {OP_LB, OP_LBU, OP_LH, OP_LHU, OP_LW, OP_LWL, OP_LWR}"

definition store_ops :: "OpCode set" where
  "store_ops = {OP_SB, OP_SH, OP_SW, OP_SWL, OP_SWR}"

definition merge_ops :: "OpCode set" where
  "merge_ops = {OP_LWL, OP_LWR, OP_SWL, OP_SWR}"

definition traps_of :: "OpCode \<Rightarrow> ExceptionType set" where
  "traps_of oc = (if oc \<in> {OP_ADD, OP_ADDI, OP_SUB} then {OVERFLOW_EXCEPTION}
     else if oc = OP_SYSCALL then {SYSCALL_EXCEPTION}
     else if oc \<in> {OP_RES, OP_UNIMP} then {ILLEGAL_INSTR_EXCEPTION}
     else if oc \<in> load_ops \<union> store_ops then memory_faults else {})"

text \<open>
  The end of the switch: done, with the program counters as they were, or an exception raised on a machine
  whose registers, memory and mappings are those the instruction began with.
\<close>

definition finished :: "'z Machine_scheme \<Rightarrow> (outcome \<times> 'z Machine_scheme) res \<Rightarrow> bool" where
  "finished m r \<longleftrightarrow> (\<exists>pc lreg v m1. r = Inr (Done pc lreg v, m1) \<and> machine_mid m1 \<and> unat lreg < NUM_GP_REGS \<and> handlers m1 = handlers m
     \<and> registers m1 ! PC_REG = registers m ! PC_REG \<and> registers m1 ! NEXT_PC_REG = registers m ! NEXT_PC_REG)"

definition raised :: "'z kernel_code \<Rightarrow> 'z Machine_scheme \<Rightarrow> OpCode \<Rightarrow> (outcome \<times> 'z Machine_scheme) res \<Rightarrow> bool" where
  "raised krn m oc r \<longleftrightarrow> (\<exists>mm e a. same_main_memory (mmu m) mm \<and> e \<in> traps_of oc \<and> r = raise_exc krn (m\<lparr>mmu := mm\<rparr>) e a)"

definition ends :: "'z kernel_code \<Rightarrow> 'z Machine_scheme \<Rightarrow> OpCode \<Rightarrow> (outcome \<times> 'z Machine_scheme) res \<Rightarrow> bool" where
  "ends krn m oc r \<longleftrightarrow> finished m r \<or> raised krn m oc r \<or> oc \<in> merge_ops \<and> r = Inl AssertFailed \<or> oc = OP_DIV \<and> r = Inl HostTrap"

lemma finished_ends: "finished m r \<Longrightarrow> ends krn m oc r"
  by (simp add: ends_def)

definition plain_reg :: "nat \<Rightarrow> bool" where
  "plain_reg k \<longleftrightarrow> k \<noteq> LOAD_REG \<and> k \<noteq> PC_REG \<and> k \<noteq> NEXT_PC_REG"

lemma write_reg_ends: "machine_mid m \<Longrightarrow> plain_reg k \<Longrightarrow> ends krn m oc (write_reg m k v)"
  using mid_write [of m k v] by (intro finished_ends) (simp add: finished_def write_reg_def plain_reg_def reg_defs)

lemma done_ends: "machine_mid m \<Longrightarrow> ends krn m oc (Inr (Done pc 0 0, m))"
  by (intro finished_ends) (simp add: finished_def reg_defs)

lemma branch_if_ends: "machine_mid m \<Longrightarrow> ends krn m oc (branch_if m c ex)"
  unfolding branch_if_def by (rule done_ends)

lemma link_ends:
  assumes "machine_mid m" "plain_reg k"
  shows "ends krn m oc (Inr (Done pc 0 0, link m k))"
  using mid_write [OF assms(1), of k] assms(2)
  by (intro finished_ends) (simp add: finished_def link_def plain_reg_def reg_defs)

lemma link_branch_ends:
  assumes "machine_mid m" "plain_reg k"
  shows "ends krn m oc (branch_if (link m k) c ex)"
  unfolding branch_if_def using assms by (rule link_ends)

lemma div_regs_ends: "machine_mid m \<Longrightarrow> ends krn m oc (div_regs m lo hi)"
  using mid_write [of m LO_REG lo] mid_write [of "m\<lparr>registers := (registers m)[LO_REG := lo]\<rparr>" HI_REG hi]
  by (intro finished_ends) (simp add: finished_def div_regs_def reg_defs)

lemma raise_ends:
  assumes "machine_mid m" "e \<in> traps_of oc"
  shows "ends krn m oc (raise_exc krn m e a)"
proof -
  have "same_main_memory (mmu m) (mmu m)" "m\<lparr>mmu := mmu m\<rparr> = m" using assms(1) by (simp_all add: machine_mid_def same_main_memory_refl)
  then show ?thesis unfolding ends_def raised_def using assms(2) by metis
qed

text \<open>An access to memory, and the exception it raises when it fails.\<close>

lemma Machine_ReadMem_cases:
  assumes "machine_mid m" "n \<in> {1, 2, 4}"
  obtains v mm where "Machine_ReadMem krn m a n = Inr (Some v, m\<lparr>mmu := mm\<rparr>)" "MMU_ReadMem (mmu m) a n = Inr (Inr v, mm)" "same_main_memory (mmu m) mm"
  | e mm where "Machine_ReadMem krn m a n = rbind (RaiseException krn (m\<lparr>mmu := mm\<rparr>) e a) (\<lambda>m'. Inr (None, m'))"
      "same_main_memory (mmu m) mm" "e \<in> memory_faults" "\<nexists>w mm'. MMU_ReadMem (mmu m) a n = Inr (Inr w, mm')"
proof -
  have "mmu_ok (mmu m)" using assms(1) by (simp add: machine_mid_def)
  from MMU_ReadMem_cases [OF this assms(2), of a] obtain r mm where
    "MMU_ReadMem (mmu m) a n = Inr (r, mm)" "same_main_memory (mmu m) mm" "\<forall>e. r = Inl e \<longrightarrow> e \<in> memory_faults" by blast
  then show ?thesis using that by (cases r) (simp_all add: Machine_ReadMem_def)
qed

lemma store_op_ends:
  assumes "machine_mid m" "same_main_memory (mmu m0) (mmu m)" "m = m0\<lparr>mmu := mmu m\<rparr>" "n \<in> {1, 2, 4}" "oc \<in> store_ops"
  shows "ends krn m0 oc (store_op krn m a n v)"
proof -
  have "mmu_ok (mmu m)" using assms(1) by (simp add: machine_mid_def)
  from MMU_WriteMem_cases [OF this assms(4), of a v] obtain e mm where
    w: "MMU_WriteMem (mmu m) a n v = Inr (e, mm)" "mmu_ok mm" "e \<noteq> NO_EXCEPTION \<longrightarrow> same_main_memory (mmu m) mm \<and> e \<in> memory_faults" by blast
  have m0: "registers m0 = registers m" "handlers m0 = handlers m" "m\<lparr>mmu := mm\<rparr> = m0\<lparr>mmu := mm\<rparr>"
    using arg_cong [OF assms(3), of registers] arg_cong [OF assms(3), of handlers] by (simp_all, subst assms(3)) simp
  show ?thesis
  proof (cases "e = NO_EXCEPTION")
    case True
    then show ?thesis using w(1) mid_mmu [OF assms(1) w(2)] m0(1,2)
      by (intro finished_ends) (simp add: finished_def store_op_def Machine_WriteMem_def reg_defs)
  next
    case False
    have "store_op krn m a n v = raise_exc krn (m0\<lparr>mmu := mm\<rparr>) e a"
      using w(1) False m0(3) by (cases "RaiseException krn (m0\<lparr>mmu := mm\<rparr>) e a") (simp_all add: store_op_def Machine_WriteMem_def raise_exc_def)
    moreover have "e \<in> traps_of oc" using assms(5) w(3) False by (auto simp: traps_of_def store_ops_def)
    ultimately show ?thesis using same_main_memory_trans [OF assms(2)] w(3) False by (auto simp: ends_def raised_def)
  qed
qed

lemma store_ends: "machine_mid m \<Longrightarrow> n \<in> {1, 2, 4} \<Longrightarrow> oc \<in> store_ops \<Longrightarrow> ends krn m oc (store_op krn m a n v)"
  by (rule store_op_ends) (simp_all add: machine_mid_def same_main_memory_refl)

lemma load_op_ends:
  assumes "machine_mid m" "n \<in> {1, 2, 4}" "reg < NUM_GP_REGS" "oc \<in> load_ops"
  shows "ends krn m oc (load_op krn m a n reg f)"
proof (cases rule: Machine_ReadMem_cases [OF assms(1,2), of krn a])
  case (1 v mm)
  have "machine_mid (m\<lparr>mmu := mm\<rparr>)" using 1(3) by (intro mid_mmu [OF assms(1)]) (simp add: same_main_memory_def)
  then show ?thesis using 1(1) assms(3) by (intro finished_ends) (simp add: finished_def load_op_def unat_of_nat reg_defs)
next
  case (2 e mm)
  have "load_op krn m a n reg f = raise_exc krn (m\<lparr>mmu := mm\<rparr>) e a"
    using 2(1) by (cases "RaiseException krn (m\<lparr>mmu := mm\<rparr>) e a") (simp_all add: load_op_def raise_exc_def)
  moreover have "e \<in> traps_of oc" using assms(4) 2(3) by (auto simp: traps_of_def load_ops_def)
  ultimately show ?thesis using 2(2) by (auto simp: ends_def raised_def)
qed

lemma load_merge_ends:
  assumes "machine_mid m" "reg < NUM_GP_REGS" "oc \<in> load_ops" "oc \<in> merge_ops"
  shows "ends krn m oc (load_merge krn m a reg f)"
proof (cases "a AND 0x3 = 0")
  case True
  have four: "(4 :: u32) \<in> {1, 2, 4}" by simp
  show ?thesis
  proof (cases rule: Machine_ReadMem_cases [OF assms(1) four, of krn a])
    case (1 v mm)
    have "machine_mid (m\<lparr>mmu := mm\<rparr>)" using 1(3) by (intro mid_mmu [OF assms(1)]) (simp add: same_main_memory_def)
    then show ?thesis using 1(1) True assms(2)
      by (intro finished_ends) (simp add: finished_def load_merge_def rassert_def Let_def unat_of_nat reg_defs)
  next
    case (2 e mm)
    have "load_merge krn m a reg f = raise_exc krn (m\<lparr>mmu := mm\<rparr>) e a"
      using 2(1) True by (cases "RaiseException krn (m\<lparr>mmu := mm\<rparr>) e a") (simp_all add: load_merge_def raise_exc_def rassert_def)
    moreover have "e \<in> traps_of oc" using assms(3) 2(3) by (auto simp: traps_of_def load_ops_def)
    ultimately show ?thesis using 2(2) by (auto simp: ends_def raised_def)
  qed
qed (simp add: load_merge_def rassert_def ends_def assms)

lemma store_merge_ends:
  assumes "machine_mid m" "oc \<in> store_ops" "oc \<in> merge_ops"
  shows "ends krn m oc (store_merge krn m a reg f)"
proof (cases "a AND 0x3 = 0")
  case True
  have four: "(4 :: u32) \<in> {1, 2, 4}" by simp
  show ?thesis
  proof (cases rule: Machine_ReadMem_cases [OF assms(1) four, of krn "a AND NOT 0x3"])
    case (1 v mm)
    have "machine_mid (m\<lparr>mmu := mm\<rparr>)" using 1(3) by (intro mid_mmu [OF assms(1)]) (simp add: same_main_memory_def)
    from store_op_ends [OF this _ _ four assms(2), of m krn "a AND NOT 0x3" "f a (registers m ! reg) v"] 1(1,3) True
    show ?thesis by (simp add: store_merge_def rassert_def)
  next
    case (2 e mm)
    have "store_merge krn m a reg f = raise_exc krn (m\<lparr>mmu := mm\<rparr>) e (a AND NOT 0x3)"
      using 2(1) True by (cases "RaiseException krn (m\<lparr>mmu := mm\<rparr>) e (a AND NOT 0x3)") (simp_all add: store_merge_def raise_exc_def rassert_def)
    moreover have "e \<in> traps_of oc" using assms(2) 2(3) by (auto simp: traps_of_def store_ops_def)
    ultimately show ?thesis using 2(2) by (auto simp: ends_def raised_def)
  qed
qed (simp add: store_merge_def rassert_def ends_def assms)

lemmas op_ends = raise_ends store_ends load_op_ends load_merge_ends store_merge_ends write_reg_ends branch_if_ends
  link_ends link_branch_ends div_regs_ends done_ends

section \<open>The instructions\<close>

text \<open>The registers an instruction names, as \<open>Decode\<close> gives them.\<close>

definition regs_ok :: "Instruction \<Rightarrow> bool" where
  "regs_ok i \<longleftrightarrow> rs i < NUM_GP_REGS \<and> rt i < NUM_GP_REGS \<and> rd i < NUM_GP_REGS"

lemma gp_plain: "regs_ok i \<Longrightarrow> plain_reg (rs i) \<and> plain_reg (rt i) \<and> plain_reg (rd i) \<and> rt i < NUM_GP_REGS"
  "plain_reg RET_ADDR_REG" "plain_reg HI_REG" "plain_reg LO_REG"
  by (auto simp: regs_ok_def plain_reg_def reg_defs)

lemmas op_sets = traps_of_def load_ops_def store_ops_def merge_ops_def memory_faults_def

lemma exec_op_ends:
  assumes "machine_mid m" "regs_ok i" "executable_op (opCode i)"
  shows "ends krn m (opCode i) (exec_op krn m i)"
  using assms gp_plain(1) [OF assms(2)] gp_plain(2-4)
  by (cases "opCode i") (simp_all add: exec_defs op_ends op_sets split_beta Let_def executable_op_def ends_def [of _ _ OP_DIV "Inl HostTrap"])

lemma ExecInstruction_cases:
  assumes "machine_mid m" "regs_ok i" "executable_op (opCode i)"
  obtains m1 where "ExecInstruction krn m i = Inr m1" "machine_ok m1" "handlers m1 = handlers m"
      "registers m1 ! PC_REG = registers m ! NEXT_PC_REG" "registers m1 ! PREV_PC_REG = registers m ! PC_REG"
  | mm e a where "ExecInstruction krn m i = RaiseException krn (m\<lparr>mmu := mm\<rparr>) e a" "same_main_memory (mmu m) mm" "e \<in> traps_of (opCode i)"
  | "ExecInstruction krn m i = Inl AssertFailed" "opCode i \<in> merge_ops"
  | "ExecInstruction krn m i = Inl HostTrap" "opCode i = OP_DIV"
proof -
  have regs: "rs i < NUM_TOTAL_REGS \<and> rt i < NUM_TOTAL_REGS \<and> rd i < NUM_TOTAL_REGS"
    using assms(2) by (simp add: regs_ok_def reg_defs)
  from exec_op_ends [OF assms, of krn] show thesis unfolding ends_def
  proof (elim disjE conjE)
    assume "finished m (exec_op krn m i)"
    then obtain pc lreg v m1 where m1: "exec_op krn m i = Inr (Done pc lreg v, m1)" "machine_mid m1" "unat lreg < NUM_GP_REGS"
      "handlers m1 = handlers m" "registers m1 ! PC_REG = registers m ! PC_REG" "registers m1 ! NEXT_PC_REG = registers m ! NEXT_PC_REG"
      by (auto simp: finished_def)
    from DelayedLoad_ok [OF m1(2,3), of v] obtain m2 where
      m2: "DelayedLoad m1 lreg v = Inr m2" "machine_ok m2" "handlers m2 = handlers m1"
        "registers m2 ! PC_REG = registers m1 ! PC_REG" "registers m2 ! NEXT_PC_REG = registers m1 ! NEXT_PC_REG" by blast
    let ?r = "registers m2"
    let ?m = "m2\<lparr>registers := ?r[PREV_PC_REG := ?r ! PC_REG, PC_REG := ?r ! NEXT_PC_REG, NEXT_PC_REG := pc]\<rparr>"
    have "ExecInstruction krn m i = Inr ?m" using m1(1) m2(1) regs by (simp add: ExecInstruction_def Let_def)
    moreover have "machine_ok ?m" "registers ?m ! PC_REG = registers m ! NEXT_PC_REG" "registers ?m ! PREV_PC_REG = registers m ! PC_REG"
      using m1(5,6) m2(2,4,5) by (simp_all add: machine_ok_def machine_mid_def reg_defs)
    ultimately show thesis using that(1) m1(4) m2(3) by simp
  next
    assume "raised krn m (opCode i) (exec_op krn m i)"
    then obtain mm e a where r: "same_main_memory (mmu m) mm" "e \<in> traps_of (opCode i)" "exec_op krn m i = raise_exc krn (m\<lparr>mmu := mm\<rparr>) e a"
      by (auto simp: raised_def)
    then have "ExecInstruction krn m i = RaiseException krn (m\<lparr>mmu := mm\<rparr>) e a"
      using regs by (cases "RaiseException krn (m\<lparr>mmu := mm\<rparr>) e a") (simp_all add: ExecInstruction_def raise_exc_def)
    with r that(2) show thesis by blast
  qed (use that(3,4) regs in \<open>simp_all add: ExecInstruction_def\<close>)
qed

text \<open>
  The machine that a handler is entered with: the pending load is carried out, the bad address is in its
  register, and everything else is as before the instruction.
\<close>

definition trapped :: "'z Machine_scheme \<Rightarrow> MMU \<Rightarrow> u32 \<Rightarrow> 'z Machine_scheme" where
  "trapped m mm a = m\<lparr>mmu := mm, status := SYSTEM_MODE, registers := (registers m)[BAD_VADDR_REG := a,
     unat (registers m ! LOAD_REG) := registers m ! LOAD_VALUE_REG, LOAD_REG := 0, LOAD_VALUE_REG := 0, 0 := 0]\<rparr>"

lemma RaiseException_trapped:
  assumes "machine_mid m" "same_main_memory (mmu m) mm"
  shows "RaiseException krn (m\<lparr>mmu := mm\<rparr>) e a = (case handlers m e of None \<Rightarrow> Inl AssertFailed
      | Some h \<Rightarrow> rbind (krn h e (trapped m mm a)) (\<lambda>m2. Inr (m2\<lparr>status := USER_MODE\<rparr>)))"
    "machine_ok (trapped m mm a)"
proof -
  have m: "length (registers m) = 40" "unat (registers m ! 37) < 32" "mmu_ok mm"
    using assms by (simp_all add: machine_mid_def reg_defs same_main_memory_def)
  have d: "DelayedLoad (m\<lparr>mmu := mm, registers := (registers m)[BAD_VADDR_REG := a]\<rparr>) 0 0 = Inr ((trapped m mm a)\<lparr>status := status m\<rparr>)"
    using m(1,2) by (simp add: DelayedLoad_def trapped_def Let_def reg_defs)
  have "(trapped m mm a)\<lparr>status := SYSTEM_MODE\<rparr> = trapped m mm a" by (simp add: trapped_def)
  then show "RaiseException krn (m\<lparr>mmu := mm\<rparr>) e a = (case handlers m e of None \<Rightarrow> Inl AssertFailed
      | Some h \<Rightarrow> rbind (krn h e (trapped m mm a)) (\<lambda>m2. Inr (m2\<lparr>status := USER_MODE\<rparr>)))"
    using d by (simp add: RaiseException_def split: option.split)
  show "machine_ok (trapped m mm a)" using m by (simp add: machine_ok_def machine_mid_def trapped_def reg_defs)
qed

lemma Run_step_cases:
  assumes "machine_ok m"
  shows "(\<exists>w mm m1. MMU_ReadMem (mmu m) (registers m ! PC_REG) 4 = Inr (Inr w, mm)
        \<and> Run_step krn tick m = tick m1 \<and> machine_ok m1 \<and> handlers m1 = handlers m
        \<and> registers m1 ! PC_REG = registers m ! NEXT_PC_REG \<and> registers m1 ! PREV_PC_REG = registers m ! PC_REG)
    \<or> (\<exists>e a mm. same_main_memory (mmu m) mm \<and> machine_ok (trapped m mm a)
        \<and> (e \<in> memory_faults \<and> (\<nexists>w mm'. MMU_ReadMem (mmu m) (registers m ! PC_REG) 4 = Inr (Inr w, mm'))
            \<or> (\<exists>w mm'. MMU_ReadMem (mmu m) (registers m ! PC_REG) 4 = Inr (Inr w, mm') \<and> e \<in> traps_of (opCode (Decode w))))
        \<and> Run_step krn tick m = (case handlers m e of None \<Rightarrow> Inl AssertFailed
            | Some h \<Rightarrow> rbind (krn h e (trapped m mm a)) (\<lambda>m2. tick (m2\<lparr>status := USER_MODE\<rparr>))))
    \<or> (\<exists>w mm. MMU_ReadMem (mmu m) (registers m ! PC_REG) 4 = Inr (Inr w, mm)
        \<and> (opCode (Decode w) \<in> {OP_LWL, OP_LWR, OP_SWL, OP_SWR} \<and> Run_step krn tick m = Inl AssertFailed
            \<or> opCode (Decode w) = OP_DIV \<and> Run_step krn tick m = Inl HostTrap))"
proof -
  let ?pc = "registers m ! PC_REG"
  have mid: "machine_mid m" and four: "(4 :: u32) \<in> {1, 2, 4}" using assms ok_mid by simp_all
  show ?thesis
  proof (cases rule: Machine_ReadMem_cases [OF mid four, of krn ?pc])
    case (1 w mm)
    let ?m = "m\<lparr>mmu := mm\<rparr>"
    have step: "Run_step krn tick m = rbind (ExecInstruction krn ?m (Decode w)) tick"
      using 1(1) by (simp add: Run_step_def FetchInstruction_def)
    have m': "machine_mid ?m" "regs_ok (Decode w)"
      using mid_mmu [OF mid] 1(3) Decode_ok(1-3) by (simp_all add: same_main_memory_def regs_ok_def reg_defs)
    show ?thesis
    proof (cases rule: ExecInstruction_cases [OF m' Decode_ok(4), of krn])
      case (1 m1)
      then show ?thesis using step \<open>MMU_ReadMem (mmu m) ?pc 4 = Inr (Inr w, mm)\<close> by (intro disjI1) auto
    next
      case (2 mm' e a)
      have sm: "same_main_memory (mmu m) mm'" using same_main_memory_trans [OF \<open>same_main_memory (mmu m) mm\<close>] 2(2) by simp
      note re = RaiseException_trapped(1) [OF mid sm, of krn e a] RaiseException_trapped(2) [OF mid sm, of a]
      have "Run_step krn tick m = (case handlers m e of None \<Rightarrow> Inl AssertFailed
            | Some h \<Rightarrow> rbind (krn h e (trapped m mm' a)) (\<lambda>m2. tick (m2\<lparr>status := USER_MODE\<rparr>)))"
        using step 2(1) re(1) by (simp add: rbind_assoc split: option.split)
      with sm re(2) 2(3) \<open>MMU_ReadMem (mmu m) ?pc 4 = Inr (Inr w, mm)\<close> show ?thesis by blast
    next
      case 3
      then show ?thesis using step \<open>MMU_ReadMem (mmu m) ?pc 4 = Inr (Inr w, mm)\<close> by (auto simp: merge_ops_def)
    next
      case 4
      then show ?thesis using step \<open>MMU_ReadMem (mmu m) ?pc 4 = Inr (Inr w, mm)\<close> by auto
    qed
  next
    case (2 e mm)
    note re = RaiseException_trapped(1) [OF mid 2(2), of krn e ?pc] RaiseException_trapped(2) [OF mid 2(2), of ?pc]
    have "Run_step krn tick m = (case handlers m e of None \<Rightarrow> Inl AssertFailed
          | Some h \<Rightarrow> rbind (krn h e (trapped m mm ?pc)) (\<lambda>m2. tick (m2\<lparr>status := USER_MODE\<rparr>)))"
      using 2(1) re(1) by (simp add: Run_step_def FetchInstruction_def rbind_assoc split: option.split)
    moreover have "\<nexists>w mm'. MMU_ReadMem (mmu m) ?pc 4 = Inr (Inr w, mm')" by (rule 2(4))
    ultimately show ?thesis using 2(2,3) re(2) by blast
  qed
qed

text \<open>
  So any number of iterations of \<open>Run\<close> stays inside the simulator's arrays as long as the exception
  handlers and the clock tick do.
\<close>

fun safe :: "'z Machine_scheme res \<Rightarrow> bool" where
  "safe (Inl e) = (e \<noteq> OutOfBounds)"
| "safe (Inr m) = machine_ok m"

lemma safe_bind: "safe r \<Longrightarrow> (\<And>m. machine_ok m \<Longrightarrow> safe (f m)) \<Longrightarrow> safe (rbind r f)"
  by (cases r) auto

lemma Run_safe:
  assumes "\<And>h et m. machine_ok m \<Longrightarrow> safe (krn h et m)" "\<And>m. machine_ok m \<Longrightarrow> safe (tick m)"
  shows "machine_ok m \<Longrightarrow> safe (Run krn tick k m)"
proof -
  have step: "safe (Run_step krn tick m)" if "machine_ok m" for m
    using Run_step_cases [OF that, of krn tick] assms by (auto intro!: safe_bind split: option.split)
  have "safe (Run_iterate krn tick k m)" if "machine_ok m" for m
    using that by (induction k arbitrary: m) (auto intro: safe_bind step)
  then show "machine_ok m \<Longrightarrow> safe (Run krn tick k m)" by (simp add: Run_def)
qed

section \<open>Properties\<close>

text \<open>
  C9. Exceptions are precise, and the simulator stays inside its arrays, whatever words are in memory and
  in the registers and whatever the kernel does. One iteration of \<open>Run\<close> does one of three things.
  It completes the instruction at the program counter, moves the program counters on and ticks. Or it enters the
  kernel, once, on a machine in which the instruction has changed nothing (the pending load is
  carried out and the bad address is set), so that the handler can have it started again, and ticks afterwards; the
  exception is one of the accesses to memory, for the fetch, or one the operation can raise, so that
  an operation that raises none completes. Or it stops at an \<open>ASSERT\<close>, for an
  exception without a handler or an unaligned \<open>LWL\<close>, \<open>LWR\<close>, \<open>SWL\<close> or \<open>SWR\<close>, or in the host's division. The machine
  handed to the kernel or to the clock has 40 registers with register 0 zero, a pending load to a
  general register and a well-formed MMU.
\<close>

theorem step_precise:
  assumes "machine_ok m"
  shows "(\<exists>w mm m1. MMU_ReadMem (mmu m) (registers m ! PC_REG) 4 = Inr (Inr w, mm)
        \<and> Run_step krn tick m = tick m1 \<and> machine_ok m1 \<and> handlers m1 = handlers m
        \<and> registers m1 ! PC_REG = registers m ! NEXT_PC_REG \<and> registers m1 ! PREV_PC_REG = registers m ! PC_REG)
    \<or> (\<exists>e a mm. same_main_memory (mmu m) mm \<and> machine_ok (trapped m mm a)
        \<and> (e \<in> memory_faults \<and> (\<nexists>w mm'. MMU_ReadMem (mmu m) (registers m ! PC_REG) 4 = Inr (Inr w, mm'))
            \<or> (\<exists>w mm'. MMU_ReadMem (mmu m) (registers m ! PC_REG) 4 = Inr (Inr w, mm') \<and> e \<in> traps_of (opCode (Decode w))))
        \<and> Run_step krn tick m = (case handlers m e of None \<Rightarrow> Inl AssertFailed
            | Some h \<Rightarrow> rbind (krn h e (trapped m mm a)) (\<lambda>m2. tick (m2\<lparr>status := USER_MODE\<rparr>))))
    \<or> (\<exists>w mm. MMU_ReadMem (mmu m) (registers m ! PC_REG) 4 = Inr (Inr w, mm)
        \<and> (opCode (Decode w) \<in> {OP_LWL, OP_LWR, OP_SWL, OP_SWR} \<and> Run_step krn tick m = Inl AssertFailed
            \<or> opCode (Decode w) = OP_DIV \<and> Run_step krn tick m = Inl HostTrap))"
  using assms by (rule Run_step_cases)

text \<open>A machine with the sample memory and a handler that skips the instruction.\<close>

definition skip_kernel :: "unit kernel_code" where
  "skip_kernel h et m = Inr (m\<lparr>registers := (registers m)[PC_REG := registers m ! NEXT_PC_REG,
     NEXT_PC_REG := registers m ! NEXT_PC_REG + 4]\<rparr>)"

lemma sample_machine_ok: "machine_ok (Machine_new sample_mmu SYSTEM_MODE)"
  by (simp add: machine_ok_def machine_mid_def Machine_new_def reg_defs sample_mmu_facts)

theorem step_precise_witness:
  "\<exists>m1. Run_step skip_kernel Inr ((Machine_new sample_mmu USER_MODE)\<lparr>handlers := (\<lambda>_. Some 0)\<rparr>) = Inr m1
    \<and> registers m1 ! NEXT_PC_REG = 4 \<and> mainMemory (mmu m1) = mainMemory sample_mmu"
proof -
  let ?m = "(Machine_new sample_mmu USER_MODE)\<lparr>handlers := (\<lambda>_. Some 0)\<rparr>"
  have ok: "machine_ok ?m" using sample_machine_ok by (simp add: machine_ok_def machine_mid_def Machine_new_def)
  have r: "registers ?m = replicate 40 0" "mmu ?m = sample_mmu" "handlers ?m = (\<lambda>_. Some 0)"
    by (simp_all add: Machine_new_def reg_defs)
  have "\<nexists>w mm. MMU_ReadMem sample_mmu 0 4 = Inr (Inr w, mm)"
    by (simp add: MMU_ReadMem_def Translate_def RetrievePageEntry_def sample_mmu_def MMU_new_def Let_def)
  then have pf: "\<nexists>w mm. MMU_ReadMem (mmu ?m) (registers ?m ! PC_REG) 4 = Inr (Inr w, mm)" by (simp add: r PC_REG_def)
  from step_precise [OF ok, of skip_kernel Inr] pf obtain e a mm where
    t: "same_main_memory sample_mmu mm" "Run_step skip_kernel Inr ?m = rbind (skip_kernel 0 e (trapped ?m mm a)) (\<lambda>m2. Inr (m2\<lparr>status := USER_MODE\<rparr>))"
    unfolding r by fastforce
  then show ?thesis by (simp add: skip_kernel_def trapped_def r reg_defs same_main_memory_def)
qed

text \<open>
  \<open>SRL\<close> shifts arithmetically. With no load pending, the result of \<open>SRL\<close> is that of \<open>SRA\<close>, the
  sign of the register copied into the bits shifted in; for a register with its sign bit set and a
  shift that is not zero this is not the logical shift of the MIPS architecture.
\<close>

theorem srl_copies_sign:
  assumes "machine_ok m" "regs_ok i" "registers m ! LOAD_REG = 0" "opCode i = OP_SRL" "rd i \<noteq> 0"
    and "unat (extra i) < 32"
  shows "\<exists>m'. ExecInstruction krn m i = Inr m' \<and> ExecInstruction krn m (i\<lparr>opCode := OP_SRA\<rparr>) = Inr m'
    \<and> registers m' ! rd i = signed_drop_bit (unat (extra i)) (registers m ! rt i)
    \<and> (0 < unat (extra i) \<and> bit (registers m ! rt i) 31 \<longrightarrow>
        registers m' ! rd i \<noteq> drop_bit (unat (extra i)) (registers m ! rt i))"
proof -
  let ?v = "signed_drop_bit (unat (extra i)) (registers m ! rt i)"
  have ne: "?v \<noteq> drop_bit (unat (extra i)) (registers m ! rt i)"
    if "0 < unat (extra i)" "bit (registers m ! rt i) 31"
  proof -
    have "bit ?v 31" using that by (auto simp: bit_simps)
    moreover have "\<not> bit (drop_bit (unat (extra i)) (registers m ! rt i)) 31"
      using that(1) bit_imp_le_length [of "registers m ! rt i" "unat (extra i) + 31"] by (auto simp: bit_simps)
    ultimately show ?thesis by metis
  qed
  have len: "length (registers m) = 40" "rd i < 32" "rs i < 32" "rt i < 32"
    using assms(1,2) by (simp_all add: machine_ok_def machine_mid_def regs_ok_def reg_defs)
  let ?m1 = "m\<lparr>registers := (registers m)[rd i := ?v]\<rparr>"
  have ex: "exec_op krn m i = Inr (Done (next_pc m) 0 0, ?m1)"
    "exec_op krn m (i\<lparr>opCode := OP_SRA\<rparr>) = Inr (Done (next_pc m) 0 0, ?m1)"
    using assms(4) by (simp_all add: exec_defs write_reg_def Let_def)
  show ?thesis
    unfolding ExecInstruction_def using ex assms(3,5) ne len
    by (auto simp: DelayedLoad_def Let_def reg_defs)
qed

definition sample_srl :: Instruction where
  "sample_srl = \<lparr>instr_value = 0, opCode = OP_SRL, rs = 0, rt = 8, rd = 9, extra = 4\<rparr>"

theorem srl_copies_sign_witness:
  "\<exists>m'. ExecInstruction skip_kernel
      ((Machine_new sample_mmu SYSTEM_MODE)\<lparr>registers := (replicate 40 0)[8 := 0x80000000]\<rparr>) sample_srl = Inr m'
    \<and> registers m' ! 9 = 0xF8000000"
proof -
  let ?m = "(Machine_new sample_mmu SYSTEM_MODE)\<lparr>registers := (replicate 40 0)[8 := 0x80000000]\<rparr>"
  have "machine_ok ?m" using sample_machine_ok by (simp add: machine_ok_def machine_mid_def Machine_new_def reg_defs)
  moreover have "regs_ok sample_srl" "opCode sample_srl = OP_SRL" "rd sample_srl = 9" "rt sample_srl = 8"
    "unat (extra sample_srl) = 4" by (simp_all add: sample_srl_def regs_ok_def reg_defs)
  moreover have "registers ?m ! LOAD_REG = 0" "registers ?m ! 8 = 0x80000000" by (simp_all add: reg_defs)
  ultimately obtain m' where "ExecInstruction skip_kernel ?m sample_srl = Inr m'"
    "registers m' ! 9 = signed_drop_bit 4 0x80000000"
    using srl_copies_sign [of ?m sample_srl skip_kernel] by auto
  moreover have "(signed_drop_bit 4 0x80000000 :: u32) = 0xF8000000" by code_simp
  ultimately show ?thesis by auto
qed

end
