(* ===== verification/Interrupt.thy ===== *)
theory Interrupt
  imports Linked_List Mips_Run
begin

text \<open>
  \<open>machine/interrupt.cc\<close>: the simulated interrupt hardware. It keeps the clock, the list of pending
  interrupts sorted by the time they are due, and the interrupt level; enabling interrupts or
  executing an instruction advances the clock and calls the handlers that are due, and an idle
  machine moves the clock to the next pending interrupt. The build with \<open>DFS_TICKS_FIX\<close>.
\<close>

section \<open>State\<close>

datatype IntStatus = INT_OFF | INT_ON

datatype IntType = TIMER_INT | DISK_INT | CONSOLE_WRITE_INT | CONSOLE_READ_INT | NETWORK_SEND_INT | NETWORK_RECV_INT

definition USER_TICK :: ticks where "USER_TICK = 1"
definition SYSTEM_TICK :: ticks where "SYSTEM_TICK = 10"
definition CONSOLE_TIME :: ticks where "CONSOLE_TIME = 100"
definition TIMER_TICKS :: ticks where "TIMER_TICKS = 100"

text \<open>The performance counters; those of the disk are kept with the disk.\<close>

record Statistics =
  totalTicks :: ticks
  idleTicks :: ticks
  systemTicks :: ticks
  userTicks :: ticks
  numConsoleCharsRead :: ticks
  numConsoleCharsWritten :: ticks
  tickResets :: ticks

definition Statistics_new :: Statistics where
  "Statistics_new = \<lparr>totalTicks = 0, idleTicks = 0, systemTicks = 0, userTicks = 0, numConsoleCharsRead = 0,
     numConsoleCharsWritten = 0, tickResets = 0\<rparr>"

text \<open>
  A handler with its argument is an element of \<open>'h\<close>; what it does is a parameter of the operations
  that call handlers. \<open>dueTime\<close> is the field \<open>when\<close>, which only the debugging output reads.
\<close>

record 'h PendingInterrupt =
  handler :: 'h
  dueTime :: ticks
  intType :: IntType

record ('h, 'k) hw =
  level :: IntStatus
  pending :: "'h PendingInterrupt klist"
  inHandler :: bool
  yieldOnReturn :: bool
  mstatus :: MachineStatus
  stats :: Statistics
  machine :: "Machine option"
  rest :: 'k

type_synonym ('h, 'k) handler_code = "'h \<Rightarrow> ('h, 'k) hw \<Rightarrow> ('h, 'k) hw res"

definition Interrupt_new :: "Machine option \<Rightarrow> 'k \<Rightarrow> ('h, 'k) hw" where
  "Interrupt_new mc k = \<lparr>level = INT_OFF, pending = [], inHandler = False, yieldOnReturn = False,
     mstatus = SYSTEM_MODE, stats = Statistics_new, machine = mc, rest = k\<rparr>"

section \<open>Operations\<close>

definition ChangeLevel :: "IntStatus \<Rightarrow> ('h, 'k) hw \<Rightarrow> ('h, 'k) hw" where
  "ChangeLevel now s = s\<lparr>level := now\<rparr>"

definition YieldOnReturn :: "('h, 'k) hw \<Rightarrow> ('h, 'k) hw" where
  "YieldOnReturn s = s\<lparr>yieldOnReturn := True\<rparr>"

text \<open>
  The times in the list are the keys of its elements: an \<open>unsigned\<close> stored as an \<open>int\<close> and read
  back as an \<open>unsigned\<close>.
\<close>

definition key_of :: "u32 \<Rightarrow> int" where "key_of when = sint when"
definition when_of :: "int \<Rightarrow> u32" where "when_of k = of_int k"

fun Restart_loop :: "ticks \<Rightarrow> 'h PendingInterrupt klist \<Rightarrow> 'h PendingInterrupt klist \<Rightarrow> 'h PendingInterrupt klist" where
  "Restart_loop now [] new = new"
| "Restart_loop now ((p, k) # old) new =
     (let newWhen = ucast (ucast (when_of k) - now :: ticks) :: u32
      in Restart_loop now old (kl_SortedInsert p (key_of newWhen) new))"

definition RestartTicks :: "('h, 'k) hw \<Rightarrow> ('h, 'k) hw" where
  "RestartTicks s = s\<lparr>pending := Restart_loop (totalTicks (stats s)) (pending s) [],
     stats := (stats s)\<lparr>totalTicks := 0, tickResets := tickResets (stats s) + 1\<rparr>\<rparr>"

definition Schedule :: "'h \<Rightarrow> ticks \<Rightarrow> IntType \<Rightarrow> ('h, 'k) hw \<Rightarrow> ('h, 'k) hw res" where
  "Schedule h fromNow ty s =
     rbind (rassert (fromNow > 0)) (\<lambda>_.
       let s1 = (if 0xFFFFFFFF - totalTicks (stats s) < fromNow then RestartTicks s else s);
           when = ucast (totalTicks (stats s1) + fromNow) :: u32
       in Inr (s1\<lparr>pending := kl_SortedInsert \<lparr>handler = h, dueTime = ucast when, intType = ty\<rparr> (key_of when) (pending s1)\<rparr>))"

text \<open>The call of a handler, with interrupts off and the machine in system mode.\<close>

definition run_handler :: "('h, 'k) handler_code \<Rightarrow> 'h \<Rightarrow> ('h, 'k) hw \<Rightarrow> ('h, 'k) hw res" where
  "run_handler hnd h s =
     rbind (case machine s of None \<Rightarrow> Inr s
        | Some m \<Rightarrow> rbind (DelayedLoad m 0 0) (\<lambda>m'. Inr (s\<lparr>machine := Some m'\<rparr>))) (\<lambda>s1.
     rbind (hnd h (s1\<lparr>inHandler := True, mstatus := SYSTEM_MODE\<rparr>)) (\<lambda>s2.
       Inr (s2\<lparr>mstatus := mstatus s, inHandler := False\<rparr>)))"

definition CheckIfDue :: "('h, 'k) handler_code \<Rightarrow> bool \<Rightarrow> ('h, 'k) hw \<Rightarrow> (bool \<times> ('h, 'k) hw) res" where
  "CheckIfDue hnd advanceClock s =
     rbind (rassert (level s = INT_OFF)) (\<lambda>_.
       case pending s of
         [] \<Rightarrow> Inr (False, s)
       | (toOccur, k) # ps \<Rightarrow>
           let when = when_of k; st = stats s; early = (ucast when > totalTicks st);
               s1 = s\<lparr>pending := ps\<rparr>;
               s2 = (if advanceClock \<and> early
                     then s1\<lparr>stats := st\<lparr>idleTicks := idleTicks st + (ucast when - totalTicks st), totalTicks := ucast when\<rparr>\<rparr>
                     else s1)
           in if \<not> advanceClock \<and> early \<or> mstatus s = IDLE_MODE \<and> intType toOccur = TIMER_INT \<and> ps = []
              then Inr (False, s2\<lparr>pending := kl_SortedInsert toOccur (key_of when) ps\<rparr>)
              else rbind (run_handler hnd (handler toOccur) s2) (\<lambda>s3. Inr (True, s3)))"

text \<open>
  \<open>while (CheckIfDue(false)) {}\<close>, with a bound on the number of calls: the loop ends when no
  pending interrupt is due.
\<close>

fun fire_due :: "('h, 'k) handler_code \<Rightarrow> nat \<Rightarrow> ('h, 'k) hw \<Rightarrow> ('h, 'k) hw res" where
  "fire_due hnd 0 s = Inl Diverges"
| "fire_due hnd (Suc fuel) s = rbind (CheckIfDue hnd False s) (\<lambda>(fired, s1). if fired then fire_due hnd fuel s1 else Inr s1)"

definition advance :: "('h, 'k) hw \<Rightarrow> ('h, 'k) hw" where
  "advance s = (let st = stats s in
     if mstatus s = SYSTEM_MODE
     then s\<lparr>stats := st\<lparr>totalTicks := totalTicks st + SYSTEM_TICK, systemTicks := systemTicks st + SYSTEM_TICK\<rparr>\<rparr>
     else s\<lparr>stats := st\<lparr>totalTicks := totalTicks st + USER_TICK, userTicks := userTicks st + USER_TICK\<rparr>\<rparr>)"

definition OneTick :: "('h, 'k) handler_code \<Rightarrow> (('h, 'k) hw \<Rightarrow> ('h, 'k) hw res) \<Rightarrow> nat \<Rightarrow> ('h, 'k) hw \<Rightarrow> ('h, 'k) hw res" where
  "OneTick hnd yield fuel s =
     rbind (fire_due hnd fuel (ChangeLevel INT_OFF (advance s))) (\<lambda>s1.
       let s2 = ChangeLevel INT_ON s1 in
       if yieldOnReturn s2
       then rbind (yield (s2\<lparr>yieldOnReturn := False, mstatus := SYSTEM_MODE\<rparr>)) (\<lambda>s3. Inr (s3\<lparr>mstatus := mstatus s\<rparr>))
       else Inr s2)"

definition SetLevel :: "('h, 'k) handler_code \<Rightarrow> (('h, 'k) hw \<Rightarrow> ('h, 'k) hw res) \<Rightarrow> nat \<Rightarrow> IntStatus \<Rightarrow> ('h, 'k) hw \<Rightarrow> (IntStatus \<times> ('h, 'k) hw) res" where
  "SetLevel hnd yield fuel now s =
     rbind (rassert (now = INT_OFF \<or> \<not> inHandler s)) (\<lambda>_.
       let s1 = ChangeLevel now s in
       if now = INT_ON \<and> level s = INT_OFF
       then rbind (OneTick hnd yield fuel s1) (\<lambda>s2. Inr (level s, s2)) else Inr (level s, s1))"

definition Enable :: "('h, 'k) handler_code \<Rightarrow> (('h, 'k) hw \<Rightarrow> ('h, 'k) hw res) \<Rightarrow> nat \<Rightarrow> ('h, 'k) hw \<Rightarrow> ('h, 'k) hw res" where
  "Enable hnd yield fuel s = rbind (SetLevel hnd yield fuel INT_ON s) (\<lambda>(old, s1). Inr s1)"

text \<open>\<open>Idle\<close>: false when the machine halts, with nothing left to wait for.\<close>

definition Idle :: "('h, 'k) handler_code \<Rightarrow> nat \<Rightarrow> bool \<Rightarrow> ('h, 'k) hw \<Rightarrow> (bool \<times> ('h, 'k) hw) res" where
  "Idle hnd fuel consoleRunning s =
     (let s0 = s\<lparr>mstatus := IDLE_MODE\<rparr> in
      if consoleRunning then Inr (False, s0)
      else rbind (CheckIfDue hnd True s0) (\<lambda>(fired, s1).
        if \<not> fired then Inr (False, s1)
        else rbind (fire_due hnd fuel s1) (\<lambda>s2. Inr (True, s2\<lparr>yieldOnReturn := False, mstatus := SYSTEM_MODE\<rparr>))))"

text \<open>What \<open>DumpState\<close> prints.\<close>

definition DumpState :: "('h, 'k) hw \<Rightarrow> ticks \<times> IntStatus \<times> (IntType \<times> ticks) list" where
  "DumpState s = (totalTicks (stats s), level s, map (\<lambda>(p, k). (intType p, dueTime p)) (pending s))"

section \<open>Times\<close>

definition clock :: "('h, 'k) hw \<Rightarrow> nat" where
  "clock s = unat (totalTicks (stats s))"

text \<open>
  The pending list while every time is below \<open>2 ^ 31\<close>, where the keys and the times agree: sorted,
  with the clock far enough from the limit for the next request of a device.
\<close>

definition MAX_DELAY :: nat where "MAX_DELAY = 2 ^ 16"

definition times_ok :: "'h PendingInterrupt klist \<Rightarrow> bool" where
  "times_ok ps \<longleftrightarrow> sorted (map snd ps) \<and> (\<forall>q \<in> set ps. 0 \<le> snd q \<and> snd q < 2 ^ 31)"

definition timely :: "('h, 'k) hw \<Rightarrow> bool" where
  "timely s \<longleftrightarrow> times_ok (pending s) \<and> clock s + MAX_DELAY < 2 ^ 31"

lemma unat_when: "0 \<le> k \<Longrightarrow> k < 2 ^ 31 \<Longrightarrow> unat (when_of k) = nat k"
  by (simp add: when_of_def unat_eq_nat_uint uint_word_of_int take_bit_int_eq_self_iff)

lemma uint_when: "0 \<le> k \<Longrightarrow> k < 2 ^ 32 \<Longrightarrow> uint (when_of k) = k"
  by (simp add: when_of_def uint_word_of_int take_bit_int_eq_self_iff)

lemma when_key: "when_of (key_of w) = w"
  by (simp add: when_of_def key_of_def)

lemma key_small: "unat w < 2 ^ 31 \<Longrightarrow> key_of w = int (unat w)"
proof -
  assume "unat w < 2 ^ 31"
  then have "unat w < 2147483648" by simp
  moreover have i: "uint w = int (unat w)" by simp
  ultimately have u: "uint w < 2147483648" by linarith
  have "sint w = signed_take_bit 31 (uint w)" by (simp add: sint_uint)
  also have "\<dots> = uint w"
  proof (rule signed_take_bit_int_eq_self)
    have "- 2147483648 \<le> uint w" using i by linarith
    then show "- (2 ^ 31) \<le> uint w" by (simp only: power_numeral Num.pow.simps Num.sqr.simps mult_num_simps)
  qed (use u in simp)
  finally show ?thesis unfolding key_of_def i .
qed

lemma unat_to_ticks [simp]: "unat (ucast (w :: u32) :: ticks) = unat w"
proof -
  have "unat w < 2 ^ 32" using unsigned_less [of w] by simp
  then have "unat w < 2 ^ 64" by (rule order.strict_trans) simp
  then show ?thesis by (simp add: unsigned_ucast_eq take_bit_nat_eq_self)
qed

lemma key_when: "0 \<le> k \<Longrightarrow> k < 2 ^ 31 \<Longrightarrow> key_of (when_of k) = k"
  by (simp add: key_small unat_when)

lemma early_iff: "0 \<le> k \<Longrightarrow> k < 2 ^ 31 \<Longrightarrow> (ucast (when_of k) > t) = (int (unat t) < k)" for t :: ticks
proof -
  assume k: "0 \<le> k" "k < 2 ^ 31"
  have "unat (ucast (when_of k) :: ticks) = nat k" using unat_when [OF k] by simp
  then have "(ucast (when_of k) > t) = (unat t < nat k)" unfolding word_less_nat_alt by simp
  also have "\<dots> = (int (unat t) < k)" using k(1) by (simp only: zless_nat_conj zless_nat_eq_int_zless)
  finally show ?thesis .
qed

lemma sorted_SortedInsert: "sorted (map snd xs) \<Longrightarrow> sorted (map snd (kl_SortedInsert x k xs))"
  using up.place_sorted [of xs "(x, k)"] by (simp add: kl_SortedInsert_def)

lemma set_SortedInsert [simp]: "set (kl_SortedInsert x k xs) = insert (x, k) (set xs)"
  using arg_cong [OF mset_kl_insert [of "\<lambda>k j. k < j" x k xs], of set_mset] by (simp add: kl_SortedInsert_def)

lemma mset_SortedInsert [simp]: "mset (kl_SortedInsert x k xs) = add_mset (x, k) (mset xs)"
  by (simp add: kl_SortedInsert_def)

lemma times_ok_insert: "times_ok ps \<Longrightarrow> 0 \<le> k \<Longrightarrow> k < 2 ^ 31 \<Longrightarrow> times_ok (kl_SortedInsert p k ps)"
  by (simp add: times_ok_def sorted_SortedInsert)

lemma times_ok_tl: "times_ok (q # ps) \<Longrightarrow> times_ok ps"
  by (simp add: times_ok_def)

lemma int_bound: "n < 2 ^ 31 \<Longrightarrow> int n < 2 ^ 31"
  by simp

lemma unat_when_nat: "n < 2 ^ 31 \<Longrightarrow> unat (when_of (int n)) = n"
  using unat_when [of "int n"] by simp

lemma Schedule_ok:
  assumes "timely s" "0 < unat d" "unat d \<le> MAX_DELAY"
  shows "\<exists>s' p. Schedule h d ty s = Inr s' \<and> handler p = h \<and> intType p = ty
    \<and> s' = s\<lparr>pending := kl_SortedInsert p (int (clock s + unat d)) (pending s)\<rparr> \<and> timely s'"
proof -
  let ?t = "totalTicks (stats s)" and ?n = "clock s + unat d"
  have n: "?n < 2 ^ 31" using assms(1,3) by (simp add: timely_def)
  have c: "unat ?t = clock s" by (simp add: clock_def)
  have "unat (0xFFFFFFFF - ?t) = 0xFFFFFFFF - clock s" using n c by (subst unat_sub) (simp_all add: word_le_nat_alt)
  with n assms(2) have nr: "\<not> 0xFFFFFFFF - ?t < d" by (simp add: word_less_nat_alt)
  have "unat (?t + d) = ?n" using n c by (simp add: unat_word_ariths)
  then have u: "unat (ucast (?t + d) :: u32) = ?n" using n by (simp add: unsigned_ucast_eq take_bit_nat_eq_self)
  have k: "key_of (ucast (?t + d)) = int ?n" unfolding u [symmetric] by (rule key_small) (use n u in simp)
  have "d > 0" using assms(2) by (simp add: word_less_nat_alt)
  then have "Schedule h d ty s = Inr (s\<lparr>pending := kl_SortedInsert
      \<lparr>handler = h, dueTime = ucast (ucast (?t + d) :: u32), intType = ty\<rparr> (int ?n) (pending s)\<rparr>)"
    using nr by (simp add: Schedule_def Let_def k)
  moreover have "timely (s\<lparr>pending := kl_SortedInsert p (int ?n) (pending s)\<rparr>)" for p
    using assms(1) times_ok_insert [OF _ _ int_bound [OF n], of "pending s" p] by (simp add: timely_def clock_def)
  ultimately show ?thesis
    by (intro exI [of _ "s\<lparr>pending := kl_SortedInsert \<lparr>handler = h, dueTime = ucast (ucast (?t + d) :: u32),
          intType = ty\<rparr> (int ?n) (pending s)\<rparr>"]
        exI [of _ "\<lparr>handler = h, dueTime = ucast (ucast (?t + d) :: u32), intType = ty\<rparr>"]) simp
qed

section \<open>Handlers\<close>

text \<open>Interrupts that are due, and those that are not.\<close>

abbreviation is_due :: "('h, 'k) hw \<Rightarrow> 'h PendingInterrupt \<times> int \<Rightarrow> bool" where
  "is_due s q \<equiv> snd q \<le> int (clock s)"

definition due :: "('h, 'k) hw \<Rightarrow> nat" where
  "due s = length (filter (is_due s) (pending s))"

definition waiting :: "('h, 'k) hw \<Rightarrow> ('h PendingInterrupt \<times> int) multiset" where
  "waiting s = mset (filter (\<lambda>q. \<not> is_due s q) (pending s))"

definition machine_good :: "('h, 'k) hw \<Rightarrow> bool" where
  "machine_good s \<longleftrightarrow> (case machine s of None \<Rightarrow> True | Some m \<Rightarrow> machine_ok m)"

text \<open>
  What the handlers of devices act on, apart from the list of pending interrupts: the request to
  yield, the state of the kernel and of the devices, and the counters of the console.
\<close>

record 'k hw_view =
  wantsYield :: bool
  devicesOf :: 'k
  charsRead :: ticks
  charsWritten :: ticks

definition view_of :: "('h, 'k) hw \<Rightarrow> 'k hw_view" where
  "view_of s = \<lparr>wantsYield = yieldOnReturn s, devicesOf = rest s, charsRead = numConsoleCharsRead (stats s),
     charsWritten = numConsoleCharsWritten (stats s)\<rparr>"

abbreviation handler_of :: "'h PendingInterrupt \<times> int \<Rightarrow> 'h" where
  "handler_of q \<equiv> handler (fst q)"

text \<open>
  What the hardware relies on of the devices' handlers: they return, leave the clock and the
  interrupt level alone, and ask for interrupts only in the future. \<open>effect\<close> is what a handler does
  and \<open>requests\<close> the interrupts it asks for.
\<close>

locale device_handlers =
  fixes hnd :: "('h, 'k) handler_code"
    and good :: "'k \<Rightarrow> bool"
    and effect :: "'h \<Rightarrow> 'k hw_view \<Rightarrow> 'k hw_view"
    and requests :: "'h \<Rightarrow> 'h list"
  assumes hnd_law: "timely s \<Longrightarrow> good (rest s) \<Longrightarrow> inHandler s \<Longrightarrow> mstatus s = SYSTEM_MODE \<Longrightarrow> level s = INT_OFF \<Longrightarrow>
      \<exists>s' new. hnd h s = Inr s' \<and> good (rest s') \<and> level s' = INT_OFF \<and> machine s' = machine s
        \<and> clock s' = clock s \<and> timely s' \<and> view_of s' = effect h (view_of s)
        \<and> mset (pending s') = mset (pending s) + mset new \<and> map handler_of new = requests h
        \<and> filter (is_due s) (pending s') = filter (is_due s) (pending s) \<and> (\<forall>q \<in> set new. \<not> is_due s q)"
begin

definition hw_good :: "('h, 'k) hw \<Rightarrow> bool" where
  "hw_good s \<longleftrightarrow> timely s \<and> good (rest s) \<and> level s = INT_OFF \<and> machine_good s"

lemma run_handler_ok:
  assumes "hw_good s"
  shows "\<exists>s' new. run_handler hnd h s = Inr s' \<and> hw_good s' \<and> mstatus s' = mstatus s \<and> clock s' = clock s
    \<and> view_of s' = effect h (view_of s)
    \<and> mset (pending s') = mset (pending s) + mset new \<and> map handler_of new = requests h
    \<and> filter (is_due s) (pending s') = filter (is_due s) (pending s) \<and> (\<forall>q \<in> set new. \<not> is_due s q)"
proof -
  obtain mc where mc: "(case machine s of None \<Rightarrow> Inr s
      | Some m \<Rightarrow> rbind (DelayedLoad m 0 0) (\<lambda>m'. Inr (s\<lparr>machine := Some m'\<rparr>))) = Inr (s\<lparr>machine := mc\<rparr>)"
    "case mc of None \<Rightarrow> True | Some m \<Rightarrow> machine_ok m"
  proof (cases "machine s")
    case None
    then have "s\<lparr>machine := None\<rparr> = s" by simp
    with None that [of None] show ?thesis by simp
  next
    case (Some m)
    with assms have "machine_mid m" by (simp add: hw_good_def machine_good_def ok_mid)
    from DelayedLoad_ok [OF this, of 0 0] Some that show ?thesis by (auto simp: reg_defs)
  qed
  let ?s = "s\<lparr>machine := mc, inHandler := True, mstatus := SYSTEM_MODE\<rparr>"
  have c: "clock ?s = clock s" "timely ?s" "view_of ?s = view_of s"
    using assms by (simp_all add: hw_good_def timely_def clock_def view_of_def)
  then obtain s' new where s': "hnd h ?s = Inr s'" "good (rest s')" "level s' = INT_OFF" "machine s' = mc"
    "clock s' = clock s" "timely s'" "view_of s' = effect h (view_of s)"
    "mset (pending s') = mset (pending s) + mset new" "map handler_of new = requests h"
    "filter (is_due s) (pending s') = filter (is_due s) (pending s)" "\<forall>q \<in> set new. \<not> is_due s q"
    using hnd_law [of ?s h] assms by (auto simp: hw_good_def)
  let ?r = "s'\<lparr>mstatus := mstatus s, inHandler := False\<rparr>"
  have "run_handler hnd h s = Inr ?r" unfolding run_handler_def mc(1) using s'(1) by simp
  moreover have "hw_good ?r" using s' mc(2) by (simp add: hw_good_def timely_def clock_def machine_good_def)
  moreover have "view_of ?r = view_of s'" by (simp add: view_of_def)
  ultimately show ?thesis using s'(5,7-11) by (intro exI [of _ ?r] exI [of _ new]) (simp add: clock_def)
qed

text \<open>An idle machine does not wake up for the timer alone.\<close>

definition idle_timer :: "('h, 'k) hw \<Rightarrow> bool" where
  "idle_timer s \<longleftrightarrow> mstatus s = IDLE_MODE \<and> (\<exists>q. pending s = [q] \<and> intType (fst q) = TIMER_INT)"

text \<open>The head of the list is the earliest interrupt; when it is due it is fired, else nothing is.\<close>

lemma CheckIfDue_due:
  assumes "hw_good s" "\<not> idle_timer s" "pending s = q # ps" "is_due s q"
  shows "\<exists>s' new. CheckIfDue hnd False s = Inr (True, s') \<and> hw_good s' \<and> mstatus s' = mstatus s \<and> clock s' = clock s
    \<and> view_of s' = effect (handler_of q) (view_of s) \<and> map handler_of new = requests (handler_of q)
    \<and> filter (is_due s) (pending s) = q # filter (is_due s) (pending s') \<and> waiting s' = waiting s + mset new"
proof -
  obtain p k where q: "q = (p, k)" by (cases q)
  have t: "times_ok ((p, k) # ps)" using assms(1,3) q by (simp add: hw_good_def timely_def)
  then have k: "0 \<le> k" "k < 2 ^ 31" by (simp_all add: times_ok_def)
  have ne: "\<not> ucast (when_of k) > totalTicks (stats s)" using early_iff [OF k] assms(4) q by (simp add: clock_def)
  let ?s = "s\<lparr>pending := ps\<rparr>"
  have g: "hw_good ?s" using assms(1) times_ok_tl [OF t]
    by (simp add: hw_good_def timely_def clock_def machine_good_def)
  have c: "clock ?s = clock s" "view_of ?s = view_of s" by (simp_all add: clock_def view_of_def)
  from run_handler_ok [OF g, of "handler p"] obtain s' new where
    r: "run_handler hnd (handler p) ?s = Inr s'" "hw_good s'" "mstatus s' = mstatus s" "clock s' = clock s"
      "view_of s' = effect (handler p) (view_of s)" "mset (pending s') = mset ps + mset new"
      "map handler_of new = requests (handler p)"
      "filter (is_due s) (pending s') = filter (is_due s) ps" "\<forall>q \<in> set new. \<not> is_due s q" unfolding c by auto
  have ch: "CheckIfDue hnd False s = Inr (True, s')"
    using assms(1-3) q ne r(1) by (auto simp: CheckIfDue_def hw_good_def idle_timer_def)
  have "filter (\<lambda>q. \<not> is_due s q) new = new" using r(9) by (simp add: filter_id_conv)
  then have "waiting s' = waiting s + mset new"
    using assms(3,4) r(6) unfolding waiting_def r(4) by (simp add: mset_filter) (simp flip: mset_filter)
  moreover have "filter (is_due s) (pending s) = q # filter (is_due s) (pending s')" using assms(3,4) r(8) by simp
  ultimately show ?thesis using r(2-5,7) ch q by auto
qed

lemma CheckIfDue_early:
  assumes "hw_good s" "\<forall>q \<in> set (pending s). \<not> is_due s q"
  shows "\<exists>s'. CheckIfDue hnd False s = Inr (False, s') \<and> hw_good s' \<and> mset (pending s') = mset (pending s)
    \<and> clock s' = clock s \<and> mstatus s' = mstatus s \<and> view_of s' = view_of s"
proof (cases "pending s")
  case Nil
  with assms(1) show ?thesis by (simp add: CheckIfDue_def hw_good_def)
next
  case (Cons q ps)
  obtain p k where q: "q = (p, k)" by (cases q)
  have t: "times_ok ((p, k) # ps)" using assms(1) Cons q by (simp add: hw_good_def timely_def)
  then have k: "0 \<le> k" "k < 2 ^ 31" by (simp_all add: times_ok_def)
  have e: "ucast (when_of k) > totalTicks (stats s)" using early_iff [OF k] assms(2) Cons q by (simp add: clock_def)
  let ?s = "s\<lparr>pending := kl_SortedInsert p (key_of (when_of k)) ps\<rparr>"
  have "CheckIfDue hnd False s = Inr (False, ?s)"
    using assms(1) Cons q e by (simp add: CheckIfDue_def hw_good_def)
  moreover have "hw_good ?s"
    using assms(1) times_ok_insert [OF times_ok_tl [OF t] k, of p]
    by (simp add: hw_good_def timely_def clock_def machine_good_def key_when [OF k])
  moreover have "view_of ?s = view_of s" by (simp add: view_of_def)
  ultimately show ?thesis using Cons q by (simp add: key_when [OF k] clock_def)
qed

lemma sorted_head_due:
  assumes "timely s" "pending s = q # ps" "\<not> is_due s q"
  shows "\<forall>q \<in> set (pending s). \<not> is_due s q"
  using assms by (fastforce simp: timely_def times_ok_def)

text \<open>
  The loop of \<open>OneTick\<close> ends. It has called the handlers of all the interrupts that were due, in
  the order of the list, and no others; every other interrupt and what the handlers asked for is
  pending. An idle machine stops before a timer interrupt that is the only one pending.
\<close>

lemma fire_due_ends:
  assumes "hw_good s" "due s < fuel"
  shows "\<exists>s' fired left new. fire_due hnd fuel s = Inr s' \<and> hw_good s' \<and> mstatus s' = mstatus s \<and> clock s' = clock s
    \<and> filter (is_due s) (pending s) = fired @ left
    \<and> (left = [] \<and> due s' = 0 \<or> idle_timer s' \<and> pending s' = left)
    \<and> view_of s' = fold (\<lambda>q. effect (handler_of q)) fired (view_of s)
    \<and> waiting s' = waiting s + mset new \<and> map handler_of new = concat (map (\<lambda>q. requests (handler_of q)) fired)"
  using assms
proof (induction fuel arbitrary: s)
  case (Suc fuel)
  have t: "timely s" using Suc.prems(1) by (simp add: hw_good_def)
  consider (early) "\<forall>q \<in> set (pending s). \<not> is_due s q" | (idle) "idle_timer s" "\<not> (\<forall>q \<in> set (pending s). \<not> is_due s q)"
    | (fire) "\<not> idle_timer s" "\<not> (\<forall>q \<in> set (pending s). \<not> is_due s q)" by blast
  then show ?case
  proof cases
    case early
    from CheckIfDue_early [OF Suc.prems(1) early] obtain s' where
      s': "CheckIfDue hnd False s = Inr (False, s')" "hw_good s'" "mset (pending s') = mset (pending s)"
        "clock s' = clock s" "mstatus s' = mstatus s" "view_of s' = view_of s" by blast
    have "set (pending s') = set (pending s)" using s'(3) by (metis set_mset_mset)
    with early s'(4) have "due s' = 0" by (simp add: due_def filter_empty_conv)
    moreover have "waiting s' = waiting s" using s'(3,4) by (simp add: waiting_def mset_filter)
    moreover have "filter (is_due s) (pending s) = []" using early by (simp add: filter_empty_conv)
    ultimately show ?thesis using s'
      by (intro exI [of _ s'] exI [of _ "[]"]) simp
  next
    case idle
    then obtain p k where p: "mstatus s = IDLE_MODE" "pending s = [(p, k)]" "intType p = TIMER_INT"
      by (auto simp: idle_timer_def)
    have k: "0 \<le> k" "k < 2 ^ 31" using t p(2) by (simp_all add: timely_def times_ok_def)
    have "CheckIfDue hnd False s = Inr (False, s)"
      using Suc.prems(1) p by (simp add: CheckIfDue_def hw_good_def kl_SortedInsert_def key_when [OF k])
    moreover have "filter (is_due s) (pending s) = pending s" using idle(2) p(2) by simp
    ultimately show ?thesis using idle(1) Suc.prems(1)
      by (intro exI [of _ s] exI [of _ "[]"] exI [of _ "pending s"] exI [of _ "[]"]) simp
  next
    case fire
    then obtain q ps where q: "pending s = q # ps" by (cases "pending s") auto
    with sorted_head_due [OF t q] fire have "is_due s q" by blast
    from CheckIfDue_due [OF Suc.prems(1) fire(1) q this] obtain s1 new1 where
      s1: "CheckIfDue hnd False s = Inr (True, s1)" "hw_good s1" "mstatus s1 = mstatus s" "clock s1 = clock s"
        "view_of s1 = effect (handler_of q) (view_of s)" "map handler_of new1 = requests (handler_of q)"
        "filter (is_due s) (pending s) = q # filter (is_due s) (pending s1)" "waiting s1 = waiting s + mset new1" by blast
    have "due s1 < fuel" using s1(4,7) Suc.prems(2) by (simp add: due_def)
    from Suc.IH [OF s1(2) this] obtain s' fired left new where
      s': "fire_due hnd fuel s1 = Inr s'" "hw_good s'" "mstatus s' = mstatus s1" "clock s' = clock s1"
      "filter (is_due s) (pending s1) = fired @ left" "left = [] \<and> due s' = 0 \<or> idle_timer s' \<and> pending s' = left"
      "view_of s' = fold (\<lambda>q. effect (handler_of q)) fired (view_of s1)" "waiting s' = waiting s1 + mset new"
      "map handler_of new = concat (map (\<lambda>q. requests (handler_of q)) fired)" unfolding s1(4) by blast
    have "filter (is_due s) (pending s) = (q # fired) @ left" unfolding s1(7) s'(5) by simp
    moreover have "view_of s' = fold (\<lambda>q. effect (handler_of q)) (q # fired) (view_of s)" unfolding s'(7) s1(5) by simp
    moreover have "waiting s' = waiting s + mset (new1 @ new)" unfolding s'(8) s1(8) by simp
    moreover have "map handler_of (new1 @ new) = concat (map (\<lambda>q. requests (handler_of q)) (q # fired))"
      using s1(6) s'(9) by simp
    moreover have "fire_due hnd (Suc fuel) s = Inr s'" using s1(1) s'(1) by simp
    ultimately show ?thesis using s'(2-4,6) s1(3,4) by metis
  qed
qed simp

lemma OneTick_ok:
  assumes "timely (advance s)" "good (rest s)" "machine_good s" "mstatus s \<noteq> IDLE_MODE" "due (advance s) < fuel"
  shows "\<exists>s1 new. OneTick hnd yield fuel s = (if yieldOnReturn s1
        then rbind (yield (s1\<lparr>yieldOnReturn := False, mstatus := SYSTEM_MODE\<rparr>)) (\<lambda>s3. Inr (s3\<lparr>mstatus := mstatus s\<rparr>))
        else Inr s1)
    \<and> level s1 = INT_ON \<and> timely s1 \<and> clock s1 = clock (advance s)
    \<and> view_of s1 = fold (\<lambda>q. effect (handler_of q)) (filter (is_due (advance s)) (pending s)) (view_of s)
    \<and> due s1 = 0 \<and> mset (pending s1) = waiting (advance s) + mset new
    \<and> map handler_of new = concat (map (\<lambda>q. requests (handler_of q)) (filter (is_due (advance s)) (pending s)))"
proof -
  let ?s = "ChangeLevel INT_OFF (advance s)"
  have a: "rest (advance s) = rest s" "machine (advance s) = machine s" "mstatus (advance s) = mstatus s"
    "pending (advance s) = pending s" "view_of (advance s) = view_of s"
    by (simp_all add: advance_def Let_def view_of_def)
  have "hw_good ?s" using assms(1-3) a by (simp add: hw_good_def ChangeLevel_def timely_def clock_def machine_good_def)
  moreover have d: "due ?s = due (advance s)" "waiting ?s = waiting (advance s)" "clock ?s = clock (advance s)"
    "pending ?s = pending s" "view_of ?s = view_of s" "mstatus ?s = mstatus s"
    using a by (simp_all add: ChangeLevel_def due_def waiting_def clock_def view_of_def)
  ultimately obtain s' fired left new where s': "fire_due hnd fuel ?s = Inr s'" "hw_good s'" "mstatus s' = mstatus s"
    "clock s' = clock (advance s)" "filter (is_due (advance s)) (pending s) = fired @ left"
    "left = [] \<and> due s' = 0 \<or> idle_timer s' \<and> pending s' = left"
    "view_of s' = fold (\<lambda>q. effect (handler_of q)) fired (view_of s)" "waiting s' = waiting (advance s) + mset new"
    "map handler_of new = concat (map (\<lambda>q. requests (handler_of q)) fired)"
    using fire_due_ends [of ?s fuel] assms(5) unfolding d by auto
  let ?s1 = "ChangeLevel INT_ON s'"
  have l: "left = []" "due s' = 0" using s'(3,6) assms(4) by (auto simp: idle_timer_def)
  then have "\<forall>q \<in> set (pending s'). \<not> is_due s' q" by (simp add: due_def filter_empty_conv)
  then have "mset (pending s') = waiting s'" by (simp add: waiting_def)
  moreover have "due ?s1 = 0" "clock ?s1 = clock s'" "timely ?s1" "pending ?s1 = pending s'" "view_of ?s1 = view_of s'"
    using l(2) s'(2) by (simp_all add: ChangeLevel_def due_def clock_def hw_good_def timely_def view_of_def)
  ultimately show ?thesis using s' l(1)
    by (intro exI [of _ ?s1] exI [of _ new]) (simp add: OneTick_def Let_def ChangeLevel_def)
qed

text \<open>An idle machine moves the clock to the earliest interrupt and fires it and what is due with it.\<close>

lemma Idle_ok:
  assumes "timely s" "good (rest s)" "machine_good s" "level s = INT_OFF" "pending s = q # ps"
    and "ps \<noteq> [] \<or> intType (fst q) \<noteq> TIMER_INT" "max (clock s) (nat (snd q)) + MAX_DELAY < 2 ^ 31" "length (pending s) < fuel"
  shows "\<exists>s' fired left new. Idle hnd fuel False s = Inr (True, s') \<and> clock s' = max (clock s) (nat (snd q)) \<and> timely s'
    \<and> level s' = INT_OFF \<and> mstatus s' = SYSTEM_MODE
    \<and> filter (is_due s') ps = fired @ left
    \<and> (left = [] \<and> due s' = 0 \<or> pending s' = left \<and> length left = 1 \<and> intType (fst (hd left)) = TIMER_INT)
    \<and> view_of s' = (fold (\<lambda>q. effect (handler_of q)) (q # fired) (view_of s))\<lparr>wantsYield := False\<rparr>
    \<and> waiting s' = mset (filter (\<lambda>p. \<not> is_due s' p) ps) + mset new
    \<and> map handler_of new = concat (map (\<lambda>q. requests (handler_of q)) (q # fired))"
proof -
  obtain p k where q: "q = (p, k)" by (cases q)
  have t: "times_ok ((p, k) # ps)" using assms(1,5) q by (simp add: timely_def)
  then have k: "0 \<le> k" "k < 2 ^ 31" by (simp_all add: times_ok_def)
  have w: "unat (ucast (when_of k) :: ticks) = nat k" using unat_when [OF k] by simp
  let ?e = "ucast (when_of k) > totalTicks (stats s)" and ?st = "stats s"
  let ?s = "(if ?e then s\<lparr>mstatus := IDLE_MODE, pending := ps, stats := ?st\<lparr>idleTicks := idleTicks ?st
      + (ucast (when_of k) - totalTicks ?st), totalTicks := ucast (when_of k)\<rparr>\<rparr> else s\<lparr>mstatus := IDLE_MODE, pending := ps\<rparr>)"
  have e: "?e = (int (clock s) < k)" using early_iff [OF k] by (simp add: clock_def)
  have "clock ?s = (if ?e then nat k else clock s)" using w by (simp add: clock_def)
  also have "\<dots> = max (clock s) (nat k)" unfolding e using k(1) by auto
  finally have c: "clock ?s = max (clock s) (nat k)" .
  have v: "view_of ?s = view_of s" "pending ?s = ps" by (simp_all add: view_of_def)
  have g: "hw_good ?s"
    using assms(1-4,7) times_ok_tl [OF t] c q by (auto simp: hw_good_def timely_def machine_good_def)
  from run_handler_ok [OF g, of "handler p"] obtain s1 new1 where
    r: "run_handler hnd (handler p) ?s = Inr s1" "hw_good s1" "mstatus s1 = IDLE_MODE" "clock s1 = clock ?s"
      "view_of s1 = effect (handler p) (view_of s)" "mset (pending s1) = mset ps + mset new1"
      "map handler_of new1 = requests (handler p)" "filter (is_due s1) (pending s1) = filter (is_due s1) ps"
      "\<forall>q \<in> set new1. \<not> is_due s1 q" unfolding v by auto
  have ch: "CheckIfDue hnd True (s\<lparr>mstatus := IDLE_MODE\<rparr>) = Inr (True, s1)"
    using assms(4-6) q r(1) by (auto simp: CheckIfDue_def Let_def)
  have "due s1 \<le> length ps" unfolding due_def r(8) by (rule length_filter_le)
  then have "due s1 < fuel" using assms(5,8) by simp
  from fire_due_ends [OF r(2) this] obtain s' fired left new where
    s': "fire_due hnd fuel s1 = Inr s'" "hw_good s'" "clock s' = clock s1" "filter (is_due s1) ps = fired @ left"
      "left = [] \<and> due s' = 0 \<or> idle_timer s' \<and> pending s' = left"
      "view_of s' = fold (\<lambda>q. effect (handler_of q)) fired (view_of s1)" "waiting s' = waiting s1 + mset new"
      "map handler_of new = concat (map (\<lambda>q. requests (handler_of q)) fired)" unfolding r(8) by blast
  let ?r = "s'\<lparr>yieldOnReturn := False, mstatus := SYSTEM_MODE\<rparr>"
  have rr: "clock ?r = clock s1" "due ?r = due s'" "waiting ?r = waiting s'" "pending ?r = pending s'"
    using s'(3) by (simp_all add: clock_def due_def waiting_def)
  have "filter (\<lambda>q. \<not> is_due s1 q) new1 = new1" using r(9) by (simp add: filter_id_conv)
  then have "waiting s1 = mset (filter (\<lambda>p. \<not> is_due s1 p) ps) + mset new1"
    unfolding waiting_def using r(6) by (simp add: mset_filter) (simp flip: mset_filter)
  then have wt: "waiting ?r = mset (filter (\<lambda>p. \<not> is_due ?r p) ps) + mset (new1 @ new)" unfolding rr s'(7) by simp
  have idl: "Idle hnd fuel False s = Inr (True, ?r)" using ch s'(1) by (simp add: Idle_def)
  have ck: "clock ?r = max (clock s) (nat (snd q))" using rr(1) r(4) c q by simp
  have vw: "view_of ?r = (fold (\<lambda>q. effect (handler_of q)) (q # fired) (view_of s))\<lparr>wantsYield := False\<rparr>"
  proof -
    have "view_of ?r = (view_of s')\<lparr>wantsYield := False\<rparr>" by (simp add: view_of_def)
    then show ?thesis using s'(6) r(5) q by simp
  qed
  have dn: "left = [] \<and> due ?r = 0 \<or> pending ?r = left \<and> length left = 1 \<and> intType (fst (hd left)) = TIMER_INT"
    using s'(5) rr(2,4) by (auto simp: idle_timer_def)
  have rq: "map handler_of (new1 @ new) = concat (map (\<lambda>q. requests (handler_of q)) (q # fired))"
    using r(7) s'(8) q by simp
  have "timely ?r" "level ?r = INT_OFF" using s'(2) by (simp_all add: hw_good_def timely_def clock_def)
  moreover have "filter (is_due ?r) ps = fired @ left" unfolding rr by (rule s'(4))
  ultimately show ?thesis using idl ck vw dn rq wt
    by (intro exI [of _ ?r] exI [of _ fired] exI [of _ left] exI [of _ "new1 @ new"]) simp
qed

end

section \<open>The limits of the clock\<close>

text \<open>The time of a pending interrupt, as \<open>CheckIfDue\<close> reads it.\<close>

abbreviation time_of :: "'h PendingInterrupt \<times> int \<Rightarrow> nat" where
  "time_of q \<equiv> unat (when_of (snd q))"

lemma Restart_loop_fold:
  "Restart_loop now old new =
    fold (\<lambda>q. kl_SortedInsert (fst q) (snd q))
      (map (\<lambda>(p, k). (p, key_of (ucast (ucast (when_of k) - now :: ticks)))) old) new"
  by (induction now old new rule: Restart_loop.induct) simp_all

lemma fold_SortedInsert: "fold (\<lambda>q. kl_SortedInsert (fst q) (snd q)) ps [] = sort_key snd ps"
  using up.fold_place_sort [of ps] by (simp add: kl_SortedInsert_def)

lemma new_key:
  assumes "unat now \<le> unat w" "unat w - unat now < 2 ^ 31"
  shows "key_of (ucast (ucast (w :: u32) - now :: ticks)) = int (unat w - unat now)"
proof -
  have "now \<le> ucast w" using assms(1) by (simp add: word_le_nat_alt)
  then have d: "unat (ucast w - now :: ticks) = unat w - unat now" by (simp add: unat_sub)
  then have "unat (ucast (ucast w - now :: ticks) :: u32) = unat w - unat now"
    using assms(2) by (simp add: unsigned_ucast_eq take_bit_nat_eq_self)
  then show ?thesis using assms(2) key_small [of "ucast (ucast w - now :: ticks)"] by (simp del: of_nat_unat)
qed

text \<open>
  When the clock is about to leave the 32 bits of a time, \<open>RestartTicks\<close> sets it to zero and
  takes what it showed off every pending time: each interrupt is due after exactly the delay it
  had left, the list is sorted by that delay, with ties in the order of the old list, although
  the times above \<open>2 ^ 31\<close> had been sorted by their negative keys.
\<close>

theorem restart_keeps_delays:
  assumes "\<forall>q \<in> set (pending s). clock s \<le> time_of q \<and> time_of q - clock s < 2 ^ 31"
  shows "clock (RestartTicks s) = 0
    \<and> pending (RestartTicks s) = sort_key snd (map (\<lambda>q. (fst q, int (time_of q - clock s))) (pending s))
    \<and> mset (map (\<lambda>q. (fst q, time_of q - clock (RestartTicks s))) (pending (RestartTicks s)))
        = mset (map (\<lambda>q. (fst q, time_of q - clock s)) (pending s))"
proof -
  have m: "map (\<lambda>(p, k). (p, key_of (ucast (ucast (when_of k) - totalTicks (stats s) :: ticks)))) (pending s)
      = map (\<lambda>q. (fst q, int (time_of q - clock s))) (pending s)"
    using assms new_key [of "totalTicks (stats s)"] by (auto simp: clock_def)
  have "pending (RestartTicks s) = Restart_loop (totalTicks (stats s)) (pending s) []" by (simp add: RestartTicks_def)
  then have p: "pending (RestartTicks s) = sort_key snd (map (\<lambda>q. (fst q, int (time_of q - clock s))) (pending s))"
    unfolding Restart_loop_fold m fold_SortedInsert .
  have c: "clock (RestartTicks s) = 0" by (simp add: RestartTicks_def clock_def)
  have "unat (when_of (int (time_of q - clock s))) = time_of q - clock s" if "q \<in> set (pending s)" for q
    using assms that by (intro unat_when_nat) simp
  then have "image_mset (\<lambda>q. (fst q, unat (when_of (int (time_of q - clock s))))) (mset (pending s))
      = image_mset (\<lambda>q. (fst q, time_of q - clock s)) (mset (pending s))"
    by (intro image_mset_cong) simp
  then show ?thesis unfolding p c by (simp add: image_mset.compositionality comp_def)
qed

definition sample_hw :: "u32 list \<Rightarrow> ticks \<Rightarrow> (nat, unit) hw" where
  "sample_hw ts now = (Interrupt_new None ())\<lparr>stats := Statistics_new\<lparr>totalTicks := now\<rparr>,
     pending := map (\<lambda>t. (\<lparr>handler = 0, dueTime = ucast t, intType = DISK_INT\<rparr>, key_of t)) ts\<rparr>"

theorem restart_keeps_delays_witness:
  "map snd (pending (RestartTicks (sample_hw [0xFFFFFFF0, 0xFFFFFFA0] 0xFFFFFF9C))) = [4, 84]"
proof -
  let ?s = "sample_hw [0xFFFFFFF0, 0xFFFFFFA0] 0xFFFFFF9C"
  have c: "clock ?s = 0xFFFFFF9C" by (simp add: sample_hw_def clock_def)
  have p: "pending ?s = [(\<lparr>handler = 0, dueTime = 0xFFFFFFF0, intType = DISK_INT\<rparr>, key_of 0xFFFFFFF0),
      (\<lparr>handler = 0, dueTime = 0xFFFFFFA0, intType = DISK_INT\<rparr>, key_of 0xFFFFFFA0)]"
    by (simp add: sample_hw_def)
  have "\<forall>q \<in> set (pending ?s). clock ?s \<le> time_of q \<and> time_of q - clock ?s < 2 ^ 31"
    by (simp add: c p when_key)
  from restart_keeps_delays [OF this] show ?thesis by (simp add: c p when_key)
qed

text \<open>
  C35. The list is not kept in order across \<open>2 ^ 31\<close>. An interrupt requested for a time from
  \<open>2 ^ 31\<close> on goes to the head of the list, because its key is negative, and hides the others: until
  its own time comes \<open>CheckIfDue\<close> fires nothing, whatever else is due.
\<close>

theorem late_request_hides_others:
  assumes "times_ok (pending s)" "0 < unat d" "2 ^ 31 \<le> clock s + unat d" "clock s + unat d < 2 ^ 32"
  shows "\<exists>s'. Schedule h d ty s = Inr s' \<and> (\<forall>hnd t. unat t < clock s + unat d \<longrightarrow>
    (let s'' = s'\<lparr>level := INT_OFF, stats := (stats s')\<lparr>totalTicks := t\<rparr>\<rparr> in CheckIfDue hnd False s'' = Inr (False, s'')))"
proof -
  let ?t = "totalTicks (stats s)" and ?w = "ucast (totalTicks (stats s) + d) :: u32"
  have c: "unat ?t = clock s" by (simp add: clock_def)
  have "unat (0xFFFFFFFF - ?t) = 0xFFFFFFFF - clock s" using assms(4) c by (subst unat_sub) (simp_all add: word_le_nat_alt)
  with assms(4) have nr: "\<not> 0xFFFFFFFF - ?t < d" by (simp add: word_less_nat_alt)
  have "unat (?t + d) = clock s + unat d" using assms(4) c by (simp add: unat_word_ariths)
  then have w: "unat ?w = clock s + unat d" using assms(4) by (simp add: unsigned_ucast_eq take_bit_nat_eq_self)
  moreover have "(clock s + unat d) div 2 ^ 31 = 1" using assms(3,4) by (intro div_nat_eqI) simp_all
  ultimately have "bit ?w 31" by (simp add: bit_iff_odd_drop_bit drop_bit_eq_div word_arith_nat_div)
  then have neg: "key_of ?w < 0" by (simp add: key_of_def not_le flip: bit_last_iff)
  let ?p = "\<lparr>handler = h, dueTime = ucast ?w, intType = ty\<rparr>"
  have head: "kl_SortedInsert ?p (key_of ?w) (pending s) = (?p, key_of ?w) # pending s"
    using assms(1) neg by (cases "pending s") (fastforce simp: kl_SortedInsert_def times_ok_def)+
  have "d > 0" using assms(2) by (simp add: word_less_nat_alt)
  then have "Schedule h d ty s = Inr (s\<lparr>pending := (?p, key_of ?w) # pending s\<rparr>)"
    using nr by (simp add: Schedule_def Let_def head)
  moreover have "ucast ?w > t" if "unat t < clock s + unat d" for t :: ticks using that w by (simp add: word_less_nat_alt)
  ultimately show ?thesis by (auto simp: CheckIfDue_def Let_def when_key head)
qed

theorem late_request_hides_others_witness:
  "\<exists>s'. Schedule 1 100 DISK_INT (sample_hw [0x7FFFFFF0] 0x7FFFFFE0) = Inr s'
    \<and> (let s'' = s'\<lparr>level := INT_OFF, stats := (stats s')\<lparr>totalTicks := 0x7FFFFFF8\<rparr>\<rparr>
       in CheckIfDue (\<lambda>h. Inr) False s'' = Inr (False, s''))"
proof -
  let ?s = "sample_hw [0x7FFFFFF0] 0x7FFFFFE0"
  have c: "clock ?s = 0x7FFFFFE0" by (simp add: sample_hw_def clock_def)
  have "key_of 0x7FFFFFF0 = int (unat (0x7FFFFFF0 :: u32))" by (rule key_small) simp
  then have "times_ok (pending ?s)" by (simp add: sample_hw_def times_ok_def)
  from late_request_hides_others [OF this, of 100 1 DISK_INT] c obtain s' where
    s': "Schedule 1 100 DISK_INT ?s = Inr s'" "\<forall>hnd t. unat t < 0x80000044 \<longrightarrow>
      (let s'' = s'\<lparr>level := INT_OFF, stats := (stats s')\<lparr>totalTicks := t\<rparr>\<rparr> in CheckIfDue hnd False s'' = Inr (False, s''))"
    by auto
  from s'(2) [rule_format, of "0x7FFFFFF8" "\<lambda>h. Inr"] s'(1) show ?thesis by auto
qed

end
