(* ===== verification/Devices.thy ===== *)
theory Devices
  imports Interrupt
begin

text \<open>
  The devices that ask for interrupts and what their handlers do: the timer of \<open>machine/timer.cc\<close>
  with the kernel's \<open>TimerInterruptHandler\<close>, and the console of \<open>machine/console.cc\<close> with the
  synchronous interface of \<open>machine/synch_console.cc\<close> over it.
\<close>

section \<open>State\<close>

datatype device = TimerHandler | ConsoleReadPoll | ConsoleWriteDone

text \<open>
  The host's \<open>rand\<close> is a sequence of numbers, of which \<open>drawn\<close> have been used.
\<close>

record Timer =
  randomize :: bool
  randomNumbers :: "nat \<Rightarrow> nat"
  drawn :: nat

text \<open>
  The keyboard is the sequence of what the polls of the host find, a character or nothing; the
  display is what has been written. \<open>EOF\<close> in a \<open>char\<close> is the byte 255.
\<close>

definition EOF_CHAR :: byte where "EOF_CHAR = 0xFF"

record Console =
  keyboard :: "byte option list"
  display :: "byte list"
  putBusy :: bool
  incoming :: byte

text \<open>The semaphores and locks of the synchronous console, seen by the thread that uses it.\<close>

record SynchConsole =
  console :: Console
  readAvail :: nat
  writeDone :: nat
  lockRead :: "nat option"
  lockWrite :: "nat option"

record devices =
  timer :: Timer
  consoleSys :: SynchConsole

type_synonym machine_state = "(device, devices) hw"

definition set_console :: "machine_state \<Rightarrow> SynchConsole \<Rightarrow> machine_state" where
  "set_console s c = s\<lparr>rest := (rest s)\<lparr>consoleSys := c\<rparr>\<rparr>"

abbreviation synch :: "machine_state \<Rightarrow> SynchConsole" where
  "synch s \<equiv> consoleSys (rest s)"

section \<open>The timer\<close>

definition TimeOfNextInterrupt :: "machine_state \<Rightarrow> ticks \<times> machine_state" where
  "TimeOfNextInterrupt s = (let t = timer (rest s) in
     if randomize t
     then (of_nat (1 + randomNumbers t (drawn t) mod unat (TIMER_TICKS * 2)),
           s\<lparr>rest := (rest s)\<lparr>timer := t\<lparr>drawn := drawn t + 1\<rparr>\<rparr>\<rparr>)
     else (TIMER_TICKS, s))"

definition schedule_timer :: "machine_state \<Rightarrow> machine_state res" where
  "schedule_timer s = (let (d, s1) = TimeOfNextInterrupt s in Schedule TimerHandler d TIMER_INT s1)"

definition Timer_new :: "(nat \<Rightarrow> nat) \<Rightarrow> bool \<Rightarrow> machine_state \<Rightarrow> machine_state res" where
  "Timer_new rnd doRandom s =
     schedule_timer (s\<lparr>rest := (rest s)\<lparr>timer := \<lparr>randomize = doRandom, randomNumbers = rnd, drawn = 0\<rparr>\<rparr>\<rparr>)"

definition TimerInterruptHandler :: "machine_state \<Rightarrow> machine_state" where
  "TimerInterruptHandler s = (if mstatus s \<noteq> IDLE_MODE then YieldOnReturn s else s)"

definition TimerExpired :: "machine_state \<Rightarrow> machine_state res" where
  "TimerExpired s = rbind (schedule_timer s) (\<lambda>s1. Inr (TimerInterruptHandler s1))"

section \<open>The console\<close>

definition Console_new :: "byte option list \<Rightarrow> Console" where
  "Console_new kb = \<lparr>keyboard = kb, display = [], putBusy = False, incoming = EOF_CHAR\<rparr>"

definition SynchConsole_new :: "byte option list \<Rightarrow> machine_state \<Rightarrow> machine_state res" where
  "SynchConsole_new kb s =
     Schedule ConsoleReadPoll CONSOLE_TIME CONSOLE_READ_INT
       (set_console s \<lparr>console = Console_new kb, readAvail = 0, writeDone = 0, lockRead = None, lockWrite = None\<rparr>)"

definition ReadAvailSynch :: "machine_state \<Rightarrow> machine_state" where
  "ReadAvailSynch s = set_console s ((synch s)\<lparr>readAvail := readAvail (synch s) + 1\<rparr>)"

definition WriteDoneSynch :: "machine_state \<Rightarrow> machine_state" where
  "WriteDoneSynch s = set_console s ((synch s)\<lparr>writeDone := writeDone (synch s) + 1\<rparr>)"

text \<open>The poll of the host happens only when the buffer is free.\<close>

definition CheckCharAvail :: "machine_state \<Rightarrow> machine_state res" where
  "CheckCharAvail s =
     rbind (Schedule ConsoleReadPoll CONSOLE_TIME CONSOLE_READ_INT s) (\<lambda>s1.
       let sc = synch s1; c = console sc in
       if incoming c \<noteq> EOF_CHAR then Inr s1
       else case keyboard c of
         [] \<Rightarrow> Inr s1
       | None # ks \<Rightarrow> Inr (set_console s1 (sc\<lparr>console := c\<lparr>keyboard := ks\<rparr>\<rparr>))
       | Some ch # ks \<Rightarrow>
           let s2 = set_console s1 (sc\<lparr>console := c\<lparr>keyboard := ks, incoming := ch\<rparr>\<rparr>)
           in Inr (ReadAvailSynch (s2\<lparr>stats := (stats s2)\<lparr>numConsoleCharsRead := numConsoleCharsRead (stats s2) + 1\<rparr>\<rparr>)))"

definition Console_WriteDone :: "machine_state \<Rightarrow> machine_state" where
  "Console_WriteDone s = (let sc = synch s;
     s1 = set_console s (sc\<lparr>console := (console sc)\<lparr>putBusy := False\<rparr>\<rparr>)
     in WriteDoneSynch (s1\<lparr>stats := (stats s1)\<lparr>numConsoleCharsWritten := numConsoleCharsWritten (stats s1) + 1\<rparr>\<rparr>))"

definition GetChar :: "machine_state \<Rightarrow> byte \<times> machine_state" where
  "GetChar s = (let sc = synch s; c = console sc in
     (incoming c, set_console s (sc\<lparr>console := c\<lparr>incoming := EOF_CHAR\<rparr>\<rparr>)))"

definition PutChar :: "byte \<Rightarrow> machine_state \<Rightarrow> machine_state res" where
  "PutChar ch s = (let sc = synch s; c = console sc in
     rbind (rassert (\<not> putBusy c)) (\<lambda>_.
       Schedule ConsoleWriteDone CONSOLE_TIME CONSOLE_WRITE_INT
         (set_console s (sc\<lparr>console := c\<lparr>display := display c @ [ch], putBusy := True\<rparr>\<rparr>))))"

text \<open>What the handler of a device does.\<close>

definition device_code :: "(device, devices) handler_code" where
  "device_code d s = (case d of
     TimerHandler \<Rightarrow> TimerExpired s | ConsoleReadPoll \<Rightarrow> CheckCharAvail s | ConsoleWriteDone \<Rightarrow> Inr (Console_WriteDone s))"

section \<open>The synchronous console\<close>

text \<open>
  The synchronous console as one thread uses it, with the locks free. \<open>Semaphore::P\<close> and \<open>V\<close> run with
  interrupts off and restore the level, which ticks the clock when they were on; \<open>yield\<close> is
  \<open>Thread::Yield\<close>.
\<close>

type_synonym yield_code = "machine_state \<Rightarrow> machine_state res"

definition ints_off :: "yield_code \<Rightarrow> (machine_state \<Rightarrow> ('a \<times> machine_state) res) \<Rightarrow> machine_state \<Rightarrow> ('a \<times> machine_state) res" where
  "ints_off yield body s =
     rbind (SetLevel device_code yield 0 INT_OFF s) (\<lambda>(old, s1).
     rbind (body s1) (\<lambda>(r, s2).
     rbind (SetLevel device_code yield (Suc (length (pending s2))) old s2) (\<lambda>(lv, s3). Inr (r, s3))))"

text \<open>
  \<open>P\<close> on a semaphore of the console, when there is no other thread to run: \<open>Sleep\<close> calls \<open>Idle\<close>
  until an interrupt has woken the thread. False when the machine halts instead. One call of
  \<open>Idle\<close> uses one unit of \<open>fuel\<close>.
\<close>

fun wait_sem :: "(SynchConsole \<Rightarrow> nat) \<Rightarrow> nat \<Rightarrow> machine_state \<Rightarrow> (bool \<times> machine_state) res" where
  "wait_sem sem 0 s = Inl Diverges"
| "wait_sem sem (Suc fuel) s =
     (if 0 < sem (synch s) then Inr (True, s)
      else rbind (Idle device_code (Suc (length (pending s))) False s) (\<lambda>(running, s1).
        if running then wait_sem sem fuel s1 else Inr (False, s1)))"

definition readAvail_P :: "yield_code \<Rightarrow> nat \<Rightarrow> machine_state \<Rightarrow> (bool \<times> machine_state) res" where
  "readAvail_P yield fuel = ints_off yield (\<lambda>s.
     rbind (wait_sem readAvail fuel s) (\<lambda>(running, s1).
       Inr (running, if running then set_console s1 ((synch s1)\<lparr>readAvail := readAvail (synch s1) - 1\<rparr>) else s1)))"

definition writeDone_P :: "yield_code \<Rightarrow> nat \<Rightarrow> machine_state \<Rightarrow> (bool \<times> machine_state) res" where
  "writeDone_P yield fuel = ints_off yield (\<lambda>s.
     rbind (wait_sem writeDone fuel s) (\<lambda>(running, s1).
       Inr (running, if running then set_console s1 ((synch s1)\<lparr>writeDone := writeDone (synch s1) - 1\<rparr>) else s1)))"

definition lockRead_set :: "yield_code \<Rightarrow> nat option \<Rightarrow> machine_state \<Rightarrow> (unit \<times> machine_state) res" where
  "lockRead_set yield owner = ints_off yield (\<lambda>s. Inr ((), set_console s ((synch s)\<lparr>lockRead := owner\<rparr>)))"

definition lockWrite_set :: "yield_code \<Rightarrow> nat option \<Rightarrow> machine_state \<Rightarrow> (unit \<times> machine_state) res" where
  "lockWrite_set yield owner = ints_off yield (\<lambda>s. Inr ((), set_console s ((synch s)\<lparr>lockWrite := owner\<rparr>)))"

definition ReadConsole :: "yield_code \<Rightarrow> nat \<Rightarrow> nat \<Rightarrow> machine_state \<Rightarrow> (byte option \<times> machine_state) res" where
  "ReadConsole yield me fuel s =
     rbind (rassert (lockRead (synch s) \<noteq> Some me)) (\<lambda>_.
     rbind (rcheck WouldBlock (lockRead (synch s) = None)) (\<lambda>_.
     rbind (lockRead_set yield (Some me) s) (\<lambda>(u, s1).
     rbind (readAvail_P yield fuel s1) (\<lambda>(running, s2).
       if \<not> running then Inr (None, s2)
       else let (ch, s3) = GetChar s2 in
            rbind (lockRead_set yield None s3) (\<lambda>(v, s4). Inr (Some ch, s4))))))"

definition WriteConsole :: "yield_code \<Rightarrow> nat \<Rightarrow> nat \<Rightarrow> byte \<Rightarrow> machine_state \<Rightarrow> (bool \<times> machine_state) res" where
  "WriteConsole yield me fuel ch s =
     rbind (rassert (lockWrite (synch s) \<noteq> Some me)) (\<lambda>_.
     rbind (rcheck WouldBlock (lockWrite (synch s) = None)) (\<lambda>_.
     rbind (lockWrite_set yield (Some me) s) (\<lambda>(u, s1).
     rbind (PutChar ch s1) (\<lambda>s2.
     rbind (writeDone_P yield fuel s2) (\<lambda>(running, s3).
       if \<not> running then Inr (False, s3)
       else rbind (lockWrite_set yield None s3) (\<lambda>(v, s4). Inr (True, s4)))))))"

section \<open>The handlers keep the hardware's contract\<close>

lemma clock_pending [simp]: "clock (s\<lparr>pending := ps\<rparr>) = clock s"
  by (simp add: clock_def)

lemma filter_SortedInsert: "\<not> P (x, k) \<Longrightarrow> filter P (kl_SortedInsert x k xs) = filter P xs"
  unfolding kl_SortedInsert_def by (induction xs) auto

lemma schedule_timer_ok:
  assumes "timely s"
  shows "\<exists>s' p k. schedule_timer s = Inr s' \<and> timely s' \<and> level s' = level s \<and> machine s' = machine s \<and> mstatus s' = mstatus s
    \<and> clock s' = clock s \<and> pending s' = kl_SortedInsert p k (pending s) \<and> int (clock s) < k
    \<and> handler p = TimerHandler \<and> rest s' = (rest s)\<lparr>timer := timer (rest s')\<rparr> \<and> stats s' = stats s
    \<and> timer (rest s') = (if randomize (timer (rest s)) then (timer (rest s))\<lparr>drawn := drawn (timer (rest s)) + 1\<rparr> else timer (rest s))"
proof -
  obtain d s1 where d: "TimeOfNextInterrupt s = (d, s1)" by (cases "TimeOfNextInterrupt s")
  have m: "unat (TIMER_TICKS * 2) = 200" by (simp add: TIMER_TICKS_def)
  define r where "r = randomNumbers (timer (rest s)) (drawn (timer (rest s))) mod 200"
  have "r < 200" by (simp add: r_def)
  moreover have "unat (of_nat n :: ticks) = n" if "n \<le> 200" for n using that by (simp add: unat_of_nat)
  ultimately have "unat (of_nat (1 + r) :: ticks) = 1 + r" by (metis Suc_leI plus_1_eq_Suc)
  moreover have d': "d = (if randomize (timer (rest s)) then of_nat (1 + r) else TIMER_TICKS)"
    using d by (auto simp: TimeOfNextInterrupt_def Let_def m r_def split: if_splits)
  ultimately have b: "0 < unat d" "unat d \<le> MAX_DELAY" using \<open>r < 200\<close> by (auto simp: MAX_DELAY_def TIMER_TICKS_def)
  have s1: "pending s1 = pending s" "stats s1 = stats s" "level s1 = level s" "machine s1 = machine s"
    "mstatus s1 = mstatus s" "rest s1 = (rest s)\<lparr>timer := timer (rest s1)\<rparr>"
    "timer (rest s1) = (if randomize (timer (rest s)) then (timer (rest s))\<lparr>drawn := drawn (timer (rest s)) + 1\<rparr> else timer (rest s))"
    using d by (auto simp: TimeOfNextInterrupt_def Let_def split: if_splits)
  then have "timely s1" "clock s1 = clock s" using assms by (simp_all add: timely_def clock_def)
  with Schedule_ok [OF _ b, of s1 TimerHandler TIMER_INT] obtain s' p where
    "Schedule TimerHandler d TIMER_INT s1 = Inr s'" "handler p = TimerHandler"
    "s' = s1\<lparr>pending := kl_SortedInsert p (int (clock s + unat d)) (pending s)\<rparr>" "timely s'"
    using s1(1) by auto
  moreover have "int (clock s) < int (clock s + unat d)" using b(1) by linarith
  ultimately show ?thesis using s1 d \<open>clock s1 = clock s\<close>
    by (intro exI [of _ s'] exI [of _ p] exI [of _ "int (clock s + unat d)"]) (simp add: schedule_timer_def)
qed

text \<open>
  What the interrupt of a device means to the rest of the system. The timer asks the thread to
  yield; a poll takes a key that is waiting when the last one was fetched, and wakes a reader; the
  end of a write frees the display and wakes the writer.
\<close>

definition timer_fires :: "devices hw_view \<Rightarrow> devices hw_view" where
  "timer_fires v = (let d = devicesOf v; t = timer d in
     v\<lparr>wantsYield := True, devicesOf := d\<lparr>timer := (if randomize t then t\<lparr>drawn := drawn t + 1\<rparr> else t)\<rparr>\<rparr>)"

definition poll_takes_key :: "devices hw_view \<Rightarrow> devices hw_view" where
  "poll_takes_key v = (let d = devicesOf v; sc = consoleSys d; c = console sc in
     if incoming c = EOF_CHAR \<and> keyboard c \<noteq> []
     then (case hd (keyboard c) of
         None \<Rightarrow> v\<lparr>devicesOf := d\<lparr>consoleSys := sc\<lparr>console := c\<lparr>keyboard := tl (keyboard c)\<rparr>\<rparr>\<rparr>\<rparr>
       | Some ch \<Rightarrow> v\<lparr>devicesOf := d\<lparr>consoleSys := sc\<lparr>console := c\<lparr>keyboard := tl (keyboard c), incoming := ch\<rparr>,
             readAvail := readAvail sc + 1\<rparr>\<rparr>, charsRead := charsRead v + 1\<rparr>)
     else v)"

definition write_finishes :: "devices hw_view \<Rightarrow> devices hw_view" where
  "write_finishes v = (let d = devicesOf v; sc = consoleSys d in
     v\<lparr>devicesOf := d\<lparr>consoleSys := sc\<lparr>console := (console sc)\<lparr>putBusy := False\<rparr>, writeDone := writeDone sc + 1\<rparr>\<rparr>,
       charsWritten := charsWritten v + 1\<rparr>)"

fun device_effect :: "device \<Rightarrow> devices hw_view \<Rightarrow> devices hw_view" where
  "device_effect TimerHandler = timer_fires"
| "device_effect ConsoleReadPoll = poll_takes_key"
| "device_effect ConsoleWriteDone = write_finishes"

text \<open>The timer and the poll ask for their next interrupt.\<close>

fun device_requests :: "device \<Rightarrow> device list" where
  "device_requests TimerHandler = [TimerHandler]"
| "device_requests ConsoleReadPoll = [ConsoleReadPoll]"
| "device_requests ConsoleWriteDone = []"

lemmas effect_defs = timer_fires_def poll_takes_key_def write_finishes_def view_of_def

lemma CheckCharAvail_ok:
  assumes "timely s"
  shows "\<exists>s' p k. CheckCharAvail s = Inr s' \<and> timely s' \<and> level s' = level s \<and> machine s' = machine s
    \<and> clock s' = clock s \<and> pending s' = kl_SortedInsert p k (pending s) \<and> int (clock s) < k
    \<and> handler p = ConsoleReadPoll \<and> view_of s' = poll_takes_key (view_of s)"
proof -
  have "0 < unat CONSOLE_TIME" "unat CONSOLE_TIME \<le> MAX_DELAY" by (simp_all add: CONSOLE_TIME_def MAX_DELAY_def)
  from Schedule_ok [OF assms this, of ConsoleReadPoll CONSOLE_READ_INT] obtain s1 p where
    s1: "Schedule ConsoleReadPoll CONSOLE_TIME CONSOLE_READ_INT s = Inr s1" "handler p = ConsoleReadPoll"
      "s1 = s\<lparr>pending := kl_SortedInsert p (int (clock s + unat CONSOLE_TIME)) (pending s)\<rparr>" "timely s1" by blast
  have "\<exists>s'. CheckCharAvail s = Inr s' \<and> pending s' = pending s1 \<and> level s' = level s \<and> machine s' = machine s
      \<and> totalTicks (stats s') = totalTicks (stats s) \<and> view_of s' = poll_takes_key (view_of s)"
    unfolding CheckCharAvail_def s1(1) using s1(3)
    by (auto simp: Let_def set_console_def ReadAvailSynch_def effect_defs split: list.split option.split)
  then obtain s' where s': "CheckCharAvail s = Inr s'" "pending s' = pending s1" "level s' = level s"
    "machine s' = machine s" "totalTicks (stats s') = totalTicks (stats s)" "view_of s' = poll_takes_key (view_of s)" by blast
  have "timely s'" using s1(3,4) s'(2,5) by (simp add: timely_def clock_def)
  moreover have "int (clock s) < int (clock s + unat CONSOLE_TIME)" by (simp add: CONSOLE_TIME_def)
  ultimately show ?thesis using s' s1(2,3)
    by (intro exI [of _ s'] exI [of _ p] exI [of _ "int (clock s + unat CONSOLE_TIME)"]) (simp add: clock_def)
qed

interpretation dev: device_handlers device_code "\<lambda>_. True" device_effect device_requests
proof
  fix s :: machine_state and h
  assume t: "timely s" and l: "level s = INT_OFF" and sys: "mstatus s = SYSTEM_MODE"
  have one: "\<exists>s' new. X = Inr s' \<and> True \<and> level s' = INT_OFF \<and> machine s' = machine s \<and> clock s' = clock s \<and> timely s'
      \<and> view_of s' = device_effect h (view_of s)
      \<and> mset (pending s') = mset (pending s) + mset new \<and> map handler_of new = device_requests h
      \<and> filter (is_due s) (pending s') = filter (is_due s) (pending s) \<and> (\<forall>q \<in> set new. \<not> is_due s q)"
    if "X = Inr s'" "timely s'" "level s' = level s" "machine s' = machine s" "clock s' = clock s"
      "view_of s' = device_effect h (view_of s)" "device_requests h = [handler p]"
      "pending s' = kl_SortedInsert p k (pending s)" "int (clock s) < k" for X :: "machine_state res" and s' p k
    using that l filter_SortedInsert [of "is_due s" p k "pending s"]
    by (intro exI [of _ s'] exI [of _ "[(p, k)]"]) simp
  show "\<exists>s' new. device_code h s = Inr s' \<and> True \<and> level s' = INT_OFF \<and> machine s' = machine s \<and> clock s' = clock s
      \<and> timely s' \<and> view_of s' = device_effect h (view_of s)
      \<and> mset (pending s') = mset (pending s) + mset new \<and> map handler_of new = device_requests h
      \<and> filter (is_due s) (pending s') = filter (is_due s) (pending s) \<and> (\<forall>q \<in> set new. \<not> is_due s q)"
  proof (cases h)
    case TimerHandler
    from schedule_timer_ok [OF t] obtain s1 p k where
      s1: "schedule_timer s = Inr s1" "timely s1" "level s1 = level s" "machine s1 = machine s" "clock s1 = clock s"
        "pending s1 = kl_SortedInsert p k (pending s)" "int (clock s) < k" "handler p = TimerHandler"
        "mstatus s1 = SYSTEM_MODE" "stats s1 = stats s" "rest s1 = (rest s)\<lparr>timer := timer (rest s1)\<rparr>"
        "timer (rest s1) = (if randomize (timer (rest s)) then (timer (rest s))\<lparr>drawn := drawn (timer (rest s)) + 1\<rparr> else timer (rest s))"
      unfolding sys by blast
    have th: "TimerInterruptHandler s1 = s1\<lparr>yieldOnReturn := True\<rparr>"
      using s1(9) by (simp add: TimerInterruptHandler_def YieldOnReturn_def)
    note rs = s1(11) [unfolded s1(12)]
    have "view_of (s1\<lparr>yieldOnReturn := True\<rparr>) = timer_fires (view_of s)"
      using s1(10) by (simp add: effect_defs Let_def rs)
    moreover have "timely (s1\<lparr>yieldOnReturn := True\<rparr>)" "clock (s1\<lparr>yieldOnReturn := True\<rparr>) = clock s1"
      using s1(2) by (simp_all add: timely_def clock_def)
    ultimately show ?thesis using TimerHandler s1 th
      by (intro one [where s' = "s1\<lparr>yieldOnReturn := True\<rparr>" and p = p and k = k]) (simp_all add: device_code_def TimerExpired_def)
  next
    case ConsoleReadPoll
    from CheckCharAvail_ok [OF t] obtain s1 p k where
      "CheckCharAvail s = Inr s1" "timely s1" "level s1 = level s" "machine s1 = machine s" "clock s1 = clock s"
      "pending s1 = kl_SortedInsert p k (pending s)" "int (clock s) < k" "handler p = ConsoleReadPoll"
      "view_of s1 = poll_takes_key (view_of s)" by blast
    with ConsoleReadPoll show ?thesis
      by (intro one [where s' = s1 and p = p and k = k]) (simp_all add: device_code_def)
  next
    case ConsoleWriteDone
    have "timely (Console_WriteDone s)" "clock (Console_WriteDone s) = clock s"
      using t by (simp_all add: Console_WriteDone_def WriteDoneSynch_def set_console_def Let_def timely_def clock_def)
    with ConsoleWriteDone l show ?thesis
      by (intro exI [of _ "Console_WriteDone s"] exI [of _ "[]"])
        (simp add: device_code_def Console_WriteDone_def WriteDoneSynch_def set_console_def Let_def effect_defs)
  qed
qed

section \<open>Properties\<close>

text \<open>What a sequence of interrupts adds up to.\<close>

lemma effects_yield:
  "wantsYield (fold device_effect hs v) \<longleftrightarrow> wantsYield v \<or> TimerHandler \<in> set hs"
proof (induction hs arbitrary: v)
  case (Cons h hs)
  then show ?case by (cases h) (auto simp: effect_defs Let_def split: option.split)
qed simp

lemma effects_write:
  "writeDone (consoleSys (devicesOf (fold device_effect hs v))) = writeDone (consoleSys (devicesOf v)) + count_list hs ConsoleWriteDone"
  "putBusy (console (consoleSys (devicesOf (fold device_effect hs v)))) \<longleftrightarrow>
     putBusy (console (consoleSys (devicesOf v))) \<and> ConsoleWriteDone \<notin> set hs"
proof (induction hs arbitrary: v)
  case (Cons h hs)
  { case 1 from Cons(1) show ?case by (cases h) (auto simp: effect_defs Let_def split: option.split) }
  { case 2 from Cons(2) show ?case by (cases h) (auto simp: effect_defs Let_def split: option.split) }
qed simp_all

text \<open>The devices whose interrupts are due, in the order of the list of pending interrupts.\<close>

definition due_devices :: "machine_state \<Rightarrow> device list" where
  "due_devices s = map handler_of (filter (is_due s) (pending s))"

lemma fold_handlers: "fold (\<lambda>q. f (handler_of q)) qs = fold f (map handler_of qs)"
  by (simp add: fold_map comp_def)

text \<open>
  C36. A clock tick ends and serves every interrupt that is due. With the timer and the console as
  devices, the loop of \<open>OneTick\<close> returns after at most as many handler calls as there are interrupts
  due at the new time. The handlers of exactly these interrupts have run, once each and in the order
  of the list: the state of the devices is what their effects make of it in that order. In
  particular the thread yields exactly when it was asked to before or the timer was due, and each
  console write that was due has freed the display and raised its semaphore. Afterwards interrupts are on,
  nothing is due, the list is sorted, and it holds the interrupts that were not due and one new
  request for each timer interrupt and each poll served.
\<close>

theorem tick_fires_all_due:
  assumes "timely (advance s)" "machine_good s" "mstatus s \<noteq> IDLE_MODE" "due (advance s) < fuel"
  shows "\<exists>s1 new. OneTick device_code yield fuel s = (if yieldOnReturn s1
        then rbind (yield (s1\<lparr>yieldOnReturn := False, mstatus := SYSTEM_MODE\<rparr>)) (\<lambda>s3. Inr (s3\<lparr>mstatus := mstatus s\<rparr>))
        else Inr s1)
    \<and> level s1 = INT_ON \<and> timely s1 \<and> clock s1 = clock (advance s)
    \<and> view_of s1 = fold device_effect (due_devices (advance s)) (view_of s)
    \<and> (yieldOnReturn s1 \<longleftrightarrow> yieldOnReturn s \<or> TimerHandler \<in> set (due_devices (advance s)))
    \<and> writeDone (synch s1) = writeDone (synch s) + count_list (due_devices (advance s)) ConsoleWriteDone
    \<and> (putBusy (console (synch s1)) \<longleftrightarrow> putBusy (console (synch s)) \<and> ConsoleWriteDone \<notin> set (due_devices (advance s)))
    \<and> due s1 = 0 \<and> mset (pending s1) = waiting (advance s) + mset new
    \<and> map handler_of new = concat (map device_requests (due_devices (advance s)))"
proof -
  have a: "pending (advance s) = pending s" by (simp add: advance_def Let_def)
  from dev.OneTick_ok [OF assms(1) _ assms(2-4), of yield] obtain s1 new where
    s1: "OneTick device_code yield fuel s = (if yieldOnReturn s1
        then rbind (yield (s1\<lparr>yieldOnReturn := False, mstatus := SYSTEM_MODE\<rparr>)) (\<lambda>s3. Inr (s3\<lparr>mstatus := mstatus s\<rparr>))
        else Inr s1)" "level s1 = INT_ON" "timely s1" "clock s1 = clock (advance s)"
      "view_of s1 = fold device_effect (due_devices (advance s)) (view_of s)"
      "due s1 = 0" "mset (pending s1) = waiting (advance s) + mset new"
      "map handler_of new = concat (map device_requests (due_devices (advance s)))"
    by (auto simp: due_devices_def fold_handlers a comp_def)
  have "yieldOnReturn s1 = wantsYield (view_of s1)" "synch s1 = consoleSys (devicesOf (view_of s1))"
    "yieldOnReturn s = wantsYield (view_of s)" "synch s = consoleSys (devicesOf (view_of s))" by (simp_all add: view_of_def)
  with s1 effects_yield effects_write show ?thesis by (intro exI [of _ s1] exI [of _ new]) simp
qed

text \<open>
  C37. An idle machine makes progress. With interrupts off and an interrupt pending that is not the
  timer alone, \<open>Idle\<close> returns instead of halting, with the clock at the time of the earliest pending
  interrupt, or where it was if that was due already. The handler of this interrupt has run, and
  then the handlers of the others that are due at this time, in the order of the list, except that a
  timer interrupt that is the only one left stays pending; the request to yield is dropped.
  Pending are the later interrupts and the requests of the handlers.
\<close>

theorem idle_reaches_next:
  assumes "timely s" "machine_good s" "level s = INT_OFF" "pending s = q # ps"
    and "ps \<noteq> [] \<or> intType (fst q) \<noteq> TIMER_INT" "max (clock s) (nat (snd q)) + MAX_DELAY < 2 ^ 31" "length (pending s) < fuel"
  shows "\<exists>s' fired left new. Idle device_code fuel False s = Inr (True, s') \<and> clock s' = max (clock s) (nat (snd q)) \<and> timely s'
    \<and> level s' = INT_OFF \<and> mstatus s' = SYSTEM_MODE \<and> (\<forall>p \<in> set ps. snd q \<le> snd p)
    \<and> filter (is_due s') ps = fired @ left
    \<and> (left = [] \<and> due s' = 0 \<or> pending s' = left \<and> length left = 1 \<and> intType (fst (hd left)) = TIMER_INT)
    \<and> view_of s' = (fold device_effect (map handler_of (q # fired)) (view_of s))\<lparr>wantsYield := False\<rparr>
    \<and> waiting s' = mset (filter (\<lambda>p. \<not> is_due s' p) ps) + mset new
    \<and> map handler_of new = concat (map device_requests (map handler_of (q # fired)))"
proof -
  have "\<forall>p \<in> set ps. snd q \<le> snd p" using assms(1,4) by (simp add: timely_def times_ok_def)
  with dev.Idle_ok [OF assms(1) _ assms(2-7)] show ?thesis unfolding fold_handlers by (simp add: comp_def)
qed

text \<open>The machine after start-up: the timer and the console have asked for their first interrupts.\<close>

definition boot :: "byte option list \<Rightarrow> machine_state res" where
  "boot kb = rbind (Timer_new (\<lambda>_. 0) False (Interrupt_new None
       \<lparr>timer = \<lparr>randomize = False, randomNumbers = (\<lambda>_. 0), drawn = 0\<rparr>,
        consoleSys = \<lparr>console = Console_new [], readAvail = 0, writeDone = 0, lockRead = None, lockWrite = None\<rparr>\<rparr>))
     (SynchConsole_new kb)"

definition booted :: "byte option list \<Rightarrow> machine_state" where
  "booted kb = (Interrupt_new None
       \<lparr>timer = \<lparr>randomize = False, randomNumbers = (\<lambda>_. 0), drawn = 0\<rparr>,
        consoleSys = \<lparr>console = Console_new kb, readAvail = 0, writeDone = 0, lockRead = None, lockWrite = None\<rparr>\<rparr>)
     \<lparr>pending := [(\<lparr>handler = TimerHandler, dueTime = 100, intType = TIMER_INT\<rparr>, 100),
        (\<lparr>handler = ConsoleReadPoll, dueTime = 100, intType = CONSOLE_READ_INT\<rparr>, 100)]\<rparr>"

lemma boot_booted: "boot kb = Inr (booted kb)"
proof -
  have "key_of 100 = 100" using key_small [of 100] by simp
  then show ?thesis
    by (simp add: boot_def booted_def Timer_new_def schedule_timer_def TimeOfNextInterrupt_def Schedule_def Let_def
        Interrupt_new_def Statistics_new_def SynchConsole_new_def set_console_def TIMER_TICKS_def CONSOLE_TIME_def
        kl_SortedInsert_def)
qed

lemma booted_facts: "timely (booted kb)" "clock (booted kb) = 0" "machine_good (booted kb)" "level (booted kb) = INT_OFF"
  "timely (advance (booted kb))" "due (advance (booted kb)) = 0" "mstatus (booted kb) = SYSTEM_MODE"
  by (simp_all add: booted_def Interrupt_new_def Statistics_new_def timely_def times_ok_def clock_def MAX_DELAY_def
      machine_good_def advance_def Let_def SYSTEM_TICK_def due_def)

text \<open>
  A tick at which a console write ends while the timer interrupt is still to come, and the first
  idle time of the machine, in which the poll finds a key.
\<close>

definition writing :: machine_state where
  "writing = (booted [])\<lparr>pending := (\<lparr>handler = ConsoleWriteDone, dueTime = 5, intType = CONSOLE_WRITE_INT\<rparr>, 5) # pending (booted [])\<rparr>"

theorem tick_fires_all_due_witness:
  "\<exists>s1. OneTick device_code Inr 2 writing = Inr s1 \<and> writeDone (synch writing) = 0 \<and> writeDone (synch s1) = 1 \<and> clock s1 = 10"
proof -
  have w: "timely (advance writing)" "machine_good writing" "mstatus writing \<noteq> IDLE_MODE" "due (advance writing) < 2"
    "clock (advance writing) = 10" "yieldOnReturn writing = False" "writeDone (synch writing) = 0"
    "due_devices (advance writing) = [ConsoleWriteDone]"
    by (simp_all add: writing_def booted_def Interrupt_new_def Statistics_new_def timely_def times_ok_def clock_def MAX_DELAY_def
      machine_good_def advance_def Let_def SYSTEM_TICK_def due_def due_devices_def)
  from tick_fires_all_due [OF w(1-4), of Inr] obtain s1 where
    "OneTick device_code Inr 2 writing = (if yieldOnReturn s1
        then rbind (Inr (s1\<lparr>yieldOnReturn := False, mstatus := SYSTEM_MODE\<rparr>)) (\<lambda>s3. Inr (s3\<lparr>mstatus := mstatus writing\<rparr>))
        else Inr s1)" "clock s1 = 10" "\<not> yieldOnReturn s1" "writeDone (synch s1) = 1"
    unfolding w by auto
  then show ?thesis using w(7) by auto
qed

theorem idle_reaches_next_witness:
  "\<exists>s s'. boot [Some 65] = Inr s \<and> Idle device_code 3 False s = Inr (True, s') \<and> clock s' = 100
    \<and> incoming (console (synch s')) = 65 \<and> readAvail (synch s') = 1"
proof -
  let ?s = "booted [Some 65]"
  let ?t = "(\<lparr>handler = TimerHandler, dueTime = 100, intType = TIMER_INT\<rparr>, 100 :: int)"
  let ?r = "(\<lparr>handler = ConsoleReadPoll, dueTime = 100, intType = CONSOLE_READ_INT\<rparr>, 100 :: int)"
  have p: "pending ?s = [?t, ?r]" by (simp add: booted_def)
  have h: "[?r] \<noteq> [] \<or> intType (fst ?t) \<noteq> TIMER_INT" "max (clock ?s) (nat (snd ?t)) + MAX_DELAY < 2 ^ 31" "length (pending ?s) < 3"
    by (simp_all add: booted_facts(2) p MAX_DELAY_def)
  from idle_reaches_next [OF booted_facts(1,3,4) p h] obtain s' fired left where
    s': "Idle device_code 3 False ?s = Inr (True, s')" "clock s' = max (clock ?s) (nat (snd ?t))"
      and f: "filter (is_due s') [?r] = fired @ left" "left = [] \<or> length left = 1 \<and> intType (fst (hd left)) = TIMER_INT"
      "view_of s' = (fold device_effect (map handler_of (?t # fired)) (view_of ?s))\<lparr>wantsYield := False\<rparr>"
    by blast
  have c: "clock s' = 100" using s'(2) by (simp add: booted_facts(2))
  then have "fired @ left = [?r]" using f(1) by simp
  then have "fired = [?r]" using f(2) by (cases fired) auto
  then have v: "view_of s' = (poll_takes_key (timer_fires (view_of ?s)))\<lparr>wantsYield := False\<rparr>" using f(3) by simp
  have "synch s' = consoleSys (devicesOf (view_of s'))" by (simp add: view_of_def)
  then have "incoming (console (synch s')) = 65" "readAvail (synch s') = 1"
    unfolding v by (simp_all add: effect_defs Let_def booted_def Interrupt_new_def Console_new_def EOF_CHAR_def)
  then show ?thesis using s'(1) c boot_booted by auto
qed

end
