(* ===== verification/Table.thy ===== *)
theory Table
  imports Linked_List
begin

text \<open>
  \<open>lib/table.hh\<close>: a map from small non-negative integers to items, used for the open files of a
  process and for the table of processes. \<open>freed\<close> holds the indices below \<open>current\<close> whose item
  has been removed, in increasing order; it is the list of \<open>Linked_List\<close> at the level of its
  (item, key) pairs.
\<close>

section \<open>The class\<close>

definition Table_SIZE :: int where
  "Table_SIZE = 1000"

text \<open>\<open>data\<close> is the array of \<open>SIZE\<close> items; \<open>defItem\<close> is the default value \<open>T()\<close>.\<close>

record 'a table =
  data :: "'a list"
  current :: int
  freed :: "int klist"
  defItem :: 'a

definition Table_new :: "'a list \<Rightarrow> 'a \<Rightarrow> 'a table" where
  "Table_new d0 t0 = \<lparr>data = d0, current = 0, freed = [], defItem = t0\<rparr>"

text \<open>Access to \<open>data [i]\<close>: outside the array is an error.\<close>

definition data_at :: "'a table \<Rightarrow> int \<Rightarrow> 'a res" where
  "data_at t i = (if 0 \<le> i \<and> nat i < length (data t) then Inr (data t ! nat i) else Inl OutOfBounds)"

definition data_set :: "'a table \<Rightarrow> int \<Rightarrow> 'a \<Rightarrow> 'a table res" where
  "data_set t i x = (if 0 \<le> i \<and> nat i < length (data t)
     then Inr (t\<lparr>data := (data t)[nat i := x]\<rparr>) else Inl OutOfBounds)"

definition Table_Add :: "'a table \<Rightarrow> 'a \<Rightarrow> (int \<times> 'a table) res" where
  "Table_Add t x = (case freed t of
     (i, k) # rest \<Rightarrow> rbind (data_set (t\<lparr>freed := rest\<rparr>) i x) (\<lambda>t'. Inr (i, t'))
   | [] \<Rightarrow> (if current t < Table_SIZE
       then rbind (data_set (t\<lparr>current := current t + 1\<rparr>) (current t) x) (\<lambda>t'. Inr (current t, t'))
       else Inr (-1, t)))"

definition Table_HasKey :: "'a table \<Rightarrow> int \<Rightarrow> bool res" where
  "Table_HasKey t i = rbind (rassert (i \<ge> 0)) (\<lambda>_. Inr (i < current t \<and> \<not> kl_Has i (freed t)))"

definition Table_Get :: "'a table \<Rightarrow> int \<Rightarrow> 'a res" where
  "Table_Get t i = rbind (rassert (i \<ge> 0)) (\<lambda>_.
     rbind (Table_HasKey t i) (\<lambda>b. if b then data_at t i else Inr (defItem t)))"

definition Table_IsEmpty :: "'a table \<Rightarrow> bool" where
  "Table_IsEmpty t = (current t = 0)"

text \<open>
  The loop of \<open>Remove\<close>. \<open>freed.SortedPop (&j)\<close> overwrites the loop variable with the key of
  the popped element, so each round ends with \<open>j\<close> one below that key; the fuel is the number
  of freed indices, since every round takes one.
\<close>

fun Table_Remove_loop :: "nat \<Rightarrow> 'a table \<Rightarrow> int \<Rightarrow> 'a table res" where
  "Table_Remove_loop fuel t j =
     (if j \<ge> 0 then rbind (Table_HasKey t j) (\<lambda>b.
        if b then Inr t
        else rbind (rassert (kl_Has j (freed t))) (\<lambda>_.
          case (fuel, freed t) of
            (Suc f, (x, k) # rest) \<Rightarrow>
              Table_Remove_loop f (t\<lparr>freed := rest, current := current t - 1\<rparr>) (k - 1)
          | _ \<Rightarrow> Inl Diverges))
      else Inr t)"

definition Table_Remove :: "'a table \<Rightarrow> int \<Rightarrow> ('a \<times> 'a table) res" where
  "Table_Remove t i = rbind (rassert (i \<ge> 0)) (\<lambda>_.
     rbind (Table_HasKey t i) (\<lambda>b.
       if \<not> b then Inr (defItem t, t)
       else rbind
         (if i = current t - 1
          then Table_Remove_loop (length (freed t)) (t\<lparr>current := current t - 1\<rparr>) (current t - 2)
          else Inr (t\<lparr>freed := kl_SortedInsert i i (freed t)\<rparr>))
         (\<lambda>t'. rbind (data_at t' i) (\<lambda>x. Inr (x, t')))))"

definition Table_Update :: "'a table \<Rightarrow> int \<Rightarrow> 'a \<Rightarrow> ('a \<times> 'a table) res" where
  "Table_Update t i x = rbind (rassert (i \<ge> 0)) (\<lambda>_.
     rbind (rassert (i < current t)) (\<lambda>_.
     rbind (rassert (\<not> kl_Has i (freed t))) (\<lambda>_.
     rbind (data_at t i) (\<lambda>previous.
     rbind (data_set t i x) (\<lambda>t'. Inr (previous, t'))))))"

declare Table_Remove_loop.simps [simp del]

section \<open>The table as a finite map\<close>

definition table_ok :: "'a table \<Rightarrow> bool" where
  "table_ok t \<longleftrightarrow> length (data t) = nat Table_SIZE \<and> 0 \<le> current t \<and> current t \<le> Table_SIZE
     \<and> (\<forall>p \<in> set (freed t). snd p = fst p \<and> 0 \<le> fst p \<and> fst p < current t)
     \<and> sorted_wrt (<) (map fst (freed t))"

definition table_map :: "'a table \<Rightarrow> int \<Rightarrow> 'a option" where
  "table_map t i = (if 0 \<le> i \<and> i < current t \<and> \<not> kl_Has i (freed t) then Some (data t ! nat i) else None)"

lemma table_ok_new: "length d0 = nat Table_SIZE \<Longrightarrow> table_ok (Table_new d0 t0) \<and> table_map (Table_new d0 t0) = Map.empty"
  by (auto simp: table_ok_def Table_new_def table_map_def Table_SIZE_def)

lemma data_set_ok:
  assumes "table_ok t" "0 \<le> i" "i < Table_SIZE"
  shows "data_set t i x = Inr (t\<lparr>data := (data t)[nat i := x]\<rparr>)"
  using assms by (auto simp: data_set_def table_ok_def Table_SIZE_def)

lemma data_at_ok:
  assumes "table_ok t" "0 \<le> i" "i < Table_SIZE"
  shows "data_at t i = Inr (data t ! nat i)"
  using assms by (auto simp: data_at_def table_ok_def Table_SIZE_def)

lemma table_get: "table_ok t \<Longrightarrow> 0 \<le> i \<Longrightarrow> Table_Get t i = Inr (case table_map t i of Some x \<Rightarrow> x | None \<Rightarrow> defItem t)"
  using data_at_ok [of t i]
  by (auto simp: Table_Get_def Table_HasKey_def table_map_def table_ok_def)

lemma sorted_wrt_kl_SortedInsert:
  assumes "sorted_wrt (<) (map fst xs)" "\<forall>p \<in> set xs. snd p = fst p" "i \<notin> fst ` set xs"
  shows "sorted_wrt (<) (map fst (kl_SortedInsert i i xs))"
  using assms
proof (induction xs)
  case (Cons p xs)
  obtain y where "p = (y, y)" using Cons.prems(2) by (cases p) auto
  with Cons show ?case by (fastforce simp: kl_SortedInsert_def)
qed (simp add: kl_SortedInsert_def)

lemma Add_reuse:
  assumes "table_ok t" "freed t = (i, k) # rest"
  shows "\<exists>t'. Table_Add t x = Inr (i, t') \<and> 0 \<le> i \<and> i < Table_SIZE \<and> table_ok t' \<and> table_map t i = None
    \<and> table_map t' = (table_map t)(i \<mapsto> x)"
proof -
  let ?t = "t\<lparr>freed := rest\<rparr>"
  have ok: "table_ok ?t" "0 \<le> i" "i < current t" "i < Table_SIZE" "\<not> kl_Has i rest"
    using assms by (auto simp: table_ok_def kl_Has_def)
  have "table_ok (?t\<lparr>data := (data t)[nat i := x]\<rparr>)" using ok(1) by (simp add: table_ok_def)
  moreover have "table_map (?t\<lparr>data := (data t)[nat i := x]\<rparr>) = (table_map t)(i \<mapsto> x)"
    using ok assms by (auto simp: table_map_def kl_Has_def table_ok_def Table_SIZE_def fun_eq_iff nth_list_update)
  ultimately show ?thesis using assms ok data_set_ok [OF ok(1,2,4), of x]
    by (auto simp: Table_Add_def table_map_def kl_Has_def)
qed

lemma Add_new:
  assumes "table_ok t" "freed t = []" "current t < Table_SIZE"
  shows "\<exists>t'. Table_Add t x = Inr (current t, t') \<and> table_ok t' \<and> table_map t (current t) = None
    \<and> table_map t' = (table_map t)(current t \<mapsto> x)"
proof -
  let ?t = "t\<lparr>current := current t + 1\<rparr>"
  have ok: "table_ok ?t" "0 \<le> current t" using assms by (auto simp: table_ok_def)
  have "table_ok (?t\<lparr>data := (data t)[nat (current t) := x]\<rparr>)" using ok(1) by (simp add: table_ok_def)
  moreover have "table_map (?t\<lparr>data := (data t)[nat (current t) := x]\<rparr>) = (table_map t)(current t \<mapsto> x)"
    using ok assms
    by (auto simp: table_map_def kl_Has_def table_ok_def Table_SIZE_def fun_eq_iff nth_list_update)
  ultimately show ?thesis using assms ok data_set_ok [OF ok(1,2) assms(3), of x]
    by (auto simp: Table_Add_def table_map_def)
qed

text \<open>Removing below the top index only records the index as free.\<close>

lemma Remove_inner:
  assumes "table_ok t" "table_map t i = Some x" "i \<noteq> current t - 1"
  shows "\<exists>t'. Table_Remove t i = Inr (x, t') \<and> table_ok t' \<and> table_map t' = (table_map t)(i := None)"
proof -
  have i: "0 \<le> i" "i < current t" "\<not> kl_Has i (freed t)" "x = data t ! nat i"
    using assms(2) by (auto simp: table_map_def split: if_splits)
  let ?t = "t\<lparr>freed := kl_SortedInsert i i (freed t)\<rparr>"
  have s: "set (kl_SortedInsert i i (freed t)) = insert (i, i) (set (freed t))"
    by (simp add: kl_SortedInsert_def)
  have "table_ok ?t"
    using assms(1) i s sorted_wrt_kl_SortedInsert [of "freed t" i]
    by (auto simp: table_ok_def kl_Has_def)
  moreover have "table_map ?t = (table_map t)(i := None)"
    using i s by (auto simp: table_map_def kl_Has_def fun_eq_iff)
  moreover have "data_at ?t i = Inr x"
    using data_at_ok [OF \<open>table_ok ?t\<close>, of i] i assms(1) by (simp add: table_ok_def)
  ultimately show ?thesis using assms(3) i by (auto simp: Table_Remove_def Table_HasKey_def)
qed

text \<open>
  Removing the top index when the index below it is occupied, or is the only free one: the loop
  makes at most one round.
\<close>

lemma Remove_top:
  assumes "table_ok t" "table_map t i = Some x" "i = current t - 1"
    and "i = 0 \<or> table_map t (i - 1) \<noteq> None \<or> (length (freed t) = 1 \<and> (i = 1 \<or> table_map t (i - 2) \<noteq> None))"
  shows "\<exists>t'. Table_Remove t i = Inr (x, t') \<and> table_ok t' \<and> table_map t' = (table_map t)(i := None)"
proof -
  have i: "0 \<le> i" "i < current t" "\<not> kl_Has i (freed t)" "x = data t ! nat i"
    using assms(2) by (auto simp: table_map_def split: if_splits)
  let ?t = "t\<lparr>current := current t - 1\<rparr>"
  have fr: "fst p < i" if "p \<in> set (freed t)" for p
  proof -
    have "fst p < current t" "fst p \<noteq> i"
      using that assms(1) i(3) by (auto simp: table_ok_def kl_Has_def)
    with assms(3) show ?thesis by simp
  qed
  consider (stop) "i = 0 \<or> table_map t (i - 1) \<noteq> None"
    | (one) "freed t = [(i - 1, i - 1)]" "0 < i" "i = 1 \<or> table_map t (i - 2) \<noteq> None"
  proof -
    {
      assume n: "\<not> (i = 0 \<or> table_map t (i - 1) \<noteq> None)"
      with i(1,2) have "0 < i" "kl_Has (i - 1) (freed t)" by (auto simp: table_map_def split: if_splits)
      moreover from n assms(4) obtain p where "freed t = [p]" "i = 1 \<or> table_map t (i - 2) \<noteq> None"
        by (auto simp: length_Suc_conv)
      ultimately have ?thesis using assms(1) one by (cases p) (auto simp: kl_Has_def table_ok_def)
    }
    then show ?thesis using stop by blast
  qed
  then show ?thesis
  proof cases
    case stop
    have ok: "table_ok ?t" using assms(1,3) i fr by (auto simp: table_ok_def)
    have "Table_Remove_loop (length (freed t)) ?t (i - 1) = Inr ?t"
      using stop i assms(3)
      by (subst Table_Remove_loop.simps) (auto simp: Table_HasKey_def table_map_def split: if_splits)
    moreover have "table_map ?t = (table_map t)(i := None)"
      using assms(3) i by (auto simp: table_map_def fun_eq_iff)
    moreover have "data_at ?t i = Inr x"
      using data_at_ok [OF ok, of i] i assms(1) by (simp add: table_ok_def)
    ultimately show ?thesis using i ok assms(3)
      by (auto simp: Table_Remove_def Table_HasKey_def)
  next
    case one
    let ?u = "t\<lparr>freed := [], current := current t - 2\<rparr>"
    have ok: "table_ok ?u" using assms(1,3) i one by (auto simp: table_ok_def)
    have "Table_Remove_loop f ?u (i - 2) = Inr ?u" for f
      using one i assms(3)
      by (subst Table_Remove_loop.simps)
        (auto simp: Table_HasKey_def table_map_def kl_Has_def split: if_splits)
    then have "Table_Remove_loop (length (freed t)) ?t (i - 1) = Inr ?u"
      using one assms(3)
      by (subst Table_Remove_loop.simps) (auto simp: Table_HasKey_def kl_Has_def)
    moreover have "table_map ?u = (table_map t)(i := None)"
      using assms(3) i one by (auto simp: table_map_def kl_Has_def fun_eq_iff)
    moreover have "data_at ?u i = Inr x"
      using data_at_ok [OF ok, of i] i assms(1) by (simp add: table_ok_def)
    ultimately show ?thesis using i ok assms(3)
      by (auto simp: Table_Remove_def Table_HasKey_def)
  qed
qed

lemma Update_map:
  assumes "table_ok t" "table_map t i = Some old"
  shows "\<exists>t'. Table_Update t i x = Inr (old, t') \<and> table_ok t' \<and> table_map t' = (table_map t)(i \<mapsto> x)"
proof -
  have i: "0 \<le> i" "i < current t" "i < Table_SIZE" "\<not> kl_Has i (freed t)" "old = data t ! nat i"
    using assms by (auto simp: table_map_def table_ok_def split: if_splits)
  let ?t = "t\<lparr>data := (data t)[nat i := x]\<rparr>"
  have "table_map ?t = (table_map t)(i \<mapsto> x)"
    using i assms(1) by (auto simp: table_map_def table_ok_def Table_SIZE_def fun_eq_iff nth_list_update)
  moreover have "table_ok ?t" using assms(1) by (simp add: table_ok_def)
  ultimately show ?thesis
    using i data_at_ok [OF assms(1) i(1,3)] data_set_ok [OF assms(1) i(1,3), of x]
    by (simp add: Table_Update_def)
qed

section \<open>Properties\<close>

text \<open>
  C24. On a well-formed table \<open>Add\<close> binds the item to a key that was free and changes nothing
  else, \<open>Get\<close> then returns it, and \<open>Add\<close> answers \<open>-1\<close> exactly when all 1000 keys are taken.
\<close>

theorem table_add_refines_map:
  assumes "table_ok t"
  shows "if freed t = [] \<and> current t = Table_SIZE then Table_Add t x = Inr (-1, t)
    else \<exists>i t'. Table_Add t x = Inr (i, t') \<and> 0 \<le> i \<and> i < Table_SIZE \<and> table_ok t'
      \<and> table_map t i = None \<and> table_map t' = (table_map t)(i \<mapsto> x) \<and> Table_Get t' i = Inr x"
proof (cases "freed t")
  case Nil
  show ?thesis
  proof (cases "current t = Table_SIZE")
    case True
    with Nil show ?thesis by (simp add: Table_Add_def)
  next
    case False
    with assms have c: "current t < Table_SIZE" "0 \<le> current t" by (auto simp: table_ok_def)
    from Add_new [OF assms Nil c(1), of x] c False table_get show ?thesis by fastforce
  qed
next
  case (Cons p rest)
  obtain i k where "p = (i, k)" by (cases p)
  with Cons Add_reuse [OF assms, of i k rest x] table_get show ?thesis by fastforce
qed

theorem table_add_refines_map_witness:
  "\<exists>i t'. Table_Add (Table_new (replicate 1000 False) False) True = Inr (i, t') \<and> Table_Get t' i = Inr True"
proof -
  define d where "d = replicate 1000 False"
  have ok: "table_ok (Table_new d False)"
    using table_ok_new [of d False] by (simp add: Table_SIZE_def d_def)
  have "\<not> (freed (Table_new d False) = [] \<and> current (Table_new d False) = Table_SIZE)"
    by (simp add: Table_new_def Table_SIZE_def)
  from table_add_refines_map [OF ok, of True, unfolded if_not_P [OF this]]
  obtain i t' where "Table_Add (Table_new d False) True = Inr (i, t')" "Table_Get t' i = Inr True"
    by (elim exE conjE) (rule that)
  then show ?thesis unfolding d_def by (intro exI conjI)
qed

text \<open>
  C25. \<open>Remove\<close> of a bound key returns its item and unbinds exactly that key, unless it is the
  greatest key and more than one freed key lies right below it (or one does and is not the only
  freed key of the table); \<open>Update\<close> replaces the item of a bound key and returns the old one.
\<close>

theorem table_remove_refines_map:
  assumes "table_ok t" "table_map t i = Some x"
    and "i \<noteq> current t - 1 \<or> i = 0 \<or> table_map t (i - 1) \<noteq> None
      \<or> (length (freed t) = 1 \<and> (i = 1 \<or> table_map t (i - 2) \<noteq> None))"
  shows "(\<exists>t'. Table_Remove t i = Inr (x, t') \<and> table_ok t' \<and> table_map t' = (table_map t)(i := None))
    \<and> (\<exists>t'. Table_Update t i y = Inr (x, t') \<and> table_ok t' \<and> table_map t' = (table_map t)(i \<mapsto> y))"
proof (intro conjI)
  show "\<exists>t'. Table_Remove t i = Inr (x, t') \<and> table_ok t' \<and> table_map t' = (table_map t)(i := None)"
  proof (cases "i = current t - 1")
    case True
    show ?thesis
      by (rule Remove_top [OF assms(1,2) True]) (use assms(3) True in blast)
  next
    case False
    show ?thesis by (rule Remove_inner [OF assms(1,2) False])
  qed
  show "\<exists>t'. Table_Update t i y = Inr (x, t') \<and> table_ok t' \<and> table_map t' = (table_map t)(i \<mapsto> y)"
    using Update_map [OF assms(1,2)] .
qed

theorem table_remove_refines_map_witness:
  "\<exists>t'. Table_Remove \<lparr>data = replicate 1000 False, current = 3, freed = [(1, 1)], defItem = True\<rparr> 2
     = Inr (False, t') \<and> table_map t' 0 = Some False \<and> table_map t' 2 = None"
proof -
  let ?t = "\<lparr>data = replicate 1000 False, current = 3, freed = [(1, 1)], defItem = True\<rparr> :: bool table"
  have ok: "table_ok ?t" by (simp add: table_ok_def Table_SIZE_def)
  have m: "table_map ?t 2 = Some False" "table_map ?t 0 = Some False"
    by (simp_all add: table_map_def kl_Has_def)
  have "\<exists>t'. Table_Remove ?t 2 = Inr (False, t') \<and> table_ok t'
      \<and> table_map t' = (table_map ?t)(2 := None)"
    by (rule conjunct1 [OF table_remove_refines_map [OF ok m(1)]]) (simp add: m)
  with m show ?thesis by auto
qed

text \<open>
  The exception in the last property is real. With keys 0 to 4 bound and 1 and 3 removed, removing 4 pops the
  freed key 1 in place of 3: key 1 is bound again, to its old item, and the next item added
  goes to a key that \<open>HasKey\<close> does not find.
\<close>

theorem table_remove_resurrects:
  "\<exists>t' t''. Table_Remove \<lparr>data = [10, 11, 12, 13, 14 :: int], current = 5, freed = [(1, 1), (3, 3)], defItem = 0\<rparr> 4
       = Inr (14, t') \<and> Table_HasKey t' 1 = Inr True \<and> Table_Get t' 1 = Inr 11
     \<and> Table_Add t' 99 = Inr (3, t'') \<and> Table_HasKey t'' 3 = Inr False"
  by (simp add: Table_Remove_def Table_Remove_loop.simps Table_HasKey_def Table_Get_def Table_Add_def
      data_at_def data_set_def kl_Has_def)

end
