(* ===== verification/Threads.thy ===== *)
theory Threads
  imports Linked_List Table Mips_Exec
begin

text \<open>
  \<open>threads/\<close>: threads and the scheduler with priorities, semaphores, locks with priority
  inheritance, condition variables and channels, in the build with \<open>MULTILEVEL_PRIORITY_QUEUE\<close> and
  \<open>USER_PROGRAM\<close>. Nachos switches threads only where interrupts are enabled again, so a thread
  runs in atomic pieces between these points; a thread carries the calls it has still to make, and
  a piece that is not the end of an operation puts the rest of it in front of them.
\<close>

section \<open>State\<close>

type_synonym tid = nat

datatype ThreadStatus = JUST_CREATED | RUNNING | READY | BLOCKED

text \<open>A semaphore by what it was created for: a lock, one wait on a condition, or a device.\<close>

datatype sem = LockSem nat | WaitSem nat | DevSem nat

text \<open>
  The calls a thread makes. \<open>TakeLock\<close>, \<open>SendPut\<close>, \<open>SendMsg\<close>, \<open>SendLoop\<close>, \<open>RecvLoop\<close>, \<open>JoinYield\<close> and
  \<open>FinishSleep\<close> are the rests of operations; \<open>CallFork\<close> creates a thread that makes the calls given
  and then finishes.
\<close>

datatype call =
    CallP sem | CallV sem
  | CallAcquire nat | TakeLock nat | CallRelease nat
  | CallWait nat | CallSignal nat | CallBroadcast nat
  | CallSend nat int | SendPut nat int | SendMsg nat | SendLoop nat int
  | CallReceive nat | RecvLoop nat
  | CallYield | CallFork "call list" bool "64 word"
  | CallJoin tid | JoinYield | CallFinish int | FinishSleep

record Thread =
  status :: ThreadStatus
  priority :: "64 word"
  joinable :: bool
  joinChannel :: nat
  spaceId :: int
  started :: bool
  hasSpace :: bool
  userRegisters :: "u32 list"
  code :: "call list"
  received :: int

record Semaphore =
  semValue :: int
  semQueue :: "tid list"

record Lock =
  lockOwner :: "tid option"
  oldPriority :: "64 word"

record Condition =
  conditionLock :: nat
  condQueue :: "sem list"

record Channel =
  buzon :: "int list"
  channelLock :: nat
  conditionForReceivers :: nat
  conditionForSenders :: nat

record kern =
  threads :: "tid \<Rightarrow> Thread"
  live :: "tid \<Rightarrow> bool"
  nextThread :: tid
  currentThread :: tid
  threadToBeDestroyed :: "tid option"
  readyList :: "tid klist"
  sems :: "sem \<Rightarrow> Semaphore"
  locks :: "nat \<Rightarrow> Lock"
  conds :: "nat \<Rightarrow> Condition"
  channels :: "nat \<Rightarrow> Channel"
  nextWait :: nat
  nextLock :: nat
  nextCond :: nat
  nextChannel :: nat
  runningProcesses :: "tid table"
  cpu :: "u32 list"

definition upd_thread :: "tid \<Rightarrow> (Thread \<Rightarrow> Thread) \<Rightarrow> kern \<Rightarrow> kern" where
  "upd_thread t f k = k\<lparr>threads := (threads k)(t := f (threads k t))\<rparr>"

abbreviation cur :: "kern \<Rightarrow> Thread" where
  "cur k \<equiv> threads k (currentThread k)"

text \<open>The current thread will make these calls before the ones it has.\<close>

definition push :: "call list \<Rightarrow> kern \<Rightarrow> kern" where
  "push cs k = upd_thread (currentThread k) (\<lambda>t. t\<lparr>code := cs @ code t\<rparr>) k"

section \<open>The scheduler\<close>

text \<open>The priority, a \<open>size_t\<close>, becomes the \<open>int\<close> key of the ready list.\<close>

definition prio_key :: "64 word \<Rightarrow> int" where
  "prio_key p = sint (ucast p :: u32)"

definition SetStatus :: "ThreadStatus \<Rightarrow> tid \<Rightarrow> kern \<Rightarrow> kern" where
  "SetStatus st t = upd_thread t (\<lambda>th. th\<lparr>status := st\<rparr>)"

definition SetPriority :: "64 word \<Rightarrow> tid \<Rightarrow> kern \<Rightarrow> kern" where
  "SetPriority p t = upd_thread t (\<lambda>th. th\<lparr>priority := p\<rparr>)"

definition ReadyToRun :: "tid \<Rightarrow> kern \<Rightarrow> kern" where
  "ReadyToRun t k = (let k1 = SetStatus READY t k in
     k1\<lparr>readyList := kl_SortedInsertInverted t (prio_key (priority (threads k1 t))) (readyList k1)\<rparr>)"

definition FindNextToRun :: "kern \<Rightarrow> tid option \<times> kern" where
  "FindNextToRun k = (case readyList k of [] \<Rightarrow> (None, k) | (t, p) # r \<Rightarrow> (Some t, k\<lparr>readyList := r\<rparr>))"

definition ModifyPriority :: "tid \<Rightarrow> kern \<Rightarrow> kern" where
  "ModifyPriority t k =
     (if kl_Has t (readyList k)
      then k\<lparr>readyList := kl_SortedInsertInverted t (prio_key (priority (threads k t))) (kl_Remove t (readyList k))\<rparr>
      else k)"

text \<open>The user registers of a thread are saved and restored when it has an address space.\<close>

definition SaveUserState :: "tid \<Rightarrow> kern \<Rightarrow> kern" where
  "SaveUserState t k = upd_thread t (\<lambda>th. th\<lparr>userRegisters := cpu k\<rparr>) k"

definition RestoreUserState :: "tid \<Rightarrow> kern \<Rightarrow> kern" where
  "RestoreUserState t k = k\<lparr>cpu := (userRegisters (threads k t))[0 := cpu k ! 0]\<rparr>"

text \<open>
  \<open>Scheduler::Run\<close>. The part after \<open>SWITCH\<close> is run by the thread that was switched to, which comes
  back from its own call of \<open>Run\<close>; a thread that has not run yet starts in \<open>ThreadRoot\<close> instead.
  The carcass that is deleted must not be the current thread.
\<close>

definition after_switch :: "kern \<Rightarrow> kern res" where
  "after_switch k =
     (let t = currentThread k in
      if \<not> started (threads k t) then Inr (upd_thread t (\<lambda>th. th\<lparr>started := True\<rparr>) k)
      else rbind (case threadToBeDestroyed k of None \<Rightarrow> Inr k
              | Some d \<Rightarrow> rbind (rassert (d \<noteq> t)) (\<lambda>_. Inr (k\<lparr>live := (live k)(d := False), threadToBeDestroyed := None\<rparr>)))
             (\<lambda>k1. Inr (if hasSpace (threads k1 t) then RestoreUserState t k1 else k1)))"

definition Scheduler_Run :: "tid \<Rightarrow> kern \<Rightarrow> kern res" where
  "Scheduler_Run t k =
     (let k1 = (if hasSpace (cur k) then SaveUserState (currentThread k) k else k)
      in after_switch (SetStatus RUNNING t (k1\<lparr>currentThread := t\<rparr>)))"

section \<open>Giving up the processor\<close>

definition Thread_Yield :: "kern \<Rightarrow> kern res" where
  "Thread_Yield k = (case FindNextToRun k of
       (None, k1) \<Rightarrow> Inr k1
     | (Some t, k1) \<Rightarrow> Scheduler_Run t (ReadyToRun (currentThread k1) k1))"

text \<open>
  \<open>Sleep\<close>. With no thread ready the processor idles in the current, blocked thread; \<open>dispatch\<close> is the
  rest of its loop, once an interrupt has made a thread ready.
\<close>

definition dispatch :: "kern \<Rightarrow> kern res" where
  "dispatch k = (case FindNextToRun k of (None, k1) \<Rightarrow> Inr k1 | (Some t, k1) \<Rightarrow> Scheduler_Run t k1)"

definition Thread_Sleep :: "kern \<Rightarrow> kern res" where
  "Thread_Sleep k = dispatch (SetStatus BLOCKED (currentThread k) k)"

section \<open>Semaphores\<close>

definition upd_sem :: "sem \<Rightarrow> (Semaphore \<Rightarrow> Semaphore) \<Rightarrow> kern \<Rightarrow> kern" where
  "upd_sem s f k = k\<lparr>sems := (sems k)(s := f (sems k s))\<rparr>"

definition Semaphore_new :: "int \<Rightarrow> Semaphore" where
  "Semaphore_new initialValue = \<lparr>semValue = initialValue, semQueue = []\<rparr>"

text \<open>A thread that is woken up tests the value again.\<close>

definition Semaphore_P :: "sem \<Rightarrow> kern \<Rightarrow> kern res" where
  "Semaphore_P s k =
     (if semValue (sems k s) = 0
      then Thread_Sleep (push [CallP s] (upd_sem s (\<lambda>x. x\<lparr>semQueue := semQueue x @ [currentThread k]\<rparr>) k))
      else Inr (upd_sem s (\<lambda>x. x\<lparr>semValue := semValue x - 1\<rparr>) k))"

definition Semaphore_V :: "sem \<Rightarrow> kern \<Rightarrow> kern" where
  "Semaphore_V s k =
     (let k1 = (case semQueue (sems k s) of
          [] \<Rightarrow> k
        | t # q \<Rightarrow> ReadyToRun t (upd_sem s (\<lambda>x. x\<lparr>semQueue := q\<rparr>) k))
      in upd_sem s (\<lambda>x. x\<lparr>semValue := semValue x + 1\<rparr>) k1)"

section \<open>Locks\<close>

definition upd_lock :: "nat \<Rightarrow> (Lock \<Rightarrow> Lock) \<Rightarrow> kern \<Rightarrow> kern" where
  "upd_lock l f k = k\<lparr>locks := (locks k)(l := f (locks k l))\<rparr>"

definition IsHeldByCurrentThread :: "nat \<Rightarrow> kern \<Rightarrow> bool" where
  "IsHeldByCurrentThread l k \<longleftrightarrow> lockOwner (locks k l) = Some (currentThread k)"

text \<open>
  The owner inherits the priority of the thread that wants the lock. A number that no lock has
  stands for a pointer to no lock.
\<close>

definition inherit :: "nat \<Rightarrow> kern \<Rightarrow> kern" where
  "inherit l k =
     (case lockOwner (locks k l) of
        None \<Rightarrow> k
      | Some o' \<Rightarrow>
          let ownerPriority = priority (threads k o'); currentPriority = priority (cur k) in
          if ownerPriority < currentPriority
          then ModifyPriority o' (SetPriority currentPriority o' (upd_lock l (\<lambda>x. x\<lparr>oldPriority := ownerPriority\<rparr>) k))
          else k)"

definition Lock_Acquire :: "nat \<Rightarrow> kern \<Rightarrow> kern res" where
  "Lock_Acquire l k =
     rbind (rcheck NullDeref (l < nextLock k)) (\<lambda>_.
     rbind (rassert (\<not> IsHeldByCurrentThread l k)) (\<lambda>_. Semaphore_P (LockSem l) (push [TakeLock l] (inherit l k))))"

definition take_lock :: "nat \<Rightarrow> kern \<Rightarrow> kern" where
  "take_lock l k = upd_lock l (\<lambda>x. x\<lparr>lockOwner := Some (currentThread k)\<rparr>) k"

definition Lock_Release :: "nat \<Rightarrow> kern \<Rightarrow> kern res" where
  "Lock_Release l k =
     rbind (rassert (IsHeldByCurrentThread l k)) (\<lambda>_.
       let k1 = upd_lock l (\<lambda>x. x\<lparr>lockOwner := None\<rparr>) k; t = currentThread k; p = oldPriority (locks k l);
           k2 = (if priority (threads k1 t) \<noteq> p then ModifyPriority t (SetPriority p t k1) else k1)
       in Inr (Semaphore_V (LockSem l) k2))"

section \<open>Condition variables\<close>

definition Condition_Wait :: "nat \<Rightarrow> kern \<Rightarrow> kern res" where
  "Condition_Wait c k =
     (let l = conditionLock (conds k c); s = WaitSem (nextWait k) in
      rbind (rassert (IsHeldByCurrentThread l k)) (\<lambda>_.
        let k1 = k\<lparr>nextWait := nextWait k + 1, sems := (sems k)(s := Semaphore_new 0),
                   conds := (conds k)(c := (conds k c)\<lparr>condQueue := condQueue (conds k c) @ [s]\<rparr>)\<rparr>
        in Lock_Release l (push [CallP s, CallAcquire l] k1)))"

definition Condition_Signal :: "nat \<Rightarrow> kern \<Rightarrow> kern res" where
  "Condition_Signal c k =
     rbind (rassert (IsHeldByCurrentThread (conditionLock (conds k c)) k)) (\<lambda>_.
       Inr (case condQueue (conds k c) of [] \<Rightarrow> k | s # q \<Rightarrow> Semaphore_V s k))"

text \<open>An iteration of the loop of \<open>Broadcast\<close>.\<close>

definition Condition_Broadcast :: "nat \<Rightarrow> kern \<Rightarrow> kern res" where
  "Condition_Broadcast c k =
     (if condQueue (conds k c) = [] then Inr k else Condition_Signal c (push [CallBroadcast c] k))"

section \<open>Channels\<close>

definition upd_channel :: "nat \<Rightarrow> (Channel \<Rightarrow> Channel) \<Rightarrow> kern \<Rightarrow> kern" where
  "upd_channel ch f k = k\<lparr>channels := (channels k)(ch := f (channels k ch))\<rparr>"

definition Channel_new :: "kern \<Rightarrow> nat \<times> kern" where
  "Channel_new k =
     (let l = nextLock k; c = nextCond k; ch = nextChannel k in
      (ch, k\<lparr>nextLock := l + 1, nextCond := c + 2, nextChannel := ch + 1,
             sems := (sems k)(LockSem l := Semaphore_new 1),
             locks := (locks k)(l := \<lparr>lockOwner = None, oldPriority = 0\<rparr>),
             conds := (conds k)(c := \<lparr>conditionLock = l, condQueue = []\<rparr>, c + 1 := \<lparr>conditionLock = l, condQueue = []\<rparr>),
             channels := (channels k)(ch := \<lparr>buzon = [], channelLock = l, conditionForReceivers = c + 1, conditionForSenders = c\<rparr>)\<rparr>))"

definition Channel_Send :: "nat \<Rightarrow> int \<Rightarrow> kern \<Rightarrow> kern res" where
  "Channel_Send ch m k = Lock_Acquire (channelLock (channels k ch)) (push [SendPut ch m] k)"

definition send_put :: "nat \<Rightarrow> int \<Rightarrow> kern \<Rightarrow> kern res" where
  "send_put ch m k =
     Condition_Signal (conditionForReceivers (channels k ch))
       (push [SendMsg ch] (upd_channel ch (\<lambda>x. x\<lparr>buzon := buzon x @ [m]\<rparr>) k))"

definition send_loop :: "nat \<Rightarrow> int \<Rightarrow> kern \<Rightarrow> kern res" where
  "send_loop ch m k = (let x = channels k ch in
     if buzon x \<noteq> [] \<and> m = hd (buzon x)
     then Condition_Wait (conditionForSenders x) (push [SendLoop ch m] k)
     else Lock_Release (channelLock x) k)"

definition send_msg :: "nat \<Rightarrow> kern \<Rightarrow> kern res" where
  "send_msg ch k = rbind (rassert (buzon (channels k ch) \<noteq> [])) (\<lambda>_. send_loop ch (hd (buzon (channels k ch))) k)"

definition Channel_Receive :: "nat \<Rightarrow> kern \<Rightarrow> kern res" where
  "Channel_Receive ch k = Lock_Acquire (channelLock (channels k ch)) (push [RecvLoop ch] k)"

definition recv_loop :: "nat \<Rightarrow> kern \<Rightarrow> kern res" where
  "recv_loop ch k = (let x = channels k ch in
     case buzon x of
       [] \<Rightarrow> Condition_Wait (conditionForReceivers x) (push [RecvLoop ch] k)
     | m # q \<Rightarrow> Condition_Signal (conditionForSenders x)
         (push [CallRelease (channelLock x)] (upd_thread (currentThread k) (\<lambda>t. t\<lparr>received := m\<rparr>)
           (upd_channel ch (\<lambda>x. x\<lparr>buzon := q\<rparr>) k))))"

section \<open>Threads\<close>

text \<open>
  The constructor and \<open>Fork\<close>. A thread without a slot in \<open>runningProcesses\<close> has \<open>spaceId\<close> -1.
\<close>

definition Thread_new :: "call list \<Rightarrow> bool \<Rightarrow> 64 word \<Rightarrow> kern \<Rightarrow> (tid \<times> kern) res" where
  "Thread_new body isJoinable priorityParam k =
     (let t = nextThread k; (ch, k1) = (if isJoinable then Channel_new k else (0, k)) in
      rbind (Table_Add (runningProcesses k1) t) (\<lambda>(sid, tbl).
        Inr (t, k1\<lparr>nextThread := t + 1, live := (live k1)(t := True), runningProcesses := tbl,
          threads := (threads k1)(t := \<lparr>status = JUST_CREATED, priority = priorityParam, joinable = isJoinable,
            joinChannel = ch, spaceId = sid, started = False, hasSpace = False, userRegisters = replicate 40 0,
            code = body @ [CallFinish 0], received = 0\<rparr>)\<rparr>)))"

definition Thread_Fork :: "call list \<Rightarrow> bool \<Rightarrow> 64 word \<Rightarrow> kern \<Rightarrow> kern res" where
  "Thread_Fork body isJoinable p k = rbind (Thread_new body isJoinable p k) (\<lambda>(t, k1). Inr (ReadyToRun t k1))"

definition Thread_Finish :: "int \<Rightarrow> kern \<Rightarrow> kern res" where
  "Thread_Finish st k = (let k1 = push [FinishSleep] k in
     if joinable (cur k) then Channel_Send (joinChannel (cur k)) st k1 else Inr k1)"

text \<open>When the first thread finishes with no other thread ready, \<open>Idle\<close> halts the machine.\<close>

definition finish_sleep :: "kern \<Rightarrow> kern res" where
  "finish_sleep k =
     (if spaceId (cur k) = 0 \<and> readyList k = [] then Inl Halted
      else Thread_Sleep (k\<lparr>threadToBeDestroyed := Some (currentThread k)\<rparr>))"

definition Thread_Join :: "tid \<Rightarrow> kern \<Rightarrow> kern res" where
  "Thread_Join t k =
     rbind (rcheck NullDeref (live k t)) (\<lambda>_.
     rbind (rassert (joinable (threads k t))) (\<lambda>_. Channel_Receive (joinChannel (threads k t)) (push [JoinYield] k)))"

definition join_yield :: "kern \<Rightarrow> kern res" where
  "join_yield k = (if spaceId (cur k) = 0 \<and> readyList k \<noteq> [] then Thread_Yield k else Inr k)"

section \<open>Steps\<close>

text \<open>
  One atomic piece of the current thread, whose next call this is. A semaphore that has not been
  created stands for a pointer to none.
\<close>

definition sem_exists :: "kern \<Rightarrow> sem \<Rightarrow> bool" where
  "sem_exists k s = (case s of LockSem l \<Rightarrow> l < nextLock k | WaitSem n \<Rightarrow> n < nextWait k | DevSem d \<Rightarrow> True)"

definition exec_call :: "call \<Rightarrow> kern \<Rightarrow> kern res" where
  "exec_call c k = (case c of
      CallP s \<Rightarrow> rbind (rcheck NullDeref (sem_exists k s)) (\<lambda>_. Semaphore_P s k)
    | CallV s \<Rightarrow> rbind (rcheck NullDeref (sem_exists k s)) (\<lambda>_. Inr (Semaphore_V s k))
    | CallAcquire l \<Rightarrow> Lock_Acquire l k
    | TakeLock l \<Rightarrow> Inr (take_lock l k)
    | CallRelease l \<Rightarrow> Lock_Release l k
    | CallWait cv \<Rightarrow> Condition_Wait cv k
    | CallSignal cv \<Rightarrow> Condition_Signal cv k
    | CallBroadcast cv \<Rightarrow> Condition_Broadcast cv k
    | CallSend ch m \<Rightarrow> Channel_Send ch m k
    | SendPut ch m \<Rightarrow> send_put ch m k
    | SendMsg ch \<Rightarrow> send_msg ch k
    | SendLoop ch m \<Rightarrow> send_loop ch m k
    | CallReceive ch \<Rightarrow> Channel_Receive ch k
    | RecvLoop ch \<Rightarrow> recv_loop ch k
    | CallYield \<Rightarrow> Thread_Yield k
    | CallFork body j p \<Rightarrow> Thread_Fork body j p k
    | CallJoin t \<Rightarrow> Thread_Join t k
    | JoinYield \<Rightarrow> join_yield k
    | CallFinish st \<Rightarrow> Thread_Finish st k
    | FinishSleep \<Rightarrow> finish_sleep k)"

text \<open>
  The steps of the system: a piece of the running thread; the timer's \<open>Yield\<close> between two pieces; a
  device's handler, which does a \<open>V\<close>; and the end of idling.
\<close>

definition set_code :: "call list \<Rightarrow> kern \<Rightarrow> kern" where
  "set_code cs k = upd_thread (currentThread k) (\<lambda>t. t\<lparr>code := cs\<rparr>) k"

inductive step :: "kern \<Rightarrow> kern \<Rightarrow> bool" where
  run: "status (cur k) = RUNNING \<Longrightarrow> code (cur k) = c # cs \<Longrightarrow> exec_call c (set_code cs k) = Inr k' \<Longrightarrow> step k k'"
| timeslice: "status (cur k) = RUNNING \<Longrightarrow> Thread_Yield k = Inr k' \<Longrightarrow> step k k'"
| device: "step k (Semaphore_V (DevSem d) k)"
| idle: "status (cur k) \<noteq> RUNNING \<Longrightarrow> dispatch k = Inr k' \<Longrightarrow> step k k'"

inductive reachable :: "kern \<Rightarrow> kern \<Rightarrow> bool" for k0 where
  start: "reachable k0 k0"
| more: "reachable k0 k \<Longrightarrow> step k k' \<Longrightarrow> reachable k0 k'"

end
