(* ===== verification/Thread_Safety.thy ===== *)
theory Thread_Safety
  imports Threads
begin

text \<open>
  Safety of the thread system over all interleavings: locks exclude one another's critical sections,
  whatever the threads do with them, with time slices at any point and device interrupts at any time.
\<close>

section \<open>Well-formed code\<close>

text \<open>
  The calls a program makes itself: not the inner steps of \<open>Lock::Acquire\<close>, and no operation on the
  semaphore inside a lock.
\<close>

definition own_sem :: "sem \<Rightarrow> bool" where
  "own_sem s = (case s of LockSem l \<Rightarrow> False | _ \<Rightarrow> True)"

fun user_call :: "call \<Rightarrow> bool" where
  "user_call (CallP s) = own_sem s"
| "user_call (CallV s) = own_sem s"
| "user_call (TakeLock l) = False"
| "user_call (CallFork body j p) = (\<forall>c \<in> set body. user_call c)"
| "user_call c = True"

abbreviation user_code :: "call list \<Rightarrow> bool" where
  "user_code cs \<equiv> \<forall>c \<in> set cs. user_call c"

text \<open>The code of a thread, between two pieces: possibly in the middle of \<open>Acquire\<close>.\<close>

definition code_form :: "nat \<Rightarrow> call list \<Rightarrow> bool" where
  "code_form n cs \<longleftrightarrow> user_code cs
     \<or> (\<exists>l cs'. l < n \<and> user_code cs' \<and> (cs = TakeLock l # cs' \<or> cs = CallP (LockSem l) # TakeLock l # cs'))"

text \<open>Threads that have passed the semaphore of a lock and not yet become its owner.\<close>

definition inside :: "kern \<Rightarrow> nat \<Rightarrow> tid set" where
  "inside k l = {t. \<exists>cs. code (threads k t) = TakeLock l # cs}"

text \<open>
  The balance of a lock: one unit, which is the value of its semaphore, or with a thread that has
  passed it, or with the owner.
\<close>

definition owned :: "kern \<Rightarrow> nat \<Rightarrow> int" where
  "owned k l = (if lockOwner (locks k l) = None then 0 else 1)"

definition balanced :: "kern \<Rightarrow> nat \<Rightarrow> bool" where
  "balanced k l \<longleftrightarrow> 0 \<le> semValue (sems k (LockSem l))
     \<and> semValue (sems k (LockSem l)) + int (card (inside k l)) + owned k l = 1"

lemma balanced_cong:
  assumes "semValue (sems k' (LockSem l)) = semValue (sems k (LockSem l))" "inside k' l = inside k l"
    "lockOwner (locks k' l) = lockOwner (locks k l)"
  shows "balanced k' l = balanced k l"
  using assms by (simp add: balanced_def owned_def)

definition ids_ok :: "kern \<Rightarrow> bool" where
  "ids_ok k \<longleftrightarrow> currentThread k < nextThread k \<and> fst ` set (readyList k) \<subseteq> {..<nextThread k}
     \<and> (\<forall>s. \<forall>t \<in> set (semQueue (sems k s)). t < nextThread k) \<and> (\<forall>t \<ge> nextThread k. code (threads k t) = [])
     \<and> (\<forall>c. \<forall>s \<in> set (condQueue (conds k c)). own_sem s)"

definition lock_ok :: "kern \<Rightarrow> bool" where
  "lock_ok k \<longleftrightarrow> (\<forall>t. code_form (nextLock k) (code (threads k t))) \<and> (\<forall>l. balanced k l)"

definition kern_ok :: "kern \<Rightarrow> bool" where
  "kern_ok k \<longleftrightarrow> ids_ok k \<and> lock_ok k"

text \<open>The same, with the current thread in its own code.\<close>

definition user_ok :: "kern \<Rightarrow> bool" where
  "user_ok k \<longleftrightarrow> kern_ok k \<and> user_code (code (cur k))"

lemma finite_inside: "ids_ok k \<Longrightarrow> finite (inside k l)"
  by (rule finite_subset [of _ "{..<nextThread k}"]) (auto simp: ids_ok_def inside_def not_le [symmetric])

section \<open>Scheduling does not touch the locks\<close>

text \<open>What the invariant depends on.\<close>

definition same_sync :: "kern \<Rightarrow> kern \<Rightarrow> bool" where
  "same_sync k k' \<longleftrightarrow> sems k' = sems k \<and> (\<forall>l. lockOwner (locks k' l) = lockOwner (locks k l))
     \<and> (\<forall>t. code (threads k' t) = code (threads k t)) \<and> nextThread k' = nextThread k \<and> nextLock k' = nextLock k"

lemma same_sync_trans: "same_sync k k1 \<Longrightarrow> same_sync k1 k2 \<Longrightarrow> same_sync k k2"
  by (simp add: same_sync_def)

lemma same_sync_refl [simp]: "same_sync k k"
  by (simp add: same_sync_def)

lemma same_sync_lock_ok: "same_sync k k' \<Longrightarrow> lock_ok k \<Longrightarrow> lock_ok k'"
  using balanced_cong [of k' _ k] by (auto simp: same_sync_def lock_ok_def inside_def)

lemma set_SortedInsertInverted [simp]: "set (kl_SortedInsertInverted x p xs) = insert (x, p) (set xs)"
proof -
  have "set (kl_insert b x p xs) = insert (x, p) (set xs)" for b
    by (induction b x p xs rule: kl_insert.induct) auto
  then show ?thesis by (simp add: kl_SortedInsertInverted_def)
qed

lemma set_kl_Remove: "set (kl_Remove x xs) \<subseteq> set xs"
  by (induction x xs rule: kl_Remove.induct) auto

lemmas thread_upd = upd_thread_def SetStatus_def SetPriority_def SaveUserState_def RestoreUserState_def

text \<open>Steps of the scheduler: the locks are untouched, and threads keep their numbers.\<close>

definition sched_step :: "kern \<Rightarrow> kern \<Rightarrow> bool" where
  "sched_step k k' \<longleftrightarrow> same_sync k k' \<and> (ids_ok k \<longrightarrow> ids_ok k')"

lemma sched_step_refl [simp]: "sched_step k k"
  by (simp add: sched_step_def)

lemma sched_step_trans: "sched_step k k1 \<Longrightarrow> sched_step k1 k2 \<Longrightarrow> sched_step k k2"
  by (auto simp: sched_step_def intro: same_sync_trans)

lemma sched_step_ok: "sched_step k k' \<Longrightarrow> kern_ok k \<Longrightarrow> kern_ok k'"
  by (auto simp: sched_step_def kern_ok_def intro: same_sync_lock_ok)

lemma SetStatus_step [simp]: "sched_step k (SetStatus st t k)"
  by (simp add: sched_step_def same_sync_def ids_ok_def thread_upd)

lemma SetPriority_step [simp]: "sched_step k (SetPriority p t k)"
  by (simp add: sched_step_def same_sync_def ids_ok_def thread_upd)

lemma ready_ModifyPriority: "fst ` set (readyList (ModifyPriority t k)) \<subseteq> fst ` set (readyList k)"
  using set_kl_Remove [of t "readyList k"] by (auto simp: ModifyPriority_def kl_Has_def)

lemma ModifyPriority_same:
  "threads (ModifyPriority t k) = threads k" "sems (ModifyPriority t k) = sems k" "locks (ModifyPriority t k) = locks k"
  "nextThread (ModifyPriority t k) = nextThread k" "nextLock (ModifyPriority t k) = nextLock k"
  "currentThread (ModifyPriority t k) = currentThread k" "conds (ModifyPriority t k) = conds k"
  by (simp_all add: ModifyPriority_def)

lemma ModifyPriority_step [simp]: "sched_step k (ModifyPriority t k)"
  using subset_trans [OF ready_ModifyPriority [of t k], of "{..<nextThread k}"]
  unfolding sched_step_def same_sync_def ids_ok_def ModifyPriority_same by simp

lemma ReadyToRun_ok:
  assumes "t < nextThread k"
  shows "sched_step k (ReadyToRun t k)"
  using assms by (auto simp: sched_step_def same_sync_def ids_ok_def ReadyToRun_def thread_upd Let_def)

text \<open>The results of the part after \<open>SWITCH\<close>.\<close>

lemma after_switch_cases:
  assumes "after_switch k = Inr k'"
  shows "k' = upd_thread (currentThread k) (\<lambda>th. th\<lparr>started := True\<rparr>) k
    \<or> (\<exists>lv d c. k' = k\<lparr>live := lv, threadToBeDestroyed := d, cpu := c\<rparr>)"
proof (cases "started (cur k)")
  case False
  with assms show ?thesis by (simp add: after_switch_def Let_def)
next
  case True
  let ?r = "\<lambda>lv. if hasSpace (cur k) then RestoreUserState (currentThread k) (k\<lparr>live := lv, threadToBeDestroyed := None\<rparr>)
      else k\<lparr>live := lv, threadToBeDestroyed := None\<rparr>"
  have "\<exists>lv. k' = ?r lv"
  proof (cases "threadToBeDestroyed k")
    case None
    then have e: "k\<lparr>threadToBeDestroyed := None\<rparr> = k" by simp
    from None True assms show ?thesis
      by (intro exI [of _ "live k"]) (simp add: after_switch_def Let_def e split: if_splits)
  next
    case (Some d)
    with True assms show ?thesis
      by (intro exI [of _ "(live k)(d := False)"]) (simp add: after_switch_def Let_def rassert_def split: if_splits)
  qed
  then obtain lv where "k' = ?r lv" ..
  then have "k' = k\<lparr>live := lv, threadToBeDestroyed := None, cpu := cpu k'\<rparr>"
    by (simp add: RestoreUserState_def split: if_splits)
  then show ?thesis by blast
qed

lemma after_switch_step:
  assumes "after_switch k = Inr k'"
  shows "sched_step k k'"
  using after_switch_cases [OF assms]
proof
  assume "k' = upd_thread (currentThread k) (\<lambda>th. th\<lparr>started := True\<rparr>) k"
  then show ?thesis by (simp add: sched_step_def same_sync_def ids_ok_def upd_thread_def)
next
  assume "\<exists>lv d c. k' = k\<lparr>live := lv, threadToBeDestroyed := d, cpu := c\<rparr>"
  then obtain lv d c where "k' = k\<lparr>live := lv, threadToBeDestroyed := d, cpu := c\<rparr>" by blast
  then show ?thesis by (simp add: sched_step_def same_sync_def ids_ok_def)
qed

lemma Scheduler_Run_step:
  assumes "Scheduler_Run t k = Inr k'" "t < nextThread k"
  shows "sched_step k k'"
proof -
  let ?k1 = "if hasSpace (cur k) then SaveUserState (currentThread k) k else k"
  have "sched_step k (SetStatus RUNNING t (?k1\<lparr>currentThread := t\<rparr>))"
    using assms(2) by (simp add: sched_step_def same_sync_def ids_ok_def thread_upd)
  with assms(1) after_switch_step show ?thesis
    unfolding Scheduler_Run_def Let_def by (blast intro: sched_step_trans)
qed

lemma dispatch_step:
  assumes "dispatch k = Inr k'" "ids_ok k"
  shows "sched_step k k'"
proof (cases "readyList k")
  case (Cons q r)
  then have "sched_step k (k\<lparr>readyList := r\<rparr>)" by (auto simp: sched_step_def same_sync_def ids_ok_def)
  moreover have "fst q < nextThread (k\<lparr>readyList := r\<rparr>)" using assms(2) Cons by (simp add: ids_ok_def)
  ultimately show ?thesis using assms(1) Cons Scheduler_Run_step [of "fst q" "k\<lparr>readyList := r\<rparr>" k']
    by (auto simp: dispatch_def FindNextToRun_def split_beta intro: sched_step_trans)
qed (use assms in \<open>simp add: dispatch_def FindNextToRun_def\<close>)

lemma Thread_Sleep_step:
  assumes "Thread_Sleep k = Inr k'" "ids_ok k"
  shows "sched_step k k'"
proof -
  have "ids_ok (SetStatus BLOCKED (currentThread k) k)" using assms(2) SetStatus_step by (auto simp: sched_step_def)
  with assms dispatch_step SetStatus_step show ?thesis unfolding Thread_Sleep_def by (blast intro: sched_step_trans)
qed

lemma Thread_Yield_step:
  assumes "Thread_Yield k = Inr k'" "ids_ok k"
  shows "sched_step k k'"
proof (cases "readyList k")
  case (Cons q r)
  let ?k1 = "k\<lparr>readyList := r\<rparr>"
  have s1: "sched_step k ?k1" using Cons by (auto simp: sched_step_def same_sync_def ids_ok_def)
  have "currentThread ?k1 < nextThread ?k1" using assms(2) by (simp add: ids_ok_def)
  from ReadyToRun_ok [OF this] have s2: "sched_step ?k1 (ReadyToRun (currentThread k) ?k1)" by simp
  then have "nextThread (ReadyToRun (currentThread k) ?k1) = nextThread k" by (simp add: sched_step_def same_sync_def)
  moreover have "fst q < nextThread k" using assms(2) Cons by (simp add: ids_ok_def)
  ultimately have "sched_step (ReadyToRun (currentThread k) ?k1) k'"
    using assms(1) Cons Scheduler_Run_step [of "fst q" "ReadyToRun (currentThread k) ?k1" k']
    by (auto simp: Thread_Yield_def FindNextToRun_def split_beta)
  with s1 s2 show ?thesis by (blast intro: sched_step_trans)
qed (use assms in \<open>simp add: Thread_Yield_def FindNextToRun_def\<close>)

section \<open>Semaphores\<close>

lemma ReadyToRun_same:
  "sems (ReadyToRun t k) = sems k" "locks (ReadyToRun t k) = locks k" "conds (ReadyToRun t k) = conds k"
  "currentThread (ReadyToRun t k) = currentThread k" "nextLock (ReadyToRun t k) = nextLock k"
  "nextThread (ReadyToRun t k) = nextThread k" "code (threads (ReadyToRun t k) u) = code (threads k u)"
  "priority (threads (ReadyToRun t k) u) = priority (threads k u)"
  by (simp_all add: ReadyToRun_def thread_upd Let_def)

lemma V_same:
  "locks (Semaphore_V s k) = locks k" "conds (Semaphore_V s k) = conds k"
  "currentThread (Semaphore_V s k) = currentThread k" "nextLock (Semaphore_V s k) = nextLock k"
  "nextThread (Semaphore_V s k) = nextThread k" "code (threads (Semaphore_V s k) u) = code (threads k u)"
  by (cases "semQueue (sems k s)"; simp add: Semaphore_V_def upd_sem_def ReadyToRun_same)+

lemma V_value: "semValue (sems (Semaphore_V s k) s') = semValue (sems k s') + (if s' = s then 1 else 0)"
  by (cases "semQueue (sems k s)") (simp_all add: Semaphore_V_def upd_sem_def ReadyToRun_same)

lemma ids_ok_upd_sem:
  assumes "ids_ok k" "set (semQueue (f (sems k s))) \<subseteq> {..<nextThread k}"
  shows "ids_ok (upd_sem s f k)"
  using assms by (auto simp: ids_ok_def upd_sem_def)

lemma V_ids:
  assumes "ids_ok k"
  shows "ids_ok (Semaphore_V s k)"
proof (cases "semQueue (sems k s)")
  case Nil
  with assms show ?thesis by (simp add: Semaphore_V_def ids_ok_upd_sem)
next
  case (Cons t q)
  have b: "set (semQueue (sems k s)) \<subseteq> {..<nextThread k}" using assms by (auto simp: ids_ok_def)
  let ?k1 = "upd_sem s (\<lambda>x. x\<lparr>semQueue := q\<rparr>) k"
  have "ids_ok ?k1" using assms b Cons by (intro ids_ok_upd_sem) simp_all
  moreover have "t < nextThread ?k1" using b Cons by (simp add: upd_sem_def)
  ultimately have "ids_ok (ReadyToRun t ?k1)" using ReadyToRun_ok by (simp add: sched_step_def)
  moreover have "set q \<subseteq> {..<nextThread k}" using b Cons by simp
  ultimately show ?thesis
    by (simp add: Semaphore_V_def Cons) (intro ids_ok_upd_sem, auto simp: ReadyToRun_same upd_sem_def)
qed

lemma own_sem_neq: "own_sem s \<Longrightarrow> s \<noteq> LockSem l"
  by (auto simp: own_sem_def)

lemma V_ok:
  assumes "own_sem s" "kern_ok k"
  shows "kern_ok (Semaphore_V s k)"
proof -
  have "balanced (Semaphore_V s k) l = balanced k l" for l
    by (rule balanced_cong) (use own_sem_neq [OF assms(1), of l] in \<open>simp_all add: V_value V_same inside_def\<close>)
  with assms(2) show ?thesis by (simp add: kern_ok_def V_ids lock_ok_def V_same)
qed

text \<open>Releasing a lock: the owner leaves and the value comes back.\<close>

lemma V_lock_ok:
  assumes "kern_ok k" "lockOwner (locks k l) \<noteq> None"
  shows "kern_ok (Semaphore_V (LockSem l) (upd_lock l (\<lambda>x. x\<lparr>lockOwner := None\<rparr>) k))"
proof -
  let ?k = "upd_lock l (\<lambda>x. x\<lparr>lockOwner := None\<rparr>) k"
  have "ids_ok ?k" using assms(1) by (simp add: kern_ok_def ids_ok_def upd_lock_def)
  moreover have "inside (Semaphore_V (LockSem l) ?k) i = inside k i" for i
    by (simp add: inside_def V_same upd_lock_def)
  moreover have "balanced (Semaphore_V (LockSem l) ?k) i" for i
  proof -
    have "balanced k i" using assms(1) by (simp add: kern_ok_def lock_ok_def)
    with assms(2) calculation(2) [of i] show ?thesis
      by (auto simp: balanced_def owned_def V_same V_value upd_lock_def)
  qed
  moreover have "code (threads (Semaphore_V (LockSem l) ?k) t) = code (threads k t)" for t
    by (simp add: V_same upd_lock_def)
  ultimately show ?thesis using assms by (simp add: kern_ok_def V_ids lock_ok_def V_same upd_lock_def)
qed

section \<open>Code\<close>

lemma push_same:
  "sems (push cs k) = sems k" "locks (push cs k) = locks k" "conds (push cs k) = conds k" "readyList (push cs k) = readyList k"
  "currentThread (push cs k) = currentThread k" "nextLock (push cs k) = nextLock k" "nextThread (push cs k) = nextThread k"
  "channels (push cs k) = channels k" "nextWait (push cs k) = nextWait k"
  "code (threads (push cs k) t) = (if t = currentThread k then cs @ code (cur k) else code (threads k t))"
  by (simp_all add: push_def upd_thread_def)

lemma push_ids: "ids_ok k \<Longrightarrow> ids_ok (push cs k)"
  by (auto simp: ids_ok_def push_same)

lemma code_form_user: "user_code cs \<Longrightarrow> code_form n cs"
  by (simp add: code_form_def)

lemma user_not_inside: "user_code (code (threads k t)) \<Longrightarrow> t \<notin> inside k l"
  by (auto simp: inside_def)

lemma push_user:
  assumes "user_ok k" "user_code cs"
  shows "user_ok (push cs k)"
proof -
  have u: "user_code (cs @ code (cur k))" using assms by (auto simp: user_ok_def)
  then have "cs @ code (cur k) \<noteq> TakeLock l # cs'" for l cs' by (metis list.set_intros(1) user_call.simps(3))
  then have "inside (push cs k) l = inside k l" for l
    using user_not_inside [of k "currentThread k" l] assms(1)
    by (auto simp: inside_def push_same user_ok_def split: if_splits)
  then have "balanced (push cs k) l = balanced k l" for l by (rule balanced_cong [rotated]) (simp_all add: push_same)
  with assms(1) u show ?thesis
    by (auto simp: user_ok_def kern_ok_def push_ids lock_ok_def push_same code_form_user)
qed

text \<open>Setting the code of the current thread, when it is not inside a lock.\<close>

lemma set_code_same:
  "sems (set_code cs k) = sems k" "locks (set_code cs k) = locks k" "conds (set_code cs k) = conds k"
  "readyList (set_code cs k) = readyList k"
  "currentThread (set_code cs k) = currentThread k" "nextLock (set_code cs k) = nextLock k" "nextThread (set_code cs k) = nextThread k"
  "code (threads (set_code cs k) t) = (if t = currentThread k then cs else code (threads k t))"
  by (simp_all add: set_code_def upd_thread_def)

lemma set_code_user:
  assumes "kern_ok k" "\<And>l. currentThread k \<notin> inside k l" "user_code cs"
  shows "user_ok (set_code cs k)"
proof -
  have "inside (set_code cs k) l = inside k l" for l
    using assms(2) [of l] assms(3) by (auto simp: inside_def set_code_same split: if_splits)
  then have "balanced (set_code cs k) l = balanced k l" for l by (rule balanced_cong [rotated]) (simp_all add: set_code_same)
  moreover have "ids_ok (set_code cs k)" using assms(1) by (auto simp: kern_ok_def ids_ok_def set_code_same)
  ultimately show ?thesis using assms
    by (auto simp: user_ok_def kern_ok_def lock_ok_def set_code_same code_form_user)
qed

lemma push_set_code: "set_code (cs @ cs') k = push cs (set_code cs' k)"
  by (simp add: set_code_def push_def upd_thread_def)

section \<open>The operations keep the balance\<close>

text \<open>The semaphore of a lock: passing it takes the unit, waiting for it does not.\<close>

lemma P_lock_ok:
  assumes "user_ok k" "l < nextLock k" "Semaphore_P (LockSem l) (push [TakeLock l] k) = Inr k'"
  shows "kern_ok k'"
proof (cases "semValue (sems k (LockSem l)) = 0")
  case True
  let ?k1 = "upd_sem (LockSem l) (\<lambda>x. x\<lparr>semQueue := semQueue x @ [currentThread k]\<rparr>) k"
  let ?k2 = "push [CallP (LockSem l), TakeLock l] ?k1"
  have k2: "push [CallP (LockSem l)] (upd_sem (LockSem l) (\<lambda>x. x\<lparr>semQueue := semQueue x @ [currentThread k]\<rparr>)
      (push [TakeLock l] k)) = ?k2"
    by (simp add: push_def upd_sem_def upd_thread_def)
  have ids: "ids_ok k" using assms(1) by (simp add: user_ok_def kern_ok_def)
  then have "ids_ok ?k1" by (intro ids_ok_upd_sem) (auto simp: ids_ok_def)
  then have "ids_ok ?k2" by (rule push_ids)
  moreover have "lock_ok ?k2"
  proof -
    have u: "user_code (code (cur k))" using assms(1) by (simp add: user_ok_def)
    have "inside ?k2 i = inside k i" for i
      using user_not_inside [OF u, of i] by (auto simp: inside_def push_same upd_sem_def)
    then have "balanced ?k2 i = balanced k i" for i
      by (intro balanced_cong) (simp_all add: push_same upd_sem_def)
    moreover have "code_form (nextLock k) (CallP (LockSem l) # TakeLock l # code (cur k))"
      using u assms(2) by (auto simp: code_form_def)
    ultimately show ?thesis using assms(1)
      by (simp add: user_ok_def kern_ok_def lock_ok_def push_same upd_sem_def)
  qed
  moreover have "Thread_Sleep ?k2 = Inr k'" using assms(3) True by (simp add: Semaphore_P_def push_same k2)
  ultimately show ?thesis using Thread_Sleep_step [of ?k2 k'] sched_step_ok [of ?k2 k'] by (simp add: kern_ok_def)
next
  case False
  let ?f = "\<lambda>x. x\<lparr>semValue := semValue x - 1\<rparr>"
  have k': "k' = upd_sem (LockSem l) ?f (push [TakeLock l] k)" using assms(3) False by (simp add: Semaphore_P_def push_same)
  have ids: "ids_ok k" and u: "user_code (code (cur k))" using assms(1) by (simp_all add: user_ok_def kern_ok_def)
  have "ids_ok k'" unfolding k' using push_ids [OF ids] by (intro ids_ok_upd_sem) (auto simp: ids_ok_def)
  moreover have "balanced k' i" for i
  proof -
    have b: "balanced k i" using assms(1) by (simp add: user_ok_def kern_ok_def lock_ok_def)
    have "inside k' i = (if i = l then insert (currentThread k) (inside k i) else inside k i)"
      using user_not_inside [OF u, of i] unfolding k' by (auto simp: inside_def push_same upd_sem_def)
    with b False finite_inside [OF ids, of i] user_not_inside [OF u, of i] show ?thesis
      unfolding k' by (auto simp: balanced_def owned_def push_same upd_sem_def)
  qed
  moreover have "code_form (nextLock k) (TakeLock l # code (cur k))" using u assms(2) by (auto simp: code_form_def)
  ultimately show ?thesis using assms(1) unfolding k'
    by (simp add: user_ok_def kern_ok_def lock_ok_def push_same upd_sem_def)
qed

lemma take_lock_ok:
  assumes "kern_ok k" "code (cur k) = TakeLock l # cs"
  shows "kern_ok (take_lock l (set_code cs k))"
proof -
  let ?k = "take_lock l (set_code cs k)"
  have ids: "ids_ok k" using assms(1) by (simp add: kern_ok_def)
  have "code_form (nextLock k) (code (cur k))" using assms(1) by (simp add: kern_ok_def lock_ok_def)
  with assms(2) have u: "user_code cs" by (auto simp: code_form_def)
  have "ids_ok ?k" using ids by (auto simp: ids_ok_def take_lock_def upd_lock_def set_code_same)
  moreover have "balanced ?k i" for i
  proof -
    have b: "balanced k i" using assms(1) by (simp add: kern_ok_def lock_ok_def)
    have i: "inside ?k i = inside k i - {currentThread k}"
      using u by (auto simp: inside_def take_lock_def upd_lock_def set_code_same)
    have m: "(currentThread k \<in> inside k i) = (i = l)" using assms(2) by (auto simp: inside_def)
    show ?thesis
    proof (cases "i = l")
      case True
      then have "card (inside k i) = Suc (card (inside ?k i))"
        using m finite_inside [OF ids, of i] card.remove [of "inside k i" "currentThread k"] i by simp
      with b True show ?thesis
        by (auto simp: balanced_def owned_def take_lock_def upd_lock_def set_code_same split: if_splits)
    next
      case False
      then have "inside ?k i = inside k i" using i m by auto
      with False b show ?thesis by (simp add: balanced_def owned_def take_lock_def upd_lock_def set_code_same)
    qed
  qed
  ultimately show ?thesis using assms(1) u
    by (simp add: kern_ok_def lock_ok_def take_lock_def upd_lock_def set_code_same code_form_user)
qed

lemma P_own_ok:
  assumes "user_ok k" "own_sem s" "Semaphore_P s k = Inr k'"
  shows "kern_ok k'"
proof -
  have other: "kern_ok (upd_sem s f k1) = kern_ok k1"
    if "set (semQueue (f (sems k1 s))) \<subseteq> {..<nextThread k1}" "ids_ok k1" for f k1
  proof -
    have "balanced (upd_sem s f k1) l = balanced k1 l" for l
      by (rule balanced_cong) (use own_sem_neq [OF assms(2), of l] in \<open>simp_all add: upd_sem_def inside_def\<close>)
    with that show ?thesis by (simp add: kern_ok_def lock_ok_def ids_ok_upd_sem) (simp add: upd_sem_def)
  qed
  have ids: "ids_ok k" using assms(1) by (simp add: user_ok_def kern_ok_def)
  then have q: "set (semQueue (sems k s)) \<subseteq> {..<nextThread k}" "currentThread k < nextThread k" by (auto simp: ids_ok_def)
  show ?thesis
  proof (cases "semValue (sems k s) = 0")
    case True
    let ?k1 = "upd_sem s (\<lambda>x. x\<lparr>semQueue := semQueue x @ [currentThread k]\<rparr>) k"
    have "kern_ok ?k1" using assms(1) other [OF _ ids] q by (simp add: user_ok_def)
    then have "user_ok ?k1" using assms(1) by (simp add: user_ok_def upd_sem_def)
    from push_user [OF this, of "[CallP s]"] assms(2) have "kern_ok (push [CallP s] ?k1)" by (simp add: user_ok_def)
    moreover have "Thread_Sleep (push [CallP s] ?k1) = Inr k'" using assms(3) True by (simp add: Semaphore_P_def)
    ultimately show ?thesis using Thread_Sleep_step sched_step_ok unfolding kern_ok_def by blast
  next
    case False
    with assms(3) have "k' = upd_sem s (\<lambda>x. x\<lparr>semValue := semValue x - 1\<rparr>) k" by (simp add: Semaphore_P_def)
    then show ?thesis using assms(1) other [OF _ ids] q by (simp add: user_ok_def)
  qed
qed

lemma inherit_ok:
  assumes "user_ok k"
  shows "user_ok (inherit l k) \<and> nextLock (inherit l k) = nextLock k"
proof (cases "lockOwner (locks k l)")
  case (Some o')
  let ?k1 = "upd_lock l (\<lambda>x. x\<lparr>oldPriority := priority (threads k o')\<rparr>) k"
  have "sched_step k ?k1" by (simp add: sched_step_def same_sync_def upd_lock_def ids_ok_def)
  then have "sched_step k (ModifyPriority o' (SetPriority (priority (cur k)) o' ?k1))"
    by (blast intro: sched_step_trans SetPriority_step ModifyPriority_step)
  moreover from this assms have "user_ok (ModifyPriority o' (SetPriority (priority (cur k)) o' ?k1))"
    by (auto simp: user_ok_def sched_step_ok ModifyPriority_same SetPriority_def upd_thread_def upd_lock_def)
  ultimately show ?thesis using Some assms by (simp add: inherit_def Let_def sched_step_def same_sync_def)
qed (use assms in \<open>simp add: inherit_def\<close>)

lemma Acquire_ok: "user_ok k \<Longrightarrow> Lock_Acquire l k = Inr k' \<Longrightarrow> kern_ok k'"
  using P_lock_ok [of "inherit l k" l k'] inherit_ok [of k l]
  by (auto simp: Lock_Acquire_def rcheck_def rassert_def split: if_splits)

lemma upd_lock_commute:
  "ModifyPriority t (SetPriority p t (upd_lock l f k)) = upd_lock l f (ModifyPriority t (SetPriority p t k))"
  "threads (upd_lock l f k) = threads k"
  by (simp_all add: ModifyPriority_def SetPriority_def upd_thread_def upd_lock_def)

lemma Release_ok:
  assumes "kern_ok k" "Lock_Release l k = Inr k'"
  shows "kern_ok k'"
proof -
  let ?t = "currentThread k" and ?p = "oldPriority (locks k l)"
  let ?k1 = "if priority (cur k) \<noteq> ?p then ModifyPriority ?t (SetPriority ?p ?t k) else k"
  have held: "lockOwner (locks k l) = Some ?t"
    using assms(2) by (auto simp: Lock_Release_def IsHeldByCurrentThread_def rassert_def split: if_splits)
  have "k' = Semaphore_V (LockSem l) (upd_lock l (\<lambda>x. x\<lparr>lockOwner := None\<rparr>) ?k1)"
    using assms(2) held
    by (auto simp: Lock_Release_def IsHeldByCurrentThread_def upd_lock_commute Let_def)
  moreover have "sched_step k ?k1" by (auto intro: sched_step_trans SetPriority_step ModifyPriority_step)
  then have "kern_ok ?k1" "lockOwner (locks ?k1 l) = lockOwner (locks k l)"
    using sched_step_ok [OF _ assms(1), of ?k1] by (simp, simp add: sched_step_def same_sync_def)
  ultimately show ?thesis using V_lock_ok [of ?k1 l] held by simp
qed

lemma Wait_ok:
  assumes "user_ok k" "Condition_Wait c k = Inr k'"
  shows "kern_ok k'"
proof -
  let ?s = "WaitSem (nextWait k)" and ?l = "conditionLock (conds k c)"
  let ?k1 = "k\<lparr>nextWait := nextWait k + 1, sems := (sems k)(?s := Semaphore_new 0),
      conds := (conds k)(c := (conds k c)\<lparr>condQueue := condQueue (conds k c) @ [?s]\<rparr>)\<rparr>"
  have "balanced ?k1 l = balanced k l" for l by (rule balanced_cong) (simp_all add: inside_def)
  moreover have "ids_ok ?k1" using assms(1)
    by (auto simp: user_ok_def kern_ok_def ids_ok_def Semaphore_new_def own_sem_def)
  ultimately have "user_ok ?k1" using assms(1) by (simp add: user_ok_def kern_ok_def lock_ok_def)
  from push_user [OF this, of "[CallP ?s, CallAcquire ?l]"] have "kern_ok (push [CallP ?s, CallAcquire ?l] ?k1)"
    by (simp add: user_ok_def own_sem_def)
  moreover have "Lock_Release ?l (push [CallP ?s, CallAcquire ?l] ?k1) = Inr k'"
    using assms(2) by (auto simp: Condition_Wait_def Let_def rassert_def split: if_splits)
  ultimately show ?thesis by (rule Release_ok)
qed

lemma Signal_ok:
  assumes "kern_ok k" "Condition_Signal c k = Inr k'"
  shows "kern_ok k'"
proof (cases "condQueue (conds k c)")
  case (Cons s q)
  have "\<forall>x \<in> set (condQueue (conds k c)). own_sem x" using assms(1) by (simp add: kern_ok_def ids_ok_def)
  with Cons have "own_sem s" by simp
  with V_ok assms Cons show ?thesis by (auto simp: Condition_Signal_def rassert_def split: if_splits)
qed (use assms in \<open>auto simp: Condition_Signal_def rassert_def split: if_splits\<close>)

lemma Broadcast_ok: "user_ok k \<Longrightarrow> Condition_Broadcast c k = Inr k' \<Longrightarrow> kern_ok k'"
  using push_user [of k "[CallBroadcast c]"] Signal_ok [of "push [CallBroadcast c] k" c k']
  by (auto simp: Condition_Broadcast_def user_ok_def split: if_splits)

lemma upd_channel_ok: "user_ok (upd_channel ch f k) = user_ok k"
proof -
  have "balanced (upd_channel ch f k) l = balanced k l" for l
    by (rule balanced_cong) (simp_all add: upd_channel_def inside_def)
  then show ?thesis by (simp add: user_ok_def kern_ok_def lock_ok_def) (simp add: ids_ok_def upd_channel_def)
qed

lemma send_loop_ok:
  assumes "user_ok k" "send_loop ch m k = Inr k'"
  shows "kern_ok k'"
proof (cases "buzon (channels k ch) \<noteq> [] \<and> m = hd (buzon (channels k ch))")
  case True
  have "user_ok (push [SendLoop ch m] k)" using assms(1) by (rule push_user) simp
  with assms(2) True Wait_ok show ?thesis by (auto simp: send_loop_def Let_def)
next
  case False
  with assms(2) have "Lock_Release (channelLock (channels k ch)) k = Inr k'" by (auto simp: send_loop_def Let_def)
  with assms(1) Release_ok show ?thesis by (auto simp: user_ok_def)
qed

lemma send_put_ok:
  assumes "user_ok k" "send_put ch m k = Inr k'"
  shows "kern_ok k'"
proof -
  have "user_ok (push [SendMsg ch] (upd_channel ch (\<lambda>x. x\<lparr>buzon := buzon x @ [m]\<rparr>) k))"
    by (rule push_user) (simp_all add: upd_channel_ok assms(1))
  with assms(2) Signal_ok show ?thesis by (auto simp: send_put_def user_ok_def)
qed

lemma received_ok:
  assumes "user_ok k"
  shows "user_ok (upd_thread (currentThread k) (\<lambda>t. t\<lparr>received := m\<rparr>) k)"
proof -
  have "sched_step k (upd_thread (currentThread k) (\<lambda>t. t\<lparr>received := m\<rparr>) k)"
    by (simp add: sched_step_def same_sync_def ids_ok_def upd_thread_def)
  with assms sched_step_ok show ?thesis by (auto simp: user_ok_def upd_thread_def)
qed

lemma recv_loop_ok:
  assumes "user_ok k" "recv_loop ch k = Inr k'"
  shows "kern_ok k'"
proof (cases "buzon (channels k ch)")
  case Nil
  have "user_ok (push [RecvLoop ch] k)" using assms(1) by (rule push_user) simp
  with assms(2) Nil Wait_ok show ?thesis by (auto simp: recv_loop_def Let_def)
next
  case (Cons m q)
  let ?k1 = "upd_channel ch (\<lambda>x. x\<lparr>buzon := q\<rparr>) k"
  have "user_ok (upd_thread (currentThread ?k1) (\<lambda>t. t\<lparr>received := m\<rparr>) ?k1)"
    by (rule received_ok) (simp add: upd_channel_ok assms(1))
  moreover have "currentThread ?k1 = currentThread k" by (simp add: upd_channel_def)
  ultimately have "user_ok (push [CallRelease (channelLock (channels k ch))]
      (upd_thread (currentThread k) (\<lambda>t. t\<lparr>received := m\<rparr>) ?k1))"
    by (intro push_user) simp_all
  with assms(2) Cons Signal_ok show ?thesis by (auto simp: recv_loop_def user_ok_def Let_def)
qed

lemma Channel_new_ok:
  assumes "user_ok k" "Channel_new k = (ch, k')"
  shows "user_ok k' \<and> nextThread k' = nextThread k \<and> threads k' = threads k \<and> currentThread k' = currentThread k"
proof -
  have "\<not> (\<exists>cs. code (threads k t) = TakeLock (nextLock k) # cs)" for t
  proof -
    have "code_form (nextLock k) (code (threads k t))" using assms(1) by (simp add: user_ok_def kern_ok_def lock_ok_def)
    then show ?thesis by (auto simp: code_form_def)
  qed
  then have e: "inside k (nextLock k) = {}" by (simp add: inside_def)
  have k': "threads k' = threads k" "nextLock k' = Suc (nextLock k)" "currentThread k' = currentThread k" "nextThread k' = nextThread k"
    "sems k' = (sems k)(LockSem (nextLock k) := Semaphore_new 1)" "readyList k' = readyList k"
    "locks k' = (locks k)(nextLock k := \<lparr>lockOwner = None, oldPriority = 0\<rparr>)"
    "\<forall>c. set (condQueue (conds k' c)) \<subseteq> set (condQueue (conds k c))"
    using assms(2) by (auto simp: Channel_new_def Let_def split: if_splits)
  have "balanced k' l" for l
  proof (cases "l = nextLock k")
    case True
    with e k' show ?thesis by (simp add: balanced_def owned_def inside_def Semaphore_new_def)
  next
    case False
    then have "balanced k' l = balanced k l" using k' by (intro balanced_cong) (simp_all add: inside_def)
    then show ?thesis using assms(1) by (simp add: user_ok_def kern_ok_def lock_ok_def)
  qed
  moreover have "ids_ok k'"
  proof -
    have "\<forall>c. \<forall>s \<in> set (condQueue (conds k c)). own_sem s" using assms(1) by (simp add: user_ok_def kern_ok_def ids_ok_def)
    with k'(8) have "\<forall>c. \<forall>s \<in> set (condQueue (conds k' c)). own_sem s" by blast
    with assms(1) k' show ?thesis by (simp add: user_ok_def kern_ok_def ids_ok_def Semaphore_new_def)
  qed
  moreover have "code_form (nextLock k') (code (threads k' t))" for t
  proof -
    have "code_form (nextLock k) (code (threads k t))" using assms(1) by (simp add: user_ok_def kern_ok_def lock_ok_def)
    then show ?thesis using k' by (auto simp: code_form_def less_Suc_eq)
  qed
  ultimately show ?thesis using assms(1) k' by (simp add: user_ok_def kern_ok_def lock_ok_def)
qed

lemma Fork_ok:
  assumes "user_ok k" "user_code body" "Thread_Fork body j p k = Inr k'"
  shows "kern_ok k'"
proof -
  obtain ch k1 where ck: "(if j then Channel_new k else (0, k)) = (ch, k1)" by fastforce
  have k1: "user_ok k1" "nextThread k1 = nextThread k" "threads k1 = threads k"
    using ck assms(1) Channel_new_ok [of k ch k1] by (auto split: if_splits)
  let ?t = "nextThread k"
  obtain sid tbl where add: "Table_Add (runningProcesses k1) ?t = Inr (sid, tbl)"
    using assms(3) ck by (cases "Table_Add (runningProcesses k1) ?t") (auto simp: Thread_Fork_def Thread_new_def Let_def)
  let ?th = "\<lparr>status = JUST_CREATED, priority = p, joinable = j, joinChannel = ch, spaceId = sid, started = False,
      hasSpace = False, userRegisters = replicate 40 0, code = body @ [CallFinish 0], received = 0\<rparr>"
  let ?k2 = "k1\<lparr>nextThread := ?t + 1, live := (live k1)(?t := True), runningProcesses := tbl, threads := (threads k1)(?t := ?th)\<rparr>"
  have k': "k' = ReadyToRun ?t ?k2" using assms(3) ck add by (simp add: Thread_Fork_def Thread_new_def Let_def)
  have i1: "ids_ok k1" "lock_ok k1" using k1(1) by (simp_all add: user_ok_def kern_ok_def)
  have old: "code (threads k1 ?t) = []" using i1(1) k1(2) by (simp add: ids_ok_def)
  have "ids_ok ?k2" using i1(1) k1(2) unfolding ids_ok_def by (auto intro: less_SucI)
  moreover have "body @ [CallFinish 0] \<noteq> TakeLock l # cs" for l cs using assms(2) by (cases body) auto
  then have "inside ?k2 l = inside k1 l" for l using old by (auto simp: inside_def split: if_splits)
  then have "balanced ?k2 l = balanced k1 l" for l by (rule balanced_cong [rotated]) simp_all
  then have "lock_ok ?k2" using i1(2) assms(2) by (auto simp: lock_ok_def code_form_user)
  ultimately have "kern_ok ?k2" by (simp add: kern_ok_def)
  moreover have "?t < nextThread ?k2" by simp
  ultimately show ?thesis unfolding k' using ReadyToRun_ok sched_step_ok by blast
qed

lemma Send_ok: "user_ok k \<Longrightarrow> Channel_Send ch m k = Inr k' \<Longrightarrow> kern_ok k'"
  using Acquire_ok [OF push_user [of k "[SendPut ch m]"]] by (auto simp: Channel_Send_def)

lemma Receive_ok: "user_ok k \<Longrightarrow> Channel_Receive ch k = Inr k' \<Longrightarrow> kern_ok k'"
  using Acquire_ok [OF push_user [of k "[RecvLoop ch]"]] by (auto simp: Channel_Receive_def)

lemma Finish_ok:
  assumes "user_ok k" "Thread_Finish st k = Inr k'"
  shows "kern_ok k'"
proof -
  have "user_ok (push [FinishSleep] k)" using assms(1) by (rule push_user) simp
  then show ?thesis using assms(2) Send_ok by (auto simp: Thread_Finish_def Let_def user_ok_def split: if_splits)
qed

lemma finish_sleep_ok:
  assumes "kern_ok k" "finish_sleep k = Inr k'"
  shows "kern_ok k'"
proof -
  have "sched_step k (k\<lparr>threadToBeDestroyed := Some (currentThread k)\<rparr>)"
    by (simp add: sched_step_def same_sync_def ids_ok_def)
  with assms(1) have "kern_ok (k\<lparr>threadToBeDestroyed := Some (currentThread k)\<rparr>)" using sched_step_ok by blast
  moreover have "Thread_Sleep (k\<lparr>threadToBeDestroyed := Some (currentThread k)\<rparr>) = Inr k'"
    using assms(2) by (simp add: finish_sleep_def split: if_splits)
  ultimately show ?thesis using Thread_Sleep_step sched_step_ok unfolding kern_ok_def by blast
qed

lemma Join_ok:
  assumes "user_ok k" "Thread_Join t k = Inr k'"
  shows "kern_ok k'"
  using assms(2) Receive_ok [OF push_user [OF assms(1), of "[JoinYield]"]]
  by (auto simp: Thread_Join_def rcheck_def rassert_def split: if_splits)

lemma Yield_ok: "kern_ok k \<Longrightarrow> Thread_Yield k = Inr k' \<Longrightarrow> kern_ok k'"
  using Thread_Yield_step sched_step_ok unfolding kern_ok_def by blast

lemma join_yield_ok: "kern_ok k \<Longrightarrow> join_yield k = Inr k' \<Longrightarrow> kern_ok k'"
  by (auto simp: join_yield_def Yield_ok split: if_splits)

lemmas call_ok = P_own_ok Acquire_ok Wait_ok Broadcast_ok Send_ok send_put_ok send_loop_ok Receive_ok recv_loop_ok
  Finish_ok Join_ok Fork_ok

lemma exec_user_ok:
  assumes "user_ok k" "user_call c" "exec_call c k = Inr k'"
  shows "kern_ok k'"
proof -
  have ok: "kern_ok k" using assms(1) by (simp add: user_ok_def)
  have msg: "send_msg ch k = Inr k' \<Longrightarrow> kern_ok k'" for ch
    using send_loop_ok [OF assms(1)] by (auto simp: send_msg_def rassert_def split: if_splits)
  note rules = call_ok [OF assms(1)] msg Release_ok [OF ok] Signal_ok [OF ok] Yield_ok [OF ok] join_yield_ok [OF ok]
    finish_sleep_ok [OF ok] V_ok [OF _ ok]
  from assms(2,3) show ?thesis
    by (cases c) (simp_all add: exec_call_def rcheck_def split: if_splits, (blast intro: rules)+)
qed

text \<open>Every step keeps the invariant.\<close>

lemma step_ok:
  assumes "kern_ok k" "step k k'"
  shows "kern_ok k'"
  using assms(2,1)
proof (cases rule: step.cases)
  case (run c cs)
  have cf: "code_form (nextLock k) (c # cs)"
  proof -
    have "code_form (nextLock k) (code (cur k))" using assms(1) by (simp add: kern_ok_def lock_ok_def)
    then show ?thesis using run(2) by simp
  qed
  then consider (user) "user_code (c # cs)" | (take) l where "c = TakeLock l"
    | (again) l cs' where "c = CallP (LockSem l)" "cs = TakeLock l # cs'" "user_code cs'" "l < nextLock k"
    by (auto simp: code_form_def)
  then show ?thesis
  proof cases
    case user
    have "user_ok (set_code cs k)" using assms(1) user run(2) by (intro set_code_user user_not_inside) auto
    with user run(3) show ?thesis by (intro exec_user_ok) auto
  next
    case take
    with run assms(1) take_lock_ok [of k] show ?thesis by (auto simp: exec_call_def)
  next
    case again
    have "user_ok (set_code cs' k)" using assms(1) again run(2) by (intro set_code_user) (auto simp: inside_def)
    moreover have "exec_call c (set_code cs k) = Semaphore_P (LockSem l) (push [TakeLock l] (set_code cs' k))"
      using again push_set_code [of "[TakeLock l]" cs' k] by (simp add: exec_call_def sem_exists_def push_same set_code_same)
    ultimately show ?thesis using run(3) again(4) by (intro P_lock_ok) (simp_all add: set_code_same)
  qed
next
  case timeslice
  with assms(1) Yield_ok show ?thesis by blast
next
  case (device d)
  with assms(1) V_ok [of "DevSem d" k] show ?thesis by (simp add: own_sem_def)
next
  case idle
  with assms(1) dispatch_step sched_step_ok show ?thesis unfolding kern_ok_def by blast
qed

lemma reachable_ok: "reachable k0 k \<Longrightarrow> kern_ok k0 \<Longrightarrow> kern_ok k"
  by (induction rule: reachable.induct) (auto intro: step_ok)

section \<open>Condition queues\<close>

text \<open>No operation takes a semaphore out of the queue of a condition.\<close>

definition conds_grow :: "kern \<Rightarrow> kern \<Rightarrow> bool" where
  "conds_grow k k' \<longleftrightarrow> nextCond k \<le> nextCond k'
     \<and> (\<forall>c < nextCond k. \<exists>q. condQueue (conds k' c) = condQueue (conds k c) @ q)"

lemma conds_grow_refl [simp]: "conds_grow k k"
  by (simp add: conds_grow_def)

lemma conds_grow_trans: "conds_grow k k1 \<Longrightarrow> conds_grow k1 k2 \<Longrightarrow> conds_grow k k2"
  unfolding conds_grow_def by (metis append.assoc order.strict_trans2 order.trans)

definition same_conds :: "kern \<Rightarrow> kern \<Rightarrow> bool" where
  "same_conds k k' \<longleftrightarrow> conds k' = conds k \<and> nextCond k' = nextCond k"

lemma same_conds_grow: "same_conds k k' \<Longrightarrow> conds_grow k k'"
  by (simp add: same_conds_def conds_grow_def)

lemma same_conds_trans: "same_conds k k1 \<Longrightarrow> same_conds k1 k2 \<Longrightarrow> same_conds k k2"
  by (simp add: same_conds_def)

lemma same_conds_simps [simp]:
  "same_conds k k" "same_conds k (upd_thread t f k)" "same_conds k (push cs k)" "same_conds k (set_code cs k)"
  "same_conds k (SetStatus st t k)" "same_conds k (SetPriority p t k)" "same_conds k (ModifyPriority t k)"
  "same_conds k (ReadyToRun t k)" "same_conds k (upd_sem s g k)" "same_conds k (upd_lock l h k)" "same_conds k (upd_channel ch e k)"
  by (simp_all add: same_conds_def thread_upd push_def set_code_def ModifyPriority_def ReadyToRun_def upd_sem_def
      upd_lock_def upd_channel_def Let_def)

lemma V_conds [simp]: "same_conds k (Semaphore_V s k)"
  by (cases "semQueue (sems k s)") (simp_all add: Semaphore_V_def same_conds_def upd_sem_def ReadyToRun_def thread_upd Let_def)

lemma Run_conds:
  assumes "Scheduler_Run t k = Inr k'"
  shows "same_conds k k'"
proof -
  let ?k1 = "SetStatus RUNNING t ((if hasSpace (cur k) then SaveUserState (currentThread k) k else k)\<lparr>currentThread := t\<rparr>)"
  have "same_conds k ?k1" by (simp add: same_conds_def thread_upd)
  moreover have "same_conds ?k1 k'"
    using after_switch_cases [of ?k1 k'] assms by (auto simp: Scheduler_Run_def Let_def same_conds_def upd_thread_def)
  ultimately show ?thesis by (rule same_conds_trans)
qed

lemma dispatch_conds: "dispatch k = Inr k' \<Longrightarrow> same_conds k k'"
  using Run_conds [of _ "k\<lparr>readyList := _\<rparr>" k']
  by (fastforce simp: dispatch_def FindNextToRun_def same_conds_def split: list.splits prod.splits)

lemma Sleep_conds: "Thread_Sleep k = Inr k' \<Longrightarrow> same_conds k k'"
  unfolding Thread_Sleep_def using dispatch_conds same_conds_trans same_conds_simps(5) by blast

lemma Yield_conds:
  assumes "Thread_Yield k = Inr k'"
  shows "same_conds k k'"
proof (cases "readyList k")
  case (Cons q r)
  then have "Scheduler_Run (fst q) (ReadyToRun (currentThread k) (k\<lparr>readyList := r\<rparr>)) = Inr k'"
    using assms by (simp add: Thread_Yield_def FindNextToRun_def split_beta)
  from Run_conds [OF this] show ?thesis by (simp add: same_conds_def ReadyToRun_def thread_upd Let_def)
qed (use assms in \<open>simp add: Thread_Yield_def FindNextToRun_def\<close>)

lemma P_conds:
  assumes "Semaphore_P s k = Inr k'"
  shows "same_conds k k'"
proof (cases "semValue (sems k s) = 0")
  case True
  with assms have "Thread_Sleep (push [CallP s] (upd_sem s (\<lambda>x. x\<lparr>semQueue := semQueue x @ [currentThread k]\<rparr>) k)) = Inr k'"
    by (simp add: Semaphore_P_def)
  from Sleep_conds [OF this] show ?thesis by (simp add: same_conds_def push_same upd_sem_def) (simp add: push_def upd_thread_def)
qed (use assms in \<open>auto simp: Semaphore_P_def\<close>)

lemma Acquire_conds:
  assumes "Lock_Acquire l k = Inr k'"
  shows "same_conds k k'"
proof -
  have "same_conds k (inherit l k)"
    by (auto simp: inherit_def Let_def same_conds_def ModifyPriority_def SetPriority_def upd_thread_def upd_lock_def split: option.split)
  moreover have "same_conds (push [TakeLock l] (inherit l k)) k'"
    using assms P_conds by (auto simp: Lock_Acquire_def rcheck_def rassert_def split: if_splits)
  ultimately show ?thesis using same_conds_trans same_conds_simps(3) by blast
qed

lemma Release_conds:
  assumes "Lock_Release l k = Inr k'"
  shows "same_conds k k'"
proof -
  let ?k1 = "upd_lock l (\<lambda>x. x\<lparr>lockOwner := None\<rparr>) k"
  let ?k2 = "if priority (threads ?k1 (currentThread k)) \<noteq> oldPriority (locks k l)
    then ModifyPriority (currentThread k) (SetPriority (oldPriority (locks k l)) (currentThread k) ?k1) else ?k1"
  have "k' = Semaphore_V (LockSem l) ?k2" using assms by (auto simp: Lock_Release_def Let_def rassert_def split: if_splits)
  moreover have "same_conds k ?k2" by (simp add: same_conds_def ModifyPriority_def SetPriority_def upd_thread_def upd_lock_def)
  ultimately show ?thesis using same_conds_trans V_conds by blast
qed

lemma Wait_conds:
  assumes "Condition_Wait c k = Inr k'"
  shows "conds_grow k k'"
proof -
  let ?s = "WaitSem (nextWait k)" and ?l = "conditionLock (conds k c)"
  let ?k1 = "k\<lparr>nextWait := nextWait k + 1, sems := (sems k)(?s := Semaphore_new 0),
      conds := (conds k)(c := (conds k c)\<lparr>condQueue := condQueue (conds k c) @ [?s]\<rparr>)\<rparr>"
  have "Lock_Release ?l (push [CallP ?s, CallAcquire ?l] ?k1) = Inr k'"
    using assms by (auto simp: Condition_Wait_def Let_def rassert_def split: if_splits)
  then have "same_conds (push [CallP ?s, CallAcquire ?l] ?k1) k'" by (rule Release_conds)
  then have "same_conds ?k1 k'" using same_conds_trans same_conds_simps(3) by blast
  moreover have "conds_grow k ?k1" by (simp add: conds_grow_def)
  ultimately show ?thesis using same_conds_grow conds_grow_trans by blast
qed

lemma Signal_conds: "Condition_Signal c k = Inr k' \<Longrightarrow> same_conds k k'"
  by (auto simp: Condition_Signal_def rassert_def split: if_splits list.splits)

lemma push_conds: "conds_grow (push cs k) k' = conds_grow k k'" "same_conds (push cs k) k' = same_conds k k'"
  by (simp_all add: conds_grow_def same_conds_def push_def upd_thread_def)

lemma upd_conds: "conds_grow (upd_channel ch f k) k' = conds_grow k k'" "same_conds (upd_channel ch f k) k' = same_conds k k'"
  "same_conds (upd_thread t g k) k' = same_conds k k'"
  by (simp_all add: conds_grow_def same_conds_def upd_channel_def upd_thread_def)

lemma send_loop_conds: "send_loop ch m k = Inr k' \<Longrightarrow> conds_grow k k'"
  using Wait_conds [of _ "push [SendLoop ch m] k" k'] Release_conds same_conds_grow
  by (auto simp: send_loop_def Let_def push_conds split: if_splits)

lemma send_msg_conds: "send_msg ch k = Inr k' \<Longrightarrow> conds_grow k k'"
  using send_loop_conds by (auto simp: send_msg_def rassert_def split: if_splits)

lemma send_put_conds: "send_put ch m k = Inr k' \<Longrightarrow> same_conds k k'"
  using Signal_conds by (fastforce simp: send_put_def push_conds upd_conds)

lemma recv_loop_conds: "recv_loop ch k = Inr k' \<Longrightarrow> conds_grow k k'"
  using Wait_conds [of _ "push [RecvLoop ch] k" k'] Signal_conds same_conds_grow
  by (fastforce simp: recv_loop_def Let_def push_conds upd_conds split: list.splits)

lemma Fork_conds:
  assumes "Thread_Fork body j p k = Inr k'"
  shows "conds_grow k k'"
proof -
  obtain ch k1 where ck: "(if j then Channel_new k else (0, k)) = (ch, k1)" by fastforce
  then have "conds_grow k k1" by (auto simp: Channel_new_def Let_def conds_grow_def split: if_splits)
  moreover have "same_conds k1 k'" using assms ck
    by (auto simp: Thread_Fork_def Thread_new_def Let_def res_simps same_conds_def ReadyToRun_def SetStatus_def upd_thread_def)
  ultimately show ?thesis using same_conds_grow conds_grow_trans by blast
qed

lemma Channel_calls_conds:
  "Channel_Send ch m k = Inr k' \<Longrightarrow> same_conds k k'" "Channel_Receive ch k = Inr k' \<Longrightarrow> same_conds k k'"
  using Acquire_conds by (fastforce simp: Channel_Send_def Channel_Receive_def push_conds)+

lemma Finish_conds: "Thread_Finish st k = Inr k' \<Longrightarrow> same_conds k k'"
  using Channel_calls_conds(1) [of _ st "push [FinishSleep] k" k']
  by (auto simp: Thread_Finish_def push_conds Let_def split: if_splits)

lemma Join_conds: "Thread_Join t k = Inr k' \<Longrightarrow> same_conds k k'"
  using Channel_calls_conds(2) [of _ "push [JoinYield] k" k']
  by (auto simp: Thread_Join_def push_conds rcheck_def rassert_def split: if_splits)

lemma finish_sleep_conds: "finish_sleep k = Inr k' \<Longrightarrow> same_conds k k'"
  using Sleep_conds [of "k\<lparr>threadToBeDestroyed := Some (currentThread k)\<rparr>" k']
  by (simp add: finish_sleep_def same_conds_def split: if_splits)

lemma join_yield_conds: "join_yield k = Inr k' \<Longrightarrow> same_conds k k'"
  using Yield_conds [of k k'] by (auto simp: join_yield_def split: if_splits)

lemma Broadcast_conds: "Condition_Broadcast c k = Inr k' \<Longrightarrow> same_conds k k'"
  using Signal_conds [of c "push [CallBroadcast c] k" k'] by (auto simp: Condition_Broadcast_def push_conds split: if_splits)

lemmas grow_calls = Wait_conds send_loop_conds send_msg_conds recv_loop_conds Fork_conds
  P_conds [THEN same_conds_grow] Acquire_conds [THEN same_conds_grow] Release_conds [THEN same_conds_grow]
  Signal_conds [THEN same_conds_grow] send_put_conds [THEN same_conds_grow] Yield_conds [THEN same_conds_grow]
  Channel_calls_conds [THEN same_conds_grow] Finish_conds [THEN same_conds_grow] Join_conds [THEN same_conds_grow]
  finish_sleep_conds [THEN same_conds_grow] join_yield_conds [THEN same_conds_grow] Broadcast_conds [THEN same_conds_grow]

lemma exec_conds:
  assumes "exec_call c k = Inr k'"
  shows "conds_grow k k'"
proof (cases "\<exists>s l. c = CallV s \<or> c = TakeLock l")
  case True
  with assms same_conds_grow show ?thesis by (auto simp: exec_call_def take_lock_def rcheck_def split: if_splits)
next
  case False
  with assms show ?thesis
    by (cases c) (simp_all add: exec_call_def rcheck_def split: if_splits, (erule grow_calls)+)
qed

lemma reachable_conds:
  assumes "reachable k0 k"
  shows "conds_grow k0 k"
  using assms
proof (induction rule: reachable.induct)
  case (more k k')
  from more(2) have "conds_grow k k'"
  proof (cases rule: step.cases)
    case (run c cs)
    from exec_conds [OF run(3)] show ?thesis by (simp add: conds_grow_def set_code_def upd_thread_def)
  next
    case timeslice
    from Yield_conds [OF timeslice(2)] show ?thesis by (rule same_conds_grow)
  next
    case (device d)
    then show ?thesis using same_conds_grow [OF V_conds] by simp
  next
    case idle
    from dispatch_conds [OF idle(2)] show ?thesis by (rule same_conds_grow)
  qed
  with more.IH show ?case by (rule conds_grow_trans)
qed simp

section \<open>Properties\<close>

text \<open>
  A kernel at the start: one running thread, \<open>n\<close> free locks, and as many conditions, the \<open>i\<close>-th on
  the \<open>i\<close>-th lock.
\<close>

definition main_thread :: "call list \<Rightarrow> Thread" where
  "main_thread prog = \<lparr>status = RUNNING, priority = 0, joinable = False, joinChannel = 0, spaceId = 0, started = True,
     hasSpace = False, userRegisters = replicate 40 0, code = prog, received = 0\<rparr>"

definition kern_start :: "nat \<Rightarrow> call list \<Rightarrow> kern" where
  "kern_start n prog = \<lparr>threads = (\<lambda>_. (main_thread [])\<lparr>status := JUST_CREATED\<rparr>)(0 := main_thread prog), live = (\<lambda>t. t = 0),
     nextThread = 1, currentThread = 0, threadToBeDestroyed = None, readyList = [],
     sems = (\<lambda>s. Semaphore_new (case s of LockSem l \<Rightarrow> 1 | _ \<Rightarrow> 0)),
     locks = (\<lambda>_. \<lparr>lockOwner = None, oldPriority = 0\<rparr>), conds = (\<lambda>c. \<lparr>conditionLock = c, condQueue = []\<rparr>),
     channels = (\<lambda>_. \<lparr>buzon = [], channelLock = 0, conditionForReceivers = 0, conditionForSenders = 0\<rparr>),
     nextWait = 0, nextLock = n, nextCond = n, nextChannel = 0,
     runningProcesses = (Table_new (replicate 1000 0) 0)\<lparr>current := 1\<rparr>, cpu = replicate 40 0\<rparr>"

lemma start_ok:
  assumes "user_code prog"
  shows "kern_ok (kern_start n prog)"
proof -
  have "prog \<noteq> TakeLock l # cs" for l cs using assms by auto
  then have "inside (kern_start n prog) l = {}" for l by (auto simp: inside_def kern_start_def main_thread_def split: if_splits)
  then show ?thesis using assms
    by (simp add: kern_ok_def ids_ok_def lock_ok_def balanced_def owned_def)
      (simp add: kern_start_def main_thread_def Semaphore_new_def code_form_user)
qed

text \<open>Having the lock: its owner, or past its semaphore on the way to become it.\<close>

definition has_lock :: "kern \<Rightarrow> nat \<Rightarrow> tid \<Rightarrow> bool" where
  "has_lock k l t \<longleftrightarrow> lockOwner (locks k l) = Some t \<or> t \<in> inside k l"

text \<open>
  C8. Mutual exclusion. In every state that a program of any number of threads reaches, under any
  time slicing and device interrupts, at most one thread has a lock, and its semaphore is 1 when no
  thread has it and 0 when one does; so \<open>Acquire\<close> never takes a lock away from its owner.
\<close>

theorem lock_mutual_exclusion:
  assumes "user_code prog" "reachable (kern_start n prog) k"
  shows "\<exists>h. {t. has_lock k l t} = set_option h \<and> semValue (sems k (LockSem l)) = (if h = None then 1 else 0)"
proof -
  have ok: "kern_ok k" using reachable_ok [OF assms(2) start_ok [OF assms(1)]] .
  then have b: "0 \<le> semValue (sems k (LockSem l))"
    "semValue (sems k (LockSem l)) + int (card (inside k l)) + owned k l = 1"
    by (simp_all add: kern_ok_def lock_ok_def balanced_def)
  have fin: "finite (inside k l)" using ok finite_inside by (simp add: kern_ok_def)
  show ?thesis
  proof (cases "lockOwner (locks k l)")
    case (Some t)
    with b(2) have e: "semValue (sems k (LockSem l)) + int (card (inside k l)) = 0" by (simp add: owned_def)
    with b(1) have "card (inside k l) = 0" by linarith
    with fin e have "inside k l = {}" "semValue (sems k (LockSem l)) = 0" by simp_all
    with Some show ?thesis by (intro exI [of _ "Some t"]) (auto simp: has_lock_def)
  next
    case None
    with b(2) have "semValue (sems k (LockSem l)) + int (card (inside k l)) = 1" by (simp add: owned_def)
    with b(1) have "card (inside k l) = 0 \<or> card (inside k l) = 1" by linarith
    with fin consider "inside k l = {}" | "card (inside k l) = 1" by fastforce
    then show ?thesis
    proof cases
      case 1
      with None b show ?thesis by (intro exI [of _ None]) (auto simp: has_lock_def owned_def)
    next
      case 2
      then obtain t where "inside k l = {t}" by (auto simp: card_1_singleton_iff)
      with None b show ?thesis by (intro exI [of _ "Some t"]) (auto simp: has_lock_def owned_def)
    qed
  qed
qed

text \<open>The main thread forks a thread that wants the lock, and takes the lock itself.\<close>

definition sample_prog :: "call list" where
  "sample_prog = [CallFork [CallAcquire 0, CallRelease 0] False 5, CallAcquire 0, CallRelease 0]"

lemma run_step:
  assumes "reachable k0 k" "status (cur k) = RUNNING" "code (cur k) = c # cs" "exec_call c (set_code cs k) = Inr k'"
  shows "reachable k0 k'"
  using assms reachable.more step.run by blast

lemma sample_run:
  "\<exists>k. reachable (kern_start 1 sample_prog) k \<and> lockOwner (locks k 0) = Some 0 \<and> status (threads k 1) = READY"
proof -
  let ?k0 = "kern_start 1 sample_prog"
  have c0: "code (cur ?k0) = CallFork [CallAcquire 0, CallRelease 0] False 5 # [CallAcquire 0, CallRelease 0]"
    "status (cur ?k0) = RUNNING" by (simp_all add: kern_start_def main_thread_def sample_prog_def)
  define k1 where "k1 = projr (exec_call (CallFork [CallAcquire 0, CallRelease 0] False 5) (set_code [CallAcquire 0, CallRelease 0] ?k0))"
  have e1: "exec_call (CallFork [CallAcquire 0, CallRelease 0] False 5) (set_code [CallAcquire 0, CallRelease 0] ?k0) = Inr k1"
    by (simp add: k1_def exec_call_def Thread_Fork_def Thread_new_def Table_Add_def Table_new_def data_set_def Table_SIZE_def
        kern_start_def set_code_def upd_thread_def Let_def)
  have f1: "currentThread k1 = 0" "code (threads k1 0) = [CallAcquire 0, CallRelease 0]" "status (threads k1 0) = RUNNING"
    "status (threads k1 1) = READY" "semValue (sems k1 (LockSem 0)) = 1" "lockOwner (locks k1 0) = None" "nextLock k1 = 1"
    by (simp_all add: k1_def exec_call_def Thread_Fork_def Thread_new_def Table_Add_def Table_new_def data_set_def Table_SIZE_def
        kern_start_def set_code_def upd_thread_def Let_def ReadyToRun_def SetStatus_def main_thread_def Semaphore_new_def)
  have r1: "reachable ?k0 k1" using run_step [OF reachable.start c0(2,1) e1] .
  define k2 where "k2 = projr (exec_call (CallAcquire 0) (set_code [CallRelease 0] k1))"
  have e2: "exec_call (CallAcquire 0) (set_code [CallRelease 0] k1) = Inr k2"
    using f1 by (simp add: k2_def exec_call_def Lock_Acquire_def IsHeldByCurrentThread_def inherit_def Semaphore_P_def
        set_code_same push_same)
  have f2: "currentThread k2 = 0" "code (threads k2 0) = [TakeLock 0, CallRelease 0]" "status (threads k2 0) = RUNNING"
    "status (threads k2 1) = READY"
    using f1 by (simp_all add: k2_def exec_call_def Lock_Acquire_def IsHeldByCurrentThread_def inherit_def Semaphore_P_def
        set_code_def push_def upd_thread_def upd_sem_def)
  have r2: "reachable ?k0 k2" by (rule run_step [OF r1 _ _ e2]) (simp_all add: f1)
  define k3 where "k3 = take_lock 0 (set_code [CallRelease 0] k2)"
  have e3: "exec_call (TakeLock 0) (set_code [CallRelease 0] k2) = Inr k3" by (simp add: k3_def exec_call_def)
  have "reachable ?k0 k3" by (rule run_step [OF r2 _ _ e3]) (simp_all add: f2)
  moreover have "lockOwner (locks k3 0) = Some 0" "status (threads k3 1) = READY"
    using f2 by (simp_all add: k3_def take_lock_def upd_lock_def set_code_def upd_thread_def)
  ultimately show ?thesis by blast
qed

theorem lock_mutual_exclusion_witness:
  "\<exists>k. reachable (kern_start 1 sample_prog) k \<and> {t. has_lock k 0 t} = {0} \<and> semValue (sems k (LockSem 0)) = 0"
proof -
  obtain k where k: "reachable (kern_start 1 sample_prog) k" "lockOwner (locks k 0) = Some 0" using sample_run by blast
  have "user_code sample_prog" by (simp add: sample_prog_def)
  from lock_mutual_exclusion [OF this k(1), of 0] obtain h where
    h: "{t. has_lock k 0 t} = set_option h" "semValue (sems k (LockSem 0)) = (if h = None then 1 else 0)" by blast
  have "0 \<in> {t. has_lock k 0 t}" using k(2) by (simp add: has_lock_def)
  with h show ?thesis using k(1) by (intro exI [of _ k]) auto
qed

text \<open>
  C38. A condition's queue is never emptied. Once a thread has waited on a condition, its semaphore
  stays at the head of the queue for ever: every later \<open>Signal\<close> is a \<open>V\<close> on that same semaphore,
  whichever threads wait, and \<open>Broadcast\<close> never gets past its loop.
\<close>

theorem condition_queue_stuck:
  assumes "reachable k0 k" "condQueue (conds k0 c) = s # q" "c < nextCond k0"
  shows "(\<exists>q'. condQueue (conds k c) = s # q @ q')
    \<and> (\<forall>k'. Condition_Signal c k = Inr k' \<longrightarrow> k' = Semaphore_V s k)
    \<and> (\<forall>k'. exec_call (CallBroadcast c) k = Inr k' \<longrightarrow> (\<exists>cs. code (threads k' (currentThread k)) = CallBroadcast c # cs))"
proof -
  from reachable_conds [OF assms(1)] assms(2,3) obtain q' where q': "condQueue (conds k c) = s # q @ q'"
    unfolding conds_grow_def by fastforce
  have sig: "Condition_Signal c k1 = Inr k' \<Longrightarrow> k' = Semaphore_V s k1" if "conds k1 = conds k" for k1 k'
    using q' that by (auto simp: Condition_Signal_def rassert_def split: if_splits)
  have "\<exists>cs. code (threads k' (currentThread k)) = CallBroadcast c # cs" if "exec_call (CallBroadcast c) k = Inr k'" for k'
  proof -
    from that q' have "Condition_Signal c (push [CallBroadcast c] k) = Inr k'" by (simp add: exec_call_def Condition_Broadcast_def)
    then have "k' = Semaphore_V s (push [CallBroadcast c] k)" by (rule sig [rotated]) (simp add: push_same)
    then show ?thesis by (simp add: V_same push_same)
  qed
  with q' sig show ?thesis by blast
qed

theorem condition_queue_stuck_witness:
  "\<exists>q'. condQueue (conds ((kern_start 1 [])\<lparr>conds := \<lambda>_. \<lparr>conditionLock = 0, condQueue = [WaitSem 7]\<rparr>\<rparr>) 0) = WaitSem 7 # [] @ q'"
  by (rule conjunct1 [OF condition_queue_stuck [OF reachable.start]]) (simp_all add: kern_start_def)

end
