(* ===== verification/Post_Office.thy ===== *)
theory Post_Office
  imports Prelude
begin

text \<open>
  \<open>machine/network.cc\<close>, \<open>network/post.cc\<close> and the lists of \<open>threads/synch_list.hh\<close> in a network of
  machines: packets and mail as bytes on the wire, the network device with its interrupts, and the post
  office with its mailboxes. Sockets are queues of packets by the address they are named after.
\<close>

section \<open>Packets and mail\<close>

definition MAX_WIRE_SIZE :: nat where "MAX_WIRE_SIZE = 64"
definition MAX_PACKET_SIZE :: nat where "MAX_PACKET_SIZE = MAX_WIRE_SIZE - 12"
definition MAX_MAIL_SIZE :: nat where "MAX_MAIL_SIZE = MAX_PACKET_SIZE - 12"

lemmas SIZE_defs = MAX_WIRE_SIZE_def MAX_PACKET_SIZE_def MAX_MAIL_SIZE_def

record PacketHeader =
  pktTo :: u32
  pktFrom :: u32
  pktLength :: u32

record MailHeader =
  mailTo :: u32
  mailFrom :: u32
  mailLength :: u32

text \<open>A header as the 12 bytes of its object.\<close>

definition packet_bytes :: "PacketHeader \<Rightarrow> byte list" where
  "packet_bytes h = words_bytes [pktTo h, pktFrom h, pktLength h]"

definition bytes_packet :: "byte list \<Rightarrow> PacketHeader" where
  "bytes_packet bs = (let ws = bytes_words 3 bs in \<lparr>pktTo = ws ! 0, pktFrom = ws ! 1, pktLength = ws ! 2\<rparr>)"

definition mail_bytes :: "MailHeader \<Rightarrow> byte list" where
  "mail_bytes h = words_bytes [mailTo h, mailFrom h, mailLength h]"

definition bytes_mail :: "byte list \<Rightarrow> MailHeader" where
  "bytes_mail bs = (let ws = bytes_words 3 bs in \<lparr>mailTo = ws ! 0, mailFrom = ws ! 1, mailLength = ws ! 2\<rparr>)"

text \<open>A message; of its array only the bytes that were copied.\<close>

record Mail =
  pktHdr :: PacketHeader
  mailHdr :: MailHeader
  mailData :: "byte list"

definition Mail_new :: "PacketHeader \<Rightarrow> MailHeader \<Rightarrow> byte list \<Rightarrow> Mail res" where
  "Mail_new pktH mailH msgData =
     rbind (rassert (unat (mailLength mailH) \<le> MAX_MAIL_SIZE)) (\<lambda>_.
     rbind (rcheck OutOfBounds (unat (mailLength mailH) \<le> length msgData)) (\<lambda>_.
       Inr \<lparr>pktHdr = pktH, mailHdr = mailH, mailData = take (unat (mailLength mailH)) msgData\<rparr>))"

section \<open>The network device\<close>

text \<open>The interrupts it has requested are counted.\<close>

record Network =
  ident :: u32
  sendBusy :: bool
  inHdr :: PacketHeader
  inbox :: "byte list"
  pollsDue :: nat
  sendsDue :: nat

type_synonym sockets = "u32 \<Rightarrow> byte list list"

definition Network_new :: "u32 \<Rightarrow> PacketHeader \<Rightarrow> (nat \<Rightarrow> byte) \<Rightarrow> Network" where
  "Network_new addr hdr0 raw = \<lparr>ident = addr, sendBusy = False, inHdr = hdr0\<lparr>pktLength := 0\<rparr>,
     inbox = fresh_bytes raw MAX_PACKET_SIZE, pollsDue = 1, sendsDue = 0\<rparr>"

text \<open>The result tells whether the handler for arrived packets is called.\<close>

definition CheckPktAvail :: "Network \<Rightarrow> sockets \<Rightarrow> (bool \<times> Network \<times> sockets) res" where
  "CheckPktAvail net socks =
     (let n1 = net\<lparr>pollsDue := pollsDue net + 1\<rparr> in
      if pktLength (inHdr n1) \<noteq> 0 then Inr (False, n1, socks)
      else case socks (ident n1) of
        [] \<Rightarrow> Inr (False, n1, socks)
      | buffer # rest \<Rightarrow>
          let h = bytes_packet buffer in
          rbind (rassert (pktTo h = ident n1 \<and> unat (pktLength h) \<le> MAX_PACKET_SIZE)) (\<lambda>_.
            Inr (True, n1\<lparr>inHdr := h, inbox := overlay (inbox n1) 0 (slice 12 (unat (pktLength h)) buffer)\<rparr>,
                 socks(ident n1 := rest))))"

definition Network_SendDone :: "Network \<Rightarrow> Network" where
  "Network_SendDone net = net\<lparr>sendBusy := False\<rparr>"

text \<open>\<open>works\<close> is the outcome of the draw that decides whether the packet is lost.\<close>

definition Network_Send :: "bool \<Rightarrow> (nat \<Rightarrow> byte) \<Rightarrow> PacketHeader \<Rightarrow> byte list \<Rightarrow> Network \<Rightarrow> sockets \<Rightarrow> (Network \<times> sockets) res" where
  "Network_Send works raw h data net socks =
     rbind (rassert (\<not> sendBusy net \<and> 0 < pktLength h \<and> unat (pktLength h) \<le> MAX_PACKET_SIZE \<and> pktFrom h = ident net)) (\<lambda>_.
       let n1 = net\<lparr>sendsDue := sendsDue net + 1\<rparr> in
       if \<not> works then Inr (n1, socks)
       else rbind (rcheck OutOfBounds (unat (pktLength h) \<le> length data)) (\<lambda>_.
         let buffer = overlay (fresh_bytes raw MAX_WIRE_SIZE) 0 (packet_bytes h @ take (unat (pktLength h)) data)
         in Inr (n1, socks(pktTo h := socks (pktTo h) @ [buffer]))))"

text \<open>The header of the buffered packet, or one of length 0, with what \<open>data\<close> holds after the call.\<close>

definition Network_Receive :: "byte list \<Rightarrow> Network \<Rightarrow> PacketHeader \<times> byte list \<times> Network" where
  "Network_Receive data net =
     (let h = inHdr net; n1 = net\<lparr>inHdr := h\<lparr>pktLength := 0\<rparr>\<rparr>
      in (h, if pktLength h \<noteq> 0 then overlay data 0 (take (unat (pktLength h)) (inbox net)) else data, n1))"

section \<open>The post office\<close>

text \<open>
  Mailboxes are lists of arrived messages; \<open>workBuffer\<close> is the buffer of the postal worker, and the
  lock is held or free. Waiting for a semaphore, a lock or a message is the error \<open>WouldBlock\<close>: the step
  is taken later.
\<close>

record PostOffice =
  network :: Network
  netAddr :: u32
  boxes :: "Mail list list"
  numBoxes :: int
  messageAvailable :: nat
  messageSent :: nat
  sendLock :: bool
  workBuffer :: "byte list"

definition PostOffice_new :: "u32 \<Rightarrow> PacketHeader \<Rightarrow> (nat \<Rightarrow> byte) \<Rightarrow> int \<Rightarrow> PostOffice res" where
  "PostOffice_new addr hdr0 raw nBoxes =
     rbind (rassert (0 < nBoxes)) (\<lambda>_.
       Inr \<lparr>network = Network_new addr hdr0 raw, netAddr = addr, boxes = replicate (nat nBoxes) [], numBoxes = nBoxes,
            messageAvailable = 0, messageSent = 0, sendLock = False, workBuffer = fresh_bytes raw MAX_PACKET_SIZE\<rparr>)"

definition MailBox_Put :: "nat \<Rightarrow> PacketHeader \<Rightarrow> MailHeader \<Rightarrow> byte list \<Rightarrow> PostOffice \<Rightarrow> PostOffice res" where
  "MailBox_Put k pktH mailH data po =
     rbind (Mail_new pktH mailH data) (\<lambda>mail. Inr (po\<lparr>boxes := (boxes po)[k := boxes po ! k @ [mail]]\<rparr>))"

definition MailBox_Get :: "nat \<Rightarrow> PostOffice \<Rightarrow> (Mail \<times> PostOffice) res" where
  "MailBox_Get k po = (case boxes po ! k of [] \<Rightarrow> Inl WouldBlock | mail # rest \<Rightarrow> Inr (mail, po\<lparr>boxes := (boxes po)[k := rest]\<rparr>))"

text \<open>One round of the loop of the postal worker.\<close>

definition PostalDelivery :: "PostOffice \<Rightarrow> PostOffice res" where
  "PostalDelivery po =
     rbind (rcheck WouldBlock (0 < messageAvailable po)) (\<lambda>_.
       let (pktH, buffer, net) = Network_Receive (workBuffer po) (network po);
           mailH = bytes_mail buffer;
           po1 = po\<lparr>messageAvailable := messageAvailable po - 1, network := net, workBuffer := buffer\<rparr> in
       rbind (rassert (0 \<le> sint (mailTo mailH) \<and> sint (mailTo mailH) < numBoxes po1)) (\<lambda>_.
       rbind (rassert (unat (mailLength mailH) \<le> MAX_MAIL_SIZE)) (\<lambda>_.
         MailBox_Put (nat (sint (mailTo mailH))) pktH mailH (drop 12 buffer) po1)))"

text \<open>\<open>PostOffice::Send\<close> up to the wait for \<open>messageSent\<close>, and from there on.\<close>

definition PostOffice_Send ::
  "bool \<Rightarrow> (nat \<Rightarrow> byte) \<Rightarrow> PacketHeader \<Rightarrow> MailHeader \<Rightarrow> byte list \<Rightarrow> PostOffice \<Rightarrow> sockets \<Rightarrow> (PostOffice \<times> sockets) res" where
  "PostOffice_Send works raw pktH mailH data po socks =
     rbind (rassert (unat (mailLength mailH) \<le> MAX_MAIL_SIZE)) (\<lambda>_.
     rbind (rassert (0 \<le> sint (mailTo mailH) \<and> sint (mailTo mailH) < numBoxes po)) (\<lambda>_.
     rbind (rcheck OutOfBounds (unat (mailLength mailH) \<le> length data)) (\<lambda>_.
       let h = pktH\<lparr>pktFrom := netAddr po, pktLength := mailLength mailH + 12\<rparr>;
           buffer = overlay (fresh_bytes raw MAX_PACKET_SIZE) 0 (mail_bytes mailH @ take (unat (mailLength mailH)) data) in
       rbind (rcheck WouldBlock (\<not> sendLock po)) (\<lambda>_.
       rbind (Network_Send works raw h buffer (network po) socks) (\<lambda>(net, socks1).
         Inr (po\<lparr>sendLock := True, network := net\<rparr>, socks1))))))"

definition PostOffice_Send_end :: "PostOffice \<Rightarrow> PostOffice res" where
  "PostOffice_Send_end po =
     rbind (rcheck WouldBlock (0 < messageSent po)) (\<lambda>_.
       Inr (po\<lparr>messageSent := messageSent po - 1, sendLock := False\<rparr>))"

definition PostOffice_Receive :: "int \<Rightarrow> PostOffice \<Rightarrow> (Mail \<times> PostOffice) res" where
  "PostOffice_Receive box po =
     rbind (rassert (0 \<le> box \<and> box < numBoxes po)) (\<lambda>_.
     rbind (MailBox_Get (nat box) po) (\<lambda>(mail, po1).
     rbind (rassert (unat (mailLength (mailHdr mail)) \<le> MAX_MAIL_SIZE)) (\<lambda>_. Inr (mail, po1))))"

text \<open>The interrupts of the device, with the handlers of the post office.\<close>

definition IncomingPacket :: "PostOffice \<Rightarrow> PostOffice" where
  "IncomingPacket po = po\<lparr>messageAvailable := messageAvailable po + 1\<rparr>"

definition PacketSent :: "PostOffice \<Rightarrow> PostOffice" where
  "PacketSent po = po\<lparr>messageSent := messageSent po + 1\<rparr>"

definition NetworkReadPoll :: "PostOffice \<Rightarrow> sockets \<Rightarrow> (PostOffice \<times> sockets) res" where
  "NetworkReadPoll po socks =
     rbind (CheckPktAvail ((network po)\<lparr>pollsDue := pollsDue (network po) - 1\<rparr>) socks) (\<lambda>(arrived, net, socks1).
       let po1 = po\<lparr>network := net\<rparr> in Inr (if arrived then IncomingPacket po1 else po1, socks1))"

definition NetworkSendDone :: "PostOffice \<Rightarrow> PostOffice" where
  "NetworkSendDone po = PacketSent (po\<lparr>network := Network_SendDone ((network po)\<lparr>sendsDue := sendsDue (network po) - 1\<rparr>)\<rparr>)"

section \<open>A network of machines\<close>

text \<open>
  Every address has a post office. The logs are not part of the program: the messages sent to a machine
  and not lost, those its postal worker has delivered, and those taken out of each box.
\<close>

record net_world =
  offices :: "u32 \<Rightarrow> PostOffice"
  socks :: sockets
  sentLog :: "u32 \<Rightarrow> Mail list"
  putLog :: "u32 \<Rightarrow> Mail list"
  gotLog :: "u32 \<Rightarrow> nat \<Rightarrow> Mail list"

definition sent_mail :: "u32 \<Rightarrow> PacketHeader \<Rightarrow> MailHeader \<Rightarrow> byte list \<Rightarrow> Mail" where
  "sent_mail a pktH mailH data = \<lparr>pktHdr = pktH\<lparr>pktFrom := a, pktLength := mailLength mailH + 12\<rparr>, mailHdr = mailH,
     mailData = take (unat (mailLength mailH)) data\<rparr>"

definition set_office :: "u32 \<Rightarrow> PostOffice \<Rightarrow> net_world \<Rightarrow> net_world" where
  "set_office a po w = w\<lparr>offices := (offices w)(a := po)\<rparr>"

definition log_sent :: "u32 \<Rightarrow> Mail \<Rightarrow> net_world \<Rightarrow> net_world" where
  "log_sent b m w = w\<lparr>sentLog := (sentLog w)(b := sentLog w b @ [m])\<rparr>"

definition log_put :: "u32 \<Rightarrow> Mail \<Rightarrow> net_world \<Rightarrow> net_world" where
  "log_put b m w = w\<lparr>putLog := (putLog w)(b := putLog w b @ [m])\<rparr>"

definition log_got :: "u32 \<Rightarrow> nat \<Rightarrow> Mail \<Rightarrow> net_world \<Rightarrow> net_world" where
  "log_got b k m w = w\<lparr>gotLog := (gotLog w)(b := (gotLog w b)(k := gotLog w b k @ [m]))\<rparr>"

text \<open>The message that the next round of the postal worker delivers.\<close>

definition inbox_mail :: "Network \<Rightarrow> Mail" where
  "inbox_mail net = (let h = bytes_mail (inbox net) in
     \<lparr>pktHdr = inHdr net, mailHdr = h, mailData = slice 12 (unat (mailLength h)) (inbox net)\<rparr>)"

inductive net_step :: "net_world \<Rightarrow> net_world \<Rightarrow> bool" where
  send: "PostOffice_Send works raw pktH mailH data (offices w a) (socks w) = Inr (po, ss) \<Longrightarrow>
    net_step w ((if works then log_sent (pktTo pktH) (sent_mail a pktH mailH data) else id) ((set_office a po w)\<lparr>socks := ss\<rparr>))"
| sendDone: "0 < sendsDue (network (offices w a)) \<Longrightarrow> net_step w (set_office a (NetworkSendDone (offices w a)) w)"
| sendEnd: "PostOffice_Send_end (offices w a) = Inr po \<Longrightarrow> net_step w (set_office a po w)"
| poll: "0 < pollsDue (network (offices w a)) \<Longrightarrow> NetworkReadPoll (offices w a) (socks w) = Inr (po, ss) \<Longrightarrow>
    net_step w ((set_office a po w)\<lparr>socks := ss\<rparr>)"
| deliver: "PostalDelivery (offices w a) = Inr po \<Longrightarrow> net_step w (log_put a (inbox_mail (network (offices w a))) (set_office a po w))"
| receive: "PostOffice_Receive box (offices w a) = Inr (m, po) \<Longrightarrow> net_step w (log_got a (nat box) m (set_office a po w))"

text \<open>All machines have the same number of mailboxes, 10 in \<open>Initialize\<close>.\<close>

definition net_start :: "int \<Rightarrow> (u32 \<Rightarrow> PacketHeader) \<Rightarrow> (nat \<Rightarrow> byte) \<Rightarrow> net_world \<Rightarrow> bool" where
  "net_start n hdr0 raw w \<longleftrightarrow> (\<forall>a. PostOffice_new a (hdr0 a) raw n = Inr (offices w a)) \<and> socks w = (\<lambda>_. [])
     \<and> sentLog w = (\<lambda>_. []) \<and> putLog w = (\<lambda>_. []) \<and> gotLog w = (\<lambda>_ _. [])"

inductive net_reachable :: "int \<Rightarrow> net_world \<Rightarrow> bool" for n where
  start: "net_start n hdr0 raw w \<Longrightarrow> net_reachable n w"
| step: "net_reachable n w \<Longrightarrow> net_step w w' \<Longrightarrow> net_reachable n w'"

inductive_cases net_stepE: "net_step w w'"

section \<open>Messages on the wire\<close>

definition mail_ok :: "int \<Rightarrow> u32 \<Rightarrow> Mail \<Rightarrow> bool" where
  "mail_ok n b m \<longleftrightarrow> pktTo (pktHdr m) = b \<and> pktLength (pktHdr m) = mailLength (mailHdr m) + 12 \<and> unat (mailLength (mailHdr m)) \<le> MAX_MAIL_SIZE
     \<and> length (mailData m) = unat (mailLength (mailHdr m)) \<and> 0 \<le> sint (mailTo (mailHdr m)) \<and> sint (mailTo (mailHdr m)) < n"

definition payload :: "Mail \<Rightarrow> byte list" where
  "payload m = mail_bytes (mailHdr m) @ mailData m"

text \<open>The bytes of a message with its packet header, and padding behind them.\<close>

definition carries :: "byte list \<Rightarrow> Mail \<Rightarrow> bool" where
  "carries p m \<longleftrightarrow> (\<exists>pad. p = packet_bytes (pktHdr m) @ payload m @ pad)"

lemma header_lengths [simp]: "length (packet_bytes h) = 12" "length (mail_bytes mh) = 12"
  by (simp_all add: packet_bytes_def mail_bytes_def)

lemma bytes_packet_bytes [simp]: "bytes_packet (packet_bytes h @ rest) = h"
  unfolding bytes_packet_def packet_bytes_def by (subst bytes_words_append) simp_all

lemma bytes_mail_bytes [simp]: "bytes_mail (mail_bytes h @ rest) = h"
  unfolding bytes_mail_def mail_bytes_def by (subst bytes_words_append) simp_all

lemma mail_ok_length:
  assumes "mail_ok n b m"
  shows "unat (pktLength (pktHdr m)) = length (payload m)" "length (payload m) \<le> MAX_PACKET_SIZE" "pktLength (pktHdr m) \<noteq> 0" "12 \<le> length (payload m)"
proof -
  let ?l = "mailLength (mailHdr m)"
  have l: "unat ?l \<le> 40" "pktLength (pktHdr m) = ?l + 12" "length (mailData m) = unat ?l" using assms by (simp_all add: mail_ok_def SIZE_defs)
  then have u: "unat (?l + 12) = unat ?l + 12" by (subst unat_add_lem [THEN iffD1]) simp_all
  then show "unat (pktLength (pktHdr m)) = length (payload m)" "length (payload m) \<le> MAX_PACKET_SIZE" "12 \<le> length (payload m)"
    using l by (simp_all add: payload_def SIZE_defs)
  show "pktLength (pktHdr m) \<noteq> 0" using u l(2) by auto
qed

section \<open>The invariant\<close>

definition box_of :: "Mail \<Rightarrow> nat" where
  "box_of m = nat (sint (mailTo (mailHdr m)))"

definition office_ok :: "int \<Rightarrow> u32 \<Rightarrow> PostOffice \<Rightarrow> bool" where
  "office_ok n b po \<longleftrightarrow> ident (network po) = b \<and> netAddr po = b \<and> numBoxes po = n \<and> length (boxes po) = nat n \<and> \<not> sendBusy (network po)
     \<and> length (inbox (network po)) = MAX_PACKET_SIZE \<and> length (workBuffer po) = MAX_PACKET_SIZE \<and> 0 < pollsDue (network po)
     \<and> messageAvailable po = (if pktLength (inHdr (network po)) \<noteq> 0 then 1 else 0)
     \<and> sendsDue (network po) + messageSent po = (if sendLock po then 1 else 0)"

text \<open>The packet the device holds.\<close>

definition buffered :: "Network \<Rightarrow> Mail list \<Rightarrow> bool" where
  "buffered net ms \<longleftrightarrow> (if pktLength (inHdr net) = 0 then ms = []
     else \<exists>m pad. ms = [m] \<and> pktHdr m = inHdr net \<and> inbox net = payload m @ pad)"

definition machine_ok :: "int \<Rightarrow> u32 \<Rightarrow> PostOffice \<Rightarrow> byte list list \<Rightarrow> Mail list \<Rightarrow> Mail list \<Rightarrow> (nat \<Rightarrow> Mail list) \<Rightarrow> bool" where
  "machine_ok n b po q sl pl gl \<longleftrightarrow> office_ok n b po \<and> (\<forall>m \<in> set sl. mail_ok n b m)
     \<and> (\<exists>bs ms. sl = pl @ bs @ ms \<and> buffered (network po) bs \<and> list_all2 carries q ms)
     \<and> (\<forall>k < nat n. gl k @ boxes po ! k = filter (\<lambda>m. box_of m = k) pl)"

lemma machine_okI:
  assumes "office_ok n b po" "\<forall>m \<in> set sl. mail_ok n b m" "sl = pl @ bs @ ms" "buffered (network po) bs" "list_all2 carries q ms"
    and "\<forall>k < nat n. gl k @ boxes po ! k = filter (\<lambda>m. box_of m = k) pl"
  shows "machine_ok n b po q sl pl gl"
  using assms unfolding machine_ok_def by blast

definition net_inv :: "int \<Rightarrow> net_world \<Rightarrow> bool" where
  "net_inv n w \<longleftrightarrow> (\<forall>b. machine_ok n b (offices w b) (socks w b) (sentLog w b) (putLog w b) (gotLog w b))"

lemma start_inv: "net_start n hdr0 raw w \<Longrightarrow> net_inv n w"
  unfolding net_inv_def
proof
  fix b assume a: "net_start n hdr0 raw w"
  then have p: "PostOffice_new b (hdr0 b) raw n = Inr (offices w b)" by (simp add: net_start_def)
  then have o: "offices w b = \<lparr>network = Network_new b (hdr0 b) raw, netAddr = b, boxes = replicate (nat n) [], numBoxes = n,
      messageAvailable = 0, messageSent = 0, sendLock = False, workBuffer = fresh_bytes raw MAX_PACKET_SIZE\<rparr>"
    by (auto simp: PostOffice_new_def res_simps)
  have "office_ok n b (offices w b)" "pktLength (inHdr (network (offices w b))) = 0" "\<And>k. k < nat n \<Longrightarrow> boxes (offices w b) ! k = []"
    unfolding o by (simp_all add: Network_new_def office_ok_def)
  then show "machine_ok n b (offices w b) (socks w b) (sentLog w b) (putLog w b) (gotLog w b)"
    using a by (simp add: machine_ok_def net_start_def buffered_def)
qed

text \<open>Steps that only concern the sender.\<close>

lemma sender_ok:
  assumes "machine_ok n b po q sl pl gl" "po' = po\<lparr>sendLock := l, messageSent := s, network := (network po)\<lparr>sendsDue := d, sendBusy := False\<rparr>\<rparr>"
    and "d + s = (if l then 1 else 0)"
  shows "machine_ok n b po' q sl pl gl"
proof -
  have "buffered (network po') = buffered (network po)" using assms(2) by (simp add: fun_eq_iff buffered_def)
  moreover have "office_ok n b po'" "boxes po' = boxes po" using assms by (simp_all add: machine_ok_def office_ok_def)
  ultimately show ?thesis using assms(1) by (simp add: machine_ok_def)
qed

lemma take_overlay_0: "length bs \<le> length buf \<Longrightarrow> take (length bs) (overlay buf 0 bs) = bs"
  by (simp add: overlay_def)

lemma Send_cases:
  assumes "PostOffice_Send works raw pktH mailH data po ss = Inr (po', ss')" "office_ok n a po"
  shows "\<not> sendLock po" "po' = po\<lparr>sendLock := True, network := (network po)\<lparr>sendsDue := sendsDue (network po) + 1\<rparr>\<rparr>"
    "mail_ok n (pktTo pktH) (sent_mail a pktH mailH data)"
    "if works then \<exists>p. carries p (sent_mail a pktH mailH data) \<and> ss' = ss(pktTo pktH := ss (pktTo pktH) @ [p]) else ss' = ss"
proof -
  let ?m = "sent_mail a pktH mailH data"
  let ?h = "pktH\<lparr>pktFrom := a, pktLength := mailLength mailH + 12\<rparr>"
  let ?buf = "overlay (fresh_bytes raw MAX_PACKET_SIZE) 0 (payload ?m)"
  have pl: "payload ?m = mail_bytes mailH @ take (unat (mailLength mailH)) data" "pktHdr ?m = ?h" by (simp_all add: payload_def sent_mail_def)
  have na: "netAddr po = a" "numBoxes po = n" using assms(2) by (simp_all add: office_ok_def)
  from assms(1) na have c: "unat (mailLength mailH) \<le> MAX_MAIL_SIZE" "0 \<le> sint (mailTo mailH)" "sint (mailTo mailH) < n"
      "unat (mailLength mailH) \<le> length data" "\<not> sendLock po"
    and ns: "\<exists>net. Network_Send works raw ?h ?buf (network po) ss = Inr (net, ss') \<and> po' = po\<lparr>sendLock := True, network := net\<rparr>"
    by (auto simp: PostOffice_Send_def res_simps Let_def pl(1))
  then show "\<not> sendLock po" by simp
  show mo: "mail_ok n (pktTo pktH) ?m" using c by (simp add: mail_ok_def sent_mail_def)
  note l = mail_ok_length [OF mo, unfolded pl(2)]
  from ns obtain net where net: "Network_Send works raw ?h ?buf (network po) ss = Inr (net, ss')" "po' = po\<lparr>sendLock := True, network := net\<rparr>" by blast
  then have "net = (network po)\<lparr>sendsDue := sendsDue (network po) + 1\<rparr>" by (auto simp: Network_Send_def res_simps Let_def split: if_splits)
  with net(2) show "po' = po\<lparr>sendLock := True, network := (network po)\<lparr>sendsDue := sendsDue (network po) + 1\<rparr>\<rparr>" by simp
  have t: "take (unat (pktLength ?h)) ?buf = payload ?m" unfolding l(1) using l(2) by (intro take_overlay_0) simp
  have "carries (overlay (fresh_bytes raw MAX_WIRE_SIZE) 0 (packet_bytes ?h @ payload ?m)) ?m"
    by (auto simp: carries_def pl(2) overlay_def)
  then show "if works then \<exists>p. carries p ?m \<and> ss' = ss(pktTo pktH := ss (pktTo pktH) @ [p]) else ss' = ss"
    using net(1) t by (auto simp: Network_Send_def res_simps Let_def split: if_splits)
qed

lemma arrive_ok:
  assumes "machine_ok n b po q sl pl gl" "mail_ok n b m" "carries p m"
  shows "machine_ok n b po (q @ [p]) (sl @ [m]) pl gl"
proof -
  from assms(1) obtain bs ms where "sl = pl @ bs @ ms" "buffered (network po) bs" "list_all2 carries q ms" by (auto simp: machine_ok_def)
  then have "sl @ [m] = pl @ bs @ (ms @ [m])" "buffered (network po) bs" "list_all2 carries (q @ [p]) (ms @ [m])"
    using assms(3) by (simp_all add: list_all2_appendI)
  then have "\<exists>bs ms. sl @ [m] = pl @ bs @ ms \<and> buffered (network po) bs \<and> list_all2 carries (q @ [p]) ms" by blast
  then show ?thesis using assms(1,2) by (simp add: machine_ok_def)
qed

text \<open>Polling takes the first packet off the socket when the device holds none.\<close>

lemma poll_ok:
  assumes "machine_ok n b po (ss b) sl pl gl"
  shows "\<exists>po' ss'. NetworkReadPoll po ss = Inr (po', ss') \<and> (\<forall>a. a \<noteq> b \<longrightarrow> ss' a = ss a) \<and> machine_ok n b po' (ss' b) sl pl gl"
proof -
  have ok: "office_ok n b po" using assms by (simp add: machine_ok_def)
  let ?net = "(network po)\<lparr>pollsDue := pollsDue (network po)\<rparr>"
  have keep: "machine_ok n b (po\<lparr>network := ?net\<rparr>) (ss b) sl pl gl" using assms by simp
  have same: "(network po)\<lparr>pollsDue := Suc (pollsDue (network po) - 1)\<rparr> = ?net" using ok by (simp add: office_ok_def)
  show ?thesis
  proof (cases "pktLength (inHdr (network po)) \<noteq> 0 \<or> ss b = []")
    case True
    then have "NetworkReadPoll po ss = Inr (po\<lparr>network := ?net\<rparr>, ss)"
      using ok by (auto simp: NetworkReadPoll_def CheckPktAvail_def office_ok_def same Let_def)
    then show ?thesis using keep by blast
  next
    case False
    from assms obtain bs ms where ms: "sl = pl @ bs @ ms" "buffered (network po) bs" "list_all2 carries (ss b) ms" by (auto simp: machine_ok_def)
    from False ms(2) have bs: "bs = []" by (simp add: buffered_def)
    from False obtain p rest where q: "ss b = p # rest" by (cases "ss b") auto
    with ms(3) obtain m ms' where m: "ms = m # ms'" "carries p m" "list_all2 carries rest ms'" by (cases ms) auto
    have mo: "mail_ok n b m" using assms ms(1) m(1) by (simp add: machine_ok_def)
    note l = mail_ok_length [OF mo]
    from m(2) obtain pad where p: "p = packet_bytes (pktHdr m) @ payload m @ pad" by (auto simp: carries_def)
    have h: "bytes_packet p = pktHdr m" "slice 12 (length (payload m)) p = payload m" unfolding p by (simp_all add: slice_def)
    let ?net' = "(network po)\<lparr>inHdr := pktHdr m, inbox := overlay (inbox (network po)) 0 (payload m)\<rparr>"
    let ?po' = "po\<lparr>network := ?net', messageAvailable := messageAvailable po + 1\<rparr>"
    have "pktTo (pktHdr m) = b" using mo by (simp add: mail_ok_def)
    then have e: "NetworkReadPoll po ss = Inr (?po', ss(b := rest))"
      using ok False q h l(1,2) by (simp add: NetworkReadPoll_def CheckPktAvail_def office_ok_def Let_def IncomingPacket_def)
    have "inbox ?net' = payload m @ drop (length (payload m)) (inbox (network po))" by (simp add: overlay_def)
    then have "buffered (network ?po') [m]" using l(3) by (auto simp: buffered_def)
    moreover have "sl = pl @ [m] @ ms'" using ms(1) bs m(1) by simp
    moreover have "office_ok n b ?po'" using ok False l(2,3) by (simp add: office_ok_def)
    ultimately have "machine_ok n b ?po' rest sl pl gl"
      using assms m(3) by (intro machine_okI [of n b ?po' sl pl "[m]" ms']) (simp_all add: machine_ok_def)
    then show ?thesis using e by (intro exI [of _ ?po'] exI [of _ "ss(b := rest)"]) simp
  qed
qed

text \<open>A round of the postal worker moves the packet of the device to the box it is for.\<close>

lemma deliver_ok:
  assumes "machine_ok n b po q sl pl gl" "pktLength (inHdr (network po)) \<noteq> 0"
  shows "\<exists>po'. PostalDelivery po = Inr po' \<and> machine_ok n b po' q sl (pl @ [inbox_mail (network po)]) gl \<and> pktLength (inHdr (network po')) = 0"
proof -
  have ok: "office_ok n b po" using assms by (simp add: machine_ok_def)
  from assms obtain m ms pad where sl: "sl = pl @ [m] @ ms" "list_all2 carries q ms" and m: "pktHdr m = inHdr (network po)" "inbox (network po) = payload m @ pad"
    by (auto simp: machine_ok_def buffered_def)
  have mo: "mail_ok n b m" using assms(1) sl(1) by (simp add: machine_ok_def)
  note l = mail_ok_length [OF mo]
  let ?d = "unat (mailLength (mailHdr m))"
  have d: "length (mailData m) = ?d" "?d \<le> MAX_MAIL_SIZE" using mo by (simp_all add: mail_ok_def)
  have sm: "\<lparr>pktHdr = pktHdr m, mailHdr = mailHdr m, mailData = mailData m\<rparr> = m" by (cases m) simp
  have im: "inbox_mail (network po) = m"
    unfolding inbox_mail_def m(2) m(1) [symmetric] using d(1) by (simp add: payload_def slice_def Let_def sm)
  let ?buf = "overlay (workBuffer po) 0 (payload m)"
  have rc: "Network_Receive (workBuffer po) (network po) = (pktHdr m, ?buf, (network po)\<lparr>inHdr := (pktHdr m)\<lparr>pktLength := 0\<rparr>\<rparr>)"
    using assms(2) l(1) m by (simp add: Network_Receive_def Let_def)
  have buf: "?buf = payload m @ drop (length (payload m)) (workBuffer po)" by (simp add: overlay_def)
  have h: "bytes_mail ?buf = mailHdr m" "take ?d (drop 12 ?buf) = mailData m" "?d \<le> length (drop 12 ?buf)"
    unfolding buf using d(1) by (simp_all add: payload_def)
  have bx: "0 \<le> sint (mailTo (mailHdr m))" "sint (mailTo (mailHdr m)) < n" "box_of m < nat n" using mo by (auto simp: mail_ok_def box_of_def)
  let ?po' = "po\<lparr>messageAvailable := 0, network := (network po)\<lparr>inHdr := (pktHdr m)\<lparr>pktLength := 0\<rparr>\<rparr>, workBuffer := ?buf,
    boxes := (boxes po)[box_of m := boxes po ! box_of m @ [m]]\<rparr>"
  have e: "PostalDelivery po = Inr ?po'"
    using ok assms(2) rc h bx(1,2) d(2)
    by (simp add: PostalDelivery_def office_ok_def MailBox_Put_def Mail_new_def Let_def box_of_def sm)
  have "office_ok n b ?po'" using ok l(2) by (simp add: office_ok_def)
  moreover have "\<forall>k < nat n. gl k @ boxes ?po' ! k = filter (\<lambda>m. box_of m = k) (pl @ [m])"
    using assms(1) ok bx(3) by (auto simp: machine_ok_def office_ok_def nth_list_update)
  moreover have "buffered (network ?po') []" by (simp add: buffered_def)
  ultimately have "machine_ok n b ?po' q sl (pl @ [m]) gl"
    using assms(1) sl by (intro machine_okI [of n b ?po' sl "pl @ [m]" "[]" ms]) (simp_all add: machine_ok_def)
  then show ?thesis using e im by simp
qed

lemma receive_ok:
  assumes "machine_ok n b po q sl pl gl" "PostOffice_Receive box po = Inr (m, po')"
  shows "machine_ok n b po' q sl pl (gl(nat box := gl (nat box) @ [m]))"
proof -
  from assms(2) obtain rest where c: "0 \<le> box" "box < numBoxes po" "boxes po ! nat box = m # rest" "po' = po\<lparr>boxes := (boxes po)[nat box := rest]\<rparr>"
    by (auto simp: PostOffice_Receive_def MailBox_Get_def res_simps split: list.splits)
  from assms(1) obtain bs ms where ms: "sl = pl @ bs @ ms" "buffered (network po) bs" "list_all2 carries q ms" by (auto simp: machine_ok_def)
  have ok: "office_ok n b po" using assms(1) by (simp add: machine_ok_def)
  then have k: "nat box < length (boxes po)" using c(1,2) by (simp add: office_ok_def)
  have g: "gl j @ boxes po ! j = filter (\<lambda>m. box_of m = j) pl" if "j < nat n" for j using assms(1) that by (simp add: machine_ok_def)
  have "nat box < nat n" using k ok by (simp add: office_ok_def)
  then have "\<forall>k < nat n. (gl(nat box := gl (nat box) @ [m])) k @ boxes po' ! k = filter (\<lambda>m. box_of m = k) pl"
    using g [of "nat box"] g k c(3,4) by (simp add: nth_list_update)
  then show ?thesis using assms(1) ok ms c(4)
    by (intro machine_okI [of n b po' sl pl bs ms]) (simp_all add: machine_ok_def office_ok_def)
qed

abbreviation world_ok :: "int \<Rightarrow> net_world \<Rightarrow> u32 \<Rightarrow> PostOffice \<Rightarrow> bool" where
  "world_ok n w b po \<equiv> machine_ok n b po (socks w b) (sentLog w b) (putLog w b) (gotLog w b)"

lemma net_inv_at: "net_inv n w \<Longrightarrow> world_ok n w b (offices w b)"
  by (simp add: net_inv_def)

lemma office_inv: "net_inv n w \<Longrightarrow> world_ok n w a po \<Longrightarrow> net_inv n (set_office a po w)"
  by (simp add: net_inv_def set_office_def)

lemma send_inv:
  assumes "net_inv n w" "PostOffice_Send works raw pktH mailH data (offices w a) (socks w) = Inr (po, ss)"
  shows "net_inv n ((if works then log_sent (pktTo pktH) (sent_mail a pktH mailH data) else id) ((set_office a po w)\<lparr>socks := ss\<rparr>))"
proof -
  let ?b = "pktTo pktH" and ?m = "sent_mail a pktH mailH data" and ?o = "offices w a"
  note mk = net_inv_at [OF assms(1)]
  have ok: "office_ok n a ?o" using mk [of a] by (simp add: machine_ok_def)
  note c = Send_cases [OF assms(2) ok]
  have "messageSent ?o = 0" "sendsDue (network ?o) = 0" "\<not> sendBusy (network ?o)" using ok c(1) by (simp_all add: office_ok_def)
  then have "po = ?o\<lparr>sendLock := True, messageSent := 0, network := (network ?o)\<lparr>sendsDue := 1, sendBusy := False\<rparr>\<rparr>"
    using c(2) by simp
  then have "world_ok n w a po" by (rule sender_ok [OF mk]) simp
  then have b: "world_ok n w b (((offices w)(a := po)) b)" for b using mk by simp
  show ?thesis
  proof (cases works)
    case False
    then show ?thesis using c(4) b by (simp add: net_inv_def set_office_def)
  next
    case True
    with c(4) obtain p where p: "carries p ?m" "ss = (socks w)(?b := socks w ?b @ [p])" by auto
    show ?thesis using True p(2) b arrive_ok [OF b c(3) p(1)] by (auto simp: net_inv_def set_office_def log_sent_def)
  qed
qed

lemma sent_ok:
  assumes "machine_ok n b po q sl pl gl"
  shows "0 < sendsDue (network po) \<Longrightarrow> machine_ok n b (NetworkSendDone po) q sl pl gl"
    "PostOffice_Send_end po = Inr po' \<Longrightarrow> machine_ok n b po' q sl pl gl"
proof -
  have sum: "sendsDue (network po) + messageSent po = (if sendLock po then 1 else 0)" "\<not> sendBusy (network po)"
    using assms by (simp_all add: machine_ok_def office_ok_def)
  show "machine_ok n b (NetworkSendDone po) q sl pl gl" if "0 < sendsDue (network po)"
  proof (rule sender_ok [OF assms])
    show "NetworkSendDone po = po\<lparr>sendLock := sendLock po, messageSent := messageSent po + 1,
        network := (network po)\<lparr>sendsDue := sendsDue (network po) - 1, sendBusy := False\<rparr>\<rparr>"
      by (simp add: NetworkSendDone_def PacketSent_def Network_SendDone_def)
    show "sendsDue (network po) - 1 + (messageSent po + 1) = (if sendLock po then 1 else 0)" using that sum(1) by (auto split: if_splits)
  qed
  show "machine_ok n b po' q sl pl gl" if "PostOffice_Send_end po = Inr po'"
  proof (rule sender_ok [OF assms])
    have s: "0 < messageSent po" "po' = po\<lparr>messageSent := messageSent po - 1, sendLock := False\<rparr>"
      using that by (auto simp: PostOffice_Send_end_def res_simps)
    then have "messageSent po = 1" "sendsDue (network po) = 0" using sum(1) by (auto split: if_splits)
    then show "po' = po\<lparr>sendLock := False, messageSent := 0, network := (network po)\<lparr>sendsDue := 0, sendBusy := False\<rparr>\<rparr>"
      using s(2) sum(2) by simp
  qed simp
qed

lemma step_inv:
  assumes "net_step w w'" "net_inv n w"
  shows "net_inv n w'"
  using assms(1)
proof (cases rule: net_step.cases)
  case (send works raw pktH mailH data a po ss)
  then show ?thesis using send_inv [OF assms(2)] by simp
next
  case (sendDone a)
  then show ?thesis using office_inv [OF assms(2)] sent_ok(1) [OF net_inv_at [OF assms(2)]] by simp
next
  case (sendEnd a po)
  then show ?thesis using office_inv [OF assms(2)] sent_ok(2) [OF net_inv_at [OF assms(2)]] by simp
next
  case (poll a po ss)
  from poll_ok [where ss = "socks w" and b = a, OF net_inv_at [OF assms(2)]] poll(3)
  have "\<forall>b. b \<noteq> a \<longrightarrow> ss b = socks w b" "machine_ok n a po (ss a) (sentLog w a) (putLog w a) (gotLog w a)" by auto
  then show ?thesis using assms(2) poll(1) by (simp add: net_inv_def set_office_def)
next
  case (deliver a po)
  note mk = net_inv_at [OF assms(2), of a]
  have "0 < messageAvailable (offices w a)" using deliver(2) by (auto simp: PostalDelivery_def res_simps)
  then have "pktLength (inHdr (network (offices w a))) \<noteq> 0" using mk by (auto simp: machine_ok_def office_ok_def)
  from deliver_ok [OF mk this] deliver(2)
  have "machine_ok n a po (socks w a) (sentLog w a) (putLog w a @ [inbox_mail (network (offices w a))]) (gotLog w a)" by auto
  then show ?thesis using assms(2) deliver(1) by (simp add: net_inv_def set_office_def log_put_def)
next
  case (receive box a m po)
  from receive_ok [OF net_inv_at [OF assms(2)] receive(2)] show ?thesis
    using assms(2) receive(1) by (simp add: net_inv_def set_office_def log_got_def)
qed

lemma reachable_inv: "net_reachable n w \<Longrightarrow> net_inv n w"
  by (induction rule: net_reachable.induct) (auto intro: start_inv step_inv)

lemma Post_Send_ok:
  assumes "office_ok n a po" "\<not> sendLock po" "unat (mailLength mailH) \<le> MAX_MAIL_SIZE" "0 \<le> sint (mailTo mailH)" "sint (mailTo mailH) < n"
    and "unat (mailLength mailH) \<le> length data"
  shows "\<exists>po' ss'. PostOffice_Send works raw pktH mailH data po ss = Inr (po', ss')"
proof -
  have "mail_ok n (pktTo pktH) (sent_mail a pktH mailH data)" using assms by (simp add: mail_ok_def sent_mail_def)
  note l = mail_ok_length [OF this]
  have "unat (mailLength mailH + 12) \<le> MAX_PACKET_SIZE" "mailLength mailH + 12 \<noteq> 0" using l(1-3) by (simp_all add: sent_mail_def)
  moreover have "length (mail_bytes mailH @ take (unat (mailLength mailH)) data) \<le> MAX_PACKET_SIZE" using assms(3,6) by (simp add: SIZE_defs)
  ultimately show ?thesis using assms
    by (simp add: PostOffice_Send_def Network_Send_def office_ok_def Let_def word_gt_0)
qed

text \<open>What has been sent can be delivered, whatever the state.\<close>

lemma deliver_step:
  assumes "net_inv n w" "pktLength (inHdr (network (offices w b))) \<noteq> 0"
  shows "\<exists>w'. net_step w w' \<and> net_inv n w' \<and> sentLog w' = sentLog w \<and> gotLog w' = gotLog w
    \<and> length (putLog w' b) = Suc (length (putLog w b))"
proof -
  from deliver_ok [OF net_inv_at [OF assms(1)] assms(2)] obtain po where po: "PostalDelivery (offices w b) = Inr po" by blast
  note st = net_step.deliver [OF po]
  show ?thesis using st step_inv [OF st assms(1)]
    by (intro exI [of _ "log_put b (inbox_mail (network (offices w b))) (set_office b po w)"]) (simp add: log_put_def set_office_def)
qed

lemma poll_step:
  assumes "net_inv n w" "pktLength (inHdr (network (offices w b))) = 0" "socks w b \<noteq> []"
  shows "\<exists>w'. net_step w w' \<and> net_inv n w' \<and> sentLog w' = sentLog w \<and> gotLog w' = gotLog w \<and> putLog w' = putLog w
    \<and> pktLength (inHdr (network (offices w' b))) \<noteq> 0"
proof -
  note mk = net_inv_at [OF assms(1), of b]
  from poll_ok [where ss = "socks w", OF mk] obtain po ss where po: "NetworkReadPoll (offices w b) (socks w) = Inr (po, ss)" by blast
  have due: "0 < pollsDue (network (offices w b))" using mk by (simp add: machine_ok_def office_ok_def)
  note st = net_step.poll [OF due po]
  from assms(3) obtain p rest where q: "socks w b = p # rest" by (cases "socks w b") auto
  from mk assms(2) q obtain m ms where m: "sentLog w b = putLog w b @ m # ms" "carries p m"
    by (auto simp: machine_ok_def buffered_def list_all2_Cons1)
  have "mail_ok n b m" using mk m(1) by (simp add: machine_ok_def)
  then have "bytes_packet p = pktHdr m" "pktLength (pktHdr m) \<noteq> 0" "ident (network (offices w b)) = b"
    using m(2) mail_ok_length mk by (auto simp: carries_def machine_ok_def office_ok_def)
  then have "pktLength (inHdr (network po)) \<noteq> 0"
    using po assms(2) q by (auto simp: NetworkReadPoll_def CheckPktAvail_def Let_def res_simps IncomingPacket_def)
  then show ?thesis using st step_inv [OF st assms(1)]
    by (intro exI [of _ "(set_office b po w)\<lparr>socks := ss\<rparr>"]) (simp add: set_office_def)
qed

lemma delivers_all:
  assumes "net_inv n w"
  shows "\<exists>w'. net_step\<^sup>*\<^sup>* w w' \<and> net_inv n w' \<and> sentLog w' = sentLog w \<and> gotLog w' = gotLog w \<and> putLog w' b = sentLog w b"
  using assms
proof (induction "length (sentLog w b) - length (putLog w b)" arbitrary: w rule: less_induct)
  case less
  note mk = net_inv_at [OF less.prems, of b]
  then obtain bs ms where ms: "sentLog w b = putLog w b @ bs @ ms" "buffered (network (offices w b)) bs" "list_all2 carries (socks w b) ms"
    by (auto simp: machine_ok_def)
  show ?case
  proof (cases "pktLength (inHdr (network (offices w b))) = 0 \<and> socks w b = []")
    case True
    then have "putLog w b = sentLog w b" using ms by (simp add: buffered_def)
    then show ?thesis using less.prems by blast
  next
    case False
    have "\<exists>w1. net_step\<^sup>*\<^sup>* w w1 \<and> net_inv n w1 \<and> sentLog w1 = sentLog w \<and> gotLog w1 = gotLog w \<and> putLog w1 = putLog w
        \<and> pktLength (inHdr (network (offices w1 b))) \<noteq> 0"
    proof (cases "pktLength (inHdr (network (offices w b))) = 0")
      case True
      with False poll_step [OF less.prems True] show ?thesis by blast
    qed (use less.prems in blast)
    then obtain w1 where w1: "net_step\<^sup>*\<^sup>* w w1" "net_inv n w1" "sentLog w1 = sentLog w" "gotLog w1 = gotLog w" "putLog w1 = putLog w"
      "pktLength (inHdr (network (offices w1 b))) \<noteq> 0" by blast
    from deliver_step [OF w1(2,6)] obtain w2 where w2: "net_step w1 w2" "net_inv n w2" "sentLog w2 = sentLog w1" "gotLog w2 = gotLog w1"
      "length (putLog w2 b) = Suc (length (putLog w1 b))" by blast
    have "length (putLog w2 b) \<le> length (sentLog w2 b)" using net_inv_at [OF w2(2), of b] by (auto simp: machine_ok_def)
    then have "length (sentLog w2 b) - length (putLog w2 b) < length (sentLog w b) - length (putLog w b)" using w1 w2 by simp
    from less.hyps [OF this w2(2)] obtain w3 where "net_step\<^sup>*\<^sup>* w2 w3" "net_inv n w3" "sentLog w3 = sentLog w2" "gotLog w3 = gotLog w2"
      "putLog w3 b = sentLog w2 b" by blast
    then show ?thesis using w1 w2 by (metis (no_types, lifting) converse_rtranclp_into_rtranclp rtranclp_trans)
  qed
qed

section \<open>A sample network\<close>

text \<open>Ten mailboxes a machine, and one message of two bytes from machine 1 to box 3 of machine 2.\<close>

definition sample_net :: net_world where
  "sample_net = \<lparr>offices = (\<lambda>a. \<lparr>network = Network_new a \<lparr>pktTo = 0, pktFrom = 0, pktLength = 0\<rparr> (\<lambda>_. 0), netAddr = a, boxes = replicate 10 [],
     numBoxes = 10, messageAvailable = 0, messageSent = 0, sendLock = False, workBuffer = fresh_bytes (\<lambda>_. 0) MAX_PACKET_SIZE\<rparr>),
     socks = (\<lambda>_. []), sentLog = (\<lambda>_. []), putLog = (\<lambda>_. []), gotLog = (\<lambda>_ _. [])\<rparr>"

definition sample_mail :: Mail where
  "sample_mail = sent_mail 1 \<lparr>pktTo = 2, pktFrom = 0, pktLength = 0\<rparr> \<lparr>mailTo = 3, mailFrom = 0, mailLength = 2\<rparr> [7, 9]"

lemma sample_sent: "\<exists>w. net_reachable 10 w \<and> sentLog w 2 = [sample_mail] \<and> gotLog w = (\<lambda>_ _. [])"
proof -
  have "net_start 10 (\<lambda>_. \<lparr>pktTo = 0, pktFrom = 0, pktLength = 0\<rparr>) (\<lambda>_. 0) sample_net"
    by (simp add: net_start_def sample_net_def PostOffice_new_def)
  then have r: "net_reachable 10 sample_net" by (rule net_reachable.start)
  have o: "office_ok 10 1 (offices sample_net 1)" using net_inv_at [OF reachable_inv [OF r], of 1] by (simp add: machine_ok_def)
  have l: "\<not> sendLock (offices sample_net 1)" by (simp add: sample_net_def)
  from Post_Send_ok [OF o l, of "\<lparr>mailTo = 3, mailFrom = 0, mailLength = 2\<rparr>" "[7, 9]" True "\<lambda>_. 0" "\<lparr>pktTo = 2, pktFrom = 0, pktLength = 0\<rparr>" "socks sample_net"]
  obtain po ss where "PostOffice_Send True (\<lambda>_. 0) \<lparr>pktTo = 2, pktFrom = 0, pktLength = 0\<rparr> \<lparr>mailTo = 3, mailFrom = 0, mailLength = 2\<rparr> [7, 9]
      (offices sample_net 1) (socks sample_net) = Inr (po, ss)" by (auto simp: SIZE_defs)
  from net_reachable.step [OF r net_step.send [OF this]] show ?thesis
    by (intro exI conjI) (assumption, simp_all add: log_sent_def set_office_def sample_mail_def sample_net_def)
qed

lemma sample_box: "box_of sample_mail = 3"
  by (simp add: box_of_def sample_mail_def sent_mail_def)

section \<open>Properties\<close>

text \<open>
  C15. Mail arrives intact and in order: in every reachable state of the network, whatever packets were
  lost, what has been taken out of a mailbox followed by what is in it is the beginning of what was sent to
  that box and not lost, message by message with headers and data.
\<close>

theorem mail_in_order:
  assumes "net_reachable n w" "k < nat n"
  shows "\<exists>rest. filter (\<lambda>m. box_of m = k) (sentLog w b) = gotLog w b k @ boxes (offices w b) ! k @ rest"
proof -
  from net_inv_at [OF reachable_inv [OF assms(1)], of b] obtain bs ms where
    "sentLog w b = putLog w b @ bs @ ms" "gotLog w b k @ boxes (offices w b) ! k = filter (\<lambda>m. box_of m = k) (putLog w b)"
    using assms(2) by (auto simp: machine_ok_def)
  then show ?thesis by (metis append.assoc filter_append)
qed

theorem mail_in_order_witness:
  "\<exists>w rest. net_reachable 10 w \<and> [sample_mail] = gotLog w 2 3 @ boxes (offices w 2) ! 3 @ rest"
proof -
  from sample_sent obtain w where w: "net_reachable 10 w" "sentLog w 2 = [sample_mail]" by blast
  from mail_in_order [OF w(1), of 3 2] w sample_box show ?thesis by auto
qed

text \<open>
  C16. Nothing that is on its way gets stuck: from every reachable state the interrupts of the network and
  the postal worker can deliver everything sent to a machine to the boxes it is for; no \<open>ASSERT\<close> on the
  way fails.
\<close>

theorem mail_is_delivered:
  assumes "net_reachable n w"
  shows "\<exists>w'. net_step\<^sup>*\<^sup>* w w' \<and> sentLog w' = sentLog w
    \<and> (\<forall>k < nat n. gotLog w b k @ boxes (offices w' b) ! k = filter (\<lambda>m. box_of m = k) (sentLog w b))"
proof -
  from delivers_all [OF reachable_inv [OF assms]] obtain w' where
    "net_step\<^sup>*\<^sup>* w w'" "net_inv n w'" "sentLog w' = sentLog w" "gotLog w' = gotLog w" "putLog w' b = sentLog w b" by blast
  then show ?thesis using net_inv_at [of n w' b] by (auto simp: machine_ok_def)
qed

theorem mail_is_delivered_witness:
  "\<exists>w w'. net_reachable 10 w \<and> net_step\<^sup>*\<^sup>* w w' \<and> boxes (offices w' 2) ! 3 = [sample_mail]"
proof -
  from sample_sent obtain w where w: "net_reachable 10 w" "sentLog w 2 = [sample_mail]" "gotLog w = (\<lambda>_ _. [])" by blast
  from mail_is_delivered [OF w(1), of 2] w(2,3) sample_box obtain w' where
    "net_step\<^sup>*\<^sup>* w w'" "\<forall>k < nat 10. boxes (offices w' 2) ! k = filter (\<lambda>m. box_of m = k) [sample_mail]" by auto
  then show ?thesis using w(1) sample_box by (intro exI [of _ w] exI [of _ w']) simp
qed

end
