(* ===== verification/Bitmap.thy ===== *)
theory Bitmap
  imports Prelude
begin

text \<open>
  \<open>lib/bitmap.{hh,cc}\<close>: an array of \<open>unsigned\<close> words used as an array of bits. The free-sector
  map of the file system and the free-frame map of the virtual memory are bitmaps. The first
  section translates the class at the level of its words; the second gives the contract the
  clients rely on, as a locale over an abstract set of used indices; the third shows that the
  words implement it.
\<close>

section \<open>The class\<close>

definition BITS_IN_WORD :: nat where
  "BITS_IN_WORD = 32"

record bitmap =
  numBits :: nat
  numWords :: nat
  bits :: "u32 list"

text \<open>\<open>1 << which % BITS_IN_WORD\<close>\<close>

definition bit_mask :: "nat \<Rightarrow> u32" where
  "bit_mask which = push_bit (which mod BITS_IN_WORD) 1"

text \<open>Every access to \<open>map [which / BITS_IN_WORD]\<close> goes through here.\<close>

definition word_at :: "bitmap \<Rightarrow> nat \<Rightarrow> u32 res" where
  "word_at bm k = (if k < length (bits bm) then Inr (bits bm ! k) else Inl OutOfBounds)"

definition Bitmap_Mark :: "bitmap \<Rightarrow> nat \<Rightarrow> bitmap res" where
  "Bitmap_Mark bm which =
     rbind (rassert (which < numBits bm)) (\<lambda>_.
     rbind (word_at bm (which div BITS_IN_WORD)) (\<lambda>w.
       Inr (bm\<lparr>bits := (bits bm)[which div BITS_IN_WORD := w OR bit_mask which]\<rparr>)))"

definition Bitmap_Clear :: "bitmap \<Rightarrow> nat \<Rightarrow> bitmap res" where
  "Bitmap_Clear bm which =
     rbind (rassert (which < numBits bm)) (\<lambda>_.
     rbind (word_at bm (which div BITS_IN_WORD)) (\<lambda>w.
       Inr (bm\<lparr>bits := (bits bm)[which div BITS_IN_WORD := w AND NOT (bit_mask which)]\<rparr>)))"

definition Bitmap_Test :: "bitmap \<Rightarrow> nat \<Rightarrow> bool res" where
  "Bitmap_Test bm which =
     rbind (rassert (which < numBits bm)) (\<lambda>_.
     rbind (word_at bm (which div BITS_IN_WORD)) (\<lambda>w.
       Inr (w AND bit_mask which \<noteq> 0)))"

text \<open>
  The constructor: \<open>new unsigned [numWords]\<close> is uninitialised, then bits
  \<open>0\<close> to \<open>numBits - 1\<close> are cleared one by one. The bits past \<open>numBits\<close> in the
  last word keep what they were.
\<close>

fun Bitmap_clear_upto :: "nat \<Rightarrow> bitmap \<Rightarrow> bitmap res" where
  "Bitmap_clear_upto 0 bm = Inr bm"
| "Bitmap_clear_upto (Suc n) bm = rbind (Bitmap_clear_upto n bm) (\<lambda>bm'. Bitmap_Clear bm' n)"

definition Bitmap_new :: "(nat \<Rightarrow> byte) \<Rightarrow> nat \<Rightarrow> bitmap res" where
  "Bitmap_new junk nitems =
     rbind (rassert (nitems > 0)) (\<lambda>_.
       let nw = nitems div BITS_IN_WORD + (if nitems mod BITS_IN_WORD > 0 then 1 else 0)
       in Bitmap_clear_upto nitems
            \<lparr>numBits = nitems, numWords = nw,
             bits = bytes_words nw (fresh_bytes junk (4 * nw))\<rparr>)"

text \<open>The loop of \<open>Find\<close> from index \<open>i\<close> on; \<open>-1\<close> when no bit is clear.\<close>

function Bitmap_Find_from :: "bitmap \<Rightarrow> nat \<Rightarrow> (int \<times> bitmap) res" where
  "Bitmap_Find_from bm i =
     (if i < numBits bm then
        rbind (Bitmap_Test bm i) (\<lambda>t.
          if \<not> t then rbind (Bitmap_Mark bm i) (\<lambda>bm'. Inr (int i, bm'))
          else Bitmap_Find_from bm (Suc i))
      else Inr (-1, bm))"
  by pat_completeness auto
termination
  by (relation "measure (\<lambda>(bm, i). numBits bm - i)") auto

definition Bitmap_Find :: "bitmap \<Rightarrow> (int \<times> bitmap) res" where
  "Bitmap_Find bm = Bitmap_Find_from bm 0"

function Bitmap_CountClear_from :: "bitmap \<Rightarrow> nat \<Rightarrow> nat \<Rightarrow> nat res" where
  "Bitmap_CountClear_from bm i count =
     (if i < numBits bm then
        rbind (Bitmap_Test bm i) (\<lambda>t.
          Bitmap_CountClear_from bm (Suc i) (if \<not> t then count + 1 else count))
      else Inr count)"
  by pat_completeness auto
termination
  by (relation "measure (\<lambda>(bm, i, count). numBits bm - i)") auto

definition Bitmap_CountClear :: "bitmap \<Rightarrow> nat res" where
  "Bitmap_CountClear bm = Bitmap_CountClear_from bm 0 0"

text \<open>\<open>Print\<close> writes the indices of the set bits; the model returns them.\<close>

fun Bitmap_Print_upto :: "nat \<Rightarrow> bitmap \<Rightarrow> nat list res" where
  "Bitmap_Print_upto 0 bm = Inr []"
| "Bitmap_Print_upto (Suc n) bm =
     rbind (Bitmap_Print_upto n bm) (\<lambda>out.
     rbind (Bitmap_Test bm n) (\<lambda>t. Inr (if t then out @ [n] else out)))"

definition Bitmap_Print :: "bitmap \<Rightarrow> nat list res" where
  "Bitmap_Print bm = Bitmap_Print_upto (numBits bm) bm"

declare Bitmap_Find_from.simps [simp del]
declare Bitmap_CountClear_from.simps [simp del]

section \<open>The contract of an index allocator\<close>

text \<open>Taking \<open>k\<close> indices one after the other, as the loops that allocate sectors do.\<close>

fun find_many :: "('m \<Rightarrow> (int \<times> 'm) res) \<Rightarrow> nat \<Rightarrow> 'm \<Rightarrow> (int list \<times> 'm) res" where
  "find_many fnd 0 m = Inr ([], m)"
| "find_many fnd (Suc k) m =
     rbind (fnd m) (\<lambda>(i, m'). rbind (find_many fnd k m') (\<lambda>(is, m''). Inr (i # is, m'')))"

text \<open>Giving indices back, with the test that \<open>FileHeader::Deallocate\<close> makes first.\<close>

fun release_many :: "('m \<Rightarrow> nat \<Rightarrow> bool res) \<Rightarrow> ('m \<Rightarrow> nat \<Rightarrow> 'm res) \<Rightarrow> nat list \<Rightarrow> 'm \<Rightarrow> 'm res" where
  "release_many test clear [] m = Inr m"
| "release_many test clear (i # is) m =
     rbind (test m i) (\<lambda>t. rbind (rassert t) (\<lambda>_.
     rbind (clear m i) (\<lambda>m'. release_many test clear is m')))"

locale index_allocator =
  fixes ok :: "'m \<Rightarrow> bool"
    and cap :: "'m \<Rightarrow> nat"
    and used :: "'m \<Rightarrow> nat set"
    and test :: "'m \<Rightarrow> nat \<Rightarrow> bool res"
    and mark :: "'m \<Rightarrow> nat \<Rightarrow> 'm res"
    and clear :: "'m \<Rightarrow> nat \<Rightarrow> 'm res"
    and fnd :: "'m \<Rightarrow> (int \<times> 'm) res"
    and count :: "'m \<Rightarrow> nat res"
  assumes used_cap: "ok m \<Longrightarrow> used m \<subseteq> {..<cap m}"
    and test_law: "ok m \<Longrightarrow> i < cap m \<Longrightarrow> test m i = Inr (i \<in> used m)"
    and mark_law: "ok m \<Longrightarrow> i < cap m \<Longrightarrow>
      \<exists>m'. mark m i = Inr m' \<and> ok m' \<and> cap m' = cap m \<and> used m' = insert i (used m)"
    and clear_law: "ok m \<Longrightarrow> i < cap m \<Longrightarrow>
      \<exists>m'. clear m i = Inr m' \<and> ok m' \<and> cap m' = cap m \<and> used m' = used m - {i}"
    and find_free: "ok m \<Longrightarrow> used m \<noteq> {..<cap m} \<Longrightarrow>
      \<exists>i m'. fnd m = Inr (int i, m') \<and> i < cap m \<and> i \<notin> used m \<and> {..<i} \<subseteq> used m
        \<and> ok m' \<and> cap m' = cap m \<and> used m' = insert i (used m)"
    and find_none: "ok m \<Longrightarrow> used m = {..<cap m} \<Longrightarrow> fnd m = Inr (-1, m)"
    and count_law: "ok m \<Longrightarrow> count m = Inr (card ({..<cap m} - used m))"
begin

lemma test_after_mark:
  assumes "ok m" "i < cap m" "mark m i = Inr m'" "j < cap m"
  shows "test m' j = Inr (j = i \<or> j \<in> used m)"
  using mark_law [OF assms(1,2)] assms(3,4) test_law by auto

lemma test_after_clear:
  assumes "ok m" "i < cap m" "clear m i = Inr m'" "j < cap m"
  shows "test m' j = Inr (j \<noteq> i \<and> j \<in> used m)"
  using clear_law [OF assms(1,2)] assms(3,4) test_law by auto

lemma count_after_find:
  assumes "ok m" "fnd m = Inr (int i, m')" "count m = Inr c"
  shows "0 < c \<and> count m' = Inr (c - 1)"
proof -
  from assms(1,2) have "used m \<noteq> {..<cap m}" using find_none by fastforce
  from find_free [OF assms(1) this] assms(2)
  have i: "i < cap m" "i \<notin> used m" "ok m'" "cap m' = cap m" "used m' = insert i (used m)"
    by auto
  have c: "c = card ({..<cap m} - used m)" using count_law assms(1,3) by auto
  have "i \<in> {..<cap m} - used m" using i by simp
  then have "0 < c" unfolding c by (metis card_gt_0_iff emptyE finite_Diff finite_lessThan)
  moreover have "{..<cap m} - insert i (used m) = ({..<cap m} - used m) - {i}" by auto
  with i c have "count m' = Inr (c - 1)"
    using count_law [OF i(3)] by simp
  ultimately show ?thesis by simp
qed

text \<open>With at least \<open>k\<close> free indices, \<open>k\<close> calls of \<open>find\<close> give \<open>k\<close> distinct free ones.\<close>

lemma find_many_fresh:
  assumes "ok m" "k \<le> card ({..<cap m} - used m)"
  shows "\<exists>is m'. find_many fnd k m = Inr (map int is, m') \<and> length is = k \<and> distinct is
    \<and> set is \<inter> used m = {} \<and> set is \<subseteq> {..<cap m}
    \<and> ok m' \<and> cap m' = cap m \<and> used m' = used m \<union> set is"
  using assms
proof (induction k arbitrary: m)
  case 0
  then show ?case by auto
next
  case (Suc k)
  then have "used m \<noteq> {..<cap m}" by auto
  from find_free [OF Suc.prems(1) this] obtain i m1 where
    m1: "fnd m = Inr (int i, m1)" "i < cap m" "i \<notin> used m" "ok m1" "cap m1 = cap m"
      "used m1 = insert i (used m)" by auto
  have "{..<cap m1} - used m1 = ({..<cap m} - used m) - {i}" using m1 by auto
  moreover have "i \<in> {..<cap m} - used m" using m1 by simp
  ultimately have "k \<le> card ({..<cap m1} - used m1)"
    using Suc.prems(2) by (simp add: card_Diff_singleton)
  from Suc.IH [OF m1(4) this] obtain js m2 where
    "find_many fnd k m1 = Inr (map int js, m2)" "length js = k" "distinct js"
    "set js \<inter> used m1 = {}" "set js \<subseteq> {..<cap m1}" "ok m2" "cap m2 = cap m1"
    "used m2 = used m1 \<union> set js" by auto
  with m1 show ?case by (intro exI [of _ "i # js"] exI [of _ m2]) auto
qed

text \<open>Releasing used indices frees exactly them.\<close>

lemma release_many_used:
  assumes "ok m" "distinct is" "set is \<subseteq> used m"
  shows "\<exists>m'. release_many test clear is m = Inr m' \<and> ok m' \<and> cap m' = cap m
    \<and> used m' = used m - set is"
  using assms
proof (induction "is" arbitrary: m)
  case Nil
  then show ?case by simp
next
  case (Cons i "is")
  then have i: "i < cap m" "i \<in> used m" using used_cap by auto
  from clear_law [OF Cons.prems(1) i(1)] obtain m1 where
    m1: "clear m i = Inr m1" "ok m1" "cap m1 = cap m" "used m1 = used m - {i}" by auto
  have "set is \<subseteq> used m1" using Cons.prems m1 by auto
  from Cons.IH [OF m1(2) _ this] Cons.prems obtain m2 where
    "release_many test clear is m1 = Inr m2" "ok m2" "cap m2 = cap m1" "used m2 = used m1 - set is"
    by auto
  with m1 i Cons.prems show ?case by (auto simp: test_law)
qed

text \<open>An index taken and released again leaves the same indices used.\<close>

lemma find_release:
  assumes "ok m" "k \<le> card ({..<cap m} - used m)" "find_many fnd k m = Inr (map int is, m')"
  shows "\<exists>m''. release_many test clear is m' = Inr m'' \<and> ok m'' \<and> used m'' = used m"
proof -
  from find_many_fresh [OF assms(1,2)] obtain js m1 where
    js: "find_many fnd k m = Inr (map int js, m1)" "distinct js" "set js \<inter> used m = {}"
      "ok m1" "used m1 = used m \<union> set js" by auto
  from js(1) assms(3) have "map int js = map int is" "m1 = m'" by auto
  then have "js = is" by (simp add: inj_on_def map_inj_on)
  with js \<open>m1 = m'\<close> release_many_used [of m' "is"] show ?thesis by auto
qed

end

section \<open>The words implement the contract\<close>

definition bitmap_ok :: "bitmap \<Rightarrow> bool" where
  "bitmap_ok bm \<longleftrightarrow> length (bits bm) = numWords bm \<and> numBits bm \<le> BITS_IN_WORD * numWords bm"

definition marked :: "bitmap \<Rightarrow> nat set" where
  "marked bm = {i. i < numBits bm \<and> bit (bits bm ! (i div BITS_IN_WORD)) (i mod BITS_IN_WORD)}"

lemma bit_bit_mask: "bit (bit_mask which) n \<longleftrightarrow> n = which mod BITS_IN_WORD"
  by (auto simp: bit_mask_def BITS_IN_WORD_def bit_simps)

lemma and_bit_mask: "w AND bit_mask which \<noteq> 0 \<longleftrightarrow> bit w (which mod BITS_IN_WORD)"
proof
  assume "w AND bit_mask which \<noteq> 0"
  then obtain n where "bit (w AND bit_mask which) n"
    by (auto simp: bit_eq_iff)
  then show "bit w (which mod BITS_IN_WORD)" by (auto simp: bit_and_iff bit_bit_mask)
next
  assume "bit w (which mod BITS_IN_WORD)"
  then have "bit (w AND bit_mask which) (which mod BITS_IN_WORD)"
    by (simp add: bit_and_iff bit_bit_mask)
  then show "w AND bit_mask which \<noteq> 0" by auto
qed

lemma word_at_ok:
  assumes "bitmap_ok bm" "i < numBits bm"
  shows "word_at bm (i div BITS_IN_WORD) = Inr (bits bm ! (i div BITS_IN_WORD))"
  using assms by (auto simp: word_at_def bitmap_ok_def BITS_IN_WORD_def)

lemma bitmap_index_eq:
  "i div BITS_IN_WORD = j div BITS_IN_WORD \<Longrightarrow> i mod BITS_IN_WORD = j mod BITS_IN_WORD \<Longrightarrow> i = j"
  by (metis div_mult_mod_eq)

lemma bitmap_word_index:
  "bitmap_ok bm \<Longrightarrow> i < numBits bm \<Longrightarrow> i div BITS_IN_WORD < length (bits bm)"
  by (auto simp: bitmap_ok_def BITS_IN_WORD_def)

lemma bitmap_test: "bitmap_ok bm \<Longrightarrow> i < numBits bm \<Longrightarrow> Bitmap_Test bm i = Inr (i \<in> marked bm)"
  by (simp add: Bitmap_Test_def word_at_ok and_bit_mask marked_def)

lemma in_marked:
  "i \<in> marked bm \<longleftrightarrow> i < numBits bm \<and> bit (bits bm ! (i div BITS_IN_WORD)) (i mod BITS_IN_WORD)"
  by (simp add: marked_def)

lemma marked_update:
  assumes "bitmap_ok bm" "i < numBits bm"
    and same: "\<And>n. n < BITS_IN_WORD \<Longrightarrow> n \<noteq> i mod BITS_IN_WORD \<Longrightarrow>
           bit w n = bit (bits bm ! (i div BITS_IN_WORD)) n"
  shows "j \<in> marked (bm\<lparr>bits := (bits bm)[i div BITS_IN_WORD := w]\<rparr>) \<longleftrightarrow>
    (if j = i then bit w (i mod BITS_IN_WORD) else j \<in> marked bm)"
proof (cases "j div BITS_IN_WORD = i div BITS_IN_WORD")
  case True
  note ix = bitmap_word_index [OF assms(1,2)]
  show ?thesis
  proof (cases "j = i")
    case True
    then show ?thesis using assms(2) ix by (simp add: in_marked)
  next
    case False
    with True have "j mod BITS_IN_WORD \<noteq> i mod BITS_IN_WORD" using bitmap_index_eq by blast
    moreover have "j mod BITS_IN_WORD < BITS_IN_WORD" by (simp add: BITS_IN_WORD_def)
    ultimately show ?thesis using False True same [of "j mod BITS_IN_WORD"] ix
      by (simp add: in_marked)
  qed
next
  case False
  then have "j \<noteq> i" by auto
  with False show ?thesis by (simp add: in_marked)
qed

lemma bitmap_ok_update [simp]:
  "bitmap_ok (bm\<lparr>bits := (bits bm)[k := w]\<rparr>) = bitmap_ok bm"
  by (simp add: bitmap_ok_def)

lemma bitmap_mark:
  assumes "bitmap_ok bm" "i < numBits bm"
  shows "\<exists>bm'. Bitmap_Mark bm i = Inr bm' \<and> bitmap_ok bm' \<and> numBits bm' = numBits bm
    \<and> numWords bm' = numWords bm \<and> marked bm' = insert i (marked bm)"
proof -
  let ?w = "bits bm ! (i div BITS_IN_WORD) OR bit_mask i"
  have "marked (bm\<lparr>bits := (bits bm)[i div BITS_IN_WORD := ?w]\<rparr>) = insert i (marked bm)"
    by (rule set_eqI, subst marked_update) (simp_all add: assms bit_or_iff bit_bit_mask)
  with assms show ?thesis by (simp add: Bitmap_Mark_def word_at_ok)
qed

lemma bitmap_clear:
  assumes "bitmap_ok bm" "i < numBits bm"
  shows "\<exists>bm'. Bitmap_Clear bm i = Inr bm' \<and> bitmap_ok bm' \<and> numBits bm' = numBits bm
    \<and> numWords bm' = numWords bm \<and> marked bm' = marked bm - {i}"
proof -
  let ?w = "bits bm ! (i div BITS_IN_WORD) AND NOT (bit_mask i)"
  have "marked (bm\<lparr>bits := (bits bm)[i div BITS_IN_WORD := ?w]\<rparr>) = marked bm - {i}"
    by (rule set_eqI, subst marked_update)
      (simp_all add: assms bit_and_iff bit_not_iff bit_bit_mask BITS_IN_WORD_def)
  with assms show ?thesis by (simp add: Bitmap_Clear_def word_at_ok)
qed

lemma bitmap_find_from:
  assumes "bitmap_ok bm" "i \<le> numBits bm" "{..<i} \<subseteq> marked bm"
  shows "if marked bm = {..<numBits bm} then Bitmap_Find_from bm i = Inr (-1, bm)
    else \<exists>k bm'. Bitmap_Find_from bm i = Inr (int k, bm') \<and> k < numBits bm \<and> k \<notin> marked bm
        \<and> {..<k} \<subseteq> marked bm \<and> bitmap_ok bm' \<and> numBits bm' = numBits bm
        \<and> numWords bm' = numWords bm \<and> marked bm' = insert k (marked bm)"
  using assms
proof (induction bm i rule: Bitmap_Find_from.induct)
  case (1 bm i)
  show ?case
  proof (cases "i < numBits bm")
    case i: True
    show ?thesis
    proof (cases "i \<in> marked bm")
      case True
      with i 1(2) have "Bitmap_Find_from bm i = Bitmap_Find_from bm (Suc i)"
        by (subst Bitmap_Find_from.simps) (simp add: bitmap_test)
      moreover have "{..<Suc i} \<subseteq> marked bm" using True 1(4) by (simp add: lessThan_Suc)
      ultimately show ?thesis using 1(1) [OF i, of True] 1(2) True i by (simp add: bitmap_test)
    next
      case False
      with i 1(2) have "Bitmap_Find_from bm i = rbind (Bitmap_Mark bm i) (\<lambda>bm'. Inr (int i, bm'))"
        by (subst Bitmap_Find_from.simps) (simp add: bitmap_test)
      moreover have "marked bm \<noteq> {..<numBits bm}" using False i by auto
      ultimately show ?thesis using bitmap_mark [OF 1(2) i] False i 1(4) by auto
    qed
  next
    case False
    with 1(3,4) have "marked bm = {..<numBits bm}" by (auto simp: marked_def)
    with False show ?thesis by (subst Bitmap_Find_from.simps) simp
  qed
qed

lemma bitmap_count_from:
  "bitmap_ok bm \<Longrightarrow> i \<le> numBits bm \<Longrightarrow>
    Bitmap_CountClear_from bm i c = Inr (c + card ({i..<numBits bm} - marked bm))"
proof (induction bm i c rule: Bitmap_CountClear_from.induct)
  case (1 bm i c)
  show ?case
  proof (cases "i < numBits bm")
    case True
    then have "{i..<numBits bm} - marked bm =
        (if i \<in> marked bm then {} else {i}) \<union> ({Suc i..<numBits bm} - marked bm)"
      by (auto simp: not_less_eq_eq Suc_le_eq le_less)
    then have "card ({i..<numBits bm} - marked bm) =
        (if i \<in> marked bm then 0 else 1) + card ({Suc i..<numBits bm} - marked bm)"
      by (auto simp: card_insert_if)
    with True 1(1) [OF True, of "i \<in> marked bm"] 1(2) show ?thesis
      by (subst Bitmap_CountClear_from.simps) (auto simp: bitmap_test)
  next
    case False
    with 1 show ?thesis by (subst Bitmap_CountClear_from.simps) simp
  qed
qed

lemma bitmap_clear_upto:
  assumes "bitmap_ok bm" "n \<le> numBits bm"
  shows "\<exists>bm'. Bitmap_clear_upto n bm = Inr bm' \<and> bitmap_ok bm' \<and> numBits bm' = numBits bm
    \<and> numWords bm' = numWords bm \<and> marked bm' = marked bm - {..<n}"
  using assms
proof (induction n)
  case 0
  then show ?case by simp
next
  case (Suc n)
  then obtain bm1 where b: "Bitmap_clear_upto n bm = Inr bm1" "bitmap_ok bm1"
    "numBits bm1 = numBits bm" "numWords bm1 = numWords bm" "marked bm1 = marked bm - {..<n}" by auto
  with Suc.prems bitmap_clear [of bm1 n] show ?case by (auto simp: lessThan_Suc)
qed

lemma bitmap_print_upto:
  "bitmap_ok bm \<Longrightarrow> n \<le> numBits bm \<Longrightarrow>
    Bitmap_Print_upto n bm = Inr (filter (\<lambda>i. i \<in> marked bm) [0..<n])"
  by (induction n) (auto simp: bitmap_test)

text \<open>The class provides the allocator contract.\<close>

interpretation bm: index_allocator
  bitmap_ok numBits marked Bitmap_Test Bitmap_Mark Bitmap_Clear Bitmap_Find Bitmap_CountClear
proof unfold_locales
  show "bitmap_ok m \<Longrightarrow> marked m \<subseteq> {..<numBits m}" for m
    by (auto simp: marked_def)
  show "bitmap_ok m \<Longrightarrow> i < numBits m \<Longrightarrow> Bitmap_Test m i = Inr (i \<in> marked m)" for m i
    by (rule bitmap_test)
  show "bitmap_ok m \<Longrightarrow> i < numBits m \<Longrightarrow> \<exists>m'. Bitmap_Mark m i = Inr m' \<and> bitmap_ok m'
      \<and> numBits m' = numBits m \<and> marked m' = insert i (marked m)" for m i
    using bitmap_mark by blast
  show "bitmap_ok m \<Longrightarrow> i < numBits m \<Longrightarrow> \<exists>m'. Bitmap_Clear m i = Inr m' \<and> bitmap_ok m'
      \<and> numBits m' = numBits m \<and> marked m' = marked m - {i}" for m i
    using bitmap_clear by blast
  show "\<exists>i m'. Bitmap_Find m = Inr (int i, m') \<and> i < numBits m \<and> i \<notin> marked m
      \<and> {..<i} \<subseteq> marked m \<and> bitmap_ok m' \<and> numBits m' = numBits m
      \<and> marked m' = insert i (marked m)"
    if "bitmap_ok m" "marked m \<noteq> {..<numBits m}" for m
    using bitmap_find_from [OF that(1), of 0] that(2) unfolding Bitmap_Find_def by auto
  show "Bitmap_Find m = Inr (-1, m)" if "bitmap_ok m" "marked m = {..<numBits m}" for m
    using bitmap_find_from [OF that(1), of 0] that(2) by (simp add: Bitmap_Find_def)
  show "bitmap_ok m \<Longrightarrow> Bitmap_CountClear m = Inr (card ({..<numBits m} - marked m))" for m
    by (simp add: Bitmap_CountClear_def bitmap_count_from lessThan_atLeast0)
qed

text \<open>No operation changes the number of words.\<close>

lemma Bitmap_Find_from_numWords: "Bitmap_Find_from bm i = Inr (r, bm') \<Longrightarrow> numWords bm' = numWords bm"
proof (induction bm i rule: Bitmap_Find_from.induct)
  case (1 bm i)
  then show ?case
    by (subst (asm) (2) Bitmap_Find_from.simps)
      (auto simp: res_simps Bitmap_Mark_def split: if_splits)
qed

lemma Bitmap_Find_numWords: "Bitmap_Find bm = Inr (r, bm') \<Longrightarrow> numWords bm' = numWords bm"
  unfolding Bitmap_Find_def by (rule Bitmap_Find_from_numWords)

lemma bitmap_new:
  assumes "0 < n"
  shows "\<exists>bm. Bitmap_new junk n = Inr bm \<and> bitmap_ok bm \<and> numBits bm = n
    \<and> numWords bm = (n + 31) div 32 \<and> marked bm = {}"
proof -
  let ?nw = "n div BITS_IN_WORD + (if n mod BITS_IN_WORD > 0 then 1 else 0)"
  let ?b = "\<lparr>numBits = n, numWords = ?nw, bits = bytes_words ?nw (fresh_bytes junk (4 * ?nw))\<rparr>"
  have nw: "?nw = (n + 31) div 32"
    using nat_div_round_up [of 32 n] by (simp add: BITS_IN_WORD_def)
  have ok: "bitmap_ok ?b" unfolding nw by (simp add: bitmap_ok_def BITS_IN_WORD_def)
  from bitmap_clear_upto [OF ok, of n] obtain b where
    "Bitmap_clear_upto n ?b = Inr b" "bitmap_ok b" "numBits b = n"
    "numWords b = (n + 31) div 32" "marked b = marked ?b - {..<n}"
    unfolding nw by auto
  moreover have "marked ?b \<subseteq> {..<n}" by (auto simp: marked_def)
  ultimately show ?thesis using assms nw
    by (auto simp: Bitmap_new_def Let_def)
qed

text \<open>The contents of the bitmap do not depend on bits past \<open>numBits\<close>.\<close>

lemma marked_bits_eq:
  "numBits a = numBits b \<Longrightarrow> bits a = bits b \<Longrightarrow> marked a = marked b"
  by (simp add: marked_def)

section \<open>Properties\<close>

text \<open>
  C22. Marking, clearing and testing a bit below the size implement insertion, deletion and
  membership on the set of marked indices, and keep the bitmap well formed; at or past the size
  all three stop at their \<open>ASSERT\<close>.
\<close>

theorem bitmap_set_refinement:
  assumes "bitmap_ok bm"
  shows "if i < numBits bm
    then (\<exists>m c. Bitmap_Mark bm i = Inr m \<and> bitmap_ok m \<and> marked m = insert i (marked bm)
            \<and> Bitmap_Clear bm i = Inr c \<and> bitmap_ok c \<and> marked c = marked bm - {i}
            \<and> numBits m = numBits bm \<and> numBits c = numBits bm)
         \<and> Bitmap_Test bm i = Inr (i \<in> marked bm)
    else Bitmap_Mark bm i = Inl AssertFailed \<and> Bitmap_Clear bm i = Inl AssertFailed
         \<and> Bitmap_Test bm i = Inl AssertFailed"
proof (cases "i < numBits bm")
  case True
  with assms show ?thesis
    using bitmap_mark [OF assms True] bitmap_clear [OF assms True] bitmap_test [OF assms True] by auto
next
  case False
  then show ?thesis by (simp add: Bitmap_Mark_def Bitmap_Clear_def Bitmap_Test_def)
qed

theorem bitmap_set_refinement_witness:
  "bitmap_ok \<lparr>numBits = 34, numWords = 2, bits = [5, 1]\<rparr> \<and>
   Bitmap_Test \<lparr>numBits = 34, numWords = 2, bits = [5, 1]\<rparr> 32 = Inr True \<and>
   Bitmap_Test \<lparr>numBits = 34, numWords = 2, bits = [5, 1]\<rparr> 40 = Inl AssertFailed"
proof -
  let ?b = "\<lparr>numBits = 34, numWords = 2, bits = [5, 1]\<rparr> :: bitmap"
  have ok: "bitmap_ok ?b" by (simp add: bitmap_ok_def BITS_IN_WORD_def)
  have "32 \<in> marked ?b" by (simp add: marked_def BITS_IN_WORD_def)
  with bitmap_set_refinement [OF ok, of 32] bitmap_set_refinement [OF ok, of 40] ok
  show ?thesis by simp
qed

text \<open>
  With at least \<open>k\<close> clear bits, as \<open>CountClear\<close> reports them, \<open>k\<close> calls of \<open>Find\<close>
  give \<open>k\<close> distinct indices that were clear, and releasing them with the test and clear of
  \<open>FileHeader::Deallocate\<close> gives back the bitmap one started from.
\<close>

theorem bitmap_alloc_release:
  assumes "bitmap_ok bm" "Bitmap_CountClear bm = Inr c" "k \<le> c"
  shows "\<exists>is bm' bm''. find_many Bitmap_Find k bm = Inr (map int is, bm') \<and> length is = k
    \<and> distinct is \<and> set is \<inter> marked bm = {} \<and> Bitmap_CountClear bm' = Inr (c - k)
    \<and> release_many Bitmap_Test Bitmap_Clear is bm' = Inr bm'' \<and> marked bm'' = marked bm"
proof -
  have c: "c = card ({..<numBits bm} - marked bm)"
    using assms(1,2) bm.count_law by simp
  with assms(3) have k: "k \<le> card ({..<numBits bm} - marked bm)" by simp
  from bm.find_many_fresh [OF assms(1) k] obtain "is" bm' where
    f: "find_many Bitmap_Find k bm = Inr (map int is, bm')" "length is = k" "distinct is"
      "set is \<inter> marked bm = {}" "set is \<subseteq> {..<numBits bm}" "bitmap_ok bm'"
      "numBits bm' = numBits bm" "marked bm' = marked bm \<union> set is" by auto
  have "{..<numBits bm'} - marked bm' = ({..<numBits bm} - marked bm) - set is" using f by auto
  moreover have "set is \<subseteq> {..<numBits bm} - marked bm" using f(4,5) by auto
  ultimately have "Bitmap_CountClear bm' = Inr (c - k)"
    using bm.count_law [OF f(6)] c f(2,3) by (simp add: card_Diff_subset distinct_card)
  with f bm.find_release [OF assms(1) k f(1)] show ?thesis by blast
qed

theorem bitmap_alloc_release_witness:
  "\<exists>is bm'. find_many Bitmap_Find 2 \<lparr>numBits = 3, numWords = 1, bits = [2]\<rparr> = Inr (map int is, bm')
     \<and> distinct is \<and> length is = 2"
proof -
  let ?b = "\<lparr>numBits = 3, numWords = 1, bits = [2]\<rparr> :: bitmap"
  have ok: "bitmap_ok ?b" by (simp add: bitmap_ok_def BITS_IN_WORD_def)
  have "marked ?b = {1}"
    by (auto simp: marked_def BITS_IN_WORD_def bit_numeral_rec numeral_3_eq_3 less_Suc_eq)
  moreover have "{..<3} - {1::nat} = {0, 2}" by auto
  ultimately have "Bitmap_CountClear ?b = Inr 2" using bm.count_law [OF ok] by simp
  from bitmap_alloc_release [OF ok this, of 2] show ?thesis by blast
qed

end
