(* ===== verification/File_Header.thy ===== *)
theory File_Header
  imports Bitmap Disk
begin

text \<open>
  \<open>filesys/raw_file_header.hh\<close> and \<open>filesys/file_header.cc\<close>: the header (i-node) of a file, its
  layout in a sector, the allocation and release of data sectors, and the translation from a byte
  offset to a sector. Arithmetic on header fields is that of \<open>unsigned\<close> and wraps.
\<close>

section \<open>The raw header\<close>

definition NUM_DIRECT :: nat where "NUM_DIRECT = 29"
definition TIMES_FH_FITS :: nat where "TIMES_FH_FITS = NUM_SECTORS div (NUM_DIRECT + 1)"
definition FILE_DATA_SECTORS :: nat where "FILE_DATA_SECTORS = NUM_SECTORS - TIMES_FH_FITS"
definition MAX_FILE_SIZE :: nat where "MAX_FILE_SIZE = FILE_DATA_SECTORS * SECTOR_SIZE"
definition MAX_DIR_ENTRIES :: nat where "MAX_DIR_ENTRIES = MAX_FILE_SIZE div 32"

record RawFileHeader =
  numBytes :: u32
  numSectors :: u32
  dataSectors :: "u32 list"
  nextFileHeader :: u32

text \<open>The structure in memory, which is what goes to the header's sector.\<close>

definition header_bytes :: "RawFileHeader \<Rightarrow> byte list" where
  "header_bytes h = u32_bytes (numBytes h) @ u32_bytes (numSectors h)
     @ words_bytes (dataSectors h) @ u32_bytes (nextFileHeader h)"

definition bytes_header :: "byte list \<Rightarrow> RawFileHeader" where
  "bytes_header bs =
     \<lparr>numBytes = bytes_u32 (slice 0 4 bs), numSectors = bytes_u32 (slice 4 4 bs),
      dataSectors = bytes_words NUM_DIRECT (drop 8 bs),
      nextFileHeader = bytes_u32 (slice (8 + 4 * NUM_DIRECT) 4 bs)\<rparr>"

section \<open>Operations\<close>

text \<open>Element \<open>i\<close> of \<open>dataSectors\<close>; the array has \<open>NUM_DIRECT\<close> of them.\<close>

definition dataSector_at :: "RawFileHeader \<Rightarrow> nat \<Rightarrow> u32 res" where
  "dataSector_at h i = (if i < length (dataSectors h) then Inr (dataSectors h ! i) else Inl OutOfBounds)"

fun Allocate_loop :: "nat list \<Rightarrow> RawFileHeader \<Rightarrow> bitmap \<Rightarrow> (RawFileHeader \<times> bitmap) res" where
  "Allocate_loop [] h freeMap = Inr (h, freeMap)"
| "Allocate_loop (i # is) h freeMap =
     rbind (Bitmap_Find freeMap) (\<lambda>(r, freeMap').
     rbind (rcheck OutOfBounds (i < length (dataSectors h))) (\<lambda>_.
       Allocate_loop is (h\<lparr>dataSectors := (dataSectors h)[i := of_int r]\<rparr>) freeMap'))"

definition FileHeader_Allocate :: "RawFileHeader \<Rightarrow> bitmap \<Rightarrow> u32 \<Rightarrow> (bool \<times> RawFileHeader \<times> bitmap) res" where
  "FileHeader_Allocate h freeMap fileSize =
     rbind (rassert (fileSize \<le> of_nat (NUM_DIRECT * SECTOR_SIZE) - numBytes h)) (\<lambda>_.
       let old = numSectors h;
           nb = numBytes h + fileSize;
           h1 = h\<lparr>numBytes := nb, numSectors := DivRoundUp nb (of_nat SECTOR_SIZE)\<rparr>;
           newSectors = numSectors h1 - old
       in if newSectors \<noteq> 0
          then rbind (Bitmap_CountClear freeMap) (\<lambda>c.
                 if c < unat newSectors then Inr (False, h1, freeMap)
                 else rbind (Allocate_loop [unat old..<unat (numSectors h1)] h1 freeMap)
                        (\<lambda>(h2, freeMap'). Inr (True, h2, freeMap')))
          else Inr (True, h1, freeMap))"

fun Deallocate_loop :: "nat list \<Rightarrow> RawFileHeader \<Rightarrow> bitmap \<Rightarrow> bitmap res" where
  "Deallocate_loop [] h freeMap = Inr freeMap"
| "Deallocate_loop (i # is) h freeMap =
     rbind (dataSector_at h i) (\<lambda>s.
     rbind (Bitmap_Test freeMap (unat s)) (\<lambda>t.
     rbind (rassert t) (\<lambda>_.
     rbind (Bitmap_Clear freeMap (unat s)) (\<lambda>freeMap'. Deallocate_loop is h freeMap'))))"

definition FileHeader_Deallocate :: "RawFileHeader \<Rightarrow> bitmap \<Rightarrow> bitmap res" where
  "FileHeader_Deallocate h freeMap = Deallocate_loop [0..<unat (numSectors h)] h freeMap"

definition FileHeader_FetchFrom :: "sectors \<Rightarrow> nat \<Rightarrow> RawFileHeader res" where
  "FileHeader_FetchFrom c s = rbind (ReadSector c s) (\<lambda>bs. Inr (bytes_header bs))"

definition FileHeader_WriteBack :: "sectors \<Rightarrow> RawFileHeader \<Rightarrow> nat \<Rightarrow> sectors res" where
  "FileHeader_WriteBack c h s = WriteSector c s (header_bytes h)"

definition ByteToSector :: "RawFileHeader \<Rightarrow> u32 \<Rightarrow> u32 res" where
  "ByteToSector h off = dataSector_at h (unat (off div of_nat SECTOR_SIZE))"

definition FileHeader_FileLength :: "RawFileHeader \<Rightarrow> u32" where
  "FileHeader_FileLength h = numBytes h"

text \<open>
  \<open>Print\<close>: the size, the block indices, and for every block the bytes of the file in it; \<open>k\<close>
  counts the bytes shown so far. The formatting of a byte is left to the reader.
\<close>

fun FileHeader_Print_loop :: "sectors \<Rightarrow> RawFileHeader \<Rightarrow> nat list \<Rightarrow> nat \<Rightarrow> (u32 \<times> byte list) list res" where
  "FileHeader_Print_loop c h [] k = Inr []"
| "FileHeader_Print_loop c h (i # is) k =
     rbind (dataSector_at h i) (\<lambda>s.
     rbind (ReadSector c (unat s)) (\<lambda>bytes.
       let shown = take (min SECTOR_SIZE (unat (numBytes h) - k)) bytes
       in rbind (FileHeader_Print_loop c h is (k + length shown)) (\<lambda>rest. Inr ((s, shown) # rest))))"

definition FileHeader_Print :: "sectors \<Rightarrow> RawFileHeader \<Rightarrow> (u32 \<times> u32 list \<times> (u32 \<times> byte list) list) res" where
  "FileHeader_Print c h =
     rbind (rmap (dataSector_at h) [0..<unat (numSectors h)]) (\<lambda>blocks.
     rbind (FileHeader_Print_loop c h [0..<unat (numSectors h)] 0) (\<lambda>shown.
       Inr (numBytes h, blocks, shown)))"

section \<open>Well-formed headers\<close>

definition header_ok :: "RawFileHeader \<Rightarrow> bool" where
  "header_ok h \<longleftrightarrow> length (dataSectors h) = NUM_DIRECT \<and> unat (numBytes h) \<le> NUM_DIRECT * SECTOR_SIZE
     \<and> unat (numSectors h) = (unat (numBytes h) + 127) div 128"

definition header_sectors :: "RawFileHeader \<Rightarrow> nat list" where
  "header_sectors h = map unat (take (unat (numSectors h)) (dataSectors h))"

lemma length_header_bytes: "length (dataSectors h) = NUM_DIRECT \<Longrightarrow> length (header_bytes h) = SECTOR_SIZE"
  by (simp add: header_bytes_def NUM_DIRECT_def SECTOR_SIZE_def)

lemma bytes_header_bytes [codec_simps]:
  "length (dataSectors h) = NUM_DIRECT \<Longrightarrow> bytes_header (header_bytes h) = h"
  by (cases h) (simp add: bytes_header_def header_bytes_def slice_def codec_simps)

lemma length_bytes_header [simp]: "length (dataSectors (bytes_header bs)) = NUM_DIRECT"
  by (simp add: bytes_header_def)

lemma header_bytes_header:
  assumes "length bs = SECTOR_SIZE"
  shows "header_bytes (bytes_header bs) = bs"
proof -
  have l: "length bs = 128" using assms by (simp add: SECTOR_SIZE_def)
  have w: "words_bytes (bytes_words NUM_DIRECT (drop 8 bs)) = slice 8 116 bs"
  proof -
    have "bytes_words n b = bytes_words n (take (4 * n) b)" for n b
      by (induction n arbitrary: b) (simp_all add: take_drop [symmetric] drop_take min_def)
    from this [of 29 "drop 8 bs"]
    have "bytes_words NUM_DIRECT (drop 8 bs) = bytes_words NUM_DIRECT (slice 8 116 bs)"
      by (simp add: NUM_DIRECT_def slice_def)
    then show ?thesis using l words_bytes_words [of "slice 8 116 bs" NUM_DIRECT]
      by (simp add: NUM_DIRECT_def)
  qed
  have "header_bytes (bytes_header bs) = slice 0 4 bs @ slice 4 4 bs @ slice 8 116 bs @ slice 124 4 bs"
    using l w by (simp add: header_bytes_def bytes_header_def u32_bytes_u32 NUM_DIRECT_def)
  also have "\<dots> = bs"
    using l by (intro nth_equalityI) (auto simp: nth_append)
  finally show ?thesis .
qed

lemma header_disk_round_trip:
  assumes "length (dataSectors h) = NUM_DIRECT" "s < NUM_SECTORS"
  shows "\<exists>c'. FileHeader_WriteBack c h s = Inr c' \<and> FileHeader_FetchFrom c' s = Inr h
    \<and> (\<forall>r. r \<noteq> s \<longrightarrow> c' r = c r)"
  using assms length_header_bytes [OF assms(1)] bytes_header_bytes [OF assms(1)]
  by (simp add: FileHeader_WriteBack_def WriteSector_def FileHeader_FetchFrom_def ReadSector_def)

section \<open>Allocation and release\<close>

lemma overlay_step:
  "a < length ds \<Longrightarrow> overlay (ds[a := x]) (Suc a) ys = overlay ds a (x # ys)"
  by (simp add: overlay_def take_Suc_conv_app_nth)

text \<open>The allocation loop takes one free sector per new entry of the table.\<close>

lemma Allocate_loop_find_many:
  assumes "find_many Bitmap_Find k freeMap = Inr (rs, freeMap')" "a + k \<le> length (dataSectors h)"
  shows "Allocate_loop [a..<a + k] h freeMap =
    Inr (h\<lparr>dataSectors := overlay (dataSectors h) a (map of_int rs)\<rparr>, freeMap')"
  using assms
proof (induction k arbitrary: a h freeMap rs)
  case (Suc k)
  then obtain r fm rs' where f: "Bitmap_Find freeMap = Inr (r, fm)"
    "find_many Bitmap_Find k fm = Inr (rs', freeMap')" "rs = r # rs'"
    by (auto simp: res_simps)
  have "[a..<a + Suc k] = a # [Suc a..<Suc a + k]" by (simp add: upt_rec)
  moreover have "a < length (dataSectors h)" using Suc.prems(2) by simp
  ultimately show ?case
    using f Suc.IH [OF f(2), of "Suc a" "h\<lparr>dataSectors := (dataSectors h)[a := of_int r]\<rparr>"] Suc.prems(2)
    by (simp add: overlay_step)
qed simp

lemma Allocate_loop_numWords:
  "Allocate_loop is h freeMap = Inr (h', freeMap') \<Longrightarrow> numWords freeMap' = numWords freeMap"
proof (induction "is" arbitrary: h freeMap)
  case (Cons i "is")
  then obtain r fm where "Bitmap_Find freeMap = Inr (r, fm)"
    "Allocate_loop is (h\<lparr>dataSectors := (dataSectors h)[i := of_int r]\<rparr>) fm = Inr (h', freeMap')"
    by (auto simp: res_simps)
  with Cons.IH Bitmap_Find_numWords show ?case by metis
qed simp

lemma Allocate_numWords:
  "FileHeader_Allocate h freeMap n = Inr (b, h', freeMap') \<Longrightarrow> numWords freeMap' = numWords freeMap"
  by (auto simp: FileHeader_Allocate_def Let_def res_simps Allocate_loop_numWords split: if_splits)

lemma Deallocate_loop_release:
  assumes "\<forall>i \<in> set is. i < length (dataSectors h)"
  shows "Deallocate_loop is h =
    release_many Bitmap_Test Bitmap_Clear (map (\<lambda>i. unat (dataSectors h ! i)) is)"
  using assms
  by (induction "is") (rule ext, simp add: dataSector_at_def)+

lemma header_sectors_map:
  "unat (numSectors h) \<le> length (dataSectors h) \<Longrightarrow>
    header_sectors h = map (\<lambda>i. unat (dataSectors h ! i)) [0..<unat (numSectors h)]"
  by (simp add: header_sectors_def list_eq_iff_nth_eq)

lemma header_ok_numSectors: "header_ok h \<Longrightarrow> unat (numSectors h) \<le> NUM_DIRECT"
  by (auto simp: header_ok_def NUM_DIRECT_def SECTOR_SIZE_def)

lemma unat_of_int_nat: "i < 2 ^ 32 \<Longrightarrow> unat (of_int (int i) :: u32) = i"
  by (simp add: unsigned_of_nat take_bit_nat_eq_self)

text \<open>Facts on the arithmetic of \<open>Allocate\<close>, with the sizes of a header.\<close>

lemma header_grow:
  assumes "header_ok h" "unat fileSize \<le> NUM_DIRECT * SECTOR_SIZE - unat (numBytes h)"
  defines "nb \<equiv> numBytes h + fileSize"
  shows "fileSize \<le> of_nat (NUM_DIRECT * SECTOR_SIZE) - numBytes h"
    and "unat nb = unat (numBytes h) + unat fileSize"
    and "unat (DivRoundUp nb (of_nat SECTOR_SIZE)) = (unat nb + 127) div 128"
    and "unat (DivRoundUp nb (of_nat SECTOR_SIZE) - numSectors h) =
      (unat nb + 127) div 128 - unat (numSectors h)"
    and "unat (numSectors h) \<le> (unat nb + 127) div 128" "(unat nb + 127) div 128 \<le> NUM_DIRECT"
proof -
  have le: "unat (numBytes h) \<le> 3712" "unat fileSize \<le> 3712 - unat (numBytes h)"
    using assms by (simp_all add: header_ok_def NUM_DIRECT_def SECTOR_SIZE_def)
  show "fileSize \<le> of_nat (NUM_DIRECT * SECTOR_SIZE) - numBytes h"
    using le by (simp add: word_le_nat_alt unat_sub NUM_DIRECT_def SECTOR_SIZE_def)
  show nb: "unat nb = unat (numBytes h) + unat fileSize"
    using le by (simp add: nb_def unat_add_small)
  show d: "unat (DivRoundUp nb (of_nat SECTOR_SIZE)) = (unat nb + 127) div 128"
    using unat_DivRoundUp [of "of_nat SECTOR_SIZE" nb] by (simp add: SECTOR_SIZE_def)
  show m: "unat (numSectors h) \<le> (unat nb + 127) div 128"
    using assms(1) unfolding nb header_ok_def by (simp add: div_le_mono)
  then show "unat (DivRoundUp nb (of_nat SECTOR_SIZE) - numSectors h) =
      (unat nb + 127) div 128 - unat (numSectors h)"
    using d by (simp add: unat_sub word_le_nat_alt)
  show "(unat nb + 127) div 128 \<le> NUM_DIRECT"
    using le nb by (simp add: NUM_DIRECT_def)
qed

lemma Allocate_succeeds:
  assumes "header_ok h" "bitmap_ok freeMap" "numBits freeMap \<le> NUM_SECTORS"
    and "unat fileSize \<le> NUM_DIRECT * SECTOR_SIZE - unat (numBytes h)"
  defines "need \<equiv> (unat (numBytes h) + unat fileSize + 127) div 128 - unat (numSectors h)"
  assumes enough: "need \<le> card ({..<numBits freeMap} - marked freeMap)"
  shows "\<exists>h' freeMap' fresh. FileHeader_Allocate h freeMap fileSize = Inr (True, h', freeMap')
    \<and> header_ok h' \<and> unat (numBytes h') = unat (numBytes h) + unat fileSize
    \<and> nextFileHeader h' = nextFileHeader h
    \<and> header_sectors h' = header_sectors h @ fresh \<and> length fresh = need \<and> distinct fresh
    \<and> set fresh \<inter> marked freeMap = {} \<and> set fresh \<subseteq> {..<numBits freeMap}
    \<and> bitmap_ok freeMap' \<and> numBits freeMap' = numBits freeMap
    \<and> marked freeMap' = marked freeMap \<union> set fresh"
proof -
  note g = header_grow [OF assms(1,4)]
  let ?nb = "numBytes h + fileSize"
  let ?h1 = "h\<lparr>numBytes := ?nb, numSectors := DivRoundUp ?nb (of_nat SECTOR_SIZE)\<rparr>"
  have need: "need = (unat ?nb + 127) div 128 - unat (numSectors h)" by (simp add: need_def g(2))
  from bm.find_many_fresh [OF assms(2) enough] obtain fresh fm where
    f: "find_many Bitmap_Find need freeMap = Inr (map int fresh, fm)" "length fresh = need"
      "distinct fresh" "set fresh \<inter> marked freeMap = {}" "set fresh \<subseteq> {..<numBits freeMap}"
      "bitmap_ok fm" "numBits fm = numBits freeMap" "marked fm = marked freeMap \<union> set fresh" by auto
  let ?ds = "overlay (dataSectors h) (unat (numSectors h)) (map of_int (map int fresh))"
  have len: "length (dataSectors h) = NUM_DIRECT" using assms(1) by (simp add: header_ok_def)
  have idx: "unat (numSectors h) + need = unat (numSectors ?h1)" using g(3,5) need by simp
  have loop: "Allocate_loop [unat (numSectors h)..<unat (numSectors ?h1)] ?h1 freeMap
      = Inr (?h1\<lparr>dataSectors := ?ds\<rparr>, fm)"
    using Allocate_loop_find_many [OF f(1), of "unat (numSectors h)" ?h1] g(3,6) len
    unfolding idx by simp
  have nz: "DivRoundUp ?nb (of_nat SECTOR_SIZE) - numSectors h = 0 \<longleftrightarrow> need = 0"
    using g(4) need by (metis unat_0 unsigned_eq_0_iff)
  have cc: "Bitmap_CountClear freeMap = Inr (card ({..<numBits freeMap} - marked freeMap))"
    using bm.count_law assms(2) .
  have nochange: "need = 0 \<Longrightarrow> ?h1\<lparr>dataSectors := ?ds\<rparr> = ?h1 \<and> fm = freeMap"
    using f(1,2) by simp
  have res: "FileHeader_Allocate h freeMap fileSize = Inr (True, ?h1\<lparr>dataSectors := ?ds\<rparr>, fm)"
  proof (cases "need = 0")
    case True
    with nochange nz g(1) show ?thesis by (simp add: FileHeader_Allocate_def Let_def)
  next
    case False
    with nz g(1,4) need enough cc loop show ?thesis by (simp add: FileHeader_Allocate_def Let_def)
  qed
  have ok: "header_ok (?h1\<lparr>dataSectors := ?ds\<rparr>)"
  proof -
    have "unat ?nb \<le> NUM_DIRECT * SECTOR_SIZE"
      using assms(1,4) g(2) by (auto simp: header_ok_def NUM_DIRECT_def SECTOR_SIZE_def)
    then show ?thesis using g(3,5,6) f(2) len need by (simp add: header_ok_def)
  qed
  have small: "\<forall>i \<in> set fresh. i < 2 ^ 32"
    using f(5) assms(3) by (auto simp: NUM_SECTORS_def)
  have "map unat (map of_int (map int fresh) :: u32 list) = fresh"
    using small by (intro nth_equalityI) (auto simp: unat_of_int_nat simp del: of_int_of_nat_eq)
  then have "header_sectors (?h1\<lparr>dataSectors := ?ds\<rparr>) = header_sectors h @ fresh"
    using f(2) g(5,6) idx len by (simp add: header_sectors_def overlay_def take_map [symmetric] del: map_map)
  with res ok f g(2) show ?thesis by (intro exI) auto
qed

lemma Allocate_fails:
  assumes "header_ok h" "bitmap_ok freeMap"
    and "unat fileSize \<le> NUM_DIRECT * SECTOR_SIZE - unat (numBytes h)"
    and "card ({..<numBits freeMap} - marked freeMap)
      < (unat (numBytes h) + unat fileSize + 127) div 128 - unat (numSectors h)"
  shows "\<exists>h'. FileHeader_Allocate h freeMap fileSize = Inr (False, h', freeMap)"
proof -
  note g = header_grow [OF assms(1,3)]
  have "DivRoundUp (numBytes h + fileSize) (of_nat SECTOR_SIZE) - numSectors h \<noteq> 0"
    using g(2,4) assms(4) by (metis not_less_zero unat_0)
  moreover have "Bitmap_CountClear freeMap = Inr (card ({..<numBits freeMap} - marked freeMap))"
    using bm.count_law assms(2) .
  ultimately show ?thesis using g(1,2,4) assms(4)
    by (simp add: FileHeader_Allocate_def Let_def)
qed

lemma Deallocate_release:
  assumes "header_ok h"
  shows "FileHeader_Deallocate h freeMap = release_many Bitmap_Test Bitmap_Clear (header_sectors h) freeMap"
proof -
  have le: "unat (numSectors h) \<le> length (dataSectors h)"
    using header_ok_numSectors [OF assms] assms by (simp add: header_ok_def)
  then have "Deallocate_loop [0..<unat (numSectors h)] h = release_many Bitmap_Test Bitmap_Clear (header_sectors h)"
    using Deallocate_loop_release [of "[0..<unat (numSectors h)]" h] header_sectors_map [OF le] by simp
  then show ?thesis by (simp add: FileHeader_Deallocate_def)
qed

lemma Deallocate_frees:
  assumes "header_ok h" "bitmap_ok freeMap" "distinct (header_sectors h)" "set (header_sectors h) \<subseteq> marked freeMap"
  shows "\<exists>freeMap'. FileHeader_Deallocate h freeMap = Inr freeMap' \<and> bitmap_ok freeMap'
    \<and> numBits freeMap' = numBits freeMap \<and> marked freeMap' = marked freeMap - set (header_sectors h)"
  unfolding Deallocate_release [OF assms(1)]
  using bm.release_many_used [OF assms(2-4)] .

lemma ByteToSector_nth:
  assumes "header_ok h" "unat off < unat (numBytes h)"
  shows "\<exists>s. ByteToSector h off = Inr s \<and> unat s = header_sectors h ! (unat off div SECTOR_SIZE)
    \<and> unat off div SECTOR_SIZE < length (header_sectors h)"
proof -
  have i: "unat off div 128 < (unat (numBytes h) + 127) div 128" using assms(2) by simp
  moreover have "unat (off div of_nat SECTOR_SIZE) = unat off div 128"
    by (simp add: unat_div SECTOR_SIZE_def)
  ultimately show ?thesis using assms(1) header_ok_numSectors [OF assms(1)]
    by (auto simp: ByteToSector_def dataSector_at_def header_ok_def header_sectors_def SECTOR_SIZE_def)
qed

section \<open>Properties\<close>

text \<open>
  Growing a file inside its header: when the free map has enough clear bits, \<open>Allocate\<close>
  succeeds, adds the size to the length, keeps the sectors the file had and appends distinct
  sectors that were free and are now marked; when it has not, \<open>Allocate\<close> answers false and
  leaves the free map as it was.
\<close>

theorem header_allocate:
  assumes "header_ok h" "bitmap_ok freeMap" "numBits freeMap \<le> NUM_SECTORS"
    and "unat fileSize \<le> NUM_DIRECT * SECTOR_SIZE - unat (numBytes h)"
  defines "need \<equiv> (unat (numBytes h) + unat fileSize + 127) div 128 - unat (numSectors h)"
  shows "if need \<le> card ({..<numBits freeMap} - marked freeMap)
    then \<exists>h' freeMap' fresh. FileHeader_Allocate h freeMap fileSize = Inr (True, h', freeMap')
      \<and> header_ok h' \<and> unat (numBytes h') = unat (numBytes h) + unat fileSize
      \<and> header_sectors h' = header_sectors h @ fresh \<and> length fresh = need \<and> distinct fresh
      \<and> set fresh \<inter> marked freeMap = {} \<and> bitmap_ok freeMap'
      \<and> marked freeMap' = marked freeMap \<union> set fresh
    else \<exists>h'. FileHeader_Allocate h freeMap fileSize = Inr (False, h', freeMap)"
proof (cases "need \<le> card ({..<numBits freeMap} - marked freeMap)")
  case True
  with Allocate_succeeds [OF assms(1-4)] show ?thesis unfolding need_def by simp blast
next
  case False
  with Allocate_fails [OF assms(1,2,4)] show ?thesis unfolding need_def by simp
qed

theorem header_allocate_witness:
  "\<exists>h' freeMap'. FileHeader_Allocate \<lparr>numBytes = 0, numSectors = 0, dataSectors = replicate 29 0,
     nextFileHeader = 0\<rparr> \<lparr>numBits = 1024, numWords = 32, bits = replicate 32 0\<rparr> 300 = Inr (True, h', freeMap')
     \<and> unat (numBytes h') = 300 \<and> length (header_sectors h') = 3"
proof -
  let ?h = "\<lparr>numBytes = 0, numSectors = 0, dataSectors = replicate 29 0, nextFileHeader = 0\<rparr>"
  define b :: bitmap where "b = \<lparr>numBits = 1024, numWords = 32, bits = replicate 32 0\<rparr>"
  have h: "header_ok ?h" by (simp add: header_ok_def NUM_DIRECT_def SECTOR_SIZE_def)
  have ok: "bitmap_ok b" by (simp add: b_def bitmap_ok_def BITS_IN_WORD_def)
  have m: "marked b = {}" unfolding marked_def b_def BITS_IN_WORD_def by auto
  have n: "numBits b = 1024" by (simp add: b_def)
  from header_allocate [OF h ok, of 300] m n show ?thesis
    unfolding b_def [symmetric]
    by (auto simp: NUM_SECTORS_def NUM_DIRECT_def SECTOR_SIZE_def header_sectors_def)
qed

end
