(* ===== verification/Open_File.thy ===== *)
theory Open_File
  imports File_Header
begin

text \<open>
  \<open>filesys/open_file.cc\<close>: an open file, its reads and writes at a position, and the sequential
  \<open>Read\<close> and \<open>Write\<close> that follow and extend the chain of headers of a long file; with the
  \<open>FetchFrom\<close> and \<open>WriteBack\<close> of \<open>lib/bitmap.cc\<close>, which go through an open file. The
  abstraction of a file is its list of bytes.
\<close>

section \<open>State\<close>

text \<open>
  The entries of \<open>openFilesTable\<close> (\<open>threads/system.hh\<close>), one per sector that can hold a header.
  A lock is \<open>None\<close> when the pointer is null or the lock deleted; otherwise it holds its owner, a
  thread number, when it has one.
\<close>

type_synonym lock_ptr = "nat option option"

record oft_entry =
  openCount :: nat
  removing :: bool
  removed :: bool
  writeLock :: lock_ptr
  removeLock :: lock_ptr
  closeLock :: lock_ptr
  removerSpaceId :: int

record OpenFile =
  hdr :: RawFileHeader
  currentSector :: nat
  seekPosition :: u32
  sector :: nat
  hostFd :: nat
  currentOffset :: u32
  isBin :: bool

text \<open>
  The global state the file system works on: the disk as an array of sectors, the table of open
  files, the open file of the free map (\<open>fileSystem->GetFreeMap ()\<close>), the host files by
  descriptor, the current thread, the processes that run, and the messages sent to processes that
  wait to remove a file. \<open>junk\<close> is the content of fresh memory.
\<close>

record world =
  store :: sectors
  openFilesTable :: "nat \<Rightarrow> oft_entry"
  freeMapFile :: OpenFile
  hostFiles :: "nat \<Rightarrow> byte list"
  currentThread :: nat
  running :: "int \<Rightarrow> bool"
  removeSent :: "int list"
  junk :: "nat \<Rightarrow> byte"

definition oft_update :: "world \<Rightarrow> nat \<Rightarrow> (oft_entry \<Rightarrow> oft_entry) \<Rightarrow> world" where
  "oft_update w s f = w\<lparr>openFilesTable := (openFilesTable w)(s := f (openFilesTable w s))\<rparr>"

text \<open>
  \<open>Lock::Acquire\<close> and \<open>Release\<close> as one thread sees them: acquiring a lock it owns breaks the
  \<open>ASSERT\<close>, one another thread owns waits, and releasing needs to own it.
\<close>

definition lock_acquire :: "nat \<Rightarrow> lock_ptr \<Rightarrow> lock_ptr res" where
  "lock_acquire me l = (case l of None \<Rightarrow> Inl NullDeref
     | Some None \<Rightarrow> Inr (Some (Some me))
     | Some (Some t) \<Rightarrow> (if t = me then Inl AssertFailed else Inl WouldBlock))"

definition lock_release :: "nat \<Rightarrow> lock_ptr \<Rightarrow> lock_ptr res" where
  "lock_release me l = (case l of None \<Rightarrow> Inl NullDeref
     | Some ow \<Rightarrow> rbind (rassert (ow = Some me)) (\<lambda>_. Inr (Some None)))"

definition writeLock_Acquire :: "world \<Rightarrow> nat \<Rightarrow> world res" where
  "writeLock_Acquire w s = rbind (lock_acquire (currentThread w) (writeLock (openFilesTable w s)))
     (\<lambda>l. Inr (oft_update w s (\<lambda>e. e\<lparr>writeLock := l\<rparr>)))"

definition writeLock_Release :: "world \<Rightarrow> nat \<Rightarrow> world res" where
  "writeLock_Release w s = rbind (lock_release (currentThread w) (writeLock (openFilesTable w s)))
     (\<lambda>l. Inr (oft_update w s (\<lambda>e. e\<lparr>writeLock := l\<rparr>)))"

definition closeLock_Acquire :: "world \<Rightarrow> nat \<Rightarrow> world res" where
  "closeLock_Acquire w s = rbind (lock_acquire (currentThread w) (closeLock (openFilesTable w s)))
     (\<lambda>l. Inr (oft_update w s (\<lambda>e. e\<lparr>closeLock := l\<rparr>)))"

definition closeLock_Release :: "world \<Rightarrow> nat \<Rightarrow> world res" where
  "closeLock_Release w s = rbind (lock_release (currentThread w) (closeLock (openFilesTable w s)))
     (\<lambda>l. Inr (oft_update w s (\<lambda>e. e\<lparr>closeLock := l\<rparr>)))"

section \<open>Opening and closing\<close>

text \<open>\<open>sectorParam\<close> is a header sector, or a host descriptor when \<open>isBinParam\<close> holds.\<close>

definition OpenFile_new :: "world \<Rightarrow> nat \<Rightarrow> bool \<Rightarrow> (OpenFile \<times> world) res" where
  "OpenFile_new w sectorParam isBinParam =
     (if isBinParam
      then Inr (\<lparr>hdr = bytes_header (fresh_bytes (junk w) SECTOR_SIZE), currentSector = 0,
                 seekPosition = 0, sector = 0, hostFd = sectorParam, currentOffset = 0, isBin = True\<rparr>, w)
      else rbind (FileHeader_FetchFrom (store w) sectorParam) (\<lambda>h.
        let e = openFilesTable w sectorParam;
            e1 = (if openCount e = 0
                  then e\<lparr>writeLock := Some None,
                         removeLock := (if removeLock e = None then Some None else removeLock e),
                         closeLock := (if closeLock e = None then Some None else closeLock e)\<rparr>
                  else e);
            e2 = e1\<lparr>openCount := openCount e1 + 1\<rparr>
        in Inr (\<lparr>hdr = h, currentSector = sectorParam, seekPosition = 0, sector = sectorParam,
                 hostFd = 0, currentOffset = 0, isBin = False\<rparr>,
                w\<lparr>openFilesTable := (openFilesTable w)(sectorParam := e2)\<rparr>)))"

text \<open>
  The destructor, which \<open>Close\<close> calls. The last close deletes the write lock and, when a process
  waits to remove the file, sends it the message it waits for.
\<close>

definition OpenFile_Close :: "world \<Rightarrow> OpenFile \<Rightarrow> world res" where
  "OpenFile_Close w f =
     (if isBin f then Inr w
      else let s = sector f in
        rbind (closeLock_Acquire w s) (\<lambda>w1.
          if openCount (openFilesTable w1 s) > 0
          then rbind (closeLock_Release (oft_update w1 s (\<lambda>e. e\<lparr>openCount := openCount e - 1\<rparr>)) s) (\<lambda>w2.
                 let e = openFilesTable w2 s in
                 if openCount e = 0
                 then let w3 = (if removing e \<and> running w2 (removerSpaceId e)
                                then w2\<lparr>removeSent := removerSpaceId e # removeSent w2\<rparr> else w2)
                      in Inr (oft_update w3 s (\<lambda>e. e\<lparr>writeLock := None\<rparr>))
                 else Inr w2)
          else closeLock_Release w1 s))"

definition OpenFile_Seek :: "OpenFile \<Rightarrow> u32 \<Rightarrow> OpenFile" where
  "OpenFile_Seek f position = f\<lparr>seekPosition := position\<rparr>"

definition OpenFile_Length :: "world \<Rightarrow> OpenFile \<Rightarrow> u32" where
  "OpenFile_Length w f = (if isBin f then of_nat (length (hostFiles w (hostFd f)))
     else FileHeader_FileLength (hdr f))"

definition OpenFile_GetSector :: "OpenFile \<Rightarrow> nat" where
  "OpenFile_GetSector f = sector f"

section \<open>Reading and writing at a position\<close>

text \<open>
  The part of \<open>ReadAt\<close> that works on the disk, for a file with header \<open>h\<close>: the bytes it copies
  to \<open>into\<close>; their number is the result. The bounds are those of \<open>unsigned\<close> arithmetic.
\<close>

definition read_sectors :: "sectors \<Rightarrow> RawFileHeader \<Rightarrow> nat list \<Rightarrow> byte list res" where
  "read_sectors c h is = rbind (rmap (\<lambda>i. rbind (ByteToSector h (of_nat i * of_nat SECTOR_SIZE)) (\<lambda>s.
     ReadSector c (unat s))) is) (\<lambda>bss. Inr (concat bss))"

definition hdr_ReadAt :: "sectors \<Rightarrow> RawFileHeader \<Rightarrow> u32 \<Rightarrow> u32 \<Rightarrow> byte list res" where
  "hdr_ReadAt c h nb position =
     rbind (rassert (nb > 0)) (\<lambda>_.
       let fileLength = FileHeader_FileLength h in
       if position \<ge> fileLength then Inr []
       else let n = (if position + nb > fileLength then fileLength - position else nb);
                firstSector = DivRoundDown position (of_nat SECTOR_SIZE);
                lastSector = DivRoundDown (position + n - 1) (of_nat SECTOR_SIZE)
            in rbind (read_sectors c h [unat firstSector..<Suc (unat lastSector)]) (\<lambda>buf.
               let off = unat (position - firstSector * of_nat SECTOR_SIZE)
               in rbind (rcheck OutOfBounds (off + unat n \<le> length buf)) (\<lambda>_.
                  Inr (slice off (unat n) buf))))"

text \<open>The loop of \<open>WriteAt\<close> that writes the modified sectors back.\<close>

fun write_sectors :: "sectors \<Rightarrow> RawFileHeader \<Rightarrow> nat \<Rightarrow> byte list \<Rightarrow> nat list \<Rightarrow> sectors res" where
  "write_sectors c h firstSector buf [] = Inr c"
| "write_sectors c h firstSector buf (i # is) =
     rbind (ByteToSector h (of_nat i * of_nat SECTOR_SIZE)) (\<lambda>s.
     rbind (WriteSector c (unat s) (slice ((i - firstSector) * SECTOR_SIZE) SECTOR_SIZE buf)) (\<lambda>c'.
       write_sectors c' h firstSector buf is))"

text \<open>
  \<open>WriteAt\<close> on the disk. The first and the last sector are read first when they are written in
  part only; \<open>ReadAt\<close> stops at the end of the file, so the bytes past the end in the last sector
  are those of the fresh buffer.
\<close>

definition hdr_WriteAt :: "(nat \<Rightarrow> byte) \<Rightarrow> sectors \<Rightarrow> RawFileHeader \<Rightarrow> byte list \<Rightarrow> u32 \<Rightarrow> u32 \<Rightarrow> (u32 \<times> sectors) res" where
  "hdr_WriteAt jk c h from nb position =
     rbind (rassert (nb > 0)) (\<lambda>_.
       let fileLength = FileHeader_FileLength h in
       if position \<ge> fileLength then Inr (0, c)
       else let n = (if position + nb > fileLength then fileLength - position else nb);
                firstSector = DivRoundDown position (of_nat SECTOR_SIZE);
                lastSector = DivRoundDown (position + n - 1) (of_nat SECTOR_SIZE);
                ns = 1 + lastSector - firstSector;
                buf = fresh_bytes jk (unat (ns * of_nat SECTOR_SIZE));
                firstAligned = (position = firstSector * of_nat SECTOR_SIZE);
                lastAligned = (position + n = (lastSector + 1) * of_nat SECTOR_SIZE);
                lastOff = unat ((lastSector - firstSector) * of_nat SECTOR_SIZE)
            in rbind (if \<not> firstAligned
                      then rbind (hdr_ReadAt c h (of_nat SECTOR_SIZE) (firstSector * of_nat SECTOR_SIZE))
                             (\<lambda>bs. Inr (overlay buf 0 bs))
                      else Inr buf) (\<lambda>buf1.
               rbind (if \<not> lastAligned \<and> (firstSector \<noteq> lastSector \<or> firstAligned)
                      then rbind (hdr_ReadAt c h (of_nat SECTOR_SIZE) (lastSector * of_nat SECTOR_SIZE))
                             (\<lambda>bs. Inr (overlay buf1 lastOff bs))
                      else Inr buf1) (\<lambda>buf2.
               let off = unat (position - firstSector * of_nat SECTOR_SIZE)
               in rbind (rcheck OutOfBounds (unat n \<le> length from \<and> off + unat n \<le> length buf2)) (\<lambda>_.
                  let buf3 = overlay buf2 off (take (unat n) from)
                  in rbind (write_sectors c h (unat firstSector) buf3
                              [unat firstSector..<Suc (unat lastSector)]) (\<lambda>c'. Inr (n, c'))))))"

text \<open>Host files: \<open>read\<close> stops at the end, \<open>write\<close> extends the file, with zeros in a gap.\<close>

definition host_read :: "byte list \<Rightarrow> nat \<Rightarrow> nat \<Rightarrow> byte list" where
  "host_read bs pos n = slice pos n bs"

definition host_write :: "byte list \<Rightarrow> nat \<Rightarrow> byte list \<Rightarrow> byte list" where
  "host_write bs pos d = overlay (bs @ replicate (pos - length bs) 0) pos d"

definition OpenFile_ReadAt :: "world \<Rightarrow> OpenFile \<Rightarrow> u32 \<Rightarrow> u32 \<Rightarrow> byte list res" where
  "OpenFile_ReadAt w f nb position =
     rbind (rassert (nb > 0)) (\<lambda>_.
       if isBin f then Inr (host_read (hostFiles w (hostFd f)) (unat position) (unat nb))
       else hdr_ReadAt (store w) (hdr f) nb position)"

definition OpenFile_WriteAt :: "world \<Rightarrow> OpenFile \<Rightarrow> byte list \<Rightarrow> u32 \<Rightarrow> u32 \<Rightarrow> (u32 \<times> world) res" where
  "OpenFile_WriteAt w f from nb position =
     rbind (rassert (nb > 0)) (\<lambda>_.
       if isBin f
       then rbind (rcheck OutOfBounds (unat nb \<le> length from)) (\<lambda>_.
              Inr (nb, w\<lparr>hostFiles := (hostFiles w)(hostFd f :=
                host_write (hostFiles w (hostFd f)) (unat position) (take (unat nb) from))\<rparr>))
       else rbind (hdr_WriteAt (junk w) (store w) (hdr f) from nb position) (\<lambda>(r, c).
              Inr (r, w\<lparr>store := c\<rparr>)))"

section \<open>Bitmaps in files\<close>

definition Bitmap_FetchFrom :: "world \<Rightarrow> OpenFile \<Rightarrow> bitmap \<Rightarrow> bitmap res" where
  "Bitmap_FetchFrom w f bm =
     rbind (OpenFile_ReadAt w f (of_nat (numWords bm * 4)) 0) (\<lambda>bs.
       Inr (bm\<lparr>bits := bytes_words (numWords bm) (overlay (words_bytes (bits bm)) 0 bs)\<rparr>))"

definition Bitmap_WriteBack :: "world \<Rightarrow> OpenFile \<Rightarrow> bitmap \<Rightarrow> world res" where
  "Bitmap_WriteBack w f bm =
     rbind (OpenFile_WriteAt w f (words_bytes (bits bm)) (of_nat (numWords bm * 4)) 0) (\<lambda>(r, w').
       Inr w')"

text \<open>\<open>new Bitmap (NUM_SECTORS)\<close> followed by \<open>FetchFrom\<close>, as every user of the free map does.\<close>

definition fetch_freeMap :: "world \<Rightarrow> bitmap res" where
  "fetch_freeMap w = rbind (Bitmap_new (junk w) NUM_SECTORS) (\<lambda>bm.
     Bitmap_FetchFrom w (freeMapFile w) bm)"

section \<open>Sequential reading\<close>

text \<open>
  The loop of \<open>Read\<close> over the chain of headers; every round replaces the header of the open file
  by the next one. A chain that ends is followed for at most one round per header and per byte;
  the fuel is larger than that on a disk of 1024 sectors, so it runs out only on a cycle of
  headers without bytes.
\<close>

fun Read_chain :: "nat \<Rightarrow> world \<Rightarrow> OpenFile \<Rightarrow> u32 \<Rightarrow> u32 \<Rightarrow> byte list \<Rightarrow> (byte list \<times> OpenFile) res" where
  "Read_chain fuel w f nextSector nb out =
     (if nextSector \<noteq> 0 \<and> nb > 0
      then (case fuel of 0 \<Rightarrow> Inl Diverges
        | Suc fuel' \<Rightarrow>
            rbind (FileHeader_FetchFrom (store w) (unat nextSector)) (\<lambda>h.
            rbind (OpenFile_ReadAt w (f\<lparr>hdr := h\<rparr>) nb 0) (\<lambda>bs.
              Read_chain fuel' w (f\<lparr>hdr := h, seekPosition := of_nat (length bs)\<rparr>)
                (nextFileHeader h) (nb - of_nat (length bs)) (out @ bs))))
      else Inr (out, f))"

definition read_fuel :: "u32 \<Rightarrow> nat" where
  "read_fuel nb = (unat nb + 1) * (NUM_SECTORS + 1)"

text \<open>The bytes copied to \<open>into\<close> and the open file after the call; the result is their number.\<close>

definition OpenFile_Read :: "world \<Rightarrow> OpenFile \<Rightarrow> u32 \<Rightarrow> bool \<Rightarrow> (byte list \<times> OpenFile) res" where
  "OpenFile_Read w f nb isDirectory =
     rbind (rassert (nb > 0)) (\<lambda>_.
       if isBin f
       then rbind (OpenFile_ReadAt w f nb (currentOffset f)) (\<lambda>bs.
              Inr (bs, f\<lparr>currentOffset := currentOffset f + of_nat (length bs)\<rparr>))
       else rbind (if isDirectory
                   then rbind (FileHeader_FetchFrom (store w) (sector f)) (\<lambda>h.
                          Inr (f\<lparr>hdr := h, seekPosition := 0\<rparr>))
                   else Inr f) (\<lambda>f1.
            rbind (OpenFile_ReadAt w f1 nb (seekPosition f1)) (\<lambda>bs.
            let f2 = f1\<lparr>seekPosition := seekPosition f1 + of_nat (length bs)\<rparr>
            in if seekPosition f1 + nb > numBytes (hdr f1)
               then Read_chain (read_fuel nb) w f2 (nextFileHeader (hdr f2)) (nb - of_nat (length bs)) bs
               else Inr (bs, f2))))"

section \<open>Sequential writing\<close>

text \<open>What \<open>Write\<close> works on: the world, the open file, the free map it fetched, the bytes and
  their number still to write, and the number written.\<close>

record wr_state =
  ws_w :: world
  ws_f :: OpenFile
  ws_map :: bitmap
  ws_from :: "byte list"
  ws_n :: u32
  ws_result :: u32

text \<open>Write \<open>b\<close> bytes at \<open>position\<close> with the current header and move everything on.\<close>

definition Write_advance :: "wr_state \<Rightarrow> u32 \<Rightarrow> u32 \<Rightarrow> wr_state res" where
  "Write_advance st b position =
     rbind (OpenFile_WriteAt (ws_w st) (ws_f st) (ws_from st) b position) (\<lambda>(r, w').
       Inr (st\<lparr>ws_w := w', ws_f := (ws_f st)\<lparr>seekPosition := position + r\<rparr>,
               ws_from := drop (unat r) (ws_from st), ws_n := ws_n st - r,
               ws_result := ws_result st + r\<rparr>))"

text \<open>
  Grow the header in sector \<open>s\<close> by \<open>bytesToAllocate\<close> and put the free map and the header on disk;
  false when there is no space. A header that failed to grow stays changed in memory.
\<close>

definition Write_grow :: "wr_state \<Rightarrow> nat \<Rightarrow> u32 \<Rightarrow> (bool \<times> wr_state) res" where
  "Write_grow st s bytesToAllocate =
     rbind (FileHeader_Allocate (hdr (ws_f st)) (ws_map st) bytesToAllocate) (\<lambda>(success, h, bm).
       let st1 = st\<lparr>ws_f := (ws_f st)\<lparr>hdr := h\<rparr>, ws_map := bm\<rparr> in
       if \<not> success then Inr (False, st1)
       else rbind (Bitmap_WriteBack (ws_w st1) (freeMapFile (ws_w st1)) bm) (\<lambda>w1.
            rbind (FileHeader_WriteBack (store w1) h s) (\<lambda>c.
              Inr (True, st1\<lparr>ws_w := w1\<lparr>store := c\<rparr>\<rparr>))))"

text \<open>The bytes that still fit into the current header.\<close>

definition Write_current :: "wr_state \<Rightarrow> (bool \<times> wr_state) res" where
  "Write_current st =
     (let seek = seekPosition (ws_f st);
          maxBytesToWrite = of_nat (NUM_DIRECT * SECTOR_SIZE) - seek;
          bytesToWrite = (if ws_n st > maxBytesToWrite then maxBytesToWrite else ws_n st)
      in if bytesToWrite > 0
         then rbind (if seek + bytesToWrite > numBytes (hdr (ws_f st))
                     then Write_grow st (currentSector (ws_f st))
                            ((seek + bytesToWrite) - numBytes (hdr (ws_f st)))
                     else Inr (True, st)) (\<lambda>(success, st1).
              if \<not> success then Inr (False, st1)
              else rbind (Write_advance st1 bytesToWrite seek) (\<lambda>st2. Inr (True, st2)))
         else Inr (True, st))"

text \<open>
  The headers that follow in the chain. Every round writes at least one byte, so as many rounds
  as there are bytes are enough fuel.
\<close>

fun Write_existing :: "nat \<Rightarrow> u32 \<Rightarrow> wr_state \<Rightarrow> (bool \<times> wr_state) res" where
  "Write_existing fuel iterFh st =
     (if ws_n st > 0 \<and> iterFh \<noteq> 0
      then (case fuel of 0 \<Rightarrow> Inl Diverges
        | Suc fuel' \<Rightarrow>
            rbind (FileHeader_FetchFrom (store (ws_w st)) (unat iterFh)) (\<lambda>h.
            let st1 = st\<lparr>ws_f := (ws_f st)\<lparr>hdr := h\<rparr>\<rparr>;
                maxBytesToWrite = of_nat (NUM_DIRECT * SECTOR_SIZE);
                bytesToWrite = (if ws_n st > maxBytesToWrite then maxBytesToWrite else ws_n st)
            in rbind (if bytesToWrite > numBytes h
                      then Write_grow st1 (unat iterFh) (bytesToWrite - numBytes h)
                      else Inr (True, st1)) (\<lambda>(success, st2).
               if \<not> success then Inr (False, st2)
               else rbind (Write_advance (st2\<lparr>ws_f := (ws_f st2)\<lparr>currentSector := unat iterFh\<rparr>\<rparr>)
                             bytesToWrite 0) (\<lambda>st3.
                    Write_existing fuel' (nextFileHeader (hdr (ws_f st3))) st3))))
      else Inr (True, st))"

definition new_header :: "(nat \<Rightarrow> byte) \<Rightarrow> RawFileHeader" where
  "new_header jk = (bytes_header (fresh_bytes jk SECTOR_SIZE))\<lparr>nextFileHeader := 0, numBytes := 0, numSectors := 0\<rparr>"

text \<open>Take the sectors for \<open>k\<close> new headers, writing the free map back after each.\<close>

fun take_header_sectors :: "nat \<Rightarrow> world \<Rightarrow> bitmap \<Rightarrow> (nat list \<times> world \<times> bitmap) res" where
  "take_header_sectors 0 w bm = Inr ([], w, bm)"
| "take_header_sectors (Suc k) w bm =
     rbind (Bitmap_Find bm) (\<lambda>(r, bm1).
     rbind (Bitmap_WriteBack w (freeMapFile w) bm1) (\<lambda>w1.
     rbind (take_header_sectors k w1 bm1) (\<lambda>(ss, w2, bm2).
       Inr (unat (of_int r :: u32) # ss, w2, bm2))))"

text \<open>
  The headers after the first new one: \<open>prev\<close> is the sector of the header in memory, \<open>ss\<close> the
  sectors still unused. Returns the unused sectors when the space runs out.
\<close>

fun Write_new_loop :: "nat \<Rightarrow> nat list \<Rightarrow> wr_state \<Rightarrow> (nat \<times> nat list \<times> wr_state) res" where
  "Write_new_loop prev [] st = Inr (prev, [], st)"
| "Write_new_loop prev (s # ss) st =
     (let maxSize = of_nat (NUM_DIRECT * SECTOR_SIZE);
          want = (if ws_n st < maxSize then ws_n st else maxSize)
      in rbind (Bitmap_CountClear (ws_map st)) (\<lambda>c.
         let bytesToAllocate = (if c < unat (DivRoundUp want (of_nat SECTOR_SIZE))
               then of_nat c * of_nat SECTOR_SIZE else want)
         in rbind (if bytesToAllocate > 0
                   then FileHeader_Allocate (new_header (junk (ws_w st))) (ws_map st) bytesToAllocate
                   else Inr (False, new_header (junk (ws_w st)), ws_map st)) (\<lambda>(success, h, bm).
            if \<not> success then Inr (prev, s # ss, st\<lparr>ws_map := bm\<rparr>)
            else rbind (Bitmap_WriteBack (ws_w st) (freeMapFile (ws_w st)) bm) (\<lambda>w1.
                 rbind (FileHeader_WriteBack (store w1) h s) (\<lambda>c1.
                 rbind (FileHeader_WriteBack c1 ((hdr (ws_f st))\<lparr>nextFileHeader := of_nat s\<rparr>) prev) (\<lambda>c2.
                 rbind (Write_advance (st\<lparr>ws_w := w1\<lparr>store := c2\<rparr>, ws_f := (ws_f st)\<lparr>hdr := h\<rparr>,
                                         ws_map := bm\<rparr>) bytesToAllocate 0) (\<lambda>st1.
                   Write_new_loop s ss st1)))))))"

fun clear_sectors :: "nat list \<Rightarrow> bitmap \<Rightarrow> bitmap res" where
  "clear_sectors [] bm = Inr bm"
| "clear_sectors (s # ss) bm = rbind (Bitmap_Clear bm s) (\<lambda>bm'. clear_sectors ss bm')"

text \<open>New headers for the bytes that are left.\<close>

definition Write_new :: "wr_state \<Rightarrow> wr_state res" where
  "Write_new st =
     (if ws_n st > 0
      then let totalSectors = DivRoundUp (ws_n st) (of_nat SECTOR_SIZE);
               fileHeaderSectors = DivRoundUp totalSectors (of_nat NUM_DIRECT)
           in rbind (Bitmap_CountClear (ws_map st)) (\<lambda>c.
              if c < unat fileHeaderSectors then Inr st
              else rbind (take_header_sectors (unat fileHeaderSectors) (ws_w st) (ws_map st)) (\<lambda>(ss, w1, bm1).
                let maxSize = of_nat (NUM_DIRECT * SECTOR_SIZE);
                    bytesToAllocate = (if ws_n st < maxSize then ws_n st else maxSize)
                in rbind (FileHeader_Allocate (new_header (junk w1)) bm1 bytesToAllocate) (\<lambda>(success, h, bm2).
                   if \<not> success then Inr (st\<lparr>ws_w := w1, ws_map := bm2\<rparr>)
                   else rbind (Bitmap_WriteBack w1 (freeMapFile w1) bm2) (\<lambda>w2.
                        rbind (FileHeader_WriteBack (store w2) h (hd ss)) (\<lambda>c1.
                        rbind (FileHeader_WriteBack c1 ((hdr (ws_f st))\<lparr>nextFileHeader := of_nat (hd ss)\<rparr>)
                                 (currentSector (ws_f st))) (\<lambda>c2.
                        rbind (Write_advance (st\<lparr>ws_w := w2\<lparr>store := c2\<rparr>,
                                  ws_f := (ws_f st)\<lparr>hdr := h\<rparr>, ws_map := bm2\<rparr>) bytesToAllocate 0) (\<lambda>st1.
                        rbind (Write_new_loop (hd ss) (tl ss) st1) (\<lambda>(last, unused, st2).
                        rbind (clear_sectors unused (ws_map st2)) (\<lambda>bm3.
                          Inr (st2\<lparr>ws_f := (ws_f st2)\<lparr>currentSector := last\<rparr>, ws_map := bm3\<rparr>)))))))))) 
      else Inr st)"

definition OpenFile_Write :: "world \<Rightarrow> OpenFile \<Rightarrow> byte list \<Rightarrow> u32 \<Rightarrow> bool \<Rightarrow> (u32 \<times> OpenFile \<times> world) res" where
  "OpenFile_Write w f from nb isDirectory =
     rbind (rassert (nb > 0)) (\<lambda>_.
       if isBin f
       then rbind (OpenFile_WriteAt w f from nb (currentOffset f)) (\<lambda>(r, w').
              Inr (r, f\<lparr>currentOffset := currentOffset f + r\<rparr>, w'))
       else rbind (writeLock_Acquire w (sector f)) (\<lambda>w1.
            let f1 = (if isDirectory then f\<lparr>seekPosition := 0, currentSector := sector f\<rparr> else f)
            in rbind (FileHeader_FetchFrom (store w1) (currentSector f1)) (\<lambda>h.
               rbind (fetch_freeMap w1) (\<lambda>bm.
               rbind (Write_current \<lparr>ws_w = w1, ws_f = f1\<lparr>hdr := h\<rparr>, ws_map = bm, ws_from = from,
                                      ws_n = nb, ws_result = 0\<rparr>) (\<lambda>(go, st1).
               rbind (if go then Write_existing (unat (ws_n st1)) (nextFileHeader (hdr (ws_f st1))) st1
                      else Inr (False, st1)) (\<lambda>(go2, st2).
               rbind (if go2 then Write_new st2 else Inr st2) (\<lambda>st3.
               rbind (writeLock_Release (ws_w st3) (sector f)) (\<lambda>w2.
                 Inr (ws_result st3, ws_f st3, w2)))))))))"

declare Read_chain.simps [simp del]
declare Write_existing.simps [simp del]

end
