(* ===== verification/File_Content.thy ===== *)
theory File_Content
  imports Open_File
begin

text \<open>
  What the operations of \<open>Open_File\<close> do to the bytes of a file: reads return a part of them, writes
  replace a part, and neither touches a sector of another file.
\<close>

section \<open>The bytes of a file\<close>

text \<open>All bytes of the sectors of a header, and those that belong to the file.\<close>

definition sector_bytes :: "sectors \<Rightarrow> RawFileHeader \<Rightarrow> byte list" where
  "sector_bytes c h = concat (map c (header_sectors h))"

definition file_content :: "sectors \<Rightarrow> RawFileHeader \<Rightarrow> byte list" where
  "file_content c h = take (unat (numBytes h)) (sector_bytes c h)"

text \<open>A header whose data sectors are distinct sectors of the disk.\<close>

definition file_ok :: "sectors \<Rightarrow> RawFileHeader \<Rightarrow> bool" where
  "file_ok c h \<longleftrightarrow> header_ok h \<and> sectors_ok c \<and> distinct (header_sectors h)
     \<and> set (header_sectors h) \<subseteq> {..<NUM_SECTORS}"

lemma length_concat_blocks:
  "(\<And>s. s \<in> set ss \<Longrightarrow> length (c s) = k) \<Longrightarrow> length (concat (map c ss)) = k * length ss"
  by (induction ss) simp_all

lemma drop_concat_blocks:
  assumes "\<And>s. s \<in> set ss \<Longrightarrow> length (c s) = k"
  shows "drop (k * a) (concat (map c ss)) = concat (map c (drop a ss))"
  using assms
proof (induction ss arbitrary: a)
  case (Cons s ss)
  then show ?case by (cases a) simp_all
qed simp

lemma take_concat_blocks:
  assumes "\<And>s. s \<in> set ss \<Longrightarrow> length (c s) = k"
  shows "take (k * a) (concat (map c ss)) = concat (map c (take a ss))"
  using assms
proof (induction ss arbitrary: a)
  case (Cons s ss)
  then show ?case by (cases a) simp_all
qed simp

lemma slice_concat_blocks:
  assumes "\<And>s. s \<in> set ss \<Longrightarrow> length (c s) = k"
  shows "slice (k * a) (k * n) (concat (map c ss)) = concat (map c (slice a n ss))"
proof -
  have "drop (k * a) (concat (map c ss)) = concat (map c (drop a ss))"
    by (rule drop_concat_blocks) (rule assms)
  then show ?thesis unfolding slice_def
    by (simp only:) (rule take_concat_blocks, auto dest: in_set_dropD intro: assms)
qed

lemma slice_slice: "a + n \<le> m \<Longrightarrow> slice a n (slice b m xs) = slice (b + a) n xs"
  by (simp only: slice_def drop_take drop_drop take_take) (simp add: min_def add.commute)

lemma slice_take: "a + n \<le> m \<Longrightarrow> slice a n (take m xs) = slice a n xs"
  by (auto simp: slice_def drop_take min_def)

lemma slice_beyond: "slice a n (take m xs) = slice a (min n (m - a)) xs"
  by (auto simp: slice_def drop_take min_def)

lemma length_header_sectors: "header_ok h \<Longrightarrow> length (header_sectors h) = unat (numSectors h)"
  using header_ok_numSectors [of h] by (simp add: header_sectors_def header_ok_def)

lemma length_sector_bytes:
  "file_ok c h \<Longrightarrow> length (sector_bytes c h) = 128 * ((unat (numBytes h) + 127) div 128)"
  unfolding sector_bytes_def
  by (subst length_concat_blocks [where k = 128])
    (simp_all add: file_ok_def sectors_ok_def SECTOR_SIZE_def length_header_sectors header_ok_def)

lemma round_up_ge: "n \<le> 128 * ((n + 127) div (128::nat))"
proof -
  define q r where "q = (n + 127) div 128" and "r = (n + 127) mod 128"
  have "n + 127 = 128 * q + r" "r < 128" by (simp_all add: q_def r_def)
  then show ?thesis unfolding q_def [symmetric] by linarith
qed

lemma length_file_content [simp]: "file_ok c h \<Longrightarrow> length (file_content c h) = unat (numBytes h)"
  using length_sector_bytes [of c h] round_up_ge [of "unat (numBytes h)"]
  by (simp add: file_content_def)

lemma file_ok_length: "file_ok c h \<Longrightarrow> unat (numBytes h) \<le> 3712"
  by (simp add: file_ok_def header_ok_def NUM_DIRECT_def SECTOR_SIZE_def)

lemma ByteToSector_index:
  assumes "file_ok c h" "i < length (header_sectors h)"
  shows "\<exists>s. ByteToSector h (of_nat i * of_nat SECTOR_SIZE) = Inr s \<and> unat s = header_sectors h ! i"
proof -
  have h: "header_ok h" using assms(1) by (simp add: file_ok_def)
  have i: "i < unat (numSectors h)" "i < 29"
    using assms(2) length_header_sectors [OF h] header_ok_numSectors [OF h] by (auto simp: NUM_DIRECT_def)
  have "unat (of_nat i * of_nat SECTOR_SIZE :: u32) = 128 * i"
    using i(2) by (subst unat_mult_small) (simp_all add: SECTOR_SIZE_def unsigned_of_nat take_bit_nat_eq_self)
  then have "unat ((of_nat i * of_nat SECTOR_SIZE :: u32) div of_nat SECTOR_SIZE) = i"
    by (simp add: unat_div SECTOR_SIZE_def)
  with i h show ?thesis
    by (simp add: ByteToSector_def dataSector_at_def header_ok_def NUM_DIRECT_def header_sectors_def)
qed

lemma read_sectors_ok:
  assumes "file_ok c h" "b \<le> length (header_sectors h)"
  shows "read_sectors c h [a..<b] = Inr (concat (map c (slice a (b - a) (header_sectors h))))"
proof -
  have "rmap (\<lambda>i. rbind (ByteToSector h (of_nat i * of_nat SECTOR_SIZE)) (\<lambda>s. ReadSector c (unat s))) [a..<b]
      = Inr (map (\<lambda>i. c (header_sectors h ! i)) [a..<b])"
  proof (rule rmap_Inr_map)
    fix i assume "i \<in> set [a..<b]"
    with assms(2) have i: "i < length (header_sectors h)" by simp
    then have "header_sectors h ! i < NUM_SECTORS"
      using assms(1) nth_mem [OF i] unfolding file_ok_def by blast
    with ByteToSector_index [OF assms(1) i]
    show "rbind (ByteToSector h (of_nat i * of_nat SECTOR_SIZE)) (\<lambda>s. ReadSector c (unat s))
        = Inr (c (header_sectors h ! i))"
      by (auto simp: ReadSector_def)
  qed
  moreover have "map (\<lambda>i. c (header_sectors h ! i)) [a..<b] = map c (slice a (b - a) (header_sectors h))"
    using assms(2) by (intro nth_equalityI) auto
  ultimately show ?thesis by (simp add: read_sectors_def)
qed

section \<open>Reading\<close>

text \<open>The arithmetic of a request that starts inside the file, in natural numbers.\<close>

lemma request_arith:
  assumes "unat len \<le> 3712" "unat pos < unat len" "0 < unat nb" "unat pos + unat nb < 2 ^ 32"
  defines "n \<equiv> (if pos + nb > len then len - pos else nb) :: u32"
  defines "k \<equiv> min (unat nb) (unat len - unat pos)"
  shows "unat n = k" "0 < k"
    and "unat (DivRoundDown pos (of_nat SECTOR_SIZE)) = unat pos div 128"
    and "unat (DivRoundDown (pos + n - 1) (of_nat SECTOR_SIZE)) = (unat pos + k - 1) div 128"
    and "unat (pos - DivRoundDown pos (of_nat SECTOR_SIZE) * of_nat SECTOR_SIZE) = unat pos mod 128"
    and "unat (DivRoundDown pos (of_nat SECTOR_SIZE) * of_nat SECTOR_SIZE) = 128 * (unat pos div 128)"
    and "unat (pos + n) = unat pos + k"
proof -
  have s: "unat (pos + nb) = unat pos + unat nb" using assms(4) by (simp add: unat_add_small)
  show n: "unat n = k"
    using assms(2,3) s by (auto simp: n_def k_def word_less_nat_alt unat_sub word_le_nat_alt min_def)
  show k: "0 < k" using assms(2,3) by (simp add: k_def)
  show p: "unat (pos + n) = unat pos + k"
    using n assms(1,2) by (simp add: unat_add_small k_def)
  show f: "unat (DivRoundDown pos (of_nat SECTOR_SIZE)) = unat pos div 128"
    by (simp add: unat_DivRoundDown SECTOR_SIZE_def)
  have "unat (pos + n - 1) = unat pos + k - 1"
    using p k by (subst unat_sub) (auto simp: word_le_nat_alt)
  then show "unat (DivRoundDown (pos + n - 1) (of_nat SECTOR_SIZE)) = (unat pos + k - 1) div 128"
    by (simp add: unat_DivRoundDown SECTOR_SIZE_def)
  show m: "unat (DivRoundDown pos (of_nat SECTOR_SIZE) * of_nat SECTOR_SIZE) = 128 * (unat pos div 128)"
    using f assms(1,2) by (subst unat_mult_small) (auto simp: SECTOR_SIZE_def)
  show "unat (pos - DivRoundDown pos (of_nat SECTOR_SIZE) * of_nat SECTOR_SIZE) = unat pos mod 128"
    using m by (subst unat_sub) (auto simp: word_le_nat_alt minus_mult_div_eq_mod)
qed

lemma last_block_bound:
  assumes "p + k \<le> (n::nat)" "0 < k"
  shows "Suc ((p + k - 1) div 128) \<le> (n + 127) div 128"
proof -
  have "p + k - 1 + 128 \<le> n + 127" using assms by linarith
  then have "(p + k - 1 + 128) div 128 \<le> (n + 127) div 128" by (rule div_le_mono)
  then show ?thesis by simp
qed

lemma hdr_ReadAt_content:
  assumes "file_ok c h" "0 < unat nb" "unat pos + unat nb < 2 ^ 32"
  shows "hdr_ReadAt c h nb pos = Inr (slice (unat pos) (unat nb) (file_content c h))"
proof (cases "unat pos < unat (numBytes h)")
  case False
  then show ?thesis using assms(2)
    by (simp add: hdr_ReadAt_def FileHeader_FileLength_def word_le_nat_alt word_less_nat_alt
        slice_def file_content_def)
next
  case True
  note ar = request_arith [OF file_ok_length [OF assms(1)] True assms(2,3)]
  define k where "k = min (unat nb) (unat (numBytes h) - unat pos)"
  define a where "a = unat pos div 128"
  define b where "b = (unat pos + k - 1) div 128"
  have kn: "unat pos + k \<le> unat (numBytes h)" "0 < k" using True ar(2) by (auto simp: k_def)
  have h: "header_ok h" using assms(1) by (simp add: file_ok_def)
  have len: "length (header_sectors h) = (unat (numBytes h) + 127) div 128"
    using length_header_sectors [OF h] h by (simp add: header_ok_def)
  have bl: "Suc b \<le> length (header_sectors h)"
    unfolding len b_def using last_block_bound [OF kn] .
  have ab: "a \<le> b" using kn(2) by (simp add: a_def b_def div_le_mono)
  have rs: "read_sectors c h [a..<Suc b] = Inr (slice (128 * a) (128 * (Suc b - a)) (sector_bytes c h))"
    unfolding read_sectors_ok [OF assms(1) bl] sector_bytes_def
    by (subst slice_concat_blocks)
      (use assms(1) in \<open>simp_all add: file_ok_def sectors_ok_def SECTOR_SIZE_def\<close>)
  have pos: "unat pos = 128 * a + unat pos mod 128" by (simp add: a_def)
  have fit: "unat pos mod 128 + k \<le> 128 * (Suc b - a)"
  proof -
    have "unat pos + k - 1 < 128 * Suc b" unfolding b_def
      by (metis dividend_less_times_div lessI mult_Suc_right zero_less_numeral)
    with pos ab show ?thesis by (simp add: diff_mult_distrib2)
  qed
  have sl: "slice (unat pos mod 128) k (slice (128 * a) (128 * (Suc b - a)) (sector_bytes c h))
      = slice (unat pos) (unat nb) (file_content c h)"
    using fit pos by (simp add: slice_slice file_content_def slice_beyond k_def min.commute)
  have lb: "unat pos mod 128 + k \<le> length (slice (128 * a) (128 * (Suc b - a)) (sector_bytes c h))"
    using fit bl ab length_sector_bytes [OF assms(1)] len by (simp add: diff_mult_distrib2)
  have g: "\<not> pos \<ge> numBytes h" "nb > 0" using True assms(2) by (simp_all add: word_le_nat_alt word_less_nat_alt)
  show ?thesis
    using ar(1,3-5) [folded k_def, folded a_def b_def] g rs sl lb
    by (simp add: hdr_ReadAt_def FileHeader_FileLength_def Let_def del: upt_Suc)
qed

section \<open>Writing\<close>

text \<open>Writing blocks \<open>a\<close> to \<open>b\<close> of a file replaces those of its bytes and nothing else.\<close>

lemma write_sectors_ok:
  assumes "file_ok c h" "a \<le> m" "m \<le> length (header_sectors h)"
    and "length buf = 128 * (m - a)" "a \<le> i" "i \<le> m"
  shows "\<exists>c'. write_sectors c h a buf [i..<m] = Inr c' \<and> sectors_ok c'
    \<and> (\<forall>j. i \<le> j \<and> j < m \<longrightarrow> c' (header_sectors h ! j) = slice ((j - a) * 128) 128 buf)
    \<and> (\<forall>s. (\<forall>j. i \<le> j \<and> j < m \<longrightarrow> s \<noteq> header_sectors h ! j) \<longrightarrow> c' s = c s)"
  using assms
proof (induction "m - i" arbitrary: c i)
  case 0
  then show ?case by (auto simp: file_ok_def)
next
  case (Suc d)
  then have i: "i < m" "i < length (header_sectors h)" by auto
  from ByteToSector_index [OF Suc.prems(1) i(2)] obtain s where
    s: "ByteToSector h (of_nat i * of_nat SECTOR_SIZE) = Inr s" "unat s = header_sectors h ! i" by auto
  let ?c = "c(header_sectors h ! i := slice ((i - a) * 128) 128 buf)"
  have "header_sectors h ! i < NUM_SECTORS"
    using Suc.prems(1) nth_mem [OF i(2)] unfolding file_ok_def by blast
  then have w: "WriteSector c (unat s) (slice ((i - a) * SECTOR_SIZE) SECTOR_SIZE buf) = Inr ?c"
    using s(2) by (simp add: WriteSector_def SECTOR_SIZE_def slice_def)
  have "(i - a) * 128 + 128 \<le> length buf"
    using Suc.prems(4,5) i(1) by (simp add: diff_mult_distrib2)
  then have ok: "file_ok ?c h"
    using Suc.prems(1) by (auto simp: file_ok_def sectors_ok_def SECTOR_SIZE_def)
  have d: "d = m - Suc i" "a \<le> Suc i" "Suc i \<le> m" using Suc.hyps(2) Suc.prems(5) i by auto
  from Suc.hyps(1) [OF d(1) ok Suc.prems(2-4) d(2,3)] obtain c' where
    c': "write_sectors ?c h a buf [Suc i..<m] = Inr c'" "sectors_ok c'"
      "\<forall>j. Suc i \<le> j \<and> j < m \<longrightarrow> c' (header_sectors h ! j) = slice ((j - a) * 128) 128 buf"
      "\<forall>s. (\<forall>j. Suc i \<le> j \<and> j < m \<longrightarrow> s \<noteq> header_sectors h ! j) \<longrightarrow> c' s = ?c s" by blast
  have nd: "j < length (header_sectors h) \<Longrightarrow> j \<noteq> i \<Longrightarrow> header_sectors h ! i \<noteq> header_sectors h ! j" for j
    using Suc.prems(1) i(2) by (auto simp: file_ok_def nth_eq_iff_index_eq)
  then have "c' (header_sectors h ! i) = slice ((i - a) * 128) 128 buf"
    using c'(4) Suc.prems(3) by (metis Suc_leD Suc_n_not_le_n fun_upd_same order_less_le_trans)
  then have "\<forall>j. i \<le> j \<and> j < m \<longrightarrow> c' (header_sectors h ! j) = slice ((j - a) * 128) 128 buf"
    using c'(3) by (metis Suc_leI le_neq_implies_less)
  moreover have "\<forall>s. (\<forall>j. i \<le> j \<and> j < m \<longrightarrow> s \<noteq> header_sectors h ! j) \<longrightarrow> c' s = c s"
    using c'(4) i by auto
  ultimately show ?case using c'(1,2) s(1) w i(1) by (simp add: upt_conv_Cons)
qed

lemma nth_concat_blocks:
  assumes "\<And>s. s \<in> set ss \<Longrightarrow> length (c s) = k" "0 < k" "j < k * length ss"
  shows "concat (map c ss) ! j = c (ss ! (j div k)) ! (j mod k)"
  using assms(1,3)
proof (induction ss arbitrary: j)
  case (Cons s ss)
  show ?case
  proof (cases "j < k")
    case True
    with Cons show ?thesis by (simp add: nth_append)
  next
    case False
    then have "j div k = Suc ((j - k) div k)" "j mod k = (j - k) mod k"
      using assms(2) by (simp_all add: le_div_geq le_mod_geq)
    with False Cons show ?thesis by (simp add: nth_append)
  qed
qed simp

lemma sector_bytes_nth:
  assumes "file_ok c h" "j < 128 * length (header_sectors h)"
  shows "sector_bytes c h ! j = c (header_sectors h ! (j div 128)) ! (j mod 128)"
  unfolding sector_bytes_def
  using assms by (intro nth_concat_blocks) (auto simp: file_ok_def sectors_ok_def SECTOR_SIZE_def)

lemma sector_bytes_write:
  assumes "file_ok c h" "sectors_ok c'" "a \<le> m" "m \<le> length (header_sectors h)" "length buf = 128 * (m - a)"
    and "\<forall>j. a \<le> j \<and> j < m \<longrightarrow> c' (header_sectors h ! j) = slice ((j - a) * 128) 128 buf"
    and "\<forall>s. (\<forall>j. a \<le> j \<and> j < m \<longrightarrow> s \<noteq> header_sectors h ! j) \<longrightarrow> c' s = c s"
  shows "sector_bytes c' h = overlay (sector_bytes c h) (128 * a) buf"
proof -
  let ?ss = "header_sectors h"
  have ok: "file_ok c' h" using assms(1,2) by (simp add: file_ok_def)
  have len: "length (sector_bytes c h) = 128 * length ?ss" "length (sector_bytes c' h) = 128 * length ?ss"
    using length_sector_bytes [OF assms(1)] length_sector_bytes [OF ok] length_header_sectors [of h] assms(1)
    by (simp_all add: file_ok_def header_ok_def)
  have fit: "128 * a + length buf \<le> length (sector_bytes c h)"
    using assms(3-5) len by (simp add: diff_mult_distrib2)
  show ?thesis
  proof (rule nth_equalityI)
    show "length (sector_bytes c' h) = length (overlay (sector_bytes c h) (128 * a) buf)"
      using len fit by simp
    fix j assume "j < length (sector_bytes c' h)"
    then have j: "j < 128 * length ?ss" "j < length (sector_bytes c h)" using len by auto
    have q: "j div 128 < length ?ss" using j(1) by (simp add: less_mult_imp_div_less mult.commute)
    have rng: "128 * a \<le> j \<and> j < 128 * a + length buf \<longleftrightarrow> a \<le> j div 128 \<and> j div 128 < m"
      using assms(3,5) by (auto simp: diff_mult_distrib2 less_mult_imp_div_less mult.commute
          less_eq_div_iff_mult_less_eq div_less_iff_less_mult)
    show "sector_bytes c' h ! j = overlay (sector_bytes c h) (128 * a) buf ! j"
    proof (cases "a \<le> j div 128 \<and> j div 128 < m")
      case True
      have "sector_bytes c' h ! j = slice ((j div 128 - a) * 128) 128 buf ! (j mod 128)"
        using sector_bytes_nth [OF ok j(1)] assms(6) True by simp
      also have "\<dots> = buf ! ((j div 128 - a) * 128 + j mod 128)"
        using True assms(5) rng by (intro nth_slice) (auto simp: diff_mult_distrib2 algebra_simps)
      also have "(j div 128 - a) * 128 + j mod 128 = j - 128 * a"
        using True by (simp add: diff_mult_distrib algebra_simps)
      finally show ?thesis using nth_overlay [OF fit j(2)] rng True by simp
    next
      case False
      have "?ss ! (j div 128) \<noteq> ?ss ! i" if "a \<le> i" "i < m" for i
        using assms(1,4) that q False by (auto simp: file_ok_def nth_eq_iff_index_eq)
      then have "c' (?ss ! (j div 128)) = c (?ss ! (j div 128))" using assms(7) by simp
      then show ?thesis
        using sector_bytes_nth [OF ok j(1)] sector_bytes_nth [OF assms(1) j(1)]
          nth_overlay [OF fit j(2)] rng False by simp
    qed
  qed
qed

text \<open>
  The buffer of \<open>WriteAt\<close> before the new bytes are copied in: where the request leaves bytes of the
  file in its first and last sector unchanged, the buffer has them.
\<close>

definition write_buffer :: "byte list \<Rightarrow> byte list \<Rightarrow> nat \<Rightarrow> nat \<Rightarrow> byte list" where
  "write_buffer buf bytes pos k =
     (let a = pos div 128; b = (pos + k - 1) div 128;
          buf1 = (if pos mod 128 \<noteq> 0 then overlay buf 0 (slice (128 * a) 128 bytes) else buf)
      in if pos + k \<noteq> 128 * (b + 1) \<and> (a \<noteq> b \<or> pos mod 128 = 0)
         then overlay buf1 (128 * (b - a)) (slice (128 * b) 128 bytes) else buf1)"

lemma write_buffer_keeps:
  fixes pos k :: nat
  assumes "pos + k \<le> length C" "0 < k"
  defines "a \<equiv> pos div 128" and "b \<equiv> (pos + k - 1) div 128"
  assumes "length buf = 128 * (Suc b - a)"
  shows "length (write_buffer buf C pos k) = length buf"
    and "128 * a \<le> j \<Longrightarrow> j < length C \<Longrightarrow> j < 128 * Suc b \<Longrightarrow> \<not> (pos \<le> j \<and> j < pos + k) \<Longrightarrow>
      write_buffer buf C pos k ! (j - 128 * a) = C ! j"
proof -
  have ab: "a \<le> b" using assms(2) by (simp add: a_def b_def div_le_mono)
  have lb: "128 \<le> length buf" "128 * (b - a) + 128 = length buf"
    using ab assms(5) by (simp_all add: diff_mult_distrib2 Suc_diff_le)
  let ?R1 = "slice (128 * a) 128 C" and ?R2 = "slice (128 * b) 128 C"
  define buf1 where "buf1 = (if pos mod 128 \<noteq> 0 then overlay buf 0 ?R1 else buf)"
  have l1: "length buf1 = length buf" using lb by (simp add: buf1_def)
  have f2: "128 * (b - a) + length ?R2 \<le> length buf1" using l1 lb by simp
  have wb: "write_buffer buf C pos k = (if pos + k \<noteq> 128 * (b + 1) \<and> (a \<noteq> b \<or> pos mod 128 = 0)
      then overlay buf1 (128 * (b - a)) ?R2 else buf1)"
    by (simp add: write_buffer_def Let_def buf1_def a_def b_def)
  show "length (write_buffer buf C pos k) = length buf" using l1 f2 by (simp add: wb)
  assume j: "128 * a \<le> j" "j < length C" "j < 128 * Suc b" "\<not> (pos \<le> j \<and> j < pos + k)"
  have ji: "j - 128 * a < length buf" using j lb ab by (simp add: diff_mult_distrib2)
  have in1: "buf1 ! (j - 128 * a) = C ! j" if "pos mod 128 \<noteq> 0" "j < 128 * a + 128"
  proof -
    have "j - 128 * a < 128" "j - 128 * a < length C - 128 * a" "128 * a + (j - 128 * a) = j"
      using that(2) j(1,2) by linarith+
    with that(1) ji lb(1) j(2) nth_overlay [of 0 ?R1 buf "j - 128 * a"] show ?thesis
      by (simp add: buf1_def)
  qed
  have in2: "overlay buf1 (128 * (b - a)) ?R2 ! (j - 128 * a) = C ! j" if "128 * b \<le> j"
  proof -
    have "j - 128 * a - 128 * (b - a) = j - 128 * b" using ab that by (simp add: diff_mult_distrib2)
    moreover have "128 * (b - a) \<le> j - 128 * a" "j - 128 * a < 128 * (b - a) + length ?R2"
      "128 * b + (j - 128 * b) = j" "j - 128 * b < 128"
      using that ab j(2,3) by (simp_all add: diff_mult_distrib2)
    ultimately show ?thesis using ji l1 j(2) nth_overlay [OF f2, of "j - 128 * a"] by simp
  qed
  have notin2: "overlay buf1 (128 * (b - a)) ?R2 ! (j - 128 * a) = buf1 ! (j - 128 * a)" if "j < 128 * b"
  proof -
    have "\<not> 128 * (b - a) \<le> j - 128 * a" using that j(1) ab by (simp add: diff_mult_distrib2)
    with ji l1 nth_overlay [OF f2, of "j - 128 * a"] show ?thesis by simp
  qed
  have pa: "pos = 128 * a + pos mod 128" "pos mod 128 < 128" by (simp_all add: a_def)
  have pb: "128 * b \<le> pos + k - 1" "pos + k - 1 < 128 * (b + 1)"
    unfolding b_def by (simp_all add: dividend_less_times_div) 
  show "write_buffer buf C pos k ! (j - 128 * a) = C ! j"
  proof (cases "j < pos")
    case True
    then have nz: "pos mod 128 \<noteq> 0" "j < 128 * a + 128" using j(1) pa by linarith+
    show ?thesis
      using in1 [OF nz] in2 notin2 by (cases "128 * b \<le> j") (simp_all add: wb)
  next
    case False
    with j(4) have jk: "pos + k \<le> j" by simp
    have "128 * b \<le> j" using jk pb(1) assms(2) by linarith
    moreover have "pos + k < 128 * (b + 1)" using jk j(3) by simp
    ultimately have bj: "128 * b \<le> j" "pos + k \<noteq> 128 * (b + 1)" by simp_all
    show ?thesis
    proof (cases "a \<noteq> b \<or> pos mod 128 = 0")
      case True
      with bj in2 show ?thesis by (simp add: wb)
    next
      case False
      with j(3) in1 show ?thesis by (simp add: wb)
    qed
  qed
qed

lemma write_content_eq:
  fixes pos k :: nat
  assumes "pos + k \<le> len" "0 < k" "len \<le> length S" "k \<le> length from"
  defines "a \<equiv> pos div 128" and "b \<equiv> (pos + k - 1) div 128"
  assumes "length buf = 128 * (Suc b - a)" "128 * Suc b \<le> length S"
  shows "take len (overlay S (128 * a) (overlay (write_buffer buf (take len S) pos k) (pos mod 128) (take k from)))
    = overlay (take len S) pos (take k from)"
proof -
  let ?C = "take len S"
  let ?B = "write_buffer buf ?C pos k"
  let ?B3 = "overlay ?B (pos mod 128) (take k from)"
  have C: "length ?C = len" using assms(3) by simp
  have pk: "pos + k \<le> length ?C" using assms(1) C by simp
  have ab: "a \<le> b" using assms(2) by (simp add: a_def b_def div_le_mono)
  have pa: "pos = 128 * a + pos mod 128" by (simp add: a_def)
  have pb: "pos + k - 1 < 128 * Suc b" unfolding b_def by (simp add: dividend_less_times_div)
  have lB: "length ?B = 128 * (Suc b - a)"
    using write_buffer_keeps(1) [OF pk assms(2)] assms(7) unfolding a_def b_def by simp
  have f3: "pos mod 128 + length (take k from) \<le> length ?B"
    using lB pa pb ab assms(2,4) by (simp add: diff_mult_distrib2)
  have l3: "length ?B3 = 128 * (Suc b - a)" using f3 lB by simp
  have fS: "128 * a + length ?B3 \<le> length S" using l3 assms(8) ab by (simp add: diff_mult_distrib2)
  have fC: "pos + length (take k from) \<le> length ?C" using pk assms(4) by simp
  show ?thesis
  proof (rule nth_equalityI)
    show "length (take len (overlay S (128 * a) ?B3)) = length (overlay ?C pos (take k from))"
      using fS fC C assms(3) by simp
    fix j assume "j < length (take len (overlay S (128 * a) ?B3))"
    then have j: "j < len" "j < length S" using fS assms(3) by auto
    have o: "overlay ?C pos (take k from) ! j = (if pos \<le> j \<and> j < pos + k then from ! (j - pos) else S ! j)"
      using nth_overlay [OF fC, of j] j C assms(4) by auto
    have lhs: "take len (overlay S (128 * a) ?B3) ! j =
        (if 128 * a \<le> j \<and> j < 128 * Suc b then ?B3 ! (j - 128 * a) else S ! j)"
      using nth_overlay [OF fS j(2)] j l3 ab by (auto simp: diff_mult_distrib2)
    show "take len (overlay S (128 * a) ?B3) ! j = overlay ?C pos (take k from) ! j"
    proof (cases "128 * a \<le> j \<and> j < 128 * Suc b")
      case True
      have jB: "j - 128 * a < length ?B" using True lB ab by (auto simp: diff_mult_distrib2)
      have r: "pos mod 128 \<le> j - 128 * a \<longleftrightarrow> pos \<le> j" "j - 128 * a < pos mod 128 + k \<longleftrightarrow> j < pos + k"
        "j - 128 * a - pos mod 128 = j - pos" using True pa by linarith+
      have "?B3 ! (j - 128 * a) = (if pos \<le> j \<and> j < pos + k then from ! (j - pos) else ?B ! (j - 128 * a))"
        using nth_overlay [OF f3 jB] r assms(4) by auto
      moreover have "\<not> (pos \<le> j \<and> j < pos + k) \<Longrightarrow> ?B ! (j - 128 * a) = S ! j"
        using write_buffer_keeps(2) [OF pk assms(2), of buf j] assms(7) True j C
        unfolding a_def b_def by simp
      ultimately show ?thesis using lhs o True by auto
    next
      case False
      with pa pb assms(2) have "\<not> (pos \<le> j \<and> j < pos + k)" by linarith
      with lhs o False show ?thesis by auto
    qed
  qed
qed

text \<open>The whole of \<open>WriteAt\<close>: its buffer is \<open>write_buffer\<close>, and the sectors follow.\<close>

lemma hdr_WriteAt_unfold:
  assumes "file_ok c h" "unat pos < unat (numBytes h)" "0 < unat nb" "unat pos + unat nb < 2 ^ 32"
  defines "k \<equiv> min (unat nb) (unat (numBytes h) - unat pos)"
  defines "a \<equiv> unat pos div 128" and "b \<equiv> (unat pos + k - 1) div 128"
  assumes "k \<le> length from"
  shows "hdr_WriteAt jk c h from nb pos =
    rbind (write_sectors c h a (overlay (write_buffer (fresh_bytes jk (128 * (Suc b - a)))
        (file_content c h) (unat pos) k) (unat pos mod 128) (take k from)) [a..<Suc b])
      (\<lambda>c'. Inr (of_nat k, c'))"
proof -
  let ?sz = "of_nat SECTOR_SIZE :: u32"
  define n :: u32 where "n = (if pos + nb > numBytes h then numBytes h - pos else nb)"
  define fs where "fs = DivRoundDown pos ?sz"
  define ls where "ls = DivRoundDown (pos + n - 1) ?sz"
  note ar = request_arith [OF file_ok_length [OF assms(1)] assms(2-4), folded n_def k_def, folded fs_def ls_def, folded a_def b_def]
  have kn: "unat pos + k \<le> unat (numBytes h)" using assms(2) by (simp add: k_def)
  have ab: "a \<le> b" using ar(2) by (simp add: a_def b_def div_le_mono)
  have b29: "b < 29" using kn ar(2) file_ok_length [OF assms(1)] by (simp add: b_def div_less_iff_less_mult)
  have sz: "unat ?sz = 128" by (simp add: SECTOR_SIZE_def)
  have fsz: "unat (fs * ?sz) = 128 * a" using ar(6) .
  have lsz: "unat (ls * ?sz) = 128 * b" using ar(4) b29 sz by (subst unat_mult_small) simp_all
  have off: "unat ((ls - fs) * ?sz) = 128 * (b - a)"
  proof -
    have "unat (ls - fs) = b - a" using ar(3,4) ab by (subst unat_sub) (auto simp: word_le_nat_alt)
    then show ?thesis using sz b29 by (subst unat_mult_small) simp_all
  qed
  have nsz: "unat ((1 + ls - fs) * ?sz) = 128 * (Suc b - a)"
  proof -
    have "unat (1 + ls) = Suc b" using ar(4) b29 by (simp add: unat_add_small)
    then have "unat (1 + ls - fs) = Suc b - a" using ar(3) ab by (subst unat_sub) (auto simp: word_le_nat_alt)
    then show ?thesis using sz b29 by (subst unat_mult_small) simp_all
  qed
  have fa: "pos = fs * ?sz \<longleftrightarrow> unat pos mod 128 = 0"
  proof -
    have "pos = fs * ?sz \<longleftrightarrow> unat pos = 128 * a" using fsz by (metis unsigned_word_eqI)
    then show ?thesis unfolding a_def by (metis add_cancel_right_right mult_div_mod_eq)
  qed
  have la: "pos + n = (ls + 1) * ?sz \<longleftrightarrow> unat pos + k = 128 * (b + 1)"
  proof -
    have "unat (ls + 1) = b + 1" using ar(4) b29 by (simp add: unat_add_small)
    then have "unat ((ls + 1) * ?sz) = 128 * (b + 1)" using sz b29 by (subst unat_mult_small) simp_all
    then show ?thesis using ar(7) by (metis unsigned_word_eqI)
  qed
  have eqs: "fs = ls \<longleftrightarrow> a = b" using ar(3,4) by (metis unsigned_word_eqI)
  have r1: "hdr_ReadAt c h ?sz (fs * ?sz) = Inr (slice (128 * a) 128 (file_content c h))"
    using hdr_ReadAt_content [OF assms(1), of ?sz "fs * ?sz"] fsz sz b29 ab by simp
  have r2: "hdr_ReadAt c h ?sz (ls * ?sz) = Inr (slice (128 * b) 128 (file_content c h))"
    using hdr_ReadAt_content [OF assms(1), of ?sz "ls * ?sz"] lsz sz b29 by simp
  define FA where "FA = (pos = fs * ?sz)"
  define LA where "LA = (pos + n = (ls + 1) * ?sz)"
  let ?W = "write_buffer (fresh_bytes jk (128 * (Suc b - a))) (file_content c h) (unat pos) k"
  let ?F = "fresh_bytes jk (128 * (Suc b - a))"
  let ?R1 = "slice (128 * a) 128 (file_content c h)" and ?R2 = "slice (128 * b) 128 (file_content c h)"
  have W: "?W = (let buf1 = if \<not> FA then overlay ?F 0 ?R1 else ?F
      in if \<not> LA \<and> (fs \<noteq> ls \<or> FA) then overlay buf1 (128 * (b - a)) ?R2 else buf1)"
    unfolding write_buffer_def Let_def FA_def LA_def fa la eqs a_def b_def by simp
  have lW: "length ?W = 128 * (Suc b - a)"
    using write_buffer_keeps(1) [of "unat pos" k "file_content c h" "fresh_bytes jk (128 * (Suc b - a))"]
      kn ar(2) assms(1) unfolding a_def b_def by simp
  have fit: "unat pos mod 128 + k \<le> length ?W"
  proof -
    have "unat pos + k - 1 < 128 * Suc b" unfolding b_def by (simp add: dividend_less_times_div)
    moreover have "unat pos = 128 * a + unat pos mod 128" by (simp add: a_def)
    ultimately show ?thesis using lW ab ar(2) by (simp add: diff_mult_distrib2)
  qed
  have g: "\<not> pos \<ge> numBytes h" "nb > 0" using assms(2,3) by (simp_all add: word_le_nat_alt word_less_nat_alt)
  have "n = of_nat k" unfolding ar(1) [symmetric] by simp
  have g0: "(pos \<ge> numBytes h) = False" "rassert (nb > 0) = Inr ()" using g by simp_all
  have "hdr_WriteAt jk c h from nb pos =
      rbind (if \<not> FA then rbind (Inr ?R1) (\<lambda>bs. Inr (overlay ?F 0 bs)) else Inr ?F) (\<lambda>buf1.
      rbind (if \<not> LA \<and> (fs \<noteq> ls \<or> FA) then rbind (Inr ?R2) (\<lambda>bs. Inr (overlay buf1 (128 * (b - a)) bs))
             else Inr buf1) (\<lambda>buf2.
      rbind (rcheck OutOfBounds (k \<le> length from \<and> unat pos mod 128 + k \<le> length buf2)) (\<lambda>_.
      rbind (write_sectors c h a (overlay buf2 (unat pos mod 128) (take k from)) [a..<Suc b])
        (\<lambda>c'. Inr (n, c')))))"
    by (simp only: hdr_WriteAt_def FileHeader_FileLength_def Let_def n_def [symmetric] fs_def [symmetric]
        ls_def [symmetric] FA_def LA_def r1 r2 off nsz ar(1,3-5) g0 rbind.simps if_False)
  also have "\<dots> = rbind (rcheck OutOfBounds (k \<le> length from \<and> unat pos mod 128 + k \<le> length ?W)) (\<lambda>_.
          rbind (write_sectors c h a (overlay ?W (unat pos mod 128) (take k from)) [a..<Suc b]) (\<lambda>c'. Inr (n, c')))"
    unfolding W Let_def by (cases FA; cases LA; cases "fs = ls") (simp_all del: upt_Suc)
  finally show ?thesis using fit assms(8) \<open>n = of_nat k\<close> by simp
qed

lemma hdr_WriteAt_content:
  assumes "file_ok c h" "unat pos < unat (numBytes h)" "0 < unat nb" "unat pos + unat nb < 2 ^ 32"
  defines "k \<equiv> min (unat nb) (unat (numBytes h) - unat pos)"
  assumes "k \<le> length from"
  shows "\<exists>c'. hdr_WriteAt jk c h from nb pos = Inr (of_nat k, c') \<and> file_ok c' h
    \<and> file_content c' h = overlay (file_content c h) (unat pos) (take k from)
    \<and> (\<forall>s. s \<notin> set (header_sectors h) \<longrightarrow> c' s = c s)"
proof -
  define a where "a = unat pos div 128"
  define b where "b = (unat pos + k - 1) div 128"
  have kn: "unat pos + k \<le> unat (numBytes h)" "0 < k" using assms(2,3) by (auto simp: k_def)
  have h: "header_ok h" using assms(1) by (simp add: file_ok_def)
  have len: "length (header_sectors h) = (unat (numBytes h) + 127) div 128"
    using length_header_sectors [OF h] h by (simp add: header_ok_def)
  have bl: "Suc b \<le> length (header_sectors h)" unfolding len b_def using last_block_bound [OF kn] .
  have ab: "a \<le> Suc b" using kn(2) by (simp add: a_def b_def div_le_mono le_SucI)
  let ?F = "fresh_bytes jk (128 * (Suc b - a))"
  let ?B = "overlay (write_buffer ?F (file_content c h) (unat pos) k) (unat pos mod 128) (take k from)"
  have un: "hdr_WriteAt jk c h from nb pos = rbind (write_sectors c h a ?B [a..<Suc b]) (\<lambda>c'. Inr (of_nat k, c'))"
    using hdr_WriteAt_unfold [OF assms(1-4)] assms(6) unfolding k_def a_def b_def by blast
  have lS: "length (sector_bytes c h) = 128 * length (header_sectors h)"
    using length_sector_bytes [OF assms(1)] len by simp
  have nS: "unat (numBytes h) \<le> length (sector_bytes c h)"
    using lS len round_up_ge by simp
  have lW: "length (write_buffer ?F (file_content c h) (unat pos) k) = 128 * (Suc b - a)"
    using write_buffer_keeps(1) [of "unat pos" k "file_content c h" ?F] kn assms(1)
    unfolding a_def b_def by simp
  have lB: "length ?B = 128 * (Suc b - a)"
  proof -
    have "unat pos + k - 1 < 128 * Suc b" unfolding b_def by (simp add: dividend_less_times_div)
    moreover have "unat pos = 128 * a + unat pos mod 128" by (simp add: a_def)
    ultimately show ?thesis using lW ab kn(2) assms(6) by (subst length_overlay) (auto simp: diff_mult_distrib2)
  qed
  from write_sectors_ok [OF assms(1) ab bl lB, of a] ab obtain c' where
    c': "write_sectors c h a ?B [a..<Suc b] = Inr c'" "sectors_ok c'"
      "\<forall>j. a \<le> j \<and> j < Suc b \<longrightarrow> c' (header_sectors h ! j) = slice ((j - a) * 128) 128 ?B"
      "\<forall>s. (\<forall>j. a \<le> j \<and> j < Suc b \<longrightarrow> s \<noteq> header_sectors h ! j) \<longrightarrow> c' s = c s" by auto
  have "sector_bytes c' h = overlay (sector_bytes c h) (128 * a) ?B"
    by (rule sector_bytes_write [OF assms(1) c'(2) ab bl lB c'(3,4)])
  then have "file_content c' h = overlay (file_content c h) (unat pos) (take k from)"
    using write_content_eq [OF kn(1,2) nS assms(6), of ?F] bl lS
    unfolding file_content_def a_def b_def by simp
  moreover have "\<forall>s. s \<notin> set (header_sectors h) \<longrightarrow> c' s = c s"
    using c'(4) bl by (metis less_le_trans nth_mem)
  moreover have "file_ok c' h" using assms(1) c'(2) by (simp add: file_ok_def)
  ultimately show ?thesis using un c'(1) by auto
qed

section \<open>The contract of a file of bytes\<close>

text \<open>
  What the users of an open file rely on: reads give a part of its bytes, writes inside it replace
  a part. The free map and the directories are kept in such files.
\<close>

locale byte_file =
  fixes ok :: "'s \<Rightarrow> bool"
    and bytes :: "'s \<Rightarrow> byte list"
    and rd :: "'s \<Rightarrow> u32 \<Rightarrow> u32 \<Rightarrow> byte list res"
    and wr :: "'s \<Rightarrow> byte list \<Rightarrow> u32 \<Rightarrow> u32 \<Rightarrow> (u32 \<times> 's) res"
  assumes rd_law: "ok s \<Longrightarrow> 0 < unat nb \<Longrightarrow> unat pos + unat nb < 2 ^ 32 \<Longrightarrow>
      rd s nb pos = Inr (slice (unat pos) (unat nb) (bytes s))"
    and wr_law: "ok s \<Longrightarrow> 0 < unat nb \<Longrightarrow> unat pos + unat nb \<le> length (bytes s) \<Longrightarrow> unat nb \<le> length d \<Longrightarrow>
      \<exists>s'. wr s d nb pos = Inr (nb, s') \<and> ok s' \<and> bytes s' = overlay (bytes s) (unat pos) (take (unat nb) d)"
    and small: "ok s \<Longrightarrow> length (bytes s) < 2 ^ 31"
begin

lemma read_back:
  assumes "ok s" "0 < unat nb" "unat pos + unat nb \<le> length (bytes s)" "unat nb \<le> length d"
    and "wr s d nb pos = Inr (r, s')"
  shows "r = nb \<and> rd s' nb pos = Inr (take (unat nb) d)"
proof -
  from wr_law [OF assms(1-4)] assms(5) have
    s': "r = nb" "ok s'" "bytes s' = overlay (bytes s) (unat pos) (take (unat nb) d)" by auto
  have l: "length (take (unat nb) d) = unat nb" using assms(4) by simp
  have "slice (unat pos) (unat nb) (bytes s') = take (unat nb) d"
    unfolding s'(3) using slice_overlay_same [of "unat pos" "take (unat nb) d" "bytes s"] assms(3) l by simp
  moreover have "unat pos + unat nb < 2 ^ 32" using assms(3) small [OF assms(1)] by simp
  ultimately show ?thesis using rd_law [OF s'(2) assms(2), of pos] s'(1) by simp
qed

text \<open>An object stored from offset 0 on: written whole, it is read whole.\<close>

lemma store_fetch:
  assumes "ok s" "0 < unat nb" "unat nb \<le> length (bytes s)" "unat nb = length d"
  shows "\<exists>s'. wr s d nb 0 = Inr (nb, s') \<and> ok s' \<and> rd s' nb 0 = Inr d
    \<and> bytes s' = d @ drop (unat nb) (bytes s)"
  using wr_law [OF assms(1,2), of 0 d] read_back [OF assms(1,2), of 0 d nb] assms
  by (auto simp: overlay_def)

end

definition disk_file_ok :: "OpenFile \<Rightarrow> world \<Rightarrow> bool" where
  "disk_file_ok f w \<longleftrightarrow> \<not> isBin f \<and> file_ok (store w) (hdr f)"

interpretation df: byte_file "disk_file_ok f" "\<lambda>w. file_content (store w) (hdr f)"
  "\<lambda>w. OpenFile_ReadAt w f" "\<lambda>w. OpenFile_WriteAt w f" for f
proof unfold_locales
  show "OpenFile_ReadAt w f nb pos = Inr (slice (unat pos) (unat nb) (file_content (store w) (hdr f)))"
    if "disk_file_ok f w" "0 < unat nb" "unat pos + unat nb < 2 ^ 32" for w nb pos
    using that hdr_ReadAt_content [of "store w" "hdr f" nb pos]
    by (simp add: OpenFile_ReadAt_def disk_file_ok_def word_less_nat_alt)
  show "length (file_content (store w) (hdr f)) < 2 ^ 31" if "disk_file_ok f w" for w
    using that file_ok_length [of "store w" "hdr f"] by (simp add: disk_file_ok_def)
  show "\<exists>w'. OpenFile_WriteAt w f d nb pos = Inr (nb, w') \<and> disk_file_ok f w'
      \<and> file_content (store w') (hdr f) = overlay (file_content (store w) (hdr f)) (unat pos) (take (unat nb) d)"
    if "disk_file_ok f w" "0 < unat nb" "unat pos + unat nb \<le> length (file_content (store w) (hdr f))"
      "unat nb \<le> length d" for w nb pos d
  proof -
    have ok: "file_ok (store w) (hdr f)" "\<not> isBin f" using that(1) by (auto simp: disk_file_ok_def)
    note d = that(4) and nb = that(2)
    have len: "unat pos + unat nb \<le> unat (numBytes (hdr f))" using that(3) ok by simp
    have "unat pos < unat (numBytes (hdr f))" using len that(2) by linarith
    moreover have "unat pos + unat nb < 2 ^ 32" using len file_ok_length [OF ok(1)] by simp
    moreover have "min (unat nb) (unat (numBytes (hdr f)) - unat pos) = unat nb" using len by simp
    ultimately obtain c' where "hdr_WriteAt (junk w) (store w) (hdr f) d nb pos = Inr (of_nat (unat nb), c')"
      "file_ok c' (hdr f)"
      "file_content c' (hdr f) = overlay (file_content (store w) (hdr f)) (unat pos) (take (unat nb) d)"
      using hdr_WriteAt_content [OF ok(1) _ nb, of pos d "junk w"] d by auto
    with ok(2) nb show ?thesis
      by (simp add: OpenFile_WriteAt_def disk_file_ok_def word_less_nat_alt)
  qed
qed

section \<open>The free map on disk\<close>

definition map_file_ok :: "world \<Rightarrow> bool" where
  "map_file_ok w \<longleftrightarrow> disk_file_ok (freeMapFile w) w \<and> unat (numBytes (hdr (freeMapFile w))) = 128"

text \<open>The bitmap stored in the free-map file.\<close>

definition disk_map :: "world \<Rightarrow> bitmap" where
  "disk_map w = \<lparr>numBits = NUM_SECTORS, numWords = 32,
     bits = bytes_words 32 (file_content (store w) (hdr (freeMapFile w)))\<rparr>"

lemma disk_map_ok [simp]: "bitmap_ok (disk_map w)" "numBits (disk_map w) = NUM_SECTORS"
  "numWords (disk_map w) = 32" "length (bits (disk_map w)) = 32"
  by (simp_all add: disk_map_def bitmap_ok_def NUM_SECTORS_def BITS_IN_WORD_def)

lemma bitmap_new_shape: "\<exists>bm. Bitmap_new jk NUM_SECTORS = Inr bm \<and> numBits bm = NUM_SECTORS \<and> numWords bm = 32
    \<and> length (bits bm) = 32"
proof -
  from bitmap_new [of NUM_SECTORS jk] obtain bm where
    "Bitmap_new jk NUM_SECTORS = Inr bm" "bitmap_ok bm" "numBits bm = NUM_SECTORS"
    "numWords bm = (NUM_SECTORS + 31) div 32" by (auto simp: NUM_SECTORS_def)
  then show ?thesis by (auto simp: NUM_SECTORS_def bitmap_ok_def)
qed

lemma fetch_freeMap_disk_map: "map_file_ok w \<Longrightarrow> fetch_freeMap w = Inr (disk_map w)"
proof -
  assume ok: "map_file_ok w"
  from bitmap_new_shape [of "junk w"] obtain bm where
    bm: "Bitmap_new (junk w) NUM_SECTORS = Inr bm" "numBits bm = NUM_SECTORS" "numWords bm = 32"
      "length (bits bm) = 32" by auto
  let ?C = "file_content (store w) (hdr (freeMapFile w))"
  have l: "length ?C = 128" using ok by (simp add: map_file_ok_def disk_file_ok_def)
  have "OpenFile_ReadAt w (freeMapFile w) 128 0 = Inr (slice 0 128 ?C)"
    using df.rd_law [of "freeMapFile w" w 128 0] ok by (simp add: map_file_ok_def)
  then have "OpenFile_ReadAt w (freeMapFile w) 128 0 = Inr ?C" using l by simp
  with bm l show ?thesis
    by (cases bm) (simp add: fetch_freeMap_def Bitmap_FetchFrom_def disk_map_def)
qed

text \<open>Writing the free map back stores exactly it and touches only the sector of its file.\<close>

lemma Bitmap_WriteBack_disk_map:
  assumes "map_file_ok w" "numBits bm = NUM_SECTORS" "numWords bm = 32" "length (bits bm) = 32"
  shows "\<exists>c. Bitmap_WriteBack w (freeMapFile w) bm = Inr (w\<lparr>store := c\<rparr>)
    \<and> map_file_ok (w\<lparr>store := c\<rparr>) \<and> disk_map (w\<lparr>store := c\<rparr>) = bm
    \<and> (\<forall>s. s \<notin> set (header_sectors (hdr (freeMapFile w))) \<longrightarrow> c s = store w s)"
proof -
  let ?h = "hdr (freeMapFile w)"
  have ok: "file_ok (store w) ?h" "\<not> isBin (freeMapFile w)" "unat (numBytes ?h) = 128"
    using assms(1) by (auto simp: map_file_ok_def disk_file_ok_def)
  have d: "length (words_bytes (bits bm)) = 128" using assms(4) by simp
  from hdr_WriteAt_content [OF ok(1), of 0 128 "words_bytes (bits bm)" "junk w"] ok(3) d obtain c where
    c: "hdr_WriteAt (junk w) (store w) ?h (words_bytes (bits bm)) 128 0 = Inr (128, c)" "file_ok c ?h"
      "file_content c ?h = overlay (file_content (store w) ?h) 0 (words_bytes (bits bm))"
      "\<forall>s. s \<notin> set (header_sectors ?h) \<longrightarrow> c s = store w s" by auto
  have "file_content c ?h = words_bytes (bits bm)" using c(3) d ok by simp
  then have "disk_map (w\<lparr>store := c\<rparr>) = bm"
    using assms(2-4) by (cases bm) (simp add: disk_map_def bytes_words_bytes)
  moreover have "Bitmap_WriteBack w (freeMapFile w) bm = Inr (w\<lparr>store := c\<rparr>)"
    using c(1) ok assms(3) by (simp add: Bitmap_WriteBack_def OpenFile_WriteAt_def)
  ultimately show ?thesis using c(2,4) ok by (auto simp: map_file_ok_def disk_file_ok_def)
qed

section \<open>Writing inside one header\<close>

text \<open>
  An open file that can be written: its lock is free, the header on disk is well formed and the last
  of its chain, and the header's sector, the file's sectors and those of the free map are pairwise
  different and marked in the free map.
\<close>

definition map_sectors :: "world \<Rightarrow> nat set" where
  "map_sectors w = set (header_sectors (hdr (freeMapFile w)))"

definition stored_file :: "world \<Rightarrow> nat \<Rightarrow> RawFileHeader \<Rightarrow> bool" where
  "stored_file w cs h \<longleftrightarrow> map_file_ok w \<and> FileHeader_FetchFrom (store w) cs = Inr h \<and> file_ok (store w) h
     \<and> cs \<notin> set (header_sectors h) \<and> cs \<notin> map_sectors w \<and> set (header_sectors h) \<inter> map_sectors w = {}
     \<and> insert cs (set (header_sectors h) \<union> map_sectors w) \<subseteq> marked (disk_map w)"

definition needed_sectors :: "RawFileHeader \<Rightarrow> nat \<Rightarrow> nat" where
  "needed_sectors h len = (len + 127) div 128 - unat (numSectors h)"

lemma oft_update_simps [simp]:
  "store (oft_update w s g) = store w" "freeMapFile (oft_update w s g) = freeMapFile w"
  "currentThread (oft_update w s g) = currentThread w" "junk (oft_update w s g) = junk w"
  "openFilesTable (oft_update w s g) t = (if t = s then g (openFilesTable w s) else openFilesTable w t)"
  by (simp_all add: oft_update_def)

lemma map_frame [simp]:
  "map_file_ok (oft_update w s g) = map_file_ok w" "disk_map (oft_update w s g) = disk_map w"
  "map_sectors (oft_update w s g) = map_sectors w" "map_sectors (w\<lparr>store := c\<rparr>) = map_sectors w"
  by (simp_all add: map_file_ok_def disk_file_ok_def disk_map_def map_sectors_def)

lemma stored_file_oft [simp]: "stored_file (oft_update w s g) cs h = stored_file w cs h"
  by (simp add: stored_file_def)

lemma fetch_sector: "FileHeader_FetchFrom c s = Inr h \<Longrightarrow> s < NUM_SECTORS"
  by (auto simp: FileHeader_FetchFrom_def ReadSector_def res_simps)

lemma map_store_other:
  assumes "map_file_ok w" "cs \<notin> map_sectors w" "length bs = SECTOR_SIZE"
  shows "map_file_ok (w\<lparr>store := (store w)(cs := bs)\<rparr>)" "disk_map (w\<lparr>store := (store w)(cs := bs)\<rparr>) = disk_map w"
proof -
  let ?h = "hdr (freeMapFile w)"
  have "sector_bytes ((store w)(cs := bs)) ?h = sector_bytes (store w) ?h"
    using assms(2) by (auto simp: sector_bytes_def map_sectors_def intro!: arg_cong [of _ _ concat])
  then show "map_file_ok (w\<lparr>store := (store w)(cs := bs)\<rparr>)" "disk_map (w\<lparr>store := (store w)(cs := bs)\<rparr>) = disk_map w"
    using assms(1,3) by (auto simp: map_file_ok_def disk_file_ok_def file_ok_def sectors_ok_def disk_map_def
        file_content_def)
qed

text \<open>Growing the header keeps the bytes of the file and leaves it stored.\<close>

lemma Write_grow_ok:
  assumes st: "stored_file (ws_w st) cs h" "hdr (ws_f st) = h" "ws_map st = disk_map (ws_w st)"
    and size: "unat (numBytes h) + unat grow \<le> NUM_DIRECT * SECTOR_SIZE"
    and room: "needed_sectors h (unat (numBytes h) + unat grow) \<le> card ({..<NUM_SECTORS} - marked (disk_map (ws_w st)))"
  shows "\<exists>h' c bm. Write_grow st cs grow =
      Inr (True, st\<lparr>ws_f := (ws_f st)\<lparr>hdr := h'\<rparr>, ws_map := bm, ws_w := (ws_w st)\<lparr>store := c\<rparr>\<rparr>)
    \<and> stored_file ((ws_w st)\<lparr>store := c\<rparr>) cs h' \<and> bm = disk_map ((ws_w st)\<lparr>store := c\<rparr>)
    \<and> unat (numBytes h') = unat (numBytes h) + unat grow \<and> nextFileHeader h' = nextFileHeader h
    \<and> take (unat (numBytes h)) (file_content c h') = file_content (store (ws_w st)) h
    \<and> (\<exists>fresh. header_sectors h' = header_sectors h @ fresh \<and> marked bm = marked (disk_map (ws_w st)) \<union> set fresh
        \<and> set fresh \<inter> marked (disk_map (ws_w st)) = {})
    \<and> (\<forall>s. s \<notin> insert cs (map_sectors (ws_w st)) \<longrightarrow> c s = store (ws_w st) s)"
proof -
  let ?w = "ws_w st"
  have sf: "map_file_ok ?w" "FileHeader_FetchFrom (store ?w) cs = Inr h" "file_ok (store ?w) h"
    "cs \<notin> set (header_sectors h)" "cs \<notin> map_sectors ?w" "set (header_sectors h) \<inter> map_sectors ?w = {}"
    "cs \<in> marked (disk_map ?w)" "set (header_sectors h) \<subseteq> marked (disk_map ?w)"
    "map_sectors ?w \<subseteq> marked (disk_map ?w)"
    using st(1) by (auto simp: stored_file_def)
  have hok: "header_ok h" using sf(3) by (simp add: file_ok_def)
  have g: "unat grow \<le> NUM_DIRECT * SECTOR_SIZE - unat (numBytes h)" using size by simp
  from Allocate_succeeds [OF hok disk_map_ok(1) [of ?w] _ g] room obtain h' bm fresh where
    al: "FileHeader_Allocate h (disk_map ?w) grow = Inr (True, h', bm)" "header_ok h'"
      "unat (numBytes h') = unat (numBytes h) + unat grow" "nextFileHeader h' = nextFileHeader h"
      "header_sectors h' = header_sectors h @ fresh" "distinct fresh" "set fresh \<inter> marked (disk_map ?w) = {}"
      "set fresh \<subseteq> {..<NUM_SECTORS}" "bitmap_ok bm" "numBits bm = NUM_SECTORS"
      "marked bm = marked (disk_map ?w) \<union> set fresh"
    unfolding needed_sectors_def by (auto simp: add.assoc)
  have shape: "numWords bm = 32" "length (bits bm) = 32"
    using Allocate_numWords [OF al(1)] al(9) by (simp_all add: bitmap_ok_def)
  from Bitmap_WriteBack_disk_map [OF sf(1) al(10) shape] obtain c1 where
    c1: "Bitmap_WriteBack ?w (freeMapFile ?w) bm = Inr (?w\<lparr>store := c1\<rparr>)" "map_file_ok (?w\<lparr>store := c1\<rparr>)"
      "disk_map (?w\<lparr>store := c1\<rparr>) = bm" "\<forall>s. s \<notin> map_sectors ?w \<longrightarrow> c1 s = store ?w s"
    unfolding map_sectors_def by auto
  let ?c = "c1(cs := header_bytes h')"
  have lh: "length (header_bytes h') = SECTOR_SIZE" "bytes_header (header_bytes h') = h'"
    using al(2) length_header_bytes bytes_header_bytes by (auto simp: header_ok_def)
  have cs: "cs < NUM_SECTORS" using fetch_sector [OF sf(2)] .
  have wb: "FileHeader_WriteBack c1 h' cs = Inr ?c"
    using lh cs by (simp add: FileHeader_WriteBack_def WriteSector_def)
  have gr: "Write_grow st cs grow =
      Inr (True, st\<lparr>ws_f := (ws_f st)\<lparr>hdr := h'\<rparr>, ws_map := bm, ws_w := ?w\<lparr>store := ?c\<rparr>\<rparr>)"
    using al(1) c1(1) wb st(2,3) by (simp add: Write_grow_def Let_def)
  have m: "map_file_ok (?w\<lparr>store := ?c\<rparr>)" "disk_map (?w\<lparr>store := ?c\<rparr>) = bm"
    using map_store_other [OF c1(2), of cs "header_bytes h'"] sf(5) lh(1) c1(3) by simp_all
  have sok: "sectors_ok ?c" using c1(2) lh(1) by (auto simp: map_file_ok_def disk_file_ok_def file_ok_def sectors_ok_def)
  have fok: "file_ok ?c h'" using sok al(2,5-8) sf(3,8) by (auto simp: file_ok_def)
  have "FileHeader_FetchFrom ?c cs = Inr h'" using cs lh(2) by (simp add: FileHeader_FetchFrom_def ReadSector_def)
  moreover have "cs \<notin> set (header_sectors h')" "set (header_sectors h') \<inter> map_sectors ?w = {}"
    using al(5,7) sf(4-9) by auto
  moreover have "insert cs (set (header_sectors h') \<union> map_sectors ?w) \<subseteq> marked bm"
    using al(5,11) sf(7-9) by auto
  ultimately have "stored_file (?w\<lparr>store := ?c\<rparr>) cs h'"
    using m fok sf(5) by (simp add: stored_file_def)
  moreover have same: "\<forall>s. s \<notin> insert cs (map_sectors ?w) \<longrightarrow> ?c s = store ?w s" using c1(4) by auto
  moreover have "take (unat (numBytes h)) (file_content ?c h') = file_content (store ?w) h"
  proof -
    have "map ?c (header_sectors h) = map (store ?w) (header_sectors h)"
      using same sf(4,6) by auto
    then have "sector_bytes ?c h' = sector_bytes (store ?w) h @ concat (map ?c fresh)"
      unfolding sector_bytes_def al(5) by (simp only: map_append concat_append)
    moreover have "unat (numBytes h) \<le> length (sector_bytes (store ?w) h)"
      using length_sector_bytes [OF sf(3)] round_up_ge [of "unat (numBytes h)"] by simp
    ultimately show ?thesis using al(3) by (simp add: file_content_def min_def)
  qed
  ultimately show ?thesis using gr m(2) al(3-5,7,11) by blast
qed

lemma stored_file_data:
  assumes "stored_file w cs h" "sectors_ok c" "\<forall>s. s \<notin> set (header_sectors h) \<longrightarrow> c s = store w s"
  shows "stored_file (w\<lparr>store := c\<rparr>) cs h" "disk_map (w\<lparr>store := c\<rparr>) = disk_map w"
proof -
  let ?m = "hdr (freeMapFile w)"
  have sf: "map_file_ok w" "FileHeader_FetchFrom (store w) cs = Inr h" "file_ok (store w) h"
    "cs \<notin> set (header_sectors h)" "set (header_sectors h) \<inter> map_sectors w = {}"
    using assms(1) by (auto simp: stored_file_def)
  have "map c (header_sectors ?m) = map (store w) (header_sectors ?m)"
    using assms(3) sf(5) by (auto simp: map_sectors_def)
  then have sb: "sector_bytes c ?m = sector_bytes (store w) ?m" by (simp only: sector_bytes_def)
  then show d: "disk_map (w\<lparr>store := c\<rparr>) = disk_map w" by (simp add: disk_map_def file_content_def)
  have "map_file_ok (w\<lparr>store := c\<rparr>)"
    using sf(1) assms(2) by (auto simp: map_file_ok_def disk_file_ok_def file_ok_def)
  moreover have "FileHeader_FetchFrom c cs = Inr h"
    using sf(2,4) assms(3) by (simp add: FileHeader_FetchFrom_def ReadSector_def res_simps)
  moreover have "file_ok c h" using sf(3) assms(2) by (simp add: file_ok_def)
  ultimately show "stored_file (w\<lparr>store := c\<rparr>) cs h"
    using assms(1) d by (simp add: stored_file_def)
qed

lemma Write_advance_ok:
  assumes "stored_file (ws_w st) cs h" "hdr (ws_f st) = h" "\<not> isBin (ws_f st)"
    and "0 < unat b" "unat pos + unat b \<le> unat (numBytes h)" "unat b \<le> length (ws_from st)"
  shows "\<exists>c. Write_advance st b pos = Inr (st\<lparr>ws_w := (ws_w st)\<lparr>store := c\<rparr>,
        ws_f := (ws_f st)\<lparr>seekPosition := pos + b\<rparr>, ws_from := drop (unat b) (ws_from st),
        ws_n := ws_n st - b, ws_result := ws_result st + b\<rparr>)
    \<and> stored_file ((ws_w st)\<lparr>store := c\<rparr>) cs h \<and> disk_map ((ws_w st)\<lparr>store := c\<rparr>) = disk_map (ws_w st)
    \<and> file_content c h = overlay (file_content (store (ws_w st)) h) (unat pos) (take (unat b) (ws_from st))
    \<and> (\<forall>s. s \<notin> set (header_sectors h) \<longrightarrow> c s = store (ws_w st) s)"
proof -
  have ok: "file_ok (store (ws_w st)) h" using assms(1) by (simp add: stored_file_def)
  have "unat pos < unat (numBytes h)" using assms(4,5) by linarith
  moreover have "unat pos + unat b < 2 ^ 32" using assms(5) file_ok_length [OF ok] by simp
  moreover have "min (unat b) (unat (numBytes h) - unat pos) = unat b" using assms(5) by simp
  ultimately obtain c where
    c: "hdr_WriteAt (junk (ws_w st)) (store (ws_w st)) h (ws_from st) b pos = Inr (b, c)" "file_ok c h"
      "file_content c h = overlay (file_content (store (ws_w st)) h) (unat pos) (take (unat b) (ws_from st))"
      "\<forall>s. s \<notin> set (header_sectors h) \<longrightarrow> c s = store (ws_w st) s"
    using hdr_WriteAt_content [OF ok _ assms(4), of pos "ws_from st" "junk (ws_w st)"] assms(6) by auto
  have "sectors_ok c" using c(2) by (simp add: file_ok_def)
  from stored_file_data [OF assms(1) this c(4)] c assms(2-4) show ?thesis
    by (auto simp: Write_advance_def OpenFile_WriteAt_def word_less_nat_alt)
qed

lemma overlay_take_prefix:
  assumes "take n A = B" "length B = n" "n \<le> length A" "pos \<le> n" "length A = pos + length d \<or> n = length A"
  shows "overlay A pos d = overlay B pos d"
proof -
  have "take pos A = take pos B" using assms(1,4) by (auto simp: min_def)
  moreover have "drop (pos + length d) A = drop (pos + length d) B"
    using assms by (cases "n = length A") auto
  ultimately show ?thesis by (simp add: overlay_def)
qed

text \<open>The bytes of the request that fit into the header, which is grown when they end past it.\<close>

lemma Write_current_ok:
  assumes st: "stored_file (ws_w st) cs h" "hdr (ws_f st) = h" "ws_map st = disk_map (ws_w st)"
      "currentSector (ws_f st) = cs" "\<not> isBin (ws_f st)"
    and n: "0 < unat (ws_n st)" "unat (ws_n st) \<le> length (ws_from st)"
    and pos: "unat (seekPosition (ws_f st)) \<le> unat (numBytes h)"
      "unat (seekPosition (ws_f st)) + unat (ws_n st) \<le> NUM_DIRECT * SECTOR_SIZE"
    and room: "needed_sectors h (unat (seekPosition (ws_f st)) + unat (ws_n st))
      \<le> card ({..<NUM_SECTORS} - marked (disk_map (ws_w st)))"
  shows "\<exists>h' c st'. Write_current st = Inr (True, st') \<and> ws_n st' = 0 \<and> ws_result st' = ws_result st + ws_n st
    \<and> ws_f st' = (ws_f st)\<lparr>hdr := h', seekPosition := seekPosition (ws_f st) + ws_n st\<rparr>
    \<and> ws_w st' = (ws_w st)\<lparr>store := c\<rparr> \<and> stored_file (ws_w st') cs h' \<and> nextFileHeader h' = nextFileHeader h
    \<and> file_content c h' = overlay (file_content (store (ws_w st)) h) (unat (seekPosition (ws_f st)))
        (take (unat (ws_n st)) (ws_from st))
    \<and> marked (disk_map (ws_w st)) \<union> set (header_sectors h') = marked (disk_map (ws_w st'))
    \<and> set (header_sectors h') \<inter> marked (disk_map (ws_w st)) = set (header_sectors h)
    \<and> (\<forall>s. s \<notin> insert cs (map_sectors (ws_w st) \<union> set (header_sectors h')) \<longrightarrow> c s = store (ws_w st) s)"
proof -
  let ?seek = "seekPosition (ws_f st)" and ?n = "ws_n st" and ?w = "ws_w st"
  have b3712: "unat ?seek + unat ?n \<le> 3712" using pos(2) by (simp add: NUM_DIRECT_def SECTOR_SIZE_def)
  have sum: "unat (?seek + ?n) = unat ?seek + unat ?n" using b3712 by (simp add: unat_add_small)
  have max: "\<not> ?n > of_nat (NUM_DIRECT * SECTOR_SIZE) - ?seek"
    using b3712 by (simp add: word_less_nat_alt unat_sub word_le_nat_alt NUM_DIRECT_def SECTOR_SIZE_def)
  have n0: "?n > 0" using n(1) by (simp add: word_less_nat_alt)
  have ok: "file_ok (store ?w) h" and hs: "set (header_sectors h) \<subseteq> marked (disk_map ?w)"
    using st(1) by (auto simp: stored_file_def)
  have cur: "Write_current st =
      rbind (if ?seek + ?n > numBytes h then Write_grow st cs ((?seek + ?n) - numBytes h) else Inr (True, st))
        (\<lambda>(success, st1). if \<not> success then Inr (False, st1)
           else rbind (Write_advance st1 ?n ?seek) (\<lambda>st2. Inr (True, st2)))"
    using max n0 st(2,4) by (simp add: Write_current_def Let_def)
  show ?thesis
  proof (cases "?seek + ?n > numBytes h")
    case False
    then have "unat ?seek + unat ?n \<le> unat (numBytes h)" using sum by (simp add: word_less_nat_alt)
    from Write_advance_ok [OF st(1,2,5) n(1) this n(2)] obtain c where
      c: "Write_advance st ?n ?seek = Inr (st\<lparr>ws_w := ?w\<lparr>store := c\<rparr>, ws_f := (ws_f st)\<lparr>seekPosition := ?seek + ?n\<rparr>,
          ws_from := drop (unat ?n) (ws_from st), ws_n := 0, ws_result := ws_result st + ?n\<rparr>)"
        "stored_file (?w\<lparr>store := c\<rparr>) cs h" "disk_map (?w\<lparr>store := c\<rparr>) = disk_map ?w"
        "file_content c h = overlay (file_content (store ?w) h) (unat ?seek) (take (unat ?n) (ws_from st))"
        "\<forall>s. s \<notin> set (header_sectors h) \<longrightarrow> c s = store ?w s" by auto
    have "(ws_f st)\<lparr>seekPosition := ?seek + ?n\<rparr> = (ws_f st)\<lparr>hdr := h, seekPosition := ?seek + ?n\<rparr>"
      using st(2) by simp
    with c hs cur False show ?thesis by (intro exI [of _ h] exI [of _ c] exI) auto
  next
    case True
    let ?g = "(?seek + ?n) - numBytes h"
    have lt: "unat (numBytes h) < unat ?seek + unat ?n" using True sum by (simp add: word_less_nat_alt)
    have g: "unat (numBytes h) + unat ?g = unat ?seek + unat ?n"
      using lt sum by (subst unat_sub) (auto simp: word_le_nat_alt)
    from Write_grow_ok [OF st(1-3), of ?g] g pos(2) room obtain h' c bm fresh where
      gr: "Write_grow st cs ?g = Inr (True, st\<lparr>ws_f := (ws_f st)\<lparr>hdr := h'\<rparr>, ws_map := bm, ws_w := ?w\<lparr>store := c\<rparr>\<rparr>)"
        "stored_file (?w\<lparr>store := c\<rparr>) cs h'" "bm = disk_map (?w\<lparr>store := c\<rparr>)"
        "unat (numBytes h') = unat ?seek + unat ?n" "nextFileHeader h' = nextFileHeader h"
        "take (unat (numBytes h)) (file_content c h') = file_content (store ?w) h"
        "header_sectors h' = header_sectors h @ fresh" "marked bm = marked (disk_map ?w) \<union> set fresh"
        "set fresh \<inter> marked (disk_map ?w) = {}"
        "\<forall>s. s \<notin> insert cs (map_sectors ?w) \<longrightarrow> c s = store ?w s" by auto
    let ?st1 = "st\<lparr>ws_f := (ws_f st)\<lparr>hdr := h'\<rparr>, ws_map := bm, ws_w := ?w\<lparr>store := c\<rparr>\<rparr>"
    from Write_advance_ok [of ?st1 cs h' ?n ?seek] gr(2,4) st(5) n obtain c' where
      c': "Write_advance ?st1 ?n ?seek = Inr (?st1\<lparr>ws_w := ?w\<lparr>store := c'\<rparr>,
          ws_f := (ws_f st)\<lparr>hdr := h', seekPosition := ?seek + ?n\<rparr>,
          ws_from := drop (unat ?n) (ws_from st), ws_n := 0, ws_result := ws_result st + ?n\<rparr>)"
        "stored_file (?w\<lparr>store := c'\<rparr>) cs h'" "disk_map (?w\<lparr>store := c'\<rparr>) = bm"
        "file_content c' h' = overlay (file_content c h') (unat ?seek) (take (unat ?n) (ws_from st))"
        "\<forall>s. s \<notin> set (header_sectors h') \<longrightarrow> c' s = c s" using gr(3) by auto
    have ok': "file_ok c h'" using gr(2) by (simp add: stored_file_def)
    have "overlay (file_content c h') (unat ?seek) (take (unat ?n) (ws_from st)) =
        overlay (file_content (store ?w) h) (unat ?seek) (take (unat ?n) (ws_from st))"
      by (rule overlay_take_prefix [OF gr(6)]) (use ok ok' gr(4) lt pos(1) n(2) in auto)
    with c' gr hs cur True show ?thesis by (intro exI [of _ h'] exI [of _ c'] exI) auto
  qed
qed

lemma OpenFile_Write_ok:
  assumes sf: "stored_file w (currentSector f) h" "nextFileHeader h = 0" "\<not> isBin f"
    and lk: "writeLock (openFilesTable w (sector f)) = Some None"
    and n: "0 < unat nb" "unat nb \<le> length from"
    and pos: "unat (seekPosition f) \<le> unat (numBytes h)" "unat (seekPosition f) + unat nb \<le> NUM_DIRECT * SECTOR_SIZE"
    and room: "needed_sectors h (unat (seekPosition f) + unat nb) \<le> card ({..<NUM_SECTORS} - marked (disk_map w))"
  shows "\<exists>h' w'. OpenFile_Write w f from nb False =
      Inr (nb, f\<lparr>hdr := h', seekPosition := seekPosition f + nb\<rparr>, w')
    \<and> stored_file w' (currentSector f) h' \<and> nextFileHeader h' = 0
    \<and> w' = w\<lparr>store := store w'\<rparr>
    \<and> file_content (store w') h' = overlay (file_content (store w) h) (unat (seekPosition f)) (take (unat nb) from)
    \<and> marked (disk_map w') = marked (disk_map w) \<union> set (header_sectors h')
    \<and> set (header_sectors h') \<inter> marked (disk_map w) = set (header_sectors h)
    \<and> (\<forall>s. s \<notin> insert (currentSector f) (map_sectors w \<union> set (header_sectors h')) \<longrightarrow> store w' s = store w s)"
proof -
  define w1 where "w1 = oft_update w (sector f) (\<lambda>e. e\<lparr>writeLock := Some (Some (currentThread w))\<rparr>)"
  let ?st = "\<lparr>ws_w = w1, ws_f = f\<lparr>hdr := h\<rparr>, ws_map = disk_map w1, ws_from = from, ws_n = nb, ws_result = 0\<rparr>"
  have acq: "writeLock_Acquire w (sector f) = Inr w1"
    using lk by (simp add: writeLock_Acquire_def lock_acquire_def w1_def)
  have w1: "stored_file w1 (currentSector f) h" "disk_map w1 = disk_map w" "store w1 = store w"
    "map_sectors w1 = map_sectors w" using sf(1) by (simp_all add: w1_def)
  have fm: "fetch_freeMap w1 = Inr (disk_map w1)"
    using fetch_freeMap_disk_map w1(1) by (simp add: stored_file_def)
  have fh: "FileHeader_FetchFrom (store w1) (currentSector f) = Inr h" using w1(1) by (simp add: stored_file_def)
  from Write_current_ok [of ?st "currentSector f" h] w1 sf(3) n pos room obtain h' c st' where
    st': "Write_current ?st = Inr (True, st')" "ws_n st' = 0" "ws_result st' = nb"
      "ws_f st' = f\<lparr>hdr := h', seekPosition := seekPosition f + nb\<rparr>" "ws_w st' = w1\<lparr>store := c\<rparr>"
      "stored_file (ws_w st') (currentSector f) h'" "nextFileHeader h' = nextFileHeader h"
      "file_content c h' = overlay (file_content (store w) h) (unat (seekPosition f)) (take (unat nb) from)"
      "marked (disk_map w) \<union> set (header_sectors h') = marked (disk_map (ws_w st'))"
      "set (header_sectors h') \<inter> marked (disk_map w) = set (header_sectors h)"
      "\<forall>s. s \<notin> insert (currentSector f) (map_sectors w \<union> set (header_sectors h')) \<longrightarrow> c s = store w s"
    by auto
  let ?w2 = "oft_update (w1\<lparr>store := c\<rparr>) (sector f) (\<lambda>e. e\<lparr>writeLock := Some None\<rparr>)"
  have rel: "writeLock_Release (w1\<lparr>store := c\<rparr>) (sector f) = Inr ?w2"
    by (simp add: writeLock_Release_def lock_release_def w1_def oft_update_def)
  have tab: "?w2 = w\<lparr>store := c\<rparr>"
  proof -
    have "(openFilesTable w (sector f))\<lparr>writeLock := Some None\<rparr> = openFilesTable w (sector f)" using lk by simp
    then show ?thesis by (cases w) (auto simp: w1_def oft_update_def fun_eq_iff)
  qed
  have ex: "Write_existing (unat (ws_n st')) (nextFileHeader (hdr (ws_f st'))) st' = Inr (True, st')"
    using st'(2) by (subst Write_existing.simps) simp
  have nw: "Write_new st' = Inr st'" using st'(2) by (simp add: Write_new_def)
  have "OpenFile_Write w f from nb False = Inr (nb, f\<lparr>hdr := h', seekPosition := seekPosition f + nb\<rparr>, ?w2)"
    using acq fh fm st'(1,3,4,5) ex nw rel n(1) sf(3)
    by (simp add: OpenFile_Write_def word_less_nat_alt)
  moreover have "stored_file (w\<lparr>store := c\<rparr>) cs h = stored_file (w1\<lparr>store := c\<rparr>) cs h"
    "disk_map (w\<lparr>store := c\<rparr>) = disk_map (w1\<lparr>store := c\<rparr>)" for cs h
    unfolding tab [symmetric] by simp_all
  ultimately show ?thesis using st' sf(2) tab
    by (intro exI [of _ h'] exI [of _ "w\<lparr>store := c\<rparr>"]) auto
qed

lemma OpenFile_Read_ok:
  assumes "disk_file_ok f w" "nextFileHeader (hdr f) = 0" "0 < unat nb"
    and "unat (seekPosition f) + unat nb < 2 ^ 32"
  shows "OpenFile_Read w f nb False =
    (let bs = slice (unat (seekPosition f)) (unat nb) (file_content (store w) (hdr f))
     in Inr (bs, f\<lparr>seekPosition := seekPosition f + of_nat (length bs)\<rparr>))"
proof -
  have "OpenFile_ReadAt w f nb (seekPosition f) =
      Inr (slice (unat (seekPosition f)) (unat nb) (file_content (store w) (hdr f)))"
    by (rule df.rd_law [OF assms(1,3,4)])
  moreover have "Read_chain fuel w g 0 n out = Inr (out, g)" for fuel g n out
    by (subst Read_chain.simps) simp
  ultimately show ?thesis using assms
    by (simp add: OpenFile_Read_def disk_file_ok_def word_less_nat_alt Let_def)
qed

section \<open>Properties\<close>

text \<open>
  C27. \<open>ReadAt\<close> on a well-formed file of at most 29 sectors returns exactly the requested part of
  the file's bytes, cut at the end of the file, whatever the alignment; \<open>WriteAt\<close> of a request that
  begins inside the file replaces exactly the bytes of the request that lie inside it, returns
  their number, keeps the file well formed, and changes no sector of any other file, whatever
  its buffer held.
\<close>

theorem read_write_at:
  assumes "file_ok c h" "0 < unat nb" "unat pos + unat nb < 2 ^ 32"
  defines "k \<equiv> min (unat nb) (unat (numBytes h) - unat pos)"
  shows "hdr_ReadAt c h nb pos = Inr (slice (unat pos) (unat nb) (file_content c h))
    \<and> (unat pos < unat (numBytes h) \<and> k \<le> length from \<longrightarrow>
        (\<exists>c'. hdr_WriteAt jk c h from nb pos = Inr (of_nat k, c') \<and> file_ok c' h
          \<and> file_content c' h = overlay (file_content c h) (unat pos) (take k from)
          \<and> (\<forall>s. s \<notin> set (header_sectors h) \<longrightarrow> c' s = c s)))"
  using hdr_ReadAt_content [OF assms(1-3)] hdr_WriteAt_content [OF assms(1) _ assms(2,3)]
  unfolding k_def by blast

text \<open>A file of 200 bytes in sectors 10 and 11.\<close>

definition sample_header :: RawFileHeader where
  "sample_header = \<lparr>numBytes = 200, numSectors = 2, dataSectors = [10, 11] @ replicate 27 0, nextFileHeader = 0\<rparr>"

lemma sample_sectors: "header_sectors sample_header = [10, 11]"
  by (simp add: header_sectors_def sample_header_def)

lemma sample_file_ok: "sectors_ok c \<Longrightarrow> file_ok c sample_header"
  by (simp add: file_ok_def sample_sectors NUM_SECTORS_def)
    (simp add: header_ok_def sample_header_def NUM_DIRECT_def SECTOR_SIZE_def)

theorem read_write_at_witness:
  "\<exists>c'. hdr_WriteAt (\<lambda>_. 7) (\<lambda>s. replicate 128 0) sample_header [1, 2, 3] 3 126 = Inr (3, c')
     \<and> file_content c' sample_header
       = overlay (file_content (\<lambda>s. replicate 128 0) sample_header) 126 [1, 2, 3]"
proof -
  have ok: "file_ok (\<lambda>s. replicate 128 0) sample_header"
    by (rule sample_file_ok) (simp add: sectors_ok_def SECTOR_SIZE_def)
  from read_write_at [OF ok, of 3 126 "[1, 2, 3]" "\<lambda>_. 7"] show ?thesis
    by (simp add: sample_header_def) blast
qed

text \<open>A world with the free map in sector 2 and the sample file with its header in sector 5.\<close>

definition sample_file :: "nat \<Rightarrow> RawFileHeader \<Rightarrow> u32 \<Rightarrow> OpenFile" where
  "sample_file s h p = \<lparr>hdr = h, currentSector = s, seekPosition = p, sector = s, hostFd = 0,
     currentOffset = 0, isBin = False\<rparr>"

definition sample_map_header :: RawFileHeader where
  "sample_map_header = \<lparr>numBytes = 128, numSectors = 1, dataSectors = [2] @ replicate 28 0, nextFileHeader = 0\<rparr>"

definition sample_world :: world where
  "sample_world = \<lparr>store = (\<lambda>s. replicate 128 0)(5 := header_bytes sample_header,
       2 := words_bytes (3108 # replicate 31 0)),
     openFilesTable = (\<lambda>s. \<lparr>openCount = 1, removing = False, removed = False, writeLock = Some None,
       removeLock = Some None, closeLock = Some None, removerSpaceId = 0\<rparr>),
     freeMapFile = sample_file 0 sample_map_header 0, hostFiles = (\<lambda>_. []), currentThread = 1,
     running = (\<lambda>_. False), removeSent = [], junk = (\<lambda>_. 7)\<rparr>"

lemma sample_map_sectors: "map_sectors sample_world = {2}"
  by (simp add: map_sectors_def header_sectors_def sample_world_def sample_file_def sample_map_header_def)

lemma sample_sectors_ok: "sectors_ok (store sample_world)"
  by (simp add: sectors_ok_def sample_world_def SECTOR_SIZE_def length_header_bytes [unfolded SECTOR_SIZE_def]
      sample_header_def NUM_DIRECT_def)

lemma sample_map_file_ok: "map_file_ok sample_world"
proof -
  have "header_sectors sample_map_header = [2]" by (simp add: header_sectors_def sample_map_header_def)
  moreover have "header_ok sample_map_header"
    by (simp add: header_ok_def sample_map_header_def NUM_DIRECT_def SECTOR_SIZE_def)
  ultimately have "file_ok (store sample_world) sample_map_header"
    using sample_sectors_ok by (simp add: file_ok_def NUM_SECTORS_def)
  then show ?thesis
    by (simp add: map_file_ok_def disk_file_ok_def) (simp add: sample_world_def sample_file_def sample_map_header_def)
qed

lemma sample_disk_map: "bits (disk_map sample_world) = 3108 # replicate 31 0"
proof -
  have "header_sectors sample_map_header = [2]" by (simp add: header_sectors_def sample_map_header_def)
  then have "file_content (store sample_world) sample_map_header = words_bytes (3108 # replicate 31 0)"
    by (simp add: file_content_def sector_bytes_def sample_world_def del: words_bytes_Cons)
      (simp add: sample_map_header_def)
  then have "bits (disk_map sample_world) = bytes_words 32 (words_bytes (3108 # replicate 31 0))"
    by (simp add: disk_map_def) (simp add: sample_world_def sample_file_def)
  then show ?thesis by (simp only: bytes_words_bytes length_Cons length_replicate)
qed

lemma sample_marked: "{2, 5, 10, 11} \<subseteq> marked (disk_map sample_world)"
  by (simp add: marked_def sample_disk_map BITS_IN_WORD_def NUM_SECTORS_def bit_numeral_rec)

lemma sample_stored: "stored_file sample_world 5 sample_header"
proof -
  have "length (dataSectors sample_header) = NUM_DIRECT" by (simp add: sample_header_def NUM_DIRECT_def)
  then have "FileHeader_FetchFrom (store sample_world) 5 = Inr sample_header"
    by (simp add: FileHeader_FetchFrom_def ReadSector_def sample_world_def NUM_SECTORS_def bytes_header_bytes)
  then show ?thesis
    using sample_map_file_ok sample_file_ok [OF sample_sectors_ok] sample_marked
    by (simp add: stored_file_def sample_sectors sample_map_sectors)
qed

lemma OpenFile_write_then_read:
  assumes "stored_file w (currentSector f) h" "nextFileHeader h = 0" "\<not> isBin f"
    and "writeLock (openFilesTable w (sector f)) = Some None"
    and "0 < unat nb" "unat nb \<le> length from"
    and "unat (seekPosition f) \<le> unat (numBytes h)" "unat (seekPosition f) + unat nb \<le> NUM_DIRECT * SECTOR_SIZE"
    and "needed_sectors h (unat (seekPosition f) + unat nb) \<le> card ({..<NUM_SECTORS} - marked (disk_map w))"
  shows "\<exists>f' h' w'. OpenFile_Write w f from nb False = Inr (nb, f', w') \<and> hdr f' = h'
    \<and> stored_file w' (currentSector f) h' \<and> openFilesTable w' = openFilesTable w
    \<and> file_content (store w') h' = overlay (file_content (store w) h) (unat (seekPosition f)) (take (unat nb) from)
    \<and> marked (disk_map w') = marked (disk_map w) \<union> set (header_sectors h')
    \<and> set (header_sectors h') \<inter> marked (disk_map w) = set (header_sectors h)
    \<and> (\<forall>s. s \<notin> insert (currentSector f) (map_sectors w \<union> set (header_sectors h')) \<longrightarrow> store w' s = store w s)
    \<and> OpenFile_Read w' (OpenFile_Seek f' (seekPosition f)) nb False = Inr (take (unat nb) from, f')"
proof -
  from OpenFile_Write_ok [OF assms] obtain h' w' where
    w': "OpenFile_Write w f from nb False = Inr (nb, f\<lparr>hdr := h', seekPosition := seekPosition f + nb\<rparr>, w')"
      "stored_file w' (currentSector f) h'" "nextFileHeader h' = 0" "w' = w\<lparr>store := store w'\<rparr>"
      "file_content (store w') h' = overlay (file_content (store w) h) (unat (seekPosition f)) (take (unat nb) from)"
      "marked (disk_map w') = marked (disk_map w) \<union> set (header_sectors h')"
      "set (header_sectors h') \<inter> marked (disk_map w) = set (header_sectors h)"
      "\<forall>s. s \<notin> insert (currentSector f) (map_sectors w \<union> set (header_sectors h')) \<longrightarrow> store w' s = store w s"
    by auto
  let ?f = "f\<lparr>hdr := h', seekPosition := seekPosition f + nb\<rparr>"
  have C: "unat (seekPosition f) \<le> length (file_content (store w) h)"
    using assms(1,7) by (simp add: stored_file_def)
  have l: "length (take (unat nb) from) = unat nb" using assms(6) by simp
  have "slice (unat (seekPosition f)) (unat nb) (file_content (store w') h') = take (unat nb) from"
    unfolding w'(5) using C l by (simp add: slice_def overlay_def)
  moreover have "unat (seekPosition f) + unat nb < 2 ^ 32"
    using assms(8) by (simp add: NUM_DIRECT_def SECTOR_SIZE_def)
  moreover have "disk_file_ok (OpenFile_Seek ?f (seekPosition f)) w'"
    using w'(2) assms(3) by (simp add: disk_file_ok_def OpenFile_Seek_def stored_file_def)
  ultimately have "OpenFile_Read w' (OpenFile_Seek ?f (seekPosition f)) nb False = Inr (take (unat nb) from, ?f)"
    using OpenFile_Read_ok [of "OpenFile_Seek ?f (seekPosition f)" w' nb] w'(3) assms(5,6)
    by (simp add: OpenFile_Seek_def Let_def min_def)
  moreover have "openFilesTable w' = openFilesTable w"
    using arg_cong [OF w'(4), of openFilesTable] by simp
  ultimately show ?thesis using w'(1-3,5-8) by (intro exI [of _ ?f] exI [of _ h'] exI [of _ w']) simp
qed

text \<open>
  C28. \<open>Write\<close> at a position inside or at the end of a file that stays within one header: it writes
  everything, the file's bytes are the old ones with the request written over them and extended
  by it, the file and the free map on disk stay well formed, the sectors it takes were free and
  are marked, no other sector changes, the lock is free again, and seeking back and reading
  returns what was written.
\<close>

theorem open_file_write_read:
  assumes "stored_file w (currentSector f) h" "nextFileHeader h = 0" "\<not> isBin f"
    and "writeLock (openFilesTable w (sector f)) = Some None"
    and "0 < unat nb" "unat nb \<le> length from"
    and "unat (seekPosition f) \<le> unat (numBytes h)" "unat (seekPosition f) + unat nb \<le> NUM_DIRECT * SECTOR_SIZE"
    and "needed_sectors h (unat (seekPosition f) + unat nb) \<le> card ({..<NUM_SECTORS} - marked (disk_map w))"
  shows "\<exists>f' h' w'. OpenFile_Write w f from nb False = Inr (nb, f', w') \<and> hdr f' = h'
    \<and> stored_file w' (currentSector f) h' \<and> openFilesTable w' = openFilesTable w
    \<and> file_content (store w') h' = overlay (file_content (store w) h) (unat (seekPosition f)) (take (unat nb) from)
    \<and> marked (disk_map w') = marked (disk_map w) \<union> set (header_sectors h')
    \<and> set (header_sectors h') \<inter> marked (disk_map w) = set (header_sectors h)
    \<and> (\<forall>s. s \<notin> insert (currentSector f) (map_sectors w \<union> set (header_sectors h')) \<longrightarrow> store w' s = store w s)
    \<and> OpenFile_Read w' (OpenFile_Seek f' (seekPosition f)) nb False = Inr (take (unat nb) from, f')"
  using assms by (rule OpenFile_write_then_read)

theorem open_file_write_read_witness:
  "\<exists>f' w'. OpenFile_Write sample_world (sample_file 5 sample_header 200) [1, 2, 3] 3 False = Inr (3, f', w')
     \<and> OpenFile_Read w' (OpenFile_Seek f' 200) 3 False = Inr ([1, 2, 3], f')"
proof -
  let ?f = "sample_file 5 sample_header 200"
  have "needed_sectors sample_header 203 = 0" by (simp add: needed_sectors_def sample_header_def)
  then have "\<exists>f' h' w'. OpenFile_Write sample_world ?f [1, 2, 3] 3 False = Inr (3, f', w') \<and> hdr f' = h'
    \<and> stored_file w' (currentSector ?f) h' \<and> openFilesTable w' = openFilesTable sample_world
    \<and> file_content (store w') h' = overlay (file_content (store sample_world) sample_header)
        (unat (seekPosition ?f)) (take (unat (3::u32)) [1, 2, 3])
    \<and> marked (disk_map w') = marked (disk_map sample_world) \<union> set (header_sectors h')
    \<and> set (header_sectors h') \<inter> marked (disk_map sample_world) = set (header_sectors sample_header)
    \<and> (\<forall>s. s \<notin> insert (currentSector ?f) (map_sectors sample_world \<union> set (header_sectors h'))
        \<longrightarrow> store w' s = store sample_world s)
    \<and> OpenFile_Read w' (OpenFile_Seek f' (seekPosition ?f)) 3 False = Inr (take (unat (3::u32)) [1, 2, 3], f')"
    using sample_stored
    by (intro open_file_write_read)
      (simp_all add: sample_file_def sample_world_def sample_header_def NUM_DIRECT_def SECTOR_SIZE_def)
  then show ?thesis by (auto simp: sample_file_def)
qed

end
