(* ===== verification/Directory.thy ===== *)
theory Directory
  imports File_Content
begin

text \<open>
  \<open>filesys/directory_entry.hh\<close>, \<open>raw_directory.hh\<close> and \<open>directory.cc\<close>: a directory is a table of
  entries, each a name and the sector of a file header, kept as the contents of a file. The
  abstraction of a directory is a map from names to sectors.
\<close>

section \<open>Entries\<close>

definition FILE_NAME_MAX_LEN :: nat where "FILE_NAME_MAX_LEN = 20"
definition MAX_DIR_LEVEL :: nat where "MAX_DIR_LEVEL = 10"
definition FILE_PATH_MAX_LEN :: nat where "FILE_PATH_MAX_LEN = FILE_NAME_MAX_LEN * MAX_DIR_LEVEL"

text \<open>
  An entry occupies 32 bytes: \<open>inUse\<close>, three bytes of padding, \<open>sector\<close>, the 21 bytes of \<open>name\<close>,
  \<open>isDirectory\<close>, two bytes of padding.
\<close>

record DirectoryEntry =
  inUse :: bool
  padA :: "byte list"
  entrySector :: u32
  entryName :: "byte list"
  isDirectory :: bool
  padB :: "byte list"

definition DIR_ENTRY_SIZE :: nat where "DIR_ENTRY_SIZE = 32"

definition bool_byte :: "bool \<Rightarrow> byte" where "bool_byte b = (if b then 1 else 0)"

definition entry_bytes :: "DirectoryEntry \<Rightarrow> byte list" where
  "entry_bytes e = bool_byte (inUse e) # padA e @ u32_bytes (entrySector e) @ entryName e
     @ bool_byte (isDirectory e) # padB e"

definition bytes_entry :: "byte list \<Rightarrow> DirectoryEntry" where
  "bytes_entry bs = \<lparr>inUse = (bs ! 0 \<noteq> 0), padA = slice 1 3 bs, entrySector = bytes_u32 (slice 4 4 bs),
     entryName = slice 8 21 bs, isDirectory = (bs ! 29 \<noteq> 0), padB = slice 30 2 bs\<rparr>"

record Directory =
  tableSize :: nat
  table :: "DirectoryEntry list"

text \<open>The entries that the loops over the table look at.\<close>

definition entries :: "Directory \<Rightarrow> DirectoryEntry list" where
  "entries d = take (tableSize d) (table d)"

definition table_bytes :: "DirectoryEntry list \<Rightarrow> byte list" where
  "table_bytes es = concat (map entry_bytes es)"

fun bytes_table :: "nat \<Rightarrow> byte list \<Rightarrow> DirectoryEntry list" where
  "bytes_table 0 bs = []"
| "bytes_table (Suc n) bs = bytes_entry (take 32 bs) # bytes_table n (drop 32 bs)"

section \<open>Operations\<close>

definition Directory_new :: "(nat \<Rightarrow> byte) \<Rightarrow> nat \<Rightarrow> Directory res" where
  "Directory_new jk size' = rbind (rassert (size' > 0)) (\<lambda>_.
     Inr \<lparr>tableSize = size',
          table = map (\<lambda>e. e\<lparr>inUse := False, isDirectory := False\<rparr>)
            (bytes_table size' (fresh_bytes jk (size' * DIR_ENTRY_SIZE)))\<rparr>)"

definition Directory_FetchFrom :: "world \<Rightarrow> OpenFile \<Rightarrow> Directory \<Rightarrow> bool \<Rightarrow> (nat \<times> Directory \<times> OpenFile) res" where
  "Directory_FetchFrom w f d needTableSize =
     rbind (OpenFile_Read w f (of_nat (tableSize d * DIR_ENTRY_SIZE)) True) (\<lambda>(bs, f').
       let d1 = d\<lparr>table := bytes_table (length (table d)) (overlay (table_bytes (table d)) 0 bs)\<rparr>
       in if needTableSize
          then let n = length bs div DIR_ENTRY_SIZE in Inr (n, d1\<lparr>tableSize := n\<rparr>, f')
          else Inr (length bs, d1, f'))"

definition Directory_WriteBack :: "world \<Rightarrow> OpenFile \<Rightarrow> Directory \<Rightarrow> bool \<Rightarrow> (OpenFile \<times> world) res" where
  "Directory_WriteBack w f d firstTime =
     (let n = of_nat (tableSize d * DIR_ENTRY_SIZE); bs = table_bytes (table d) in
      if firstTime
      then rbind (OpenFile_WriteAt w f bs n 0) (\<lambda>(r, w'). Inr (f, w'))
      else rbind (OpenFile_Write w f bs n True) (\<lambda>(r, f', w'). Inr (f', w')))"

definition entry_matches :: "byte list \<Rightarrow> DirectoryEntry \<Rightarrow> bool" where
  "entry_matches nm e \<longleftrightarrow> inUse e \<and> strncmp_eq (entryName e) nm FILE_NAME_MAX_LEN"

fun FindIndex_from :: "byte list \<Rightarrow> nat \<Rightarrow> DirectoryEntry list \<Rightarrow> int" where
  "FindIndex_from nm i [] = -1"
| "FindIndex_from nm i (e # es) = (if entry_matches nm e then int i else FindIndex_from nm (Suc i) es)"

definition FindIndex :: "Directory \<Rightarrow> byte list \<Rightarrow> int" where
  "FindIndex d nm = FindIndex_from nm 0 (entries d)"

definition Directory_Find :: "Directory \<Rightarrow> byte list \<Rightarrow> int" where
  "Directory_Find d nm = (let i = FindIndex d nm in
     if i \<noteq> -1 then sint (entrySector (entries d ! nat i)) else -1)"

definition FindDir :: "Directory \<Rightarrow> byte list \<Rightarrow> bool" where
  "FindDir d nm = list_ex (\<lambda>e. entry_matches nm e \<and> isDirectory e) (entries d)"

text \<open>What \<open>Add\<close> does to the entry it uses; the name keeps its 21st byte.\<close>

definition fill_entry :: "byte list \<Rightarrow> int \<Rightarrow> bool \<Rightarrow> DirectoryEntry \<Rightarrow> DirectoryEntry" where
  "fill_entry nm newSector isDir e =
     e\<lparr>inUse := True, isDirectory := (isDir \<or> isDirectory e),
       entryName := strncpy (entryName e) nm FILE_NAME_MAX_LEN, entrySector := of_int newSector\<rparr>"

fun first_free :: "nat \<Rightarrow> DirectoryEntry list \<Rightarrow> nat option" where
  "first_free i [] = None"
| "first_free i (e # es) = (if \<not> inUse e then Some i else first_free (Suc i) es)"

text \<open>
  \<open>Add\<close>: the last component is the table size that \<open>fileSystem->SetDirectorySize\<close> is called with
  when the table has to grow. The entry added by growing comes from uninitialised memory.
\<close>

definition Directory_Add :: "(nat \<Rightarrow> byte) \<Rightarrow> Directory \<Rightarrow> byte list \<Rightarrow> int \<Rightarrow> bool \<Rightarrow> bool \<times> Directory \<times> nat option" where
  "Directory_Add jk d nm newSector isDir =
     (if FindIndex d nm \<noteq> -1 then (False, d, None)
      else case first_free 0 (entries d) of
        Some i \<Rightarrow> (True, d\<lparr>table := (table d)[i := fill_entry nm newSector isDir (table d ! i)]\<rparr>, None)
      | None \<Rightarrow>
          let newTableSize = tableSize d + 1;
              e = bytes_entry (drop (tableSize d * DIR_ENTRY_SIZE) (fresh_bytes jk (newTableSize * DIR_ENTRY_SIZE)))
          in (True, d\<lparr>table := entries d @ [fill_entry nm newSector isDir e], tableSize := newTableSize\<rparr>,
              Some newTableSize))"

definition Directory_Remove :: "Directory \<Rightarrow> byte list \<Rightarrow> bool \<times> Directory" where
  "Directory_Remove d nm = (let i = FindIndex d nm in
     if i = -1 then (False, d)
     else (True, d\<lparr>table := (table d)[nat i := (table d ! nat i)\<lparr>inUse := False, isDirectory := False\<rparr>]\<rparr>))"

text \<open>A name as \<open>printf\<close> and \<open>strlen\<close> read it: up to a zero byte, which has to be in the array.\<close>

definition printed_name :: "DirectoryEntry \<Rightarrow> byte list res" where
  "printed_name e = rbind (rcheck OutOfBounds (0 \<in> set (entryName e))) (\<lambda>_.
     Inr (cstr (length (entryName e)) (entryName e)))"

definition Directory_List :: "Directory \<Rightarrow> byte list list res" where
  "Directory_List d = rmap printed_name (filter inUse (entries d))"

text \<open>\<open>PrintNames\<close>: the bytes written to \<open>into\<close>; a directory gets a slash. The result is their number.\<close>

definition newline :: byte where "newline = 10"
definition slash :: byte where "slash = 47"

definition Directory_PrintNames :: "Directory \<Rightarrow> byte list res" where
  "Directory_PrintNames d =
     rbind (rmap (\<lambda>e. rbind (printed_name e) (\<lambda>s.
        Inr (if isDirectory e then s @ [slash, newline] else s @ [newline])))
       (filter inUse (entries d))) (\<lambda>ss. Inr (concat ss))"

text \<open>\<open>Print\<close> shows every header of the chain of every file; a cyclic chain is printed for ever.\<close>

fun Print_chain :: "nat \<Rightarrow> sectors \<Rightarrow> nat \<Rightarrow> (u32 \<times> u32 list \<times> (u32 \<times> byte list) list) list res" where
  "Print_chain 0 c s = Inl Diverges"
| "Print_chain (Suc fuel) c s =
     rbind (FileHeader_FetchFrom c s) (\<lambda>h.
     rbind (FileHeader_Print c h) (\<lambda>p.
       if nextFileHeader h = 0 then Inr [p]
       else rbind (Print_chain fuel c (unat (nextFileHeader h))) (\<lambda>ps. Inr (p # ps))))"

definition Directory_Print :: "sectors \<Rightarrow> Directory \<Rightarrow>
    (byte list \<times> u32 \<times> (u32 \<times> u32 list \<times> (u32 \<times> byte list) list) list) list res" where
  "Directory_Print c d = rmap (\<lambda>e. rbind (printed_name e) (\<lambda>s.
     rbind (Print_chain (Suc NUM_SECTORS) c (unat (entrySector e))) (\<lambda>ps. Inr (s, entrySector e, ps))))
     (filter inUse (entries d))"

section \<open>The layout of the table\<close>

definition entry_ok :: "DirectoryEntry \<Rightarrow> bool" where
  "entry_ok e \<longleftrightarrow> length (padA e) = 3 \<and> length (entryName e) = 21 \<and> length (padB e) = 2"

lemma length_entry_bytes [simp]: "entry_ok e \<Longrightarrow> length (entry_bytes e) = 32"
  by (simp add: entry_ok_def entry_bytes_def)

lemma bytes_entry_bytes [codec_simps]:
  assumes "entry_ok e"
  shows "bytes_entry (entry_bytes e @ rest) = e"
proof -
  obtain a b c where p: "padA e = [a, b, c]"
    using assms by (auto simp: entry_ok_def length_Suc_conv numeral_eq_Suc)
  have n: "length (entryName e) = 21" "length (padB e) = 2" using assms by (auto simp: entry_ok_def)
  show ?thesis
    using n p by (cases e) (auto simp: bytes_entry_def entry_bytes_def slice_def bool_byte_def nth_append
        numeral_eq_Suc simp del: length_Suc_conv)
qed

lemma table_bytes_Cons [simp]: "table_bytes (e # es) = entry_bytes e @ table_bytes es"
  by (simp add: table_bytes_def)

lemma table_bytes_Nil [simp]: "table_bytes [] = []"
  by (simp add: table_bytes_def)

lemma length_table_bytes: "\<forall>e \<in> set es. entry_ok e \<Longrightarrow> length (table_bytes es) = 32 * length es"
  by (induction es) simp_all

lemma length_bytes_table [simp]: "length (bytes_table n bs) = n"
  by (induction n arbitrary: bs) simp_all

lemma bytes_table_bytes [codec_simps]:
  "\<forall>e \<in> set es. entry_ok e \<Longrightarrow> n = length es \<Longrightarrow> bytes_table n (table_bytes es @ rest) = es"
proof (induction es arbitrary: n)
  case (Cons e es)
  then show ?case using bytes_entry_bytes [of e "[]"] by simp
qed simp

lemma bytes_entry_ok: "30 + 2 \<le> length bs \<Longrightarrow> entry_ok (bytes_entry bs)"
  by (simp add: entry_ok_def bytes_entry_def)

lemma bytes_table_ok: "32 * n \<le> length bs \<Longrightarrow> e \<in> set (bytes_table n bs) \<Longrightarrow> entry_ok e"
proof (induction n arbitrary: bs)
  case (Suc n)
  then show ?case using Suc.IH [of "drop 32 bs"] bytes_entry_ok [of "take 32 bs"] by auto
qed simp

section \<open>The directory as a map\<close>

abbreviation entry_key :: "DirectoryEntry \<Rightarrow> byte list" where
  "entry_key e \<equiv> cstr FILE_NAME_MAX_LEN (entryName e)"

definition used_entries :: "Directory \<Rightarrow> DirectoryEntry list" where
  "used_entries d = filter inUse (entries d)"

definition dir_map :: "Directory \<Rightarrow> byte list \<Rightarrow> u32 option" where
  "dir_map d = map_of (map (\<lambda>e. (entry_key e, entrySector e)) (used_entries d))"

text \<open>The table is well formed and no name is used twice.\<close>

definition dir_ok :: "Directory \<Rightarrow> bool" where
  "dir_ok d \<longleftrightarrow> tableSize d \<le> length (table d) \<and> (\<forall>e \<in> set (table d). entry_ok e)
     \<and> distinct (map entry_key (used_entries d))"

lemma length_entries: "dir_ok d \<Longrightarrow> length (entries d) = tableSize d"
  by (simp add: dir_ok_def entries_def)

lemma entry_matches_key: "is_cstring nm \<Longrightarrow> entry_matches nm e \<longleftrightarrow> inUse e \<and> entry_key e = take FILE_NAME_MAX_LEN nm"
  by (simp add: entry_matches_def strncmp_eq_def)

lemma FindIndex_from_cases:
  "(FindIndex_from nm k es = -1 \<and> (\<forall>e \<in> set es. \<not> entry_matches nm e))
    \<or> (\<exists>i < length es. FindIndex_from nm k es = int (k + i) \<and> entry_matches nm (es ! i))"
proof (induction es arbitrary: k)
  case (Cons e es)
  show ?case
  proof (cases "entry_matches nm e")
    case True
    then show ?thesis by (intro disjI2 exI [of _ 0]) simp
  next
    case False
    from Cons.IH [of "Suc k"] show ?thesis
    proof
      assume "FindIndex_from nm (Suc k) es = - 1 \<and> (\<forall>e\<in>set es. \<not> entry_matches nm e)"
      with False show ?thesis by simp
    next
      assume "\<exists>i<length es. FindIndex_from nm (Suc k) es = int (Suc k + i) \<and> entry_matches nm (es ! i)"
      then obtain i where "i < length es" "FindIndex_from nm (Suc k) es = int (Suc k + i)"
        "entry_matches nm (es ! i)" by auto
      with False show ?thesis by (intro disjI2 exI [of _ "Suc i"]) simp
    qed
  qed
qed simp

lemma dir_map_Some:
  assumes "dir_ok d"
  shows "dir_map d k = Some s \<longleftrightarrow> (\<exists>e \<in> set (entries d). inUse e \<and> entry_key e = k \<and> entrySector e = s)"
proof -
  have "distinct (map fst (map (\<lambda>e. (entry_key e, entrySector e)) (used_entries d)))"
    using assms by (simp add: dir_ok_def o_def)
  then show ?thesis unfolding dir_map_def by (auto simp: map_of_eq_Some_iff used_entries_def)
qed

lemma dir_map_None: "dir_map d k = None \<longleftrightarrow> (\<forall>e \<in> set (entries d). inUse e \<longrightarrow> entry_key e \<noteq> k)"
  by (auto simp: dir_map_def map_of_eq_None_iff used_entries_def image_image)

text \<open>\<open>FindIndex\<close> answers with the index of the entry of the name, or \<open>-1\<close> when there is none.\<close>

lemma FindIndex_map:
  assumes "is_cstring nm"
  shows "(FindIndex d nm = -1 \<and> dir_map d (take FILE_NAME_MAX_LEN nm) = None)
    \<or> (\<exists>i < length (entries d). FindIndex d nm = int i \<and> inUse (entries d ! i)
        \<and> entry_key (entries d ! i) = take FILE_NAME_MAX_LEN nm)"
  using FindIndex_from_cases [of nm 0 "entries d"] assms
  by (auto simp: FindIndex_def dir_map_None entry_matches_key)

lemma Directory_Find_map:
  assumes "dir_ok d" "is_cstring nm"
  shows "Directory_Find d nm = (case dir_map d (take FILE_NAME_MAX_LEN nm) of Some s \<Rightarrow> sint s | None \<Rightarrow> -1)"
  using FindIndex_map [OF assms(2), of d]
proof
  assume "FindIndex d nm = -1 \<and> dir_map d (take FILE_NAME_MAX_LEN nm) = None"
  then show ?thesis by (simp add: Directory_Find_def)
next
  assume "\<exists>i < length (entries d). FindIndex d nm = int i \<and> inUse (entries d ! i)
      \<and> entry_key (entries d ! i) = take FILE_NAME_MAX_LEN nm"
  then obtain i where i: "i < length (entries d)" "FindIndex d nm = int i" "inUse (entries d ! i)"
    "entry_key (entries d ! i) = take FILE_NAME_MAX_LEN nm" by auto
  then have "dir_map d (take FILE_NAME_MAX_LEN nm) = Some (entrySector (entries d ! i))"
    using dir_map_Some [OF assms(1)] by (metis nth_mem)
  with i(2) show ?thesis by (simp add: Directory_Find_def)
qed

lemma first_free_cases:
  "(first_free k es = None \<and> (\<forall>e \<in> set es. inUse e))
    \<or> (\<exists>i < length es. first_free k es = Some (k + i) \<and> \<not> inUse (es ! i))"
proof (induction es arbitrary: k)
  case (Cons e es)
  show ?case
  proof (cases "inUse e")
    case False
    then show ?thesis by (intro disjI2 exI [of _ 0]) simp
  next
    case True
    from Cons.IH [of "Suc k"] show ?thesis
    proof
      assume "first_free (Suc k) es = None \<and> (\<forall>e \<in> set es. inUse e)"
      with True show ?thesis by simp
    next
      assume "\<exists>i<length es. first_free (Suc k) es = Some (Suc k + i) \<and> \<not> inUse (es ! i)"
      then obtain i where "i < length es" "first_free (Suc k) es = Some (Suc k + i)" "\<not> inUse (es ! i)" by auto
      with True show ?thesis by (intro disjI2 exI [of _ "Suc i"]) simp
    qed
  qed
qed simp

lemma filter_update_free:
  assumes "i < length es" "\<not> P (es ! i)" "P x"
  shows "filter P (es[i := x]) = filter P (take i es) @ x # filter P (drop (Suc i) es)"
    and "filter P es = filter P (take i es) @ filter P (drop (Suc i) es)"
proof -
  show "filter P (es[i := x]) = filter P (take i es) @ x # filter P (drop (Suc i) es)"
    using assms by (simp add: upd_conv_take_nth_drop)
  have "es = take i es @ es ! i # drop (Suc i) es" using assms(1) by (simp add: id_take_nth_drop)
  then show "filter P es = filter P (take i es) @ filter P (drop (Suc i) es)"
    using assms(2) by (metis filter.simps(2) filter_append)
qed

lemma fill_entry_ok:
  assumes "entry_ok e" "is_cstring nm"
  shows "entry_ok (fill_entry nm s isDir e)" "inUse (fill_entry nm s isDir e)"
    "entry_key (fill_entry nm s isDir e) = take FILE_NAME_MAX_LEN nm"
    "entrySector (fill_entry nm s isDir e) = of_int s"
  using assms by (simp_all add: entry_ok_def fill_entry_def FILE_NAME_MAX_LEN_def)

lemma map_of_insert: "k \<notin> fst ` set xs \<Longrightarrow> map_of (xs @ (k, v) # ys) = (map_of (xs @ ys))(k \<mapsto> v)"
  by (induction xs) (auto simp: fun_upd_twist)

lemma Directory_Add_new:
  assumes "dir_ok d" "is_cstring nm" "dir_map d (take FILE_NAME_MAX_LEN nm) = None"
  shows "\<exists>d' sz. Directory_Add jk d nm newSector isDir = (True, d', sz) \<and> dir_ok d'
    \<and> dir_map d' = (dir_map d)(take FILE_NAME_MAX_LEN nm \<mapsto> of_int newSector)
    \<and> sz = (if tableSize d' = tableSize d then None else Some (tableSize d'))
    \<and> tableSize d' = (if \<forall>e \<in> set (entries d). inUse e then tableSize d + 1 else tableSize d)"
proof -
  let ?k = "take FILE_NAME_MAX_LEN nm"
  have nf: "FindIndex d nm = -1"
    using FindIndex_map [OF assms(2), of d] assms(3) by (auto simp: dir_map_None)
  have fresh: "?k \<notin> entry_key ` set (used_entries d)"
    using assms(3) by (auto simp: dir_map_None used_entries_def)
  have ok: "tableSize d \<le> length (table d)" "\<forall>e \<in> set (table d). entry_ok e"
    "distinct (map entry_key (used_entries d))" using assms(1) by (auto simp: dir_ok_def)
  let ?p = "\<lambda>e. (entry_key e, entrySector e)"
  from first_free_cases [of 0 "entries d"] show ?thesis
  proof
    assume full: "first_free 0 (entries d) = None \<and> (\<forall>e \<in> set (entries d). inUse e)"
    let ?e = "bytes_entry (drop (tableSize d * DIR_ENTRY_SIZE)
      (fresh_bytes jk ((tableSize d + 1) * DIR_ENTRY_SIZE)))"
    let ?n = "fill_entry nm newSector isDir ?e"
    let ?d = "d\<lparr>table := entries d @ [?n], tableSize := tableSize d + 1\<rparr>"
    have eok: "entry_ok ?e" by (rule bytes_entry_ok) (simp add: DIR_ENTRY_SIZE_def)
    have len: "length (entries d) = tableSize d" using length_entries [OF assms(1)] .
    have ent: "entries ?d = entries d @ [?n]" using len by (simp add: entries_def)
    have us: "used_entries ?d = used_entries d @ [?n]"
      using fill_entry_ok(2) [OF eok assms(2)] unfolding used_entries_def ent by simp
    have "dir_ok ?d"
      using ok fresh us fill_entry_ok [OF eok assms(2)] len
      by (auto simp: dir_ok_def entries_def dest: in_set_takeD)
    moreover have "dir_map ?d = (dir_map d)(?k \<mapsto> of_int newSector)"
      unfolding dir_map_def us
      using map_of_insert [of ?k "map ?p (used_entries d)" "of_int newSector" "[]"] ok(3) fresh
        fill_entry_ok [OF eok assms(2)]
      by (auto simp: o_def image_image)
    ultimately show ?thesis using full nf by (auto simp: Directory_Add_def Let_def)
  next
    assume "\<exists>i<length (entries d). first_free 0 (entries d) = Some (0 + i) \<and> \<not> inUse (entries d ! i)"
    then obtain i where i: "i < length (entries d)" "first_free 0 (entries d) = Some i"
      "\<not> inUse (entries d ! i)" by auto
    have it: "i < tableSize d" "i < length (table d)" "entries d ! i = table d ! i"
      using i(1) ok(1) by (auto simp: entries_def)
    let ?n = "fill_entry nm newSector isDir (table d ! i)"
    let ?d = "d\<lparr>table := (table d)[i := ?n]\<rparr>"
    have eok: "entry_ok (table d ! i)" using ok(2) it(2) by simp
    note fe = fill_entry_ok [OF eok assms(2), of newSector isDir]
    have ent: "entries ?d = (entries d)[i := ?n]" by (simp add: entries_def take_update_swap)
    note fu = filter_update_free [of i "entries d" inUse ?n, OF i(1,3) fe(2)]
    let ?a = "filter inUse (take i (entries d))" and ?b = "filter inUse (drop (Suc i) (entries d))"
    have us: "used_entries ?d = ?a @ ?n # ?b" "used_entries d = ?a @ ?b"
      using fu by (simp_all add: used_entries_def ent)
    have "dir_ok ?d"
      using ok fresh us fe it by (auto simp: dir_ok_def dest: set_update_subset_insert [THEN subsetD])
    moreover have "dir_map ?d = (dir_map d)(?k \<mapsto> of_int newSector)"
      unfolding dir_map_def us
      using map_of_insert [of ?k "map ?p ?a" "of_int newSector" "map ?p ?b"] ok(3) fresh fe us(2)
      by (simp add: o_def image_image image_Un)
    moreover have "\<not> (\<forall>e \<in> set (entries d). inUse e)" using i(1,3) nth_mem by blast
    ultimately show ?thesis using i(2) nf by (auto simp: Directory_Add_def)
  qed
qed

lemma Directory_Add_present:
  assumes "is_cstring nm" "dir_map d (take FILE_NAME_MAX_LEN nm) \<noteq> None"
  shows "Directory_Add jk d nm newSector isDir = (False, d, None)"
  using FindIndex_map [OF assms(1), of d] assms(2) by (auto simp: Directory_Add_def)

lemma filter_map_of_remove:
  assumes "distinct (map fst (xs @ (k, v) # ys))"
  shows "map_of (xs @ ys) = (map_of (xs @ (k, v) # ys))(k := None)"
  using assms
  by (induction xs) (auto simp: fun_eq_iff map_of_eq_None_iff fun_upd_twist)

lemma Directory_Remove_present:
  assumes "dir_ok d" "is_cstring nm" "dir_map d (take FILE_NAME_MAX_LEN nm) \<noteq> None"
  shows "\<exists>d'. Directory_Remove d nm = (True, d') \<and> dir_ok d' \<and> tableSize d' = tableSize d
    \<and> dir_map d' = (dir_map d)(take FILE_NAME_MAX_LEN nm := None)"
proof -
  let ?k = "take FILE_NAME_MAX_LEN nm"
  from FindIndex_map [OF assms(2), of d] assms(3) obtain i where
    i: "i < length (entries d)" "FindIndex d nm = int i" "inUse (entries d ! i)" "entry_key (entries d ! i) = ?k"
    by auto
  have ok: "tableSize d \<le> length (table d)" "\<forall>e \<in> set (table d). entry_ok e"
    "distinct (map entry_key (used_entries d))" using assms(1) by (auto simp: dir_ok_def)
  have it: "i < length (table d)" "entries d ! i = table d ! i"
    using i(1) ok(1) by (auto simp: entries_def)
  let ?e = "(table d ! i)\<lparr>inUse := False, isDirectory := False\<rparr>"
  let ?d = "d\<lparr>table := (table d)[i := ?e]\<rparr>"
  have ent: "entries ?d = (entries d)[i := ?e]" by (simp add: entries_def take_update_swap)
  let ?a = "filter inUse (take i (entries d))" and ?b = "filter inUse (drop (Suc i) (entries d))"
  have "entries d = take i (entries d) @ entries d ! i # drop (Suc i) (entries d)"
    using i(1) by (simp add: id_take_nth_drop)
  then have u: "used_entries d = ?a @ entries d ! i # ?b"
    unfolding used_entries_def using i(3) by (metis filter.simps(2) filter_append)
  have u': "used_entries ?d = ?a @ ?b"
    unfolding used_entries_def ent using i(1) by (simp add: upd_conv_take_nth_drop)
  have "entry_ok (table d ! i)" using ok(2) it(1) by simp
  then have "entry_ok ?e" by (simp add: entry_ok_def)
  then have "dir_ok ?d" using ok u u' by (auto simp: dir_ok_def dest: set_update_subset_insert [THEN subsetD])
  moreover have "dir_map ?d = (dir_map d)(?k := None)"
    unfolding dir_map_def u u'
    using filter_map_of_remove [of "map (\<lambda>e. (entry_key e, entrySector e)) ?a" ?k "entrySector (entries d ! i)"
        "map (\<lambda>e. (entry_key e, entrySector e)) ?b"] ok(3) u i(4)
    by (simp add: o_def)
  ultimately show ?thesis using i(2) by (simp add: Directory_Remove_def Let_def)
qed

lemma Directory_Remove_absent:
  assumes "is_cstring nm" "dir_map d (take FILE_NAME_MAX_LEN nm) = None"
  shows "Directory_Remove d nm = (False, d)"
  using FindIndex_map [OF assms(1), of d] assms(2) by (auto simp: Directory_Remove_def Let_def dir_map_None)

lemma Directory_new_ok:
  assumes "0 < n"
  shows "\<exists>d. Directory_new jk n = Inr d \<and> dir_ok d \<and> tableSize d = n \<and> length (table d) = n \<and> dir_map d = Map.empty"
proof -
  let ?d = "\<lparr>tableSize = n, table = map (\<lambda>e. e\<lparr>inUse := False, isDirectory := False\<rparr>)
      (bytes_table n (fresh_bytes jk (n * DIR_ENTRY_SIZE)))\<rparr>"
  have "used_entries ?d = []" by (auto simp: used_entries_def entries_def filter_empty_conv dest: in_set_takeD)
  moreover have "\<forall>e \<in> set (table ?d). entry_ok e"
    using bytes_table_ok [of n "fresh_bytes jk (n * DIR_ENTRY_SIZE)"] by (auto simp: DIR_ENTRY_SIZE_def entry_ok_def)
  ultimately have "dir_ok ?d" "dir_map ?d = Map.empty" by (simp_all add: dir_ok_def dir_map_def)
  with assms show ?thesis by (simp add: Directory_new_def)
qed

section \<open>The contract of a table of names\<close>

locale name_table =
  fixes ok :: "'d \<Rightarrow> bool"
    and mp :: "'d \<Rightarrow> byte list \<Rightarrow> u32 option"
    and key :: "byte list \<Rightarrow> byte list"
    and valid :: "byte list \<Rightarrow> bool"
    and look :: "'d \<Rightarrow> byte list \<Rightarrow> int"
    and add :: "'d \<Rightarrow> byte list \<Rightarrow> int \<Rightarrow> bool \<times> 'd"
    and rem :: "'d \<Rightarrow> byte list \<Rightarrow> bool \<times> 'd"
  assumes look_law: "ok d \<Longrightarrow> valid nm \<Longrightarrow> look d nm = (case mp d (key nm) of Some s \<Rightarrow> sint s | None \<Rightarrow> -1)"
    and add_new: "ok d \<Longrightarrow> valid nm \<Longrightarrow> mp d (key nm) = None \<Longrightarrow>
      \<exists>d'. add d nm s = (True, d') \<and> ok d' \<and> mp d' = (mp d)(key nm \<mapsto> of_int s)"
    and add_old: "ok d \<Longrightarrow> valid nm \<Longrightarrow> mp d (key nm) \<noteq> None \<Longrightarrow> add d nm s = (False, d)"
    and rem_old: "ok d \<Longrightarrow> valid nm \<Longrightarrow> mp d (key nm) \<noteq> None \<Longrightarrow>
      \<exists>d'. rem d nm = (True, d') \<and> ok d' \<and> mp d' = (mp d)(key nm := None)"
    and rem_new: "ok d \<Longrightarrow> valid nm \<Longrightarrow> mp d (key nm) = None \<Longrightarrow> rem d nm = (False, d)"
begin

lemma look_after_add:
  assumes "ok d" "valid nm" "valid nm'" "mp d (key nm) = None" "add d nm s = (b, d')"
  shows "b \<and> ok d' \<and> look d' nm' = (if key nm' = key nm then sint (of_int s :: u32) else look d nm')"
  using add_new [OF assms(1,2,4), of s] assms look_law by auto

lemma look_after_rem:
  assumes "ok d" "valid nm" "valid nm'" "rem d nm = (b, d')"
  shows "ok d' \<and> look d' nm' = (if key nm' = key nm then -1 else look d nm') \<and> (b \<longleftrightarrow> mp d (key nm) \<noteq> None)"
  using rem_old [OF assms(1,2)] rem_new [OF assms(1,2)] assms look_law by (cases "mp d (key nm)") auto

text \<open>Adding a new name and removing it again gives back the same map; adding twice fails.\<close>

lemma add_rem:
  assumes "ok d" "valid nm" "mp d (key nm) = None" "add d nm s = (b, d')"
  shows "\<exists>d''. rem d' nm = (True, d'') \<and> ok d'' \<and> mp d'' = mp d \<and> add d' nm t = (False, d')"
proof -
  from add_new [OF assms(1-3), of s] assms(4) have
    d': "ok d'" "mp d' = (mp d)(key nm \<mapsto> of_int s)" by auto
  then have "mp d' (key nm) \<noteq> None" by simp
  from rem_old [OF d'(1) assms(2) this] add_old [OF d'(1) assms(2) this] d'(2) assms(3) show ?thesis
    by (auto simp: fun_eq_iff)
qed

end

interpretation dir: name_table dir_ok dir_map "take FILE_NAME_MAX_LEN" is_cstring Directory_Find
  "\<lambda>d nm s. (fst (Directory_Add jk d nm s isDir), fst (snd (Directory_Add jk d nm s isDir)))" Directory_Remove
  for jk isDir
proof unfold_locales
  show "dir_ok d \<Longrightarrow> is_cstring nm \<Longrightarrow> Directory_Find d nm =
      (case dir_map d (take FILE_NAME_MAX_LEN nm) of None \<Rightarrow> -1 | Some s \<Rightarrow> sint s)" for d nm
    by (rule Directory_Find_map)
  show "\<exists>d'. (fst (Directory_Add jk d nm s isDir), fst (snd (Directory_Add jk d nm s isDir))) = (True, d')
      \<and> dir_ok d' \<and> dir_map d' = (dir_map d)(take FILE_NAME_MAX_LEN nm \<mapsto> of_int s)"
    if "dir_ok d" "is_cstring nm" "dir_map d (take FILE_NAME_MAX_LEN nm) = None" for d nm s
    using Directory_Add_new [OF that, of jk s isDir] by auto
  show "(fst (Directory_Add jk d nm s isDir), fst (snd (Directory_Add jk d nm s isDir))) = (False, d)"
    if "is_cstring nm" "dir_map d (take FILE_NAME_MAX_LEN nm) \<noteq> None" for d nm s
    using Directory_Add_present [OF that] by simp
  show "\<exists>d'. Directory_Remove d nm = (True, d') \<and> dir_ok d'
      \<and> dir_map d' = (dir_map d)(take FILE_NAME_MAX_LEN nm := None)"
    if "dir_ok d" "is_cstring nm" "dir_map d (take FILE_NAME_MAX_LEN nm) \<noteq> None" for d nm
    using Directory_Remove_present [OF that] by auto
  show "Directory_Remove d nm = (False, d)"
    if "is_cstring nm" "dir_map d (take FILE_NAME_MAX_LEN nm) = None" for d nm
    using Directory_Remove_absent [OF that] .
qed

section \<open>Directories on disk\<close>

lemma unat_of_nat_small: "m < 2 ^ 32 \<Longrightarrow> unat (of_nat m :: u32) = m"
  by (simp add: unsigned_of_nat take_bit_nat_eq_self)

lemma OpenFile_Write_directory:
  "\<not> isBin f \<Longrightarrow> OpenFile_Write w f from nb True =
    OpenFile_Write w (f\<lparr>seekPosition := 0, currentSector := sector f\<rparr>) from nb False"
  by (simp add: OpenFile_Write_def Let_def)

lemma OpenFile_Read_directory:
  assumes "\<not> isBin f" "FileHeader_FetchFrom (store w) (sector f) = Inr h"
  shows "OpenFile_Read w f nb True = OpenFile_Read w (f\<lparr>hdr := h, seekPosition := 0\<rparr>) nb False"
  using assms by (simp add: OpenFile_Read_def)

lemma Directory_write_fetch:
  assumes sf: "stored_file w (sector f) h" "nextFileHeader h = 0" "\<not> isBin f"
    and lk: "writeLock (openFilesTable w (sector f)) = Some None"
    and d: "dir_ok d" "length (table d) = tableSize d" "0 < tableSize d" "tableSize d \<le> 116"
    and room: "needed_sectors h (tableSize d * 32) \<le> card ({..<NUM_SECTORS} - marked (disk_map w))"
  shows "\<exists>f' h' w'. Directory_WriteBack w f d False = Inr (f', w') \<and> sector f' = sector f
    \<and> stored_file w' (sector f) h' \<and> nextFileHeader h' = 0 \<and> openFilesTable w' = openFilesTable w
    \<and> (\<forall>d0. (\<forall>e \<in> set (table d0). entry_ok e) \<and> tableSize d0 = tableSize d \<and> length (table d0) = tableSize d \<longrightarrow>
        (\<exists>f''. Directory_FetchFrom w' f' d0 False = Inr (tableSize d * 32, d, f'')))"
proof -
  let ?n = "of_nat (tableSize d * DIR_ENTRY_SIZE) :: u32"
  let ?f = "f\<lparr>seekPosition := 0, currentSector := sector f\<rparr>"
  let ?bs = "table_bytes (table d)"
  have eok: "\<forall>e \<in> set (table d). entry_ok e" using d(1) by (simp add: dir_ok_def)
  have lb: "length ?bs = tableSize d * 32" using length_table_bytes [OF eok] d(2) by simp
  have n: "unat ?n = tableSize d * 32"
    using d(4) by (subst unat_of_nat_small) (simp_all add: DIR_ENTRY_SIZE_def)
  from OpenFile_Write_ok [of w ?f h ?n ?bs] sf lk n lb d(3,4) room obtain h' w' where
    w': "OpenFile_Write w ?f ?bs ?n False = Inr (?n, ?f\<lparr>hdr := h', seekPosition := ?n\<rparr>, w')"
      "stored_file w' (sector f) h'" "nextFileHeader h' = 0" "w' = w\<lparr>store := store w'\<rparr>"
      "file_content (store w') h' = overlay (file_content (store w) h) 0 ?bs"
    by (auto simp: NUM_DIRECT_def SECTOR_SIZE_def)
  let ?f' = "?f\<lparr>hdr := h', seekPosition := ?n\<rparr>"
  have wb: "Directory_WriteBack w f d False = Inr (?f', w')"
    using w'(1) OpenFile_Write_directory [OF sf(3)] by (simp add: Directory_WriteBack_def Let_def)
  have fh: "FileHeader_FetchFrom (store w') (sector ?f') = Inr h'" "file_ok (store w') h'"
    using w'(2) by (simp_all add: stored_file_def)
  have "slice 0 (unat ?n) (file_content (store w') h') = ?bs"
    unfolding w'(5) using n lb by (simp add: slice_def overlay_def)
  then have "\<exists>g. OpenFile_Read w' ?f' ?n True = Inr (?bs, g)"
    using OpenFile_Read_directory [OF _ fh(1)] sf(3) fh(2) w'(3) n d(3,4)
      OpenFile_Read_ok [of "?f'\<lparr>hdr := h', seekPosition := 0\<rparr>" w' ?n]
    by (simp add: disk_file_ok_def Let_def)
  then obtain g where rd: "OpenFile_Read w' ?f' ?n True = Inr (?bs, g)" ..
  have "\<exists>f''. Directory_FetchFrom w' ?f' d0 False = Inr (tableSize d * 32, d, f'')"
    if "\<forall>e \<in> set (table d0). entry_ok e" "tableSize d0 = tableSize d" "length (table d0) = tableSize d" for d0
  proof -
    have "length (table_bytes (table d0)) = length ?bs" using length_table_bytes that lb by simp
    then have "bytes_table (length (table d0)) (overlay (table_bytes (table d0)) 0 ?bs) = table d"
      using bytes_table_bytes [OF eok, of "tableSize d" "[]"] that(3) d(2) by simp
    then have "d0\<lparr>table := bytes_table (length (table d0)) (overlay (table_bytes (table d0)) 0 ?bs)\<rparr> = d"
      using that(2) by (cases d0; cases d) simp
    with rd lb that(2) show ?thesis by (simp add: Directory_FetchFrom_def Let_def)
  qed
  moreover have "openFilesTable w' = openFilesTable w"
    using arg_cong [OF w'(4), of openFilesTable] by simp
  ultimately show ?thesis using wb w'(2,3) by (intro exI [of _ ?f'] exI [of _ h'] exI [of _ w']) simp
qed

section \<open>Properties\<close>

text \<open>
  C29. A well-formed directory is a map from names, cut to 20 bytes, to sectors. \<open>Add\<close> of a name
  that is not there succeeds, growing the table by one entry exactly when all are in use, and
  afterwards \<open>Find\<close> gives the sector for that name and the old answer for every other; \<open>Add\<close> of
  a name that is there fails and changes nothing; \<open>Remove\<close> makes \<open>Find\<close> answer \<open>-1\<close> for the
  name, leaves the others, and undoes an \<open>Add\<close>. All keep names unique.
\<close>

theorem directory_add_find_remove:
  assumes "dir_ok d" "is_cstring nm" "is_cstring nm'"
  shows "(if dir_map d (take FILE_NAME_MAX_LEN nm) \<noteq> None
      then Directory_Add jk d nm s isDir = (False, d, None)
      else \<exists>d1 sz d2. Directory_Add jk d nm s isDir = (True, d1, sz) \<and> dir_ok d1
        \<and> tableSize d1 = (if \<forall>e \<in> set (entries d). inUse e then tableSize d + 1 else tableSize d)
        \<and> Directory_Find d1 nm' = (if take FILE_NAME_MAX_LEN nm' = take FILE_NAME_MAX_LEN nm
            then sint (of_int s :: u32) else Directory_Find d nm')
        \<and> Directory_Remove d1 nm = (True, d2) \<and> dir_map d2 = dir_map d)
    \<and> (\<exists>b d3. Directory_Remove d nm = (b, d3) \<and> dir_ok d3
        \<and> Directory_Find d3 nm' = (if take FILE_NAME_MAX_LEN nm' = take FILE_NAME_MAX_LEN nm
            then -1 else Directory_Find d nm'))"
proof (rule conjI)
  show "\<exists>b d3. Directory_Remove d nm = (b, d3) \<and> dir_ok d3
      \<and> Directory_Find d3 nm' = (if take FILE_NAME_MAX_LEN nm' = take FILE_NAME_MAX_LEN nm
          then -1 else Directory_Find d nm')"
    using dir.look_after_rem [OF assms] by (cases "Directory_Remove d nm") auto
next
  show "if dir_map d (take FILE_NAME_MAX_LEN nm) \<noteq> None
      then Directory_Add jk d nm s isDir = (False, d, None)
      else \<exists>d1 sz d2. Directory_Add jk d nm s isDir = (True, d1, sz) \<and> dir_ok d1
        \<and> tableSize d1 = (if \<forall>e \<in> set (entries d). inUse e then tableSize d + 1 else tableSize d)
        \<and> Directory_Find d1 nm' = (if take FILE_NAME_MAX_LEN nm' = take FILE_NAME_MAX_LEN nm
            then sint (of_int s :: u32) else Directory_Find d nm')
        \<and> Directory_Remove d1 nm = (True, d2) \<and> dir_map d2 = dir_map d"
  proof (cases "dir_map d (take FILE_NAME_MAX_LEN nm) = None")
    case False
    then show ?thesis using Directory_Add_present [OF assms(2)] by simp
  next
    case True
    from Directory_Add_new [OF assms(1,2) True, of jk s isDir] obtain d1 sz where
      d1: "Directory_Add jk d nm s isDir = (True, d1, sz)" "dir_ok d1"
        "tableSize d1 = (if \<forall>e \<in> set (entries d). inUse e then tableSize d + 1 else tableSize d)" by auto
    then have "(fst (Directory_Add jk d nm s isDir), fst (snd (Directory_Add jk d nm s isDir))) = (True, d1)"
      by simp
    from dir.look_after_add [OF assms True this] dir.add_rem [OF assms(1,2) True this] d1 True
    show ?thesis by auto
  qed
qed

text \<open>A directory of one unused entry.\<close>

definition sample_dir :: Directory where
  "sample_dir = \<lparr>tableSize = 1, table = [\<lparr>inUse = False, padA = [0, 0, 0], entrySector = 0,
     entryName = replicate 21 0, isDirectory = False, padB = [0, 0]\<rparr>]\<rparr>"

lemma sample_dir_ok: "dir_ok sample_dir" "length (table sample_dir) = tableSize sample_dir"
  "tableSize sample_dir = 1" "dir_map sample_dir = Map.empty"
  by (simp_all add: sample_dir_def dir_ok_def entry_ok_def used_entries_def entries_def dir_map_def)

theorem directory_add_find_remove_witness:
  "\<exists>d1 sz. Directory_Add (\<lambda>_. 7) sample_dir [97, 98] 9 False = (True, d1, sz) \<and> Directory_Find d1 [97, 98] = 9"
  using directory_add_find_remove [OF sample_dir_ok(1), of "[97, 98]" "[97, 98]" "\<lambda>_. 7" 9 False]
  by (auto simp: sample_dir_ok(4) is_cstring_def)

end
