(* ===== verification/File_System.thy ===== *)
theory File_System
  imports Directory
begin

text \<open>
  \<open>filesys/file_system.cc\<close>: formatting and mounting, creating, opening and removing files and
  directories, changing the current directory along a path, listing, and the consistency check.
\<close>

section \<open>State\<close>

definition FREE_MAP_SECTOR :: nat where "FREE_MAP_SECTOR = 0"
definition DIRECTORY_SECTOR :: nat where "DIRECTORY_SECTOR = 1"
definition FREE_MAP_FILE_SIZE :: nat where "FREE_MAP_FILE_SIZE = NUM_SECTORS div 8"
definition NUM_DIR_ENTRIES :: nat where "NUM_DIR_ENTRIES = 10"
definition DIRECTORY_FILE_SIZE :: nat where "DIRECTORY_FILE_SIZE = DIR_ENTRY_SIZE * NUM_DIR_ENTRIES"

text \<open>
  The object \<open>fileSystem\<close> with the global lock \<open>filesysCreateLock\<close>; \<open>freeMapFile\<close> is in the world,
  where \<open>OpenFile::Write\<close> finds it. \<open>spaceId\<close> is the process of the current thread.
\<close>

record FileSystem =
  fsw :: world
  directoryFile :: OpenFile
  directorySize :: nat
  filesysCreateLock :: lock_ptr
  spaceId :: int

definition set_store :: "FileSystem \<Rightarrow> sectors \<Rightarrow> FileSystem" where
  "set_store fs c = fs\<lparr>fsw := (fsw fs)\<lparr>store := c\<rparr>\<rparr>"

text \<open>A header from uninitialised memory, as \<open>new FileHeader\<close> gives it.\<close>

definition raw_header :: "world \<Rightarrow> RawFileHeader" where
  "raw_header w = bytes_header (fresh_bytes (junk w) SECTOR_SIZE)"

section \<open>Formatting and mounting\<close>

text \<open>The number of entries of the directory in file \<open>f\<close>, and \<open>f\<close> after reading it.\<close>

definition read_table_size :: "world \<Rightarrow> OpenFile \<Rightarrow> (nat \<times> OpenFile) res" where
  "read_table_size w f =
     rbind (Directory_new (junk w) MAX_DIR_ENTRIES) (\<lambda>dir.
     rbind (Directory_FetchFrom w f dir True) (\<lambda>(n, dir', f'). Inr (n, f')))"

definition format_disk :: "world \<Rightarrow> (OpenFile \<times> world) res" where
  "format_disk w =
     rbind (Bitmap_new (junk w) NUM_SECTORS) (\<lambda>m0.
     rbind (Directory_new (junk w) NUM_DIR_ENTRIES) (\<lambda>dir.
     rbind (Bitmap_Mark m0 FREE_MAP_SECTOR) (\<lambda>m1.
     rbind (Bitmap_Mark m1 DIRECTORY_SECTOR) (\<lambda>m2.
     rbind (FileHeader_Allocate (raw_header w) m2 (of_nat FREE_MAP_FILE_SIZE)) (\<lambda>(ok1, mapH, m3).
     rbind (rassert ok1) (\<lambda>_.
     rbind (FileHeader_Allocate (raw_header w) m3 (of_nat DIRECTORY_FILE_SIZE)) (\<lambda>(ok2, dirH, m4).
     rbind (rassert ok2) (\<lambda>_.
     rbind (FileHeader_WriteBack (store w) (mapH\<lparr>nextFileHeader := 0\<rparr>) FREE_MAP_SECTOR) (\<lambda>c1.
     rbind (FileHeader_WriteBack c1 (dirH\<lparr>nextFileHeader := 0\<rparr>) DIRECTORY_SECTOR) (\<lambda>c2.
     rbind (OpenFile_new (w\<lparr>store := c2\<rparr>) FREE_MAP_SECTOR False) (\<lambda>(mf, w1).
     rbind (OpenFile_new w1 DIRECTORY_SECTOR False) (\<lambda>(df, w2).
     rbind (Bitmap_WriteBack (w2\<lparr>freeMapFile := mf\<rparr>) mf m4) (\<lambda>w3.
       Directory_WriteBack w3 df dir True)))))))))))))"

text \<open>The constructor. Formatting leaves \<open>directorySize\<close> as it was in the fresh object.\<close>

definition FileSystem_new :: "world \<Rightarrow> int \<Rightarrow> bool \<Rightarrow> FileSystem res" where
  "FileSystem_new w sid format =
     (if format
      then rbind (format_disk w) (\<lambda>(df, w').
             Inr \<lparr>fsw = w', directoryFile = df, directorySize = unat (bytes_u32 (fresh_bytes (junk w) 4)),
                  filesysCreateLock = Some None, spaceId = sid\<rparr>)
      else rbind (OpenFile_new w FREE_MAP_SECTOR False) (\<lambda>(mf, w1).
           rbind (OpenFile_new (w1\<lparr>freeMapFile := mf\<rparr>) DIRECTORY_SECTOR False) (\<lambda>(df, w2).
           rbind (read_table_size w2 df) (\<lambda>(n, df').
             Inr \<lparr>fsw = w2, directoryFile = df', directorySize = n,
                  filesysCreateLock = Some None, spaceId = sid\<rparr>))))"

definition FileSystem_delete :: "FileSystem \<Rightarrow> world res" where
  "FileSystem_delete fs = rbind (OpenFile_Close (fsw fs) (freeMapFile (fsw fs))) (\<lambda>w.
     OpenFile_Close w (directoryFile fs))"

section \<open>The current directory\<close>

definition load_dir :: "FileSystem \<Rightarrow> (Directory \<times> FileSystem) res" where
  "load_dir fs =
     rbind (Directory_new (junk (fsw fs)) (directorySize fs)) (\<lambda>dir.
     rbind (Directory_FetchFrom (fsw fs) (directoryFile fs) dir False) (\<lambda>(n, dir', f').
       Inr (dir', fs\<lparr>directoryFile := f'\<rparr>)))"

definition SetDirectorySize :: "FileSystem \<Rightarrow> nat \<Rightarrow> FileSystem" where
  "SetDirectorySize fs n = fs\<lparr>directorySize := n\<rparr>"

definition save_dir :: "FileSystem \<Rightarrow> Directory \<Rightarrow> FileSystem res" where
  "save_dir fs dir = rbind (Directory_WriteBack (fsw fs) (directoryFile fs) dir False) (\<lambda>(f', w').
     Inr (fs\<lparr>fsw := w', directoryFile := f'\<rparr>))"

text \<open>\<open>dir->Add\<close>, which sets the size of the current directory when it grows.\<close>

definition dir_add :: "FileSystem \<Rightarrow> Directory \<Rightarrow> byte list \<Rightarrow> int \<Rightarrow> bool \<Rightarrow> bool \<times> Directory \<times> FileSystem" where
  "dir_add fs dir nm s isDir = (case Directory_Add (junk (fsw fs)) dir nm s isDir of
     (b, dir', sz) \<Rightarrow> (b, dir', (case sz of None \<Rightarrow> fs | Some n \<Rightarrow> SetDirectorySize fs n)))"

text \<open>\<open>Open\<close> of a file of the Nachos disk: null when the name is absent or being removed.\<close>

definition Open_nachos :: "FileSystem \<Rightarrow> byte list \<Rightarrow> (OpenFile option \<times> FileSystem) res" where
  "Open_nachos fs nm =
     rbind (load_dir fs) (\<lambda>(dir, fs1).
       let s = Directory_Find dir nm in
       if s \<ge> 0
       then rbind (rcheck OutOfBounds (nat s < NUM_SECTORS)) (\<lambda>_.
            if \<not> removing (openFilesTable (fsw fs1) (nat s))
            then rbind (OpenFile_new (fsw fs1) (nat s) False) (\<lambda>(f, w'). Inr (Some f, fs1\<lparr>fsw := w'\<rparr>))
            else Inr (None, fs1))
       else Inr (None, fs1))"

text \<open>
  Host files are opened by the host system: \<open>hostOpen\<close> gives the descriptor, \<open>-1\<close> on failure.
\<close>

definition FileSystem_Open :: "(byte list \<Rightarrow> int) \<Rightarrow> FileSystem \<Rightarrow> byte list \<Rightarrow> bool \<Rightarrow> (OpenFile option \<times> FileSystem) res" where
  "FileSystem_Open hostOpen fs nm isBinF =
     (if isBinF
      then (if hostOpen nm = -1 then Inr (None, fs)
            else rbind (OpenFile_new (fsw fs) (nat (hostOpen nm)) True) (\<lambda>(f, w'). Inr (Some f, fs\<lparr>fsw := w'\<rparr>)))
      else Open_nachos fs nm)"

definition close_file :: "FileSystem \<Rightarrow> OpenFile \<Rightarrow> FileSystem res" where
  "close_file fs f = rbind (OpenFile_Close (fsw fs) f) (\<lambda>w'. Inr (fs\<lparr>fsw := w'\<rparr>))"

section \<open>Changing the directory\<close>

text \<open>\<open>strtok_r\<close> with the delimiter \<open>/\<close>: the non-empty pieces between slashes.\<close>

fun split_at :: "byte \<Rightarrow> byte list \<Rightarrow> byte list \<Rightarrow> byte list list" where
  "split_at x acc [] = (if acc = [] then [] else [acc])"
| "split_at x acc (b # bs) =
     (if b = x then (if acc = [] then split_at x [] bs else acc # split_at x [] bs)
      else split_at x (acc @ [b]) bs)"

definition path_tokens :: "byte list \<Rightarrow> byte list list" where
  "path_tokens p = split_at slash [] p"

text \<open>Make the directory \<open>nm\<close> of the current one the current one, and close the old.\<close>

definition enter_dir :: "FileSystem \<Rightarrow> byte list \<Rightarrow> FileSystem res" where
  "enter_dir fs nm =
     rbind (Open_nachos fs nm) (\<lambda>(fo, fs1).
       let old = directoryFile fs1 in
       case fo of
         None \<Rightarrow> rbind (close_file fs1 old) (\<lambda>_. Inl AssertFailed)
       | Some f \<Rightarrow> rbind (close_file (fs1\<lparr>directoryFile := f\<rparr>) old) (\<lambda>fs2.
           rbind (read_table_size (fsw fs2) (directoryFile fs2)) (\<lambda>(n, f').
             Inr (fs2\<lparr>directoryFile := f', directorySize := n\<rparr>))))"

fun walk_dirs :: "FileSystem \<Rightarrow> Directory \<Rightarrow> byte list list \<Rightarrow> (bool \<times> FileSystem) res" where
  "walk_dirs fs currDir [] = Inr (True, fs)"
| "walk_dirs fs currDir (t # ts) =
     (if FindDir currDir t
      then rbind (enter_dir fs t) (\<lambda>fs1. rbind (load_dir fs1) (\<lambda>(dir, fs2). walk_dirs fs2 dir ts))
      else Inr (False, fs))"

definition ChangeDir :: "FileSystem \<Rightarrow> byte list \<Rightarrow> bool \<Rightarrow> (bool \<times> FileSystem) res" where
  "ChangeDir fs nm onlyChange =
     (if nm \<noteq> [] \<and> hd nm = slash
      then let tokens = path_tokens (tl nm); backupDirFile = directoryFile fs; backupDirSize = directorySize fs in
        rbind (rcheck OutOfBounds (length (tl nm) < FILE_PATH_MAX_LEN)) (\<lambda>_.
        rbind (rcheck OutOfBounds (length tokens < MAX_DIR_LEVEL)) (\<lambda>_.
        rbind (OpenFile_new (fsw fs) DIRECTORY_SECTOR False) (\<lambda>(root, w1).
        rbind (read_table_size w1 root) (\<lambda>(n, root').
        rbind (load_dir (fs\<lparr>fsw := w1, directoryFile := root', directorySize := n\<rparr>)) (\<lambda>(currDir, fs1).
        rbind (walk_dirs fs1 currDir tokens) (\<lambda>(success, fs2).
          if \<not> success then Inr (False, fs2\<lparr>directoryFile := backupDirFile, directorySize := backupDirSize\<rparr>)
          else if onlyChange then rbind (close_file fs2 backupDirFile) (\<lambda>fs3. Inr (True, fs3))
          else Inr (True, fs2)))))))
      else rbind (load_dir fs) (\<lambda>(dir, fs1).
        if FindDir dir nm then rbind (enter_dir fs1 nm) (\<lambda>fs2. Inr (True, fs2)) else Inr (False, fs1)))"

section \<open>Creating\<close>

definition createLock_Acquire :: "FileSystem \<Rightarrow> FileSystem res" where
  "createLock_Acquire fs = rbind (lock_acquire (currentThread (fsw fs)) (filesysCreateLock fs)) (\<lambda>l.
     Inr (fs\<lparr>filesysCreateLock := l\<rparr>))"

definition createLock_Release :: "FileSystem \<Rightarrow> FileSystem res" where
  "createLock_Release fs = rbind (lock_release (currentThread (fsw fs)) (filesysCreateLock fs)) (\<lambda>l.
     Inr (fs\<lparr>filesysCreateLock := l\<rparr>))"

text \<open>The entry of a new file in the table of open files.\<close>

definition fresh_entry :: "oft_entry \<Rightarrow> oft_entry" where
  "fresh_entry e = e\<lparr>removed := False, removing := False, removeLock := Some None, writeLock := None,
     closeLock := None, openCount := 0\<rparr>"

text \<open>The last slash of an absolute path, as the loops in \<open>Create\<close> and \<open>CreateDir\<close> find it.\<close>

definition last_slash :: "byte list \<Rightarrow> nat" where
  "last_slash nm = (let is = filter (\<lambda>i. nm ! i = slash) [1..<length nm] in if is = [] then 0 else last is)"

text \<open>
  Creation in the current directory: the part of \<open>Create\<close> and \<open>CreateDir\<close> between the path and
  the clean-up. The second result of \<open>create_dir_here\<close> says that \<open>CreateDir\<close> returns early, without
  the clean-up.
\<close>

definition create_here :: "FileSystem \<Rightarrow> byte list \<Rightarrow> (bool \<times> FileSystem) res" where
  "create_here fs nm =
     rbind (load_dir fs) (\<lambda>(dir, fs1).
       if Directory_Find dir nm \<noteq> -1 then Inr (False, fs1)
       else rbind (fetch_freeMap (fsw fs1)) (\<lambda>bm.
            rbind (Bitmap_Find bm) (\<lambda>(s, bm1).
              case dir_add fs1 dir nm s False of (added, dir1, fs2) \<Rightarrow>
              if \<not> added \<or> s = -1 then Inr (False, fs2)
              else rbind (FileHeader_WriteBack (store (fsw fs2)) (new_header (junk (fsw fs2))) (nat s)) (\<lambda>c.
                   rbind (Bitmap_WriteBack (fsw (set_store fs2 c)) (freeMapFile (fsw fs2)) bm1) (\<lambda>w1.
                   rbind (save_dir (fs2\<lparr>fsw := w1\<rparr>) dir1) (\<lambda>fs3.
                     Inr (True, fs3\<lparr>fsw := oft_update (fsw fs3) (nat s) fresh_entry\<rparr>)))))))"

definition create_dir_here :: "FileSystem \<Rightarrow> byte list \<Rightarrow> (bool \<times> bool \<times> FileSystem) res" where
  "create_dir_here fs nm =
     rbind (load_dir fs) (\<lambda>(dir, fs1).
       if Directory_Find dir nm \<noteq> -1 then Inr (False, False, fs1)
       else rbind (fetch_freeMap (fsw fs1)) (\<lambda>bm.
            rbind (Bitmap_Find bm) (\<lambda>(s, bm1).
              case dir_add fs1 dir nm s True of (added, dir1, fs2) \<Rightarrow>
              if \<not> added \<or> s = -1 then Inr (False, False, fs2)
              else rbind (FileHeader_Allocate (new_header (junk (fsw fs2))) bm1 (of_nat DIRECTORY_FILE_SIZE))
                     (\<lambda>(success, h, bm2).
                   if \<not> success then Inr (False, True, fs2)
                   else rbind (FileHeader_WriteBack (store (fsw fs2)) h (nat s)) (\<lambda>c.
                        rbind (Bitmap_WriteBack (fsw (set_store fs2 c)) (freeMapFile (fsw fs2)) bm2) (\<lambda>w1.
                        rbind (Directory_new (junk w1) NUM_DIR_ENTRIES) (\<lambda>newDir.
                        rbind (OpenFile_new w1 (nat s) False) (\<lambda>(nf, w2).
                        rbind (Directory_WriteBack w2 nf newDir True) (\<lambda>(nf', w3).
                        rbind (save_dir (fs2\<lparr>fsw := w3\<rparr>) dir1) (\<lambda>fs3.
                          Inr (True, False, fs3\<lparr>fsw := oft_update (fsw fs3) (nat s) fresh_entry\<rparr>)))))))))))"

text \<open>Back to the directory that was current before the path was followed.\<close>

definition restore_dir :: "FileSystem \<Rightarrow> OpenFile \<Rightarrow> FileSystem res" where
  "restore_dir fs backup =
     rbind (close_file (fs\<lparr>directoryFile := backup\<rparr>) (directoryFile fs)) (\<lambda>fs1.
     rbind (read_table_size (fsw fs1) (directoryFile fs1)) (\<lambda>(n, f').
       Inr (fs1\<lparr>directoryFile := f', directorySize := n\<rparr>)))"

text \<open>
  The path of \<open>Create\<close> and \<open>CreateDir\<close>: for an absolute name, go to its directory. Returns the name
  in that directory and the directory file to come back to.
\<close>

definition goto_parent :: "FileSystem \<Rightarrow> byte list \<Rightarrow> ((byte list \<times> OpenFile option) option \<times> FileSystem) res" where
  "goto_parent fs nm =
     (if nm \<noteq> [] \<and> hd nm = slash
      then if length nm = 1 then Inr (None, fs)
           else rbind (rcheck OutOfBounds (length nm < FILE_PATH_MAX_LEN)) (\<lambda>_.
             let k = last_slash nm; parent = take k nm in
             rbind (ChangeDir fs (if parent = [] then [slash] else parent) False) (\<lambda>(ok, fs1).
               if ok then Inr (Some (drop (k + 1) nm, Some (directoryFile fs)), fs1) else Inr (None, fs1)))
      else Inr (Some (nm, None), fs))"

definition FileSystem_Create :: "(byte list \<Rightarrow> int) \<Rightarrow> FileSystem \<Rightarrow> byte list \<Rightarrow> bool \<Rightarrow> (bool \<times> FileSystem) res" where
  "FileSystem_Create hostCreate fs nm isBinF =
     (if isBinF then Inr (hostCreate nm \<noteq> -1, fs)
      else rbind (createLock_Acquire fs) (\<lambda>fs1.
           rbind (goto_parent fs1 nm) (\<lambda>(target, fs2).
             case target of
               None \<Rightarrow> rbind (createLock_Release fs2) (\<lambda>fs3. Inr (False, fs3))
             | Some (base, backup) \<Rightarrow>
                 rbind (create_here fs2 base) (\<lambda>(success, fs3).
                 rbind (case backup of None \<Rightarrow> Inr fs3 | Some b \<Rightarrow> restore_dir fs3 b) (\<lambda>fs4.
                 rbind (createLock_Release fs4) (\<lambda>fs5. Inr (success, fs5)))))))"

definition FileSystem_CreateDir :: "FileSystem \<Rightarrow> byte list \<Rightarrow> (bool \<times> FileSystem) res" where
  "FileSystem_CreateDir fs nm =
     rbind (createLock_Acquire fs) (\<lambda>fs1.
     rbind (goto_parent fs1 nm) (\<lambda>(target, fs2).
       case target of
         None \<Rightarrow> rbind (createLock_Release fs2) (\<lambda>fs3. Inr (False, fs3))
       | Some (base, backup) \<Rightarrow>
           rbind (create_dir_here fs2 base) (\<lambda>(success, early, fs3).
             if early then rbind (createLock_Release fs3) (\<lambda>fs4. Inr (False, fs4))
             else rbind (case backup of None \<Rightarrow> Inr fs3 | Some b \<Rightarrow> restore_dir fs3 b) (\<lambda>fs4.
                  rbind (createLock_Release fs4) (\<lambda>fs5. Inr (success, fs5))))))"

section \<open>Removing\<close>

text \<open>The headers that follow the first one, with their data and their own sectors.\<close>

fun remove_chain :: "nat \<Rightarrow> sectors \<Rightarrow> u32 \<Rightarrow> bitmap \<Rightarrow> bitmap res" where
  "remove_chain fuel c nextSector bm =
     (if nextSector = 0 then Inr bm
      else (case fuel of 0 \<Rightarrow> Inl Diverges
        | Suc fuel' \<Rightarrow>
            rbind (FileHeader_FetchFrom c (unat nextSector)) (\<lambda>h.
            rbind (FileHeader_Deallocate h bm) (\<lambda>bm1.
            rbind (Bitmap_Clear bm1 (unat nextSector)) (\<lambda>bm2.
              remove_chain fuel' c (nextFileHeader h) bm2)))))"

definition removeLock_Acquire :: "world \<Rightarrow> nat \<Rightarrow> world res" where
  "removeLock_Acquire w s = (if removeLock (openFilesTable w s) = None then Inr w
     else rbind (lock_acquire (currentThread w) (removeLock (openFilesTable w s))) (\<lambda>l.
       Inr (oft_update w s (\<lambda>e. e\<lparr>removeLock := l\<rparr>))))"

definition removeLock_Release :: "world \<Rightarrow> nat \<Rightarrow> world res" where
  "removeLock_Release w s = rbind (lock_release (currentThread w) (removeLock (openFilesTable w s))) (\<lambda>l.
     Inr (oft_update w s (\<lambda>e. e\<lparr>removeLock := l\<rparr>)))"

text \<open>
  \<open>Remove\<close>. A file that is open makes the caller wait for its last close, which is another
  thread's step.
\<close>

definition FileSystem_Remove :: "FileSystem \<Rightarrow> byte list \<Rightarrow> bool \<Rightarrow> (bool \<times> FileSystem) res" where
  "FileSystem_Remove fs nm callingFromRemoveDir =
     rbind (load_dir fs) (\<lambda>(dir, fs1).
       let s = Directory_Find dir nm; n = nat s in
       if s = -1 then Inr (False, fs1)
       else if FindDir dir nm \<and> \<not> callingFromRemoveDir then Inr (False, fs1)
       else rbind (rcheck OutOfBounds (0 \<le> s \<and> n < NUM_SECTORS)) (\<lambda>_.
            rbind (removeLock_Acquire (fsw fs1) n) (\<lambda>w1.
            if removed (openFilesTable w1 n)
            then rbind (removeLock_Release w1 n) (\<lambda>w2. Inr (False, fs1\<lparr>fsw := w2\<rparr>))
            else rbind (FileHeader_FetchFrom (store w1) n) (\<lambda>h.
                 rbind (fetch_freeMap w1) (\<lambda>bm.
                 let w2 = oft_update w1 n (\<lambda>e. e\<lparr>removing := True, removerSpaceId := spaceId fs1\<rparr>) in
                 rbind (rcheck WouldBlock (openCount (openFilesTable w2 n) = 0)) (\<lambda>_.
                 rbind (FileHeader_Deallocate h bm) (\<lambda>bm1.
                 rbind (Bitmap_Clear bm1 n) (\<lambda>bm2.
                 rbind (remove_chain (Suc NUM_SECTORS) (store w2) (nextFileHeader h) bm2) (\<lambda>bm3.
                 let dir1 = snd (Directory_Remove dir nm) in
                 rbind (Bitmap_WriteBack w2 (freeMapFile w2) bm3) (\<lambda>w3.
                 rbind (save_dir (fs1\<lparr>fsw := w3\<rparr>) dir1) (\<lambda>fs2.
                 let w4 = oft_update (fsw fs2) n (\<lambda>e. e\<lparr>removed := True\<rparr>) in
                 rbind (if removeLock (openFilesTable w4 n) = None then Inr w4 else removeLock_Release w4 n) (\<lambda>w5.
                   Inr (True, fs2\<lparr>fsw := oft_update w5 n (\<lambda>e. e\<lparr>removing := False\<rparr>)\<rparr>)))))))))))))"

text \<open>\<open>RemoveDir\<close> answers 0, -1 for a directory in use and -2 for one that is not there.\<close>

definition FileSystem_RemoveDir :: "FileSystem \<Rightarrow> byte list \<Rightarrow> (int \<times> FileSystem) res" where
  "FileSystem_RemoveDir fs nm =
     rbind (load_dir fs) (\<lambda>(dir, fs1).
       if FindDir dir nm
       then rbind (Open_nachos fs1 nm) (\<lambda>(fo, fs2).
              case fo of None \<Rightarrow> Inl AssertFailed
              | Some f \<Rightarrow>
                  rbind (read_table_size (fsw fs2) f) (\<lambda>(n, f1).
                  rbind (Directory_new (junk (fsw fs2)) n) (\<lambda>d0.
                  rbind (Directory_FetchFrom (fsw fs2) f1 d0 False) (\<lambda>(r, d1, f2).
                  rbind (close_file fs2 f2) (\<lambda>fs3.
                    if list_ex inUse (take n (table d1)) then Inr (-1, fs3)
                    else rbind (FileSystem_Remove fs3 nm True) (\<lambda>(b, fs4). Inr (0, fs4)))))))
       else Inr (-2, fs1))"

section \<open>Listing\<close>

definition FileSystem_Ls :: "FileSystem \<Rightarrow> (byte list \<times> FileSystem) res" where
  "FileSystem_Ls fs = rbind (load_dir fs) (\<lambda>(dir, fs1).
     rbind (Directory_PrintNames dir) (\<lambda>out. Inr (out, fs1)))"

definition FileSystem_List :: "FileSystem \<Rightarrow> (byte list list \<times> FileSystem) res" where
  "FileSystem_List fs = rbind (load_dir fs) (\<lambda>(dir, fs1).
     rbind (Directory_List dir) (\<lambda>out. Inr (out, fs1)))"

text \<open>\<open>PrintDir\<close>: every file of the current directory with its headers and contents.\<close>

definition FileSystem_PrintDir :: "FileSystem \<Rightarrow>
    ((byte list \<times> u32 \<times> (u32 \<times> u32 list \<times> (u32 \<times> byte list) list) list) list \<times> FileSystem) res" where
  "FileSystem_PrintDir fs = rbind (load_dir fs) (\<lambda>(dir, fs1).
     rbind (Directory_Print (store (fsw fs1)) dir) (\<lambda>out. Inr (out, fs1)))"

text \<open>\<open>Print\<close>: the counts, the two headers, the bitmap and the directory.\<close>

definition FileSystem_Print :: "FileSystem \<Rightarrow>
    (nat list \<times> (u32 \<times> u32 list \<times> (u32 \<times> byte list) list) list \<times> nat list
      \<times> (byte list \<times> u32 \<times> (u32 \<times> u32 list \<times> (u32 \<times> byte list) list) list) list) res" where
  "FileSystem_Print fs =
     rbind (fetch_freeMap (fsw fs)) (\<lambda>bm.
     rbind (Bitmap_CountClear bm) (\<lambda>freeSectors.
     rbind (load_dir fs) (\<lambda>(dir, fs1).
     rbind (FileHeader_FetchFrom (store (fsw fs)) FREE_MAP_SECTOR) (\<lambda>bitH.
     rbind (FileHeader_Print (store (fsw fs)) bitH) (\<lambda>p1.
     rbind (FileHeader_FetchFrom (store (fsw fs)) DIRECTORY_SECTOR) (\<lambda>dirH.
     rbind (FileHeader_Print (store (fsw fs)) dirH) (\<lambda>p2.
     rbind (Bitmap_Print bm) (\<lambda>p3.
     rbind (Directory_Print (store (fsw fs)) dir) (\<lambda>p4.
       Inr ([NUM_SECTORS, NUM_SECTORS - freeSectors, freeSectors, MAX_FILE_SIZE, NUM_DIRECT, FILE_DATA_SECTORS],
            [p1, p2], p3, p4))))))))))"

section \<open>The consistency check\<close>

definition AddToShadowBitmap :: "nat \<Rightarrow> bitmap \<Rightarrow> (bool \<times> bitmap) res" where
  "AddToShadowBitmap s m = rbind (Bitmap_Test m s) (\<lambda>t.
     if t then Inr (False, m) else rbind (Bitmap_Mark m s) (\<lambda>m'. Inr (True, m')))"

definition CheckForError :: "bool \<Rightarrow> bool" where
  "CheckForError v = (\<not> v)"

definition CheckSector :: "nat \<Rightarrow> bitmap \<Rightarrow> (bool \<times> bitmap) res" where
  "CheckSector s shadowMap =
     (if CheckForError (s < NUM_SECTORS) then Inr (True, shadowMap)
      else rbind (AddToShadowBitmap s shadowMap) (\<lambda>(b, m). Inr (CheckForError b, m)))"

fun CheckSectors :: "RawFileHeader \<Rightarrow> nat list \<Rightarrow> bool \<Rightarrow> bitmap \<Rightarrow> (bool \<times> bitmap) res" where
  "CheckSectors rh [] error m = Inr (error, m)"
| "CheckSectors rh (i # is) error m =
     rbind (dataSector_at rh i) (\<lambda>s.
     rbind (CheckSector (unat s) m) (\<lambda>(e, m'). CheckSectors rh is (error \<or> e) m'))"

definition CheckFileHeader :: "RawFileHeader \<Rightarrow> bitmap \<Rightarrow> (bool \<times> bitmap) res" where
  "CheckFileHeader rh shadowMap =
     (let error = CheckForError (numSectors rh \<ge> DivRoundUp (numBytes rh) (of_nat SECTOR_SIZE))
                  \<or> CheckForError (unat (numSectors rh) < NUM_DIRECT)
      in CheckSectors rh [0..<unat (numSectors rh)] error shadowMap)"

fun CheckBitmaps_from :: "bitmap \<Rightarrow> bitmap \<Rightarrow> nat list \<Rightarrow> bool \<Rightarrow> bool res" where
  "CheckBitmaps_from freeMap shadowMap [] error = Inr error"
| "CheckBitmaps_from freeMap shadowMap (i # is) error =
     rbind (Bitmap_Test freeMap i) (\<lambda>a. rbind (Bitmap_Test shadowMap i) (\<lambda>b.
       CheckBitmaps_from freeMap shadowMap is (error \<or> CheckForError (a = b))))"

definition CheckBitmaps :: "bitmap \<Rightarrow> bitmap \<Rightarrow> bool res" where
  "CheckBitmaps freeMap shadowMap = CheckBitmaps_from freeMap shadowMap [0..<NUM_SECTORS] False"

text \<open>The check of one entry in use; \<open>known\<close> are the names seen so far.\<close>

definition CheckEntry :: "sectors \<Rightarrow> DirectoryEntry \<Rightarrow> byte list list \<Rightarrow> bool \<Rightarrow> bitmap \<Rightarrow>
    (byte list list \<times> bool \<times> bitmap) res" where
  "CheckEntry c e known error m =
     rbind (printed_name e) (\<lambda>nm.
       let tooLong = length nm > FILE_NAME_MAX_LEN; repeated = nm \<in> set known;
           known' = (if repeated then known else known @ [nm])
       in rbind (CheckSector (unat (entrySector e)) m) (\<lambda>(e1, m1).
          rbind (FileHeader_FetchFrom c (unat (entrySector e))) (\<lambda>h.
          rbind (CheckFileHeader h m1) (\<lambda>(e2, m2).
            Inr (known', error \<or> tooLong \<or> repeated \<or> e1 \<or> e2, m2)))))"

fun CheckEntries :: "sectors \<Rightarrow> Directory \<Rightarrow> nat list \<Rightarrow> byte list list \<Rightarrow> bool \<Rightarrow> bitmap \<Rightarrow> (bool \<times> bitmap) res" where
  "CheckEntries c rd [] known error m = Inr (error, m)"
| "CheckEntries c rd (i # is) known error m =
     rbind (rcheck OutOfBounds (i < length (table rd))) (\<lambda>_.
       if inUse (table rd ! i)
       then rbind (CheckEntry c (table rd ! i) known error m) (\<lambda>(known', error', m').
              CheckEntries c rd is known' error' m')
       else CheckEntries c rd is known error m)"

definition CheckDirectory :: "sectors \<Rightarrow> Directory \<Rightarrow> bitmap \<Rightarrow> (bool \<times> bitmap) res" where
  "CheckDirectory c rd shadowMap = CheckEntries c rd [0..<NUM_DIR_ENTRIES] [] False shadowMap"

definition FileSystem_Check :: "FileSystem \<Rightarrow> (bool \<times> FileSystem) res" where
  "FileSystem_Check fs =
     rbind (Bitmap_new (junk (fsw fs)) NUM_SECTORS) (\<lambda>m0.
     rbind (Bitmap_Mark m0 FREE_MAP_SECTOR) (\<lambda>m1.
     rbind (Bitmap_Mark m1 DIRECTORY_SECTOR) (\<lambda>m2.
     rbind (FileHeader_FetchFrom (store (fsw fs)) FREE_MAP_SECTOR) (\<lambda>bitRH.
     let error1 = CheckForError (unat (numBytes bitRH) = FREE_MAP_FILE_SIZE)
                  \<or> CheckForError (unat (numSectors bitRH) = FREE_MAP_FILE_SIZE div SECTOR_SIZE) in
     rbind (CheckFileHeader bitRH m2) (\<lambda>(e2, m3).
     rbind (FileHeader_FetchFrom (store (fsw fs)) DIRECTORY_SECTOR) (\<lambda>dirRH.
     rbind (CheckFileHeader dirRH m3) (\<lambda>(e3, m4).
     rbind (fetch_freeMap (fsw fs)) (\<lambda>freeMap.
     rbind (load_dir fs) (\<lambda>(dir, fs1).
     rbind (CheckDirectory (store (fsw fs1)) dir m4) (\<lambda>(e4, m5).
     rbind (CheckBitmaps freeMap m5) (\<lambda>e5.
       Inr (\<not> (error1 \<or> e2 \<or> e3 \<or> e4 \<or> e5), fs1))))))))))))"

declare remove_chain.simps [simp del]

end
