(* ===== verification/Address_Space.thy ===== *)
theory Address_Space
  imports File_System Table Mips_Exec
begin

text \<open>
  \<open>userprog/executable.cc\<close>, \<open>userprog/address_space.cc\<close> and the page fault handler of
  \<open>userprog/exception.cc\<close>: executables in NOFF format, the address space of a process with its page
  table, and demand loading with a swap file per process and replacement of the least recently used
  page.
\<close>

section \<open>Executables\<close>

definition NOFF_MAGIC :: u32 where "NOFF_MAGIC = 0xBADFAD"

record noffSegment =
  virtualAddr :: u32
  inFileAddr :: u32
  segSize :: u32

record noffHeader =
  noffMagic :: u32
  code :: noffSegment
  initData :: noffSegment
  uninitData :: noffSegment

definition NOFF_HEADER_SIZE :: nat where "NOFF_HEADER_SIZE = 40"

text \<open>The header as the 40 bytes of its image.\<close>

definition words_segment :: "u32 list \<Rightarrow> noffSegment" where
  "words_segment ws = \<lparr>virtualAddr = ws ! 0, inFileAddr = ws ! 1, segSize = ws ! 2\<rparr>"

definition bytes_noff :: "byte list \<Rightarrow> noffHeader" where
  "bytes_noff bs = (let ws = bytes_words 10 bs in
     \<lparr>noffMagic = ws ! 0, code = words_segment (drop 1 ws), initData = words_segment (drop 4 ws),
      uninitData = words_segment (drop 7 ws)\<rparr>)"

record Executable =
  exe_file :: OpenFile
  header :: noffHeader

definition SwapSegment :: "noffSegment \<Rightarrow> noffSegment" where
  "SwapSegment g = \<lparr>virtualAddr = WordToHost (virtualAddr g), inFileAddr = WordToHost (inFileAddr g),
     segSize = WordToHost (segSize g)\<rparr>"

definition SwapHeader :: "noffHeader \<Rightarrow> noffHeader" where
  "SwapHeader h = \<lparr>noffMagic = WordToHost (noffMagic h), code = SwapSegment (code h),
     initData = SwapSegment (initData h), uninitData = SwapSegment (uninitData h)\<rparr>"

text \<open>A short file leaves the rest of the header as the object was allocated.\<close>

definition Executable_new :: "world \<Rightarrow> OpenFile \<Rightarrow> Executable res" where
  "Executable_new w f =
     rbind (OpenFile_ReadAt w f (of_nat NOFF_HEADER_SIZE) 0) (\<lambda>bs.
       Inr \<lparr>exe_file = f, header = bytes_noff (overlay (fresh_bytes (junk w) NOFF_HEADER_SIZE) 0 bs)\<rparr>)"

definition CheckMagic :: "Executable \<Rightarrow> bool \<times> Executable" where
  "CheckMagic e = (let e1 = (if noffMagic (header e) \<noteq> NOFF_MAGIC \<and> WordToHost (noffMagic (header e)) = NOFF_MAGIC
       then e\<lparr>header := SwapHeader (header e)\<rparr> else e)
     in (noffMagic (header e1) = NOFF_MAGIC, e1))"

definition GetSize :: "Executable \<Rightarrow> u32" where
  "GetSize e = segSize (code (header e)) + segSize (initData (header e)) + segSize (uninitData (header e))"

definition GetCodeSize :: "Executable \<Rightarrow> u32" where "GetCodeSize e = segSize (code (header e))"
definition GetInitDataSize :: "Executable \<Rightarrow> u32" where "GetInitDataSize e = segSize (initData (header e))"
definition GetUninitDataSize :: "Executable \<Rightarrow> u32" where "GetUninitDataSize e = segSize (uninitData (header e))"
definition GetCodeAddr :: "Executable \<Rightarrow> u32" where "GetCodeAddr e = virtualAddr (code (header e))"
definition GetInitDataAddr :: "Executable \<Rightarrow> u32" where "GetInitDataAddr e = virtualAddr (initData (header e))"

text \<open>The bytes read, which the callers store.\<close>

definition ReadCodeBlock :: "world \<Rightarrow> Executable \<Rightarrow> u32 \<Rightarrow> u32 \<Rightarrow> byte list res" where
  "ReadCodeBlock w e n offset =
     rbind (rassert (n \<noteq> 0)) (\<lambda>_.
     rbind (rassert (offset < segSize (code (header e)))) (\<lambda>_.
       OpenFile_ReadAt w (exe_file e) n (inFileAddr (code (header e)) + offset)))"

definition ReadDataBlock :: "world \<Rightarrow> Executable \<Rightarrow> u32 \<Rightarrow> u32 \<Rightarrow> byte list res" where
  "ReadDataBlock w e n offset =
     rbind (rassert (n \<noteq> 0)) (\<lambda>_.
     rbind (rassert (offset < segSize (initData (header e)))) (\<lambda>_.
       OpenFile_ReadAt w (exe_file e) n (inFileAddr (initData (header e)) + offset)))"

section \<open>State\<close>

definition USER_STACK_SIZE :: nat where "USER_STACK_SIZE = 2048"
definition INT_MAX :: u32 where "INT_MAX = 0x7FFFFFFF"
definition UINT_MAX :: u32 where "UINT_MAX = 0xFFFFFFFF"

abbreviation page_bytes :: u32 where "page_bytes \<equiv> of_nat PAGE_SIZE"

record AddressSpace =
  codeSize :: u32
  initDataSize :: u32
  dataVirtualAddr :: u32
  openSwapFile :: OpenFile
  addressSpaceId :: int
  exeFile :: OpenFile
  pages :: "TranslationEntry list"
  numPages :: u32

text \<open>
  The machine with the globals of the kernel that this code works on. Threads are numbers;
  \<open>spaces t\<close> is the object behind \<open>space\<close> of thread \<open>t\<close>, none when the pointer is null or the thread
  has been deleted, and \<open>runningProcesses\<close> is the table of threads. A thread also has its saved user
  registers and its table of open files, where the console's two entries are null. The synchronous
  console is the characters still to be read and those written; \<open>freshThread\<close> numbers new threads.
\<close>

record vmachine = Machine +
  addressesBitMap :: bitmap
  spaces :: "nat \<Rightarrow> AddressSpace option"
  runningProcesses :: "nat table"
  thisThread :: nat
  numFaults :: "nat \<Rightarrow> 64 word"
  fileSystem :: FileSystem
  userRegisters :: "nat \<Rightarrow> u32 list"
  openedFilesTable :: "nat \<Rightarrow> OpenFile option table"
  consoleIn :: "byte list"
  consoleOut :: "byte list"
  freshThread :: nat

abbreviation disk_world :: "vmachine \<Rightarrow> world" where
  "disk_world s \<equiv> fsw (fileSystem s)"

definition set_world :: "vmachine \<Rightarrow> world \<Rightarrow> vmachine" where
  "set_world s w = s\<lparr>fileSystem := (fileSystem s)\<lparr>fsw := w\<rparr>\<rparr>"

text \<open>Accesses through pointers: the space of a thread, an entry of its page table, main memory.\<close>

definition the_space :: "nat \<Rightarrow> vmachine \<Rightarrow> AddressSpace res" where
  "the_space t s = (case spaces s t of None \<Rightarrow> Inl NullDeref | Some sp \<Rightarrow> Inr sp)"

definition getPageTableEntry :: "nat \<Rightarrow> u32 \<Rightarrow> vmachine \<Rightarrow> TranslationEntry res" where
  "getPageTableEntry t vpn s =
     rbind (the_space t s) (\<lambda>sp. rbind (rcheck OutOfBounds (unat vpn < length (pages sp))) (\<lambda>_.
       Inr (pages sp ! unat vpn)))"

definition set_page :: "nat \<Rightarrow> u32 \<Rightarrow> TranslationEntry \<Rightarrow> vmachine \<Rightarrow> vmachine res" where
  "set_page t vpn e s =
     rbind (the_space t s) (\<lambda>sp. rbind (rcheck OutOfBounds (unat vpn < length (pages sp))) (\<lambda>_.
       Inr (s\<lparr>spaces := (spaces s)(t \<mapsto> sp\<lparr>pages := (pages sp)[unat vpn := e]\<rparr>)\<rparr>)))"

definition set_mem :: "nat \<Rightarrow> byte list \<Rightarrow> vmachine \<Rightarrow> vmachine res" where
  "set_mem p bs s = rbind (rcheck OutOfBounds (p + length bs \<le> length (mainMemory (mmu s)))) (\<lambda>_.
     Inr (s\<lparr>mmu := (mmu s)\<lparr>mainMemory := overlay (mainMemory (mmu s)) p bs\<rparr>\<rparr>))"

definition core_at :: "u32 \<Rightarrow> vmachine \<Rightarrow> CoreMapEntry res" where
  "core_at f s = rbind (rcheck OutOfBounds (unat f < length (coreMap (mmu s)))) (\<lambda>_. Inr (coreMap (mmu s) ! unat f))"

definition set_core :: "u32 \<Rightarrow> CoreMapEntry \<Rightarrow> vmachine \<Rightarrow> vmachine" where
  "set_core f c s = s\<lparr>mmu := (mmu s)\<lparr>coreMap := (coreMap (mmu s))[unat f := c]\<rparr>\<rparr>"

definition tlb_at :: "nat \<Rightarrow> vmachine \<Rightarrow> TranslationEntry res" where
  "tlb_at i s = (case tlb (mmu s) of None \<Rightarrow> Inl NullDeref
     | Some es \<Rightarrow> rbind (rcheck OutOfBounds (i < length es)) (\<lambda>_. Inr (es ! i)))"

definition set_tlb :: "nat \<Rightarrow> TranslationEntry \<Rightarrow> vmachine \<Rightarrow> vmachine" where
  "set_tlb i e s = s\<lparr>mmu := (mmu s)\<lparr>tlb := map_option (\<lambda>es. es[i := e]) (tlb (mmu s))\<rparr>\<rparr>"

section \<open>Address spaces\<close>

text \<open>\<open>sprintf (swapFile, "userprog/SWAP/SWAP.%d", spaceId)\<close>.\<close>

fun decimal :: "nat \<Rightarrow> byte list" where
  "decimal n = (if n < 10 then [48 + of_nat n] else decimal (n div 10) @ [48 + of_nat (n mod 10)])"

definition swap_name :: "int \<Rightarrow> byte list" where
  "swap_name i = map (\<lambda>c. of_nat (of_char c)) ''userprog/SWAP/SWAP.''
     @ (if i < 0 then 45 # decimal (nat (- i)) else decimal (nat i))"

text \<open>
  The constructor; \<open>hostCreate\<close> and \<open>hostOpen\<close> stand for the host's file operations. A failure to
  create the swap file is only reported.
\<close>

definition fresh_page :: "nat \<Rightarrow> TranslationEntry" where
  "fresh_page i = \<lparr>virtualPage = of_nat i, physicalPage = INT_MAX, valid = False, readOnly = False,
     useBit = False, dirty = False\<rparr>"

definition AddressSpace_new ::
  "(byte list \<Rightarrow> int) \<Rightarrow> (byte list \<Rightarrow> int) \<Rightarrow> OpenFile option \<Rightarrow> int \<Rightarrow> FileSystem \<Rightarrow> (AddressSpace \<times> FileSystem) res" where
  "AddressSpace_new hostCreate hostOpen executable_file sid fs =
     (case executable_file of None \<Rightarrow> Inl AssertFailed | Some ef \<Rightarrow>
      rbind (FileSystem_Create hostCreate fs (swap_name sid) True) (\<lambda>(created, fs1).
      rbind (FileSystem_Open hostOpen fs1 (swap_name sid) True) (\<lambda>(swapFile, fs2).
      case swapFile of None \<Rightarrow> Inl AssertFailed | Some swap \<Rightarrow>
      rbind (Executable_new (fsw fs2) ef) (\<lambda>exe.
        let (isNoff, exe1) = CheckMagic exe in
        rbind (rassert isNoff) (\<lambda>_.
          let np = DivRoundUp (GetSize exe1 + of_nat USER_STACK_SIZE) page_bytes in
          Inr (\<lparr>codeSize = GetCodeSize exe1, initDataSize = GetInitDataSize exe1,
                dataVirtualAddr = GetInitDataAddr exe1, openSwapFile = swap, addressSpaceId = sid,
                exeFile = ef, pages = map fresh_page [0..<unat np], numPages = np\<rparr>, fs2))))))"

text \<open>
  What \<open>LoadPage\<close> copies from the executable into a zeroed page that starts at the virtual address
  \<open>start\<close>: the code block, always of a whole page, and the data that follows.
\<close>

definition page_image :: "world \<Rightarrow> AddressSpace \<Rightarrow> u32 \<Rightarrow> byte list \<Rightarrow> byte list res" where
  "page_image w sp start zeros =
     rbind (Executable_new w (exeFile sp)) (\<lambda>exe.
     rbind (if codeSize sp > 0 \<and> start < codeSize sp
            then rbind (ReadCodeBlock w exe page_bytes start) (\<lambda>bs.
                   Inr (if codeSize sp - start < page_bytes then codeSize sp - start else page_bytes, overlay zeros 0 bs))
            else Inr (0, zeros)) (\<lambda>(got, buf).
       let dataEnd = dataVirtualAddr sp + initDataSize sp in
       if initDataSize sp > 0 \<and> start + got < dataEnd \<and> got \<noteq> page_bytes
       then let toRead = (if dataEnd - (start + got) < page_bytes - got then dataEnd - (start + got) else page_bytes - got)
            in rbind (ReadDataBlock w exe toRead (if got \<noteq> 0 then 0 else start - codeSize sp)) (\<lambda>bs.
                 Inr (overlay buf (unat got) bs))
       else Inr buf))"

definition LoadPage :: "nat \<Rightarrow> u32 \<Rightarrow> u32 \<Rightarrow> vmachine \<Rightarrow> vmachine res" where
  "LoadPage t vpnAddress frame s =
     rbind (rassert (frame \<noteq> INT_MAX)) (\<lambda>_.
     rbind (the_space t s) (\<lambda>sp.
       let target = unat (frame * page_bytes); vpn = vpnAddress div page_bytes; start = vpn * page_bytes in
       rbind (set_mem target (replicate PAGE_SIZE 0) s) (\<lambda>s1.
       rbind (getPageTableEntry t vpn s1) (\<lambda>e.
       rbind (if dirty e
              then rbind (OpenFile_ReadAt (disk_world s1) (openSwapFile sp) page_bytes start) (\<lambda>bs.
                     Inr (overlay (replicate PAGE_SIZE 0) 0 bs))
              else page_image (disk_world s1) sp start (replicate PAGE_SIZE 0)) (\<lambda>bs.
       rbind (set_mem target bs s1) (\<lambda>s2.
       rbind (core_at frame s2) (\<lambda>c.
         Inr (set_core frame (c\<lparr>coreSpaceId := addressSpaceId sp, coreVirtualPage := vpn\<rparr>) s2))))))))"

section \<open>Page replacement\<close>

fun least_used :: "CoreMapEntry list \<Rightarrow> nat \<Rightarrow> u32 \<Rightarrow> nat \<Rightarrow> nat" where
  "least_used [] i least victim = victim"
| "least_used (c # cs) i least victim =
     (if last_use_counter c < least then least_used cs (Suc i) (last_use_counter c) i
      else least_used cs (Suc i) least victim)"

definition PickVictim :: "vmachine \<Rightarrow> u32 \<times> vmachine" where
  "PickVictim s =
     (let m = mmu s;
          m1 = (if references_done m = UINT_MAX
                then m\<lparr>references_done := 0, coreMap := map (\<lambda>c. c\<lparr>last_use_counter := 0\<rparr>) (coreMap m)\<rparr> else m)
      in (of_nat (least_used (coreMap m1) 0 UINT_MAX 0), s\<lparr>mmu := m1\<rparr>))"

text \<open>The loop over the TLB: a valid entry of the victim frame is invalidated and copied to the page table.\<close>

fun flush_frame :: "nat list \<Rightarrow> u32 \<Rightarrow> nat \<Rightarrow> u32 \<Rightarrow> vmachine \<Rightarrow> vmachine res" where
  "flush_frame [] victim t vpn s = Inr s"
| "flush_frame (i # is) victim t vpn s =
     rbind (tlb_at i s) (\<lambda>e.
       if physicalPage e = victim \<and> valid e
       then rbind (set_page t vpn (e\<lparr>valid := False\<rparr>) (set_tlb i (e\<lparr>valid := False\<rparr>) s)) (flush_frame is victim t vpn)
       else flush_frame is victim t vpn s)"

definition EvacuatePage :: "vmachine \<Rightarrow> (u32 \<times> vmachine) res" where
  "EvacuatePage s0 =
     (let (victim, s) = PickVictim s0 in
      rbind (core_at victim s) (\<lambda>c.
      rbind (Table_HasKey (runningProcesses s) (coreSpaceId c)) (\<lambda>alive.
        if \<not> alive then Inr (victim, s)
        else rbind (Table_Get (runningProcesses s) (coreSpaceId c)) (\<lambda>t.
             rbind (flush_frame [0..<TLB_SIZE] victim t (coreVirtualPage c) s) (\<lambda>s1.
             rbind (getPageTableEntry t (coreVirtualPage c) s1) (\<lambda>e.
             rbind (if dirty e
                    then rbind (the_space t s1) (\<lambda>sp.
                         rbind (OpenFile_WriteAt (disk_world s1) (openSwapFile sp)
                                  (slice (unat (victim * page_bytes)) PAGE_SIZE (mainMemory (mmu s1)))
                                  page_bytes (coreVirtualPage c * page_bytes)) (\<lambda>(n, w).
                           Inr (set_world s1 w)))
                    else Inr s1) (\<lambda>s2.
             rbind (set_page t (coreVirtualPage c) (e\<lparr>physicalPage := INT_MAX, valid := False\<rparr>) s2) (\<lambda>s3.
               Inr (victim, s3)))))))))"

text \<open>The destructor of the space of thread \<open>t\<close>.\<close>

fun release_pages :: "TranslationEntry list \<Rightarrow> vmachine \<Rightarrow> vmachine res" where
  "release_pages [] s = Inr s"
| "release_pages (e # es) s =
     (if physicalPage e = INT_MAX then release_pages es s
      else rbind (Bitmap_Clear (addressesBitMap s) (unat (physicalPage e))) (\<lambda>bm.
           rbind (set_mem (unat (physicalPage e * page_bytes)) (replicate PAGE_SIZE 0) (s\<lparr>addressesBitMap := bm\<rparr>))
             (release_pages es)))"

definition AddressSpace_delete :: "nat \<Rightarrow> vmachine \<Rightarrow> vmachine res" where
  "AddressSpace_delete t s =
     rbind (the_space t s) (\<lambda>sp.
     rbind (release_pages (pages sp) s) (\<lambda>s1.
     rbind (OpenFile_Close (disk_world s1) (exeFile sp)) (\<lambda>w.
       Inr ((set_world s1 w)\<lparr>spaces := (spaces s1)(t := None)\<rparr>))))"

fun zero_registers :: "nat list \<Rightarrow> vmachine \<Rightarrow> vmachine res" where
  "zero_registers [] s = Inr s"
| "zero_registers (i # is) s = rbind (WriteRegister s i 0) (zero_registers is)"

definition InitRegisters :: "nat \<Rightarrow> vmachine \<Rightarrow> vmachine res" where
  "InitRegisters t s =
     rbind (the_space t s) (\<lambda>sp.
     rbind (zero_registers [0..<NUM_TOTAL_REGS] s) (\<lambda>s1.
     rbind (WriteRegister s1 PC_REG 0) (\<lambda>s2.
     rbind (WriteRegister s2 NEXT_PC_REG 4) (\<lambda>s3.
       WriteRegister s3 STACK_REG (numPages sp * page_bytes - 16)))))"

text \<open>Saving the TLB before another thread runs; the core map gives the virtual page of a frame.\<close>

fun SaveState_loop :: "nat list \<Rightarrow> nat \<Rightarrow> vmachine \<Rightarrow> vmachine res" where
  "SaveState_loop [] t s = Inr s"
| "SaveState_loop (i # is) t s =
     rbind (tlb_at i s) (\<lambda>e.
       if valid e
       then rbind (core_at (physicalPage e) s) (\<lambda>c.
            rbind (set_page t (coreVirtualPage c) (e\<lparr>valid := False\<rparr>) (set_tlb i (e\<lparr>valid := False\<rparr>) s))
              (SaveState_loop is t))
       else SaveState_loop is t s)"

definition SaveState :: "nat \<Rightarrow> vmachine \<Rightarrow> vmachine res" where
  "SaveState t s = SaveState_loop [0..<TLB_SIZE] t s"

definition RestoreState :: "vmachine \<Rightarrow> vmachine" where
  "RestoreState s = s\<lparr>mmu := (mmu s)\<lparr>tlb := map_option (map (\<lambda>e. e\<lparr>valid := False\<rparr>)) (tlb (mmu s))\<rparr>\<rparr>"

section \<open>Exceptions\<close>

definition IncrementPC :: "vmachine \<Rightarrow> vmachine res" where
  "IncrementPC s =
     rbind (ReadRegister s PC_REG) (\<lambda>pc.
     rbind (WriteRegister s PREV_PC_REG pc) (\<lambda>s1.
     rbind (ReadRegister s1 NEXT_PC_REG) (\<lambda>npc.
     rbind (WriteRegister s1 PC_REG npc) (\<lambda>s2. WriteRegister s2 NEXT_PC_REG (npc + 4)))))"

definition DefaultHandler :: "ExceptionType \<Rightarrow> vmachine \<Rightarrow> vmachine res" where
  "DefaultHandler et s = rbind (ReadRegister s 2) (\<lambda>arg. Inl AssertFailed)"

text \<open>A frame for a page that is not in memory: a free one, or that of the least recently used page.\<close>

definition take_frame :: "vmachine \<Rightarrow> (u32 \<times> vmachine) res" where
  "take_frame s =
     rbind (Bitmap_Find (addressesBitMap s)) (\<lambda>(possibleFrame, bm).
       let s1 = s\<lparr>addressesBitMap := bm\<rparr> in
       if possibleFrame = -1 then EvacuatePage s1 else Inr (of_int possibleFrame, s1))"

definition TLBPageFaultHandler :: "ExceptionType \<Rightarrow> vmachine \<Rightarrow> vmachine res" where
  "TLBPageFaultHandler exc s0 =
     rbind (ReadRegister s0 BAD_VADDR_REG) (\<lambda>vpnAddress.
       let vpn = vpnAddress div page_bytes; t = thisThread s0 in
       rbind (getPageTableEntry t vpn s0) (\<lambda>e0.
       rbind (set_page t vpn (e0\<lparr>valid := True\<rparr>) s0) (\<lambda>s1.
       rbind (if physicalPage e0 = INT_MAX
              then rbind (take_frame s1) (\<lambda>(frame, s2).
                   rbind (getPageTableEntry t vpn s2) (\<lambda>e2.
                   rbind (set_page t vpn (e2\<lparr>physicalPage := frame\<rparr>) s2) (\<lambda>s3.
                     let s4 = s3\<lparr>mmu := (mmu s3)\<lparr>references_done := references_done (mmu s3) + 1\<rparr>\<rparr> in
                     rbind (core_at frame s4) (\<lambda>c.
                       LoadPage t vpnAddress frame (set_core frame (c\<lparr>last_use_counter := references_done (mmu s4)\<rparr>) s4)))))
              else Inr s1) (\<lambda>s5.
         let i = unat (numFaults s5 t mod of_nat TLB_SIZE) in
         rbind (tlb_at i s5) (\<lambda>old.
         rbind (if valid old
                then set_page t (virtualPage old) (old\<lparr>valid := False\<rparr>) (set_tlb i (old\<lparr>valid := False\<rparr>) s5)
                else Inr s5) (\<lambda>s6.
         rbind (getPageTableEntry t vpn s6) (\<lambda>e6.
           Inr ((set_tlb i e6 s6)\<lparr>numFaults := (numFaults s6)(t := numFaults s6 t + 1)\<rparr>))))))))"

end
