(* ===== verification/Virtual_Memory.thy ===== *)
theory Virtual_Memory
  imports Address_Space Mips_Run
begin

text \<open>
  The address spaces of \<open>Address_Space\<close> give every process a memory of its own: the invariant that
  ties page tables, TLB, core map, frame bitmap and swap files together, the proof that the page
  fault handler, the eviction of pages and context switches keep it and never change what a process
  sees, and reads and writes of user memory as accesses to a flat array of bytes.
\<close>

section \<open>The view of a process\<close>

definition npages :: "vmachine \<Rightarrow> nat \<Rightarrow> nat" where
  "npages s t = (case spaces s t of None \<Rightarrow> 0 | Some sp \<Rightarrow> length (pages sp))"

abbreviation the_sp :: "vmachine \<Rightarrow> nat \<Rightarrow> AddressSpace" where
  "the_sp s t \<equiv> the (spaces s t)"

definition pg :: "vmachine \<Rightarrow> nat \<Rightarrow> nat \<Rightarrow> TranslationEntry" where
  "pg s t v = pages (the_sp s t) ! v"

text \<open>A space without its page table: what the handlers never change.\<close>

definition static :: "vmachine \<Rightarrow> nat \<Rightarrow> AddressSpace option" where
  "static s t = map_option (\<lambda>sp. sp\<lparr>pages := []\<rparr>) (spaces s t)"

abbreviation st :: "vmachine \<Rightarrow> nat \<Rightarrow> AddressSpace" where
  "st s t \<equiv> the (static s t)"

definition swap :: "vmachine \<Rightarrow> nat \<Rightarrow> byte list" where
  "swap s t = hostFiles (disk_world s) (hostFd (openSwapFile (st s t)))"

text \<open>The page as the executable has it.\<close>

definition init_res :: "vmachine \<Rightarrow> nat \<Rightarrow> nat \<Rightarrow> byte list res" where
  "init_res s t v = page_image (disk_world s) (st s t) (of_nat v * page_bytes) (replicate PAGE_SIZE 0)"

definition init_page :: "vmachine \<Rightarrow> nat \<Rightarrow> nat \<Rightarrow> byte list" where
  "init_page s t v = (case init_res s t v of Inr bs \<Rightarrow> bs | Inl _ \<Rightarrow> [])"

definition resid :: "vmachine \<Rightarrow> nat \<Rightarrow> nat \<Rightarrow> bool" where
  "resid s t v \<longleftrightarrow> v < npages s t \<and> physicalPage (pg s t v) \<noteq> INT_MAX"

abbreviation frame :: "vmachine \<Rightarrow> nat \<Rightarrow> nat \<Rightarrow> nat" where
  "frame s t v \<equiv> unat (physicalPage (pg s t v))"

abbreviation tlbs :: "vmachine \<Rightarrow> TranslationEntry list" where
  "tlbs s \<equiv> the (tlb (mmu s))"

abbreviation mem :: "vmachine \<Rightarrow> byte list" where
  "mem s \<equiv> mainMemory (mmu s)"

text \<open>A page has been written to since it was first loaded; the TLB knows first.\<close>

definition is_dirty :: "vmachine \<Rightarrow> nat \<Rightarrow> nat \<Rightarrow> bool" where
  "is_dirty s t v \<longleftrightarrow> dirty (pg s t v)
     \<or> (t = thisThread s \<and> (\<exists>e \<in> set (tlbs s). valid e \<and> virtualPage e = of_nat v \<and> dirty e))"

text \<open>The content of a page as its process sees it, wherever it is.\<close>

definition vpage :: "vmachine \<Rightarrow> nat \<Rightarrow> nat \<Rightarrow> byte list" where
  "vpage s t v =
     (if physicalPage (pg s t v) \<noteq> INT_MAX then slice (frame s t v * PAGE_SIZE) PAGE_SIZE (mem s)
      else if dirty (pg s t v) then slice (v * PAGE_SIZE) PAGE_SIZE (swap s t)
      else init_page s t v)"

section \<open>The invariant\<close>

definition hw_ok :: "vmachine \<Rightarrow> bool" where
  "hw_ok s \<longleftrightarrow> pageTable (mmu s) = None \<and> tlb (mmu s) \<noteq> None \<and> length (tlbs s) = TLB_SIZE
     \<and> length (mem s) = MEMORY_SIZE \<and> length (coreMap (mmu s)) = NUM_PHYS_PAGES
     \<and> bitmap_ok (addressesBitMap s) \<and> numBits (addressesBitMap s) = NUM_PHYS_PAGES"

definition procs_ok :: "vmachine \<Rightarrow> bool" where
  "procs_ok s \<longleftrightarrow> table_ok (runningProcesses s)
     \<and> (\<forall>t. static s t \<noteq> None \<longrightarrow> table_map (runningProcesses s) (addressSpaceId (st s t)) = Some t)"

text \<open>Executables and swap files are host files, and no swap file is used twice.\<close>

definition files_ok :: "vmachine \<Rightarrow> bool" where
  "files_ok s \<longleftrightarrow> (\<forall>t. static s t \<noteq> None \<longrightarrow> isBin (exeFile (st s t)) \<and> isBin (openSwapFile (st s t))
     \<and> (\<forall>t'. static s t' \<noteq> None \<longrightarrow> hostFd (exeFile (st s t)) \<noteq> hostFd (openSwapFile (st s t'))
          \<and> (t \<noteq> t' \<longrightarrow> hostFd (openSwapFile (st s t)) \<noteq> hostFd (openSwapFile (st s t')))))"

text \<open>The bound keeps byte addresses of a space inside 32 bits.\<close>

definition MAX_PAGES :: nat where "MAX_PAGES = 33554432"

definition pages_ok :: "vmachine \<Rightarrow> bool" where
  "pages_ok s \<longleftrightarrow> (\<forall>t. npages s t \<le> MAX_PAGES) \<and> (\<forall>t v. v < npages s t \<longrightarrow>
     virtualPage (pg s t v) = of_nat v \<and> \<not> readOnly (pg s t v)
     \<and> (physicalPage (pg s t v) \<noteq> INT_MAX \<longrightarrow> frame s t v < NUM_PHYS_PAGES)
     \<and> init_res s t v = Inr (init_page s t v) \<and> length (init_page s t v) = PAGE_SIZE)"

text \<open>
  The frames in use are those of the pages in memory, apart from the frames \<open>H\<close> that have been taken
  and not filled yet; the core map names the page in a frame.
\<close>

definition owned_ok :: "vmachine \<Rightarrow> nat set \<Rightarrow> bool" where
  "owned_ok s H \<longleftrightarrow>
     (\<forall>t v. resid s t v \<longrightarrow> frame s t v \<in> marked (addressesBitMap s) - H
        \<and> coreSpaceId (coreMap (mmu s) ! frame s t v) = addressSpaceId (st s t)
        \<and> coreVirtualPage (coreMap (mmu s) ! frame s t v) = of_nat v)
     \<and> (\<forall>f \<in> marked (addressesBitMap s) - H. \<exists>t v. resid s t v \<and> frame s t v = f)"

definition cached_ok :: "vmachine \<Rightarrow> TranslationEntry \<Rightarrow> bool" where
  "cached_ok s e \<longleftrightarrow> (\<exists>v. virtualPage e = of_nat v \<and> resid s (thisThread s) v
     \<and> physicalPage e = physicalPage (pg s (thisThread s) v) \<and> \<not> readOnly e
     \<and> (dirty (pg s (thisThread s) v) \<longrightarrow> dirty e))"

definition tlb_ok :: "vmachine \<Rightarrow> bool" where
  "tlb_ok s \<longleftrightarrow> (\<forall>e \<in> set (tlbs s). valid e \<longrightarrow> cached_ok s e)
     \<and> (\<forall>i j. i < length (tlbs s) \<and> j < length (tlbs s) \<and> valid (tlbs s ! i) \<and> valid (tlbs s ! j)
          \<and> virtualPage (tlbs s ! i) = virtualPage (tlbs s ! j) \<longrightarrow> i = j)"

text \<open>A page in memory that nobody has written is as in the executable; a written one that is out is in the swap file.\<close>

definition content_ok :: "vmachine \<Rightarrow> bool" where
  "content_ok s \<longleftrightarrow> (\<forall>t v. v < npages s t \<longrightarrow>
     (if resid s t v then is_dirty s t v \<or> vpage s t v = init_page s t v
      else dirty (pg s t v) \<longrightarrow> v * PAGE_SIZE + PAGE_SIZE \<le> length (swap s t)))"

definition vm_inv :: "vmachine \<Rightarrow> nat set \<Rightarrow> bool" where
  "vm_inv s H \<longleftrightarrow> hw_ok s \<and> procs_ok s \<and> files_ok s \<and> pages_ok s \<and> owned_ok s H \<and> tlb_ok s \<and> content_ok s"

abbreviation vm_ok :: "vmachine \<Rightarrow> bool" where
  "vm_ok s \<equiv> vm_inv s {}"

lemma static_None [simp]: "static s t = None \<longleftrightarrow> spaces s t = None"
  by (simp add: static_def)

lemma npages_pos: "v < npages s t \<Longrightarrow> \<exists>sp. spaces s t = Some sp \<and> static s t = Some (sp\<lparr>pages := []\<rparr>)
    \<and> v < length (pages sp) \<and> npages s t = length (pages sp) \<and> pg s t v = pages sp ! v"
  by (auto simp: npages_def static_def pg_def split: option.splits)

lemma resid_some: "resid s t v \<Longrightarrow> v < npages s t"
  by (simp add: resid_def)

lemma unat_small: "n < 4294967296 \<Longrightarrow> unat (of_nat n :: u32) = n"
  by (simp add: unat_of_nat take_bit_eq_mod)

lemma page_bound:
  assumes "pages_ok s" "v < npages s t"
  shows "v < MAX_PAGES"
proof -
  have "npages s t \<le> MAX_PAGES" using assms(1) by (simp add: pages_ok_def)
  with assms(2) show ?thesis by linarith
qed

lemma page_index:
  assumes "pages_ok s" "v < npages s t"
  shows "unat (of_nat v :: u32) = v"
  using page_bound [OF assms] by (intro unat_small) (simp add: MAX_PAGES_def)

lemma INT_MAX_big: "unat INT_MAX = 2147483647"
  by (simp add: INT_MAX_def)

lemma resid_small:
  assumes "pages_ok s" "resid s t v"
  shows "frame s t v < NUM_PHYS_PAGES"
  using assms by (auto simp: pages_ok_def resid_def)

text \<open>No frame holds two pages.\<close>

lemma owned_core:
  assumes "owned_ok s H" "resid s t v"
  shows "frame s t v \<in> marked (addressesBitMap s)" "frame s t v \<notin> H"
    "coreSpaceId (coreMap (mmu s) ! frame s t v) = addressSpaceId (st s t)"
    "coreVirtualPage (coreMap (mmu s) ! frame s t v) = of_nat v"
  using assms by (simp_all add: owned_ok_def)

lemma frame_inj:
  assumes "procs_ok s" "pages_ok s" "owned_ok s H" "resid s t v" "resid s t' v'" "frame s t v = frame s t' v'"
  shows "t' = t \<and> v' = v"
proof -
  have id: "addressSpaceId (st s t) = addressSpaceId (st s t')" and v: "of_nat v = (of_nat v' :: u32)"
    using owned_core [OF assms(3,4)] owned_core [OF assms(3,5)] assms(6) by metis+
  have "static s t \<noteq> None" "static s t' \<noteq> None"
    using npages_pos [OF resid_some [OF assms(4)]] npages_pos [OF resid_some [OF assms(5)]] by auto
  with id have "Some t = Some t'" using assms(1) by (metis procs_ok_def)
  moreover have "v = v'"
    using v page_index [OF assms(2) resid_some] assms(4,5) by metis
  ultimately show ?thesis by simp
qed

section \<open>Updates of the state\<close>

definition put_page :: "nat \<Rightarrow> nat \<Rightarrow> TranslationEntry \<Rightarrow> vmachine \<Rightarrow> vmachine" where
  "put_page t v e s = s\<lparr>spaces := (spaces s)(t := map_option (\<lambda>sp. sp\<lparr>pages := (pages sp)[v := e]\<rparr>) (spaces s t))\<rparr>"

lemma set_page_put:
  assumes "v < npages s t" "unat u = v"
  shows "set_page t u e s = Inr (put_page t v e s)" "getPageTableEntry t u s = Inr (pg s t v)"
  using npages_pos [OF assms(1)] assms(2)
  by (auto simp: set_page_def getPageTableEntry_def the_space_def put_page_def)

lemma put_page_fields [simp]:
  "mmu (put_page t v e s) = mmu s" "registers (put_page t v e s) = registers s"
  "handlers (put_page t v e s) = handlers s" "status (put_page t v e s) = status s"
  "addressesBitMap (put_page t v e s) = addressesBitMap s" "runningProcesses (put_page t v e s) = runningProcesses s"
  "thisThread (put_page t v e s) = thisThread s" "numFaults (put_page t v e s) = numFaults s"
  "fileSystem (put_page t v e s) = fileSystem s"
  by (simp_all add: put_page_def)

lemma npages_put_page [simp]: "npages (put_page t v e s) t' = npages s t'"
  by (auto simp: npages_def put_page_def split: option.splits)

lemma static_put_page [simp]: "static (put_page t v e s) t' = static s t'"
  by (auto simp: static_def put_page_def map_option_case split: option.splits)

lemma pg_put_page:
  assumes "v < npages s t"
  shows "pg (put_page t v e s) t' v' = (if t' = t \<and> v' = v then e else pg s t' v')"
  using npages_pos [OF assms] by (auto simp: pg_def put_page_def)

text \<open>
  Two states that differ only in what the invariant does not look at: use bits, the valid bits of
  page table entries, the counters and the registers.
\<close>

definition look :: "TranslationEntry \<Rightarrow> u32 \<times> u32 \<times> bool \<times> bool" where
  "look e = (virtualPage e, physicalPage e, readOnly e, dirty e)"

lemma look_eq: "look e = look e' \<longleftrightarrow> virtualPage e = virtualPage e' \<and> physicalPage e = physicalPage e'
    \<and> readOnly e = readOnly e' \<and> dirty e = dirty e'"
  by (simp add: look_def)

definition same_view :: "vmachine \<Rightarrow> vmachine \<Rightarrow> bool" where
  "same_view s s' \<longleftrightarrow> thisThread s' = thisThread s \<and> npages s' = npages s \<and> static s' = static s
     \<and> (\<forall>t v. v < npages s t \<longrightarrow> look (pg s' t v) = look (pg s t v))
     \<and> map_option (map (\<lambda>e. (look e, valid e))) (tlb (mmu s')) = map_option (map (\<lambda>e. (look e, valid e))) (tlb (mmu s))
     \<and> pageTable (mmu s') = pageTable (mmu s) \<and> mem s' = mem s
     \<and> map (\<lambda>c. (coreSpaceId c, coreVirtualPage c)) (coreMap (mmu s'))
         = map (\<lambda>c. (coreSpaceId c, coreVirtualPage c)) (coreMap (mmu s))
     \<and> addressesBitMap s' = addressesBitMap s \<and> runningProcesses s' = runningProcesses s
     \<and> disk_world s' = disk_world s"

definition same_memory :: "vmachine \<Rightarrow> vmachine \<Rightarrow> bool" where
  "same_memory s s' \<longleftrightarrow> npages s' = npages s \<and> static s' = static s \<and> thisThread s' = thisThread s
     \<and> (\<forall>t v. v < npages s t \<longrightarrow> vpage s' t v = vpage s t v)"

lemma same_memory_refl [simp]: "same_memory s s"
  by (simp add: same_memory_def)

lemma same_memory_trans [trans]: "same_memory s s' \<Longrightarrow> same_memory s' s'' \<Longrightarrow> same_memory s s''"
  by (simp add: same_memory_def)

lemma core_view:
  assumes "map (\<lambda>c. (coreSpaceId c, coreVirtualPage c)) cs = map (\<lambda>c. (coreSpaceId c, coreVirtualPage c)) cs'"
  shows "length cs = length cs'"
    "f < length cs \<Longrightarrow> coreSpaceId (cs ! f) = coreSpaceId (cs' ! f) \<and> coreVirtualPage (cs ! f) = coreVirtualPage (cs' ! f)"
proof -
  show l: "length cs = length cs'" using assms by (rule map_eq_imp_length_eq)
  show "coreSpaceId (cs ! f) = coreSpaceId (cs' ! f) \<and> coreVirtualPage (cs ! f) = coreVirtualPage (cs' ! f)" if "f < length cs"
    using arg_cong [OF assms, of "\<lambda>xs. xs ! f"] that l by simp
qed

lemma tlb_view:
  assumes "map (\<lambda>e. (look e, valid e)) es = map (\<lambda>e. (look e, valid e)) es'"
  shows "length es = length es'" "i < length es \<Longrightarrow> look (es ! i) = look (es' ! i) \<and> valid (es ! i) = valid (es' ! i)"
proof -
  show l: "length es = length es'" using assms by (rule map_eq_imp_length_eq)
  show "look (es ! i) = look (es' ! i) \<and> valid (es ! i) = valid (es' ! i)" if "i < length es"
    using arg_cong [OF assms, of "\<lambda>xs. xs ! i"] that l by simp
qed

lemma same_view_resid:
  assumes "same_view s s'"
  shows "resid s' t v \<longleftrightarrow> resid s t v"
  using assms by (auto simp: same_view_def resid_def look_eq)

lemma same_view_init:
  assumes "same_view s s'"
  shows "init_res s' t v = init_res s t v" "init_page s' t v = init_page s t v" "swap s' t = swap s t"
  using assms by (simp_all add: same_view_def init_res_def init_page_def swap_def)

lemma same_view_vpage:
  assumes "same_view s s'" "v < npages s t"
  shows "vpage s' t v = vpage s t v"
  using assms same_view_init [OF assms(1)] by (simp add: same_view_def vpage_def look_eq)

lemma same_view_tlbs:
  assumes "same_view s s'" "tlb (mmu s) \<noteq> None"
  shows "map (\<lambda>e. (look e, valid e)) (tlbs s') = map (\<lambda>e. (look e, valid e)) (tlbs s)" "tlb (mmu s') \<noteq> None"
  using assms by (auto simp: same_view_def map_option_case split: option.splits)

lemma ex_tlb_view:
  assumes "map (\<lambda>e. (look e, valid e)) es' = map (\<lambda>e. (look e, valid e)) es" "e' \<in> set es'"
  shows "\<exists>e \<in> set es. look e' = look e \<and> valid e' = valid e"
proof -
  from assms(2) obtain i where i: "i < length es'" "e' = es' ! i" by (metis in_set_conv_nth)
  then show ?thesis using tlb_view [OF assms(1)] by (metis nth_mem)
qed

lemma dirty_tlb_view:
  assumes "map (\<lambda>e. (look e, valid e)) es' = map (\<lambda>e. (look e, valid e)) es" "e' \<in> set es'"
    "valid e'" "virtualPage e' = x" "dirty e'"
  shows "\<exists>e \<in> set es. valid e \<and> virtualPage e = x \<and> dirty e"
  using ex_tlb_view [OF assms(1,2)] assms(3-5) by (auto simp: look_eq)

lemma same_view_dirty:
  assumes "same_view s s'" "tlb (mmu s) \<noteq> None" "v < npages s t"
  shows "is_dirty s' t v = is_dirty s t v"
proof -
  note m = same_view_tlbs(1) [OF assms(1,2)]
  have "(\<exists>e \<in> set (tlbs s'). valid e \<and> virtualPage e = of_nat v \<and> dirty e)
      \<longleftrightarrow> (\<exists>e \<in> set (tlbs s). valid e \<and> virtualPage e = of_nat v \<and> dirty e)"
    using dirty_tlb_view [OF m] dirty_tlb_view [OF m [symmetric]] by blast
  then show ?thesis using assms(1,3) by (simp add: is_dirty_def same_view_def look_eq)
qed

text \<open>The ownership of frames depends on where the pages are and on the core map.\<close>

lemma owned_ok_same:
  assumes "owned_ok s H" "\<And>t v. resid s' t v = resid s t v"
    "\<And>t v. resid s t v \<Longrightarrow> frame s' t v = frame s t v
       \<and> coreSpaceId (coreMap (mmu s') ! frame s t v) = coreSpaceId (coreMap (mmu s) ! frame s t v)
       \<and> coreVirtualPage (coreMap (mmu s') ! frame s t v) = coreVirtualPage (coreMap (mmu s) ! frame s t v)"
    and "addressesBitMap s' = addressesBitMap s" "static s' = static s"
  shows "owned_ok s' H"
proof -
  have "\<exists>t w. resid s t w \<and> frame s' t w = f" if "f \<in> marked (addressesBitMap s) - H" for f
  proof -
    from assms(1) that obtain t w where r: "resid s t w" "frame s t w = f" unfolding owned_ok_def by blast
    with assms(3) have "frame s' t w = f" by simp
    with r(1) show ?thesis by blast
  qed
  then show ?thesis
    using owned_core [OF assms(1)] assms(3) unfolding owned_ok_def assms(2,4,5) by simp
qed

lemma same_view_inv:
  assumes "same_view s s'" "vm_inv s H"
  shows "vm_inv s' H \<and> same_memory s s'"
proof -
  note v = assms(1) [unfolded same_view_def]
  have hw: "tlb (mmu s) \<noteq> None" "length (coreMap (mmu s)) = NUM_PHYS_PAGES" "pages_ok s" "owned_ok s H" "tlb_ok s"
      "hw_ok s" "content_ok s"
    using assms(2) by (simp_all add: vm_inv_def hw_ok_def)
  have core: "map (\<lambda>c. (coreSpaceId c, coreVirtualPage c)) (coreMap (mmu s'))
      = map (\<lambda>c. (coreSpaceId c, coreVirtualPage c)) (coreMap (mmu s))"
    using v by blast
  note len = core_view(1) [OF core]
  note m = same_view_tlbs [OF assms(1) hw(1)]
  have "hw_ok s'" using hw(6) v m(2) tlb_view(1) [OF m(1)] len by (simp add: hw_ok_def)
  moreover have "procs_ok s'" "files_ok s'"
    using assms(2) v by (simp_all add: vm_inv_def procs_ok_def files_ok_def)
  moreover have "pages_ok s'"
    using hw(3) v same_view_init [OF assms(1)] by (simp add: pages_ok_def look_eq)
  moreover have "owned_ok s' H"
  proof (rule owned_ok_same [OF hw(4)])
    show "resid s' t w = resid s t w" for t w by (rule same_view_resid [OF assms(1)])
    show "frame s' t w = frame s t w
       \<and> coreSpaceId (coreMap (mmu s') ! frame s t w) = coreSpaceId (coreMap (mmu s) ! frame s t w)
       \<and> coreVirtualPage (coreMap (mmu s') ! frame s t w) = coreVirtualPage (coreMap (mmu s) ! frame s t w)"
      if "resid s t w" for t w
      using that v core_view(2) [OF core, of "frame s t w"] resid_small [OF hw(3) that] len hw(2)
      by (simp add: resid_def look_eq)
  qed (use v in blast)+
  moreover have "tlb_ok s'"
  proof -
    have "cached_ok s' e'" if e': "e' \<in> set (tlbs s')" "valid e'" for e'
    proof -
      from ex_tlb_view [OF m(1) e'(1)] obtain e where e: "e \<in> set (tlbs s)" "look e' = look e" "valid e" using e'(2) by auto
      then obtain w where "virtualPage e = of_nat w" "resid s (thisThread s) w"
        "physicalPage e = physicalPage (pg s (thisThread s) w)" "\<not> readOnly e" "dirty (pg s (thisThread s) w) \<longrightarrow> dirty e"
        using hw(5) by (auto simp: tlb_ok_def cached_ok_def)
      moreover have "look (pg s' (thisThread s) w) = look (pg s (thisThread s) w)"
        using v resid_some [OF calculation(2)] by simp
      ultimately show ?thesis
        using e(2) v same_view_resid [OF assms(1)] by (auto simp: cached_ok_def look_eq)
    qed
    moreover have "i = j" if "i < length (tlbs s')" "j < length (tlbs s')" "valid (tlbs s' ! i)" "valid (tlbs s' ! j)"
      "virtualPage (tlbs s' ! i) = virtualPage (tlbs s' ! j)" for i j
    proof -
      note vi = tlb_view(2) [OF m(1) that(1)] and vj = tlb_view(2) [OF m(1) that(2)]
      have "i < length (tlbs s)" "j < length (tlbs s)" using that(1,2) tlb_view(1) [OF m(1)] by simp_all
      moreover have "valid (tlbs s ! i)" "valid (tlbs s ! j)" "virtualPage (tlbs s ! i) = virtualPage (tlbs s ! j)"
        using vi vj that(3-5) by (simp_all add: look_eq)
      ultimately show ?thesis using hw(5) unfolding tlb_ok_def by blast
    qed
    ultimately show ?thesis by (simp add: tlb_ok_def)
  qed
  moreover have "content_ok s'"
    using hw(7) v same_view_vpage [OF assms(1)] same_view_init [OF assms(1)] same_view_resid [OF assms(1)]
      same_view_dirty [OF assms(1) hw(1)]
    by (simp add: content_ok_def look_eq)
  moreover have "same_memory s s'" using v same_view_vpage [OF assms(1)] by (simp add: same_memory_def)
  ultimately show ?thesis by (simp add: vm_inv_def)
qed

lemma set_tlb_fields [simp]:
  "npages (set_tlb i e s) = npages s" "pg (set_tlb i e s) = pg s" "static (set_tlb i e s) = static s"
  "spaces (set_tlb i e s) = spaces s" "registers (set_tlb i e s) = registers s" "handlers (set_tlb i e s) = handlers s"
  "mem (set_tlb i e s) = mem s" "coreMap (mmu (set_tlb i e s)) = coreMap (mmu s)"
  "pageTable (mmu (set_tlb i e s)) = pageTable (mmu s)" "thisThread (set_tlb i e s) = thisThread s"
  "addressesBitMap (set_tlb i e s) = addressesBitMap s" "runningProcesses (set_tlb i e s) = runningProcesses s"
  "fileSystem (set_tlb i e s) = fileSystem s" "numFaults (set_tlb i e s) = numFaults s"
  "tlb (mmu (set_tlb i e s)) = None \<longleftrightarrow> tlb (mmu s) = None"
  by (simp_all add: set_tlb_def fun_eq_iff npages_def pg_def static_def)

lemma tlbs_set_tlb: "tlb (mmu s) \<noteq> None \<Longrightarrow> tlbs (set_tlb i e s) = (tlbs s)[i := e]"
  by (auto simp: set_tlb_def)

lemma tlb_at_ok: "hw_ok s \<Longrightarrow> i < TLB_SIZE \<Longrightarrow> tlb_at i s = Inr (tlbs s ! i)"
  by (auto simp: tlb_at_def hw_ok_def)

lemma core_at_ok: "hw_ok s \<Longrightarrow> unat f < NUM_PHYS_PAGES \<Longrightarrow> core_at f s = Inr (coreMap (mmu s) ! unat f)"
  by (simp add: core_at_def hw_ok_def)

lemma init_same:
  assumes "static s' = static s" "disk_world s' = disk_world s"
  shows "init_res s' t v = init_res s t v" "init_page s' t v = init_page s t v" "swap s' t = swap s t"
  using assms by (simp_all add: init_res_def init_page_def swap_def)

subsection \<open>Writing a TLB entry back to the page table\<close>

definition save_entry :: "nat \<Rightarrow> nat \<Rightarrow> vmachine \<Rightarrow> vmachine" where
  "save_entry i v s = put_page (thisThread s) v ((tlbs s ! i)\<lparr>valid := False\<rparr>) (set_tlb i ((tlbs s ! i)\<lparr>valid := False\<rparr>) s)"

lemma save_entry_fields [simp]:
  "npages (save_entry i v s) = npages s" "static (save_entry i v s) = static s" "mem (save_entry i v s) = mem s"
  "coreMap (mmu (save_entry i v s)) = coreMap (mmu s)" "pageTable (mmu (save_entry i v s)) = pageTable (mmu s)"
  "thisThread (save_entry i v s) = thisThread s" "addressesBitMap (save_entry i v s) = addressesBitMap s"
  "runningProcesses (save_entry i v s) = runningProcesses s" "fileSystem (save_entry i v s) = fileSystem s"
  "registers (save_entry i v s) = registers s" "handlers (save_entry i v s) = handlers s" "numFaults (save_entry i v s) = numFaults s"
  "tlb (mmu (save_entry i v s)) = None \<longleftrightarrow> tlb (mmu s) = None"
  by (simp_all add: save_entry_def fun_eq_iff)

lemma save_entry_pg:
  assumes "v < npages s (thisThread s)"
  shows "pg (save_entry i v s) t w = (if t = thisThread s \<and> w = v then (tlbs s ! i)\<lparr>valid := False\<rparr> else pg s t w)"
  using assms by (simp add: save_entry_def pg_put_page)

lemma save_entry_tlbs: "tlb (mmu s) \<noteq> None \<Longrightarrow> tlbs (save_entry i v s) = (tlbs s)[i := (tlbs s ! i)\<lparr>valid := False\<rparr>]"
  by (simp add: save_entry_def tlbs_set_tlb)

text \<open>The other valid entries of the TLB.\<close>

lemma other_valid:
  assumes "e \<in> set (es[i := (es ! i)\<lparr>valid := False\<rparr>])" "valid e"
  shows "\<exists>j < length es. j \<noteq> i \<and> e = es ! j \<and> valid (es ! j)"
proof -
  from assms(1) obtain j where j: "j < length es" "e = es[i := (es ! i)\<lparr>valid := False\<rparr>] ! j"
    by (metis in_set_conv_nth length_list_update)
  then have "j \<noteq> i" using assms(2) by (cases "j = i") simp_all
  with j assms(2) show ?thesis by auto
qed

lemma cached_facts:
  assumes "vm_inv s H" "i < TLB_SIZE" "valid (tlbs s ! i)" "virtualPage (tlbs s ! i) = u"
  shows "resid s (thisThread s) (unat u)" "unat u < npages s (thisThread s)"
    "physicalPage (tlbs s ! i) = physicalPage (pg s (thisThread s) (unat u))"
    "\<not> readOnly (tlbs s ! i)" "dirty (pg s (thisThread s) (unat u)) \<Longrightarrow> dirty (tlbs s ! i)"
proof -
  have "tlbs s ! i \<in> set (tlbs s)" using assms(1,2) by (simp add: vm_inv_def hw_ok_def)
  with assms(1,3) obtain v where v: "virtualPage (tlbs s ! i) = of_nat v" "resid s (thisThread s) v"
    "physicalPage (tlbs s ! i) = physicalPage (pg s (thisThread s) v)" "\<not> readOnly (tlbs s ! i)"
    "dirty (pg s (thisThread s) v) \<longrightarrow> dirty (tlbs s ! i)"
    by (auto simp: vm_inv_def tlb_ok_def cached_ok_def)
  moreover have "unat u = v"
    using page_index [OF _ resid_some [OF v(2)]] assms(1,4) v(1) by (simp add: vm_inv_def)
  ultimately show "resid s (thisThread s) (unat u)" "unat u < npages s (thisThread s)"
    "physicalPage (tlbs s ! i) = physicalPage (pg s (thisThread s) (unat u))"
    "\<not> readOnly (tlbs s ! i)" "dirty (pg s (thisThread s) (unat u)) \<Longrightarrow> dirty (tlbs s ! i)"
    using resid_some by blast+
qed

lemma save_entry_resid:
  assumes "vm_inv s H" "i < TLB_SIZE" "valid (tlbs s ! i)" "unat (virtualPage (tlbs s ! i)) = v"
  shows "v < npages s (thisThread s)" "resid (save_entry i v s) t w = resid s t w"
    "physicalPage (pg (save_entry i v s) t w) = physicalPage (pg s t w)"
    "w < npages s t \<Longrightarrow> vpage (save_entry i v s) t w = vpage s t w"
proof -
  note e = cached_facts(2,1,3) [OF assms(1-3) refl, unfolded assms(4)]
  note p = save_entry_pg [OF e(1), of i]
  show "v < npages s (thisThread s)" by (rule e(1))
  show ph: "physicalPage (pg (save_entry i v s) t w) = physicalPage (pg s t w)" using e(3) by (simp add: p)
  then show "resid (save_entry i v s) t w = resid s t w" by (simp add: resid_def)
  have "physicalPage (pg s (thisThread s) v) \<noteq> INT_MAX" using e(2) by (simp add: resid_def)
  then show "vpage (save_entry i v s) t w = vpage s t w" if "w < npages s t"
    using ph init_same [of "save_entry i v s" s] by (auto simp: vpage_def p)
qed

lemma save_entry_dirty:
  assumes "vm_inv s H" "i < TLB_SIZE" "valid (tlbs s ! i)" "unat (virtualPage (tlbs s ! i)) = v"
    and "is_dirty s t w" "w < npages s t"
  shows "is_dirty (save_entry i v s) t w"
proof -
  have hw: "tlb (mmu s) \<noteq> None" "i < length (tlbs s)" using assms(1,2) by (simp_all add: vm_inv_def hw_ok_def)
  note v = cached_facts(2) [OF assms(1-3) refl, unfolded assms(4)]
  note p = save_entry_pg [OF v, of i]
  note d = cached_facts(5) [OF assms(1-3) refl, unfolded assms(4)]
  from assms(5) consider "dirty (pg s t w)"
    | e where "t = thisThread s" "e \<in> set (tlbs s)" "valid e" "virtualPage e = of_nat w" "dirty e"
    by (auto simp: is_dirty_def)
  then show ?thesis
  proof cases
    case 1
    then show ?thesis using d by (auto simp: is_dirty_def p)
  next
    case (2 e)
    then obtain j where j: "j < length (tlbs s)" "e = tlbs s ! j" by (metis in_set_conv_nth)
    show ?thesis
    proof (cases "j = i")
      case True
      have "unat (of_nat w :: u32) = w" using page_index [OF _ assms(6)] assms(1) by (simp add: vm_inv_def)
      then have "w = v" using True 2(4) j(2) assms(4) by simp
      then show ?thesis using 2 True j(2) by (simp add: is_dirty_def p)
    next
      case False
      then have "e \<in> set (tlbs (save_entry i v s))"
        using j by (auto simp: save_entry_tlbs [OF hw(1)] in_set_conv_nth nth_list_update intro!: exI [of _ j])
      with 2 show ?thesis by (auto simp: is_dirty_def)
    qed
  qed
qed

lemma save_entry_inv:
  assumes "vm_inv s H" "i < TLB_SIZE" "valid (tlbs s ! i)" "unat (virtualPage (tlbs s ! i)) = v"
  shows "vm_inv (save_entry i v s) H \<and> same_memory s (save_entry i v s)"
proof -
  let ?s = "save_entry i v s"
  note v = cached_facts(2) [OF assms(1-3) refl, unfolded assms(4)]
  note f = cached_facts(3,4) [OF assms(1-3) refl, unfolded assms(4)]
  note p = save_entry_pg [OF v, of i] and r = save_entry_resid [OF assms]
  note inv = assms(1) [unfolded vm_inv_def]
  have hw: "tlb (mmu s) \<noteq> None" "i < length (tlbs s)" "length (tlbs s) = TLB_SIZE"
    using assms(1,2) by (simp_all add: vm_inv_def hw_ok_def)
  note i = init_same [of ?s s, simplified]
  have vp: "virtualPage (tlbs s ! i) = of_nat v" using assms(4) by auto
  have "hw_ok ?s" "procs_ok ?s" "files_ok ?s"
    using inv hw(3) by (simp_all add: hw_ok_def procs_ok_def files_ok_def save_entry_tlbs [OF hw(1)])
  moreover have "pages_ok ?s"
    using inv f vp by (auto simp: pages_ok_def i r(3) p)
  moreover have "owned_ok ?s H"
    by (rule owned_ok_same [of s]) (use inv r in simp_all)
  moreover have "tlb_ok ?s"
  proof -
    have "cached_ok ?s e" if e: "e \<in> set (tlbs ?s)" "valid e" for e
    proof -
      from other_valid [of e "tlbs s" i] e obtain j where
        j: "j < length (tlbs s)" "j \<noteq> i" "e = tlbs s ! j" "valid (tlbs s ! j)"
        by (auto simp: save_entry_tlbs [OF hw(1)])
      note c = cached_facts [OF assms(1) _ j(4) refl, unfolded hw(3) [symmetric], OF j(1)]
      have "virtualPage (tlbs s ! j) \<noteq> virtualPage (tlbs s ! i)"
        using inv j hw(2) assms(3) unfolding tlb_ok_def by blast
      then have "unat (virtualPage (tlbs s ! j)) \<noteq> v" using assms(4) by (simp add: word_unat_eq_iff)
      with c j(3) show ?thesis
        by (intro cached_ok_def [THEN iffD2] exI [of _ "unat (virtualPage (tlbs s ! j))"]) (simp add: r p)
    qed
    moreover have "j = k" if "j < length (tlbs ?s)" "k < length (tlbs ?s)" "valid (tlbs ?s ! j)" "valid (tlbs ?s ! k)"
      "virtualPage (tlbs ?s ! j) = virtualPage (tlbs ?s ! k)" for j k
    proof -
      have "j \<noteq> i" "k \<noteq> i" using that(3,4) hw(2) by (auto simp: save_entry_tlbs [OF hw(1)])
      then show ?thesis using that inv unfolding tlb_ok_def by (auto simp: save_entry_tlbs [OF hw(1)])
    qed
    ultimately show ?thesis by (simp add: tlb_ok_def)
  qed
  moreover have "content_ok ?s"
  proof -
    have "if resid s t w then is_dirty ?s t w \<or> vpage ?s t w = init_page s t w
        else dirty (pg ?s t w) \<longrightarrow> w * PAGE_SIZE + PAGE_SIZE \<le> length (swap s t)" if w: "w < npages s t" for t w
    proof (cases "resid s t w")
      case True
      then have "is_dirty s t w \<or> vpage s t w = init_page s t w" using inv w by (simp add: content_ok_def)
      then show ?thesis using True save_entry_dirty [OF assms _ w] r(4) [OF w] by auto
    next
      case False
      moreover have "resid s (thisThread s) v" by (rule cached_facts(1) [OF assms(1-3) refl, unfolded assms(4)])
      ultimately have "pg ?s t w = pg s t w" by (auto simp: p)
      then show ?thesis using False inv w by (simp add: content_ok_def)
    qed
    then show ?thesis by (simp add: content_ok_def i r(2))
  qed
  moreover have "same_memory s ?s" using r(4) by (simp add: same_memory_def)
  ultimately show ?thesis by (simp add: vm_inv_def)
qed

subsection \<open>Moving a page out\<close>

lemma slice_host_write_same: "length d = n \<Longrightarrow> slice p n (host_write bs p d) = d"
  by (auto simp: host_write_def overlay_def slice_def)

lemma length_host_write: "length (host_write bs p d) = max (length bs) (p + length d)"
  by (cases "length bs \<le> p") (simp_all add: host_write_def overlay_def max_def)

lemma slice_host_write_other:
  assumes "q + n \<le> length bs" "q + n \<le> p \<or> p + length d \<le> q"
  shows "slice q n (host_write bs p d) = slice q n bs"
  using assms(2)
proof
  assume "q + n \<le> p"
  then show ?thesis using assms(1) by (simp add: host_write_def overlay_def slice_def drop_take min_def)
next
  assume "p + length d \<le> q"
  then show ?thesis using assms(1) by (simp add: host_write_def overlay_def slice_def)
qed

lemma page_image_same:
  assumes "isBin (exeFile sp)" "hostFiles w' (hostFd (exeFile sp)) = hostFiles w (hostFd (exeFile sp))" "junk w' = junk w"
  shows "page_image w' sp a z = page_image w sp a z"
proof -
  have r: "OpenFile_ReadAt w' (exeFile sp) n q = OpenFile_ReadAt w (exeFile sp) n q" for n q
    using assms by (simp add: OpenFile_ReadAt_def)
  then have e: "Executable_new w' (exeFile sp) = Executable_new w (exeFile sp)"
    using assms(3) by (simp add: Executable_new_def)
  show ?thesis
  proof (cases "Executable_new w (exeFile sp)")
    case (Inr exe)
    then have "exe_file exe = exeFile sp" by (auto simp: Executable_new_def res_simps)
    then have "ReadCodeBlock w' exe = ReadCodeBlock w exe" "ReadDataBlock w' exe = ReadDataBlock w exe"
      using r by (simp_all add: fun_eq_iff ReadCodeBlock_def ReadDataBlock_def)
    then show ?thesis by (simp only: page_image_def e Inr rbind.simps)
  qed (simp add: page_image_def e)
qed

lemma page_bytes_unat: "unat page_bytes = PAGE_SIZE"
  by (simp add: PAGE_SIZE_def SECTOR_SIZE_def)

lemma page_addr:
  assumes "v < MAX_PAGES"
  shows "unat (of_nat v * page_bytes) = v * PAGE_SIZE"
proof -
  have "of_nat v * page_bytes = (of_nat (v * PAGE_SIZE) :: u32)" by simp
  then show ?thesis using assms by (simp only:) (intro unat_small, simp add: MAX_PAGES_def PAGE_SIZE_def SECTOR_SIZE_def)
qed

definition swap_out :: "nat \<Rightarrow> nat \<Rightarrow> vmachine \<Rightarrow> vmachine" where
  "swap_out t v s =
     (if dirty (pg s t v)
      then set_world s ((disk_world s)\<lparr>hostFiles := (hostFiles (disk_world s))(hostFd (openSwapFile (st s t)) :=
             host_write (swap s t) (v * PAGE_SIZE) (slice (frame s t v * PAGE_SIZE) PAGE_SIZE (mem s)))\<rparr>)
      else s)"

definition evict :: "nat \<Rightarrow> nat \<Rightarrow> vmachine \<Rightarrow> vmachine" where
  "evict t v s = put_page t v ((pg s t v)\<lparr>physicalPage := INT_MAX, valid := False\<rparr>) (swap_out t v s)"

lemma set_world_fields [simp]:
  "npages (set_world s w) = npages s" "pg (set_world s w) = pg s" "static (set_world s w) = static s"
  "mmu (set_world s w) = mmu s" "thisThread (set_world s w) = thisThread s" "registers (set_world s w) = registers s"
  "handlers (set_world s w) = handlers s" "spaces (set_world s w) = spaces s"
  "addressesBitMap (set_world s w) = addressesBitMap s" "runningProcesses (set_world s w) = runningProcesses s"
  "numFaults (set_world s w) = numFaults s" "disk_world (set_world s w) = w"
  by (simp_all add: set_world_def fun_eq_iff npages_def pg_def static_def)

lemma swap_out_fields [simp]:
  "npages (swap_out t v s) = npages s" "pg (swap_out t v s) = pg s" "static (swap_out t v s) = static s"
  "mmu (swap_out t v s) = mmu s" "thisThread (swap_out t v s) = thisThread s" "registers (swap_out t v s) = registers s"
  "handlers (swap_out t v s) = handlers s" "spaces (swap_out t v s) = spaces s"
  "addressesBitMap (swap_out t v s) = addressesBitMap s" "runningProcesses (swap_out t v s) = runningProcesses s"
  "numFaults (swap_out t v s) = numFaults s"
  by (simp_all add: swap_out_def)

lemma evict_fields [simp]:
  "npages (evict t v s) = npages s" "static (evict t v s) = static s"
  "mmu (evict t v s) = mmu s" "thisThread (evict t v s) = thisThread s" "registers (evict t v s) = registers s"
  "handlers (evict t v s) = handlers s" "addressesBitMap (evict t v s) = addressesBitMap s"
  "runningProcesses (evict t v s) = runningProcesses s" "numFaults (evict t v s) = numFaults s"
  by (simp_all add: evict_def fun_eq_iff)

lemma evict_pg:
  assumes "v < npages s t"
  shows "pg (evict t v s) t' w = (if t' = t \<and> w = v then (pg s t v)\<lparr>physicalPage := INT_MAX, valid := False\<rparr> else pg s t' w)"
  using assms by (simp add: evict_def pg_put_page)

lemma evict_swap:
  assumes "files_ok s" "static s t \<noteq> None" "static s t' \<noteq> None"
  shows "swap (evict t v s) t' = (if t' = t \<and> dirty (pg s t v)
     then host_write (swap s t) (v * PAGE_SIZE) (slice (frame s t v * PAGE_SIZE) PAGE_SIZE (mem s)) else swap s t')"
  using assms by (auto simp: swap_def evict_def swap_out_def files_ok_def)

lemma evict_init:
  assumes "files_ok s" "static s t \<noteq> None" "static s t' \<noteq> None"
  shows "init_res (evict t v s) t' w = init_res s t' w" "init_page (evict t v s) t' w = init_page s t' w"
proof -
  have "isBin (exeFile (st s t'))" "hostFd (exeFile (st s t')) \<noteq> hostFd (openSwapFile (st s t))"
    using assms by (auto simp: files_ok_def)
  then show "init_res (evict t v s) t' w = init_res s t' w"
    by (auto simp: init_res_def evict_def swap_out_def intro!: page_image_same)
  then show "init_page (evict t v s) t' w = init_page s t' w" by (simp add: init_page_def)
qed

lemma evict_resid:
  assumes "v < npages s t"
  shows "resid (evict t v s) t' w \<longleftrightarrow> resid s t' w \<and> (t', w) \<noteq> (t, v)"
  using assms by (auto simp: resid_def evict_pg)

lemma page_slots_disjoint: "w \<noteq> v \<Longrightarrow> w * PAGE_SIZE + PAGE_SIZE \<le> v * PAGE_SIZE \<or> v * PAGE_SIZE + PAGE_SIZE \<le> w * PAGE_SIZE"
  using mult_le_mono1 [of "Suc w" v PAGE_SIZE] mult_le_mono1 [of "Suc v" w PAGE_SIZE] by (cases "w < v") simp_all

lemma frame_slice_length:
  assumes "hw_ok s" "f < NUM_PHYS_PAGES"
  shows "f * PAGE_SIZE + PAGE_SIZE \<le> length (mem s)" "length (slice (f * PAGE_SIZE) PAGE_SIZE (mem s)) = PAGE_SIZE"
proof -
  have "Suc f * PAGE_SIZE \<le> NUM_PHYS_PAGES * PAGE_SIZE" using assms(2) by (intro mult_le_mono1) simp
  then show "f * PAGE_SIZE + PAGE_SIZE \<le> length (mem s)" using assms(1) by (simp add: hw_ok_def MEMORY_SIZE_def)
  then show "length (slice (f * PAGE_SIZE) PAGE_SIZE (mem s)) = PAGE_SIZE" by simp
qed

lemma evict_owned:
  assumes "vm_inv s {}" "resid s t v"
  shows "owned_ok (evict t v s) {frame s t v}"
proof -
  note inv = assms(1) [unfolded vm_inv_def] and vn = resid_some [OF assms(2)]
  have inj: "frame s t' w \<noteq> frame s t v" if "resid s t' w" "(t', w) \<noteq> (t, v)" for t' w
    using frame_inj [of s "{}" t v t' w] inv assms(2) that by auto
  have "\<exists>t' w. (resid s t' w \<and> (t', w) \<noteq> (t, v)) \<and> frame (evict t v s) t' w = f"
    if "f \<in> marked (addressesBitMap s) - {frame s t v}" for f
  proof -
    from inv that obtain t' w where r: "resid s t' w" "frame s t' w = f" by (auto simp: owned_ok_def)
    with that have "(t', w) \<noteq> (t, v)" by auto
    with r show ?thesis by (intro exI [of _ t'] exI [of _ w]) (auto simp: evict_pg [OF vn])
  qed
  moreover have "frame (evict t v s) t' w = frame s t' w" if "(t', w) \<noteq> (t, v)" for t' w
    using that by (auto simp: evict_pg [OF vn])
  ultimately show ?thesis
    using owned_core [OF conjunct1 [OF conjunct2 [OF conjunct2 [OF conjunct2 [OF conjunct2 [OF inv]]]]]] inj
    unfolding owned_ok_def evict_resid [OF vn] by simp
qed

lemma evict_vpage:
  assumes "vm_inv s {}" "resid s t v" "\<not> (t = thisThread s \<and> (\<exists>e \<in> set (tlbs s). valid e \<and> virtualPage e = of_nat v))"
    and "w < npages s t'"
  shows "vpage (evict t v s) t' w = vpage s t' w"
proof -
  note inv = assms(1) [unfolded vm_inv_def] and vn = resid_some [OF assms(2)]
  have sp: "static s t \<noteq> None" "static s t' \<noteq> None" using npages_pos [OF vn] npages_pos [OF assms(4)] by auto
  note i = evict_init [OF _ sp, of v] and sw = evict_swap [OF _ sp, of v]
  have len: "length (slice (frame s t v * PAGE_SIZE) PAGE_SIZE (mem s)) = PAGE_SIZE"
    using frame_slice_length resid_small [OF _ assms(2)] inv by blast
  consider "t' = t \<and> w = v" | "(t', w) \<noteq> (t, v)" by auto
  then show ?thesis
  proof cases
    case 1
    have "is_dirty s t v \<or> vpage s t v = init_page s t v" using inv vn assms(2) by (simp add: content_ok_def)
    moreover have "is_dirty s t v = dirty (pg s t v)" using assms(3) by (auto simp: is_dirty_def)
    moreover have "vpage s t v = slice (frame s t v * PAGE_SIZE) PAGE_SIZE (mem s)" using assms(2) by (simp add: vpage_def resid_def)
    ultimately show ?thesis
      using 1 inv i sw slice_host_write_same [OF len] by (auto simp: vpage_def evict_pg [OF vn])
  next
    case 2
    then have p: "pg (evict t v s) t' w = pg s t' w" by (auto simp: evict_pg [OF vn])
    have "slice (w * PAGE_SIZE) PAGE_SIZE (swap (evict t v s) t') = slice (w * PAGE_SIZE) PAGE_SIZE (swap s t')"
      if "\<not> resid s t' w" "dirty (pg s t' w)"
    proof -
      have "w * PAGE_SIZE + PAGE_SIZE \<le> length (swap s t')" using inv assms(4) that by (auto simp: content_ok_def)
      moreover have "t' = t \<Longrightarrow> w \<noteq> v" using 2 by auto
      ultimately show ?thesis
        using inv sw slice_host_write_other [of "w * PAGE_SIZE" PAGE_SIZE "swap s t'"] page_slots_disjoint [of w v] len
        by auto
    qed
    then show ?thesis using p i inv assms(4) by (auto simp: vpage_def resid_def)
  qed
qed

lemma evict_inv:
  assumes "vm_inv s {}" "resid s t v" "\<not> (t = thisThread s \<and> (\<exists>e \<in> set (tlbs s). valid e \<and> virtualPage e = of_nat v))"
  shows "vm_inv (evict t v s) {frame s t v} \<and> same_memory s (evict t v s)"
proof -
  let ?s = "evict t v s"
  note inv = assms(1) [unfolded vm_inv_def] and vn = resid_some [OF assms(2)]
  have st: "static s t \<noteq> None" using npages_pos [OF vn] by auto
  have st': "static s t' \<noteq> None" if "w < npages s t'" for t' w using npages_pos [OF that] by auto
  have "hw_ok ?s" "procs_ok ?s" "files_ok ?s"
    using inv by (simp_all add: hw_ok_def procs_ok_def files_ok_def)
  moreover have "pages_ok ?s"
    using inv evict_init [OF _ st st'] by (auto simp: pages_ok_def evict_pg [OF vn])
  moreover have "owned_ok ?s {frame s t v}" by (rule evict_owned [OF assms(1,2)])
  moreover have "tlb_ok ?s"
  proof -
    have "cached_ok ?s e" if e: "e \<in> set (tlbs s)" "valid e" for e
    proof -
      from inv e obtain w where w: "virtualPage e = of_nat w" "resid s (thisThread s) w"
        "physicalPage e = physicalPage (pg s (thisThread s) w)" "\<not> readOnly e" "dirty (pg s (thisThread s) w) \<longrightarrow> dirty e"
        by (auto simp: tlb_ok_def cached_ok_def)
      then have "(thisThread s, w) \<noteq> (t, v)" using assms(3) e by auto
      with w show ?thesis
        by (intro cached_ok_def [THEN iffD2] exI [of _ w]) (auto simp: evict_resid [OF vn] evict_pg [OF vn])
    qed
    then show ?thesis using inv by (simp add: tlb_ok_def)
  qed
  moreover have "content_ok ?s"
  proof -
    have "if resid ?s t' w then is_dirty ?s t' w \<or> vpage ?s t' w = init_page ?s t' w
        else dirty (pg ?s t' w) \<longrightarrow> w * PAGE_SIZE + PAGE_SIZE \<le> length (swap ?s t')" if w: "w < npages s t'" for t' w
    proof (cases "(t', w) = (t, v)")
      case True
      have "length (slice (frame s t v * PAGE_SIZE) PAGE_SIZE (mem s)) = PAGE_SIZE"
        using frame_slice_length resid_small [OF _ assms(2)] inv by blast
      then show ?thesis
        using True inv by (simp add: evict_resid [OF vn] evict_pg [OF vn] evict_swap [OF _ st st] length_host_write)
    next
      case False
      then have p: "pg ?s t' w = pg s t' w" by (auto simp: evict_pg [OF vn])
      then have "is_dirty ?s t' w = is_dirty s t' w" by (simp add: is_dirty_def)
      moreover have "length (swap s t') \<le> length (swap ?s t')"
        using inv evict_swap [OF _ st st' [OF w], of v] by (simp add: length_host_write)
      moreover have "if resid s t' w then is_dirty s t' w \<or> vpage s t' w = init_page s t' w
        else dirty (pg s t' w) \<longrightarrow> w * PAGE_SIZE + PAGE_SIZE \<le> length (swap s t')" using inv w by (simp add: content_ok_def)
      ultimately show ?thesis
        using p False evict_vpage [OF assms w] evict_init [OF _ st st' [OF w]] inv
        by (auto simp: evict_resid [OF vn] split: if_splits)
    qed
    then show ?thesis by (simp add: content_ok_def)
  qed
  moreover have "same_memory s ?s" using evict_vpage [OF assms] by (simp add: same_memory_def)
  ultimately show ?thesis by (simp add: vm_inv_def)
qed

lemma least_used_bound: "victim < n \<Longrightarrow> i + length cs \<le> n \<Longrightarrow> least_used cs i least victim < n"
  by (induction cs i least victim rule: least_used.induct) auto

lemma PickVictim_ok:
  assumes "vm_inv s H" "PickVictim s = (victim, s')"
  shows "unat victim < NUM_PHYS_PAGES" "same_view s s'" "registers s' = registers s" "handlers s' = handlers s"
    "numFaults s' = numFaults s" "pg s' = pg s"
proof -
  let ?m = "if references_done (mmu s) = UINT_MAX
    then (mmu s)\<lparr>references_done := 0, coreMap := map (\<lambda>c. c\<lparr>last_use_counter := 0\<rparr>) (coreMap (mmu s))\<rparr> else mmu s"
  have s': "s' = s\<lparr>mmu := ?m\<rparr>" "victim = of_nat (least_used (coreMap ?m) 0 UINT_MAX 0)"
    using assms(2) by (simp_all add: PickVictim_def Let_def)
  have l: "length (coreMap ?m) = NUM_PHYS_PAGES" using assms(1) by (simp add: vm_inv_def hw_ok_def)
  have "least_used (coreMap ?m) 0 UINT_MAX 0 < NUM_PHYS_PAGES"
    by (rule least_used_bound) (simp_all only: l, simp_all add: NUM_PHYS_PAGES_def)
  then show "unat victim < NUM_PHYS_PAGES"
    unfolding s'(2) by (subst unat_small) (simp_all add: NUM_PHYS_PAGES_def)
  show "pg s' = pg s" by (simp add: s'(1) fun_eq_iff pg_def)
  then show "same_view s s'"
    by (simp add: s'(1) same_view_def fun_eq_iff npages_def static_def o_def)
  show "registers s' = registers s" "handlers s' = handlers s" "numFaults s' = numFaults s" by (simp_all add: s'(1))
qed

lemma flush_none:
  assumes "hw_ok s" "\<forall>i \<in> set is. i < TLB_SIZE \<and> \<not> (physicalPage (tlbs s ! i) = victim \<and> valid (tlbs s ! i))"
  shows "flush_frame is victim t u s = Inr s"
  using assms(2) by (induction "is") (auto simp: tlb_at_ok [OF assms(1)])

lemma flush_one:
  assumes "vm_inv s H" "distinct is" "\<forall>j \<in> set is. j < TLB_SIZE" "i \<in> set is"
    and "valid (tlbs s ! i)" "physicalPage (tlbs s ! i) = victim" "unat (virtualPage (tlbs s ! i)) = v" "unat u = v"
    and "\<forall>j < TLB_SIZE. valid (tlbs s ! j) \<and> physicalPage (tlbs s ! j) = victim \<longrightarrow> j = i"
  shows "flush_frame is victim (thisThread s) u s = Inr (save_entry i v s)"
  using assms(2-4)
proof (induction "is")
  case (Cons j js)
  have hw: "hw_ok s" using assms(1) by (simp add: vm_inv_def)
  have j: "j < TLB_SIZE" "i < TLB_SIZE" using Cons.prems by auto
  show ?case
  proof (cases "j = i")
    case True
    note vn = cached_facts(2) [OF assms(1) j(2) assms(5) refl, unfolded assms(7)]
    have "hw_ok (save_entry i v s)" using save_entry_inv [OF assms(1) j(2) assms(5,7)] by (simp add: vm_inv_def)
    moreover have "tlbs (save_entry i v s) = (tlbs s)[i := (tlbs s ! i)\<lparr>valid := False\<rparr>]"
      using hw by (simp add: save_entry_tlbs hw_ok_def)
    moreover have "m < TLB_SIZE \<and> \<not> (physicalPage ((tlbs s)[i := (tlbs s ! i)\<lparr>valid := False\<rparr>] ! m) = victim
        \<and> valid ((tlbs s)[i := (tlbs s ! i)\<lparr>valid := False\<rparr>] ! m))" if "m \<in> set js" for m
    proof -
      have "m < TLB_SIZE" "m \<noteq> i" using that Cons.prems True by auto
      then show ?thesis using assms(9) by auto
    qed
    ultimately have "flush_frame js victim (thisThread s) u (save_entry i v s) = Inr (save_entry i v s)"
      by (intro flush_none) simp_all
    then show ?thesis
      using True hw j assms(5,6,8) vn by (simp add: tlb_at_ok set_page_put save_entry_def)
  next
    case False
    then have "\<not> (physicalPage (tlbs s ! j) = victim \<and> valid (tlbs s ! j))" using assms(9) j by blast
    with False Cons hw j show ?thesis by (auto simp: tlb_at_ok)
  qed
qed simp

text \<open>Flushing the entries of a frame: the page in it is no longer in the TLB.\<close>

lemma flush_frame_ok:
  assumes "vm_inv s {}" "resid s t v" "physicalPage (pg s t v) = victim" "unat u = v"
  shows "\<exists>s'. flush_frame [0..<TLB_SIZE] victim t u s = Inr s' \<and> vm_inv s' {} \<and> same_memory s s' \<and> resid s' t v
    \<and> physicalPage (pg s' t v) = victim
    \<and> \<not> (t = thisThread s' \<and> (\<exists>e \<in> set (tlbs s'). valid e \<and> virtualPage e = of_nat v))
    \<and> registers s' = registers s \<and> handlers s' = handlers s \<and> numFaults s' = numFaults s
    \<and> (\<forall>t' w. (t', w) \<noteq> (t, v) \<longrightarrow> pg s' t' w = pg s t' w)"
proof (cases "\<exists>i < TLB_SIZE. valid (tlbs s ! i) \<and> physicalPage (tlbs s ! i) = victim")
  case True
  then obtain i where i: "i < TLB_SIZE" "valid (tlbs s ! i)" "physicalPage (tlbs s ! i) = victim" by auto
  note inv = assms(1) [unfolded vm_inv_def]
  have here: "t = thisThread s \<and> unat (virtualPage (tlbs s ! j)) = v"
    if "j < TLB_SIZE" "valid (tlbs s ! j)" "physicalPage (tlbs s ! j) = victim" for j
    using frame_inj [of s "{}" t v "thisThread s" "unat (virtualPage (tlbs s ! j))"] inv assms(2,3)
      cached_facts(1,3) [OF assms(1) that(1,2) refl] that(3) by auto
  have len: "length (tlbs s) = TLB_SIZE" "tlb (mmu s) \<noteq> None" using inv by (simp_all add: hw_ok_def)
  have uniq: "j = i" if "j < TLB_SIZE" "valid (tlbs s ! j)" "unat (virtualPage (tlbs s ! j)) = v" for j
  proof -
    have "virtualPage (tlbs s ! j) = virtualPage (tlbs s ! i)" using here [OF i] that(3) by (simp add: word_unat_eq_iff)
    with inv that i len show ?thesis unfolding tlb_ok_def by auto
  qed
  have tt: "t = thisThread s" and vi: "unat (virtualPage (tlbs s ! i)) = v" using here [OF i] by auto
  let ?s = "save_entry i v s"
  have f: "flush_frame [0..<TLB_SIZE] victim (thisThread s) u s = Inr ?s"
  proof (rule flush_one [OF assms(1) _ _ _ i(2,3) vi assms(4)])
    show "\<forall>j < TLB_SIZE. valid (tlbs s ! j) \<and> physicalPage (tlbs s ! j) = victim \<longrightarrow> j = i"
      using here uniq by blast
  qed (simp_all add: i(1))
  note r = save_entry_resid [OF assms(1) i(1,2) vi]
  have "\<not> (\<exists>e \<in> set (tlbs ?s). valid e \<and> virtualPage e = of_nat v)"
  proof
    assume "\<exists>e \<in> set (tlbs ?s). valid e \<and> virtualPage e = of_nat v"
    then obtain e where e: "e \<in> set (tlbs ?s)" "valid e" "virtualPage e = of_nat v" by auto
    then obtain j where j: "j < TLB_SIZE" "j \<noteq> i" "e = tlbs s ! j" "valid (tlbs s ! j)"
      using other_valid [of e "tlbs s" i] len by (auto simp: save_entry_tlbs [OF len(2)])
    have "unat (of_nat v :: u32) = v" using page_index [OF _ r(1)] inv by blast
    then show False using uniq [OF j(1,4)] j(2,3) e(3) by simp
  qed
  then show ?thesis
    using f tt save_entry_inv [OF assms(1) i(1,2) vi] assms(2,3) r(1,2) i(3) by (simp add: save_entry_pg)
next
  case False
  have hw: "hw_ok s" using assms(1) by (simp add: vm_inv_def)
  have "False" if e: "e \<in> set (tlbs s)" "valid e" "virtualPage e = of_nat v" and t: "t = thisThread s" for e
  proof -
    from e(1) hw obtain i where i: "i < TLB_SIZE" "e = tlbs s ! i" by (auto simp: in_set_conv_nth hw_ok_def)
    have "unat (of_nat v :: u32) = v" using page_index [OF _ resid_some [OF assms(2)]] assms(1) by (simp add: vm_inv_def)
    then show False
      using False i e(2,3) cached_facts(3) [OF assms(1) i(1)] assms(3) t by auto
  qed
  moreover have "flush_frame [0..<TLB_SIZE] victim t u s = Inr s"
    by (rule flush_none [OF hw]) (use False in auto)
  ultimately show ?thesis using assms by auto
qed

lemma write_swap:
  assumes "vm_inv s H" "resid s t v" "dirty (pg s t v)" "unat u = v"
  shows "\<exists>n w. OpenFile_WriteAt (disk_world s) (openSwapFile (the_sp s t))
      (slice (unat (physicalPage (pg s t v) * page_bytes)) PAGE_SIZE (mem s)) page_bytes (u * page_bytes) = Inr (n, w)
    \<and> set_world s w = swap_out t v s"
proof -
  note inv = assms(1) [unfolded vm_inv_def]
  from npages_pos [OF resid_some [OF assms(2)]] obtain sp where
    sp: "spaces s t = Some sp" "static s t = Some (sp\<lparr>pages := []\<rparr>)" by auto
  have "isBin (openSwapFile (st s t))" using inv sp(1) by (simp add: files_ok_def)
  then have "isBin (openSwapFile sp)" by (simp add: sp(2))
  moreover have vb: "v < MAX_PAGES" using page_bound resid_some [OF assms(2)] inv by blast
  have u: "u = of_nat v" using assms(4) by auto
  have fr: "unat (physicalPage (pg s t v)) < NUM_PHYS_PAGES" using resid_small [OF _ assms(2)] inv by blast
  then have f: "unat (physicalPage (pg s t v) * page_bytes) = frame s t v * PAGE_SIZE"
    using page_addr [of "frame s t v"] by (simp add: NUM_PHYS_PAGES_def MAX_PAGES_def)
  moreover have "length (slice (frame s t v * PAGE_SIZE) PAGE_SIZE (mem s)) = PAGE_SIZE"
    using frame_slice_length fr inv by blast
  moreover have "page_bytes > 0" by (simp add: PAGE_SIZE_def SECTOR_SIZE_def)
  ultimately show ?thesis
    using assms(3) sp page_addr [OF vb] unfolding u f
    by (simp add: OpenFile_WriteAt_def page_bytes_unat swap_out_def swap_def del: of_nat_mult)
qed

lemma EvacuatePage_ok:
  assumes "vm_inv s {}" "marked (addressesBitMap s) = {..<NUM_PHYS_PAGES}"
  shows "\<exists>f s'. EvacuatePage s = Inr (f, s') \<and> unat f < NUM_PHYS_PAGES \<and> vm_inv s' {unat f} \<and> same_memory s s'
    \<and> registers s' = registers s \<and> handlers s' = handlers s \<and> numFaults s' = numFaults s
    \<and> unat f \<in> marked (addressesBitMap s')
    \<and> (\<forall>t w. w < npages s t \<and> \<not> resid s t w \<longrightarrow> pg s' t w = pg s t w)"
proof -
  obtain victim s1 where pv: "PickVictim s = (victim, s1)" by (cases "PickVictim s")
  note p = PickVictim_ok [OF assms(1) pv]
  from same_view_inv [OF p(2) assms(1)] have s1: "vm_inv s1 {}" "same_memory s s1" by auto
  note inv = s1(1) [unfolded vm_inv_def]
  have bm: "addressesBitMap s1 = addressesBitMap s" using p(2) by (simp add: same_view_def)
  then have "unat victim \<in> marked (addressesBitMap s1)" using assms(2) p(1) by simp
  with inv obtain t v where tv: "resid s1 t v" "frame s1 t v = unat victim" by (auto simp: owned_ok_def)
  then have ph: "physicalPage (pg s1 t v) = victim" by (simp add: word_unat_eq_iff)
  have own: "owned_ok s1 {}" using inv by blast
  let ?c = "coreMap (mmu s1) ! unat victim"
  have c: "coreSpaceId ?c = addressSpaceId (st s1 t)" "coreVirtualPage ?c = of_nat v"
    using owned_core(3,4) [OF own tv(1)] tv(2) by simp_all
  have u: "unat (coreVirtualPage ?c) = v" using c(2) page_index [OF _ resid_some [OF tv(1)]] inv by simp
  have "static s1 t \<noteq> None" using npages_pos [OF resid_some [OF tv(1)]] by auto
  then have tm: "table_map (runningProcesses s1) (coreSpaceId ?c) = Some t" using inv c(1) by (simp add: procs_ok_def)
  then have key: "Table_HasKey (runningProcesses s1) (coreSpaceId ?c) = Inr True"
    "Table_Get (runningProcesses s1) (coreSpaceId ?c) = Inr t"
    using inv table_get [of "runningProcesses s1" "coreSpaceId ?c"]
    by (auto simp: Table_HasKey_def table_map_def procs_ok_def split: if_splits)
  from flush_frame_ok [OF s1(1) tv(1) ph u] obtain s2 where
    s2: "flush_frame [0..<TLB_SIZE] victim t (coreVirtualPage ?c) s1 = Inr s2" "vm_inv s2 {}" "same_memory s1 s2"
      "resid s2 t v" "physicalPage (pg s2 t v) = victim"
      "\<not> (t = thisThread s2 \<and> (\<exists>e \<in> set (tlbs s2). valid e \<and> virtualPage e = of_nat v))"
      "registers s2 = registers s1" "handlers s2 = handlers s1" "numFaults s2 = numFaults s1"
      "\<forall>t' w. (t', w) \<noteq> (t, v) \<longrightarrow> pg s2 t' w = pg s1 t' w" by blast
  note vn = resid_some [OF s2(4)]
  have swap: "(if dirty (pg s2 t v)
      then rbind (the_space t s2) (\<lambda>sp.
           rbind (OpenFile_WriteAt (disk_world s2) (openSwapFile sp)
                    (slice (unat (victim * page_bytes)) PAGE_SIZE (mem s2)) page_bytes (coreVirtualPage ?c * page_bytes))
             (\<lambda>(n, w). Inr (set_world s2 w)))
      else Inr s2) = Inr (swap_out t v s2)"
    using write_swap [OF s2(2,4) _ u] npages_pos [OF vn] s2(5) by (auto simp: the_space_def swap_out_def)
  let ?s = "evict t v s2"
  have "EvacuatePage s = Inr (victim, ?s)"
    using pv key s2(1) swap vn u core_at_ok [of s1 victim] inv p(1)
    by (simp add: EvacuatePage_def set_page_put evict_def)
  moreover have "vm_inv ?s {unat victim}" "same_memory s2 ?s" using evict_inv [OF s2(2,4,6)] s2(5) by simp_all
  moreover have "unat victim \<in> marked (addressesBitMap ?s)"
    using owned_core(1) [of s2 "{}" t v] s2(2,4,5) by (simp add: vm_inv_def)
  moreover have "pg ?s t' w = pg s t' w" if w: "w < npages s t'" "\<not> resid s t' w" for t' w
  proof -
    have "(t', w) \<noteq> (t, v)" using w(2) tv(1) same_view_resid [OF p(2)] by auto
    then show ?thesis using s2(10) p(6) by (auto simp: evict_pg [OF vn])
  qed
  moreover have "same_memory s ?s" using s1(2) s2(3) calculation(3) same_memory_trans by blast
  ultimately show ?thesis
    using p(1,3-5) s2(7-9) by (intro exI [of _ victim] exI [of _ ?s]) simp
qed

subsection \<open>Taking a frame and moving a page in\<close>

lemma bitmap_fields [simp]:
  "npages (s\<lparr>addressesBitMap := bm\<rparr>) = npages s" "pg (s\<lparr>addressesBitMap := bm\<rparr>) = pg s"
  "static (s\<lparr>addressesBitMap := bm\<rparr>) = static s" "resid (s\<lparr>addressesBitMap := bm\<rparr>) = resid s"
  "vpage (s\<lparr>addressesBitMap := bm\<rparr>) = vpage s" "swap (s\<lparr>addressesBitMap := bm\<rparr>) = swap s"
  "init_res (s\<lparr>addressesBitMap := bm\<rparr>) = init_res s" "init_page (s\<lparr>addressesBitMap := bm\<rparr>) = init_page s"
  "is_dirty (s\<lparr>addressesBitMap := bm\<rparr>) = is_dirty s" "cached_ok (s\<lparr>addressesBitMap := bm\<rparr>) = cached_ok s"
  by (simp_all add: fun_eq_iff npages_def pg_def static_def resid_def vpage_def swap_def init_page_def init_res_def
      is_dirty_def cached_ok_def)

lemma take_frame_ok:
  assumes "vm_inv s {}"
  shows "\<exists>f s'. take_frame s = Inr (f, s') \<and> unat f < NUM_PHYS_PAGES \<and> vm_inv s' {unat f} \<and> same_memory s s'
    \<and> registers s' = registers s \<and> handlers s' = handlers s \<and> numFaults s' = numFaults s
    \<and> unat f \<in> marked (addressesBitMap s')
    \<and> (\<forall>t w. w < npages s t \<and> \<not> resid s t w \<longrightarrow> pg s' t w = pg s t w)"
proof -
  note inv = assms [unfolded vm_inv_def]
  have b: "bitmap_ok (addressesBitMap s)" "numBits (addressesBitMap s) = NUM_PHYS_PAGES" using inv by (simp_all add: hw_ok_def)
  show ?thesis
  proof (cases "marked (addressesBitMap s) = {..<NUM_PHYS_PAGES}")
    case True
    then have "Bitmap_Find (addressesBitMap s) = Inr (-1, addressesBitMap s)" using bm.find_none b by simp
    then have "take_frame s = EvacuatePage s" by (simp add: take_frame_def Let_def)
    with EvacuatePage_ok [OF assms True] show ?thesis by simp
  next
    case False
    then obtain i bm where f: "Bitmap_Find (addressesBitMap s) = Inr (int i, bm)" "i < NUM_PHYS_PAGES"
      "i \<notin> marked (addressesBitMap s)" "bitmap_ok bm" "numBits bm = NUM_PHYS_PAGES"
      "marked bm = insert i (marked (addressesBitMap s))"
      using bm.find_free [OF b(1)] b(2) by auto
    let ?s = "s\<lparr>addressesBitMap := bm\<rparr>"
    have ui: "unat (of_nat i :: u32) = i" using f(2) by (intro unat_small) (simp add: NUM_PHYS_PAGES_def)
    have own: "owned_ok s {}" using inv by blast
    then have "owned_ok ?s {i}" using f(3,6) owned_core(1) [OF own] by (auto simp: owned_ok_def)
    moreover have "hw_ok ?s" using inv f(4,5) by (simp add: hw_ok_def)
    ultimately have "vm_inv ?s {i}"
      using inv by (simp add: vm_inv_def procs_ok_def files_ok_def pages_ok_def tlb_ok_def content_ok_def)
    moreover have "same_memory s ?s" by (simp add: same_memory_def)
    moreover have "take_frame s = Inr (of_nat i, ?s)" using f(1) by (simp add: take_frame_def)
    ultimately show ?thesis using f(2,6) ui by (intro exI [of _ "of_nat i"] exI [of _ ?s]) simp
  qed
qed

definition fill :: "nat \<Rightarrow> nat \<Rightarrow> u32 \<Rightarrow> vmachine \<Rightarrow> vmachine" where
  "fill t v f s = put_page t v ((pg s t v)\<lparr>physicalPage := f\<rparr>)
     (s\<lparr>mmu := (mmu s)\<lparr>mainMemory := overlay (mem s) (unat f * PAGE_SIZE) (vpage s t v),
        coreMap := (coreMap (mmu s))[unat f := (coreMap (mmu s) ! unat f)\<lparr>coreSpaceId := addressSpaceId (st s t),
          coreVirtualPage := of_nat v\<rparr>]\<rparr>\<rparr>)"

lemma mmu_fields [simp]:
  "npages (s\<lparr>mmu := m\<rparr>) = npages s" "pg (s\<lparr>mmu := m\<rparr>) = pg s" "static (s\<lparr>mmu := m\<rparr>) = static s"
  "swap (s\<lparr>mmu := m\<rparr>) = swap s" "init_res (s\<lparr>mmu := m\<rparr>) = init_res s" "init_page (s\<lparr>mmu := m\<rparr>) = init_page s"
  "resid (s\<lparr>mmu := m\<rparr>) = resid s"
  by (simp_all add: fun_eq_iff npages_def pg_def static_def resid_def swap_def init_page_def init_res_def)

lemma fill_fields [simp]:
  "npages (fill t v f s) = npages s" "static (fill t v f s) = static s" "thisThread (fill t v f s) = thisThread s"
  "registers (fill t v f s) = registers s" "handlers (fill t v f s) = handlers s" "numFaults (fill t v f s) = numFaults s"
  "addressesBitMap (fill t v f s) = addressesBitMap s" "runningProcesses (fill t v f s) = runningProcesses s"
  "fileSystem (fill t v f s) = fileSystem s" "tlb (mmu (fill t v f s)) = tlb (mmu s)"
  "pageTable (mmu (fill t v f s)) = pageTable (mmu s)"
  "mem (fill t v f s) = overlay (mem s) (unat f * PAGE_SIZE) (vpage s t v)"
  "coreMap (mmu (fill t v f s)) = (coreMap (mmu s))[unat f := (coreMap (mmu s) ! unat f)\<lparr>coreSpaceId := addressSpaceId (st s t),
          coreVirtualPage := of_nat v\<rparr>]"
  by (simp_all add: fill_def fun_eq_iff)

lemma fill_pg:
  assumes "v < npages s t"
  shows "pg (fill t v f s) t' w = (if t' = t \<and> w = v then (pg s t v)\<lparr>physicalPage := f\<rparr> else pg s t' w)"
  using assms by (simp add: fill_def pg_put_page)

lemma small_frame: "unat f < NUM_PHYS_PAGES \<Longrightarrow> f \<noteq> INT_MAX"
  by (auto simp: INT_MAX_big NUM_PHYS_PAGES_def)

lemma fill_resid:
  assumes "v < npages s t" "unat f < NUM_PHYS_PAGES"
  shows "resid (fill t v f s) t' w \<longleftrightarrow> resid s t' w \<or> (t', w) = (t, v)"
  using assms small_frame [OF assms(2)] by (auto simp: resid_def fill_pg)

lemma vpage_length:
  assumes "vm_inv s H" "v < npages s t"
  shows "length (vpage s t v) = PAGE_SIZE"
proof (cases "resid s t v")
  case True
  then show ?thesis
    using assms frame_slice_length(2) [of s] resid_small [of s] by (simp add: vpage_def vm_inv_def resid_def)
next
  case False
  with assms have "dirty (pg s t v) \<longrightarrow> v * PAGE_SIZE + PAGE_SIZE \<le> length (swap s t)" "length (init_page s t v) = PAGE_SIZE"
    by (auto simp: vm_inv_def content_ok_def pages_ok_def)
  with False assms(2) show ?thesis by (auto simp: vpage_def resid_def)
qed

lemma fill_vpage:
  assumes "vm_inv s {unat f}" "v < npages s t" "\<not> resid s t v" "unat f < NUM_PHYS_PAGES" "w < npages s t'"
  shows "vpage (fill t v f s) t' w = vpage s t' w"
proof -
  note inv = assms(1) [unfolded vm_inv_def]
  have own: "owned_ok s {unat f}" using inv by blast
  note i = init_same [of "fill t v f s" s, simplified]
  have fit: "unat f * PAGE_SIZE + length (vpage s t v) \<le> length (mem s)"
    using frame_slice_length(1) [OF _ assms(4)] inv vpage_length [OF assms(1,2)] by auto
  show ?thesis
  proof (cases "t' = t \<and> w = v")
    case True
    then show ?thesis
      using slice_overlay_same [OF fit] vpage_length [OF assms(1,2)] small_frame [OF assms(4)]
      by (simp add: fill_pg [OF assms(2)] vpage_def [of "fill t v f s"])
  next
    case False
    have "slice (frame s t' w * PAGE_SIZE) PAGE_SIZE (mem (fill t v f s)) = slice (frame s t' w * PAGE_SIZE) PAGE_SIZE (mem s)"
      if "resid s t' w"
    proof -
      have "frame s t' w \<noteq> unat f" using owned_core(2) [OF own that] by simp
      then show ?thesis
        using slice_overlay_other [OF fit, of "frame s t' w * PAGE_SIZE" PAGE_SIZE] page_slots_disjoint vpage_length [OF assms(1,2)]
        by simp
    qed
    then show ?thesis using False assms(5) i by (auto simp: vpage_def fill_pg [OF assms(2)] resid_def)
  qed
qed

lemma fill_owned:
  assumes "vm_inv s {unat f}" "v < npages s t" "\<not> resid s t v" "unat f < NUM_PHYS_PAGES" "unat f \<in> marked (addressesBitMap s)"
  shows "owned_ok (fill t v f s) {}"
proof -
  note inv = assms(1) [unfolded vm_inv_def]
  have own: "owned_ok s {unat f}" and len: "unat f < length (coreMap (mmu s))" using inv assms(4) by (simp_all add: hw_ok_def)
  note r = fill_resid [OF assms(2,4)] and p = fill_pg [OF assms(2)]
  have "\<exists>t' w. (resid s t' w \<or> (t', w) = (t, v)) \<and> frame (fill t v f s) t' w = g"
    if g: "g \<in> marked (addressesBitMap s)" for g
  proof (cases "g = unat f")
    case True
    then show ?thesis by (intro exI [of _ t] exI [of _ v]) (simp add: p)
  next
    case False
    with own g obtain t' w where "resid s t' w" "frame s t' w = g" unfolding owned_ok_def by blast
    moreover from this assms(3) have "(t', w) \<noteq> (t, v)" by auto
    ultimately show ?thesis by (intro exI [of _ t'] exI [of _ w]) (auto simp: p)
  qed
  moreover have "frame (fill t v f s) t' w \<in> marked (addressesBitMap s)
      \<and> coreSpaceId (coreMap (mmu (fill t v f s)) ! frame (fill t v f s) t' w) = addressSpaceId (st s t')
      \<and> coreVirtualPage (coreMap (mmu (fill t v f s)) ! frame (fill t v f s) t' w) = of_nat w"
    if "resid s t' w \<or> (t', w) = (t, v)" for t' w
  proof (cases "(t', w) = (t, v)")
    case True
    then show ?thesis using assms(5) len by (simp add: p)
  next
    case False
    with that have rs: "resid s t' w" by auto
    moreover have "pg (fill t v f s) t' w = pg s t' w" using False by (auto simp: p)
    ultimately show ?thesis using owned_core [OF own rs] by simp
  qed
  ultimately show ?thesis unfolding owned_ok_def r by simp
qed

lemma fill_inv:
  assumes "vm_inv s {unat f}" "v < npages s t" "\<not> resid s t v" "unat f < NUM_PHYS_PAGES" "unat f \<in> marked (addressesBitMap s)"
  shows "vm_inv (fill t v f s) {} \<and> same_memory s (fill t v f s)"
proof -
  let ?s = "fill t v f s"
  note inv = assms(1) [unfolded vm_inv_def]
  note r = fill_resid [OF assms(2,4)] and p = fill_pg [OF assms(2)] and vp = fill_vpage [OF assms(1-4)]
  note i = init_same [of ?s s, simplified]
  have fit: "unat f * PAGE_SIZE + length (vpage s t v) \<le> length (mem s)"
    using frame_slice_length(1) [OF _ assms(4)] inv vpage_length [OF assms(1,2)] by auto
  have "hw_ok ?s" "procs_ok ?s" "files_ok ?s"
    using inv length_overlay [OF fit] by (simp_all add: hw_ok_def procs_ok_def files_ok_def)
  moreover have "pages_ok ?s"
    using inv assms(4) by (auto simp: pages_ok_def p i)
  moreover have "owned_ok ?s {}" by (rule fill_owned [OF assms])
  moreover have "tlb_ok ?s"
  proof -
    have "cached_ok ?s e" if e: "e \<in> set (tlbs s)" "valid e" for e
    proof -
      from inv e obtain w where w: "virtualPage e = of_nat w" "resid s (thisThread s) w"
        "physicalPage e = physicalPage (pg s (thisThread s) w)" "\<not> readOnly e" "dirty (pg s (thisThread s) w) \<longrightarrow> dirty e"
        by (auto simp: tlb_ok_def cached_ok_def)
      then have "(thisThread s, w) \<noteq> (t, v)" using assms(3) by auto
      with w show ?thesis
        by (intro cached_ok_def [THEN iffD2] exI [of _ w]) (auto simp: r p)
    qed
    then show ?thesis using inv by (simp add: tlb_ok_def)
  qed
  moreover have "content_ok ?s"
  proof -
    have "if resid ?s t' w then is_dirty ?s t' w \<or> vpage ?s t' w = init_page ?s t' w
        else dirty (pg ?s t' w) \<longrightarrow> w * PAGE_SIZE + PAGE_SIZE \<le> length (swap ?s t')" if w: "w < npages s t'" for t' w
    proof (cases "(t', w) = (t, v)")
      case True
      have "vpage s t v = init_page s t v" if "\<not> dirty (pg s t v)" using assms(2,3) that by (simp add: vpage_def resid_def)
      then show ?thesis using True vp [OF assms(2)] by (auto simp: r p i is_dirty_def)
    next
      case False
      then have "pg ?s t' w = pg s t' w" by (auto simp: p)
      moreover from this have "is_dirty ?s t' w = is_dirty s t' w" by (simp add: is_dirty_def)
      ultimately show ?thesis using False inv w vp [OF w] by (auto simp: content_ok_def r i)
    qed
    then show ?thesis by (simp add: content_ok_def)
  qed
  moreover have "same_memory s ?s" using vp by (simp add: same_memory_def)
  ultimately show ?thesis by (simp add: vm_inv_def)
qed

text \<open>What \<open>LoadPage\<close> reads is what the process last saw in the page.\<close>

lemma page_image_static: "page_image w (sp\<lparr>pages := ps\<rparr>) a z = page_image w sp a z"
  by (simp add: page_image_def cong: if_cong)

lemma load_source:
  assumes "vm_inv s H" "v < npages s t" "\<not> resid s t v"
  shows "(if dirty (pg s t v)
      then rbind (OpenFile_ReadAt (disk_world s) (openSwapFile (the_sp s t)) page_bytes (of_nat v * page_bytes)) (\<lambda>bs.
             Inr (overlay (replicate PAGE_SIZE 0) 0 bs))
      else page_image (disk_world s) (the_sp s t) (of_nat v * page_bytes) (replicate PAGE_SIZE 0)) = Inr (vpage s t v)"
proof -
  note inv = assms(1) [unfolded vm_inv_def]
  from npages_pos [OF assms(2)] obtain sp where sp: "spaces s t = Some sp" "static s t = Some (sp\<lparr>pages := []\<rparr>)" by auto
  have vb: "v < MAX_PAGES" using page_bound assms(2) inv by blast
  have "isBin (openSwapFile (st s t))" using inv sp(1) by (simp add: files_ok_def)
  then have bin: "isBin (openSwapFile sp)" by (simp add: sp(2))
  have sw: "dirty (pg s t v) \<longrightarrow> v * PAGE_SIZE + PAGE_SIZE \<le> length (swap s t)"
    using inv assms(2,3) by (auto simp: content_ok_def)
  have "page_bytes > 0" by (simp add: PAGE_SIZE_def SECTOR_SIZE_def)
  moreover have "overlay (replicate PAGE_SIZE 0) 0 (slice (v * PAGE_SIZE) PAGE_SIZE (swap s t)) = slice (v * PAGE_SIZE) PAGE_SIZE (swap s t)"
    if "dirty (pg s t v)" using sw that by (intro overlay_all) simp
  moreover have "page_image (disk_world s) sp (of_nat v * page_bytes) (replicate PAGE_SIZE 0) = Inr (init_page s t v)"
  proof -
    have "init_res s t v = Inr (init_page s t v)" using inv assms(2) by (simp add: pages_ok_def)
    then show ?thesis by (simp add: init_res_def sp(2) page_image_static)
  qed
  moreover have "swap s t = hostFiles (disk_world s) (hostFd (openSwapFile sp))" using sp(2) by (simp add: swap_def)
  ultimately show ?thesis
    using bin page_addr [OF vb] assms(2,3) sp(1)
    by (simp add: OpenFile_ReadAt_def host_read_def page_bytes_unat vpage_def resid_def del: of_nat_mult)
qed

lemma overlay_twice: "length bs' = length bs \<Longrightarrow> p + length bs \<le> length xs \<Longrightarrow> overlay (overlay xs p bs) p bs' = overlay xs p bs'"
  by (simp add: overlay_def)

lemma spaces_fields:
  assumes "spaces s' = spaces s"
  shows "npages s' = npages s" "pg s' = pg s" "static s' = static s"
  using assms by (simp_all add: fun_eq_iff npages_def pg_def static_def)

lemma LoadPage_run:
  assumes "spaces s t = Some sp" "f \<noteq> INT_MAX" "unat (f * page_bytes) = p" "p + PAGE_SIZE \<le> length (mem s)"
    and "a div page_bytes = u" "unat u < length (pages sp)" "unat f < length (coreMap (mmu s))" "length bs = PAGE_SIZE"
    and "(if dirty (pages sp ! unat u)
      then rbind (OpenFile_ReadAt (disk_world s) (openSwapFile sp) page_bytes (u * page_bytes)) (\<lambda>bs.
             Inr (overlay (replicate PAGE_SIZE 0) 0 bs))
      else page_image (disk_world s) sp (u * page_bytes) (replicate PAGE_SIZE 0)) = Inr bs"
  shows "LoadPage t a f s = Inr (set_core f ((coreMap (mmu s) ! unat f)\<lparr>coreSpaceId := addressSpaceId sp, coreVirtualPage := u\<rparr>)
    (s\<lparr>mmu := (mmu s)\<lparr>mainMemory := overlay (mem s) p bs\<rparr>\<rparr>))"
proof -
  let ?s1 = "s\<lparr>mmu := (mmu s)\<lparr>mainMemory := overlay (mem s) p (replicate PAGE_SIZE 0)\<rparr>\<rparr>"
  have "set_mem p (replicate PAGE_SIZE 0) s = Inr ?s1" using assms(4) by (simp add: set_mem_def)
  moreover have "the_space t s = Inr sp" using assms(1) by (simp add: the_space_def)
  moreover have "getPageTableEntry t u ?s1 = Inr (pages sp ! unat u)"
    using assms(1,6) by (simp add: getPageTableEntry_def the_space_def)
  moreover have "set_mem p bs ?s1 = Inr (s\<lparr>mmu := (mmu s)\<lparr>mainMemory := overlay (mem s) p bs\<rparr>\<rparr>)"
    using assms(4,8) by (simp add: set_mem_def overlay_twice)
  moreover have "disk_world ?s1 = disk_world s" by simp
  ultimately show ?thesis
    using assms(2,3,5,7,9) by (cases "dirty (pages sp ! unat u)") (simp_all add: LoadPage_def Let_def core_at_def)
qed

text \<open>The part of the handler that fills the frame it has taken.\<close>

lemma load_step:
  assumes "vm_inv s {unat f}" "v < npages s t" "\<not> resid s t v" "unat f < NUM_PHYS_PAGES" "unat (a div page_bytes) = v"
  shows "\<exists>s'. rbind (getPageTableEntry t (a div page_bytes) s) (\<lambda>e2.
      rbind (set_page t (a div page_bytes) (e2\<lparr>physicalPage := f\<rparr>) s) (\<lambda>s3.
        let s4 = s3\<lparr>mmu := (mmu s3)\<lparr>references_done := references_done (mmu s3) + 1\<rparr>\<rparr> in
        rbind (core_at f s4) (\<lambda>c.
          LoadPage t a f (set_core f (c\<lparr>last_use_counter := references_done (mmu s4)\<rparr>) s4)))) = Inr s'
    \<and> same_view (fill t v f s) s' \<and> registers s' = registers s \<and> handlers s' = handlers s \<and> numFaults s' = numFaults s
    \<and> pg s' t v = (pg s t v)\<lparr>physicalPage := f\<rparr>"
proof -
  note inv = assms(1) [unfolded vm_inv_def]
  let ?s3 = "put_page t v ((pg s t v)\<lparr>physicalPage := f\<rparr>) s"
  let ?s4 = "?s3\<lparr>mmu := (mmu ?s3)\<lparr>references_done := references_done (mmu ?s3) + 1\<rparr>\<rparr>"
  let ?c = "coreMap (mmu s) ! unat f"
  let ?s5 = "set_core f (?c\<lparr>last_use_counter := references_done (mmu ?s4)\<rparr>) ?s4"
  have vb: "v < MAX_PAGES" using page_bound assms(2) inv by blast
  have start: "a div page_bytes = of_nat v" using assms(5) by auto
  have fa: "unat (f * page_bytes) = unat f * PAGE_SIZE"
    using page_addr [of "unat f"] assms(4) by (simp add: NUM_PHYS_PAGES_def MAX_PAGES_def)
  have fit: "unat f * PAGE_SIZE + PAGE_SIZE \<le> length (mem s)" using frame_slice_length(1) [OF _ assms(4)] inv by blast
  have core: "unat f < length (coreMap (mmu s))" using inv assms(4) by (simp add: hw_ok_def)
  from npages_pos [OF assms(2)] obtain sp where
    sp: "spaces s t = Some sp" "static s t = Some (sp\<lparr>pages := []\<rparr>)" "v < length (pages sp)" "pg s t v = pages sp ! v" by auto
  let ?sp = "sp\<lparr>pages := (pages sp)[v := (pg s t v)\<lparr>physicalPage := f\<rparr>]\<rparr>"
  have sp5: "spaces ?s5 t = Some ?sp" using sp by (simp add: put_page_def set_core_def)
  have src: "dirty (pg s t v) \<Longrightarrow> rbind (OpenFile_ReadAt (disk_world s) (openSwapFile sp) page_bytes (of_nat v * page_bytes))
      (\<lambda>bs. Inr (overlay (replicate PAGE_SIZE 0) 0 bs)) = Inr (vpage s t v)"
    "\<not> dirty (pg s t v) \<Longrightarrow> page_image (disk_world s) sp (of_nat v * page_bytes) (replicate PAGE_SIZE 0) = Inr (vpage s t v)"
    using load_source [OF assms(1-3)] sp(1) by simp_all
  let ?m = "\<lambda>m. m\<lparr>mainMemory := overlay (mem s) (unat f * PAGE_SIZE) (vpage s t v)\<rparr>"
  let ?s6 = "?s5\<lparr>mmu := ?m (mmu ?s5)\<rparr>"
  let ?s7 = "set_core f (?c\<lparr>last_use_counter := references_done (mmu ?s4), coreSpaceId := addressSpaceId sp,
    coreVirtualPage := of_nat v\<rparr>) ?s6"
  have "LoadPage t a f ?s5 = Inr ?s7"
    by (subst LoadPage_run [OF sp5 small_frame [OF assms(4)] fa _ start _ _ vpage_length [OF assms(1,2)]])
      (use fit core src sp page_index [OF _ assms(2)] inv in \<open>simp_all add: set_core_def page_image_static\<close>)
  then have eq: "rbind (getPageTableEntry t (a div page_bytes) s) (\<lambda>e2.
      rbind (set_page t (a div page_bytes) (e2\<lparr>physicalPage := f\<rparr>) s) (\<lambda>s3.
        let s4 = s3\<lparr>mmu := (mmu s3)\<lparr>references_done := references_done (mmu s3) + 1\<rparr>\<rparr> in
        rbind (core_at f s4) (\<lambda>c.
          LoadPage t a f (set_core f (c\<lparr>last_use_counter := references_done (mmu s4)\<rparr>) s4)))) = Inr ?s7"
    using assms(2,5) core by (simp add: set_page_put core_at_def)
  have "spaces ?s7 = spaces (fill t v f s)" by (simp add: fill_def set_core_def put_page_def)
  note sf = spaces_fields [OF this]
  have "same_view (fill t v f s) ?s7"
    unfolding same_view_def sf using core sp(2) by (simp add: set_core_def map_update)
  moreover have "registers ?s7 = registers s" "handlers ?s7 = handlers s" "numFaults ?s7 = numFaults s"
    by (simp_all add: set_core_def)
  moreover have "pg ?s7 t v = (pg s t v)\<lparr>physicalPage := f\<rparr>"
    using pg_put_page [OF assms(2), of "(pg s t v)\<lparr>physicalPage := f\<rparr>" t v] by (simp add: set_core_def)
  ultimately show ?thesis unfolding eq by blast
qed

subsection \<open>The page fault handler\<close>

lemma list_update_mem: "e \<in> set es \<Longrightarrow> e \<noteq> es ! i \<Longrightarrow> e \<in> set (es[i := x])"
  by (metis in_set_conv_nth length_list_update nth_list_update_neq)

definition cached :: "vmachine \<Rightarrow> nat \<Rightarrow> bool" where
  "cached s v \<longleftrightarrow> (\<exists>e \<in> set (tlbs s). valid e \<and> virtualPage e = of_nat v)"

lemma cached_resid:
  assumes "vm_inv s H" "cached s v" "v < npages s (thisThread s)"
  shows "resid s (thisThread s) v"
proof -
  from assms(2) obtain e where e: "e \<in> set (tlbs s)" "valid e" "virtualPage e = of_nat v" by (auto simp: cached_def)
  then have "cached_ok s e" using assms(1) by (simp add: vm_inv_def tlb_ok_def)
  then obtain w where w: "virtualPage e = of_nat w" "resid s (thisThread s) w" unfolding cached_ok_def by blast
  have "unat (of_nat v :: u32) = v" "unat (of_nat w :: u32) = w"
    using page_index [OF _ assms(3)] page_index [OF _ resid_some [OF w(2)]] assms(1) by (simp_all add: vm_inv_def)
  with e(3) w show ?thesis by auto
qed

lemma insert_inv:
  assumes "vm_inv s {}" "i < TLB_SIZE" "\<not> valid (tlbs s ! i)" "resid s (thisThread s) v" "\<not> cached s v" "valid (pg s (thisThread s) v)"
  shows "vm_inv (set_tlb i (pg s (thisThread s) v) s) {} \<and> same_memory s (set_tlb i (pg s (thisThread s) v) s)
    \<and> cached (set_tlb i (pg s (thisThread s) v) s) v"
proof -
  let ?e = "pg s (thisThread s) v"
  let ?s = "set_tlb i ?e s"
  note inv = assms(1) [unfolded vm_inv_def]
  have hw: "tlb (mmu s) \<noteq> None" "length (tlbs s) = TLB_SIZE" using inv by (simp_all add: hw_ok_def)
  note tl = tlbs_set_tlb [OF hw(1), of i ?e]
  note i = init_same [of ?s s, simplified]
  have e: "virtualPage ?e = of_nat v" "\<not> readOnly ?e" using inv resid_some [OF assms(4)] by (simp_all add: pages_ok_def)
  have r: "resid ?s = resid s" "vpage ?s = vpage s" by (simp_all add: fun_eq_iff resid_def vpage_def i)
  have "hw_ok ?s" "procs_ok ?s" "files_ok ?s" "pages_ok ?s" "owned_ok ?s {}"
    using inv hw by (simp_all add: hw_ok_def procs_ok_def files_ok_def pages_ok_def owned_ok_def tl r i)
  moreover have "tlb_ok ?s"
  proof -
    have "cached_ok ?s x" if x: "x \<in> set (tlbs ?s)" "valid x" for x
    proof -
      have "x = ?e \<or> x \<in> set (tlbs s)" using x(1) set_update_subset_insert unfolding tl by fast
      then show ?thesis
      proof
        assume "x = ?e"
        then show ?thesis using e assms(4) by (auto simp: cached_ok_def r)
      next
        assume "x \<in> set (tlbs s)"
        then show ?thesis using inv x(2) by (simp add: tlb_ok_def cached_ok_def r)
      qed
    qed
    moreover have "j = k" if "j < TLB_SIZE" "k < TLB_SIZE" "valid (tlbs ?s ! j)" "valid (tlbs ?s ! k)"
      "virtualPage (tlbs ?s ! j) = virtualPage (tlbs ?s ! k)" for j k
    proof -
      have new: "valid (tlbs s ! m) \<Longrightarrow> virtualPage (tlbs s ! m) \<noteq> of_nat v" if "m < TLB_SIZE" for m
        using assms(5) that hw(2) by (auto simp: cached_def)
      have other: "m = i" if m: "m < TLB_SIZE" "valid (tlbs ?s ! m)" "virtualPage (tlbs ?s ! m) = of_nat v" for m
        using new [OF m(1)] m(2,3) by (cases "m = i") (simp_all add: tl)
      have at: "virtualPage (tlbs ?s ! i) = of_nat v" using hw(2) assms(2) e(1) by (simp add: tl)
      show ?thesis
      proof (cases "j = i \<or> k = i")
        case True
        then show ?thesis
        proof
          assume "j = i"
          then show ?thesis using other [OF that(2,4)] at that(5) by simp
        next
          assume "k = i"
          then show ?thesis using other [OF that(1,3)] at that(5) by simp
        qed
      next
        case False
        then have "valid (tlbs s ! j)" "valid (tlbs s ! k)" "virtualPage (tlbs s ! j) = virtualPage (tlbs s ! k)"
          using that by (simp_all add: tl)
        with inv that(1,2) hw(2) show ?thesis unfolding tlb_ok_def by auto
      qed
    qed
    ultimately show ?thesis using hw(2) by (simp add: tlb_ok_def tl)
  qed
  moreover have "content_ok ?s"
  proof -
    have "is_dirty ?s t w" if d: "is_dirty s t w" for t w
    proof -
      have "x \<in> set (tlbs ?s)" if "x \<in> set (tlbs s)" "valid x" for x
        using that assms(3) list_update_mem [of x "tlbs s" i ?e] unfolding tl by auto
      with d show ?thesis by (auto simp: is_dirty_def)
    qed
    then have "if resid s t w then is_dirty ?s t w \<or> vpage s t w = init_page s t w
        else dirty (pg s t w) \<longrightarrow> w * PAGE_SIZE + PAGE_SIZE \<le> length (swap s t)" if "w < npages s t" for t w
      using inv that unfolding content_ok_def by metis
    then show ?thesis by (simp add: content_ok_def r i)
  qed
  moreover have "same_memory s ?s" by (simp add: same_memory_def r)
  moreover have "cached ?s v" unfolding cached_def tl
    using set_update_memI [of i "tlbs s" ?e] assms(2,6) hw(2) e(1) by auto
  ultimately show ?thesis by (simp add: vm_inv_def)
qed

lemma same_view_cached:
  assumes "same_view s s'" "tlb (mmu s) \<noteq> None"
  shows "cached s' v \<longleftrightarrow> cached s v"
proof -
  note m = same_view_tlbs(1) [OF assms]
  have "\<exists>e \<in> set es. valid e \<and> virtualPage e = of_nat v"
    if "map (\<lambda>e. (look e, valid e)) es' = map (\<lambda>e. (look e, valid e)) es" "e' \<in> set es'" "valid e'" "virtualPage e' = of_nat v"
    for es es' e'
    using ex_tlb_view [OF that(1,2)] that(3,4) by (auto simp: look_eq)
  from this [OF m] this [OF m [symmetric]] show ?thesis unfolding cached_def by blast
qed

lemma set_valid_view:
  assumes "v < npages s t"
  shows "same_view s (put_page t v ((pg s t v)\<lparr>valid := True\<rparr>) s)"
  using assms by (auto simp: same_view_def fun_eq_iff pg_put_page look_eq)

text \<open>The first half of the handler brings the page into memory.\<close>

lemma fault_load:
  assumes "vm_inv s {}" "v < npages s (thisThread s)" "unat (a div page_bytes) = v" "\<not> cached s v"
  defines "s1 \<equiv> put_page (thisThread s) v ((pg s (thisThread s) v)\<lparr>valid := True\<rparr>) s"
  shows "\<exists>s'. (if physicalPage (pg s (thisThread s) v) = INT_MAX
      then rbind (take_frame s1) (\<lambda>(frame, s2).
           rbind (getPageTableEntry (thisThread s) (a div page_bytes) s2) (\<lambda>e2.
           rbind (set_page (thisThread s) (a div page_bytes) (e2\<lparr>physicalPage := frame\<rparr>) s2) (\<lambda>s3.
             let s4 = s3\<lparr>mmu := (mmu s3)\<lparr>references_done := references_done (mmu s3) + 1\<rparr>\<rparr> in
             rbind (core_at frame s4) (\<lambda>c.
               LoadPage (thisThread s) a frame (set_core frame (c\<lparr>last_use_counter := references_done (mmu s4)\<rparr>) s4)))))
      else Inr s1) = Inr s'
    \<and> vm_inv s' {} \<and> same_memory s s' \<and> resid s' (thisThread s) v \<and> valid (pg s' (thisThread s) v) \<and> \<not> cached s' v
    \<and> registers s' = registers s \<and> handlers s' = handlers s \<and> numFaults s' = numFaults s"
proof -
  let ?t = "thisThread s"
  have sv: "same_view s s1" unfolding s1_def by (rule set_valid_view [OF assms(2)])
  from same_view_inv [OF sv assms(1)] have s1: "vm_inv s1 {}" "same_memory s s1" by auto
  have f1: "registers s1 = registers s" "handlers s1 = handlers s" "numFaults s1 = numFaults s" "npages s1 = npages s"
    "thisThread s1 = ?t"
    by (simp_all add: s1_def fun_eq_iff)
  have pg1: "pg s1 ?t v = (pg s ?t v)\<lparr>valid := True\<rparr>" using assms(2) by (simp add: s1_def pg_put_page)
  have hw: "tlb (mmu s) \<noteq> None" using assms(1) by (simp add: vm_inv_def hw_ok_def)
  show ?thesis
  proof (cases "physicalPage (pg s ?t v) = INT_MAX")
    case False
    then have "resid s1 ?t v" using pg1 assms(2) f1 by (simp add: resid_def)
    then show ?thesis using False s1 pg1 f1 assms(4) same_view_cached [OF sv hw] by simp
  next
    case True
    then have nr: "\<not> resid s1 ?t v" using pg1 by (simp add: resid_def)
    from take_frame_ok [OF s1(1)] obtain f s2 where
      s2: "take_frame s1 = Inr (f, s2)" "unat f < NUM_PHYS_PAGES" "vm_inv s2 {unat f}" "same_memory s1 s2"
        "registers s2 = registers s1" "handlers s2 = handlers s1" "numFaults s2 = numFaults s1"
        "unat f \<in> marked (addressesBitMap s2)" "\<forall>t w. w < npages s1 t \<and> \<not> resid s1 t w \<longrightarrow> pg s2 t w = pg s1 t w" by blast
    have v2: "v < npages s2 ?t" "thisThread s2 = ?t" using s2(4) s1(2) assms(2) by (simp_all add: same_memory_def)
    have pg2: "pg s2 ?t v = pg s1 ?t v" using s2(9) nr assms(2) f1(4) by simp
    then have nr2: "\<not> resid s2 ?t v" using nr v2(1) assms(2) f1(4) by (simp add: resid_def)
    from load_step [OF s2(3) v2(1) nr2 s2(2) assms(3)] obtain s5 where
      s5: "rbind (getPageTableEntry ?t (a div page_bytes) s2) (\<lambda>e2.
           rbind (set_page ?t (a div page_bytes) (e2\<lparr>physicalPage := f\<rparr>) s2) (\<lambda>s3.
             let s4 = s3\<lparr>mmu := (mmu s3)\<lparr>references_done := references_done (mmu s3) + 1\<rparr>\<rparr> in
             rbind (core_at f s4) (\<lambda>c.
               LoadPage ?t a f (set_core f (c\<lparr>last_use_counter := references_done (mmu s4)\<rparr>) s4)))) = Inr s5"
        "same_view (fill ?t v f s2) s5" "registers s5 = registers s2" "handlers s5 = handlers s2" "numFaults s5 = numFaults s2"
        "pg s5 ?t v = (pg s2 ?t v)\<lparr>physicalPage := f\<rparr>" by blast
    note fi = fill_inv [OF s2(3) v2(1) nr2 s2(2,8)]
    from same_view_inv [OF s5(2)] fi have i5: "vm_inv s5 {}" "same_memory s s5"
      using s1(2) s2(4) same_memory_trans by blast+
    have "resid s5 ?t v" using same_view_resid [OF s5(2)] fill_resid [OF v2(1) s2(2)] by simp
    moreover have "\<not> cached s2 v" using cached_resid [OF s2(3), of v] v2 nr2 by auto
    then have "\<not> cached s5 v"
      using same_view_cached [OF s5(2)] s2(3) by (simp add: cached_def vm_inv_def hw_ok_def)
    ultimately show ?thesis
      using True s2(1,5-7) s5(1,3-6) i5 pg2 pg1 f1(1-3) by simp
  qed
qed

text \<open>The entry that the handler is going to replace is written back first.\<close>

lemma free_slot:
  assumes "vm_inv s {}" "i < TLB_SIZE" "\<not> cached s v"
  shows "\<exists>s'. (if valid (tlbs s ! i)
      then set_page (thisThread s) (virtualPage (tlbs s ! i)) ((tlbs s ! i)\<lparr>valid := False\<rparr>)
        (set_tlb i ((tlbs s ! i)\<lparr>valid := False\<rparr>) s)
      else Inr s) = Inr s'
    \<and> vm_inv s' {} \<and> same_memory s s' \<and> \<not> valid (tlbs s' ! i) \<and> \<not> cached s' v
    \<and> pg s' (thisThread s) v = pg s (thisThread s) v
    \<and> registers s' = registers s \<and> handlers s' = handlers s \<and> numFaults s' = numFaults s"
proof (cases "valid (tlbs s ! i)")
  case True
  let ?w = "unat (virtualPage (tlbs s ! i))"
  let ?s = "save_entry i ?w s"
  have hw: "tlb (mmu s) \<noteq> None" "length (tlbs s) = TLB_SIZE" using assms(1) by (simp_all add: vm_inv_def hw_ok_def)
  note wn = cached_facts(2) [OF assms(1,2) True refl]
  have "tlbs s ! i \<in> set (tlbs s)" using assms(2) hw(2) by simp
  then have "virtualPage (tlbs s ! i) \<noteq> of_nat v" using True assms(3) by (auto simp: cached_def)
  then have "v \<noteq> ?w" by auto
  moreover have "\<not> cached ?s v"
  proof
    assume "cached ?s v"
    then obtain e where e: "e \<in> set (tlbs ?s)" "valid e" "virtualPage e = of_nat v" by (auto simp: cached_def)
    then obtain j where "j < length (tlbs s)" "e = tlbs s ! j" using other_valid [of e "tlbs s" i] by (auto simp: save_entry_tlbs [OF hw(1)])
    then have "e \<in> set (tlbs s)" by simp
    then show False using e assms(3) by (auto simp: cached_def)
  qed
  moreover have "\<not> valid (tlbs ?s ! i)" using hw assms(2) by (simp add: save_entry_tlbs)
  moreover have "set_page (thisThread s) (virtualPage (tlbs s ! i)) ((tlbs s ! i)\<lparr>valid := False\<rparr>)
        (set_tlb i ((tlbs s ! i)\<lparr>valid := False\<rparr>) s) = Inr ?s"
    using wn by (simp add: set_page_put save_entry_def)
  ultimately show ?thesis
    using True save_entry_inv [OF assms(1,2) True refl] wn by (intro exI [of _ ?s]) (simp add: save_entry_pg)
qed (use assms in simp)

lemma numFaults_view: "same_view s (s\<lparr>numFaults := n\<rparr>)"
  by (simp add: same_view_def fun_eq_iff npages_def pg_def static_def)

lemma page_fault_handler:
  assumes "vm_inv s {}" "v < npages s (thisThread s)" "\<not> cached s v" "length (registers s) = NUM_TOTAL_REGS"
    and "unat (registers s ! BAD_VADDR_REG div page_bytes) = v"
  shows "\<exists>s'. TLBPageFaultHandler exc s = Inr s' \<and> vm_inv s' {} \<and> same_memory s s' \<and> cached s' v
    \<and> registers s' = registers s \<and> handlers s' = handlers s"
proof -
  let ?t = "thisThread s"
  let ?a = "registers s ! BAD_VADDR_REG"
  from fault_load [OF assms(1,2,5,3)] obtain s5 where s5: "(if physicalPage (pg s ?t v) = INT_MAX
      then rbind (take_frame (put_page ?t v ((pg s ?t v)\<lparr>valid := True\<rparr>) s)) (\<lambda>(frame, s2).
           rbind (getPageTableEntry ?t (?a div page_bytes) s2) (\<lambda>e2.
           rbind (set_page ?t (?a div page_bytes) (e2\<lparr>physicalPage := frame\<rparr>) s2) (\<lambda>s3.
             let s4 = s3\<lparr>mmu := (mmu s3)\<lparr>references_done := references_done (mmu s3) + 1\<rparr>\<rparr> in
             rbind (core_at frame s4) (\<lambda>c.
               LoadPage ?t ?a frame (set_core frame (c\<lparr>last_use_counter := references_done (mmu s4)\<rparr>) s4)))))
      else Inr (put_page ?t v ((pg s ?t v)\<lparr>valid := True\<rparr>) s)) = Inr s5"
    "vm_inv s5 {}" "same_memory s s5" "resid s5 ?t v" "valid (pg s5 ?t v)" "\<not> cached s5 v"
    "registers s5 = registers s" "handlers s5 = handlers s" "numFaults s5 = numFaults s" by blast
  have t5: "thisThread s5 = ?t" using s5(3) by (simp add: same_memory_def)
  define i where "i = unat (numFaults s5 ?t mod of_nat TLB_SIZE)"
  have i: "i < TLB_SIZE" unfolding i_def by (simp add: unat_mod TLB_SIZE_def)
  have hw5: "hw_ok s5" using s5(2) by (simp add: vm_inv_def)
  from free_slot [OF s5(2) i s5(6)] obtain s6 where s6: "(if valid (tlbs s5 ! i)
      then set_page ?t (virtualPage (tlbs s5 ! i)) ((tlbs s5 ! i)\<lparr>valid := False\<rparr>) (set_tlb i ((tlbs s5 ! i)\<lparr>valid := False\<rparr>) s5)
      else Inr s5) = Inr s6"
    "vm_inv s6 {}" "same_memory s5 s6" "\<not> valid (tlbs s6 ! i)" "\<not> cached s6 v" "pg s6 ?t v = pg s5 ?t v"
    "registers s6 = registers s5" "handlers s6 = handlers s5" "numFaults s6 = numFaults s5" unfolding t5 by blast
  have t6: "thisThread s6 = ?t" "resid s6 ?t v" "v < npages s6 ?t"
    using s6(3,6) t5 s5(4) by (simp_all add: same_memory_def resid_def)
  let ?s7 = "set_tlb i (pg s6 ?t v) s6"
  let ?s8 = "?s7\<lparr>numFaults := (numFaults s6)(?t := numFaults s6 ?t + 1)\<rparr>"
  from insert_inv [OF s6(2) i s6(4) _ s6(5), unfolded t6(1), OF t6(2)] s5(5) s6(6) have s7: "vm_inv ?s7 {}" "same_memory s6 ?s7" "cached ?s7 v" by auto
  have "ReadRegister s BAD_VADDR_REG = Inr ?a" by (simp add: ReadRegister_def BAD_VADDR_REG_def NUM_TOTAL_REGS_def)
  then have "TLBPageFaultHandler exc s = Inr ?s8"
    unfolding TLBPageFaultHandler_def Let_def
    by (simp only: rbind.simps set_page_put [OF assms(2,5)] s5(1) [unfolded Let_def] i_def [symmetric]
        tlb_at_ok [OF hw5 i] s6(1) set_page_put(2) [OF t6(3) assms(5)])
  moreover have "vm_inv ?s8 {}" "same_memory ?s7 ?s8" using same_view_inv [OF numFaults_view s7(1)] by auto
  moreover have "cached ?s8 v" using s7(3) by (simp add: cached_def)
  moreover have "same_memory s ?s8" using s5(3) s6(3) s7(2) calculation(3) same_memory_trans by blast
  ultimately show ?thesis using s6(7,8) s5(7,8) by (intro exI [of _ ?s8]) simp
qed

end
