(* ===== verification/User_Memory.thy ===== *)
theory User_Memory
  imports Virtual_Memory
begin

text \<open>
  User memory as the simulated processor and the kernel access it: reads and writes with page faults
  handled and retried are accesses to the flat memory of the running process, and creating, switching
  and deleting address spaces keep the memory of every other process.
\<close>

section \<open>Translation\<close>

lemma vm_mmu_ok:
  assumes "vm_inv s H"
  shows "mmu_ok (mmu s)"
proof -
  note inv = assms [unfolded vm_inv_def]
  have "unat (physicalPage e) < NUM_PHYS_PAGES" if "e \<in> set (tlbs s)" "valid e" for e
  proof -
    from inv that have "cached_ok s e" by (simp add: tlb_ok_def)
    then obtain v where "resid s (thisThread s) v" "physicalPage e = physicalPage (pg s (thisThread s) v)"
      unfolding cached_ok_def by blast
    then show ?thesis using resid_small [of s] inv by simp
  qed
  then show ?thesis using inv by (auto simp: mmu_ok_def hw_ok_def)
qed

definition page_no :: "u32 \<Rightarrow> nat" where
  "page_no a = unat a div PAGE_SIZE"

definition page_off :: "u32 \<Rightarrow> nat" where
  "page_off a = unat a mod PAGE_SIZE"

lemma page_no_unat: "unat (a div page_bytes) = page_no a"
  by (simp add: page_no_def unat_div_distrib PAGE_SIZE_def SECTOR_SIZE_def)

lemma page_no_word: "a div page_bytes = of_nat (page_no a)"
  by (simp add: page_no_unat [symmetric])

lemma find_tlb_cached:
  assumes "tlb (mmu s) \<noteq> None"
  shows "(find_tlb (a div page_bytes) 0 (tlbs s) = None \<and> \<not> cached s (page_no a))
    \<or> (\<exists>i < length (tlbs s). find_tlb (a div page_bytes) 0 (tlbs s) = Some i \<and> valid (tlbs s ! i)
        \<and> virtualPage (tlbs s ! i) = a div page_bytes \<and> cached s (page_no a))"
  using find_tlb_cases [of "a div page_bytes" 0 "tlbs s"] unfolding cached_def page_no_word [symmetric] by auto

text \<open>What translation does to the MMU: counters, and the use and dirty bits of the entry.\<close>

definition counted :: "MMU \<Rightarrow> MMU" where
  "counted m = m\<lparr>references_done := references_done m + 1, tlbTotal := tlbTotal m + 1\<rparr>"

definition hit :: "MMU \<Rightarrow> nat \<Rightarrow> bool \<Rightarrow> MMU" where
  "hit m i writing = (let e = the (tlb m) ! i; f = unat (physicalPage e) in
     (counted m)\<lparr>tlbHitCount := tlbHitCount m + 1,
       coreMap := (coreMap m)[f := (coreMap m ! f)\<lparr>last_use_counter := references_done m + 1\<rparr>],
       tlb := Some ((the (tlb m))[i := e\<lparr>useBit := True, dirty := (dirty e \<or> writing)\<rparr>])\<rparr>)"

lemma translate_miss:
  assumes "vm_inv s H" "\<not> cached s (page_no a)" "\<not> misaligned a n"
  shows "Translate (mmu s) a n w = Inr (Inl PAGE_FAULT_EXCEPTION, counted (mmu s))"
proof -
  have t: "tlb (mmu s) \<noteq> None" "pageTable (mmu s) = None" using assms(1) by (simp_all add: vm_inv_def hw_ok_def)
  with find_tlb_cached [OF t(1), of a] assms(2) have "find_tlb (a div page_bytes) 0 (tlbs s) = None" by blast
  then show ?thesis
    using t assms(3) by (auto simp: Translate_def RetrievePageEntry_def misaligned_def counted_def Let_def)
qed

lemma translate_hit:
  assumes "vm_inv s H" "cached s (page_no a)" "page_no a < npages s (thisThread s)" "\<not> misaligned a n" "n \<in> {1, 2, 4}"
  obtains i where "i < TLB_SIZE" "valid (tlbs s ! i)" "virtualPage (tlbs s ! i) = of_nat (page_no a)"
    "Translate (mmu s) a n w = Inr (Inr (of_nat (frame s (thisThread s) (page_no a) * PAGE_SIZE + page_off a)), hit (mmu s) i w)"
    "frame s (thisThread s) (page_no a) * PAGE_SIZE + page_off a + unat n \<le> MEMORY_SIZE"
    "unat (of_nat (frame s (thisThread s) (page_no a) * PAGE_SIZE + page_off a) :: u32)
       = frame s (thisThread s) (page_no a) * PAGE_SIZE + page_off a"
proof -
  note inv = assms(1) [unfolded vm_inv_def]
  have t: "tlb (mmu s) \<noteq> None" "pageTable (mmu s) = None" "length (tlbs s) = TLB_SIZE" using inv by (simp_all add: hw_ok_def)
  with find_tlb_cached [OF t(1), of a] assms(2) obtain i where
    i: "i < TLB_SIZE" "find_tlb (a div page_bytes) 0 (tlbs s) = Some i" "valid (tlbs s ! i)"
      "virtualPage (tlbs s ! i) = a div page_bytes" by auto
  obtain es where es: "tlb (mmu s) = Some es" using t(1) by blast
  note c = cached_facts [OF assms(1) i(1,3,4), unfolded page_no_unat]
  let ?f = "physicalPage (pg s (thisThread s) (page_no a))"
  have f: "unat ?f < NUM_PHYS_PAGES" using resid_small [of s] inv c(1) by blast
  note pa = physAddr_small [OF f assms(4,5), folded page_off_def]
  have n: "\<not> of_nat NUM_PHYS_PAGES \<le> ?f" using f by (simp add: word_le_nat_alt NUM_PHYS_PAGES_def not_le)
  have "Translate (mmu s) a n w = Inr (Inr (of_nat (unat ?f * PAGE_SIZE + page_off a)), hit (mmu s) i w)"
    using t(2) assms(4) i(2) c(3,4) es f n pa(1,4) inv
    by (simp add: Translate_def RetrievePageEntry_def misaligned_def hit_def counted_def Let_def hw_ok_def)
  then show ?thesis using that [OF i(1,3)] i(4) page_no_word pa(2,3) by simp
qed

lemma counted_view: "same_view s (s\<lparr>mmu := counted (mmu s)\<rparr>)"
  by (simp add: same_view_def counted_def)

lemma hit_view:
  assumes "vm_inv s H" "i < TLB_SIZE" "valid (tlbs s ! i)" "w \<longrightarrow> dirty (tlbs s ! i)"
  shows "same_view s (s\<lparr>mmu := hit (mmu s) i w\<rparr>)"
proof -
  obtain es where es: "tlb (mmu s) = Some es" using assms(1) by (auto simp: vm_inv_def hw_ok_def)
  let ?e = "es ! i" and ?cs = "coreMap (mmu s)"
  let ?f = "unat (physicalPage ?e)"
  have "(look (?e\<lparr>useBit := True, dirty := dirty ?e \<or> w\<rparr>), valid (?e\<lparr>useBit := True, dirty := dirty ?e \<or> w\<rparr>)) = (look ?e, valid ?e)"
    using assms(4) es by (auto simp: look_def)
  then have "map (\<lambda>e. (look e, valid e)) (es[i := ?e\<lparr>useBit := True, dirty := dirty ?e \<or> w\<rparr>]) = map (\<lambda>e. (look e, valid e)) es"
    by (rule map_update_same)
  moreover have "map (\<lambda>c. (coreSpaceId c, coreVirtualPage c)) (?cs[?f := (?cs ! ?f)\<lparr>last_use_counter := x\<rparr>])
      = map (\<lambda>c. (coreSpaceId c, coreVirtualPage c)) ?cs" for x
    by (rule map_update_same) simp
  ultimately show ?thesis by (simp add: same_view_def hit_def counted_def Let_def es)
qed

text \<open>The first write to a page marks its TLB entry.\<close>

definition mark_dirty :: "nat \<Rightarrow> vmachine \<Rightarrow> vmachine" where
  "mark_dirty i s = set_tlb i ((tlbs s ! i)\<lparr>dirty := True\<rparr>) s"

lemma mark_dirty_inv:
  assumes "vm_inv s H" "i < TLB_SIZE" "valid (tlbs s ! i)" "virtualPage (tlbs s ! i) = of_nat v"
  shows "vm_inv (mark_dirty i s) H \<and> same_memory s (mark_dirty i s) \<and> is_dirty (mark_dirty i s) (thisThread s) v"
proof -
  let ?s = "mark_dirty i s" and ?e = "(tlbs s ! i)\<lparr>dirty := True\<rparr>"
  note inv = assms(1) [unfolded vm_inv_def]
  have hw: "tlb (mmu s) \<noteq> None" "length (tlbs s) = TLB_SIZE" using inv by (simp_all add: hw_ok_def)
  have tl: "tlbs ?s = (tlbs s)[i := ?e]" by (simp add: mark_dirty_def tlbs_set_tlb [OF hw(1)])
  have f: "npages ?s = npages s" "pg ?s = pg s" "static ?s = static s" "mem ?s = mem s" "coreMap (mmu ?s) = coreMap (mmu s)"
    "pageTable (mmu ?s) = pageTable (mmu s)" "thisThread ?s = thisThread s" "addressesBitMap ?s = addressesBitMap s"
    "runningProcesses ?s = runningProcesses s" "fileSystem ?s = fileSystem s" "tlb (mmu ?s) \<noteq> None"
    using hw(1) by (simp_all add: mark_dirty_def)
  note i = init_same [of ?s s, unfolded f, OF refl refl]
  have r: "resid ?s = resid s" "vpage ?s = vpage s" by (simp_all add: fun_eq_iff resid_def vpage_def i f)
  have "hw_ok ?s" "procs_ok ?s" "files_ok ?s" "pages_ok ?s" "owned_ok ?s H"
    using inv hw f by (simp_all add: hw_ok_def procs_ok_def files_ok_def pages_ok_def owned_ok_def tl r i)
  moreover have "tlb_ok ?s"
  proof -
    have same: "valid (tlbs ?s ! k) = valid (tlbs s ! k)" "virtualPage (tlbs ?s ! k) = virtualPage (tlbs s ! k)"
      "physicalPage (tlbs ?s ! k) = physicalPage (tlbs s ! k)" "readOnly (tlbs ?s ! k) = readOnly (tlbs s ! k)"
      "dirty (tlbs s ! k) \<longrightarrow> dirty (tlbs ?s ! k)" if "k < TLB_SIZE" for k
      using that hw(2) by (cases "k = i"; simp add: tl)+
    have "cached_ok ?s e" if "e \<in> set (tlbs ?s)" "valid e" for e
    proof -
      from that(1) obtain k where k: "k < TLB_SIZE" "e = tlbs ?s ! k" using hw(2) by (auto simp: in_set_conv_nth tl)
      then have "valid (tlbs s ! k)" "tlbs s ! k \<in> set (tlbs s)" using that(2) same(1) hw(2) by simp_all
      then have "cached_ok s (tlbs s ! k)" using inv by (simp add: tlb_ok_def)
      then show ?thesis unfolding k(2) cached_ok_def f r same(2-4) [OF k(1)] using same(5) [OF k(1)] by blast
    qed
    moreover have "j = k" if "j < TLB_SIZE" "k < TLB_SIZE" "valid (tlbs ?s ! j)" "valid (tlbs ?s ! k)"
      "virtualPage (tlbs ?s ! j) = virtualPage (tlbs ?s ! k)" for j k
      using inv that same hw(2) unfolding tlb_ok_def by simp
    moreover have "length (tlbs ?s) = TLB_SIZE" using hw(2) by (simp add: tl)
    ultimately show ?thesis by (simp add: tlb_ok_def)
  qed
  moreover have "content_ok ?s"
  proof -
    have "is_dirty ?s t w" if d: "is_dirty s t w" for t w
    proof -
      have "\<exists>e \<in> set (tlbs ?s). valid e \<and> virtualPage e = of_nat w \<and> dirty e"
        if x: "x \<in> set (tlbs s)" "valid x" "virtualPage x = of_nat w" "dirty x" for x
      proof (cases "x = tlbs s ! i")
        case True
        then show ?thesis using x assms(2) hw(2) set_update_memI [of i "tlbs s" ?e] unfolding tl by (intro bexI [of _ ?e]) simp_all
      next
        case False
        then show ?thesis using x list_update_mem [of x "tlbs s" i ?e] unfolding tl by auto
      qed
      with d show ?thesis by (auto simp: is_dirty_def f)
    qed
    then have "if resid s t w then is_dirty ?s t w \<or> vpage s t w = init_page s t w
        else dirty (pg s t w) \<longrightarrow> w * PAGE_SIZE + PAGE_SIZE \<le> length (swap s t)" if "w < npages s t" for t w
      using inv that unfolding content_ok_def by metis
    then show ?thesis by (simp add: content_ok_def r i f)
  qed
  moreover have "is_dirty ?s (thisThread s) v"
    using assms(2-4) hw(2) set_update_memI [of i "tlbs s" ?e] by (auto simp: is_dirty_def f tl intro!: bexI [of _ ?e])
  ultimately show ?thesis by (simp add: vm_inv_def same_memory_def r f)
qed

definition poke :: "nat \<Rightarrow> byte list \<Rightarrow> vmachine \<Rightarrow> vmachine" where
  "poke p bs s = s\<lparr>mmu := (mmu s)\<lparr>mainMemory := overlay (mem s) p bs\<rparr>\<rparr>"

lemma slice_overlay_in:
  assumes "q + n \<le> length xs" "off + length bs \<le> n"
  shows "slice q n (overlay xs (q + off) bs) = overlay (slice q n xs) off bs"
proof (rule nth_equalityI)
  have len: "length (overlay xs (q + off) bs) = length xs" using assms by simp
  then show "length (slice q n (overlay xs (q + off) bs)) = length (overlay (slice q n xs) off bs)" using assms by simp
  fix k assume "k < length (slice q n (overlay xs (q + off) bs))"
  then have k: "k < n" "q + k < length xs" using len assms(1) by simp_all
  then show "slice q n (overlay xs (q + off) bs) ! k = overlay (slice q n xs) off bs ! k"
    using assms len by (simp add: nth_overlay)
qed

lemma poke_vpage:
  assumes "vm_inv s H" "resid s t v" "off + length bs \<le> PAGE_SIZE" "w < npages s t'"
  shows "vpage (poke (frame s t v * PAGE_SIZE + off) bs s) t' w
    = (if t' = t \<and> w = v then overlay (vpage s t v) off bs else vpage s t' w)"
proof -
  note inv = assms(1) [unfolded vm_inv_def]
  let ?p = "frame s t v * PAGE_SIZE"
  have own: "owned_ok s H" using inv by blast
  have fit: "?p + PAGE_SIZE \<le> length (mem s)" using frame_slice_length(1) resid_small [OF _ assms(2)] inv by blast
  then have fit2: "?p + off + length bs \<le> length (mem s)" using assms(3) by simp
  have "slice ?p PAGE_SIZE (overlay (mem s) (?p + off) bs) = overlay (slice ?p PAGE_SIZE (mem s)) off bs"
    using slice_overlay_in [OF fit assms(3)] .
  moreover have "slice (frame s t' w * PAGE_SIZE) PAGE_SIZE (overlay (mem s) (?p + off) bs) = slice (frame s t' w * PAGE_SIZE) PAGE_SIZE (mem s)"
    if "resid s t' w" "\<not> (t' = t \<and> w = v)"
  proof -
    have "frame s t' w \<noteq> frame s t v" using frame_inj [of s H t v t' w] inv assms(2) that by auto
    from page_slots_disjoint [OF this] show ?thesis using slice_overlay_other [OF fit2] assms(3) by auto
  qed
  moreover have "physicalPage (pg s t v) \<noteq> INT_MAX" using assms(2) by (simp add: resid_def)
  ultimately show ?thesis using assms(4) by (auto simp: vpage_def poke_def resid_def)
qed

lemma poke_inv:
  assumes "vm_inv s H" "resid s t v" "is_dirty s t v" "off + length bs \<le> PAGE_SIZE"
  shows "vm_inv (poke (frame s t v * PAGE_SIZE + off) bs s) H"
proof -
  let ?s = "poke (frame s t v * PAGE_SIZE + off) bs s"
  note inv = assms(1) [unfolded vm_inv_def]
  have fit: "frame s t v * PAGE_SIZE + PAGE_SIZE \<le> length (mem s)"
    using frame_slice_length(1) resid_small [OF _ assms(2)] inv by blast
  then have "length (mem ?s) = length (mem s)" using assms(4) by (simp add: poke_def)
  moreover have f: "npages ?s = npages s" "pg ?s = pg s" "static ?s = static s" "coreMap (mmu ?s) = coreMap (mmu s)"
    "pageTable (mmu ?s) = pageTable (mmu s)" "tlb (mmu ?s) = tlb (mmu s)" "thisThread ?s = thisThread s"
    "addressesBitMap ?s = addressesBitMap s" "runningProcesses ?s = runningProcesses s" "fileSystem ?s = fileSystem s"
    "resid ?s = resid s" "init_res ?s = init_res s" "init_page ?s = init_page s" "swap ?s = swap s"
    by (simp_all add: poke_def)
  moreover have d: "is_dirty ?s = is_dirty s" "cached_ok ?s = cached_ok s" by (simp_all add: fun_eq_iff is_dirty_def cached_ok_def f)
  ultimately have "hw_ok ?s" "procs_ok ?s" "files_ok ?s" "pages_ok ?s" "owned_ok ?s H" "tlb_ok ?s"
    using inv by (simp_all add: hw_ok_def procs_ok_def files_ok_def pages_ok_def owned_ok_def tlb_ok_def)
  moreover have "content_ok ?s"
  proof -
    have "if resid s t' w then is_dirty s t' w \<or> vpage ?s t' w = init_page s t' w
        else dirty (pg s t' w) \<longrightarrow> w * PAGE_SIZE + PAGE_SIZE \<le> length (swap s t')" if w: "w < npages s t'" for t' w
    proof (cases "t' = t \<and> w = v")
      case True
      then show ?thesis using assms(2,3) by simp
    next
      case False
      then have "vpage ?s t' w = vpage s t' w" using poke_vpage [OF assms(1,2,4) w] by auto
      then show ?thesis using inv w by (simp add: content_ok_def)
    qed
    then show ?thesis by (simp add: content_ok_def f d)
  qed
  ultimately show ?thesis by (simp add: vm_inv_def)
qed

section \<open>The flat memory of a process\<close>

text \<open>A value in the memory of thread \<open>t\<close>, whose pages follow each other.\<close>

definition vload :: "vmachine \<Rightarrow> nat \<Rightarrow> u32 \<Rightarrow> u32 \<Rightarrow> u32" where
  "vload s t a n = (case load (vpage s t (page_no a)) (page_off a) n of Inr x \<Rightarrow> x | Inl _ \<Rightarrow> 0)"

text \<open>The bytes that a store puts there.\<close>

definition value_bytes :: "u32 \<Rightarrow> u32 \<Rightarrow> byte list" where
  "value_bytes n x = (if n = 1 then [ucast x] else if n = 2 then short_bytes (ucast x) else u32_bytes x)"

definition stored :: "vmachine \<Rightarrow> vmachine \<Rightarrow> u32 \<Rightarrow> u32 \<Rightarrow> u32 \<Rightarrow> bool" where
  "stored s s' a n x \<longleftrightarrow> npages s' = npages s \<and> static s' = static s \<and> thisThread s' = thisThread s
     \<and> (\<forall>t v. v < npages s t \<longrightarrow> vpage s' t v = (if t = thisThread s \<and> v = page_no a
          then overlay (vpage s t v) (page_off a) (value_bytes n x) else vpage s t v))"

lemma length_value_bytes: "n \<in> {1, 2, 4} \<Longrightarrow> length (value_bytes n x) = unat n"
  by (auto simp: value_bytes_def)

lemma put_bytes: "n \<in> {1, 2, 4} \<Longrightarrow> put xs p n x = Inr (overlay xs p (value_bytes n x))"
  by (auto simp: put_def value_bytes_def ucast_masks ShortToMachine_def ShortToHost_def WordToMachine_def WordToHost_def)

lemma load_slice:
  assumes "n \<in> {1, 2, 4}" "off + unat n \<le> k" "q + k \<le> length xs"
  shows "load (slice q k xs) off n = load xs (q + off) n"
proof -
  have "slice off (unat n) (slice q k xs) = slice (q + off) (unat n) xs"
    using assms(2) by (simp add: slice_def drop_take min_def add.commute)
  moreover have "n = 1 \<Longrightarrow> slice q k xs ! off = xs ! (q + off)" using assms by simp
  ultimately show ?thesis using assms(1) by (auto simp: load_def)
qed

lemma aligned_fits:
  assumes "\<not> misaligned a n" "n \<in> {1, 2, 4}"
  shows "page_off a + unat n \<le> PAGE_SIZE"
  using aligned_offset(1) [OF assms] by (simp add: page_off_def)

lemma read_hit:
  assumes "vm_inv s {}" "cached s (page_no a)" "page_no a < npages s (thisThread s)" "\<not> misaligned a n" "n \<in> {1, 2, 4}"
  shows "\<exists>m. MMU_ReadMem (mmu s) a n = Inr (Inr (vload s (thisThread s) a n), m) \<and> same_view s (s\<lparr>mmu := m\<rparr>)"
proof -
  from translate_hit [OF assms, of False] obtain i where i: "i < TLB_SIZE" "valid (tlbs s ! i)"
    "Translate (mmu s) a n False = Inr (Inr (of_nat (frame s (thisThread s) (page_no a) * PAGE_SIZE + page_off a)), hit (mmu s) i False)"
    "unat (of_nat (frame s (thisThread s) (page_no a) * PAGE_SIZE + page_off a) :: u32)
       = frame s (thisThread s) (page_no a) * PAGE_SIZE + page_off a" by metis
  have sv: "same_view s (s\<lparr>mmu := hit (mmu s) i False\<rparr>)" using hit_view [OF assms(1) i(1,2)] by simp
  have m: "mainMemory (hit (mmu s) i False) = mem s" by (simp add: hit_def counted_def Let_def)
  have r: "resid s (thisThread s) (page_no a)" by (rule cached_resid [OF assms(1-3)])
  have fit: "frame s (thisThread s) (page_no a) * PAGE_SIZE + PAGE_SIZE \<le> length (mem s)"
    using frame_slice_length(1) resid_small [OF _ r] assms(1) by (simp add: vm_inv_def)
  have "load (mem s) (frame s (thisThread s) (page_no a) * PAGE_SIZE + page_off a) n
      = load (vpage s (thisThread s) (page_no a)) (page_off a) n"
    using load_slice [OF assms(5) aligned_fits [OF assms(4,5)] fit] r by (simp add: vpage_def resid_def)
  moreover have "load (vpage s (thisThread s) (page_no a)) (page_off a) n = Inr (vload s (thisThread s) a n)"
    using assms(5) by (auto simp: vload_def load_def)
  ultimately show ?thesis using i(3,4) sv m by (simp add: MMU_ReadMem_def)
qed

lemma write_hit:
  assumes "vm_inv s {}" "cached s (page_no a)" "page_no a < npages s (thisThread s)" "\<not> misaligned a n" "n \<in> {1, 2, 4}"
  shows "\<exists>m. MMU_WriteMem (mmu s) a n x = Inr (NO_EXCEPTION, m) \<and> vm_inv (s\<lparr>mmu := m\<rparr>) {} \<and> stored s (s\<lparr>mmu := m\<rparr>) a n x"
proof -
  let ?t = "thisThread s" and ?v = "page_no a"
  let ?p = "frame s ?t ?v * PAGE_SIZE + page_off a"
  from translate_hit [OF assms, of True] obtain i where i: "i < TLB_SIZE" "valid (tlbs s ! i)" "virtualPage (tlbs s ! i) = of_nat ?v"
    "Translate (mmu s) a n True = Inr (Inr (of_nat ?p), hit (mmu s) i True)" "unat (of_nat ?p :: u32) = ?p" by metis
  let ?s1 = "mark_dirty i s"
  from mark_dirty_inv [OF assms(1) i(1-3)] have s1: "vm_inv ?s1 {}" "same_memory s ?s1" "is_dirty ?s1 ?t ?v" by auto
  have hw: "tlb (mmu s) \<noteq> None" "length (tlbs s) = TLB_SIZE" using assms(1) by (simp_all add: vm_inv_def hw_ok_def)
  have t1: "tlbs ?s1 = (tlbs s)[i := (tlbs s ! i)\<lparr>dirty := True\<rparr>]" "pg ?s1 = pg s" "thisThread ?s1 = ?t"
    by (simp_all add: mark_dirty_def tlbs_set_tlb [OF hw(1)])
  let ?s2 = "?s1\<lparr>mmu := hit (mmu ?s1) i True\<rparr>"
  have "same_view ?s1 ?s2" using hw(2) i(1,2) by (intro hit_view [OF s1(1)]) (simp_all add: t1)
  from same_view_inv [OF this s1(1)] same_view_dirty [OF this] have
    s2: "vm_inv ?s2 {}" "same_memory ?s1 ?s2" "is_dirty ?s2 ?t ?v"
    using s1 assms(3) by (simp_all add: vm_inv_def hw_ok_def same_memory_def)
  have eq: "?s2 = s\<lparr>mmu := hit (mmu s) i True\<rparr>"
    using hw i(1) by (auto simp: mark_dirty_def set_tlb_def hit_def counted_def Let_def)
  have pg2: "pg ?s2 = pg s" by (simp add: t1)
  have "resid s ?t ?v" by (rule cached_resid [OF assms(1-3)])
  then have r2: "resid ?s2 ?t ?v" using s2(2) s1(2) by (simp add: resid_def t1(2) same_memory_def)
  let ?bs = "value_bytes n x"
  have off: "page_off a + length ?bs \<le> PAGE_SIZE" using aligned_fits [OF assms(4,5)] by (simp add: length_value_bytes [OF assms(5)])
  note pv = poke_vpage [OF s2(1) r2 off, unfolded pg2] and pinv = poke_inv [OF s2(1) r2 s2(3) off, unfolded pg2]
  let ?m = "(hit (mmu s) i True)\<lparr>mainMemory := overlay (mem s) ?p ?bs\<rparr>"
  have po: "poke ?p ?bs ?s2 = s\<lparr>mmu := ?m\<rparr>" unfolding eq by (simp add: poke_def hit_def counted_def Let_def)
  have "MMU_WriteMem (mmu s) a n x = Inr (NO_EXCEPTION, ?m)"
    using i(4,5) put_bytes [OF assms(5)] by (simp add: MMU_WriteMem_def hit_def counted_def Let_def)
  moreover have "stored s (s\<lparr>mmu := ?m\<rparr>) a n x"
    using pv s2(2) s1(2) by (simp add: stored_def same_memory_def po)
  ultimately show ?thesis using pinv by (auto simp: po)
qed

section \<open>Accesses of the machine\<close>

text \<open>
  The page fault handler is installed and the registers are in order. In the kernel no delayed load is
  pending, and a page fault then changes only the two registers that describe it.
\<close>

definition serves :: "unit vmachine_ext kernel_code \<Rightarrow> vmachine \<Rightarrow> bool" where
  "serves krn s \<longleftrightarrow> (\<exists>h. handlers s PAGE_FAULT_EXCEPTION = Some h \<and> krn h = TLBPageFaultHandler)
     \<and> length (registers s) = NUM_TOTAL_REGS \<and> unat (registers s ! LOAD_REG) < NUM_GP_REGS"

definition no_load :: "vmachine \<Rightarrow> bool" where
  "no_load s \<longleftrightarrow> registers s ! LOAD_REG = 0 \<and> registers s ! 0 = 0"

definition same_regs :: "vmachine \<Rightarrow> vmachine \<Rightarrow> bool" where
  "same_regs s s' \<longleftrightarrow> handlers s' = handlers s \<and> (no_load s \<longrightarrow> no_load s'
     \<and> (\<forall>k < NUM_TOTAL_REGS. k \<notin> {BAD_VADDR_REG, LOAD_VALUE_REG} \<longrightarrow> registers s' ! k = registers s ! k))"

lemma same_regs_refl [simp]: "same_regs s s"
  by (simp add: same_regs_def)

lemma same_regs_trans: "same_regs s s' \<Longrightarrow> same_regs s' s'' \<Longrightarrow> same_regs s s''"
  by (simp add: same_regs_def)

lemma same_regs_fields: "registers s' = registers s \<Longrightarrow> handlers s' = handlers s \<Longrightarrow> same_regs s s' \<and> (serves krn s \<longrightarrow> serves krn s')"
  by (simp add: same_regs_def serves_def no_load_def)

lemma registers_view: "same_view s (s\<lparr>registers := r, status := u\<rparr>)" "same_view s (s\<lparr>registers := r\<rparr>)" "same_view s (s\<lparr>status := u\<rparr>)"
  by (simp_all add: same_view_def fun_eq_iff npages_def pg_def static_def)

lemma registers_cached [simp]: "cached (s\<lparr>registers := r\<rparr>) v = cached s v" "cached (s\<lparr>status := u\<rparr>) v = cached s v"
  by (simp_all add: cached_def)

text \<open>A page fault: the handler runs and the page is in the TLB.\<close>

lemma page_fault:
  assumes "vm_inv s {}" "serves krn s" "page_no a < npages s (thisThread s)" "\<not> cached s (page_no a)"
  shows "\<exists>s'. RaiseException krn s PAGE_FAULT_EXCEPTION a = Inr s' \<and> vm_inv s' {} \<and> same_memory s s'
    \<and> cached s' (page_no a) \<and> serves krn s' \<and> same_regs s s'"
proof -
  from assms(2) obtain h where h: "handlers s PAGE_FAULT_EXCEPTION = Some h" "krn h = TLBPageFaultHandler"
    and rg: "length (registers s) = NUM_TOTAL_REGS" "unat (registers s ! LOAD_REG) < NUM_GP_REGS"
    by (auto simp: serves_def)
  let ?r = "(registers s)[BAD_VADDR_REG := a]"
  let ?r1 = "?r[unat (registers s ! LOAD_REG) := registers s ! LOAD_VALUE_REG, LOAD_REG := 0, LOAD_VALUE_REG := 0, 0 := 0]"
  let ?s1 = "s\<lparr>registers := ?r1\<rparr>"
  have lt: "unat (registers s ! LOAD_REG) < NUM_TOTAL_REGS" using rg(2) by (simp add: reg_defs)
  then have dl: "DelayedLoad (s\<lparr>registers := ?r\<rparr>) 0 0 = Inr ?s1" by (simp add: DelayedLoad_def Let_def reg_defs)
  let ?s2 = "?s1\<lparr>status := SYSTEM_MODE\<rparr>"
  have sv: "same_view s ?s2" using registers_view(1) [where s = s and r = ?r1 and u = SYSTEM_MODE] by simp
  from same_view_inv [OF this assms(1)] have s2: "vm_inv ?s2 {}" "same_memory s ?s2" by auto
  have bad: "?r1 ! BAD_VADDR_REG = a" using rg lt by (simp add: reg_defs nth_list_update)
  have "\<exists>s3. TLBPageFaultHandler PAGE_FAULT_EXCEPTION ?s2 = Inr s3 \<and> vm_inv s3 {} \<and> same_memory ?s2 s3 \<and> cached s3 (page_no a)
      \<and> registers s3 = registers ?s2 \<and> handlers s3 = handlers ?s2"
    by (rule page_fault_handler [OF s2(1)])
      (use assms(3,4) s2(2) rg(1) bad in \<open>simp_all add: same_memory_def page_no_unat\<close>)
  then obtain s3 where s3: "TLBPageFaultHandler PAGE_FAULT_EXCEPTION ?s2 = Inr s3" "vm_inv s3 {}" "same_memory ?s2 s3"
    "cached s3 (page_no a)" "registers s3 = ?r1" "handlers s3 = handlers s" by auto
  let ?s4 = "s3\<lparr>status := USER_MODE\<rparr>"
  have "RaiseException krn s PAGE_FAULT_EXCEPTION a = Inr ?s4" using h dl s3(1) by (simp add: RaiseException_def)
  moreover from same_view_inv [OF registers_view(3) s3(2)] have "vm_inv ?s4 {}" "same_memory s3 ?s4" by auto
  moreover have "same_regs s ?s4" "serves krn ?s4"
    using h rg s3(5,6) lt by (auto simp: same_regs_def serves_def no_load_def nth_list_update reg_defs)
  moreover have "same_memory s ?s4" using same_memory_trans [OF same_memory_trans [OF s2(2) s3(3)] calculation(3)] .
  ultimately show ?thesis using s3(4) by (intro exI [of _ ?s4]) simp
qed

definition in_space :: "vmachine \<Rightarrow> u32 \<Rightarrow> u32 \<Rightarrow> bool" where
  "in_space s a n \<longleftrightarrow> page_no a < npages s (thisThread s) \<and> \<not> misaligned a n \<and> n \<in> {1, 2, 4}"

lemma Machine_ReadMem_user:
  assumes "vm_inv s {}" "serves krn s" "in_space s a n"
  shows "\<exists>s'. Machine_ReadMem krn s a n = Inr (if cached s (page_no a) then Some (vload s (thisThread s) a n) else None, s')
    \<and> vm_inv s' {} \<and> same_memory s s' \<and> serves krn s' \<and> same_regs s s' \<and> (\<not> cached s (page_no a) \<longrightarrow> cached s' (page_no a))"
proof (cases "cached s (page_no a)")
  case True
  from read_hit [OF assms(1) True] assms(3) obtain m where
    m: "MMU_ReadMem (mmu s) a n = Inr (Inr (vload s (thisThread s) a n), m)" "same_view s (s\<lparr>mmu := m\<rparr>)" by (auto simp: in_space_def)
  show ?thesis
    using m True same_view_inv [OF m(2) assms(1)] assms(2) same_regs_fields [of "s\<lparr>mmu := m\<rparr>" s krn]
    by (simp add: Machine_ReadMem_def)
next
  case False
  let ?s1 = "s\<lparr>mmu := counted (mmu s)\<rparr>"
  from same_view_inv [OF counted_view assms(1)] have s1: "vm_inv ?s1 {}" "same_memory s ?s1" by auto
  have c: "\<not> cached ?s1 (page_no a)" using False by (simp add: cached_def counted_def)
  have rs: "same_regs s ?s1" "serves krn ?s1" using assms(2) same_regs_fields [of ?s1 s krn] by simp_all
  have np: "page_no a < npages ?s1 (thisThread ?s1)" using assms(3) by (simp add: in_space_def)
  from page_fault [OF s1(1) rs(2) np c] obtain s' where
    s': "RaiseException krn ?s1 PAGE_FAULT_EXCEPTION a = Inr s'" "vm_inv s' {}" "same_memory ?s1 s'" "cached s' (page_no a)"
      "serves krn s'" "same_regs ?s1 s'" by blast
  have "MMU_ReadMem (mmu s) a n = Inr (Inl PAGE_FAULT_EXCEPTION, counted (mmu s))"
    using translate_miss [OF assms(1) False] assms(3) by (simp add: MMU_ReadMem_def in_space_def)
  then show ?thesis
    using s' False same_memory_trans [OF s1(2) s'(3)] same_regs_trans [OF rs(1) s'(6)] by (simp add: Machine_ReadMem_def)
qed

lemma Machine_WriteMem_user:
  assumes "vm_inv s {}" "serves krn s" "in_space s a n"
  shows "\<exists>s'. Machine_WriteMem krn s a n x = Inr (cached s (page_no a), s')
    \<and> vm_inv s' {} \<and> serves krn s' \<and> same_regs s s'
    \<and> (if cached s (page_no a) then stored s s' a n x else same_memory s s' \<and> cached s' (page_no a))"
proof (cases "cached s (page_no a)")
  case True
  from write_hit [OF assms(1) True, of n x] assms(3) obtain m where
    m: "MMU_WriteMem (mmu s) a n x = Inr (NO_EXCEPTION, m)" "vm_inv (s\<lparr>mmu := m\<rparr>) {}" "stored s (s\<lparr>mmu := m\<rparr>) a n x"
    by (auto simp: in_space_def)
  then show ?thesis
    using True assms(2) same_regs_fields [of "s\<lparr>mmu := m\<rparr>" s krn] by (simp add: Machine_WriteMem_def)
next
  case False
  let ?s1 = "s\<lparr>mmu := counted (mmu s)\<rparr>"
  from same_view_inv [OF counted_view assms(1)] have s1: "vm_inv ?s1 {}" "same_memory s ?s1" by auto
  have c: "\<not> cached ?s1 (page_no a)" using False by (simp add: cached_def counted_def)
  have rs: "same_regs s ?s1" "serves krn ?s1" using assms(2) same_regs_fields [of ?s1 s krn] by simp_all
  have np: "page_no a < npages ?s1 (thisThread ?s1)" using assms(3) by (simp add: in_space_def)
  from page_fault [OF s1(1) rs(2) np c] obtain s' where
    s': "RaiseException krn ?s1 PAGE_FAULT_EXCEPTION a = Inr s'" "vm_inv s' {}" "same_memory ?s1 s'" "cached s' (page_no a)"
      "serves krn s'" "same_regs ?s1 s'" by blast
  have "MMU_WriteMem (mmu s) a n x = Inr (PAGE_FAULT_EXCEPTION, counted (mmu s))"
    using translate_miss [OF assms(1) False] assms(3) by (simp add: MMU_WriteMem_def in_space_def)
  then show ?thesis
    using s' False same_memory_trans [OF s1(2) s'(3)] same_regs_trans [OF rs(1) s'(6)] by (simp add: Machine_WriteMem_def)
qed

end
