(* ===== verification/User_Transfer.thy ===== *)
theory User_Transfer
  imports User_Memory
begin

text \<open>
  \<open>userprog/transfer.cc\<close> and \<open>userprog/args.cc\<close>: copying strings, buffers and program arguments between
  the kernel and the memory of the running process, one byte or word at a time, with every access
  tried again after a page fault.
\<close>

unbundle bit_operations_syntax

section \<open>Transfers\<close>

definition NUMBER_OF_TRIES :: nat where "NUMBER_OF_TRIES = 3"
definition LSDIR_OUTPUT :: nat where "LSDIR_OUTPUT = 200"

text \<open>The loops around one access: the value, if one of the tries succeeded.\<close>

fun try_read :: "'z kernel_code \<Rightarrow> nat \<Rightarrow> u32 \<Rightarrow> u32 \<Rightarrow> 'z Machine_scheme \<Rightarrow> (u32 option \<times> 'z Machine_scheme) res" where
  "try_read krn 0 a n s = Inr (None, s)"
| "try_read krn (Suc k) a n s =
     rbind (Machine_ReadMem krn s a n) (\<lambda>(r, s1). case r of Some v \<Rightarrow> Inr (Some v, s1) | None \<Rightarrow> try_read krn k a n s1)"

fun try_write :: "'z kernel_code \<Rightarrow> nat \<Rightarrow> u32 \<Rightarrow> u32 \<Rightarrow> u32 \<Rightarrow> 'z Machine_scheme \<Rightarrow> (bool \<times> 'z Machine_scheme) res" where
  "try_write krn 0 a n x s = Inr (False, s)"
| "try_write krn (Suc k) a n x s =
     rbind (Machine_WriteMem krn s a n x) (\<lambda>(ok, s1). if ok then Inr (True, s1) else try_write krn k a n x s1)"

text \<open>
  Local variables are not initialised and keep what \<open>raw\<close> gives when no try succeeds. The address
  advances only after a success.
\<close>

fun read_buffer_loop :: "'z kernel_code \<Rightarrow> nat \<Rightarrow> u32 \<Rightarrow> u32 \<Rightarrow> 'z Machine_scheme \<Rightarrow> (byte list \<times> 'z Machine_scheme) res" where
  "read_buffer_loop krn 0 a temp s = Inr ([], s)"
| "read_buffer_loop krn (Suc n) a temp s =
     rbind (try_read krn NUMBER_OF_TRIES a 1 s) (\<lambda>(r, s1).
       let (temp1, a1) = (case r of Some v \<Rightarrow> (v, a + 1) | None \<Rightarrow> (temp, a)) in
       rbind (read_buffer_loop krn n a1 temp1 s1) (\<lambda>(bs, s2). Inr (ucast temp1 # bs, s2)))"

definition ReadBufferFromUser :: "'z kernel_code \<Rightarrow> u32 \<Rightarrow> u32 \<Rightarrow> nat \<Rightarrow> 'z Machine_scheme \<Rightarrow> (byte list \<times> 'z Machine_scheme) res" where
  "ReadBufferFromUser krn raw userAddress byteCount s =
     rbind (rassert (userAddress \<noteq> 0)) (\<lambda>_.
     rbind (rassert (0 < byteCount \<and> byteCount \<le> LSDIR_OUTPUT)) (\<lambda>_.
     rbind (read_buffer_loop krn byteCount userAddress raw s) (\<lambda>(bs, s1). Inr (bs @ [0], s1))))"

fun read_string_loop :: "'z kernel_code \<Rightarrow> (nat \<Rightarrow> u32) \<Rightarrow> nat \<Rightarrow> u32 \<Rightarrow> 'z Machine_scheme \<Rightarrow> (byte list \<times> 'z Machine_scheme) res" where
  "read_string_loop krn raw 0 a s = Inr ([], s)"
| "read_string_loop krn raw (Suc n) a s =
     rbind (try_read krn NUMBER_OF_TRIES a 1 s) (\<lambda>(r, s1).
       let (temp, a1) = (case r of Some v \<Rightarrow> (v, a + 1) | None \<Rightarrow> (raw n, a)); b = (ucast temp :: byte) in
       if b = 0 then Inr ([b], s1)
       else rbind (read_string_loop krn raw n a1 s1) (\<lambda>(bs, s2). Inr (b # bs, s2)))"

definition ReadStringFromUser :: "'z kernel_code \<Rightarrow> (nat \<Rightarrow> u32) \<Rightarrow> u32 \<Rightarrow> nat \<Rightarrow> 'z Machine_scheme \<Rightarrow> (bool \<times> byte list \<times> 'z Machine_scheme) res" where
  "ReadStringFromUser krn raw userAddress maxByteCount s =
     rbind (rassert (userAddress \<noteq> 0)) (\<lambda>_.
     rbind (rassert (maxByteCount \<noteq> 0)) (\<lambda>_.
     rbind (read_string_loop krn raw maxByteCount userAddress s) (\<lambda>(bs, s1). Inr (last bs = 0, bs, s1))))"

text \<open>
  \<open>*(int*) buffer\<close> reads four bytes of the host's memory; those after the end of the buffer are
  \<open>raw\<close>. Only the first is stored.
\<close>

definition int_at :: "(nat \<Rightarrow> byte) \<Rightarrow> byte list \<Rightarrow> u32" where
  "int_at raw bs = bytes_u32 (map (\<lambda>i. if i < length bs then bs ! i else raw i) [0..<4])"

text \<open>The loop of \<open>WriteBufferToUser\<close> stops after a zero byte; the buffer has at least \<open>n\<close> bytes.\<close>

fun write_buffer_loop :: "'z kernel_code \<Rightarrow> (nat \<Rightarrow> byte) \<Rightarrow> nat \<Rightarrow> u32 \<Rightarrow> byte list \<Rightarrow> 'z Machine_scheme \<Rightarrow> 'z Machine_scheme res" where
  "write_buffer_loop krn raw 0 a bs s = Inr s"
| "write_buffer_loop krn raw (Suc n) a [] s = Inl OutOfBounds"
| "write_buffer_loop krn raw (Suc n) a (b # bs) s =
     rbind (try_write krn NUMBER_OF_TRIES a 1 (int_at raw (b # bs)) s) (\<lambda>(ok, s1).
       if b = 0 then Inr s1 else write_buffer_loop krn raw n (if ok then a + 1 else a) bs s1)"

definition WriteBufferToUser :: "'z kernel_code \<Rightarrow> (nat \<Rightarrow> byte) \<Rightarrow> byte list \<Rightarrow> u32 \<Rightarrow> nat \<Rightarrow> 'z Machine_scheme \<Rightarrow> 'z Machine_scheme res" where
  "WriteBufferToUser krn raw buffer userAddress byteCount s =
     rbind (rassert (userAddress \<noteq> 0)) (\<lambda>_.
     rbind (rassert (0 < byteCount \<and> byteCount \<le> LSDIR_OUTPUT)) (\<lambda>_.
       write_buffer_loop krn raw byteCount userAddress buffer s))"

fun write_string_loop :: "'z kernel_code \<Rightarrow> (nat \<Rightarrow> byte) \<Rightarrow> u32 \<Rightarrow> byte list \<Rightarrow> 'z Machine_scheme \<Rightarrow> 'z Machine_scheme res" where
  "write_string_loop krn raw a [] s = Inl OutOfBounds"
| "write_string_loop krn raw a (b # bs) s =
     rbind (try_write krn NUMBER_OF_TRIES a 1 (int_at raw (b # bs)) s) (\<lambda>(ok, s1).
       if b = 0 then Inr s1 else write_string_loop krn raw (if ok then a + 1 else a) bs s1)"

definition WriteStringToUser :: "'z kernel_code \<Rightarrow> (nat \<Rightarrow> byte) \<Rightarrow> byte list \<Rightarrow> u32 \<Rightarrow> 'z Machine_scheme \<Rightarrow> 'z Machine_scheme res" where
  "WriteStringToUser krn raw string userAddress s =
     rbind (rassert (userAddress \<noteq> 0)) (\<lambda>_. write_string_loop krn raw userAddress string s)"

section \<open>Program arguments\<close>

definition MAX_ARG_COUNT :: nat where "MAX_ARG_COUNT = 32"
definition MAX_ARG_LENGTH :: nat where "MAX_ARG_LENGTH = 128"

text \<open>The loop over the array of pointers with \<open>k\<close> entries to go, after \<open>c\<close>; the last value read is kept.\<close>

fun count_args_loop :: "'z kernel_code \<Rightarrow> u32 \<Rightarrow> nat \<Rightarrow> nat \<Rightarrow> u32 \<Rightarrow> 'z Machine_scheme \<Rightarrow> (nat \<times> u32 \<times> 'z Machine_scheme) res" where
  "count_args_loop krn address 0 c val s = Inr (c, val, s)"
| "count_args_loop krn address (Suc k) c val s =
     rbind (try_read krn (Suc NUMBER_OF_TRIES) (address + 4 * of_nat c) 4 s) (\<lambda>(r, s1).
       let val1 = (case r of Some v \<Rightarrow> v | None \<Rightarrow> val) in
       if val1 = 0 then Inr (Suc c, val1, s1) else count_args_loop krn address k (Suc c) val1 s1)"

definition CountArgsToSave :: "'z kernel_code \<Rightarrow> u32 \<Rightarrow> u32 \<Rightarrow> 'z Machine_scheme \<Rightarrow> (nat option \<times> 'z Machine_scheme) res" where
  "CountArgsToSave krn raw address s =
     rbind (rassert (address \<noteq> 0)) (\<lambda>_.
     rbind (count_args_loop krn address MAX_ARG_COUNT 0 raw s) (\<lambda>(c, val, s1).
       if c = MAX_ARG_COUNT \<and> val \<noteq> 0 then Inr (None, s1) else Inr (Some (c - 1), s1)))"

text \<open>The strings, up to and with their zero byte when it was found in time.\<close>

fun save_args_loop :: "'z kernel_code \<Rightarrow> (nat \<Rightarrow> u32) \<Rightarrow> u32 \<Rightarrow> nat list \<Rightarrow> 'z Machine_scheme \<Rightarrow> (byte list list \<times> 'z Machine_scheme) res" where
  "save_args_loop krn raw address [] s = Inr ([], s)"
| "save_args_loop krn raw address (i # is) s =
     rbind (try_read krn (Suc NUMBER_OF_TRIES) (address + of_nat i * 4) 4 s) (\<lambda>(r, s1).
     rbind (ReadStringFromUser krn raw (case r of Some v \<Rightarrow> v | None \<Rightarrow> raw i) MAX_ARG_LENGTH s1) (\<lambda>(ok, str, s2).
     rbind (save_args_loop krn raw address is s2) (\<lambda>(strs, s3). Inr (str # strs, s3))))"

text \<open>The array of \<open>count + 1\<close> pointers, without the null at the end.\<close>

definition SaveArgs :: "'z kernel_code \<Rightarrow> (nat \<Rightarrow> u32) \<Rightarrow> u32 \<Rightarrow> 'z Machine_scheme \<Rightarrow> (byte list list option \<times> 'z Machine_scheme) res" where
  "SaveArgs krn raw address s =
     rbind (rassert (address \<noteq> 0)) (\<lambda>_.
     rbind (CountArgsToSave krn (raw 0) address s) (\<lambda>(count, s1).
       case count of None \<Rightarrow> Inr (None, s1)
       | Some c \<Rightarrow> rbind (save_args_loop krn raw address [0..<c] s1) (\<lambda>(args, s2). Inr (Some args, s2))))"

text \<open>\<open>strlen\<close> of a buffer that holds a zero byte.\<close>

definition strlen :: "byte list \<Rightarrow> nat" where
  "strlen bs = length (takeWhile (\<lambda>b. b \<noteq> 0) bs)"

text \<open>
  The strings go below the stack pointer one after the other; the result is their addresses and the
  new stack pointer. More than \<open>MAX_ARG_COUNT\<close> arguments are not looked at.
\<close>

fun write_args_loop :: "'z kernel_code \<Rightarrow> (nat \<Rightarrow> byte) \<Rightarrow> nat \<Rightarrow> byte list list \<Rightarrow> u32 \<Rightarrow> 'z Machine_scheme \<Rightarrow> (u32 list \<times> u32 \<times> 'z Machine_scheme) res" where
  "write_args_loop krn raw 0 args sp s = Inr ([], sp, s)"
| "write_args_loop krn raw (Suc k) [] sp s = Inr ([], sp, s)"
| "write_args_loop krn raw (Suc k) (str # args) sp s =
     (let sp1 = sp - of_nat (strlen str + 1) in
      rbind (WriteStringToUser krn raw str sp1 s) (\<lambda>s1.
      rbind (write_args_loop krn raw k args sp1 s1) (\<lambda>(addrs, sp2, s2). Inr (sp1 # addrs, sp2, s2))))"

fun write_pointers :: "'z kernel_code \<Rightarrow> u32 \<Rightarrow> nat \<Rightarrow> u32 list \<Rightarrow> 'z Machine_scheme \<Rightarrow> 'z Machine_scheme res" where
  "write_pointers krn sp i [] s = Inr s"
| "write_pointers krn sp i (x # xs) s =
     rbind (try_write krn (Suc NUMBER_OF_TRIES) (sp + 4 * of_nat i) 4 x s) (\<lambda>(ok, s1). write_pointers krn sp (Suc i) xs s1)"

text \<open>\<open>sp % 4\<close> on an \<open>int\<close>, whose sign is that of \<open>sp\<close>.\<close>

definition rem4 :: "u32 \<Rightarrow> u32" where
  "rem4 sp = (if sint sp < 0 then - ((- sp) mod 4) else sp mod 4)"

definition WriteArgs :: "'z kernel_code \<Rightarrow> (nat \<Rightarrow> byte) \<Rightarrow> byte list list \<Rightarrow> 'z Machine_scheme \<Rightarrow> (nat \<times> 'z Machine_scheme) res" where
  "WriteArgs krn raw args s =
     rbind (ReadRegister s STACK_REG) (\<lambda>sp0.
     rbind (write_args_loop krn raw MAX_ARG_COUNT args sp0 s) (\<lambda>(addrs, sp1, s1).
       let c = length addrs in
       rbind (rassert (c < MAX_ARG_COUNT)) (\<lambda>_.
         let sp2 = sp1 - rem4 sp1; sp = sp2 - (of_nat c * 4 + 4) in
         rbind (write_pointers krn sp 0 addrs s1) (\<lambda>s2.
         rbind (try_write krn (Suc NUMBER_OF_TRIES) (sp + 4 * of_nat c) 4 0 s2) (\<lambda>(ok, s3).
         rbind (WriteRegister s3 STACK_REG sp) (\<lambda>s4. Inr (c, s4)))))))"

section \<open>What the transfers rely on\<close>

definition word_at :: "(nat \<Rightarrow> byte) \<Rightarrow> nat \<Rightarrow> u32" where
  "word_at m a = bytes_u32 (map m [a..<a + 4])"

definition write_at :: "(nat \<Rightarrow> byte) \<Rightarrow> nat \<Rightarrow> byte list \<Rightarrow> nat \<Rightarrow> byte" where
  "write_at m a bs b = (if a \<le> b \<and> b < a + length bs then bs ! (b - a) else m b)"

text \<open>The bytes up to and with the first zero.\<close>

definition upto0 :: "byte list \<Rightarrow> byte list" where
  "upto0 bs = takeWhile (\<lambda>b. b \<noteq> 0) bs @ take 1 (dropWhile (\<lambda>b. b \<noteq> 0) bs)"

definition c_string :: "byte list \<Rightarrow> bool" where
  "c_string bs \<longleftrightarrow> bs \<noteq> [] \<and> last bs = 0 \<and> 0 \<notin> set (butlast bs)"

lemma upto0_Cons: "upto0 (b # bs) = (if b = 0 then [0] else b # upto0 bs)"
  by (simp add: upto0_def)

lemma length_upto0: "length (upto0 bs) \<le> length bs"
  by (induction bs) (simp_all add: upto0_def)

lemma upto0_all: "0 \<notin> set bs \<Longrightarrow> upto0 bs = bs"
  by (induction bs) (auto simp: upto0_def)

lemma write_at_Nil: "write_at m a [] = m"
  by (auto simp: fun_eq_iff write_at_def)

lemma write_at_Cons: "write_at (write_at m a [b]) (Suc a) bs = write_at m a (b # bs)"
proof
  fix c
  consider "c < a" | "c = a" | k where "c = Suc (a + k)" by (metis less_imp_Suc_add linorder_neqE_nat)
  then show "write_at (write_at m a [b]) (Suc a) bs c = write_at m a (b # bs) c"
    by cases (simp_all add: write_at_def)
qed

lemma c_string_Cons: "c_string (b # bs) \<longleftrightarrow> (if bs = [] then b = 0 else b \<noteq> 0 \<and> c_string bs)"
  by (auto simp: c_string_def)

lemma strlen_c_string: "c_string bs \<Longrightarrow> strlen bs + 1 = length bs"
  by (induction bs) (auto simp: c_string_Cons strlen_def c_string_def [of "[]"] split: if_splits)

lemma low_byte: "ucast (bytes_u32 bs) = bs ! 0"
  by (rule bit_word_eqI) (auto simp: bytes_u32_def bit_simps)

lemma int_at_byte: "ucast (int_at raw (b # bs)) = b"
  by (simp add: int_at_def low_byte upt_conv_Cons)

text \<open>
  User memory as a flat array of bytes below \<open>top\<close>: with at least two tries a read returns the value
  and changes nothing, a write changes exactly its bytes. \<open>keep\<close> is what the accesses leave alone.
\<close>

locale user_space =
  fixes krn :: "'z kernel_code"
    and good :: "'z Machine_scheme \<Rightarrow> bool"
    and um :: "'z Machine_scheme \<Rightarrow> nat \<Rightarrow> byte"
    and top :: "'z Machine_scheme \<Rightarrow> nat"
    and keep :: "'z Machine_scheme \<Rightarrow> 'z Machine_scheme \<Rightarrow> bool"
  assumes keep_refl: "keep s s"
    and keep_trans: "keep s s' \<Longrightarrow> keep s' s'' \<Longrightarrow> keep s s''"
    and top_bound: "good s \<Longrightarrow> top s \<le> 4294967296"
    and read1: "good s \<Longrightarrow> a < top s \<Longrightarrow> 2 \<le> k \<Longrightarrow>
      \<exists>s'. try_read krn k (of_nat a) 1 s = Inr (Some (scast (um s a)), s') \<and> good s' \<and> um s' = um s \<and> top s' = top s \<and> keep s s'"
    and read4: "good s \<Longrightarrow> a + 4 \<le> top s \<Longrightarrow> a mod 4 = 0 \<Longrightarrow> 2 \<le> k \<Longrightarrow>
      \<exists>s'. try_read krn k (of_nat a) 4 s = Inr (Some (word_at (um s) a), s') \<and> good s' \<and> um s' = um s \<and> top s' = top s \<and> keep s s'"
    and write1: "good s \<Longrightarrow> a < top s \<Longrightarrow> 2 \<le> k \<Longrightarrow>
      \<exists>s'. try_write krn k (of_nat a) 1 x s = Inr (True, s') \<and> good s' \<and> um s' = write_at (um s) a [ucast x] \<and> top s' = top s \<and> keep s s'"
    and regs_length: "good s \<Longrightarrow> length (registers s) = NUM_TOTAL_REGS"
    and set_reg: "good s \<Longrightarrow> k < NUM_GP_REGS \<Longrightarrow> 0 < k \<Longrightarrow> good (s\<lparr>registers := (registers s)[k := x]\<rparr>)
      \<and> um (s\<lparr>registers := (registers s)[k := x]\<rparr>) = um s \<and> top (s\<lparr>registers := (registers s)[k := x]\<rparr>) = top s"
    and write4: "good s \<Longrightarrow> a + 4 \<le> top s \<Longrightarrow> a mod 4 = 0 \<Longrightarrow> 2 \<le> k \<Longrightarrow>
      \<exists>s'. try_write krn k (of_nat a) 4 x s = Inr (True, s') \<and> good s' \<and> um s' = write_at (um s) a (u32_bytes x) \<and> top s' = top s \<and> keep s s'"
begin

definition kept :: "'z Machine_scheme \<Rightarrow> 'z Machine_scheme \<Rightarrow> bool" where
  "kept s s' \<longleftrightarrow> good s' \<and> um s' = um s \<and> top s' = top s \<and> keep s s'"

lemma kept_refl: "good s \<Longrightarrow> kept s s"
  by (simp add: kept_def keep_refl)

lemma kept_trans: "kept s s' \<Longrightarrow> kept s' s'' \<Longrightarrow> kept s s''"
  by (auto simp: kept_def intro: keep_trans)

lemma tries: "2 \<le> NUMBER_OF_TRIES" "2 \<le> Suc NUMBER_OF_TRIES"
  by (simp_all add: NUMBER_OF_TRIES_def)

lemma byte_value: "ucast (scast (b :: byte) :: u32) = b"
  by (rule bit_word_eqI) (simp add: bit_simps)

lemma read_buffer_loop_ok:
  assumes "good s" "a + n \<le> top s"
  shows "\<exists>s'. read_buffer_loop krn n (of_nat a) temp s = Inr (map (um s) [a..<a + n], s') \<and> kept s s'"
  using assms
proof (induction n arbitrary: a temp s)
  case 0
  then show ?case by (simp add: kept_refl)
next
  case (Suc n)
  from read1 [OF Suc.prems(1) _ tries(1), of a] Suc.prems(2) obtain s1 where
    s1: "try_read krn NUMBER_OF_TRIES (of_nat a) 1 s = Inr (Some (scast (um s a)), s1)" "kept s s1"
    by (auto simp: kept_def)
  from Suc.IH [of s1 "Suc a" "scast (um s a)"] Suc.prems(2) s1(2) obtain s2 where
    s2: "read_buffer_loop krn n (of_nat (Suc a)) (scast (um s a)) s1 = Inr (map (um s) [Suc a..<Suc a + n], s2)" "kept s1 s2"
    by (auto simp: kept_def)
  have "of_nat a + 1 = (of_nat (Suc a) :: u32)" by simp
  moreover have "[a..<a + Suc n] = a # [Suc a..<Suc a + n]" by (simp add: upt_conv_Cons)
  ultimately show ?case
    using s1(1) s2(1) kept_trans [OF s1(2) s2(2)] byte_value [of "um s a"] by (simp del: upt_Suc of_nat_Suc)
qed

lemma read_string_loop_ok:
  assumes "good s" "a + j < top s" "j < n" "um s (a + j) = 0" "\<forall>i < j. um s (a + i) \<noteq> 0"
  shows "\<exists>s'. read_string_loop krn raw n (of_nat a) s = Inr (map (um s) [a..<a + Suc j], s') \<and> kept s s'"
  using assms
proof (induction j arbitrary: a n s)
  case 0
  then obtain m where n: "n = Suc m" by (cases n) auto
  from read1 [OF 0(1) _ tries(1), of a] 0(2) obtain s1 where
    "try_read krn NUMBER_OF_TRIES (of_nat a) 1 s = Inr (Some (scast (um s a)), s1)" "kept s s1" by (auto simp: kept_def)
  then show ?case using 0(4) n byte_value [of "um s a"] by simp
next
  case (Suc j)
  then obtain m where n: "n = Suc m" by (cases n) auto
  from read1 [OF Suc.prems(1) _ tries(1), of a] Suc.prems(2) obtain s1 where
    s1: "try_read krn NUMBER_OF_TRIES (of_nat a) 1 s = Inr (Some (scast (um s a)), s1)" "kept s s1" by (auto simp: kept_def)
  have "\<exists>s'. read_string_loop krn raw m (of_nat (Suc a)) s1 = Inr (map (um s1) [Suc a..<Suc a + Suc j], s') \<and> kept s1 s'"
    by (rule Suc.IH) (use Suc.prems s1(2) n in \<open>auto simp: kept_def\<close>)
  then obtain s2 where
    s2: "read_string_loop krn raw m (of_nat (Suc a)) s1 = Inr (map (um s1) [Suc a..<Suc a + Suc j], s2)" "kept s1 s2" by auto
  have "um s a \<noteq> 0" using Suc.prems(5) by (auto dest: spec [of _ 0])
  moreover have "of_nat a + 1 = (of_nat (Suc a) :: u32)" by simp
  moreover have "[a..<a + Suc (Suc j)] = a # [Suc a..<Suc a + Suc j]" by (simp add: upt_conv_Cons)
  moreover have "um s1 = um s" using s1(2) by (simp add: kept_def)
  ultimately show ?case
    using s1(1) s2(1) n kept_trans [OF s1(2) s2(2)] byte_value [of "um s a"] by (simp del: upt_Suc of_nat_Suc)
qed

definition wrote :: "'z Machine_scheme \<Rightarrow> 'z Machine_scheme \<Rightarrow> (nat \<Rightarrow> byte) \<Rightarrow> bool" where
  "wrote s s' m \<longleftrightarrow> good s' \<and> um s' = m \<and> top s' = top s \<and> keep s s'"

lemma wrote_trans: "wrote s s' m \<Longrightarrow> wrote s' s'' m' \<Longrightarrow> wrote s s'' m'"
  by (auto simp: wrote_def intro: keep_trans)

lemma write_byte:
  assumes "good s" "a < top s"
  shows "\<exists>s'. try_write krn NUMBER_OF_TRIES (of_nat a) 1 (int_at raw (b # bs)) s = Inr (True, s') \<and> wrote s s' (write_at (um s) a [b])"
  using write1 [OF assms tries(1), of "int_at raw (b # bs)"] by (auto simp: wrote_def int_at_byte)

lemma write_buffer_loop_ok:
  assumes "good s" "a + n \<le> top s" "n \<le> length bs"
  shows "\<exists>s'. write_buffer_loop krn raw n (of_nat a) bs s = Inr s' \<and> wrote s s' (write_at (um s) a (upto0 (take n bs)))"
  using assms
proof (induction n arbitrary: a bs s)
  case 0
  then show ?case by (simp add: wrote_def upto0_def write_at_Nil keep_refl)
next
  case (Suc n)
  then obtain b bs' where bs: "bs = b # bs'" by (cases bs) auto
  from write_byte [OF Suc.prems(1), of a raw b bs'] Suc.prems(2) obtain s1 where
    s1: "try_write krn NUMBER_OF_TRIES (of_nat a) 1 (int_at raw (b # bs')) s = Inr (True, s1)" "wrote s s1 (write_at (um s) a [b])" by auto
  have nx: "of_nat a + 1 = (of_nat (Suc a) :: u32)" by simp
  show ?case
  proof (cases "b = 0")
    case True
    then show ?thesis using s1 bs by (simp add: upto0_Cons)
  next
    case False
    have "\<exists>s'. write_buffer_loop krn raw n (of_nat (Suc a)) bs' s1 = Inr s' \<and> wrote s1 s' (write_at (um s1) (Suc a) (upto0 (take n bs')))"
      by (rule Suc.IH) (use Suc.prems s1(2) bs in \<open>auto simp: wrote_def\<close>)
    then obtain s2 where s2: "write_buffer_loop krn raw n (of_nat (Suc a)) bs' s1 = Inr s2"
      "wrote s1 s2 (write_at (um s1) (Suc a) (upto0 (take n bs')))" by auto
    have "um s1 = write_at (um s) a [b]" using s1(2) by (simp add: wrote_def)
    then have "wrote s s2 (write_at (um s) a (b # upto0 (take n bs')))" using wrote_trans [OF s1(2) s2(2)] by (simp add: write_at_Cons)
    then show ?thesis using s1(1) s2(1) bs False nx by (simp add: upto0_Cons del: of_nat_Suc)
  qed
qed

lemma write_string_loop_ok:
  assumes "good s" "a + length bs \<le> top s" "c_string bs"
  shows "\<exists>s'. write_string_loop krn raw (of_nat a) bs s = Inr s' \<and> wrote s s' (write_at (um s) a bs)"
  using assms
proof (induction bs arbitrary: a s)
  case Nil
  then show ?case by (simp add: c_string_def)
next
  case (Cons b bs)
  from write_byte [OF Cons.prems(1), of a raw b bs] Cons.prems(2) obtain s1 where
    s1: "try_write krn NUMBER_OF_TRIES (of_nat a) 1 (int_at raw (b # bs)) s = Inr (True, s1)" "wrote s s1 (write_at (um s) a [b])" by auto
  have nx: "of_nat a + 1 = (of_nat (Suc a) :: u32)" by simp
  show ?case
  proof (cases "bs = []")
    case True
    then show ?thesis using s1 Cons.prems(3) by (simp add: c_string_Cons)
  next
    case False
    have "\<exists>s'. write_string_loop krn raw (of_nat (Suc a)) bs s1 = Inr s' \<and> wrote s1 s' (write_at (um s1) (Suc a) bs)"
      by (rule Cons.IH) (use Cons.prems s1(2) False in \<open>auto simp: wrote_def c_string_Cons\<close>)
    then obtain s2 where s2: "write_string_loop krn raw (of_nat (Suc a)) bs s1 = Inr s2" "wrote s1 s2 (write_at (um s1) (Suc a) bs)" by auto
    have "um s1 = write_at (um s) a [b]" using s1(2) by (simp add: wrote_def)
    then have "wrote s s2 (write_at (um s) a (b # bs))" using wrote_trans [OF s1(2) s2(2)] by (simp add: write_at_Cons)
    then show ?thesis using s1(1) s2(1) False nx Cons.prems(3) by (simp add: c_string_Cons del: of_nat_Suc)
  qed
qed

end

section \<open>The transfers on virtual memory\<close>

text \<open>The flat memory of the running process, as bytes.\<close>

definition umem :: "vmachine \<Rightarrow> nat \<Rightarrow> byte" where
  "umem s a = (if a < npages s (thisThread s) * PAGE_SIZE then vpage s (thisThread s) (a div PAGE_SIZE) ! (a mod PAGE_SIZE) else 0)"

definition utop :: "vmachine \<Rightarrow> nat" where
  "utop s = npages s (thisThread s) * PAGE_SIZE"

definition user_good :: "unit vmachine_ext kernel_code \<Rightarrow> vmachine \<Rightarrow> bool" where
  "user_good krn s \<longleftrightarrow> vm_inv s {} \<and> serves krn s"

text \<open>What stays: the registers, and the memory of every other process.\<close>

definition others_keep :: "vmachine \<Rightarrow> vmachine \<Rightarrow> bool" where
  "others_keep s s' \<longleftrightarrow> same_regs s s' \<and> npages s' = npages s \<and> static s' = static s \<and> thisThread s' = thisThread s
     \<and> (\<forall>t v. t \<noteq> thisThread s \<and> v < npages s t \<longrightarrow> vpage s' t v = vpage s t v)"

lemma try_read_user:
  assumes "user_good krn s" "in_space s a n" "2 \<le> k"
  shows "\<exists>s'. try_read krn k a n s = Inr (Some (vload s (thisThread s) a n), s') \<and> user_good krn s' \<and> same_memory s s' \<and> same_regs s s'"
proof -
  from assms(3) obtain j where k: "k = Suc (Suc j)" by (metis Suc_le_D numeral_2_eq_2 Suc_le_mono)
  have g: "vm_inv s {}" "serves krn s" using assms(1) by (simp_all add: user_good_def)
  from Machine_ReadMem_user [OF g assms(2)] obtain s1 where
    s1: "Machine_ReadMem krn s a n = Inr (if cached s (page_no a) then Some (vload s (thisThread s) a n) else None, s1)"
      "vm_inv s1 {}" "same_memory s s1" "serves krn s1" "same_regs s s1" "\<not> cached s (page_no a) \<longrightarrow> cached s1 (page_no a)" by blast
  show ?thesis
  proof (cases "cached s (page_no a)")
    case True
    then show ?thesis using s1 k by (simp add: user_good_def)
  next
    case False
    have sp: "in_space s1 a n" using assms(2) s1(3) by (simp add: in_space_def same_memory_def)
    have v: "vload s1 (thisThread s1) a n = vload s (thisThread s) a n"
      using s1(3) assms(2) by (simp add: vload_def same_memory_def in_space_def)
    from Machine_ReadMem_user [OF s1(2,4) sp] False s1(6) obtain s2 where
      "Machine_ReadMem krn s1 a n = Inr (Some (vload s (thisThread s) a n), s2)" "vm_inv s2 {}" "same_memory s1 s2" "serves krn s2"
      "same_regs s1 s2" unfolding v by auto
    then show ?thesis
      using s1(1) k False same_memory_trans [OF s1(3)] same_regs_trans [OF s1(5)] by (simp add: user_good_def)
  qed
qed

lemma try_write_user:
  assumes "user_good krn s" "in_space s a n" "2 \<le> k"
  shows "\<exists>s'. try_write krn k a n x s = Inr (True, s') \<and> user_good krn s' \<and> stored s s' a n x \<and> same_regs s s'"
proof -
  from assms(3) obtain j where k: "k = Suc (Suc j)" by (metis Suc_le_D numeral_2_eq_2 Suc_le_mono)
  have g: "vm_inv s {}" "serves krn s" using assms(1) by (simp_all add: user_good_def)
  from Machine_WriteMem_user [OF g assms(2)] obtain s1 where
    s1: "Machine_WriteMem krn s a n x = Inr (cached s (page_no a), s1)" "vm_inv s1 {}" "serves krn s1" "same_regs s s1"
      "if cached s (page_no a) then stored s s1 a n x else same_memory s s1 \<and> cached s1 (page_no a)" by blast
  show ?thesis
  proof (cases "cached s (page_no a)")
    case True
    then show ?thesis using s1 k by (simp add: user_good_def)
  next
    case False
    then have m: "same_memory s s1" "cached s1 (page_no a)" using s1(5) by simp_all
    have sp: "in_space s1 a n" using assms(2) m(1) by (simp add: in_space_def same_memory_def)
    from Machine_WriteMem_user [OF s1(2,3) sp] m(2) obtain s2 where
      s2: "Machine_WriteMem krn s1 a n x = Inr (True, s2)" "vm_inv s2 {}" "serves krn s2" "same_regs s1 s2" "stored s1 s2 a n x" by auto
    have "stored s s2 a n x" using m(1) s2(5) by (simp add: stored_def same_memory_def)
    then show ?thesis using s1(1) k False s2 same_regs_trans [OF s1(4) s2(4)] by (simp add: user_good_def)
  qed
qed

lemma addr_page:
  assumes "a < 4294967296"
  shows "page_no (of_nat a) = a div PAGE_SIZE" "page_off (of_nat a) = a mod PAGE_SIZE"
  using unat_small [OF assms] by (simp_all add: page_no_def page_off_def)

lemma utop_bound: "vm_inv s H \<Longrightarrow> utop s \<le> 4294967296"
proof -
  assume "vm_inv s H"
  then have "npages s (thisThread s) \<le> MAX_PAGES" by (simp add: vm_inv_def pages_ok_def)
  then have "utop s \<le> MAX_PAGES * PAGE_SIZE" unfolding utop_def by (rule mult_le_mono1)
  then show ?thesis by (simp add: MAX_PAGES_def PAGE_SIZE_def SECTOR_SIZE_def)
qed

lemma aligned4:
  assumes "a mod 4 = 0" "a < 4294967296"
  shows "\<not> misaligned (of_nat a) 4"
proof -
  have "(of_nat a :: u32) AND 3 = of_nat a mod 4"
    using take_bit_eq_mask [of 2 "of_nat a :: u32"] take_bit_eq_mod [of 2 "of_nat a :: u32"] by (simp add: mask_eq_exp_minus_1)
  also have "unat \<dots> = 0" using unat_small [OF assms(2)] assms(1) by (simp add: unat_mod_distrib)
  ultimately have "(of_nat a :: u32) AND 3 = 0" by (simp add: unsigned_eq_0_iff)
  then show ?thesis by (simp add: misaligned_def)
qed

lemma page_add:
  assumes "a mod PAGE_SIZE + i < PAGE_SIZE"
  shows "(a + i) div PAGE_SIZE = a div PAGE_SIZE" "(a + i) mod PAGE_SIZE = a mod PAGE_SIZE + i"
proof -
  have "i < PAGE_SIZE" using assms by simp
  then show "(a + i) div PAGE_SIZE = a div PAGE_SIZE" using assms div_add1_eq [of a i PAGE_SIZE] by simp
  show "(a + i) mod PAGE_SIZE = a mod PAGE_SIZE + i" using assms mod_add_left_eq [of a PAGE_SIZE i] by simp
qed

lemma page_of_addr:
  assumes "a < utop s" "a mod PAGE_SIZE + i < PAGE_SIZE"
  shows "umem s (a + i) = vpage s (thisThread s) (a div PAGE_SIZE) ! (a mod PAGE_SIZE + i)" "a + i < utop s"
    "a div PAGE_SIZE < npages s (thisThread s)"
proof -
  note d = page_add [OF assms(2)]
  show l: "a div PAGE_SIZE < npages s (thisThread s)"
    using assms(1) unfolding utop_def by (rule less_mult_imp_div_less)
  have "a + i = (a div PAGE_SIZE) * PAGE_SIZE + (a mod PAGE_SIZE + i)" using div_mult_mod_eq [of a PAGE_SIZE] by linarith
  also have "\<dots> < Suc (a div PAGE_SIZE) * PAGE_SIZE" using assms(2) unfolding mult_Suc by linarith
  also have "\<dots> \<le> utop s" using l unfolding utop_def by (intro mult_le_mono1) simp
  finally show t: "a + i < utop s" .
  then show "umem s (a + i) = vpage s (thisThread s) (a div PAGE_SIZE) ! (a mod PAGE_SIZE + i)"
    using d by (simp add: umem_def utop_def)
qed

lemma offset4:
  assumes "a mod 4 = 0" "i < 4"
  shows "a mod PAGE_SIZE + i < PAGE_SIZE"
proof -
  define k where "k = a mod 128"
  have "k mod 4 = 0" using assms(1) by (simp add: k_def mod_mod_cancel)
  moreover have "k < 128" by (simp add: k_def)
  ultimately have "k + i < 128" using assms(2) by presburger
  then show ?thesis by (simp add: k_def PAGE_SIZE_def SECTOR_SIZE_def)
qed

lemma same_memory_umem: "same_memory s s' \<Longrightarrow> umem s' = umem s \<and> utop s' = utop s"
  using less_mult_imp_div_less by (fastforce simp: fun_eq_iff umem_def utop_def same_memory_def)

lemma same_memory_others: "same_memory s s' \<Longrightarrow> same_regs s s' \<Longrightarrow> others_keep s s'"
  by (simp add: others_keep_def same_memory_def)

lemma stored_umem:
  assumes "vm_inv s {}" "stored s s' (of_nat a) n x" "a < utop s" "a mod PAGE_SIZE + unat n \<le> PAGE_SIZE" "n \<in> {1, 2, 4}"
  shows "umem s' = write_at (umem s) a (value_bytes n x)" "utop s' = utop s"
proof -
  let ?t = "thisThread s" and ?v = "a div PAGE_SIZE" and ?o = "a mod PAGE_SIZE"
  have ab: "a < 4294967296" using utop_bound [OF assms(1)] assms(3) by simp
  note p = addr_page [OF ab]
  have st: "thisThread s' = ?t" "npages s' = npages s"
    "\<And>v. v < npages s ?t \<Longrightarrow> vpage s' ?t v = (if v = ?v then overlay (vpage s ?t v) ?o (value_bytes n x) else vpage s ?t v)"
    using assms(2) by (simp_all add: stored_def p)
  show "utop s' = utop s" using st by (simp add: utop_def)
  have len: "length (value_bytes n x) = unat n" by (rule length_value_bytes [OF assms(5)])
  have ps: "0 < PAGE_SIZE" by (simp add: PAGE_SIZE_def SECTOR_SIZE_def)
  show "umem s' = write_at (umem s) a (value_bytes n x)"
  proof
    fix b
    show "umem s' b = write_at (umem s) a (value_bytes n x) b"
    proof (cases "b < utop s")
      case False
      have "\<not> (a \<le> b \<and> b < a + unat n)"
      proof
        assume "a \<le> b \<and> b < a + unat n"
        then have "?o + (b - a) < PAGE_SIZE" "a + (b - a) = b" using assms(4) by auto
        with page_of_addr(2) [OF assms(3) this(1)] False show False by simp
      qed
      then have "write_at (umem s) a (value_bytes n x) b = umem s b" unfolding write_at_def len by presburger
      then show ?thesis using False st by (simp add: umem_def utop_def)
    next
      case True
      then have vb: "b div PAGE_SIZE < npages s ?t" unfolding utop_def by (rule less_mult_imp_div_less)
      have u: "umem s' b = vpage s' ?t (b div PAGE_SIZE) ! (b mod PAGE_SIZE)" "umem s b = vpage s ?t (b div PAGE_SIZE) ! (b mod PAGE_SIZE)"
        using True st by (simp_all add: umem_def utop_def)
      show ?thesis
      proof (cases "b div PAGE_SIZE = ?v")
        case True
        have "a = ?v * PAGE_SIZE + ?o" "b = ?v * PAGE_SIZE + b mod PAGE_SIZE" using True by (simp, metis div_mult_mod_eq)
        then have eq: "a \<le> b \<longleftrightarrow> ?o \<le> b mod PAGE_SIZE" "b < a + unat n \<longleftrightarrow> b mod PAGE_SIZE < ?o + unat n" "b - a = b mod PAGE_SIZE - ?o"
          by linarith+
        have "length (vpage s ?t ?v) = PAGE_SIZE" using vpage_length [OF assms(1)] vb True by simp
        then show ?thesis
          using u st(3) [OF vb] True assms(4) len ps nth_overlay [of ?o "value_bytes n x" "vpage s ?t ?v" "b mod PAGE_SIZE"]
          by (simp add: write_at_def eq)
      next
        case False
        have "\<not> (a \<le> b \<and> b < a + unat n)"
        proof
          assume "a \<le> b \<and> b < a + unat n"
          then have "?o + (b - a) < PAGE_SIZE" "a + (b - a) = b" using assms(4) by auto
          with page_add(1) [OF this(1)] False show False by simp
        qed
        then have "write_at (umem s) a (value_bytes n x) b = umem s b" unfolding write_at_def len by presburger
        then show ?thesis using u st(3) [OF vb] False by simp
      qed
    qed
  qed
qed

lemma vload_bytes:
  assumes "vm_inv s {}" "a < utop s"
  shows "vload s (thisThread s) (of_nat a) 1 = scast (umem s a)"
    "a mod 4 = 0 \<Longrightarrow> vload s (thisThread s) (of_nat a) 4 = word_at (umem s) a"
proof -
  have ab: "a < 4294967296" using utop_bound [OF assms(1)] assms(2) by simp
  note p = addr_page [OF ab]
  have ps: "0 < PAGE_SIZE" by (simp add: PAGE_SIZE_def SECTOR_SIZE_def)
  show "vload s (thisThread s) (of_nat a) 1 = scast (umem s a)"
    using page_of_addr(1) [OF assms(2), of 0] ps by (simp add: vload_def load_def p)
  show "vload s (thisThread s) (of_nat a) 4 = word_at (umem s) a" if "a mod 4 = 0"
  proof -
    let ?pg = "vpage s (thisThread s) (a div PAGE_SIZE)"
    have len: "length ?pg = PAGE_SIZE" using vpage_length [OF assms(1)] page_of_addr(3) [OF assms(2), of 0] ps by simp
    have o4: "a mod PAGE_SIZE + 4 \<le> PAGE_SIZE" using offset4 [OF that, of 3] by simp
    have "slice (a mod PAGE_SIZE) 4 ?pg = map (umem s) [a..<a + 4]"
      using len o4 page_of_addr(1) [OF assms(2)] by (intro nth_equalityI) simp_all
    then show ?thesis by (simp add: vload_def load_def p word_at_def WordToHost_def)
  qed
qed

lemma in_space_addr:
  assumes "vm_inv s {}" "a < utop s"
  shows "in_space s (of_nat a) 1" "a mod 4 = 0 \<Longrightarrow> in_space s (of_nat a) 4"
proof -
  have ab: "a < 4294967296" using utop_bound [OF assms(1)] assms(2) by simp
  have "0 < PAGE_SIZE" by (simp add: PAGE_SIZE_def SECTOR_SIZE_def)
  then have "a div PAGE_SIZE < npages s (thisThread s)" using page_of_addr(3) [OF assms(2), of 0] by simp
  then show "in_space s (of_nat a) 1" "a mod 4 = 0 \<Longrightarrow> in_space s (of_nat a) 4"
    using aligned4 [OF _ ab] addr_page [OF ab] by (simp_all add: in_space_def misaligned_def)
qed

lemma others_keep_trans:
  assumes "others_keep s s'" "others_keep s' s''"
  shows "others_keep s s''"
  using assms same_regs_trans by (auto simp: others_keep_def)

lemma stored_others: "stored s s' a n x \<Longrightarrow> same_regs s s' \<Longrightarrow> others_keep s s'"
  by (simp add: others_keep_def stored_def)

interpretation uvm: user_space krn "user_good krn" umem utop others_keep
proof unfold_locales
  fix s s' s'' :: vmachine and a k :: nat and x :: u32
  show "others_keep s s" by (simp add: others_keep_def)
  show "others_keep s s' \<Longrightarrow> others_keep s' s'' \<Longrightarrow> others_keep s s''" by (rule others_keep_trans)
  show "user_good krn s \<Longrightarrow> utop s \<le> 4294967296" using utop_bound by (auto simp: user_good_def)
  show "\<exists>s'. try_read krn k (of_nat a) 1 s = Inr (Some (scast (umem s a)), s') \<and> user_good krn s' \<and> umem s' = umem s
      \<and> utop s' = utop s \<and> others_keep s s'" if "user_good krn s" "a < utop s" "2 \<le> k"
    using try_read_user [OF that(1) in_space_addr(1) that(3)] that vload_bytes(1) same_memory_umem same_memory_others
    by (fastforce simp: user_good_def)
  show "\<exists>s'. try_read krn k (of_nat a) 4 s = Inr (Some (word_at (umem s) a), s') \<and> user_good krn s' \<and> umem s' = umem s
      \<and> utop s' = utop s \<and> others_keep s s'" if "user_good krn s" "a + 4 \<le> utop s" "a mod 4 = 0" "2 \<le> k"
    using try_read_user [OF that(1) in_space_addr(2) that(4), of a] that vload_bytes(2) [of s a] same_memory_umem same_memory_others
    by (fastforce simp: user_good_def)
  show "\<exists>s'. try_write krn k (of_nat a) 1 x s = Inr (True, s') \<and> user_good krn s' \<and> umem s' = write_at (umem s) a [ucast x]
      \<and> utop s' = utop s \<and> others_keep s s'" if "user_good krn s" "a < utop s" "2 \<le> k"
  proof -
    have g: "vm_inv s {}" and ps: "a mod PAGE_SIZE + unat (1 :: u32) \<le> PAGE_SIZE"
      using that(1) by (simp_all add: user_good_def PAGE_SIZE_def SECTOR_SIZE_def Suc_le_eq)
    from try_write_user [OF that(1) in_space_addr(1) [OF g that(2)] that(3), of x] obtain s' where
      s': "try_write krn k (of_nat a) 1 x s = Inr (True, s')" "user_good krn s'" "stored s s' (of_nat a) 1 x" "same_regs s s'" by blast
    with stored_umem [OF g s'(3) that(2) ps] stored_others show ?thesis by (auto simp: value_bytes_def)
  qed
  show "\<exists>s'. try_write krn k (of_nat a) 4 x s = Inr (True, s') \<and> user_good krn s' \<and> umem s' = write_at (umem s) a (u32_bytes x)
      \<and> utop s' = utop s \<and> others_keep s s'" if "user_good krn s" "a + 4 \<le> utop s" "a mod 4 = 0" "2 \<le> k"
  proof -
    have g: "vm_inv s {}" "a < utop s" using that(1,2) by (simp_all add: user_good_def)
    have ps: "a mod PAGE_SIZE + unat (4 :: u32) \<le> PAGE_SIZE" using offset4 [OF that(3), of 3] by simp
    from try_write_user [OF that(1) in_space_addr(2) [OF g that(3)] that(4), of x] obtain s' where
      s': "try_write krn k (of_nat a) 4 x s = Inr (True, s')" "user_good krn s'" "stored s s' (of_nat a) 4 x" "same_regs s s'" by blast
    with stored_umem [OF g(1) s'(3) g(2) ps] stored_others show ?thesis by (auto simp: value_bytes_def)
  qed
  show "user_good krn s \<Longrightarrow> length (registers s) = NUM_TOTAL_REGS" by (simp add: user_good_def serves_def)
  show "user_good krn (s\<lparr>registers := (registers s)[k := x]\<rparr>) \<and> umem (s\<lparr>registers := (registers s)[k := x]\<rparr>) = umem s
      \<and> utop (s\<lparr>registers := (registers s)[k := x]\<rparr>) = utop s" if "user_good krn s" "k < NUM_GP_REGS" "0 < k"
  proof -
    let ?s = "s\<lparr>registers := (registers s)[k := x]\<rparr>"
    have "vm_inv ?s {} \<and> same_memory s ?s" using same_view_inv [OF registers_view(2), of s "{}"] that(1) by (auto simp: user_good_def)
    moreover have "serves krn ?s" using that by (simp add: user_good_def serves_def reg_defs)
    ultimately show ?thesis using same_memory_umem by (auto simp: user_good_def)
  qed
qed

end
