(* ===== verification/User_Args.thy ===== *)
theory User_Args
  imports User_Transfer
begin

text \<open>
  The arguments of a program: what \<open>WriteArgs\<close> leaves on the stack of a new process is the layout that
  \<open>userprog/args.hh\<close> describes, and \<open>SaveArgs\<close> reads the same strings back from it.
\<close>

section \<open>The layout\<close>

text \<open>The addresses of strings written one below the other from \<open>top\<close> down, and the memory then.\<close>

fun arg_addrs :: "nat \<Rightarrow> byte list list \<Rightarrow> nat list" where
  "arg_addrs S [] = []"
| "arg_addrs S (x # xs) = (S - length x) # arg_addrs (S - length x) xs"

fun put_args :: "(nat \<Rightarrow> byte) \<Rightarrow> nat \<Rightarrow> byte list list \<Rightarrow> nat \<Rightarrow> byte" where
  "put_args m S [] = m"
| "put_args m S (x # xs) = put_args (write_at m (S - length x) x) (S - length x) xs"

fun put_words :: "(nat \<Rightarrow> byte) \<Rightarrow> nat \<Rightarrow> u32 list \<Rightarrow> nat \<Rightarrow> byte" where
  "put_words m q [] = m"
| "put_words m q (x # xs) = put_words (write_at m q (u32_bytes x)) (q + 4) xs"

definition args_size :: "byte list list \<Rightarrow> nat" where
  "args_size xs = sum_list (map length xs)"

definition argv_at :: "(nat \<Rightarrow> byte) \<Rightarrow> nat \<Rightarrow> nat \<Rightarrow> byte list list \<Rightarrow> bool" where
  "argv_at m lim p args \<longleftrightarrow> p mod 4 = 0 \<and> 0 < p \<and> p + 4 * length args + 4 \<le> lim \<and> word_at m (p + 4 * length args) = 0
     \<and> (\<forall>i < length args. \<exists>a. word_at m (p + 4 * i) = of_nat a \<and> 0 < a \<and> a + length (args ! i) \<le> lim
          \<and> map m [a..<a + length (args ! i)] = args ! i)"

lemma write_at_outside: "b < a \<or> a + length bs \<le> b \<Longrightarrow> write_at m a bs b = m b"
  by (auto simp: write_at_def)

lemma map_write_at: "map (write_at m a bs) [a..<a + length bs] = bs"
  by (rule nth_equalityI) (simp_all add: write_at_def)

lemma map_write_over:
  assumes "length xs \<le> n"
  shows "map (write_at m a xs) [a..<a + n] = xs @ map m [a + length xs..<a + n]"
proof -
  have "[a..<a + n] = [a..<a + length xs] @ [a + length xs..<a + n]" 
    using assms upt_add_eq_append [of a "a + length xs" "n - length xs"] by simp
  moreover have "map (write_at m a xs) [a + length xs..<a + n] = map m [a + length xs..<a + n]" by (simp add: write_at_def)
  ultimately show ?thesis by (simp add: map_write_at)
qed

lemma word_at_write_at: "word_at (write_at m q (u32_bytes x)) q = x"
  using map_write_at [of m q "u32_bytes x"] by (simp add: word_at_def)

lemma map_cong_range: "(\<And>b. a \<le> b \<Longrightarrow> b < a + n \<Longrightarrow> m b = m' b) \<Longrightarrow> map m [a..<a + n] = map m' [a..<a + n]"
  by simp

lemma put_words_outside: "b < q \<or> q + 4 * length xs \<le> b \<Longrightarrow> put_words m q xs b = m b"
  by (induction xs arbitrary: m q) (auto simp: write_at_outside)

lemma put_words_append: "put_words m q (xs @ ys) = put_words (put_words m q xs) (q + 4 * length xs) ys"
  by (induction xs arbitrary: m q) (simp_all add: add.assoc)

lemma word_at_put_words: "k < length xs \<Longrightarrow> word_at (put_words m q xs) (q + 4 * k) = xs ! k"
proof (induction xs arbitrary: m q k)
  case (Cons x xs)
  show ?case
  proof (cases k)
    case 0
    have a: "map (put_words (write_at m q (u32_bytes x)) (q + 4) xs) [q..<q + 4] = map (write_at m q (u32_bytes x)) [q..<q + 4]"
      by (rule map_cong_range) (simp add: put_words_outside)
    have "word_at (put_words (write_at m q (u32_bytes x)) (q + 4) xs) q = x"
      unfolding word_at_def a using word_at_write_at [of m q x] by (simp add: word_at_def)
    then show ?thesis using 0 by simp
  next
    case (Suc j)
    then show ?thesis using Cons.IH [of j "write_at m q (u32_bytes x)" "q + 4"] Cons.prems by (simp add: algebra_simps)
  qed
qed simp

lemma put_args_above: "args_size args \<le> S \<Longrightarrow> S \<le> b \<Longrightarrow> put_args m S args b = m b"
  by (induction args arbitrary: m S) (auto simp: args_size_def write_at_outside)

lemma put_args_below: "args_size args \<le> S \<Longrightarrow> b < S - args_size args \<Longrightarrow> put_args m S args b = m b"
proof (induction args arbitrary: m S)
  case (Cons x xs)
  then have "put_args (write_at m (S - length x) x) (S - length x) xs b = write_at m (S - length x) x b"
    by (simp add: args_size_def)
  also have "\<dots> = m b" using Cons.prems by (intro write_at_outside) (simp add: args_size_def, linarith)
  finally show ?case by simp
qed simp

lemma length_arg_addrs [simp]: "length (arg_addrs S args) = length args"
  by (induction args arbitrary: S) simp_all

lemma put_args_string:
  assumes "args_size args \<le> S" "i < length args"
  shows "map (put_args m S args) [arg_addrs S args ! i..<arg_addrs S args ! i + length (args ! i)] = args ! i
    \<and> arg_addrs S args ! i + length (args ! i) \<le> S \<and> S - args_size args \<le> arg_addrs S args ! i"
  using assms
proof (induction args arbitrary: m S i)
  case (Cons x xs)
  have sz: "args_size xs \<le> S - length x" "length x \<le> S" using Cons.prems(1) by (simp_all add: args_size_def)
  show ?case
  proof (cases i)
    case 0
    have "map (put_args (write_at m (S - length x) x) (S - length x) xs) [S - length x..<S - length x + length x]
        = map (write_at m (S - length x) x) [S - length x..<S - length x + length x]"
      by (rule map_cong_range) (simp add: put_args_above [OF sz(1)])
    then have "map (put_args m S (x # xs)) [S - length x..<S - length x + length x] = x"
      unfolding put_args.simps map_write_at .
    then show ?thesis using 0 sz(2) by (simp add: args_size_def)
  next
    case (Suc j)
    from Cons.IH [OF sz(1), of j "write_at m (S - length x) x"] Cons.prems(2) Suc show ?thesis
      using sz by (auto simp: args_size_def)
  qed
qed simp

section \<open>Writing and reading the arguments\<close>

definition args_ok :: "byte list list \<Rightarrow> bool" where
  "args_ok args \<longleftrightarrow> length args < MAX_ARG_COUNT \<and> (\<forall>x \<in> set args. c_string x \<and> length x \<le> MAX_ARG_LENGTH)"

lemma rem4_small:
  assumes "q < 2147483648"
  shows "rem4 (of_nat q) = of_nat (q mod 4)"
proof -
  have u: "unat (of_nat q :: u32) = q" using assms by (intro unat_small) simp
  then have "sint (of_nat q :: u32) = int q"
    using assms by (simp add: sint_uint uint_nat signed_take_bit_int_eq_self_iff)
  moreover have "(of_nat q :: u32) mod 4 = of_nat (q mod 4)"
    by (rule word_unat_eq_iff [THEN iffD2]) (use u assms in \<open>simp add: unat_mod_distrib unat_small\<close>)
  ultimately show ?thesis by (simp add: rem4_def)
qed

text \<open>Where the array of pointers starts.\<close>

definition argv_addr :: "nat \<Rightarrow> byte list list \<Rightarrow> nat" where
  "argv_addr S args = (S - args_size args) - (S - args_size args) mod 4 - (4 * length args + 4)"

lemma argv_addr_props:
  assumes "args_size args + 4 * length args + 8 \<le> S"
  shows "argv_addr S args mod 4 = 0" "0 < argv_addr S args" "argv_addr S args + 4 * length args + 4 \<le> S - args_size args"
    "argv_addr S args + (4 * length args + 4) = (S - args_size args) - (S - args_size args) mod 4"
proof -
  define q where "q = S - args_size args"
  define c where "c = length args"
  have q: "4 * c + 8 \<le> q" using assms by (simp add: q_def c_def)
  have d: "q - q mod 4 = 4 * (q div 4)" by (simp add: minus_mod_eq_mult_div)
  have "q mod 4 \<le> 3" using mod_less_divisor [of 4 q] by linarith
  then have "4 * c + 8 \<le> 4 * (q div 4) + 3" using q div_mult_mod_eq [of q 4] by linarith
  then have "c + 2 \<le> q div 4" by linarith
  then have e: "argv_addr S args = 4 * (q div 4 - (c + 1))" by (simp add: argv_addr_def q_def [symmetric] c_def [symmetric] d)
  show "argv_addr S args mod 4 = 0" by (simp add: e)
  show "0 < argv_addr S args" using \<open>c + 2 \<le> q div 4\<close> by (simp add: e)
  have s: "argv_addr S args + (4 * c + 4) = 4 * (q div 4)" using \<open>c + 2 \<le> q div 4\<close> by (simp add: e)
  then show "argv_addr S args + (4 * length args + 4) = (S - args_size args) - (S - args_size args) mod 4"
    by (simp add: c_def [symmetric] q_def [symmetric] d)
  have "4 * (q div 4) \<le> q" by simp
  then show "argv_addr S args + 4 * length args + 4 \<le> S - args_size args" using s by (simp add: c_def q_def)
qed

lemma argv_layout:
  assumes "args_size args + 4 * length args + 8 \<le> S" "S \<le> lim"
  shows "argv_at (put_words (put_args m S args) (argv_addr S args) (map of_nat (arg_addrs S args) @ [0])) lim (argv_addr S args) args"
proof -
  let ?p = "argv_addr S args" and ?c = "length args"
  let ?ws = "map of_nat (arg_addrs S args) @ [0] :: u32 list"
  let ?m = "put_words (put_args m S args) ?p ?ws"
  note p = argv_addr_props [OF assms(1)]
  have sz: "args_size args \<le> S" using assms(1) by simp
  have "word_at ?m (?p + 4 * ?c) = 0" using word_at_put_words [of ?c ?ws "put_args m S args" ?p] by (simp add: nth_append)
  moreover have "\<exists>a. word_at ?m (?p + 4 * i) = of_nat a \<and> 0 < a \<and> a + length (args ! i) \<le> lim \<and> map ?m [a..<a + length (args ! i)] = args ! i"
    if i: "i < ?c" for i
  proof -
    let ?a = "arg_addrs S args ! i"
    from put_args_string [OF sz i] have a: "map (put_args m S args) [?a..<?a + length (args ! i)] = args ! i"
      "?a + length (args ! i) \<le> S" "S - args_size args \<le> ?a" by auto
    have "map ?m [?a..<?a + length (args ! i)] = map (put_args m S args) [?a..<?a + length (args ! i)]"
      by (rule map_cong_range) (use a(3) p(3) in \<open>simp add: put_words_outside\<close>)
    then have "map ?m [?a..<?a + length (args ! i)] = args ! i" unfolding a(1) .
    moreover have "word_at ?m (?p + 4 * i) = of_nat ?a"
      using word_at_put_words [of i ?ws "put_args m S args" ?p] i by (simp add: nth_append)
    moreover have "0 < ?a" using a(3) assms(1) by simp
    ultimately show ?thesis using a(2) assms(2) by (intro exI [of _ ?a]) simp
  qed
  ultimately show ?thesis using p(1-3) assms by (simp add: argv_at_def)
qed

context user_space
begin

lemma write_args_loop_ok:
  assumes "good s" "length args \<le> k" "\<forall>x \<in> set args. c_string x" "args_size args < S" "S \<le> top s"
  shows "\<exists>s'. write_args_loop krn raw k args (of_nat S) s
      = Inr (map of_nat (arg_addrs S args), of_nat (S - args_size args), s') \<and> wrote s s' (put_args (um s) S args)"
  using assms
proof (induction args arbitrary: S s k)
  case Nil
  then show ?case by (cases k) (simp_all add: args_size_def wrote_def keep_refl)
next
  case (Cons x xs)
  then obtain j where k: "k = Suc j" by (cases k) auto
  let ?S = "S - length x"
  have x: "c_string x" "length x \<le> S" "args_size xs < ?S" "args_size (x # xs) = length x + args_size xs"
    using Cons.prems(3,4) by (auto simp: args_size_def)
  have "x \<noteq> []" using x(1) by (auto simp: c_string_def)
  then have "?S < S" using x(2) by (cases x) auto
  then have b: "?S < 4294967296" using Cons.prems(5) top_bound [OF Cons.prems(1)] by simp
  have sp: "of_nat S - of_nat (strlen x + 1) = (of_nat ?S :: u32)" using strlen_c_string [OF x(1)] x(2) by (simp add: of_nat_diff)
  have nz: "(of_nat ?S :: u32) \<noteq> 0" using unat_small [OF b] x(3) by (metis less_nat_zero_code unsigned_0)
  from write_string_loop_ok [OF Cons.prems(1) _ x(1), of ?S raw] x(2) Cons.prems(5) obtain s1 where
    s1: "write_string_loop krn raw (of_nat ?S) x s = Inr s1" "wrote s s1 (write_at (um s) ?S x)" by auto
  have g1: "good s1" "top s1 = top s" "um s1 = write_at (um s) ?S x" using s1(2) by (simp_all add: wrote_def)
  have "\<exists>s'. write_args_loop krn raw j xs (of_nat ?S) s1
      = Inr (map of_nat (arg_addrs ?S xs), of_nat (?S - args_size xs), s') \<and> wrote s1 s' (put_args (um s1) ?S xs)"
    by (rule Cons.IH) (use Cons.prems g1 x k in auto)
  then obtain s2 where s2: "write_args_loop krn raw j xs (of_nat ?S) s1
      = Inr (map of_nat (arg_addrs ?S xs), of_nat (?S - args_size xs), s2)" "wrote s1 s2 (put_args (um s1) ?S xs)" by auto
  then show ?case
    using s1(1) k sp nz x(4) wrote_trans [OF s1(2) s2(2)] by (simp add: WriteStringToUser_def g1(3) Let_def)
qed

lemma write_pointers_ok:
  assumes "good s" "p mod 4 = 0" "p + 4 * (i + length xs) \<le> top s"
  shows "\<exists>s'. write_pointers krn (of_nat p) i xs s = Inr s' \<and> wrote s s' (put_words (um s) (p + 4 * i) xs)"
  using assms
proof (induction xs arbitrary: i s)
  case Nil
  then show ?case by (simp add: wrote_def keep_refl)
next
  case (Cons x xs)
  have a: "of_nat p + 4 * of_nat i = (of_nat (p + 4 * i) :: u32)" by simp
  have "p + 4 * i + 4 \<le> top s" "(p + 4 * i) mod 4 = 0" using Cons.prems(2,3) by simp_all
  from write4 [OF Cons.prems(1) this tries(2), of x] obtain s1 where
    s1: "try_write krn (Suc NUMBER_OF_TRIES) (of_nat (p + 4 * i)) 4 x s = Inr (True, s1)" "wrote s s1 (write_at (um s) (p + 4 * i) (u32_bytes x))"
    by (auto simp: wrote_def)
  have g1: "good s1" "top s1 = top s" "um s1 = write_at (um s) (p + 4 * i) (u32_bytes x)" using s1(2) by (simp_all add: wrote_def)
  have "\<exists>s'. write_pointers krn (of_nat p) (Suc i) xs s1 = Inr s' \<and> wrote s1 s' (put_words (um s1) (p + 4 * Suc i) xs)"
    by (rule Cons.IH) (use Cons.prems g1 in auto)
  then obtain s2 where "write_pointers krn (of_nat p) (Suc i) xs s1 = Inr s2" "wrote s1 s2 (put_words (um s1) (p + 4 * Suc i) xs)" by auto
  then show ?case using s1(1) wrote_trans [OF s1(2)] unfolding write_pointers.simps a by (simp add: g1(3) add.commute add.left_commute)
qed

lemma WriteArgs_ok:
  assumes "good s" "registers s ! STACK_REG = of_nat S" "S \<le> top s" "S < 2147483648" "args_ok args"
    and "args_size args + 4 * length args + 8 \<le> S"
  shows "\<exists>s' s''. WriteArgs krn raw args s = Inr (length args, s'') \<and> s'' = s'\<lparr>registers := (registers s')[STACK_REG := of_nat (argv_addr S args)]\<rparr>
    \<and> wrote s s' (put_words (put_args (um s) S args) (argv_addr S args) (map of_nat (arg_addrs S args) @ [0]))"
proof -
  let ?p = "argv_addr S args" and ?c = "length args" and ?q = "S - args_size args"
  let ?as = "map of_nat (arg_addrs S args) :: u32 list"
  note p = argv_addr_props [OF assms(6)]
  have sr: "ReadRegister s STACK_REG = Inr (of_nat S)" using assms(2) by (simp add: ReadRegister_def STACK_REG_def NUM_TOTAL_REGS_def)
  have c: "?c < MAX_ARG_COUNT" "\<forall>x \<in> set args. c_string x" "args_size args < S" using assms(5,6) by (auto simp: args_ok_def)
  from write_args_loop_ok [OF assms(1) less_imp_le [OF c(1)] c(2,3) assms(3)] obtain s1 where
    s1: "write_args_loop krn raw MAX_ARG_COUNT args (of_nat S) s = Inr (?as, of_nat ?q, s1)" "wrote s s1 (put_args (um s) S args)" by auto
  have g1: "good s1" "top s1 = top s" "um s1 = put_args (um s) S args" using s1(2) by (simp_all add: wrote_def)
  have "rem4 (of_nat ?q) = of_nat (?q mod 4)" using assms(4) by (intro rem4_small) simp
  then have sp: "of_nat ?q - rem4 (of_nat ?q) - (of_nat ?c * 4 + 4) = (of_nat ?p :: u32)"
  proof -
    have "of_nat ?q - of_nat (?q mod 4) = (of_nat (?q - ?q mod 4) :: u32)"
      by (rule of_nat_diff [symmetric]) (rule mod_less_eq_dividend)
    also have "\<dots> = of_nat ?p + of_nat (4 * ?c + 4)" by (simp only: p(4) [symmetric] of_nat_add)
    finally show ?thesis using \<open>rem4 (of_nat ?q) = of_nat (?q mod 4)\<close> by (simp add: algebra_simps)
  qed
  have fit: "?p + 4 * ?c + 4 \<le> top s1" using p(3) assms(3) g1(2) by simp
  have "p mod 4 = 0 \<Longrightarrow> (p + 4 * ?c) mod 4 = 0" for p :: nat by simp
  from this [OF p(1)] have al: "(?p + 4 * ?c) mod 4 = 0" .
  from write_pointers_ok [OF g1(1) p(1), of 0 ?as] fit obtain s2 where
    s2: "write_pointers krn (of_nat ?p) 0 ?as s1 = Inr s2" "wrote s1 s2 (put_words (um s1) ?p ?as)" by auto
  have g2: "good s2" "top s2 = top s1" "um s2 = put_words (um s1) ?p ?as" using s2(2) by (simp_all add: wrote_def)
  have "?p + 4 * ?c + 4 \<le> top s2" using fit g2(2) by simp
  from write4 [OF g2(1) this al tries(2), of 0] obtain s3 where
    s3: "try_write krn (Suc NUMBER_OF_TRIES) (of_nat (?p + 4 * ?c)) 4 0 s2 = Inr (True, s3)"
      "wrote s2 s3 (write_at (um s2) (?p + 4 * ?c) (u32_bytes 0))" by (auto simp: wrote_def)
  have lc: "length ?as = ?c" "of_nat ?p + 4 * of_nat ?c = (of_nat (?p + 4 * ?c) :: u32)" by simp_all
  have "WriteArgs krn raw args s = rbind (WriteRegister s3 STACK_REG (of_nat ?p)) (\<lambda>s4. Inr (?c, s4))"
    by (simp only: WriteArgs_def sr s1(1) rbind.simps rassert_True prod.case Let_def lc sp c(1) s2(1) s3(1))
  then have "WriteArgs krn raw args s = Inr (?c, s3\<lparr>registers := (registers s3)[STACK_REG := of_nat ?p]\<rparr>)"
    by (simp add: WriteRegister_def STACK_REG_def NUM_TOTAL_REGS_def)
  moreover have "wrote s s3 (put_words (put_args (um s) S args) ?p (?as @ [0]))"
    using wrote_trans [OF wrote_trans [OF s1(2) s2(2)] s3(2)] by (simp add: put_words_append g1(3) g2(3))
  ultimately show ?thesis by blast
qed

text \<open>The pointer to an argument, and the argument it points to.\<close>

lemma argv_entry:
  assumes "good s" "argv_at (um s) (top s) p args" "args_ok args" "i < length args"
  shows "\<exists>a. word_at (um s) (p + 4 * i) = of_nat a \<and> (of_nat a :: u32) \<noteq> 0 \<and> a + length (args ! i) \<le> top s
    \<and> map (um s) [a..<a + length (args ! i)] = args ! i \<and> c_string (args ! i) \<and> length (args ! i) \<le> MAX_ARG_LENGTH"
proof -
  from assms(2,4) obtain a where a: "word_at (um s) (p + 4 * i) = of_nat a" "0 < a" "a + length (args ! i) \<le> top s"
    "map (um s) [a..<a + length (args ! i)] = args ! i" unfolding argv_at_def by blast
  have c: "c_string (args ! i)" "length (args ! i) \<le> MAX_ARG_LENGTH" using assms(3,4) by (simp_all add: args_ok_def)
  then have "a < 4294967296" using a(3) top_bound [OF assms(1)] by (cases "args ! i") (auto simp: c_string_def)
  then have "(of_nat a :: u32) \<noteq> 0" using a(2) unat_small [of a] by (metis less_nat_zero_code unsigned_0)
  then show ?thesis using a c by blast
qed

lemma read_pointer:
  assumes "good s" "argv_at (um s) (top s) p args" "i \<le> length args"
  shows "\<exists>s'. try_read krn (Suc NUMBER_OF_TRIES) (of_nat p + 4 * of_nat i) 4 s = Inr (Some (word_at (um s) (p + 4 * i)), s') \<and> kept s s'"
proof -
  have "p + 4 * i + 4 \<le> top s" "(p + 4 * i) mod 4 = 0" using assms(2,3) by (auto simp: argv_at_def)
  from read4 [OF assms(1) this tries(2)] show ?thesis by (simp add: kept_def)
qed

lemma count_args_ok:
  assumes "good s" "argv_at (um s) (top s) p args" "args_ok args" "c \<le> length args" "length args < c + k"
  shows "\<exists>s'. count_args_loop krn (of_nat p) k c val s = Inr (Suc (length args), 0, s') \<and> kept s s'"
  using assms
proof (induction k arbitrary: c val s)
  case (Suc k)
  from read_pointer [OF Suc.prems(1,2,4)] obtain s1 where
    s1: "try_read krn (Suc NUMBER_OF_TRIES) (of_nat p + 4 * of_nat c) 4 s = Inr (Some (word_at (um s) (p + 4 * c)), s1)" "kept s s1" by blast
  show ?case
  proof (cases "c = length args")
    case True
    then show ?thesis using s1 Suc.prems(2) by (auto simp: argv_at_def simp del: try_read.simps)
  next
    case False
    then have c: "c < length args" using Suc.prems(4) by simp
    from argv_entry [OF Suc.prems(1-3) c] have nz: "word_at (um s) (p + 4 * c) \<noteq> 0" by auto
    have "\<exists>s'. count_args_loop krn (of_nat p) k (Suc c) (word_at (um s) (p + 4 * c)) s1 = Inr (Suc (length args), 0, s') \<and> kept s1 s'"
      by (rule Suc.IH) (use s1(2) Suc.prems c in \<open>auto simp: kept_def\<close>)
    then show ?thesis using s1 nz kept_trans [OF s1(2)] by (auto simp del: try_read.simps)
  qed
qed simp

lemma ReadStringFromUser_ok:
  assumes "good s" "a + length x \<le> top s" "map (um s) [a..<a + length x] = x" "c_string x" "length x \<le> n" "(of_nat a :: u32) \<noteq> 0"
  shows "\<exists>s'. ReadStringFromUser krn raw (of_nat a) n s = Inr (True, x, s') \<and> kept s s'"
proof -
  obtain j where j: "length x = Suc j" using assms(4) by (cases x) (auto simp: c_string_def)
  have el: "um s (a + i) = x ! i" if "i < length x" for i
    using arg_cong [OF assms(3), of "\<lambda>l. l ! i"] that by simp
  have "x ! j = 0" using assms(4) j last_conv_nth [of x] by (auto simp: c_string_def)
  moreover have "x ! i \<noteq> 0" if "i < j" for i
    using assms(4) that j nth_mem [of i "butlast x"] by (auto simp: c_string_def nth_butlast)
  ultimately have "\<exists>s'. read_string_loop krn raw n (of_nat a) s = Inr (map (um s) [a..<a + Suc j], s') \<and> kept s s'"
    by (intro read_string_loop_ok) (use assms j el in auto)
  then obtain s' where s': "read_string_loop krn raw n (of_nat a) s = Inr (x, s')" "kept s s'" using assms(3) unfolding j by auto
  have "last x = 0" "n \<noteq> 0" using assms(4,5) j by (auto simp: c_string_def)
  then show ?thesis using s' assms(6) by (simp add: ReadStringFromUser_def)
qed

lemma save_args_loop_ok:
  assumes "good s" "argv_at (um s) (top s) p args" "args_ok args" "\<forall>i \<in> set is. i < length args"
  shows "\<exists>s'. save_args_loop krn raw (of_nat p) is s = Inr (map ((!) args) is, s') \<and> kept s s'"
  using assms
proof (induction "is" arbitrary: s)
  case Nil
  then show ?case by (simp add: kept_refl)
next
  case (Cons i js)
  have i: "i < length args" using Cons.prems(4) by simp
  from read_pointer [OF Cons.prems(1,2), of i] i obtain s1 where
    s1: "try_read krn (Suc NUMBER_OF_TRIES) (of_nat p + 4 * of_nat i) 4 s = Inr (Some (word_at (um s) (p + 4 * i)), s1)" "kept s s1" by auto
  from argv_entry [OF Cons.prems(1-3) i] obtain a where a: "word_at (um s) (p + 4 * i) = of_nat a" "(of_nat a :: u32) \<noteq> 0"
    "a + length (args ! i) \<le> top s" "map (um s) [a..<a + length (args ! i)] = args ! i" "c_string (args ! i)"
    "length (args ! i) \<le> MAX_ARG_LENGTH" by blast
  have g1: "good s1" "um s1 = um s" "top s1 = top s" using s1(2) by (simp_all add: kept_def)
  from ReadStringFromUser_ok [OF g1(1), unfolded g1, OF a(3-6,2), of raw] obtain s2 where
    s2: "ReadStringFromUser krn raw (of_nat a) MAX_ARG_LENGTH s1 = Inr (True, args ! i, s2)" "kept s1 s2" by blast
  have "\<exists>s'. save_args_loop krn raw (of_nat p) js s2 = Inr (map ((!) args) js, s') \<and> kept s2 s'"
    by (rule Cons.IH) (use s2(2) g1 Cons.prems in \<open>auto simp: kept_def\<close>)
  then obtain s3 where s3: "save_args_loop krn raw (of_nat p) js s2 = Inr (map ((!) args) js, s3)" "kept s2 s3" by blast
  then show ?case using s1(1) s2(1) a(1) kept_trans [OF kept_trans [OF s1(2) s2(2)] s3(2)]
    by (simp add: mult.commute del: try_read.simps)
qed

lemma SaveArgs_ok:
  assumes "good s" "argv_at (um s) (top s) p args" "args_ok args"
  shows "\<exists>s'. SaveArgs krn raw (of_nat p) s = Inr (Some args, s') \<and> kept s s'"
proof -
  have c: "length args < MAX_ARG_COUNT" using assms(3) by (simp add: args_ok_def)
  have "0 < p" "p < 4294967296" using assms(2) top_bound [OF assms(1)] by (auto simp: argv_at_def)
  then have p: "(of_nat p :: u32) \<noteq> 0" using unat_small [of p] by (metis less_nat_zero_code unsigned_0)
  from count_args_ok [OF assms, of 0 MAX_ARG_COUNT "raw 0"] c obtain s1 where
    s1: "count_args_loop krn (of_nat p) MAX_ARG_COUNT 0 (raw 0) s = Inr (Suc (length args), 0, s1)" "kept s s1" by auto
  have "\<exists>s'. save_args_loop krn raw (of_nat p) [0..<length args] s1 = Inr (map ((!) args) [0..<length args], s') \<and> kept s1 s'"
    by (rule save_args_loop_ok) (use s1(2) assms in \<open>auto simp: kept_def\<close>)
  then show ?thesis using s1 p kept_trans [OF s1(2)] by (auto simp: SaveArgs_def CountArgsToSave_def map_nth)
qed

end

end
