(* ===== verification/Host_Files.thy ===== *)
theory Host_Files
  imports File_System
begin

text \<open>
  The operations of the file system on Nachos files never touch the files of the host, which hold
  executables and swapped pages.
\<close>

section \<open>Open files\<close>

definition wkeep :: "world \<Rightarrow> world \<Rightarrow> bool" where
  "wkeep w w' \<longleftrightarrow> hostFiles w' = hostFiles w \<and> junk w' = junk w \<and> freeMapFile w' = freeMapFile w"

lemma wkeep_refl [simp]: "wkeep w w"
  by (simp add: wkeep_def)

lemma wkeep_trans [trans]: "wkeep w w' \<Longrightarrow> wkeep w' w'' \<Longrightarrow> wkeep w w''"
  by (simp add: wkeep_def)

lemma wkeep_update [simp]: "wkeep w (oft_update w' s f) = wkeep w w'" "wkeep w (w'\<lparr>store := c\<rparr>) = wkeep w w'"
  "wkeep (oft_update w s f) w' = wkeep w w'" "wkeep (w\<lparr>store := c\<rparr>) w' = wkeep w w'"
  by (simp_all add: wkeep_def oft_update_def)

lemma oft_update_map [simp]: "freeMapFile (oft_update w s f) = freeMapFile w"
  by (simp add: oft_update_def)

lemma wkeep_map: "wkeep w w' \<Longrightarrow> freeMapFile w' = freeMapFile w"
  by (simp add: wkeep_def)

lemma lock_wkeep:
  "closeLock_Acquire w s = Inr w' \<Longrightarrow> wkeep w w'" "closeLock_Release w s = Inr w' \<Longrightarrow> wkeep w w'"
  "writeLock_Acquire w s = Inr w' \<Longrightarrow> wkeep w w'" "writeLock_Release w s = Inr w' \<Longrightarrow> wkeep w w'"
  "removeLock_Acquire w s = Inr w' \<Longrightarrow> wkeep w w'" "removeLock_Release w s = Inr w' \<Longrightarrow> wkeep w w'"
  by (auto simp: closeLock_Acquire_def closeLock_Release_def writeLock_Acquire_def writeLock_Release_def
      removeLock_Acquire_def removeLock_Release_def res_simps split: if_splits)

lemma OpenFile_WriteAt_wkeep: "OpenFile_WriteAt w f bs n p = Inr (r, w') \<Longrightarrow> \<not> isBin f \<Longrightarrow> wkeep w w'"
  by (auto simp: OpenFile_WriteAt_def res_simps)

lemma OpenFile_new_wkeep: "OpenFile_new w s False = Inr (f, w') \<Longrightarrow> wkeep w w' \<and> \<not> isBin f"
  by (auto simp: OpenFile_new_def res_simps Let_def wkeep_def)

lemma Bitmap_WriteBack_wkeep: "Bitmap_WriteBack w f bm = Inr w' \<Longrightarrow> \<not> isBin f \<Longrightarrow> wkeep w w'"
  by (auto simp: Bitmap_WriteBack_def res_simps dest: OpenFile_WriteAt_wkeep)

lemma Read_chain_bin: "Read_chain fuel w f nx n out = Inr (bs, f') \<Longrightarrow> isBin f' = isBin f"
proof (induction fuel arbitrary: f nx n out)
  case 0
  from 0 [unfolded Read_chain.simps [of 0 w f nx n out]] show ?case by (auto split: if_splits)
next
  case (Suc fuel)
  note p = Suc.prems [unfolded Read_chain.simps [of "Suc fuel" w f nx n out]]
  show ?case
  proof (cases "nx \<noteq> 0 \<and> n > 0")
    case True
    with p obtain h b where "Read_chain fuel w (f\<lparr>hdr := h, seekPosition := of_nat (length b)\<rparr>) (nextFileHeader h) (n - of_nat (length b)) (out @ b) = Inr (bs, f')"
      by (auto simp: res_simps)
    from Suc.IH [OF this] show ?thesis by simp
  next
    case False
    then show ?thesis using p by auto
  qed
qed

lemma OpenFile_Read_bin: "OpenFile_Read w f n d = Inr (bs, f') \<Longrightarrow> isBin f' = isBin f"
  by (auto simp: OpenFile_Read_def res_simps Let_def split: if_splits dest!: Read_chain_bin)

subsection \<open>Writing\<close>

text \<open>The state of \<open>Write\<close>, with a file and a free map that are Nachos files.\<close>

definition wr_ok :: "world \<Rightarrow> wr_state \<Rightarrow> bool" where
  "wr_ok w st \<longleftrightarrow> wkeep w (ws_w st) \<and> \<not> isBin (ws_f st) \<and> \<not> isBin (freeMapFile w)"

lemma wr_ok_map: "wr_ok w st \<Longrightarrow> \<not> isBin (freeMapFile (ws_w st))"
  by (simp add: wr_ok_def wkeep_def)

lemma Write_advance_wr: "Write_advance st b p = Inr st' \<Longrightarrow> wr_ok w st \<Longrightarrow> wr_ok w st'"
  by (auto simp: Write_advance_def res_simps wr_ok_def dest!: OpenFile_WriteAt_wkeep intro: wkeep_trans)

lemma Write_grow_wr: "Write_grow st s b = Inr (ok, st') \<Longrightarrow> wr_ok w st \<Longrightarrow> wr_ok w st'"
  by (auto simp: Write_grow_def res_simps Let_def wr_ok_def wkeep_def split: if_splits dest!: Bitmap_WriteBack_wkeep)

lemma Write_current_wr:
  assumes "Write_current st = Inr (ok, st')" "wr_ok w st"
  shows "wr_ok w st'"
  using assms Write_grow_wr [of st] Write_advance_wr
  by (auto simp: Write_current_def Let_def res_simps split: if_splits)

lemma wr_ok_file [simp]: "wr_ok w (st\<lparr>ws_f := (ws_f st)\<lparr>hdr := h\<rparr>\<rparr>) = wr_ok w st" "wr_ok w (st\<lparr>ws_f := (ws_f st)\<lparr>currentSector := c\<rparr>\<rparr>) = wr_ok w st"
  "wr_ok w (st\<lparr>ws_map := m\<rparr>) = wr_ok w st"
  by (simp_all add: wr_ok_def)

lemma Write_existing_wr: "Write_existing fuel nx st = Inr (ok, st') \<Longrightarrow> wr_ok w st \<Longrightarrow> wr_ok w st'"
proof (induction fuel arbitrary: nx st)
  case 0
  from 0 show ?case unfolding Write_existing.simps [of 0 nx st] by (auto split: if_splits)
next
  case (Suc fuel)
  show ?case
  proof (cases "ws_n st > 0 \<and> nx \<noteq> 0")
    case True
    from Suc.prems(1) True obtain h where h: "FileHeader_FetchFrom (store (ws_w st)) (unat nx) = Inr h"
      unfolding Write_existing.simps [of "Suc fuel" nx st] by (auto simp: res_simps)
    let ?st = "st\<lparr>ws_f := (ws_f st)\<lparr>hdr := h\<rparr>\<rparr>" and ?mx = "of_nat (NUM_DIRECT * SECTOR_SIZE) :: u32"
    let ?b = "if ws_n st > ?mx then ?mx else ws_n st"
    from Suc.prems(1) True h obtain go st2 where g: "(if ?b > numBytes h then Write_grow ?st (unat nx) (?b - numBytes h) else Inr (True, ?st)) = Inr (go, st2)"
      and rest: "(if \<not> go then Inr (False, st2) else rbind (Write_advance (st2\<lparr>ws_f := (ws_f st2)\<lparr>currentSector := unat nx\<rparr>\<rparr>) ?b 0)
          (\<lambda>st3. Write_existing fuel (nextFileHeader (hdr (ws_f st3))) st3)) = Inr (ok, st')"
      unfolding Write_existing.simps [of "Suc fuel" nx st] by (auto simp: res_simps Let_def simp del: of_nat_mult)
    have "wr_ok w ?st" using Suc.prems(2) by simp
    then have o2: "wr_ok w st2" using g Write_grow_wr [of ?st _ _ go st2 w] by (auto split: if_splits)
    show ?thesis
    proof (cases go)
      case True
      with rest obtain st3 where s3: "Write_advance (st2\<lparr>ws_f := (ws_f st2)\<lparr>currentSector := unat nx\<rparr>\<rparr>) ?b 0 = Inr st3"
        "Write_existing fuel (nextFileHeader (hdr (ws_f st3))) st3 = Inr (ok, st')" by (auto simp: res_simps)
      have "wr_ok w st3" by (rule Write_advance_wr [OF s3(1)]) (simp add: o2)
      then show ?thesis by (rule Suc.IH [OF s3(2)])
    qed (use rest o2 in simp)
  next
    case False
    then show ?thesis using Suc.prems unfolding Write_existing.simps [of "Suc fuel" nx st] by auto
  qed
qed

lemma take_header_sectors_wkeep: "take_header_sectors k w bm = Inr (ss, w', bm') \<Longrightarrow> \<not> isBin (freeMapFile w) \<Longrightarrow> wkeep w w'"
proof (induction k arbitrary: w bm ss)
  case (Suc k)
  from Suc.prems(1) obtain r bm1 w1 ss1 where a: "Bitmap_WriteBack w (freeMapFile w) bm1 = Inr w1" "take_header_sectors k w1 bm1 = Inr (ss1, w', bm')"
    by (auto simp: res_simps)
  have k: "wkeep w w1" by (rule Bitmap_WriteBack_wkeep [OF a(1) Suc.prems(2)])
  then have "\<not> isBin (freeMapFile w1)" using Suc.prems(2) by (simp add: wkeep_def)
  from Suc.IH [OF a(2) this] k show ?case by (rule wkeep_trans [rotated])
qed simp

lemma wr_ok_write:
  assumes "wr_ok w st" "wkeep (ws_w st) w1"
  shows "wr_ok w (st\<lparr>ws_w := w1\<lparr>store := c\<rparr>, ws_f := (ws_f st)\<lparr>hdr := h\<rparr>, ws_map := bm\<rparr>)"
    "wr_ok w (st\<lparr>ws_w := w1, ws_map := bm\<rparr>)"
  using assms by (auto simp: wr_ok_def intro: wkeep_trans)

lemma Write_new_loop_Cons:
  assumes "Write_new_loop prev (x # ss) st = Inr (p, us, st')"
  shows "(\<exists>bm. st' = st\<lparr>ws_map := bm\<rparr>) \<or> (\<exists>bm w1 c h b st1. Bitmap_WriteBack (ws_w st) (freeMapFile (ws_w st)) bm = Inr w1
    \<and> Write_advance (st\<lparr>ws_w := w1\<lparr>store := c\<rparr>, ws_f := (ws_f st)\<lparr>hdr := h\<rparr>, ws_map := bm\<rparr>) b 0 = Inr st1
    \<and> Write_new_loop x ss st1 = Inr (p, us, st'))"
proof -
  let ?mx = "of_nat (NUM_DIRECT * SECTOR_SIZE) :: u32"
  let ?want = "if ws_n st < ?mx then ws_n st else ?mx"
  from assms obtain c where c: "Bitmap_CountClear (ws_map st) = Inr c" by (auto simp: res_simps Let_def)
  let ?b = "if c < unat (DivRoundUp ?want (of_nat SECTOR_SIZE)) then of_nat c * of_nat SECTOR_SIZE else ?want"
  from assms c obtain go h bm where g: "(if ?b > 0 then FileHeader_Allocate (new_header (junk (ws_w st))) (ws_map st) ?b
      else Inr (False, new_header (junk (ws_w st)), ws_map st)) = Inr (go, h, bm)"
    by (auto simp: res_simps Let_def simp del: of_nat_mult split: if_splits)
  show ?thesis
  proof (cases go)
    case True
    then show ?thesis using assms c g by (auto simp: res_simps Let_def simp del: of_nat_mult)
  next
    case False
    then show ?thesis using assms c g by (auto simp: res_simps Let_def simp del: of_nat_mult)
  qed
qed

lemma Write_new_loop_wr: "Write_new_loop prev ss st = Inr (p, us, st') \<Longrightarrow> wr_ok w st \<Longrightarrow> wr_ok w st'"
proof (induction ss arbitrary: prev st)
  case Nil
  then show ?case by simp
next
  case (Cons x ss)
  from Write_new_loop_Cons [OF Cons.prems(1)] show ?case
  proof
    assume "\<exists>bm. st' = st\<lparr>ws_map := bm\<rparr>"
    then show ?thesis using Cons.prems(2) by auto
  next
    assume "\<exists>bm w1 c h b st1. Bitmap_WriteBack (ws_w st) (freeMapFile (ws_w st)) bm = Inr w1
      \<and> Write_advance (st\<lparr>ws_w := w1\<lparr>store := c\<rparr>, ws_f := (ws_f st)\<lparr>hdr := h\<rparr>, ws_map := bm\<rparr>) b 0 = Inr st1
      \<and> Write_new_loop x ss st1 = Inr (p, us, st')"
    then obtain bm w1 c h b st1 where a: "Bitmap_WriteBack (ws_w st) (freeMapFile (ws_w st)) bm = Inr w1"
      "Write_advance (st\<lparr>ws_w := w1\<lparr>store := c\<rparr>, ws_f := (ws_f st)\<lparr>hdr := h\<rparr>, ws_map := bm\<rparr>) b 0 = Inr st1"
      "Write_new_loop x ss st1 = Inr (p, us, st')" by blast
    have "wkeep (ws_w st) w1" by (rule Bitmap_WriteBack_wkeep [OF a(1) wr_ok_map [OF Cons.prems(2)]])
    from Cons.IH [OF a(3) Write_advance_wr [OF a(2) wr_ok_write(1) [OF Cons.prems(2) this]]] show ?thesis .
  qed
qed

lemma Write_new_cases:
  assumes "Write_new st = Inr st'"
  shows "st' = st \<or> (\<exists>k ss w1 bm1. take_header_sectors k (ws_w st) (ws_map st) = Inr (ss, w1, bm1) \<and>
    ((\<exists>bm. st' = st\<lparr>ws_w := w1, ws_map := bm\<rparr>) \<or> (\<exists>bm w2 c h b st1 us p st2 bm3. Bitmap_WriteBack w1 (freeMapFile w1) bm = Inr w2
      \<and> Write_advance (st\<lparr>ws_w := w2\<lparr>store := c\<rparr>, ws_f := (ws_f st)\<lparr>hdr := h\<rparr>, ws_map := bm\<rparr>) b 0 = Inr st1
      \<and> Write_new_loop (hd ss) (tl ss) st1 = Inr (p, us, st2) \<and> st' = st2\<lparr>ws_f := (ws_f st2)\<lparr>currentSector := p\<rparr>, ws_map := bm3\<rparr>)))"
proof (cases "ws_n st > 0")
  case True
  let ?k = "unat (DivRoundUp (DivRoundUp (ws_n st) (of_nat SECTOR_SIZE)) (of_nat NUM_DIRECT))"
  from assms True obtain c where c: "Bitmap_CountClear (ws_map st) = Inr c" by (auto simp: Write_new_def res_simps Let_def)
  show ?thesis
  proof (cases "c < ?k")
    case True
    then show ?thesis using assms \<open>ws_n st > 0\<close> c by (simp add: Write_new_def Let_def)
  next
    case False
    from assms True c False obtain ss w1 bm1 where t: "take_header_sectors ?k (ws_w st) (ws_map st) = Inr (ss, w1, bm1)"
      by (auto simp: Write_new_def res_simps Let_def)
    let ?mx = "of_nat (NUM_DIRECT * SECTOR_SIZE) :: u32"
    let ?b = "if ws_n st < ?mx then ws_n st else ?mx"
    from assms True c False t obtain go h bm where g: "FileHeader_Allocate (new_header (junk w1)) bm1 ?b = Inr (go, h, bm)"
      by (auto simp: Write_new_def res_simps Let_def simp del: of_nat_mult)
    show ?thesis
    proof (cases go)
      case go: True
      show ?thesis using assms True c False t g go by (simp add: Write_new_def res_simps Let_def del: of_nat_mult) blast
    next
      case go: False
      then have "st' = st\<lparr>ws_w := w1, ws_map := bm\<rparr>" using assms True c False t g by (simp add: Write_new_def Let_def del: of_nat_mult)
      then show ?thesis using t by blast
    qed
  qed
qed (use assms in \<open>simp add: Write_new_def\<close>)

lemma Write_new_wr:
  assumes "Write_new st = Inr st'" "wr_ok w st"
  shows "wr_ok w st'"
proof -
  consider "st' = st" | k ss w1 bm1 bm where "take_header_sectors k (ws_w st) (ws_map st) = Inr (ss, w1, bm1)" "st' = st\<lparr>ws_w := w1, ws_map := bm\<rparr>"
    | k ss w1 bm1 bm w2 c h b st1 us p st2 bm3 where "take_header_sectors k (ws_w st) (ws_map st) = Inr (ss, w1, bm1)"
      "Bitmap_WriteBack w1 (freeMapFile w1) bm = Inr w2"
      "Write_advance (st\<lparr>ws_w := w2\<lparr>store := c\<rparr>, ws_f := (ws_f st)\<lparr>hdr := h\<rparr>, ws_map := bm\<rparr>) b 0 = Inr st1"
      "Write_new_loop (hd ss) (tl ss) st1 = Inr (p, us, st2)" "st' = st2\<lparr>ws_f := (ws_f st2)\<lparr>currentSector := p\<rparr>, ws_map := bm3\<rparr>"
    using Write_new_cases [OF assms(1)] by metis
  then show ?thesis
  proof cases
    case 1
    then show ?thesis using assms(2) by simp
  next
    case 2
    have "wkeep (ws_w st) w1" by (rule take_header_sectors_wkeep [OF 2(1) wr_ok_map [OF assms(2)]])
    from wr_ok_write(2) [OF assms(2) this] show ?thesis using 2(2) by simp
  next
    case 3
    have k1: "wkeep (ws_w st) w1" by (rule take_header_sectors_wkeep [OF 3(1) wr_ok_map [OF assms(2)]])
    have "\<not> isBin (freeMapFile w1)" using wkeep_map [OF k1] wr_ok_map [OF assms(2)] by simp
    with k1 have "wkeep (ws_w st) w2" using Bitmap_WriteBack_wkeep [OF 3(2)] wkeep_trans by blast
    from Write_new_loop_wr [OF 3(4) Write_advance_wr [OF 3(3) wr_ok_write(1) [OF assms(2) this]]]
    show ?thesis unfolding 3(5) by (simp add: wr_ok_def)
  qed
qed

lemma OpenFile_Write_wkeep:
  assumes "OpenFile_Write w f bs n d = Inr (r, f', w')" "\<not> isBin f" "\<not> isBin (freeMapFile w)"
  shows "wkeep w w'" "\<not> isBin f'"
proof -
  let ?f1 = "if d then f\<lparr>seekPosition := 0, currentSector := sector f\<rparr> else f"
  from assms(1,2) obtain w1 h bm go st1 go2 st2 st3 where
    w1: "writeLock_Acquire w (sector f) = Inr w1"
    and s1: "Write_current \<lparr>ws_w = w1, ws_f = ?f1\<lparr>hdr := h\<rparr>, ws_map = bm, ws_from = bs, ws_n = n, ws_result = 0\<rparr> = Inr (go, st1)"
    and s2: "(if go then Write_existing (unat (ws_n st1)) (nextFileHeader (hdr (ws_f st1))) st1 else Inr (False, st1)) = Inr (go2, st2)"
    and s3: "(if go2 then Write_new st2 else Inr st2) = Inr st3"
    and w': "writeLock_Release (ws_w st3) (sector f) = Inr w'" "f' = ws_f st3"
    unfolding OpenFile_Write_def by (simp add: res_simps Let_def) blast
  have k: "wkeep w w1" by (rule lock_wkeep(3) [OF w1])
  have "wr_ok w \<lparr>ws_w = w1, ws_f = ?f1\<lparr>hdr := h\<rparr>, ws_map = bm, ws_from = bs, ws_n = n, ws_result = 0\<rparr>"
    using k assms(2,3) by (simp add: wr_ok_def)
  from Write_current_wr [OF s1 this] have "wr_ok w st2" using s2 Write_existing_wr [of _ _ st1 go2 st2 w] by (auto split: if_splits)
  then have "wr_ok w st3" using s3 Write_new_wr [of st2 st3 w] by (auto split: if_splits)
  then show "wkeep w w'" "\<not> isBin f'" using lock_wkeep(4) [OF w'(1)] w'(2) by (auto simp: wr_ok_def intro: wkeep_trans)
qed

section \<open>The file system\<close>

definition nachos :: "FileSystem \<Rightarrow> bool" where
  "nachos fs \<longleftrightarrow> \<not> isBin (directoryFile fs) \<and> \<not> isBin (freeMapFile (fsw fs))"

definition fs_keep :: "FileSystem \<Rightarrow> FileSystem \<Rightarrow> bool" where
  "fs_keep fs fs' \<longleftrightarrow> wkeep (fsw fs) (fsw fs') \<and> nachos fs'"

lemma fs_keep_refl: "nachos fs \<Longrightarrow> fs_keep fs fs"
  by (simp add: fs_keep_def)

lemma fs_keep_trans [trans]: "fs_keep fs fs' \<Longrightarrow> fs_keep fs' fs'' \<Longrightarrow> fs_keep fs fs''"
  by (auto simp: fs_keep_def intro: wkeep_trans)

lemma fs_keep_nachos: "fs_keep fs fs' \<Longrightarrow> nachos fs'"
  by (simp add: fs_keep_def)

lemma nachos_keep: "nachos fs \<Longrightarrow> wkeep (fsw fs) w \<Longrightarrow> \<not> isBin f \<Longrightarrow> fs_keep fs (fs\<lparr>fsw := w, directoryFile := f\<rparr>)"
  by (simp add: fs_keep_def nachos_def wkeep_def)

lemma Directory_FetchFrom_bin: "Directory_FetchFrom w f d b = Inr (n, d', f') \<Longrightarrow> isBin f' = isBin f"
  by (auto simp: Directory_FetchFrom_def res_simps Let_def split: if_splits dest!: OpenFile_Read_bin)

lemma read_table_size_bin: "read_table_size w f = Inr (n, f') \<Longrightarrow> isBin f' = isBin f"
  by (auto simp: read_table_size_def res_simps dest!: Directory_FetchFrom_bin)

lemma Directory_WriteBack_wkeep: "Directory_WriteBack w f d b = Inr (f', w') \<Longrightarrow> \<not> isBin f \<Longrightarrow> \<not> isBin (freeMapFile w) \<Longrightarrow> wkeep w w' \<and> \<not> isBin f'"
  by (auto simp: Directory_WriteBack_def Let_def res_simps split: if_splits dest: OpenFile_WriteAt_wkeep OpenFile_Write_wkeep)

lemma load_dir_keep:
  assumes "load_dir fs = Inr (d, fs')" "nachos fs"
  shows "fs_keep fs fs'"
proof -
  from assms(1) obtain d0 n f where "Directory_FetchFrom (fsw fs) (directoryFile fs) d0 False = Inr (n, d, f)" "fs' = fs\<lparr>directoryFile := f\<rparr>"
    by (auto simp: load_dir_def res_simps)
  then show ?thesis using assms(2) Directory_FetchFrom_bin by (auto simp: fs_keep_def nachos_def)
qed

lemma save_dir_keep:
  assumes "save_dir fs d = Inr fs'" "nachos fs"
  shows "fs_keep fs fs'"
proof -
  from assms(1) obtain f w where "Directory_WriteBack (fsw fs) (directoryFile fs) d False = Inr (f, w)" "fs' = fs\<lparr>fsw := w, directoryFile := f\<rparr>"
    by (auto simp: save_dir_def res_simps)
  then show ?thesis using assms(2) Directory_WriteBack_wkeep nachos_keep by (auto simp: nachos_def)
qed

lemma Open_nachos_keep:
  assumes "Open_nachos fs nm = Inr (fo, fs')" "nachos fs"
  shows "fs_keep fs fs'" "fo = Some f \<Longrightarrow> \<not> isBin f"
proof -
  from assms(1) obtain d fs1 where l: "load_dir fs = Inr (d, fs1)"
    and r: "fo = None \<and> fs' = fs1 \<or> (\<exists>s f w. OpenFile_new (fsw fs1) s False = Inr (f, w) \<and> fo = Some f \<and> fs' = fs1\<lparr>fsw := w\<rparr>)"
    by (auto simp: Open_nachos_def res_simps Let_def split: if_splits) blast
  have k: "fs_keep fs fs1" by (rule load_dir_keep [OF l assms(2)])
  from r show "fs_keep fs fs'"
  proof
    assume "\<exists>s f w. OpenFile_new (fsw fs1) s False = Inr (f, w) \<and> fo = Some f \<and> fs' = fs1\<lparr>fsw := w\<rparr>"
    then obtain s f w where o: "OpenFile_new (fsw fs1) s False = Inr (f, w)" "fs' = fs1\<lparr>fsw := w\<rparr>" by blast
    then have "wkeep (fsw fs1) w" using OpenFile_new_wkeep by blast
    then show ?thesis using k o(2) by (auto simp: fs_keep_def nachos_def wkeep_def)
  qed (use k in simp)
  from r show "\<not> isBin f" if "fo = Some f" using that OpenFile_new_wkeep by auto
qed

lemma OpenFile_Close_wkeep:
  assumes "OpenFile_Close w f = Inr w'"
  shows "wkeep w w'"
proof (cases "isBin f")
  case True
  then show ?thesis using assms by (simp add: OpenFile_Close_def)
next
  case False
  let ?s = "sector f"
  from assms False obtain w1 where w1: "closeLock_Acquire w ?s = Inr w1"
    and rest: "(if openCount (openFilesTable w1 ?s) > 0
        then rbind (closeLock_Release (oft_update w1 ?s (\<lambda>e. e\<lparr>openCount := openCount e - 1\<rparr>)) ?s) (\<lambda>w2.
               let e = openFilesTable w2 ?s in
               if openCount e = 0
               then let w3 = (if removing e \<and> running w2 (removerSpaceId e)
                              then w2\<lparr>removeSent := removerSpaceId e # removeSent w2\<rparr> else w2)
                    in Inr (oft_update w3 ?s (\<lambda>e. e\<lparr>writeLock := None\<rparr>))
               else Inr w2)
        else closeLock_Release w1 ?s) = Inr w'"
    unfolding OpenFile_Close_def Let_def by (cases "closeLock_Acquire w ?s") auto
  have h1: "wkeep w w1" by (rule lock_wkeep(1) [OF w1])
  show ?thesis
  proof (cases "openCount (openFilesTable w1 ?s) > 0")
    case True
    with rest obtain w2 where w2: "closeLock_Release (oft_update w1 ?s (\<lambda>e. e\<lparr>openCount := openCount e - 1\<rparr>)) ?s = Inr w2"
      by (cases "closeLock_Release (oft_update w1 ?s (\<lambda>e. e\<lparr>openCount := openCount e - 1\<rparr>)) ?s") auto
    have "wkeep w1 w2" using lock_wkeep(2) [OF w2] by simp
    moreover have "wkeep w2 w'" using rest True w2 by (auto simp: Let_def wkeep_def oft_update_def split: if_splits)
    ultimately show ?thesis using h1 by (blast intro: wkeep_trans)
  next
    case False
    then show ?thesis using rest lock_wkeep(2) [of w1 ?s w'] h1 by (auto intro: wkeep_trans)
  qed
qed

lemma close_file_keep:
  assumes "close_file fs f = Inr fs'" "nachos fs"
  shows "fs_keep fs fs'" "directoryFile fs' = directoryFile fs"
  using assms OpenFile_Close_wkeep by (auto simp: close_file_def res_simps fs_keep_def nachos_def wkeep_def)

lemma enter_dir_keep:
  assumes "enter_dir fs nm = Inr fs'" "nachos fs"
  shows "fs_keep fs fs'"
proof -
  from assms(1) obtain f fs1 fs2 n f' where o: "Open_nachos fs nm = Inr (Some f, fs1)"
    and c: "close_file (fs1\<lparr>directoryFile := f\<rparr>) (directoryFile fs1) = Inr fs2"
    and r: "read_table_size (fsw fs2) (directoryFile fs2) = Inr (n, f')" "fs' = fs2\<lparr>directoryFile := f', directorySize := n\<rparr>"
    by (auto simp: enter_dir_def res_simps Let_def split: option.splits)
  note k = Open_nachos_keep [OF o assms(2)]
  have n1: "nachos (fs1\<lparr>directoryFile := f\<rparr>)" using k by (simp add: fs_keep_def nachos_def)
  note c' = close_file_keep [OF c n1]
  have "wkeep (fsw fs1) (fsw fs2)" "nachos fs2" using c'(1) by (simp_all add: fs_keep_def)
  moreover have "isBin f' = isBin (directoryFile fs2)" by (rule read_table_size_bin [OF r(1)])
  ultimately show ?thesis using k(1) r(2) by (auto simp: fs_keep_def nachos_def intro: wkeep_trans)
qed

lemma walk_dirs_keep: "walk_dirs fs d ts = Inr (ok, fs') \<Longrightarrow> nachos fs \<Longrightarrow> fs_keep fs fs'"
proof (induction ts arbitrary: fs d)
  case Nil
  then show ?case by (simp add: fs_keep_refl)
next
  case (Cons t ts)
  show ?case
  proof (cases "FindDir d t")
    case True
    with Cons.prems(1) obtain fs1 d2 fs2 where e: "enter_dir fs t = Inr fs1" "load_dir fs1 = Inr (d2, fs2)" "walk_dirs fs2 d2 ts = Inr (ok, fs')"
      by (auto simp: res_simps)
    have "fs_keep fs fs1" by (rule enter_dir_keep [OF e(1) Cons.prems(2)])
    also have "fs_keep fs1 fs2" by (rule load_dir_keep [OF e(2) fs_keep_nachos [OF \<open>fs_keep fs fs1\<close>]])
    finally have "fs_keep fs fs2" .
    with Cons.IH [OF e(3) fs_keep_nachos [OF this]] show ?thesis by (blast intro: fs_keep_trans)
  next
    case False
    then show ?thesis using Cons.prems by (simp add: fs_keep_refl)
  qed
qed

lemma ChangeDir_keep:
  assumes "ChangeDir fs nm b = Inr (ok, fs')" "nachos fs"
  shows "fs_keep fs fs'"
proof (cases "nm \<noteq> [] \<and> hd nm = slash")
  case True
  from assms(1) True obtain root w1 n root' d fs1 su fs2 where
    o: "OpenFile_new (fsw fs) DIRECTORY_SECTOR False = Inr (root, w1)" "read_table_size w1 root = Inr (n, root')"
    and l: "load_dir (fs\<lparr>fsw := w1, directoryFile := root', directorySize := n\<rparr>) = Inr (d, fs1)"
    and w: "walk_dirs fs1 d (path_tokens (tl nm)) = Inr (su, fs2)"
    and r: "(if \<not> su then Inr (False, fs2\<lparr>directoryFile := directoryFile fs, directorySize := directorySize fs\<rparr>)
          else if b then rbind (close_file fs2 (directoryFile fs)) (\<lambda>fs3. Inr (True, fs3)) else Inr (True, fs2)) = Inr (ok, fs')"
    by (auto simp: ChangeDir_def res_simps Let_def)
  have wk: "wkeep (fsw fs) w1" "\<not> isBin root'" using OpenFile_new_wkeep [OF o(1)] read_table_size_bin [OF o(2)] by simp_all
  then have n1: "nachos (fs\<lparr>fsw := w1, directoryFile := root', directorySize := n\<rparr>)" using assms(2) by (simp add: nachos_def wkeep_def)
  have "fs_keep fs (fs\<lparr>fsw := w1, directoryFile := root', directorySize := n\<rparr>)" using n1 wk(1) by (simp add: fs_keep_def)
  also note load_dir_keep [OF l n1]
  finally have k1: "fs_keep fs fs1" .
  with walk_dirs_keep [OF w fs_keep_nachos [OF k1]] have k2: "fs_keep fs fs2" by (blast intro: fs_keep_trans)
  show ?thesis
  proof (cases su)
    case False
    then have "fs' = fs2\<lparr>directoryFile := directoryFile fs, directorySize := directorySize fs\<rparr>" using r by simp
    then show ?thesis using k2 assms(2) by (simp add: fs_keep_def nachos_def)
  next
    case True
    then show ?thesis using r k2 close_file_keep(1) [OF _ fs_keep_nachos [OF k2]] by (auto simp: res_simps split: if_splits intro: fs_keep_trans)
  qed
next
  case False
  from assms(1) False obtain d fs1 where l: "load_dir fs = Inr (d, fs1)"
    and r: "(if FindDir d nm then rbind (enter_dir fs1 nm) (\<lambda>fs2. Inr (True, fs2)) else Inr (False, fs1)) = Inr (ok, fs')"
    by (auto simp: ChangeDir_def res_simps)
  have k: "fs_keep fs fs1" by (rule load_dir_keep [OF l assms(2)])
  then show ?thesis using r enter_dir_keep [OF _ fs_keep_nachos [OF k]] by (auto simp: res_simps split: if_splits intro: fs_keep_trans)
qed

lemma goto_parent_keep:
  assumes "goto_parent fs nm = Inr (tg, fs')" "nachos fs"
  shows "fs_keep fs fs'" "tg = Some (base, Some b) \<Longrightarrow> \<not> isBin b"
proof -
  from assms(1) have "fs' = fs \<or> (\<exists>p ok. ChangeDir fs p False = Inr (ok, fs'))" "tg = Some (base, Some b) \<Longrightarrow> b = directoryFile fs"
    by (auto simp: goto_parent_def res_simps Let_def split: if_splits)
  then show "fs_keep fs fs'" "tg = Some (base, Some b) \<Longrightarrow> \<not> isBin b"
    using ChangeDir_keep [OF _ assms(2)] fs_keep_refl [OF assms(2)] assms(2) by (auto simp: nachos_def)
qed

lemma restore_dir_keep:
  assumes "restore_dir fs b = Inr fs'" "nachos fs" "\<not> isBin b"
  shows "fs_keep fs fs'"
proof -
  from assms(1) obtain fs1 n f where c: "close_file (fs\<lparr>directoryFile := b\<rparr>) (directoryFile fs) = Inr fs1"
    and r: "read_table_size (fsw fs1) (directoryFile fs1) = Inr (n, f)" "fs' = fs1\<lparr>directoryFile := f, directorySize := n\<rparr>"
    by (auto simp: restore_dir_def res_simps)
  have "nachos (fs\<lparr>directoryFile := b\<rparr>)" using assms(2,3) by (simp add: nachos_def)
  from close_file_keep [OF c this] read_table_size_bin [OF r(1)] r(2) show ?thesis by (auto simp: fs_keep_def nachos_def)
qed

lemma dir_add_keep: "dir_add fs d nm s b = (ok, d', fs') \<Longrightarrow> nachos fs \<Longrightarrow> fs_keep fs fs'"
  by (auto simp: dir_add_def SetDirectorySize_def fs_keep_def nachos_def split: prod.splits option.splits)

lemma create_here_keep:
  assumes "create_here fs nm = Inr (ok, fs')" "nachos fs"
  shows "fs_keep fs fs'"
proof -
  from assms(1) obtain d fs1 where l: "load_dir fs = Inr (d, fs1)" by (auto simp: create_here_def res_simps)
  have k1: "fs_keep fs fs1" by (rule load_dir_keep [OF l assms(2)])
  show ?thesis
  proof (cases "Directory_Find d nm \<noteq> -1")
    case True
    then show ?thesis using assms(1) l k1 by (simp add: create_here_def)
  next
    case False
    with assms(1) l obtain bm s bm1 where b: "fetch_freeMap (fsw fs1) = Inr bm" "Bitmap_Find bm = Inr (s, bm1)"
      by (auto simp: create_here_def res_simps)
    obtain added d1 fs2 where a: "dir_add fs1 d nm s False = (added, d1, fs2)" by (cases "dir_add fs1 d nm s False") auto
    have k2: "fs_keep fs fs2" using dir_add_keep [OF a fs_keep_nachos [OF k1]] k1 by (blast intro: fs_keep_trans)
    show ?thesis
    proof (cases "\<not> added \<or> s = -1")
      case True
      then show ?thesis using assms(1) l False b a k2 by (simp add: create_here_def)
    next
      case f: False
      with assms(1) l False b a obtain c w1 fs3 where w1: "Bitmap_WriteBack (fsw (set_store fs2 c)) (freeMapFile (fsw fs2)) bm1 = Inr w1"
        and s3: "save_dir (fs2\<lparr>fsw := w1\<rparr>) d1 = Inr fs3" and r: "fs' = fs3\<lparr>fsw := oft_update (fsw fs3) (nat s) fresh_entry\<rparr>"
        by (auto simp: create_here_def res_simps)
      have n2: "nachos fs2" by (rule fs_keep_nachos [OF k2])
      then have "wkeep (fsw (set_store fs2 c)) w1" using Bitmap_WriteBack_wkeep [OF w1] by (simp add: nachos_def)
      then have "fs_keep fs2 (fs2\<lparr>fsw := w1\<rparr>)" using n2 by (simp add: set_store_def fs_keep_def nachos_def wkeep_def)
      with k2 have k3: "fs_keep fs (fs2\<lparr>fsw := w1\<rparr>)" by (blast intro: fs_keep_trans)
      with save_dir_keep [OF s3 fs_keep_nachos [OF k3]] have "fs_keep fs fs3" by (blast intro: fs_keep_trans)
      then show ?thesis unfolding r by (auto simp: fs_keep_def nachos_def oft_update_def wkeep_def)
    qed
  qed
qed

lemma create_dir_here_keep:
  assumes "create_dir_here fs nm = Inr (ok, early, fs')" "nachos fs"
  shows "fs_keep fs fs'"
proof -
  from assms(1) obtain d fs1 where l: "load_dir fs = Inr (d, fs1)" by (auto simp: create_dir_here_def res_simps)
  have k1: "fs_keep fs fs1" by (rule load_dir_keep [OF l assms(2)])
  show ?thesis
  proof (cases "Directory_Find d nm \<noteq> -1")
    case True
    then show ?thesis using assms(1) l k1 by (simp add: create_dir_here_def)
  next
    case False
    with assms(1) l obtain bm s bm1 where b: "fetch_freeMap (fsw fs1) = Inr bm" "Bitmap_Find bm = Inr (s, bm1)"
      by (auto simp: create_dir_here_def res_simps)
    obtain added d1 fs2 where a: "dir_add fs1 d nm s True = (added, d1, fs2)" by (cases "dir_add fs1 d nm s True") auto
    have k2: "fs_keep fs fs2" using dir_add_keep [OF a fs_keep_nachos [OF k1]] k1 by (blast intro: fs_keep_trans)
    show ?thesis
    proof (cases "\<not> added \<or> s = -1")
      case True
      then show ?thesis using assms(1) l False b a k2 by (simp add: create_dir_here_def)
    next
      case f: False
      with assms(1) l False b a obtain su h bm2 where h: "FileHeader_Allocate (new_header (junk (fsw fs2))) bm1 (of_nat DIRECTORY_FILE_SIZE) = Inr (su, h, bm2)"
        by (auto simp: create_dir_here_def res_simps)
      show ?thesis
      proof (cases su)
        case False
        then show ?thesis using assms(1) l \<open>\<not> Directory_Find d nm \<noteq> -1\<close> b a f h k2 by (simp add: create_dir_here_def)
      next
        case True
        with assms(1) l False b a f h obtain c w1 nd nf w2 nf' w3 fs3 where
          w1: "Bitmap_WriteBack (fsw (set_store fs2 c)) (freeMapFile (fsw fs2)) bm2 = Inr w1"
          and nf: "OpenFile_new w1 (nat s) False = Inr (nf, w2)" "Directory_WriteBack w2 nf nd True = Inr (nf', w3)"
          and s3: "save_dir (fs2\<lparr>fsw := w3\<rparr>) d1 = Inr fs3" and r: "fs' = fs3\<lparr>fsw := oft_update (fsw fs3) (nat s) fresh_entry\<rparr>"
          by (auto simp: create_dir_here_def res_simps)
        have n2: "nachos fs2" by (rule fs_keep_nachos [OF k2])
        then have w12: "wkeep (fsw fs2) w1" using Bitmap_WriteBack_wkeep [OF w1] by (simp add: nachos_def set_store_def)
        have w2: "wkeep w1 w2" "\<not> isBin nf" using OpenFile_new_wkeep [OF nf(1)] by simp_all
        have "\<not> isBin (freeMapFile w2)" using w12 w2(1) n2 by (simp add: nachos_def wkeep_def)
        then have "wkeep w2 w3" using Directory_WriteBack_wkeep [OF nf(2) w2(2)] by blast
        then have "wkeep (fsw fs2) w3" using w12 w2(1) by (blast intro: wkeep_trans)
        then have "fs_keep fs2 (fs2\<lparr>fsw := w3\<rparr>)" using n2 by (simp add: fs_keep_def nachos_def wkeep_def)
        with k2 have k3: "fs_keep fs (fs2\<lparr>fsw := w3\<rparr>)" by (blast intro: fs_keep_trans)
        with save_dir_keep [OF s3 fs_keep_nachos [OF k3]] have "fs_keep fs fs3" by (blast intro: fs_keep_trans)
        then show ?thesis unfolding r by (auto simp: fs_keep_def nachos_def oft_update_def wkeep_def)
      qed
    qed
  qed
qed

lemma createLock_keep:
  "createLock_Acquire fs = Inr fs' \<Longrightarrow> nachos fs \<Longrightarrow> fs_keep fs fs'" "createLock_Release fs = Inr fs' \<Longrightarrow> nachos fs \<Longrightarrow> fs_keep fs fs'"
  by (auto simp: createLock_Acquire_def createLock_Release_def res_simps fs_keep_def nachos_def)

text \<open>The end of \<open>Create\<close> and \<open>CreateDir\<close>: back to the directory, and the lock released.\<close>

lemma finish_keep:
  assumes "rbind (case bk of None \<Rightarrow> Inr fs | Some b \<Rightarrow> restore_dir fs b) createLock_Release = Inr fs'" "nachos fs" "\<And>b. bk = Some b \<Longrightarrow> \<not> isBin b"
  shows "fs_keep fs fs'"
proof -
  from assms(1) obtain fs1 where r: "(case bk of None \<Rightarrow> Inr fs | Some b \<Rightarrow> restore_dir fs b) = Inr fs1" "createLock_Release fs1 = Inr fs'"
    by (auto simp: res_simps)
  have "fs_keep fs fs1" using r(1) restore_dir_keep [OF _ assms(2)] assms(3) fs_keep_refl [OF assms(2)] by (auto split: option.splits)
  with createLock_keep(2) [OF r(2) fs_keep_nachos [OF this]] show ?thesis by (blast intro: fs_keep_trans)
qed

lemma FileSystem_Create_keep:
  assumes "FileSystem_Create hc fs nm False = Inr (ok, fs')" "nachos fs"
  shows "fs_keep fs fs'"
proof -
  from assms(1) obtain fs1 tg fs2 where a: "createLock_Acquire fs = Inr fs1" "goto_parent fs1 nm = Inr (tg, fs2)"
    by (auto simp: FileSystem_Create_def res_simps)
  have k1: "fs_keep fs fs1" by (rule createLock_keep(1) [OF a(1) assms(2)])
  note g = goto_parent_keep [OF a(2) fs_keep_nachos [OF k1]]
  have k2: "fs_keep fs fs2" using k1 g(1) by (rule fs_keep_trans)
  show ?thesis
  proof (cases tg)
    case None
    then show ?thesis using assms(1) a createLock_keep(2) [OF _ fs_keep_nachos [OF k2]] k2
      by (auto simp: FileSystem_Create_def res_simps intro: fs_keep_trans)
  next
    case (Some p)
    obtain base bk where p: "p = (base, bk)" by (cases p)
    with assms(1) a Some obtain fs3 where c: "create_here fs2 base = Inr (ok, fs3)"
      "rbind (case bk of None \<Rightarrow> Inr fs3 | Some b \<Rightarrow> restore_dir fs3 b) createLock_Release = Inr fs'"
      by (auto simp: FileSystem_Create_def res_simps)
    have k3: "fs_keep fs fs3" using k2 create_here_keep [OF c(1) fs_keep_nachos [OF k2]] by (rule fs_keep_trans)
    have "\<not> isBin b" if "bk = Some b" for b using g(2) Some p that by simp
    with finish_keep [OF c(2) fs_keep_nachos [OF k3]] k3 show ?thesis by (blast intro: fs_keep_trans)
  qed
qed

lemma FileSystem_CreateDir_keep:
  assumes "FileSystem_CreateDir fs nm = Inr (ok, fs')" "nachos fs"
  shows "fs_keep fs fs'"
proof -
  from assms(1) obtain fs1 tg fs2 where a: "createLock_Acquire fs = Inr fs1" "goto_parent fs1 nm = Inr (tg, fs2)"
    by (auto simp: FileSystem_CreateDir_def res_simps)
  have k1: "fs_keep fs fs1" by (rule createLock_keep(1) [OF a(1) assms(2)])
  note g = goto_parent_keep [OF a(2) fs_keep_nachos [OF k1]]
  have k2: "fs_keep fs fs2" using k1 g(1) by (rule fs_keep_trans)
  show ?thesis
  proof (cases tg)
    case None
    then show ?thesis using assms(1) a createLock_keep(2) [OF _ fs_keep_nachos [OF k2]] k2
      by (auto simp: FileSystem_CreateDir_def res_simps intro: fs_keep_trans)
  next
    case (Some p)
    obtain base bk where p: "p = (base, bk)" by (cases p)
    with assms(1) a Some obtain su early fs3 where c: "create_dir_here fs2 base = Inr (su, early, fs3)"
      "createLock_Release fs3 = Inr fs' \<or> rbind (case bk of None \<Rightarrow> Inr fs3 | Some b \<Rightarrow> restore_dir fs3 b) createLock_Release = Inr fs'"
      by (auto simp: FileSystem_CreateDir_def res_simps split: if_splits)
    have k3: "fs_keep fs fs3" using k2 create_dir_here_keep [OF c(1) fs_keep_nachos [OF k2]] by (rule fs_keep_trans)
    have "\<not> isBin b" if "bk = Some b" for b using g(2) Some p that by simp
    with c(2) finish_keep [OF _ fs_keep_nachos [OF k3], of bk fs'] createLock_keep(2) [OF _ fs_keep_nachos [OF k3]]
    have "fs_keep fs3 fs'" by blast
    with k3 show ?thesis by (rule fs_keep_trans)
  qed
qed

text \<open>\<open>Remove\<close> from the point where the file is found on.\<close>

lemma remove_found_keep:
  assumes "wkeep (fsw fs1) w1" "nachos fs1" "Bitmap_WriteBack (oft_update w1 n g) (freeMapFile w1) bm = Inr w3"
    and "save_dir (fs1\<lparr>fsw := w3\<rparr>) d = Inr fs2" "w4 = oft_update (fsw fs2) n g2"
    and "(if removeLock (openFilesTable w4 n) = None then Inr w4 else removeLock_Release w4 n) = Inr w5"
  shows "fs_keep fs1 (fs2\<lparr>fsw := oft_update w5 n g3\<rparr>)"
proof -
  have "\<not> isBin (freeMapFile w1)" using assms(1,2) by (simp add: nachos_def wkeep_def)
  then have "wkeep w1 w3" using Bitmap_WriteBack_wkeep [OF assms(3)] by simp
  then have "wkeep (fsw fs1) w3" using assms(1) by (blast intro: wkeep_trans)
  then have k: "fs_keep fs1 (fs1\<lparr>fsw := w3\<rparr>)" using assms(2) by (simp add: fs_keep_def nachos_def wkeep_def)
  have k2: "fs_keep fs1 fs2" using k save_dir_keep [OF assms(4) fs_keep_nachos [OF k]] by (rule fs_keep_trans)
  have "wkeep w4 w5" using assms(6) lock_wkeep(6) by (auto split: if_splits)
  then have "wkeep (fsw fs2) w5" by (simp add: assms(5))
  then show ?thesis using k2 by (auto simp: fs_keep_def nachos_def wkeep_def oft_update_def)
qed

lemma FileSystem_Remove_keep:
  assumes "FileSystem_Remove fs nm b = Inr (ok, fs')" "nachos fs"
  shows "fs_keep fs fs'"
proof -
  from assms(1) obtain d fs1 where l: "load_dir fs = Inr (d, fs1)" by (auto simp: FileSystem_Remove_def res_simps)
  have k1: "fs_keep fs fs1" by (rule load_dir_keep [OF l assms(2)])
  let ?s = "Directory_Find d nm"
  let ?n = "nat ?s"
  show ?thesis
  proof (cases "?s = -1 \<or> (FindDir d nm \<and> \<not> b)")
    case True
    then show ?thesis using assms(1) l k1 by (auto simp: FileSystem_Remove_def Let_def split: if_splits)
  next
    case False
    with assms(1) l obtain w1 where w1: "removeLock_Acquire (fsw fs1) ?n = Inr w1" by (auto simp: FileSystem_Remove_def Let_def res_simps)
    have wk: "wkeep (fsw fs1) w1" by (rule lock_wkeep(5) [OF w1])
    have n1: "nachos fs1" by (rule fs_keep_nachos [OF k1])
    show ?thesis
    proof (cases "removed (openFilesTable w1 ?n)")
      case True
      with assms(1) l False w1 obtain w2 where w2: "removeLock_Release w1 ?n = Inr w2" "fs' = fs1\<lparr>fsw := w2\<rparr>"
        by (auto simp: FileSystem_Remove_def Let_def res_simps)
      then have "wkeep (fsw fs1) w2" using wk lock_wkeep(6) wkeep_trans by blast
      then show ?thesis using k1 n1 w2(2) by (auto simp: fs_keep_def nachos_def wkeep_def)
    next
      case r: False
      have found: "?s \<noteq> -1" "\<not> (FindDir d nm \<and> \<not> b)" using False by auto
      from assms(1) [unfolded FileSystem_Remove_def l Let_def rbind.simps prod.case] w1 r found obtain bm3 w3 fs2 w5 where
        b: "Bitmap_WriteBack (oft_update w1 ?n (\<lambda>e. e\<lparr>removing := True, removerSpaceId := spaceId fs1\<rparr>)) (freeMapFile w1) bm3 = Inr w3"
        and sd: "save_dir (fs1\<lparr>fsw := w3\<rparr>) (snd (Directory_Remove d nm)) = Inr fs2"
        and w5: "(if removeLock (openFilesTable (oft_update (fsw fs2) ?n (\<lambda>e. e\<lparr>removed := True\<rparr>)) ?n) = None then Inr (oft_update (fsw fs2) ?n (\<lambda>e. e\<lparr>removed := True\<rparr>))
          else removeLock_Release (oft_update (fsw fs2) ?n (\<lambda>e. e\<lparr>removed := True\<rparr>)) ?n) = Inr w5"
        and f: "fs' = fs2\<lparr>fsw := oft_update w5 ?n (\<lambda>e. e\<lparr>removing := False\<rparr>)\<rparr>"
        by (auto simp: res_simps)
      from remove_found_keep [OF wk n1 b sd refl w5] k1 show ?thesis unfolding f by (blast intro: fs_keep_trans)
    qed
  qed
qed

lemma FileSystem_RemoveDir_keep:
  assumes "FileSystem_RemoveDir fs nm = Inr (r, fs')" "nachos fs"
  shows "fs_keep fs fs'"
proof -
  from assms(1) obtain d fs1 where l: "load_dir fs = Inr (d, fs1)" by (auto simp: FileSystem_RemoveDir_def res_simps)
  have k1: "fs_keep fs fs1" by (rule load_dir_keep [OF l assms(2)])
  show ?thesis
  proof (cases "FindDir d nm")
    case False
    then show ?thesis using assms(1) l k1 by (simp add: FileSystem_RemoveDir_def)
  next
    case True
    with assms(1) l obtain f fs2 f2 fs3 where o: "Open_nachos fs1 nm = Inr (Some f, fs2)" and c: "close_file fs2 f2 = Inr fs3"
      and r: "fs' = fs3 \<or> (\<exists>x. FileSystem_Remove fs3 nm True = Inr (x, fs'))"
      by (auto simp: FileSystem_RemoveDir_def res_simps split: option.splits if_splits)
    have k2: "fs_keep fs fs2" using k1 Open_nachos_keep(1) [OF o fs_keep_nachos [OF k1]] by (rule fs_keep_trans)
    have k3: "fs_keep fs fs3" using k2 close_file_keep(1) [OF c fs_keep_nachos [OF k2]] by (rule fs_keep_trans)
    show ?thesis using r k3 FileSystem_Remove_keep [OF _ fs_keep_nachos [OF k3]] by (auto intro: fs_keep_trans)
  qed
qed

lemma FileSystem_Ls_keep: "FileSystem_Ls fs = Inr (out, fs') \<Longrightarrow> nachos fs \<Longrightarrow> fs_keep fs fs'"
  by (auto simp: FileSystem_Ls_def res_simps dest: load_dir_keep)

end
