(* ===== verification/Processes.thy ===== *)
theory Processes
  imports User_Args Host_Files
begin

text \<open>
  The life of a process: its creation, the context switch of \<open>Scheduler::Run\<close> with the deletion of a
  finished thread, and its start in \<open>StartProcess\<close>. Every step keeps the invariant of virtual memory
  and the memory of every other process.
\<close>

section \<open>Operations\<close>

text \<open>\<open>Thread::SaveUserState\<close> and \<open>RestoreUserState\<close>; register 0 is never written.\<close>

definition save_user :: "nat \<Rightarrow> vmachine \<Rightarrow> vmachine" where
  "save_user t s = s\<lparr>userRegisters := (userRegisters s)(t := registers s)\<rparr>"

definition restore_user :: "nat \<Rightarrow> vmachine \<Rightarrow> vmachine" where
  "restore_user t s = s\<lparr>registers := (userRegisters s t)[0 := registers s ! 0]\<rparr>"

text \<open>The loop of the destructor of a thread over its open files; the table has at most \<open>Table_SIZE\<close> entries.\<close>

fun close_files :: "nat \<Rightarrow> int \<Rightarrow> OpenFile option table \<Rightarrow> world \<Rightarrow> world res" where
  "close_files 0 i tbl w = Inr w"
| "close_files (Suc n) i tbl w =
     rbind (Table_HasKey tbl i) (\<lambda>b.
       if \<not> b then Inr w
       else rbind (Table_Get tbl i) (\<lambda>f.
            rbind (case f of None \<Rightarrow> Inr w | Some g \<Rightarrow> OpenFile_Close w g) (close_files n (i + 1) tbl)))"

definition Thread_delete :: "nat \<Rightarrow> vmachine \<Rightarrow> vmachine res" where
  "Thread_delete d s =
     rbind (rassert (d \<noteq> thisThread s)) (\<lambda>_.
     rbind (if spaces s d \<noteq> None then AddressSpace_delete d s else Inr s) (\<lambda>s1.
     rbind (close_files (nat Table_SIZE) 0 (openedFilesTable s1 d) (disk_world s1)) (\<lambda>w. Inr (set_world s1 w))))"

text \<open>
  \<open>Scheduler::Run\<close> from the old thread to one that has run before, which comes back from its own
  \<open>SWITCH\<close>; \<open>dead\<close> is \<open>threadToBeDestroyed\<close>.
\<close>

definition leave_thread :: "vmachine \<Rightarrow> vmachine res" where
  "leave_thread s = (let old = thisThread s in
     if spaces s old \<noteq> None then SaveState old (save_user old s) else Inr s)"

definition enter_thread :: "nat option \<Rightarrow> vmachine \<Rightarrow> vmachine res" where
  "enter_thread dead s =
     rbind (case dead of None \<Rightarrow> Inr s | Some d \<Rightarrow> Thread_delete d s) (\<lambda>s1.
       let t = thisThread s1 in
       Inr (if spaces s1 t \<noteq> None then RestoreState (restore_user t s1) else s1))"

definition Run_switch :: "nat option \<Rightarrow> nat \<Rightarrow> vmachine \<Rightarrow> vmachine res" where
  "Run_switch dead t s = rbind (leave_thread s) (\<lambda>s1. enter_thread dead (s1\<lparr>thisThread := t\<rparr>))"

text \<open>To a thread that has never run, which goes on in the function it was forked with.\<close>

definition Run_first :: "nat \<Rightarrow> vmachine \<Rightarrow> vmachine res" where
  "Run_first t s = rbind (leave_thread s) (\<lambda>s1. Inr (s1\<lparr>thisThread := t\<rparr>))"

section \<open>Leaving a thread\<close>

text \<open>No entry of the TLB is valid.\<close>

definition tlb_empty :: "vmachine \<Rightarrow> bool" where
  "tlb_empty s \<longleftrightarrow> (\<forall>e \<in> set (tlbs s). \<not> valid e)"

lemma SaveState_loop_ok:
  assumes "vm_inv s H" "\<forall>i \<in> set is. i < TLB_SIZE"
  shows "\<exists>s'. SaveState_loop is (thisThread s) s = Inr s' \<and> vm_inv s' H \<and> same_memory s s'
    \<and> registers s' = registers s \<and> handlers s' = handlers s \<and> userRegisters s' = userRegisters s
    \<and> openedFilesTable s' = openedFilesTable s \<and> fileSystem s' = fileSystem s
    \<and> (\<forall>i < TLB_SIZE. valid (tlbs s' ! i) \<longrightarrow> valid (tlbs s ! i) \<and> i \<notin> set is)"
  using assms
proof (induction "is" arbitrary: s)
  case Nil
  then show ?case by simp
next
  case (Cons i js)
  note inv = Cons.prems(1) [unfolded vm_inv_def]
  have i: "i < TLB_SIZE" and at: "tlb_at i s = Inr (tlbs s ! i)" using Cons.prems inv by (simp_all add: tlb_at_ok)
  show ?case
  proof (cases "valid (tlbs s ! i)")
    case False
    from Cons.IH [OF Cons.prems(1)] Cons.prems(2) obtain s' where
      "SaveState_loop js (thisThread s) s = Inr s'" "vm_inv s' H" "same_memory s s'" "registers s' = registers s"
      "handlers s' = handlers s" "userRegisters s' = userRegisters s" "openedFilesTable s' = openedFilesTable s"
      "fileSystem s' = fileSystem s" "\<forall>k < TLB_SIZE. valid (tlbs s' ! k) \<longrightarrow> valid (tlbs s ! k) \<and> k \<notin> set js" by auto
    then show ?thesis using at False by auto
  next
    case True
    let ?v = "unat (virtualPage (tlbs s ! i))" and ?t = "thisThread s"
    let ?s = "save_entry i ?v s"
    note c = cached_facts [OF Cons.prems(1) i True refl]
    note se = save_entry_inv [OF Cons.prems(1) i True refl]
    have own: "owned_ok s H" and po: "pages_ok s" using inv by blast+
    have vp: "coreVirtualPage (coreMap (mmu s) ! frame s ?t ?v) = virtualPage (tlbs s ! i)"
      using owned_core(4) [OF own c(1)] by simp
    have fr: "frame s ?t ?v < NUM_PHYS_PAGES" by (rule resid_small [OF po c(1)])
    have cm: "core_at (physicalPage (tlbs s ! i)) s = Inr (coreMap (mmu s) ! frame s ?t ?v)"
      using core_at_ok [of s "physicalPage (tlbs s ! i)"] inv fr c(3) by simp
    have "set_page ?t (virtualPage (tlbs s ! i)) ((tlbs s ! i)\<lparr>valid := False\<rparr>) (set_tlb i ((tlbs s ! i)\<lparr>valid := False\<rparr>) s) = Inr ?s"
      using c(2) by (simp add: set_page_put save_entry_def)
    then have run: "SaveState_loop (i # js) ?t s = SaveState_loop js (thisThread ?s) ?s"
      using at True cm vp by simp
    have hw: "tlb (mmu s) \<noteq> None" "length (tlbs s) = TLB_SIZE" using inv by (simp_all add: hw_ok_def)
    have tl: "valid (tlbs ?s ! k) \<longrightarrow> valid (tlbs s ! k) \<and> k \<noteq> i" if "k < TLB_SIZE" for k
      using that hw by (cases "k = i") (simp_all add: save_entry_tlbs)
    have ex: "userRegisters ?s = userRegisters s" "openedFilesTable ?s = openedFilesTable s"
      by (simp_all add: save_entry_def put_page_def set_tlb_def)
    from Cons.IH [of ?s] se Cons.prems(2) obtain s' where
      s': "SaveState_loop js (thisThread ?s) ?s = Inr s'" "vm_inv s' H" "same_memory ?s s'" "registers s' = registers ?s"
      "handlers s' = handlers ?s" "userRegisters s' = userRegisters ?s" "openedFilesTable s' = openedFilesTable ?s"
      "fileSystem s' = fileSystem ?s" "\<forall>k < TLB_SIZE. valid (tlbs s' ! k) \<longrightarrow> valid (tlbs ?s ! k) \<and> k \<notin> set js" by auto
    moreover have "same_memory s s'" using se s'(3) same_memory_trans by blast
    moreover have "\<forall>k < TLB_SIZE. valid (tlbs s' ! k) \<longrightarrow> valid (tlbs s ! k) \<and> k \<notin> set (i # js)" using s'(9) tl by auto
    ultimately show ?thesis using run ex by auto
  qed
qed

lemma user_registers_view: "same_view s (s\<lparr>userRegisters := u\<rparr>)"
  by (simp add: same_view_def fun_eq_iff npages_def pg_def static_def)

lemma tlb_empty_nth: "hw_ok s \<Longrightarrow> tlb_empty s \<longleftrightarrow> (\<forall>i < TLB_SIZE. \<not> valid (tlbs s ! i))"
  by (simp add: tlb_empty_def hw_ok_def all_set_conv_all_nth)

text \<open>A thread without an address space has nothing in the TLB.\<close>

lemma kernel_thread_tlb:
  assumes "vm_inv s H" "spaces s (thisThread s) = None"
  shows "tlb_empty s"
proof -
  have "\<not> valid (tlbs s ! i)" if "i < TLB_SIZE" for i
    using cached_facts(2) [OF assms(1) that _ refl] assms(2) by (auto simp: npages_def)
  then show ?thesis using assms(1) by (simp add: tlb_empty_nth vm_inv_def)
qed

lemma leave_thread_ok:
  assumes "vm_inv s H"
  shows "\<exists>s'. leave_thread s = Inr s' \<and> vm_inv s' H \<and> same_memory s s' \<and> tlb_empty s'
    \<and> registers s' = registers s \<and> handlers s' = handlers s \<and> openedFilesTable s' = openedFilesTable s \<and> fileSystem s' = fileSystem s
    \<and> userRegisters s' = (if spaces s (thisThread s) \<noteq> None then (userRegisters s)(thisThread s := registers s) else userRegisters s)"
proof (cases "spaces s (thisThread s) = None")
  case True
  then show ?thesis using assms kernel_thread_tlb by (simp add: leave_thread_def)
next
  case False
  let ?s = "save_user (thisThread s) s"
  have v: "same_view s ?s" unfolding save_user_def by (rule user_registers_view)
  then have "vm_inv ?s H" "same_memory s ?s" using same_view_inv assms by blast+
  moreover have t: "thisThread ?s = thisThread s" by (simp add: save_user_def)
  ultimately obtain s' where s': "SaveState (thisThread s) ?s = Inr s'" "vm_inv s' H" "same_memory ?s s'"
    "registers s' = registers ?s" "handlers s' = handlers ?s" "userRegisters s' = userRegisters ?s"
    "openedFilesTable s' = openedFilesTable ?s" "fileSystem s' = fileSystem ?s" "\<forall>i < TLB_SIZE. \<not> valid (tlbs s' ! i)"
    using SaveState_loop_ok [of ?s H "[0..<TLB_SIZE]"] unfolding SaveState_def by auto
  have "tlb_empty s'" using s'(2,9) by (simp add: tlb_empty_nth vm_inv_def)
  then show ?thesis
    using False s' same_memory_trans [OF \<open>same_memory s ?s\<close>] by (simp add: leave_thread_def Let_def save_user_def)
qed

section \<open>Deleting an address space\<close>

definition frames_of :: "TranslationEntry list \<Rightarrow> nat set" where
  "frames_of es = (\<lambda>e. unat (physicalPage e)) ` {e \<in> set es. physicalPage e \<noteq> INT_MAX}"

lemma frames_of_simps [simp]:
  "frames_of [] = {}"
  "frames_of (e # es) = (if physicalPage e = INT_MAX then frames_of es else insert (unat (physicalPage e)) (frames_of es))"
  by (auto simp: frames_of_def)

lemma frame_addr: "unat p < NUM_PHYS_PAGES \<Longrightarrow> unat (p * page_bytes) = unat p * PAGE_SIZE"
  using page_addr [of "unat p"] by (simp add: MAX_PAGES_def NUM_PHYS_PAGES_def)

lemma release_pages_ok:
  assumes "bitmap_ok (addressesBitMap s)" "numBits (addressesBitMap s) = NUM_PHYS_PAGES" "length (mem s) = MEMORY_SIZE"
    and "\<forall>f \<in> frames_of es. f < NUM_PHYS_PAGES"
  shows "\<exists>bm m. release_pages es s = Inr (s\<lparr>addressesBitMap := bm, mmu := (mmu s)\<lparr>mainMemory := m\<rparr>\<rparr>)
    \<and> bitmap_ok bm \<and> numBits bm = NUM_PHYS_PAGES \<and> marked bm = marked (addressesBitMap s) - frames_of es \<and> length m = MEMORY_SIZE
    \<and> (\<forall>f. f < NUM_PHYS_PAGES \<and> f \<notin> frames_of es \<longrightarrow> slice (f * PAGE_SIZE) PAGE_SIZE m = slice (f * PAGE_SIZE) PAGE_SIZE (mem s))"
  using assms
proof (induction es arbitrary: s)
  case Nil
  then show ?case by (intro exI [of _ "addressesBitMap s"] exI [of _ "mem s"]) simp
next
  case (Cons e es)
  show ?case
  proof (cases "physicalPage e = INT_MAX")
    case True
    then show ?thesis using Cons by simp
  next
    case False
    let ?f = "unat (physicalPage e)"
    have f: "?f < NUM_PHYS_PAGES" using Cons.prems(4) False by simp
    from bm.clear_law [OF Cons.prems(1), of ?f] f Cons.prems(2) obtain b where
      b: "Bitmap_Clear (addressesBitMap s) ?f = Inr b" "bitmap_ok b" "numBits b = NUM_PHYS_PAGES"
        "marked b = marked (addressesBitMap s) - {?f}" by auto
    have fit: "?f * PAGE_SIZE + PAGE_SIZE \<le> length (mem s)"
      using Cons.prems(3) mult_le_mono1 [of "Suc ?f" NUM_PHYS_PAGES PAGE_SIZE] f by (simp add: MEMORY_SIZE_def)
    let ?m = "overlay (mem s) (?f * PAGE_SIZE) (replicate PAGE_SIZE 0)"
    let ?s = "s\<lparr>addressesBitMap := b, mmu := (mmu s)\<lparr>mainMemory := ?m\<rparr>\<rparr>"
    have st: "set_mem (unat (physicalPage e * page_bytes)) (replicate PAGE_SIZE 0) (s\<lparr>addressesBitMap := b\<rparr>) = Inr ?s"
      using fit by (simp add: set_mem_def frame_addr [OF f] rcheck_def)
    have lm: "length (mem ?s) = MEMORY_SIZE" using fit Cons.prems(3) by simp
    have other: "slice (g * PAGE_SIZE) PAGE_SIZE ?m = slice (g * PAGE_SIZE) PAGE_SIZE (mem s)" if "g \<noteq> ?f" for g
      using page_slots_disjoint [OF that] fit by (intro slice_overlay_other) auto
    have "\<exists>bm m. release_pages es ?s = Inr (?s\<lparr>addressesBitMap := bm, mmu := (mmu ?s)\<lparr>mainMemory := m\<rparr>\<rparr>)
      \<and> bitmap_ok bm \<and> numBits bm = NUM_PHYS_PAGES \<and> marked bm = marked (addressesBitMap ?s) - frames_of es \<and> length m = MEMORY_SIZE
      \<and> (\<forall>g. g < NUM_PHYS_PAGES \<and> g \<notin> frames_of es \<longrightarrow> slice (g * PAGE_SIZE) PAGE_SIZE m = slice (g * PAGE_SIZE) PAGE_SIZE (mem ?s))"
      by (rule Cons.IH) (use b lm Cons.prems(4) False in simp_all)
    then obtain c m where c: "release_pages es ?s = Inr (?s\<lparr>addressesBitMap := c, mmu := (mmu ?s)\<lparr>mainMemory := m\<rparr>\<rparr>)"
      "bitmap_ok c" "numBits c = NUM_PHYS_PAGES" "marked c = marked b - frames_of es" "length m = MEMORY_SIZE"
      "\<forall>g. g < NUM_PHYS_PAGES \<and> g \<notin> frames_of es \<longrightarrow> slice (g * PAGE_SIZE) PAGE_SIZE m = slice (g * PAGE_SIZE) PAGE_SIZE ?m" by auto
    have "release_pages (e # es) s = Inr (s\<lparr>addressesBitMap := c, mmu := (mmu s)\<lparr>mainMemory := m\<rparr>\<rparr>)"
      using False b(1) st c(1) by simp
    moreover have "marked c = marked (addressesBitMap s) - frames_of (e # es)" using c(4) b(4) False by auto
    moreover have "slice (g * PAGE_SIZE) PAGE_SIZE m = slice (g * PAGE_SIZE) PAGE_SIZE (mem s)"
      if "g < NUM_PHYS_PAGES" "g \<notin> frames_of (e # es)" for g
      using c(6) other [of g] that False by simp
    ultimately show ?thesis using c(2,3,5) by blast
  qed
qed

lemma frames_of_resid:
  assumes "spaces s d = Some sp"
  shows "frames_of (pages sp) = {frame s d v |v. resid s d v}"
proof -
  have "npages s d = length (pages sp)" "\<And>v. pg s d v = pages sp ! v" using assms by (simp_all add: npages_def pg_def)
  then show ?thesis by (fastforce simp: frames_of_def resid_def in_set_conv_nth image_iff)
qed

text \<open>The state after the destructor, and what it leaves to the others.\<close>

lemma delete_space_inv:
  assumes "vm_inv s {}" "tlb_empty s" "spaces s d = Some sp"
    and "bitmap_ok bm" "numBits bm = NUM_PHYS_PAGES" "marked bm = marked (addressesBitMap s) - frames_of (pages sp)"
    and "length m = MEMORY_SIZE" "\<forall>f. f < NUM_PHYS_PAGES \<and> f \<notin> frames_of (pages sp) \<longrightarrow> slice (f * PAGE_SIZE) PAGE_SIZE m = slice (f * PAGE_SIZE) PAGE_SIZE (mem s)"
    and "s' = s\<lparr>addressesBitMap := bm, mmu := (mmu s)\<lparr>mainMemory := m\<rparr>, spaces := (spaces s)(d := None)\<rparr>"
  shows "vm_inv s' {} \<and> npages s' = (npages s)(d := 0) \<and> static s' = (static s)(d := None)
    \<and> (\<forall>t v. t \<noteq> d \<and> v < npages s t \<longrightarrow> vpage s' t v = vpage s t v)"
proof -
  note inv = assms(1) [unfolded vm_inv_def]
  have own: "owned_ok s {}" and po: "pages_ok s" and pr: "procs_ok s" using inv by blast+
  have f: "npages s' = (npages s)(d := 0)" "static s' = (static s)(d := None)" "tlb (mmu s') = tlb (mmu s)"
    "thisThread s' = thisThread s" "coreMap (mmu s') = coreMap (mmu s)" "pageTable (mmu s') = pageTable (mmu s)"
    "addressesBitMap s' = bm" "runningProcesses s' = runningProcesses s" "fileSystem s' = fileSystem s" "mem s' = m"
    using assms(9) by (auto simp: npages_def static_def fun_eq_iff)
  have pg: "pg s' t v = pg s t v" if "t \<noteq> d" for t v using that assms(9) by (simp add: pg_def)
  have i: "init_res s' t v = init_res s t v" "init_page s' t v = init_page s t v" "swap s' t = swap s t" if "t \<noteq> d" for t v
    using that f by (simp_all add: init_res_def init_page_def swap_def)
  have r: "resid s' t v \<longleftrightarrow> t \<noteq> d \<and> resid s t v" for t v by (auto simp: resid_def f pg)
  have mine: "f \<in> frames_of (pages sp) \<Longrightarrow> \<exists>v. resid s d v \<and> f = frame s d v" for f
    using frames_of_resid [OF assms(3)] by auto
  have out: "frame s t v \<notin> frames_of (pages sp)" if "t \<noteq> d" "resid s t v" for t v
    using mine frame_inj [OF pr po own that(2)] that(1) by metis
  have vp: "vpage s' t v = vpage s t v" if "t \<noteq> d" "v < npages s t" for t v
  proof (cases "resid s t v")
    case True
    then show ?thesis using assms(8) out [OF that(1) True] resid_small [OF po True]
      by (simp add: vpage_def pg [OF that(1)] resid_def f)
  next
    case False
    then show ?thesis using that by (simp add: vpage_def pg resid_def i)
  qed
  have "hw_ok s'" using inv assms(4,5,7) by (simp add: hw_ok_def f)
  moreover have "procs_ok s'" using pr by (simp add: procs_ok_def f del: static_None)
  moreover have "files_ok s'" using inv by (simp add: files_ok_def f del: static_None)
  moreover have "pages_ok s'" using po by (simp add: pages_ok_def f pg i)
  moreover have "owned_ok s' {}"
  proof -
    have "frame s' t v \<in> marked bm \<and> coreSpaceId (coreMap (mmu s) ! frame s' t v) = addressSpaceId (st s' t)
        \<and> coreVirtualPage (coreMap (mmu s) ! frame s' t v) = of_nat v" if "resid s' t v" for t v
      using owned_core [OF own, of t v] that out assms(6) by (simp add: r pg f)
    moreover have "\<exists>t v. resid s' t v \<and> frame s' t v = g" if "g \<in> marked bm" for g
    proof -
      have g: "g \<in> marked (addressesBitMap s)" "g \<notin> frames_of (pages sp)" using that assms(6) by simp_all
      then obtain t v where tv: "resid s t v" "frame s t v = g" using own unfolding owned_ok_def by blast
      then have "t \<noteq> d" using g(2) frames_of_resid [OF assms(3)] by auto
      then have "resid s' t v \<and> frame s' t v = g" using tv by (simp add: r pg)
      then show ?thesis by blast
    qed
    ultimately show ?thesis by (simp add: owned_ok_def f)
  qed
  moreover have "tlb_ok s'"
    using assms(2) inv nth_mem by (auto simp: tlb_ok_def tlb_empty_def f)
  moreover have "content_ok s'"
  proof -
    have d: "is_dirty s' t v = is_dirty s t v" if "t \<noteq> d" for t v using that by (simp add: is_dirty_def pg f)
    show ?thesis using inv by (simp add: content_ok_def r f pg d vp i)
  qed
  ultimately show ?thesis using vp f by (simp add: vm_inv_def)
qed

lemma AddressSpace_delete_ok:
  assumes "vm_inv s {}" "tlb_empty s" "spaces s d = Some sp"
  shows "\<exists>s'. AddressSpace_delete d s = Inr s' \<and> vm_inv s' {} \<and> tlb_empty s' \<and> npages s' = (npages s)(d := 0) \<and> static s' = (static s)(d := None)
    \<and> (\<forall>t v. t \<noteq> d \<and> v < npages s t \<longrightarrow> vpage s' t v = vpage s t v)
    \<and> marked (addressesBitMap s') = marked (addressesBitMap s) - {frame s d v |v. resid s d v}
    \<and> registers s' = registers s \<and> handlers s' = handlers s \<and> userRegisters s' = userRegisters s \<and> thisThread s' = thisThread s
    \<and> openedFilesTable s' = openedFilesTable s \<and> fileSystem s' = fileSystem s"
proof -
  note inv = assms(1) [unfolded vm_inv_def]
  have po: "pages_ok s" using inv by blast
  have hw: "bitmap_ok (addressesBitMap s)" "numBits (addressesBitMap s) = NUM_PHYS_PAGES" "length (mem s) = MEMORY_SIZE"
    using inv by (simp_all add: hw_ok_def)
  have "\<forall>f \<in> frames_of (pages sp). f < NUM_PHYS_PAGES"
    using frames_of_resid [OF assms(3)] resid_small [OF po] by auto
  from release_pages_ok [OF hw this] obtain bm m where
    r: "release_pages (pages sp) s = Inr (s\<lparr>addressesBitMap := bm, mmu := (mmu s)\<lparr>mainMemory := m\<rparr>\<rparr>)" "bitmap_ok bm"
      "numBits bm = NUM_PHYS_PAGES" "marked bm = marked (addressesBitMap s) - frames_of (pages sp)" "length m = MEMORY_SIZE"
      "\<forall>f. f < NUM_PHYS_PAGES \<and> f \<notin> frames_of (pages sp) \<longrightarrow> slice (f * PAGE_SIZE) PAGE_SIZE m = slice (f * PAGE_SIZE) PAGE_SIZE (mem s)"
    by blast
  let ?s = "s\<lparr>addressesBitMap := bm, mmu := (mmu s)\<lparr>mainMemory := m\<rparr>, spaces := (spaces s)(d := None)\<rparr>"
  have "static s d = Some (sp\<lparr>pages := []\<rparr>)" using assms(3) by (simp add: static_def)
  moreover have "static s d \<noteq> None \<Longrightarrow> isBin (exeFile (st s d))" using inv unfolding files_ok_def by blast
  ultimately have "isBin (exeFile sp)" by simp
  then have "AddressSpace_delete d s = Inr ?s"
    using r(1) assms(3) by (simp add: AddressSpace_delete_def the_space_def OpenFile_Close_def set_world_def)
  moreover have "tlb_empty ?s" using assms(2) by (simp add: tlb_empty_def)
  ultimately show ?thesis
    using delete_space_inv [OF assms r(2-6) refl] r(4) frames_of_resid [OF assms(3)] by simp
qed

section \<open>The context switch\<close>

text \<open>Closing files changes neither the host's files nor what fresh memory holds.\<close>

definition same_host :: "world \<Rightarrow> world \<Rightarrow> bool" where
  "same_host w w' \<longleftrightarrow> hostFiles w' = hostFiles w \<and> junk w' = junk w"

lemma same_host_refl [simp]: "same_host w w"
  by (simp add: same_host_def)

lemma same_host_trans [trans]: "same_host w w' \<Longrightarrow> same_host w' w'' \<Longrightarrow> same_host w w''"
  by (simp add: same_host_def)

lemma wkeep_same_host: "wkeep w w' \<Longrightarrow> same_host w w'"
  by (simp add: wkeep_def same_host_def)

lemma close_files_host: "close_files n i tbl w = Inr w' \<Longrightarrow> same_host w w'"
proof (induction n arbitrary: i w)
  case (Suc n)
  from Suc.prems show ?case
    by (auto simp: res_simps split: if_splits option.splits dest!: Suc.IH OpenFile_Close_wkeep wkeep_same_host intro: same_host_trans)
qed simp

lemma file_system_inv:
  assumes "vm_inv s H" "same_host (disk_world s) (fsw fs)"
  shows "vm_inv (s\<lparr>fileSystem := fs\<rparr>) H \<and> same_memory s (s\<lparr>fileSystem := fs\<rparr>)"
proof -
  have hw: "hostFiles (fsw fs) = hostFiles (disk_world s)" "junk (fsw fs) = junk (disk_world s)" using assms(2) by (simp_all add: same_host_def)
  let ?s = "s\<lparr>fileSystem := fs\<rparr>"
  note inv = assms(1) [unfolded vm_inv_def]
  have f: "npages ?s = npages s" "pg ?s = pg s" "static ?s = static s" "mmu ?s = mmu s" "thisThread ?s = thisThread s"
    "addressesBitMap ?s = addressesBitMap s" "runningProcesses ?s = runningProcesses s" "disk_world ?s = fsw fs"
    by (simp_all add: fun_eq_iff npages_def pg_def static_def)
  have sw: "swap ?s = swap s" by (rule ext) (simp add: swap_def f hw)
  have bin: "isBin (exeFile (st s t))" if "v < npages s t" for t v
    using npages_pos [OF that] inv unfolding files_ok_def by (metis option.distinct(1))
  have i: "init_res ?s t v = init_res s t v" "init_page ?s t v = init_page s t v" if "v < npages s t" for t v
    using page_image_same [OF bin [OF that], of "fsw fs" "disk_world s"] hw by (simp_all add: init_res_def init_page_def f)
  have r: "resid ?s = resid s" "is_dirty ?s = is_dirty s" "cached_ok ?s = cached_ok s"
    by (simp_all add: fun_eq_iff resid_def is_dirty_def cached_ok_def f)
  have vp: "vpage ?s t v = vpage s t v" if "v < npages s t" for t v by (simp add: vpage_def f sw i [OF that])
  have "hw_ok ?s" "procs_ok ?s" "files_ok ?s" "pages_ok ?s" "owned_ok ?s H" "tlb_ok ?s" "content_ok ?s"
    using inv by (simp_all add: hw_ok_def procs_ok_def files_ok_def pages_ok_def owned_ok_def tlb_ok_def content_ok_def f r vp i sw del: static_None)
  then show ?thesis using vp f by (simp add: vm_inv_def same_memory_def)
qed

lemma world_inv:
  assumes "vm_inv s H" "same_host (disk_world s) w"
  shows "vm_inv (set_world s w) H \<and> same_memory s (set_world s w)"
  using file_system_inv [OF assms(1), of "(fileSystem s)\<lparr>fsw := w\<rparr>"] assms(2) by (simp add: set_world_def)

text \<open>With nothing in the TLB another thread can become the current one.\<close>

lemma switch_thread:
  assumes "vm_inv s H" "tlb_empty s" "s' = s\<lparr>thisThread := t\<rparr>"
  shows "vm_inv s' H" "tlb_empty s'" "npages s' = npages s" "static s' = static s" "vpage s' = vpage s"
    "resid s' = resid s" "pg s' = pg s"
proof -
  note inv = assms(1) [unfolded vm_inv_def]
  have f: "npages s' = npages s" "pg s' = pg s" "static s' = static s" "mmu s' = mmu s" "swap s' = swap s"
    "addressesBitMap s' = addressesBitMap s" "runningProcesses s' = runningProcesses s" "init_res s' = init_res s"
    "init_page s' = init_page s" "resid s' = resid s" "vpage s' = vpage s"
    using assms(3)
    by (simp_all add: fun_eq_iff npages_def pg_def static_def swap_def init_res_def init_page_def resid_def vpage_def)
  have d: "is_dirty s' = is_dirty s" using assms(2) by (auto simp: fun_eq_iff is_dirty_def tlb_empty_def f)
  show te: "tlb_empty s'" using assms(2) by (simp add: tlb_empty_def f)
  have "tlb_ok s'" using te nth_mem by (fastforce simp: tlb_ok_def tlb_empty_def)
  then show "vm_inv s' H"
    using inv by (simp add: vm_inv_def hw_ok_def procs_ok_def files_ok_def pages_ok_def owned_ok_def content_ok_def f d del: static_None)
  show "npages s' = npages s" "static s' = static s" "vpage s' = vpage s" "resid s' = resid s" "pg s' = pg s" by (fact f)+
qed

lemma RestoreState_view:
  assumes "tlb_empty s" "tlb (mmu s) \<noteq> None"
  shows "same_view s (RestoreState s)" "tlb_empty (RestoreState s)" "registers (RestoreState s) = registers s"
    "handlers (RestoreState s) = handlers s" "addressesBitMap (RestoreState s) = addressesBitMap s"
proof -
  obtain es where es: "tlb (mmu s) = Some es" using assms(2) by auto
  then have "map (\<lambda>e. e\<lparr>valid := False\<rparr>) es = es" using assms(1) by (intro map_idI) (simp add: tlb_empty_def)
  then show "same_view s (RestoreState s)" "tlb_empty (RestoreState s)"
    using es assms(1) by (simp_all add: RestoreState_def same_view_def tlb_empty_def)
  show "registers (RestoreState s) = registers s" "handlers (RestoreState s) = handlers s" "addressesBitMap (RestoreState s) = addressesBitMap s"
    by (simp_all add: RestoreState_def)
qed

lemma Thread_delete_ok:
  assumes "vm_inv s {}" "tlb_empty s" "d \<noteq> thisThread s"
    and "close_files (nat Table_SIZE) 0 (openedFilesTable s d) (disk_world s) = Inr w"
  shows "\<exists>s'. Thread_delete d s = Inr s' \<and> vm_inv s' {} \<and> tlb_empty s' \<and> static s' = (static s)(d := None)
    \<and> (\<forall>t. t \<noteq> d \<longrightarrow> npages s' t = npages s t \<and> (\<forall>v < npages s t. vpage s' t v = vpage s t v))
    \<and> marked (addressesBitMap s') = marked (addressesBitMap s) - {frame s d v |v. resid s d v}
    \<and> registers s' = registers s \<and> handlers s' = handlers s \<and> userRegisters s' = userRegisters s \<and> thisThread s' = thisThread s"
proof -
  have "\<exists>s1. (if spaces s d \<noteq> None then AddressSpace_delete d s else Inr s) = Inr s1 \<and> vm_inv s1 {} \<and> tlb_empty s1 \<and> static s1 = (static s)(d := None)
    \<and> (\<forall>t. t \<noteq> d \<longrightarrow> npages s1 t = npages s t \<and> (\<forall>v < npages s t. vpage s1 t v = vpage s t v))
    \<and> marked (addressesBitMap s1) = marked (addressesBitMap s) - {frame s d v |v. resid s d v}
    \<and> registers s1 = registers s \<and> handlers s1 = handlers s \<and> userRegisters s1 = userRegisters s \<and> thisThread s1 = thisThread s
    \<and> openedFilesTable s1 = openedFilesTable s \<and> fileSystem s1 = fileSystem s"
  proof (cases "spaces s d")
    case None
    then have "\<not> resid s d v" for v by (simp add: resid_def npages_def)
    moreover have "static s = (static s)(d := None)" using None by (auto simp: static_def)
    ultimately show ?thesis using None assms(1,2) by (intro exI [of _ s]) simp
  next
    case (Some sp)
    from AddressSpace_delete_ok [OF assms(1,2) Some] Some show ?thesis by auto
  qed
  then obtain s1 where s1: "(if spaces s d \<noteq> None then AddressSpace_delete d s else Inr s) = Inr s1" "vm_inv s1 {}" "tlb_empty s1"
    "static s1 = (static s)(d := None)" "\<forall>t. t \<noteq> d \<longrightarrow> npages s1 t = npages s t \<and> (\<forall>v < npages s t. vpage s1 t v = vpage s t v)"
    "marked (addressesBitMap s1) = marked (addressesBitMap s) - {frame s d v |v. resid s d v}"
    "registers s1 = registers s" "handlers s1 = handlers s" "userRegisters s1 = userRegisters s" "thisThread s1 = thisThread s"
    "openedFilesTable s1 = openedFilesTable s" "fileSystem s1 = fileSystem s" by blast
  have "same_host (disk_world s1) w" using close_files_host [OF assms(4)] s1(12) by simp
  from world_inv [OF s1(2) this] have wi: "vm_inv (set_world s1 w) {}" "same_memory s1 (set_world s1 w)" by blast+
  have "Thread_delete d s = Inr (set_world s1 w)"
    using assms(3,4) s1(1) by (simp add: Thread_delete_def s1(11,12))
  moreover have "tlb_empty (set_world s1 w)" using s1(3) by (simp add: tlb_empty_def set_world_def)
  moreover have "registers (set_world s1 w) = registers s" "handlers (set_world s1 w) = handlers s"
    "userRegisters (set_world s1 w) = userRegisters s" "thisThread (set_world s1 w) = thisThread s"
    "addressesBitMap (set_world s1 w) = addressesBitMap s1" "static (set_world s1 w) = static s1"
    using s1(7-10) by (simp_all add: set_world_def static_def fun_eq_iff)
  ultimately show ?thesis
    using wi s1(4-6) by (intro exI [of _ "set_world s1 w"]) (simp add: same_memory_def)
qed

lemma owned_frames:
  assumes "vm_inv s {}"
  shows "marked (addressesBitMap s) = {frame s p v |p v. resid s p v}"
proof -
  have own: "owned_ok s {}" using assms by (simp add: vm_inv_def)
  then have "\<exists>p v. resid s p v \<and> frame s p v = f" if "f \<in> marked (addressesBitMap s)" for f
    using that unfolding owned_ok_def by auto
  moreover have "frame s p v \<in> marked (addressesBitMap s)" if "resid s p v" for p v by (rule owned_core(1) [OF own that])
  ultimately show ?thesis by blast
qed

definition can_close :: "nat \<Rightarrow> vmachine \<Rightarrow> bool" where
  "can_close d s \<longleftrightarrow> (\<exists>w. close_files (nat Table_SIZE) 0 (openedFilesTable s d) (disk_world s) = Inr w)"

lemma enter_thread_ok:
  assumes "vm_inv s {}" "tlb_empty s" "\<forall>d. dead = Some d \<longrightarrow> d \<noteq> thisThread s \<and> can_close d s"
  shows "\<exists>s'. enter_thread dead s = Inr s' \<and> vm_inv s' {} \<and> tlb_empty s' \<and> thisThread s' = thisThread s
    \<and> (\<forall>p. npages s' p = (if dead = Some p then 0 else npages s p)
         \<and> (dead \<noteq> Some p \<longrightarrow> static s' p = static s p \<and> (\<forall>v < npages s p. vpage s' p v = vpage s p v)))
    \<and> registers s' = (if spaces s (thisThread s) \<noteq> None then (userRegisters s (thisThread s))[0 := registers s ! 0] else registers s)
    \<and> handlers s' = handlers s \<and> userRegisters s' = userRegisters s"
proof -
  have "\<exists>s1. (case dead of None \<Rightarrow> Inr s | Some d \<Rightarrow> Thread_delete d s) = Inr s1 \<and> vm_inv s1 {} \<and> tlb_empty s1 \<and> thisThread s1 = thisThread s
    \<and> (\<forall>p. npages s1 p = (if dead = Some p then 0 else npages s p)
         \<and> (dead \<noteq> Some p \<longrightarrow> static s1 p = static s p \<and> (\<forall>v < npages s p. vpage s1 p v = vpage s p v)))
    \<and> registers s1 = registers s \<and> handlers s1 = handlers s \<and> userRegisters s1 = userRegisters s"
  proof (cases dead)
    case None
    then show ?thesis using assms(1,2) by simp
  next
    case (Some d)
    then obtain w where d: "d \<noteq> thisThread s" "close_files (nat Table_SIZE) 0 (openedFilesTable s d) (disk_world s) = Inr w"
      using assms(3) by (auto simp: can_close_def)
    from Thread_delete_ok [OF assms(1,2) d] obtain s1 where
      s1: "Thread_delete d s = Inr s1" "vm_inv s1 {}" "tlb_empty s1" "static s1 = (static s)(d := None)"
        "\<forall>t. t \<noteq> d \<longrightarrow> npages s1 t = npages s t \<and> (\<forall>v < npages s t. vpage s1 t v = vpage s t v)"
        "registers s1 = registers s" "handlers s1 = handlers s" "userRegisters s1 = userRegisters s" "thisThread s1 = thisThread s"
      by blast
    have "spaces s1 d = None" using arg_cong [OF s1(4), of "\<lambda>g. g d"] by simp
    then have "npages s1 d = 0" by (simp add: npages_def)
    then show ?thesis using Some s1 by simp
  qed
  then obtain s1 where s1: "(case dead of None \<Rightarrow> Inr s | Some d \<Rightarrow> Thread_delete d s) = Inr s1" "vm_inv s1 {}" "tlb_empty s1"
    "thisThread s1 = thisThread s" "\<forall>p. npages s1 p = (if dead = Some p then 0 else npages s p)
       \<and> (dead \<noteq> Some p \<longrightarrow> static s1 p = static s p \<and> (\<forall>v < npages s p. vpage s1 p v = vpage s p v))"
    "registers s1 = registers s" "handlers s1 = handlers s" "userRegisters s1 = userRegisters s" by blast
  let ?t = "thisThread s"
  have "dead \<noteq> Some ?t" using assms(3) by auto
  then have sp: "spaces s1 ?t = None \<longleftrightarrow> spaces s ?t = None" using s1(5) static_None by metis
  show ?thesis
  proof (cases "spaces s ?t = None")
    case True
    then show ?thesis using s1 sp by (simp add: enter_thread_def Let_def)
  next
    case False
    let ?s = "restore_user ?t s1"
    have v: "same_view s1 ?s" unfolding restore_user_def by (rule registers_view(2))
    then have i: "vm_inv ?s {}" "same_memory s1 ?s" using same_view_inv s1(2) by blast+
    have te: "tlb_empty ?s" "tlb (mmu ?s) \<noteq> None" using s1(3) i(1) by (simp_all add: tlb_empty_def restore_user_def vm_inv_def hw_ok_def)
    note r = RestoreState_view [OF te]
    have j: "vm_inv (RestoreState ?s) {}" "same_memory ?s (RestoreState ?s)" using same_view_inv [OF r(1) i(1)] by blast+
    have m: "same_memory s1 (RestoreState ?s)" by (rule same_memory_trans [OF i(2) j(2)])
    have "enter_thread dead s = Inr (RestoreState ?s)" using s1(1,4) False sp by (auto simp: enter_thread_def Let_def)
    then show ?thesis
      using j(1) r(2-4) m s1(4-8) False
      by (intro exI [of _ "RestoreState ?s"]) (simp add: same_memory_def restore_user_def RestoreState_def)
  qed
qed

lemma Run_switch_ok:
  assumes "vm_inv s {}" "\<forall>d. dead = Some d \<longrightarrow> d \<noteq> t \<and> can_close d s"
  shows "\<exists>s'. Run_switch dead t s = Inr s' \<and> vm_inv s' {} \<and> thisThread s' = t \<and> tlb_empty s'
    \<and> (\<forall>p. npages s' p = (if dead = Some p then 0 else npages s p)
         \<and> (dead \<noteq> Some p \<longrightarrow> static s' p = static s p \<and> (\<forall>v < npages s p. vpage s' p v = vpage s p v)))
    \<and> (spaces s (thisThread s) \<noteq> None \<longrightarrow> userRegisters s' (thisThread s) = registers s)
    \<and> (spaces s t \<noteq> None \<and> t \<noteq> thisThread s \<longrightarrow> registers s' = (userRegisters s t)[0 := registers s ! 0])
    \<and> handlers s' = handlers s"
proof -
  from leave_thread_ok [OF assms(1)] obtain s1 where
    s1: "leave_thread s = Inr s1" "vm_inv s1 {}" "same_memory s s1" "tlb_empty s1" "registers s1 = registers s" "handlers s1 = handlers s"
      "openedFilesTable s1 = openedFilesTable s" "fileSystem s1 = fileSystem s"
      "userRegisters s1 = (if spaces s (thisThread s) \<noteq> None then (userRegisters s)(thisThread s := registers s) else userRegisters s)" by blast
  let ?s = "s1\<lparr>thisThread := t\<rparr>"
  note sw = switch_thread [OF s1(2,4) refl, of t]
  have "\<forall>d. dead = Some d \<longrightarrow> d \<noteq> thisThread ?s \<and> can_close d ?s"
    using assms(2) s1(7,8) by (simp add: can_close_def)
  from enter_thread_ok [OF sw(1,2) this] obtain s2 where
    s2: "enter_thread dead ?s = Inr s2" "vm_inv s2 {}" "tlb_empty s2" "thisThread s2 = t"
      "\<forall>p. npages s2 p = (if dead = Some p then 0 else npages ?s p)
         \<and> (dead \<noteq> Some p \<longrightarrow> static s2 p = static ?s p \<and> (\<forall>v < npages ?s p. vpage s2 p v = vpage ?s p v))"
      "registers s2 = (if spaces ?s t \<noteq> None then (userRegisters ?s t)[0 := registers ?s ! 0] else registers ?s)"
      "handlers s2 = handlers ?s" "userRegisters s2 = userRegisters ?s" by auto
  have same: "npages ?s = npages s" "static ?s = static s" "\<And>p v. v < npages s p \<Longrightarrow> vpage ?s p v = vpage s p v"
    using s1(3) sw(3-5) by (simp_all add: same_memory_def)
  have "spaces ?s t = None \<longleftrightarrow> spaces s t = None" using same(2) static_None by metis
  then have "spaces s t \<noteq> None \<and> t \<noteq> thisThread s \<longrightarrow> registers s2 = (userRegisters s t)[0 := registers s ! 0]"
    using s2(6) s1(5,9) by simp
  moreover have "userRegisters s2 = userRegisters s1" "handlers s2 = handlers s" using s2(7,8) s1(6) by simp_all
  ultimately show ?thesis
    using s1(1,9) s2(1-5) same by (intro exI [of _ s2]) (simp add: Run_switch_def)
qed

lemma Run_first_ok:
  assumes "vm_inv s {}"
  shows "\<exists>s'. Run_first t s = Inr s' \<and> vm_inv s' {} \<and> thisThread s' = t \<and> tlb_empty s' \<and> npages s' = npages s \<and> static s' = static s
    \<and> (\<forall>p v. v < npages s p \<longrightarrow> vpage s' p v = vpage s p v) \<and> registers s' = registers s \<and> handlers s' = handlers s"
proof -
  from leave_thread_ok [OF assms] obtain s1 where
    s1: "leave_thread s = Inr s1" "vm_inv s1 {}" "same_memory s s1" "tlb_empty s1" "registers s1 = registers s" "handlers s1 = handlers s" by blast
  note sw = switch_thread [OF s1(2,4) refl, of t]
  show ?thesis using s1 sw by (intro exI [of _ "s1\<lparr>thisThread := t\<rparr>"]) (simp add: Run_first_def same_memory_def)
qed

end
