(* ===== verification/Programs.thy ===== *)
theory Programs
  imports Processes
begin

text \<open>
  Loading a program: the pages that \<open>LoadPage\<close> builds from an executable are the pages of its code,
  its initialised data and zeros; a new address space shows its process exactly this image, and
  \<open>StartProcess\<close> hands it the arguments of its parent.
\<close>

section \<open>The image of a program\<close>

text \<open>
  A NOFF file with the code at address 0, the data right behind it, and nothing after the data. Where
  the data has no bytes its addresses are not used, and neither are those of the uninitialised data.
\<close>

definition is_noff :: "byte list \<Rightarrow> byte list \<Rightarrow> byte list \<Rightarrow> u32 \<Rightarrow> bool" where
  "is_noff f cd dt bss \<longleftrightarrow> (let h = bytes_noff f in
     NOFF_HEADER_SIZE \<le> length f \<and> noffMagic h = NOFF_MAGIC
     \<and> code h = \<lparr>virtualAddr = 0, inFileAddr = 40, segSize = of_nat (length cd)\<rparr>
     \<and> segSize (initData h) = of_nat (length dt) \<and> segSize (uninitData h) = bss
     \<and> (dt \<noteq> [] \<longrightarrow> virtualAddr (initData h) = of_nat (length cd) \<and> inFileAddr (initData h) = of_nat (40 + length cd))
     \<and> drop NOFF_HEADER_SIZE f = cd @ dt)"

definition noff_file :: "byte list \<Rightarrow> byte list \<Rightarrow> u32 \<Rightarrow> byte list" where
  "noff_file cd dt bss = words_bytes [NOFF_MAGIC, 0, 40, of_nat (length cd), of_nat (length cd), of_nat (40 + length cd), of_nat (length dt),
     of_nat (length cd + length dt), 0, bss] @ cd @ dt"

lemma noff_file_is_noff: "is_noff (noff_file cd dt bss) cd dt bss"
proof -
  let ?ws = "[NOFF_MAGIC, 0, 40, of_nat (length cd), of_nat (length cd), of_nat (40 + length cd), of_nat (length dt),
     of_nat (length cd + length dt), 0, bss]"
  have "bytes_words 10 (noff_file cd dt bss) = ?ws" unfolding noff_file_def by (rule bytes_words_append) simp
  then show ?thesis
    by (simp only: is_noff_def bytes_noff_def Let_def) (simp add: words_segment_def numeral_nat noff_file_def NOFF_HEADER_SIZE_def)
qed

definition image_page :: "byte list \<Rightarrow> nat \<Rightarrow> byte list" where
  "image_page img a = take PAGE_SIZE (drop a img @ replicate PAGE_SIZE 0)"

lemma length_image_page [simp]: "length (image_page img a) = PAGE_SIZE"
  by (simp add: image_page_def)

lemma nth_image_page: "i < PAGE_SIZE \<Longrightarrow> image_page img a ! i = (if a + i < length img then img ! (a + i) else 0)"
  by (auto simp: image_page_def nth_append)

lemma overlay_zeros: "overlay (replicate PAGE_SIZE 0) 0 (slice a PAGE_SIZE img) = image_page img a"
  by (simp add: overlay_def slice_def image_page_def min_def)

lemma overlay_same: "pos + length d \<le> length buf \<Longrightarrow> slice pos (length d) buf = d \<Longrightarrow> overlay buf pos d = buf"
  unfolding overlay_def slice_def by (metis add.commute append_take_drop_id drop_drop)

lemma drop_noff: "is_noff f cd dt bss \<Longrightarrow> drop (40 + a) f = drop a (cd @ dt)"
  by (metis is_noff_def drop_drop add.commute NOFF_HEADER_SIZE_def)

lemma bytes_words_take: "bytes_words n (take (4 * n) f) = bytes_words n f"
  by (induction n arbitrary: f) (simp_all add: drop_take)

lemma Executable_new_noff:
  assumes "isBin f" "is_noff (hostFiles w (hostFd f)) cd dt bss"
  shows "Executable_new w f = Inr \<lparr>exe_file = f, header = bytes_noff (hostFiles w (hostFd f))\<rparr>"
proof -
  let ?f = "hostFiles w (hostFd f)"
  have n: "40 \<le> length ?f" using assms(2) by (simp add: is_noff_def Let_def NOFF_HEADER_SIZE_def)
  have "OpenFile_ReadAt w f (of_nat NOFF_HEADER_SIZE) 0 = Inr (take 40 ?f)"
    using assms(1) by (simp only: OpenFile_ReadAt_def) (simp add: host_read_def NOFF_HEADER_SIZE_def slice_def)
  moreover have "overlay (fresh_bytes (junk w) NOFF_HEADER_SIZE) 0 (take 40 ?f) = take 40 ?f"
    using n by (intro overlay_all) (simp add: NOFF_HEADER_SIZE_def)
  ultimately show ?thesis using bytes_words_take [of 10 ?f] by (simp add: Executable_new_def bytes_noff_def Let_def)
qed

lemma small_less: "x < 4294967296 \<Longrightarrow> y < 4294967296 \<Longrightarrow> ((of_nat x :: u32) < of_nat y) = (x < y)"
  by (simp add: word_less_nat_alt unat_small)

lemma small_eq: "x < 4294967296 \<Longrightarrow> y < 4294967296 \<Longrightarrow> ((of_nat x :: u32) = of_nat y) = (x = y)"
  by (simp add: word_unat_eq_iff unat_small)

lemma noff_read:
  assumes "isBin f" "is_noff (hostFiles w (hostFd f)) cd dt bss" "0 < n" "n < 4294967296" "40 + a < 4294967296"
  shows "OpenFile_ReadAt w f (of_nat n) (of_nat (40 + a)) = Inr (slice a n (cd @ dt))"
proof -
  have "(0 :: u32) < of_nat n" using assms(3,4) small_less [of 0 n] by simp
  then show ?thesis
    using assms unat_small [OF assms(4)] unat_small [OF assms(5)] drop_noff [OF assms(2), of a]
    by (simp add: OpenFile_ReadAt_def host_read_def slice_def del: of_nat_add)
qed

text \<open>The two reads of \<open>LoadPage\<close>: the code block, and the data behind it or from the middle of the data on.\<close>

lemma page_image_parts:
  assumes "Executable_new w (exeFile sp) = Inr exe"
    and "(if codeSize sp > 0 \<and> start < codeSize sp
      then rbind (ReadCodeBlock w exe page_bytes start) (\<lambda>bs.
        Inr (if codeSize sp - start < page_bytes then codeSize sp - start else page_bytes, overlay zeros 0 bs))
      else Inr (0, zeros)) = Inr (g, buf)"
  shows "\<not> (initDataSize sp > 0 \<and> start + g < dataVirtualAddr sp + initDataSize sp \<and> g \<noteq> page_bytes) \<Longrightarrow> page_image w sp start zeros = Inr buf"
    and "initDataSize sp > 0 \<and> start + g < dataVirtualAddr sp + initDataSize sp \<and> g \<noteq> page_bytes \<Longrightarrow>
      (if dataVirtualAddr sp + initDataSize sp - (start + g) < page_bytes - g
       then dataVirtualAddr sp + initDataSize sp - (start + g) else page_bytes - g) = n \<Longrightarrow>
      ReadDataBlock w exe n (if g \<noteq> 0 then 0 else start - codeSize sp) = Inr bs \<Longrightarrow>
      page_image w sp start zeros = Inr (overlay buf (unat g) bs)"
  unfolding page_image_def assms(1) rbind.simps(2) assms(2) prod.case Let_def by (simp_all only: if_True if_False simp_thms rbind.simps)

text \<open>What the reads give on such a file; sizes stay below \<open>2\<^sup>3\<^sup>1\<close>.\<close>

definition noff_space :: "world \<Rightarrow> AddressSpace \<Rightarrow> byte list \<Rightarrow> byte list \<Rightarrow> bool" where
  "noff_space w sp cd dt \<longleftrightarrow> isBin (exeFile sp) \<and> (\<exists>bss. is_noff (hostFiles w (hostFd (exeFile sp))) cd dt bss)
     \<and> codeSize sp = of_nat (length cd) \<and> initDataSize sp = of_nat (length dt) \<and> (dt \<noteq> [] \<longrightarrow> dataVirtualAddr sp = of_nat (length cd))
     \<and> length cd + length dt < 2147483648"

lemma noff_reads:
  assumes "noff_space w sp cd dt"
  obtains exe where "Executable_new w (exeFile sp) = Inr exe"
    "\<And>a. a < length cd \<Longrightarrow> ReadCodeBlock w exe page_bytes (of_nat a) = Inr (slice a PAGE_SIZE (cd @ dt))"
    "\<And>n q. 0 < n \<Longrightarrow> n \<le> 128 \<Longrightarrow> q < length dt \<Longrightarrow> ReadDataBlock w exe (of_nat n) (of_nat q) = Inr (slice (length cd + q) n (cd @ dt))"
proof -
  let ?C = "length cd" and ?D = "length dt" and ?L = "cd @ dt" and ?f = "exeFile sp"
  from assms obtain bss where h: "isBin ?f" "is_noff (hostFiles w (hostFd ?f)) cd dt bss" "?C + ?D < 2147483648" by (auto simp: noff_space_def)
  from Executable_new_noff [OF h(1,2)] h(2) obtain exe where ex: "Executable_new w ?f = Inr exe" "exe_file exe = ?f"
    "inFileAddr (code (header exe)) = 40" "segSize (code (header exe)) = of_nat ?C"
    "dt \<noteq> [] \<longrightarrow> inFileAddr (initData (header exe)) = of_nat (40 + ?C)" "segSize (initData (header exe)) = of_nat ?D"
    by (auto simp: is_noff_def Let_def)
  note rd = noff_read [OF h(1,2)]
  have "ReadCodeBlock w exe page_bytes (of_nat a) = Inr (slice a PAGE_SIZE ?L)" if "a < ?C" for a
    using rd [of 128 a] h(3) that small_less [of a ?C] by (simp add: ReadCodeBlock_def ex PAGE_SIZE_def SECTOR_SIZE_def)
  moreover have "ReadDataBlock w exe (of_nat n) (of_nat q) = Inr (slice (?C + q) n ?L)" if "0 < n" "n \<le> 128" "q < ?D" for n q
  proof -
    have "inFileAddr (initData (header exe)) = of_nat (40 + ?C)" using ex(5) that(3) by auto
    then show ?thesis using rd [of n "?C + q"] that h(3) small_less [of q ?D] small_eq [of n 0]
      by (simp add: ReadDataBlock_def ex(2,6) add.assoc)
  qed
  ultimately show ?thesis using that ex(1) by blast
qed

lemma page_image_in_code:
  assumes "noff_space w sp cd dt" "a < 2147483648" and less: "a < length cd"
  shows "page_image w sp (of_nat a) (replicate PAGE_SIZE 0) = Inr (image_page (cd @ dt) a)"
proof -
  let ?C = "length cd" and ?D = "length dt" and ?L = "cd @ dt"
  let ?P = "image_page ?L a"
  have sp: "codeSize sp = of_nat ?C" "initDataSize sp = of_nat ?D" "dt \<noteq> [] \<longrightarrow> dataVirtualAddr sp = of_nat ?C" "?C + ?D < 2147483648"
    using assms(1) by (auto simp: noff_space_def)
  from noff_reads [OF assms(1)] obtain exe where ex: "Executable_new w (exeFile sp) = Inr exe"
    and codeRead: "\<And>a. a < ?C \<Longrightarrow> ReadCodeBlock w exe page_bytes (of_nat a) = Inr (slice a PAGE_SIZE ?L)"
    and dataRead: "\<And>n q. 0 < n \<Longrightarrow> n \<le> 128 \<Longrightarrow> q < ?D \<Longrightarrow> ReadDataBlock w exe (of_nat n) (of_nat q) = Inr (slice (?C + q) n ?L)" by blast
  have ps: "PAGE_SIZE = 128" "page_bytes = of_nat 128" by (simp_all add: PAGE_SIZE_def SECTOR_SIZE_def)
  note lt = small_less and sum = of_nat_add [where 'a = u32, symmetric]
  define got where "got = min (?C - a) 128"
  have c: "(if codeSize sp - of_nat a < page_bytes then codeSize sp - of_nat a else page_bytes) = of_nat got"
    unfolding ps(2) sp(1) of_nat_diff [OF less_imp_le [OF less], symmetric] using sp(4) lt [of "?C - a" 128]
    by (simp add: got_def min_def)
  have "0 < codeSize sp \<and> of_nat a < codeSize sp" using less sp(1,4) assms(2) lt [of a ?C] lt [of 0 ?C] by auto
  then have "(if codeSize sp > 0 \<and> of_nat a < codeSize sp
    then rbind (ReadCodeBlock w exe page_bytes (of_nat a)) (\<lambda>bs.
      Inr (if codeSize sp - of_nat a < page_bytes then codeSize sp - of_nat a else page_bytes, overlay (replicate PAGE_SIZE 0) 0 bs))
    else Inr (0, replicate PAGE_SIZE 0)) = Inr (of_nat got, ?P)"
    by (simp only: codeRead [OF less] c rbind.simps overlay_zeros if_True simp_thms)
  note parts = page_image_parts [OF ex this]
  have g128: "(of_nat got :: u32) = page_bytes \<longleftrightarrow> got = 128" unfolding ps(2) by (rule small_eq) (simp_all add: got_def)
  show ?thesis
  proof (cases "0 < ?D \<and> got \<noteq> 128")
    case False
    then have "\<not> (initDataSize sp > 0 \<and> (of_nat got :: u32) \<noteq> page_bytes)" unfolding g128 sp(2) by auto
    then show ?thesis using parts(1) by blast
  next
    case True
    then have g: "got = ?C - a" "got < 128" "a + got = ?C" "0 < got" using less by (auto simp: got_def min_def split: if_splits)
    from True have dv: "dataVirtualAddr sp = of_nat ?C" using sp(3) by auto
    define n where "n = min ?D (128 - got)"
    have n0: "0 < n" "n \<le> 128" using True g(2) by (auto simp: n_def)
    have "dataVirtualAddr sp + initDataSize sp - (of_nat a + of_nat got) = of_nat ?D"
      unfolding sum g(3) sp(2) dv by simp
    moreover have "page_bytes - of_nat got = (of_nat (128 - got) :: u32)" unfolding ps(2) using g(2) by (simp add: of_nat_diff)
    ultimately have n: "(if dataVirtualAddr sp + initDataSize sp - (of_nat a + of_nat got) < page_bytes - of_nat got
        then dataVirtualAddr sp + initDataSize sp - (of_nat a + of_nat got) else page_bytes - of_nat got) = of_nat n"
      using sp(4) lt [of ?D "128 - got"] by (simp only: n_def min_def) (simp add: min_def)
    have more: "initDataSize sp > 0 \<and> of_nat a + of_nat got < dataVirtualAddr sp + initDataSize sp \<and> (of_nat got :: u32) \<noteq> page_bytes"
      unfolding g128 sum g(3) sp(2) dv using True sp(4) lt [of 0 ?D] lt [of ?C "?C + ?D"] by simp
    have "(of_nat got :: u32) \<noteq> 0" using g small_eq [of got 0] by simp
    then have "ReadDataBlock w exe (of_nat n) (if (of_nat got :: u32) \<noteq> 0 then 0 else of_nat a - codeSize sp) = Inr (slice ?C n ?L)"
      using dataRead [OF n0, of 0] True by simp
    from parts(2) [OF more n this] have p: "page_image w sp (of_nat a) (replicate PAGE_SIZE 0) = Inr (overlay ?P (unat (of_nat got :: u32)) (slice ?C n ?L))" .
    have "slice got n ?P = slice ?C n ?L"
      using g by (intro nth_equalityI) (auto simp: n_def nth_image_page ps(1) add.assoc [symmetric])
    moreover have "length (slice ?C n ?L) = n" by (simp add: n_def)
    ultimately have "overlay ?P got (slice ?C n ?L) = ?P" using g(2) by (intro overlay_same) (simp_all add: ps(1) n_def)
    moreover have "unat (of_nat got :: u32) = got" using g(2) by (intro unat_small) simp
    ultimately show ?thesis using p by simp
  qed
qed

lemma page_image_behind_code:
  assumes "noff_space w sp cd dt" "a < 2147483648" and behind: "\<not> a < length cd"
  shows "page_image w sp (of_nat a) (replicate PAGE_SIZE 0) = Inr (image_page (cd @ dt) a)"
proof -
  let ?C = "length cd" and ?D = "length dt" and ?L = "cd @ dt"
  let ?P = "image_page ?L a"
  have sp: "codeSize sp = of_nat ?C" "initDataSize sp = of_nat ?D" "dt \<noteq> [] \<longrightarrow> dataVirtualAddr sp = of_nat ?C" "?C + ?D < 2147483648"
    using assms(1) by (auto simp: noff_space_def)
  from noff_reads [OF assms(1)] obtain exe where ex: "Executable_new w (exeFile sp) = Inr exe"
    and codeRead: "\<And>a. a < ?C \<Longrightarrow> ReadCodeBlock w exe page_bytes (of_nat a) = Inr (slice a PAGE_SIZE ?L)"
    and dataRead: "\<And>n q. 0 < n \<Longrightarrow> n \<le> 128 \<Longrightarrow> q < ?D \<Longrightarrow> ReadDataBlock w exe (of_nat n) (of_nat q) = Inr (slice (?C + q) n ?L)" by blast
  have ps: "PAGE_SIZE = 128" "page_bytes = of_nat 128" by (simp_all add: PAGE_SIZE_def SECTOR_SIZE_def)
  note lt = small_less and sum = of_nat_add [where 'a = u32, symmetric]
  have "\<not> of_nat a < codeSize sp" using sp(1,4) assms(2) lt [of a ?C] behind by simp
  then have "(if codeSize sp > 0 \<and> of_nat a < codeSize sp
    then rbind (ReadCodeBlock w exe page_bytes (of_nat a)) (\<lambda>bs.
      Inr (if codeSize sp - of_nat a < page_bytes then codeSize sp - of_nat a else page_bytes, overlay (replicate PAGE_SIZE 0) 0 bs))
    else Inr (0, replicate PAGE_SIZE 0)) = Inr (0, replicate PAGE_SIZE 0)" by simp
  note parts = page_image_parts [OF ex this, unfolded add_0_right diff_zero]
  have pz: "page_bytes \<noteq> 0" by (simp add: ps(1))
  have cond: "initDataSize sp > 0 \<and> of_nat a < dataVirtualAddr sp + initDataSize sp \<and> 0 \<noteq> page_bytes \<longleftrightarrow> a < ?C + ?D"
  proof (cases "dt = []")
    case True
    then show ?thesis using behind sp(2) by simp
  next
    case False
    then have dv: "dataVirtualAddr sp = of_nat ?C" using sp(3) by simp
    show ?thesis unfolding sum sp(2) dv using False sp(4) assms(2) lt [of 0 ?D] lt [of a "?C + ?D"] behind pz by auto
  qed
  show ?thesis
  proof (cases "a < ?C + ?D")
    case True
    then have dv: "dataVirtualAddr sp = of_nat ?C" using sp(3) behind by auto
    define n where "n = min (?C + ?D - a) 128"
    have n0: "0 < n" "n \<le> 128" using True by (auto simp: n_def)
    have "dataVirtualAddr sp + initDataSize sp - of_nat a = of_nat (?C + ?D - a)" unfolding sum sp(2) dv using True by (simp add: of_nat_diff)
    then have n: "(if dataVirtualAddr sp + initDataSize sp - of_nat a < page_bytes
        then dataVirtualAddr sp + initDataSize sp - of_nat a else page_bytes) = of_nat n"
      unfolding ps(2) using sp(4) lt [of "?C + ?D - a" 128] by (simp only: n_def min_def) (simp add: min_def)
    have "of_nat a - codeSize sp = of_nat (a - ?C)" using behind sp(1) by (simp add: of_nat_diff)
    then have "ReadDataBlock w exe (of_nat n) (if (0 :: u32) \<noteq> 0 then 0 else of_nat a - codeSize sp) = Inr (slice a n ?L)"
      using dataRead [OF n0, of "a - ?C"] behind True by simp
    from parts(2) [OF iffD2 [OF cond True] n this]
    have "page_image w sp (of_nat a) (replicate PAGE_SIZE 0) = Inr (overlay (replicate PAGE_SIZE 0) 0 (slice a n ?L))" by simp
    moreover have "slice a n ?L = slice a PAGE_SIZE ?L" by (simp add: slice_def n_def ps(1) min_def)
    ultimately show ?thesis by (simp add: overlay_zeros)
  next
    case f: False
    then have "image_page ?L a = replicate PAGE_SIZE 0" by (simp add: image_page_def)
    then show ?thesis using parts(1) [unfolded cond, OF f] by simp
  qed
qed

lemma page_image_noff: "noff_space w sp cd dt \<Longrightarrow> a < 2147483648 \<Longrightarrow>
    page_image w sp (of_nat a) (replicate PAGE_SIZE 0) = Inr (image_page (cd @ dt) a)"
  using page_image_in_code page_image_behind_code by (cases "a < length cd") blast+

section \<open>A new address space\<close>

text \<open>The size of a program in pages, its stack included.\<close>

definition program_pages :: "byte list \<Rightarrow> byte list \<Rightarrow> u32 \<Rightarrow> nat" where
  "program_pages cd dt bss = (length cd + length dt + unat bss + USER_STACK_SIZE + (PAGE_SIZE - 1)) div PAGE_SIZE"

lemma AddressSpace_new_noff:
  assumes "isBin ef" "is_noff (hostFiles (fsw fs) (hostFd ef)) cd dt bss" "hostOpen (swap_name sid) = int fd"
    and "length cd + length dt + unat bss + USER_STACK_SIZE < 2147483648"
  shows "\<exists>sp. AddressSpace_new hostCreate hostOpen (Some ef) sid fs = Inr (sp, fs) \<and> noff_space (fsw fs) sp cd dt
    \<and> addressSpaceId sp = sid \<and> exeFile sp = ef \<and> isBin (openSwapFile sp) \<and> hostFd (openSwapFile sp) = fd
    \<and> pages sp = map fresh_page [0..<program_pages cd dt bss] \<and> numPages sp = of_nat (program_pages cd dt bss)"
proof -
  let ?C = "length cd" and ?D = "length dt" and ?N = "program_pages cd dt bss"
  have sz: "unat (of_nat ?C + of_nat ?D + bss + of_nat USER_STACK_SIZE) = ?C + ?D + unat bss + USER_STACK_SIZE"
    using assms(4) unat_small [of "?C + ?D + unat bss + USER_STACK_SIZE"] by simp
  have pb: "unat page_bytes = PAGE_SIZE" by (rule page_bytes_unat)
  then have one: "1 < unat page_bytes" by (simp add: PAGE_SIZE_def SECTOR_SIZE_def)
  have N: "unat (DivRoundUp (of_nat ?C + of_nat ?D + bss + of_nat USER_STACK_SIZE) page_bytes) = ?N"
    by (simp only: unat_DivRoundUp [OF one] pb sz program_pages_def)
  have np: "DivRoundUp (of_nat ?C + of_nat ?D + bss + of_nat USER_STACK_SIZE) page_bytes = of_nat ?N"
    unfolding N [symmetric] by simp
  have "?N \<le> 2147483648" using assms(4) by (simp add: program_pages_def PAGE_SIZE_def SECTOR_SIZE_def USER_STACK_SIZE_def)
  then have un: "unat (of_nat ?N :: u32) = ?N" by (intro unat_small) simp
  have "noff_space (fsw fs) sp cd dt" if "exeFile sp = ef" "codeSize sp = of_nat ?C" "initDataSize sp = of_nat ?D" "dt \<noteq> [] \<longrightarrow> dataVirtualAddr sp = of_nat ?C" for sp
    using assms that by (auto simp: noff_space_def)
  moreover have "noffMagic (bytes_noff (hostFiles (fsw fs) (hostFd ef))) = NOFF_MAGIC" "segSize (code (bytes_noff (hostFiles (fsw fs) (hostFd ef)))) = of_nat ?C"
    "segSize (initData (bytes_noff (hostFiles (fsw fs) (hostFd ef)))) = of_nat ?D" "segSize (uninitData (bytes_noff (hostFiles (fsw fs) (hostFd ef)))) = bss"
    "dt \<noteq> [] \<longrightarrow> virtualAddr (initData (bytes_noff (hostFiles (fsw fs) (hostFd ef)))) = of_nat ?C"
    using assms(2) by (simp_all add: is_noff_def Let_def)
  ultimately show ?thesis
    using assms(3) Executable_new_noff [OF assms(1,2)] np un
    by (simp add: AddressSpace_new_def FileSystem_Create_def FileSystem_Open_def OpenFile_new_def CheckMagic_def GetSize_def GetCodeSize_def
        GetInitDataSize_def GetInitDataAddr_def Let_def)
qed

lemma noff_loads:
  assumes "isBin ef" "is_noff (hostFiles (fsw fs) (hostFd ef)) cd dt bss" "hostOpen (swap_name sid) = int fd"
    and "length cd + length dt + unat bss + USER_STACK_SIZE < 2147483648"
  shows "\<exists>sp. AddressSpace_new hostCreate hostOpen (Some ef) sid fs = Inr (sp, fs) \<and> unat (numPages sp) = program_pages cd dt bss
    \<and> (\<forall>v < unat (numPages sp). page_image (fsw fs) sp (of_nat (v * PAGE_SIZE)) (replicate PAGE_SIZE 0) = Inr (image_page (cd @ dt) (v * PAGE_SIZE)))"
proof -
  from AddressSpace_new_noff [where hostOpen = hostOpen and sid = sid and hostCreate = hostCreate, OF assms] obtain sp where sp: "AddressSpace_new hostCreate hostOpen (Some ef) sid fs = Inr (sp, fs)"
    "noff_space (fsw fs) sp cd dt" "numPages sp = of_nat (program_pages cd dt bss)" by blast
  have n: "program_pages cd dt bss \<le> 16777216" using assms(4) by (simp add: program_pages_def PAGE_SIZE_def SECTOR_SIZE_def USER_STACK_SIZE_def)
  then have np: "unat (numPages sp) = program_pages cd dt bss" unfolding sp(3) by (intro unat_small) simp
  have "page_image (fsw fs) sp (of_nat (v * PAGE_SIZE)) (replicate PAGE_SIZE 0) = Inr (image_page (cd @ dt) (v * PAGE_SIZE))" if "v < program_pages cd dt bss" for v
    using that n by (intro page_image_noff [OF sp(2)]) (simp add: PAGE_SIZE_def SECTOR_SIZE_def)
  then show ?thesis using sp(1) np by (intro exI [of _ sp]) simp
qed

text \<open>No other space uses the new swap file, and no swap file is the executable.\<close>

definition fresh_files :: "vmachine \<Rightarrow> AddressSpace \<Rightarrow> bool" where
  "fresh_files s sp \<longleftrightarrow> isBin (openSwapFile sp) \<and> isBin (exeFile sp) \<and> hostFd (exeFile sp) \<noteq> hostFd (openSwapFile sp)
     \<and> (\<forall>p. static s p \<noteq> None \<longrightarrow> hostFd (openSwapFile sp) \<notin> {hostFd (openSwapFile (st s p)), hostFd (exeFile (st s p))}
          \<and> hostFd (exeFile sp) \<noteq> hostFd (openSwapFile (st s p)))"

lemma new_space_inv:
  assumes "vm_inv s {}" "spaces s t = None" "table_map (runningProcesses s) (addressSpaceId sp) = Some t" "fresh_files s sp"
    and "noff_space (disk_world s) sp cd dt" "pages sp = map fresh_page [0..<n]" "n \<le> 16777216"
    and "s' = s\<lparr>spaces := (spaces s)(t \<mapsto> sp)\<rparr>"
  shows "vm_inv s' {} \<and> npages s' = (npages s)(t := n) \<and> (\<forall>p v. p \<noteq> t \<and> v < npages s p \<longrightarrow> vpage s' p v = vpage s p v)
    \<and> (\<forall>v < n. vpage s' t v = image_page (cd @ dt) (v * PAGE_SIZE))"
proof -
  note inv = assms(1) [unfolded vm_inv_def]
  let ?sp = "sp\<lparr>pages := []\<rparr>"
  have f: "npages s' = (npages s)(t := n)" "static s' = (static s)(t \<mapsto> ?sp)" "mmu s' = mmu s" "thisThread s' = thisThread s"
    "addressesBitMap s' = addressesBitMap s" "runningProcesses s' = runningProcesses s" "fileSystem s' = fileSystem s"
    using assms(6,8) by (auto simp: npages_def static_def fun_eq_iff)
  have z: "npages s t = 0" using assms(2) by (simp add: npages_def)
  have pg: "pg s' p v = (if p = t then fresh_page v else pg s p v)" if "v < npages s' p" for p v
    using that assms(6,8) f(1) by (cases "p = t") (simp_all add: pg_def)
  have i: "init_res s' p v = init_res s p v" "init_page s' p v = init_page s p v" "swap s' p = swap s p" if "p \<noteq> t" for p v
    using that f by (simp_all add: init_res_def init_page_def swap_def)
  have page: "init_res s' t v = Inr (image_page (cd @ dt) (v * PAGE_SIZE))" if "v < n" for v
  proof -
    have "v * PAGE_SIZE < 2147483648" using that assms(7) by (simp add: PAGE_SIZE_def SECTOR_SIZE_def)
    from page_image_noff [OF assms(5) this] show ?thesis by (simp add: init_res_def f page_image_static)
  qed
  have ip: "init_page s' t v = image_page (cd @ dt) (v * PAGE_SIZE)" if "v < n" for v using page [OF that] by (simp add: init_page_def)
  have r: "resid s' p v \<longleftrightarrow> resid s p v" for p v using z pg [of v p] by (auto simp: resid_def f fresh_page_def)
  have other: "p \<noteq> t" if "resid s p v" for p v using that z by (auto simp: resid_def)
  have vp: "vpage s' p v = (if p = t then image_page (cd @ dt) (v * PAGE_SIZE) else vpage s p v)" if "v < npages s' p" for p v
  proof (cases "p = t")
    case True
    then have "v < n" using that f(1) by simp
    then show ?thesis using True pg [OF that] ip by (simp add: vpage_def fresh_page_def)
  next
    case False
    then show ?thesis using pg [OF that] by (simp add: vpage_def i f)
  qed
  have same: "pg s' p v = pg s p v" if "resid s p v" for p v using pg [of v p] that other [OF that] resid_some [OF that] by (simp add: f)
  have "hw_ok s'" using inv by (simp add: hw_ok_def f)
  moreover have "procs_ok s'" using inv assms(3) by (simp add: procs_ok_def f del: static_None)
  moreover have "files_ok s'" using inv assms(4) by (auto simp: files_ok_def fresh_files_def f simp del: static_None)
  moreover have "pages_ok s'"
  proof -
    have "n \<le> MAX_PAGES" using assms(7) by (simp add: MAX_PAGES_def)
    then have "npages s' p \<le> MAX_PAGES" for p using inv by (simp add: pages_ok_def f)
    moreover have "virtualPage (pg s' p v) = of_nat v \<and> \<not> readOnly (pg s' p v)
       \<and> (physicalPage (pg s' p v) \<noteq> INT_MAX \<longrightarrow> frame s' p v < NUM_PHYS_PAGES)
       \<and> init_res s' p v = Inr (init_page s' p v) \<and> length (init_page s' p v) = PAGE_SIZE" if v: "v < npages s' p" for p v
    proof (cases "p = t")
      case True
      then have "v < n" using v f(1) by simp
      then show ?thesis using True pg [OF v] page ip by (simp add: fresh_page_def)
    next
      case False
      then have "v < npages s p" using v f(1) by simp
      then show ?thesis using False inv pg [OF v] i by (simp add: pages_ok_def)
    qed
    ultimately show ?thesis by (simp add: pages_ok_def)
  qed
  moreover have "owned_ok s' {}"
  proof -
    have own: "owned_ok s {}" using inv by blast
    have "frame s' p v \<in> marked (addressesBitMap s) \<and> coreSpaceId (coreMap (mmu s) ! frame s' p v) = addressSpaceId (st s' p)
        \<and> coreVirtualPage (coreMap (mmu s) ! frame s' p v) = of_nat v" if "resid s p v" for p v
      using owned_core [OF own that] other [OF that] by (simp add: same [OF that] f)
    moreover have "\<exists>p v. resid s p v \<and> frame s' p v = g" if "g \<in> marked (addressesBitMap s)" for g
    proof -
      from own that obtain p v where pv: "resid s p v" "frame s p v = g" unfolding owned_ok_def by blast
      then have "frame s' p v = g" by (simp add: same)
      then show ?thesis using pv(1) by blast
    qed
    ultimately show ?thesis by (simp add: owned_ok_def f r)
  qed
  moreover have "tlb_ok s'"
  proof -
    have "cached_ok s' e" if "cached_ok s e" for e
    proof -
      from that obtain v where "virtualPage e = of_nat v" "resid s (thisThread s) v" "physicalPage e = physicalPage (pg s (thisThread s) v)"
        "\<not> readOnly e" "dirty (pg s (thisThread s) v) \<longrightarrow> dirty e" unfolding cached_ok_def by blast
      then show ?thesis using same [of "thisThread s" v] by (auto simp: cached_ok_def f r)
    qed
    then show ?thesis using inv by (simp add: tlb_ok_def f)
  qed
  moreover have "content_ok s'"
  proof -
    have "if resid s' p v then is_dirty s' p v \<or> vpage s' p v = init_page s' p v
        else dirty (pg s' p v) \<longrightarrow> v * PAGE_SIZE + PAGE_SIZE \<le> length (swap s' p)" if v: "v < npages s' p" for p v
    proof (cases "p = t")
      case True
      then show ?thesis using pg [OF v] z by (simp add: r resid_def fresh_page_def)
    next
      case False
      then have "v < npages s p" using v f(1) by simp
      moreover have "is_dirty s' p v = is_dirty s p v" using False pg [OF v] by (simp add: is_dirty_def f)
      ultimately show ?thesis using False inv pg [OF v] vp [OF v] i by (simp add: content_ok_def r)
    qed
    then show ?thesis by (simp add: content_ok_def)
  qed
  ultimately have "vm_inv s' {}" by (simp add: vm_inv_def)
  moreover have "\<forall>p v. p \<noteq> t \<and> v < npages s p \<longrightarrow> vpage s' p v = vpage s p v" "\<forall>v < n. vpage s' t v = image_page (cd @ dt) (v * PAGE_SIZE)"
    using vp f(1) by auto
  ultimately show ?thesis using f(1) by blast
qed

section \<open>Starting a process\<close>

text \<open>\<open>StartProcess\<close> up to the call of \<open>Machine::Run\<close>.\<close>

definition StartProcess :: "unit vmachine_ext kernel_code \<Rightarrow> (nat \<Rightarrow> byte) \<Rightarrow> byte list list option \<Rightarrow> vmachine \<Rightarrow> vmachine res" where
  "StartProcess krn raw argv s =
     rbind (InitRegisters (thisThread s) s) (\<lambda>s1.
       let s2 = RestoreState s1 in
       rbind (case argv of None \<Rightarrow> Inr (0, s2)
         | Some args \<Rightarrow> rbind (WriteArgs krn raw args s2) (\<lambda>(argc, s3).
             if argc = 0 then Inr (argc, s3)
             else rbind (ReadRegister s3 STACK_REG) (\<lambda>argvaddr.
                  rbind (WriteRegister s3 STACK_REG (argvaddr - 24)) (\<lambda>s4.
                  rbind (WriteRegister s4 5 argvaddr) (\<lambda>s5. Inr (argc, s5)))))) (\<lambda>(argc, s6).
         WriteRegister s6 4 (of_nat argc)))"

lemma zero_registers_ok:
  assumes "\<forall>i \<in> set is. i < NUM_TOTAL_REGS" "length (registers s) = NUM_TOTAL_REGS"
  shows "\<exists>r. zero_registers is s = Inr (s\<lparr>registers := r\<rparr>) \<and> length r = NUM_TOTAL_REGS
    \<and> (\<forall>k < NUM_TOTAL_REGS. r ! k = (if k \<in> set is \<and> k \<noteq> 0 then 0 else registers s ! k))"
  using assms
proof (induction "is" arbitrary: s)
  case Nil
  then show ?case by (intro exI [of _ "registers s"]) simp
next
  case (Cons i js)
  let ?r = "if i \<noteq> 0 then (registers s)[i := 0] else registers s"
  have "\<exists>r. zero_registers js (s\<lparr>registers := ?r\<rparr>) = Inr (s\<lparr>registers := ?r\<rparr>\<lparr>registers := r\<rparr>) \<and> length r = NUM_TOTAL_REGS
    \<and> (\<forall>k < NUM_TOTAL_REGS. r ! k = (if k \<in> set js \<and> k \<noteq> 0 then 0 else registers (s\<lparr>registers := ?r\<rparr>) ! k))"
    by (rule Cons.IH) (use Cons.prems in auto)
  then obtain r where r: "zero_registers js (s\<lparr>registers := ?r\<rparr>) = Inr (s\<lparr>registers := r\<rparr>)" "length r = NUM_TOTAL_REGS"
    "\<forall>k < NUM_TOTAL_REGS. r ! k = (if k \<in> set js \<and> k \<noteq> 0 then 0 else ?r ! k)" by auto
  have "WriteRegister s i 0 = Inr (s\<lparr>registers := ?r\<rparr>)" using Cons.prems by (simp add: WriteRegister_def)
  moreover have "r ! k = (if k \<in> set (i # js) \<and> k \<noteq> 0 then 0 else registers s ! k)" if "k < NUM_TOTAL_REGS" for k
    using r(3) that Cons.prems by (cases "k = i") auto
  ultimately show ?case using r(1,2) by auto
qed

text \<open>The registers of a process at its start, with the stack pointer below the end of its memory.\<close>

definition start_registers :: "nat \<Rightarrow> u32 list" where
  "start_registers n = (replicate NUM_TOTAL_REGS 0)[NEXT_PC_REG := 4, STACK_REG := of_nat (n * PAGE_SIZE - 16)]"

lemma InitRegisters_ok:
  assumes "spaces s t = Some sp" "numPages sp = of_nat n" "0 < n" "length (registers s) = NUM_TOTAL_REGS" "registers s ! 0 = 0"
  shows "InitRegisters t s = Inr (s\<lparr>registers := start_registers n\<rparr>)"
proof -
  from zero_registers_ok [of "[0..<NUM_TOTAL_REGS]" s] assms(4) obtain r where
    r: "zero_registers [0..<NUM_TOTAL_REGS] s = Inr (s\<lparr>registers := r\<rparr>)" "length r = NUM_TOTAL_REGS"
      "\<forall>k < NUM_TOTAL_REGS. r ! k = (if k \<noteq> 0 then 0 else registers s ! k)" by auto
  have z: "r = replicate NUM_TOTAL_REGS 0" using r(2,3) assms(5) by (intro nth_equalityI) auto
  have "16 \<le> n * PAGE_SIZE" using assms(3) by (simp add: PAGE_SIZE_def SECTOR_SIZE_def)
  then have "of_nat n * page_bytes - 16 = (of_nat (n * PAGE_SIZE - 16) :: u32)" by (simp add: of_nat_diff)
  moreover have "(replicate NUM_TOTAL_REGS (0 :: u32))[PC_REG := 0] = replicate NUM_TOTAL_REGS 0"
    by (rule list_update_same_conv [THEN iffD2]) (simp_all add: reg_defs)
  ultimately show ?thesis
    using assms(1,2) r(1) unfolding z
    by (simp add: InitRegisters_def the_space_def WriteRegister_def start_registers_def) (simp add: reg_defs STACK_REG_def)
qed

lemma start_view:
  assumes "vm_inv s {}" "tlb_empty s" "handlers s PAGE_FAULT_EXCEPTION = Some h" "krn h = TLBPageFaultHandler"
    and "s' = RestoreState (s\<lparr>registers := start_registers n\<rparr>)"
  shows "user_good krn s'" "umem s' = umem s" "utop s' = utop s" "registers s' = start_registers n" "no_load s'"
    "same_memory s s'" "thisThread s' = thisThread s"
proof -
  let ?s = "s\<lparr>registers := start_registers n\<rparr>"
  have i: "vm_inv ?s {}" "same_memory s ?s" using same_view_inv [OF registers_view(2)] assms(1) by blast+
  have te: "tlb_empty ?s" "tlb (mmu ?s) \<noteq> None" using assms(2) i(1) by (simp_all add: tlb_empty_def vm_inv_def hw_ok_def)
  note r = RestoreState_view [OF te]
  have j: "vm_inv s' {}" "same_memory ?s s'" using same_view_inv [OF r(1) i(1)] assms(5) by blast+
  show m: "same_memory s s'" by (rule same_memory_trans [OF i(2) j(2)])
  then show "umem s' = umem s" "utop s' = utop s" using same_memory_umem by blast+
  show rg: "registers s' = start_registers n" using r(3) assms(5) by simp
  show "no_load s'" by (simp add: no_load_def rg start_registers_def reg_defs STACK_REG_def)
  have "serves krn s'" using assms(3-5) r(4) rg by (simp add: serves_def start_registers_def reg_defs STACK_REG_def)
  then show "user_good krn s'" using j(1) by (simp add: user_good_def)
  show "thisThread s' = thisThread s" using m by (simp add: same_memory_def)
qed

lemma put_args_words_below:
  assumes "args_size args + 4 * length args + 8 \<le> S" "b < argv_addr S args"
  shows "put_words (put_args m S args) (argv_addr S args) xs b = m b"
proof -
  note p = argv_addr_props [OF assms(1)]
  have "b < S - args_size args" "args_size args \<le> S" using p(3) assms by linarith+
  then show ?thesis using put_args_below [of args S b m] assms(2) by (simp add: put_words_outside)
qed

text \<open>The process finds its arguments, the count in register 4 and their addresses in register 5.\<close>

lemma StartProcess_ok:
  assumes "vm_inv s {}" "tlb_empty s" "handlers s PAGE_FAULT_EXCEPTION = Some h" "krn h = TLBPageFaultHandler"
    and "length (registers s) = NUM_TOTAL_REGS" "registers s ! 0 = 0"
    and "spaces s (thisThread s) = Some sp" "numPages sp = of_nat (length (pages sp))" "utop s < 2147483648"
    and "args \<noteq> []" "args_ok args" "args_size args + 4 * length args + 24 \<le> utop s" "p = argv_addr (utop s - 16) args"
  shows "\<exists>s'. StartProcess krn raw (Some args) s = Inr s' \<and> user_good krn s' \<and> utop s' = utop s \<and> argv_at (umem s') (utop s') p args
    \<and> (\<forall>b < p. umem s' b = umem s b) \<and> registers s' ! 4 = of_nat (length args) \<and> registers s' ! 5 = of_nat p
    \<and> registers s' ! STACK_REG = of_nat p - 24 \<and> registers s' ! PC_REG = 0 \<and> registers s' ! NEXT_PC_REG = 4
    \<and> (\<forall>t v. t \<noteq> thisThread s \<and> v < npages s t \<longrightarrow> vpage s' t v = vpage s t v)"
proof -
  let ?n = "length (pages sp)" and ?S = "utop s - 16" and ?c = "length args"
  have ut: "utop s = ?n * PAGE_SIZE" using assms(7) by (simp add: utop_def npages_def)
  have n0: "0 < ?n" using assms(12) ut by (cases ?n) simp_all
  define s1 where "s1 = RestoreState (s\<lparr>registers := start_registers ?n\<rparr>)"
  note v = start_view [where krn = krn, OF assms(1-4) s1_def]
  have ini: "InitRegisters (thisThread s) s = Inr (s\<lparr>registers := start_registers ?n\<rparr>)"
    by (rule InitRegisters_ok [OF assms(7,8) n0 assms(5,6)])
  have sp: "registers s1 ! STACK_REG = of_nat ?S" by (simp add: v(4) start_registers_def ut reg_defs STACK_REG_def)
  have fit: "args_size args + 4 * ?c + 8 \<le> ?S" using assms(12) by linarith
  note al = argv_layout [OF fit, of "utop s" "umem s"]
  have bound: "?S \<le> utop s1" "?S < 2147483648" using assms(9) v(3) by linarith+
  from uvm.WriteArgs_ok [OF v(1) sp bound assms(11) fit, of raw] v(2) obtain s2 where
    s2: "WriteArgs krn raw args s1 = Inr (?c, s2\<lparr>registers := (registers s2)[STACK_REG := of_nat p]\<rparr>)"
      "uvm.wrote krn s1 s2 (put_words (put_args (umem s) ?S args) p (map of_nat (arg_addrs ?S args) @ [0]))"
    unfolding assms(13) by auto
  have g: "user_good krn s2" "umem s2 = put_words (put_args (umem s) ?S args) p (map of_nat (arg_addrs ?S args) @ [0])" "utop s2 = utop s"
    "others_keep s1 s2" using s2(2) v(3) by (simp_all add: uvm.wrote_def)
  have len: "length (registers s2) = NUM_TOTAL_REGS" by (rule uvm.regs_length [OF g(1)])
  let ?r = "(registers s2)[STACK_REG := of_nat p - 24, 5 := of_nat p, 4 := of_nat ?c]"
  let ?s = "s2\<lparr>registers := ?r\<rparr>"
  have run: "StartProcess krn raw (Some args) s = Inr ?s"
    using ini s2(1) assms(10) len
    by (simp add: StartProcess_def s1_def [symmetric] ReadRegister_def WriteRegister_def) (simp add: STACK_REG_def NUM_TOTAL_REGS_def)
  have regs: "registers s2 ! k = start_registers ?n ! k" if "k < NUM_TOTAL_REGS" "k \<notin> {BAD_VADDR_REG, LOAD_VALUE_REG}" for k
    using g(4) v(4,5) that by (simp add: others_keep_def same_regs_def)
  have pc: "?r ! PC_REG = 0" "?r ! NEXT_PC_REG = 4" "?r ! 4 = of_nat ?c" "?r ! 5 = of_nat p" "?r ! STACK_REG = of_nat p - 24"
    using regs [of PC_REG] regs [of NEXT_PC_REG] len by (simp_all add: start_registers_def reg_defs STACK_REG_def)
  have "vm_inv ?s {} \<and> same_memory s2 ?s" using same_view_inv [OF registers_view(2), of s2 "{}"] g(1) by (auto simp: user_good_def)
  moreover have "serves krn ?s" using g(1) by (simp add: user_good_def serves_def reg_defs STACK_REG_def)
  ultimately have fin: "user_good krn ?s" "umem ?s = umem s2" "utop ?s = utop s2" "same_memory s2 ?s" using same_memory_umem by (auto simp: user_good_def)
  have "vpage ?s t w = vpage s t w" if "t \<noteq> thisThread s" "w < npages s t" for t w
    using fin(4) g(4) v(6) that by (simp add: same_memory_def others_keep_def)
  moreover have "argv_at (umem ?s) (utop ?s) p args" using al fin g unfolding assms(13) by simp
  moreover have "umem ?s b = umem s b" if "b < p" for b
    using put_args_words_below [OF fit] that fin(2) g(2) by (simp add: assms(13))
  ultimately show ?thesis using run fin g(3) pc by auto
qed

end
