(* ===== verification/Syscalls.thy ===== *)
theory Syscalls
  imports Programs
begin

text \<open>
  The rest of \<open>userprog/exception.cc\<close>: the handler of system calls, call by call, and the table of
  exception handlers. What the thread system has to do for a call is returned with the new state:
  making a forked thread ready, finishing the current one, or joining another.
\<close>

section \<open>Interface\<close>

datatype thread_call =
    ForkThread nat bool "byte list list option"
  | FinishThread int
  | JoinThread nat

type_synonym sys_result = "(thread_call option \<times> vmachine) res"

text \<open>
  The host: creating and opening its files, and what uninitialised memory holds.
\<close>

record host_env =
  hostCreate :: "byte list \<Rightarrow> int"
  hostOpen :: "byte list \<Rightarrow> int"
  rawByte :: "nat \<Rightarrow> byte"
  rawWord :: "nat \<Rightarrow> u32"

definition SC_HALT :: u32 where "SC_HALT = 0"
definition SC_EXIT :: u32 where "SC_EXIT = 1"
definition SC_EXEC :: u32 where "SC_EXEC = 2"
definition SC_JOIN :: u32 where "SC_JOIN = 3"
definition SC_CREATE :: u32 where "SC_CREATE = 10"
definition SC_REMOVE :: u32 where "SC_REMOVE = 11"
definition SC_OPEN :: u32 where "SC_OPEN = 12"
definition SC_CLOSE :: u32 where "SC_CLOSE = 13"
definition SC_READ :: u32 where "SC_READ = 14"
definition SC_WRITE :: u32 where "SC_WRITE = 15"
definition SC_LSDIR :: u32 where "SC_LSDIR = 16"
definition SC_CD :: u32 where "SC_CD = 17"

lemmas SC_defs = SC_HALT_def SC_EXIT_def SC_EXEC_def SC_JOIN_def SC_CREATE_def SC_REMOVE_def SC_OPEN_def SC_CLOSE_def
  SC_READ_def SC_WRITE_def SC_LSDIR_def SC_CD_def

definition CONSOLE_INPUT :: int where "CONSOLE_INPUT = 0"
definition CONSOLE_OUTPUT :: int where "CONSOLE_OUTPUT = 1"

text \<open>\<open>machine->WriteRegister (2, v)\<close> and the \<open>break\<close> to the end of the switch.\<close>

definition result :: "u32 \<Rightarrow> vmachine \<Rightarrow> sys_result" where
  "result v s = rbind (WriteRegister s 2 v) (\<lambda>s1. Inr (None, s1))"

text \<open>A C string in a buffer.\<close>

definition name_of :: "byte list \<Rightarrow> byte list" where
  "name_of bs = takeWhile (\<lambda>b. b \<noteq> 0) bs"

text \<open>The file system with the globals it reads as they are for the current thread.\<close>

definition caller_fs :: "vmachine \<Rightarrow> FileSystem" where
  "caller_fs s = (fileSystem s)\<lparr>fsw := (disk_world s)\<lparr>currentThread := thisThread s,
       running := (\<lambda>i. table_map (runningProcesses s) i \<noteq> None)\<rparr>,
     spaceId := (case spaces s (thisThread s) of None \<Rightarrow> spaceId (fileSystem s) | Some sp \<Rightarrow> addressSpaceId sp)\<rparr>"

abbreviation my_files :: "vmachine \<Rightarrow> OpenFile option table" where
  "my_files s \<equiv> openedFilesTable s (thisThread s)"

definition set_files :: "OpenFile option table \<Rightarrow> vmachine \<Rightarrow> vmachine" where
  "set_files tbl s = s\<lparr>openedFilesTable := (openedFilesTable s)(thisThread s := tbl)\<rparr>"

text \<open>The object behind an entry changes in place.\<close>

definition put_file :: "int \<Rightarrow> OpenFile \<Rightarrow> vmachine \<Rightarrow> vmachine" where
  "put_file fid f s = set_files ((my_files s)\<lparr>data := (data (my_files s))[nat fid := Some f]\<rparr>) s"

section \<open>Processes\<close>

text \<open>The table of open files of a new thread: two entries that stand for the console.\<close>

definition new_files :: "OpenFile option table res" where
  "new_files = rbind (Table_Add (Table_new (replicate (nat Table_SIZE) None) None) None) (\<lambda>(_, t1).
     rbind (Table_Add t1 None) (\<lambda>(_, t2). Inr t2))"

definition new_thread :: "vmachine \<Rightarrow> (nat \<times> int \<times> vmachine) res" where
  "new_thread s = (let t = freshThread s in
     rbind new_files (\<lambda>files.
     rbind (Table_Add (runningProcesses s) t) (\<lambda>(sid, tbl).
       Inr (t, sid, s\<lparr>freshThread := t + 1, runningProcesses := tbl, spaces := (spaces s)(t := None),
         numFaults := (numFaults s)(t := 0), openedFilesTable := (openedFilesTable s)(t := files)\<rparr>))))"

definition sys_exit :: "vmachine \<Rightarrow> sys_result" where
  "sys_exit s = rbind (ReadRegister s 4) (\<lambda>st. Inr (Some (FinishThread (sint st)), s))"

definition sys_exec :: "host_env \<Rightarrow> unit vmachine_ext kernel_code \<Rightarrow> vmachine \<Rightarrow> sys_result" where
  "sys_exec env krn s =
     rbind (ReadRegister s 4) (\<lambda>processAddr.
     rbind (ReadRegister s 5) (\<lambda>argvAddr.
     rbind (ReadRegister s 6) (\<lambda>isJoinable.
       if processAddr = 0 then result (-1) s
       else rbind (ReadStringFromUser krn (rawWord env) processAddr (FILE_NAME_MAX_LEN + 1) s) (\<lambda>(ok, filename, s1).
         if \<not> ok then result (-1) s1
         else rbind (if argvAddr \<noteq> 0 then SaveArgs krn (rawWord env) argvAddr s1 else Inr (None, s1)) (\<lambda>(argv, s2).
              rbind (FileSystem_Open (hostOpen env) (caller_fs s2) (name_of filename) True) (\<lambda>(executable, fs).
              let s3 = s2\<lparr>fileSystem := fs\<rparr> in
              if executable = None then result (-1) s3
              else rbind (new_thread s3) (\<lambda>(t, sid, s4).
                   rbind (AddressSpace_new (hostCreate env) (hostOpen env) executable sid (fileSystem s4)) (\<lambda>(sp, fs1).
                   rbind (WriteRegister (s4\<lparr>fileSystem := fs1, spaces := (spaces s4)(t \<mapsto> sp)\<rparr>) 2 (of_int sid)) (\<lambda>s5.
                     Inr (Some (ForkThread t (isJoinable \<noteq> 0) argv), s5))))))))))"

definition sys_join :: "vmachine \<Rightarrow> sys_result" where
  "sys_join s =
     rbind (ReadRegister s 4) (\<lambda>r.
     rbind (Table_HasKey (runningProcesses s) (sint r)) (\<lambda>b.
       if \<not> b then result (-1) s
       else rbind (Table_Get (runningProcesses s) (sint r)) (\<lambda>t. Inr (Some (JoinThread t), s))))"

section \<open>Files\<close>

definition sys_create :: "host_env \<Rightarrow> unit vmachine_ext kernel_code \<Rightarrow> vmachine \<Rightarrow> sys_result" where
  "sys_create env krn s =
     rbind (ReadRegister s 4) (\<lambda>filenameAddr.
     rbind (ReadRegister s 5) (\<lambda>isDirectory.
       if filenameAddr = 0 then result 1 s
       else rbind (ReadStringFromUser krn (rawWord env) filenameAddr (FILE_PATH_MAX_LEN + 1) s) (\<lambda>(ok, filename, s1).
         if \<not> ok then result 1 s1
         else rbind (if isDirectory \<noteq> 0 then FileSystem_CreateDir (caller_fs s1) (name_of filename)
                     else FileSystem_Create (hostCreate env) (caller_fs s1) (name_of filename) False) (\<lambda>(created, fs).
              result (if created then 0 else 1) (s1\<lparr>fileSystem := fs\<rparr>)))))"

definition sys_remove :: "host_env \<Rightarrow> unit vmachine_ext kernel_code \<Rightarrow> vmachine \<Rightarrow> sys_result" where
  "sys_remove env krn s =
     rbind (ReadRegister s 4) (\<lambda>filenameAddr.
     rbind (ReadRegister s 5) (\<lambda>isDirectory.
       if filenameAddr = 0 then result 1 s
       else rbind (ReadStringFromUser krn (rawWord env) filenameAddr (FILE_NAME_MAX_LEN + 1) s) (\<lambda>(ok, filename, s1).
         if \<not> ok then result 1 s1
         else if isDirectory \<noteq> 0
         then rbind (FileSystem_RemoveDir (caller_fs s1) (name_of filename)) (\<lambda>(r, fs).
                result (if r = -1 then -1 else if r = -2 then -2 else 0) (s1\<lparr>fileSystem := fs\<rparr>))
         else rbind (FileSystem_Remove (caller_fs s1) (name_of filename) False) (\<lambda>(removed, fs).
                result (if removed then 0 else 1) (s1\<lparr>fileSystem := fs\<rparr>)))))"

definition sys_open :: "host_env \<Rightarrow> unit vmachine_ext kernel_code \<Rightarrow> vmachine \<Rightarrow> sys_result" where
  "sys_open env krn s =
     rbind (ReadRegister s 4) (\<lambda>filenameAddr.
       if filenameAddr = 0 then result (-1) s
       else rbind (ReadStringFromUser krn (rawWord env) filenameAddr (FILE_NAME_MAX_LEN + 1) s) (\<lambda>(ok, filename, s1).
         if \<not> ok then result (-1) s1
         else rbind (FileSystem_Open (hostOpen env) (caller_fs s1) (name_of filename) False) (\<lambda>(openedFile, fs).
              let s2 = s1\<lparr>fileSystem := fs\<rparr> in
              if openedFile = None then result (-1) s2
              else rbind (Table_Add (my_files s2) openedFile) (\<lambda>(fileDescriptor, tbl).
                   result (if fileDescriptor < 0 then -1 else of_int fileDescriptor) (set_files tbl s2)))))"

definition sys_close :: "vmachine \<Rightarrow> sys_result" where
  "sys_close s =
     rbind (ReadRegister s 4) (\<lambda>r.
       let fid = sint r in
       rbind (Table_HasKey (my_files s) fid) (\<lambda>b.
         if b \<and> fid \<noteq> 0 \<and> fid \<noteq> 1
         then rbind (Table_Get (my_files s) fid) (\<lambda>f.
              case f of None \<Rightarrow> Inl NullDeref | Some g \<Rightarrow>
              rbind (OpenFile_Close (fsw (caller_fs s)) g) (\<lambda>w.
              rbind (Table_Remove (my_files s) fid) (\<lambda>(_, tbl).
                result 0 (set_files tbl (s\<lparr>fileSystem := (caller_fs s)\<lparr>fsw := w\<rparr>\<rparr>)))))
         else result 1 s))"

text \<open>The checks \<open>Read\<close> and \<open>Write\<close> start with.\<close>

definition transfer_args_ok :: "u32 \<Rightarrow> u32 \<Rightarrow> u32 \<Rightarrow> bool" where
  "transfer_args_ok usrStringAddr nbytes fid \<longleftrightarrow> usrStringAddr \<noteq> 0 \<and> 0 < sint nbytes \<and> 0 \<le> sint fid"

text \<open>Reading the console waits for a character.\<close>

definition read_console :: "nat \<Rightarrow> vmachine \<Rightarrow> (byte list \<times> vmachine) res" where
  "read_console n s = rbind (rcheck WouldBlock (n \<le> length (consoleIn s))) (\<lambda>_.
     Inr (take n (consoleIn s), s\<lparr>consoleIn := drop n (consoleIn s)\<rparr>))"

definition sys_read :: "host_env \<Rightarrow> unit vmachine_ext kernel_code \<Rightarrow> vmachine \<Rightarrow> sys_result" where
  "sys_read env krn s =
     rbind (ReadRegister s 4) (\<lambda>usrStringAddr.
     rbind (ReadRegister s 5) (\<lambda>nbytes.
     rbind (ReadRegister s 6) (\<lambda>r.
       let fid = sint r; n = unat nbytes in
       if \<not> transfer_args_ok usrStringAddr nbytes r then result 0 s
       else if fid = CONSOLE_INPUT
       then rbind (read_console n s) (\<lambda>(bs, s1).
            rbind (WriteBufferToUser krn (rawByte env) bs usrStringAddr n s1) (\<lambda>s2. result nbytes s2))
       else rbind (Table_HasKey (my_files s) fid) (\<lambda>b.
            if \<not> b then result 0 s
            else rbind (Table_Get (my_files s) fid) (\<lambda>f.
                 case f of None \<Rightarrow> Inl NullDeref | Some g \<Rightarrow>
                 rbind (OpenFile_Read (fsw (caller_fs s)) g nbytes False) (\<lambda>(bs, g1).
                   let s1 = put_file fid g1 s in
                   if bs = [] then result 0 s1
                   else rbind (WriteBufferToUser krn (rawByte env) (overlay (map (rawByte env) [0..<n]) 0 bs) usrStringAddr n s1) (\<lambda>s2.
                        result (of_nat (length bs)) s2)))))))"

definition sys_write :: "host_env \<Rightarrow> unit vmachine_ext kernel_code \<Rightarrow> vmachine \<Rightarrow> sys_result" where
  "sys_write env krn s =
     rbind (ReadRegister s 4) (\<lambda>usrStringAddr.
     rbind (ReadRegister s 5) (\<lambda>nbytes.
     rbind (ReadRegister s 6) (\<lambda>r.
       let fid = sint r; n = unat nbytes in
       if \<not> transfer_args_ok usrStringAddr nbytes r then result 0 s
       else rbind (ReadBufferFromUser krn (rawWord env 0) usrStringAddr n s) (\<lambda>(buffer, s1).
         if fid = CONSOLE_OUTPUT
         then result nbytes (s1\<lparr>consoleOut := consoleOut s1 @ take n buffer\<rparr>)
         else rbind (Table_HasKey (my_files s1) fid) (\<lambda>b.
              if \<not> b then result 0 s1
              else rbind (Table_Get (my_files s1) fid) (\<lambda>f.
                   case f of None \<Rightarrow> Inl NullDeref | Some g \<Rightarrow>
                   rbind (OpenFile_Write (fsw (caller_fs s1)) g buffer nbytes False) (\<lambda>(written, g1, w).
                     result (if 0 < sint written then written else 0)
                       (put_file fid g1 (s1\<lparr>fileSystem := (caller_fs s1)\<lparr>fsw := w\<rparr>\<rparr>)))))))))"

text \<open>The names go to a buffer of \<open>LSDIR_OUTPUT\<close> bytes with the zero that ends them.\<close>

definition sys_lsdir :: "host_env \<Rightarrow> unit vmachine_ext kernel_code \<Rightarrow> vmachine \<Rightarrow> sys_result" where
  "sys_lsdir env krn s =
     rbind (ReadRegister s 4) (\<lambda>usrStringAddr.
     rbind (FileSystem_Ls (caller_fs s)) (\<lambda>(out, fs).
       let s1 = s\<lparr>fileSystem := fs\<rparr> in
       if out = [] then Inr (None, s1)
       else rbind (rcheck OutOfBounds (length out < LSDIR_OUTPUT)) (\<lambda>_.
            rbind (WriteBufferToUser krn (rawByte env) (overlay (map (rawByte env) [0..<LSDIR_OUTPUT]) 0 (out @ [0])) usrStringAddr LSDIR_OUTPUT s1)
              (\<lambda>s2. Inr (None, s2)))))"

definition sys_cd :: "host_env \<Rightarrow> unit vmachine_ext kernel_code \<Rightarrow> vmachine \<Rightarrow> sys_result" where
  "sys_cd env krn s =
     rbind (ReadRegister s 4) (\<lambda>dirNameAddr.
       if dirNameAddr = 0 then result 1 s
       else rbind (ReadStringFromUser krn (rawWord env) dirNameAddr (FILE_PATH_MAX_LEN + 1) s) (\<lambda>(ok, dirname, s1).
         if \<not> ok then result 1 s1
         else rbind (ChangeDir (caller_fs s1) (name_of dirname) True) (\<lambda>(successChanging, fs).
              result (if successChanging then 0 else 1) (s1\<lparr>fileSystem := fs\<rparr>))))"

section \<open>The handlers\<close>

definition syscall :: "host_env \<Rightarrow> unit vmachine_ext kernel_code \<Rightarrow> u32 \<Rightarrow> vmachine \<Rightarrow> sys_result" where
  "syscall env krn scid s =
     (if scid = SC_HALT then Inl Halted
      else if scid = SC_EXIT then sys_exit s
      else if scid = SC_EXEC then sys_exec env krn s
      else if scid = SC_JOIN then sys_join s
      else if scid = SC_CREATE then sys_create env krn s
      else if scid = SC_REMOVE then sys_remove env krn s
      else if scid = SC_OPEN then sys_open env krn s
      else if scid = SC_CLOSE then sys_close s
      else if scid = SC_READ then sys_read env krn s
      else if scid = SC_WRITE then sys_write env krn s
      else if scid = SC_LSDIR then sys_lsdir env krn s
      else if scid = SC_CD then sys_cd env krn s
      else Inl AssertFailed)"

text \<open>
  \<open>Finish\<close> does not return; after a \<open>Join\<close> the handler goes on in \<open>join_return\<close>.
\<close>

definition SyscallHandler :: "host_env \<Rightarrow> unit vmachine_ext kernel_code \<Rightarrow> vmachine \<Rightarrow> sys_result" where
  "SyscallHandler env krn s =
     rbind (ReadRegister s 2) (\<lambda>scid.
     rbind (syscall env krn scid s) (\<lambda>(c, s1).
       case c of Some (FinishThread _) \<Rightarrow> Inr (c, s1) | Some (JoinThread _) \<Rightarrow> Inr (c, s1)
       | _ \<Rightarrow> rbind (IncrementPC s1) (\<lambda>s2. Inr (c, s2))))"

definition join_return :: "int \<Rightarrow> vmachine \<Rightarrow> vmachine res" where
  "join_return exitStatus s = rbind (WriteRegister s 2 (of_int exitStatus)) IncrementPC"

text \<open>
  The functions of the table of handlers by number. A memory access of the kernel raises no system
  call exception, so that the handler of system calls runs with the other two.
\<close>

definition DEFAULT_HANDLER :: nat where "DEFAULT_HANDLER = 0"
definition SYSCALL_HANDLER :: nat where "SYSCALL_HANDLER = 1"
definition TLB_HANDLER :: nat where "TLB_HANDLER = 2"

definition fault_code :: "unit vmachine_ext kernel_code" where
  "fault_code h = (if h = TLB_HANDLER then TLBPageFaultHandler else DefaultHandler)"

fun set_handlers :: "(ExceptionType \<times> nat) list \<Rightarrow> vmachine \<Rightarrow> vmachine res" where
  "set_handlers [] s = Inr s"
| "set_handlers ((et, h) # hs) s = rbind (SetHandler s et (Some h)) (set_handlers hs)"

definition SetExceptionHandlers :: "vmachine \<Rightarrow> vmachine res" where
  "SetExceptionHandlers = set_handlers
     [(NO_EXCEPTION, DEFAULT_HANDLER), (SYSCALL_EXCEPTION, SYSCALL_HANDLER), (PAGE_FAULT_EXCEPTION, TLB_HANDLER),
      (READ_ONLY_EXCEPTION, DEFAULT_HANDLER), (BUS_ERROR_EXCEPTION, DEFAULT_HANDLER), (ADDRESS_ERROR_EXCEPTION, DEFAULT_HANDLER),
      (OVERFLOW_EXCEPTION, DEFAULT_HANDLER), (ILLEGAL_INSTR_EXCEPTION, DEFAULT_HANDLER)]"

end
