(* ===== verification/Syscall_Safety.thy ===== *)
theory Syscall_Safety
  imports Syscalls
begin

text \<open>
  System calls never touch another process: whatever addresses a program passes, a call that
  returns leaves the invariant of virtual memory and the memory of every other process as it was.
\<close>

section \<open>What memory accesses leave alone\<close>

text \<open>The parts of the state that virtual memory does not touch; of the disks only the host's files.\<close>

definition aux :: "vmachine \<Rightarrow> nat \<times> nat table \<times> (nat \<Rightarrow> u32 list) \<times> (nat \<Rightarrow> OpenFile option table) \<times> byte list \<times> byte list \<times> nat \<times> FileSystem" where
  "aux s = (thisThread s, runningProcesses s, userRegisters s, openedFilesTable s, consoleIn s, consoleOut s, freshThread s,
     (fileSystem s)\<lparr>fsw := (disk_world s)\<lparr>hostFiles := (\<lambda>_. [])\<rparr>\<rparr>)"

lemma aux_fields [simp]:
  "aux (s\<lparr>registers := r\<rparr>) = aux s" "aux (s\<lparr>mmu := m\<rparr>) = aux s" "aux (s\<lparr>status := u\<rparr>) = aux s" "aux (s\<lparr>handlers := h\<rparr>) = aux s"
  "aux (s\<lparr>addressesBitMap := b\<rparr>) = aux s" "aux (s\<lparr>spaces := p\<rparr>) = aux s" "aux (s\<lparr>numFaults := n\<rparr>) = aux s"
  "aux (set_core f c s) = aux s" "aux (set_tlb i e s) = aux s"
  by (simp_all add: aux_def set_core_def set_tlb_def)

text \<open>Of the files of the host only the swap files change.\<close>

definition swap_fds :: "vmachine \<Rightarrow> nat set" where
  "swap_fds s = {hostFd (openSwapFile sp) |t sp. static s t = Some sp}"

definition quiet :: "vmachine \<Rightarrow> vmachine \<Rightarrow> bool" where
  "quiet s s' \<longleftrightarrow> aux s' = aux s \<and> static s' = static s
     \<and> (\<forall>x. x \<notin> swap_fds s \<longrightarrow> hostFiles (disk_world s') x = hostFiles (disk_world s) x)"

lemma quiet_refl [simp]: "quiet s s"
  by (simp add: quiet_def)

lemma quiet_trans [trans]: "quiet s s' \<Longrightarrow> quiet s' s'' \<Longrightarrow> quiet s s''"
  by (simp add: quiet_def swap_fds_def)

lemma quiet_fields [simp]:
  "quiet s (s\<lparr>registers := r\<rparr>)" "quiet s (s\<lparr>mmu := m\<rparr>)" "quiet s (s\<lparr>status := u\<rparr>)" "quiet s (s\<lparr>addressesBitMap := b\<rparr>)"
  "quiet s (s\<lparr>numFaults := n\<rparr>)" "quiet s (set_core f c s)" "quiet s (set_tlb i e s)"
  by (simp_all add: quiet_def fun_eq_iff static_def set_core_def set_tlb_def aux_def)

lemma set_page_put_page: "set_page t v e s = Inr s' \<Longrightarrow> s' = put_page t (unat v) e s"
  by (auto simp: set_page_def the_space_def put_page_def res_simps split: option.splits)

lemma quiet_steps:
  "set_page t v e s = Inr s' \<Longrightarrow> quiet s s'"
  "set_mem p bs s = Inr s' \<Longrightarrow> quiet s s'"
  "WriteRegister s k x = Inr s' \<Longrightarrow> quiet s s'"
proof -
  show "set_page t v e s = Inr s' \<Longrightarrow> quiet s s'"
    using set_page_put_page [of t v e s s'] by (auto simp: quiet_def fun_eq_iff) (simp add: put_page_def)
qed (auto simp: set_mem_def WriteRegister_def res_simps split: if_splits)

lemma quiet_flush: "flush_frame is victim t u s = Inr s' \<Longrightarrow> quiet s s'"
proof (induction "is" arbitrary: s)
  case (Cons i js)
  from Cons.prems obtain e where e: "tlb_at i s = Inr e" by (cases "tlb_at i s") auto
  show ?case
  proof (cases "physicalPage e = victim \<and> valid e")
    case True
    with Cons.prems e obtain s1 where s1: "set_page t u (e\<lparr>valid := False\<rparr>) (set_tlb i (e\<lparr>valid := False\<rparr>) s) = Inr s1"
      "flush_frame js victim t u s1 = Inr s'" by (auto simp: res_simps)
    have "quiet s (set_tlb i (e\<lparr>valid := False\<rparr>) s)" by simp
    also note quiet_steps(1) [OF s1(1)]
    also note Cons.IH [OF s1(2)]
    finally show ?thesis .
  next
    case False
    then show ?thesis using Cons e by auto
  qed
qed simp

lemma quiet_swap_write:
  assumes "OpenFile_WriteAt (disk_world s) f bs n p = Inr (k, w)" "isBin f" "hostFd f \<in> swap_fds s"
  shows "quiet s (set_world s w)"
proof -
  have "hostFiles w x = hostFiles (disk_world s) x" if "x \<notin> swap_fds s" for x
    using assms that by (auto simp: OpenFile_WriteAt_def res_simps)
  moreover have "aux (set_world s w) = aux s" using assms by (auto simp: OpenFile_WriteAt_def res_simps aux_def set_world_def)
  ultimately show ?thesis by (simp add: quiet_def set_world_def static_def fun_eq_iff)
qed

lemma quiet_PickVictim: "PickVictim s = (v, s') \<Longrightarrow> quiet s s'"
  by (auto simp: PickVictim_def Let_def)

text \<open>Every swap file is a host file.\<close>

definition swaps_bin :: "vmachine \<Rightarrow> bool" where
  "swaps_bin s \<longleftrightarrow> (\<forall>t. static s t \<noteq> None \<longrightarrow> isBin (openSwapFile (st s t)))"

lemma swaps_bin_space:
  assumes "swaps_bin s" "quiet s s'" "the_space t s' = Inr sp"
  shows "isBin (openSwapFile sp)" "hostFd (openSwapFile sp) \<in> swap_fds s'"
proof -
  have t: "static s' t = Some (sp\<lparr>pages := []\<rparr>)" using assms(3) by (auto simp: the_space_def static_def split: option.splits)
  then have "static s t = Some (sp\<lparr>pages := []\<rparr>)" using assms(2) by (simp add: quiet_def)
  then show "isBin (openSwapFile sp)" using assms(1) [unfolded swaps_bin_def, rule_format, of t] by simp
  show "hostFd (openSwapFile sp) \<in> swap_fds s'" unfolding swap_fds_def mem_Collect_eq
    by (intro exI [of _ t] exI [of _ "sp\<lparr>pages := []\<rparr>"]) (simp add: t)
qed

lemma quiet_EvacuatePage:
  assumes "EvacuatePage s = Inr (f, s')" "swaps_bin s"
  shows "quiet s s'"
proof -
  obtain victim s0 where v: "PickVictim s = (victim, s0)" by (cases "PickVictim s")
  note q0 = quiet_PickVictim [OF v]
  from assms(1) v obtain c where c: "core_at victim s0 = Inr c" by (cases "core_at victim s0") (auto simp: EvacuatePage_def)
  from assms(1) v c obtain alive where al: "Table_HasKey (runningProcesses s0) (coreSpaceId c) = Inr alive"
    by (cases "Table_HasKey (runningProcesses s0) (coreSpaceId c)") (auto simp: EvacuatePage_def)
  show ?thesis
  proof (cases alive)
    case False
    then show ?thesis using assms(1) v c al q0 by (simp add: EvacuatePage_def)
  next
    case True
    let ?u = "coreVirtualPage c"
    from assms(1) v c al True obtain t s1 e s2 where
      s1: "flush_frame [0..<TLB_SIZE] victim t ?u s0 = Inr s1" and e: "getPageTableEntry t ?u s1 = Inr e"
      and s2: "(if dirty e then rbind (the_space t s1) (\<lambda>sp. rbind (OpenFile_WriteAt (disk_world s1) (openSwapFile sp)
                 (slice (unat (victim * page_bytes)) PAGE_SIZE (mem s1)) page_bytes (?u * page_bytes)) (\<lambda>(n, w). Inr (set_world s1 w)))
               else Inr s1) = Inr s2"
      and s3: "set_page t ?u (e\<lparr>physicalPage := INT_MAX, valid := False\<rparr>) s2 = Inr s'"
      unfolding EvacuatePage_def by (simp add: res_simps) blast
    have q1: "quiet s s1" using quiet_trans [OF q0 quiet_flush [OF s1]] .
    have "quiet s1 s2"
    proof (cases "dirty e")
      case d: True
      with s2 obtain sp n w where sp: "the_space t s1 = Inr sp"
        and w: "OpenFile_WriteAt (disk_world s1) (openSwapFile sp) (slice (unat (victim * page_bytes)) PAGE_SIZE (mem s1)) page_bytes (?u * page_bytes) = Inr (n, w)"
          "s2 = set_world s1 w" by (auto simp: res_simps split: prod.splits)
      then show ?thesis using quiet_swap_write [OF w(1) swaps_bin_space [OF assms(2) q1 sp]] by simp
    qed (use s2 in simp)
    with q1 quiet_steps(1) [OF s3] show ?thesis by (blast intro: quiet_trans)
  qed
qed

lemma swaps_bin_quiet: "swaps_bin s \<Longrightarrow> quiet s s' \<Longrightarrow> swaps_bin s'"
  by (simp add: swaps_bin_def quiet_def del: static_None)

lemma quiet_take_frame:
  assumes "take_frame s = Inr (f, s')" "swaps_bin s"
  shows "quiet s s'"
proof -
  from assms(1) obtain p b where b: "Bitmap_Find (addressesBitMap s) = Inr (p, b)"
    by (cases "Bitmap_Find (addressesBitMap s)") (auto simp: take_frame_def)
  have q: "quiet s (s\<lparr>addressesBitMap := b\<rparr>)" by simp
  show ?thesis
  proof (cases "p = -1")
    case True
    then have "EvacuatePage (s\<lparr>addressesBitMap := b\<rparr>) = Inr (f, s')" using assms(1) b by (simp add: take_frame_def)
    from quiet_EvacuatePage [OF this swaps_bin_quiet [OF assms(2) q]] show ?thesis using q by (blast intro: quiet_trans)
  next
    case False
    then show ?thesis using assms(1) b by (auto simp: take_frame_def)
  qed
qed

lemma quiet_LoadPage:
  assumes "LoadPage t a f s = Inr s'"
  shows "quiet s s'"
proof -
  from assms obtain p q bs bs' s1 s2 c x where s1: "set_mem p bs s = Inr s1" and s2: "set_mem q bs' s1 = Inr s2" and s': "s' = set_core f (c\<lparr>coreSpaceId := x, coreVirtualPage := a div page_bytes\<rparr>) s2"
    unfolding LoadPage_def Let_def by (auto simp: res_simps)
  show ?thesis unfolding s' using quiet_trans [OF quiet_steps(2) [OF s1] quiet_steps(2) [OF s2]] by (blast intro: quiet_trans quiet_fields)
qed

lemma quiet_page_fault:
  assumes "TLBPageFaultHandler exc s = Inr s'" "swaps_bin s"
  shows "quiet s s'"
proof -
  let ?t = "thisThread s"
  from assms(1) obtain a where a: "ReadRegister s BAD_VADDR_REG = Inr a"
    by (cases "ReadRegister s BAD_VADDR_REG") (auto simp: TLBPageFaultHandler_def)
  let ?u = "a div page_bytes"
  from assms(1) a obtain e0 s1 s5 old s6 e6 where
    s1: "set_page ?t ?u (e0\<lparr>valid := True\<rparr>) s = Inr s1"
    and s5: "(if physicalPage e0 = INT_MAX
              then rbind (take_frame s1) (\<lambda>(frame, s2).
                   rbind (getPageTableEntry ?t ?u s2) (\<lambda>e2.
                   rbind (set_page ?t ?u (e2\<lparr>physicalPage := frame\<rparr>) s2) (\<lambda>s3.
                     let s4 = s3\<lparr>mmu := (mmu s3)\<lparr>references_done := references_done (mmu s3) + 1\<rparr>\<rparr> in
                     rbind (core_at frame s4) (\<lambda>c.
                       LoadPage ?t a frame (set_core frame (c\<lparr>last_use_counter := references_done (mmu s4)\<rparr>) s4)))))
              else Inr s1) = Inr s5"
    and s6: "(if valid old then set_page ?t (virtualPage old) (old\<lparr>valid := False\<rparr>)
                (set_tlb (unat (numFaults s5 ?t mod of_nat TLB_SIZE)) (old\<lparr>valid := False\<rparr>) s5) else Inr s5) = Inr s6"
    and s': "s' = (set_tlb (unat (numFaults s5 ?t mod of_nat TLB_SIZE)) e6 s6)\<lparr>numFaults := (numFaults s6)(?t := numFaults s6 ?t + 1)\<rparr>"
    unfolding TLBPageFaultHandler_def Let_def by (simp add: res_simps) blast
  have q1: "quiet s s1" by (rule quiet_steps(1) [OF s1])
  have "quiet s1 s5"
  proof (cases "physicalPage e0 = INT_MAX")
    case True
    with s5 obtain f s2 e2 s3 c where s2: "take_frame s1 = Inr (f, s2)"
      and s3: "set_page ?t ?u (e2\<lparr>physicalPage := f\<rparr>) s2 = Inr s3"
      and l: "LoadPage ?t a f (set_core f (c\<lparr>last_use_counter := references_done (mmu s3) + 1\<rparr>) (s3\<lparr>mmu := (mmu s3)\<lparr>references_done := references_done (mmu s3) + 1\<rparr>\<rparr>)) = Inr s5"
      by (auto simp: res_simps Let_def)
    have "quiet s1 s2" by (rule quiet_take_frame [OF s2 swaps_bin_quiet [OF assms(2) q1]])
    also note quiet_steps(1) [OF s3]
    also have "quiet s3 (s3\<lparr>mmu := (mmu s3)\<lparr>references_done := references_done (mmu s3) + 1\<rparr>\<rparr>)" by simp
    also note quiet_fields(6)
    also note quiet_LoadPage [OF l]
    finally show ?thesis .
  qed (use s5 in simp)
  moreover have "quiet s5 s6"
  proof (cases "valid old")
    case True
    then show ?thesis using s6 quiet_trans [OF quiet_fields(7) quiet_steps(1)] by auto
  qed (use s6 in simp)
  moreover have "quiet s6 s'" unfolding s' by (rule quiet_trans [OF quiet_fields(7) quiet_fields(5)])
  ultimately show ?thesis using q1 by (blast intro: quiet_trans)
qed

section \<open>Accesses of the kernel to user memory\<close>

text \<open>The handlers are those of \<open>SetExceptionHandlers\<close>, and the running process is in order.\<close>

definition handlers_set :: "vmachine \<Rightarrow> bool" where
  "handlers_set s \<longleftrightarrow> (\<forall>et. handlers s et = Some (if et = PAGE_FAULT_EXCEPTION then TLB_HANDLER
     else if et = SYSCALL_EXCEPTION then SYSCALL_HANDLER else DEFAULT_HANDLER))"

definition ready :: "vmachine \<Rightarrow> bool" where
  "ready s \<longleftrightarrow> vm_inv s {} \<and> handlers_set s \<and> length (registers s) = NUM_TOTAL_REGS \<and> unat (registers s ! LOAD_REG) < NUM_GP_REGS"

lemma SetExceptionHandlers_set: "\<exists>s'. SetExceptionHandlers s = Inr s' \<and> handlers_set s' \<and> s' = s\<lparr>handlers := handlers s'\<rparr>"
proof -
  have "handlers_set (s\<lparr>handlers := h\<rparr>)" if "h = (handlers s)(NO_EXCEPTION := Some DEFAULT_HANDLER, SYSCALL_EXCEPTION := Some SYSCALL_HANDLER,
    PAGE_FAULT_EXCEPTION := Some TLB_HANDLER, READ_ONLY_EXCEPTION := Some DEFAULT_HANDLER, BUS_ERROR_EXCEPTION := Some DEFAULT_HANDLER,
    ADDRESS_ERROR_EXCEPTION := Some DEFAULT_HANDLER, OVERFLOW_EXCEPTION := Some DEFAULT_HANDLER, ILLEGAL_INSTR_EXCEPTION := Some DEFAULT_HANDLER)" for h
    unfolding handlers_set_def that
  proof
    fix et show "handlers (s\<lparr>handlers := (handlers s)(NO_EXCEPTION := Some DEFAULT_HANDLER, SYSCALL_EXCEPTION := Some SYSCALL_HANDLER,
      PAGE_FAULT_EXCEPTION := Some TLB_HANDLER, READ_ONLY_EXCEPTION := Some DEFAULT_HANDLER, BUS_ERROR_EXCEPTION := Some DEFAULT_HANDLER,
      ADDRESS_ERROR_EXCEPTION := Some DEFAULT_HANDLER, OVERFLOW_EXCEPTION := Some DEFAULT_HANDLER, ILLEGAL_INSTR_EXCEPTION := Some DEFAULT_HANDLER)\<rparr>) et
      = Some (if et = PAGE_FAULT_EXCEPTION then TLB_HANDLER else if et = SYSCALL_EXCEPTION then SYSCALL_HANDLER else DEFAULT_HANDLER)"
      by (cases et) simp_all
  qed
  then show ?thesis by (simp add: SetExceptionHandlers_def SetHandler_def)
qed

lemma ready_good: "ready s \<Longrightarrow> user_good fault_code s"
  by (auto simp: ready_def user_good_def serves_def handlers_set_def fault_code_def)

lemma ready_swaps: "ready s \<Longrightarrow> swaps_bin s"
  by (simp add: ready_def vm_inv_def files_ok_def swaps_bin_def del: static_None)

lemma quiet_raise:
  assumes "RaiseException fault_code (s\<lparr>mmu := m\<rparr>) e a = Inr s'" "swaps_bin s"
  shows "quiet s s'"
proof -
  from assms(1) obtain h s1 s2 where h: "DelayedLoad (s\<lparr>mmu := m, registers := (registers s)[BAD_VADDR_REG := a]\<rparr>) 0 0 = Inr s1"
    "fault_code h e (s1\<lparr>status := SYSTEM_MODE\<rparr>) = Inr s2" "s' = s2\<lparr>status := USER_MODE\<rparr>"
    by (auto simp: RaiseException_def res_simps split: option.splits)
  have "quiet s s1" using h(1) by (auto simp: DelayedLoad_def Let_def res_simps quiet_def fun_eq_iff static_def)
  then have q: "quiet s (s1\<lparr>status := SYSTEM_MODE\<rparr>)" by (blast intro: quiet_trans quiet_fields)
  have "quiet (s1\<lparr>status := SYSTEM_MODE\<rparr>) s2"
    using h(2) quiet_page_fault [OF _ swaps_bin_quiet [OF assms(2) q]]
    by (auto simp: fault_code_def DefaultHandler_def res_simps split: if_splits)
  then show ?thesis unfolding h(3) using q by (blast intro: quiet_trans quiet_fields)
qed

text \<open>An address outside the process stops the kernel: there is no page to load, or the default handler runs.\<close>

lemma cached_page:
  assumes "vm_inv s H" "cached s (page_no a)"
  shows "page_no a < npages s (thisThread s)"
proof -
  from assms obtain i where i: "i < TLB_SIZE" "valid (tlbs s ! i)" "virtualPage (tlbs s ! i) = of_nat (page_no a)"
    by (auto simp: cached_def in_set_conv_nth vm_inv_def hw_ok_def)
  have "unat a < 2 ^ LENGTH(32)" by (rule unsigned_less)
  then have "page_no a < 4294967296" using le_less_trans [OF div_le_dividend [of "unat a" PAGE_SIZE]] by (simp add: page_no_def)
  then show ?thesis using cached_facts(2) [OF assms(1) i] unat_small by simp
qed

lemma outside_translate:
  assumes "vm_inv s {}" "\<not> in_space s a n" "n \<in> {1, 2, 4}"
  shows "Translate (mmu s) a n w = Inr (Inl ADDRESS_ERROR_EXCEPTION, mmu s)
    \<or> Translate (mmu s) a n w = Inr (Inl PAGE_FAULT_EXCEPTION, counted (mmu s)) \<and> npages s (thisThread s) \<le> page_no a"
proof (cases "misaligned a n")
  case True
  have "(tlb (mmu s) = None) \<noteq> (pageTable (mmu s) = None)" using assms(1) by (auto simp: vm_inv_def hw_ok_def)
  then show ?thesis using True by (simp add: Translate_def misaligned_def)
next
  case False
  then have o: "npages s (thisThread s) \<le> page_no a" using assms(2,3) by (auto simp: in_space_def)
  then have "\<not> cached s (page_no a)" using cached_page [OF assms(1)] by fastforce
  from translate_miss [OF assms(1) this False] o show ?thesis by blast
qed

lemma outside_raise:
  assumes "ready s" "e = ADDRESS_ERROR_EXCEPTION \<or> e = PAGE_FAULT_EXCEPTION \<and> npages s (thisThread s) \<le> page_no a"
  shows "\<exists>x. RaiseException fault_code (s\<lparr>mmu := m\<rparr>) e a = Inl x"
proof -
  let ?r = "(registers s)[BAD_VADDR_REG := a]"
  let ?r1 = "?r[unat (registers s ! LOAD_REG) := registers s ! LOAD_VALUE_REG, LOAD_REG := 0, LOAD_VALUE_REG := 0, 0 := 0]"
  let ?s = "s\<lparr>mmu := m, registers := ?r1, status := SYSTEM_MODE\<rparr>"
  have rg: "length (registers s) = NUM_TOTAL_REGS" "unat (registers s ! LOAD_REG) < NUM_GP_REGS" "handlers_set s"
    using assms(1) by (simp_all add: ready_def)
  have dl: "DelayedLoad (s\<lparr>mmu := m, registers := ?r\<rparr>) 0 0 = Inr (s\<lparr>mmu := m, registers := ?r1\<rparr>)"
    using rg(2) by (simp add: DelayedLoad_def Let_def reg_defs)
  from assms(2) show ?thesis
  proof
    assume e: "e = ADDRESS_ERROR_EXCEPTION"
    then have "handlers s e = Some DEFAULT_HANDLER" using rg(3) by (simp add: handlers_set_def)
    then show ?thesis using dl
      by (simp add: RaiseException_def fault_code_def DEFAULT_HANDLER_def TLB_HANDLER_def DefaultHandler_def ReadRegister_def NUM_TOTAL_REGS_def)
  next
    assume e: "e = PAGE_FAULT_EXCEPTION \<and> npages s (thisThread s) \<le> page_no a"
    then have h: "handlers s e = Some TLB_HANDLER" using rg(3) by (simp add: handlers_set_def)
    have "?r1 ! BAD_VADDR_REG = a" using rg by (simp add: reg_defs nth_list_update)
    then have b: "ReadRegister ?s BAD_VADDR_REG = Inr a" by (simp add: ReadRegister_def reg_defs)
    have "\<exists>x. getPageTableEntry (thisThread s) (a div page_bytes) ?s = Inl x"
      using e by (auto simp: getPageTableEntry_def the_space_def npages_def page_no_unat rcheck_def split: option.splits)
    then have "\<exists>x. TLBPageFaultHandler e ?s = Inl x" using b by (auto simp: TLBPageFaultHandler_def)
    then show ?thesis using h dl by (auto simp: RaiseException_def fault_code_def)
  qed
qed

lemma outside_access:
  assumes "ready s" "\<not> in_space s a n" "n \<in> {1, 2, 4}"
  shows "\<exists>x. Machine_ReadMem fault_code s a n = Inl x" "\<exists>x. Machine_WriteMem fault_code s a n v = Inl x"
proof -
  have inv: "vm_inv s {}" using assms(1) by (simp add: ready_def)
  show "\<exists>x. Machine_ReadMem fault_code s a n = Inl x"
    using outside_translate [OF inv assms(2,3), of False]
  proof
    assume "Translate (mmu s) a n False = Inr (Inl ADDRESS_ERROR_EXCEPTION, mmu s)"
    then show ?thesis using outside_raise [OF assms(1), of ADDRESS_ERROR_EXCEPTION a "mmu s"] by (auto simp: Machine_ReadMem_def MMU_ReadMem_def)
  next
    assume "Translate (mmu s) a n False = Inr (Inl PAGE_FAULT_EXCEPTION, counted (mmu s)) \<and> npages s (thisThread s) \<le> page_no a"
    then show ?thesis using outside_raise [OF assms(1), of PAGE_FAULT_EXCEPTION a "counted (mmu s)"] by (auto simp: Machine_ReadMem_def MMU_ReadMem_def)
  qed
  show "\<exists>x. Machine_WriteMem fault_code s a n v = Inl x"
    using outside_translate [OF inv assms(2,3), of True]
  proof
    assume "Translate (mmu s) a n True = Inr (Inl ADDRESS_ERROR_EXCEPTION, mmu s)"
    then show ?thesis using outside_raise [OF assms(1), of ADDRESS_ERROR_EXCEPTION a "mmu s"] by (auto simp: Machine_WriteMem_def MMU_WriteMem_def)
  next
    assume "Translate (mmu s) a n True = Inr (Inl PAGE_FAULT_EXCEPTION, counted (mmu s)) \<and> npages s (thisThread s) \<le> page_no a"
    then show ?thesis using outside_raise [OF assms(1), of PAGE_FAULT_EXCEPTION a "counted (mmu s)"] by (auto simp: Machine_WriteMem_def MMU_WriteMem_def)
  qed
qed

text \<open>What an access does at most; with \<open>w\<close> it may write the memory of the running process.\<close>

definition calm :: "bool \<Rightarrow> vmachine \<Rightarrow> vmachine \<Rightarrow> bool" where
  "calm w s s' \<longleftrightarrow> ready s' \<and> quiet s s' \<and> same_regs s s' \<and> npages s' = npages s
     \<and> (\<forall>t v. (t = thisThread s \<longrightarrow> \<not> w) \<and> v < npages s t \<longrightarrow> vpage s' t v = vpage s t v)"

lemma quiet_thread: "quiet s s' \<Longrightarrow> thisThread s' = thisThread s"
  by (simp add: quiet_def aux_def)

lemma calm_trans [trans]: "calm w s s' \<Longrightarrow> calm w s' s'' \<Longrightarrow> calm w s s''"
  using quiet_thread [of s s'] by (auto simp: calm_def intro: quiet_trans same_regs_trans)

lemma calm_refl: "ready s \<Longrightarrow> calm w s s"
  by (simp add: calm_def)

lemma calm_mono: "calm False s s' \<Longrightarrow> calm w s s'"
  by (simp add: calm_def)

lemma quiet_ReadMem:
  assumes "Machine_ReadMem fault_code s a n = Inr (r, s')" "swaps_bin s"
  shows "quiet s s'"
proof -
  from assms(1) obtain x m where m: "MMU_ReadMem (mmu s) a n = Inr (x, m)" by (cases "MMU_ReadMem (mmu s) a n") (auto simp: Machine_ReadMem_def)
  show ?thesis
  proof (cases x)
    case (Inr v)
    then show ?thesis using assms(1) m by (auto simp: Machine_ReadMem_def)
  next
    case (Inl e)
    then have r: "RaiseException fault_code (s\<lparr>mmu := m\<rparr>) e a = Inr s'" using assms(1) m by (auto simp: Machine_ReadMem_def res_simps)
    show ?thesis by (rule quiet_raise [OF r assms(2)])
  qed
qed

lemma quiet_WriteMem:
  assumes "Machine_WriteMem fault_code s a n v = Inr (r, s')" "swaps_bin s"
  shows "quiet s s'"
proof -
  from assms(1) obtain e m where m: "MMU_WriteMem (mmu s) a n v = Inr (e, m)" by (cases "MMU_WriteMem (mmu s) a n v") (auto simp: Machine_WriteMem_def)
  show ?thesis
  proof (cases "e = NO_EXCEPTION")
    case True
    then show ?thesis using assms(1) m by (auto simp: Machine_WriteMem_def)
  next
    case False
    then have "RaiseException fault_code (s\<lparr>mmu := m\<rparr>) e a = Inr s'" using assms(1) m by (auto simp: Machine_WriteMem_def res_simps)
    then show ?thesis by (rule quiet_raise [OF _ assms(2)])
  qed
qed

lemma ready_after:
  assumes "ready s" "vm_inv s' {}" "same_regs s s'" "serves fault_code s'"
  shows "ready s'"
  using assms by (simp add: ready_def handlers_set_def serves_def same_regs_def)

lemma same_memory_calm:
  assumes "ready s" "vm_inv s' {}" "same_regs s s'" "serves fault_code s'" "same_memory s s'" "quiet s s'"
  shows "calm w s s'"
  using ready_after [OF assms(1-4)] assms(3,5,6) by (simp add: calm_def same_memory_def)

lemma ReadMem_calm:
  assumes "ready s" "Machine_ReadMem fault_code s a n = Inr (r, s')" "n \<in> {1, 2, 4}"
  shows "calm w s s'"
proof -
  have g: "vm_inv s {}" "serves fault_code s" using ready_good [OF assms(1)] by (simp_all add: user_good_def)
  have "in_space s a n" using outside_access(1) [OF assms(1) _ assms(3)] assms(2) by fastforce
  from Machine_ReadMem_user [OF g this] assms(2) have "vm_inv s' {}" "same_memory s s'" "serves fault_code s'" "same_regs s s'" by auto
  then show ?thesis using same_memory_calm [OF assms(1)] quiet_ReadMem [OF assms(2) ready_swaps [OF assms(1)]] by blast
qed

lemma WriteMem_calm:
  assumes "ready s" "Machine_WriteMem fault_code s a n x = Inr (r, s')" "n \<in> {1, 2, 4}"
  shows "calm True s s'"
proof -
  have g: "vm_inv s {}" "serves fault_code s" using ready_good [OF assms(1)] by (simp_all add: user_good_def)
  have "in_space s a n" using outside_access(2) [OF assms(1) _ assms(3), of a x] assms(2) by auto
  from Machine_WriteMem_user [OF g this, of x] assms(2) have v: "vm_inv s' {}" "serves fault_code s'" "same_regs s s'"
    "stored s s' a n x \<or> same_memory s s'" by (auto split: if_splits)
  have q: "quiet s s'" by (rule quiet_WriteMem [OF assms(2) ready_swaps [OF assms(1)]])
  from v(4) show ?thesis
  proof
    assume "stored s s' a n x"
    then show ?thesis using ready_after [OF assms(1) v(1,3,2)] q v(3) by (auto simp: calm_def stored_def)
  next
    assume "same_memory s s'"
    then show ?thesis using same_memory_calm [OF assms(1) v(1,3,2)] q by blast
  qed
qed

lemma calm_ready: "calm w s s' \<Longrightarrow> ready s'"
  by (simp add: calm_def)

lemma try_read_calm: "ready s \<Longrightarrow> try_read fault_code k a n s = Inr (r, s') \<Longrightarrow> n \<in> {1, 2, 4} \<Longrightarrow> calm w s s'"
proof (induction k arbitrary: s)
  case 0
  then show ?case by (simp add: calm_refl)
next
  case (Suc k)
  from Suc.prems(2) obtain x s1 where s1: "Machine_ReadMem fault_code s a n = Inr (x, s1)"
    "(case x of Some v \<Rightarrow> Inr (Some v, s1) | None \<Rightarrow> try_read fault_code k a n s1) = Inr (r, s')" by (auto simp: res_simps)
  note c = ReadMem_calm [OF Suc.prems(1) s1(1) Suc.prems(3)]
  show ?case using s1(2) c Suc.IH [OF calm_ready [OF c] _ Suc.prems(3)] by (auto split: option.splits intro: calm_trans)
qed

lemma try_write_calm: "ready s \<Longrightarrow> try_write fault_code k a n v s = Inr (r, s') \<Longrightarrow> n \<in> {1, 2, 4} \<Longrightarrow> calm True s s'"
proof (induction k arbitrary: s)
  case 0
  then show ?case by (simp add: calm_refl)
next
  case (Suc k)
  from Suc.prems(2) obtain x s1 where s1: "Machine_WriteMem fault_code s a n v = Inr (x, s1)"
    "(if x then Inr (True, s1) else try_write fault_code k a n v s1) = Inr (r, s')" by (auto simp: res_simps)
  note c = WriteMem_calm [OF Suc.prems(1) s1(1) Suc.prems(3)]
  show ?case using s1(2) c Suc.IH [OF calm_ready [OF c] _ Suc.prems(3)] by (auto split: if_splits intro: calm_trans)
qed

lemma read_string_loop_calm: "ready s \<Longrightarrow> read_string_loop fault_code raw n a s = Inr (bs, s') \<Longrightarrow> calm w s s'"
proof (induction n arbitrary: a s bs)
  case 0
  then show ?case by (simp add: calm_refl)
next
  case (Suc n)
  from Suc.prems(2) obtain x s1 where s1: "try_read fault_code NUMBER_OF_TRIES a 1 s = Inr (x, s1)" by (auto simp: res_simps)
  with Suc.prems(2) have rest: "s' = s1 \<or> (\<exists>a1 bs1. read_string_loop fault_code raw n a1 s1 = Inr (bs1, s'))"
    by (cases x) (auto simp: res_simps Let_def split: if_splits)
  have c: "calm w s s1" by (rule try_read_calm [OF Suc.prems(1) s1]) simp
  show ?case using rest c Suc.IH [OF calm_ready [OF c]] calm_trans [OF c] by blast
qed

lemma ReadStringFromUser_calm: "ready s \<Longrightarrow> ReadStringFromUser fault_code raw a n s = Inr (ok, bs, s') \<Longrightarrow> calm w s s'"
  by (auto simp: ReadStringFromUser_def res_simps dest: read_string_loop_calm)

lemma read_buffer_loop_calm: "ready s \<Longrightarrow> read_buffer_loop fault_code n a temp s = Inr (bs, s') \<Longrightarrow> calm w s s'"
proof (induction n arbitrary: a temp s bs)
  case 0
  then show ?case by (simp add: calm_refl)
next
  case (Suc n)
  from Suc.prems(2) obtain x s1 where s1: "try_read fault_code NUMBER_OF_TRIES a 1 s = Inr (x, s1)" by (auto simp: res_simps)
  with Suc.prems(2) have rest: "\<exists>a1 t1 bs1. read_buffer_loop fault_code n a1 t1 s1 = Inr (bs1, s')"
    by (cases x) (auto simp: res_simps)
  have c: "calm w s s1" by (rule try_read_calm [OF Suc.prems(1) s1]) simp
  show ?case using rest Suc.IH [OF calm_ready [OF c]] calm_trans [OF c] by blast
qed

lemma ReadBufferFromUser_calm: "ready s \<Longrightarrow> ReadBufferFromUser fault_code raw a n s = Inr (bs, s') \<Longrightarrow> calm w s s'"
  by (auto simp: ReadBufferFromUser_def res_simps dest: read_buffer_loop_calm)

lemma write_buffer_loop_calm: "ready s \<Longrightarrow> write_buffer_loop fault_code raw n a bs s = Inr s' \<Longrightarrow> calm True s s'"
proof (induction n arbitrary: a bs s)
  case 0
  then show ?case by (simp add: calm_refl)
next
  case (Suc n)
  from Suc.prems(2) obtain b bs1 where bs: "bs = b # bs1" by (cases bs) auto
  from Suc.prems(2) obtain ok s1 where s1: "try_write fault_code NUMBER_OF_TRIES a 1 (int_at raw (b # bs1)) s = Inr (ok, s1)"
    and rest: "s' = s1 \<or> (\<exists>a1. write_buffer_loop fault_code raw n a1 bs1 s1 = Inr s')"
    unfolding bs by (auto simp: res_simps split: prod.splits if_splits)
  have c: "calm True s s1" by (rule try_write_calm [OF Suc.prems(1) s1]) simp
  show ?case using rest c Suc.IH [OF calm_ready [OF c]] calm_trans [OF c] by blast
qed

lemma WriteBufferToUser_calm: "ready s \<Longrightarrow> WriteBufferToUser fault_code raw bs a n s = Inr s' \<Longrightarrow> calm True s s'"
  by (auto simp: WriteBufferToUser_def res_simps dest: write_buffer_loop_calm)

lemma count_args_loop_calm: "ready s \<Longrightarrow> count_args_loop fault_code a k c x s = Inr (m, y, s') \<Longrightarrow> calm w s s'"
proof (induction k arbitrary: c x s)
  case 0
  then show ?case by (simp add: calm_refl)
next
  case (Suc k)
  from Suc.prems(2) obtain r s1 where s1: "try_read fault_code (Suc NUMBER_OF_TRIES) (a + 4 * of_nat c) 4 s = Inr (r, s1)"
    and rest: "s' = s1 \<or> (\<exists>c1 x1. count_args_loop fault_code a k c1 x1 s1 = Inr (m, y, s'))"
    by (auto simp: res_simps Let_def split: if_splits prod.splits simp del: try_read.simps)
  have c: "calm w s s1" by (rule try_read_calm [OF Suc.prems(1) s1]) simp
  show ?case using rest c Suc.IH [OF calm_ready [OF c]] calm_trans [OF c] by blast
qed

lemma save_args_loop_calm: "ready s \<Longrightarrow> save_args_loop fault_code raw a is s = Inr (strs, s') \<Longrightarrow> calm w s s'"
proof (induction "is" arbitrary: s strs)
  case Nil
  then show ?case by (simp add: calm_refl)
next
  case (Cons i js)
  from Cons.prems(2) obtain r s1 b ok str s2 strs1 where s1: "try_read fault_code (Suc NUMBER_OF_TRIES) (a + of_nat i * 4) 4 s = Inr (r, s1)"
    and s2: "ReadStringFromUser fault_code raw b MAX_ARG_LENGTH s1 = Inr (ok, str, s2)"
    and s3: "save_args_loop fault_code raw a js s2 = Inr (strs1, s')" by (auto simp: res_simps simp del: try_read.simps)
  have c: "calm w s s1" by (rule try_read_calm [OF Cons.prems(1) s1]) simp
  have c2: "calm w s s2" by (rule calm_trans [OF c ReadStringFromUser_calm [OF calm_ready [OF c] s2]])
  show ?case by (rule calm_trans [OF c2 Cons.IH [OF calm_ready [OF c2] s3]])
qed

lemma SaveArgs_calm:
  assumes "ready s" "SaveArgs fault_code raw a s = Inr (r, s')"
  shows "calm w s s'"
proof -
  from assms(2) obtain cnt s1 where c: "CountArgsToSave fault_code (raw 0) a s = Inr (cnt, s1)"
    and r: "s' = s1 \<or> (\<exists>n strs. save_args_loop fault_code raw a [0..<n] s1 = Inr (strs, s'))"
    by (auto simp: SaveArgs_def res_simps split: option.splits) blast
  have k: "calm w s s1" using c count_args_loop_calm [OF assms(1)] by (auto simp: CountArgsToSave_def res_simps split: if_splits)
  show ?thesis using r k save_args_loop_calm [OF calm_ready [OF k]] calm_trans [OF k] by blast
qed

section \<open>System calls\<close>

text \<open>
  The invariant between system calls. The file system's own files and the files a process has
  opened are Nachos files.
\<close>

definition files_nachos :: "OpenFile option table \<Rightarrow> bool" where
  "files_nachos tbl \<longleftrightarrow> defItem tbl = None \<and> (\<forall>f. Some f \<in> set (data tbl) \<longrightarrow> \<not> isBin f)"

definition sys_ok :: "vmachine \<Rightarrow> bool" where
  "sys_ok s \<longleftrightarrow> ready s \<and> nachos (fileSystem s) \<and> (\<forall>t. files_nachos (openedFilesTable s t))"

definition isolated :: "bool \<Rightarrow> vmachine \<Rightarrow> vmachine \<Rightarrow> bool" where
  "isolated w s s' \<longleftrightarrow> sys_ok s' \<and> thisThread s' = thisThread s \<and> npages s' = npages s \<and> static s' = static s
     \<and> (\<forall>t v. (t = thisThread s \<longrightarrow> \<not> w) \<and> v < npages s t \<longrightarrow> vpage s' t v = vpage s t v)"

lemma isolated_trans [trans]: "isolated w s s' \<Longrightarrow> isolated w s' s'' \<Longrightarrow> isolated w s s''"
  by (simp add: isolated_def)

lemma isolated_ok: "isolated w s s' \<Longrightarrow> sys_ok s'"
  by (simp add: isolated_def)

lemma isolated_refl: "sys_ok s \<Longrightarrow> isolated w s s"
  by (simp add: isolated_def)

lemma aux_parts:
  assumes "aux s' = aux s"
  shows "thisThread s' = thisThread s" "openedFilesTable s' = openedFilesTable s" "runningProcesses s' = runningProcesses s"
    "freshThread s' = freshThread s" "nachos (fileSystem s') = nachos (fileSystem s)" "consoleIn s' = consoleIn s" "consoleOut s' = consoleOut s"
proof -
  let ?z = "\<lambda>f. f\<lparr>fsw := (fsw f)\<lparr>hostFiles := (\<lambda>_. [])\<rparr>\<rparr>"
  have "?z (fileSystem s') = ?z (fileSystem s)" using assms by (simp add: aux_def)
  from arg_cong [OF this, of nachos] show "nachos (fileSystem s') = nachos (fileSystem s)" by (simp add: nachos_def)
qed (use assms in \<open>simp_all add: aux_def\<close>)

lemma calm_isolated:
  assumes "calm w s s'" "sys_ok s"
  shows "isolated w s s'"
proof -
  have a: "aux s' = aux s" "static s' = static s" using assms(1) by (simp_all add: calm_def quiet_def)
  show ?thesis using assms aux_parts [OF a(1)] a(2) by (simp add: isolated_def sys_ok_def calm_def)
qed

lemma view_isolated:
  assumes "sys_ok s" "same_view s s'" "registers s' = registers s" "handlers s' = handlers s"
    and "nachos (fileSystem s')" "\<forall>t. files_nachos (openedFilesTable s' t)"
  shows "isolated w s s'"
proof -
  have i: "vm_inv s' {}" "same_memory s s'" using same_view_inv [OF assms(2)] assms(1) by (auto simp: sys_ok_def ready_def)
  then have "ready s'" using assms(1,3,4) by (simp add: sys_ok_def ready_def handlers_set_def)
  then show ?thesis using i(2) assms(5,6) by (simp add: isolated_def sys_ok_def same_memory_def)
qed

lemma register_isolated:
  assumes "sys_ok s" "k < NUM_TOTAL_REGS" "k \<noteq> LOAD_REG"
  shows "isolated w s (s\<lparr>registers := (registers s)[k := x]\<rparr>)"
proof -
  let ?s = "s\<lparr>registers := (registers s)[k := x]\<rparr>"
  have i: "vm_inv ?s {}" "same_memory s ?s" using same_view_inv [OF registers_view(2)] assms(1) by (auto simp: sys_ok_def ready_def)
  then have "ready ?s" using assms by (simp add: sys_ok_def ready_def handlers_set_def)
  then show ?thesis using i(2) assms(1) by (simp add: isolated_def sys_ok_def same_memory_def)
qed

lemma WriteRegister_isolated:
  assumes "WriteRegister s k x = Inr s'" "sys_ok s" "k \<noteq> LOAD_REG"
  shows "isolated w s s'"
  using assms register_isolated isolated_refl by (auto simp: WriteRegister_def res_simps split: if_splits)

lemma result_isolated: "result x s = Inr (c, s') \<Longrightarrow> sys_ok s \<Longrightarrow> isolated w s s' \<and> c = None"
  by (auto simp: result_def res_simps LOAD_REG_def dest: WriteRegister_isolated)

lemma file_system_isolated:
  assumes "sys_ok s" "fs_keep (caller_fs s) fs"
  shows "isolated w s (s\<lparr>fileSystem := fs\<rparr>)"
proof -
  have "same_host (disk_world s) (fsw fs)" using assms(2) by (simp add: fs_keep_def wkeep_def same_host_def caller_fs_def)
  from file_system_inv [OF _ this] assms(1) have i: "vm_inv (s\<lparr>fileSystem := fs\<rparr>) {}" "same_memory s (s\<lparr>fileSystem := fs\<rparr>)"
    by (auto simp: sys_ok_def ready_def)
  then have "ready (s\<lparr>fileSystem := fs\<rparr>)" using assms(1) by (simp add: sys_ok_def ready_def handlers_set_def)
  then show ?thesis using i(2) assms by (simp add: isolated_def sys_ok_def same_memory_def fs_keep_def)
qed

lemma caller_nachos: "sys_ok s \<Longrightarrow> nachos (caller_fs s)"
  by (simp add: sys_ok_def nachos_def caller_fs_def)

lemma other_fields_view:
  "same_view s (s\<lparr>openedFilesTable := x\<rparr>)" "same_view s (s\<lparr>consoleIn := y\<rparr>)" "same_view s (s\<lparr>consoleOut := y\<rparr>)"
  by (simp_all add: same_view_def fun_eq_iff npages_def pg_def static_def)

lemma set_files_isolated: "sys_ok s \<Longrightarrow> files_nachos tbl \<Longrightarrow> isolated w s (set_files tbl s)"
  by (rule view_isolated) (simp_all add: set_files_def other_fields_view sys_ok_def)

lemma console_isolated: "sys_ok s \<Longrightarrow> isolated w s (s\<lparr>consoleIn := y\<rparr>)" "sys_ok s \<Longrightarrow> isolated w s (s\<lparr>consoleOut := y\<rparr>)"
  by (rule view_isolated; simp add: other_fields_view sys_ok_def)+

lemma files_nachos_update: "files_nachos tbl \<Longrightarrow> (\<And>f. x = Some f \<Longrightarrow> \<not> isBin f) \<Longrightarrow> files_nachos (tbl\<lparr>data := (data tbl)[i := x]\<rparr>)"
  using set_update_subset_insert [of "data tbl" i x] by (auto simp: files_nachos_def)

lemma put_file_isolated: "sys_ok s \<Longrightarrow> \<not> isBin f \<Longrightarrow> isolated w s (put_file fid f s)"
  unfolding put_file_def by (rule set_files_isolated) (auto simp: sys_ok_def intro!: files_nachos_update)

lemma in_set_update: "y \<in> set (xs[i := x]) \<Longrightarrow> y = x \<or> y \<in> set xs"
  using set_update_subset_insert [of xs i x] by auto

lemma Table_Add_nachos: "Table_Add tbl x = Inr (i, tbl') \<Longrightarrow> files_nachos tbl \<Longrightarrow> (\<And>f. x = Some f \<Longrightarrow> \<not> isBin f) \<Longrightarrow> files_nachos tbl'"
  by (auto simp: Table_Add_def data_set_def res_simps files_nachos_def split: list.splits if_splits dest!: in_set_update)

lemma Table_Get_nachos: "Table_Get tbl i = Inr (Some f) \<Longrightarrow> files_nachos tbl \<Longrightarrow> \<not> isBin f"
  by (auto simp: Table_Get_def data_at_def res_simps files_nachos_def split: if_splits) (metis nth_mem)

lemma Table_Remove_loop_data: "Table_Remove_loop n t j = Inr t' \<Longrightarrow> data t' = data t \<and> defItem t' = defItem t"
proof (induction n arbitrary: t j)
  case 0
  then show ?case by (subst (asm) Table_Remove_loop.simps) (auto simp: res_simps split: if_splits)
next
  case (Suc n)
  from Suc.prems [unfolded Table_Remove_loop.simps [of "Suc n" t j]] show ?case
    by (auto simp: res_simps split: if_splits list.splits dest!: Suc.IH)
qed

lemma Table_Remove_nachos: "Table_Remove tbl i = Inr (x, tbl') \<Longrightarrow> files_nachos tbl \<Longrightarrow> files_nachos tbl'"
  by (auto simp: Table_Remove_def res_simps files_nachos_def split: if_splits dest!: Table_Remove_loop_data)

lemma sys_ready: "sys_ok s \<Longrightarrow> ready s"
  by (simp add: sys_ok_def)

text \<open>Reading a name, and then an operation of the file system.\<close>

lemma name_isolated:
  assumes "ReadStringFromUser fault_code raw a n s = Inr (ok, nm, s1)" "sys_ok s"
  shows "isolated w s s1"
  by (rule calm_isolated [OF ReadStringFromUser_calm [OF sys_ready [OF assms(2)] assms(1)] assms(2)])

lemma fs_result_isolated:
  assumes "result x (s\<lparr>fileSystem := fs\<rparr>) = Inr (c, s')" "sys_ok s" "fs_keep (caller_fs s) fs"
  shows "isolated w s s'"
proof -
  have k: "isolated w s (s\<lparr>fileSystem := fs\<rparr>)" by (rule file_system_isolated [OF assms(2,3)])
  from k conjunct1 [OF result_isolated [OF assms(1) isolated_ok [OF k]]] show ?thesis by (rule isolated_trans)
qed

lemma sys_create_isolated:
  assumes "sys_create env fault_code s = Inr (c, s')" "sys_ok s"
  shows "isolated w s s'"
proof (cases "registers s ! 4 = 0")
  case True
  then show ?thesis using assms result_isolated [of 1 s c s'] by (simp add: sys_create_def ReadRegister_def NUM_TOTAL_REGS_def)
next
  case False
  with assms(1) obtain ok nm s1 where n: "ReadStringFromUser fault_code (rawWord env) (registers s ! 4) (FILE_PATH_MAX_LEN + 1) s = Inr (ok, nm, s1)"
    and r: "(if \<not> ok then result 1 s1
      else rbind (if registers s ! 5 \<noteq> 0 then FileSystem_CreateDir (caller_fs s1) (name_of nm)
                  else FileSystem_Create (hostCreate env) (caller_fs s1) (name_of nm) False) (\<lambda>(created, fs).
           result (if created then 0 else 1) (s1\<lparr>fileSystem := fs\<rparr>))) = Inr (c, s')"
    by (auto simp: sys_create_def ReadRegister_def NUM_TOTAL_REGS_def res_simps)
  have k: "isolated w s s1" by (rule name_isolated [OF n assms(2)])
  note o = isolated_ok [OF k]
  show ?thesis
  proof (cases ok)
    case False
    then show ?thesis using r result_isolated [OF _ o] isolated_trans [OF k] by simp
  next
    case True
    with r obtain cr fs where f: "(if registers s ! 5 \<noteq> 0 then FileSystem_CreateDir (caller_fs s1) (name_of nm)
        else FileSystem_Create (hostCreate env) (caller_fs s1) (name_of nm) False) = Inr (cr, fs)"
      and e: "result (if cr then 0 else 1) (s1\<lparr>fileSystem := fs\<rparr>) = Inr (c, s')" by (auto simp: res_simps)
    have "fs_keep (caller_fs s1) fs"
      using f FileSystem_CreateDir_keep [OF _ caller_nachos [OF o]] FileSystem_Create_keep [OF _ caller_nachos [OF o]] by (auto split: if_splits)
    then show ?thesis using fs_result_isolated [OF e o] k by (blast intro: isolated_trans)
  qed
qed

lemma sys_remove_isolated:
  assumes "sys_remove env fault_code s = Inr (c, s')" "sys_ok s"
  shows "isolated w s s'"
proof (cases "registers s ! 4 = 0")
  case True
  then show ?thesis using assms result_isolated [of 1 s c s'] by (simp add: sys_remove_def ReadRegister_def NUM_TOTAL_REGS_def)
next
  case False
  with assms(1) obtain ok nm s1 where n: "ReadStringFromUser fault_code (rawWord env) (registers s ! 4) (FILE_NAME_MAX_LEN + 1) s = Inr (ok, nm, s1)"
    and r: "(if \<not> ok then result 1 s1
       else if registers s ! 5 \<noteq> 0
         then rbind (FileSystem_RemoveDir (caller_fs s1) (name_of nm)) (\<lambda>(r, fs).
                result (if r = -1 then -1 else if r = -2 then -2 else 0) (s1\<lparr>fileSystem := fs\<rparr>))
         else rbind (FileSystem_Remove (caller_fs s1) (name_of nm) False) (\<lambda>(removed, fs).
                result (if removed then 0 else 1) (s1\<lparr>fileSystem := fs\<rparr>))) = Inr (c, s')"
    by (auto simp: sys_remove_def ReadRegister_def NUM_TOTAL_REGS_def res_simps)
  have k: "isolated w s s1" by (rule name_isolated [OF n assms(2)])
  note o = isolated_ok [OF k]
  show ?thesis
  proof (cases ok)
    case False
    then show ?thesis using r result_isolated [OF _ o] isolated_trans [OF k] by simp
  next
    case True
    with r obtain x fs where e: "result x (s1\<lparr>fileSystem := fs\<rparr>) = Inr (c, s')"
      and f: "(\<exists>y. FileSystem_RemoveDir (caller_fs s1) (name_of nm) = Inr (y, fs)) \<or> (\<exists>y. FileSystem_Remove (caller_fs s1) (name_of nm) False = Inr (y, fs))"
      by (auto simp: res_simps split: if_splits)
    have "fs_keep (caller_fs s1) fs"
      using f FileSystem_RemoveDir_keep [OF _ caller_nachos [OF o]] FileSystem_Remove_keep [OF _ caller_nachos [OF o]] by blast
    then show ?thesis using fs_result_isolated [OF e o] k by (blast intro: isolated_trans)
  qed
qed

lemma sys_cd_isolated:
  assumes "sys_cd env fault_code s = Inr (c, s')" "sys_ok s"
  shows "isolated w s s'"
proof (cases "registers s ! 4 = 0")
  case True
  then show ?thesis using assms result_isolated [of 1 s c s'] by (simp add: sys_cd_def ReadRegister_def NUM_TOTAL_REGS_def)
next
  case False
  with assms(1) obtain ok nm s1 where n: "ReadStringFromUser fault_code (rawWord env) (registers s ! 4) (FILE_PATH_MAX_LEN + 1) s = Inr (ok, nm, s1)"
    and r: "(if \<not> ok then result 1 s1 else rbind (ChangeDir (caller_fs s1) (name_of nm) True) (\<lambda>(su, fs).
        result (if su then 0 else 1) (s1\<lparr>fileSystem := fs\<rparr>))) = Inr (c, s')"
    by (auto simp: sys_cd_def ReadRegister_def NUM_TOTAL_REGS_def res_simps)
  have k: "isolated w s s1" by (rule name_isolated [OF n assms(2)])
  note o = isolated_ok [OF k]
  show ?thesis
  proof (cases ok)
    case False
    then show ?thesis using r result_isolated [OF _ o] isolated_trans [OF k] by simp
  next
    case True
    with r obtain su fs where f: "ChangeDir (caller_fs s1) (name_of nm) True = Inr (su, fs)"
      "result (if su then 0 else 1) (s1\<lparr>fileSystem := fs\<rparr>) = Inr (c, s')" by (auto simp: res_simps)
    then show ?thesis using fs_result_isolated [OF f(2) o ChangeDir_keep [OF f(1) caller_nachos [OF o]]] k by (blast intro: isolated_trans)
  qed
qed

lemma sys_open_isolated:
  assumes "sys_open env fault_code s = Inr (c, s')" "sys_ok s"
  shows "isolated w s s'"
proof (cases "registers s ! 4 = 0")
  case True
  then show ?thesis using assms result_isolated [of "-1" s c s'] by (simp add: sys_open_def ReadRegister_def NUM_TOTAL_REGS_def)
next
  case False
  with assms(1) [unfolded sys_open_def Let_def] obtain ok nm s1 where n: "ReadStringFromUser fault_code (rawWord env) (registers s ! 4) (FILE_NAME_MAX_LEN + 1) s = Inr (ok, nm, s1)"
    and r: "(if \<not> ok then result (-1) s1
      else rbind (FileSystem_Open (hostOpen env) (caller_fs s1) (name_of nm) False) (\<lambda>(fo, fs).
        if fo = None then result (-1) (s1\<lparr>fileSystem := fs\<rparr>)
        else rbind (Table_Add (my_files (s1\<lparr>fileSystem := fs\<rparr>)) fo) (\<lambda>(fd, tbl).
          result (if fd < 0 then -1 else of_int fd) (set_files tbl (s1\<lparr>fileSystem := fs\<rparr>))))) = Inr (c, s')"
    by (auto simp: ReadRegister_def NUM_TOTAL_REGS_def res_simps)
  have k: "isolated w s s1" by (rule name_isolated [OF n assms(2)])
  note o = isolated_ok [OF k]
  show ?thesis
  proof (cases ok)
    case False
    then show ?thesis using r result_isolated [OF _ o] isolated_trans [OF k] by simp
  next
    case True
    with r obtain fo fs where f: "Open_nachos (caller_fs s1) (name_of nm) = Inr (fo, fs)"
      and e: "(if fo = None then result (-1) (s1\<lparr>fileSystem := fs\<rparr>)
        else rbind (Table_Add (my_files (s1\<lparr>fileSystem := fs\<rparr>)) fo) (\<lambda>(fd, tbl).
          result (if fd < 0 then -1 else of_int fd) (set_files tbl (s1\<lparr>fileSystem := fs\<rparr>)))) = Inr (c, s')" by (auto simp: res_simps FileSystem_Open_def)
    note fk = Open_nachos_keep [OF f caller_nachos [OF o]]
    have k2: "isolated w s (s1\<lparr>fileSystem := fs\<rparr>)" using k file_system_isolated [OF o fk(1)] by (rule isolated_trans)
    note o2 = isolated_ok [OF k2]
    show ?thesis
    proof (cases "fo = None")
      case True
      then show ?thesis using e result_isolated [OF _ o2] isolated_trans [OF k2] by simp
    next
      case False
      with e obtain fd tbl x where t: "Table_Add (my_files s1) fo = Inr (fd, tbl)" "result x (set_files tbl (s1\<lparr>fileSystem := fs\<rparr>)) = Inr (c, s')"
        by (auto simp: res_simps)
      have "files_nachos tbl" by (rule Table_Add_nachos [OF t(1)]) (use o fk(2) in \<open>auto simp: sys_ok_def\<close>)
      then have k3: "isolated w s (set_files tbl (s1\<lparr>fileSystem := fs\<rparr>))" using set_files_isolated [OF o2] k2 by (blast intro: isolated_trans)
      then show ?thesis using result_isolated [OF t(2) isolated_ok [OF k3]] isolated_trans by blast
    qed
  qed
qed

lemma sys_close_isolated:
  assumes "sys_close s = Inr (c, s')" "sys_ok s"
  shows "isolated w s s'"
proof -
  let ?fid = "sint (registers s ! 4)"
  from assms(1) consider x where "result x s = Inr (c, s')"
    | g w' r tbl where "OpenFile_Close (fsw (caller_fs s)) g = Inr w'" "Table_Remove (my_files s) ?fid = Inr (r, tbl)"
      "result 0 (set_files tbl (s\<lparr>fileSystem := (caller_fs s)\<lparr>fsw := w'\<rparr>\<rparr>)) = Inr (c, s')"
    by (auto simp: sys_close_def ReadRegister_def NUM_TOTAL_REGS_def res_simps Let_def split: if_splits option.splits) 
  then show ?thesis
  proof cases
    case 1
    then show ?thesis using result_isolated assms(2) by blast
  next
    case 2
    have "fs_keep (caller_fs s) ((caller_fs s)\<lparr>fsw := w'\<rparr>)"
      using OpenFile_Close_wkeep [OF 2(1)] caller_nachos [OF assms(2)] by (auto simp: fs_keep_def nachos_def wkeep_def)
    from file_system_isolated [OF assms(2) this] have k: "isolated w s (s\<lparr>fileSystem := (caller_fs s)\<lparr>fsw := w'\<rparr>\<rparr>)" .
    have "files_nachos tbl" by (rule Table_Remove_nachos [OF 2(2)]) (use assms(2) in \<open>auto simp: sys_ok_def\<close>)
    from isolated_trans [OF k set_files_isolated [OF isolated_ok [OF k] this]]
    have k2: "isolated w s (set_files tbl (s\<lparr>fileSystem := (caller_fs s)\<lparr>fsw := w'\<rparr>\<rparr>))" .
    from isolated_trans [OF k2 conjunct1 [OF result_isolated [OF 2(3) isolated_ok [OF k2]]]] show ?thesis .
  qed
qed

text \<open>The system calls that write to the memory of the caller end with a copy to it.\<close>

lemma copy_isolated:
  assumes "WriteBufferToUser fault_code raw bs a n s = Inr s1" "sys_ok s"
  shows "isolated True s s1"
  by (rule calm_isolated [OF WriteBufferToUser_calm [OF sys_ready [OF assms(2)] assms(1)] assms(2)])

lemma sys_read_isolated:
  assumes "sys_read env fault_code s = Inr (c, s')" "sys_ok s"
  shows "isolated True s s'"
proof -
  let ?a = "registers s ! 4" and ?n = "unat (registers s ! 5)" and ?fid = "sint (registers s ! 6)"
  from assms(1) consider x where "result x s = Inr (c, s')"
    | bs y s2 x where "WriteBufferToUser fault_code (rawByte env) bs ?a ?n (s\<lparr>consoleIn := y\<rparr>) = Inr s2" "result x s2 = Inr (c, s')"
    | g n out g1 x where "Table_Get (my_files s) ?fid = Inr (Some g)" "OpenFile_Read (fsw (caller_fs s)) g n False = Inr (out, g1)"
        "result x (put_file ?fid g1 s) = Inr (c, s')"
    | g n out g1 bs s2 x where "Table_Get (my_files s) ?fid = Inr (Some g)" "OpenFile_Read (fsw (caller_fs s)) g n False = Inr (out, g1)"
        "WriteBufferToUser fault_code (rawByte env) bs ?a ?n (put_file ?fid g1 s) = Inr s2" "result x s2 = Inr (c, s')"
    by (auto simp: sys_read_def read_console_def ReadRegister_def NUM_TOTAL_REGS_def res_simps Let_def split: if_splits option.splits)
  then show ?thesis
  proof cases
    case 1
    then show ?thesis using result_isolated assms(2) by blast
  next
    case 2
    have k: "isolated True s (s\<lparr>consoleIn := y\<rparr>)" by (rule console_isolated(1) [OF assms(2)])
    from isolated_trans [OF k copy_isolated [OF 2(1) isolated_ok [OF k]]] have k2: "isolated True s s2" .
    from isolated_trans [OF k2 conjunct1 [OF result_isolated [OF 2(2) isolated_ok [OF k2]]]] show ?thesis .
  next
    case 3
    have "\<not> isBin g1" using Table_Get_nachos [OF 3(1)] OpenFile_Read_bin [OF 3(2)] assms(2) by (auto simp: sys_ok_def)
    from put_file_isolated [OF assms(2) this] have k: "isolated True s (put_file ?fid g1 s)" .
    from isolated_trans [OF k conjunct1 [OF result_isolated [OF 3(3) isolated_ok [OF k]]]] show ?thesis .
  next
    case 4
    have "\<not> isBin g1" using Table_Get_nachos [OF 4(1)] OpenFile_Read_bin [OF 4(2)] assms(2) by (auto simp: sys_ok_def)
    from put_file_isolated [OF assms(2) this] have k: "isolated True s (put_file ?fid g1 s)" .
    from isolated_trans [OF k copy_isolated [OF 4(3) isolated_ok [OF k]]] have k2: "isolated True s s2" .
    from isolated_trans [OF k2 conjunct1 [OF result_isolated [OF 4(4) isolated_ok [OF k2]]]] show ?thesis .
  qed
qed

lemma sys_lsdir_isolated:
  assumes "sys_lsdir env fault_code s = Inr (c, s')" "sys_ok s"
  shows "isolated True s s'"
proof -
  from assms(1) obtain out fs where l: "FileSystem_Ls (caller_fs s) = Inr (out, fs)"
    and r: "s' = s\<lparr>fileSystem := fs\<rparr> \<or> (\<exists>bs a n. WriteBufferToUser fault_code (rawByte env) bs a n (s\<lparr>fileSystem := fs\<rparr>) = Inr s')"
    by (auto simp: sys_lsdir_def ReadRegister_def NUM_TOTAL_REGS_def res_simps Let_def split: if_splits) blast
  have k: "isolated True s (s\<lparr>fileSystem := fs\<rparr>)" by (rule file_system_isolated [OF assms(2) FileSystem_Ls_keep [OF l caller_nachos [OF assms(2)]]])
  from r show ?thesis
  proof
    assume "\<exists>bs a n. WriteBufferToUser fault_code (rawByte env) bs a n (s\<lparr>fileSystem := fs\<rparr>) = Inr s'"
    then show ?thesis using copy_isolated [OF _ isolated_ok [OF k]] isolated_trans [OF k] by blast
  qed (use k in simp)
qed

lemma sys_write_isolated:
  assumes "sys_write env fault_code s = Inr (c, s')" "sys_ok s"
  shows "isolated w s s'"
proof (cases "transfer_args_ok (registers s ! 4) (registers s ! 5) (registers s ! 6)")
  case False
  then show ?thesis using assms result_isolated [of 0 s c s'] by (simp add: sys_write_def ReadRegister_def NUM_TOTAL_REGS_def)
next
  case True
  let ?fid = "sint (registers s ! 6)"
  from assms(1) True obtain buf s1 where b: "ReadBufferFromUser fault_code (rawWord env 0) (registers s ! 4) (unat (registers s ! 5)) s = Inr (buf, s1)"
    and r: "(if ?fid = CONSOLE_OUTPUT
         then result (registers s ! 5) (s1\<lparr>consoleOut := consoleOut s1 @ take (unat (registers s ! 5)) buf\<rparr>)
         else rbind (Table_HasKey (my_files s1) ?fid) (\<lambda>b.
              if \<not> b then result 0 s1
              else rbind (Table_Get (my_files s1) ?fid) (\<lambda>f.
                   case f of None \<Rightarrow> Inl NullDeref | Some g \<Rightarrow>
                   rbind (OpenFile_Write (fsw (caller_fs s1)) g buf (registers s ! 5) False) (\<lambda>(written, g1, w).
                     result (if 0 < sint written then written else 0)
                       (put_file ?fid g1 (s1\<lparr>fileSystem := (caller_fs s1)\<lparr>fsw := w\<rparr>\<rparr>)))))) = Inr (c, s')"
    unfolding sys_write_def Let_def by (auto simp: ReadRegister_def NUM_TOTAL_REGS_def res_simps)
  have k: "isolated w s s1" by (rule calm_isolated [OF ReadBufferFromUser_calm [OF sys_ready [OF assms(2)] b] assms(2)])
  note o = isolated_ok [OF k]
  from r consider x where "result x s1 = Inr (c, s')" | x y where "result x (s1\<lparr>consoleOut := y\<rparr>) = Inr (c, s')"
    | g n wr g1 w' x where "Table_Get (my_files s1) ?fid = Inr (Some g)" "OpenFile_Write (fsw (caller_fs s1)) g buf n False = Inr (wr, g1, w')"
        "result x (put_file ?fid g1 (s1\<lparr>fileSystem := (caller_fs s1)\<lparr>fsw := w'\<rparr>\<rparr>)) = Inr (c, s')" by (auto simp: res_simps split: if_splits option.splits)
  then show ?thesis
  proof cases
    case 1
    then show ?thesis using result_isolated [OF _ o] isolated_trans [OF k] by blast
  next
    case 2
    have k2: "isolated w s (s1\<lparr>consoleOut := y\<rparr>)" by (rule isolated_trans [OF k console_isolated(2) [OF o]])
    from isolated_trans [OF k2 conjunct1 [OF result_isolated [OF 2 isolated_ok [OF k2]]]] show ?thesis .
  next
    case 3
    have "\<not> isBin g" using Table_Get_nachos [OF 3(1)] o by (auto simp: sys_ok_def)
    note wk = OpenFile_Write_wkeep [OF 3(2) this]
    have n: "nachos (caller_fs s1)" by (rule caller_nachos [OF o])
    then have "fs_keep (caller_fs s1) ((caller_fs s1)\<lparr>fsw := w'\<rparr>)" using wk(1) by (auto simp: fs_keep_def nachos_def wkeep_def)
    from isolated_trans [OF k file_system_isolated [OF o this]] have k2: "isolated w s (s1\<lparr>fileSystem := (caller_fs s1)\<lparr>fsw := w'\<rparr>\<rparr>)" .
    have "\<not> isBin g1" using wk(2) n by (simp add: nachos_def)
    from isolated_trans [OF k2 put_file_isolated [OF isolated_ok [OF k2] this]]
    have k3: "isolated w s (put_file ?fid g1 (s1\<lparr>fileSystem := (caller_fs s1)\<lparr>fsw := w'\<rparr>\<rparr>))" .
    from isolated_trans [OF k3 conjunct1 [OF result_isolated [OF 3(3) isolated_ok [OF k3]]]] show ?thesis .
  qed
qed

lemma sys_exit_isolated: "sys_exit s = Inr (c, s') \<Longrightarrow> sys_ok s \<Longrightarrow> isolated w s s'"
  by (auto simp: sys_exit_def res_simps isolated_refl)

lemma sys_join_isolated: "sys_join s = Inr (c, s') \<Longrightarrow> sys_ok s \<Longrightarrow> isolated w s s'"
  by (auto simp: sys_join_def res_simps isolated_refl dest: result_isolated split: if_splits)

lemma IncrementPC_isolated:
  assumes "IncrementPC s = Inr s'" "sys_ok s"
  shows "isolated w s s'"
proof -
  from assms(1) obtain pc npc s1 s2 where r: "WriteRegister s PREV_PC_REG pc = Inr s1" "WriteRegister s1 PC_REG npc = Inr s2"
    "WriteRegister s2 NEXT_PC_REG (npc + 4) = Inr s'" by (auto simp: IncrementPC_def res_simps)
  have k1: "isolated w s s1" by (rule WriteRegister_isolated [OF r(1) assms(2)]) (simp add: PREV_PC_REG_def LOAD_REG_def)
  have k2: "isolated w s1 s2" by (rule WriteRegister_isolated [OF r(2) isolated_ok [OF k1]]) (simp add: PC_REG_def LOAD_REG_def)
  have k3: "isolated w s2 s'" by (rule WriteRegister_isolated [OF r(3) isolated_ok [OF k2]]) (simp add: NEXT_PC_REG_def LOAD_REG_def)
  from isolated_trans [OF isolated_trans [OF k1 k2] k3] show ?thesis .
qed

text \<open>The system calls that write to the memory of the caller, and every other one but \<open>Exec\<close>.\<close>

definition writes_memory :: "u32 \<Rightarrow> bool" where
  "writes_memory scid \<longleftrightarrow> scid = SC_READ \<or> scid = SC_LSDIR"

lemma isolated_mono: "isolated False s s' \<Longrightarrow> isolated w s s'"
  by (simp add: isolated_def)

lemma syscall_isolated:
  assumes "syscall env fault_code scid s = Inr (c, s')" "sys_ok s" "scid \<noteq> SC_EXEC"
  shows "isolated (writes_memory scid) s s'"
proof (cases "writes_memory scid")
  case True
  then show ?thesis using assms sys_read_isolated sys_lsdir_isolated
    by (auto simp: syscall_def writes_memory_def SC_defs)
next
  case False
  then show ?thesis using assms
    by (auto simp: syscall_def writes_memory_def split: if_splits
        intro: sys_exit_isolated sys_join_isolated sys_create_isolated sys_remove_isolated sys_open_isolated
          sys_close_isolated sys_write_isolated sys_cd_isolated)
qed

lemma SyscallHandler_isolated:
  assumes "SyscallHandler env fault_code s = Inr (c, s')" "sys_ok s" "registers s ! 2 \<noteq> SC_EXEC"
  shows "isolated (writes_memory (registers s ! 2)) s s'"
proof -
  from assms(1) obtain c1 s1 where r: "syscall env fault_code (registers s ! 2) s = Inr (c1, s1)"
    and e: "(case c1 of Some (FinishThread _) \<Rightarrow> Inr (c1, s1) | Some (JoinThread _) \<Rightarrow> Inr (c1, s1)
       | _ \<Rightarrow> rbind (IncrementPC s1) (\<lambda>s2. Inr (c1, s2))) = Inr (c, s')"
    by (auto simp: SyscallHandler_def ReadRegister_def NUM_TOTAL_REGS_def res_simps)
  have f: "s' = s1 \<or> IncrementPC s1 = Inr s'"
    using e by (cases c1) (auto simp: res_simps split: thread_call.splits)
  note k = syscall_isolated [OF r assms(2,3)]
  from f k IncrementPC_isolated [OF _ isolated_ok [OF k]] show ?thesis by (blast intro: isolated_trans)
qed

end
