(* ===== verification/Mounted.thy ===== *)
theory Mounted
  imports File_System
begin

text \<open>
  A mounted file system with a well-formed current directory, and what creating, opening and
  removing files do to it: the directory changes as a map, the free map as a set, and no other
  sector changes.
\<close>

section \<open>A mounted file system\<close>

definition mounted :: "FileSystem \<Rightarrow> Directory \<Rightarrow> RawFileHeader \<Rightarrow> bool" where
  "mounted fs d h \<longleftrightarrow>
     stored_file (fsw fs) (sector (directoryFile fs)) h \<and> nextFileHeader h = 0
     \<and> \<not> isBin (directoryFile fs)
     \<and> writeLock (openFilesTable (fsw fs) (sector (directoryFile fs))) = Some None
     \<and> dir_ok d \<and> length (table d) = tableSize d \<and> directorySize fs = tableSize d
     \<and> 0 < tableSize d \<and> tableSize d \<le> 116
     \<and> file_content (store (fsw fs)) h = table_bytes (table d)"

abbreviation name_key :: "byte list \<Rightarrow> byte list" where
  "name_key nm \<equiv> take FILE_NAME_MAX_LEN nm"

definition free_sectors :: "world \<Rightarrow> nat set" where
  "free_sectors w = {..<NUM_SECTORS} - marked (disk_map w)"

lemma mounted_lock [simp]: "mounted (fs\<lparr>filesysCreateLock := l\<rparr>) d h = mounted fs d h"
  by (simp add: mounted_def)

lemma mounted_size:
  assumes "mounted fs d h"
  shows "unat (numBytes h) = 32 * tableSize d"
proof -
  have "file_ok (store (fsw fs)) h" using assms by (simp add: mounted_def stored_file_def)
  then have "unat (numBytes h) = length (file_content (store (fsw fs)) h)" by simp
  also have "\<dots> = 32 * tableSize d"
    using assms length_table_bytes [of "table d"] by (simp add: mounted_def dir_ok_def)
  finally show ?thesis .
qed

text \<open>Loading the current directory gives what is on disk.\<close>

lemma load_dir_ok:
  assumes "mounted fs d h"
  shows "\<exists>f'. load_dir fs = Inr (d, fs\<lparr>directoryFile := f'\<rparr>) \<and> sector f' = sector (directoryFile fs)
    \<and> mounted (fs\<lparr>directoryFile := f'\<rparr>) d h"
proof -
  let ?w = "fsw fs" and ?f = "directoryFile fs"
  let ?n = "of_nat (tableSize d * DIR_ENTRY_SIZE) :: u32"
  have m: "stored_file ?w (sector ?f) h" "nextFileHeader h = 0" "\<not> isBin ?f" "dir_ok d"
    "length (table d) = tableSize d" "directorySize fs = tableSize d" "0 < tableSize d" "tableSize d \<le> 116"
    "file_content (store ?w) h = table_bytes (table d)" using assms by (auto simp: mounted_def)
  have fh: "FileHeader_FetchFrom (store ?w) (sector ?f) = Inr h" "file_ok (store ?w) h"
    using m(1) by (simp_all add: stored_file_def)
  have eok: "\<forall>e \<in> set (table d). entry_ok e" using m(4) by (simp add: dir_ok_def)
  have lb: "length (table_bytes (table d)) = tableSize d * 32" using length_table_bytes [OF eok] m(5) by simp
  have n: "unat ?n = tableSize d * 32"
    using m(8) by (subst unat_of_nat_small) (simp_all add: DIR_ENTRY_SIZE_def)
  from Directory_new_ok [OF m(7), of "junk ?w"] obtain d0 where
    d0: "Directory_new (junk ?w) (tableSize d) = Inr d0" "dir_ok d0" "tableSize d0 = tableSize d"
      "length (table d0) = tableSize d" by auto
  let ?g = "?f\<lparr>hdr := h, seekPosition := 0\<rparr>"
  have "OpenFile_Read ?w ?g ?n False = (let bs = slice 0 (unat ?n) (file_content (store ?w) h)
      in Inr (bs, ?g\<lparr>seekPosition := of_nat (length bs)\<rparr>))"
    using OpenFile_Read_ok [of ?g ?w ?n] fh(2) m(2,3,7,8) n by (simp add: disk_file_ok_def)
  then obtain g where rd: "OpenFile_Read ?w ?f ?n True = Inr (table_bytes (table d), g)" "sector g = sector ?f"
    "isBin g = isBin ?f"
    using OpenFile_Read_directory [OF m(3) fh(1), of ?n] m(9) lb n by (auto simp: Let_def)
  have "length (table_bytes (table d0)) = length (table_bytes (table d))"
    using length_table_bytes [of "table d0"] d0 lb by (simp add: dir_ok_def)
  then have "bytes_table (length (table d0)) (overlay (table_bytes (table d0)) 0 (table_bytes (table d))) = table d"
    using bytes_table_bytes [OF eok, of "tableSize d" "[]"] d0(4) m(5) by simp
  then have "d0\<lparr>table := bytes_table (length (table d0))
      (overlay (table_bytes (table d0)) 0 (table_bytes (table d)))\<rparr> = d"
    using d0(3) by (cases d0; cases d) simp
  then have "load_dir fs = Inr (d, fs\<lparr>directoryFile := g\<rparr>)"
    using rd(1) d0(1,3) m(6) by (simp add: load_dir_def Directory_FetchFrom_def Let_def)
  with rd assms show ?thesis by (auto simp: mounted_def)
qed

section \<open>Steps on the stored file\<close>

lemma same_content: "(\<And>s. s \<in> set (header_sectors h) \<Longrightarrow> c s = c' s) \<Longrightarrow> file_content c h = file_content c' h"
  unfolding file_content_def sector_bytes_def by (metis map_eq_conv)

text \<open>Writing a free sector disturbs no file.\<close>

lemma stored_file_free:
  assumes "stored_file w cs h" "s \<notin> marked (disk_map w)" "length bs = SECTOR_SIZE"
  defines "w' \<equiv> w\<lparr>store := (store w)(s := bs)\<rparr>"
  shows "stored_file w' cs h" "disk_map w' = disk_map w" "file_content (store w') h = file_content (store w) h"
proof -
  have sf: "map_file_ok w" "FileHeader_FetchFrom (store w) cs = Inr h" "file_ok (store w) h"
    "insert cs (set (header_sectors h) \<union> map_sectors w) \<subseteq> marked (disk_map w)"
    using assms(1) by (auto simp: stored_file_def)
  have ne: "s \<noteq> cs" "s \<notin> set (header_sectors h)" "s \<notin> map_sectors w" using sf(4) assms(2) by auto
  note ms = map_store_other [OF sf(1) ne(3) assms(3), folded w'_def]
  show "disk_map w' = disk_map w" by (rule ms(2))
  show "file_content (store w') h = file_content (store w) h"
    using ne(2) by (intro same_content) (auto simp: w'_def)
  have "FileHeader_FetchFrom (store w') cs = Inr h"
    using sf(2) ne(1) by (simp add: w'_def FileHeader_FetchFrom_def ReadSector_def res_simps)
  moreover have "file_ok (store w') h"
    using sf(3) assms(3) by (auto simp: w'_def file_ok_def sectors_ok_def)
  moreover have "map_sectors w' = map_sectors w" by (simp add: w'_def)
  ultimately show "stored_file w' cs h" using assms(1) ms by (simp add: stored_file_def)
qed

text \<open>Writing a new free map keeps a file whose sectors it still marks.\<close>

lemma stored_file_map:
  assumes "stored_file w cs h" "numBits bm = NUM_SECTORS" "numWords bm = 32" "bitmap_ok bm"
    and "insert cs (set (header_sectors h) \<union> map_sectors w) \<subseteq> marked bm"
  shows "\<exists>c. Bitmap_WriteBack w (freeMapFile w) bm = Inr (w\<lparr>store := c\<rparr>) \<and> stored_file (w\<lparr>store := c\<rparr>) cs h
    \<and> disk_map (w\<lparr>store := c\<rparr>) = bm \<and> file_content c h = file_content (store w) h
    \<and> (\<forall>s. s \<notin> map_sectors w \<longrightarrow> c s = store w s)"
proof -
  have sf: "map_file_ok w" "FileHeader_FetchFrom (store w) cs = Inr h" "file_ok (store w) h"
    "cs \<notin> map_sectors w" "set (header_sectors h) \<inter> map_sectors w = {}"
    using assms(1) by (auto simp: stored_file_def)
  have "length (bits bm) = 32" using assms(3,4) by (simp add: bitmap_ok_def)
  from Bitmap_WriteBack_disk_map [OF sf(1) assms(2,3) this] obtain c where
    c: "Bitmap_WriteBack w (freeMapFile w) bm = Inr (w\<lparr>store := c\<rparr>)" "map_file_ok (w\<lparr>store := c\<rparr>)"
      "disk_map (w\<lparr>store := c\<rparr>) = bm" "\<forall>s. s \<notin> map_sectors w \<longrightarrow> c s = store w s"
    unfolding map_sectors_def by auto
  have "file_content c h = file_content (store w) h"
    using c(4) sf(5) by (intro same_content) auto
  moreover have "FileHeader_FetchFrom c cs = Inr h"
    using sf(2,4) c(4) by (simp add: FileHeader_FetchFrom_def ReadSector_def res_simps)
  moreover have "file_ok c h"
    using sf(3) c(2) by (simp add: file_ok_def map_file_ok_def disk_file_ok_def)
  ultimately show ?thesis using c assms(1,5) by (auto simp: stored_file_def)
qed

lemma overlay_cover: "length C \<le> length d \<Longrightarrow> overlay C 0 d = d"
  by (simp add: overlay_def)

text \<open>Saving a changed directory, which may have grown by an entry.\<close>

lemma save_dir_ok:
  assumes sf: "stored_file (fsw fs) (sector (directoryFile fs)) h" "nextFileHeader h = 0"
      "\<not> isBin (directoryFile fs)" "writeLock (openFilesTable (fsw fs) (sector (directoryFile fs))) = Some None"
    and d: "dir_ok d" "length (table d) = tableSize d" "0 < tableSize d" "tableSize d \<le> 116"
      "directorySize fs = tableSize d"
    and old: "length (file_content (store (fsw fs)) h) \<le> 32 * tableSize d"
    and room: "needed_sectors h (32 * tableSize d) \<le> card (free_sectors (fsw fs))"
  shows "\<exists>fs' h'. save_dir fs d = Inr fs' \<and> mounted fs' d h'
    \<and> fs' = fs\<lparr>fsw := fsw fs', directoryFile := directoryFile fs'\<rparr>
    \<and> sector (directoryFile fs') = sector (directoryFile fs)
    \<and> fsw fs' = (fsw fs)\<lparr>store := store (fsw fs')\<rparr>
    \<and> marked (disk_map (fsw fs')) = marked (disk_map (fsw fs)) \<union> set (header_sectors h')
    \<and> set (header_sectors h') \<inter> marked (disk_map (fsw fs)) = set (header_sectors h)
    \<and> (\<forall>s. s \<notin> insert (sector (directoryFile fs)) (map_sectors (fsw fs) \<union> set (header_sectors h'))
        \<longrightarrow> store (fsw fs') s = store (fsw fs) s)"
proof -
  let ?w = "fsw fs" and ?f = "directoryFile fs"
  let ?n = "of_nat (tableSize d * DIR_ENTRY_SIZE) :: u32"
  let ?g = "?f\<lparr>seekPosition := 0, currentSector := sector ?f\<rparr>"
  let ?bs = "table_bytes (table d)"
  have lb: "length ?bs = 32 * tableSize d"
    using length_table_bytes [of "table d"] d(1,2) by (simp add: dir_ok_def)
  have n: "unat ?n = 32 * tableSize d"
    using d(4) by (subst unat_of_nat_small) (simp_all add: DIR_ENTRY_SIZE_def)
  from OpenFile_Write_ok [of ?w ?g h ?n ?bs] sf n lb d(3,4) room obtain h' w' where
    w': "OpenFile_Write ?w ?g ?bs ?n False = Inr (?n, ?g\<lparr>hdr := h', seekPosition := ?n\<rparr>, w')"
      "stored_file w' (sector ?f) h'" "nextFileHeader h' = 0" "w' = ?w\<lparr>store := store w'\<rparr>"
      "file_content (store w') h' = overlay (file_content (store ?w) h) 0 ?bs"
      "marked (disk_map w') = marked (disk_map ?w) \<union> set (header_sectors h')"
      "set (header_sectors h') \<inter> marked (disk_map ?w) = set (header_sectors h)"
      "\<forall>s. s \<notin> insert (sector ?f) (map_sectors ?w \<union> set (header_sectors h')) \<longrightarrow> store w' s = store ?w s"
    by (auto simp: NUM_DIRECT_def SECTOR_SIZE_def free_sectors_def)
  let ?f' = "?g\<lparr>hdr := h', seekPosition := ?n\<rparr>"
  let ?fs = "fs\<lparr>fsw := w', directoryFile := ?f'\<rparr>"
  have sv: "save_dir fs d = Inr ?fs"
    using w'(1) OpenFile_Write_directory [OF sf(3)]
    by (simp add: save_dir_def Directory_WriteBack_def Let_def)
  have tb: "openFilesTable w' = openFilesTable ?w" using arg_cong [OF w'(4), of openFilesTable] by simp
  have "file_content (store w') h' = ?bs" unfolding w'(5) using old lb by (simp add: overlay_cover)
  then have "mounted ?fs d h'" using w'(2,3) sf(3,4) d tb by (simp add: mounted_def)
  with sv w'(4,6-8) show ?thesis by (intro exI [of _ ?fs] exI [of _ h']) simp
qed

section \<open>Creating a file\<close>

lemma new_header_facts:
  "length (dataSectors (new_header jk)) = NUM_DIRECT" "numBytes (new_header jk) = 0" "numSectors (new_header jk) = 0"
  "nextFileHeader (new_header jk) = 0" "header_sectors (new_header jk) = []" "header_ok (new_header jk)"
  by (simp_all add: new_header_def header_sectors_def header_ok_def)

lemma Bitmap_Find_free:
  assumes "free_sectors w \<noteq> {}"
  shows "\<exists>s bm1. Bitmap_Find (disk_map w) = Inr (int s, bm1) \<and> s \<in> free_sectors w \<and> bitmap_ok bm1
    \<and> numBits bm1 = NUM_SECTORS \<and> numWords bm1 = 32 \<and> marked bm1 = insert s (marked (disk_map w))"
proof -
  have "marked (disk_map w) \<noteq> {..<numBits (disk_map w)}" using assms by (auto simp: free_sectors_def)
  from bm.find_free [OF disk_map_ok(1) this] obtain s bm1 where
    s: "Bitmap_Find (disk_map w) = Inr (int s, bm1)" "s < NUM_SECTORS" "s \<notin> marked (disk_map w)" "bitmap_ok bm1"
      "numBits bm1 = NUM_SECTORS" "marked bm1 = insert s (marked (disk_map w))" by auto
  moreover have "numWords bm1 = 32" using Bitmap_Find_numWords [OF s(1)] by simp
  ultimately show ?thesis by (auto simp: free_sectors_def)
qed

lemma card_free_insert:
  assumes "s \<in> free_sectors w" "marked (disk_map w') = insert s (marked (disk_map w))"
  shows "card (free_sectors w') = card (free_sectors w) - 1"
proof -
  have "free_sectors w' = free_sectors w - {s}" using assms(2) by (auto simp: free_sectors_def)
  with assms(1) show ?thesis by simp
qed

text \<open>Unused entries are not marked as directories; \<open>Directory\<close> and \<open>Remove\<close> see to it.\<close>

definition plain_free :: "Directory \<Rightarrow> bool" where
  "plain_free d \<longleftrightarrow> (\<forall>e \<in> set (entries d). \<not> inUse e \<longrightarrow> \<not> isDirectory e)"

lemma Directory_Add_plain:
  assumes "dir_ok d" "is_cstring nm" "dir_map d (name_key nm) = None" "plain_free d"
    and "\<exists>e \<in> set (entries d). \<not> inUse e" "Directory_Add jk d nm s False = (True, d', sz)"
  shows "\<not> FindDir d' nm"
proof
  assume "FindDir d' nm"
  then obtain e where e: "e \<in> set (entries d')" "entry_matches nm e" "isDirectory e"
    by (auto simp: FindDir_def list_ex_iff)
  from assms(5) obtain i where i: "first_free 0 (entries d) = Some i"
    using first_free_cases [of 0 "entries d"] by fastforce
  then have i': "i < length (entries d)" "\<not> inUse (entries d ! i)"
    using first_free_cases [of 0 "entries d"] by auto
  have le: "entries d ! i = table d ! i" using i'(1) assms(1) by (auto simp: entries_def dir_ok_def)
  have "FindIndex d nm = -1" using FindIndex_map [OF assms(2), of d] assms(3) by (auto simp: dir_map_None)
  then have "entries d' = (entries d)[i := fill_entry nm s False (entries d ! i)]"
    using assms(6) i le by (auto simp: Directory_Add_def entries_def take_update_swap)
  with e(1) have "e = fill_entry nm s False (entries d ! i) \<or> e \<in> set (entries d)"
    using set_update_subset_insert by (metis insertE subsetD)
  then show False
  proof
    assume "e = fill_entry nm s False (entries d ! i)"
    with e(3) assms(4) i' show False by (simp add: fill_entry_def plain_free_def)
  next
    assume "e \<in> set (entries d)"
    with e(2) assms(2,3) show False by (auto simp: entry_matches_key dir_map_None)
  qed
qed

text \<open>The state after creating \<open>nm\<close> in the current directory, with its header in sector \<open>s\<close>.\<close>

definition created :: "FileSystem \<Rightarrow> FileSystem \<Rightarrow> Directory \<Rightarrow> RawFileHeader \<Rightarrow> Directory \<Rightarrow> RawFileHeader \<Rightarrow> byte list \<Rightarrow> nat \<Rightarrow> bool" where
  "created fs fs' d h d' h' nm s \<longleftrightarrow> mounted fs' d' h' \<and> sector (directoryFile fs') = sector (directoryFile fs)
     \<and> dir_map d' = (dir_map d)(name_key nm \<mapsto> of_nat s) \<and> s \<in> free_sectors (fsw fs)
     \<and> tableSize d' = (if \<forall>e \<in> set (entries d). inUse e then tableSize d + 1 else tableSize d)
     \<and> (plain_free d \<and> (\<exists>e \<in> set (entries d). \<not> inUse e) \<longrightarrow> \<not> FindDir d' nm)
     \<and> stored_file (fsw fs') s (new_header (junk (fsw fs)))
     \<and> openFilesTable (fsw fs') s = fresh_entry (openFilesTable (fsw fs) s)
     \<and> (\<forall>t. t \<noteq> s \<longrightarrow> openFilesTable (fsw fs') t = openFilesTable (fsw fs) t)
     \<and> marked (disk_map (fsw fs')) = insert s (marked (disk_map (fsw fs)) \<union> set (header_sectors h'))
     \<and> set (header_sectors h') \<inter> marked (disk_map (fsw fs)) = set (header_sectors h) \<and> s \<notin> set (header_sectors h')
     \<and> (\<forall>t. t \<notin> {s, sector (directoryFile fs)} \<union> map_sectors (fsw fs) \<union> set (header_sectors h')
         \<longrightarrow> store (fsw fs') t = store (fsw fs) t)"

lemma Directory_Add_new_shape:
  assumes "Directory_Add jk d nm s isDir = (True, d', sz)" "length (table d) = tableSize d" "dir_ok d"
  shows "length (table d') = tableSize d'"
  using assms length_entries [OF assms(3)]
  by (auto simp: Directory_Add_def Let_def split: if_splits option.splits)

text \<open>Putting a new header into a free sector and marking it.\<close>

lemma place_header_ok:
  assumes sf: "stored_file w cs h" and s: "s \<in> free_sectors w" and nh: "length (dataSectors nh) = NUM_DIRECT"
    and bm1: "bitmap_ok bm1" "numBits bm1 = NUM_SECTORS" "numWords bm1 = 32" "marked bm1 = insert s (marked (disk_map w))"
  shows "\<exists>c0 c. FileHeader_WriteBack (store w) nh s = Inr c0
    \<and> Bitmap_WriteBack (w\<lparr>store := c0\<rparr>) (freeMapFile w) bm1 = Inr (w\<lparr>store := c\<rparr>)
    \<and> stored_file (w\<lparr>store := c\<rparr>) cs h \<and> disk_map (w\<lparr>store := c\<rparr>) = bm1
    \<and> file_content c h = file_content (store w) h \<and> FileHeader_FetchFrom c s = Inr nh
    \<and> (\<forall>t. t \<notin> insert s (map_sectors w) \<longrightarrow> c t = store w t)"
proof -
  let ?c0 = "(store w)(s := header_bytes nh)"
  let ?w1 = "w\<lparr>store := ?c0\<rparr>"
  have ls: "length (header_bytes nh) = SECTOR_SIZE" "bytes_header (header_bytes nh) = nh"
    using length_header_bytes bytes_header_bytes nh by auto
  have sfr: "s \<notin> marked (disk_map w)" "s < NUM_SECTORS" using s by (auto simp: free_sectors_def)
  have wh: "FileHeader_WriteBack (store w) nh s = Inr ?c0"
    using ls(1) sfr(2) by (simp add: FileHeader_WriteBack_def WriteSector_def)
  note w1 = stored_file_free [OF sf sfr(1) ls(1)]
  have sub: "insert cs (set (header_sectors h) \<union> map_sectors ?w1) \<subseteq> marked bm1"
    using w1(1,2) bm1(4) by (auto simp: stored_file_def)
  from stored_file_map [OF w1(1) bm1(2,3,1) sub] obtain c where
    c: "Bitmap_WriteBack ?w1 (freeMapFile ?w1) bm1 = Inr (?w1\<lparr>store := c\<rparr>)" "stored_file (?w1\<lparr>store := c\<rparr>) cs h"
      "disk_map (?w1\<lparr>store := c\<rparr>) = bm1" "file_content c h = file_content (store ?w1) h"
      "\<forall>t. t \<notin> map_sectors ?w1 \<longrightarrow> c t = store ?w1 t" by auto
  have "s \<notin> map_sectors w" using sf sfr(1) by (auto simp: stored_file_def)
  then have "FileHeader_FetchFrom c s = Inr nh"
    using c(5) sfr(2) ls(2) by (simp add: FileHeader_FetchFrom_def ReadSector_def)
  with wh c w1(3) show ?thesis by (intro exI [of _ ?c0] exI [of _ c]) auto
qed

lemma stored_new_file:
  assumes "map_file_ok w" "FileHeader_FetchFrom (store w) s = Inr (new_header jk)"
    and "insert s (map_sectors w) \<subseteq> marked (disk_map w)" "s \<notin> map_sectors w"
  shows "stored_file w s (new_header jk)"
  using assms new_header_facts(5,6) [of jk]
  by (simp add: stored_file_def file_ok_def map_file_ok_def disk_file_ok_def)

lemma create_here_ok:
  assumes m: "mounted fs d h" and nm: "is_cstring nm" "dir_map d (name_key nm) = None"
    and room: "tableSize d < 116" "needed_sectors h (32 * (tableSize d + 1)) < card (free_sectors (fsw fs))"
  shows "\<exists>fs' d' h' s. create_here fs nm = Inr (True, fs') \<and> created fs fs' d h d' h' nm s
    \<and> filesysCreateLock fs' = filesysCreateLock fs \<and> currentThread (fsw fs') = currentThread (fsw fs)"
proof -
  from load_dir_ok [OF m] obtain f1 where
    f1: "load_dir fs = Inr (d, fs\<lparr>directoryFile := f1\<rparr>)" "sector f1 = sector (directoryFile fs)"
      "mounted (fs\<lparr>directoryFile := f1\<rparr>) d h" by auto
  let ?w = "fsw fs" and ?cs = "sector (directoryFile fs)" and ?jk = "junk (fsw fs)"
  let ?nh = "new_header ?jk"
  have md: "stored_file ?w ?cs h" "nextFileHeader h = 0" "\<not> isBin f1" "dir_ok d" "length (table d) = tableSize d"
    "writeLock (openFilesTable ?w ?cs) = Some None"
    "directorySize fs = tableSize d" "file_content (store ?w) h = table_bytes (table d)" "0 < tableSize d"
    using f1(2,3) by (auto simp: mounted_def)
  have nf: "Directory_Find d nm = -1" using Directory_Find_map [OF md(4) nm(1)] nm(2) by simp
  have "free_sectors ?w \<noteq> {}" using room(2) by auto
  from Bitmap_Find_free [OF this] obtain s bm1 where
    s: "Bitmap_Find (disk_map ?w) = Inr (int s, bm1)" "s \<in> free_sectors ?w" "bitmap_ok bm1"
      "numBits bm1 = NUM_SECTORS" "numWords bm1 = 32" "marked bm1 = insert s (marked (disk_map ?w))" by auto
  have fm: "fetch_freeMap ?w = Inr (disk_map ?w)" using fetch_freeMap_disk_map md(1) by (simp add: stored_file_def)
  from Directory_Add_new [OF md(4) nm, of ?jk "int s" False] obtain d' sz where
    d': "Directory_Add ?jk d nm (int s) False = (True, d', sz)" "dir_ok d'"
      "dir_map d' = (dir_map d)(name_key nm \<mapsto> of_int (int s))"
      "sz = (if tableSize d' = tableSize d then None else Some (tableSize d'))"
      "tableSize d' = (if \<forall>e \<in> set (entries d). inUse e then tableSize d + 1 else tableSize d)" by auto
  have ld': "length (table d') = tableSize d'" by (rule Directory_Add_new_shape [OF d'(1) md(5,4)])
  have ts: "tableSize d \<le> tableSize d'" "tableSize d' \<le> tableSize d + 1" using d'(5) by auto
  let ?fs2 = "fs\<lparr>directoryFile := f1, directorySize := tableSize d'\<rparr>"
  have add: "dir_add (fs\<lparr>directoryFile := f1\<rparr>) d nm (int s) False = (True, d', ?fs2)"
    using d'(1,4) md(7) by (simp add: dir_add_def SetDirectorySize_def)
  from place_header_ok [OF md(1) s(2) new_header_facts(1) s(3-6)] obtain c0 c where
    c: "FileHeader_WriteBack (store ?w) ?nh s = Inr c0"
      "Bitmap_WriteBack (?w\<lparr>store := c0\<rparr>) (freeMapFile ?w) bm1 = Inr (?w\<lparr>store := c\<rparr>)"
      "stored_file (?w\<lparr>store := c\<rparr>) ?cs h" "disk_map (?w\<lparr>store := c\<rparr>) = bm1"
      "file_content c h = file_content (store ?w) h" "FileHeader_FetchFrom c s = Inr ?nh"
      "\<forall>t. t \<notin> insert s (map_sectors ?w) \<longrightarrow> c t = store ?w t" by blast
  let ?w2 = "?w\<lparr>store := c\<rparr>" and ?fs3 = "?fs2\<lparr>fsw := ?w\<lparr>store := c\<rparr>\<rparr>"
  have mk2: "marked (disk_map ?w2) = insert s (marked (disk_map ?w))" using c(4) s(6) by simp
  have len: "length (table_bytes (table d)) = 32 * tableSize d"
    using length_table_bytes [of "table d"] md(4,5) by (simp add: dir_ok_def)
  have mono: "needed_sectors h (32 * tableSize d') \<le> needed_sectors h (32 * (tableSize d + 1))"
    using ts(2) by (simp add: needed_sectors_def div_le_mono diff_le_mono)
  have "needed_sectors h (32 * tableSize d') \<le> card (free_sectors ?w2)"
    using mono room(2) card_free_insert [OF s(2) mk2] by linarith
  with save_dir_ok [of ?fs3 h d'] c(3,5) md f1(2) d'(2) ld' ts len room(1) obtain fs4 h' where
    f4: "save_dir ?fs3 d' = Inr fs4" "mounted fs4 d' h'"
      "fs4 = ?fs3\<lparr>fsw := fsw fs4, directoryFile := directoryFile fs4\<rparr>" "sector (directoryFile fs4) = ?cs"
      "fsw fs4 = ?w2\<lparr>store := store (fsw fs4)\<rparr>"
      "marked (disk_map (fsw fs4)) = marked (disk_map ?w2) \<union> set (header_sectors h')"
      "set (header_sectors h') \<inter> marked (disk_map ?w2) = set (header_sectors h)"
      "\<forall>t. t \<notin> insert ?cs (map_sectors ?w \<union> set (header_sectors h')) \<longrightarrow> store (fsw fs4) t = c t"
    by auto
  have f4': "openFilesTable (fsw fs4) = openFilesTable ?w" "map_sectors (fsw fs4) = map_sectors ?w"
    "currentThread (fsw fs4) = currentThread ?w" "filesysCreateLock fs4 = filesysCreateLock fs"
    using arg_cong [OF f4(5), of openFilesTable] arg_cong [OF f4(5), of map_sectors]
      arg_cong [OF f4(5), of currentThread] arg_cong [OF f4(3), of filesysCreateLock] by simp_all
  have sfr: "s \<notin> marked (disk_map ?w)" "s < NUM_SECTORS" using s(2) by (auto simp: free_sectors_def)
  have old: "insert ?cs (set (header_sectors h) \<union> map_sectors ?w) \<subseteq> marked (disk_map ?w)"
    using md(1) by (auto simp: stored_file_def)
  have sn: "s \<noteq> ?cs" "s \<notin> map_sectors ?w" "s \<notin> set (header_sectors h')" "set (header_sectors h') \<inter> marked (disk_map ?w) = set (header_sectors h)"
    using sfr(1) old f4(7) mk2 by auto
  have "FileHeader_FetchFrom (store (fsw fs4)) s = Inr ?nh"
    using c(6) f4(8) sn by (simp add: FileHeader_FetchFrom_def ReadSector_def)
  then have st: "stored_file (fsw fs4) s ?nh"
    using f4(2,6) f4'(2) sn(2) old mk2 by (intro stored_new_file) (auto simp: mounted_def stored_file_def)
  let ?fs5 = "fs4\<lparr>fsw := oft_update (fsw fs4) s fresh_entry\<rparr>"
  have "mounted ?fs5 d' h'" using f4(2,4) sn(1) by (auto simp: mounted_def)
  moreover have "\<forall>t. t \<notin> {s, ?cs} \<union> map_sectors ?w \<union> set (header_sectors h') \<longrightarrow> store (fsw fs4) t = store ?w t"
    using f4(8) c(7) by auto
  ultimately have "created fs ?fs5 d h d' h' nm s"
    using f4(4,6) f4' s(2) st sn(3,4) mk2 d'(3,5) Directory_Add_plain [OF md(4) nm _ _ d'(1)] by (simp add: created_def)
  moreover have "create_here fs nm = Inr (True, ?fs5)"
    using f1(1) nf fm s(1) add c(1,2) f4(1) by (simp add: create_here_def set_store_def)
  ultimately show ?thesis using f4'(3,4) by (intro exI [of _ ?fs5] exI) auto
qed

lemma sint_sector:
  assumes "unat (x :: u32) < NUM_SECTORS"
  shows "sint x = int (unat x)"
proof -
  have "int (unat x) < 1024" using assms unfolding NUM_SECTORS_def by linarith
  then have "uint x < 1024" by simp
  moreover have "- 2147483648 \<le> uint x" using uint_ge_0 [of x] by linarith
  ultimately have "signed_take_bit 31 (uint x) = uint x" by (simp add: signed_take_bit_int_eq_self_iff)
  then show ?thesis by (simp add: sint_uint)
qed

lemma created_lock:
  "created (fs\<lparr>filesysCreateLock := l\<rparr>) (fs'\<lparr>filesysCreateLock := l'\<rparr>) d h d' h' nm s = created fs fs' d h d' h' nm s"
  by (simp add: created_def)

lemma Create_relative:
  assumes "nm = [] \<or> hd nm \<noteq> slash" "filesysCreateLock fs = Some None"
    and "create_here (fs\<lparr>filesysCreateLock := Some (Some (currentThread (fsw fs)))\<rparr>) nm = Inr (b, fs')"
    and "filesysCreateLock fs' = Some (Some (currentThread (fsw fs)))" "currentThread (fsw fs') = currentThread (fsw fs)"
  shows "FileSystem_Create hc fs nm False = Inr (b, fs'\<lparr>filesysCreateLock := Some None\<rparr>)"
proof -
  have "goto_parent g nm = Inr (Some (nm, None), g)" for g using assms(1) by (auto simp: goto_parent_def)
  with assms(2-) show ?thesis
    by (simp add: FileSystem_Create_def createLock_Acquire_def createLock_Release_def lock_acquire_def lock_release_def)
qed

lemma Create_ok:
  assumes m: "mounted fs d h" and nm: "is_cstring nm" "nm = [] \<or> hd nm \<noteq> slash" "dir_map d (name_key nm) = None"
    and lk: "filesysCreateLock fs = Some None"
    and room: "tableSize d < 116" "needed_sectors h (32 * (tableSize d + 1)) < card (free_sectors (fsw fs))"
  shows "\<exists>fs' d' h' s. FileSystem_Create hc fs nm False = Inr (True, fs') \<and> created fs fs' d h d' h' nm s
    \<and> filesysCreateLock fs' = Some None"
proof -
  let ?l = "Some (Some (currentThread (fsw fs)))"
  let ?fs1 = "fs\<lparr>filesysCreateLock := ?l\<rparr>"
  have "mounted ?fs1 d h" using m by simp
  from create_here_ok [OF this nm(1,3) room(1)] room(2) obtain fs2 d' h' s where
    f2: "create_here ?fs1 nm = Inr (True, fs2)" "created ?fs1 fs2 d h d' h' nm s"
      "filesysCreateLock fs2 = ?l" "currentThread (fsw fs2) = currentThread (fsw fs)"
    by auto
  have "created fs (fs2\<lparr>filesysCreateLock := Some None\<rparr>) d h d' h' nm s"
    using f2(2) created_lock [of ?l fs "filesysCreateLock fs2" fs2]
      created_lock [of "filesysCreateLock fs" fs "Some None" fs2] by simp
  with Create_relative [OF nm(2) lk f2(1,3,4)] show ?thesis by fastforce
qed

lemma Create_present:
  assumes m: "mounted fs d h" and nm: "is_cstring nm" "nm = [] \<or> hd nm \<noteq> slash" "dir_map d (name_key nm) = Some s"
    and s: "unat s < NUM_SECTORS" and lk: "filesysCreateLock fs = Some None"
  shows "\<exists>f'. FileSystem_Create hc fs nm False = Inr (False, fs\<lparr>directoryFile := f'\<rparr>)"
proof -
  let ?fs1 = "fs\<lparr>filesysCreateLock := Some (Some (currentThread (fsw fs)))\<rparr>"
  have m1: "mounted ?fs1 d h" using m by simp
  from load_dir_ok [OF m1] obtain f1 where f1: "load_dir ?fs1 = Inr (d, ?fs1\<lparr>directoryFile := f1\<rparr>)" by auto
  have "Directory_Find d nm = sint s" using Directory_Find_map [of d nm] m nm by (simp add: mounted_def)
  moreover have "sint s \<noteq> -1" using sint_sector [OF s] of_nat_0_le_iff [of "unat s"] by linarith
  ultimately have "create_here ?fs1 nm = Inr (False, ?fs1\<lparr>directoryFile := f1\<rparr>)"
    using f1 by (simp add: create_here_def)
  note cr = Create_relative [OF nm(2) lk this]
  have "?fs1\<lparr>directoryFile := f1, filesysCreateLock := Some None\<rparr> = fs\<lparr>directoryFile := f1\<rparr>"
    using lk by (cases fs) simp
  with cr show ?thesis by auto
qed

section \<open>Opening a file\<close>

lemma Open_ok:
  assumes m: "mounted fs d h" and nm: "is_cstring nm" "dir_map d (name_key nm) = Some s"
    and st: "unat s < NUM_SECTORS" "FileHeader_FetchFrom (store (fsw fs)) (unat s) = Inr hf"
    and rm: "\<not> removing (openFilesTable (fsw fs) (unat s))"
  shows "\<exists>f fs' g. Open_nachos fs nm = Inr (Some f, fs') \<and> hdr f = hf \<and> sector f = unat s \<and> currentSector f = unat s
    \<and> seekPosition f = 0 \<and> \<not> isBin f \<and> fsw fs' = oft_update (fsw fs) (unat s) g
    \<and> openCount (openFilesTable (fsw fs') (unat s)) = openCount (openFilesTable (fsw fs) (unat s)) + 1
    \<and> (openCount (openFilesTable (fsw fs) (unat s)) = 0 \<longrightarrow>
        writeLock (openFilesTable (fsw fs') (unat s)) = Some None)"
proof -
  from load_dir_ok [OF m] obtain f1 where
    f1: "load_dir fs = Inr (d, fs\<lparr>directoryFile := f1\<rparr>)" by auto
  have "Directory_Find d nm = sint s"
    using Directory_Find_map [of d nm] m nm by (simp add: mounted_def)
  then have "Directory_Find d nm = int (unat s)" using sint_sector [OF st(1)] by simp
  with f1 st rm show ?thesis
    by (auto simp: Open_nachos_def Let_def OpenFile_new_def oft_update_def)
qed

lemma Open_absent:
  assumes "mounted fs d h" "is_cstring nm" "dir_map d (name_key nm) = None"
  shows "\<exists>fs'. Open_nachos fs nm = Inr (None, fs') \<and> fsw fs' = fsw fs"
proof -
  from load_dir_ok [OF assms(1)] obtain f1 where
    f1: "load_dir fs = Inr (d, fs\<lparr>directoryFile := f1\<rparr>)" by auto
  have "Directory_Find d nm = -1"
    using Directory_Find_map [of d nm] assms by (simp add: mounted_def)
  with f1 show ?thesis by (simp add: Open_nachos_def)
qed

section \<open>Removing a file\<close>

lemma Bitmap_Clear_numWords: "Bitmap_Clear bm i = Inr bm' \<Longrightarrow> numWords bm' = numWords bm"
  by (auto simp: Bitmap_Clear_def Let_def res_simps split: if_splits sum.splits)

lemma Deallocate_loop_numWords: "Deallocate_loop is h bm = Inr bm' \<Longrightarrow> numWords bm' = numWords bm"
  by (induction "is" h bm rule: Deallocate_loop.induct)
    (auto simp: res_simps split: if_splits sum.splits dest: Bitmap_Clear_numWords)

text \<open>A directory that keeps its size keeps its sectors.\<close>

lemma same_sectors:
  assumes "mounted fs d h" "mounted fs' d' h'" "tableSize d' = tableSize d"
    and "set (header_sectors h) \<subseteq> set (header_sectors h')"
  shows "set (header_sectors h') = set (header_sectors h)"
proof -
  have fo: "file_ok (store (fsw fs)) h" "file_ok (store (fsw fs')) h'"
    using assms(1,2) by (auto simp: mounted_def stored_file_def)
  have "unat (numBytes h') = unat (numBytes h)" using mounted_size assms(1-3) by simp
  then have "length (header_sectors h') = length (header_sectors h)"
    using fo by (simp add: file_ok_def length_header_sectors) (simp add: header_ok_def)
  then have "card (set (header_sectors h')) = card (set (header_sectors h))"
    using fo by (simp add: file_ok_def distinct_card)
  then show ?thesis using assms(4) by (metis List.finite_set card_subset_eq)
qed

text \<open>Saving a directory of the same size changes its own sectors and its header only.\<close>

lemma resave_ok:
  assumes m: "mounted fs d h" and d': "dir_ok d'" "length (table d') = tableSize d'" "tableSize d' = tableSize d"
  shows "\<exists>fs' h'. save_dir fs d' = Inr fs' \<and> mounted fs' d' h'
    \<and> fs' = fs\<lparr>fsw := fsw fs', directoryFile := directoryFile fs'\<rparr>
    \<and> sector (directoryFile fs') = sector (directoryFile fs) \<and> fsw fs' = (fsw fs)\<lparr>store := store (fsw fs')\<rparr>
    \<and> marked (disk_map (fsw fs')) = marked (disk_map (fsw fs))
    \<and> (\<forall>s. s \<notin> insert (sector (directoryFile fs)) (map_sectors (fsw fs) \<union> set (header_sectors h))
        \<longrightarrow> store (fsw fs') s = store (fsw fs) s)"
proof -
  have md: "stored_file (fsw fs) (sector (directoryFile fs)) h" "nextFileHeader h = 0" "\<not> isBin (directoryFile fs)"
    "writeLock (openFilesTable (fsw fs) (sector (directoryFile fs))) = Some None"
    "0 < tableSize d'" "tableSize d' \<le> 116" "directorySize fs = tableSize d'"
    using m d'(3) by (auto simp: mounted_def)
  have ok: "header_ok h" "file_ok (store (fsw fs)) h" "set (header_sectors h) \<subseteq> marked (disk_map (fsw fs))"
    using md(1) by (auto simp: stored_file_def file_ok_def)
  have nb: "unat (numBytes h) = 32 * tableSize d'" using mounted_size [OF m] d'(3) by simp
  then have "needed_sectors h (32 * tableSize d') = 0" using ok(1) by (simp add: needed_sectors_def header_ok_def)
  then have room: "needed_sectors h (32 * tableSize d') \<le> card (free_sectors (fsw fs))" by simp
  have old: "length (file_content (store (fsw fs)) h) \<le> 32 * tableSize d'" using nb ok(2) by simp
  from save_dir_ok [OF md(1-4) d'(1,2) md(5-7) old room] obtain fs' h' where
    f: "save_dir fs d' = Inr fs'" "mounted fs' d' h'" "fs' = fs\<lparr>fsw := fsw fs', directoryFile := directoryFile fs'\<rparr>"
      "sector (directoryFile fs') = sector (directoryFile fs)" "fsw fs' = (fsw fs)\<lparr>store := store (fsw fs')\<rparr>"
      "marked (disk_map (fsw fs')) = marked (disk_map (fsw fs)) \<union> set (header_sectors h')"
      "set (header_sectors h') \<inter> marked (disk_map (fsw fs)) = set (header_sectors h)"
      "\<forall>s. s \<notin> insert (sector (directoryFile fs)) (map_sectors (fsw fs) \<union> set (header_sectors h'))
        \<longrightarrow> store (fsw fs') s = store (fsw fs) s" by blast
  have hs: "set (header_sectors h') = set (header_sectors h)" using same_sectors [OF m f(2) d'(3)] f(7) by blast
  have "marked (disk_map (fsw fs')) = marked (disk_map (fsw fs))" unfolding f(6) hs using ok(3) by blast
  with f(1-5,8) hs show ?thesis by metis
qed

lemma Directory_Remove_shape:
  "Directory_Remove d nm = (b, d') \<Longrightarrow> length (table d) = tableSize d \<Longrightarrow> length (table d') = tableSize d'"
  by (auto simp: Directory_Remove_def Let_def split: if_splits)

text \<open>
  The headers of a file that follow the one with next header \<open>next\<close>, with their sectors, as they are on disk.
\<close>

type_synonym placed_header = "nat \<times> RawFileHeader"

fun header_chain :: "sectors \<Rightarrow> u32 \<Rightarrow> placed_header list \<Rightarrow> bool" where
  "header_chain c next [] \<longleftrightarrow> next = 0"
| "header_chain c next ((s, h) # hs) \<longleftrightarrow> next \<noteq> 0 \<and> unat next = s \<and> FileHeader_FetchFrom c s = Inr h \<and> file_ok c h
     \<and> header_chain c (nextFileHeader h) hs"

text \<open>All the sectors of a list of headers: those of the headers and those of the data.\<close>

definition chain_sectors :: "placed_header list \<Rightarrow> nat list" where
  "chain_sectors hs = concat (map (\<lambda>(s, h). s # header_sectors h) hs)"

lemma chain_sectors_simps [simp]:
  "chain_sectors [] = []" "chain_sectors ((s, h) # hs) = s # header_sectors h @ chain_sectors hs"
  by (simp_all add: chain_sectors_def)

text \<open>
  What \<open>Remove\<close> asks of the file in sector \<open>n\<close> with the headers \<open>hf\<close> and \<open>hs\<close>: closed, no sector in
  it twice, all of them in use, and apart from directory and free map.
\<close>

definition removable :: "FileSystem \<Rightarrow> RawFileHeader \<Rightarrow> nat \<Rightarrow> RawFileHeader \<Rightarrow> placed_header list \<Rightarrow> bool" where
  "removable fs h n hf hs \<longleftrightarrow> stored_file (fsw fs) n hf \<and> header_chain (store (fsw fs)) (nextFileHeader hf) hs
     \<and> distinct (chain_sectors ((n, hf) # hs)) \<and> set (chain_sectors hs) \<subseteq> marked (disk_map (fsw fs))
     \<and> set (chain_sectors ((n, hf) # hs)) \<inter> (insert (sector (directoryFile fs)) (set (header_sectors h) \<union> map_sectors (fsw fs))) = {}
     \<and> openCount (openFilesTable (fsw fs) n) = 0 \<and> \<not> removed (openFilesTable (fsw fs) n)
     \<and> removeLock (openFilesTable (fsw fs) n) \<in> {None, Some None}"

text \<open>Freeing the sectors of one header in the free map, and of a chain of them.\<close>

abbreviation map_shape :: "bitmap \<Rightarrow> bool" where
  "map_shape bm \<equiv> bitmap_ok bm \<and> numBits bm = NUM_SECTORS \<and> numWords bm = 32"

lemma free_header_ok:
  assumes "file_ok c h" "n < NUM_SECTORS" "map_shape bm" "set (header_sectors h) \<subseteq> marked bm"
  shows "\<exists>bm1 bm2. FileHeader_Deallocate h bm = Inr bm1 \<and> Bitmap_Clear bm1 n = Inr bm2 \<and> map_shape bm2
    \<and> marked bm2 = marked bm - insert n (set (header_sectors h))"
proof -
  obtain bm1 where b1: "FileHeader_Deallocate h bm = Inr bm1" "bitmap_ok bm1"
      "numBits bm1 = NUM_SECTORS" "marked bm1 = marked bm - set (header_sectors h)"
    using Deallocate_frees [of h bm] assms by (auto simp: file_ok_def)
  from bm.clear_law [OF b1(2), of n] assms(2) b1(3) obtain bm2 where
    b2: "Bitmap_Clear bm1 n = Inr bm2" "bitmap_ok bm2" "numBits bm2 = NUM_SECTORS" "marked bm2 = marked bm1 - {n}"
    by auto
  have "numWords bm2 = 32"
    using Bitmap_Clear_numWords [OF b2(1)] Deallocate_loop_numWords b1(1) assms(3) by (simp add: FileHeader_Deallocate_def)
  with b1 b2 show ?thesis by auto
qed

lemma remove_chain_ok:
  assumes "header_chain c next hs" "map_shape bm" "distinct (chain_sectors hs)" "set (chain_sectors hs) \<subseteq> marked bm" "length hs \<le> fuel"
  shows "\<exists>bm'. remove_chain fuel c next bm = Inr bm' \<and> map_shape bm' \<and> marked bm' = marked bm - set (chain_sectors hs)"
  using assms
proof (induction hs arbitrary: "next" bm fuel)
  case Nil
  then show ?case by (simp add: remove_chain.simps)
next
  case (Cons p hs)
  obtain s h where p: "p = (s, h)" by (cases p)
  from Cons.prems(5) obtain fuel' where f: "fuel = Suc fuel'" "length hs \<le> fuel'" by (cases fuel) auto
  have c: "next \<noteq> 0" "unat next = s" "FileHeader_FetchFrom c s = Inr h" "file_ok c h" "header_chain c (nextFileHeader h) hs"
    using Cons.prems(1) p by simp_all
  have "set (header_sectors h) \<subseteq> marked bm" using Cons.prems(4) p by simp
  from free_header_ok [OF c(4) fetch_sector [OF c(3)] Cons.prems(2) this] obtain bm1 bm2 where
    b: "FileHeader_Deallocate h bm = Inr bm1" "Bitmap_Clear bm1 s = Inr bm2" "map_shape bm2"
      "marked bm2 = marked bm - insert s (set (header_sectors h))" by blast
  have "set (chain_sectors hs) \<subseteq> marked bm2" using Cons.prems(3,4) p b(4) by auto
  from Cons.IH [OF c(5) b(3) _ this f(2)] Cons.prems(3) p obtain bm' where
    "remove_chain fuel' c (nextFileHeader h) bm2 = Inr bm'" "map_shape bm'" "marked bm' = marked bm2 - set (chain_sectors hs)" by auto
  moreover from this(1) have "remove_chain fuel c next bm = Inr bm'"
    using c(1-3) b(1,2) unfolding f(1) by (simp add: remove_chain.simps [of "Suc fuel'"])
  ultimately show ?case using b(4) p by (intro exI [of _ bm']) auto
qed

text \<open>A chain without a sector twice is short enough for the loop.\<close>

lemma header_chain_less: "header_chain c next hs \<Longrightarrow> set (map fst hs) \<subseteq> {..<NUM_SECTORS}"
proof (induction hs arbitrary: "next")
  case (Cons p hs)
  then show ?case using fetch_sector by (cases p) auto
qed simp

lemma chain_headers: "set (map fst hs) \<subseteq> set (chain_sectors hs)"
  by (force simp: chain_sectors_def)

lemma distinct_chain_headers: "distinct (chain_sectors hs) \<Longrightarrow> distinct (map fst hs)"
proof (induction hs)
  case (Cons p hs)
  then show ?case using chain_headers [of hs] by (cases p) auto
qed simp

lemma header_chain_length:
  assumes "header_chain c next hs" "distinct (chain_sectors hs)"
  shows "length hs \<le> NUM_SECTORS"
proof -
  have "length hs = card (set (map fst hs))" using distinct_card [OF distinct_chain_headers [OF assms(2)]] by simp
  also have "\<dots> \<le> NUM_SECTORS" using card_mono [OF _ header_chain_less [OF assms(1)]] by simp
  finally show ?thesis .
qed

lemma free_file_ok:
  assumes "stored_file w n hf" "header_chain (store w) (nextFileHeader hf) hs" "distinct (chain_sectors ((n, hf) # hs))"
    and "set (chain_sectors hs) \<subseteq> marked (disk_map w)"
  shows "\<exists>bm1 bm2 bm3. FileHeader_Deallocate hf (disk_map w) = Inr bm1 \<and> Bitmap_Clear bm1 n = Inr bm2
    \<and> remove_chain (Suc NUM_SECTORS) (store w) (nextFileHeader hf) bm2 = Inr bm3 \<and> bitmap_ok bm3
    \<and> numBits bm3 = NUM_SECTORS \<and> numWords bm3 = 32
    \<and> marked bm3 = marked (disk_map w) - set (chain_sectors ((n, hf) # hs))"
proof -
  have sf: "file_ok (store w) hf" "set (header_sectors hf) \<subseteq> marked (disk_map w)" "n < NUM_SECTORS"
    using assms(1) fetch_sector by (auto simp: stored_file_def)
  from free_header_ok [OF sf(1,3) _ sf(2)] disk_map_ok obtain bm1 bm2 where
    b: "FileHeader_Deallocate hf (disk_map w) = Inr bm1" "Bitmap_Clear bm1 n = Inr bm2" "map_shape bm2"
      "marked bm2 = marked (disk_map w) - insert n (set (header_sectors hf))" by auto
  have d: "distinct (chain_sectors hs)" "set (chain_sectors hs) \<subseteq> marked bm2" using assms(3,4) b(4) by auto
  have "length hs \<le> Suc NUM_SECTORS" using header_chain_length [OF assms(2) d(1)] by simp
  from remove_chain_ok [OF assms(2) b(3) d this] obtain bm3 where
    "remove_chain (Suc NUM_SECTORS) (store w) (nextFileHeader hf) bm2 = Inr bm3" "map_shape bm3"
    "marked bm3 = marked bm2 - set (chain_sectors hs)" by blast
  with b show ?thesis by auto
qed

text \<open>Taking the remove lock of a file: only its entry in the table of open files changes.\<close>

lemma removeLock_Acquire_ok:
  assumes "removeLock (openFilesTable w n) \<in> {None, Some None}"
  shows "\<exists>l. removeLock_Acquire w n = Inr (oft_update w n (\<lambda>e. e\<lparr>removeLock := l\<rparr>))
    \<and> (l = None \<and> removeLock (openFilesTable w n) = None
         \<or> l = Some (Some (currentThread w)) \<and> removeLock (openFilesTable w n) = Some None)"
proof (cases "removeLock (openFilesTable w n)")
  case None
  then have "(openFilesTable w n)\<lparr>removeLock := None\<rparr> = openFilesTable w n" by simp
  then have "oft_update w n (\<lambda>e. e\<lparr>removeLock := None\<rparr>) = w" by (simp add: oft_update_def)
  with None show ?thesis by (metis removeLock_Acquire_def)
next
  case Some
  with assms show ?thesis by (auto simp: removeLock_Acquire_def lock_acquire_def)
qed

lemma mounted_oft:
  assumes "mounted fs d h" "n \<noteq> sector (directoryFile fs)"
  shows "mounted (fs\<lparr>fsw := oft_update (fsw fs) n g\<rparr>) d h"
  using assms by (auto simp: mounted_def)

text \<open>The state after removing the file \<open>nm\<close>, whose first header \<open>hf\<close> was in sector \<open>n\<close>, followed by \<open>hs\<close>.\<close>

definition removed_file :: "FileSystem \<Rightarrow> FileSystem \<Rightarrow> Directory \<Rightarrow> RawFileHeader \<Rightarrow> Directory \<Rightarrow> RawFileHeader \<Rightarrow>
    byte list \<Rightarrow> nat \<Rightarrow> RawFileHeader \<Rightarrow> placed_header list \<Rightarrow> bool" where
  "removed_file fs fs' d h d' h' nm n hf hs \<longleftrightarrow> mounted fs' d' h' \<and> sector (directoryFile fs') = sector (directoryFile fs)
     \<and> dir_map d' = (dir_map d)(name_key nm := None)
     \<and> marked (disk_map (fsw fs')) = marked (disk_map (fsw fs)) - set (chain_sectors ((n, hf) # hs))
     \<and> removed (openFilesTable (fsw fs') n) \<and> \<not> removing (openFilesTable (fsw fs') n)
     \<and> removeLock (openFilesTable (fsw fs') n) = removeLock (openFilesTable (fsw fs) n)
     \<and> (\<forall>t. t \<noteq> n \<longrightarrow> openFilesTable (fsw fs') t = openFilesTable (fsw fs) t)
     \<and> (\<forall>t. t \<notin> insert (sector (directoryFile fs)) (map_sectors (fsw fs) \<union> set (header_sectors h))
         \<longrightarrow> store (fsw fs') t = store (fsw fs) t)"

lemma Remove_ok:
  assumes m: "mounted fs d h" and nm: "is_cstring nm" "dir_map d (name_key nm) = Some (of_nat n)"
    and fd: "\<not> FindDir d nm \<or> dirToo" and rm: "removable fs h n hf hs"
  shows "\<exists>fs' d' h'. FileSystem_Remove fs nm dirToo = Inr (True, fs') \<and> removed_file fs fs' d h d' h' nm n hf hs"
proof -
  from load_dir_ok [OF m] obtain f1 where
    f1: "load_dir fs = Inr (d, fs\<lparr>directoryFile := f1\<rparr>)" "sector f1 = sector (directoryFile fs)"
      "mounted (fs\<lparr>directoryFile := f1\<rparr>) d h" by auto
  let ?w = "fsw fs" and ?cs = "sector (directoryFile fs)"
  let ?ss = "set (chain_sectors ((n, hf) # hs))"
  have r: "stored_file ?w n hf" "header_chain (store ?w) (nextFileHeader hf) hs" "n \<noteq> ?cs"
    "distinct (chain_sectors ((n, hf) # hs))" "set (chain_sectors hs) \<subseteq> marked (disk_map ?w)"
    "?ss \<inter> insert ?cs (set (header_sectors h) \<union> map_sectors ?w) = {}"
    "openCount (openFilesTable ?w n) = 0" "\<not> removed (openFilesTable ?w n)"
    "removeLock (openFilesTable ?w n) \<in> {None, Some None}" using rm by (auto simp: removable_def)
  have md: "stored_file ?w ?cs h" "dir_ok d" "length (table d) = tableSize d" "0 < tableSize d" "tableSize d \<le> 116"
    "nextFileHeader h = 0" "\<not> isBin f1" "writeLock (openFilesTable ?w ?cs) = Some None" "directorySize fs = tableSize d"
    "file_content (store ?w) h = table_bytes (table d)" using f1(2,3) by (auto simp: mounted_def)
  have n: "n < NUM_SECTORS" "FileHeader_FetchFrom (store ?w) n = Inr hf" using r(1) fetch_sector by (auto simp: stored_file_def)
  then have un: "unat (of_nat n :: u32) = n" by (intro unat_of_nat_small) (simp add: NUM_SECTORS_def)
  have fnd: "Directory_Find d nm = int n"
    using Directory_Find_map [OF md(2) nm(1)] nm(2) sint_sector [of "of_nat n"] un n(1) by simp
  from free_file_ok [OF r(1,2,4,5)] obtain bm0 bm1 bm2 where
    b: "FileHeader_Deallocate hf (disk_map ?w) = Inr bm0" "Bitmap_Clear bm0 n = Inr bm1" "bitmap_ok bm2"
      "numBits bm2 = NUM_SECTORS" "numWords bm2 = 32" "marked bm2 = marked (disk_map ?w) - ?ss"
      "remove_chain (Suc NUM_SECTORS) (store ?w) (nextFileHeader hf) bm1 = Inr bm2" by auto
  from removeLock_Acquire_ok [OF r(9)] obtain l where
    l: "removeLock_Acquire ?w n = Inr (oft_update ?w n (\<lambda>e. e\<lparr>removeLock := l\<rparr>))"
      "l = None \<and> removeLock (openFilesTable ?w n) = None
        \<or> l = Some (Some (currentThread ?w)) \<and> removeLock (openFilesTable ?w n) = Some None" by auto
  let ?w1 = "oft_update ?w n (\<lambda>e. e\<lparr>removeLock := l\<rparr>)"
  let ?w2 = "oft_update ?w1 n (\<lambda>e. e\<lparr>removing := True, removerSpaceId := spaceId fs\<rparr>)"
  have fm: "fetch_freeMap ?w1 = Inr (disk_map ?w)"
    using fetch_freeMap_disk_map [of ?w1] md(1) by (simp add: stored_file_def)
  have sub: "insert ?cs (set (header_sectors h) \<union> map_sectors ?w2) \<subseteq> marked bm2"
    using md(1) r(6) b(6) by (auto simp: stored_file_def)
  have "stored_file ?w2 ?cs h" using md(1) by simp
  from stored_file_map [OF this b(4,5,3) sub] obtain c where
    c: "Bitmap_WriteBack ?w2 (freeMapFile ?w2) bm2 = Inr (?w2\<lparr>store := c\<rparr>)" "stored_file (?w2\<lparr>store := c\<rparr>) ?cs h"
      "disk_map (?w2\<lparr>store := c\<rparr>) = bm2" "file_content c h = file_content (store ?w) h"
      "\<forall>t. t \<notin> map_sectors ?w \<longrightarrow> c t = store ?w t" by auto
  let ?w3 = "?w2\<lparr>store := c\<rparr>"
  from Directory_Remove_present [OF md(2) nm(1)] nm(2) obtain d' where
    d': "Directory_Remove d nm = (True, d')" "dir_ok d'" "tableSize d' = tableSize d"
      "dir_map d' = (dir_map d)(name_key nm := None)" by auto
  have ld: "length (table d') = tableSize d'" by (rule Directory_Remove_shape [OF d'(1) md(3)])
  let ?fs3 = "fs\<lparr>directoryFile := f1, fsw := ?w3\<rparr>"
  have "mounted ?fs3 d h" using md c(2,4) f1(2) r(3) by (simp add: mounted_def)
  from resave_ok [OF this d'(2) ld d'(3)] obtain fs4 h' where
    f4: "save_dir ?fs3 d' = Inr fs4" "mounted fs4 d' h'" "sector (directoryFile fs4) = ?cs"
      "fsw fs4 = ?w3\<lparr>store := store (fsw fs4)\<rparr>" "marked (disk_map (fsw fs4)) = marked bm2"
      "\<forall>s. s \<notin> insert ?cs (map_sectors ?w \<union> set (header_sectors h)) \<longrightarrow> store (fsw fs4) s = c s"
    using c(3) f1(2) by auto
  have tb: "openFilesTable (fsw fs4) = openFilesTable ?w3" "currentThread (fsw fs4) = currentThread ?w"
    using arg_cong [OF f4(4), of openFilesTable] arg_cong [OF f4(4), of currentThread] by simp_all
  let ?w4 = "oft_update (fsw fs4) n (\<lambda>e. e\<lparr>removed := True\<rparr>)"
  have rl: "removeLock (openFilesTable ?w n) = (if l = None then None else Some None)"
    using l(2) by auto
  define w5 where "w5 = (if l = None then ?w4 else oft_update ?w4 n (\<lambda>e. e\<lparr>removeLock := Some None\<rparr>))"
  have w5: "(if removeLock (openFilesTable ?w4 n) = None then Inr ?w4 else removeLock_Release ?w4 n) = Inr w5"
    using l(2) tb by (auto simp: w5_def removeLock_Release_def lock_release_def)
  let ?fs' = "fs4\<lparr>fsw := oft_update w5 n (\<lambda>e. e\<lparr>removing := False\<rparr>)\<rparr>"
  have "FileSystem_Remove fs nm dirToo = Inr (True, ?fs')"
    using f1(1) fnd fd n l(1) r(7,8) fm b(1,2,7) c(1) d'(1) f4(1) w5
    by (auto simp: FileSystem_Remove_def Let_def split: if_splits)
  moreover have "removed_file fs ?fs' d h d' h' nm n hf hs"
  proof -
    have "mounted ?fs' d' h'" using f4(2,3) r(3) by (auto simp: mounted_def w5_def)
    moreover have "\<forall>t. t \<notin> insert ?cs (map_sectors ?w \<union> set (header_sectors h)) \<longrightarrow> store (fsw fs4) t = store ?w t"
      using f4(6) c(5) by auto
    ultimately show ?thesis
      using d'(4) f4(3,5) b(6) tb(1) rl by (simp add: removed_file_def w5_def)
  qed
  ultimately show ?thesis by blast
qed

section \<open>Properties\<close>

lemma created_room:
  assumes "mounted fs d h" "created fs fs' d h d' h' nm s"
  shows "card (free_sectors (fsw fs)) \<le> card (free_sectors (fsw fs')) + needed_sectors h (32 * (tableSize d + 1)) + 1"
proof -
  have c: "mounted fs' d' h'" "tableSize d' \<le> tableSize d + 1"
    "marked (disk_map (fsw fs')) = insert s (marked (disk_map (fsw fs)) \<union> set (header_sectors h'))"
    "set (header_sectors h') \<inter> marked (disk_map (fsw fs)) = set (header_sectors h)"
    using assms(2) by (simp_all add: created_def)
  have fo: "file_ok (store (fsw fs)) h" "file_ok (store (fsw fs')) h'"
    using assms(1) c(1) by (auto simp: mounted_def stored_file_def)
  let ?new = "set (header_sectors h') - set (header_sectors h)"
  have "length (header_sectors h') = (32 * tableSize d' + 127) div 128"
    using fo(2) mounted_size [OF c(1)] by (simp add: file_ok_def length_header_sectors) (simp add: header_ok_def)
  moreover have "(32 * tableSize d' + 127) div 128 \<le> (32 * (tableSize d + 1) + 127) div 128"
    using c(2) by (intro div_le_mono) simp
  ultimately have "length (header_sectors h') - length (header_sectors h) \<le> needed_sectors h (32 * (tableSize d + 1))"
    using fo(1) by (simp add: needed_sectors_def file_ok_def length_header_sectors)
  moreover have "card ?new = length (header_sectors h') - length (header_sectors h)"
    using fo c(4) by (subst card_Diff_subset) (auto simp: file_ok_def distinct_card)
  moreover have "free_sectors (fsw fs) \<subseteq> free_sectors (fsw fs') \<union> insert s ?new"
    using c(3,4) by (auto simp: free_sectors_def)
  then have "card (free_sectors (fsw fs)) \<le> card (free_sectors (fsw fs') \<union> insert s ?new)"
    by (intro card_mono) (auto simp: free_sectors_def)
  moreover have "card (free_sectors (fsw fs') \<union> insert s ?new) \<le> card (free_sectors (fsw fs')) + (card ?new + 1)"
    by (rule order.trans [OF card_Un_le]) (simp add: card_insert_if)
  ultimately show ?thesis by linarith
qed


text \<open>A mounted file system with an empty directory of one entry.\<close>

definition sample_dir_header :: RawFileHeader where
  "sample_dir_header = \<lparr>numBytes = 32, numSectors = 1, dataSectors = [10] @ replicate 28 0, nextFileHeader = 0\<rparr>"

definition sample_fs :: FileSystem where
  "sample_fs = \<lparr>fsw = sample_world\<lparr>store := (store sample_world)(5 := header_bytes sample_dir_header,
       10 := table_bytes (table sample_dir) @ replicate 96 0)\<rparr>,
     directoryFile = sample_file 5 sample_dir_header 0, directorySize = 1, filesysCreateLock = Some None, spaceId = 0\<rparr>"

lemma sample_dir_header_facts:
  "header_sectors sample_dir_header = [10]" "header_ok sample_dir_header" "nextFileHeader sample_dir_header = 0"
  "length (dataSectors sample_dir_header) = NUM_DIRECT" "numBytes sample_dir_header = 32"
  by (simp_all add: header_sectors_def header_ok_def sample_dir_header_def NUM_DIRECT_def SECTOR_SIZE_def)

lemma sample_fs_map:
  "map_file_ok (fsw sample_fs)" "disk_map (fsw sample_fs) = disk_map sample_world" "map_sectors (fsw sample_fs) = {2}"
proof -
  have l: "length (header_bytes sample_dir_header) = SECTOR_SIZE"
    "length (table_bytes (table sample_dir) @ replicate 96 0) = SECTOR_SIZE"
    using length_header_bytes [OF sample_dir_header_facts(4)] length_table_bytes [of "table sample_dir"] sample_dir_ok
    by (simp_all add: dir_ok_def SECTOR_SIZE_def)
  note a = map_store_other [OF sample_map_file_ok _ l(1), of 5]
  note b = map_store_other [OF a(1) _ l(2), of 10]
  show "map_file_ok (fsw sample_fs)" "disk_map (fsw sample_fs) = disk_map sample_world"
    using a b by (simp_all add: sample_fs_def sample_map_sectors)
  show "map_sectors (fsw sample_fs) = {2}" by (simp add: sample_fs_def sample_map_sectors)
qed

lemma sample_mounted: "mounted sample_fs sample_dir sample_dir_header"
proof -
  have fh: "FileHeader_FetchFrom (store (fsw sample_fs)) 5 = Inr sample_dir_header"
    using bytes_header_bytes [OF sample_dir_header_facts(4)]
    by (simp add: sample_fs_def FileHeader_FetchFrom_def ReadSector_def NUM_SECTORS_def)
  have "sectors_ok (store (fsw sample_fs))" using sample_fs_map(1) by (simp add: map_file_ok_def disk_file_ok_def file_ok_def)
  then have fo: "file_ok (store (fsw sample_fs)) sample_dir_header"
    by (simp add: file_ok_def sample_dir_header_facts NUM_SECTORS_def)
  have "stored_file (fsw sample_fs) 5 sample_dir_header"
    using fh fo sample_fs_map sample_marked by (simp add: stored_file_def sample_dir_header_facts)
  moreover have "file_content (store (fsw sample_fs)) sample_dir_header = table_bytes (table sample_dir)"
    using length_table_bytes [of "table sample_dir"] sample_dir_ok
    by (simp add: file_content_def sector_bytes_def sample_dir_header_facts sample_fs_def dir_ok_def)
  moreover have "sector (directoryFile sample_fs) = 5" "\<not> isBin (directoryFile sample_fs)" "directorySize sample_fs = 1"
    "writeLock (openFilesTable (fsw sample_fs) 5) = Some None"
    by (simp_all add: sample_fs_def sample_file_def sample_world_def)
  ultimately show ?thesis using sample_dir_ok sample_dir_header_facts(3) by (simp add: mounted_def)
qed

lemma sample_room: "992 \<le> card (free_sectors (fsw sample_fs))"
proof -
  have "{32..<1024} \<subseteq> free_sectors (fsw sample_fs)"
  proof
    fix i :: nat
    assume i: "i \<in> {32..<1024}"
    then have "(3108 # replicate 31 (0::u32)) ! (i div 32) = 0" by (cases "i div 32") auto
    with i show "i \<in> free_sectors (fsw sample_fs)"
      by (simp add: free_sectors_def sample_fs_map marked_def sample_disk_map BITS_IN_WORD_def NUM_SECTORS_def)
  qed
  then have "card {32..<1024::nat} \<le> card (free_sectors (fsw sample_fs))"
    by (intro card_mono) (simp_all add: free_sectors_def)
  then show ?thesis by simp
qed

lemma sample_create:
  "is_cstring [97, 98]" "([97, 98] :: byte list) = [] \<or> hd [97, 98] \<noteq> slash"
  "dir_map sample_dir (name_key [97, 98]) = None" "filesysCreateLock sample_fs = Some None" "tableSize sample_dir < 116"
  "needed_sectors sample_dir_header (32 * (tableSize sample_dir + 1)) = 0"
  "plain_free sample_dir" "\<exists>e \<in> set (entries sample_dir). \<not> inUse e"
  using sample_dir_ok by (simp_all add: is_cstring_def slash_def sample_fs_def needed_sectors_def sample_dir_header_def)
    (simp_all add: sample_dir_def plain_free_def entries_def)


lemma Remove_absent:
  assumes "mounted fs d h" "is_cstring nm" "dir_map d (name_key nm) = None"
  shows "\<exists>fs'. FileSystem_Remove fs nm dirToo = Inr (False, fs') \<and> fsw fs' = fsw fs"
proof -
  from load_dir_ok [OF assms(1)] obtain f1 where
    f1: "load_dir fs = Inr (d, fs\<lparr>directoryFile := f1\<rparr>)" by auto
  have "Directory_Find d nm = -1" using Directory_Find_map [of d nm] assms by (simp add: mounted_def)
  with f1 show ?thesis by (simp add: FileSystem_Remove_def)
qed

lemma removable_created:
  assumes m: "mounted fs d h" and c: "created fs fs' d h d' h' nm s"
  shows "removable fs' h' s (new_header (junk (fsw fs))) []"
proof -
  have cr: "stored_file (fsw fs') s (new_header (junk (fsw fs)))" "s \<in> free_sectors (fsw fs)"
    "openFilesTable (fsw fs') s = fresh_entry (openFilesTable (fsw fs) s)"
    "set (header_sectors h') \<inter> marked (disk_map (fsw fs)) = set (header_sectors h)"
    "sector (directoryFile fs') = sector (directoryFile fs)" "mounted fs' d' h'"
    using c by (simp_all add: created_def)
  have "sector (directoryFile fs) \<in> marked (disk_map (fsw fs))" using m by (auto simp: mounted_def stored_file_def)
  then have "s \<noteq> sector (directoryFile fs')" using cr(2,5) by (auto simp: free_sectors_def)
  moreover have "s \<notin> set (header_sectors h')" using c by (simp add: created_def)
  ultimately show ?thesis
    using cr(1,3) by (simp add: removable_def new_header_facts fresh_entry_def stored_file_def)
qed

text \<open>
  C5. Removing a file of the current directory that nobody has open, of any number of headers, whose chain on disk
  ends and has no sector twice: the name goes, exactly the sectors of all its headers and of their data become
  free, no sector outside the directory and the free map changes, and the name can neither be opened nor removed again.
\<close>

theorem remove_file:
  assumes "mounted fs d h" "is_cstring nm" "dir_map d (name_key nm) = Some (of_nat n)" "\<not> FindDir d nm"
    and "removable fs h n hf hs"
  shows "\<exists>fs' d' h'. FileSystem_Remove fs nm False = Inr (True, fs') \<and> removed_file fs fs' d h d' h' nm n hf hs
    \<and> (\<exists>fs2. FileSystem_Open ho fs' nm False = Inr (None, fs2) \<and> fsw fs2 = fsw fs')
    \<and> (\<exists>fs2. FileSystem_Remove fs' nm False = Inr (False, fs2) \<and> fsw fs2 = fsw fs')"
proof -
  from Remove_ok [OF assms(1-3) _ assms(5), of False] assms(4) obtain fs' d' h' where
    r: "FileSystem_Remove fs nm False = Inr (True, fs')" "removed_file fs fs' d h d' h' nm n hf hs" by auto
  then have "mounted fs' d' h'" "dir_map d' (name_key nm) = None" by (auto simp: removed_file_def)
  with r Open_absent Remove_absent assms(2) show ?thesis
    by (simp add: FileSystem_Open_def) blast
qed

text \<open>
  A disk with the file \<open>ab\<close> of two headers, in sectors 12 and 13, the second with one sector of data; the
  headers of the free map and of the directory and their data are in sectors 0, 5, 2 and 10.
\<close>

definition two_headers :: "RawFileHeader \<times> RawFileHeader" where
  "two_headers = (\<lparr>numBytes = 0, numSectors = 0, dataSectors = replicate 29 0, nextFileHeader = 13\<rparr>,
     \<lparr>numBytes = 5, numSectors = 1, dataSectors = [14] @ replicate 28 0, nextFileHeader = 0\<rparr>)"

definition two_headers_dir :: Directory where
  "two_headers_dir = \<lparr>tableSize = 1, table = [\<lparr>inUse = True, padA = [0, 0, 0], entrySector = 12,
     entryName = [97, 98] @ replicate 19 0, isDirectory = False, padB = [0, 0]\<rparr>]\<rparr>"

definition two_headers_fs :: FileSystem where
  "two_headers_fs = sample_fs\<lparr>fsw := (fsw sample_fs)\<lparr>store := (store (fsw sample_fs))(2 := words_bytes (31780 # replicate 31 0),
       10 := table_bytes (table two_headers_dir) @ replicate 96 0,
       12 := header_bytes (fst two_headers), 13 := header_bytes (snd two_headers)),
     openFilesTable := (openFilesTable (fsw sample_fs))(12 := (openFilesTable (fsw sample_fs) 12)\<lparr>openCount := 0\<rparr>)\<rparr>\<rparr>"

abbreviation two_headers_store :: sectors where
  "two_headers_store \<equiv> store (fsw two_headers_fs)"

lemma two_headers_facts:
  "header_ok (fst two_headers)" "header_ok (snd two_headers)" "header_sectors (fst two_headers) = []" "header_sectors (snd two_headers) = [14]"
  "length (dataSectors (fst two_headers)) = NUM_DIRECT" "length (dataSectors (snd two_headers)) = NUM_DIRECT"
  "nextFileHeader (fst two_headers) = 13" "nextFileHeader (snd two_headers) = 0"
  by (simp_all add: two_headers_def header_ok_def header_sectors_def NUM_DIRECT_def SECTOR_SIZE_def)

lemma two_headers_dir_ok:
  "dir_ok two_headers_dir" "tableSize two_headers_dir = 1" "length (table two_headers_dir) = 1"
  "dir_map two_headers_dir (name_key [97, 98]) = Some (of_nat 12)" "\<not> FindDir two_headers_dir [97, 98]"
proof -
  have "cstr 20 (97 # 98 # replicate 19 0) = [97, 98 :: byte]" by code_simp
  then show "dir_map two_headers_dir (name_key [97, 98]) = Some (of_nat 12)"
    by (simp add: two_headers_dir_def used_entries_def entries_def dir_map_def FILE_NAME_MAX_LEN_def)
qed (simp_all add: two_headers_dir_def dir_ok_def entry_ok_def used_entries_def entries_def FindDir_def)

lemma two_headers_sectors:
  "two_headers_store 2 = words_bytes (31780 # replicate 31 0)" "two_headers_store 5 = header_bytes sample_dir_header"
  "two_headers_store 10 = table_bytes (table two_headers_dir) @ replicate 96 0"
  "two_headers_store 12 = header_bytes (fst two_headers)" "two_headers_store 13 = header_bytes (snd two_headers)"
  "sectors_ok two_headers_store"
proof -
  have l: "length (table_bytes (table two_headers_dir) @ replicate 96 0) = SECTOR_SIZE"
    using length_table_bytes [of "table two_headers_dir"] two_headers_dir_ok by (simp add: dir_ok_def SECTOR_SIZE_def)
  have w: "length (words_bytes (31780 # replicate 31 0)) = SECTOR_SIZE" by (simp add: SECTOR_SIZE_def)
  have "sectors_ok (store (fsw sample_fs))" using sample_fs_map(1) by (simp add: map_file_ok_def disk_file_ok_def file_ok_def)
  then show "sectors_ok two_headers_store"
    using l w length_header_bytes [OF two_headers_facts(5)] length_header_bytes [OF two_headers_facts(6)]
    by (simp add: two_headers_fs_def sectors_ok_def)
qed (simp_all add: two_headers_fs_def sample_fs_def)

lemma two_headers_fetch:
  "FileHeader_FetchFrom two_headers_store 5 = Inr sample_dir_header"
  "FileHeader_FetchFrom two_headers_store 12 = Inr (fst two_headers)" "FileHeader_FetchFrom two_headers_store 13 = Inr (snd two_headers)"
  using bytes_header_bytes [OF two_headers_facts(5)] bytes_header_bytes [OF two_headers_facts(6)] bytes_header_bytes [OF sample_dir_header_facts(4)]
  by (simp_all add: FileHeader_FetchFrom_def ReadSector_def NUM_SECTORS_def two_headers_sectors)

lemma two_headers_map:
  "map_file_ok (fsw two_headers_fs)" "map_sectors (fsw two_headers_fs) = {2}"
  "{2, 5, 10, 12, 13, 14} \<subseteq> marked (disk_map (fsw two_headers_fs))"
proof -
  have hm: "hdr (freeMapFile (fsw two_headers_fs)) = sample_map_header" "\<not> isBin (freeMapFile (fsw two_headers_fs))"
    by (simp_all add: two_headers_fs_def sample_fs_def sample_world_def sample_file_def)
  have h2: "header_sectors sample_map_header = [2]" "unat (numBytes sample_map_header) = 128" "header_ok sample_map_header"
    by (simp_all add: header_sectors_def sample_map_header_def header_ok_def NUM_DIRECT_def SECTOR_SIZE_def)
  then show ok: "map_file_ok (fsw two_headers_fs)" "map_sectors (fsw two_headers_fs) = {2}"
    using hm two_headers_sectors(6) by (simp_all add: map_file_ok_def disk_file_ok_def file_ok_def map_sectors_def NUM_SECTORS_def)
  have "file_content two_headers_store sample_map_header = words_bytes (31780 # replicate 31 0)"
    using h2 two_headers_sectors(1) by (simp add: file_content_def sector_bytes_def del: words_bytes_Cons)
  then have "bits (disk_map (fsw two_headers_fs)) = bytes_words 32 (words_bytes (31780 # replicate 31 0))"
    by (simp add: disk_map_def hm del: words_bytes_Cons)
  then have "bits (disk_map (fsw two_headers_fs)) = 31780 # replicate 31 0"
    by (simp only: bytes_words_bytes length_Cons length_replicate)
  then show "{2, 5, 10, 12, 13, 14} \<subseteq> marked (disk_map (fsw two_headers_fs))"
    by (simp add: marked_def BITS_IN_WORD_def NUM_SECTORS_def bit_numeral_rec)
qed

lemma two_headers_mounted: "mounted two_headers_fs two_headers_dir sample_dir_header"
proof -
  have "file_ok two_headers_store sample_dir_header"
    using two_headers_sectors(6) by (simp add: file_ok_def sample_dir_header_facts NUM_SECTORS_def)
  then have "stored_file (fsw two_headers_fs) 5 sample_dir_header"
    using two_headers_fetch(1) two_headers_map by (simp add: stored_file_def sample_dir_header_facts)
  moreover have "file_content two_headers_store sample_dir_header = table_bytes (table two_headers_dir)"
    using length_table_bytes [of "table two_headers_dir"] two_headers_dir_ok
    by (simp add: file_content_def sector_bytes_def sample_dir_header_facts two_headers_sectors dir_ok_def)
  moreover have "sector (directoryFile two_headers_fs) = 5" "\<not> isBin (directoryFile two_headers_fs)" "directorySize two_headers_fs = 1"
    "writeLock (openFilesTable (fsw two_headers_fs) 5) = Some None"
    by (simp_all add: two_headers_fs_def sample_fs_def sample_file_def sample_world_def)
  ultimately show ?thesis using two_headers_dir_ok sample_dir_header_facts(3) by (simp add: mounted_def)
qed

lemma two_headers_removable:
  "removable two_headers_fs sample_dir_header 12 (fst two_headers) [(13, snd two_headers)]"
proof -
  have "file_ok two_headers_store (fst two_headers)" "file_ok two_headers_store (snd two_headers)"
    using two_headers_sectors(6) by (simp_all add: file_ok_def two_headers_facts NUM_SECTORS_def)
  then show ?thesis
    using two_headers_fetch two_headers_map
    by (simp add: removable_def stored_file_def two_headers_facts sample_dir_header_facts)
      (simp add: two_headers_fs_def sample_fs_def sample_file_def sample_world_def)
qed

theorem remove_file_witness:
  "\<exists>fs. FileSystem_Remove two_headers_fs [97, 98] False = Inr (True, fs)
    \<and> marked (disk_map (fsw fs)) = marked (disk_map (fsw two_headers_fs)) - {12, 13, 14}"
proof -
  from remove_file [OF two_headers_mounted sample_create(1) two_headers_dir_ok(4,5) two_headers_removable] obtain fs d h where
    "FileSystem_Remove two_headers_fs [97, 98] False = Inr (True, fs)"
    "removed_file two_headers_fs fs two_headers_dir sample_dir_header d h [97, 98] 12 (fst two_headers) [(13, snd two_headers)]" by blast
  then show ?thesis by (auto simp: removed_file_def two_headers_facts)
qed

text \<open>
  Creating a file in a directory with a free entry and removing it again restores the names of the
  directory and the set of sectors in use.
\<close>

theorem create_remove:
  assumes "mounted fs d h" "is_cstring nm" "nm = [] \<or> hd nm \<noteq> slash" "dir_map d (name_key nm) = None"
    and "filesysCreateLock fs = Some None" "tableSize d < 116"
    and "needed_sectors h (32 * (tableSize d + 1)) < card (free_sectors (fsw fs))"
    and "plain_free d" "\<exists>e \<in> set (entries d). \<not> inUse e"
  shows "\<exists>fs1 fs2 d2 h2. FileSystem_Create hc fs nm False = Inr (True, fs1)
    \<and> FileSystem_Remove fs1 nm False = Inr (True, fs2) \<and> mounted fs2 d2 h2
    \<and> dir_map d2 = dir_map d \<and> marked (disk_map (fsw fs2)) = marked (disk_map (fsw fs))"
proof -
  from Create_ok [OF assms(1-7)] obtain fs1 d1 h1 s where
    c: "FileSystem_Create hc fs nm False = Inr (True, fs1)" "created fs fs1 d h d1 h1 nm s" by blast
  then have cr: "mounted fs1 d1 h1" "dir_map d1 = (dir_map d)(name_key nm \<mapsto> of_nat s)" "\<not> FindDir d1 nm"
    "tableSize d1 = tableSize d" "s \<in> free_sectors (fsw fs)"
    "marked (disk_map (fsw fs1)) = insert s (marked (disk_map (fsw fs)) \<union> set (header_sectors h1))"
    "set (header_sectors h1) \<inter> marked (disk_map (fsw fs)) = set (header_sectors h)"
    using assms(8,9) by (simp_all add: created_def)
  from Remove_ok [OF cr(1) assms(2) _ _ removable_created [OF assms(1) c(2)], of False] cr(2,3) obtain fs2 d2 h2 where
    r: "FileSystem_Remove fs1 nm False = Inr (True, fs2)"
      "removed_file fs1 fs2 d1 h1 d2 h2 nm s (new_header (junk (fsw fs))) []" by auto
  have "set (header_sectors h1) = set (header_sectors h)"
    using same_sectors [OF assms(1) cr(1,4)] cr(7) by blast
  then have "marked (disk_map (fsw fs1)) - {s} = marked (disk_map (fsw fs))"
    using cr(5-7) by (auto simp: free_sectors_def)
  moreover have "mounted fs2 d2 h2" "dir_map d2 = dir_map d" "marked (disk_map (fsw fs2)) = marked (disk_map (fsw fs1)) - {s}"
    using r(2) cr(2) assms(4) by (auto simp: removed_file_def new_header_facts fun_eq_iff)
  ultimately show ?thesis using c(1) r(1) by metis
qed

theorem create_remove_witness:
  "\<exists>fs1 fs2. FileSystem_Create (\<lambda>_. 0) sample_fs [97, 98] False = Inr (True, fs1)
    \<and> FileSystem_Remove fs1 [97, 98] False = Inr (True, fs2)
    \<and> marked (disk_map (fsw fs2)) = marked (disk_map (fsw sample_fs))"
proof -
  have "needed_sectors sample_dir_header (32 * (tableSize sample_dir + 1)) < card (free_sectors (fsw sample_fs))"
    using sample_room sample_create(6) by linarith
  then show ?thesis
    using create_remove [OF sample_mounted sample_create(1-5) _ sample_create(7,8)] by blast
qed

end
