(* ===== verification/Format.thy ===== *)
theory Format
  imports Mounted
begin

text \<open>
  Formatting the disk and mounting it again: the constructor \<open>FileSystem\<close> of
  \<open>filesys/file_system.cc\<close> with both values of \<open>format\<close>, and that a disk keeps its directory over a
  restart of the machine.
\<close>

section \<open>Mounting\<close>

text \<open>The disk of a mounted file system whose current directory is the root.\<close>

definition rooted :: "FileSystem \<Rightarrow> Directory \<Rightarrow> RawFileHeader \<Rightarrow> bool" where
  "rooted fs d h \<longleftrightarrow> mounted fs d h \<and> sector (directoryFile fs) = DIRECTORY_SECTOR
     \<and> FileHeader_FetchFrom (store (fsw fs)) FREE_MAP_SECTOR = Inr (hdr (freeMapFile (fsw fs)))"

lemma stored_file_cong:
  assumes "stored_file w cs h" "store w' = store w" "hdr (freeMapFile w') = hdr (freeMapFile w)"
    and "\<not> isBin (freeMapFile w')"
  shows "stored_file w' cs h" "disk_map w' = disk_map w"
proof -
  show "disk_map w' = disk_map w" using assms by (simp add: disk_map_def)
  then show "stored_file w' cs h"
    using assms by (simp add: stored_file_def map_file_ok_def disk_file_ok_def map_sectors_def)
qed

text \<open>The table size of a stored directory is read from the length of its file.\<close>

lemma read_table_size_ok:
  assumes "stored_file w (sector f) h" "nextFileHeader h = 0" "\<not> isBin f" "unat (numBytes h) = 32 * n"
  shows "\<exists>f'. read_table_size w f = Inr (n, f') \<and> sector f' = sector f \<and> \<not> isBin f'"
proof -
  have sz: "MAX_DIR_ENTRIES * DIR_ENTRY_SIZE = 126720"
    by (simp add: MAX_DIR_ENTRIES_def MAX_FILE_SIZE_def FILE_DATA_SECTORS_def TIMES_FH_FITS_def NUM_SECTORS_def
        NUM_DIRECT_def SECTOR_SIZE_def DIR_ENTRY_SIZE_def)
  have "0 < MAX_DIR_ENTRIES" using sz by (cases MAX_DIR_ENTRIES) simp_all
  from Directory_new_ok [OF this, of "junk w"] obtain d0 where
    d0: "Directory_new (junk w) MAX_DIR_ENTRIES = Inr d0" "tableSize d0 = MAX_DIR_ENTRIES" by auto
  have fo: "FileHeader_FetchFrom (store w) (sector f) = Inr h" "file_ok (store w) h"
    using assms(1) by (auto simp: stored_file_def)
  let ?g = "f\<lparr>hdr := h, seekPosition := 0\<rparr>"
  have "slice 0 126720 (file_content (store w) h) = file_content (store w) h"
    using fo(2) file_ok_length [OF fo(2)] by (simp add: slice_def)
  then have "OpenFile_Read w ?g 126720 False
      = Inr (file_content (store w) h, ?g\<lparr>seekPosition := of_nat (length (file_content (store w) h))\<rparr>)"
    using OpenFile_Read_ok [of ?g w 126720] fo(2) assms(2,3) by (simp add: disk_file_ok_def Let_def)
  then obtain g where g: "OpenFile_Read w f 126720 True = Inr (file_content (store w) h, g)"
      "sector g = sector f" "\<not> isBin g"
    using OpenFile_Read_directory [OF assms(3) fo(1), of 126720] assms(3) by auto
  have sz': "of_nat (tableSize d0 * DIR_ENTRY_SIZE) = (126720 :: u32)"
    unfolding d0(2) sz by simp
  have "\<exists>d1. Directory_FetchFrom w f d0 True = Inr (n, d1, g)"
    unfolding Directory_FetchFrom_def sz' using g(1) fo(2) assms(4) by (simp add: Let_def DIR_ENTRY_SIZE_def)
  with d0(1) g(2,3) show ?thesis by (auto simp: read_table_size_def)
qed

lemma mount_ok:
  assumes r: "rooted fs d h" and w: "store w = store (fsw fs)"
    and oft: "openCount (openFilesTable w DIRECTORY_SECTOR) = 0"
  shows "\<exists>fs'. FileSystem_new w sid False = Inr fs' \<and> rooted fs' d h \<and> store (fsw fs') = store (fsw fs)
    \<and> disk_map (fsw fs') = disk_map (fsw fs) \<and> filesysCreateLock fs' = Some None"
proof -
  have m: "mounted fs d h" "sector (directoryFile fs) = DIRECTORY_SECTOR"
    "FileHeader_FetchFrom (store (fsw fs)) FREE_MAP_SECTOR = Inr (hdr (freeMapFile (fsw fs)))"
    using r by (simp_all add: rooted_def)
  have md: "stored_file (fsw fs) DIRECTORY_SECTOR h" "nextFileHeader h = 0" using m by (simp_all add: mounted_def)
  obtain mf w1 where o1: "OpenFile_new w FREE_MAP_SECTOR False = Inr (mf, w1)" "hdr mf = hdr (freeMapFile (fsw fs))"
    "\<not> isBin mf" "store w1 = store w" "openFilesTable w1 DIRECTORY_SECTOR = openFilesTable w DIRECTORY_SECTOR"
    using m(3) w by (simp add: OpenFile_new_def Let_def FREE_MAP_SECTOR_def DIRECTORY_SECTOR_def)
  have "FileHeader_FetchFrom (store w1) DIRECTORY_SECTOR = Inr h" using md(1) w o1(4) by (simp add: stored_file_def)
  then obtain df w2 where o2: "OpenFile_new (w1\<lparr>freeMapFile := mf\<rparr>) DIRECTORY_SECTOR False = Inr (df, w2)"
    "sector df = DIRECTORY_SECTOR" "\<not> isBin df" "store w2 = store w" "freeMapFile w2 = mf"
    "writeLock (openFilesTable w2 DIRECTORY_SECTOR) = Some None"
    using oft o1(4,5) by (simp add: OpenFile_new_def Let_def)
  note sf = stored_file_cong [OF md(1), of w2]
  have sf2: "stored_file w2 DIRECTORY_SECTOR h" "disk_map w2 = disk_map (fsw fs)"
    using sf w o1(2,3) o2(4,5) by simp_all
  from read_table_size_ok [of w2 df h] sf2(1) o2(2,3) md(2) mounted_size [OF m(1)] obtain df' where
    df': "read_table_size w2 df = Inr (tableSize d, df')" "sector df' = DIRECTORY_SECTOR" "\<not> isBin df'" by auto
  let ?fs = "\<lparr>fsw = w2, directoryFile = df', directorySize = tableSize d, filesysCreateLock = Some None, spaceId = sid\<rparr>"
  have "mounted ?fs d h" using m(1) sf2(1) df'(2,3) o2(4,6) w by (simp add: mounted_def)
  then have "rooted ?fs d h" using m(3) df'(2) o1(2) o2(4,5) w by (simp add: rooted_def)
  moreover have "FileSystem_new w sid False = Inr ?fs" using o1(1) o2(1) df'(1) by (simp add: FileSystem_new_def)
  ultimately show ?thesis using sf2(2) o2(4) w by auto
qed

section \<open>Formatting\<close>

text \<open>
  \<open>new FileHeader\<close> leaves the header uninitialised and \<open>Allocate\<close> adds to what it finds there:
  formatting works when the two counters happen to be zero.
\<close>

definition blank_header :: "world \<Rightarrow> bool" where
  "blank_header w \<longleftrightarrow> numBytes (raw_header w) = 0 \<and> numSectors (raw_header w) = 0"

lemma Bitmap_Mark_numWords: "Bitmap_Mark bm i = Inr bm' \<Longrightarrow> numWords bm' = numWords bm"
  by (auto simp: Bitmap_Mark_def Let_def res_simps split: if_splits sum.splits)

text \<open>Allocating a first file of \<open>n\<close> bytes.\<close>

lemma Allocate_blank:
  assumes "blank_header w" "bitmap_ok m" "numBits m = NUM_SECTORS" "n \<le> NUM_DIRECT * SECTOR_SIZE"
    and "(n + 127) div 128 \<le> card ({..<NUM_SECTORS} - marked m)"
  shows "\<exists>h m'. FileHeader_Allocate (raw_header w) m (of_nat n) = Inr (True, h, m') \<and> header_ok h
    \<and> unat (numBytes h) = n \<and> distinct (header_sectors h) \<and> length (header_sectors h) = (n + 127) div 128
    \<and> set (header_sectors h) \<inter> marked m = {} \<and> set (header_sectors h) \<subseteq> {..<NUM_SECTORS}
    \<and> bitmap_ok m' \<and> numBits m' = NUM_SECTORS \<and> numWords m' = numWords m \<and> marked m' = marked m \<union> set (header_sectors h)"
proof -
  have b: "numBytes (raw_header w) = 0" "numSectors (raw_header w) = 0" using assms(1) by (simp_all add: blank_header_def)
  have ok: "header_ok (raw_header w)" "header_sectors (raw_header w) = []"
    using b by (simp_all add: header_ok_def header_sectors_def) (simp add: raw_header_def)
  have n: "unat (of_nat n :: u32) = n"
    using assms(4) by (intro unat_of_nat_small) (simp add: NUM_DIRECT_def SECTOR_SIZE_def)
  from Allocate_succeeds [OF ok(1) assms(2), of "of_nat n"] assms(3-5) n b ok(2) obtain h m' where
    a: "FileHeader_Allocate (raw_header w) m (of_nat n) = Inr (True, h, m')" "header_ok h" "unat (numBytes h) = n"
      "distinct (header_sectors h)" "length (header_sectors h) = (n + 127) div 128"
      "set (header_sectors h) \<inter> marked m = {}" "set (header_sectors h) \<subseteq> {..<NUM_SECTORS}"
      "bitmap_ok m'" "numBits m' = NUM_SECTORS" "marked m' = marked m \<union> set (header_sectors h)" by auto
  moreover have "numWords m' = numWords m" using Allocate_numWords [OF a(1)] .
  ultimately show ?thesis by blast
qed

definition layout :: "bitmap \<Rightarrow> RawFileHeader \<Rightarrow> RawFileHeader \<Rightarrow> bool" where
  "layout m mapH dirH \<longleftrightarrow> bitmap_ok m \<and> numBits m = NUM_SECTORS \<and> numWords m = 32
     \<and> header_ok mapH \<and> unat (numBytes mapH) = 128 \<and> header_ok dirH \<and> unat (numBytes dirH) = 320
     \<and> distinct ([0, 1] @ header_sectors mapH @ header_sectors dirH) \<and> length (header_sectors mapH @ header_sectors dirH) = 4
     \<and> set (header_sectors mapH @ header_sectors dirH) \<subseteq> {..<NUM_SECTORS}
     \<and> marked m = set ([0, 1] @ header_sectors mapH @ header_sectors dirH)"

lemma format_layout:
  assumes "blank_header w"
  shows "\<exists>m0 m1 m2 mapH m3 dirH m4. Bitmap_new (junk w) NUM_SECTORS = Inr m0
    \<and> Bitmap_Mark m0 FREE_MAP_SECTOR = Inr m1 \<and> Bitmap_Mark m1 DIRECTORY_SECTOR = Inr m2
    \<and> FileHeader_Allocate (raw_header w) m2 (of_nat FREE_MAP_FILE_SIZE) = Inr (True, mapH, m3)
    \<and> FileHeader_Allocate (raw_header w) m3 (of_nat DIRECTORY_FILE_SIZE) = Inr (True, dirH, m4)
    \<and> layout m4 mapH dirH"
proof -
  have sz: "FREE_MAP_FILE_SIZE = 128" "DIRECTORY_FILE_SIZE = 320"
    by (simp_all add: FREE_MAP_FILE_SIZE_def DIRECTORY_FILE_SIZE_def NUM_SECTORS_def DIR_ENTRY_SIZE_def NUM_DIR_ENTRIES_def)
  have N: "0 < NUM_SECTORS" "0 < NUM_SECTORS" "1 < NUM_SECTORS" by (simp_all add: NUM_SECTORS_def)
  from bitmap_new [OF N(1), of "junk w"] obtain m0 where
    m0: "Bitmap_new (junk w) NUM_SECTORS = Inr m0" "bitmap_ok m0" "numBits m0 = NUM_SECTORS" "numWords m0 = 32"
      "marked m0 = {}" by (auto simp: NUM_SECTORS_def)
  from bm.mark_law [OF m0(2), of 0] m0 N obtain m1 where
    m1: "Bitmap_Mark m0 0 = Inr m1" "bitmap_ok m1" "numBits m1 = NUM_SECTORS" "marked m1 = {0}" by auto
  from bm.mark_law [OF m1(2), of 1] m1 N obtain m2 where
    m2: "Bitmap_Mark m1 1 = Inr m2" "bitmap_ok m2" "numBits m2 = NUM_SECTORS" "marked m2 = {0, 1}" by auto
  have nw: "numWords m2 = 32" using Bitmap_Mark_numWords [OF m1(1)] Bitmap_Mark_numWords [OF m2(1)] m0(4) by simp
  have fr2: "card ({..<NUM_SECTORS} - marked m2) = 1022" unfolding m2(4) by (subst card_Diff_subset) (auto simp: NUM_SECTORS_def)
  from Allocate_blank [OF assms m2(2,3), of 128] fr2 obtain mapH m3 where
    m3: "FileHeader_Allocate (raw_header w) m2 (of_nat 128) = Inr (True, mapH, m3)" "header_ok mapH" "unat (numBytes mapH) = 128"
      "distinct (header_sectors mapH)" "length (header_sectors mapH) = 1" "set (header_sectors mapH) \<inter> {0, 1} = {}"
      "set (header_sectors mapH) \<subseteq> {..<NUM_SECTORS}" "bitmap_ok m3" "numBits m3 = NUM_SECTORS" "numWords m3 = 32"
      "marked m3 = {0, 1} \<union> set (header_sectors mapH)" using m2(4) nw by (auto simp: NUM_DIRECT_def SECTOR_SIZE_def)
  have "card (marked m3) \<le> 3" unfolding m3(11) using m3(5) card_length [of "[0, 1] @ header_sectors mapH"] by simp
  then have fr3: "3 \<le> card ({..<NUM_SECTORS} - marked m3)"
    using diff_card_le_card_Diff [of "marked m3" "{..<NUM_SECTORS}"] m3(11) by (simp add: NUM_SECTORS_def)
  from Allocate_blank [OF assms m3(8,9), of 320] fr3 obtain dirH m4 where
    m4: "FileHeader_Allocate (raw_header w) m3 (of_nat 320) = Inr (True, dirH, m4)" "header_ok dirH" "unat (numBytes dirH) = 320"
      "distinct (header_sectors dirH)" "length (header_sectors dirH) = 3"
      "set (header_sectors dirH) \<inter> marked m3 = {}"
      "set (header_sectors dirH) \<subseteq> {..<NUM_SECTORS}" "bitmap_ok m4" "numBits m4 = NUM_SECTORS" "numWords m4 = 32"
      "marked m4 = marked m3 \<union> set (header_sectors dirH)" using m3(10) by (auto simp: NUM_DIRECT_def SECTOR_SIZE_def)
  have "layout m4 mapH dirH" using m3(2-7,11) m4(2-11) by (auto simp: layout_def)
  then show ?thesis using m0(1) m1(1) m2(1) m3(1) m4(1) unfolding sz FREE_MAP_SECTOR_def DIRECTORY_SECTOR_def by blast
qed

text \<open>Writing the first table of a directory over the sectors of its file.\<close>

lemma first_table_ok:
  assumes sf: "stored_file w (sector f) h" "hdr f = h" "\<not> isBin f" "unat (numBytes h) = 32 * tableSize d"
    and d: "dir_ok d" "length (table d) = tableSize d" "0 < tableSize d"
  shows "\<exists>c. Directory_WriteBack w f d True = Inr (f, w\<lparr>store := c\<rparr>) \<and> stored_file (w\<lparr>store := c\<rparr>) (sector f) h
    \<and> disk_map (w\<lparr>store := c\<rparr>) = disk_map w \<and> file_content c h = table_bytes (table d)
    \<and> (\<forall>s. s \<notin> set (header_sectors h) \<longrightarrow> c s = store w s)"
proof -
  let ?n = "of_nat (tableSize d * DIR_ENTRY_SIZE) :: u32" and ?bs = "table_bytes (table d)"
  have fo: "file_ok (store w) h" using sf(1) by (simp add: stored_file_def)
  have n: "unat ?n = 32 * tableSize d"
    using file_ok_length [OF fo] sf(4) by (subst unat_of_nat_small) (simp_all add: DIR_ENTRY_SIZE_def)
  have lb: "length ?bs = 32 * tableSize d" using length_table_bytes [of "table d"] d(1,2) by (simp add: dir_ok_def)
  have min: "min (unat ?n) (unat (numBytes h) - unat (0::u32)) = 32 * tableSize d" using n sf(4) by simp
  have n32: "unat (0::u32) + unat ?n < 2 ^ 32" using n file_ok_length [OF fo] sf(4) by simp
  have k: "of_nat (32 * tableSize d) = ?n" by (simp add: DIR_ENTRY_SIZE_def mult.commute)
  from hdr_WriteAt_content [OF fo _ _ n32, of ?bs "junk w", unfolded min] n sf(4) lb d(3) obtain c where
    c: "hdr_WriteAt (junk w) (store w) h ?bs ?n 0 = Inr (?n, c)" "file_ok c h"
      "file_content c h = overlay (file_content (store w) h) 0 ?bs" "\<forall>s. s \<notin> set (header_sectors h) \<longrightarrow> c s = store w s"
    unfolding k by auto
  have "sectors_ok c" using c(2) by (simp add: file_ok_def)
  note st = stored_file_data [OF sf(1) this c(4)]
  have "?n > 0" using n d(3) by (simp add: word_less_nat_alt)
  then have "Directory_WriteBack w f d True = Inr (f, w\<lparr>store := c\<rparr>)"
    using c(1) sf(2,3) by (simp add: Directory_WriteBack_def Let_def OpenFile_WriteAt_def)
  moreover have "file_content c h = ?bs" unfolding c(3) using fo lb sf(4) by (intro overlay_cover) simp
  ultimately show ?thesis using st c(4) by blast
qed

lemma format_disk_ok:
  assumes bl: "blank_header w" and so: "sectors_ok (store w)"
    and oft: "openCount (openFilesTable w DIRECTORY_SECTOR) = 0"
  shows "\<exists>df w' d h. format_disk w = Inr (df, w') \<and> dir_map d = Map.empty \<and> tableSize d = NUM_DIR_ENTRIES
    \<and> (\<forall>l sid. rooted \<lparr>fsw = w', directoryFile = df, directorySize = NUM_DIR_ENTRIES, filesysCreateLock = l,
         spaceId = sid\<rparr> d h)
    \<and> marked (disk_map w') = {FREE_MAP_SECTOR, DIRECTORY_SECTOR} \<union> map_sectors w' \<union> set (header_sectors h)
    \<and> card (marked (disk_map w')) = 6"
proof -
  from format_layout [OF bl] obtain m0 m1 m2 mapH m3 dirH m4 where
    m: "Bitmap_new (junk w) NUM_SECTORS = Inr m0" "Bitmap_Mark m0 FREE_MAP_SECTOR = Inr m1"
      "Bitmap_Mark m1 DIRECTORY_SECTOR = Inr m2"
      "FileHeader_Allocate (raw_header w) m2 (of_nat FREE_MAP_FILE_SIZE) = Inr (True, mapH, m3)"
      "FileHeader_Allocate (raw_header w) m3 (of_nat DIRECTORY_FILE_SIZE) = Inr (True, dirH, m4)" "layout m4 mapH dirH"
    by auto
  have "0 < NUM_DIR_ENTRIES" by (simp add: NUM_DIR_ENTRIES_def)
  from Directory_new_ok [OF this, of "junk w"] obtain d where
    d: "Directory_new (junk w) NUM_DIR_ENTRIES = Inr d" "dir_ok d" "tableSize d = 10" "length (table d) = tableSize d"
      "dir_map d = Map.empty" by (auto simp: NUM_DIR_ENTRIES_def)
  define mh dh where "mh = mapH\<lparr>nextFileHeader := 0\<rparr>" and "dh = dirH\<lparr>nextFileHeader := 0\<rparr>"
  have hs: "header_sectors mh = header_sectors mapH" "header_sectors dh = header_sectors dirH" "header_ok mh" "header_ok dh"
    "unat (numBytes mh) = 128" "unat (numBytes dh) = 320" "nextFileHeader dh = 0"
    using m(6) by (simp_all add: mh_def dh_def header_sectors_def header_ok_def layout_def)
  define c2 where "c2 = (store w)(0 := header_bytes mh, 1 := header_bytes dh)"
  have ld: "length (dataSectors mh) = NUM_DIRECT" "length (dataSectors dh) = NUM_DIRECT" using hs(3,4) by (simp_all add: header_ok_def)
  note lh = length_header_bytes [OF ld(1)] length_header_bytes [OF ld(2)] bytes_header_bytes [OF ld(1)] bytes_header_bytes [OF ld(2)]
  have fh: "FileHeader_WriteBack (store w) mh FREE_MAP_SECTOR = Inr ((store w)(0 := header_bytes mh))"
    "FileHeader_WriteBack ((store w)(0 := header_bytes mh)) dh DIRECTORY_SECTOR = Inr c2"
    "FileHeader_FetchFrom c2 0 = Inr mh" "FileHeader_FetchFrom c2 1 = Inr dh"
    using lh by (simp_all add: FileHeader_WriteBack_def WriteSector_def FREE_MAP_SECTOR_def DIRECTORY_SECTOR_def NUM_SECTORS_def
        FileHeader_FetchFrom_def ReadSector_def c2_def)
  have so2: "sectors_ok c2" using so lh(1,2) by (simp add: sectors_ok_def c2_def)
  obtain mf w1 where o1: "OpenFile_new (w\<lparr>store := c2\<rparr>) FREE_MAP_SECTOR False = Inr (mf, w1)" "hdr mf = mh" "\<not> isBin mf"
    "store w1 = c2" "openFilesTable w1 1 = openFilesTable w 1"
    using fh(3) by (simp add: OpenFile_new_def Let_def FREE_MAP_SECTOR_def)
  obtain df w2 where o2: "OpenFile_new w1 DIRECTORY_SECTOR False = Inr (df, w2)" "hdr df = dh" "\<not> isBin df" "sector df = 1"
    "store w2 = c2" "writeLock (openFilesTable w2 1) = Some None"
    using fh(4) o1(4,5) oft by (simp add: OpenFile_new_def Let_def DIRECTORY_SECTOR_def)
  let ?w2 = "w2\<lparr>freeMapFile := mf\<rparr>"
  have mo: "map_file_ok ?w2" "map_sectors ?w2 = set (header_sectors mapH)"
    using o1(2,3) o2(5) so2 hs(1,3,5) m(6) by (simp_all add: map_file_ok_def disk_file_ok_def file_ok_def layout_def map_sectors_def)
  have "numBits m4 = NUM_SECTORS" "numWords m4 = 32" "length (bits m4) = 32" using m(6) by (simp_all add: layout_def bitmap_ok_def)
  from Bitmap_WriteBack_disk_map [OF mo(1) this] obtain c3 where
    c3: "Bitmap_WriteBack ?w2 mf m4 = Inr (?w2\<lparr>store := c3\<rparr>)" "map_file_ok (?w2\<lparr>store := c3\<rparr>)"
      "disk_map (?w2\<lparr>store := c3\<rparr>) = m4" "\<forall>s. s \<notin> set (header_sectors mapH) \<longrightarrow> c3 s = c2 s"
    using o1(2) o2(5) hs(1) by auto
  let ?w3 = "?w2\<lparr>store := c3\<rparr>"
  have ly: "0 \<notin> set (header_sectors mapH)" "0 \<notin> set (header_sectors dirH)" "1 \<notin> set (header_sectors mapH)"
    "1 \<notin> set (header_sectors dirH)" "set (header_sectors dirH) \<inter> set (header_sectors mapH) = {}"
    "distinct (header_sectors dirH)" "set (header_sectors dirH) \<subseteq> {..<NUM_SECTORS}"
    "marked m4 = {0, 1} \<union> set (header_sectors mapH) \<union> set (header_sectors dirH)"
    "card (marked m4) = 6"
    using m(6) distinct_card [of "[0, 1] @ header_sectors mapH @ header_sectors dirH"] by (auto simp: layout_def)
  have "sectors_ok c3" using c3(2) by (simp add: map_file_ok_def disk_file_ok_def file_ok_def)
  then have "file_ok c3 dh" using hs(2,4) ly(6,7) by (simp add: file_ok_def)
  moreover have f3: "FileHeader_FetchFrom c3 0 = Inr mh" "FileHeader_FetchFrom c3 1 = Inr dh"
    using fh(3,4) c3(4) ly(1,3) by (simp_all add: FileHeader_FetchFrom_def ReadSector_def)
  ultimately have "stored_file ?w3 (sector df) dh"
    using c3(2,3) mo(2) hs(2) ly o2(4) by (auto simp: stored_file_def)
  from first_table_ok [OF this o2(2,3) _ d(2,4)] d(3) hs(6) obtain c4 where
    c4: "Directory_WriteBack ?w3 df d True = Inr (df, ?w3\<lparr>store := c4\<rparr>)" "stored_file (?w3\<lparr>store := c4\<rparr>) 1 dh"
      "disk_map (?w3\<lparr>store := c4\<rparr>) = m4" "file_content c4 dh = table_bytes (table d)"
      "\<forall>s. s \<notin> set (header_sectors dirH) \<longrightarrow> c4 s = c3 s" using c3(3) o2(4) hs(2) by auto
  let ?w4 = "?w3\<lparr>store := c4\<rparr>"
  have "FileHeader_FetchFrom c4 0 = Inr mh"
    using f3(1) c4(5) ly(2) by (simp add: FileHeader_FetchFrom_def ReadSector_def)
  then have "rooted \<lparr>fsw = ?w4, directoryFile = df, directorySize = NUM_DIR_ENTRIES, filesysCreateLock = l, spaceId = sid\<rparr> d dh"
    for l sid using c4(2,4) o1(2) o2(3,4,6) d hs(7)
    by (simp add: rooted_def mounted_def FREE_MAP_SECTOR_def DIRECTORY_SECTOR_def NUM_DIR_ENTRIES_def)
  moreover have "format_disk w = Inr (df, ?w4)"
    using m(1-5) d(1) fh(1,2) o1(1) o2(1) c3(1) c4(1) by (simp add: format_disk_def mh_def dh_def)
  moreover have "marked (disk_map ?w4) = {FREE_MAP_SECTOR, DIRECTORY_SECTOR} \<union> map_sectors ?w4 \<union> set (header_sectors dh)"
    using c4(3) ly(8) mo(2) hs(2) by (simp add: FREE_MAP_SECTOR_def DIRECTORY_SECTOR_def)
  ultimately show ?thesis using d(3,5) c4(3) ly(9) by (auto simp: NUM_DIR_ENTRIES_def)
qed

section \<open>Properties\<close>

text \<open>
  C6. Formatting a disk of full sectors succeeds when the memory of the two new headers happens to
  hold zero in its counters, which the constructor does not set (\<open>blank_header\<close>), and nobody has the
  directory open. Mounting that disk in a later run, from any state of memory in which the directory is not
  open, gives an empty root directory of ten entries and a free map on which exactly six sectors are in use,
  among them the two header sectors and those of the directory. (In the run that formats, the size of the current
  directory is not set, and only a later mount makes the file system usable.)
\<close>

theorem format_then_mount:
  assumes "blank_header w" "sectors_ok (store w)" "openCount (openFilesTable w DIRECTORY_SECTOR) = 0"
  shows "\<exists>fs. FileSystem_new w sid True = Inr fs \<and>
    (\<forall>w2. store w2 = store (fsw fs) \<and> openCount (openFilesTable w2 DIRECTORY_SECTOR) = 0 \<longrightarrow>
      (\<exists>fs2 d h. FileSystem_new w2 sid2 False = Inr fs2 \<and> rooted fs2 d h \<and> dir_map d = Map.empty
        \<and> directorySize fs2 = NUM_DIR_ENTRIES \<and> filesysCreateLock fs2 = Some None
        \<and> {FREE_MAP_SECTOR, DIRECTORY_SECTOR} \<union> set (header_sectors h) \<subseteq> marked (disk_map (fsw fs2))
        \<and> card (marked (disk_map (fsw fs2))) = 6))"
proof -
  from format_disk_ok [OF assms] obtain df w' d h where
    f: "format_disk w = Inr (df, w')" "dir_map d = Map.empty" "tableSize d = NUM_DIR_ENTRIES"
      "rooted \<lparr>fsw = w', directoryFile = df, directorySize = NUM_DIR_ENTRIES, filesysCreateLock = None, spaceId = 0\<rparr> d h"
      "marked (disk_map w') = {FREE_MAP_SECTOR, DIRECTORY_SECTOR} \<union> map_sectors w' \<union> set (header_sectors h)"
      "card (marked (disk_map w')) = 6" by blast
  have "\<exists>fs2 d h. FileSystem_new w2 sid2 False = Inr fs2 \<and> rooted fs2 d h \<and> dir_map d = Map.empty
        \<and> directorySize fs2 = NUM_DIR_ENTRIES \<and> filesysCreateLock fs2 = Some None
        \<and> {FREE_MAP_SECTOR, DIRECTORY_SECTOR} \<union> set (header_sectors h) \<subseteq> marked (disk_map (fsw fs2))
        \<and> card (marked (disk_map (fsw fs2))) = 6"
    if "store w2 = store w'" "openCount (openFilesTable w2 DIRECTORY_SECTOR) = 0" for w2
  proof -
    from mount_ok [OF f(4), of w2 sid2] that obtain fs2 where
      fs2: "FileSystem_new w2 sid2 False = Inr fs2" "rooted fs2 d h" "disk_map (fsw fs2) = disk_map w'"
        "filesysCreateLock fs2 = Some None" by auto
    moreover have "directorySize fs2 = NUM_DIR_ENTRIES" using fs2(2) f(3) by (simp add: rooted_def mounted_def)
    ultimately show ?thesis using f(2,5,6) by auto
  qed
  then show ?thesis using f(1) by (simp add: FileSystem_new_def)
qed

definition blank_world :: world where
  "blank_world = sample_world\<lparr>junk := (\<lambda>_. 0),
     openFilesTable := (\<lambda>s. (openFilesTable sample_world s)\<lparr>openCount := 0\<rparr>)\<rparr>"

lemma blank_world_facts:
  "blank_header blank_world" "sectors_ok (store blank_world)" "openCount (openFilesTable blank_world s) = 0"
  using sample_sectors_ok
  by (simp_all add: blank_world_def blank_header_def raw_header_def bytes_header_def fresh_bytes_def SECTOR_SIZE_def upt_conv_Cons
      slice_def bytes_u32_def)

theorem format_then_mount_witness:
  "\<exists>fs fs2. FileSystem_new blank_world 0 True = Inr fs
    \<and> FileSystem_new (blank_world\<lparr>store := store (fsw fs)\<rparr>) 0 False = Inr fs2 \<and> directorySize fs2 = 10"
proof -
  have ex: "\<exists>fs. P fs \<and> (\<forall>w. A fs w \<longrightarrow> (\<exists>fs2 d h. Q fs2 w \<and> R fs2 d h \<and> S d \<and> T fs2 \<and> U fs2 h)) \<Longrightarrow>
      \<exists>fs. P fs \<and> (\<forall>w. A fs w \<longrightarrow> (\<exists>fs2. Q fs2 w \<and> T fs2))" for P A Q R S T U by blast
  from ex [OF format_then_mount [OF blank_world_facts, of 0 0]] obtain fs where
    fs: "FileSystem_new blank_world 0 True = Inr fs"
    "\<forall>w2. store w2 = store (fsw fs) \<and> openCount (openFilesTable w2 DIRECTORY_SECTOR) = 0 \<longrightarrow>
      (\<exists>fs2. FileSystem_new w2 0 False = Inr fs2 \<and> directorySize fs2 = NUM_DIR_ENTRIES)" by blast
  from fs(2) [rule_format, of "blank_world\<lparr>store := store (fsw fs)\<rparr>"] fs(1) blank_world_facts(3)
  show ?thesis by (simp add: NUM_DIR_ENTRIES_def)
qed

text \<open>The two files a file system keeps open can be closed: nobody holds their locks.\<close>

definition closable :: "FileSystem \<Rightarrow> bool" where
  "closable fs \<longleftrightarrow> \<not> isBin (freeMapFile (fsw fs)) \<and> \<not> isBin (directoryFile fs)
     \<and> closeLock (openFilesTable (fsw fs) (sector (freeMapFile (fsw fs)))) = Some None
     \<and> closeLock (openFilesTable (fsw fs) (sector (directoryFile fs))) = Some None
     \<and> sector (freeMapFile (fsw fs)) \<noteq> sector (directoryFile fs)"

text \<open>Closing a file counts it down and leaves the disk alone.\<close>

lemma OpenFile_Close_ok:
  assumes "\<not> isBin f" "closeLock (openFilesTable w (sector f)) = Some None"
  shows "\<exists>w'. OpenFile_Close w f = Inr w' \<and> store w' = store w
    \<and> openCount (openFilesTable w' (sector f)) = openCount (openFilesTable w (sector f)) - 1
    \<and> (\<forall>s. s \<noteq> sector f \<longrightarrow> openFilesTable w' s = openFilesTable w s)"
  using assms
  by (auto simp: OpenFile_Close_def closeLock_Acquire_def closeLock_Release_def lock_acquire_def lock_release_def oft_update_def
      rassert_def Let_def)

lemma FileSystem_delete_ok:
  assumes "closable fs"
  shows "\<exists>w. FileSystem_delete fs = Inr w \<and> store w = store (fsw fs)
    \<and> openCount (openFilesTable w (sector (directoryFile fs))) = openCount (openFilesTable (fsw fs) (sector (directoryFile fs))) - 1"
proof -
  let ?m = "freeMapFile (fsw fs)" and ?d = "directoryFile fs"
  from OpenFile_Close_ok [of ?m "fsw fs"] assms obtain w1 where
    w1: "OpenFile_Close (fsw fs) ?m = Inr w1" "store w1 = store (fsw fs)"
      "\<forall>s. s \<noteq> sector ?m \<longrightarrow> openFilesTable w1 s = openFilesTable (fsw fs) s" by (auto simp: closable_def)
  moreover from OpenFile_Close_ok [of ?d w1] assms w1(3) obtain w2 where
    "OpenFile_Close w1 ?d = Inr w2" "store w2 = store w1"
      "openCount (openFilesTable w2 (sector ?d)) = openCount (openFilesTable w1 (sector ?d)) - 1" by (auto simp: closable_def)
  ultimately show ?thesis using assms by (auto simp: FileSystem_delete_def closable_def)
qed

text \<open>Mounting leaves the two files closable and open once.\<close>

lemma mount_closable:
  assumes "rooted fs d h" "store w = store (fsw fs)"
    and "\<forall>s \<in> {FREE_MAP_SECTOR, DIRECTORY_SECTOR}. openCount (openFilesTable w s) = 0 \<and> closeLock (openFilesTable w s) \<in> {None, Some None}"
  shows "\<exists>fs'. FileSystem_new w sid False = Inr fs' \<and> rooted fs' d h \<and> store (fsw fs') = store (fsw fs) \<and> closable fs'
    \<and> openCount (openFilesTable (fsw fs') DIRECTORY_SECTOR) = 1"
proof -
  from mount_ok [OF assms(1,2), of sid] assms(3) obtain fs' where
    f: "FileSystem_new w sid False = Inr fs'" "rooted fs' d h" "store (fsw fs') = store (fsw fs)" by auto
  from f(1) obtain mf w1 df w2 where
    o: "OpenFile_new w FREE_MAP_SECTOR False = Inr (mf, w1)"
      "OpenFile_new (w1\<lparr>freeMapFile := mf\<rparr>) DIRECTORY_SECTOR False = Inr (df, w2)" "fsw fs' = w2"
    by (auto simp: FileSystem_new_def res_simps)
  have "sector (freeMapFile w2) = FREE_MAP_SECTOR" "\<not> isBin (freeMapFile w2)"
    "closeLock (openFilesTable w2 FREE_MAP_SECTOR) = Some None" "closeLock (openFilesTable w2 DIRECTORY_SECTOR) = Some None"
    "openCount (openFilesTable w2 DIRECTORY_SECTOR) = 1"
    using o(1,2) assms(3) by (auto simp: OpenFile_new_def Let_def FREE_MAP_SECTOR_def DIRECTORY_SECTOR_def res_simps)
  then show ?thesis using f o(3) by (auto simp: closable_def rooted_def mounted_def FREE_MAP_SECTOR_def DIRECTORY_SECTOR_def)
qed

text \<open>
  C21. A restart. The destructor of a mounted file system whose current directory is the root, with
  nobody inside a close of its two files, returns and leaves every sector of the disk as it was;
  mounting this disk again, in the memory it leaves, when the directory was open once, or from any
  other state of memory in which the directory is not open, gives the same root directory, the same free
  map and every sector as it was.
\<close>

theorem remount_persistent:
  assumes "rooted fs d h" "closable fs"
  shows "\<exists>w. FileSystem_delete fs = Inr w \<and> store w = store (fsw fs)
    \<and> (openCount (openFilesTable (fsw fs) DIRECTORY_SECTOR) = 1 \<longrightarrow> openCount (openFilesTable w DIRECTORY_SECTOR) = 0)
    \<and> (\<forall>w2. store w2 = store w \<and> openCount (openFilesTable w2 DIRECTORY_SECTOR) = 0 \<longrightarrow>
        (\<exists>fs'. FileSystem_new w2 sid False = Inr fs' \<and> rooted fs' d h \<and> store (fsw fs') = store (fsw fs)
          \<and> disk_map (fsw fs') = disk_map (fsw fs) \<and> (\<exists>fs2. load_dir fs' = Inr (d, fs2))))"
proof -
  from FileSystem_delete_ok [OF assms(2)] assms(1) obtain w where
    w: "FileSystem_delete fs = Inr w" "store w = store (fsw fs)"
      "openCount (openFilesTable w DIRECTORY_SECTOR) = openCount (openFilesTable (fsw fs) DIRECTORY_SECTOR) - 1"
    by (auto simp: rooted_def)
  have "\<exists>fs'. FileSystem_new w2 sid False = Inr fs' \<and> rooted fs' d h \<and> store (fsw fs') = store (fsw fs)
          \<and> disk_map (fsw fs') = disk_map (fsw fs) \<and> (\<exists>fs2. load_dir fs' = Inr (d, fs2))"
    if "store w2 = store w" "openCount (openFilesTable w2 DIRECTORY_SECTOR) = 0" for w2
  proof -
    from mount_ok [OF assms(1), of w2 sid] that w(2) obtain fs' where
      fs': "FileSystem_new w2 sid False = Inr fs'" "rooted fs' d h" "store (fsw fs') = store (fsw fs)"
        "disk_map (fsw fs') = disk_map (fsw fs)" by auto
    then show ?thesis using load_dir_ok [of fs' d h] by (auto simp: rooted_def)
  qed
  with w show ?thesis by auto
qed

text \<open>Format, mount, close and mount again in the same memory.\<close>

theorem remount_persistent_witness:
  "\<exists>df w' fs w fs' d. format_disk blank_world = Inr (df, w')
    \<and> FileSystem_new (blank_world\<lparr>store := store w'\<rparr>) 3 False = Inr fs \<and> FileSystem_delete fs = Inr w
    \<and> FileSystem_new w 3 False = Inr fs' \<and> dir_map d = Map.empty \<and> (\<exists>fs2. load_dir fs' = Inr (d, fs2))"
proof -
  from format_disk_ok [OF blank_world_facts] obtain df w' d h where
    f: "format_disk blank_world = Inr (df, w')" "dir_map d = Map.empty"
      "rooted \<lparr>fsw = w', directoryFile = df, directorySize = NUM_DIR_ENTRIES, filesysCreateLock = None, spaceId = 0\<rparr> d h" by blast
  let ?w0 = "blank_world\<lparr>store := store w'\<rparr>"
  have "\<forall>s \<in> {FREE_MAP_SECTOR, DIRECTORY_SECTOR}. openCount (openFilesTable ?w0 s) = 0 \<and> closeLock (openFilesTable ?w0 s) \<in> {None, Some None}"
    using blank_world_facts(3) by (auto simp: blank_world_def sample_world_def)
  from mount_closable [OF f(3) _ this, of 3] obtain fs where
    fs: "FileSystem_new ?w0 3 False = Inr fs" "rooted fs d h" "closable fs" "openCount (openFilesTable (fsw fs) DIRECTORY_SECTOR) = 1"
    by auto
  from remount_persistent [OF fs(2,3), of 3] fs(4) obtain w where
    w: "FileSystem_delete fs = Inr w" "openCount (openFilesTable w DIRECTORY_SECTOR) = 0"
      "\<forall>w2. store w2 = store w \<and> openCount (openFilesTable w2 DIRECTORY_SECTOR) = 0 \<longrightarrow>
        (\<exists>fs'. FileSystem_new w2 3 False = Inr fs' \<and> (\<exists>fs2. load_dir fs' = Inr (d, fs2)))" by blast
  from w(3) [rule_format, of w] w(2) obtain fs' where "FileSystem_new w 3 False = Inr fs'" "\<exists>fs2. load_dir fs' = Inr (d, fs2)" by auto
  with f(1,2) fs(1) w(1) show ?thesis by blast
qed

end
