(* ===== verification/Boot.thy ===== *)
theory Boot
  imports Syscall_Safety Format
begin

text \<open>
  Starting the system: the part of \<open>Initialize\<close> of \<open>threads/system.cc\<close> that builds the state of user
  programs, and \<open>StartProcess\<close> of \<open>userprog/prog_test.cc\<close>, which turns the main thread into the first
  process. The invariants of processes and system calls hold from there on.
\<close>

section \<open>Operations\<close>

text \<open>The table of open files with nothing open.\<close>

definition no_open_files :: "world \<Rightarrow> world" where
  "no_open_files w = w\<lparr>openFilesTable := (\<lambda>s. (openFilesTable w s)\<lparr>openCount := 0, removing := False, removed := False,
     writeLock := None, removeLock := None, closeLock := None\<rparr>)\<rparr>"

text \<open>
  The globals of user programs before any thread exists; \<open>raw\<close>, \<open>size0\<close>, \<open>d0\<close> and \<open>t0\<close> are what fresh
  memory holds, \<open>inp\<close> what will be typed on the console.
\<close>

definition bare_machine :: "(nat \<Rightarrow> TranslationEntry) \<Rightarrow> u32 \<Rightarrow> nat list \<Rightarrow> nat \<Rightarrow> byte list \<Rightarrow> bitmap \<Rightarrow> FileSystem \<Rightarrow> vmachine" where
  "bare_machine raw size0 d0 t0 inp bm fs = Machine.extend (Machine_new (MMU_new raw size0) SYSTEM_MODE)
     \<lparr>addressesBitMap = bm, spaces = (\<lambda>_. None), runningProcesses = Table_new d0 t0, thisThread = 0,
      numFaults = (\<lambda>_. 0), fileSystem = fs, userRegisters = (\<lambda>_. replicate NUM_TOTAL_REGS 0),
      openedFilesTable = (\<lambda>_. Table_new (replicate (nat Table_SIZE) None) None), consoleIn = inp, consoleOut = [],
      freshThread = 0\<rparr>"

text \<open>The result is the space id of the main thread and the state.\<close>

definition Initialize ::
  "(nat \<Rightarrow> TranslationEntry) \<Rightarrow> u32 \<Rightarrow> nat list \<Rightarrow> nat \<Rightarrow> byte list \<Rightarrow> world \<Rightarrow> bool \<Rightarrow> (int \<times> vmachine) res" where
  "Initialize raw size0 d0 t0 inp w format =
     rbind (Bitmap_new (junk w) NUM_PHYS_PAGES) (\<lambda>bm.
     rbind (FileSystem_new (no_open_files w) 0 format) (\<lambda>fs.
     rbind (new_thread (bare_machine raw size0 d0 t0 inp bm fs)) (\<lambda>(t, sid, s).
     rbind (SetExceptionHandlers (s\<lparr>thisThread := t\<rparr>)) (\<lambda>s1. Inr (sid, s1)))))"

text \<open>
  \<open>StartProcess\<close> up to \<open>machine->Run ()\<close>: false when the file cannot be opened.
\<close>

definition StartProgram :: "host_env \<Rightarrow> byte list \<Rightarrow> int \<Rightarrow> vmachine \<Rightarrow> (bool \<times> vmachine) res" where
  "StartProgram env filename sid s =
     rbind (FileSystem_Open (hostOpen env) (caller_fs s) filename True) (\<lambda>(executable, fs).
       let s1 = s\<lparr>fileSystem := fs\<rparr> in
       if executable = None then Inr (False, s1)
       else rbind (AddressSpace_new (hostCreate env) (hostOpen env) executable sid (fileSystem s1)) (\<lambda>(sp, fs1).
            rbind (InitRegisters (thisThread s1) (s1\<lparr>fileSystem := fs1, spaces := (spaces s1)(thisThread s1 \<mapsto> sp)\<rparr>)) (\<lambda>s2.
              Inr (True, RestoreState s2))))"

section \<open>The file system at the start\<close>

lemma format_disk_host:
  assumes "format_disk w = Inr (df, w')"
  shows "hostFiles w' = hostFiles w \<and> \<not> isBin df \<and> \<not> isBin (freeMapFile w')"
proof -
  from assms obtain c2 mf w1 d1 w2 w3 m4 dir where
    o: "OpenFile_new (w\<lparr>store := c2\<rparr>) FREE_MAP_SECTOR False = Inr (mf, w1)" "OpenFile_new w1 DIRECTORY_SECTOR False = Inr (d1, w2)"
      "Bitmap_WriteBack (w2\<lparr>freeMapFile := mf\<rparr>) mf m4 = Inr w3" "Directory_WriteBack w3 d1 dir True = Inr (df, w')"
    unfolding format_disk_def by (auto simp: res_simps)
  note k = OpenFile_new_wkeep [OF o(1)] OpenFile_new_wkeep [OF o(2)]
  have k3: "wkeep (w2\<lparr>freeMapFile := mf\<rparr>) w3" using Bitmap_WriteBack_wkeep [OF o(3)] k by blast
  then have "wkeep w3 w' \<and> \<not> isBin df" using Directory_WriteBack_wkeep [OF o(4)] k by (simp add: wkeep_def)
  then show ?thesis using k k3 by (simp add: wkeep_def)
qed

lemma FileSystem_new_host:
  assumes "FileSystem_new w sid format = Inr fs"
  shows "nachos fs" "hostFiles (fsw fs) = hostFiles w"
proof -
  have "nachos fs \<and> hostFiles (fsw fs) = hostFiles w"
  proof (cases format)
    case True
    then show ?thesis using assms by (auto simp: FileSystem_new_def res_simps nachos_def dest!: format_disk_host)
  next
    case False
    with assms obtain mf w1 df w2 n df' where
      o: "OpenFile_new w FREE_MAP_SECTOR False = Inr (mf, w1)" "OpenFile_new (w1\<lparr>freeMapFile := mf\<rparr>) DIRECTORY_SECTOR False = Inr (df, w2)"
        "read_table_size w2 df = Inr (n, df')" "fs = \<lparr>fsw = w2, directoryFile = df', directorySize = n, filesysCreateLock = Some None, spaceId = sid\<rparr>"
      by (auto simp: FileSystem_new_def res_simps)
    then show ?thesis using OpenFile_new_wkeep [OF o(1)] OpenFile_new_wkeep [OF o(2)] read_table_size_bin [OF o(3)]
      by (simp add: nachos_def wkeep_def)
  qed
  then show "nachos fs" "hostFiles (fsw fs) = hostFiles w" by simp_all
qed

section \<open>The first state\<close>

lemma empty_inv:
  assumes "hw_ok s" "table_ok (runningProcesses s)" "spaces s = (\<lambda>_. None)" "marked (addressesBitMap s) = {}" "tlb_empty s"
  shows "vm_inv s {}"
proof -
  have n: "npages s t = 0" "static s t = None" for t using assms(3) by (simp_all add: npages_def static_def)
  have "\<not> valid (tlbs s ! i)" if "i < length (tlbs s)" for i using assms(5) that by (simp add: tlb_empty_def)
  then have "tlb_ok s" using assms(5) by (auto simp: tlb_ok_def tlb_empty_def)
  with n show ?thesis using assms
    by (simp add: vm_inv_def procs_ok_def files_ok_def pages_ok_def owned_ok_def resid_def content_ok_def del: static_None)
qed

lemma Add_fresh:
  assumes "length d0 = nat Table_SIZE"
  shows "\<exists>t'. Table_Add (Table_new d0 t0) x = Inr (0, t') \<and> table_ok t' \<and> table_map t' = [0 \<mapsto> x]"
proof -
  have "table_ok (Table_new d0 t0)" "table_map (Table_new d0 t0) = Map.empty" using table_ok_new [OF assms, of t0] by simp_all
  moreover have "freed (Table_new d0 t0) = []" "current (Table_new d0 t0) = 0" by (simp_all add: Table_new_def)
  ultimately show ?thesis using Add_new [of "Table_new d0 t0" x] by (simp add: Table_SIZE_def)
qed

lemma Table_Add_small: "Table_Add t x = Inr (i, t') \<Longrightarrow> freed t = [] \<Longrightarrow> current t < Table_SIZE \<Longrightarrow> freed t' = [] \<and> current t' = current t + 1"
  by (auto simp: Table_Add_def data_set_def res_simps split: if_splits)

lemma new_files_nachos: "\<exists>tbl. new_files = Inr tbl \<and> files_nachos tbl"
proof -
  let ?t = "Table_new (replicate (nat Table_SIZE) None) None :: OpenFile option table"
  from Add_fresh [of "replicate (nat Table_SIZE) None" None None] obtain t1 where
    t1: "Table_Add ?t None = Inr (0, t1)" "table_ok t1" by auto
  have "freed ?t = []" "current ?t = 0" by (simp_all add: Table_new_def)
  with Table_Add_small [OF t1(1)] have "freed t1 = []" "current t1 < Table_SIZE" by (simp_all add: Table_SIZE_def)
  from Add_new [OF t1(2) this] obtain j t2 where t2: "Table_Add t1 None = Inr (j, t2)" by blast
  have "files_nachos ?t" by (simp add: files_nachos_def Table_new_def)
  then have "files_nachos t1" by (rule Table_Add_nachos [OF t1(1)]) simp
  then have "files_nachos t2" by (rule Table_Add_nachos [OF t2]) simp
  then show ?thesis using t1(1) t2 by (simp add: new_files_def)
qed

lemma Initialize_ok:
  assumes "FileSystem_new (no_open_files w) 0 format = Inr fs" "length d0 = nat Table_SIZE"
  shows "\<exists>s. Initialize raw size0 d0 t0 inp w format = Inr (0, s) \<and> sys_ok s \<and> tlb_empty s \<and> registers s = replicate NUM_TOTAL_REGS 0
    \<and> spaces s = (\<lambda>_. None) \<and> fileSystem s = fs \<and> thisThread s = 0 \<and> table_map (runningProcesses s) = [0 \<mapsto> 0] \<and> freshThread s = 1
    \<and> freed (runningProcesses s) = [] \<and> current (runningProcesses s) = 1 \<and> userRegisters s = (\<lambda>_. replicate NUM_TOTAL_REGS 0)
    \<and> hostFiles (disk_world s) = hostFiles w"
proof -
  from bitmap_new [of NUM_PHYS_PAGES "junk w"] obtain bm where
    bm: "Bitmap_new (junk w) NUM_PHYS_PAGES = Inr bm" "bitmap_ok bm" "numBits bm = NUM_PHYS_PAGES" "marked bm = {}"
    by (auto simp: NUM_PHYS_PAGES_def)
  let ?m = "bare_machine raw size0 d0 t0 inp bm fs"
  from new_files_nachos obtain fls where fls: "new_files = Inr fls" "files_nachos fls" by blast
  from Add_fresh [OF assms(2), of t0 0] obtain tbl where
    tbl: "Table_Add (Table_new d0 t0) 0 = Inr (0, tbl)" "table_ok tbl" "table_map tbl = [0 \<mapsto> 0]" by blast
  have cur: "freed tbl = []" "current tbl = 1" using Table_Add_small [OF tbl(1)] by (simp_all add: Table_new_def Table_SIZE_def)
  let ?s = "?m\<lparr>freshThread := 1, runningProcesses := tbl, openedFilesTable := (openedFilesTable ?m)(0 := fls)\<rparr>"
  have nt: "new_thread ?m = Inr (0, 0, ?s\<lparr>thisThread := 0\<rparr>)"
    unfolding new_thread_def fls(1) using tbl(1) by (simp add: bare_machine_def Machine.defs fun_upd_idem)
  from SetExceptionHandlers_set [of ?s] obtain s where
    s: "SetExceptionHandlers ?s = Inr s" "handlers_set s" "s = ?s\<lparr>handlers := handlers s\<rparr>" by blast
  have th: "?s\<lparr>thisThread := 0\<rparr> = ?s" by (simp add: bare_machine_def Machine.defs)
  obtain hs where hs: "s = ?s\<lparr>handlers := hs\<rparr>" using s(3) by blast
  have f: "registers s = replicate NUM_TOTAL_REGS 0" "spaces s = (\<lambda>_. None)" "fileSystem s = fs" "thisThread s = 0"
    "runningProcesses s = tbl" "freshThread s = 1" "mmu s = MMU_new raw size0" "addressesBitMap s = bm"
    "openedFilesTable s = (\<lambda>_. Table_new (replicate (nat Table_SIZE) None) None)(0 := fls)" "userRegisters s = (\<lambda>_. replicate NUM_TOTAL_REGS 0)"
    unfolding hs by (simp_all add: bare_machine_def Machine.defs Machine_new_def)
  have te: "tlb_empty s" using f(7) by (simp add: tlb_empty_def MMU_new_def)
  have "hw_ok s" using f(7,8) bm by (simp add: hw_ok_def MMU_new_def)
  then have "vm_inv s {}" using empty_inv [of s] te f(2,5,8) tbl(2) bm(4) by simp
  then have "ready s" using s(2) f(1) by (simp add: ready_def reg_defs)
  moreover have "\<forall>t. files_nachos (openedFilesTable s t)" using f(9) fls(2) by (simp add: files_nachos_def Table_new_def)
  ultimately have "sys_ok s" using FileSystem_new_host [OF assms(1)] f(3) by (simp add: sys_ok_def)
  moreover have "hostFiles (fsw fs) = hostFiles w" using FileSystem_new_host [OF assms(1)] by (simp add: no_open_files_def)
  moreover have "Initialize raw size0 d0 t0 inp w format = Inr (0, s)"
    using bm(1) assms(1) nt s(1) th by (simp add: Initialize_def)
  ultimately show ?thesis using te f tbl(3) cur by (intro exI [of _ s]) simp
qed

section \<open>Loading a program\<close>

text \<open>The executable \<open>x\<close> and the new swap file \<open>fd\<close> are not in use as swap files, and \<open>fd\<close> is no executable.\<close>

definition fresh_fds :: "vmachine \<Rightarrow> nat \<Rightarrow> nat \<Rightarrow> bool" where
  "fresh_fds s x fd \<longleftrightarrow> x \<noteq> fd \<and> (\<forall>p. static s p \<noteq> None \<longrightarrow> fd \<notin> {hostFd (openSwapFile (st s p)), hostFd (exeFile (st s p))}
     \<and> x \<noteq> hostFd (openSwapFile (st s p)))"

text \<open>The state holds a process for thread \<open>t\<close> with the program's image, next to the processes of \<open>s\<close>.\<close>

definition has_program :: "vmachine \<Rightarrow> vmachine \<Rightarrow> nat \<Rightarrow> byte list \<Rightarrow> nat \<Rightarrow> bool" where
  "has_program s s' t img n \<longleftrightarrow> npages s' = (npages s)(t := n) \<and> (\<forall>p v. p \<noteq> t \<and> v < npages s p \<longrightarrow> vpage s' p v = vpage s p v)
     \<and> (\<forall>v < n. vpage s' t v = image_page img (v * PAGE_SIZE))"

lemma program_pages_small: "length cd + length dt + unat bss + USER_STACK_SIZE < 2147483521 \<Longrightarrow> program_pages cd dt bss \<le> 16777216"
  by (simp add: program_pages_def PAGE_SIZE_def SECTOR_SIZE_def)

lemma program_pages_pos: "0 < program_pages cd dt bss"
  by (simp add: program_pages_def PAGE_SIZE_def SECTOR_SIZE_def USER_STACK_SIZE_def)

lemma load_ok:
  assumes "vm_inv s {}" "spaces s t = None" "table_map (runningProcesses s) sid = Some t"
    and "isBin ef" "is_noff (hostFiles (disk_world s) (hostFd ef)) cd dt bss" "hostOp (swap_name sid) = int fd"
    and "length cd + length dt + unat bss + USER_STACK_SIZE < 2147483521" "fresh_fds s (hostFd ef) fd"
  shows "\<exists>sp. AddressSpace_new hostCr hostOp (Some ef) sid (fileSystem s) = Inr (sp, fileSystem s)
    \<and> numPages sp = of_nat (program_pages cd dt bss) \<and> length (pages sp) = program_pages cd dt bss
    \<and> exeFile sp = ef \<and> hostFd (openSwapFile sp) = fd
    \<and> vm_inv (s\<lparr>spaces := (spaces s)(t \<mapsto> sp)\<rparr>) {}
    \<and> has_program s (s\<lparr>spaces := (spaces s)(t \<mapsto> sp)\<rparr>) t (cd @ dt) (program_pages cd dt bss)"
proof -
  have "length cd + length dt + unat bss + USER_STACK_SIZE < 2147483648" using assms(7) by simp
  from AddressSpace_new_noff [where hostOpen = hostOp and hostCreate = hostCr and sid = sid and fs = "fileSystem s", OF assms(4,5,6) this] obtain sp where
    sp: "AddressSpace_new hostCr hostOp (Some ef) sid (fileSystem s) = Inr (sp, fileSystem s)" "noff_space (disk_world s) sp cd dt"
      "addressSpaceId sp = sid" "exeFile sp = ef" "isBin (openSwapFile sp)" "hostFd (openSwapFile sp) = fd"
      "pages sp = map fresh_page [0..<program_pages cd dt bss]" "numPages sp = of_nat (program_pages cd dt bss)" by blast
  have "fresh_files s sp" using assms(4,8) sp(4-6) by (simp add: fresh_files_def fresh_fds_def)
  from new_space_inv [OF assms(1,2) _ this sp(2,7) program_pages_small [OF assms(7)] refl] sp(3) assms(3)
  show ?thesis using sp(1,4,6-8) by (intro exI [of _ sp]) (simp add: has_program_def)
qed

lemma Open_host: "hostOp nm = int x \<Longrightarrow> \<exists>ef. FileSystem_Open hostOp fs nm True = Inr (Some ef, fs) \<and> isBin ef \<and> hostFd ef = x"
  by (simp add: FileSystem_Open_def OpenFile_new_def)

lemma same_memory_has_program:
  assumes "same_memory s s1" "has_program s1 s2 t img n"
  shows "has_program s s2 t img n"
  using assms by (simp add: has_program_def same_memory_def)

lemma has_program_same_memory:
  assumes "has_program s s1 t img n" "same_memory s1 s2"
  shows "has_program s s2 t img n"
  using assms by (auto simp: has_program_def same_memory_def)

lemma caller_fs_isolated: "sys_ok s \<Longrightarrow> isolated w s (s\<lparr>fileSystem := caller_fs s\<rparr>)"
  by (rule file_system_isolated) (auto intro: fs_keep_refl caller_nachos)

lemma isolated_memory: "isolated False s s' \<Longrightarrow> same_memory s s'"
  by (simp add: isolated_def same_memory_def)

lemma StartProgram_ok:
  assumes "sys_ok s" "tlb_empty s" "registers s ! 0 = 0" "spaces s (thisThread s) = None"
    and "table_map (runningProcesses s) sid = Some (thisThread s)"
    and "hostOpen env filename = int x" "is_noff (hostFiles (disk_world s) x) cd dt bss" "hostOpen env (swap_name sid) = int fd"
    and "length cd + length dt + unat bss + USER_STACK_SIZE < 2147483521" "fresh_fds s x fd"
  shows "\<exists>s'. StartProgram env filename sid s = Inr (True, s') \<and> sys_ok s' \<and> tlb_empty s' \<and> thisThread s' = thisThread s
    \<and> has_program s s' (thisThread s) (cd @ dt) (program_pages cd dt bss) \<and> registers s' = start_registers (program_pages cd dt bss)
    \<and> runningProcesses s' = runningProcesses s \<and> freshThread s' = freshThread s \<and> userRegisters s' = userRegisters s
    \<and> hostFiles (disk_world s') = hostFiles (disk_world s)
    \<and> (\<exists>sp. spaces s' = (spaces s)(thisThread s \<mapsto> sp) \<and> hostFd (exeFile sp) = x \<and> hostFd (openSwapFile sp) = fd)"
proof -
  let ?N = "program_pages cd dt bss" and ?t = "thisThread s" and ?s1 = "s\<lparr>fileSystem := caller_fs s\<rparr>"
  have k: "isolated False s ?s1" by (rule caller_fs_isolated [OF assms(1)])
  note m = isolated_memory [OF k] and o = isolated_ok [OF k]
  from Open_host [of "hostOpen env", OF assms(6), of "caller_fs s"] obtain ef where
    ef: "FileSystem_Open (hostOpen env) (caller_fs s) filename True = Inr (Some ef, caller_fs s)" "isBin ef" "hostFd ef = x" by blast
  have h: "is_noff (hostFiles (disk_world ?s1) (hostFd ef)) cd dt bss" using assms(7) ef(3) by (simp add: caller_fs_def)
  have ff: "fresh_fds ?s1 (hostFd ef) fd" using assms(10) m ef(3) by (simp add: fresh_fds_def same_memory_def del: static_None)
  have pre: "vm_inv ?s1 {}" "spaces ?s1 ?t = None" "table_map (runningProcesses ?s1) sid = Some ?t"
    using o assms(4,5) by (simp_all add: sys_ok_def ready_def)
  from load_ok [where hostOp = "hostOpen env" and hostCr = "hostCreate env", OF pre ef(2) h assms(8,9) ff] obtain sp where
    sp: "AddressSpace_new (hostCreate env) (hostOpen env) (Some ef) sid (caller_fs s) = Inr (sp, caller_fs s)" "numPages sp = of_nat ?N"
      "vm_inv (?s1\<lparr>spaces := (spaces ?s1)(?t \<mapsto> sp)\<rparr>) {}" "has_program ?s1 (?s1\<lparr>spaces := (spaces ?s1)(?t \<mapsto> sp)\<rparr>) ?t (cd @ dt) ?N"
      "exeFile sp = ef" "hostFd (openSwapFile sp) = fd" by auto
  let ?s2 = "?s1\<lparr>spaces := (spaces ?s1)(?t \<mapsto> sp)\<rparr>"
  have rl: "length (registers ?s2) = NUM_TOTAL_REGS" using assms(1) by (simp add: sys_ok_def ready_def)
  have ir: "InitRegisters ?t ?s2 = Inr (?s2\<lparr>registers := start_registers ?N\<rparr>)"
    by (rule InitRegisters_ok [OF _ sp(2) program_pages_pos rl]) (use assms(3) in simp_all)
  let ?s3 = "RestoreState (?s2\<lparr>registers := start_registers ?N\<rparr>)"
  have hs: "handlers_set ?s2" "tlb_empty ?s2" using assms(1,2) by (simp_all add: sys_ok_def ready_def handlers_set_def tlb_empty_def)
  then have "handlers ?s2 PAGE_FAULT_EXCEPTION = Some TLB_HANDLER" "fault_code TLB_HANDLER = TLBPageFaultHandler"
    by (simp_all add: handlers_set_def fault_code_def)
  note v = start_view [where krn = fault_code and n = ?N, OF sp(3) hs(2) this refl]
  have "sys_ok ?s3" using v(1,4) hs(1) assms(1) caller_nachos [OF assms(1)]
    by (simp add: sys_ok_def ready_def user_good_def handlers_set_def RestoreState_def start_registers_def reg_defs STACK_REG_def)
  moreover have "tlb_empty ?s3" using sp(3) by (auto simp: tlb_empty_def RestoreState_def vm_inv_def hw_ok_def)
  moreover have "has_program s ?s3 ?t (cd @ dt) ?N"
    by (rule has_program_same_memory [OF same_memory_has_program [OF m sp(4)] v(6)])
  moreover have "StartProgram env filename sid s = Inr (True, ?s3)" using ef(1) sp(1) ir by (simp add: StartProgram_def Let_def)
  moreover have "spaces ?s3 = (spaces s)(?t \<mapsto> sp)" "hostFd (exeFile sp) = x" using sp(5) ef(3) by (simp_all add: RestoreState_def)
  moreover have "runningProcesses ?s3 = runningProcesses s" "freshThread ?s3 = freshThread s" "userRegisters ?s3 = userRegisters s"
    "hostFiles (disk_world ?s3) = hostFiles (disk_world s)" by (simp_all add: RestoreState_def caller_fs_def)
  ultimately show ?thesis using v(4,7) sp(6) by (intro exI [of _ ?s3]) auto
qed

section \<open>Exec\<close>

lemma Table_Add_free:
  assumes "table_ok t" "Table_Add t x = Inr (i, t')" "0 \<le> i"
  shows "table_ok t' \<and> table_map t i = None \<and> table_map t' = (table_map t)(i \<mapsto> x)"
proof (cases "freed t")
  case Nil
  have "current t \<noteq> Table_SIZE" using assms(2,3) Nil by (auto simp: Table_Add_def)
  then have "current t < Table_SIZE" using assms(1) by (simp add: table_ok_def)
  from Add_new [OF assms(1) Nil this, of x] assms(2) show ?thesis by auto
next
  case (Cons p rest)
  obtain j k where "p = (j, k)" by (cases p)
  with Add_reuse [OF assms(1), of j k rest x] Cons assms(2) show ?thesis by auto
qed

lemma processes_inv:
  assumes "vm_inv s {}" "table_ok tbl" "\<forall>i t. table_map (runningProcesses s) i = Some t \<longrightarrow> table_map tbl i = Some t"
  shows "vm_inv (s\<lparr>runningProcesses := tbl\<rparr>) {}" "same_memory s (s\<lparr>runningProcesses := tbl\<rparr>)"
proof -
  let ?s = "s\<lparr>runningProcesses := tbl\<rparr>"
  note inv = assms(1) [unfolded vm_inv_def]
  have f: "npages ?s = npages s" "pg ?s = pg s" "static ?s = static s" "init_res ?s = init_res s" "swap ?s = swap s"
    by (simp_all add: fun_eq_iff npages_def pg_def static_def init_res_def swap_def)
  have g: "resid ?s = resid s" "vpage ?s = vpage s" "is_dirty ?s = is_dirty s" "init_page ?s = init_page s" "cached_ok ?s = cached_ok s"
    by (simp_all add: fun_eq_iff resid_def vpage_def is_dirty_def init_page_def cached_ok_def f)
  have "procs_ok ?s" using inv assms(2,3) by (auto simp: procs_ok_def f simp del: static_None)
  then show "vm_inv ?s {}" using inv
    by (simp add: vm_inv_def hw_ok_def files_ok_def pages_ok_def owned_ok_def tlb_ok_def content_ok_def f g del: static_None)
  show "same_memory s ?s" by (simp add: same_memory_def f g)
qed

lemma new_thread_ok:
  assumes "sys_ok s" "spaces s (freshThread s) = None" "Table_Add (runningProcesses s) (freshThread s) = Inr (sid, tbl)" "0 \<le> sid"
  shows "\<exists>s'. new_thread s = Inr (freshThread s, sid, s') \<and> isolated False s s' \<and> runningProcesses s' = tbl
    \<and> table_map tbl sid = Some (freshThread s) \<and> spaces s' = spaces s \<and> fileSystem s' = fileSystem s \<and> registers s' = registers s"
proof -
  let ?t = "freshThread s"
  from new_files_nachos obtain fls where fls: "new_files = Inr fls" "files_nachos fls" by blast
  have i: "vm_inv s {}" "table_ok (runningProcesses s)" using assms(1) by (simp_all add: sys_ok_def ready_def vm_inv_def procs_ok_def)
  note a = Table_Add_free [OF i(2) assms(3,4)]
  let ?s1 = "s\<lparr>runningProcesses := tbl\<rparr>"
  have "\<forall>i t. table_map (runningProcesses s) i = Some t \<longrightarrow> table_map tbl i = Some t" using a by auto
  note p = processes_inv [OF i(1) conjunct1 [OF a] this]
  have o: "sys_ok ?s1" using assms(1) p(1) by (simp add: sys_ok_def ready_def handlers_set_def)
  have k: "isolated False s ?s1" using p(2) o by (simp add: isolated_def same_memory_def)
  let ?s2 = "?s1\<lparr>freshThread := ?t + 1, spaces := (spaces s)(?t := None), numFaults := (numFaults s)(?t := 0),
    openedFilesTable := (openedFilesTable s)(?t := fls)\<rparr>"
  have sp: "(spaces s)(?t := None) = spaces s" using assms(2) by (simp add: fun_upd_idem)
  have "same_view ?s1 ?s2" unfolding sp by (simp add: same_view_def fun_eq_iff npages_def pg_def static_def)
  then have "isolated False ?s1 ?s2" using o fls(2) assms(1)
    by (intro view_isolated) (simp_all add: sys_ok_def)
  with k have "isolated False s ?s2" by (rule isolated_trans)
  moreover have "new_thread s = Inr (?t, sid, ?s2)" unfolding new_thread_def fls(1) using assms(3) by (simp add: Let_def)
  ultimately show ?thesis using a sp by auto
qed

text \<open>What \<open>Exec\<close> finds in the memory of the caller, and the host's files.\<close>

definition exec_args :: "vmachine \<Rightarrow> byte list \<Rightarrow> byte list list \<Rightarrow> bool" where
  "exec_args s nm args \<longleftrightarrow> (\<exists>a p. registers s ! 4 = of_nat a \<and> 0 < a \<and> a + length nm < utop s \<and> map (umem s) [a..<a + length nm + 1] = nm @ [0]
     \<and> registers s ! 5 = of_nat p \<and> argv_at (umem s) (utop s) p args)
     \<and> 0 \<notin> set nm \<and> length nm \<le> FILE_NAME_MAX_LEN \<and> args_ok args"

definition exec_host :: "host_env \<Rightarrow> vmachine \<Rightarrow> byte list \<Rightarrow> int \<Rightarrow> byte list \<Rightarrow> byte list \<Rightarrow> u32 \<Rightarrow> bool" where
  "exec_host env s nm sid cd dt bss \<longleftrightarrow> (\<exists>x fd. hostOpen env nm = int x \<and> is_noff (hostFiles (disk_world s) x) cd dt bss
     \<and> hostOpen env (swap_name sid) = int fd \<and> fresh_fds s x fd)
     \<and> length cd + length dt + unat bss + USER_STACK_SIZE < 1073741824"

lemma exec_reads:
  assumes "sys_ok s" "exec_args s nm args"
  shows "\<exists>s1 s2. ReadStringFromUser fault_code raw (registers s ! 4) (FILE_NAME_MAX_LEN + 1) s = Inr (True, nm @ [0], s1)
    \<and> SaveArgs fault_code raw (registers s ! 5) s1 = Inr (Some args, s2) \<and> calm False s s2 \<and> registers s ! 4 \<noteq> 0 \<and> registers s ! 5 \<noteq> 0"
proof -
  from assms(2) obtain a p where a: "registers s ! 4 = of_nat a" "0 < a" "a + length nm < utop s" "map (umem s) [a..<a + length nm + 1] = nm @ [0]"
    and p: "registers s ! 5 = of_nat p" "argv_at (umem s) (utop s) p args" and n: "0 \<notin> set nm" "length nm \<le> FILE_NAME_MAX_LEN" "args_ok args"
    by (auto simp: exec_args_def)
  note r = sys_ready [OF assms(1)]
  have g: "user_good fault_code s" by (rule ready_good [OF r])
  have top: "utop s \<le> 4294967296" using g utop_bound by (auto simp: user_good_def)
  have nz: "(of_nat k :: u32) \<noteq> 0" if "0 < k" "k < utop s" for k
    using that top unat_small [of k] by (metis less_le_trans neq0_conv unsigned_0)
  have cs: "c_string (nm @ [0])" using n(1) by (simp add: c_string_def)
  have pl: "0 < p" "p < utop s" using p(2) by (auto simp: argv_at_def)
  from uvm.ReadStringFromUser_ok [OF g, of a "nm @ [0]" "FILE_NAME_MAX_LEN + 1" raw] a n(2) cs nz [of a] obtain s1 where
    s1: "ReadStringFromUser fault_code raw (of_nat a) (FILE_NAME_MAX_LEN + 1) s = Inr (True, nm @ [0], s1)"
      "user_good fault_code s1" "umem s1 = umem s" "utop s1 = utop s" by (auto simp: uvm.kept_def)
  from uvm.SaveArgs_ok [OF s1(2), of p args raw] p(2) n(3) s1(3,4) obtain s2 where
    s2: "SaveArgs fault_code raw (of_nat p) s1 = Inr (Some args, s2)" by auto
  have c: "calm False s s1" by (rule ReadStringFromUser_calm [OF r s1(1)])
  have "calm False s s2" by (rule calm_trans [OF c SaveArgs_calm [OF calm_ready [OF c] s2]])
  then show ?thesis using s1(1) s2 a(1,2,3) p(1) nz [of a] nz [OF pl] by simp
qed

text \<open>The new process exists next to the others; its thread is handed to the thread system with the arguments.\<close>

lemma load_process:
  assumes "sys_ok s" "spaces s (freshThread s) = None" "Table_Add (runningProcesses s) (freshThread s) = Inr (sid, tbl)" "0 \<le> sid"
    and "exec_host env s nm sid cd dt bss"
  shows "\<exists>ef s4 sp. FileSystem_Open (hostOpen env) (fileSystem s) nm True = Inr (Some ef, fileSystem s)
    \<and> new_thread s = Inr (freshThread s, sid, s4)
    \<and> AddressSpace_new (hostCreate env) (hostOpen env) (Some ef) sid (fileSystem s4) = Inr (sp, fileSystem s4)
    \<and> (let s' = s4\<lparr>spaces := (spaces s4)(freshThread s \<mapsto> sp)\<rparr> in sys_ok s' \<and> has_program s s' (freshThread s) (cd @ dt) (program_pages cd dt bss)
         \<and> thisThread s' = thisThread s \<and> registers s' = registers s \<and> userRegisters s' = userRegisters s
         \<and> (\<exists>q. spaces s' (freshThread s) = Some q \<and> numPages q = of_nat (program_pages cd dt bss) \<and> length (pages q) = program_pages cd dt bss))"
proof -
  let ?t = "freshThread s" and ?N = "program_pages cd dt bss"
  from assms(5) obtain x fd where x: "hostOpen env nm = int x" "is_noff (hostFiles (disk_world s) x) cd dt bss"
      "hostOpen env (swap_name sid) = int fd" "fresh_fds s x fd" and sz: "length cd + length dt + unat bss + USER_STACK_SIZE < 2147483521"
    by (auto simp: exec_host_def)
  from Open_host [of "hostOpen env", OF x(1), of "fileSystem s"] obtain ef where
    ef: "FileSystem_Open (hostOpen env) (fileSystem s) nm True = Inr (Some ef, fileSystem s)" "isBin ef" "hostFd ef = x" by blast
  from new_thread_ok [OF assms(1-4)] obtain s4 where s4: "new_thread s = Inr (?t, sid, s4)" "isolated False s s4" "runningProcesses s4 = tbl"
      "table_map tbl sid = Some ?t" "spaces s4 = spaces s" "fileSystem s4 = fileSystem s" "registers s4 = registers s" by blast
  have ur: "userRegisters s4 = userRegisters s" using s4(1) by (auto simp: new_thread_def Let_def res_simps)
  note m = isolated_memory [OF s4(2)] and o = isolated_ok [OF s4(2)]
  have pre: "vm_inv s4 {}" "spaces s4 ?t = None" "table_map (runningProcesses s4) sid = Some ?t"
    using o assms(2) s4(3-5) by (simp_all add: sys_ok_def ready_def)
  have h: "is_noff (hostFiles (disk_world s4) (hostFd ef)) cd dt bss" using x(2) ef(3) s4(6) by simp
  have ff: "fresh_fds s4 (hostFd ef) fd" using x(4) m ef(3) by (simp add: fresh_fds_def same_memory_def del: static_None)
  from load_ok [where hostOp = "hostOpen env" and hostCr = "hostCreate env", OF pre ef(2) h x(3) sz ff] obtain sp where
    sp: "AddressSpace_new (hostCreate env) (hostOpen env) (Some ef) sid (fileSystem s4) = Inr (sp, fileSystem s4)"
      "numPages sp = of_nat ?N" "length (pages sp) = ?N"
      "vm_inv (s4\<lparr>spaces := (spaces s4)(?t \<mapsto> sp)\<rparr>) {}" "has_program s4 (s4\<lparr>spaces := (spaces s4)(?t \<mapsto> sp)\<rparr>) ?t (cd @ dt) ?N" by blast
  let ?s = "s4\<lparr>spaces := (spaces s4)(?t \<mapsto> sp)\<rparr>"
  have "sys_ok ?s" using o sp(4) by (simp add: sys_ok_def ready_def handlers_set_def)
  moreover have "has_program s ?s ?t (cd @ dt) ?N" by (rule same_memory_has_program [OF m sp(5)])
  moreover have "thisThread s4 = thisThread s" using m by (simp add: same_memory_def)
  ultimately show ?thesis using ef(1) s4(1,7) sp(1-3) ur by (intro exI [of _ ef] exI [of _ s4] exI [of _ sp]) (simp add: Let_def)
qed

lemma exec_host_cong:
  assumes "exec_host env s nm sid cd dt bss" "static s' = static s" "\<And>x. x \<notin> swap_fds s \<Longrightarrow> hostFiles (disk_world s') x = hostFiles (disk_world s) x"
  shows "exec_host env s' nm sid cd dt bss"
proof -
  from assms(1) obtain x fd where x: "hostOpen env nm = int x" "is_noff (hostFiles (disk_world s) x) cd dt bss"
      "hostOpen env (swap_name sid) = int fd" "fresh_fds s x fd" and sz: "length cd + length dt + unat bss + USER_STACK_SIZE < 1073741824"
    by (auto simp: exec_host_def)
  have "x \<notin> swap_fds s" using x(4) by (force simp: fresh_fds_def swap_fds_def simp del: static_None)
  moreover have "fresh_fds s' x fd" using x(4) assms(2) by (simp add: fresh_fds_def del: static_None)
  ultimately show ?thesis using x assms(3) sz by (auto simp: exec_host_def)
qed

lemma has_program_after:
  assumes "has_program s s1 t img n" "isolated False s1 s2"
  shows "has_program s s2 t img n"
  by (rule has_program_same_memory [OF assms(1) isolated_memory [OF assms(2)]])

text \<open>What \<open>Exec\<close> needs of the kernel: a free place in the table of processes, under the number \<open>sid\<close>.\<close>

definition exec_room :: "vmachine \<Rightarrow> int \<Rightarrow> bool" where
  "exec_room s sid \<longleftrightarrow> spaces s (freshThread s) = None \<and> 0 \<le> sid \<and> (\<exists>tbl. Table_Add (runningProcesses s) (freshThread s) = Inr (sid, tbl))"

lemma name_of_string: "0 \<notin> set nm \<Longrightarrow> name_of (nm @ [0]) = nm"
  by (auto simp: name_of_def takeWhile_append)

lemma sys_exec_ok:
  assumes "sys_ok s" "no_load s" "exec_args s nm args" "exec_room s sid" "exec_host env s nm sid cd dt bss"
  shows "\<exists>s'. sys_exec env fault_code s = Inr (Some (ForkThread (freshThread s) (registers s ! 6 \<noteq> 0) (Some args)), s') \<and> sys_ok s'
    \<and> has_program s s' (freshThread s) (cd @ dt) (program_pages cd dt bss) \<and> thisThread s' = thisThread s
    \<and> registers s' ! 2 = of_int sid \<and> registers s' ! 0 = 0 \<and> userRegisters s' = userRegisters s
    \<and> (\<exists>q. spaces s' (freshThread s) = Some q \<and> numPages q = of_nat (program_pages cd dt bss) \<and> length (pages q) = program_pages cd dt bss)"
proof -
  let ?t = "freshThread s" and ?N = "program_pages cd dt bss"
  from exec_reads [OF assms(1,3)] obtain s1 s2 where
    r: "ReadStringFromUser fault_code (rawWord env) (registers s ! 4) (FILE_NAME_MAX_LEN + 1) s = Inr (True, nm @ [0], s1)"
      "SaveArgs fault_code (rawWord env) (registers s ! 5) s1 = Inr (Some args, s2)" and c: "calm False s s2" and nz: "registers s ! 4 \<noteq> 0" "registers s ! 5 \<noteq> 0" by blast
  let ?s3 = "s2\<lparr>fileSystem := caller_fs s2\<rparr>"
  have q: "quiet s s2" "same_regs s s2" using c by (simp_all add: calm_def)
  note ax = aux_parts [of s2 s]
  have i2: "isolated False s s2" by (rule calm_isolated [OF c assms(1)])
  have i3: "isolated False s ?s3" by (rule isolated_trans [OF i2 caller_fs_isolated [OF isolated_ok [OF i2]]])
  have f: "freshThread ?s3 = ?t" "runningProcesses ?s3 = runningProcesses s" "static ?s3 = static s" "userRegisters ?s3 = userRegisters s"
    using q(1) i3 by (simp_all add: quiet_def aux_def isolated_def)
  have host: "exec_host env ?s3 nm sid cd dt bss"
    by (rule exec_host_cong [OF assms(5) f(3)]) (use q(1) in \<open>simp add: quiet_def caller_fs_def\<close>)
  from assms(4) obtain tbl where tbl: "spaces s ?t = None" "0 \<le> sid" "Table_Add (runningProcesses s) ?t = Inr (sid, tbl)" by (auto simp: exec_room_def)
  have "spaces ?s3 ?t = None" using f(3) tbl(1) static_None by metis
  from load_process [where env = env and nm = nm, OF isolated_ok [OF i3], unfolded f(1,2), OF this tbl(3,2) host] obtain ef s4 sp where
    l: "FileSystem_Open (hostOpen env) (caller_fs s2) nm True = Inr (Some ef, caller_fs s2)" "new_thread ?s3 = Inr (?t, sid, s4)"
      "AddressSpace_new (hostCreate env) (hostOpen env) (Some ef) sid (fileSystem s4) = Inr (sp, fileSystem s4)"
    and p: "sys_ok (s4\<lparr>spaces := (spaces s4)(?t \<mapsto> sp)\<rparr>)" "has_program ?s3 (s4\<lparr>spaces := (spaces s4)(?t \<mapsto> sp)\<rparr>) ?t (cd @ dt) ?N"
      "thisThread s4 = thisThread s2" "registers s4 = registers s2" "userRegisters s4 = userRegisters ?s3"
      "numPages sp = of_nat ?N" "length (pages sp) = ?N" by (auto simp: Let_def)
  let ?s5 = "s4\<lparr>spaces := (spaces s4)(?t \<mapsto> sp)\<rparr>"
  have len: "length (registers ?s5) = NUM_TOTAL_REGS" using p(1) by (simp add: sys_ok_def ready_def)
  let ?s6 = "?s5\<lparr>registers := (registers ?s5)[2 := of_int sid]\<rparr>"
  have w: "WriteRegister ?s5 2 (of_int sid) = Inr ?s6" using len by (simp add: WriteRegister_def NUM_TOTAL_REGS_def)
  have i6: "isolated False ?s5 ?s6" by (rule WriteRegister_isolated [OF w p(1)]) (simp add: LOAD_REG_def)
  have e: "sys_exec env fault_code s = Inr (Some (ForkThread ?t (registers s ! 6 \<noteq> 0) (Some args)), ?s6)"
  proof -
    have nm: "name_of (nm @ [0]) = nm" using name_of_string [of nm] assms(3) by (simp add: exec_args_def)
    have fs: "s4\<lparr>fileSystem := fileSystem s4, spaces := (spaces s4)(?t \<mapsto> sp)\<rparr> = ?s5" by simp
    show ?thesis unfolding sys_exec_def ReadRegister_def NUM_TOTAL_REGS_def Let_def
      using r(1) by (simp add: r(2) l w nz nm fs)
  qed
  have z: "registers s2 ! 0 = 0" using q(2) assms(2) by (simp add: same_regs_def no_load_def)
  have "has_program s ?s6 ?t (cd @ dt) ?N" by (rule has_program_after [OF same_memory_has_program [OF isolated_memory [OF i3] p(2)] i6])
  moreover have "thisThread ?s6 = thisThread s" using p(3) i2 by (simp add: isolated_def)
  moreover have "registers ?s6 ! 2 = of_int sid" "registers ?s6 ! 0 = 0" using len p(4) z by (simp_all add: NUM_TOTAL_REGS_def)
  moreover have "userRegisters ?s6 = userRegisters s" using p(5) f(4) by simp
  moreover have "\<exists>q. spaces ?s6 ?t = Some q \<and> numPages q = of_nat ?N \<and> length (pages q) = ?N" using p(6,7) by simp
  ultimately show ?thesis using isolated_ok [OF i6] unfolding e by blast
qed

lemma IncrementPC_ok:
  assumes "length (registers s) = NUM_TOTAL_REGS"
  shows "IncrementPC s = Inr (s\<lparr>registers := (registers s)[PREV_PC_REG := registers s ! PC_REG, PC_REG := registers s ! NEXT_PC_REG,
    NEXT_PC_REG := registers s ! NEXT_PC_REG + 4]\<rparr>)"
  using assms by (simp add: IncrementPC_def ReadRegister_def WriteRegister_def reg_defs)

lemma exec_handler_ok:
  assumes "sys_ok s" "no_load s" "registers s ! 2 = SC_EXEC" "exec_args s nm args" "exec_room s sid" "exec_host env s nm sid cd dt bss"
  shows "\<exists>s'. SyscallHandler env fault_code s = Inr (Some (ForkThread (freshThread s) (registers s ! 6 \<noteq> 0) (Some args)), s') \<and> sys_ok s'
    \<and> has_program s s' (freshThread s) (cd @ dt) (program_pages cd dt bss) \<and> thisThread s' = thisThread s
    \<and> registers s' ! 2 = of_int sid \<and> registers s' ! 0 = 0 \<and> userRegisters s' = userRegisters s
    \<and> (\<exists>q. spaces s' (freshThread s) = Some q \<and> numPages q = of_nat (program_pages cd dt bss) \<and> length (pages q) = program_pages cd dt bss)"
proof -
  let ?t = "freshThread s" and ?N = "program_pages cd dt bss"
  from sys_exec_ok [OF assms(1,2,4-6)] obtain s1 where
    s1: "sys_exec env fault_code s = Inr (Some (ForkThread ?t (registers s ! 6 \<noteq> 0) (Some args)), s1)" "sys_ok s1"
      "has_program s s1 ?t (cd @ dt) ?N" "thisThread s1 = thisThread s" "registers s1 ! 2 = of_int sid" "registers s1 ! 0 = 0"
      "userRegisters s1 = userRegisters s" "\<exists>q. spaces s1 ?t = Some q \<and> numPages q = of_nat ?N \<and> length (pages q) = ?N" by blast
  have len: "length (registers s1) = NUM_TOTAL_REGS" using s1(2) by (simp add: sys_ok_def ready_def)
  let ?s2 = "s1\<lparr>registers := (registers s1)[PREV_PC_REG := registers s1 ! PC_REG, PC_REG := registers s1 ! NEXT_PC_REG,
    NEXT_PC_REG := registers s1 ! NEXT_PC_REG + 4]\<rparr>"
  note ip = IncrementPC_ok [OF len]
  have i: "isolated False s1 ?s2" by (rule IncrementPC_isolated [OF ip s1(2)])
  have "SyscallHandler env fault_code s = Inr (Some (ForkThread ?t (registers s ! 6 \<noteq> 0) (Some args)), ?s2)"
    using s1(1) ip assms(3) by (simp add: SyscallHandler_def ReadRegister_def NUM_TOTAL_REGS_def syscall_def SC_defs)
  moreover have "registers ?s2 ! 2 = of_int sid" "registers ?s2 ! 0 = 0" using s1(5,6) by (simp_all add: reg_defs)
  ultimately show ?thesis using isolated_ok [OF i] has_program_after [OF s1(3) i] s1(4,7,8)
    by (intro exI [of _ ?s2]) simp
qed

text \<open>The bytes of a program in memory: the image, then zeros.\<close>

definition image_byte :: "byte list \<Rightarrow> nat \<Rightarrow> byte" where
  "image_byte img b = (if b < length img then img ! b else 0)"

lemma has_program_umem:
  assumes "has_program s s' t img n" "thisThread s' = t" "b < n * PAGE_SIZE"
  shows "umem s' b = image_byte img b"
proof -
  have P: "0 < PAGE_SIZE" by (simp add: PAGE_SIZE_def SECTOR_SIZE_def)
  have "b div PAGE_SIZE < n" using assms(3) P by (simp add: less_mult_imp_div_less)
  then have "vpage s' t (b div PAGE_SIZE) = image_page img (b div PAGE_SIZE * PAGE_SIZE)" using assms(1) by (simp add: has_program_def)
  moreover have "b < npages s' t * PAGE_SIZE" using assms(1,3) by (simp add: has_program_def)
  ultimately show ?thesis using assms(2) nth_image_page [of "b mod PAGE_SIZE" img "b div PAGE_SIZE * PAGE_SIZE"] P
    by (simp add: umem_def image_byte_def)
qed

text \<open>The program of a new process once its thread runs: its arguments, and below them the image.\<close>

definition program_started :: "vmachine \<Rightarrow> byte list \<Rightarrow> byte list list \<Rightarrow> bool" where
  "program_started s img args \<longleftrightarrow> (\<exists>p. registers s ! 5 = of_nat p \<and> argv_at (umem s) (utop s) p args \<and> (\<forall>b < p. umem s b = image_byte img b)
     \<and> registers s ! STACK_REG = of_nat p - 24)
     \<and> registers s ! 4 = of_nat (length args) \<and> registers s ! PC_REG = 0 \<and> registers s ! NEXT_PC_REG = 4"

lemma process_starts:
  assumes "sys_ok s'" "has_program s s' t (cd @ dt) (program_pages cd dt bss)" "registers s' ! 0 = 0"
    and "\<exists>q. spaces s' t = Some q \<and> numPages q = of_nat (program_pages cd dt bss) \<and> length (pages q) = program_pages cd dt bss"
    and "length cd + length dt + unat bss + USER_STACK_SIZE < 1073741824"
    and "args \<noteq> []" "args_ok args" "args_size args + 4 * length args + 24 \<le> program_pages cd dt bss * PAGE_SIZE"
  shows "\<exists>s2 s3. Run_first t s' = Inr s2 \<and> StartProcess fault_code raw (Some args) s2 = Inr s3 \<and> user_good fault_code s3
    \<and> program_started s3 (cd @ dt) args \<and> (\<forall>p v. p \<noteq> t \<and> v < npages s p \<longrightarrow> vpage s3 p v = vpage s p v)"
proof -
  let ?N = "program_pages cd dt bss"
  have inv: "vm_inv s' {}" "handlers_set s'" using assms(1) by (simp_all add: sys_ok_def ready_def)
  from assms(4) obtain q where q: "spaces s' t = Some q" "numPages q = of_nat ?N" "length (pages q) = ?N" by blast
  from Run_first_ok [OF inv(1), of t] obtain s2 where
    s2: "Run_first t s' = Inr s2" "vm_inv s2 {}" "thisThread s2 = t" "tlb_empty s2" "handlers s2 = handlers s'"
      "npages s2 = npages s'" "static s2 = static s'" "\<And>p v. v < npages s' p \<Longrightarrow> vpage s2 p v = vpage s' p v"
      "registers s2 = registers s'" by blast
  have n: "npages s' t = ?N" using assms(2) by (simp add: has_program_def)
  have "static s2 t = Some (q\<lparr>pages := []\<rparr>)" using s2(7) q(1) by (simp add: static_def)
  then obtain q2 where q2: "spaces s2 t = Some q2" "q2\<lparr>pages := []\<rparr> = q\<lparr>pages := []\<rparr>" by (auto simp: static_def)
  have np: "numPages q2 = of_nat (length (pages q2))"
    using arg_cong [OF q2(2), of numPages] q(2) q2(1) fun_cong [OF s2(6), of t] n by (simp add: npages_def)
  have "?N < 16777216" using assms(5) by (simp add: program_pages_def PAGE_SIZE_def SECTOR_SIZE_def)
  then have ut: "utop s2 = ?N * PAGE_SIZE" "utop s2 < 2147483648" using s2(3,6) n by (simp_all add: utop_def PAGE_SIZE_def SECTOR_SIZE_def)
  have hd: "handlers s2 PAGE_FAULT_EXCEPTION = Some TLB_HANDLER" "fault_code TLB_HANDLER = TLBPageFaultHandler"
    using inv(2) s2(5) by (simp_all add: handlers_set_def fault_code_def)
  have rg: "length (registers s2) = NUM_TOTAL_REGS" "registers s2 ! 0 = 0" using s2(9) assms(1,3) by (simp_all add: sys_ok_def ready_def)
  have hp: "has_program s s2 t (cd @ dt) ?N" using assms(2) s2(6,8) by (auto simp: has_program_def fun_eq_iff)
  let ?p = "argv_addr (utop s2 - 16) args"
  have fit: "args_size args + 4 * length args + 24 \<le> utop s2" using assms(8) ut(1) by simp
  from StartProcess_ok [where krn = fault_code and raw = raw and sp = q2, OF s2(2,4) hd rg _ np ut(2) assms(6,7) fit refl] q2(1) s2(3) obtain s3 where
    s3: "StartProcess fault_code raw (Some args) s2 = Inr s3" "user_good fault_code s3" "utop s3 = utop s2" "argv_at (umem s3) (utop s3) ?p args"
      "\<forall>b < ?p. umem s3 b = umem s2 b" "registers s3 ! 4 = of_nat (length args)" "registers s3 ! 5 = of_nat ?p"
      "registers s3 ! STACK_REG = of_nat ?p - 24" "registers s3 ! PC_REG = 0" "registers s3 ! NEXT_PC_REG = 4"
      "\<forall>p v. p \<noteq> t \<and> v < npages s2 p \<longrightarrow> vpage s3 p v = vpage s2 p v" by auto
  have "?p < ?N * PAGE_SIZE" using s3(4) ut(1) s3(3) by (simp add: argv_at_def)
  then have "umem s3 b = image_byte (cd @ dt) b" if "b < ?p" for b
    using that s3(5) has_program_umem [OF hp s2(3), of b] by simp
  then have "program_started s3 (cd @ dt) args" using s3(3,4,6-10) by (auto simp: program_started_def)
  moreover have "\<forall>p v. p \<noteq> t \<and> v < npages s p \<longrightarrow> vpage s3 p v = vpage s p v"
    using s3(11) hp by (simp add: has_program_def)
  ultimately show ?thesis using s2(1) s3(1,2) by blast
qed

end
