(* ===== verification/Sample_System.thy ===== *)
theory Sample_System
  imports Boot
begin

text \<open>
  A small system that has been started with one user program. It shows that the invariants of
  processes and system calls can hold, and the theorems about them are applied to it.
\<close>

section \<open>The system\<close>

text \<open>
  A freshly formatted disk and one executable on the host, which holds the string \<open>prog\<close>, its own
  name, at address 4, and at address 12 an array of arguments with the one string \<open>x\<close>.
\<close>

definition prog_name :: "byte list" where "prog_name = [112, 114, 111, 103]"
definition sample_code :: "byte list" where "sample_code = [0, 0, 0, 0, 112, 114, 111, 103, 0, 0, 0, 0]"
definition sample_data :: "byte list" where "sample_data = [20, 0, 0, 0, 0, 0, 0, 0, 120, 0, 0, 0]"

definition sample_env :: host_env where
  "sample_env = \<lparr>hostCreate = (\<lambda>_. 0), hostOpen = (\<lambda>nm. if nm = prog_name then 7 else if nm = swap_name 0 then 8
     else if nm = swap_name 1 then 9 else -1), rawByte = (\<lambda>_. 0), rawWord = (\<lambda>_. 0)\<rparr>"

definition sample_disk :: world where
  "sample_disk = blank_world\<lparr>hostFiles := (\<lambda>_. [])(7 := noff_file sample_code sample_data 0)\<rparr>"

definition sample_run :: "vmachine \<Rightarrow> vmachine \<Rightarrow> bool" where
  "sample_run s0 s \<longleftrightarrow>
     Initialize (\<lambda>_. \<lparr>virtualPage = 0, physicalPage = 0, valid = False, readOnly = False, useBit = False, dirty = False\<rparr>) 0
       (replicate (nat Table_SIZE) 0) 0 [] sample_disk True = Inr (0, s0)
     \<and> StartProgram sample_env prog_name 0 s0 = Inr (True, s)"

lemma sample_names: "swap_name 0 \<noteq> prog_name" "swap_name 1 \<noteq> prog_name" "swap_name 1 \<noteq> swap_name 0"
  by (simp_all add: swap_name_def prog_name_def)

lemma sample_opens: "hostOpen sample_env prog_name = int 7" "hostOpen sample_env (swap_name 0) = int 8" "hostOpen sample_env (swap_name 1) = int 9"
  using sample_names by (simp_all add: sample_env_def)

lemma sample_pages: "program_pages sample_code sample_data 0 = 17"
  by (simp add: program_pages_def sample_code_def sample_data_def USER_STACK_SIZE_def PAGE_SIZE_def SECTOR_SIZE_def)

lemma sample_formats: "\<exists>fs. FileSystem_new (no_open_files sample_disk) 0 True = Inr fs"
proof -
  let ?w = "no_open_files sample_disk"
  have "blank_header ?w" "sectors_ok (store ?w)" "openCount (openFilesTable ?w DIRECTORY_SECTOR) = 0"
    using blank_world_facts by (simp_all add: no_open_files_def sample_disk_def blank_header_def raw_header_def)
  from format_disk_ok [OF this] show ?thesis by (auto simp: FileSystem_new_def)
qed

lemma sample_runs:
  "\<exists>s0 s. sample_run s0 s \<and> sys_ok s \<and> tlb_empty s \<and> thisThread s = 0 \<and> npages s = (\<lambda>_. 0)(0 := 17) \<and> registers s = start_registers 17
    \<and> (\<forall>b < 2176. umem s b = image_byte (sample_code @ sample_data) b) \<and> exec_room s 1 \<and> freshThread s = 1
    \<and> exec_host sample_env s prog_name 1 sample_code sample_data 0 \<and> userRegisters s = (\<lambda>_. replicate NUM_TOTAL_REGS 0)"
proof -
  let ?raw = "\<lambda>_ :: nat. \<lparr>virtualPage = 0, physicalPage = 0, valid = False, readOnly = False, useBit = False, dirty = False\<rparr> :: TranslationEntry"
  from sample_formats obtain fs where fs: "FileSystem_new (no_open_files sample_disk) 0 True = Inr fs" by blast
  from Initialize_ok [OF fs, of "replicate (nat Table_SIZE) 0" ?raw 0 0 "[]"] obtain s0 where
    s0: "Initialize ?raw 0 (replicate (nat Table_SIZE) 0) 0 [] sample_disk True = Inr (0, s0)" "sys_ok s0" "tlb_empty s0"
      "registers s0 = replicate NUM_TOTAL_REGS 0" "spaces s0 = (\<lambda>_. None)" "thisThread s0 = 0" "table_map (runningProcesses s0) = [0 \<mapsto> 0]"
      "freshThread s0 = 1" "freed (runningProcesses s0) = []" "current (runningProcesses s0) = 1"
      "userRegisters s0 = (\<lambda>_. replicate NUM_TOTAL_REGS 0)" "hostFiles (disk_world s0) = hostFiles sample_disk" by auto
  have st0: "static s0 p = None" "npages s0 p = 0" for p using s0(5) by (simp_all add: static_def npages_def)
  have h: "is_noff (hostFiles (disk_world s0) 7) sample_code sample_data 0" using s0(12) by (simp add: sample_disk_def noff_file_is_noff)
  have sz: "length sample_code + length sample_data + unat (0 :: u32) + USER_STACK_SIZE < 1073741824"
    by (simp add: sample_code_def sample_data_def USER_STACK_SIZE_def)
  from StartProgram_ok [where env = sample_env and sid = 0 and filename = prog_name, OF s0(2,3) _ _ _ sample_opens(1) h sample_opens(2)]
  obtain s where s: "StartProgram sample_env prog_name 0 s0 = Inr (True, s)" "sys_ok s" "tlb_empty s" "thisThread s = 0"
      "has_program s0 s 0 (sample_code @ sample_data) 17" "registers s = start_registers 17" "runningProcesses s = runningProcesses s0"
      "freshThread s = 1" "userRegisters s = userRegisters s0" "hostFiles (disk_world s) = hostFiles (disk_world s0)"
      "\<exists>sp. spaces s = (spaces s0)(0 \<mapsto> sp) \<and> hostFd (exeFile sp) = 7 \<and> hostFd (openSwapFile sp) = 8"
    using s0(4,5,6,7,8) sz st0(1) by (auto simp: sample_pages fresh_fds_def NUM_TOTAL_REGS_def simp del: static_None)
  have np: "npages s = (\<lambda>_. 0)(0 := 17)" using s(5) st0(2) by (auto simp: has_program_def fun_eq_iff)
  have um: "\<forall>b < 2176. umem s b = image_byte (sample_code @ sample_data) b"
    using has_program_umem [OF s(5,4)] by (simp add: PAGE_SIZE_def SECTOR_SIZE_def)
  from s(11) obtain sp where sp: "spaces s = (\<lambda>_. None)(0 \<mapsto> sp)" "hostFd (exeFile sp) = 7" "hostFd (openSwapFile sp) = 8" using s0(5) by auto
  have "table_ok (runningProcesses s)" using s(2) by (simp add: sys_ok_def ready_def vm_inv_def procs_ok_def)
  from Add_new [OF this, of 1] s(7) s0(9,10) obtain tbl where "Table_Add (runningProcesses s) 1 = Inr (1, tbl)" by (auto simp: Table_SIZE_def)
  then have room: "exec_room s 1" using sp(1) s(8) by (auto simp: exec_room_def)
  have "fresh_fds s 7 9" using sp by (auto simp: fresh_fds_def static_def split: if_splits)
  then have "exec_host sample_env s prog_name 1 sample_code sample_data 0"
    unfolding exec_host_def using h s(10) sample_opens sz by (intro conjI exI [of _ 7] exI [of _ 9]) simp_all
  then show ?thesis using s0(1,11) s um np room by (intro exI [of _ s0] exI [of _ s]) (simp add: sample_run_def)
qed

text \<open>The sample process about to execute its own program again.\<close>

lemma registers_ok:
  assumes "sys_ok s" "length r = NUM_TOTAL_REGS" "unat (r ! LOAD_REG) < NUM_GP_REGS"
  shows "sys_ok (s\<lparr>registers := r\<rparr>)" "same_memory s (s\<lparr>registers := r\<rparr>)"
proof -
  have "vm_inv (s\<lparr>registers := r\<rparr>) {}" "same_memory s (s\<lparr>registers := r\<rparr>)"
    using same_view_inv [OF registers_view(2)] assms(1) by (auto simp: sys_ok_def ready_def)
  then show "sys_ok (s\<lparr>registers := r\<rparr>)" "same_memory s (s\<lparr>registers := r\<rparr>)"
    using assms by (simp_all add: sys_ok_def ready_def handlers_set_def)
qed

definition exec_registers :: "u32 list" where
  "exec_registers = (start_registers 17)[2 := SC_EXEC, 4 := 4, 5 := 12]"

lemma sample_exec:
  "\<exists>s0 s s1. sample_run s0 s \<and> s1 = s\<lparr>registers := exec_registers\<rparr> \<and> sys_ok s1 \<and> no_load s1 \<and> exec_args s1 prog_name [[120, 0]] \<and> exec_room s1 1
    \<and> exec_host sample_env s1 prog_name 1 sample_code sample_data 0 \<and> freshThread s1 = 1 \<and> thisThread s1 = 0
    \<and> userRegisters s1 = (\<lambda>_. replicate NUM_TOTAL_REGS 0)"
proof -
  from sample_runs obtain s0 s where s: "sample_run s0 s" "sys_ok s" "thisThread s = 0" "npages s = (\<lambda>_. 0)(0 := 17)"
    "\<forall>b < 2176. umem s b = image_byte (sample_code @ sample_data) b" "exec_room s 1" "freshThread s = 1"
    "exec_host sample_env s prog_name 1 sample_code sample_data 0" "userRegisters s = (\<lambda>_. replicate NUM_TOTAL_REGS 0)" by blast
  let ?r = exec_registers and ?s1 = "s\<lparr>registers := exec_registers\<rparr>"
  have r: "length ?r = NUM_TOTAL_REGS" "?r ! LOAD_REG = 0" "?r ! 0 = 0" "?r ! 4 = of_nat 4" "?r ! 5 = of_nat 12"
    by (simp_all add: exec_registers_def start_registers_def reg_defs STACK_REG_def)
  have o: "sys_ok ?s1" "same_memory s ?s1" using registers_ok [OF s(2) r(1)] r(2) by (simp_all add: NUM_GP_REGS_def)
  have ut: "utop ?s1 = 2176" "umem ?s1 = umem s" using same_memory_umem [OF o(2)] s(3,4) by (simp_all add: utop_def PAGE_SIZE_def SECTOR_SIZE_def)
  have b: "umem ?s1 k = image_byte (sample_code @ sample_data) k" if "k < 2176" for k using s(5) ut(2) that by simp
  have img: "map (umem ?s1) [4..<9] = [112, 114, 111, 103, 0]" "map (umem ?s1) [12..<16] = [20, 0, 0, 0]"
    "map (umem ?s1) [16..<20] = [0, 0, 0, 0]" "map (umem ?s1) [20..<22] = [120, 0]"
    by (simp_all add: upt_conv_Cons b image_byte_def sample_code_def sample_data_def)
  have "argv_at (umem ?s1) (utop ?s1) 12 [[120, 0]]"
    using img(2-4) ut(1) by (auto simp: argv_at_def word_at_def bytes_u32_def intro!: exI [of _ 20])
  moreover have "map (umem ?s1) [4..<4 + length prog_name + 1] = prog_name @ [0]" using img(1) by (simp add: prog_name_def)
  ultimately have "exec_args ?s1 prog_name [[120, 0]]"
    unfolding exec_args_def using r(4,5) ut(1)
    by (intro conjI exI [of _ 4] exI [of _ 12]) (simp_all add: prog_name_def FILE_NAME_MAX_LEN_def args_ok_def c_string_def MAX_ARG_COUNT_def MAX_ARG_LENGTH_def)
  moreover have "exec_host sample_env ?s1 prog_name 1 sample_code sample_data 0"
    by (rule exec_host_cong [OF s(8)]) (use o(2) in \<open>simp_all add: same_memory_def\<close>)
  moreover have "exec_room ?s1 1" "no_load ?s1" using s(6) r(2,3) by (simp_all add: exec_room_def no_load_def)
  ultimately show ?thesis using s(1,3,7,9) o(1) by (intro exI [of _ s0] exI [of _ s] exI [of _ ?s1]) simp
qed

end
