(* ===== verification/Stdio.thy ===== *)
theory Stdio
  imports Open_File
begin

text \<open>
  What the programs of the host and the tools of the file system use of the C library: files read and
  written with \<open>stdio.h\<close>, string literals, numbers printed by \<open>printf\<close>, and \<open>strtok_r\<close>.
\<close>

section \<open>Files\<close>

text \<open>
  An open \<open>FILE\<close> is its bytes and the position in it. \<open>fread\<close> of one block answers 1 only when the
  whole block is there and has at least one byte. \<open>fwrite\<close> behind the end fills the gap with zeros.
\<close>

record FILE =
  fileBytes :: "byte list"
  filePos :: nat

definition fopen_read :: "byte list \<Rightarrow> FILE" where
  "fopen_read bs = \<lparr>fileBytes = bs, filePos = 0\<rparr>"

definition fread_block :: "nat \<Rightarrow> FILE \<Rightarrow> (byte list \<times> FILE) option" where
  "fread_block n f = (if n = 0 \<or> length (fileBytes f) < filePos f + n then None
     else Some (slice (filePos f) n (fileBytes f), f\<lparr>filePos := filePos f + n\<rparr>))"

definition fseek_set :: "nat \<Rightarrow> FILE \<Rightarrow> FILE" where
  "fseek_set pos f = f\<lparr>filePos := pos\<rparr>"

definition fwrite_block :: "byte list \<Rightarrow> FILE \<Rightarrow> FILE" where
  "fwrite_block bs f = f\<lparr>fileBytes := host_write (fileBytes f) (filePos f) bs, filePos := filePos f + length bs\<rparr>"

text \<open>\<open>fread (buffer, sizeof (char), n, f)\<close>: as many bytes as there are, at most \<open>n\<close>.\<close>

definition fread_some :: "nat \<Rightarrow> FILE \<Rightarrow> byte list \<times> FILE" where
  "fread_some n f = (let bs = slice (filePos f) n (fileBytes f) in (bs, f\<lparr>filePos := filePos f + length bs\<rparr>))"

section \<open>Text\<close>

definition chars :: "string \<Rightarrow> byte list" where "chars s = map of_char s"

text \<open>\<open>%X\<close>.\<close>

fun hexadecimal :: "nat \<Rightarrow> byte list" where
  "hexadecimal n = (if n < 10 then [48 + of_nat n] else if n < 16 then [55 + of_nat n] else hexadecimal (n div 16) @ hexadecimal (n mod 16))"

declare hexadecimal.simps [simp del]

text \<open>\<open>isprint\<close>.\<close>

definition is_print :: "byte \<Rightarrow> bool" where
  "is_print b \<longleftrightarrow> 32 \<le> b \<and> b < 127"

text \<open>The string at a place in a buffer.\<close>

definition string_at :: "byte list \<Rightarrow> nat \<Rightarrow> byte list" where
  "string_at buf i = takeWhile (\<lambda>b. b \<noteq> 0) (drop i buf)"

lemma takeWhile_zero: "0 \<notin> set w \<Longrightarrow> takeWhile (\<lambda>b. b \<noteq> 0) (w @ (0 :: byte) # r) = w"
  by (induction w) auto

section \<open>strtok\_r\<close>

text \<open>
  \<open>strtok_r\<close> with one delimiter on a buffer from the saved place on: the start of the next token, the
  buffer, in which the delimiter behind the token has been overwritten, and the new saved place.
\<close>

function skip_delims :: "byte \<Rightarrow> byte list \<Rightarrow> nat \<Rightarrow> nat res" where
  "skip_delims d buf i = (if i < length buf then (if buf ! i = d then skip_delims d buf (i + 1) else Inr i) else Inl OutOfBounds)"
  by pat_completeness auto
termination by (relation "measure (\<lambda>(d, buf, i). length buf - i)") auto

function token_end :: "byte \<Rightarrow> byte list \<Rightarrow> nat \<Rightarrow> nat res" where
  "token_end d buf i = (if i < length buf then (if buf ! i \<noteq> d \<and> buf ! i \<noteq> 0 then token_end d buf (i + 1) else Inr i) else Inl OutOfBounds)"
  by pat_completeness auto
termination by (relation "measure (\<lambda>(d, buf, i). length buf - i)") auto

declare skip_delims.simps [simp del] token_end.simps [simp del]

definition strtok_r :: "byte \<Rightarrow> byte list \<Rightarrow> nat \<Rightarrow> (nat option \<times> byte list \<times> nat) res" where
  "strtok_r d buf i =
     rbind (skip_delims d buf i) (\<lambda>b.
       if buf ! b = 0 then Inr (None, buf, b)
       else rbind (token_end d buf b) (\<lambda>e. if buf ! e = 0 then Inr (Some b, buf, e) else Inr (Some b, buf[e := 0], e + 1)))"

lemma skip_delims_range: "skip_delims d buf i = Inr b \<Longrightarrow> i \<le> b \<and> b < length buf \<and> buf ! b \<noteq> d"
proof (induction d buf i rule: skip_delims.induct)
  case (1 d buf i)
  then show ?case by (cases "i < length buf \<and> buf ! i = d") (auto simp: skip_delims.simps [of d buf i] split: if_splits)
qed

lemma token_end_range: "token_end d buf i = Inr e \<Longrightarrow> i \<le> e \<and> e < length buf \<and> (buf ! e = d \<or> buf ! e = 0)"
proof (induction d buf i rule: token_end.induct)
  case (1 d buf i)
  then show ?case by (cases "i < length buf \<and> buf ! i \<noteq> d \<and> buf ! i \<noteq> 0") (auto simp: token_end.simps [of d buf i] split: if_splits)
qed

lemma strtok_r_range: "strtok_r d buf i = Inr (Some b, buf', k) \<Longrightarrow> length buf' = length buf \<and> i < k \<and> k \<le> length buf \<and> i \<le> b"
proof -
  assume "strtok_r d buf i = Inr (Some b, buf', k)"
  then obtain e where e: "skip_delims d buf i = Inr b" "buf ! b \<noteq> 0" "token_end d buf b = Inr e" "k = e \<or> k = e + 1" "length buf' = length buf"
    by (auto simp: strtok_r_def res_simps split: if_splits)
  from skip_delims_range [OF e(1)] token_end_range [OF e(3)] have "i \<le> b" "b \<le> e" "e < length buf" "buf ! b \<noteq> d" "buf ! e = d \<or> buf ! e = 0" by auto
  moreover from this e(2) have "b \<noteq> e" by auto
  ultimately show ?thesis using e(4,5) by auto
qed

text \<open>A token between delimiters, with the end of the string or a further delimiter behind it.\<close>

lemma skip_delims_typed: "b \<noteq> d \<Longrightarrow> skip_delims d (p @ replicate n d @ b # r) (length p) = Inr (length p + n)"
proof (induction n arbitrary: p)
  case 0
  then show ?case by (subst skip_delims.simps) (simp add: nth_append)
next
  case (Suc n)
  from Suc.IH [OF Suc.prems, of "p @ [d]"] show ?case by (subst skip_delims.simps) (simp add: nth_append)
qed

lemma token_end_typed: "{0, d} \<inter> set w = {} \<Longrightarrow> x = 0 \<or> x = d \<Longrightarrow> token_end d (p @ w @ x # r) (length p) = Inr (length p + length w)"
proof (induction w arbitrary: p)
  case Nil
  then show ?case by (subst token_end.simps) (auto simp: nth_append)
next
  case (Cons b w)
  from Cons.IH [of "p @ [b]"] Cons.prems show ?case by (subst token_end.simps) (auto simp: nth_append)
qed

lemma strtok_r_token:
  assumes "w \<noteq> []" "{0, d} \<inter> set w = {}" "x = 0 \<or> x = d" "d \<noteq> 0"
  shows "strtok_r d (p @ replicate n d @ w @ x # r) (length p) =
    Inr (Some (length p + n), p @ replicate n d @ w @ 0 # r, length p + n + length w + (if x = 0 then 0 else 1))"
proof -
  let ?buf = "p @ replicate n d @ w @ x # r"
  obtain b u where w: "w = b # u" "b \<noteq> d" "b \<noteq> 0" using assms(1,2) by (cases w) auto
  have s: "skip_delims d ?buf (length p) = Inr (length p + n)" using skip_delims_typed [OF w(2), of p n "u @ x # r"] w(1) by simp
  have t: "token_end d ?buf (length p + n) = Inr (length p + n + length w)"
    using token_end_typed [OF assms(2,3), of "p @ replicate n d" r] by simp
  have nb: "?buf ! (length p + n) = b" "?buf ! (length p + n + length w) = x" "?buf[length p + n + length w := 0] = p @ replicate n d @ w @ 0 # r"
    using w(1) by (simp_all add: nth_append list_update_append)
  then show ?thesis using s t w(3) assms(3,4) by (auto simp: strtok_r_def)
qed

lemma strtok_r_none: "d \<noteq> 0 \<Longrightarrow> strtok_r d (p @ replicate n d @ 0 # r) (length p) = Inr (None, p @ replicate n d @ 0 # r, length p + n)"
  using skip_delims_typed [of 0 d p n r] by (simp add: strtok_r_def nth_append)

end
