(* ===== verification/Coff.thy ===== *)
theory Coff
  imports Programs Stdio
begin

text \<open>
  The programs of \<open>bin/\<close> that make executables: the reader of COFF files (\<open>coff_reader.c\<close>,
  \<open>coff_section.c\<close>), the converter \<open>coff2noff\<close> to the format that the kernel loads, the older
  converter \<open>coff2flat\<close>, and \<open>readnoff\<close>. The host is little-endian; the memory that
  \<open>malloc\<close> is asked for is there, and the host can write the output.
\<close>

section \<open>The headers of a COFF file\<close>

definition COFF_MIPSELMAGIC :: "16 word" where "COFF_MIPSELMAGIC = 0x0162"
definition COFF_OMAGIC :: "16 word" where "COFF_OMAGIC = 0x107"

record coffFileHeader =
  fh_magic :: "16 word"
  nSections :: "16 word"
  timeDate :: u32
  symbolPtr :: u32
  nSymbols :: u32
  optHeader :: "16 word"
  fh_flags :: "16 word"

record coffOptHeader =
  oh_magic :: "16 word"
  vStamp :: "16 word"
  textSize :: u32
  dataSize :: u32
  bssSize :: u32
  entryPoint :: u32
  textStart :: u32
  dataStart :: u32
  bssStart :: u32
  gprMask :: u32
  cprMask :: "u32 list"
  gpValue :: u32

record coffSectionHeader =
  sh_name :: "byte list"
  physAddr :: u32
  virtAddr :: u32
  sh_size :: u32
  sectionPtr :: u32
  relocPtr :: u32
  lnnoPtr :: u32
  nReloc :: "16 word"
  nLnno :: "16 word"
  sh_flags :: u32

text \<open>The structures as the bytes of their images: 20, 56 and 40 bytes.\<close>

definition bytes_fileHeader :: "byte list \<Rightarrow> coffFileHeader" where
  "bytes_fileHeader bs = (let ws = bytes_words 3 (drop 4 bs) in
     \<lparr>fh_magic = bytes_short (take 2 bs), nSections = bytes_short (slice 2 2 bs), timeDate = ws ! 0, symbolPtr = ws ! 1,
      nSymbols = ws ! 2, optHeader = bytes_short (slice 16 2 bs), fh_flags = bytes_short (slice 18 2 bs)\<rparr>)"

definition bytes_optHeader :: "byte list \<Rightarrow> coffOptHeader" where
  "bytes_optHeader bs = (let ws = bytes_words 13 (drop 4 bs) in
     \<lparr>oh_magic = bytes_short (take 2 bs), vStamp = bytes_short (slice 2 2 bs), textSize = ws ! 0, dataSize = ws ! 1, bssSize = ws ! 2,
      entryPoint = ws ! 3, textStart = ws ! 4, dataStart = ws ! 5, bssStart = ws ! 6, gprMask = ws ! 7, cprMask = slice 8 4 ws,
      gpValue = ws ! 12\<rparr>)"

definition bytes_section :: "byte list \<Rightarrow> coffSectionHeader" where
  "bytes_section bs = (let ws = bytes_words 6 (drop 8 bs) in
     \<lparr>sh_name = take 8 bs, physAddr = ws ! 0, virtAddr = ws ! 1, sh_size = ws ! 2, sectionPtr = ws ! 3, relocPtr = ws ! 4,
      lnnoPtr = ws ! 5, nReloc = bytes_short (slice 32 2 bs), nLnno = bytes_short (slice 34 2 bs), sh_flags = bytes_u32 (slice 36 4 bs)\<rparr>)"

fun bytes_sections :: "nat \<Rightarrow> byte list \<Rightarrow> coffSectionHeader list" where
  "bytes_sections 0 bs = []"
| "bytes_sections (Suc n) bs = bytes_section (take 40 bs) # bytes_sections n (drop 40 bs)"

lemma length_bytes_sections [simp]: "length (bytes_sections n bs) = n"
  by (induction n arbitrary: bs) simp_all

section \<open>Reading a COFF file\<close>

datatype coff_error = TooShort | NotMipsel | NotOmagic | DataAndRdata | BssAndSbss | ReaderAssert

record coffReaderData =
  fileH :: coffFileHeader
  optH :: coffOptHeader
  sections :: "coffSectionHeader list"
  currentSection :: nat

definition section_to_host :: "coffSectionHeader \<Rightarrow> coffSectionHeader" where
  "section_to_host sh = sh\<lparr>physAddr := WordToHost (physAddr sh), sh_size := WordToHost (sh_size sh), sectionPtr := WordToHost (sectionPtr sh)\<rparr>"

definition CoffReaderLoad :: "FILE \<Rightarrow> coff_error + (coffReaderData \<times> FILE)" where
  "CoffReaderLoad f =
     (case fread_block 20 f of None \<Rightarrow> Inl TooShort | Some (b1, f1) \<Rightarrow>
      let fh0 = bytes_fileHeader b1; fh = fh0\<lparr>fh_magic := ShortToHost (fh_magic fh0), nSections := ShortToHost (nSections fh0)\<rparr> in
      if fh_magic fh \<noteq> COFF_MIPSELMAGIC then Inl NotMipsel else
      (case fread_block 56 f1 of None \<Rightarrow> Inl TooShort | Some (b2, f2) \<Rightarrow>
       let oh0 = bytes_optHeader b2; oh = oh0\<lparr>oh_magic := ShortToHost (oh_magic oh0)\<rparr> in
       if oh_magic oh \<noteq> COFF_OMAGIC then Inl NotOmagic else
       (case fread_block (unat (nSections fh) * 40) f2 of None \<Rightarrow> Inl TooShort | Some (b3, f3) \<Rightarrow>
        Inr (\<lparr>fileH = fh, optH = oh, sections = map section_to_host (bytes_sections (unat (nSections fh)) b3), currentSection = 0\<rparr>, f3))))"

definition CoffReaderNextSection :: "coffReaderData \<Rightarrow> coff_error + (coffSectionHeader option \<times> coffReaderData)" where
  "CoffReaderNextSection d =
     (if unat (nSections (fileH d)) < currentSection d then Inl ReaderAssert
      else if currentSection d = unat (nSections (fileH d)) then Inr (None, d\<lparr>currentSection := 0\<rparr>)
      else Inr (Some (sections d ! currentSection d), d\<lparr>currentSection := currentSection d + 1\<rparr>))"

definition CoffSectionAddr :: "coffSectionHeader \<Rightarrow> u32" where "CoffSectionAddr sh = physAddr sh"
definition CoffSectionSize :: "coffSectionHeader \<Rightarrow> u32" where "CoffSectionSize sh = sh_size sh"
definition CoffSectionEmpty :: "coffSectionHeader \<Rightarrow> bool" where "CoffSectionEmpty sh = (CoffSectionSize sh = 0)"
definition CoffSectionName :: "coffSectionHeader \<Rightarrow> byte list" where "CoffSectionName sh = cstr 8 (sh_name sh)"

definition CoffSectionRead :: "coffSectionHeader \<Rightarrow> FILE \<Rightarrow> coff_error + (byte list \<times> FILE)" where
  "CoffSectionRead sh f = (case fread_block (unat (sh_size sh)) (fseek_set (unat (sectionPtr sh)) f) of
     None \<Rightarrow> Inl TooShort | Some (bs, f1) \<Rightarrow> Inr (bs, f1))"

text \<open>The loop of both converters: a body for every section that the reader hands out.\<close>

function section_loop :: "(coffSectionHeader \<Rightarrow> 's \<Rightarrow> coff_error + 's) \<Rightarrow> coffReaderData \<Rightarrow> 's \<Rightarrow> coff_error + 's" where
  "section_loop body d s = (case CoffReaderNextSection d of
     Inl e \<Rightarrow> Inl e
   | Inr (None, d1) \<Rightarrow> Inr s
   | Inr (Some sh, d1) \<Rightarrow> (case body sh s of Inl e \<Rightarrow> Inl e | Inr s1 \<Rightarrow> section_loop body d1 s1))"
  by pat_completeness auto
termination
  by (relation "measure (\<lambda>(body, d, s). unat (nSections (fileH d)) - currentSection d)")
    (auto simp: CoffReaderNextSection_def split: if_splits)

declare section_loop.simps [simp del]

fun for_sections :: "(coffSectionHeader \<Rightarrow> 's \<Rightarrow> coff_error + 's) \<Rightarrow> coffSectionHeader list \<Rightarrow> 's \<Rightarrow> coff_error + 's" where
  "for_sections body [] s = Inr s"
| "for_sections body (sh # shs) s = (case body sh s of Inl e \<Rightarrow> Inl e | Inr s1 \<Rightarrow> for_sections body shs s1)"

lemma section_loop_sections:
  assumes "length (sections d) = unat (nSections (fileH d))" "currentSection d \<le> length (sections d)"
  shows "section_loop body d s = for_sections body (drop (currentSection d) (sections d)) s"
  using assms
proof (induction "length (sections d) - currentSection d" arbitrary: d s)
  case 0
  then show ?case by (simp add: section_loop.simps CoffReaderNextSection_def)
next
  case (Suc n)
  then have c: "currentSection d < length (sections d)" by simp
  have "section_loop body (d\<lparr>currentSection := currentSection d + 1\<rparr>) s1 = for_sections body (drop (currentSection d + 1) (sections d)) s1" for s1
    using Suc(1) [of "d\<lparr>currentSection := currentSection d + 1\<rparr>" s1] Suc(2-) c by simp
  then show ?case using c Suc(3)
    by (simp add: section_loop.simps [of body d] CoffReaderNextSection_def Cons_nth_drop_Suc [symmetric] split: sum.split)
qed

lemma for_sections_filter:
  assumes "\<And>sh s. sh \<in> set shs \<Longrightarrow> \<not> P sh \<Longrightarrow> body sh s = Inr s"
  shows "for_sections body shs s = for_sections body (filter P shs) s"
  using assms by (induction shs arbitrary: s) (auto split: sum.split)

lemma CoffReaderLoad_sections:
  "CoffReaderLoad f = Inr (d, f1) \<Longrightarrow> length (sections d) = unat (nSections (fileH d)) \<and> currentSection d = 0 \<and> fileBytes f1 = fileBytes f"
  by (auto simp: CoffReaderLoad_def Let_def fread_block_def split: option.splits if_splits)

subsection \<open>Images of COFF files\<close>

text \<open>A file with the given section headers and bytes behind them, read back by the reader.\<close>

definition section_image :: "coffSectionHeader \<Rightarrow> byte list" where
  "section_image sh = sh_name sh @ words_bytes [physAddr sh, virtAddr sh, sh_size sh, sectionPtr sh, relocPtr sh, lnnoPtr sh]
     @ short_bytes (nReloc sh) @ short_bytes (nLnno sh) @ u32_bytes (sh_flags sh)"

definition coff_image :: "coffSectionHeader list \<Rightarrow> byte list \<Rightarrow> byte list" where
  "coff_image shs body = short_bytes COFF_MIPSELMAGIC @ short_bytes (of_nat (length shs)) @ replicate 16 0
     @ short_bytes COFF_OMAGIC @ replicate 54 0 @ concat (map section_image shs) @ body"

declare bytes_short_bytes [simp]

lemma bytes_section_image: "length (sh_name sh) = 8 \<Longrightarrow> bytes_section (section_image sh) = sh"
proof -
  assume n: "length (sh_name sh) = 8"
  let ?ws = "[physAddr sh, virtAddr sh, sh_size sh, sectionPtr sh, relocPtr sh, lnnoPtr sh]"
  have "bytes_words 6 (drop 8 (section_image sh)) = ?ws"
    unfolding section_image_def using n bytes_words_append [of 6 ?ws] by simp
  moreover have "slice 32 2 (section_image sh) = short_bytes (nReloc sh)" "slice 34 2 (section_image sh) = short_bytes (nLnno sh)"
    "slice 36 4 (section_image sh) = u32_bytes (sh_flags sh)" "take 8 (section_image sh) = sh_name sh"
    using n by (simp_all add: section_image_def slice_def)
  ultimately show ?thesis by (simp add: bytes_section_def Let_def numeral_nat)
qed

lemma length_section_image: "length (sh_name sh) = 8 \<Longrightarrow> length (section_image sh) = 40"
  by (simp add: section_image_def)

lemma length_section_images: "\<forall>sh \<in> set shs. length (sh_name sh) = 8 \<Longrightarrow> length (concat (map section_image shs)) = length shs * 40"
  by (induction shs) (auto simp: length_section_image)

lemma bytes_sections_image:
  "\<forall>sh \<in> set shs. length (sh_name sh) = 8 \<Longrightarrow> bytes_sections (length shs) (concat (map section_image shs)) = shs"
  by (induction shs) (auto simp: length_section_image bytes_section_image)

lemma coff_image_load:
  assumes "\<forall>sh \<in> set shs. length (sh_name sh) = 8" "0 < length shs" "length shs < 65536"
  shows "\<exists>d f. CoffReaderLoad (fopen_read (coff_image shs body)) = Inr (d, f) \<and> sections d = shs"
proof -
  let ?n = "length shs"
  let ?h = "short_bytes COFF_MIPSELMAGIC @ short_bytes (of_nat ?n) @ replicate 16 0" and ?o = "short_bytes COFF_OMAGIC @ replicate 54 0"
    and ?s = "concat (map section_image shs)"
  have u: "unat (of_nat ?n :: 16 word) = ?n" using assms(3) by (simp add: unat_of_nat)
  have img: "coff_image shs body = ?h @ ?o @ ?s @ body" by (simp add: coff_image_def)
  have l: "length ?h = 20" "length ?o = 56" "length ?s = ?n * 40" using length_section_images [OF assms(1)] by simp_all
  have h: "fh_magic (bytes_fileHeader ?h) = COFF_MIPSELMAGIC" "nSections (bytes_fileHeader ?h) = of_nat ?n" "oh_magic (bytes_optHeader ?o) = COFF_OMAGIC"
    by (simp_all add: bytes_fileHeader_def bytes_optHeader_def Let_def slice_def)
  have r1: "fread_block 20 (fopen_read (coff_image shs body)) = Some (?h, \<lparr>fileBytes = coff_image shs body, filePos = 20\<rparr>)"
    unfolding img using l by (simp add: fread_block_def fopen_read_def slice_def)
  have r2: "fread_block 56 \<lparr>fileBytes = coff_image shs body, filePos = 20\<rparr> = Some (?o, \<lparr>fileBytes = coff_image shs body, filePos = 76\<rparr>)"
    unfolding img using l by (simp add: fread_block_def slice_def)
  have r3: "fread_block (?n * 40) \<lparr>fileBytes = coff_image shs body, filePos = 76\<rparr> = Some (?s, \<lparr>fileBytes = coff_image shs body, filePos = 76 + ?n * 40\<rparr>)"
    unfolding img using l assms(2) by (simp add: fread_block_def slice_def)
  have "map section_to_host (bytes_sections ?n ?s) = shs"
    using bytes_sections_image [OF assms(1)] by (simp add: section_to_host_def [abs_def] WordToHost_def map_idI)
  then show ?thesis using h u unfolding CoffReaderLoad_def r1 by (simp add: r2 r3 ShortToHost_def Let_def)
qed

section \<open>coff2noff\<close>

text \<open>The header as the bytes that are written.\<close>

definition segment_words :: "noffSegment \<Rightarrow> u32 list" where
  "segment_words g = [virtualAddr g, inFileAddr g, segSize g]"

definition noff_bytes :: "noffHeader \<Rightarrow> byte list" where
  "noff_bytes h = words_bytes (noffMagic h # segment_words (code h) @ segment_words (initData h) @ segment_words (uninitData h))"

lemma bytes_noff_bytes: "bytes_noff (noff_bytes h @ rest) = h"
proof -
  have "bytes_words 10 (noff_bytes h @ rest) = noffMagic h # segment_words (code h) @ segment_words (initData h) @ segment_words (uninitData h)"
    unfolding noff_bytes_def by (rule bytes_words_append) (simp add: segment_words_def)
  then show ?thesis by (simp add: bytes_noff_def Let_def segment_words_def words_segment_def numeral_nat)
qed

record converter =
  noffH :: noffHeader
  inNoffFile :: u32
  inF :: FILE
  outF :: FILE

text \<open>Reading the bytes of a section and appending them to the output.\<close>

definition copy_section :: "coffSectionHeader \<Rightarrow> converter \<Rightarrow> coff_error + converter" where
  "copy_section sc s = (case CoffSectionRead sc (inF s) of Inl e \<Rightarrow> Inl e
     | Inr (buffer, f) \<Rightarrow> Inr (s\<lparr>inF := f, outF := fwrite_block buffer (outF s), inNoffFile := inNoffFile s + CoffSectionSize sc\<rparr>))"

definition translate_section :: "coffSectionHeader \<Rightarrow> converter \<Rightarrow> coff_error + converter" where
  "translate_section sc s =
     (if CoffSectionEmpty sc then Inr s else
      let addr = CoffSectionAddr sc; name = CoffSectionName sc; sz = CoffSectionSize sc; h = noffH s in
      if name = chars ''.text'' then
        copy_section sc (s\<lparr>noffH := h\<lparr>code := \<lparr>virtualAddr = addr, inFileAddr = inNoffFile s, segSize = sz\<rparr>\<rparr>\<rparr>)
      else if name = chars ''.data'' \<or> name = chars ''.rdata'' then
        (if segSize (initData h) \<noteq> 0 then Inl DataAndRdata
         else copy_section sc (s\<lparr>noffH := h\<lparr>initData := \<lparr>virtualAddr = addr, inFileAddr = inNoffFile s, segSize = sz\<rparr>\<rparr>\<rparr>))
      else if name = chars ''.bss'' \<or> name = chars ''.sbss'' then
        (if segSize (uninitData h) \<noteq> 0 then
           (if addr = virtualAddr (uninitData h) + segSize (uninitData h) then Inl BssAndSbss
            else Inr (s\<lparr>noffH := h\<lparr>uninitData := (uninitData h)\<lparr>segSize := segSize (uninitData h) + sz\<rparr>\<rparr>\<rparr>))
         else Inr (s\<lparr>noffH := h\<lparr>uninitData := (uninitData h)\<lparr>virtualAddr := addr, segSize := sz\<rparr>\<rparr>\<rparr>))
      else Inr s)"

text \<open>
  \<open>main\<close> on the bytes of the input; the fields of \<open>noffH\<close> that are not assigned have the values
  \<open>h0\<close> of the uninitialised variable. The result is the content of the output, which an error removes.
\<close>

definition coff2noff :: "noffHeader \<Rightarrow> byte list \<Rightarrow> coff_error + byte list" where
  "coff2noff h0 input =
     (case CoffReaderLoad (fopen_read input) of Inl e \<Rightarrow> Inl e
      | Inr (d, f) \<Rightarrow>
        let h = h0\<lparr>noffMagic := NOFF_MAGIC, code := (code h0)\<lparr>segSize := 0\<rparr>, initData := (initData h0)\<lparr>segSize := 0\<rparr>,
                   uninitData := (uninitData h0)\<lparr>segSize := 0\<rparr>\<rparr>;
            s = \<lparr>noffH = h, inNoffFile = of_nat NOFF_HEADER_SIZE, inF = f,
                 outF = fseek_set NOFF_HEADER_SIZE \<lparr>fileBytes = [], filePos = 0\<rparr>\<rparr>
        in (case section_loop translate_section d s of Inl e \<Rightarrow> Inl e
            | Inr s1 \<Rightarrow> Inr (fileBytes (fwrite_block (noff_bytes (noffH s1)) (fseek_set 0 (outF s1))))))"

subsection \<open>What the converter makes of the sections\<close>

text \<open>
  The sections that count: not empty, and with one of the names the converter knows. The bytes of a
  section, and whether the file has them all.
\<close>

definition relevant :: "coffSectionHeader \<Rightarrow> bool" where
  "relevant sh \<longleftrightarrow> \<not> CoffSectionEmpty sh
     \<and> CoffSectionName sh \<in> {chars ''.text'', chars ''.data'', chars ''.rdata'', chars ''.bss'', chars ''.sbss''}"

definition section_bytes :: "byte list \<Rightarrow> coffSectionHeader \<Rightarrow> byte list" where
  "section_bytes input sh = slice (unat (sectionPtr sh)) (unat (sh_size sh)) input"

definition section_there :: "byte list \<Rightarrow> coffSectionHeader \<Rightarrow> bool" where
  "section_there input sh \<longleftrightarrow> sh_size sh \<noteq> 0 \<and> unat (sectionPtr sh) + unat (sh_size sh) \<le> length input"

lemma length_section_bytes: "section_there input sh \<Longrightarrow> length (section_bytes input sh) = unat (sh_size sh)"
  by (auto simp: section_there_def section_bytes_def)

lemma translate_irrelevant: "\<not> relevant sh \<Longrightarrow> translate_section sh s = Inr s"
  by (auto simp: relevant_def translate_section_def Let_def)

text \<open>The state of the loop when \<open>bs\<close> has been written behind the place of the header.\<close>

definition out_written :: "byte list \<Rightarrow> byte list \<Rightarrow> converter \<Rightarrow> bool" where
  "out_written input bs s \<longleftrightarrow> fileBytes (inF s) = input \<and> inNoffFile s = of_nat (40 + length bs) \<and> filePos (outF s) = 40 + length bs
     \<and> fileBytes (outF s) = (if bs = [] then [] else replicate 40 0 @ bs)"

lemma copy_section_written:
  assumes "section_there input sc" "out_written input bs s"
  shows "\<exists>s1. copy_section sc s = Inr s1 \<and> noffH s1 = noffH s \<and> out_written input (bs @ section_bytes input sc) s1"
proof -
  have r: "CoffSectionRead sc (inF s) = Inr (section_bytes input sc, (inF s)\<lparr>filePos := unat (sectionPtr sc) + unat (sh_size sc)\<rparr>)"
    using assms by (simp add: CoffSectionRead_def fread_block_def fseek_set_def section_there_def section_bytes_def out_written_def unat_eq_0)
  have n: "length (section_bytes input sc) = unat (sh_size sc)" using assms(1) by (rule length_section_bytes)
  then have "section_bytes input sc \<noteq> []" using assms(1) by (auto simp: section_there_def unat_eq_0)
  then show ?thesis using assms(2) r n
    by (simp add: copy_section_def out_written_def fwrite_block_def host_write_def overlay_def CoffSectionSize_def)
qed

lemma name_cases: "chars ''.text'' \<noteq> chars ''.data''" "chars ''.text'' \<noteq> chars ''.rdata''" "chars ''.text'' \<noteq> chars ''.bss''"
  "chars ''.text'' \<noteq> chars ''.sbss''" "chars ''.data'' \<noteq> chars ''.bss''" "chars ''.data'' \<noteq> chars ''.sbss''"
  "chars ''.rdata'' \<noteq> chars ''.bss''" "chars ''.rdata'' \<noteq> chars ''.sbss''"
  by (simp_all add: chars_def)

lemma translate_text:
  assumes "CoffSectionName sc = chars ''.text''" "section_there input sc" "out_written input bs s"
  shows "\<exists>s1. translate_section sc s = Inr s1 \<and> out_written input (bs @ section_bytes input sc) s1
    \<and> noffH s1 = (noffH s)\<lparr>code := \<lparr>virtualAddr = physAddr sc, inFileAddr = of_nat (40 + length bs), segSize = sh_size sc\<rparr>\<rparr>"
proof -
  let ?s = "s\<lparr>noffH := (noffH s)\<lparr>code := \<lparr>virtualAddr = physAddr sc, inFileAddr = inNoffFile s, segSize = sh_size sc\<rparr>\<rparr>\<rparr>"
  have "out_written input bs ?s" "translate_section sc s = copy_section sc ?s"
    using assms by (auto simp: out_written_def translate_section_def Let_def CoffSectionEmpty_def CoffSectionSize_def CoffSectionAddr_def section_there_def)
  then show ?thesis using copy_section_written [OF assms(2), of bs ?s] assms(3) by (auto simp: out_written_def)
qed

lemma translate_data:
  assumes "CoffSectionName sc \<in> {chars ''.data'', chars ''.rdata''}" "section_there input sc" "out_written input bs s" "segSize (initData (noffH s)) = 0"
  shows "\<exists>s1. translate_section sc s = Inr s1 \<and> out_written input (bs @ section_bytes input sc) s1
    \<and> noffH s1 = (noffH s)\<lparr>initData := \<lparr>virtualAddr = physAddr sc, inFileAddr = of_nat (40 + length bs), segSize = sh_size sc\<rparr>\<rparr>"
proof -
  let ?s = "s\<lparr>noffH := (noffH s)\<lparr>initData := \<lparr>virtualAddr = physAddr sc, inFileAddr = inNoffFile s, segSize = sh_size sc\<rparr>\<rparr>\<rparr>"
  have "out_written input bs ?s" "translate_section sc s = copy_section sc ?s"
    using assms name_cases
    by (auto simp: out_written_def translate_section_def Let_def CoffSectionEmpty_def CoffSectionSize_def CoffSectionAddr_def section_there_def)
  then show ?thesis using copy_section_written [OF assms(2), of bs ?s] assms(3) by (auto simp: out_written_def)
qed

lemma translate_bss:
  assumes "CoffSectionName sc \<in> {chars ''.bss'', chars ''.sbss''}" "sh_size sc \<noteq> 0"
  shows "translate_section sc s = (let u = uninitData (noffH s) in
    if segSize u \<noteq> 0 \<and> physAddr sc = virtualAddr u + segSize u then Inl BssAndSbss
    else Inr (s\<lparr>noffH := (noffH s)\<lparr>uninitData := (if segSize u \<noteq> 0 then u\<lparr>segSize := segSize u + sh_size sc\<rparr>
      else u\<lparr>virtualAddr := physAddr sc, segSize := sh_size sc\<rparr>)\<rparr>\<rparr>))"
  using assms name_cases
  by (auto simp: translate_section_def Let_def CoffSectionEmpty_def CoffSectionSize_def CoffSectionAddr_def)

text \<open>The whole program on a file whose sections are loaded, with the loop over the relevant ones.\<close>

definition start_header :: "noffHeader \<Rightarrow> noffHeader" where
  "start_header h0 = h0\<lparr>noffMagic := NOFF_MAGIC, code := (code h0)\<lparr>segSize := 0\<rparr>, initData := (initData h0)\<lparr>segSize := 0\<rparr>,
     uninitData := (uninitData h0)\<lparr>segSize := 0\<rparr>\<rparr>"

lemma coff2noff_sections:
  assumes "CoffReaderLoad (fopen_read input) = Inr (d, f)"
  shows "\<exists>s. out_written input [] s \<and> noffH s = start_header h0 \<and> coff2noff h0 input =
    (case for_sections translate_section (filter relevant (sections d)) s of Inl e \<Rightarrow> Inl e
     | Inr s1 \<Rightarrow> Inr (fileBytes (fwrite_block (noff_bytes (noffH s1)) (fseek_set 0 (outF s1)))))"
proof -
  let ?s = "\<lparr>noffH = start_header h0, inNoffFile = of_nat NOFF_HEADER_SIZE, inF = f,
                 outF = fseek_set NOFF_HEADER_SIZE \<lparr>fileBytes = [], filePos = 0\<rparr>\<rparr>"
  have d: "length (sections d) = unat (nSections (fileH d))" "currentSection d = 0" "fileBytes f = input"
    using CoffReaderLoad_sections [OF assms] by (simp_all add: fopen_read_def)
  have "out_written input [] ?s" using d(3) by (simp add: out_written_def fseek_set_def NOFF_HEADER_SIZE_def)
  moreover have "section_loop translate_section d ?s = for_sections translate_section (filter relevant (sections d)) ?s"
    using section_loop_sections [of d translate_section ?s] d(1,2) for_sections_filter [of "sections d" relevant translate_section ?s, OF translate_irrelevant] by simp
  ultimately show ?thesis using assms by (intro exI [of _ ?s]) (simp add: coff2noff_def start_header_def)
qed

lemma length_noff_bytes [simp]: "length (noff_bytes h) = 40"
  by (simp add: noff_bytes_def segment_words_def)

lemma header_written:
  assumes "out_written input bs s"
  shows "fileBytes (fwrite_block (noff_bytes h) (fseek_set 0 (outF s))) = noff_bytes h @ bs"
  using assms by (auto simp: out_written_def fwrite_block_def fseek_set_def host_write_def overlay_def)

text \<open>Code and at most one section of initialised data, as the linker script of the user programs lays them out.\<close>

definition linked :: "byte list \<Rightarrow> coffSectionHeader \<Rightarrow> coffSectionHeader list \<Rightarrow> bool" where
  "linked input tx ds \<longleftrightarrow> CoffSectionName tx = chars ''.text'' \<and> section_there input tx \<and> physAddr tx = 0
     \<and> length ds \<le> 1 \<and> list_all (\<lambda>sh. CoffSectionName sh \<in> {chars ''.data'', chars ''.rdata''} \<and> section_there input sh
          \<and> physAddr sh = sh_size tx) ds"

lemma for_sections_append: "for_sections body (xs @ ys) s = (case for_sections body xs s of Inl e \<Rightarrow> Inl e | Inr s1 \<Rightarrow> for_sections body ys s1)"
  by (induction xs arbitrary: s) (auto split: sum.split)

lemma linked_sections:
  assumes "linked input tx ds" "out_written input [] s" "noffH s = start_header h0"
  shows "\<exists>s1. for_sections translate_section (tx # ds) s = Inr s1
    \<and> out_written input (section_bytes input tx @ concat (map (section_bytes input) ds)) s1
    \<and> noffMagic (noffH s1) = NOFF_MAGIC \<and> code (noffH s1) = \<lparr>virtualAddr = 0, inFileAddr = 40, segSize = sh_size tx\<rparr>
    \<and> uninitData (noffH s1) = (uninitData h0)\<lparr>segSize := 0\<rparr>
    \<and> (if ds = [] then segSize (initData (noffH s1)) = 0 else initData (noffH s1) =
         \<lparr>virtualAddr = sh_size tx, inFileAddr = of_nat (40 + length (section_bytes input tx)), segSize = sh_size (hd ds)\<rparr>)"
proof -
  have t: "CoffSectionName tx = chars ''.text''" "section_there input tx" "physAddr tx = 0" using assms(1) by (simp_all add: linked_def)
  from translate_text [OF t(1,2) assms(2)] obtain s1 where s1: "translate_section tx s = Inr s1" "out_written input (section_bytes input tx) s1"
    "noffH s1 = (start_header h0)\<lparr>code := \<lparr>virtualAddr = 0, inFileAddr = 40, segSize = sh_size tx\<rparr>\<rparr>" using assms(3) t(3) by auto
  show ?thesis
  proof (cases ds)
    case Nil
    then show ?thesis using s1 by (simp add: start_header_def)
  next
    case (Cons sh rest)
    then have d: "rest = []" "CoffSectionName sh \<in> {chars ''.data'', chars ''.rdata''}" "section_there input sh" "physAddr sh = sh_size tx"
      using assms(1) by (simp_all add: linked_def)
    have "segSize (initData (noffH s1)) = 0" by (simp add: s1(3) start_header_def)
    from translate_data [OF d(2,3) s1(2) this] obtain s2 where "translate_section sh s1 = Inr s2"
      "out_written input (section_bytes input tx @ section_bytes input sh) s2"
      "noffH s2 = (noffH s1)\<lparr>initData := \<lparr>virtualAddr = sh_size tx, inFileAddr = of_nat (40 + length (section_bytes input tx)), segSize = sh_size sh\<rparr>\<rparr>"
      using d(4) by auto
    then show ?thesis using Cons d(1) s1(1,3) by (simp add: start_header_def)
  qed
qed

lemma linked_is_noff:
  assumes "linked input tx ds" "noffMagic h = NOFF_MAGIC" "code h = \<lparr>virtualAddr = 0, inFileAddr = 40, segSize = sh_size tx\<rparr>"
    and "if ds = [] then segSize (initData h) = 0 else initData h =
         \<lparr>virtualAddr = sh_size tx, inFileAddr = of_nat (40 + length (section_bytes input tx)), segSize = sh_size (hd ds)\<rparr>"
  shows "is_noff (noff_bytes h @ section_bytes input tx @ concat (map (section_bytes input) ds))
    (section_bytes input tx) (concat (map (section_bytes input) ds)) (segSize (uninitData h))"
proof -
  have n: "of_nat (length (section_bytes input tx)) = sh_size tx" using assms(1) length_section_bytes [of input tx] by (simp add: linked_def)
  have "ds = [] \<or> (\<exists>sh. ds = [sh] \<and> section_there input sh)" using assms(1) by (cases ds) (auto simp: linked_def)
  then have "of_nat (length (concat (map (section_bytes input) ds))) = segSize (initData h)"
    using assms(4) by (auto simp: length_section_bytes)
  then show ?thesis using assms(2-4) n
    by (cases "ds = []") (simp_all add: is_noff_def bytes_noff_bytes Let_def NOFF_HEADER_SIZE_def)
qed

text \<open>The state of the loop behind code and data; what the sections of uninitialised data leave alone.\<close>

definition noff_rest :: "converter \<Rightarrow> converter \<Rightarrow> bool" where
  "noff_rest s s' \<longleftrightarrow> noffMagic (noffH s') = noffMagic (noffH s) \<and> code (noffH s') = code (noffH s) \<and> initData (noffH s') = initData (noffH s)"

lemma coff2noff_linked:
  assumes "CoffReaderLoad (fopen_read input) = Inr (d, f)" "filter relevant (sections d) = tx # ds @ us" "linked input tx ds"
  defines "cd \<equiv> section_bytes input tx" and "dt \<equiv> concat (map (section_bytes input) ds)"
  shows "\<exists>s1. out_written input (cd @ dt) s1 \<and> segSize (uninitData (noffH s1)) = 0
    \<and> (\<forall>s2. noff_rest s1 s2 \<longrightarrow> is_noff (noff_bytes (noffH s2) @ cd @ dt) cd dt (segSize (uninitData (noffH s2))))
    \<and> coff2noff h0 input = (case for_sections translate_section us s1 of Inl e \<Rightarrow> Inl e | Inr s2 \<Rightarrow>
        Inr (fileBytes (fwrite_block (noff_bytes (noffH s2)) (fseek_set 0 (outF s2)))))"
proof -
  from coff2noff_sections [OF assms(1), of h0] obtain s where s: "out_written input [] s" "noffH s = start_header h0" "coff2noff h0 input =
    (case for_sections translate_section (filter relevant (sections d)) s of Inl e \<Rightarrow> Inl e
     | Inr s1 \<Rightarrow> Inr (fileBytes (fwrite_block (noff_bytes (noffH s1)) (fseek_set 0 (outF s1)))))" by blast
  from linked_sections [OF assms(3) s(1,2)] obtain s1 where s1: "for_sections translate_section (tx # ds) s = Inr s1" "out_written input (cd @ dt) s1"
    "noffMagic (noffH s1) = NOFF_MAGIC" "code (noffH s1) = \<lparr>virtualAddr = 0, inFileAddr = 40, segSize = sh_size tx\<rparr>"
    "segSize (uninitData (noffH s1)) = 0"
    "if ds = [] then segSize (initData (noffH s1)) = 0 else initData (noffH s1) =
         \<lparr>virtualAddr = sh_size tx, inFileAddr = of_nat (40 + length cd), segSize = sh_size (hd ds)\<rparr>" unfolding cd_def dt_def by auto
  have "is_noff (noff_bytes (noffH s2) @ cd @ dt) cd dt (segSize (uninitData (noffH s2)))" if "noff_rest s1 s2" for s2
    unfolding cd_def dt_def by (rule linked_is_noff [OF assms(3)]) (use s1(3,4,6) that in \<open>simp_all add: noff_rest_def cd_def\<close>)
  moreover have "for_sections translate_section (filter relevant (sections d)) s = for_sections translate_section us s1"
    using for_sections_append [of translate_section "tx # ds" us s] s1(1) assms(2) by simp
  ultimately show ?thesis using s(3) s1(2,5) by (intro exI [of _ s1]) simp
qed

lemma relevant_size: "filter relevant (sections d) = tx # ds @ us \<Longrightarrow> sh \<in> set us \<Longrightarrow> sh_size sh \<noteq> 0"
proof -
  assume "filter relevant (sections d) = tx # ds @ us" "sh \<in> set us"
  then have "sh \<in> set (filter relevant (sections d))" by simp
  then show ?thesis by (simp add: relevant_def CoffSectionEmpty_def CoffSectionSize_def)
qed


text \<open>
  When there are two sections of uninitialised data, the test that should make sure that they
  are contiguous is the wrong way round: the second section directly behind the first, which is how the
  linker script places \<open>.sbss\<close> and \<open>.bss\<close>, is refused, and a second section anywhere else is accepted
  and counted as if it followed the first.
\<close>

theorem coff2noff_two_bss:
  assumes "CoffReaderLoad (fopen_read input) = Inr (d, f)" "filter relevant (sections d) = tx # ds @ [u1, u2]"
    and "linked input tx ds" "{CoffSectionName u1, CoffSectionName u2} \<subseteq> {chars ''.bss'', chars ''.sbss''}"
  shows "if physAddr u2 = physAddr u1 + sh_size u1 then coff2noff h0 input = Inl BssAndSbss
    else \<exists>out. coff2noff h0 input = Inr out
      \<and> is_noff out (section_bytes input tx) (concat (map (section_bytes input) ds)) (sh_size u1 + sh_size u2)"
proof -
  let ?cd = "section_bytes input tx" and ?dt = "concat (map (section_bytes input) ds)"
  from coff2noff_linked [OF assms(1-3), of h0] obtain s1 where s1: "out_written input (?cd @ ?dt) s1" "segSize (uninitData (noffH s1)) = 0"
    "\<And>s2. noff_rest s1 s2 \<Longrightarrow> is_noff (noff_bytes (noffH s2) @ ?cd @ ?dt) ?cd ?dt (segSize (uninitData (noffH s2)))"
    "coff2noff h0 input = (case for_sections translate_section [u1, u2] s1 of Inl e \<Rightarrow> Inl e | Inr s2 \<Rightarrow>
      Inr (fileBytes (fwrite_block (noff_bytes (noffH s2)) (fseek_set 0 (outF s2)))))" by blast
  have nz: "sh_size u1 \<noteq> 0" "sh_size u2 \<noteq> 0" using relevant_size [OF assms(2)] by simp_all
  show ?thesis
  proof (cases "physAddr u2 = physAddr u1 + sh_size u1")
    case True
    then show ?thesis using s1(2,4) nz assms(4) by (simp add: translate_bss)
  next
    case False
    then obtain s2 where s2: "for_sections translate_section [u1, u2] s1 = Inr s2" "segSize (uninitData (noffH s2)) = sh_size u1 + sh_size u2"
      "out_written input (?cd @ ?dt) s2" "noff_rest s1 s2"
      using s1(1,2) nz assms(4) by (auto simp: translate_bss out_written_def noff_rest_def)
    then show ?thesis using False s1(3) [OF s2(4)] s1(4) header_written [OF s2(3)] by simp
  qed
qed

text \<open>
  A sample: a section of build information, code, data and uninitialised data. Their bytes are behind
  the headers, at 76 + 4 * 40 = 236.
\<close>

definition sample_section :: "string \<Rightarrow> u32 \<Rightarrow> u32 \<Rightarrow> u32 \<Rightarrow> coffSectionHeader" where
  "sample_section nm a n ptr = \<lparr>sh_name = chars nm @ replicate (8 - length nm) 0, physAddr = a, virtAddr = a, sh_size = n, sectionPtr = ptr,
     relocPtr = 0, lnnoPtr = 0, nReloc = 0, nLnno = 0, sh_flags = 0\<rparr>"

definition sample_coff :: "byte list" where
  "sample_coff = coff_image [sample_section ''.comment'' 0 3 236, sample_section ''.text'' 0 8 239, sample_section ''.data'' 8 2 247,
     sample_section ''.bss'' 10 16 0] [67, 67, 67, 12, 0, 0, 0, 0, 0, 0, 0, 5, 6]"

lemma sample_coff_load: "\<exists>d f. CoffReaderLoad (fopen_read sample_coff) = Inr (d, f) \<and> sections d =
    [sample_section ''.comment'' 0 3 236, sample_section ''.text'' 0 8 239, sample_section ''.data'' 8 2 247, sample_section ''.bss'' 10 16 0]"
  unfolding sample_coff_def by (rule coff_image_load) (simp_all add: sample_section_def chars_def)

lemma sample_name: "length nm \<le> 8 \<Longrightarrow> 0 \<notin> set (chars nm) \<Longrightarrow> CoffSectionName (sample_section nm a n ptr) = chars nm"
  using takeWhile_append2 [of "chars nm" "\<lambda>b. b \<noteq> 0" "replicate (8 - length nm) 0"]
  by (auto simp: CoffSectionName_def sample_section_def cstr_def chars_def)

lemma sample_section_names:
  "CoffSectionName (sample_section ''.text'' a n ptr) = chars ''.text''" "CoffSectionName (sample_section ''.data'' a n ptr) = chars ''.data''"
  "CoffSectionName (sample_section ''.bss'' a n ptr) = chars ''.bss''" "CoffSectionName (sample_section ''.sbss'' a n ptr) = chars ''.sbss''"
  "CoffSectionName (sample_section ''.comment'' a n ptr) = chars ''.comment''"
  by (rule sample_name; simp add: chars_def)+

lemma sample_section_fields: "sh_size (sample_section nm a n ptr) = n" "physAddr (sample_section nm a n ptr) = a" "sectionPtr (sample_section nm a n ptr) = ptr"
  by (simp_all add: sample_section_def)

lemma comment_irrelevant: "chars ''.comment'' \<notin> {chars ''.text'', chars ''.data'', chars ''.rdata'', chars ''.bss'', chars ''.sbss''}"
  by (simp add: chars_def)

lemmas sample_sections = sample_section_names sample_section_fields

lemma sample_relevant: "relevant (sample_section nm a n ptr) \<longleftrightarrow> n \<noteq> 0 \<and> CoffSectionName (sample_section nm a n ptr)
    \<in> {chars ''.text'', chars ''.data'', chars ''.rdata'', chars ''.bss'', chars ''.sbss''}"
  by (simp add: relevant_def CoffSectionEmpty_def CoffSectionSize_def sample_sections)

lemma sample_body: "drop 236 sample_coff = [67, 67, 67, 12, 0, 0, 0, 0, 0, 0, 0, 5, 6]" "length sample_coff = 249"
  by (simp_all add: sample_coff_def coff_image_def section_image_def sample_section_def chars_def)

lemma sample_slice: "236 \<le> p \<Longrightarrow> slice p n sample_coff = slice (p - 236) n [67, 67, 67, 12, 0, 0, 0, 0, 0, 0, 0, 5, 6]"
  unfolding slice_def sample_body(1) [symmetric] by simp

definition sample_bin :: OpenFile where
  "sample_bin = \<lparr>hdr = bytes_header (replicate 128 0), currentSector = 0, seekPosition = 0, sector = 0, hostFd = 7, currentOffset = 0, isBin = True\<rparr>"

definition sample_filesystem :: "byte list \<Rightarrow> FileSystem" where
  "sample_filesystem out = \<lparr>fsw = sample_world\<lparr>hostFiles := (\<lambda>_. out)\<rparr>, directoryFile = sample_bin, directorySize = 0, filesysCreateLock = None, spaceId = 0\<rparr>"


text \<open>The layout of the linker script with both kinds of uninitialised data.\<close>

definition sample_two_bss :: "byte list" where
  "sample_two_bss = coff_image [sample_section ''.text'' 0 4 196, sample_section ''.sbss'' 4 8 0, sample_section ''.bss'' 12 16 0] [12, 0, 0, 0]"

theorem coff2noff_two_bss_witness: "coff2noff (bytes_noff (replicate 40 7)) sample_two_bss = Inl BssAndSbss"
proof -
  have "\<exists>d f. CoffReaderLoad (fopen_read sample_two_bss) = Inr (d, f) \<and> sections d =
    [sample_section ''.text'' 0 4 196, sample_section ''.sbss'' 4 8 0, sample_section ''.bss'' 12 16 0]"
    unfolding sample_two_bss_def by (rule coff_image_load) (simp_all add: sample_section_def chars_def)
  then obtain d f where l: "CoffReaderLoad (fopen_read sample_two_bss) = Inr (d, f)" "sections d =
    [sample_section ''.text'' 0 4 196, sample_section ''.sbss'' 4 8 0, sample_section ''.bss'' 12 16 0]" by blast
  have "filter relevant (sections d) = sample_section ''.text'' 0 4 196 # [] @ [sample_section ''.sbss'' 4 8 0, sample_section ''.bss'' 12 16 0]"
    by (simp add: l(2) sample_relevant sample_sections)
  moreover have "linked sample_two_bss (sample_section ''.text'' 0 4 196) []"
    by (simp add: linked_def sample_sections section_there_def sample_two_bss_def coff_image_def)
      (simp add: section_image_def sample_section_def chars_def)
  ultimately show ?thesis using coff2noff_two_bss [OF l(1)] by (fastforce simp: sample_sections)
qed

section \<open>coff2flat\<close>

definition STACK_SIZE :: nat where "STACK_SIZE = 2048"

record flattener =
  top_addr :: int
  flatIn :: FILE
  flatOut :: FILE

text \<open>
  \<open>top\<close> is an \<open>int\<close> that is compared with, and assigned from, the sum of two \<open>size_t\<close>.
\<close>

definition flatten_section :: "coffSectionHeader \<Rightarrow> flattener \<Rightarrow> coff_error + flattener" where
  "flatten_section sc s =
     (let finish = unat (CoffSectionAddr sc) + unat (CoffSectionSize sc);
          s1 = (if int finish > top_addr s mod 2 ^ 64 then s\<lparr>top_addr := sint (of_nat finish :: u32)\<rparr> else s)
      in if CoffSectionName sc \<noteq> chars ''.bss'' \<and> CoffSectionName sc \<noteq> chars ''.sbss''
         then (case CoffSectionRead sc (flatIn s1) of Inl e \<Rightarrow> Inl e
               | Inr (buffer, f) \<Rightarrow> Inr (s1\<lparr>flatIn := f, flatOut := fwrite_block buffer (flatOut s1)\<rparr>))
         else Inr s1)"

text \<open>A seek to a negative place fails and leaves the position alone.\<close>

definition coff2flat :: "byte list \<Rightarrow> coff_error + byte list" where
  "coff2flat input =
     (case CoffReaderLoad (fopen_read input) of Inl e \<Rightarrow> Inl e
      | Inr (d, f) \<Rightarrow>
        (case section_loop flatten_section d \<lparr>top_addr = 0, flatIn = f, flatOut = \<lparr>fileBytes = [], filePos = 0\<rparr>\<rparr> of Inl e \<Rightarrow> Inl e
         | Inr s \<Rightarrow> let place = top_addr s + int STACK_SIZE - 4;
                        out = (if place < 0 then flatOut s else fseek_set (nat place) (flatOut s))
                    in Inr (fileBytes (fwrite_block [0, 0, 0, 0] out))))"

definition is_bss :: "coffSectionHeader \<Rightarrow> bool" where
  "is_bss sh \<longleftrightarrow> CoffSectionName sh \<in> {chars ''.bss'', chars ''.sbss''}"

definition section_end :: "coffSectionHeader \<Rightarrow> nat" where
  "section_end sh = unat (physAddr sh) + unat (sh_size sh)"

lemma flatten_sections:
  assumes "\<forall>sh \<in> set shs. section_end sh < 2147483648 \<and> (is_bss sh \<or> section_there input sh)"
    and "fileBytes (flatIn s) = input" "top_addr s = int t" "t < 2147483648" "flatOut s = \<lparr>fileBytes = bs, filePos = length bs\<rparr>"
  shows "\<exists>s1 bs1. for_sections flatten_section shs s = Inr s1 \<and> fileBytes (flatIn s1) = input
    \<and> top_addr s1 = int (foldl max t (map section_end shs)) \<and> bs1 = bs @ concat (map (section_bytes input) (filter (\<lambda>sh. \<not> is_bss sh) shs))
    \<and> flatOut s1 = \<lparr>fileBytes = bs1, filePos = length bs1\<rparr>"
  using assms
proof (induction shs arbitrary: s t bs)
  case Nil
  then show ?case by simp
next
  case (Cons sh shs)
  let ?e = "section_end sh" and ?t = "max t (section_end sh)"
  have e: "?e < 2147483648" "is_bss sh \<or> section_there input sh" using Cons.prems(1) by simp_all
  have up: "(if int ?e > top_addr s mod 2 ^ 64 then sint (of_nat ?e :: u32) else top_addr s) = int ?t"
    using e(1) Cons.prems(3,4) by (simp add: signed_of_nat signed_take_bit_int_eq_self max_def)
  have "\<exists>s1. flatten_section sh s = Inr s1 \<and> fileBytes (flatIn s1) = input \<and> top_addr s1 = int ?t
    \<and> flatOut s1 = (let bs1 = (if is_bss sh then bs else bs @ section_bytes input sh) in \<lparr>fileBytes = bs1, filePos = length bs1\<rparr>)"
  proof (cases "is_bss sh")
    case True
    then show ?thesis using up Cons.prems(2,3,5)
      by (auto simp: flatten_section_def is_bss_def Let_def CoffSectionAddr_def CoffSectionSize_def section_end_def split: if_splits)
  next
    case False
    then have there: "section_there input sh" using e(2) by simp
    have "CoffSectionRead sh g = Inr (section_bytes input sh, g\<lparr>filePos := unat (sectionPtr sh) + unat (sh_size sh)\<rparr>)" if "fileBytes g = input" for g
      using there that by (simp add: CoffSectionRead_def fread_block_def fseek_set_def section_there_def section_bytes_def unat_eq_0)
    then show ?thesis using False up Cons.prems(2,3,5)
      by (auto simp: flatten_section_def is_bss_def Let_def CoffSectionAddr_def CoffSectionSize_def section_end_def fwrite_block_def host_write_def
          overlay_def split: if_splits)
  qed
  then obtain s1 where s1: "flatten_section sh s = Inr s1" "fileBytes (flatIn s1) = input" "top_addr s1 = int ?t"
    "flatOut s1 = (let bs1 = (if is_bss sh then bs else bs @ section_bytes input sh) in \<lparr>fileBytes = bs1, filePos = length bs1\<rparr>)" by blast
  let ?bs = "if is_bss sh then bs else bs @ section_bytes input sh"
  have "flatOut s1 = \<lparr>fileBytes = ?bs, filePos = length ?bs\<rparr>" using s1(4) by (simp add: Let_def)
  moreover have "\<forall>sh \<in> set shs. section_end sh < 2147483648 \<and> (is_bss sh \<or> section_there input sh)" "?t < 2147483648"
    using Cons.prems(1,4) e(1) by simp_all
  ultimately show ?case using Cons.IH [OF _ s1(2,3), of ?bs] s1(1) by (cases "is_bss sh") simp_all
qed

text \<open>
  The sections are written one behind the other in the order of the file, whatever their addresses
  are, and the file is filled with zeros to the end of the stack.
\<close>

lemma coff2flat_output:
  assumes "CoffReaderLoad (fopen_read input) = Inr (d, f)"
    and "\<forall>sh \<in> set (sections d). section_end sh < 2147483648 \<and> (is_bss sh \<or> section_there input sh)"
    and "bs = concat (map (section_bytes input) (filter (\<lambda>sh. \<not> is_bss sh) (sections d)))" "t = foldl max 0 (map section_end (sections d))"
    and "length bs \<le> t + STACK_SIZE - 4"
  shows "coff2flat input = Inr (bs @ replicate (t + STACK_SIZE - length bs) 0)"
proof -
  let ?s = "\<lparr>top_addr = 0, flatIn = f, flatOut = \<lparr>fileBytes = [], filePos = 0\<rparr>\<rparr>"
  have d: "length (sections d) = unat (nSections (fileH d))" "currentSection d = 0" "fileBytes f = input"
    using CoffReaderLoad_sections [OF assms(1)] by (simp_all add: fopen_read_def)
  from flatten_sections [OF assms(2), of ?s 0 "[]"] d(3) assms(3,4) obtain s1 where s1: "for_sections flatten_section (sections d) ?s = Inr s1"
    "top_addr s1 = int t" "flatOut s1 = \<lparr>fileBytes = bs, filePos = length bs\<rparr>" by auto
  have "section_loop flatten_section d ?s = Inr s1" using section_loop_sections [of d flatten_section ?s] d(1,2) s1(1) by simp
  moreover have "replicate (t + STACK_SIZE - length bs) 0 = replicate (t + STACK_SIZE - 4 - length bs) 0 @ [0, 0, 0, 0 :: byte]"
  proof -
    have "t + STACK_SIZE - length bs = t + STACK_SIZE - 4 - length bs + 4" using assms(5) by (simp add: STACK_SIZE_def)
    moreover have "replicate 4 0 = [0, 0, 0, 0 :: byte]" by (simp add: numeral_eq_Suc)
    ultimately show ?thesis by (simp only: replicate_add)
  qed
  ultimately show ?thesis using assms(1,5) s1(2,3)
    by (simp add: coff2flat_def Let_def fseek_set_def fwrite_block_def host_write_def overlay_def STACK_SIZE_def nat_add_distrib)
qed

section \<open>readnoff\<close>

text \<open>The text that \<open>readnoff\<close> prints, with \<open>%u\<close> as \<open>decimal\<close> and \<open>%X\<close> as \<open>hexadecimal\<close>.\<close>

definition PrintSegment :: "noffSegment \<Rightarrow> string \<Rightarrow> byte list" where
  "PrintSegment g description =
     chars ''    '' @ chars description @ chars '' segment:'' @ [10]
     @ chars ''        Virtual address: '' @ decimal (unat (virtualAddr g)) @ chars '' (0x'' @ hexadecimal (unat (virtualAddr g)) @ chars '')'' @ [10]
     @ chars ''        In-file address: '' @ decimal (unat (inFileAddr g)) @ chars '' (0x'' @ hexadecimal (unat (inFileAddr g)) @ chars '')'' @ [10]
     @ chars ''        Size: '' @ decimal (unat (segSize g)) @ chars '' bytes'' @ [10]"

definition readnoff :: "byte list \<Rightarrow> byte list \<Rightarrow> byte list option" where
  "readnoff path input = (case fread_block NOFF_HEADER_SIZE (fopen_read input) of None \<Rightarrow> None
     | Some (bs, f) \<Rightarrow> let h = bytes_noff bs in Some (
         path @ (if noffMagic h = NOFF_MAGIC then chars '': NOFF file'' @ [10] @ chars ''    Magic: 0x'' @ hexadecimal (unat (noffMagic h)) @ [10]
                 else chars '': not a NOFF file'' @ [10] @ chars ''    Magic: 0x'' @ hexadecimal (unat (noffMagic h))
                   @ chars '' (should be 0x'' @ hexadecimal (unat NOFF_MAGIC) @ chars '')'' @ [10])
         @ PrintSegment (code h) ''Code'' @ PrintSegment (initData h) ''Initialized data'' @ PrintSegment (uninitData h) ''Uninitialized data''))"

text \<open>It reads back what \<open>coff2noff\<close> has written.\<close>

lemma readnoff_header:
  assumes "noffMagic h = NOFF_MAGIC"
  shows "readnoff path (noff_bytes h @ rest) = Some (path @ chars '': NOFF file'' @ [10] @ chars ''    Magic: 0x'' @ hexadecimal 0xBADFAD @ [10]
    @ PrintSegment (code h) ''Code'' @ PrintSegment (initData h) ''Initialized data'' @ PrintSegment (uninitData h) ''Uninitialized data'')"
proof -
  have r: "fread_block NOFF_HEADER_SIZE (fopen_read (noff_bytes h @ rest)) = Some (noff_bytes h, \<lparr>fileBytes = noff_bytes h @ rest, filePos = 40\<rparr>)"
    by (simp add: fread_block_def fopen_read_def slice_def NOFF_HEADER_SIZE_def)
  have "bytes_noff (noff_bytes h) = h" using bytes_noff_bytes [of h "[]"] by simp
  then show ?thesis unfolding readnoff_def r option.case prod.case Let_def assms by (simp only: assms if_True append_assoc) (simp add: NOFF_MAGIC_def)
qed

end
