(* ===== verification/Fs_Programs.thy ===== *)
theory Fs_Programs
  imports Mounted Stdio
begin

text \<open>
  The tools of \<open>filesys/fs_test.cc\<close> behind the options of the command line: copying a file of the host
  into the file system (\<open>-cp\<close>, \<open>-bcp\<close>, \<open>-cpe\<close>), printing a file (\<open>-pr\<close>), and the performance test (\<open>-tf\<close>).
\<close>

section \<open>Copying\<close>

definition TRANSFER_SIZE :: nat where "TRANSFER_SIZE = 10"

text \<open>What the program reports: the input cannot be opened, the output cannot be created, or it was copied.\<close>

datatype copy_outcome = NoInput | NotCreated | Copied

function copy_loop :: "world \<Rightarrow> OpenFile \<Rightarrow> FILE \<Rightarrow> nat \<Rightarrow> (OpenFile \<times> world) res" where
  "copy_loop w f fp count = (let (buffer, fp1) = fread_some TRANSFER_SIZE fp in
     if length buffer > 0 \<and> count + 1 < 20000
     then rbind (OpenFile_Write w f buffer (of_nat (length buffer)) False) (\<lambda>(n, f1, w1). copy_loop w1 f1 fp1 (count + 1))
     else Inr (f, w))"
  by pat_completeness auto
termination
  by (relation "measure (\<lambda>(w, f, fp, count). length (fileBytes fp) - filePos fp)")
    (auto simp: fread_some_def Let_def)

declare copy_loop.simps [simp del]

text \<open>\<open>unixFile\<close> is what \<open>fopen\<close> finds under a name; \<open>with_copy\<close> is common to the three variants.\<close>

definition with_copy :: "(byte list \<Rightarrow> int) \<Rightarrow> (byte list \<Rightarrow> int) \<Rightarrow> (byte list \<Rightarrow> byte list option) \<Rightarrow> FileSystem \<Rightarrow> byte list \<Rightarrow> byte list
    \<Rightarrow> (world \<Rightarrow> OpenFile \<Rightarrow> FILE \<Rightarrow> (OpenFile \<times> world) res) \<Rightarrow> (copy_outcome \<times> FileSystem) res" where
  "with_copy hostCreate hostOpen unixFile fs src dst loop =
     (case unixFile src of None \<Rightarrow> Inr (NoInput, fs) | Some bs \<Rightarrow>
      rbind (FileSystem_Create hostCreate fs dst False) (\<lambda>(success, fs1).
        if \<not> success then Inr (NotCreated, fs1)
        else rbind (FileSystem_Open hostOpen fs1 dst False) (\<lambda>(openFile, fs2).
          case openFile of None \<Rightarrow> Inl AssertFailed | Some f \<Rightarrow>
          rbind (loop (fsw fs2) f (fopen_read bs)) (\<lambda>(f1, w).
          rbind (close_file (fs2\<lparr>fsw := w\<rparr>) f1) (\<lambda>fs3. Inr (Copied, fs3))))))"

definition Copy :: "(byte list \<Rightarrow> int) \<Rightarrow> (byte list \<Rightarrow> int) \<Rightarrow> (byte list \<Rightarrow> byte list option) \<Rightarrow> FileSystem \<Rightarrow> byte list \<Rightarrow> byte list
    \<Rightarrow> (copy_outcome \<times> FileSystem) res" where
  "Copy hostCreate hostOpen unixFile fs src dst =
     with_copy hostCreate hostOpen unixFile fs src dst (\<lambda>w f fp. copy_loop w f fp 0)"

text \<open>\<open>BigCopy\<close> stops when nothing could be written.\<close>

function bigcopy_loop :: "world \<Rightarrow> OpenFile \<Rightarrow> FILE \<Rightarrow> (OpenFile \<times> world) res" where
  "bigcopy_loop w f fp = (let (buffer, fp1) = fread_some 500000 fp in
     if length buffer > 0
     then rbind (OpenFile_Write w f buffer (of_nat (length buffer)) False) (\<lambda>(n, f1, w1).
            if n = 0 then Inr (f1, w1) else bigcopy_loop w1 f1 fp1)
     else Inr (f, w))"
  by pat_completeness auto
termination
  by (relation "measure (\<lambda>(w, f, fp). length (fileBytes fp) - filePos fp)")
    (auto simp: fread_some_def Let_def)

declare bigcopy_loop.simps [simp del]

definition BigCopy :: "(byte list \<Rightarrow> int) \<Rightarrow> (byte list \<Rightarrow> int) \<Rightarrow> (byte list \<Rightarrow> byte list option) \<Rightarrow> FileSystem \<Rightarrow> byte list \<Rightarrow> byte list
    \<Rightarrow> (copy_outcome \<times> FileSystem) res" where
  "BigCopy hostCreate hostOpen unixFile fs src dst = with_copy hostCreate hostOpen unixFile fs src dst bigcopy_loop"

definition CopyExactFileHeaderSize :: "(byte list \<Rightarrow> int) \<Rightarrow> (byte list \<Rightarrow> int) \<Rightarrow> (byte list \<Rightarrow> byte list option) \<Rightarrow> FileSystem
    \<Rightarrow> byte list \<Rightarrow> byte list \<Rightarrow> (copy_outcome \<times> FileSystem) res" where
  "CopyExactFileHeaderSize hostCreate hostOpen unixFile fs src dst =
     with_copy hostCreate hostOpen unixFile fs src dst (\<lambda>w f fp.
       let (buffer, fp1) = fread_some 3712 fp
       in rbind (OpenFile_Write w f buffer (of_nat (length buffer)) False) (\<lambda>(n, f1, w1). Inr (f1, w1)))"

section \<open>Printing\<close>

text \<open>
  The bytes printed. The loop runs until \<open>Read\<close> returns nothing; \<open>fuel\<close> bounds the number of reads,
  and one more than a tenth of the length is enough.
\<close>

fun print_loop :: "nat \<Rightarrow> world \<Rightarrow> OpenFile \<Rightarrow> (byte list \<times> OpenFile) res" where
  "print_loop 0 w f = Inl Diverges"
| "print_loop (Suc fuel) w f = rbind (OpenFile_Read w f (of_nat TRANSFER_SIZE) False) (\<lambda>(bs, f1).
     if length bs > 0 then rbind (print_loop fuel w f1) (\<lambda>(out, f2). Inr (bs @ out, f2)) else Inr ([], f1))"

definition Print :: "nat \<Rightarrow> (byte list \<Rightarrow> int) \<Rightarrow> FileSystem \<Rightarrow> byte list \<Rightarrow> (byte list option \<times> FileSystem) res" where
  "Print fuel hostOpen fs nm =
     rbind (FileSystem_Open hostOpen fs nm False) (\<lambda>(openFile, fs1).
       case openFile of None \<Rightarrow> Inr (None, fs1)
       | Some f \<Rightarrow> rbind (print_loop fuel (fsw fs1) f) (\<lambda>(out, f1).
                   rbind (close_file fs1 f1) (\<lambda>fs2. Inr (Some out, fs2))))"

section \<open>The performance test\<close>

definition FILE_NAME :: "byte list" where "FILE_NAME = chars ''TestFile''"
definition CONTENTS :: "byte list" where "CONTENTS = chars ''1234567890''"
definition CONTENT_SIZE :: nat where "CONTENT_SIZE = 10"
definition FILE_SIZE :: nat where "FILE_SIZE = CONTENT_SIZE * 5000"

text \<open>The loops over \<open>i\<close> from 0 to \<open>FILE_SIZE\<close> in steps of \<open>CONTENT_SIZE\<close>, with the number of rounds left.\<close>

fun write_rounds :: "nat \<Rightarrow> world \<Rightarrow> OpenFile \<Rightarrow> (OpenFile \<times> world) res" where
  "write_rounds 0 w f = Inr (f, w)"
| "write_rounds (Suc k) w f = rbind (OpenFile_Write w f CONTENTS (of_nat CONTENT_SIZE) False) (\<lambda>(n, f1, w1).
     if sint n < 10 then Inr (f1, w1) else write_rounds k w1 f1)"

fun read_rounds :: "nat \<Rightarrow> world \<Rightarrow> OpenFile \<Rightarrow> OpenFile res" where
  "read_rounds 0 w f = Inr f"
| "read_rounds (Suc k) w f = rbind (OpenFile_Read w f (of_nat CONTENT_SIZE) False) (\<lambda>(bs, f1).
     if length bs < 10 \<or> \<not> strncmp_eq bs CONTENTS CONTENT_SIZE then Inr f1 else read_rounds k w f1)"

definition FileWrite :: "(byte list \<Rightarrow> int) \<Rightarrow> (byte list \<Rightarrow> int) \<Rightarrow> FileSystem \<Rightarrow> FileSystem res" where
  "FileWrite hostCreate hostOpen fs =
     rbind (FileSystem_Create hostCreate fs FILE_NAME False) (\<lambda>(success, fs1).
       if \<not> success then Inr fs1
       else rbind (FileSystem_Open hostOpen fs1 FILE_NAME False) (\<lambda>(openFile, fs2).
         case openFile of None \<Rightarrow> Inr fs2
         | Some f \<Rightarrow> rbind (write_rounds (FILE_SIZE div CONTENT_SIZE) (fsw fs2) f) (\<lambda>(f1, w). close_file (fs2\<lparr>fsw := w\<rparr>) f1)))"

definition FileRead :: "(byte list \<Rightarrow> int) \<Rightarrow> FileSystem \<Rightarrow> FileSystem res" where
  "FileRead hostOpen fs =
     rbind (FileSystem_Open hostOpen fs FILE_NAME False) (\<lambda>(openFile, fs1).
       case openFile of None \<Rightarrow> Inr fs1
       | Some f \<Rightarrow> rbind (read_rounds (FILE_SIZE div CONTENT_SIZE) (fsw fs1) f) (\<lambda>f1. close_file fs1 f1))"

definition PerformanceTest :: "(byte list \<Rightarrow> int) \<Rightarrow> (byte list \<Rightarrow> int) \<Rightarrow> FileSystem \<Rightarrow> (bool \<times> FileSystem) res" where
  "PerformanceTest hostCreate hostOpen fs =
     rbind (FileWrite hostCreate hostOpen fs) (\<lambda>fs1.
     rbind (FileRead hostOpen fs1) (\<lambda>fs2. FileSystem_Remove fs2 FILE_NAME False))"

section \<open>A file of its own beside the directory\<close>

text \<open>The file with header \<open>hf\<close> in sector \<open>cs\<close> shares no sector with the current directory.\<close>

definition apart :: "FileSystem \<Rightarrow> RawFileHeader \<Rightarrow> nat \<Rightarrow> RawFileHeader \<Rightarrow> bool" where
  "apart fs h cs hf \<longleftrightarrow> cs \<notin> insert (sector (directoryFile fs)) (set (header_sectors h))
     \<and> set (header_sectors hf) \<inter> insert (sector (directoryFile fs)) (set (header_sectors h)) = {}"

lemma mounted_after_write:
  assumes m: "mounted fs d h" and a: "apart fs h cs hf" and sf: "stored_file w' cs h'" "w' = (fsw fs)\<lparr>store := store w'\<rparr>"
    and mk: "marked (disk_map w') = marked (disk_map (fsw fs)) \<union> set (header_sectors h')"
      "set (header_sectors h') \<inter> marked (disk_map (fsw fs)) = set (header_sectors hf)"
    and other: "\<forall>s. s \<notin> insert cs (map_sectors (fsw fs) \<union> set (header_sectors h')) \<longrightarrow> store w' s = store (fsw fs) s"
  shows "mounted (fs\<lparr>fsw := w'\<rparr>) d h \<and> apart (fs\<lparr>fsw := w'\<rparr>) h cs h'"
proof -
  let ?D = "sector (directoryFile fs)" and ?w = "fsw fs"
  have st: "stored_file ?w ?D h" using m by (simp add: mounted_def)
  then have mp: "?D \<notin> map_sectors ?w" "set (header_sectors h) \<inter> map_sectors ?w = {}"
    "insert ?D (set (header_sectors h) \<union> map_sectors ?w) \<subseteq> marked (disk_map ?w)" by (auto simp: stored_file_def)
  have ap: "set (header_sectors h') \<inter> insert ?D (set (header_sectors h)) = {}" using a mk(2) mp(3) by (auto simp: apart_def)
  have same: "store w' s = store ?w s" if "s \<in> insert ?D (set (header_sectors h))" for s
    using that other a ap mp by (auto simp: apart_def)
  have ms: "map_sectors w' = map_sectors ?w" using sf(2) by (metis map_frame(4))
  have ot: "openFilesTable w' = openFilesTable ?w" using arg_cong [OF sf(2), of openFilesTable] by simp
  have "FileHeader_FetchFrom (store w') ?D = Inr h"
    using st same [of ?D] by (simp add: stored_file_def FileHeader_FetchFrom_def ReadSector_def res_simps)
  moreover have "file_ok (store w') h" using st sf(1) by (auto simp: stored_file_def file_ok_def)
  moreover have "file_content (store w') h = file_content (store ?w) h" using same by (intro same_content) simp
  ultimately have "stored_file w' ?D h" "file_content (store w') h = file_content (store ?w) h"
    using st sf(1) mk(1) mp(3) by (auto simp: stored_file_def ms)
  then show ?thesis using m a ap ot by (auto simp: mounted_def apart_def)
qed

lemma room_after_write:
  assumes "file_ok c hf" "file_ok c' h'" "needed_sectors hf len \<le> card (free_sectors w)"
    and "marked (disk_map w') = marked (disk_map w) \<union> set (header_sectors h')"
    and "set (header_sectors h') \<inter> marked (disk_map w) = set (header_sectors hf)"
  shows "needed_sectors h' len \<le> card (free_sectors w')"
proof -
  let ?new = "set (header_sectors h') - set (header_sectors hf)"
  have f: "free_sectors w' = free_sectors w - ?new" "?new \<subseteq> free_sectors w"
    using assms(2,4,5) by (auto simp: free_sectors_def file_ok_def)
  have "card ?new = unat (numSectors h') - unat (numSectors hf)"
    using assms(1,2,5) by (subst card_Diff_subset) (auto simp: file_ok_def distinct_card length_header_sectors)
  then have "card (free_sectors w') = card (free_sectors w) - (unat (numSectors h') - unat (numSectors hf))"
    using f by (simp add: card_Diff_subset)
  moreover have "unat (numSectors hf) \<le> unat (numSectors h')"
    using card_mono [of "set (header_sectors h')" "set (header_sectors hf)"] assms(1,2,5)
    by (auto simp: file_ok_def distinct_card length_header_sectors)
  ultimately show ?thesis using assms(3) by (simp add: needed_sectors_def)
qed

text \<open>The state of a sequential copy: \<open>cont\<close> is in the file, and the position is at its end.\<close>

definition appending :: "FileSystem \<Rightarrow> Directory \<Rightarrow> RawFileHeader \<Rightarrow> OpenFile \<Rightarrow> RawFileHeader \<Rightarrow> byte list \<Rightarrow> bool" where
  "appending fs d h f hf cont \<longleftrightarrow> mounted fs d h \<and> apart fs h (sector f) hf \<and> stored_file (fsw fs) (sector f) hf \<and> nextFileHeader hf = 0
     \<and> \<not> isBin f \<and> currentSector f = sector f \<and> writeLock (openFilesTable (fsw fs) (sector f)) = Some None
     \<and> file_content (store (fsw fs)) hf = cont \<and> seekPosition f = of_nat (length cont)"

lemma append_step:
  assumes a: "appending fs d h f hf cont" and n: "bs \<noteq> []" "length cont + length bs \<le> 3712"
    and room: "needed_sectors hf (length cont + length bs) \<le> card (free_sectors (fsw fs))"
  shows "\<exists>w f' h'. OpenFile_Write (fsw fs) f bs (of_nat (length bs)) False = Inr (of_nat (length bs), f', w)
    \<and> appending (fs\<lparr>fsw := w\<rparr>) d h f' h' (cont @ bs) \<and> sector f' = sector f \<and> w = (fsw fs)\<lparr>store := store w\<rparr>
    \<and> (\<forall>len. needed_sectors hf len \<le> card (free_sectors (fsw fs)) \<longrightarrow> needed_sectors h' len \<le> card (free_sectors w))"
proof -
  let ?w = "fsw fs" and ?nb = "of_nat (length bs) :: u32"
  have f: "mounted fs d h" "apart fs h (sector f) hf" "stored_file ?w (currentSector f) hf" "nextFileHeader hf = 0" "\<not> isBin f"
    "currentSector f = sector f" "writeLock (openFilesTable ?w (sector f)) = Some None" "file_content (store ?w) hf = cont"
    "seekPosition f = of_nat (length cont)" using a by (simp_all add: appending_def)
  have nb: "unat ?nb = length bs" "unat (seekPosition f) = length cont" using n(2) unfolding f(9) by (simp_all add: unat_of_nat_small)
  have fo: "file_ok (store ?w) hf" using f(3) by (simp add: stored_file_def)
  have c: "unat (numBytes hf) = length cont" using length_file_content [OF fo] f(8) by simp
  have n0: "0 < unat ?nb" "unat ?nb \<le> length bs" using n(1) nb(1) by simp_all
  have pos: "unat (seekPosition f) \<le> unat (numBytes hf)" "unat (seekPosition f) + unat ?nb \<le> NUM_DIRECT * SECTOR_SIZE"
    using n(2) nb c by (simp_all add: NUM_DIRECT_def SECTOR_SIZE_def)
  have rm: "needed_sectors hf (unat (seekPosition f) + unat ?nb) \<le> card ({..<NUM_SECTORS} - marked (disk_map ?w))"
    using room nb by (simp add: free_sectors_def)
  from OpenFile_Write_ok [OF f(3-5,7) n0 pos rm] obtain h' w where
    w: "OpenFile_Write ?w f bs ?nb False = Inr (?nb, f\<lparr>hdr := h', seekPosition := seekPosition f + ?nb\<rparr>, w)"
      "stored_file w (currentSector f) h'" "nextFileHeader h' = 0" "w = ?w\<lparr>store := store w\<rparr>"
      "file_content (store w) h' = overlay (file_content (store ?w) hf) (unat (seekPosition f)) (take (unat ?nb) bs)"
      "marked (disk_map w) = marked (disk_map ?w) \<union> set (header_sectors h')"
      "set (header_sectors h') \<inter> marked (disk_map ?w) = set (header_sectors hf)"
      "\<forall>s. s \<notin> insert (currentSector f) (map_sectors ?w \<union> set (header_sectors h')) \<longrightarrow> store w s = store ?w s" by blast
  have "file_content (store w) h' = cont @ bs" unfolding w(5) f(8) nb by (simp add: overlay_def)
  moreover have "openFilesTable w = openFilesTable ?w" using arg_cong [OF w(4), of openFilesTable] by simp
  ultimately have "appending (fs\<lparr>fsw := w\<rparr>) d h (f\<lparr>hdr := h', seekPosition := seekPosition f + ?nb\<rparr>) h' (cont @ bs)"
    using mounted_after_write [OF f(1,2) _ w(4,6,7)] w(2,3,8) f(5-7,9) by (simp add: appending_def)
  moreover have "needed_sectors h' len \<le> card (free_sectors w)" if "needed_sectors hf len \<le> card (free_sectors ?w)" for len
    by (rule room_after_write [OF fo _ that w(6,7), of "store w"]) (use w(2) in \<open>simp add: stored_file_def\<close>)
  ultimately show ?thesis using w(1,4) by (intro exI) auto
qed

lemma copy_loop_ok:
  assumes "appending fs d h f hf cont" "fileBytes fp = input" "rest = drop (filePos fp) input"
    and "length cont + length rest \<le> 3712" "count + length rest < 19999"
    and "needed_sectors hf (length cont + length rest) \<le> card (free_sectors (fsw fs))"
  shows "\<exists>w f' h'. copy_loop (fsw fs) f fp count = Inr (f', w) \<and> appending (fs\<lparr>fsw := w\<rparr>) d h f' h' (cont @ rest) \<and> sector f' = sector f
    \<and> w = (fsw fs)\<lparr>store := store w\<rparr>"
  using assms
proof (induction "length rest" arbitrary: fs f hf cont fp rest count rule: less_induct)
  case less
  let ?buf = "take 10 rest" and ?fp = "fp\<lparr>filePos := filePos fp + length (take 10 rest)\<rparr>"
  have rd: "fread_some TRANSFER_SIZE fp = (?buf, ?fp)" using less.prems(2,3) by (simp add: fread_some_def TRANSFER_SIZE_def slice_def Let_def)
  show ?case
  proof (cases "rest = []")
    case True
    then show ?thesis using less.prems(1) rd by (intro exI [of _ "fsw fs"] exI [of _ f] exI [of _ hf]) (simp add: copy_loop.simps [of "fsw fs"])
  next
    case False
    let ?rest = "drop 10 rest"
    have buf: "?buf \<noteq> []" "length cont + length ?buf \<le> 3712" using False less.prems(4) by auto
    have "needed_sectors hf (length cont + length ?buf) \<le> needed_sectors hf (length cont + length rest)"
      unfolding needed_sectors_def by (intro diff_le_mono div_le_mono) auto
    then have "needed_sectors hf (length cont + length ?buf) \<le> card (free_sectors (fsw fs))" using less.prems(6) by simp
    from append_step [OF less.prems(1) buf this] obtain w f1 h1 where
      w: "OpenFile_Write (fsw fs) f ?buf (of_nat (length ?buf)) False = Inr (of_nat (length ?buf), f1, w)"
        "appending (fs\<lparr>fsw := w\<rparr>) d h f1 h1 (cont @ ?buf)" "sector f1 = sector f" "w = (fsw fs)\<lparr>store := store w\<rparr>"
        "\<forall>len. needed_sectors hf len \<le> card (free_sectors (fsw fs)) \<longrightarrow> needed_sectors h1 len \<le> card (free_sectors w)" by blast
    have len: "length (cont @ ?buf) + length ?rest = length cont + length rest" by simp
    have "needed_sectors h1 (length (cont @ ?buf) + length ?rest) \<le> card (free_sectors w)" unfolding len using w(5) less.prems(6) by simp
    moreover have "?rest = drop (filePos ?fp) input" unfolding less.prems(3) by (simp add: min_def add.commute)
    moreover have "count + 1 + length ?rest < 19999" "length ?rest < length rest" using less.prems(5) False by (cases rest; simp)+
    moreover have "length (cont @ ?buf) + length ?rest \<le> 3712" unfolding len by (rule less.prems(4))
    ultimately have "\<exists>w2 f2 h2. copy_loop (fsw (fs\<lparr>fsw := w\<rparr>)) f1 ?fp (count + 1) = Inr (f2, w2)
      \<and> appending (fs\<lparr>fsw := w\<rparr>\<lparr>fsw := w2\<rparr>) d h f2 h2 ((cont @ ?buf) @ ?rest) \<and> sector f2 = sector f1 \<and> w2 = (fsw (fs\<lparr>fsw := w\<rparr>))\<lparr>store := store w2\<rparr>"
      using w(2) less.prems(2) by (intro less.hyps [of ?rest]) simp_all
    moreover have "(cont @ ?buf) @ ?rest = cont @ rest" by simp
    ultimately obtain w2 f2 h2 where w2: "copy_loop w f1 ?fp (count + 1) = Inr (f2, w2)"
      "appending (fs\<lparr>fsw := w2\<rparr>) d h f2 h2 (cont @ rest)" "sector f2 = sector f" "w2 = w\<lparr>store := store w2\<rparr>"
      unfolding w(3) by auto
    have "copy_loop (fsw fs) f fp count = copy_loop w f1 ?fp (count + 1)"
      using rd buf(1) less.prems(5) False w(1) by (subst copy_loop.simps) (simp add: Let_def)
    moreover have "w2 = (fsw fs)\<lparr>store := store w2\<rparr>" using w(4) w2(4) by (cases "fsw fs"; cases w; cases w2) simp
    ultimately show ?thesis using w2(1-3) by (intro exI [of _ w2] exI [of _ f2] exI [of _ h2]) simp
  qed
qed

section \<open>Opening, reading to the end and closing\<close>

definition closed_entry :: "oft_entry \<Rightarrow> bool" where
  "closed_entry e \<longleftrightarrow> openCount e = 0 \<and> closeLock e \<in> {None, Some None} \<and> \<not> removing e"

definition open_once :: "oft_entry \<Rightarrow> bool" where
  "open_once e \<longleftrightarrow> openCount e = 1 \<and> closeLock e = Some None \<and> \<not> removing e \<and> writeLock e = Some None"

lemma Open_closed:
  assumes m: "mounted fs d h" and nm: "is_cstring nm" "dir_map d (name_key nm) = Some (of_nat s)"
    and st: "stored_file (fsw fs) s hf" and e: "closed_entry (openFilesTable (fsw fs) s)" "s \<noteq> sector (directoryFile fs)"
  shows "\<exists>f fs'. FileSystem_Open ho fs nm False = Inr (Some f, fs') \<and> hdr f = hf \<and> sector f = s \<and> currentSector f = s \<and> seekPosition f = 0
    \<and> \<not> isBin f \<and> (\<exists>g. fsw fs' = oft_update (fsw fs) s g) \<and> open_once (openFilesTable (fsw fs') s) \<and> mounted fs' d h
    \<and> sector (directoryFile fs') = sector (directoryFile fs)"
proof -
  from load_dir_ok [OF m] obtain f1 where f1: "load_dir fs = Inr (d, fs\<lparr>directoryFile := f1\<rparr>)" "mounted (fs\<lparr>directoryFile := f1\<rparr>) d h"
    "sector f1 = sector (directoryFile fs)" by auto
  have fh: "FileHeader_FetchFrom (store (fsw fs)) s = Inr hf" using st by (simp add: stored_file_def)
  then have s: "s < NUM_SECTORS" by (rule fetch_sector)
  then have u: "unat (of_nat s :: u32) = s" by (simp add: NUM_SECTORS_def unat_of_nat_small)
  have "Directory_Find d nm = sint (of_nat s :: u32)" using Directory_Find_map [of d nm] m nm by (simp add: mounted_def)
  then have fd: "Directory_Find d nm = int s" using sint_sector [of "of_nat s"] s u by simp
  let ?g = "\<lambda>e. e\<lparr>writeLock := Some None, removeLock := if removeLock e = None then Some None else removeLock e,
    closeLock := if closeLock e = None then Some None else closeLock e, openCount := openCount e + 1\<rparr>"
  have "\<exists>f. OpenFile_new (fsw fs) s False = Inr (f, oft_update (fsw fs) s ?g) \<and> hdr f = hf \<and> sector f = s \<and> currentSector f = s \<and> seekPosition f = 0 \<and> \<not> isBin f"
    using fh e(1) by (simp add: OpenFile_new_def Let_def oft_update_def closed_entry_def)
  then obtain f where f: "OpenFile_new (fsw fs) s False = Inr (f, oft_update (fsw fs) s ?g)" "hdr f = hf" "sector f = s" "currentSector f = s"
    "seekPosition f = 0" "\<not> isBin f" by blast
  have "mounted (fs\<lparr>directoryFile := f1, fsw := oft_update (fsw fs) s ?g\<rparr>) d h" using mounted_oft [OF f1(2), of s] e(2) f1(3) by simp
  moreover have "open_once (openFilesTable (oft_update (fsw fs) s ?g) s)" using e(1) by (auto simp: open_once_def closed_entry_def)
  moreover have "\<exists>fs'. FileSystem_Open ho fs nm False = Inr (Some f, fs') \<and> fs' = fs\<lparr>directoryFile := f1, fsw := oft_update (fsw fs) s ?g\<rparr>"
    using f1 fd e(1) f(1) s by (simp add: FileSystem_Open_def Open_nachos_def Let_def closed_entry_def)
  ultimately show ?thesis using f(2-6) f1(3) by (intro exI [of _ f]) auto
qed

lemma close_once:
  assumes "\<not> isBin f" "open_once (openFilesTable (fsw fs) (sector f))" "mounted fs d h" "sector f \<noteq> sector (directoryFile fs)"
  shows "\<exists>fs'. close_file fs f = Inr fs' \<and> mounted fs' d h \<and> closed_entry (openFilesTable (fsw fs') (sector f))
    \<and> (\<exists>g. fs' = fs\<lparr>fsw := oft_update (fsw fs) (sector f) g\<rparr>)"
proof -
  let ?s = "sector f" and ?w = "fsw fs" and ?g = "\<lambda>e. e\<lparr>openCount := openCount e - 1, closeLock := Some None, writeLock := None\<rparr>"
  have "OpenFile_Close ?w f = Inr (oft_update ?w ?s ?g)"
    using assms(1,2) by (simp add: OpenFile_Close_def closeLock_Acquire_def closeLock_Release_def lock_acquire_def lock_release_def open_once_def
        oft_update_def Let_def)
  then show ?thesis using mounted_oft [OF assms(3), of ?s ?g] assms(2,4)
    by (intro exI [of _ "fs\<lparr>fsw := oft_update ?w ?s ?g\<rparr>"]) (auto simp: close_file_def closed_entry_def open_once_def)
qed

lemma print_loop_ok:
  assumes "disk_file_ok f w" "nextFileHeader (hdr f) = 0" "seekPosition f = of_nat pos" "pos \<le> length bs" "file_content (store w) (hdr f) = bs"
    and "length bs \<le> 3712" "length bs + 9 < pos + 10 * fuel"
  shows "\<exists>f'. print_loop fuel w f = Inr (drop pos bs, f') \<and> isBin f' = isBin f \<and> sector f' = sector f"
  using assms
proof (induction fuel arbitrary: f pos)
  case 0
  then show ?case by simp
next
  case (Suc fuel)
  let ?bs = "take 10 (drop pos bs)" and ?f = "f\<lparr>seekPosition := of_nat (pos + length (take 10 (drop pos bs)))\<rparr>"
  have p: "unat (seekPosition f) = pos" using Suc.prems(3,4,6) by (simp add: unat_of_nat_small)
  have rd: "OpenFile_Read w f (of_nat TRANSFER_SIZE) False = Inr (?bs, ?f)"
    using OpenFile_Read_ok [OF Suc.prems(1,2), of "of_nat TRANSFER_SIZE"] p Suc.prems(3-6)
    by (simp add: TRANSFER_SIZE_def Let_def slice_def)
  show ?case
  proof (cases "pos < length bs")
    case False
    then show ?thesis using rd by simp
  next
    case True
    let ?pos = "pos + length ?bs"
    have fl: "length bs + 9 < ?pos + 10 * fuel" using Suc.prems(4,7) True by (simp add: min_def) presburger
    have "disk_file_ok ?f w" "nextFileHeader (hdr ?f) = 0" "seekPosition ?f = of_nat ?pos" "?pos \<le> length bs" "file_content (store w) (hdr ?f) = bs"
      using Suc.prems(1,2,4,5) True by (simp_all add: disk_file_ok_def)
    from Suc.IH [OF this Suc.prems(6) fl] obtain f' where "print_loop fuel w ?f = Inr (drop ?pos bs, f')" "isBin f' = isBin f" "sector f' = sector f" by auto
    moreover have "?bs @ drop ?pos bs = drop pos bs" by (simp add: min_def add.commute) (metis append_take_drop_id drop_drop add.commute)
    ultimately show ?thesis using rd True by (intro exI [of _ f']) simp
  qed
qed

lemma print_stored:
  assumes m: "mounted fs d h" and nm: "is_cstring nm" "dir_map d (name_key nm) = Some (of_nat s)"
    and st: "stored_file (fsw fs) s hf" "nextFileHeader hf = 0" "closed_entry (openFilesTable (fsw fs) s)" "s \<noteq> sector (directoryFile fs)"
    and fuel: "length (file_content (store (fsw fs)) hf) + 9 < 10 * fuel"
  shows "\<exists>fs'. Print fuel ho fs nm = Inr (Some (file_content (store (fsw fs)) hf), fs') \<and> mounted fs' d h"
proof -
  from Open_closed [where ho = ho, OF m nm st(1,3,4)] obtain f fs1 where
    p: "FileSystem_Open ho fs nm False = Inr (Some f, fs1)" "hdr f = hf" "sector f = s" "seekPosition f = 0" "\<not> isBin f"
      "\<exists>g. fsw fs1 = oft_update (fsw fs) s g" "open_once (openFilesTable (fsw fs1) s)" "mounted fs1 d h"
      "sector (directoryFile fs1) = sector (directoryFile fs)" by blast
  have w: "store (fsw fs1) = store (fsw fs)" "disk_file_ok f (fsw fs1)" "file_ok (store (fsw fs)) hf"
    using p(2,5,6) st(1) by (auto simp: disk_file_ok_def stored_file_def)
  have "length (file_content (store (fsw fs)) hf) \<le> 3712" using file_ok_length [OF w(3)] w(3) by simp
  from print_loop_ok [OF w(2), of 0 "file_content (store (fsw fs)) hf" fuel] p(2,4) st(2) w(1) this fuel obtain f' where
    pl: "print_loop fuel (fsw fs1) f = Inr (file_content (store (fsw fs)) hf, f')" "isBin f' = isBin f" "sector f' = sector f" by auto
  from close_once [of f' fs1 d h] pl(2,3) p(3,5,7-9) st(4) obtain fs2 where "close_file fs1 f' = Inr fs2" "mounted fs2 d h" by auto
  then show ?thesis using p(1) pl(1) by (simp add: Print_def)
qed

section \<open>Copying and printing a file\<close>

text \<open>
  \<open>nachos -cp\<close> followed by \<open>nachos -pr\<close>: copying a file of the host of at most 3712 bytes into a
  mounted file system that has room for it, under a name that is not in the current directory, leaves
  a mounted file system whose directory has this one new name; printing the file then prints exactly
  the bytes of the host file and leaves the file system mounted. The copy is made in pieces of ten bytes,
  the printing loop ends, and one read more than there are pieces is enough.
\<close>

lemma copy_then_print:
  assumes m: "mounted fs d h" and nm: "is_cstring dst" "dst = [] \<or> hd dst \<noteq> slash" "dir_map d (name_key dst) = None"
    and lk: "filesysCreateLock fs = Some None" and size: "tableSize d < 116" "length input \<le> NUM_DIRECT * SECTOR_SIZE"
    and room: "needed_sectors h (32 * (tableSize d + 1)) + 1 + (length input + 127) div 128 \<le> card (free_sectors (fsw fs))"
      "needed_sectors h (32 * (tableSize d + 1)) + 1 < card (free_sectors (fsw fs))"
    and src: "unixFile src = Some input" and fuel: "length input + 9 < 10 * fuel"
  shows "\<exists>fs1 d1 h1 s fs2. Copy hc ho unixFile fs src dst = Inr (Copied, fs1) \<and> mounted fs1 d1 h1
    \<and> dir_map d1 = (dir_map d)(name_key dst \<mapsto> of_nat s) \<and> s \<in> free_sectors (fsw fs)
    \<and> Print fuel ho fs1 dst = Inr (Some input, fs2) \<and> mounted fs2 d1 h1"
proof -
  have "needed_sectors h (32 * (tableSize d + 1)) < card (free_sectors (fsw fs))" using room(2) by simp
  from Create_ok [OF m nm lk size(1) this] obtain fs1 d1 h1 s where
    c: "FileSystem_Create hc fs dst False = Inr (True, fs1)" "created fs fs1 d h d1 h1 dst s" by blast
  let ?nh = "new_header (junk (fsw fs))"
  have cr: "mounted fs1 d1 h1" "dir_map d1 = (dir_map d)(name_key dst \<mapsto> of_nat s)" "s \<in> free_sectors (fsw fs)" "stored_file (fsw fs1) s ?nh"
    "closed_entry (openFilesTable (fsw fs1) s)" "sector (directoryFile fs1) = sector (directoryFile fs)"
    using c(2) by (simp_all add: created_def closed_entry_def fresh_entry_def)
  have ne: "s \<noteq> sector (directoryFile fs1)" "s \<notin> set (header_sectors h1)"
    using m c(2) by (auto simp: created_def free_sectors_def mounted_def stored_file_def)
  have key: "dir_map d1 (name_key dst) = Some (of_nat s)" using cr(2) by simp
  from Open_closed [where ho = ho, OF cr(1) nm(1) key cr(4,5) ne(1)] obtain f fs2 where
    o: "FileSystem_Open ho fs1 dst False = Inr (Some f, fs2)" "hdr f = ?nh" "sector f = s" "currentSector f = s" "seekPosition f = 0" "\<not> isBin f"
      "\<exists>g. fsw fs2 = oft_update (fsw fs1) s g" "open_once (openFilesTable (fsw fs2) s)" "mounted fs2 d1 h1"
      "sector (directoryFile fs2) = sector (directoryFile fs1)" by blast
  have st2: "stored_file (fsw fs2) s ?nh" "disk_map (fsw fs2) = disk_map (fsw fs1)" using cr(4) o(7) by auto
  have app: "appending fs2 d1 h1 f ?nh []"
    using o(3-6,8-10) st2(1) ne by (simp add: appending_def apart_def new_header_facts open_once_def file_content_def)
  have "(length input + 127) div 128 \<le> card (free_sectors (fsw fs1))" using created_room [OF m c(2)] room(1) by linarith
  then have rm: "needed_sectors ?nh (length [] + length input) \<le> card (free_sectors (fsw fs2))"
    using st2(2) by (simp add: needed_sectors_def new_header_facts free_sectors_def)
  have len: "length input \<le> 3712" using size(2) by (simp add: NUM_DIRECT_def SECTOR_SIZE_def)
  from copy_loop_ok [OF app, of "fopen_read input" input input 0] rm len obtain w f' h' where
    w: "copy_loop (fsw fs2) f (fopen_read input) 0 = Inr (f', w)" "appending (fs2\<lparr>fsw := w\<rparr>) d1 h1 f' h' input" "sector f' = s"
      "w = (fsw fs2)\<lparr>store := store w\<rparr>" using o(3) by (auto simp: fopen_read_def)
  have w': "mounted (fs2\<lparr>fsw := w\<rparr>) d1 h1" "\<not> isBin f'" "stored_file w s h'" "nextFileHeader h' = 0" "file_content (store w) h' = input"
    using w(2,3) by (simp_all add: appending_def)
  have "open_once (openFilesTable w s)" using o(8) arg_cong [OF w(4), of openFilesTable] by simp
  from close_once [of f' "fs2\<lparr>fsw := w\<rparr>" d1 h1] this w'(1,2) w(3) ne(1) o(10) obtain fs3 g where
    f3: "close_file (fs2\<lparr>fsw := w\<rparr>) f' = Inr fs3" "mounted fs3 d1 h1" "closed_entry (openFilesTable (fsw fs3) s)"
      "fs3 = fs2\<lparr>fsw := oft_update w s g\<rparr>" by auto
  have copy: "Copy hc ho unixFile fs src dst = Inr (Copied, fs3)"
    using src c(1) o(1) w(1) f3(1) by (simp add: Copy_def with_copy_def)
  have st3: "stored_file (fsw fs3) s h'" "s \<noteq> sector (directoryFile fs3)" using w'(3) f3(4) ne(1) o(10) by simp_all
  have "length input \<le> 3712" "length (file_content (store (fsw fs3)) h') + 9 < 10 * fuel" "file_content (store (fsw fs3)) h' = input"
    using w'(5) f3(4) len fuel by simp_all
  from print_stored [where ho = ho, OF f3(2) nm(1) key st3(1) w'(4) f3(3) st3(2) this(2)] this(3) obtain fs5 where
    "Print fuel ho fs3 dst = Inr (Some input, fs5)" "mounted fs5 d1 h1" by auto
  then show ?thesis using copy f3(2) cr(2,3) by blast
qed

end
