(* ===== verification/Printed_Numbers.thy ===== *)
theory Printed_Numbers
  imports Address_Space
begin

text \<open>
  Numbers as text: the digits that \<open>printf\<close> writes for \<open>%u\<close>, and \<open>strtoul\<close> of the C library, which the debugger
  and the command line read numbers with.
\<close>

section \<open>Reading a number\<close>

text \<open>\<open>isspace\<close> and \<open>strtoul\<close> on a string: the value, modulo \<open>2\<^sup>6\<^sup>4\<close> or its maximum when it does not fit, and the rest.\<close>

definition is_space :: "byte \<Rightarrow> bool" where
  "is_space b \<longleftrightarrow> b = 32 \<or> (9 \<le> b \<and> b \<le> 13)"

definition digit_value :: "byte \<Rightarrow> nat" where
  "digit_value b = (if 48 \<le> b \<and> b \<le> 57 then unat b - 48 else if 97 \<le> b \<and> b \<le> 122 then unat b - 87
     else if 65 \<le> b \<and> b \<le> 90 then unat b - 55 else 99)"

fun read_digits :: "nat \<Rightarrow> nat \<Rightarrow> byte list \<Rightarrow> nat \<times> byte list" where
  "read_digits base acc [] = (acc, [])"
| "read_digits base acc (b # bs) = (if digit_value b < base then read_digits base (acc * base + digit_value b) bs else (acc, b # bs))"

definition strtoul :: "nat \<Rightarrow> byte list \<Rightarrow> nat \<times> byte list" where
  "strtoul base s =
     (let s1 = dropWhile is_space s;
          neg = (s1 \<noteq> [] \<and> hd s1 = 45);
          s2 = (if s1 \<noteq> [] \<and> (hd s1 = 45 \<or> hd s1 = 43) then tl s1 else s1);
          hex = (base = 0 \<and> 3 \<le> length s2 \<and> s2 ! 0 = 48 \<and> (s2 ! 1 = 120 \<or> s2 ! 1 = 88) \<and> digit_value (s2 ! 2) < 16);
          base1 = (if base \<noteq> 0 then base else if hex then 16 else if s2 \<noteq> [] \<and> hd s2 = 48 then 8 else 10);
          s3 = (if hex then drop 2 s2 else s2);
          (n, rest) = read_digits base1 0 s3
      in if length rest = length s3 then (0, s)
         else (if 2 ^ 64 \<le> n then 2 ^ 64 - 1 else if neg then (2 ^ 64 - n) mod 2 ^ 64 else n, rest))"

text \<open>\<open>atoi\<close>, which is \<open>strtol\<close> to the base 10 cut to the 32 bits of an \<open>int\<close>.\<close>

definition atoi :: "byte list \<Rightarrow> int" where
  "atoi s =
     (let s1 = dropWhile is_space s;
          neg = (s1 \<noteq> [] \<and> hd s1 = 45);
          n = int (fst (read_digits 10 0 (if s1 \<noteq> [] \<and> (hd s1 = 45 \<or> hd s1 = 43) then tl s1 else s1)));
          v = (if neg then max (- (2 ^ 63)) (- n) else min (2 ^ 63 - 1) n)
      in sint (of_int v :: u32))"

section \<open>The digits of a number\<close>

declare decimal.simps [simp del]

lemma decimal_step: "decimal n = (if n < 10 then [] else decimal (n div 10)) @ [48 + of_nat (n mod 10)]"
  by (subst decimal.simps) simp

lemma length_decimal: "length (decimal n) \<le> k \<longleftrightarrow> n < 10 ^ k \<and> 0 < k"
proof (induction n arbitrary: k rule: less_induct)
  case (less n)
  show ?case
  proof (cases "n < 10")
    case True
    then have "length (decimal n) = 1" by (subst decimal_step) simp
    moreover have "n < 10 ^ k" if "0 < k" using True that by (metis One_nat_def Suc_leI less_le_trans power_increasing power_one_right one_le_numeral)
    ultimately show ?thesis using True by auto
  next
    case False
    then have l: "length (decimal n) = Suc (length (decimal (n div 10)))" by (subst decimal_step) simp
    show ?thesis
    proof (cases k)
      case (Suc k')
      have "n div 10 < 10 ^ k' \<longleftrightarrow> n < 10 ^ k" unfolding Suc by (simp add: div_less_iff_less_mult mult.commute)
      moreover have "0 < k'" if "n < 10 ^ k" using that False Suc by (cases k') auto
      ultimately show ?thesis using less.IH [of "n div 10" k'] False l Suc by auto
    qed (use l in simp)
  qed
qed

lemma digits_less_ten: "n < 10 \<Longrightarrow> n = 0 \<or> n = 1 \<or> n = 2 \<or> n = 3 \<or> n = 4 \<or> n = 5 \<or> n = 6 \<or> n = 7 \<or> n = 8 \<or> n = 9" for n :: nat
  by presburger

lemma digit_value_digit: "n < 10 \<Longrightarrow> digit_value (48 + of_nat n) = n"
  using digits_less_ten [of n] by (auto simp: digit_value_def)

lemma read_digits_append: "read_digits base acc xs = (n, []) \<Longrightarrow> read_digits base acc (xs @ ys) = read_digits base n ys"
  by (induction base acc xs rule: read_digits.induct) (auto split: if_splits)

lemma read_decimal: "read_digits 10 0 (decimal n) = (n, [])"
proof (induction n rule: less_induct)
  case (less n)
  show ?case
  proof (cases "n < 10")
    case True
    then show ?thesis by (subst decimal.simps) (simp add: digit_value_digit)
  next
    case False
    then have "read_digits 10 0 (decimal (n div 10)) = (n div 10, [])" by (intro less.IH) simp
    from read_digits_append [OF this, of "[48 + of_nat (n mod 10)]"] False show ?thesis
      by (subst decimal.simps) (simp add: digit_value_digit)
  qed
qed

lemma digit_byte: "n < 10 \<Longrightarrow> 48 \<le> (48 + of_nat n :: byte) \<and> (48 + of_nat n :: byte) \<le> 57"
  using digits_less_ten [of n] by auto

lemma decimal_digits: "b \<in> set (decimal n) \<Longrightarrow> 48 \<le> b \<and> b \<le> 57"
proof (induction n rule: less_induct)
  case (less n)
  then show ?case using digit_byte [of "n mod 10"] decimal_step [of n] less.IH [of "n div 10"] by (cases "n < 10") auto
qed

lemma decimal_not_Nil [simp]: "decimal n \<noteq> []"
  using decimal_step [of n] by simp

lemma no_digit: "c < 48 \<Longrightarrow> c \<notin> set (decimal n)"
  using decimal_digits [of c n] by fastforce

lemma decimal_not_space: "b \<in> set (decimal n) \<Longrightarrow> \<not> is_space b"
  using decimal_digits [of b n] by (auto simp: is_space_def word_le_nat_alt)

text \<open>Reading back a printed number.\<close>

lemma strtoul_decimal: "n < 2 ^ 64 \<Longrightarrow> strtoul 10 (decimal n) = (n, [])"
proof -
  assume n: "n < 2 ^ 64"
  obtain b bs where d: "decimal n = b # bs" "48 \<le> b" "b \<le> 57" using decimal_digits [of _ n] by (cases "decimal n") auto
  have "\<not> is_space b" "b \<noteq> 45" "b \<noteq> 43" using d(2,3) by (auto simp: is_space_def word_le_nat_alt)
  then show ?thesis using read_decimal [of n] n unfolding d(1) by (simp add: strtoul_def Let_def)
qed

end
