(* ===== verification/Debugger.thy ===== *)
theory Debugger
  imports Printed_Numbers Stdio
begin

text \<open>
  \<open>lib/debug.cc\<close>, \<open>userprog/debugger_command_manager.cc\<close> and \<open>userprog/debugger.cc\<close>: the flags of the debugging
  messages, the table of commands and the debugger that steps through a user program. The text
  typed is a parameter; what the debugger prints is a list of messages.
\<close>

section \<open>Debugging messages\<close>

text \<open>
  The flags are a pointer: to a string that does not change, or to a place in the line buffer of the
  debugger, which is where the command \<open>setflags\<close> takes its argument from.
\<close>

datatype flag_string = FlagLiteral "byte list" | FlagPointer nat

record DebugOpts =
  location :: bool
  function_name :: bool
  sleep :: bool
  interactive :: bool

record Debug =
  debug_flags :: "flag_string option"
  debug_opts :: DebugOpts

definition DebugOpts_new :: DebugOpts where
  "DebugOpts_new = \<lparr>location = False, function_name = False, sleep = False, interactive = False\<rparr>"

definition Debug_new :: Debug where
  "Debug_new = \<lparr>debug_flags = Some (FlagLiteral []), debug_opts = DebugOpts_new\<rparr>"

definition Debug_SetFlags :: "flag_string \<Rightarrow> Debug \<Rightarrow> Debug" where
  "Debug_SetFlags new_flags d = d\<lparr>debug_flags := Some new_flags\<rparr>"

definition Debug_SetOpts :: "DebugOpts \<Rightarrow> Debug \<Rightarrow> Debug" where
  "Debug_SetOpts new_opts d = d\<lparr>debug_opts := new_opts\<rparr>"

text \<open>The string that the pointer shows at the moment, when the line buffer holds \<open>buf\<close>.\<close>

fun flag_bytes :: "byte list \<Rightarrow> flag_string \<Rightarrow> byte list" where
  "flag_bytes buf (FlagLiteral s) = s"
| "flag_bytes buf (FlagPointer i) = string_at buf i"

definition Debug_IsEnabled :: "byte list \<Rightarrow> Debug \<Rightarrow> byte \<Rightarrow> bool" where
  "Debug_IsEnabled buf d flag = (case debug_flags d of None \<Rightarrow> False
     | Some p \<Rightarrow> flag = 0 \<or> flag \<in> set (flag_bytes buf p) \<or> 43 \<in> set (flag_bytes buf p))"

text \<open>What \<open>Print\<close> writes for a message whose format has been expanded to \<open>msg\<close>, and whether it waits.\<close>

definition Debug_Print :: "byte list \<Rightarrow> Debug \<Rightarrow> byte list \<Rightarrow> nat \<Rightarrow> byte list \<Rightarrow> byte \<Rightarrow> byte list \<Rightarrow> byte list \<times> bool \<times> bool" where
  "Debug_Print buf d src line func flag msg =
     (if \<not> Debug_IsEnabled buf d flag then ([], False, False)
      else ((if location (debug_opts d) then chars ''[location: '' @ src @ [58] @ decimal line @ [93, 10] else [])
          @ (if function_name (debug_opts d) then chars ''[function: '' @ func @ [93, 10] else [])
          @ [91, flag, 93, 32] @ msg, sleep (debug_opts d), interactive (debug_opts d)))"

definition Debug_PrintCont :: "byte list \<Rightarrow> Debug \<Rightarrow> byte \<Rightarrow> byte list \<Rightarrow> byte list" where
  "Debug_PrintCont buf d flag msg = (if \<not> Debug_IsEnabled buf d flag then [] else msg)"

section \<open>The table of commands\<close>

definition SEPARATOR :: byte where "SEPARATOR = 32"
definition CAPACITY :: nat where "CAPACITY = 20"

datatype command = Continue | Dump | Flags | Help | PrintMemory | Quit | SetFlags | StepOnce | Tick

text \<open>The array of the commands has \<open>CAPACITY\<close> elements; \<open>count\<close> has no initial value.\<close>

record DCM =
  dcm_commands :: "(byte list \<times> command) list"
  dcm_count :: nat

definition FetchArg :: "byte list \<Rightarrow> nat \<Rightarrow> (nat option \<times> byte list \<times> nat) res" where
  "FetchArg buf saved = strtok_r SEPARATOR buf saved"

definition AddCommand :: "byte list \<Rightarrow> command \<Rightarrow> DCM \<Rightarrow> bool \<times> DCM" where
  "AddCommand nm f m = (if dcm_count m \<ge> CAPACITY then (False, m)
     else (True, m\<lparr>dcm_commands := (dcm_commands m)[dcm_count m := (nm, f)], dcm_count := dcm_count m + 1\<rparr>))"

text \<open>The loop of \<open>Run\<close> over the table.\<close>

function find_command :: "DCM \<Rightarrow> byte list \<Rightarrow> nat \<Rightarrow> command option res" where
  "find_command m nm i =
     (if i < dcm_count m
      then (if i < length (dcm_commands m)
            then (if fst (dcm_commands m ! i) = nm then Inr (Some (snd (dcm_commands m ! i))) else find_command m nm (i + 1))
            else Inl OutOfBounds)
      else Inr None)"
  by pat_completeness auto
termination by (relation "measure (\<lambda>(m, nm, i). dcm_count m - i)") auto

declare find_command.simps [simp del]

section \<open>The debugger\<close>

text \<open>
  The buffer, the table of commands, the registers of the last prompt and the time to run to; with them
  what the debugger uses of the machine, and how the host answers when a file is opened and written.
\<close>

definition BUFFER_SIZE :: nat where "BUFFER_SIZE = 80"

record debugger =
  dbg_buffer :: "byte list"
  manager :: DCM
  previousRegisters :: "u32 list"
  runUntilTime :: u32
  debugState :: Debug
  dbg_mmu :: MMU
  dbg_registers :: "u32 list"
  dbg_ticks :: "64 word"
  host_opens :: "byte list \<Rightarrow> bool"
  host_writes :: "byte list \<Rightarrow> bool"

text \<open>What the debugger prints.\<close>

datatype dbg_message =
    MissingArgument
  | DumpedTo "byte list" "byte list"
  | CannotOpen "byte list"
  | CannotWrite "byte list"
  | RegistersShown "(string \<times> u32 \<times> bool) list"
  | FlagsShown "byte list"
  | HelpShown
  | ByteShown "byte list"
  | ReadFailed ExceptionType
  | AddressTooBig u32
  | NotAnAddress "byte list"
  | FlagsSet "byte list"
  | NotANumber "byte list"
  | NotACommand "byte list"

datatype RunResult = RUN_RESULT_STAY | RUN_RESULT_STEP | RUN_RESULT_NORMALIZE

definition PrintChar :: "byte \<Rightarrow> byte list" where
  "PrintChar c = (if is_print c then decimal (unat c) @ [32, 40, 39, c, 39, 41, 10] else decimal (unat c) @ [10])"

definition GP_NAMES :: "string list" where
  "GP_NAMES = [''ZE'', ''AT'', ''V0'', ''V1'', ''A0'', ''A1'', ''A2'', ''A3'', ''T0'', ''T1'', ''T2'', ''T3'', ''T4'', ''T5'', ''T6'', ''T7'',
     ''S0'', ''S1'', ''S2'', ''S3'', ''S4'', ''S5'', ''S6'', ''S7'', ''T8'', ''T9'', ''K0'', ''K1'', ''GP'', ''SP'', ''FP'', ''RA'']"

definition GetGPRegisterName :: "nat \<Rightarrow> string option" where
  "GetGPRegisterName i = (if i < length GP_NAMES then Some (GP_NAMES ! i) else None)"

text \<open>
  \<open>DumpMachineState\<close>: each register with its name, and whether it is shown in colour because it has changed
  since the last prompt; then the state of the machine is kept for the next one.
\<close>

definition DumpMachineState :: "debugger \<Rightarrow> dbg_message \<times> debugger" where
  "DumpMachineState s =
     (RegistersShown (map (\<lambda>i. (case GetGPRegisterName i of Some nm \<Rightarrow> nm | None \<Rightarrow> [], dbg_registers s ! i, dbg_registers s ! i \<noteq> previousRegisters s ! i)) [0..<NUM_GP_REGS]
        @ [(''Hi'', dbg_registers s ! HI_REG, False), (''Lo'', dbg_registers s ! LO_REG, False), (''PC'', dbg_registers s ! PC_REG, False),
           (''NextPC'', dbg_registers s ! NEXT_PC_REG, False), (''PrevPC'', dbg_registers s ! PREV_PC_REG, False),
           (''Load'', dbg_registers s ! LOAD_REG, False), (''LoadV'', dbg_registers s ! LOAD_VALUE_REG, False)]),
      s\<lparr>previousRegisters := dbg_registers s\<rparr>)"

text \<open>
  \<open>CommandPrint\<close>: one byte for each address, virtual unless it ends in \<open>@p\<close>. The debugger stops at the
  first argument that is no address.
\<close>

function print_addresses :: "nat \<Rightarrow> debugger \<Rightarrow> (dbg_message list \<times> debugger) res" where
  "print_addresses saved s =
     (case FetchArg (dbg_buffer s) saved of
        Inl e \<Rightarrow> Inl e
      | Inr (None, buf, k) \<Rightarrow> Inr ([], s\<lparr>dbg_buffer := buf\<rparr>)
      | Inr (Some b, buf, k) \<Rightarrow>
          let arg = string_at buf b; (v, suffix) = strtoul 0 arg; address = of_nat v :: u32; s1 = s\<lparr>dbg_buffer := buf\<rparr> in
          if suffix = [64, 118] \<or> suffix = [] then
            (case MMU_ReadMem (dbg_mmu s1) address 1 of
               Inl e \<Rightarrow> Inl e
             | Inr (Inl e, m) \<Rightarrow> rbind (print_addresses k (s1\<lparr>dbg_mmu := m\<rparr>)) (\<lambda>(out, s2). Inr (ReadFailed e # out, s2))
             | Inr (Inr c, m) \<Rightarrow> rbind (print_addresses k (s1\<lparr>dbg_mmu := m\<rparr>)) (\<lambda>(out, s2). Inr (ByteShown (PrintChar (ucast c)) # out, s2)))
          else if suffix = [64, 112] then
            (if address \<ge> of_nat MEMORY_SIZE then Inr ([AddressTooBig address], s1)
             else rbind (print_addresses k s1) (\<lambda>(out, s2). Inr (ByteShown (PrintChar (mainMemory (dbg_mmu s1) ! unat address)) # out, s2)))
          else Inr ([NotAnAddress arg], s1))"
  by pat_completeness auto
termination
  by (relation "measure (\<lambda>(saved, s). length (dbg_buffer s) - saved)") (auto simp: FetchArg_def dest: strtok_r_range)

text \<open>
  The other commands: the arguments follow the place \<open>saved\<close> of the buffer. The host's files are a parameter
  of \<open>dump\<close>; \<open>Halt\<close> does not return.
\<close>

definition CommandContinue :: "nat \<Rightarrow> debugger \<Rightarrow> (RunResult \<times> dbg_message list \<times> debugger) res" where
  "CommandContinue saved s = Inr (RUN_RESULT_NORMALIZE, [], s)"

definition CommandDump :: "nat \<Rightarrow> debugger \<Rightarrow> (RunResult \<times> dbg_message list \<times> debugger) res" where
  "CommandDump saved s = rbind (FetchArg (dbg_buffer s) saved) (\<lambda>(arg, buf, k). let s1 = s\<lparr>dbg_buffer := buf\<rparr> in
     case arg of None \<Rightarrow> Inr (RUN_RESULT_STAY, [MissingArgument], s1)
     | Some b \<Rightarrow> let path = string_at buf b in
         if \<not> host_opens s1 path then Inr (RUN_RESULT_STAY, [CannotOpen path], s1)
         else if \<not> host_writes s1 path then Inr (RUN_RESULT_STAY, [CannotWrite path], s1)
         else Inr (RUN_RESULT_STAY, [DumpedTo path (mainMemory (dbg_mmu s1))], s1))"

definition CommandFlags :: "nat \<Rightarrow> debugger \<Rightarrow> (RunResult \<times> dbg_message list \<times> debugger) res" where
  "CommandFlags saved s = Inr (RUN_RESULT_STAY,
     [FlagsShown (case debug_flags (debugState s) of None \<Rightarrow> [] | Some p \<Rightarrow> flag_bytes (dbg_buffer s) p)], s)"

definition CommandHelp :: "nat \<Rightarrow> debugger \<Rightarrow> (RunResult \<times> dbg_message list \<times> debugger) res" where
  "CommandHelp saved s = Inr (RUN_RESULT_STAY, [HelpShown], s)"

definition CommandPrint :: "nat \<Rightarrow> debugger \<Rightarrow> (RunResult \<times> dbg_message list \<times> debugger) res" where
  "CommandPrint saved s = rbind (print_addresses saved s) (\<lambda>(out, s1). Inr (RUN_RESULT_STAY, out, s1))"

definition CommandQuit :: "nat \<Rightarrow> debugger \<Rightarrow> (RunResult \<times> dbg_message list \<times> debugger) res" where
  "CommandQuit saved s = Inl Halted"

definition CommandSetFlags :: "nat \<Rightarrow> debugger \<Rightarrow> (RunResult \<times> dbg_message list \<times> debugger) res" where
  "CommandSetFlags saved s = rbind (FetchArg (dbg_buffer s) saved) (\<lambda>(arg, buf, k). let s1 = s\<lparr>dbg_buffer := buf\<rparr> in
     case arg of None \<Rightarrow> Inr (RUN_RESULT_STAY, [MissingArgument], s1)
     | Some b \<Rightarrow> Inr (RUN_RESULT_STAY, [FlagsSet (string_at buf b)], s1\<lparr>debugState := Debug_SetFlags (FlagPointer b) (debugState s1)\<rparr>))"

definition CommandStep :: "nat \<Rightarrow> debugger \<Rightarrow> (RunResult \<times> dbg_message list \<times> debugger) res" where
  "CommandStep saved s = Inr (RUN_RESULT_STEP, [], s)"

definition CommandTick :: "nat \<Rightarrow> debugger \<Rightarrow> (RunResult \<times> dbg_message list \<times> debugger) res" where
  "CommandTick saved s = rbind (FetchArg (dbg_buffer s) saved) (\<lambda>(arg, buf, k). let s1 = s\<lparr>dbg_buffer := buf\<rparr> in
     case arg of None \<Rightarrow> Inr (RUN_RESULT_STAY, [MissingArgument], s1)
     | Some b \<Rightarrow> let (v, rest) = strtoul 10 (string_at buf b) in
         if rest \<noteq> [] then Inr (RUN_RESULT_STAY, [NotANumber (string_at buf b)], s1)
         else Inr (RUN_RESULT_STEP, [], s1\<lparr>runUntilTime := ucast (dbg_ticks s1 + of_nat (unat (of_nat v :: u32)))\<rparr>))"

fun run_command :: "command \<Rightarrow> nat \<Rightarrow> debugger \<Rightarrow> (RunResult \<times> dbg_message list \<times> debugger) res" where
  "run_command Continue = CommandContinue"
| "run_command Dump = CommandDump"
| "run_command Flags = CommandFlags"
| "run_command Help = CommandHelp"
| "run_command PrintMemory = CommandPrint"
| "run_command Quit = CommandQuit"
| "run_command SetFlags = CommandSetFlags"
| "run_command StepOnce = CommandStep"
| "run_command Tick = CommandTick"

definition HandleEmpty :: "debugger \<Rightarrow> (RunResult \<times> dbg_message list \<times> debugger) res" where
  "HandleEmpty s = Inr (RUN_RESULT_STEP, [], s)"

definition HandleUnknown :: "byte list \<Rightarrow> debugger \<Rightarrow> (RunResult \<times> dbg_message list \<times> debugger) res" where
  "HandleUnknown nm s = rbind (CommandHelp 0 s) (\<lambda>(r, out, s1). Inr (r, NotACommand nm # out, s1))"

text \<open>\<open>manager.Run\<close> on the line at a place of the buffer, with the handlers for an empty line and an unknown command.\<close>

definition DCM_Run :: "nat \<Rightarrow> debugger \<Rightarrow> (RunResult \<times> dbg_message list \<times> debugger) res" where
  "DCM_Run line s =
     rbind (strtok_r SEPARATOR (dbg_buffer s) line) (\<lambda>(nm, buf, saved). let s1 = s\<lparr>dbg_buffer := buf\<rparr> in
       case nm of None \<Rightarrow> HandleEmpty s1
       | Some b \<Rightarrow> rbind (find_command (manager s1) (string_at buf b) 0) (\<lambda>c.
           case c of Some c \<Rightarrow> run_command c saved s1
           | None \<Rightarrow> HandleUnknown (string_at buf b) s1))"

text \<open>
  \<open>fgets\<close>, and \<open>GetLine\<close>: the loop that removes trailing white space looks at the byte before the buffer,
  \<open>before\<close>, when the line has nothing else.
\<close>

definition fgets :: "nat \<Rightarrow> byte list \<Rightarrow> byte list \<Rightarrow> (byte list \<times> byte list) option" where
  "fgets n buf input = (if input = [] then None
     else let line = take (n - 1) (takeWhile (\<lambda>b. b \<noteq> 10) input @ (if 10 \<in> set input then [10] else []))
          in Some (overlay buf 0 (line @ [0]), drop (length line) input))"

fun trim_end :: "byte \<Rightarrow> byte list \<Rightarrow> nat \<Rightarrow> nat res" where
  "trim_end before buf 0 = (if is_space before then Inl OutOfBounds else Inr 0)"
| "trim_end before buf (Suc p) = (if is_space (buf ! p) then trim_end before buf p else Inr (Suc p))"

definition GetLine :: "byte \<Rightarrow> byte list \<Rightarrow> byte list \<Rightarrow> (nat \<times> byte list \<times> byte list) option res" where
  "GetLine before buf input = (case fgets BUFFER_SIZE buf input of None \<Rightarrow> Inr None
     | Some (buf1, rest) \<Rightarrow> rbind (trim_end before buf1 (length (string_at buf1 0))) (\<lambda>n.
         let buf2 = buf1[n := 0] in Inr (Some (length (takeWhile is_space buf2), buf2, rest))))"

lemma fgets_consumes: "fgets n buf input = Some (buf1, rest) \<Longrightarrow> 1 < n \<Longrightarrow> length rest < length input"
proof (induction input)
  case (Cons b input)
  then show ?case by (cases n; cases "n - 1") (auto simp: fgets_def Let_def split: if_splits)
qed (simp add: fgets_def)

lemma GetLine_consumes: "GetLine before buf input = Inr (Some (p, buf2, rest)) \<Longrightarrow> length rest < length input"
  by (auto simp: GetLine_def res_simps BUFFER_SIZE_def Let_def split: option.splits dest: fgets_consumes)

text \<open>The loop of \<open>Step\<close>; the result is whether to go on stepping, the messages and the rest of the input.\<close>

function dbg_loop :: "byte \<Rightarrow> byte list \<Rightarrow> debugger \<Rightarrow> (bool \<times> dbg_message list \<times> byte list \<times> debugger) res" where
  "dbg_loop before input s = (case GetLine before (dbg_buffer s) input of
     Inl e \<Rightarrow> Inl e
   | Inr None \<Rightarrow> Inl Halted
   | Inr (Some (l, buf, rest)) \<Rightarrow>
       (case DCM_Run l (s\<lparr>dbg_buffer := buf\<rparr>) of
          Inl e \<Rightarrow> Inl e
        | Inr (RUN_RESULT_STAY, out, s1) \<Rightarrow> rbind (dbg_loop before rest s1) (\<lambda>(r, out2, rest2, s2). Inr (r, out @ out2, rest2, s2))
        | Inr (RUN_RESULT_STEP, out, s1) \<Rightarrow> Inr (True, out, rest, s1)
        | Inr (RUN_RESULT_NORMALIZE, out, s1) \<Rightarrow> Inr (False, out, rest, s1)))"
  by pat_completeness auto
termination
  by (relation "measure (\<lambda>(before, input, s). length input)") (auto dest: GetLine_consumes)

declare dbg_loop.simps [simp del]

definition Debugger_Step :: "byte \<Rightarrow> byte list \<Rightarrow> debugger \<Rightarrow> (bool \<times> dbg_message list \<times> byte list \<times> debugger) res" where
  "Debugger_Step before input s =
     (if ucast (runUntilTime s) > dbg_ticks s then Inr (True, [], input, s)
      else let (shown, s1) = DumpMachineState (s\<lparr>runUntilTime := 0\<rparr>) in
        rbind (dbg_loop before input s1) (\<lambda>(r, out, rest, s2). Inr (r, shown # out, rest, s2)))"

definition debugger_table :: "(string \<times> command) list" where
  "debugger_table = [(''continue'', Continue), (''c'', Continue), (''dump'', Dump), (''flags'', Flags), (''f'', Flags), (''help'', Help), (''h'', Help),
     (''?'', Help), (''print'', PrintMemory), (''p'', PrintMemory), (''quit'', Quit), (''q'', Quit), (''setflags'', SetFlags), (''setf'', SetFlags),
     (''step'', StepOnce), (''s'', StepOnce), (''tick'', Tick), (''t'', Tick)]"

text \<open>The constructor adds the commands to a table with the given uninitialised content.\<close>

definition Debugger_new :: "DCM \<Rightarrow> DCM" where
  "Debugger_new m0 = fold (\<lambda>(nm, f) m. snd (AddCommand (chars nm) f m)) debugger_table m0"

section \<open>Finding a command\<close>

lemma add_commands:
  "dcm_count m + length cs \<le> CAPACITY \<Longrightarrow> length (dcm_commands m) = CAPACITY \<Longrightarrow>
   fold (\<lambda>(nm, f) m. snd (AddCommand (chars nm) f m)) cs m =
   m\<lparr>dcm_commands := overlay (dcm_commands m) (dcm_count m) (map (\<lambda>(nm, f). (chars nm, f)) cs), dcm_count := dcm_count m + length cs\<rparr>"
proof (induction cs arbitrary: m)
  case (Cons c cs)
  obtain nm f where c: "c = (nm, f)" by (cases c)
  have lt: "dcm_count m < CAPACITY" using Cons.prems(1) by simp
  then have a: "snd (AddCommand (chars nm) f m) = m\<lparr>dcm_commands := (dcm_commands m)[dcm_count m := (chars nm, f)], dcm_count := dcm_count m + 1\<rparr>"
    by (simp add: AddCommand_def)
  have "overlay ((dcm_commands m)[dcm_count m := (chars nm, f)]) (Suc (dcm_count m)) xs = overlay (dcm_commands m) (dcm_count m) ((chars nm, f) # xs)" for xs
    using lt Cons.prems(2) by (simp add: overlay_def take_Suc_conv_app_nth)
  then show ?case using Cons.IH [of "snd (AddCommand (chars nm) f m)"] Cons.prems a c by simp
qed simp

lemma find_command_table:
  "i + length cs = dcm_count m \<Longrightarrow> dcm_count m \<le> length (dcm_commands m) \<Longrightarrow> slice i (length cs) (dcm_commands m) = cs \<Longrightarrow>
   find_command m nm i = Inr (map_option snd (find (\<lambda>c. fst c = nm) cs))"
proof (induction cs arbitrary: i)
  case Nil
  then show ?case by (subst find_command.simps) simp
next
  case (Cons c cs)
  then have i: "i < length (dcm_commands m)" "i < dcm_count m" by simp_all
  have d: "drop i (dcm_commands m) = dcm_commands m ! i # drop (Suc i) (dcm_commands m)" using i(1) by (simp add: Cons_nth_drop_Suc)
  then have c: "dcm_commands m ! i = c" "slice (Suc i) (length cs) (dcm_commands m) = cs" using Cons.prems(3) by (simp_all add: slice_def)
  show ?case using Cons.IH [of "Suc i"] Cons.prems(1,2) c i by (subst find_command.simps) (auto split: if_splits)
qed

lemma Debugger_new_finds:
  assumes "dcm_count m0 = 0" "length (dcm_commands m0) = CAPACITY"
  shows "find_command (Debugger_new m0) nm 0 = Inr (map_option snd (find (\<lambda>c. fst c = nm) (map (\<lambda>(nm, f). (chars nm, f)) debugger_table)))"
proof -
  let ?cs = "map (\<lambda>(nm, f). (chars nm, f)) debugger_table"
  have n: "length debugger_table = 18" by (simp add: debugger_table_def)
  have "Debugger_new m0 = m0\<lparr>dcm_commands := overlay (dcm_commands m0) 0 ?cs, dcm_count := length ?cs\<rparr>"
    using add_commands [of m0 debugger_table] assms n by (simp add: Debugger_new_def CAPACITY_def)
  then show ?thesis using assms n by (intro find_command_table) (simp_all add: overlay_def slice_def CAPACITY_def)
qed

section \<open>Reading a line\<close>

text \<open>A line of the given words, with one separator between them, as it is typed.\<close>

definition plain_line :: "byte list \<Rightarrow> bool" where
  "plain_line l \<longleftrightarrow> l \<noteq> [] \<and> 0 \<notin> set l \<and> 10 \<notin> set l \<and> \<not> is_space (hd l) \<and> \<not> is_space (last l) \<and> length l < 79"

lemma GetLine_plain:
  assumes "plain_line l" "length buf = BUFFER_SIZE"
  shows "GetLine before buf (l @ 10 # rest) = Inr (Some (0, l @ 0 # 0 # drop (length l + 2) buf, rest))"
proof -
  have l: "l \<noteq> []" "0 \<notin> set l" "10 \<notin> set l" "\<not> is_space (hd l)" "\<not> is_space (last l)" "length l < 79" using assms(1) by (auto simp: plain_line_def)
  have tw: "takeWhile (\<lambda>b. b \<noteq> 10) (l @ 10 # rest) = l" using l(3) by (induction l) auto
  let ?buf = "l @ 10 # 0 # drop (length l + 2) buf"
  have f: "fgets BUFFER_SIZE buf (l @ 10 # rest) = Some (?buf, rest)"
    using l(6) by (simp add: fgets_def tw Let_def BUFFER_SIZE_def overlay_def)
  have "string_at ?buf 0 = l @ [10]" using takeWhile_zero [of "l @ [10]"] l(2) by (simp add: string_at_def)
  moreover have "trim_end before ?buf (Suc (length l)) = Inr (length l)"
  proof -
    obtain k where k: "length l = Suc k" using l(1) by (cases l) auto
    then have "?buf ! k = last l" using l(1) by (simp add: nth_append last_conv_nth)
    moreover have "is_space 10" by (simp add: is_space_def)
    ultimately show ?thesis using k l(5) by (simp add: nth_append)
  qed
  moreover have "takeWhile is_space (l @ r) = []" for r using l(1,4) by (cases l) simp_all
  ultimately show ?thesis using f by (simp add: GetLine_def Let_def list_update_append)
qed

text \<open>Running the line: the command, and the place of what follows it.\<close>

lemma DCM_Run_word:
  assumes "dbg_buffer s = w @ x # r" "w \<noteq> []" "{0, SEPARATOR} \<inter> set w = {}" "x = 0 \<or> x = SEPARATOR"
  shows "DCM_Run 0 s = rbind (find_command (manager s) w 0) (\<lambda>c.
    case c of Some c \<Rightarrow> run_command c (length w + (if x = 0 then 0 else 1)) (s\<lparr>dbg_buffer := w @ 0 # r\<rparr>)
    | None \<Rightarrow> HandleUnknown w (s\<lparr>dbg_buffer := w @ 0 # r\<rparr>))"
proof -
  have "strtok_r SEPARATOR (dbg_buffer s) 0 = Inr (Some 0, w @ 0 # r, length w + (if x = 0 then 0 else 1))"
    using strtok_r_token [OF assms(2,3,4), of "[]" 0 r] assms(1) by (simp add: SEPARATOR_def)
  moreover have "string_at (w @ 0 # r) 0 = w" using takeWhile_zero [of w r] assms(3) by (auto simp: string_at_def)
  ultimately show ?thesis by (simp add: DCM_Run_def Let_def)
qed

definition at_prompt :: "debugger \<Rightarrow> bool" where
  "at_prompt s \<longleftrightarrow> length (dbg_buffer s) = BUFFER_SIZE \<and> (\<exists>m0. manager s = Debugger_new m0 \<and> dcm_count m0 = 0 \<and> length (dcm_commands m0) = CAPACITY)"

lemma at_prompt_finds: "at_prompt s \<Longrightarrow> find_command (manager s) nm 0 = Inr (map_option snd (find (\<lambda>c. fst c = nm) (map (\<lambda>(nm, f). (chars nm, f)) debugger_table)))"
  using Debugger_new_finds by (auto simp: at_prompt_def)

definition dbg_word :: "byte list \<Rightarrow> bool" where
  "dbg_word w \<longleftrightarrow> w \<noteq> [] \<and> (\<forall>b \<in> set w. b \<noteq> 0 \<and> \<not> is_space b)"

lemma dbg_word_simps: "dbg_word w \<Longrightarrow> w \<noteq> []" "dbg_word w \<Longrightarrow> 0 \<notin> set w" "dbg_word w \<Longrightarrow> 10 \<notin> set w" "dbg_word w \<Longrightarrow> 32 \<notin> set w"
  "dbg_word w \<Longrightarrow> \<not> is_space (hd w)" "dbg_word w \<Longrightarrow> \<not> is_space (last w)"
  by (auto simp: dbg_word_def is_space_def)

text \<open>What the loop does with the result of a command.\<close>

definition after_command :: "byte \<Rightarrow> byte list \<Rightarrow> (RunResult \<times> dbg_message list \<times> debugger) res \<Rightarrow> (bool \<times> dbg_message list \<times> byte list \<times> debugger) res" where
  "after_command before rest x = rbind x (\<lambda>(r, out, s). case r of
     RUN_RESULT_STAY \<Rightarrow> rbind (dbg_loop before rest s) (\<lambda>(r, out2, rest2, s2). Inr (r, out @ out2, rest2, s2))
   | RUN_RESULT_STEP \<Rightarrow> Inr (True, out, rest, s)
   | RUN_RESULT_NORMALIZE \<Rightarrow> Inr (False, out, rest, s))"

lemma dbg_loop_line:
  assumes "plain_line l" "length (dbg_buffer s) = BUFFER_SIZE"
  shows "dbg_loop before (l @ 10 # rest) s = after_command before rest (DCM_Run 0 (s\<lparr>dbg_buffer := l @ 0 # 0 # drop (length l + 2) (dbg_buffer s)\<rparr>))"
  by (subst dbg_loop.simps) (simp add: GetLine_plain [OF assms] after_command_def split: sum.split RunResult.split prod.split)

lemma dbg_loop_one_word:
  assumes "at_prompt s" "find_command (manager s) w 0 = Inr (Some c)" "dbg_word w" "length w < 79"
  shows "dbg_loop before (w @ 10 # rest) s = after_command before rest (run_command c (length w) (s\<lparr>dbg_buffer := w @ 0 # 0 # drop (length w + 2) (dbg_buffer s)\<rparr>))"
proof -
  note w = dbg_word_simps [OF assms(3)]
  have "plain_line w" using w assms(4) by (simp add: plain_line_def)
  moreover have "length (dbg_buffer s) = BUFFER_SIZE" using assms(1) by (simp add: at_prompt_def)
  ultimately show ?thesis using w assms(2) by (simp add: dbg_loop_line DCM_Run_word [where w = w and x = 0] SEPARATOR_def)
qed

lemma dbg_loop_two_words:
  assumes "at_prompt s" "find_command (manager s) w 0 = Inr (Some c)" "dbg_word w" "dbg_word a" "length w + length a < 78"
  shows "dbg_loop before (w @ SEPARATOR # a @ 10 # rest) s =
    after_command before rest (run_command c (length w + 1) (s\<lparr>dbg_buffer := w @ 0 # a @ 0 # 0 # drop (length w + length a + 3) (dbg_buffer s)\<rparr>))"
proof -
  note w = dbg_word_simps [OF assms(3)] and a = dbg_word_simps [OF assms(4)]
  have "plain_line (w @ SEPARATOR # a)" using w a assms(5) by (simp add: plain_line_def SEPARATOR_def)
  moreover have "length (dbg_buffer s) = BUFFER_SIZE" using assms(1) by (simp add: at_prompt_def)
  ultimately have "dbg_loop before ((w @ SEPARATOR # a) @ 10 # rest) s = after_command before rest (DCM_Run 0
      (s\<lparr>dbg_buffer := w @ SEPARATOR # a @ 0 # 0 # drop (length w + length a + 3) (dbg_buffer s)\<rparr>))"
    by (subst dbg_loop_line) (simp_all add: eval_nat_numeral)
  then show ?thesis using w assms(2) by (simp add: DCM_Run_word [where w = w and x = 32] SEPARATOR_def)
qed

lemma FetchArg_second:
  assumes "dbg_word a"
  shows "FetchArg (w @ 0 # a @ 0 # r) (Suc (length w)) = Inr (Some (Suc (length w)), w @ 0 # a @ 0 # r, length w + 1 + length a)"
    "string_at (w @ 0 # a @ 0 # r) (Suc (length w)) = a"
  using strtok_r_token [of a SEPARATOR 0 "w @ [0]" 0 r] takeWhile_zero [of a r] dbg_word_simps [OF assms]
  by (simp_all add: FetchArg_def SEPARATOR_def string_at_def)

lemma decimal_word: "dbg_word (decimal n)"
  using no_digit [of 0 n] decimal_not_space [of _ n] by (auto simp: dbg_word_def)

text \<open>The lines that let the program go on.\<close>

lemma going_on:
  "(w, c) \<in> set debugger_table \<Longrightarrow> c = StepOnce \<or> c = Continue \<Longrightarrow>
   (w, c) = (''step'', StepOnce) \<or> (w, c) = (''s'', StepOnce) \<or> (w, c) = (''continue'', Continue) \<or> (w, c) = (''c'', Continue)"
  unfolding debugger_table_def by auto

lemma going_on_found:
  assumes "(w, c) = (''step'', StepOnce) \<or> (w, c) = (''s'', StepOnce) \<or> (w, c) = (''continue'', Continue) \<or> (w, c) = (''c'', Continue)"
  shows "Inr (map_option snd (find (\<lambda>c. fst c = chars w) (map (\<lambda>(nm, f). (chars nm, f)) debugger_table))) = Inr (Some c)"
  using assms by (elim disjE) (simp_all add: debugger_table_def chars_def)

lemma going_on_word:
  assumes "(w, c) = (''step'', StepOnce) \<or> (w, c) = (''s'', StepOnce) \<or> (w, c) = (''continue'', Continue) \<or> (w, c) = (''c'', Continue)"
  shows "dbg_word (chars w)" "length (chars w) < 79"
  using assms by (elim disjE; simp add: dbg_word_def chars_def is_space_def)+

text \<open>A debugger at the first prompt, at time 100.\<close>

definition sample_debugger :: debugger where
  "sample_debugger = \<lparr>dbg_buffer = replicate 80 1, manager = Debugger_new \<lparr>dcm_commands = replicate 20 ([], Help), dcm_count = 0\<rparr>,
     previousRegisters = replicate 40 0, runUntilTime = 0, debugState = Debug_new,
     dbg_mmu = sample_mmu, dbg_registers = replicate 40 5, dbg_ticks = 100, host_opens = (\<lambda>p. True), host_writes = (\<lambda>p. True)\<rparr>"

lemma sample_ready: "at_prompt sample_debugger"
  unfolding at_prompt_def sample_debugger_def BUFFER_SIZE_def CAPACITY_def
  by (intro conjI exI [of _ "\<lparr>dcm_commands = replicate 20 ([], Help), dcm_count = 0\<rparr>"]) simp_all

section \<open>Properties\<close>

text \<open>
  C19. The command \<open>tick n\<close> at the prompt of the debugger: it goes on stepping without a message. As long
  as the simulated time is less than \<open>n\<close> ticks later, \<open>Step\<close> returns at once and reads nothing of what has
  been typed; from then on it shows the registers and asks again.
\<close>

theorem debugger_tick:
  assumes "at_prompt s" "\<not> ucast (runUntilTime s) > dbg_ticks s" "unat (dbg_ticks s) + n < 2 ^ 32"
  shows "\<exists>s1. Debugger_Step before (chars ''tick '' @ decimal n @ 10 # rest) s = Inr (True, [fst (DumpMachineState s)], rest, s1)
    \<and> (\<forall>t input. Debugger_Step before input (s1\<lparr>dbg_ticks := t\<rparr>) =
         (if unat t < unat (dbg_ticks s) + n then Inr (True, [], input, s1\<lparr>dbg_ticks := t\<rparr>)
          else rbind (dbg_loop before input (s1\<lparr>dbg_ticks := t, runUntilTime := 0, previousRegisters := dbg_registers s\<rparr>))
            (\<lambda>(r, out, rest, s2). Inr (r, fst (DumpMachineState s1) # out, rest, s2))))"
proof -
  let ?s0 = "s\<lparr>runUntilTime := 0, previousRegisters := dbg_registers s\<rparr>"
  let ?buf = "chars ''tick'' @ 0 # decimal n @ 0 # 0 # drop (length (chars ''tick'') + length (decimal n) + 3) (dbg_buffer s)"
  let ?s2 = "?s0\<lparr>dbg_buffer := ?buf, runUntilTime := ucast (dbg_ticks s + of_nat n)\<rparr>"
  have n: "n < 2 ^ 32" "length (decimal n) \<le> 10" using assms(3) length_decimal [of n 10] by simp_all
  have r: "at_prompt ?s0" using assms(1) by (simp add: at_prompt_def)
  have w: "dbg_word (chars ''tick'')" "length (chars ''tick'') + length (decimal n) < 78" using n(2) by (simp_all add: dbg_word_def chars_def is_space_def)
  have "find_command (manager ?s0) (chars ''tick'') 0 = Inr (Some Tick)" unfolding at_prompt_finds [OF r] by (simp add: debugger_table_def chars_def)
  note l = dbg_loop_two_words [OF r this w(1) decimal_word w(2), of before rest]
  have a: "run_command Tick (length (chars ''tick'') + 1) (?s0\<lparr>dbg_buffer := ?buf\<rparr>) = Inr (RUN_RESULT_STEP, [], ?s2)"
    using n FetchArg_second [OF decimal_word, of "chars ''tick''" n] strtoul_decimal [of n] by (simp add: CommandTick_def Let_def unat_of_nat_small)
  have "chars ''tick '' @ decimal n @ 10 # rest = chars ''tick'' @ SEPARATOR # decimal n @ 10 # rest" by (simp add: chars_def SEPARATOR_def)
  then have "Debugger_Step before (chars ''tick '' @ decimal n @ 10 # rest) s = Inr (True, [fst (DumpMachineState s)], rest, ?s2)"
    using assms(2) l a by (simp add: Debugger_Step_def DumpMachineState_def after_command_def)
  moreover have "unat (ucast (ucast (dbg_ticks s + of_nat n :: 64 word) :: u32) :: 64 word) = unat (dbg_ticks s) + n"
  proof -
    have "unat (dbg_ticks s + of_nat n) = unat (dbg_ticks s) + n" using assms(3) n by (simp add: unat_word_ariths unat_of_nat)
    then show ?thesis using assms(3) by (simp add: unsigned_ucast_eq unsigned_take_bit_eq take_bit_nat_eq_self)
  qed
  ultimately show ?thesis by (intro exI [of _ ?s2]) (simp add: Debugger_Step_def DumpMachineState_def word_less_nat_alt)
qed

theorem debugger_tick_witness:
  "\<exists>s1. Debugger_Step 0 (chars ''tick 7'' @ [10, 113]) sample_debugger = Inr (True, [fst (DumpMachineState sample_debugger)], [113], s1)
    \<and> Debugger_Step 0 [113] (s1\<lparr>dbg_ticks := 106\<rparr>) = Inr (True, [], [113], s1\<lparr>dbg_ticks := 106\<rparr>)"
proof -
  have "decimal 7 = [55]" by (simp add: decimal.simps)
  then show ?thesis using debugger_tick [OF sample_ready, of 7 0 "[113]"] by (fastforce simp: sample_debugger_def chars_def)
qed

text \<open>
  The command \<open>setf\<close> does not copy the flags: it keeps a pointer into the line buffer, so the line that
  lets the program go on, in one of its four spellings, decides what remains of them. After \<open>s\<close> and \<open>c\<close> they
  are the flags given, after \<open>step\<close> none, and after \<open>continue\<close> the letters \<open>nue\<close>.
\<close>

theorem setflags_next_line:
  assumes "at_prompt s" "\<not> ucast (runUntilTime s) > dbg_ticks s" "dbg_word F" "length F < 70"
    "(w, c) \<in> set debugger_table" "c = StepOnce \<or> c = Continue"
  shows "\<exists>s1. Debugger_Step before (chars ''setf '' @ F @ 10 # chars w @ 10 # rest) s = Inr (c = StepOnce, [fst (DumpMachineState s), FlagsSet F], rest, s1)
    \<and> map_option (flag_bytes (dbg_buffer s1)) (debug_flags (debugState s1)) = Some (if length w < 4 then F else chars (drop 5 w))"
proof -
  let ?s0 = "s\<lparr>runUntilTime := 0, previousRegisters := dbg_registers s\<rparr>"
  let ?f = "chars ''setf''"
  let ?buf = "?f @ 0 # F @ 0 # 0 # drop (length ?f + length F + 3) (dbg_buffer s)"
  let ?s1 = "?s0\<lparr>dbg_buffer := ?buf, debugState := Debug_SetFlags (FlagPointer 5) (debugState s)\<rparr>"
  let ?s2 = "?s1\<lparr>dbg_buffer := chars w @ 0 # 0 # drop (length w + 2) ?buf\<rparr>"
  have r: "at_prompt ?s0" using assms(1) by (simp add: at_prompt_def)
  have lb: "length (dbg_buffer s) = 80" using assms(1) by (simp add: at_prompt_def BUFFER_SIZE_def)
  then have r1: "at_prompt ?s1" using assms(1,4) by (simp add: at_prompt_def BUFFER_SIZE_def chars_def)
  have f: "dbg_word ?f" "length ?f + length F < 78" using assms(4) by (simp_all add: dbg_word_def chars_def is_space_def)
  have "find_command (manager ?s0) ?f 0 = Inr (Some SetFlags)" unfolding at_prompt_finds [OF r] by (simp add: debugger_table_def chars_def)
  note l = dbg_loop_two_words [OF r this f(1) assms(3) f(2), of before "chars w @ 10 # rest"]
  have a: "run_command SetFlags (length ?f + 1) (?s0\<lparr>dbg_buffer := ?buf\<rparr>) = Inr (RUN_RESULT_STAY, [FlagsSet F], ?s1)"
    using FetchArg_second [OF assms(3), of ?f] by (simp add: CommandSetFlags_def Let_def Debug_SetFlags_def chars_def)
  note w = going_on [OF assms(5,6)]
  have fc: "find_command (manager ?s1) (chars w) 0 = Inr (Some c)" unfolding at_prompt_finds [OF r1] by (rule going_on_found [OF w])
  note l2 = dbg_loop_one_word [OF r1 fc going_on_word [OF w], of before rest]
  have "chars ''setf '' @ F @ 10 # chars w @ 10 # rest = ?f @ SEPARATOR # F @ 10 # chars w @ 10 # rest" by (simp add: chars_def SEPARATOR_def)
  then have "Debugger_Step before (chars ''setf '' @ F @ 10 # chars w @ 10 # rest) s = Inr (c = StepOnce, [fst (DumpMachineState s), FlagsSet F], rest, ?s2)"
    using assms(2,6) l a l2 by (auto simp: Debugger_Step_def DumpMachineState_def after_command_def CommandStep_def CommandContinue_def chars_def)
  moreover have "string_at (dbg_buffer ?s2) 5 = (if length w < 4 then F else chars (drop 5 w))"
    using w takeWhile_zero [of F] dbg_word_simps(2) [OF assms(3)] by (elim disjE) (simp_all add: string_at_def chars_def)
  ultimately show ?thesis by (intro exI [of _ ?s2]) (simp add: Debug_SetFlags_def)
qed

theorem setflags_next_line_witness:
  "\<exists>s1. Debugger_Step 0 (chars ''setf tm'' @ [10] @ chars ''continue'' @ [10]) sample_debugger
      = Inr (False, [fst (DumpMachineState sample_debugger), FlagsSet (chars ''tm'')], [], s1)
    \<and> map_option (flag_bytes (dbg_buffer s1)) (debug_flags (debugState s1)) = Some (chars ''nue'')"
proof -
  have "dbg_word (chars ''tm'')" by (simp add: dbg_word_def chars_def is_space_def)
  moreover have "(''continue'', Continue) \<in> set debugger_table" by (simp add: debugger_table_def)
  ultimately show ?thesis
    using setflags_next_line [OF sample_ready, of "chars ''tm''" "''continue''" Continue 0 "[]"] by (simp add: sample_debugger_def chars_def)
qed

end
