(* ===== verification/Command_Line.thy ===== *)
theory Command_Line
  imports Boot Fs_Programs Debugger
begin

text \<open>
  The command line of \<open>nachos\<close>: \<open>ParseDebugOpts\<close> and the loop of \<open>Initialize\<close> in \<open>threads/system.cc\<close>, which
  look for the options of the system, and the loop of \<open>main\<close> in \<open>threads/main.cc\<close>, which goes through the
  same arguments again and carries out the commands. The switches of the compiler are a parameter. A
  string is its buffer, with the terminating zero, because \<open>ParseDebugOpts\<close> writes into it.
\<close>

section \<open>The options of the system\<close>

record build =
  THREADS :: bool
  USER_PROGRAM :: bool
  FILESYS_NEEDED :: bool
  FILESYS :: bool
  NETWORK :: bool

text \<open>The build of \<open>filesys/Makefile\<close>.\<close>

definition filesys_build :: build where
  "filesys_build = \<lparr>THREADS = False, USER_PROGRAM = True, FILESYS_NEEDED = True, FILESYS = True, NETWORK = False\<rparr>"

text \<open>
  The local variables of \<open>Initialize\<close> that the options set; \<open>timeSlice\<close> has no initial value, the argument
  of \<open>atof\<close> is kept as it was typed, and \<open>seeds\<close> are the calls of \<open>RandomInit\<close>.
\<close>

record options =
  debugFlags :: "byte list"
  debugOpts :: DebugOpts
  randomYield :: bool
  seeds :: "int list"
  preemptiveScheduling :: bool
  timeSlice :: "int option"
  debugUserProg :: bool
  formatDisk :: bool
  rely :: "byte list option"
  netname :: int

definition no_options :: options where
  "no_options = \<lparr>debugFlags = [], debugOpts = DebugOpts_new, randomYield = False, seeds = [], preemptiveScheduling = False,
     timeSlice = None, debugUserProg = False, formatDisk = False, rely = None, netname = 0\<rparr>"

definition DEFAULT_TIME_SLICE :: int where "DEFAULT_TIME_SLICE = 50000"

definition set_debug_opt :: "byte list \<Rightarrow> DebugOpts \<Rightarrow> DebugOpts option" where
  "set_debug_opt token out =
     (if token = chars ''location'' \<or> token = chars ''l'' then Some (out\<lparr>location := True\<rparr>)
      else if token = chars ''function'' \<or> token = chars ''f'' then Some (out\<lparr>function_name := True\<rparr>)
      else if token = chars ''sleep'' \<or> token = chars ''s'' then Some (out\<lparr>sleep := True\<rparr>)
      else if token = chars ''interactive'' \<or> token = chars ''i'' then Some (out\<lparr>interactive := True\<rparr>)
      else None)"

text \<open>The loop of \<open>ParseDebugOpts\<close> from a place of the string on: whether all options are known, the options and the string.\<close>

function ParseDebugOpts :: "byte list \<Rightarrow> nat \<Rightarrow> DebugOpts \<Rightarrow> (bool \<times> DebugOpts \<times> byte list) res" where
  "ParseDebugOpts s i out = (case strtok_r 44 s i of
     Inl e \<Rightarrow> Inl e
   | Inr (None, s1, save_p) \<Rightarrow> Inr (True, out, s1)
   | Inr (Some token, s1, save_p) \<Rightarrow>
       (case set_debug_opt (string_at s1 token) out of None \<Rightarrow> Inr (False, out, s1) | Some out1 \<Rightarrow> ParseDebugOpts s1 save_p out1))"
  by pat_completeness auto
termination by (relation "measure (\<lambda>(s, i, out). length s - i)") (auto dest: strtok_r_range)

declare ParseDebugOpts.simps [simp del]

text \<open>
  One round of the loop of \<open>Initialize\<close> at the arguments left: the number of arguments taken, the options,
  and the arguments, whose strings may have changed.
\<close>

definition arg :: "byte list list \<Rightarrow> byte list" where
  "arg argv = string_at (hd argv) 0"

definition debug_opts_option :: "byte list list \<Rightarrow> options \<Rightarrow> (nat \<times> options \<times> byte list list) res" where
  "debug_opts_option argv o0 =
     rbind (rassert (length argv > 1)) (\<lambda>_.
     rbind (ParseDebugOpts (argv ! 1) 0 (debugOpts o0)) (\<lambda>(known, out, s1).
     rbind (rassert known) (\<lambda>_. Inr (2, o0\<lparr>debugOpts := out\<rparr>, argv[1 := s1]))))"

definition general_option :: "byte list list \<Rightarrow> options \<Rightarrow> (nat \<times> options \<times> byte list list) res" where
  "general_option argv o0 =
     (if arg argv = chars ''-d'' then
        (if length argv = 1 then Inr (1, o0\<lparr>debugFlags := chars ''+''\<rparr>, argv) else Inr (2, o0\<lparr>debugFlags := arg (tl argv)\<rparr>, argv))
      else if arg argv = chars ''-do'' then debug_opts_option argv o0
      else if arg argv = chars ''-rs'' then
        rbind (rassert (length argv > 1)) (\<lambda>_. Inr (2, o0\<lparr>seeds := seeds o0 @ [atoi (arg (tl argv))], randomYield := True\<rparr>, argv))
      else if arg argv = chars ''-p'' then
        (if length argv = 1 then Inr (1, o0\<lparr>preemptiveScheduling := True, timeSlice := Some DEFAULT_TIME_SLICE\<rparr>, argv)
         else Inr (2, o0\<lparr>preemptiveScheduling := True, timeSlice := Some (atoi (arg (tl argv)))\<rparr>, argv))
      else Inr (1, o0, argv))"

definition system_option :: "build \<Rightarrow> byte list list \<Rightarrow> options \<Rightarrow> (nat \<times> options \<times> byte list list) res" where
  "system_option b argv o0 =
     rbind (general_option argv o0) (\<lambda>(argCount, o1, argv1).
       let o2 = (if USER_PROGRAM b \<and> arg argv1 = chars ''-s'' then o1\<lparr>debugUserProg := True\<rparr> else o1);
           o3 = (if FILESYS_NEEDED b \<and> arg argv1 = chars ''-f'' then o2\<lparr>formatDisk := True\<rparr> else o2) in
       if NETWORK b \<and> arg argv1 = chars ''-n'' then
         rbind (rassert (length argv1 > 1)) (\<lambda>_. Inr (2, o3\<lparr>rely := Some (arg (tl argv1))\<rparr>, argv1))
       else if NETWORK b \<and> arg argv1 = chars ''-id'' then
         rbind (rassert (length argv1 > 1)) (\<lambda>_. Inr (2, o3\<lparr>netname := atoi (arg (tl argv1))\<rparr>, argv1))
       else Inr (argCount, o3, argv1))"

lemma debug_opts_option_count: "debug_opts_option argv o0 = Inr (n, o1, argv1) \<Longrightarrow> n = 2 \<and> length argv1 = length argv"
  by (auto simp: debug_opts_option_def res_simps)

lemma general_option_count: "general_option argv o0 = Inr (n, o1, argv1) \<Longrightarrow> 0 < n \<and> length argv1 = length argv"
proof -
  assume g: "general_option argv o0 = Inr (n, o1, argv1)"
  consider "arg argv = chars ''-d''" | "arg argv \<noteq> chars ''-d''" "arg argv = chars ''-do''" | "arg argv = chars ''-rs''" "arg argv \<noteq> chars ''-d''" "arg argv \<noteq> chars ''-do''"
    | "arg argv = chars ''-p''" "arg argv \<noteq> chars ''-d''" "arg argv \<noteq> chars ''-do''" "arg argv \<noteq> chars ''-rs''"
    | "arg argv \<notin> {chars ''-d'', chars ''-do'', chars ''-rs'', chars ''-p''}" by blast
  then show ?thesis
    by cases (use g debug_opts_option_count [of argv o0 n o1 argv1] in \<open>simp_all add: general_option_def res_simps split: if_splits\<close>)
qed

lemma system_option_count: "system_option b argv o0 = Inr (n, o1, argv1) \<Longrightarrow> 0 < n \<and> length argv1 = length argv"
proof -
  assume s: "system_option b argv o0 = Inr (n, o1, argv1)"
  then obtain k o2 argv2 where g: "general_option argv o0 = Inr (k, o2, argv2)" by (auto simp: system_option_def res_simps)
  with s have "argv1 = argv2 \<and> (n = 2 \<or> n = k)" by (auto simp: system_option_def res_simps Let_def split: if_splits)
  then show ?thesis using general_option_count [OF g] by auto
qed

text \<open>The loop over the arguments behind the name of the command; it leaves the arguments for \<open>main\<close>.\<close>

function system_options :: "build \<Rightarrow> byte list list \<Rightarrow> options \<Rightarrow> (options \<times> byte list list) res" where
  "system_options b argv o0 =
     (if argv = [] then Inr (o0, [])
      else rbind (system_option b argv o0) (\<lambda>(argCount, o1, argv1).
           rbind (system_options b (drop argCount argv1) o1) (\<lambda>(o2, rest). Inr (o2, take argCount argv1 @ rest))))"
  by pat_completeness auto
termination
  by (relation "measure (\<lambda>(b, argv, o0). length argv)") (auto dest: system_option_count)

declare system_options.simps [simp del]

section \<open>The commands\<close>

datatype action =
    DoSysInfo
  | DoPrintVersion
  | DoThreadTest
  | DoStartProcess "byte list"
  | DoConsoleTest "(byte list \<times> byte list) option"
  | DoSynchConsoleTest "(byte list \<times> byte list) option"
  | DoCopy "byte list" "byte list"
  | DoBigCopy "byte list" "byte list"
  | DoCopyExact "byte list" "byte list"
  | DoPrint "byte list"
  | DoRemove "byte list"
  | DoList
  | DoPrintAll
  | DoCheck
  | DoPerformanceTest
  | DoPerformanceTestSync
  | DoFileTestCreate
  | DoDirectoryTest
  | DoMailTest int
  | DoHalt

text \<open>How the loop of \<open>main\<close> goes on behind a round: with so many arguments taken, or no further.\<close>

datatype proceed = Taken nat | MainReturns | AssertStops

text \<open>
  The groups of tests of a round. Each group gives its commands; a failed assertion ends the program
  before the commands behind it.
\<close>

definition two_files :: "byte list list \<Rightarrow> (byte list \<Rightarrow> byte list \<Rightarrow> action) \<Rightarrow> action list \<times> proceed" where
  "two_files argv f = (if length argv > 2 then ([f (arg (tl argv)) (arg (tl (tl argv)))], Taken 3) else ([], AssertStops))"

definition console_test :: "byte list list \<Rightarrow> ((byte list \<times> byte list) option \<Rightarrow> action) \<Rightarrow> action list \<times> proceed" where
  "console_test argv f =
     (if length argv = 1 then ([f None, DoHalt], Taken 1)
      else if length argv > 2 then ([f (Some (arg (tl argv), arg (tl (tl argv)))), DoHalt], Taken 3) else ([], AssertStops))"

definition user_command :: "byte list list \<Rightarrow> action list \<times> proceed" where
  "user_command argv =
     (if arg argv = chars ''-x'' then (if length argv > 1 then ([DoStartProcess (arg (tl argv))], Taken 2) else ([], AssertStops))
      else if arg argv = chars ''-tc'' then console_test argv DoConsoleTest
      else if arg argv = chars ''-tsc'' then console_test argv DoSynchConsoleTest
      else ([], Taken 1))"

definition filesys_command :: "byte list list \<Rightarrow> action list \<times> proceed" where
  "filesys_command argv =
     (if arg argv = chars ''-cp'' then two_files argv DoCopy
      else if arg argv = chars ''-bcp'' then two_files argv DoBigCopy
      else if arg argv = chars ''-cpe'' then two_files argv DoCopyExact
      else if arg argv = chars ''-pr'' then (if length argv > 1 then ([DoPrint (arg (tl argv))], Taken 2) else ([], AssertStops))
      else if arg argv = chars ''-rm'' then (if length argv > 1 then ([DoRemove (arg (tl argv))], Taken 2) else ([], AssertStops))
      else if arg argv = chars ''-ls'' then ([DoList], Taken 1)
      else if arg argv = chars ''-D'' then ([DoPrintAll], Taken 1)
      else if arg argv = chars ''-c'' then ([DoCheck], Taken 1)
      else if arg argv = chars ''-tf'' then ([DoPerformanceTest], Taken 1)
      else if arg argv = chars ''-tfs'' then ([DoPerformanceTestSync], Taken 1)
      else if arg argv = chars ''-tfc'' then ([DoFileTestCreate], Taken 1)
      else if arg argv = chars ''-td'' then ([DoDirectoryTest], Taken 1)
      else ([], Taken 1))"

definition network_command :: "byte list list \<Rightarrow> action list \<times> proceed" where
  "network_command argv = (if arg argv = chars ''-tn'' then (if length argv > 1 then ([DoMailTest (atoi (arg (tl argv)))], Taken 2) else ([], AssertStops))
     else ([], Taken 1))"

text \<open>The groups of a round one after the other; a group that takes more arguments than one decides the number.\<close>

definition then_group :: "action list \<times> proceed \<Rightarrow> bool \<Rightarrow> (byte list list \<Rightarrow> action list \<times> proceed) \<Rightarrow> byte list list \<Rightarrow> action list \<times> proceed" where
  "then_group r present g argv = (if \<not> present then r else case r of
     (as, Taken n) \<Rightarrow> (case g argv of (bs, Taken m) \<Rightarrow> (as @ bs, Taken (max n m)) | (bs, p) \<Rightarrow> (as @ bs, p))
   | (as, p) \<Rightarrow> (as, p))"

definition main_round :: "build \<Rightarrow> byte list list \<Rightarrow> action list \<times> proceed" where
  "main_round b argv =
     (if arg argv = chars ''-i'' then ([DoSysInfo], MainReturns)
      else if arg argv = chars ''-z'' then ([DoPrintVersion], MainReturns)
      else let r = (if THREADS b \<and> arg argv = chars ''-tt'' then ([DoThreadTest, DoHalt], Taken 1) else ([], Taken 1));
               r1 = then_group r (USER_PROGRAM b) user_command argv;
               r2 = then_group r1 (FILESYS b) filesys_command argv
           in then_group r2 (NETWORK b) network_command argv)"

lemma group_count: "user_command argv = (as, Taken n) \<Longrightarrow> 0 < n" "filesys_command argv = (as, Taken n) \<Longrightarrow> 0 < n"
  "network_command argv = (as, Taken n) \<Longrightarrow> 0 < n"
  by (auto simp: user_command_def filesys_command_def network_command_def two_files_def console_test_def split: if_splits)

lemma then_group_count: "then_group r present g argv = (as, Taken n) \<Longrightarrow> (\<And>as m. r = (as, Taken m) \<Longrightarrow> 0 < m) \<Longrightarrow> 0 < n"
  by (auto simp: then_group_def split: if_splits prod.splits proceed.splits)

lemma main_round_count: "main_round b argv = (as, Taken n) \<Longrightarrow> 0 < n"
  unfolding main_round_def Let_def by (simp split: if_splits) (erule then_group_count; erule then_group_count; erule then_group_count; simp)+

text \<open>What the rounds of \<open>main\<close> ask for, and whether no assertion fails behind these commands.\<close>

function main_loop :: "build \<Rightarrow> byte list list \<Rightarrow> action list \<times> bool" where
  "main_loop b argv = (if argv = [] then ([], True)
     else case main_round b argv of
       (as, MainReturns) \<Rightarrow> (as, True)
     | (as, AssertStops) \<Rightarrow> (as, False)
     | (as, Taken n) \<Rightarrow> (case main_loop b (drop n argv) of (bs, ok) \<Rightarrow> (as @ bs, ok)))"
  by pat_completeness auto
termination
  by (relation "measure (\<lambda>(b, argv). length argv)") (auto dest: main_round_count [OF sym])

declare main_loop.simps [simp del]

section \<open>Running the commands\<close>

text \<open>
  What the commands of the file system print. The host's files, the number of reads allowed to \<open>Print\<close>, and
  the commands that are not about the file system are a parameter.
\<close>

datatype tool_output =
    CopyReport copy_outcome
  | FileShown "byte list option"
  | NamesShown "byte list list"
  | AllShown "nat list \<times> (u32 \<times> u32 list \<times> (u32 \<times> byte list) list) list \<times> nat list
      \<times> (byte list \<times> u32 \<times> (u32 \<times> u32 list \<times> (u32 \<times> byte list) list) list) list"
  | CheckReport bool
  | PerfReport bool

record tools =
  toolCreate :: "byte list \<Rightarrow> int"
  toolOpen :: "byte list \<Rightarrow> int"
  unixFile :: "byte list \<Rightarrow> byte list option"
  printReads :: nat
  otherAction :: "action \<Rightarrow> FileSystem \<Rightarrow> (tool_output list \<times> FileSystem) res"

definition run_action :: "tools \<Rightarrow> action \<Rightarrow> FileSystem \<Rightarrow> (tool_output list \<times> FileSystem) res" where
  "run_action t a fs = (case a of
     DoCopy src dst \<Rightarrow> rbind (Copy (toolCreate t) (toolOpen t) (unixFile t) fs src dst) (\<lambda>(r, fs1). Inr ([CopyReport r], fs1))
   | DoBigCopy src dst \<Rightarrow> rbind (BigCopy (toolCreate t) (toolOpen t) (unixFile t) fs src dst) (\<lambda>(r, fs1). Inr ([CopyReport r], fs1))
   | DoCopyExact src dst \<Rightarrow> rbind (CopyExactFileHeaderSize (toolCreate t) (toolOpen t) (unixFile t) fs src dst) (\<lambda>(r, fs1). Inr ([CopyReport r], fs1))
   | DoPrint nm \<Rightarrow> rbind (Print (printReads t) (toolOpen t) fs nm) (\<lambda>(r, fs1). Inr ([FileShown r], fs1))
   | DoRemove nm \<Rightarrow> rbind (FileSystem_Remove fs nm False) (\<lambda>(r, fs1). Inr ([], fs1))
   | DoList \<Rightarrow> rbind (FileSystem_List fs) (\<lambda>(r, fs1). Inr ([NamesShown r], fs1))
   | DoPrintAll \<Rightarrow> rbind (FileSystem_Print fs) (\<lambda>r. Inr ([AllShown r], fs))
   | DoCheck \<Rightarrow> rbind (FileSystem_Check fs) (\<lambda>(r, fs1). Inr ([CheckReport r], fs1))
   | DoPerformanceTest \<Rightarrow> rbind (PerformanceTest (toolCreate t) (toolOpen t) fs) (\<lambda>(r, fs1). Inr ([PerfReport r], fs1))
   | _ \<Rightarrow> otherAction t a fs)"

text \<open>The commands in turn; \<open>Halt\<close> ends the program.\<close>

fun run_actions :: "tools \<Rightarrow> bool \<Rightarrow> action list \<Rightarrow> FileSystem \<Rightarrow> (tool_output list \<times> FileSystem) res" where
  "run_actions t ok [] fs = rbind (rassert ok) (\<lambda>_. Inr ([], fs))"
| "run_actions t ok (a # as) fs = (if a = DoHalt then Inr ([], fs)
     else rbind (run_action t a fs) (\<lambda>(out, fs1). rbind (run_actions t ok as fs1) (\<lambda>(out2, fs2). Inr (out @ out2, fs2))))"

text \<open>
  A run of \<open>nachos\<close> with the file system, on the disk and memory \<open>w\<close>: the options, the file system with nothing
  open, and the commands.
\<close>

definition nachos_run :: "tools \<Rightarrow> build \<Rightarrow> world \<Rightarrow> byte list list \<Rightarrow> (tool_output list \<times> FileSystem) res" where
  "nachos_run t b w argv =
     rbind (system_options b argv no_options) (\<lambda>(o1, argv1).
     rbind (FileSystem_new (no_open_files w) 0 (formatDisk o1)) (\<lambda>fs.
       case main_loop b argv1 of (as, ok) \<Rightarrow> run_actions t ok as fs))"

section \<open>Arguments that are no options of the system\<close>

definition buffer_of :: "byte list \<Rightarrow> byte list" where "buffer_of x = x @ [0]"

lemma arg_buffer: "0 \<notin> set x \<Longrightarrow> arg (buffer_of x # r) = x"
  using takeWhile_zero [of x "[]"] by (simp add: arg_def buffer_of_def string_at_def)

definition plain_arg :: "byte list \<Rightarrow> bool" where
  "plain_arg x \<longleftrightarrow> 0 \<notin> set x \<and> x \<notin> {chars ''-d'', chars ''-do'', chars ''-rs'', chars ''-p''}"

lemma no_general_option:
  "general_option argv o0 = Inr (1, o0, argv) \<Longrightarrow> system_option filesys_build argv o0 =
    Inr (1, o0\<lparr>debugUserProg := debugUserProg o0 \<or> chars ''-s'' = arg argv, formatDisk := formatDisk o0 \<or> chars ''-f'' = arg argv\<rparr>, argv)"
  by (cases o0) (auto simp: system_option_def filesys_build_def Let_def)

lemma plain_option:
  assumes "plain_arg x"
  shows "system_option filesys_build (buffer_of x # r) o0 =
    Inr (1, o0\<lparr>debugUserProg := debugUserProg o0 \<or> chars ''-s'' = x, formatDisk := formatDisk o0 \<or> chars ''-f'' = x\<rparr>, buffer_of x # r)"
proof -
  have a: "arg (buffer_of x # r) = x" using assms by (simp add: arg_buffer plain_arg_def)
  have "general_option (buffer_of x # r) o0 = Inr (1, o0, buffer_of x # r)" using assms unfolding general_option_def a by (simp add: plain_arg_def)
  from no_general_option [OF this] show ?thesis unfolding a .
qed

text \<open>
  The scan of \<open>Initialize\<close> looks at every argument, also at those that belong to a command of \<open>main\<close>.
\<close>

lemma plain_options:
  "list_all plain_arg xs \<Longrightarrow> system_options filesys_build (map buffer_of xs) o0 =
     Inr (o0\<lparr>debugUserProg := debugUserProg o0 \<or> chars ''-s'' \<in> set xs, formatDisk := formatDisk o0 \<or> chars ''-f'' \<in> set xs\<rparr>, map buffer_of xs)"
proof (induction xs arbitrary: o0)
  case Nil
  then show ?case by (cases o0) (simp add: system_options.simps)
next
  case (Cons x xs)
  then show ?case by (subst system_options.simps) (auto simp: plain_option)
qed

text \<open>The rounds of \<open>main\<close> for the commands used below.\<close>

lemma main_loop_Nil: "main_loop b [] = ([], True)"
  by (subst main_loop.simps) simp

lemma main_loop_round:
  "main_round b (x # argv) = (as, Taken n) \<Longrightarrow> main_loop b (x # argv) = (case main_loop b (drop n (x # argv)) of (bs, ok) \<Rightarrow> (as @ bs, ok))"
  by (subst main_loop.simps) simp

lemma option_names:
  "arg (buffer_of (chars ''-f'') # r) = chars ''-f''" "arg (buffer_of (chars ''-cp'') # r) = chars ''-cp''"
  "arg (buffer_of (chars ''-pr'') # r) = chars ''-pr''" "arg (buffer_of (chars ''-rm'') # r) = chars ''-rm''"
  by (rule arg_buffer; simp add: chars_def)+

lemma filesys_round:
  assumes "arg argv \<notin> {chars ''-i'', chars ''-z'', chars ''-x'', chars ''-tc'', chars ''-tsc''}" "filesys_command argv = (as, Taken (Suc n))"
  shows "main_round filesys_build argv = (as, Taken (Suc n))"
  using assms by (simp add: main_round_def then_group_def user_command_def filesys_build_def Let_def)

lemma filesys_commands:
  "arg argv = chars ''-f'' \<Longrightarrow> filesys_command argv = ([], Taken 1)"
  "arg argv = chars ''-cp'' \<Longrightarrow> length argv > 2 \<Longrightarrow> filesys_command argv = ([DoCopy (arg (tl argv)) (arg (tl (tl argv)))], Taken 3)"
  "arg argv = chars ''-pr'' \<Longrightarrow> length argv > 1 \<Longrightarrow> filesys_command argv = ([DoPrint (arg (tl argv))], Taken 2)"
  "arg argv = chars ''-rm'' \<Longrightarrow> length argv > 1 \<Longrightarrow> filesys_command argv = ([DoRemove (arg (tl argv))], Taken 2)"
  by (simp_all add: filesys_command_def two_files_def chars_def)

lemma no_other_group:
  "{chars ''-f'', chars ''-cp'', chars ''-pr'', chars ''-rm''} \<inter> {chars ''-i'', chars ''-z'', chars ''-x'', chars ''-tc'', chars ''-tsc''} = {}"
  by (simp add: chars_def)

lemma rounds:
  "main_round filesys_build (buffer_of (chars ''-f'') # r) = ([], Taken (Suc 0))"
  "0 \<notin> set x \<Longrightarrow> 0 \<notin> set y \<Longrightarrow> main_round filesys_build (buffer_of (chars ''-cp'') # buffer_of x # buffer_of y # r) = ([DoCopy x y], Taken (Suc 2))"
  "0 \<notin> set x \<Longrightarrow> main_round filesys_build (buffer_of (chars ''-pr'') # buffer_of x # r) = ([DoPrint x], Taken (Suc 1))"
  "0 \<notin> set x \<Longrightarrow> main_round filesys_build (buffer_of (chars ''-rm'') # buffer_of x # r) = ([DoRemove x], Taken (Suc 1))"
  using no_other_group filesys_commands(1) [OF option_names(1)] filesys_commands(2) [OF option_names(2)]
    filesys_commands(3) [OF option_names(3)] filesys_commands(4) [OF option_names(4)]
  by (auto intro!: filesys_round simp: option_names arg_buffer numeral_2_eq_2 numeral_3_eq_3)

lemma loops:
  "main_loop filesys_build (buffer_of (chars ''-f'') # r) = main_loop filesys_build r"
  "0 \<notin> set x \<Longrightarrow> 0 \<notin> set y \<Longrightarrow> main_loop filesys_build (buffer_of (chars ''-cp'') # buffer_of x # buffer_of y # r)
     = (case main_loop filesys_build r of (bs, ok) \<Rightarrow> (DoCopy x y # bs, ok))"
  "0 \<notin> set x \<Longrightarrow> main_loop filesys_build (buffer_of (chars ''-pr'') # buffer_of x # r) = (case main_loop filesys_build r of (bs, ok) \<Rightarrow> (DoPrint x # bs, ok))"
  "0 \<notin> set x \<Longrightarrow> main_loop filesys_build (buffer_of (chars ''-rm'') # buffer_of x # r) = (case main_loop filesys_build r of (bs, ok) \<Rightarrow> (DoRemove x # bs, ok))"
  using main_loop_round [OF rounds(1)] main_loop_round [OF rounds(2)] main_loop_round [OF rounds(3)] main_loop_round [OF rounds(4)]
  by (simp_all add: eval_nat_numeral split: prod.split)

lemma option_plain: "plain_arg (chars ''-f'')" "plain_arg (chars ''-cp'')" "plain_arg (chars ''-pr'')" "plain_arg (chars ''-rm'')"
  by (simp_all add: plain_arg_def chars_def)

lemma not_dash_plain: "0 \<notin> set x \<Longrightarrow> x = [] \<or> hd x \<noteq> 45 \<Longrightarrow> plain_arg x"
  by (auto simp: plain_arg_def chars_def)

section \<open>A formatted disk\<close>

lemma format_mount:
  assumes "blank_header w" "sectors_ok (store w)"
  shows "\<exists>fs. FileSystem_new (no_open_files w) 0 True = Inr fs \<and> directorySize fs = 0 \<and> filesysCreateLock fs = Some None
    \<and> (\<forall>w2. store w2 = store (fsw fs) \<longrightarrow> (\<exists>fs2 d h. FileSystem_new (no_open_files w2) 0 False = Inr fs2 \<and> mounted fs2 d h
        \<and> dir_map d = Map.empty \<and> tableSize d = NUM_DIR_ENTRIES \<and> filesysCreateLock fs2 = Some None
        \<and> card (free_sectors (fsw fs2)) = NUM_SECTORS - 6))"
proof -
  let ?w = "no_open_files w"
  have n: "blank_header ?w" "sectors_ok (store ?w)" "openCount (openFilesTable ?w DIRECTORY_SECTOR) = 0" "junk ?w = junk w"
    using assms by (simp_all add: no_open_files_def blank_header_def raw_header_def)
  from format_disk_ok [OF n(1-3)] obtain df w' d h where
    f: "format_disk ?w = Inr (df, w')" "dir_map d = Map.empty" "tableSize d = NUM_DIR_ENTRIES"
      "rooted \<lparr>fsw = w', directoryFile = df, directorySize = NUM_DIR_ENTRIES, filesysCreateLock = None, spaceId = 0\<rparr> d h"
      "card (marked (disk_map w')) = 6" by blast
  have "bytes_u32 (fresh_bytes (junk w) 4) = 0"
    using assms(1) by (simp add: blank_header_def raw_header_def bytes_header_def slice_def fresh_bytes_def SECTOR_SIZE_def take_map)
  then obtain fs where fs: "FileSystem_new ?w 0 True = Inr fs" "directorySize fs = 0" "filesysCreateLock fs = Some None" "fsw fs = w'"
    using f(1) n(4) by (simp add: FileSystem_new_def)
  have "\<exists>fs2. FileSystem_new (no_open_files w2) 0 False = Inr fs2 \<and> mounted fs2 d h \<and> filesysCreateLock fs2 = Some None
      \<and> card (free_sectors (fsw fs2)) = NUM_SECTORS - 6" if "store w2 = store w'" for w2
  proof -
    from mount_ok [OF f(4), of "no_open_files w2" 0] that obtain fs2 where
      fs2: "FileSystem_new (no_open_files w2) 0 False = Inr fs2" "rooted fs2 d h" "disk_map (fsw fs2) = disk_map w'" "filesysCreateLock fs2 = Some None"
      by (auto simp: no_open_files_def)
    have m: "mounted fs2 d h" using fs2(2) by (simp add: rooted_def)
    then have "bitmap_ok (disk_map (fsw fs2))" "numBits (disk_map (fsw fs2)) = NUM_SECTORS"
      by (simp_all add: mounted_def stored_file_def map_file_ok_def)
    then have "marked (disk_map (fsw fs2)) \<subseteq> {..<NUM_SECTORS}" by (auto simp: marked_def)
    then have "card (free_sectors (fsw fs2)) = NUM_SECTORS - 6" using fs2(3) f(5) by (simp add: free_sectors_def card_Diff_subset finite_subset)
    then show ?thesis using fs2 m by blast
  qed
  then show ?thesis using fs f(2,3) by blast
qed

lemma load_dir_empty_size: "directorySize fs = 0 \<Longrightarrow> load_dir fs = Inl AssertFailed"
  by (simp add: load_dir_def Directory_new_def rassert_def)

section \<open>Properties\<close>

text \<open>
  C12. A disk from one run to the next. \<open>nachos -f\<close> formats any disk of full sectors, when the memory of the two new
  headers happens to hold zero in the counters that the constructor does not set (\<open>blank_header\<close>). Started again on this
  disk, with any other content of memory, \<open>nachos -cp src dst -pr dst\<close> copies a file of the host of at most 3712
  bytes, which fit in one header, into the file system, in pieces of ten bytes, and prints exactly its bytes.
  Neither name begins with a dash, and \<open>dst\<close> is not absolute. The loop that prints ends; one read more than
  there are pieces is enough.
\<close>

theorem copy_and_print:
  assumes "blank_header w" "sectors_ok (store w)" "is_cstring src" "is_cstring dst" "src = [] \<or> hd src \<noteq> 45"
    "dst = [] \<or> hd dst \<noteq> 45 \<and> hd dst \<noteq> slash" "unixFile t src = Some input" "length input \<le> NUM_DIRECT * SECTOR_SIZE"
    "length input + 9 < 10 * printReads t"
  shows "\<exists>fs. nachos_run t filesys_build w (map buffer_of [chars ''-f'']) = Inr ([], fs)
    \<and> (\<forall>w2. store w2 = store (fsw fs) \<longrightarrow> (\<exists>fs2. nachos_run t filesys_build w2 (map buffer_of [chars ''-cp'', src, dst, chars ''-pr'', dst])
         = Inr ([CopyReport Copied, FileShown (Some input)], fs2)))"
proof -
  have z: "0 \<notin> set src" "0 \<notin> set dst" using assms(3,4) by (simp_all add: is_cstring_def)
  have p: "list_all plain_arg [chars ''-cp'', src, dst, chars ''-pr'', dst]" "list_all plain_arg [chars ''-f'']"
    using option_plain not_dash_plain [OF z(1) assms(5)] not_dash_plain [OF z(2)] assms(6) by auto
  have nf: "chars ''-f'' \<notin> set [chars ''-cp'', src, dst, chars ''-pr'', dst]" using assms(5,6) by (auto simp: chars_def)
  from format_mount [OF assms(1,2)] obtain fs where
    fs: "FileSystem_new (no_open_files w) 0 True = Inr fs"
      "\<And>w2. store w2 = store (fsw fs) \<Longrightarrow> \<exists>fs2 d h. FileSystem_new (no_open_files w2) 0 False = Inr fs2 \<and> mounted fs2 d h
        \<and> dir_map d = Map.empty \<and> tableSize d = NUM_DIR_ENTRIES \<and> filesysCreateLock fs2 = Some None
        \<and> card (free_sectors (fsw fs2)) = NUM_SECTORS - 6" by blast
  have "nachos_run t filesys_build w (map buffer_of [chars ''-f'']) = Inr ([], fs)"
    unfolding nachos_run_def plain_options [OF p(2)] using fs(1) by (simp add: loops main_loop_Nil no_options_def rassert_def)
  moreover have "\<exists>fs2. nachos_run t filesys_build w2 (map buffer_of [chars ''-cp'', src, dst, chars ''-pr'', dst])
      = Inr ([CopyReport Copied, FileShown (Some input)], fs2)" if w2: "store w2 = store (fsw fs)" for w2
  proof -
    from fs(2) [OF w2] obtain fs2 d h where
      m: "FileSystem_new (no_open_files w2) 0 False = Inr fs2" "mounted fs2 d h" "dir_map d = Map.empty" "tableSize d = 10"
        "filesysCreateLock fs2 = Some None" "card (free_sectors (fsw fs2)) = 1018" by (auto simp: NUM_DIR_ENTRIES_def NUM_SECTORS_def)
    have "unat (numBytes h) = 320" "header_ok h" using mounted_size [OF m(2)] m(2,4) by (simp_all add: mounted_def stored_file_def file_ok_def)
    then have ns: "needed_sectors h (32 * (tableSize d + 1)) = 0" by (simp add: needed_sectors_def header_ok_def m(4))
    have "(length input + 127) div 128 \<le> 29" using assms(8) by (simp add: NUM_DIRECT_def SECTOR_SIZE_def)
    with copy_then_print [where unixFile = "unixFile t" and hc = "toolCreate t" and ho = "toolOpen t", OF m(2) assms(4) _ _ m(5) _ assms(8) _ _ assms(7,9)] assms(6) m(3,4,6) ns
    obtain fs3 fs4 where "Copy (toolCreate t) (toolOpen t) (unixFile t) fs2 src dst = Inr (Copied, fs3)"
      "Print (printReads t) (toolOpen t) fs3 dst = Inr (Some input, fs4)" by auto
    then show ?thesis unfolding nachos_run_def plain_options [OF p(1)] using nf m(1) z
      by (simp add: loops main_loop_Nil no_options_def run_action_def rassert_def)
  qed
  ultimately show ?thesis by blast
qed

definition sample_tools :: tools where
  "sample_tools = \<lparr>toolCreate = (\<lambda>_. 0), toolOpen = (\<lambda>_. 0), unixFile = (\<lambda>_. Some [1, 2, 3, 4, 5, 6, 7, 8, 9, 10, 11, 12]), printReads = 3,
     otherAction = (\<lambda>_ fs. Inr ([], fs))\<rparr>"

theorem copy_and_print_witness:
  "\<exists>fs fs2. nachos_run sample_tools filesys_build blank_world (map buffer_of [chars ''-f'']) = Inr ([], fs)
    \<and> nachos_run sample_tools filesys_build (sample_world\<lparr>store := store (fsw fs)\<rparr>) (map buffer_of [chars ''-cp'', [117], [97, 98], chars ''-pr'', [97, 98]])
       = Inr ([CopyReport Copied, FileShown (Some [1, 2, 3, 4, 5, 6, 7, 8, 9, 10, 11, 12])], fs2)"
proof -
  let ?in = "[1, 2, 3, 4, 5, 6, 7, 8, 9, 10, 11, 12] :: byte list"
  have "is_cstring [117]" "is_cstring [97, 98]" by (simp_all add: is_cstring_def)
  moreover have "unixFile sample_tools [117] = Some ?in" "length ?in + 9 < 10 * printReads sample_tools" by (simp_all add: sample_tools_def)
  moreover have "length ?in \<le> NUM_DIRECT * SECTOR_SIZE" by (simp add: NUM_DIRECT_def SECTOR_SIZE_def)
  ultimately obtain fs where fs: "nachos_run sample_tools filesys_build blank_world (map buffer_of [chars ''-f'']) = Inr ([], fs)"
    "\<And>w2. store w2 = store (fsw fs) \<Longrightarrow> \<exists>fs2. nachos_run sample_tools filesys_build w2 (map buffer_of [chars ''-cp'', [117], [97, 98], chars ''-pr'', [97, 98]])
         = Inr ([CopyReport Copied, FileShown (Some ?in)], fs2)"
    using copy_and_print [OF blank_world_facts(1,2), of "[117]" "[97, 98]" sample_tools ?in] by (auto simp: slash_def)
  show ?thesis using fs(1) fs(2) [of "sample_world\<lparr>store := store (fsw fs)\<rparr>"] by auto
qed

text \<open>
  C20. Formatting does not set the size of the current directory, which is the number that happens to be in
  the memory of the new object. When this memory is blank, \<open>nachos -f -cp src dst\<close> on any disk of full sectors, with an
  existing file \<open>src\<close> of the host, names that do not begin with a dash and a \<open>dst\<close> that is not absolute, formats the disk and
  then stops at the assertion of the constructor of \<open>Directory\<close>.
\<close>

theorem format_and_copy_stops:
  assumes "blank_header w" "sectors_ok (store w)" "is_cstring src" "is_cstring dst" "src = [] \<or> hd src \<noteq> 45"
    "dst = [] \<or> hd dst \<noteq> 45 \<and> hd dst \<noteq> slash" "unixFile t src \<noteq> None"
  shows "nachos_run t filesys_build w (map buffer_of [chars ''-f'', chars ''-cp'', src, dst]) = Inl AssertFailed"
proof -
  have z: "0 \<notin> set src" "0 \<notin> set dst" using assms(3,4) by (simp_all add: is_cstring_def)
  have p: "list_all plain_arg [chars ''-f'', chars ''-cp'', src, dst]"
    using option_plain not_dash_plain [OF z(1) assms(5)] not_dash_plain [OF z(2)] assms(6) by auto
  from format_mount [OF assms(1,2)] obtain fs where
    fs: "FileSystem_new (no_open_files w) 0 True = Inr fs" "directorySize fs = 0" "filesysCreateLock fs = Some None" by blast
  obtain input where input: "unixFile t src = Some input" using assms(7) by auto
  have "goto_parent fs1 dst = Inr (Some (dst, None), fs1)" for fs1 using assms(6) by (auto simp: goto_parent_def)
  then have "FileSystem_Create hc fs dst False = Inl AssertFailed" for hc
    using fs(2,3) by (simp add: FileSystem_Create_def createLock_Acquire_def lock_acquire_def create_here_def load_dir_empty_size)
  then have "Copy hc ho (unixFile t) fs src dst = Inl AssertFailed" for hc ho using input by (simp add: Copy_def with_copy_def)
  then show ?thesis unfolding nachos_run_def plain_options [OF p] using fs(1) z
    by (simp add: loops main_loop_Nil no_options_def run_action_def)
qed

theorem format_and_copy_stops_witness:
  "nachos_run sample_tools filesys_build blank_world (map buffer_of [chars ''-f'', chars ''-cp'', [117], [97, 98]]) = Inl AssertFailed"
  using format_and_copy_stops [OF blank_world_facts(1,2), of "[117]" "[97, 98]" sample_tools]
  by (simp add: is_cstring_def slash_def sample_tools_def)

text \<open>
  \<open>Initialize\<close> does not know the commands of \<open>main\<close> and takes their operands for options: \<open>nachos -rm x\<close>
  removes the file \<open>x\<close> from the disk, but with the name \<open>-f\<close> it formats the disk first.
\<close>

theorem operand_taken_for_option:
  assumes "plain_arg x"
  shows "nachos_run t filesys_build w (map buffer_of [chars ''-rm'', x]) =
    rbind (FileSystem_new (no_open_files w) 0 (x = chars ''-f'')) (\<lambda>fs. rbind (FileSystem_Remove fs x False) (\<lambda>(r, fs1). Inr ([], fs1)))"
proof -
  have "0 \<notin> set x" using assms by (simp add: plain_arg_def)
  then have "main_loop filesys_build (map buffer_of [chars ''-rm'', x]) = ([DoRemove x], True)" by (simp add: loops main_loop_Nil)
  moreover have "run_actions t True [DoRemove x] fs = rbind (FileSystem_Remove fs x False) (\<lambda>(r, fs1). Inr ([], fs1))" for fs
    by (cases "FileSystem_Remove fs x False") (auto simp: run_action_def rassert_def)
  moreover have "list_all plain_arg [chars ''-rm'', x]" using assms option_plain by simp
  note plain_options [OF this, of no_options]
  moreover have "(formatDisk no_options \<or> chars ''-f'' \<in> set [chars ''-rm'', x]) = (x = chars ''-f'')" by (auto simp: chars_def no_options_def)
  ultimately show ?thesis by (simp only: nachos_run_def rbind.simps prod.case) simp
qed

theorem operand_taken_for_option_witness:
  "nachos_run sample_tools filesys_build blank_world (map buffer_of [chars ''-rm'', chars ''-f'']) =
    rbind (FileSystem_new (no_open_files blank_world) 0 True) (\<lambda>fs. rbind (FileSystem_Remove fs (chars ''-f'') False) (\<lambda>(r, fs1). Inr ([], fs1)))"
  using operand_taken_for_option [OF option_plain(1), of sample_tools blank_world] by simp

end
