(* ===== verification/Userland.thy ===== *)
theory Userland
  imports Printed_Numbers Stdio "HOL-Library.Multiset"
begin

text \<open>
  User programs of \<open>userland/\<close>, as functions on the arrays they work on: the library \<open>lib.h\<close>, the programs
  \<open>sort.c\<close> and \<open>matmult.c\<close>, and the shell. An access outside an array is the error \<open>OutOfBounds\<close>; a read
  of the console with nothing typed is \<open>WouldBlock\<close>.
\<close>

section \<open>lib.h\<close>

text \<open>A \<open>char\<close> array is the list of its bytes, and a pointer into it the rest of it from there on.\<close>

function strlen_loop :: "byte list \<Rightarrow> nat \<Rightarrow> nat res" where
  "strlen_loop s iter = (if iter < length s then (if s ! iter \<noteq> 0 then strlen_loop s (iter + 1) else Inr iter) else Inl OutOfBounds)"
  by pat_completeness auto
termination by (relation "measure (\<lambda>(s, iter). length s - iter)") auto

definition lib_strlen :: "byte list \<Rightarrow> nat res" where "lib_strlen s = strlen_loop s 0"

function strcmpp_loop :: "byte list \<Rightarrow> byte list \<Rightarrow> nat \<Rightarrow> bool res" where
  "strcmpp_loop s1 s2 iter =
     (if iter < length s1 \<and> iter < length s2
      then (if s1 ! iter \<noteq> 0 \<and> s2 ! iter \<noteq> 0 \<and> s1 ! iter = s2 ! iter then strcmpp_loop s1 s2 (iter + 1)
            else Inr (s1 ! iter = 0 \<and> s2 ! iter = 0))
      else Inl OutOfBounds)"
  by pat_completeness auto
termination by (relation "measure (\<lambda>(s1, s2, iter). length s1 - iter)") auto

definition strcmpp :: "byte list \<Rightarrow> byte list \<Rightarrow> bool res" where "strcmpp s1 s2 = strcmpp_loop s1 s2 0"

declare strlen_loop.simps [simp del] strcmpp_loop.simps [simp del]

text \<open>The bytes written to the console.\<close>

definition putss :: "byte list \<Rightarrow> byte list res" where
  "putss s = rbind (lib_strlen s) (\<lambda>n. Inr (take n s @ [10]))"

text \<open>The digits go to an array of nine characters, the last one first, and are then copied to \<open>c\<close>.\<close>

definition set_char :: "byte list \<Rightarrow> nat \<Rightarrow> byte \<Rightarrow> byte list res" where
  "set_char c i b = rbind (rcheck OutOfBounds (i < length c)) (\<lambda>_. Inr (c[i := b]))"

function itoa_digits :: "int \<Rightarrow> byte list \<Rightarrow> nat \<Rightarrow> (byte list \<times> nat) res" where
  "itoa_digits n dumb i =
     (if n > 0 then rbind (set_char dumb i (of_int (n mod 10) + 48)) (\<lambda>dumb1. itoa_digits (n div 10) dumb1 (i + 1))
      else Inr (dumb, i))"
  by pat_completeness auto
termination by (relation "measure (\<lambda>(n, dumb, i). nat n)") auto

declare itoa_digits.simps [simp del]

fun itoa_copy :: "byte list \<Rightarrow> nat \<Rightarrow> nat \<Rightarrow> byte list \<Rightarrow> byte list res" where
  "itoa_copy dumb 0 j c = Inr c"
| "itoa_copy dumb (Suc counter) j c = rbind (set_char c j (dumb ! counter)) (\<lambda>c1. itoa_copy dumb counter (j + 1) c1)"

definition itoa :: "byte list \<Rightarrow> int \<Rightarrow> byte list \<Rightarrow> byte list res" where
  "itoa dumb0 n c =
     (if n = 0 then rbind (set_char c 0 48) (\<lambda>c1. set_char c1 1 0)
      else rbind (itoa_digits n dumb0 0) (\<lambda>(dumb, i).
           rbind (itoa_copy dumb i 0 c) (\<lambda>c1. set_char c1 i 0)))"

subsection \<open>What the library computes\<close>

lemma strlen_loop_string: "0 \<in> set (drop i s) \<Longrightarrow> strlen_loop s i = Inr (i + length (string_at s i))"
proof (induction s i rule: strlen_loop.induct)
  case (1 s i)
  then have i: "i < length s" by (metis drop_all empty_iff list.set(1) not_le)
  then have d: "drop i s = s ! i # drop (i + 1) s" by (simp add: Cons_nth_drop_Suc)
  then show ?case using 1 i by (cases "s ! i = 0") (simp_all add: strlen_loop.simps [of s i] string_at_def)
qed

lemma strlen_string: "0 \<in> set s \<Longrightarrow> lib_strlen s = Inr (length (string_at s 0))"
  using strlen_loop_string [of 0 s] by (simp add: lib_strlen_def)

lemma strcmpp_loop_strings:
  "0 \<in> set (drop i s1) \<Longrightarrow> 0 \<in> set (drop i s2) \<Longrightarrow> strcmpp_loop s1 s2 i = Inr (string_at s1 i = string_at s2 i)"
proof (induction s1 s2 i rule: strcmpp_loop.induct)
  case (1 s1 s2 i)
  then have i: "i < length s1" "i < length s2" by (metis drop_all empty_iff list.set(1) not_le)+
  then have d: "drop i s1 = s1 ! i # drop (i + 1) s1" "drop i s2 = s2 ! i # drop (i + 1) s2" by (simp_all add: Cons_nth_drop_Suc)
  show ?case
  proof (cases "s1 ! i \<noteq> 0 \<and> s2 ! i \<noteq> 0 \<and> s1 ! i = s2 ! i")
    case True
    then show ?thesis using 1 i d by (simp add: strcmpp_loop.simps [of s1 s2 i] string_at_def)
  next
    case False
    then show ?thesis using i d by (auto simp: strcmpp_loop.simps [of s1 s2 i] string_at_def)
  qed
qed

lemma strcmpp_strings: "0 \<in> set s1 \<Longrightarrow> 0 \<in> set s2 \<Longrightarrow> strcmpp s1 s2 = Inr (string_at s1 0 = string_at s2 0)"
  using strcmpp_loop_strings [of 0 s1 s2] by (simp add: strcmpp_def)

lemma putss_string: "0 \<in> set s \<Longrightarrow> putss s = Inr (string_at s 0 @ [10])"
  by (simp add: putss_def strlen_string string_at_def takeWhile_eq_take [symmetric])

lemma overlay_update: "i < length c \<Longrightarrow> overlay (c[i := x]) (Suc i) xs = overlay c i (x # xs)"
  by (simp add: overlay_def take_Suc_conv_app_nth)

lemma overlay_one: "i < length c \<Longrightarrow> c[i := x] = overlay c i [x]"
  by (simp add: overlay_def upd_conv_take_nth_drop)

lemma overlay_snoc: "length xs < length c \<Longrightarrow> (overlay c 0 xs)[length xs := x] = overlay c 0 (xs @ [x])"
  by (simp add: overlay_def list_update_append upd_conv_take_nth_drop Cons_nth_drop_Suc [symmetric] list_update_code(2))

lemma itoa_digits_decimal:
  "0 < n \<Longrightarrow> itoa_digits (int n) dumb i = (if i + length (decimal n) \<le> length dumb
     then Inr (overlay dumb i (rev (decimal n)), i + length (decimal n)) else Inl OutOfBounds)"
proof (induction n arbitrary: dumb i rule: less_induct)
  case (less n)
  let ?x = "of_nat (n mod 10) + 48 :: byte"
  have m: "of_int (int n mod 10) + 48 = ?x" "int n div 10 = int (n div 10)"
    by (metis of_int_of_nat_eq of_nat_numeral zmod_int) (simp add: zdiv_int)
  have d: "decimal n = (if n < 10 then [] else decimal (n div 10)) @ [?x]" using decimal_step [of n] by (simp add: add.commute)
  have step: "itoa_digits (int n) dumb i = (if i < length dumb then itoa_digits (int (n div 10)) (dumb[i := ?x]) (i + 1) else Inl OutOfBounds)"
    using less.prems by (subst itoa_digits.simps) (simp add: set_char_def m del: of_nat_div)
  show ?case
  proof (cases "n < 10")
    case True
    then have "itoa_digits (int (n div 10)) c k = Inr (c, k)" for c k by (subst itoa_digits.simps) simp
    then show ?thesis using True by (simp add: step d overlay_one)
  next
    case False
    have "length (decimal (n div 10)) \<ge> 1" using decimal_step [of "n div 10"] by (metis One_nat_def Suc_leI length_append_singleton zero_less_Suc)
    then show ?thesis using False less.IH [of "n div 10" "dumb[i := ?x]" "i + 1"] step d by (auto simp: overlay_update)
  qed
qed

lemma itoa_copy_ok: "k \<le> length dumb \<Longrightarrow> itoa_copy dumb k j c = (if j + k \<le> length c \<or> k = 0 then Inr (overlay c j (rev (take k dumb))) else Inl OutOfBounds)"
proof (induction k arbitrary: j c)
  case (Suc k)
  then show ?case by (cases "j < length c") (auto simp: set_char_def overlay_update take_Suc_conv_app_nth)
qed simp

lemma itoa_decimal_aux:
  assumes "length dumb0 = 9" "- (2 ^ 31) \<le> n" "n < 2 ^ 31" "n < 10 ^ 9 \<Longrightarrow> length (decimal (nat n)) < length c" "0 < length c"
  shows "itoa dumb0 n c =
    (if n < 0 then Inr (c[0 := 0]) else if n < 10 ^ 9 then Inr (overlay c 0 (decimal (nat n) @ [0])) else Inl OutOfBounds)"
proof -
  consider "n < 0" | "n = 0" | "0 < n" by linarith
  then show ?thesis
  proof cases
    case 1
    then show ?thesis using assms(5) by (simp add: itoa_def itoa_digits.simps set_char_def)
  next
    case 2
    have "decimal 0 = [48]" "c \<noteq> []" using assms(5) by (simp_all add: decimal.simps)
    then show ?thesis using 2 assms(4) overlay_snoc [of "[48]" c 0]
      by (simp add: itoa_def set_char_def overlay_one [of 0 c 48])
  next
    case 3
    let ?m = "nat n"
    have m: "0 < ?m" "int ?m = n" using 3 by simp_all
    have l9: "length (decimal ?m) \<le> 9 \<longleftrightarrow> n < 10 ^ 9" using length_decimal [of ?m 9] m(2) by (simp add: nat_less_iff)
    have dg: "itoa_digits n dumb0 0 = (if n < 10 ^ 9 then Inr (overlay dumb0 0 (rev (decimal ?m)), length (decimal ?m)) else Inl OutOfBounds)"
      using itoa_digits_decimal [OF m(1), of dumb0 0] m(2) assms(1) l9 by simp
    show ?thesis
    proof (cases "n < 10 ^ 9")
      case True
      have len: "length (decimal ?m) < length c" using assms(4) True by simp
      have "rev (take (length (decimal ?m)) (overlay dumb0 0 (rev (decimal ?m)))) = decimal ?m" by (simp add: overlay_def)
      then have "itoa_copy (overlay dumb0 0 (rev (decimal ?m))) (length (decimal ?m)) 0 c = Inr (overlay c 0 (decimal ?m))"
        using itoa_copy_ok [of "length (decimal ?m)" "overlay dumb0 0 (rev (decimal ?m))" 0 c] len by (simp add: overlay_def)
      then show ?thesis using 3 True dg len overlay_snoc [OF len, of 0] by (simp add: itoa_def set_char_def)
    qed (use 3 dg in \<open>simp add: itoa_def\<close>)
  qed
qed

section \<open>sort.c\<close>

text \<open>
  The array and the two loops of the bubble sort; \<open>dim\<close> is \<open>DIM\<close>, 1024 in the program. The indices stay
  inside the array.
\<close>

function bubble_inner :: "nat \<Rightarrow> nat \<Rightarrow> int list \<Rightarrow> int list" where
  "bubble_inner limit j A = (if j < limit
     then bubble_inner limit (j + 1) (if A ! j > A ! (j + 1) then A[j := A ! (j + 1), j + 1 := A ! j] else A)
     else A)"
  by pat_completeness auto
termination by (relation "measure (\<lambda>(limit, j, A). limit - j)") auto

function bubble_outer :: "nat \<Rightarrow> nat \<Rightarrow> int list \<Rightarrow> int list" where
  "bubble_outer dim i A = (if i < dim - 1 then bubble_outer dim (i + 1) (bubble_inner (dim - 1 - i) 0 A) else A)"
  by pat_completeness auto
termination by (relation "measure (\<lambda>(dim, i, A). dim - i)") auto

declare bubble_inner.simps [simp del] bubble_outer.simps [simp del]

definition DIM :: nat where "DIM = 1024"

definition sort_init :: "nat \<Rightarrow> int list" where
  "sort_init dim = map (\<lambda>i. int dim - int i) [0..<dim]"

text \<open>
  \<open>main\<close>: the text on the console and the exit status; \<open>c0\<close> and \<open>dumb0\<close> are the uninitialised arrays.
\<close>

definition sort_main :: "nat \<Rightarrow> byte list \<Rightarrow> byte list \<Rightarrow> (byte list \<times> int) res" where
  "sort_main dim c0 dumb0 = (let A = bubble_outer dim 0 (sort_init dim) in
     rbind (putss (chars ''The first element of the sorted array is: '' @ [0])) (\<lambda>out1.
     rbind (itoa dumb0 (A ! 0) c0) (\<lambda>c.
     rbind (putss c) (\<lambda>out2. Inr (out1 @ out2, A ! 0)))))"

text \<open>The inner loop keeps the elements and moves the largest of the first \<open>limit + 1\<close> to the end of them.\<close>

lemma swap_mset: "j + 1 < length A \<Longrightarrow> mset (A[j := A ! (j + 1), j + 1 := A ! j]) = mset A"
  using mset_swap [of "j + 1" A j] by simp

lemma bubble_inner_ok:
  assumes "limit < length A" "\<And>k. k \<le> j \<Longrightarrow> A ! k \<le> A ! j" "j \<le> limit"
  defines "B \<equiv> bubble_inner limit j A"
  shows "mset B = mset A \<and> length B = length A \<and> (\<forall>k \<le> limit. B ! k \<le> B ! limit) \<and> (\<forall>k > limit. B ! k = A ! k)
    \<and> (\<forall>k \<le> limit. \<exists>m \<le> limit. B ! k = A ! m)"
  using assms(1-3) unfolding B_def
proof (induction limit j A rule: bubble_inner.induct)
  case (1 limit j A)
  show ?case
  proof (cases "j < limit")
    case False
    then have "j = limit" using 1(4) by simp
    moreover from this have "bubble_inner limit j A = A" by (subst bubble_inner.simps) simp
    ultimately show ?thesis using 1(3) by auto
  next
    case True
    let ?A = "if A ! j > A ! (j + 1) then A[j := A ! (j + 1), j + 1 := A ! j] else A"
    have len: "j + 1 < length A" "j < length A" using True 1(2) by simp_all
    have A: "mset ?A = mset A" "length ?A = length A" "\<forall>k > limit. ?A ! k = A ! k"
      using len True swap_mset [OF len(1)] by (auto simp: nth_list_update)
    have perm: "\<exists>m \<le> limit. ?A ! k = A ! m" if "k \<le> limit" for k
    proof (cases "A ! j > A ! (j + 1) \<and> (k = j \<or> k = j + 1)")
      case True
      then show ?thesis using len \<open>j < limit\<close> by (intro exI [of _ "if k = j then j + 1 else j"]) (auto simp: nth_list_update)
    next
      case False
      then show ?thesis using that by (intro exI [of _ k]) (auto simp: nth_list_update)
    qed
    have "?A ! k \<le> ?A ! (j + 1)" if "k \<le> j + 1" for k
      using that 1(3) [of k] len by (cases "k = j + 1"; cases "k = j") (auto simp: nth_list_update)
    with 1(1) [OF True] A(2) 1(2) True have B: "mset (bubble_inner limit (j + 1) ?A) = mset ?A" "length (bubble_inner limit (j + 1) ?A) = length ?A"
      "\<forall>k \<le> limit. bubble_inner limit (j + 1) ?A ! k \<le> bubble_inner limit (j + 1) ?A ! limit"
      "\<forall>k > limit. bubble_inner limit (j + 1) ?A ! k = ?A ! k" "\<forall>k \<le> limit. \<exists>m \<le> limit. bubble_inner limit (j + 1) ?A ! k = ?A ! m" by auto
    have "bubble_inner limit j A = bubble_inner limit (j + 1) ?A" using True by (subst bubble_inner.simps) simp
    moreover have "\<exists>m \<le> limit. bubble_inner limit (j + 1) ?A ! k = A ! m" if "k \<le> limit" for k
      using B(5) perm that by metis
    ultimately show ?thesis using A B(1-4) by simp
  qed
qed

text \<open>After \<open>i\<close> rounds the last \<open>i\<close> elements are in place.\<close>

definition tail_sorted :: "nat \<Rightarrow> int list \<Rightarrow> bool" where
  "tail_sorted i A \<longleftrightarrow> (\<forall>a b. a < b \<and> b < length A \<and> length A - i \<le> b \<longrightarrow> A ! a \<le> A ! b)"

lemma bubble_outer_ok:
  "length A = dim \<Longrightarrow> i \<le> dim \<Longrightarrow> tail_sorted i A \<Longrightarrow> mset (bubble_outer dim i A) = mset A \<and> sorted (bubble_outer dim i A)"
proof (induction dim i A rule: bubble_outer.induct)
  case (1 dim i A)
  show ?case
  proof (cases "i < dim - 1")
    case False
    then have "sorted_wrt (\<le>) A" using 1(2-4) unfolding sorted_wrt_iff_nth_less tail_sorted_def by auto
    then show ?thesis using False by (subst (1 2) bubble_outer.simps) simp
  next
    case True
    let ?B = "bubble_inner (dim - 1 - i) 0 A" and ?l = "dim - 1 - i"
    have "?l < length A" using True 1(2) by simp
    from bubble_inner_ok [OF this, of 0] have B: "mset ?B = mset A" "length ?B = dim" "\<forall>k \<le> ?l. ?B ! k \<le> ?B ! ?l"
      "\<forall>k > ?l. ?B ! k = A ! k" "\<forall>k \<le> ?l. \<exists>m \<le> ?l. ?B ! k = A ! m" using 1(2) by auto
    have "?B ! a \<le> ?B ! b" if "a < b" "b < dim" "?l \<le> b" for a b
    proof (cases "b = ?l")
      case True
      then show ?thesis using B(3) that by simp
    next
      case False
      then have b: "?l < b" using that by simp
      have "\<exists>m < b. ?B ! a = A ! m"
      proof (cases "a \<le> ?l")
        case True
        then obtain m where "m \<le> ?l" "?B ! a = A ! m" using B(5) by blast
        then show ?thesis using b by (intro exI [of _ m]) simp
      next
        case False
        then show ?thesis using B(4) that(1) by (intro exI [of _ a]) simp
      qed
      then obtain m where "m < b" "?B ! a = A ! m" by blast
      then show ?thesis using 1(2,4) that b B(4) True by (auto simp: tail_sorted_def)
    qed
    then have "tail_sorted (i + 1) ?B" using B(2) by (auto simp: tail_sorted_def)
    with 1(1) [OF True B(2)] True have "mset (bubble_outer dim (i + 1) ?B) = mset ?B \<and> sorted (bubble_outer dim (i + 1) ?B)" by simp
    then show ?thesis using True B(1) by (subst (1 2) bubble_outer.simps) simp
  qed
qed

lemma bubble_sort: "length A = dim \<Longrightarrow> bubble_outer dim 0 A = sort A"
proof -
  assume "length A = dim"
  then have "mset (bubble_outer dim 0 A) = mset A \<and> sorted (bubble_outer dim 0 A)" by (intro bubble_outer_ok) (auto simp: tail_sorted_def)
  then show ?thesis using properties_for_sort by metis
qed

lemma sort_init_sorted: "sort (sort_init dim) = map int [1..<dim + 1]"
proof (rule properties_for_sort)
  have "sort_init dim = rev (map int [1..<dim + 1])"
    by (rule nth_equalityI) (auto simp: sort_init_def rev_nth of_nat_diff simp del: upt_Suc)
  then show "mset (map int [1..<dim + 1]) = mset (sort_init dim)" by simp
  show "sorted (map int [1..<dim + 1])" by (simp add: sorted_map del: upt_Suc)
qed

section \<open>matmult.c\<close>

text \<open>The three nested loops, over matrices as lists of rows.\<close>

definition add_product :: "int list list \<Rightarrow> int list list \<Rightarrow> nat \<Rightarrow> nat \<Rightarrow> nat \<Rightarrow> int list list \<Rightarrow> int list list" where
  "add_product A B i j k C = C[i := (C ! i)[j := C ! i ! j + A ! i ! k * B ! k ! j]]"

definition mat_multiply :: "nat \<Rightarrow> int list list \<Rightarrow> int list list \<Rightarrow> int list list \<Rightarrow> int list list" where
  "mat_multiply dim A B C = fold (\<lambda>i C. fold (\<lambda>j C. fold (\<lambda>k C. add_product A B i j k C) [0..<dim] C) [0..<dim] C) [0..<dim] C"

definition matmult_main :: "nat \<Rightarrow> int" where
  "matmult_main dim = (let A = map (\<lambda>i. map (\<lambda>j. int i) [0..<dim]) [0..<dim]; B = map (\<lambda>i. map (\<lambda>j. int j) [0..<dim]) [0..<dim];
     C = map (\<lambda>i. map (\<lambda>j. 0) [0..<dim]) [0..<dim]
     in mat_multiply dim A B C ! (dim - 1) ! (dim - 1))"

definition is_matrix :: "nat \<Rightarrow> int list list \<Rightarrow> bool" where
  "is_matrix dim C \<longleftrightarrow> length C = dim \<and> (\<forall>r \<in> set C. length r = dim)"

definition mat_put :: "nat \<Rightarrow> nat \<Rightarrow> int \<Rightarrow> int list list \<Rightarrow> int list list" where
  "mat_put i j x C = C[i := (C ! i)[j := C ! i ! j + x]]"

lemma mat_put_matrix: "is_matrix dim C \<Longrightarrow> i < dim \<Longrightarrow> is_matrix dim (mat_put i j x C)"
  by (auto simp: is_matrix_def mat_put_def dest!: subsetD [OF set_update_subset_insert])

lemma mat_put_nth: "is_matrix dim C \<Longrightarrow> i < dim \<Longrightarrow> j < dim \<Longrightarrow> i' < dim \<Longrightarrow> j' < dim \<Longrightarrow>
    mat_put i j x C ! i' ! j' = C ! i' ! j' + (if i' = i \<and> j' = j then x else 0)"
  by (auto simp: is_matrix_def mat_put_def nth_list_update)

lemma add_products:
  assumes "is_matrix dim C" "i < dim" "j < dim"
  shows "fold (\<lambda>k C. add_product A B i j k C) [0..<n] C = mat_put i j (\<Sum>k < n. A ! i ! k * B ! k ! j) C"
  using assms
proof (induction n)
  case 0
  then show ?case by (simp add: mat_put_def)
next
  case (Suc n)
  then show ?case by (simp add: add_product_def mat_put_def is_matrix_def add.assoc)
qed

lemma fold_row:
  fixes f :: "nat \<Rightarrow> int"
  assumes "is_matrix dim C" "i < dim" "m \<le> dim"
  defines "D \<equiv> fold (\<lambda>j C. mat_put i j (f j) C) [0..<m] C"
  shows "is_matrix dim D \<and> (\<forall>i' < dim. \<forall>j' < dim. D ! i' ! j' = C ! i' ! j' + (if i' = i \<and> j' < m then f j' else 0))"
  using assms(3) unfolding D_def
proof (induction m)
  case (Suc m)
  then show ?case using mat_put_matrix [of dim _ i m "f m"] assms(2) by (auto simp: mat_put_nth)
qed (use assms(1) in simp)

lemma mat_multiply_rows:
  fixes A B :: "int list list"
  assumes "is_matrix dim C" "m \<le> dim"
  defines "D \<equiv> fold (\<lambda>i C. fold (\<lambda>j C. fold (\<lambda>k C. add_product A B i j k C) [0..<dim] C) [0..<dim] C) [0..<m] C"
  shows "is_matrix dim D \<and> (\<forall>i < dim. \<forall>j < dim. D ! i ! j = C ! i ! j + (if i < m then (\<Sum>k < dim. A ! i ! k * B ! k ! j) else 0))"
  using assms(2) unfolding D_def
proof (induction m)
  case (Suc m)
  let ?D = "fold (\<lambda>i C. fold (\<lambda>j C. fold (\<lambda>k C. add_product A B i j k C) [0..<dim] C) [0..<dim] C) [0..<m] C"
  let ?f = "\<lambda>j. \<Sum>k < dim. A ! m ! k * B ! k ! j"
  have IH: "is_matrix dim ?D" "\<forall>i < dim. \<forall>j < dim. ?D ! i ! j = C ! i ! j + (if i < m then (\<Sum>k < dim. A ! i ! k * B ! k ! j) else 0)"
    using Suc by auto
  have "fold (\<lambda>j C. fold (\<lambda>k C. add_product A B m j k C) [0..<dim] C) [0..<l] E = fold (\<lambda>j C. mat_put m j (?f j) C) [0..<l] E"
    if "is_matrix dim E" "l \<le> dim" for l E
    using that(2)
  proof (induction l)
    case (Suc l)
    let ?E = "fold (\<lambda>j C. mat_put m j (?f j) C) [0..<l] E"
    have "is_matrix dim ?E" using fold_row [OF that(1), of m l ?f] \<open>Suc m \<le> dim\<close> Suc.prems by simp
    from add_products [OF this, of m l A B dim] show ?case using Suc \<open>Suc m \<le> dim\<close> by simp
  qed simp
  then have "fold (\<lambda>j C. fold (\<lambda>k C. add_product A B m j k C) [0..<dim] C) [0..<dim] ?D = fold (\<lambda>j C. mat_put m j (?f j) C) [0..<dim] ?D"
    using IH(1) by simp
  then show ?case using fold_row [OF IH(1), of m dim ?f] IH(2) Suc.prems by (auto simp: less_Suc_eq)
qed (use assms(1) in simp)

lemma mat_multiply_product:
  assumes "is_matrix dim C" "i < dim" "j < dim"
  shows "mat_multiply dim A B C ! i ! j = C ! i ! j + (\<Sum>k < dim. A ! i ! k * B ! k ! j)"
  using mat_multiply_rows [OF assms(1), of dim A B] assms(2,3) by (simp add: mat_multiply_def)

lemma matmult_result: "0 < dim \<Longrightarrow> matmult_main dim = int dim * (int dim - 1) ^ 2"
proof -
  assume d: "0 < dim"
  have "is_matrix dim (map (\<lambda>i. map (\<lambda>j. 0) [0..<dim]) [0..<dim])" by (auto simp: is_matrix_def)
  note mat_multiply_product [OF this, of "dim - 1" "dim - 1"]
  then show ?thesis using d by (simp add: matmult_main_def Let_def power2_eq_square of_nat_diff)
qed

section \<open>echo.c and tiny_shell.c\<close>

text \<open>What \<open>echo\<close> writes to the console for its arguments, each a buffer with the terminating zero; \<open>sep\<close> tells whether a blank goes before.\<close>

fun echo_loop :: "bool \<Rightarrow> byte list list \<Rightarrow> byte list res" where
  "echo_loop sep [] = Inr [10]"
| "echo_loop sep (a # as) = rbind (lib_strlen a) (\<lambda>n. rbind (echo_loop True as) (\<lambda>out. Inr ((if sep then [32] else []) @ take n a @ out)))"

definition echo_main :: "byte list list \<Rightarrow> byte list res" where
  "echo_main args = echo_loop False args"

text \<open>A round of \<open>tiny_shell\<close>: the line read without a bound, and the program it starts, if the line is not empty.\<close>

fun tiny_read :: "nat \<Rightarrow> byte list \<Rightarrow> byte list \<Rightarrow> (nat \<times> byte list \<times> byte list) res" where
  "tiny_read i buffer [] = Inl WouldBlock"
| "tiny_read i buffer (b # rest) = rbind (set_char buffer i b) (\<lambda>buffer1.
     if b \<noteq> 10 then tiny_read (i + 1) buffer1 rest else Inr (i + 1, buffer1, rest))"

definition TINY_BUFFER :: nat where "TINY_BUFFER = 60"

definition tiny_round :: "byte list \<Rightarrow> byte list \<Rightarrow> (byte list option \<times> byte list \<times> byte list) res" where
  "tiny_round buffer input = rbind (tiny_read 0 buffer input) (\<lambda>(i, buffer1, rest).
     let k = i - 1; buffer2 = buffer1[k := 0] in Inr (if k > 0 then Some (string_at buffer2 0) else None, buffer2, rest))"

lemma echo_loop_prints:
  "\<forall>x \<in> set xs. 0 \<notin> set x \<Longrightarrow> echo_loop True (map (\<lambda>x. x @ [0]) xs) = Inr (concat (map (\<lambda>x. 32 # x) xs) @ [10])"
proof (induction xs)
  case (Cons x xs)
  have "string_at (x @ [0]) 0 = x" using takeWhile_zero [of x "[]"] Cons.prems by (simp add: string_at_def)
  then have "lib_strlen (x @ [0]) = Inr (length x)" using strlen_string [of "x @ [0]"] by simp
  then show ?case using Cons by simp
qed simp

text \<open>\<open>echo\<close> prints its arguments with one blank between them, and a newline.\<close>

lemma echo_prints:
  assumes "\<forall>y \<in> set (x # xs). 0 \<notin> set y"
  shows "echo_main (map (\<lambda>y. y @ [0]) (x # xs)) = Inr (x @ concat (map (\<lambda>y. 32 # y) xs) @ [10])"
proof -
  have "string_at (x @ [0]) 0 = x" using takeWhile_zero [of x "[]"] assms by (simp add: string_at_def)
  then have "lib_strlen (x @ [0]) = Inr (length x)" using strlen_string [of "x @ [0]"] by simp
  then show ?thesis using echo_loop_prints [of xs] assms by (simp add: echo_main_def)
qed

lemma tiny_read_line:
  "10 \<notin> set l \<Longrightarrow> i \<le> length buffer \<Longrightarrow> tiny_read i buffer (l @ 10 # rest) =
   (if i + length l < length buffer then Inr (i + length l + 1, overlay buffer i (l @ [10]), rest) else Inl OutOfBounds)"
proof (induction l arbitrary: i buffer)
  case Nil
  then show ?case by (simp add: set_char_def overlay_def upd_conv_take_nth_drop)
next
  case (Cons b l)
  then show ?case by (cases "i < length buffer") (auto simp: set_char_def rcheck_def overlay_update)
qed

text \<open>A line of up to 59 characters starts the program of this name; a longer one overruns the buffer.\<close>

lemma tiny_shell_line:
  assumes "length buffer = TINY_BUFFER" "10 \<notin> set l" "0 \<notin> set l" "l \<noteq> []"
  shows "if length l < TINY_BUFFER then \<exists>buffer2. tiny_round buffer (l @ 10 # rest) = Inr (Some l, buffer2, rest)
    else tiny_round buffer (l @ 10 # rest) = Inl OutOfBounds"
proof (cases "length l < TINY_BUFFER")
  case True
  have "(overlay buffer 0 (l @ [10]))[length l := 0] = l @ 0 # drop (Suc (length l)) buffer"
    by (simp add: overlay_def list_update_append)
  then show ?thesis using True tiny_read_line [of l 0 buffer rest] assms takeWhile_zero [of l] by (simp add: tiny_round_def string_at_def Let_def)
next
  case False
  then show ?thesis using tiny_read_line [of l 0 buffer rest] assms by (simp add: tiny_round_def)
qed

section \<open>shell.c\<close>

definition MAX_LINE_SIZE :: nat where "MAX_LINE_SIZE = 300"
definition SHELL_MAX_ARG_COUNT :: nat where "SHELL_MAX_ARG_COUNT = 32"
definition ARG_SEPARATOR :: byte where "ARG_SEPARATOR = 32"

text \<open>
  \<open>ReadLine\<close> into the buffer, byte by byte from the console; \<open>input\<close> is what has been typed. The result
  is the number of characters and the rest of the input.
\<close>

function ReadLine_loop :: "nat \<Rightarrow> nat \<Rightarrow> byte list \<Rightarrow> byte list \<Rightarrow> (nat \<times> byte list \<times> byte list) res" where
  "ReadLine_loop sz i buffer input =
     (if i < sz then (case input of [] \<Rightarrow> Inl WouldBlock
        | b # rest \<Rightarrow> rbind (set_char buffer i b) (\<lambda>buffer1.
            if b = 10 then Inr (i, buffer1[i := 0], rest) else ReadLine_loop sz (i + 1) buffer1 rest))
      else Inr (i, buffer, input))"
  by pat_completeness auto
termination by (relation "measure (\<lambda>(sz, i, buffer, input). length input)") auto

declare ReadLine_loop.simps [simp del]

definition ReadLine :: "byte list \<Rightarrow> nat \<Rightarrow> byte list \<Rightarrow> (nat \<times> byte list \<times> byte list) res" where
  "ReadLine buffer sz input = ReadLine_loop sz 0 buffer input"

text \<open>\<open>while (line[++i] == ARG_SEPARATOR)\<close>: the first index behind \<open>i\<close> without a separator.\<close>

function skip_spaces :: "byte list \<Rightarrow> nat \<Rightarrow> nat res" where
  "skip_spaces line i = (if i + 1 < length line then (if line ! (i + 1) = ARG_SEPARATOR then skip_spaces line (i + 1) else Inr (i + 1))
     else Inl OutOfBounds)"
  by pat_completeness auto
termination by (relation "measure (\<lambda>(line, i). length line - i)") auto

declare skip_spaces.simps [simp del]

lemma skip_spaces_later: "skip_spaces line i = Inr k \<Longrightarrow> i < k \<and> k < length line \<and> line ! k \<noteq> ARG_SEPARATOR \<and> (\<forall>m. i < m \<and> m < k \<longrightarrow> line ! m = ARG_SEPARATOR)"
proof (induction line i rule: skip_spaces.induct)
  case (1 line i)
  show ?case
  proof (cases "i + 1 < length line \<and> line ! (i + 1) = ARG_SEPARATOR")
    case True
    then show ?thesis using 1 by (subst (asm) skip_spaces.simps) (auto, metis Suc_lessI not_less_eq)
  next
    case False
    then show ?thesis using 1(2) by (subst (asm) skip_spaces.simps) (auto split: if_splits)
  qed
qed

text \<open>
  The loop of \<open>PrepareArguments\<close> at index \<open>i\<close>; \<open>argv\<close> holds the places of the arguments in the line. The
  result is the status, the line and the arguments.
\<close>

function prepare_loop :: "nat \<Rightarrow> byte list \<Rightarrow> nat \<Rightarrow> nat list \<Rightarrow> (bool \<times> byte list \<times> nat list) res" where
  "prepare_loop argvSize line i argv =
     (if i < length line then
        (if line ! i = 0 then Inr (True, line, argv)
         else if line ! i = ARG_SEPARATOR then
           (if length argv = argvSize - 1 then Inr (False, line, argv)
            else (case skip_spaces (line[i := 0]) i of Inl e \<Rightarrow> Inl e
                  | Inr k \<Rightarrow> prepare_loop argvSize (line[i := 0]) (k + 1) (if line ! k \<noteq> 0 then argv @ [k] else argv)))
         else prepare_loop argvSize line (i + 1) argv)
      else Inl OutOfBounds)"
  by pat_completeness auto
termination
  by (relation "measure (\<lambda>(argvSize, line, i, argv). length line - i)") (auto dest: skip_spaces_later)

declare prepare_loop.simps [simp del]

definition PrepareArguments :: "byte list \<Rightarrow> nat \<Rightarrow> (bool \<times> byte list \<times> nat list) res" where
  "PrepareArguments line argvSize = (if argvSize > SHELL_MAX_ARG_COUNT then Inr (False, line, []) else prepare_loop argvSize line 0 [])"

text \<open>The names the shell knows and the programs they stand for, in the order of the tests.\<close>

definition shell_aliases :: "(string \<times> string) list" where
  "shell_aliases = [(''echo'', ''userland/echo''), (''exit'', ''userland/halt''), (''halt'', ''userland/halt''), (''sort'', ''userland/sort''),
     (''cat'', ''userland/cat''), (''cat>'', ''userland/write''), (''write'', ''userland/write''), (''matmult'', ''userland/matmult''),
     (''help'', ''userland/help''), (''filetest'', ''userland/filetest''), (''touch'', ''userland/touch''), (''create'', ''userland/touch''),
     (''rm'', ''userland/rm''), (''cp'', ''userland/cp''), (''ls'', ''userland/ls''), (''cd'', ''userland/cd''), (''mkdir'', ''userland/mkdir''),
     (''rmdir'', ''userland/rmdir'')]"

fun find_alias :: "byte list \<Rightarrow> (string \<times> string) list \<Rightarrow> byte list option res" where
  "find_alias s [] = Inr None"
| "find_alias s ((nm, path) # rest) = rbind (strcmpp s (chars nm @ [0])) (\<lambda>same. if same then Inr (Some (chars path)) else find_alias s rest)"

text \<open>The arguments of the call of \<open>Exec\<close>; an empty list of arguments is the null pointer.\<close>

record launch =
  program :: "byte list"
  arguments :: "byte list list option"
  joinable :: bool

definition ExecuteAlias :: "byte list \<Rightarrow> nat \<Rightarrow> nat list \<Rightarrow> bool \<Rightarrow> launch res" where
  "ExecuteAlias line off argv join = rbind (find_alias (drop off line) shell_aliases) (\<lambda>path.
     Inr \<lparr>program = (case path of Some p \<Rightarrow> p | None \<Rightarrow> string_at line off),
          arguments = (if argv = [] then None else Some (map (string_at line) argv)), joinable = join\<rparr>)"

datatype shell_action = ShellError string | Launch launch

text \<open>One round of the shell: the call of \<open>Exec\<close> it makes or the error it prints, with the buffer and the rest of the input.\<close>

definition shell_step :: "byte list \<Rightarrow> byte list \<Rightarrow> (shell_action \<times> byte list \<times> byte list) res" where
  "shell_step line input =
     rbind (ReadLine line MAX_LINE_SIZE input) (\<lambda>(lineSize, line1, rest).
       if lineSize = 0 then Inr (ShellError ''bad buffer.'', line1, rest)
       else rbind (PrepareArguments line1 SHELL_MAX_ARG_COUNT) (\<lambda>(success, line2, argv).
         if \<not> success then Inr (ShellError ''bad arguments.'', line2, rest)
         else if line2 ! 0 = 38 then rbind (ExecuteAlias line2 1 argv False) (\<lambda>l. Inr (Launch l, line2, rest))
         else rbind (ExecuteAlias line2 0 argv True) (\<lambda>l. Inr (Launch l, line2, rest))))"

text \<open>What follows the call of \<open>Exec\<close>.\<close>

datatype shell_outcome = ForkError | JoinChild int | Prompt

definition shell_reply :: "launch \<Rightarrow> int \<Rightarrow> shell_outcome" where
  "shell_reply l newProc = (if newProc < 0 then ForkError else if joinable l then JoinChild newProc else Prompt)"

subsection \<open>Reading and splitting a line\<close>

lemma ReadLine_loop_ok:
  assumes "10 \<notin> set line" "i + length line < sz" "sz \<le> length buffer"
  shows "ReadLine_loop sz i buffer (line @ 10 # rest) = Inr (i + length line, overlay buffer i (line @ [0]), rest)"
  using assms
proof (induction line arbitrary: i buffer)
  case Nil
  then show ?case by (subst ReadLine_loop.simps) (simp add: set_char_def overlay_def upd_conv_take_nth_drop)
next
  case (Cons b line)
  then show ?case by (subst ReadLine_loop.simps) (simp add: set_char_def overlay_update)
qed

lemma ReadLine_ok:
  "10 \<notin> set line \<Longrightarrow> length line < sz \<Longrightarrow> sz \<le> length buffer \<Longrightarrow>
   ReadLine buffer sz (line @ 10 # rest) = Inr (length line, line @ 0 # drop (length line + 1) buffer, rest)"
  using ReadLine_loop_ok [of line 0 sz buffer rest] by (simp add: ReadLine_def overlay_def)

text \<open>A word: characters that are neither a separator nor the end of a string or line.\<close>

definition is_word :: "byte list \<Rightarrow> bool" where
  "is_word w \<longleftrightarrow> w \<noteq> [] \<and> {0, 10, ARG_SEPARATOR} \<inter> set w = {}"

text \<open>Arguments as they are typed, each behind one separator and any number of further ones.\<close>

fun typed_args :: "(nat \<times> byte list) list \<Rightarrow> byte list" where
  "typed_args [] = []"
| "typed_args ((n, w) # r) = replicate (Suc n) ARG_SEPARATOR @ w @ typed_args r"

lemma skip_spaces_typed: "b \<noteq> ARG_SEPARATOR \<Longrightarrow> skip_spaces (dn @ x # replicate n ARG_SEPARATOR @ b # rest) (length dn) = Inr (length dn + n + 1)"
proof (induction n arbitrary: dn x)
  case 0
  then show ?case by (subst skip_spaces.simps) (simp add: nth_append)
next
  case (Suc n)
  from Suc.IH [OF Suc.prems, of "dn @ [x]" ARG_SEPARATOR] show ?case by (subst skip_spaces.simps) (simp add: nth_append)
qed

lemma prepare_word: "{0, ARG_SEPARATOR} \<inter> set u = {} \<Longrightarrow>
  prepare_loop sz (p @ u @ q) (length p) argv = prepare_loop sz (p @ u @ q) (length p + length u) argv"
proof (induction u arbitrary: p)
  case (Cons b u)
  from Cons.IH [of "p @ [b]"] Cons.prems show ?case by (subst prepare_loop.simps) (simp add: nth_append)
qed simp

lemma string_at_prefix: "take (length p + length w) buf = p @ w \<Longrightarrow> 0 \<notin> set w \<Longrightarrow> length p + length w < length buf \<Longrightarrow> buf ! (length p + length w) = 0
  \<Longrightarrow> string_at buf (length p) = w"
proof -
  assume a: "take (length p + length w) buf = p @ w" "0 \<notin> set w" "length p + length w < length buf" "buf ! (length p + length w) = 0"
  then have "buf = (p @ w) @ 0 # drop (Suc (length p + length w)) buf" using id_take_nth_drop [OF a(3)] by simp
  then have "drop (length p) buf = w @ 0 # drop (Suc (length p + length w)) buf" by (metis append.assoc append_eq_conv_conj)
  then show ?thesis using takeWhile_zero [OF a(2)] by (simp add: string_at_def)
qed

lemma prepare_typed:
  assumes "list_all (\<lambda>(n, w). is_word w) r" "length argv + length r \<le> sz - 1" "buf = dn @ typed_args r @ 0 # stale"
  shows "\<exists>buf' offs. prepare_loop sz buf (length dn) argv = Inr (True, buf', argv @ offs) \<and> length buf' = length buf
    \<and> take (length dn) buf' = dn \<and> buf' ! length dn = 0 \<and> map (string_at buf') offs = map snd r"
  using assms
proof (induction r arbitrary: dn argv buf)
  case Nil
  then show ?case by (intro exI [of _ buf] exI [of _ "[]"]) (simp add: prepare_loop.simps [of sz "dn @ 0 # stale"] nth_append)
next
  case (Cons nw r)
  obtain n w where nw: "nw = (n, w)" by (cases nw)
  obtain b u where w: "w = b # u" "b \<noteq> 0" "b \<noteq> ARG_SEPARATOR" "{0, ARG_SEPARATOR} \<inter> set u = {}" "0 \<notin> set w"
    using Cons.prems(1) nw by (cases w) (auto simp: is_word_def)
  let ?i = "length dn" and ?dn = "dn @ 0 # replicate n ARG_SEPARATOR @ w" and ?tail = "typed_args r @ 0 # stale"
  let ?line = "?dn @ ?tail" and ?k = "length dn + n + 1"
  have buf: "buf = dn @ ARG_SEPARATOR # replicate n ARG_SEPARATOR @ w @ ?tail" using Cons.prems(3) nw by simp
  have at: "buf ! ?i = ARG_SEPARATOR" "?i < length buf" "buf[?i := 0] = ?line" unfolding buf by (simp_all add: nth_append list_update_append)
  have "buf = (dn @ ARG_SEPARATOR # replicate n ARG_SEPARATOR) @ b # u @ ?tail" unfolding buf w(1) by simp
  then have bk: "buf ! ?k = b" by (metis (no_types, lifting) Suc_eq_plus1 add_Suc_right length_Cons length_append length_replicate nth_append_length)
  have sk: "skip_spaces ?line ?i = Inr ?k" using skip_spaces_typed [OF w(3), of dn 0 n "u @ ?tail"] w(1) by simp
  have sep: "ARG_SEPARATOR \<noteq> 0" by (simp add: ARG_SEPARATOR_def)
  have "length argv \<noteq> sz - 1" using Cons.prems(2) by auto
  then have "prepare_loop sz buf ?i argv = prepare_loop sz ?line (?k + 1) (argv @ [?k])"
    using at sk bk w(2) sep by (subst prepare_loop.simps) simp
  also have "\<dots> = prepare_loop sz ?line (length ?dn) (argv @ [?k])"
    using prepare_word [OF w(4), of sz "dn @ 0 # replicate n ARG_SEPARATOR @ [b]" ?tail] w(1) by (simp add: add.assoc)
  finally have step: "prepare_loop sz buf ?i argv = prepare_loop sz ?line (length ?dn) (argv @ [?k])" .
  from Cons.IH [of "argv @ [?k]" ?line ?dn] Cons.prems(1,2) obtain buf' offs where
    b': "prepare_loop sz ?line (length ?dn) (argv @ [?k]) = Inr (True, buf', (argv @ [?k]) @ offs)" "length buf' = length ?line"
      "take (length ?dn) buf' = ?dn" "buf' ! length ?dn = 0" "map (string_at buf') offs = map snd r" by auto
  have "string_at buf' ?k = w"
    using string_at_prefix [of "dn @ 0 # replicate n ARG_SEPARATOR" w buf'] b'(2-4) w(5) by (simp add: add.assoc)
  moreover have "take ?i buf' = dn" "buf' ! ?i = 0"
    using arg_cong [OF b'(3), of "take ?i"] arg_cong [OF b'(3), of "\<lambda>xs. xs ! ?i"] by (simp_all add: nth_append)
  moreover have "length ?line = length buf" unfolding buf by simp
  ultimately show ?case using step b'(1,2,5) nw by (intro exI [of _ buf'] exI [of _ "?k # offs"]) simp
qed

lemma PrepareArguments_typed:
  assumes "is_word cmd" "list_all (\<lambda>(n, w). is_word w) r" "length r \<le> 31"
  shows "\<exists>line offs. PrepareArguments (cmd @ typed_args r @ 0 # stale) SHELL_MAX_ARG_COUNT = Inr (True, line, offs)
    \<and> length line = length (cmd @ typed_args r @ 0 # stale) \<and> take (length cmd) line = cmd \<and> line ! length cmd = 0
    \<and> map (string_at line) offs = map snd r"
proof -
  have "prepare_loop 32 (cmd @ typed_args r @ 0 # stale) 0 [] = prepare_loop 32 (cmd @ typed_args r @ 0 # stale) (length cmd) []"
    using assms(1) prepare_word [of cmd 32 "[]" "typed_args r @ 0 # stale" "[]"] by (auto simp: is_word_def)
  then show ?thesis using prepare_typed [of r "[]" 32 _ cmd stale] assms(2,3) by (simp add: PrepareArguments_def SHELL_MAX_ARG_COUNT_def)
qed

lemma find_alias_ok:
  assumes "0 \<in> set s"
  shows "find_alias s al = Inr (map_option (\<lambda>(nm, path). chars path) (find (\<lambda>(nm, path). string_at s 0 = string_at (chars nm @ [0]) 0) al))"
  by (induction al) (auto simp: strcmpp_strings assms)

text \<open>The program that a command stands for.\<close>

definition alias_of :: "byte list \<Rightarrow> byte list" where
  "alias_of cmd = (case find (\<lambda>(nm, path). chars nm = cmd) shell_aliases of Some (nm, path) \<Rightarrow> chars path | None \<Rightarrow> cmd)"

lemma alias_names: "(nm, path) \<in> set shell_aliases \<Longrightarrow> 0 \<notin> set (chars nm)"
  by (auto simp: shell_aliases_def chars_def)

lemma find_cong_set: "(\<And>x. x \<in> set xs \<Longrightarrow> P x = Q x) \<Longrightarrow> find P xs = find Q xs"
  by (induction xs) auto

lemma ExecuteAlias_ok:
  assumes "string_at line off = cmd" "0 \<in> set (drop off line)"
  shows "ExecuteAlias line off argv join = Inr \<lparr>program = alias_of cmd,
    arguments = (if argv = [] then None else Some (map (string_at line) argv)), joinable = join\<rparr>"
proof -
  have c: "string_at (drop off line) 0 = cmd" using assms(1) by (simp add: string_at_def)
  have "string_at (chars nm @ [0]) 0 = chars nm" if "(nm, path) \<in> set shell_aliases" for nm path
    using takeWhile_zero [OF alias_names [OF that], of "[]"] by (simp add: string_at_def)
  then have "find (\<lambda>(nm, path). string_at (drop off line) 0 = string_at (chars nm @ [0]) 0) shell_aliases = find (\<lambda>(nm, path). chars nm = cmd) shell_aliases"
    by (intro find_cong_set) (auto simp: c)
  then show ?thesis using find_alias_ok [OF assms(2), of shell_aliases] assms(1)
    by (auto simp: ExecuteAlias_def alias_of_def split: option.split)
qed

section \<open>Properties\<close>

text \<open>
  C17. A command typed at the prompt: a word followed by at most 31 words with any number of spaces
  between them and a newline, in less than 300 characters. Whatever the buffer held before, the shell
  asks the system to execute the program that the first word stands for, with exactly the other
  words as arguments, and waits for it; with a leading \<open>&\<close> it executes the rest of the word without waiting.
\<close>

theorem shell_runs_command:
  assumes "is_word cmd" "list_all (\<lambda>(n, w). is_word w) r" "length r \<le> 31" "length (cmd @ typed_args r) < MAX_LINE_SIZE"
    and "length buffer = MAX_LINE_SIZE"
  shows "\<exists>line. shell_step buffer (cmd @ typed_args r @ 10 # rest) = Inr (Launch
      \<lparr>program = (if hd cmd = 38 then alias_of (tl cmd) else alias_of cmd),
       arguments = (if r = [] then None else Some (map snd r)), joinable = (hd cmd \<noteq> 38)\<rparr>, line, rest) \<and> length line = MAX_LINE_SIZE"
proof -
  let ?typed = "cmd @ typed_args r" and ?stale = "drop (length (cmd @ typed_args r) + 1) buffer"
  have nl: "10 \<notin> set (typed_args r)" using assms(2) by (induction r rule: typed_args.induct) (auto simp: is_word_def ARG_SEPARATOR_def)
  then have "10 \<notin> set ?typed" using assms(1) by (auto simp: is_word_def)
  from ReadLine_ok [OF this assms(4), of buffer rest] assms(5)
  have rl: "ReadLine buffer MAX_LINE_SIZE (?typed @ 10 # rest) = Inr (length ?typed, ?typed @ 0 # ?stale, rest)" by simp
  from PrepareArguments_typed [OF assms(1-3), of ?stale] obtain line offs where
    p: "PrepareArguments (?typed @ 0 # ?stale) SHELL_MAX_ARG_COUNT = Inr (True, line, offs)" "length line = length (?typed @ 0 # ?stale)"
      "take (length cmd) line = cmd" "line ! length cmd = 0" "map (string_at line) offs = map snd r" by auto
  have len: "length line = MAX_LINE_SIZE" unfolding p(2) using assms(4,5) by simp
  have cmd: "cmd \<noteq> []" "0 \<notin> set cmd" using assms(1) by (auto simp: is_word_def)
  have l: "length cmd < length line" unfolding p(2) by simp
  then have dec: "line = cmd @ 0 # drop (Suc (length cmd)) line" using id_take_nth_drop [OF l] p(3,4) by simp
  have h: "line ! 0 = hd cmd" using cmd(1) by (subst dec) (simp add: nth_append hd_conv_nth)
  have s0: "string_at line 0 = cmd" "0 \<in> set (drop 0 line)"
    using takeWhile_zero [OF cmd(2)] by (subst dec; simp add: string_at_def)+
  have "drop 1 line = tl cmd @ 0 # drop (Suc (length cmd)) line" using cmd(1) by (subst dec) (cases cmd; simp)
  then have s1: "string_at line 1 = tl cmd" "0 \<in> set (drop 1 line)"
    using takeWhile_zero [of "tl cmd"] cmd by (auto simp: string_at_def dest: list.set_sel(2))
  have "offs = [] \<longleftrightarrow> r = []" using p(5) by (metis list.map_disc_iff)
  then show ?thesis using rl p(1,5) h cmd(1) len ExecuteAlias_ok [OF s0] ExecuteAlias_ok [OF s1]
    by (auto simp: shell_step_def)
qed

theorem shell_runs_command_witness:
  "\<exists>line. shell_step (replicate 300 7) (chars ''cat a  bb'' @ [10, 99]) = Inr (Launch \<lparr>program = chars ''userland/cat'',
     arguments = Some [chars ''a'', chars ''bb''], joinable = True\<rparr>, line, [99]) \<and> length line = MAX_LINE_SIZE"
proof -
  let ?r = "[(0 :: nat, chars ''a''), (1, chars ''bb'')]"
  have "\<exists>line. shell_step (replicate 300 7) (chars ''cat'' @ typed_args ?r @ 10 # [99]) = Inr (Launch
      \<lparr>program = (if hd (chars ''cat'') = 38 then alias_of (tl (chars ''cat'')) else alias_of (chars ''cat'')),
       arguments = (if ?r = [] then None else Some (map snd ?r)), joinable = (hd (chars ''cat'') \<noteq> 38)\<rparr>, line, [99]) \<and> length line = MAX_LINE_SIZE"
    by (rule shell_runs_command) (simp_all add: is_word_def ARG_SEPARATOR_def chars_def MAX_LINE_SIZE_def)
  moreover have "chars ''cat'' @ typed_args ?r @ 10 # [99] = chars ''cat a  bb'' @ [10, 99]" by (simp add: chars_def ARG_SEPARATOR_def)
  moreover have "alias_of (chars ''cat'') = chars ''userland/cat''" by (simp add: alias_of_def shell_aliases_def chars_def)
  ultimately show ?thesis by (simp add: chars_def)
qed

text \<open>
  A space before the newline makes \<open>PrepareArguments\<close> run past the end of the line: the loop skips the
  terminating zero and takes what an earlier line left in the buffer for arguments. A word,
  a trailing space and a left-over \<open>?\<close>, space, word, zero give this left-over word as an argument.
\<close>

theorem trailing_space_overruns:
  assumes "is_word cmd" "is_word w" "b \<noteq> 0" "b \<noteq> ARG_SEPARATOR"
  shows "\<exists>line. PrepareArguments (cmd @ [ARG_SEPARATOR, 0] @ [b, ARG_SEPARATOR] @ w @ 0 # stale) SHELL_MAX_ARG_COUNT = Inr (True, line, [length cmd + 4])
    \<and> string_at line (length cmd + 4) = w \<and> string_at line 0 = cmd"
proof -
  let ?tail = "b # typed_args [(0, w)] @ 0 # stale"
  let ?buf = "cmd @ ARG_SEPARATOR # 0 # ?tail" and ?dn = "cmd @ [0, 0, b]"
  have sep: "ARG_SEPARATOR \<noteq> 0" by (simp add: ARG_SEPARATOR_def)
  have cmd: "{0, ARG_SEPARATOR} \<inter> set cmd = {}" "cmd \<noteq> []" "0 \<notin> set cmd" "0 \<notin> set w" using assms(1,2) by (auto simp: is_word_def)
  have "prepare_loop 32 ?buf 0 [] = prepare_loop 32 ?buf (length cmd) []" using prepare_word [OF cmd(1), of 32 "[]"] by simp
  also have "\<dots> = prepare_loop 32 (cmd @ 0 # 0 # ?tail) (length cmd + 2) []"
    using skip_spaces_typed [of 0 cmd 0 0 ?tail] sep by (subst prepare_loop.simps) (simp add: nth_append list_update_append)
  also have "\<dots> = prepare_loop 32 (?dn @ typed_args [(0, w)] @ 0 # stale) (length ?dn) []"
    using assms(3,4) prepare_word [of "[b]" 32 "cmd @ [0, 0]" "typed_args [(0, w)] @ 0 # stale" "[]"] by simp
  finally have step: "prepare_loop 32 ?buf 0 [] = prepare_loop 32 (?dn @ typed_args [(0, w)] @ 0 # stale) (length ?dn) []" .
  have "prepare_loop 32 (?dn @ typed_args [(0, w)] @ 0 # stale) (length ?dn) [] = prepare_loop 32 ((?dn @ 0 # w) @ 0 # stale) (length ?dn + 2) [length ?dn + 1]"
    using assms(2) sep skip_spaces_typed [of "hd w" ?dn 0 0 "tl w @ 0 # stale"]
    by (subst prepare_loop.simps) (cases w; simp add: nth_append list_update_append is_word_def)
  also have "\<dots> = prepare_loop 32 ((?dn @ 0 # w) @ 0 # stale) (length (?dn @ 0 # w)) [length ?dn + 1]"
    using assms(2) prepare_word [of "tl w" 32 "?dn @ [0, hd w]" "0 # stale" "[length ?dn + 1]"] by (cases w) (simp_all add: is_word_def)
  also have "\<dots> = Inr (True, (?dn @ 0 # w) @ 0 # stale, [length ?dn + 1])" by (subst prepare_loop.simps) (simp add: nth_append)
  finally have "PrepareArguments ?buf SHELL_MAX_ARG_COUNT = Inr (True, (?dn @ 0 # w) @ 0 # stale, [length cmd + 4])"
    unfolding PrepareArguments_def step SHELL_MAX_ARG_COUNT_def by simp
  moreover have "string_at ((?dn @ 0 # w) @ 0 # stale) (length cmd + 4) = w" "string_at ((?dn @ 0 # w) @ 0 # stale) 0 = cmd"
    using takeWhile_zero [OF cmd(4), of stale] takeWhile_zero [OF cmd(3), of "0 # b # 0 # w @ 0 # stale"] by (simp_all add: string_at_def)
  ultimately show ?thesis by simp
qed

theorem trailing_space_overruns_witness:
  "\<exists>line. PrepareArguments (chars ''ls'' @ [ARG_SEPARATOR, 0] @ [120, ARG_SEPARATOR] @ chars ''old'' @ 0 # [0]) SHELL_MAX_ARG_COUNT = Inr (True, line, [length (chars ''ls'') + 4])
    \<and> string_at line (length (chars ''ls'') + 4) = chars ''old'' \<and> string_at line 0 = chars ''ls''"
  by (rule trailing_space_overruns) (simp_all add: is_word_def ARG_SEPARATOR_def chars_def)

text \<open>
  C40. \<open>itoa\<close> writes the decimal digits of a number below a billion and a terminating zero at the start
  of a buffer that has room for them, and leaves the rest of the buffer alone; a number of ten digits
  runs over its local array; and for a negative number it writes the empty string.
\<close>

theorem itoa_decimal:
  assumes "length dumb0 = 9" "- (2 ^ 31) \<le> n" "n < 2 ^ 31" "n < 10 ^ 9 \<Longrightarrow> length (decimal (nat n)) < length c" "0 < length c"
  shows "itoa dumb0 n c =
    (if n < 0 then Inr (c[0 := 0]) else if n < 10 ^ 9 then Inr (overlay c 0 (decimal (nat n) @ [0])) else Inl OutOfBounds)"
  using assms by (rule itoa_decimal_aux)

theorem itoa_decimal_witness: "itoa (replicate 9 7) 512 (replicate 8 1) = Inr (chars ''512'' @ [0, 1, 1, 1, 1])"
proof -
  have "decimal 512 = chars ''512''" by (simp add: decimal.simps chars_def)
  then show ?thesis using itoa_decimal [of "replicate 9 7" 512 "replicate 8 1"] by (simp add: chars_def overlay_def numeral_eq_Suc)
qed

text \<open>
  C39. The bubble sort of \<open>sort.c\<close> sorts every array, and the program, whose array is filled in
  reverse order, prints that the first element is 1 and exits with this number, whatever its
  uninitialised arrays held.
\<close>

theorem sort_program:
  assumes "length A = dim" "length c0 = 8" "length dumb0 = 9"
  shows "bubble_outer dim 0 A = sort A
    \<and> sort_main DIM c0 dumb0 = Inr (chars ''The first element of the sorted array is: '' @ [10, 49, 10], 1)"
proof -
  have "0 < DIM" by (simp add: DIM_def)
  then have "bubble_outer DIM 0 (sort_init DIM) ! 0 = 1"
    using bubble_sort [of "sort_init DIM" DIM] sort_init_sorted [of DIM] by (simp add: sort_init_def del: upt_Suc)
  moreover have "itoa dumb0 1 c0 = Inr (overlay c0 0 [49, 0])"
    using itoa_decimal_aux [of dumb0 1 c0] assms(2,3) by (simp add: decimal.simps)
  moreover have "putss (overlay c0 0 [49, 0]) = Inr [49, 10]" by (subst putss_string) (simp_all add: overlay_def string_at_def)
  moreover have "putss (chars ''The first element of the sorted array is: '' @ [0]) = Inr (chars ''The first element of the sorted array is: '' @ [10])"
  proof -
    have "0 \<notin> set (chars ''The first element of the sorted array is: '')" by (simp add: chars_def)
    from takeWhile_zero [OF this, of "[]"] show ?thesis by (subst putss_string) (simp_all add: string_at_def)
  qed
  ultimately show ?thesis using bubble_sort [OF assms(1)] by (simp add: sort_main_def Let_def)
qed

theorem sort_program_witness: "bubble_outer 3 0 [5, 1, 3] = sort [5, 1, 3]
    \<and> sort_main DIM (replicate 8 7) (replicate 9 7) = Inr (chars ''The first element of the sorted array is: '' @ [10, 49, 10], 1)"
  by (rule sort_program) simp_all

end
