(* ===== verification/Disassembler.thy ===== *)
theory Disassembler
  imports Mips_Decode Printed_Numbers Stdio
begin

text \<open>
  The program \<open>disassemble\<close> of \<open>bin/\<close>: \<open>opstrings.c\<close>, the fields of \<open>instr.h\<close>, \<open>DumpAscii\<close> of \<open>d.c\<close> and the printing of
  sections of \<open>out.c\<close>. It decodes instructions on its own; the lemmas compare it with the decoder of
  the simulated machine.
\<close>

section \<open>Names and fields\<close>

definition NORMAL_OPS :: "string list" where
  "NORMAL_OPS = [''special'', ''bcond'', ''j'', ''jal'', ''beq'', ''bne'', ''blez'', ''bgtz'',
     ''addi'', ''addiu'', ''slti'', ''sltiu'', ''andi'', ''ori'', ''xori'', ''lui'',
     ''cop0'', ''cop1'', ''cop2'', ''cop3'', ''024'', ''025'', ''026'', ''027'',
     ''030'', ''031'', ''032'', ''033'', ''034'', ''035'', ''036'', ''037'',
     ''lb'', ''lh'', ''lwl'', ''lw'', ''lbu'', ''lhu'', ''lwr'', ''047'',
     ''sb'', ''sh'', ''swl'', ''sw'', ''054'', ''055'', ''swr'', ''057'',
     ''lwc0'', ''lwc1'', ''lwc2'', ''lwc3'', ''064'', ''065'', ''066'', ''067'',
     ''swc0'', ''swc1'', ''swc2'', ''swc3'', ''074'', ''075'', ''076'', ''077'']"

definition SPECIAL_OPS :: "string list" where
  "SPECIAL_OPS = [''sll'', ''001'', ''srl'', ''sra'', ''sllv'', ''005'', ''srlv'', ''srav'',
     ''jr'', ''jalr'', ''012'', ''013'', ''syscall'', ''break'', ''016'', ''017'',
     ''mfhi'', ''mthi'', ''mflo'', ''mtlo'', ''024'', ''025'', ''026'', ''027'',
     ''mult'', ''multu'', ''div'', ''divu'', ''034'', ''035'', ''036'', ''037'',
     ''add'', ''addu'', ''sub'', ''subu'', ''and'', ''or'', ''xor'', ''nor'',
     ''050'', ''051'', ''slt'', ''sltu'', ''054'', ''055'', ''056'', ''057'',
     ''060'', ''061'', ''062'', ''063'', ''064'', ''065'', ''066'', ''067'',
     ''070'', ''071'', ''072'', ''073'', ''074'', ''075'', ''076'', ''077'']"

definition REG_STRINGS :: "string list" where
  "REG_STRINGS = [''0'', ''r1'', ''r2'', ''r3'', ''r4'', ''r5'', ''r6'', ''r7'', ''r8'', ''r9'',
     ''r10'', ''r11'', ''r12'', ''r13'', ''r14'', ''r15'', ''r16'', ''r17'', ''r18'', ''r19'',
     ''r20'', ''r21'', ''r22'', ''r23'', ''r24'', ''r25'', ''r26'', ''r27'', ''gp'', ''sp'',
     ''r30'', ''r31'']"

definition instr_rd :: "u32 \<Rightarrow> nat" where "instr_rd i = unat (drop_bit 11 i AND 0x1F)"
definition instr_rt :: "u32 \<Rightarrow> nat" where "instr_rt i = unat (drop_bit 16 i AND 0x1F)"
definition instr_rs :: "u32 \<Rightarrow> nat" where "instr_rs i = unat (drop_bit 21 i AND 0x1F)"
definition shamt :: "u32 \<Rightarrow> u32" where "shamt i = drop_bit 6 i AND 0x1F"

definition immed :: "u32 \<Rightarrow> u32" where
  "immed i = (if i AND 0x8000 \<noteq> 0 then i OR 0xFFFF8000 else i AND 0x7FFF)"

definition off26 :: "u32 \<Rightarrow> u32" where "off26 i = push_bit 2 (i AND 0x3FFFFFF)"
definition top4 :: "u32 \<Rightarrow> u32" where "top4 i = i AND 0xF0000000"
definition off16 :: "u32 \<Rightarrow> u32" where "off16 i = push_bit 2 (immed i)"

section \<open>DumpAscii\<close>

text \<open>The operands of the formats in the two \<open>switch\<close> statements; \<open>ArgOffset\<close> is an immediate with a register behind it.\<close>

datatype dis_arg = ArgRd | ArgRt | ArgRs | ArgShamt | ArgImmed | ArgTarget26 | ArgTarget16 | ArgOffset

definition special_args :: "nat \<Rightarrow> dis_arg list" where
  "special_args n =
     (if n \<in> {0, 2, 3} then [ArgRd, ArgRt, ArgShamt]
      else if n \<in> {4, 6, 7} then [ArgRd, ArgRt, ArgRs]
      else if n \<in> {8, 9, 18, 19} then [ArgRs]
      else if n \<in> {12, 13} then []
      else if n \<in> {16, 17} then [ArgRd]
      else if n \<in> {24, 25, 26, 27} then [ArgRs, ArgRt]
      else if n \<in> {32, 33, 34, 35, 36, 37, 38, 39, 42, 43} then [ArgRd, ArgRs, ArgRt]
      else [])"

definition normal_args :: "nat \<Rightarrow> dis_arg list" where
  "normal_args n =
     (if n \<in> {2, 3} then [ArgTarget26]
      else if n \<in> {4, 5} then [ArgRt, ArgRs, ArgTarget16]
      else if n \<in> {8, 9, 10, 11, 12, 13, 14} then [ArgRt, ArgRs, ArgImmed]
      else if n = 15 then [ArgRt, ArgImmed]
      else if n \<in> {16, 17, 18, 19} then []
      else if n \<in> {32, 33, 34, 35, 36, 37, 38, 40, 41, 42, 43, 46, 48, 49, 50, 51, 56, 57, 58, 59} then [ArgRt, ArgOffset]
      else [])"

definition bcond_name :: "nat \<Rightarrow> string" where
  "bcond_name n = (if n = 0 then ''bltz'' else if n = 1 then ''bgez'' else if n = 16 then ''bltzal'' else if n = 17 then ''bgezal'' else ''BCOND'')"

text \<open>The name and the operands of an instruction other than \<open>nop\<close>.\<close>

definition mnemonic :: "u32 \<Rightarrow> string" where
  "mnemonic i = (let n = unat (drop_bit 26 i) in
     if n = 0 then SPECIAL_OPS ! unat (i AND 0x3F) else if n = 1 then bcond_name (instr_rt i) else NORMAL_OPS ! n)"

definition dis_args :: "u32 \<Rightarrow> dis_arg list" where
  "dis_args i = (let n = unat (drop_bit 26 i) in
     if n = 0 then special_args (unat (i AND 0x3F)) else if n = 1 then [ArgRs, ArgTarget16] else normal_args n)"

text \<open>The text: \<open>%08X\<close>, \<open>%08x\<close> and \<open>0x%X\<close>.\<close>

definition hex8 :: "u32 \<Rightarrow> byte list" where
  "hex8 x = (let h = hexadecimal (unat x) in replicate (8 - length h) 48 @ h)"

definition lower_hex :: "byte \<Rightarrow> byte" where
  "lower_hex b = (if 65 \<le> b \<and> b \<le> 70 then b + 32 else b)"

definition hex_0x :: "u32 \<Rightarrow> byte list" where "hex_0x x = [48, 120] @ hexadecimal (unat x)"

definition reg_name :: "nat \<Rightarrow> byte list" where "reg_name n = chars (REG_STRINGS ! n)"

fun print_arg :: "u32 \<Rightarrow> u32 \<Rightarrow> dis_arg \<Rightarrow> byte list" where
  "print_arg i pc ArgRd = reg_name (instr_rd i)"
| "print_arg i pc ArgRt = reg_name (instr_rt i)"
| "print_arg i pc ArgRs = reg_name (instr_rs i)"
| "print_arg i pc ArgShamt = hex_0x (shamt i)"
| "print_arg i pc ArgImmed = hex_0x (immed i)"
| "print_arg i pc ArgTarget26 = hex8 (top4 pc OR off26 i)"
| "print_arg i pc ArgTarget16 = (if unat (drop_bit 26 i) = 1 then map lower_hex (hex8 (off16 i + pc + 4)) else hex8 (off16 i + pc + 4))"
| "print_arg i pc ArgOffset = hex_0x (immed i) @ [40] @ reg_name (instr_rs i) @ [41]"

fun comma_list :: "byte list list \<Rightarrow> byte list" where
  "comma_list [] = []"
| "comma_list [x] = x"
| "comma_list (x # y # ys) = x @ [44, 32] @ comma_list (y # ys)"

definition DumpAscii :: "u32 \<Rightarrow> u32 \<Rightarrow> byte list" where
  "DumpAscii i pc = hex8 pc @ chars '': '' @ hex8 i @ chars ''  '' @ [9]
     @ (if i = 0 then chars ''nop'' else chars (mnemonic i) @ [9] @ comma_list (map (print_arg i pc) (dis_args i)))"

section \<open>Sections\<close>

text \<open>
  \<open>MyPrintf\<close> keeps the column, and \<open>MyTab\<close> fills up to one; both give the bytes written and the new column. \<open>PrintReloc\<close>
  stands before the line that makes \<open>printf\<close> mean \<open>MyPrintf\<close>, so what it prints, the end of the line too,
  does not change the column.
\<close>

fun column_after :: "nat \<Rightarrow> byte list \<Rightarrow> nat" where
  "column_after c [] = c"
| "column_after c (b # bs) = column_after (if b = 10 then 1 else if b = 9 then (c + 7) div 8 * 8 + 1 else c + 1) bs"

definition MyPrintf :: "byte list \<Rightarrow> nat \<Rightarrow> byte list \<times> nat" where
  "MyPrintf s c = (let buffer = take 99 s in (buffer, column_after c buffer))"

definition MyTab :: "nat \<Rightarrow> nat \<Rightarrow> byte list \<times> nat" where
  "MyTab n c = (replicate (n - c) 32, max n c)"

record coffReloc =
  relVirtAddr :: u32
  symbolIndex :: u32
  relType :: "16 word"
  relExtern :: bool

definition MAX_SYMBOLS :: nat where "MAX_SYMBOLS = 300"

definition SECTION_NAME :: "string list" where
  "SECTION_NAME = [''(null)'', ''.text'', ''.rdata'', ''.data'', ''.sdata'', ''.sbss'', ''.bss'', ''.init'', ''.lit8'', ''.lit4'']"

definition RELOC_TYPE :: "string list" where
  "RELOC_TYPE = [''abs'', ''16'', ''32'', ''26'', ''hi16'', ''lo16'', ''gpdata'', ''gplit'']"

text \<open>The names of the external symbols, which \<open>main\<close> reads from the file, are the parameter \<open>sname\<close>.\<close>

definition reloc_symbol :: "(nat \<Rightarrow> byte list) \<Rightarrow> coffReloc \<Rightarrow> byte list res" where
  "reloc_symbol sname rp = (let k = unat (symbolIndex rp) in
     if relExtern rp then (if k \<ge> MAX_SYMBOLS then Inr (chars ''sym $'' @ decimal k) else Inr ([34] @ sname k @ [34]))
     else if k < length SECTION_NAME then Inr (chars (SECTION_NAME ! k)) else Inl OutOfBounds)"

definition PrintReloc :: "(nat \<Rightarrow> byte list) \<Rightarrow> u32 \<Rightarrow> coffReloc list \<Rightarrow> nat \<Rightarrow> (byte list \<times> nat) res" where
  "PrintReloc sname vaddr relocs c = (case find (\<lambda>rp. vaddr = relVirtAddr rp) relocs of
     None \<Rightarrow> Inr ([10], c)
   | Some rp \<Rightarrow> (let (tab, c1) = MyTab 57 c; k = unat (relType rp) in
       rbind (reloc_symbol sname rp) (\<lambda>s.
         if k < length RELOC_TYPE then Inr (tab @ s @ [32] @ chars (RELOC_TYPE ! k) @ [10], c1) else Inl OutOfBounds)))"

definition data_line :: "u32 \<Rightarrow> u32 \<Rightarrow> byte list" where
  "data_line word pc = map lower_hex (hex8 pc) @ chars '': '' @ map lower_hex (hex8 word) @ chars ''  ''
     @ map (\<lambda>b. if is_print b then b else 46) (u32_bytes word) @ [9]
     @ (if sint word < 0 then 45 # decimal (nat (- sint word)) else decimal (nat (sint word)))"

fun section_lines :: "(nat \<Rightarrow> byte list) \<Rightarrow> bool \<Rightarrow> coffReloc list \<Rightarrow> u32 \<Rightarrow> u32 list \<Rightarrow> nat \<Rightarrow> (byte list \<times> nat) res" where
  "section_lines sname is_text relocs pc [] c = Inr ([], c)"
| "section_lines sname is_text relocs pc (word # ws) c =
     (let line = (if is_text then DumpAscii word pc else data_line word pc) in
      rbind (PrintReloc sname pc relocs (column_after c line)) (\<lambda>(rel, c1).
      rbind (section_lines sname is_text relocs (pc + 4) ws c1) (\<lambda>(out, c2). Inr (line @ rel @ out, c2))))"

definition PrintSection :: "(nat \<Rightarrow> byte list) \<Rightarrow> byte list \<Rightarrow> u32 \<Rightarrow> u32 \<Rightarrow> u32 list \<Rightarrow> coffReloc list \<Rightarrow> nat \<Rightarrow> (byte list \<times> nat) res" where
  "PrintSection sname nm size0 virtAddr0 ws relocs c =
     (let title = chars ''Section '' @ nm @ chars '' (size '' @ decimal (unat size0) @ chars '', relocs '' @ decimal (length relocs) @ chars ''):'' @ [10] in
      rbind (section_lines sname (take 5 nm = chars ''.text'') relocs virtAddr0 ws (column_after c title)) (\<lambda>(out, c1). Inr (title @ out, c1)))"

section \<open>Comparison with the machine\<close>

text \<open>Where a jump or a branch at \<open>pc\<close> goes to, as \<open>ExecInstruction\<close> computes it from the field \<open>extra\<close>.\<close>

definition target :: "Instruction \<Rightarrow> u32 \<Rightarrow> u32" where
  "target i pc = (if opCode i \<in> {OP_J, OP_JAL} then (pc + 8 AND 0xF0000000) OR IndexToAddr (extra i)
     else pc + 4 + IndexToAddr (extra i))"

text \<open>The operands in the format that the machine prints when debugging.\<close>

definition machine_args :: "OpCode \<Rightarrow> RegType list" where
  "machine_args oc = snd (OP_STRINGS ! op_number oc)"

definition machine_name :: "OpCode \<Rightarrow> string" where
  "machine_name oc = takeWhile (\<lambda>c. c \<noteq> CHR '' '') (fst (OP_STRINGS ! op_number oc))"

definition lower :: "char \<Rightarrow> char" where
  "lower c = (if 65 \<le> (of_char c :: nat) \<and> (of_char c :: nat) \<le> 90 then char_of ((of_char c :: nat) + 32) else c)"

text \<open>The operations that the disassembler prints in a form of its own, and the operands it prints for them.\<close>

fun own_args :: "OpCode \<Rightarrow> dis_arg list option" where
  "own_args OP_MFLO = Some [ArgRs]"
| "own_args OP_MTHI = Some [ArgRd]"
| "own_args OP_BLEZ = Some []"
| "own_args OP_BGTZ = Some []"
| "own_args OP_JR = Some [ArgRs]"
| "own_args OP_JALR = Some [ArgRs]"
| "own_args OP_BEQ = Some [ArgRt, ArgRs, ArgTarget16]"
| "own_args OP_BNE = Some [ArgRt, ArgRs, ArgTarget16]"
| "own_args _ = None"

text \<open>
  The operands that correspond to those of the machine's format; the format of a load or a store is
  a register, an offset and the register it is added to.
\<close>

fun matching :: "dis_arg \<Rightarrow> RegType \<Rightarrow> dis_arg list" where
  "matching e RS = [ArgRs]"
| "matching e RT = [ArgRt]"
| "matching e RD = [ArgRd]"
| "matching e EXTRA = [e]"
| "matching e NONE = []"

definition expected_args :: "dis_arg \<Rightarrow> OpCode \<Rightarrow> dis_arg list" where
  "expected_args e oc = (case own_args oc of Some as \<Rightarrow> as
     | None \<Rightarrow> if machine_args oc = [RT, EXTRA, RS] then [ArgRt, ArgOffset] else concat (map (matching e) (machine_args oc)))"

text \<open>
  The operands of a decoded instruction as text: registers by their names, the number of a shift or
  an immediate in hexadecimal, for a branch or a jump the address it goes to, for a load or a store
  the offset with the register in parentheses. First come the operations for which the disassembler
  prints something else than the operands of the machine's format.
\<close>

definition extra_text :: "Instruction \<Rightarrow> u32 \<Rightarrow> byte list" where
  "extra_text i pc = (if opCode i \<in> {OP_J, OP_JAL} then hex8 (target i pc)
     else if opCode i \<in> {OP_BGEZ, OP_BGEZAL, OP_BLTZ, OP_BLTZAL} then map lower_hex (hex8 (target i pc)) else hex_0x (extra i))"

fun operand_text :: "Instruction \<Rightarrow> u32 \<Rightarrow> RegType \<Rightarrow> byte list list" where
  "operand_text i pc RS = [reg_name (rs i)]"
| "operand_text i pc RT = [reg_name (rt i)]"
| "operand_text i pc RD = [reg_name (rd i)]"
| "operand_text i pc EXTRA = [extra_text i pc]"
| "operand_text i pc NONE = []"

definition listing :: "Instruction \<Rightarrow> u32 \<Rightarrow> byte list list" where
  "listing i pc =
     (if opCode i \<in> {OP_MFLO, OP_JR, OP_JALR} then [reg_name (rs i)]
      else if opCode i = OP_MTHI then [reg_name (rd i)]
      else if opCode i \<in> {OP_BLEZ, OP_BGTZ} then []
      else if opCode i \<in> {OP_BEQ, OP_BNE} then [reg_name (rt i), reg_name (rs i), hex8 (target i pc)]
      else if machine_args (opCode i) = [RT, EXTRA, RS] then [reg_name (rt i), hex_0x (extra i) @ [40] @ reg_name (rs i) @ [41]]
      else concat (map (operand_text i pc) (machine_args (opCode i))))"

definition known_op :: "OpCode \<Rightarrow> bool" where
  "known_op oc \<longleftrightarrow> oc \<noteq> OP_UNIMP \<and> oc \<noteq> OP_RES"

definition extra_kind :: "OpCode \<Rightarrow> dis_arg" where
  "extra_kind oc = (if oc = OP_J \<or> oc = OP_JAL then ArgTarget26 else ArgImmed)"

lemma special_tables:
  "list_all (\<lambda>n. known_op (SPECIAL_TABLE ! n) \<longrightarrow> SPECIAL_OPS ! n = map lower (machine_name (SPECIAL_TABLE ! n))
     \<and> special_args n = expected_args ArgShamt (SPECIAL_TABLE ! n) \<and> machine_args (SPECIAL_TABLE ! n) \<noteq> [RT, EXTRA, RS]) [0..<64]"
  by code_simp

lemma normal_tables:
  "list_all (\<lambda>n. known_op (info_opCode (OP_TABLE ! n)) \<longrightarrow> NORMAL_OPS ! n = map lower (machine_name (info_opCode (OP_TABLE ! n)))
     \<and> normal_args n = expected_args (extra_kind (info_opCode (OP_TABLE ! n))) (info_opCode (OP_TABLE ! n))
     \<and> info_format (OP_TABLE ! n) = (if n = 2 \<or> n = 3 then JFMT else IFMT)
     \<and> info_opCode (OP_TABLE ! n) \<notin> {SPECIAL, BCOND, OP_BGEZ, OP_BGEZAL, OP_BLTZ, OP_BLTZAL}
     \<and> (n = 2 \<or> n = 3 \<longleftrightarrow> info_opCode (OP_TABLE ! n) \<in> {OP_J, OP_JAL})) [2..<64]"
  by code_simp

lemma jump_args: "machine_args OP_J \<noteq> [RT, EXTRA, RS]" "machine_args OP_JAL \<noteq> [RT, EXTRA, RS]"
  by code_simp+

lemma plain_table: "list_all (\<lambda>n. info_opCode (OP_TABLE ! n) \<notin> {SPECIAL, BCOND}) [2..<64]"
  by code_simp

lemma no_jumps: "list_all (\<lambda>oc. oc \<notin> {OP_J, OP_JAL, OP_BEQ, OP_BNE, OP_BGEZ, OP_BGEZAL, OP_BLTZ, OP_BLTZAL}) SPECIAL_TABLE"
  by (simp add: SPECIAL_TABLE_def)

lemma bcond_tables:
  "machine_args OP_BLTZ = [RS, EXTRA, NONE]" "machine_args OP_BGEZ = [RS, EXTRA, NONE]" "machine_args OP_BLTZAL = [RS, EXTRA, NONE]"
  "machine_args OP_BGEZAL = [RS, EXTRA, NONE]" "map lower (machine_name OP_BLTZ) = bcond_name 0" "map lower (machine_name OP_BGEZ) = bcond_name 1"
  "map lower (machine_name OP_BLTZAL) = bcond_name 16" "map lower (machine_name OP_BGEZAL) = bcond_name 17"
  by code_simp+

text \<open>The fields are those of the decoder.\<close>

lemma top_bits: "drop_bit 26 v AND 0x3F = drop_bit 26 (v :: u32)"
proof -
  have m: "(0x3F :: u32) = mask 6" by (simp add: mask_eq_exp_minus_1)
  show ?thesis unfolding m
  proof (rule bit_word_eqI)
    fix n :: nat
    show "bit (drop_bit 26 v AND mask 6) n = bit (drop_bit 26 v) n" using bit_imp_le_length [of v "26 + n"] by (auto simp: bit_simps)
  qed
qed

lemma top_bits_less: "unat (drop_bit 26 v :: u32) < 64"
  using field_bounds(2) [of "drop_bit 26 v"] by (simp add: top_bits)

lemma immed_extra: "(let e = v AND 0xFFFF in if e AND 0x8000 \<noteq> 0 then e OR 0xFFFF0000 else e) = immed v"
proof -
  have m: "(0xFFFF :: u32) = mask 16" "(0x7FFF :: u32) = mask 15" "(0xFFFF0000 :: u32) = NOT (mask 16)" "(0xFFFF8000 :: u32) = NOT (mask 15)"
    by (simp_all add: mask_eq_exp_minus_1)
  have b: "v AND (0x8000 :: u32) \<noteq> 0 \<longleftrightarrow> bit v 15" using and_exp_eq_0_iff_not_bit [of v 15] by simp
  have a: "(v AND 0xFFFF) AND 0x8000 = v AND (0x8000 :: u32)" by (simp add: and.assoc)
  show ?thesis unfolding Let_def immed_def unfolding a b unfolding m
  proof (rule bit_word_eqI)
    fix n :: nat
    consider "n < 15" | "n = 15" | "15 < n" by linarith
    then show "bit (if bit v 15 then v AND mask 16 OR NOT (mask 16) else v AND mask 16) n = bit (if bit v 15 then v OR NOT (mask 15) else v AND mask 15) n"
      if "n < LENGTH(32)" using that by cases (auto simp: bit_simps)
  qed
qed

lemma bcond_field: "v AND 0x1F0000 = push_bit 16 (drop_bit 16 v AND 0x1F :: u32)"
proof -
  have m: "(0x1F0000 :: u32) = push_bit 16 (mask 5)" "(0x1F :: u32) = mask 5" by (simp_all add: mask_eq_exp_minus_1)
  show ?thesis unfolding m by (rule bit_word_eqI) (auto simp: bit_simps)
qed

lemma bcond_op:
  "(let i = v AND 0x1F0000 in if i = 0 then OP_BLTZ else if i = 0x10000 then OP_BGEZ else if i = 0x100000 then OP_BLTZAL
     else if i = 0x110000 then OP_BGEZAL else OP_UNIMP) =
   (if instr_rt v = 0 then OP_BLTZ else if instr_rt v = 1 then OP_BGEZ else if instr_rt v = 16 then OP_BLTZAL else if instr_rt v = 17 then OP_BGEZAL else OP_UNIMP)"
proof -
  let ?x = "drop_bit 16 v AND 0x1F :: u32"
  have d: "drop_bit 16 (v AND 0x1F0000) = ?x" by (simp add: drop_bit_and)
  have "v AND 0x1F0000 = push_bit 16 k \<longleftrightarrow> ?x = k" if "drop_bit 16 (push_bit 16 k) = k" for k
    using bcond_field [of v] d that by metis
  from this [of 0] this [of 1] this [of 16] this [of 17]
  have "v AND 0x1F0000 = 0 \<longleftrightarrow> ?x = 0" "v AND 0x1F0000 = 0x10000 \<longleftrightarrow> ?x = 1" "v AND 0x1F0000 = 0x100000 \<longleftrightarrow> ?x = 16" "v AND 0x1F0000 = 0x110000 \<longleftrightarrow> ?x = 17"
    by simp_all
  moreover have "?x = of_nat k \<longleftrightarrow> instr_rt v = k" if "k < 32" for k
    unfolding instr_rt_def using that by (auto simp: unat_of_nat take_bit_nat_eq_self)
  from this [of 0] this [of 1] this [of 16] this [of 17]
  have "?x = 0 \<longleftrightarrow> instr_rt v = 0" "?x = 1 \<longleftrightarrow> instr_rt v = 1" "?x = 16 \<longleftrightarrow> instr_rt v = 16" "?x = 17 \<longleftrightarrow> instr_rt v = 17" by simp_all
  ultimately show ?thesis by (simp add: Let_def)
qed

lemma decoded_fields: "rs (Decode v) = instr_rs v" "rt (Decode v) = instr_rt v" "rd (Decode v) = instr_rd v"
  by (simp_all add: Decode_def Let_def instr_rs_def instr_rt_def instr_rd_def)

text \<open>From the operands to their text.\<close>

lemma matching_text:
  assumes "print_arg v pc e = extra_text (Decode v) pc"
  shows "map (print_arg v pc) (concat (map (matching e) rs0)) = concat (map (operand_text (Decode v) pc) rs0)"
proof (induction rs0)
  case (Cons r rs0)
  then show ?case using assms by (cases r) (simp_all add: decoded_fields)
qed simp

lemma expected_text:
  assumes "as = expected_args e (opCode (Decode v))" "print_arg v pc e = extra_text (Decode v) pc"
    and "machine_args (opCode (Decode v)) = [RT, EXTRA, RS] \<or> opCode (Decode v) \<in> {OP_BEQ, OP_BNE} \<Longrightarrow> extra (Decode v) = immed v"
    and "unat (drop_bit 26 v) \<noteq> 1"
  shows "map (print_arg v pc) as = listing (Decode v) pc"
proof (cases "own_args (opCode (Decode v))")
  case None
  then have n: "opCode (Decode v) \<notin> {OP_MFLO, OP_JR, OP_JALR, OP_MTHI, OP_BLEZ, OP_BGTZ, OP_BEQ, OP_BNE}" by auto
  show ?thesis
  proof (cases "machine_args (opCode (Decode v)) = [RT, EXTRA, RS]")
    case True
    then show ?thesis using None n assms(1,3) by (simp add: expected_args_def listing_def decoded_fields)
  next
    case False
    then show ?thesis using None n assms(1) matching_text [OF assms(2)] by (simp add: expected_args_def listing_def)
  qed
next
  case (Some bs)
  then have "opCode (Decode v) \<in> {OP_MFLO, OP_JR, OP_JALR, OP_MTHI, OP_BLEZ, OP_BGTZ, OP_BEQ, OP_BNE}"
    by (cases "opCode (Decode v)") simp_all
  then show ?thesis
    using assms(1,3,4) by (auto simp: expected_args_def listing_def decoded_fields target_def off16_def IndexToAddr_def add_ac)
qed

lemma decoded_special:
  assumes "drop_bit 26 v = 0"
  shows "opCode (Decode v) = SPECIAL_TABLE ! unat (v AND 0x3F)" "extra (Decode v) = shamt v"
proof -
  have "OP_TABLE ! 0 = op_info SPECIAL RFMT" by (simp add: OP_TABLE_def)
  then show "opCode (Decode v) = SPECIAL_TABLE ! unat (v AND 0x3F)" "extra (Decode v) = shamt v"
    using assms by (simp_all add: Decode_def Let_def shamt_def)
qed

lemma decoded_bcond:
  assumes "unat (drop_bit 26 v :: u32) = 1"
  shows "opCode (Decode v) = (if instr_rt v = 0 then OP_BLTZ else if instr_rt v = 1 then OP_BGEZ
      else if instr_rt v = 16 then OP_BLTZAL else if instr_rt v = 17 then OP_BGEZAL else OP_UNIMP)" "extra (Decode v) = immed v"
proof -
  have t: "OP_TABLE ! 1 = op_info BCOND IFMT" by (simp add: OP_TABLE_def)
  show "opCode (Decode v) = (if instr_rt v = 0 then OP_BLTZ else if instr_rt v = 1 then OP_BGEZ
      else if instr_rt v = 16 then OP_BLTZAL else if instr_rt v = 17 then OP_BGEZAL else OP_UNIMP)"
    unfolding bcond_op [symmetric] using assms t by (simp add: Decode_def top_bits Let_def)
  show "extra (Decode v) = immed v" unfolding immed_extra [symmetric] using assms t by (simp add: Decode_def top_bits Let_def)
qed

lemma decoded_normal:
  assumes "info_opCode (OP_TABLE ! unat (drop_bit 26 v)) \<notin> {SPECIAL, BCOND}"
  shows "opCode (Decode v) = info_opCode (OP_TABLE ! unat (drop_bit 26 v))"
    "extra (Decode v) = (case info_format (OP_TABLE ! unat (drop_bit 26 v)) of IFMT \<Rightarrow> immed v | RFMT \<Rightarrow> shamt v | JFMT \<Rightarrow> v AND 0x3FFFFFF)"
  unfolding immed_extra [symmetric] using assms by (simp_all add: Decode_def top_bits shamt_def Let_def split: op_format.split)

definition agrees :: "u32 \<Rightarrow> u32 \<Rightarrow> bool" where
  "agrees v pc \<longleftrightarrow> mnemonic v = map lower (machine_name (opCode (Decode v)))
    \<and> map (print_arg v pc) (dis_args v) = listing (Decode v) pc"

lemma agrees_special:
  assumes "known_op (opCode (Decode v))" "unat (drop_bit 26 v) = 0"
  shows "agrees v pc"
proof -
  let ?k = "unat (v AND 0x3F)" and ?i = "Decode v"
  have v: "drop_bit 26 v = 0" using assms(2) by (simp add: unat_eq_zero)
  note d = decoded_special [OF v]
  have "?k < 64" by (rule field_bounds)
  then have t: "SPECIAL_OPS ! ?k = map lower (machine_name (opCode ?i))" "special_args ?k = expected_args ArgShamt (opCode ?i)"
    "machine_args (opCode ?i) \<noteq> [RT, EXTRA, RS]"
    using special_tables assms(1) d(1) unfolding list_all_iff by simp_all
  have "SPECIAL_TABLE ! ?k \<notin> {OP_J, OP_JAL, OP_BEQ, OP_BNE, OP_BGEZ, OP_BGEZAL, OP_BLTZ, OP_BLTZAL}"
    using no_jumps \<open>?k < 64\<close> by (simp add: list_all_length table_lengths)
  then have "print_arg v pc ArgShamt = extra_text ?i pc" "opCode ?i \<notin> {OP_BEQ, OP_BNE}" using d by (auto simp: extra_text_def)
  with expected_text [OF t(2), of pc] t(1,3) show ?thesis
    using assms(2) by (simp add: agrees_def mnemonic_def dis_args_def Let_def)
qed

lemma agrees_bcond:
  assumes "known_op (opCode (Decode v))" "unat (drop_bit 26 v) = 1"
  shows "agrees v pc"
proof -
  let ?i = "Decode v"
  note d = decoded_bcond [OF assms(2)]
  have rt: "instr_rt v \<in> {0, 1, 16, 17}" using assms(1) d(1) by (auto simp: known_op_def split: if_splits)
  then have t: "bcond_name (instr_rt v) = map lower (machine_name (opCode ?i))" "machine_args (opCode ?i) = [RS, EXTRA, NONE]"
    "opCode ?i \<in> {OP_BGEZ, OP_BGEZAL, OP_BLTZ, OP_BLTZAL}"
    unfolding d(1) by (auto simp: bcond_tables)
  then have "extra_text ?i pc = map lower_hex (hex8 (off16 v + pc + 4))"
    using d(2) by (auto simp: extra_text_def target_def off16_def IndexToAddr_def add_ac)
  then show ?thesis using t assms(2) by (auto simp: agrees_def mnemonic_def dis_args_def listing_def decoded_fields)
qed

lemma agrees_normal:
  assumes "known_op (opCode (Decode v))" "opCode (Decode v) \<in> {OP_J, OP_JAL} \<Longrightarrow> top4 (pc + 8) = top4 pc" "2 \<le> unat (drop_bit 26 v)"
  shows "agrees v pc"
proof -
  let ?n = "unat (drop_bit 26 v)" and ?i = "Decode v"
  let ?oc = "info_opCode (OP_TABLE ! ?n)"
  have n: "?n \<in> set [2..<64]" unfolding atLeastLessThan_upt [symmetric] atLeastLessThan_iff using assms(3) top_bits_less [of v] by blast
  have nt: "known_op ?oc \<longrightarrow> NORMAL_OPS ! ?n = map lower (machine_name ?oc) \<and> normal_args ?n = expected_args (extra_kind ?oc) ?oc
     \<and> info_format (OP_TABLE ! ?n) = (if ?n = 2 \<or> ?n = 3 then JFMT else IFMT)
     \<and> ?oc \<notin> {SPECIAL, BCOND, OP_BGEZ, OP_BGEZAL, OP_BLTZ, OP_BLTZAL} \<and> (?n = 2 \<or> ?n = 3 \<longleftrightarrow> ?oc \<in> {OP_J, OP_JAL})"
    using normal_tables n unfolding list_all_iff by blast
  have nsb: "?oc \<notin> {SPECIAL, BCOND}" using plain_table n unfolding list_all_iff by blast
  note d = decoded_normal [OF nsb]
  from nt assms(1) d(1) have t: "NORMAL_OPS ! ?n = map lower (machine_name ?oc)" "normal_args ?n = expected_args (extra_kind ?oc) (opCode ?i)"
     "info_format (OP_TABLE ! ?n) = (if ?n = 2 \<or> ?n = 3 then JFMT else IFMT)"
     "?oc \<notin> {SPECIAL, BCOND, OP_BGEZ, OP_BGEZAL, OP_BLTZ, OP_BLTZAL}" "?n = 2 \<or> ?n = 3 \<longleftrightarrow> ?oc \<in> {OP_J, OP_JAL}" by simp_all
  have m: "mnemonic v = NORMAL_OPS ! ?n" "dis_args v = normal_args ?n" using assms(3) by (simp_all add: mnemonic_def dis_args_def Let_def)
  have e: "extra ?i = immed v" if "machine_args (opCode ?i) = [RT, EXTRA, RS] \<or> opCode ?i \<in> {OP_BEQ, OP_BNE}"
    using that t(3,5) d jump_args by auto
  have "print_arg v pc (extra_kind ?oc) = extra_text ?i pc"
    using t(3-5) d assms(2) by (auto simp: extra_text_def target_def extra_kind_def off26_def top4_def IndexToAddr_def)
  from expected_text [OF t(2) this e] assms(3) have "map (print_arg v pc) (dis_args v) = listing ?i pc" unfolding m by simp
  with t(1) show ?thesis by (simp only: agrees_def m d(1) simp_thms)
qed

section \<open>Properties\<close>

text \<open>
  C18. The disassembler of \<open>bin/\<close> and the decoder of the machine agree. For every word but zero that decodes to an operation
  the machine has, \<open>DumpAscii\<close> prints the address, the word, the name of the operation in lower case, and the operands of the
  instruction as the machine decodes it, in the order of the machine's own listing, with the address a
  branch or a jump goes to in place of the field in the word. It differs in eight operations:
  \<open>mflo\<close> and \<open>mthi\<close> come with a register that the instruction does not use, \<open>blez\<close> and \<open>bgtz\<close> with no operands at all,
  \<open>jr\<close> and \<open>jalr\<close> with the source register only, and \<open>beq\<close> and \<open>bne\<close> with their two registers exchanged (the first cases of
  \<open>listing\<close>). The word zero, which the machine decodes to a shift of register 0, is printed as \<open>nop\<close>. The address of
  a jump is right when the jump and the instruction eight bytes behind it have the same upper four bits, since the
  disassembler takes them from one and the machine from the other.
\<close>

theorem disassembler_agrees:
  assumes "known_op (opCode (Decode v))" "opCode (Decode v) \<in> {OP_J, OP_JAL} \<Longrightarrow> top4 (pc + 8) = top4 pc"
  shows "DumpAscii v pc = hex8 pc @ chars '': '' @ hex8 v @ chars ''  '' @ [9]
    @ (if v = 0 then chars ''nop''
       else chars (map lower (machine_name (opCode (Decode v)))) @ [9] @ comma_list (listing (Decode v) pc))"
proof -
  consider "unat (drop_bit 26 v) = 0" | "unat (drop_bit 26 v) = 1" | "2 \<le> unat (drop_bit 26 v)" by linarith
  then have "agrees v pc" by cases (use assms agrees_special agrees_bcond agrees_normal in blast)+
  then show ?thesis by (simp add: agrees_def DumpAscii_def)
qed

theorem disassembler_agrees_witness:
  "DumpAscii 0x8FA80010 0x400 = chars ''00000400: 8FA80010  '' @ [9] @ chars ''lw'' @ [9] @ chars ''r8, 0x10(sp)''"
proof -
  have d: "opCode (Decode 0x8FA80010) = OP_LW" "rs (Decode 0x8FA80010) = 29" "rt (Decode 0x8FA80010) = 8" "extra (Decode 0x8FA80010) = 16" by code_simp+
  have "machine_args OP_LW = [RT, EXTRA, RS]" by code_simp
  then have l: "listing (Decode 0x8FA80010) 0x400 = [reg_name 8, hex_0x 16 @ [40] @ reg_name 29 @ [41]]" using d by (simp add: listing_def)
  have h: "known_op (opCode (Decode 0x8FA80010))" "opCode (Decode 0x8FA80010) \<notin> {OP_J, OP_JAL}" unfolding d by (simp_all add: known_op_def)
  from h(2) have "DumpAscii 0x8FA80010 0x400 = hex8 0x400 @ chars '': '' @ hex8 0x8FA80010 @ chars ''  '' @ [9]
    @ (if 0x8FA80010 = (0 :: u32) then chars ''nop''
       else chars (map lower (machine_name (opCode (Decode 0x8FA80010)))) @ [9] @ comma_list (listing (Decode 0x8FA80010) 0x400))"
    by (intro disassembler_agrees [OF h(1)]) blast
  moreover have zeros: "replicate 5 (48 :: byte) = [48, 48, 48, 48, 48]" by code_simp
  moreover have "hex8 0x8FA80010 = chars ''8FA80010''" "hex8 0x400 = chars ''00000400''" "hex_0x 16 = chars ''0x10''"
    using zeros by (simp_all add: hex8_def hex_0x_def hexadecimal.simps chars_def)
  moreover have "map lower (machine_name OP_LW) = ''lw''" by code_simp
  ultimately show ?thesis unfolding d l by (simp add: chars_def reg_name_def REG_STRINGS_def)
qed

end
