(* ===== verification/Spec2Isabelle.thy ===== *)
theory Spec2Isabelle
  imports Devices Thread_Safety Post_Office Sample_System Coff Command_Line Userland Disassembler
begin

text \<open>
  A verification of paldOs, an instructional operating system (Nachos) that runs on a simulated
  machine: a MIPS processor with an MMU, a disk, a timer and a console. The build modelled is that of
  \<open>filesys/Makefile\<close>: user programs, virtual memory with a TLB, demand loading, swap and LRU
  replacement, priorities in the scheduler, and the file system on the simulated disk.

  \<^bold>\<open>Conventions.\<close> Machine integers are words of their width. Fallible code returns \<open>'a res\<close>, an error or
  a value (\<open>Prelude\<close>); every \<open>ASSERT\<close>, null pointer, access outside an array, wait that no thread ends and
  loop without end is an error of its own. Memory that the program does not initialise is a parameter
  (\<open>junk\<close>, \<open>raw\<close>), and so is the host: its files, keyboard, random numbers. Objects reached through
  pointers are numbers into maps of the state.

  \<^bold>\<open>Theories and sources.\<close>

  \<^item> \<open>Prelude\<close>: results, buffers, the little-endian layout of words, C strings, \<open>DivRoundUp\<close> (\<open>lib/utility.hh\<close>).
  \<^item> \<open>Bitmap\<close> (\<open>lib/bitmap.cc\<close>), \<open>Linked_List\<close> (\<open>lib/list.hh\<close>), \<open>Table\<close> (\<open>lib/table.hh\<close>): the containers, each refined to
    a set, a list and a finite map. Bitmaps are an instance of the locale \<open>index_allocator\<close>, the sorted
    lists of \<open>keyed_queue\<close>.
  \<^item> \<open>Disk\<close> (\<open>machine/disk.cc\<close>, \<open>filesys/synch_disk.cc\<close>): sectors, timing, and the synchronous disk as an instance
    of \<open>sector_device\<close>.
  \<^item> \<open>File_Header\<close>, \<open>Open_File\<close>, \<open>File_Content\<close>, \<open>Directory\<close>, \<open>File_System\<close>, \<open>Mounted\<close>, \<open>Format\<close> (\<open>filesys/\<close>): headers
    and their images, reads and writes along the chain of headers, the content of a file as a list of bytes
    (locale \<open>byte_file\<close>), directories as finite maps (locale \<open>name_table\<close>), the operations of the file system on
    a mounted disk, and formatting, closing and mounting. The definitions follow chains of headers of any
    length. So does the theorem on \<open>Remove\<close>; those that write and read back are about files of one header
    (3712 bytes), since \<open>Seek\<close> does not return to the first header of a longer file.
  \<^item> \<open>Mips_Decode\<close>, \<open>Mmu\<close>, \<open>Mips_Exec\<close>, \<open>Mips_Run\<close> (\<open>machine/encoding.cc\<close>, \<open>instruction.cc\<close>, \<open>mmu.cc\<close>, \<open>machine.cc\<close>,
    \<open>mips_sim.cc\<close>): decoding, translation of addresses (locale \<open>virtual_memory\<close>), every instruction, and the run
    loop. The machine is a record that the kernel extends with its own state; exception handlers are a
    parameter of it. Translation gives exactly the exception of its cause, and an instruction that does not
    complete reaches the handler with nothing changed, whatever the handler does.
  \<^item> \<open>Interrupt\<close>, \<open>Devices\<close> (\<open>machine/interrupt.cc\<close>, \<open>timer.cc\<close>, \<open>console.cc\<close>, \<open>synch_console.cc\<close>): the clock, the pending
    interrupts and the handlers (locale \<open>device_handlers\<close>: what each handler does to the devices and asks for), and which
    handlers a tick and an idle machine run, in which order.
  \<^item> \<open>Threads\<close>, \<open>Thread_Safety\<close> (\<open>threads/\<close>): scheduler, threads, semaphores, locks, conditions and channels as
    pieces that run with interrupts off, with a step relation that interleaves them.
  \<^item> \<open>Address_Space\<close>, \<open>Virtual_Memory\<close>, \<open>User_Memory\<close> (\<open>userprog/executable.cc\<close>, \<open>address_space.cc\<close>, the page fault
    handler of \<open>exception.cc\<close>): executables, address spaces, demand loading, swap and the choice of a victim. The
    invariant \<open>vm_inv\<close> ties page tables, TLB, core map, frame bitmap and swap files together; \<open>vpage\<close> is the content
    of a page as its process sees it, wherever it is.
  \<^item> \<open>User_Transfer\<close>, \<open>User_Args\<close> (\<open>transfer.cc\<close>, \<open>args.cc\<close>): copies between the kernel and user programs and the layout
    of arguments, proved in the locale \<open>user_space\<close> for any memory that reads and writes like an array of bytes
    and interpreted for virtual memory.
  \<^item> \<open>Host_Files\<close>: no operation of the file system on Nachos files touches a file of the host, where executables
    and swapped pages are.
  \<^item> \<open>Processes\<close>, \<open>Programs\<close> (\<open>threads/thread.cc\<close>, \<open>scheduler.cc\<close>, \<open>StartProcess\<close> of \<open>exception.cc\<close>): context switches,
    the deletion of a process, the image of an executable in memory and the start of a program.
  \<^item> \<open>Syscalls\<close>, \<open>Syscall_Safety\<close> (\<open>exception.cc\<close>): every system call, and that none of them lets a process change
    another; \<open>sys_ok\<close> is the invariant between system calls.
  \<^item> \<open>Boot\<close>, \<open>Sample_System\<close> (\<open>threads/system.cc\<close>, \<open>userprog/prog_test.cc\<close>): the start of the system and of its first
    process, \<open>Exec\<close> from the call to the first instruction of the new process, and a concrete system for the
    examples.

  \<^item> \<open>Post_Office\<close> (\<open>machine/network.cc\<close>, \<open>network/post.cc\<close>): the network device and the post office of the build of
    \<open>network/Makefile\<close>, and a step relation for a network of machines, with logs of what was sent, delivered
    and received.
  \<^item> \<open>Stdio\<close>, \<open>Printed_Numbers\<close>: what the tools use of the C library: files, \<open>strtok_r\<close>, \<open>strtoul\<close>, \<open>atoi\<close>, printed numbers.
  \<^item> \<open>Fs_Programs\<close>, \<open>Command_Line\<close> (\<open>filesys/fs_test.cc\<close>, \<open>threads/system.cc\<close>, \<open>threads/main.cc\<close>): the programs behind the
    options of \<open>nachos\<close>, the two scans of its arguments, and a whole run from the disk to what is printed.
  \<^item> \<open>Debugger\<close> (\<open>lib/debug.cc\<close>, \<open>userprog/debugger_command_manager.cc\<close>, \<open>userprog/debugger.cc\<close>): the flags of debugging
    messages and the debugger of user programs, with its line buffer.
  \<^item> \<open>Coff\<close>, \<open>Disassembler\<close> (\<open>bin/\<close>): the converters \<open>coff2noff\<close> and \<open>coff2flat\<close>, \<open>readnoff\<close>, and the disassembler. A converted
    executable is one that \<open>Programs\<close> loads, and the text that the disassembler prints is compared with
    \<open>Mips_Decode\<close>.
  \<^item> \<open>Userland\<close> (\<open>userland/\<close>): the library of user programs, the shells, \<open>echo\<close>, \<open>sort\<close> and \<open>matmult\<close>, as functions on
    the arrays they work on.

  The theorems below span the components of user programs; those about one component are in its theory.

  \<^bold>\<open>Fuel.\<close> Chains of headers are followed for at most one more step than the disk has sectors, since a chain
  without a cycle is no longer; the loop of \<open>Table::Remove\<close> takes one freed index each round; the loop that
  fires due interrupts is bounded in \<open>Devices\<close> by what is pending. Running out is the error \<open>Diverges\<close>. The
  theorems show that there is a result and what it is, with one exception: the theorem on the isolation of processes is
  about a system call that comes back, since a call may rightly end in an \<open>ASSERT\<close> or in a wait.

  \<^bold>\<open>Not modelled.\<close> \<open>system_dep.cc\<close> and \<open>switch.S\<close>, the host's system calls and assembler; the preemptive scheduler, which
  drives the host's timer; \<open>sys_info\<close>, which prints constants; \<open>Cleanup\<close>, which frees the objects before the host
  process ends; the kernel stack of a thread; the built-in tests of threads, of concurrent file access and of the
  network. Of \<open>bin/\<close>, the symbol tables of \<open>extern/syms.h\<close>, which come from elsewhere, and the interpreter of \<open>execute.c\<close>,
  \<open>main.c\<close>, \<open>system.c\<close> and \<open>disasm.c\<close>, which no target of the \<open>Makefile\<close> builds. Of \<open>userland/\<close>, the programs that are a few system
  calls. The text of debugging messages and the floating-point reliability of the network are parameters or left out.
\<close>

section \<open>Virtual memory\<close>

lemma addr_nonzero:
  assumes "user_good krn s" "0 < a" "a < utop s"
  shows "(of_nat a :: u32) \<noteq> 0"
proof -
  have "a < 4294967296" using assms(1,3) utop_bound [of s "{}"] by (simp add: user_good_def)
  then have "unat (of_nat a :: u32) = a" by (intro unat_small) simp
  then show ?thesis using assms(2) by auto
qed

text \<open>
  C2. The handler of TLB misses is invisible to programs: for any page of the running process that is not
  in the TLB it returns with the page there, whether it was in memory, in the swap file or only in the
  executable, and whatever page it had to evict; the invariant holds and every page of every process
  reads as before.
\<close>

theorem page_fault_transparent:
  assumes "vm_inv s {}" "v < npages s (thisThread s)" "\<not> cached s v" "length (registers s) = NUM_TOTAL_REGS"
    and "unat (registers s ! BAD_VADDR_REG div page_bytes) = v"
  shows "\<exists>s'. TLBPageFaultHandler exc s = Inr s' \<and> vm_inv s' {} \<and> cached s' v \<and> registers s' = registers s
    \<and> (\<forall>t. npages s' t = npages s t \<and> (\<forall>u < npages s t. vpage s' t u = vpage s t u))"
proof -
  from page_fault_handler [OF assms] obtain s' where
    "TLBPageFaultHandler exc s = Inr s'" "vm_inv s' {}" "same_memory s s'" "cached s' v" "registers s' = registers s" by blast
  then show ?thesis by (auto simp: same_memory_def)
qed

theorem page_fault_transparent_witness:
  "\<exists>s0 s s'. sample_run s0 s \<and> TLBPageFaultHandler PAGE_FAULT_EXCEPTION s = Inr s' \<and> cached s' 0 \<and> vpage s' 0 1 = vpage s 0 1"
proof -
  from sample_runs obtain s0 s where s: "sample_run s0 s" "sys_ok s" "tlb_empty s" "thisThread s = 0" "npages s = (\<lambda>_. 0)(0 := 17)"
    "registers s = start_registers 17" by blast
  have "vm_inv s {}" "0 < npages s (thisThread s)" "\<not> cached s 0" "length (registers s) = NUM_TOTAL_REGS"
    "unat (registers s ! BAD_VADDR_REG div page_bytes) = 0"
    using s(2-6) by (simp_all add: sys_ok_def ready_def cached_def tlb_empty_def start_registers_def reg_defs STACK_REG_def)
  from page_fault_transparent [OF this, of PAGE_FAULT_EXCEPTION] obtain s' where
    s': "TLBPageFaultHandler PAGE_FAULT_EXCEPTION s = Inr s'" "cached s' 0" "\<forall>u < npages s 0. vpage s' 0 u = vpage s 0 u" by auto
  then have "vpage s' 0 1 = vpage s 0 1" using s(5) by simp
  with s' s(1) show ?thesis by blast
qed

text \<open>
  C13. Copies between the kernel and a process work on its memory as on an array of bytes, across pages
  and page faults, for one to 200 bytes inside the memory of the process and not at address 0.
  \<open>WriteBufferToUser\<close> stores the bytes up to and including the first zero byte, all of them when there is
  none, and nothing behind; \<open>ReadBufferFromUser\<close> then reads back these bytes, followed by what memory held
  behind them, and ends them with a zero byte. No other byte of the process changes, and no other process does.
\<close>

theorem user_copy_roundtrip:
  assumes "user_good krn s" "0 < a" "a + length bs \<le> utop s" "bs \<noteq> []" "length bs \<le> LSDIR_OUTPUT"
  shows "\<exists>s1 s2. WriteBufferToUser krn raw bs (of_nat a) (length bs) s = Inr s1
    \<and> ReadBufferFromUser krn raw' (of_nat a) (length bs) s1
        = Inr (upto0 bs @ map (umem s) [a + length (upto0 bs)..<a + length bs] @ [0], s2) \<and> user_good krn s2
    \<and> umem s2 = write_at (umem s) a (upto0 bs) \<and> utop s2 = utop s \<and> (0 \<notin> set bs \<longrightarrow> upto0 bs = bs)
    \<and> (\<forall>t v. t \<noteq> thisThread s \<and> v < npages s t \<longrightarrow> vpage s2 t v = vpage s t v)"
proof -
  let ?m = "write_at (umem s) a (upto0 bs)"
  have "a < utop s" using assms(3,4) by (cases bs) auto
  then have nz: "(of_nat a :: u32) \<noteq> 0" by (rule addr_nonzero [OF assms(1,2)])
  from uvm.write_buffer_loop_ok [OF assms(1,3) order_refl, of raw] obtain s1 where
    s1: "write_buffer_loop krn raw (length bs) (of_nat a) bs s = Inr s1" "uvm.wrote krn s s1 ?m" by auto
  then have g: "user_good krn s1" "umem s1 = ?m" "utop s1 = utop s" "others_keep s s1" by (simp_all add: uvm.wrote_def)
  from uvm.read_buffer_loop_ok [OF g(1), of a "length bs" raw'] assms(3) g(2,3) obtain s2 where
    s2: "read_buffer_loop krn (length bs) (of_nat a) raw' s1 = Inr (map ?m [a..<a + length bs], s2)" "uvm.kept krn s1 s2" by auto
  note rd = s2(1) [unfolded map_write_over [OF length_upto0]]
  have "others_keep s s2" using g(4) s2(2) others_keep_trans by (auto simp: uvm.kept_def)
  then show ?thesis using s1(1) rd s2(2) g(2,3) nz assms(4,5) upto0_all
    by (simp add: WriteBufferToUser_def ReadBufferFromUser_def uvm.kept_def others_keep_def)
qed

theorem user_copy_roundtrip_witness:
  "\<exists>s0 s s1 s2. sample_run s0 s \<and> WriteBufferToUser fault_code (\<lambda>_. 0) [1, 2, 3] (of_nat 126) 3 s = Inr s1
    \<and> ReadBufferFromUser fault_code 0 (of_nat 126) 3 s1 = Inr ([1, 2, 3, 0], s2)"
proof -
  from sample_runs obtain s0 s where s: "sample_run s0 s" "sys_ok s" "thisThread s = 0" "npages s = (\<lambda>_. 0)(0 := 17)" by blast
  have ut: "utop s = 2176" using s(3,4) by (simp add: utop_def PAGE_SIZE_def SECTOR_SIZE_def)
  have up: "upto0 [1, 2, 3] = [1, 2, 3]" by (simp add: upto0_def)
  from user_copy_roundtrip [of fault_code s 126 "[1, 2, 3]" "\<lambda>_. 0" 0] ready_good [OF sys_ready [OF s(2)]] ut s(1)
  show ?thesis unfolding up by (simp add: LSDIR_OUTPUT_def numeral_3_eq_3) blast
qed

section \<open>Processes\<close>

text \<open>
  C7. A context switch of user processes, with a dead thread to delete or none: the memory of every
  process that lives reads as before, the registers of the old process are saved and those of the new one
  are in the machine (register 0 is never written), nothing of the old process is left in the TLB, the pages
  of the dead one are gone, and the invariant holds.
\<close>

theorem context_switch:
  assumes "vm_inv s {}" "\<forall>d. dead = Some d \<longrightarrow> d \<noteq> t \<and> can_close d s"
  shows "\<exists>s'. Run_switch dead t s = Inr s' \<and> vm_inv s' {} \<and> thisThread s' = t \<and> tlb_empty s'
    \<and> (\<forall>p. npages s' p = (if dead = Some p then 0 else npages s p)
         \<and> (dead \<noteq> Some p \<longrightarrow> (\<forall>v < npages s p. vpage s' p v = vpage s p v)))
    \<and> (spaces s (thisThread s) \<noteq> None \<longrightarrow> userRegisters s' (thisThread s) = registers s)
    \<and> (spaces s t \<noteq> None \<and> t \<noteq> thisThread s \<longrightarrow> registers s' = (userRegisters s t)[0 := registers s ! 0])"
proof -
  from Run_switch_ok [OF assms] obtain s' where s': "Run_switch dead t s = Inr s'" "vm_inv s' {}" "thisThread s' = t" "tlb_empty s'"
    "\<forall>p. npages s' p = (if dead = Some p then 0 else npages s p)
         \<and> (dead \<noteq> Some p \<longrightarrow> static s' p = static s p \<and> (\<forall>v < npages s p. vpage s' p v = vpage s p v))"
    "spaces s (thisThread s) \<noteq> None \<longrightarrow> userRegisters s' (thisThread s) = registers s"
    "spaces s t \<noteq> None \<and> t \<noteq> thisThread s \<longrightarrow> registers s' = (userRegisters s t)[0 := registers s ! 0]" by blast
  then show ?thesis by (intro exI [of _ s']) simp
qed

theorem context_switch_witness:
  "\<exists>s0 s s'. sample_run s0 s \<and> Run_switch None 1 s = Inr s' \<and> thisThread s' = 1 \<and> npages s' 0 = 17 \<and> vpage s' 0 3 = vpage s 0 3"
proof -
  from sample_runs obtain s0 s where s: "sample_run s0 s" "sys_ok s" "npages s = (\<lambda>_. 0)(0 := 17)" by blast
  have "vm_inv s {}" "\<forall>d. None = Some d \<longrightarrow> d \<noteq> 1 \<and> can_close d s" using s(2) by (simp_all add: sys_ok_def ready_def)
  from context_switch [OF this] obtain s' where "Run_switch None 1 s = Inr s'" "thisThread s' = 1"
    "\<forall>p. npages s' p = npages s p \<and> (\<forall>v < npages s p. vpage s' p v = vpage s p v)" by auto
  with s show ?thesis by (intro exI [of _ s0] exI [of _ s] exI [of _ s']) simp
qed

text \<open>
  C10. The start of the system: \<open>Initialize\<close> on any disk that mounts, and \<open>StartProcess\<close> with the name of
  an executable of the host, give a first process with the code and data of the executable in its memory,
  zeros behind them, the registers of \<open>InitRegisters\<close>, and a state in which the invariant of system calls
  holds.
\<close>

theorem system_starts:
  assumes "FileSystem_new (no_open_files w) 0 format = Inr fs" "length d0 = nat Table_SIZE"
    and "hostOpen env filename = int x" "is_noff (hostFiles w x) cd dt bss" "hostOpen env (swap_name 0) = int fd" "x \<noteq> fd"
    and "length cd + length dt + unat bss + USER_STACK_SIZE < 2147483521"
  shows "\<exists>s s'. Initialize raw size0 d0 t0 inp w format = Inr (0, s) \<and> StartProgram env filename 0 s = Inr (True, s')
    \<and> sys_ok s' \<and> thisThread s' = 0 \<and> npages s' 0 = program_pages cd dt bss
    \<and> (\<forall>b < program_pages cd dt bss * PAGE_SIZE. umem s' b = image_byte (cd @ dt) b)
    \<and> registers s' = start_registers (program_pages cd dt bss)"
proof -
  from Initialize_ok [OF assms(1,2), of raw size0 t0 inp] obtain s where
    s: "Initialize raw size0 d0 t0 inp w format = Inr (0, s)" "sys_ok s" "tlb_empty s" "registers s = replicate NUM_TOTAL_REGS 0"
      "spaces s = (\<lambda>_. None)" "thisThread s = 0" "table_map (runningProcesses s) = [0 \<mapsto> 0]" "hostFiles (disk_world s) = hostFiles w" by blast
  have h: "is_noff (hostFiles (disk_world s) x) cd dt bss" using s(8) assms(4) by simp
  have ff: "fresh_fds s x fd" using s(5) assms(6) by (simp add: fresh_fds_def)
  have pre: "registers s ! 0 = 0" "spaces s (thisThread s) = None" "table_map (runningProcesses s) 0 = Some (thisThread s)"
    using s(4-7) by (simp_all add: NUM_TOTAL_REGS_def)
  from StartProgram_ok [where env = env and filename = filename, OF s(2,3) pre assms(3) h assms(5,7) ff] obtain s' where
    s': "StartProgram env filename 0 s = Inr (True, s')" "sys_ok s'" "thisThread s' = 0"
      "has_program s s' 0 (cd @ dt) (program_pages cd dt bss)" "registers s' = start_registers (program_pages cd dt bss)" using s(6) by auto
  have "npages s' 0 = program_pages cd dt bss" using s'(4) by (simp add: has_program_def)
  then show ?thesis using s(1) s' has_program_umem [OF s'(4,3)] by blast
qed

theorem system_starts_witness:
  "\<exists>s s'. Initialize (\<lambda>_. \<lparr>virtualPage = 0, physicalPage = 0, valid = False, readOnly = False, useBit = False, dirty = False\<rparr>) 0
      (replicate (nat Table_SIZE) 0) 0 [] sample_disk True = Inr (0, s)
    \<and> StartProgram sample_env prog_name 0 s = Inr (True, s') \<and> npages s' 0 = 17 \<and> umem s' 4 = 112"
proof -
  from sample_formats obtain fs where fs: "FileSystem_new (no_open_files sample_disk) 0 True = Inr fs" by blast
  have h: "is_noff (hostFiles sample_disk 7) sample_code sample_data 0" by (simp add: sample_disk_def noff_file_is_noff)
  have "(7 :: nat) \<noteq> 8" "length sample_code + length sample_data + unat (0 :: u32) + USER_STACK_SIZE < 2147483521"
    by (simp_all add: sample_code_def sample_data_def USER_STACK_SIZE_def)
  from system_starts [where env = sample_env and inp = "[]", OF fs _ sample_opens(1) h sample_opens(2) this, unfolded sample_pages,
      of "replicate (nat Table_SIZE) 0" "\<lambda>_. \<lparr>virtualPage = 0, physicalPage = 0, valid = False, readOnly = False, useBit = False, dirty = False\<rparr>" 0 0]
  obtain s s' where "Initialize (\<lambda>_. \<lparr>virtualPage = 0, physicalPage = 0, valid = False, readOnly = False, useBit = False, dirty = False\<rparr>) 0
      (replicate (nat Table_SIZE) 0) 0 [] sample_disk True = Inr (0, s)" "StartProgram sample_env prog_name 0 s = Inr (True, s')"
    "npages s' 0 = 17" "\<forall>b < 17 * PAGE_SIZE. umem s' b = image_byte (sample_code @ sample_data) b" by auto
  then show ?thesis by (simp add: PAGE_SIZE_def SECTOR_SIZE_def image_byte_def sample_code_def)
qed

text \<open>
  C4. \<open>Exec\<close> end to end: a process that passes a name and an array of arguments gets a new process, which
  when its thread is first switched to and runs \<open>StartProcess\<close> finds the program in its memory, the
  arguments as they were passed above it, their count and address in registers 4 and 5, and starts at
  address 0. The memory of every other process, the caller's too, reads as before the call.
\<close>

theorem exec_starts_program:
  assumes "sys_ok s" "no_load s" "registers s ! 2 = SC_EXEC" "exec_args s nm args" "exec_room s sid"
    and "exec_host env s nm sid cd dt bss" "args \<noteq> []"
    and "args_size args + 4 * length args + 24 \<le> program_pages cd dt bss * PAGE_SIZE"
  shows "\<exists>s' s2 s3. SyscallHandler env fault_code s = Inr (Some (ForkThread (freshThread s) (registers s ! 6 \<noteq> 0) (Some args)), s')
    \<and> sys_ok s' \<and> registers s' ! 2 = of_int sid \<and> Run_first (freshThread s) s' = Inr s2
    \<and> StartProcess fault_code raw (Some args) s2 = Inr s3 \<and> user_good fault_code s3 \<and> program_started s3 (cd @ dt) args
    \<and> (\<forall>p v. p \<noteq> freshThread s \<and> v < npages s p \<longrightarrow> vpage s' p v = vpage s p v \<and> vpage s3 p v = vpage s p v)"
proof -
  let ?t = "freshThread s"
  from exec_handler_ok [OF assms(1-6)] obtain s' where
    s': "SyscallHandler env fault_code s = Inr (Some (ForkThread ?t (registers s ! 6 \<noteq> 0) (Some args)), s')" "sys_ok s'"
      "has_program s s' ?t (cd @ dt) (program_pages cd dt bss)" "thisThread s' = thisThread s" "registers s' ! 2 = of_int sid"
      "registers s' ! 0 = 0" "userRegisters s' = userRegisters s"
    and q: "\<exists>q. spaces s' ?t = Some q \<and> numPages q = of_nat (program_pages cd dt bss) \<and> length (pages q) = program_pages cd dt bss" by blast
  have sz: "length cd + length dt + unat bss + USER_STACK_SIZE < 1073741824" "args_ok args"
    using assms(4,6) by (simp_all add: exec_host_def exec_args_def)
  from process_starts [where raw = raw, OF s'(2,3,6) q sz(1) assms(7) sz(2) assms(8)] obtain s2 s3 where
    s3: "Run_first ?t s' = Inr s2" "StartProcess fault_code raw (Some args) s2 = Inr s3" "user_good fault_code s3"
      "program_started s3 (cd @ dt) args" "\<forall>p v. p \<noteq> ?t \<and> v < npages s p \<longrightarrow> vpage s3 p v = vpage s p v" by auto
  have "\<forall>p v. p \<noteq> ?t \<and> v < npages s p \<longrightarrow> vpage s' p v = vpage s p v" using s'(3) by (simp add: has_program_def)
  then show ?thesis using s'(1,2,5) s3 by blast
qed

theorem exec_starts_program_witness:
  "\<exists>s0 s s' s2 s3. sample_run s0 s
    \<and> SyscallHandler sample_env fault_code (s\<lparr>registers := exec_registers\<rparr>) = Inr (Some (ForkThread 1 False (Some [[120, 0]])), s')
    \<and> registers s' ! 2 = 1 \<and> Run_first 1 s' = Inr s2 \<and> StartProcess fault_code (\<lambda>_. 0) (Some [[120, 0]]) s2 = Inr s3
    \<and> program_started s3 (sample_code @ sample_data) [[120, 0]]"
proof -
  from sample_exec obtain s0 s where s: "sample_run s0 s" "sys_ok (s\<lparr>registers := exec_registers\<rparr>)" "no_load (s\<lparr>registers := exec_registers\<rparr>)"
    "exec_args (s\<lparr>registers := exec_registers\<rparr>) prog_name [[120, 0]]" "exec_room (s\<lparr>registers := exec_registers\<rparr>) 1"
    "exec_host sample_env (s\<lparr>registers := exec_registers\<rparr>) prog_name 1 sample_code sample_data 0"
    "freshThread s = 1" "userRegisters s = (\<lambda>_. replicate NUM_TOTAL_REGS 0)" by auto
  have r: "registers (s\<lparr>registers := exec_registers\<rparr>) ! 2 = SC_EXEC" "exec_registers ! 6 = 0"
    by (simp_all add: exec_registers_def start_registers_def reg_defs STACK_REG_def)
  from exec_starts_program [where raw = "\<lambda>_. 0", OF s(2,3) r(1) s(4-6)] s(1,7,8) r(2)
  show ?thesis by (auto simp: sample_pages args_size_def PAGE_SIZE_def SECTOR_SIZE_def) blast
qed

section \<open>System calls\<close>

lemma user_bytes:
  assumes "sys_ok s" "no_load s" "0 < a" "a + n \<le> utop s" "0 < n" "n \<le> LSDIR_OUTPUT"
  shows "\<exists>s1. ReadBufferFromUser fault_code raw (of_nat a) n s = Inr (map (umem s) [a..<a + n] @ [0], s1)
    \<and> consoleOut s1 = consoleOut s \<and> registers s1 ! NEXT_PC_REG = registers s ! NEXT_PC_REG \<and> length (registers s1) = NUM_TOTAL_REGS"
proof -
  note g = ready_good [OF sys_ready [OF assms(1)]]
  have nz: "(of_nat a :: u32) \<noteq> 0" by (rule addr_nonzero [OF g assms(3)]) (use assms(4,5) in simp)
  from uvm.read_buffer_loop_ok [OF g assms(4), of raw] obtain s1 where
    "read_buffer_loop fault_code n (of_nat a) raw s = Inr (map (umem s) [a..<a + n], s1)" by auto
  then have rb: "ReadBufferFromUser fault_code raw (of_nat a) n s = Inr (map (umem s) [a..<a + n] @ [0], s1)"
    using nz assms(5,6) by (simp add: ReadBufferFromUser_def)
  have c: "calm False s s1" by (rule ReadBufferFromUser_calm [OF sys_ready [OF assms(1)] rb])
  then have "consoleOut s1 = consoleOut s" "registers s1 ! NEXT_PC_REG = registers s ! NEXT_PC_REG" "length (registers s1) = NUM_TOTAL_REGS"
    using assms(2) by (auto simp: calm_def quiet_def aux_def same_regs_def reg_defs ready_def)
  then show ?thesis using rb by blast
qed

text \<open>
  C3. System calls and protection: whatever a process passes in its registers, a system call other than
  \<open>Exec\<close> that comes back leaves the invariant intact and every page of every other process as it was, and
  those of the caller too unless the call is \<open>Read\<close> or \<open>LsDir\<close>.
\<close>

theorem syscall_isolation:
  assumes "sys_ok s" "SyscallHandler env fault_code s = Inr (c, s')" "registers s ! 2 \<noteq> SC_EXEC"
  shows "sys_ok s' \<and> thisThread s' = thisThread s
    \<and> (\<forall>t. npages s' t = npages s t \<and> (\<forall>v < npages s t. t \<noteq> thisThread s \<or> registers s ! 2 \<notin> {SC_READ, SC_LSDIR} \<longrightarrow> vpage s' t v = vpage s t v))"
  using SyscallHandler_isolated [OF assms(2,1,3)] by (auto simp: isolated_def writes_memory_def)

theorem syscall_isolation_witness:
  "\<exists>s0 s s'. sample_run s0 s \<and> SyscallHandler sample_env fault_code (s\<lparr>registers := (start_registers 17)[2 := SC_CREATE]\<rparr>) = Inr (None, s')
    \<and> sys_ok s' \<and> vpage s' 0 0 = vpage (s\<lparr>registers := (start_registers 17)[2 := SC_CREATE]\<rparr>) 0 0"
proof -
  from sample_runs obtain s0 s where s: "sample_run s0 s" "sys_ok s" "npages s = (\<lambda>_. 0)(0 := 17)" by blast
  let ?r = "(start_registers 17)[2 := SC_CREATE]" and ?s = "s\<lparr>registers := (start_registers 17)[2 := SC_CREATE]\<rparr>"
  have r: "length ?r = NUM_TOTAL_REGS" "?r ! LOAD_REG = 0" "?r ! 2 = SC_CREATE" "?r ! 4 = 0"
    by (simp_all add: start_registers_def reg_defs STACK_REG_def)
  have o: "sys_ok ?s" "same_memory s ?s" using registers_ok [OF s(2) r(1)] r(2) by (simp_all add: NUM_GP_REGS_def)
  have "syscall sample_env fault_code SC_CREATE ?s = Inr (None, ?s\<lparr>registers := ?r[2 := 1]\<rparr>)"
    using r by (simp add: syscall_def SC_defs sys_create_def ReadRegister_def result_def WriteRegister_def NUM_TOTAL_REGS_def)
  then obtain s' where s': "SyscallHandler sample_env fault_code ?s = Inr (None, s')"
    using IncrementPC_ok [of "?s\<lparr>registers := ?r[2 := 1]\<rparr>"] r(1,3) by (simp add: SyscallHandler_def ReadRegister_def NUM_TOTAL_REGS_def)
  have "registers ?s ! 2 \<noteq> SC_EXEC" "registers ?s ! 2 \<notin> {SC_READ, SC_LSDIR}" "0 < npages ?s 0"
    using r(3) s(3) o(2) by (simp_all add: SC_defs same_memory_def)
  with syscall_isolation [OF o(1) s'] s' s(1) show ?thesis by blast
qed

text \<open>
  C14. \<open>Write\<close> to the console: up to \<open>LSDIR_OUTPUT\<close> bytes of the caller's memory, page faults or not, are
  appended to the console's output and their number is returned, and the memory of the caller does not
  change. With more bytes an \<open>ASSERT\<close> stops the whole system.
\<close>

theorem console_write:
  assumes "sys_ok s" "no_load s" "registers s ! 2 = SC_WRITE" "registers s ! 4 = of_nat a" "registers s ! 5 = of_nat n" "registers s ! 6 = 1"
    and "0 < a" "a + n \<le> utop s" "0 < n" "n < 2147483648"
  shows "if n \<le> LSDIR_OUTPUT
    then \<exists>s'. SyscallHandler env fault_code s = Inr (None, s') \<and> consoleOut s' = consoleOut s @ map (umem s) [a..<a + n]
           \<and> registers s' ! 2 = of_nat n \<and> registers s' ! PC_REG = registers s ! NEXT_PC_REG \<and> sys_ok s' \<and> umem s' = umem s
    else SyscallHandler env fault_code s = Inl AssertFailed"
proof -
  have un: "unat (of_nat n :: u32) = n" using assms(10) by (intro unat_small) simp
  then have "uint (of_nat n :: u32) = int n" by (metis uint_nat)
  then have sn: "sint (of_nat n :: u32) = int n" using assms(10) by (simp add: sint_cases)
  note g = ready_good [OF sys_ready [OF assms(1)]]
  have nz: "(of_nat a :: u32) \<noteq> 0" by (rule addr_nonzero [OF g assms(7)]) (use assms(8,9) in simp)
  then have ok: "transfer_args_ok (of_nat a) (of_nat n) 1" using sn assms(9) by (simp add: transfer_args_ok_def)
  have w: "sys_write env fault_code s = rbind (ReadBufferFromUser fault_code (rawWord env 0) (of_nat a) n s) (\<lambda>(buffer, s1).
      result (of_nat n) (s1\<lparr>consoleOut := consoleOut s1 @ take n buffer\<rparr>))"
    using assms(4-6) ok un by (simp add: sys_write_def ReadRegister_def NUM_TOTAL_REGS_def CONSOLE_OUTPUT_def Let_def)
  have h: "SyscallHandler env fault_code s = rbind (sys_write env fault_code s) (\<lambda>(c, s1).
      case c of Some (FinishThread _) \<Rightarrow> Inr (c, s1) | Some (JoinThread _) \<Rightarrow> Inr (c, s1) | _ \<Rightarrow> rbind (IncrementPC s1) (\<lambda>s2. Inr (c, s2)))"
    using assms(3) by (simp add: SyscallHandler_def ReadRegister_def NUM_TOTAL_REGS_def syscall_def SC_defs)
  show ?thesis
  proof (cases "n \<le> LSDIR_OUTPUT")
    case True
    from user_bytes [OF assms(1,2,7,8,9) True, of "rawWord env 0"] obtain s1 where
      rb: "ReadBufferFromUser fault_code (rawWord env 0) (of_nat a) n s = Inr (map (umem s) [a..<a + n] @ [0], s1)"
      and a1: "consoleOut s1 = consoleOut s" "registers s1 ! NEXT_PC_REG = registers s ! NEXT_PC_REG" and len: "length (registers s1) = NUM_TOTAL_REGS" by blast
    let ?s2 = "s1\<lparr>consoleOut := consoleOut s @ map (umem s) [a..<a + n]\<rparr>"
    let ?s3 = "?s2\<lparr>registers := (registers s1)[2 := of_nat n]\<rparr>"
    have wr: "sys_write env fault_code s = Inr (None, ?s3)"
      unfolding w rb using len a1(1) by (simp add: result_def WriteRegister_def NUM_TOTAL_REGS_def)
    have ip: "IncrementPC ?s3 = Inr (?s3\<lparr>registers := (registers s1)[2 := of_nat n, PREV_PC_REG := registers s1 ! PC_REG,
        PC_REG := registers s1 ! NEXT_PC_REG, NEXT_PC_REG := registers s1 ! NEXT_PC_REG + 4]\<rparr>)"
      using IncrementPC_ok [of ?s3] len by (simp add: reg_defs)
    let ?s4 = "?s3\<lparr>registers := (registers s1)[2 := of_nat n, PREV_PC_REG := registers s1 ! PC_REG,
        PC_REG := registers s1 ! NEXT_PC_REG, NEXT_PC_REG := registers s1 ! NEXT_PC_REG + 4]\<rparr>"
    have e: "SyscallHandler env fault_code s = Inr (None, ?s4)" unfolding h wr using ip by simp
    have "isolated (writes_memory (registers s ! 2)) s ?s4"
      by (rule SyscallHandler_isolated [OF e assms(1)]) (simp add: assms(3) SC_defs)
    then have i4: "isolated False s ?s4" by (simp add: assms(3) writes_memory_def SC_defs)
    have "umem ?s4 = umem s" using same_memory_umem [OF isolated_memory [OF i4]] by blast
    then show ?thesis using True e a1 len isolated_ok [OF i4] by (simp add: reg_defs)
  next
    case False
    then show ?thesis unfolding h w using nz by (simp add: ReadBufferFromUser_def)
  qed
qed

theorem console_write_witness:
  "\<exists>s0 s s'. sample_run s0 s \<and> SyscallHandler sample_env fault_code (s\<lparr>registers := (start_registers 17)[2 := SC_WRITE, 4 := 4, 5 := 4, 6 := 1]\<rparr>) = Inr (None, s')
    \<and> consoleOut s' = consoleOut s @ [112, 114, 111, 103] \<and> registers s' ! 2 = 4"
proof -
  from sample_runs obtain s0 s where s: "sample_run s0 s" "sys_ok s" "thisThread s = 0" "npages s = (\<lambda>_. 0)(0 := 17)"
    "\<forall>b < 2176. umem s b = image_byte (sample_code @ sample_data) b" by blast
  let ?r = "(start_registers 17)[2 := SC_WRITE, 4 := 4, 5 := 4, 6 := 1]" and ?s = "s\<lparr>registers := (start_registers 17)[2 := SC_WRITE, 4 := 4, 5 := 4, 6 := 1]\<rparr>"
  have r: "length ?r = NUM_TOTAL_REGS" "?r ! LOAD_REG = 0" "?r ! 0 = 0" "?r ! 2 = SC_WRITE" "?r ! 4 = of_nat 4" "?r ! 5 = of_nat 4" "?r ! 6 = 1"
    by (simp_all add: start_registers_def reg_defs STACK_REG_def)
  have o: "sys_ok ?s" "same_memory s ?s" using registers_ok [OF s(2) r(1)] r(2) by (simp_all add: NUM_GP_REGS_def)
  have m: "utop ?s = 2176" "umem ?s = umem s" using same_memory_umem [OF o(2)] s(3,4) by (simp_all add: utop_def PAGE_SIZE_def SECTOR_SIZE_def)
  have u: "map (umem s) [4..<8] = [112, 114, 111, 103]"
    using s(5) by (simp add: upt_conv_Cons image_byte_def sample_code_def)
  have "no_load ?s" using r(2,3) by (simp add: no_load_def)
  from console_write [where env = sample_env, OF o(1) this, of 4 4] r m u
  obtain s' where "SyscallHandler sample_env fault_code ?s = Inr (None, s')" "consoleOut s' = consoleOut s @ [112, 114, 111, 103]" "registers s' ! 2 = 4"
    by (auto simp: LSDIR_OUTPUT_def)
  with s(1) show ?thesis by blast
qed

end
